(* ===== verification/Prelude.thy ===== *)
theory Prelude
  imports Main "HOL-Library.Word"
begin

text \<open>
  Shared vocabulary of the development: names for the machine integers of the Rust code
  (\<open>u8\<close> to \<open>u64\<close> are words of that width, \<open>usize\<close> counts are \<open>nat\<close>), byte strings, and the
  generic facts on lists and sets the component theories share.
\<close>

unbundle bit_operations_syntax

type_synonym u8 = "8 word"
type_synonym u16 = "16 word"
type_synonym u32 = "32 word"
type_synonym u64 = "64 word"
type_synonym bytes = "u8 list"

abbreviation u64_max :: u64 where "u64_max \<equiv> - 1"

text \<open>
  Collections: \<open>codec\<close> gathers the equations that make encoders and decoders meet,
  \<open>frame\<close> the equations saying which fields an operation leaves alone.
\<close>

named_theorems codec
named_theorems frame

lemma le_u64_max [simp]: "x \<le> u64_max" for x :: u64
  by (rule word_n1_ge)

lemma not_u64_max_less [simp]: "\<not> u64_max < x" for x :: u64
  by (simp add: not_less)

text \<open>Running a fallible step over a list: the first refusal stops the run.\<close>

fun run_list :: "('s \<Rightarrow> 'e \<Rightarrow> 's option) \<Rightarrow> 's \<Rightarrow> 'e list \<Rightarrow> 's option" where
  "run_list f s [] = Some s"
| "run_list f s (x # xs) = (case f s x of None \<Rightarrow> None | Some s' \<Rightarrow> run_list f s' xs)"

lemma run_list_append:
  "run_list f s (xs @ ys) = (case run_list f s xs of None \<Rightarrow> None | Some s' \<Rightarrow> run_list f s' ys)"
  by (induction xs arbitrary: s) (auto split: option.splits)

lemma run_list_prefix: "run_list f s (xs @ ys) \<noteq> None \<Longrightarrow> run_list f s xs \<noteq> None"
  by (auto simp: run_list_append split: option.splits)

text \<open>
  The positions of a list that survive a filter, in order: the bridge between a sub-list and
  the positions of the whole list.
\<close>

definition positions :: "('a \<Rightarrow> bool) \<Rightarrow> 'a list \<Rightarrow> nat list" where
  "positions P xs = filter (\<lambda>i. P (xs ! i)) [0..<length xs]"

lemma map_positions: "map ((!) xs) (positions P xs) = filter P xs"
proof -
  have "filter P (map ((!) xs) [0..<length xs]) = map ((!) xs) (positions P xs)"
    by (simp add: positions_def filter_map comp_def)
  then show ?thesis by (simp add: map_nth)
qed

lemma set_positions: "set (positions P xs) = {i. i < length xs \<and> P (xs ! i)}"
  by (auto simp: positions_def)

lemma distinct_positions: "distinct (positions P xs)"
  by (simp add: positions_def)

lemma length_positions: "length (positions P xs) = length (filter P xs)"
  by (metis length_map map_positions)

lemma bij_positions:
  "bij_betw ((!) (positions P xs)) {..<length (filter P xs)} {i. i < length xs \<and> P (xs ! i)}"
  using bij_betw_nth [OF distinct_positions [of P xs] refl refl]
  by (simp add: length_positions set_positions)

lemma nth_filter_positions:
  "k < length (filter P xs) \<Longrightarrow> filter P xs ! k = xs ! (positions P xs ! k)"
  by (metis length_map map_positions nth_map)

lemma distinct_by_key: "(\<And>k. distinct (filter (\<lambda>x. g x = k) xs)) \<Longrightarrow> distinct xs"
proof (induction xs)
  case Nil
  then show ?case by simp
next
  case (Cons x xs)
  have "distinct (filter (\<lambda>y. g y = k) xs)" for k
    using Cons.prems [of k] by (simp split: if_splits)
  then have "distinct xs" by (rule Cons.IH)
  moreover have "x \<notin> set xs" using Cons.prems [of "g x"] by simp
  ultimately show ?case by simp
qed

lemma nth_append_Cons_length [simp]: "(xs @ y # ys) ! length xs = y"
  by simp

lemma split_front:
  assumes "xs @ ys = us @ vs" "length us \<le> length xs"
  shows "xs = us @ drop (length us) xs \<and> vs = drop (length us) xs @ ys"
proof -
  have "take (length us) (xs @ ys) = us" using assms(1) by simp
  then have t: "take (length us) xs = us" using assms(2) by simp
  then have x: "xs = us @ drop (length us) xs" by (metis append_take_drop_id)
  then have "us @ drop (length us) xs @ ys = us @ vs" using assms(1) by (metis append_assoc)
  then show ?thesis using x by simp
qed

lemma nth_take_set:
  "x \<in> set (take k xs) \<longleftrightarrow> (\<exists>j < k. j < length xs \<and> xs ! j = x)"
  by (auto simp: in_set_conv_nth)

lemma takeWhile_last_split:
  assumes "\<exists>x \<in> set xs. P x"
  shows "\<exists>ys y zs. xs = ys @ y # zs \<and> P y \<and> (\<forall>z \<in> set zs. \<not> P z)"
  using split_list_last_prop [OF assms] by blast

text \<open>
  Stateful operations that may fail: a \<open>&mut self\<close> method returning a \<open>Result\<close> is a function of
  the state to the result and the new state (which is kept on an error too); \<open>None\<close> is a panic.
\<close>

type_synonym ('s, 'e, 'a) st = "'s \<Rightarrow> (('e + 'a) \<times> 's) option"

definition st_return :: "'a \<Rightarrow> ('s, 'e, 'a) st" where
  "st_return x s = Some (Inr x, s)"

definition st_fail :: "'e \<Rightarrow> ('s, 'e, 'a) st" where
  "st_fail e s = Some (Inl e, s)"

definition st_lift :: "'e + 'a \<Rightarrow> ('s, 'e, 'a) st" where
  "st_lift r s = Some (r, s)"

definition st_get :: "('s \<Rightarrow> 'a) \<Rightarrow> ('s, 'e, 'a) st" where
  "st_get f s = Some (Inr (f s), s)"

definition st_modify :: "('s \<Rightarrow> 's) \<Rightarrow> ('s, 'e, unit) st" where
  "st_modify f s = Some (Inr (), f s)"

definition st_bind :: "('s, 'e, 'a) st \<Rightarrow> ('a \<Rightarrow> ('s, 'e, 'b) st) \<Rightarrow> ('s, 'e, 'b) st" where
  "st_bind m f s =
     (case m s of
        None \<Rightarrow> None
      | Some (Inl e, s') \<Rightarrow> Some (Inl e, s')
      | Some (Inr x, s') \<Rightarrow> f x s')"

lemma st_bind_return [simp]: "st_bind (st_return x) f = f x"
  by (simp add: st_bind_def st_return_def fun_eq_iff)

lemma st_bind_modify [simp]: "st_bind (st_modify g) f s = f () (g s)"
  by (simp add: st_bind_def st_modify_def)

lemma st_bind_get [simp]: "st_bind (st_get h) f s = f (h s) s"
  by (simp add: st_bind_def st_get_def)

lemma st_bind_lift [simp]:
  "st_bind (st_lift (Inr x)) f = f x" "st_bind (st_lift (Inl e)) f s = Some (Inl e, s)"
  by (simp_all add: st_bind_def st_lift_def fun_eq_iff)

lemma st_bind_fail [simp]: "st_bind (st_fail e) f s = Some (Inl e, s)"
  by (simp add: st_bind_def st_fail_def)

lemma st_bindE:
  assumes "st_bind m f s = Some (Inr y, s')"
  obtains x s1 where "m s = Some (Inr x, s1)" "f x s1 = Some (Inr y, s')"
  using assms by (auto simp: st_bind_def split: option.splits sum.splits)

lemma st_run [simp]:
  "st_return x s = Some (Inr x, s)" "st_fail e s = Some (Inl e, s)"
  "st_modify g s = Some (Inr (), g s)" "st_lift r s = Some (r, s)" "st_get h s = Some (Inr (h s), s)"
  by (simp_all add: st_return_def st_modify_def st_lift_def st_fail_def st_get_def)

text \<open>A \<open>for\<close> loop over a stateful operation, collecting its results.\<close>

fun st_each :: "('a \<Rightarrow> ('s, 'e, 'b) st) \<Rightarrow> 'a list \<Rightarrow> ('s, 'e, 'b list) st" where
  "st_each f [] = st_return []"
| "st_each f (x # xs) = st_bind (f x) (\<lambda>y. st_bind (st_each f xs) (\<lambda>ys. st_return (y # ys)))"

lemma st_each_Cons_ok:
  "f x s = Some (Inr y, s1) \<Longrightarrow> st_each f xs s1 = Some (Inr ys, s2) \<Longrightarrow>
     st_each f (x # xs) s = Some (Inr (y # ys), s2)"
  by (simp add: st_bind_def)

lemma st_each_ConsE:
  assumes "st_each f (x # xs) s = Some (Inr zs, s2)"
  obtains y s1 ys where "f x s = Some (Inr y, s1)" "st_each f xs s1 = Some (Inr ys, s2)" "zs = y # ys"
  using assms by (auto simp: st_bind_def split: option.splits sum.splits)

section \<open>Results\<close>

text \<open>\<open>Result\<close> values: \<open>?\<close>, \<open>ok_or\<close>, and a loop that stops at the first error.\<close>

definition sum_bind :: "'e + 'a \<Rightarrow> ('a \<Rightarrow> 'e + 'b) \<Rightarrow> 'e + 'b" where
  "sum_bind r f = (case r of Inl e \<Rightarrow> Inl e | Inr x \<Rightarrow> f x)"

definition ok_or :: "'e \<Rightarrow> 'a option \<Rightarrow> 'e + 'a" where
  "ok_or e x = (case x of None \<Rightarrow> Inl e | Some y \<Rightarrow> Inr y)"

fun map_ok :: "('a \<Rightarrow> 'e + 'b) \<Rightarrow> 'a list \<Rightarrow> 'e + 'b list" where
  "map_ok f [] = Inr []"
| "map_ok f (x # xs) = sum_bind (f x) (\<lambda>y. sum_bind (map_ok f xs) (\<lambda>ys. Inr (y # ys)))"

lemma sum_bind_simps [simp]: "sum_bind (Inl e) f = Inl e" "sum_bind (Inr x) f = f x"
  by (simp_all add: sum_bind_def)

lemma sum_bind_eq_Inr: "sum_bind r f = Inr y \<longleftrightarrow> (\<exists>x. r = Inr x \<and> f x = Inr y)"
  by (cases r) auto

lemma sum_bindE:
  assumes "sum_bind r f = Inr y"
  obtains x where "r = Inr x" "f x = Inr y"
  using assms by (cases r) auto

lemma ok_or_eq_Inr [simp]: "ok_or e x = Inr y \<longleftrightarrow> x = Some y"
  by (cases x) (auto simp: ok_or_def)

lemma map_ok_eq_Inr: "map_ok f xs = Inr ys \<longleftrightarrow> list_all2 (\<lambda>x y. f x = Inr y) xs ys"
  by (induction xs arbitrary: ys) (auto simp: sum_bind_eq_Inr list_all2_Cons1)

text \<open>\<open>iter().find(p)\<close>.\<close>

definition find_first :: "('a \<Rightarrow> bool) \<Rightarrow> 'a list \<Rightarrow> 'a option" where
  "find_first p xs = (case filter p xs of [] \<Rightarrow> None | x # _ \<Rightarrow> Some x)"

lemma find_first_Some: "find_first p xs = Some x \<Longrightarrow> x \<in> set xs \<and> p x"
  by (auto simp: find_first_def split: list.splits dest: filter_eq_ConsD)

end
