(* ===== verification/Lin_History.thy ===== *)
theory Lin_History
  imports Prelude
begin

text \<open>
  The data of the linearizability checker, \<^verbatim>\<open>disttest/src/lin/mod.rs\<close>: operations, outcomes,
  history entries, the recorder that builds them, the queries a report asks of a history, and
  the sequential model of one key (\<open>step\<close>).
\<close>

section \<open>Operations, outcomes, entries\<close>

datatype op =
    Read
  | Write bytes
  | Delete
  | Cas (cas_expect: "bytes option") (cas_new: bytes)

datatype outcome =
    Value "bytes option"
  | Ok
  | Swapped bool
  | Unknown

record entry =
  e_id :: nat
  e_client :: nat
  e_key :: string
  e_op :: op
  e_outcome :: outcome
  e_call_ns :: u64
  e_ret_ns :: u64
  e_note :: string

definition is_unknown :: "entry \<Rightarrow> bool" where
  "is_unknown e \<longleftrightarrow> e_outcome e = Unknown"

text \<open>The hand-written \<open>PartialEq\<close> of \<open>Entry\<close>: the client and the note do not count.\<close>

definition entry_eq :: "entry \<Rightarrow> entry \<Rightarrow> bool" where
  "entry_eq a b \<longleftrightarrow>
     e_id a = e_id b \<and> e_key a = e_key b \<and> e_op a = e_op b \<and> e_outcome a = e_outcome b \<and>
     e_call_ns a = e_call_ns b \<and> e_ret_ns a = e_ret_ns b"

text \<open>\<open>Recorder::entry\<close>: an operation without an answer never returns.\<close>

definition recorder_entry ::
  "nat \<Rightarrow> string \<Rightarrow> op \<Rightarrow> outcome \<Rightarrow> u64 \<Rightarrow> u64 \<Rightarrow> string \<Rightarrow> entry" where
  "recorder_entry client key oper out call_ns ret_ns note =
     \<lparr>e_id = 0, e_client = client, e_key = key, e_op = oper, e_outcome = out,
      e_call_ns = call_ns,
      e_ret_ns = (if out = Unknown then u64_max else ret_ns),
      e_note = note\<rparr>"

section \<open>Histories\<close>

record history =
  entries :: "entry list"

definition history_new :: history where
  "history_new = \<lparr>entries = []\<rparr>"

definition history_push :: "history \<Rightarrow> entry \<Rightarrow> history" where
  "history_push h e =
     h\<lparr>entries := entries h @ [e\<lparr>e_id := length (entries h)\<rparr>]\<rparr>"

definition history_len :: "history \<Rightarrow> nat" where
  "history_len h = length (entries h)"

definition history_is_empty :: "history \<Rightarrow> bool" where
  "history_is_empty h \<longleftrightarrow> entries h = []"

definition answered_reads :: "history \<Rightarrow> nat" where
  "answered_reads h =
     length (filter (\<lambda>e. case e_outcome e of Value _ \<Rightarrow> True | _ \<Rightarrow> False) (entries h))"

definition acknowledged_updates :: "history \<Rightarrow> nat" where
  "acknowledged_updates h =
     length (filter (\<lambda>e. case e_outcome e of Ok \<Rightarrow> True | Swapped _ \<Rightarrow> True | _ \<Rightarrow> False)
       (entries h))"

definition unknowns :: "history \<Rightarrow> nat" where
  "unknowns h = length (filter is_unknown (entries h))"

definition for_key :: "history \<Rightarrow> string \<Rightarrow> entry list" where
  "for_key h k = filter (\<lambda>e. e_key e = k) (entries h)"

text \<open>\<open>History::keys\<close>: the loop carries the set of keys seen and the output.\<close>

fun keys_loop :: "string set \<Rightarrow> string list \<Rightarrow> entry list \<Rightarrow> string list" where
  "keys_loop seen out [] = out"
| "keys_loop seen out (e # es) =
     (if e_key e \<in> seen then keys_loop seen out es
      else keys_loop (insert (e_key e) seen) (out @ [e_key e]) es)"

definition history_keys :: "history \<Rightarrow> string list" where
  "history_keys h = keys_loop {} [] (entries h)"

fun per_key_counts_loop :: "(string \<rightharpoonup> nat) \<Rightarrow> entry list \<Rightarrow> (string \<rightharpoonup> nat)" where
  "per_key_counts_loop m [] = m"
| "per_key_counts_loop m (e # es) =
     per_key_counts_loop
       (m(e_key e \<mapsto> (case m (e_key e) of None \<Rightarrow> 0 | Some n \<Rightarrow> n) + 1)) es"

definition per_key_counts :: "history \<Rightarrow> (string \<rightharpoonup> nat)" where
  "per_key_counts h = per_key_counts_loop Map.empty (entries h)"

section \<open>The sequential model of one key\<close>

type_synonym state = "bytes option"

fun step_op :: "state \<Rightarrow> op \<Rightarrow> outcome \<Rightarrow> state option" where
  "step_op st Read (Value v) = (if st = v then Some st else None)"
| "step_op st Read Unknown = Some st"
| "step_op st (Write v) Ok = Some (Some v)"
| "step_op st (Write v) Unknown = Some (Some v)"
| "step_op st Delete Ok = Some None"
| "step_op st Delete Unknown = Some None"
| "step_op st (Cas expect new) (Swapped True) = (if st = expect then Some (Some new) else None)"
| "step_op st (Cas expect new) (Swapped False) = (if st \<noteq> expect then Some st else None)"
| "step_op st (Cas expect new) Unknown = Some (if st = expect then Some new else st)"
| "step_op st _ _ = None"

definition step :: "state \<Rightarrow> entry \<Rightarrow> state option" where
  "step st e = step_op st (e_op e) (e_outcome e)"

section \<open>Facts\<close>

lemma set_keys_loop: "set (keys_loop seen out es) = set out \<union> (e_key ` set es - seen)"
  by (induction seen out es rule: keys_loop.induct) auto

lemma distinct_keys_loop:
  "distinct out \<Longrightarrow> set out = seen \<Longrightarrow> distinct (keys_loop seen out es)"
  by (induction seen out es rule: keys_loop.induct) auto

lemma set_history_keys: "set (history_keys h) = e_key ` set (entries h)"
  by (simp add: history_keys_def set_keys_loop)

lemma distinct_history_keys: "distinct (history_keys h)"
  by (simp add: history_keys_def distinct_keys_loop)

lemma per_key_counts_loop_eq:
  "per_key_counts_loop m es k =
     (if k \<in> e_key ` set es
      then Some ((case m k of None \<Rightarrow> 0 | Some n \<Rightarrow> n) + length (filter (\<lambda>e. e_key e = k) es))
      else m k)"
  by (induction es arbitrary: m) (auto simp: filter_empty_conv image_iff split: option.splits)

lemma per_key_counts_for_key:
  "per_key_counts h k =
     (if k \<in> set (history_keys h) then Some (length (for_key h k)) else None)"
  by (simp add: per_key_counts_def per_key_counts_loop_eq set_history_keys for_key_def)

text \<open>An unknown outcome only relaxes the guard; it never forks the model.\<close>

lemma step_op_relax: "step_op st p out = Some st' \<Longrightarrow> step_op st p Unknown = Some st'"
  by (induction st p out rule: step_op.induct) (auto split: if_splits)

lemma step_relax:
  "step st e = Some st' \<Longrightarrow> step st (e\<lparr>e_outcome := Unknown, e_ret_ns := r\<rparr>) = Some st'"
  by (simp add: step_def step_op_relax)

end
