(* ===== verification/Lin_Search.thy ===== *)
theory Lin_Search
  imports Lin_History
begin

text \<open>
  The backtracking search of \<^verbatim>\<open>disttest/src/lin/mod.rs\<close> (\<open>Search\<close>): the mutable state with its
  bitmap, the candidate rule, the memo table and the budget. \<open>recurse\<close> carries a depth bound;
  running out of it is \<open>None\<close>, and \<open>recurse_total\<close> shows that one more than the number of
  remaining operations is always enough.

  The abstract search is \<open>can_finish\<close>: from a set of remaining operations and a model state,
  candidates can be picked until no answered operation is left. The main lemma,
  \<open>recurse_correct\<close>, shows that the memoised, bitmap-keyed search decides it.
\<close>

section \<open>The state of the search\<close>

record search =
  s_entries :: "entry list"
  remaining :: "bool list"
  mask :: "u64 list"
  order :: "nat list"
  seen :: "(u64 list \<times> state) set"
  states :: nat
  budget :: nat
  exhausted_budget :: bool
  best_attempt :: "nat list"
  best_state :: "state option"
  known_left :: nat

definition search_new :: "entry list \<Rightarrow> nat \<Rightarrow> search" where
  "search_new es b =
     \<lparr>s_entries = es,
      remaining = replicate (length es) True,
      mask = replicate (max ((length es + 63) div 64) 1) 0,
      order = [], seen = {}, states = 0, budget = b, exhausted_budget = False,
      best_attempt = [], best_state = None,
      known_left = length (filter (\<lambda>e. \<not> is_unknown e) es)\<rparr>"

definition set_linearized :: "nat \<Rightarrow> bool \<Rightarrow> search \<Rightarrow> search" where
  "set_linearized i linearized s =
     (let w = i div 64; b = push_bit (i mod 64) (1 :: u64)
      in s\<lparr>remaining := (remaining s)[i := \<not> linearized],
           mask := (mask s)[w := (if linearized then mask s ! w OR b
                                  else mask s ! w AND NOT b)]\<rparr>)"

text \<open>The smallest return instant among the remaining operations.\<close>

definition min_ret :: "search \<Rightarrow> u64" where
  "min_ret s =
     (case map (\<lambda>i. e_ret_ns (s_entries s ! i))
             (filter (\<lambda>i. remaining s ! i) [0..<length (s_entries s)]) of
        [] \<Rightarrow> u64_max
      | r # rs \<Rightarrow> fold min rs r)"

text \<open>Choosing operation \<open>i\<close>, and putting it back when the branch has died.\<close>

definition descend :: "nat \<Rightarrow> search \<Rightarrow> search" where
  "descend i s =
     (let e = s_entries s ! i;
          s1 = set_linearized i True s;
          s2 = s1\<lparr>order := order s1 @ [e_id e]\<rparr>
      in if \<not> is_unknown e then s2\<lparr>known_left := known_left s2 - 1\<rparr> else s2)"

definition ascend :: "nat \<Rightarrow> search \<Rightarrow> search" where
  "ascend i s =
     (let e = s_entries s ! i;
          s1 = (if \<not> is_unknown e then s\<lparr>known_left := known_left s + 1\<rparr> else s);
          s2 = s1\<lparr>order := butlast (order s1)\<rparr>
      in set_linearized i False s2)"

text \<open>
  The loop over the candidates of one node. \<open>rec\<close> is the recursive call; \<open>m\<close> is \<open>min_ret\<close>,
  computed once before the loop.
\<close>

fun try_all ::
  "(state \<Rightarrow> search \<Rightarrow> (bool \<times> search) option) \<Rightarrow> state \<Rightarrow> u64 \<Rightarrow> nat list \<Rightarrow> search
     \<Rightarrow> (bool \<times> search) option" where
  "try_all rec st m [] s = Some (False, s)"
| "try_all rec st m (i # is) s =
     (let e = s_entries s ! i in
      if \<not> remaining s ! i then try_all rec st m is s
      else if m < e_call_ns e then try_all rec st m is s
      else
        (case step st e of
           None \<Rightarrow> try_all rec st m is s
         | Some next \<Rightarrow>
             (case rec next (descend i s) of
                None \<Rightarrow> None
              | Some (ok, s4) \<Rightarrow>
                  if ok then Some (True, s4)
                  else if exhausted_budget (ascend i s4) then Some (False, ascend i s4)
                  else try_all rec st m is (ascend i s4))))"

text \<open>What a node does before its loop: count, remember, keep the best attempt.\<close>

definition visit :: "state \<Rightarrow> search \<Rightarrow> search" where
  "visit st s =
     (let s2 = s\<lparr>seen := insert (mask s, st) (seen s)\<rparr>
      in if length (best_attempt s2) < length (order s2)
         then s2\<lparr>best_attempt := order s2, best_state := Some st\<rparr> else s2)"

primrec recurse :: "nat \<Rightarrow> state \<Rightarrow> search \<Rightarrow> (bool \<times> search) option" where
  "recurse 0 st s = None"
| "recurse (Suc depth) st s =
     (if known_left s = 0 then Some (True, s)
      else if budget s \<le> states s then Some (False, s\<lparr>exhausted_budget := True\<rparr>)
      else
        (let s1 = s\<lparr>states := states s + 1\<rparr> in
         if (mask s1, st) \<in> seen s1 then Some (False, s1)
         else
           (let s3 = visit st s1
            in try_all (recurse depth) st (min_ret s3) [0..<length (s_entries s3)] s3)))"

definition run :: "search \<Rightarrow> (bool \<times> search) option" where
  "run s = (if s_entries s = [] then Some (True, s)
            else recurse (Suc (length (s_entries s))) None s)"

section \<open>The bitmap and the flags\<close>

definition rem_set :: "search \<Rightarrow> nat set" where
  "rem_set s = {i. i < length (s_entries s) \<and> remaining s ! i}"

definition mask_set :: "nat \<Rightarrow> u64 list \<Rightarrow> nat set" where
  "mask_set n m = {i. i < n \<and> \<not> bit (m ! (i div 64)) (i mod 64)}"

definition known_in :: "entry list \<Rightarrow> nat set \<Rightarrow> nat set" where
  "known_in es R = {i \<in> R. \<not> is_unknown (es ! i)}"

definition search_ok :: "search \<Rightarrow> bool" where
  "search_ok s \<longleftrightarrow>
     length (remaining s) = length (s_entries s) \<and>
     length (mask s) = max ((length (s_entries s) + 63) div 64) 1 \<and>
     rem_set s = mask_set (length (s_entries s)) (mask s) \<and>
     known_left s = card (known_in (s_entries s) (rem_set s))"

lemma rem_set_bound: "rem_set s \<subseteq> {..<length (s_entries s)}"
  by (auto simp: rem_set_def)

lemma finite_rem_set [simp, intro]: "finite (rem_set s)"
  by (rule finite_subset [OF rem_set_bound]) simp

lemma finite_known_in [simp, intro]: "finite R \<Longrightarrow> finite (known_in es R)"
  by (simp add: known_in_def)

lemma known_in_remove:
  "known_in es (R - {i}) = (if is_unknown (es ! i) then known_in es R else known_in es R - {i})"
  by (auto simp: known_in_def)

lemma bit_single: "k < 64 \<Longrightarrow> bit ((2 :: u64) ^ k) j \<longleftrightarrow> j = k"
  by (auto simp: bit_exp_iff)

lemma word_index_bound: "i < n \<Longrightarrow> i div 64 < max ((n + 63) div 64) (1 :: nat)"
  by (simp add: less_max_iff_disj)

lemma div_mod_64_eq: "i div 64 = j div 64 \<Longrightarrow> i mod 64 = j mod 64 \<Longrightarrow> i = (j :: nat)"
  by (metis div_mult_mod_eq)

lemma set_linearized_frame [frame]:
  "s_entries (set_linearized i b s) = s_entries s"
  "order (set_linearized i b s) = order s"
  "seen (set_linearized i b s) = seen s"
  "states (set_linearized i b s) = states s"
  "budget (set_linearized i b s) = budget s"
  "exhausted_budget (set_linearized i b s) = exhausted_budget s"
  "known_left (set_linearized i b s) = known_left s"
  "best_attempt (set_linearized i b s) = best_attempt s"
  "best_state (set_linearized i b s) = best_state s"
  by (simp_all add: set_linearized_def Let_def)

lemma mask_set_linearize:
  assumes "i < n" and "length m = max ((n + 63) div 64) 1"
  shows "mask_set n (m[i div 64 := m ! (i div 64) OR push_bit (i mod 64) 1]) = mask_set n m - {i}"
proof -
  have w: "i div 64 < length m" using assms word_index_bound by simp
  have "bit ((m[i div 64 := m ! (i div 64) OR push_bit (i mod 64) 1]) ! (j div 64)) (j mod 64)
          \<longleftrightarrow> bit (m ! (j div 64)) (j mod 64) \<or> j = i" for j
    using w div_mod_64_eq [of j i]
    by (cases "j div 64 = i div 64") (auto simp: bit_or_iff bit_single)
  then show ?thesis by (auto simp: mask_set_def)
qed

lemma rem_set_linearize:
  assumes "search_ok s" and "i < length (s_entries s)"
  shows "rem_set (set_linearized i True s) = rem_set s - {i}"
    and "mask_set (length (s_entries s)) (mask (set_linearized i True s)) = rem_set s - {i}"
proof -
  show "rem_set (set_linearized i True s) = rem_set s - {i}"
    using assms by (auto simp: rem_set_def set_linearized_def search_ok_def nth_list_update Let_def)
  show "mask_set (length (s_entries s)) (mask (set_linearized i True s)) = rem_set s - {i}"
    using assms mask_set_linearize [of i "length (s_entries s)" "mask s"]
    by (simp add: set_linearized_def Let_def search_ok_def)
qed

lemma word_set_clear:
  fixes m :: u64
  assumes "k < 64" and "\<not> bit m k"
  shows "(m OR 2 ^ k) AND NOT (2 ^ k) = m"
proof (rule bit_word_eqI)
  fix j assume "j < LENGTH(64)"
  with assms show "bit ((m OR 2 ^ k) AND NOT (2 ^ k)) j = bit m j"
    using bit_single [of k j]
    by (auto simp: bit_and_iff bit_or_iff bit_not_iff simp del: bit_exp_iff)
qed

text \<open>Undoing a choice restores the flags and the bitmap exactly.\<close>

lemma linearize_undo:
  assumes ok: "search_ok s" and i: "i < length (s_entries s)" "remaining s ! i"
    and t: "remaining t = remaining (set_linearized i True s)"
      "mask t = mask (set_linearized i True s)"
  shows "remaining (set_linearized i False t) = remaining s"
    and "mask (set_linearized i False t) = mask s"
proof -
  let ?w = "i div 64"
  have len: "i < length (remaining s)" using ok i by (simp add: search_ok_def)
  have w: "?w < length (mask s)" using ok i word_index_bound by (simp add: search_ok_def)
  have nb: "\<not> bit (mask s ! ?w) (i mod 64)"
    using ok i by (auto simp: search_ok_def rem_set_def mask_set_def)
  show "remaining (set_linearized i False t) = remaining s"
    using len i t by (simp add: set_linearized_def Let_def list_update_same_conv)
  show "mask (set_linearized i False t) = mask s"
    using w nb t by (simp add: set_linearized_def Let_def word_set_clear list_update_same_conv)
qed

section \<open>The abstract search\<close>

text \<open>
  \<open>can_finish es R st\<close>: from model state \<open>st\<close> with the operations of \<open>R\<close> still to place,
  candidates can be picked until no answered operation is left. Operations without an answer
  may stay behind.
\<close>

inductive can_finish :: "entry list \<Rightarrow> nat set \<Rightarrow> state \<Rightarrow> bool" for es :: "entry list" where
  finished: "known_in es R = {} \<Longrightarrow> can_finish es R st"
| pick: "i \<in> R \<Longrightarrow> (\<forall>j \<in> R. e_call_ns (es ! i) \<le> e_ret_ns (es ! j)) \<Longrightarrow>
     step st (es ! i) = Some st' \<Longrightarrow> can_finish es (R - {i}) st' \<Longrightarrow> can_finish es R st"

inductive_simps can_finish_iff: "can_finish es R st"

lemma min_ret_candidate:
  assumes i: "i \<in> rem_set s"
  shows "min_ret s < x \<longleftrightarrow> (\<exists>j \<in> rem_set s. e_ret_ns (s_entries s ! j) < x)"
proof -
  define L where "L = map (\<lambda>i. e_ret_ns (s_entries s ! i))
      (filter (\<lambda>i. remaining s ! i) [0..<length (s_entries s)])"
  have set_L: "set L = (\<lambda>j. e_ret_ns (s_entries s ! j)) ` rem_set s"
    by (auto simp: L_def rem_set_def)
  with i have "L \<noteq> []" by auto
  then obtain r rs where rs: "L = r # rs" by (cases L) auto
  then have "min_ret s = Min (set L)"
    by (simp add: min_ret_def L_def [symmetric] Min.set_eq_fold del: list.set)
  moreover have "finite (set L)" "set L \<noteq> {}"
    using \<open>L \<noteq> []\<close> by simp_all
  ultimately show ?thesis
    using Min_less_iff [of "set L" x] by (simp add: set_L)
qed

section \<open>What one call promises\<close>

definition failed :: "entry list \<Rightarrow> u64 list \<times> state \<Rightarrow> bool" where
  "failed es x \<longleftrightarrow> \<not> can_finish es (mask_set (length es) (fst x)) (snd x)"

definition restored :: "search \<Rightarrow> search \<Rightarrow> bool" where
  "restored s t \<longleftrightarrow>
     s_entries t = s_entries s \<and> remaining t = remaining s \<and> mask t = mask s \<and>
     order t = order s \<and> known_left t = known_left s \<and> budget t = budget s \<and>
     seen s \<subseteq> seen t \<and> states s \<le> states t"

text \<open>Before a call: everything remembered has failed, or is a node above this one.\<close>

definition call_ok :: "entry list \<Rightarrow> search \<Rightarrow> bool" where
  "call_ok es s \<longleftrightarrow>
     s_entries s = es \<and> search_ok s \<and> \<not> exhausted_budget s \<and>
     (\<forall>x \<in> seen s. failed es x \<or> rem_set s \<subset> mask_set (length es) (fst x))"

definition decided :: "entry list \<Rightarrow> state \<Rightarrow> search \<Rightarrow> bool \<Rightarrow> search \<Rightarrow> bool" where
  "decided es st s b t \<longleftrightarrow>
     (if b then can_finish es (rem_set s) st
      else restored s t \<and>
        (if exhausted_budget t then budget t \<le> states t
         else \<not> can_finish es (rem_set s) st \<and> (\<forall>x \<in> seen t - seen s. failed es x)))"

lemma restored_refl [simp, intro]: "restored s s"
  by (simp add: restored_def)

lemma restored_trans: "restored s t \<Longrightarrow> restored t u \<Longrightarrow> restored s u"
  by (auto simp: restored_def)

lemma restored_rem_set: "restored s t \<Longrightarrow> rem_set t = rem_set s"
  by (simp add: restored_def rem_set_def)

lemma restored_search_ok: "restored s t \<Longrightarrow> search_ok s \<Longrightarrow> search_ok t"
  using restored_rem_set [of s t] by (simp add: search_ok_def restored_def)

lemma descend_frame [frame]:
  "s_entries (descend i s) = s_entries s" "seen (descend i s) = seen s"
  "states (descend i s) = states s" "budget (descend i s) = budget s"
  "exhausted_budget (descend i s) = exhausted_budget s"
  "remaining (descend i s) = remaining (set_linearized i True s)"
  "mask (descend i s) = mask (set_linearized i True s)"
  "order (descend i s) = order s @ [e_id (s_entries s ! i)]"
  "known_left (descend i s) =
     (if is_unknown (s_entries s ! i) then known_left s else known_left s - 1)"
  by (simp_all add: descend_def Let_def frame)

lemma ascend_frame [frame]:
  "s_entries (ascend i s) = s_entries s" "seen (ascend i s) = seen s"
  "states (ascend i s) = states s" "budget (ascend i s) = budget s"
  "exhausted_budget (ascend i s) = exhausted_budget s"
  "remaining (ascend i s) = remaining (set_linearized i False s)"
  "mask (ascend i s) = mask (set_linearized i False s)"
  "order (ascend i s) = butlast (order s)"
  "known_left (ascend i s) =
     (if is_unknown (s_entries s ! i) then known_left s else known_left s + 1)"
  by (simp_all add: ascend_def set_linearized_def Let_def)

lemma search_ok_descend:
  assumes ok: "search_ok s" and i: "i \<in> rem_set s"
  shows "rem_set (descend i s) = rem_set s - {i}" and "search_ok (descend i s)"
proof -
  have il: "i < length (s_entries s)" using i by (simp add: rem_set_def)
  show R: "rem_set (descend i s) = rem_set s - {i}"
    using rem_set_linearize(1) [OF ok il] by (simp add: rem_set_def frame)
  have kl: "known_left s = card (known_in (s_entries s) (rem_set s))"
    using ok by (simp add: search_ok_def)
  have "i \<in> known_in (s_entries s) (rem_set s)" if "\<not> is_unknown (s_entries s ! i)"
    using i that by (simp add: known_in_def)
  then have "card (known_in (s_entries s) (rem_set s - {i})) =
      (if is_unknown (s_entries s ! i) then known_left s else known_left s - 1)"
    by (simp add: kl known_in_remove card_Diff_singleton)
  moreover have "length (remaining (descend i s)) = length (remaining s)"
    "length (mask (descend i s)) = length (mask s)"
    by (simp_all add: frame set_linearized_def Let_def)
  ultimately show "search_ok (descend i s)"
    using ok rem_set_linearize(2) [OF ok il] unfolding search_ok_def R
    by (simp add: frame)
qed

text \<open>A failed child, undone, leaves the node as it was.\<close>

lemma restored_ascend:
  assumes ok: "search_ok s" and i: "i \<in> rem_set s" and r: "restored (descend i s) t"
  shows "restored s (ascend i t)"
proof -
  have il: "i < length (s_entries s)" "remaining s ! i" using i by (auto simp: rem_set_def)
  have rm: "remaining t = remaining (set_linearized i True s)"
    "mask t = mask (set_linearized i True s)"
    using r by (simp_all add: restored_def frame)
  have kl: "known_left s = card (known_in (s_entries s) (rem_set s))"
    using ok by (simp add: search_ok_def)
  have "known_left s \<noteq> 0" if "\<not> is_unknown (s_entries s ! i)"
    using i that unfolding kl by (simp add: card_eq_0_iff) (auto simp: known_in_def)
  then show ?thesis
    using r linearize_undo [OF ok il rm] by (auto simp: restored_def frame)
qed

section \<open>The search decides\<close>

text \<open>
  The loop: every candidate is tried, and a branch that dies says so. \<open>cand\<close> is the candidate
  rule with the model's consent; \<open>tried\<close> is what the loop has established.
\<close>

definition cand :: "entry list \<Rightarrow> nat set \<Rightarrow> state \<Rightarrow> nat \<Rightarrow> state \<Rightarrow> bool" where
  "cand es R st i st' \<longleftrightarrow>
     i \<in> R \<and> (\<forall>j \<in> R. e_call_ns (es ! i) \<le> e_ret_ns (es ! j)) \<and> step st (es ! i) = Some st'"

definition tried ::
  "entry list \<Rightarrow> state \<Rightarrow> search \<Rightarrow> nat list \<Rightarrow> bool \<Rightarrow> search \<Rightarrow> bool" where
  "tried es st s0 is b t \<longleftrightarrow>
     (if b then can_finish es (rem_set s0) st
      else restored s0 t \<and>
        (if exhausted_budget t then budget t \<le> states t
         else (\<forall>x \<in> seen t - seen s0. failed es x) \<and>
           (\<forall>i \<in> set is. \<forall>st'. cand es (rem_set s0) st i st' \<longrightarrow>
              \<not> can_finish es (rem_set s0 - {i}) st')))"

lemma tried_skip:
  "tried es st s0 is b t \<Longrightarrow> (\<forall>st'. \<not> cand es (rem_set s0) st i st') \<Longrightarrow>
     tried es st s0 (i # is) b t"
  by (auto simp: tried_def split: if_splits)

lemma try_all_decides:
  assumes rec: "\<And>st s. call_ok es s \<Longrightarrow> card (rem_set s) < depth \<Longrightarrow>
      \<exists>b t. rec st s = Some (b, t) \<and> decided es st s b t"
    and node: "s_entries s0 = es" "search_ok s0" "card (rem_set s0) \<le> depth"
    and below: "\<forall>x \<in> seen s0. failed es x \<or> rem_set s0 \<subseteq> mask_set (length es) (fst x)"
    and cur: "restored s0 s" "\<not> exhausted_budget s" "\<forall>x \<in> seen s - seen s0. failed es x"
    and idx: "set is \<subseteq> {..<length es}"
  shows "\<exists>b t. try_all rec st (min_ret s0) is s = Some (b, t) \<and> tried es st s0 is b t"
  using cur idx
proof (induction "is" arbitrary: s)
  case Nil
  then show ?case by (auto simp: tried_def)
next
  case (Cons i "is")
  note cur = Cons.prems
  have es: "s_entries s = es" and R: "rem_set s = rem_set s0" and ok: "search_ok s"
    using cur(1) node(1,2) restored_rem_set restored_search_ok by (auto simp: restored_def)
  have cand_iff: "remaining s ! i \<and> \<not> min_ret s0 < e_call_ns (es ! i) \<and> step st (es ! i) = Some st'
      \<longleftrightarrow> cand es (rem_set s0) st i st'" for st'
  proof -
    have "remaining s ! i \<longleftrightarrow> i \<in> rem_set s0"
      using R es cur(4) by (auto simp: rem_set_def)
    then show ?thesis
      using min_ret_candidate [of i s0 "e_call_ns (es ! i)"] node(1)
      by (auto simp: cand_def not_less [symmetric])
  qed
  show ?case
  proof (cases "\<exists>st'. cand es (rem_set s0) st i st'")
    case False
    then have "try_all rec st (min_ret s0) (i # is) s = try_all rec st (min_ret s0) is s"
      using cand_iff es by (auto simp: Let_def split: option.splits)
    then show ?thesis
      using Cons.IH [OF cur(1-3)] cur(4) False tried_skip by fastforce
  next
    case True
    then obtain st' where c: "cand es (rem_set s0) st i st'" by blast
    have c': "remaining s ! i" "\<not> min_ret s0 < e_call_ns (es ! i)" "step st (es ! i) = Some st'"
      using cand_iff c by auto
    have i: "i \<in> rem_set s" using c R by (simp add: cand_def)
    have dr: "rem_set (descend i s) = rem_set s0 - {i}"
      using search_ok_descend(1) [OF ok i] R by simp
    have small: "card (rem_set (descend i s)) < depth"
      using i R node(3) card_Diff1_less [of "rem_set s0" i] by (simp add: dr)
    have "rem_set s0 - {i} \<subset> rem_set s0" using i R by auto
    then have "\<forall>x \<in> seen s. failed es x \<or> rem_set s0 - {i} \<subset> mask_set (length es) (fst x)"
      using cur(3) below by (meson DiffI psubset_subset_trans)
    then have cok: "call_ok es (descend i s)"
      using search_ok_descend(2) [OF ok i] es cur(2) by (simp add: call_ok_def dr frame)
    obtain b t where bt: "rec st' (descend i s) = Some (b, t)" and d: "decided es st' (descend i s) b t"
      using rec [OF cok small] by blast
    have unfold: "try_all rec st (min_ret s0) (i # is) s =
        (if b then Some (True, t)
         else if exhausted_budget (ascend i t) then Some (False, ascend i t)
         else try_all rec st (min_ret s0) is (ascend i t))"
      using c' bt es by (simp add: Let_def)
    show ?thesis
    proof (cases b)
      case True
      then have "can_finish es (rem_set s0 - {i}) st'"
        using d by (simp add: decided_def dr)
      then have "can_finish es (rem_set s0) st"
        using c by (auto simp: cand_def intro: can_finish.pick)
      then show ?thesis using True by (auto simp: unfold tried_def simp del: try_all.simps)
    next
      case False
      then have rt: "restored (descend i s) t" using d by (simp add: decided_def)
      have ra: "restored s0 (ascend i t)"
        using restored_ascend [OF ok i rt] cur(1) restored_trans by blast
      show ?thesis
      proof (cases "exhausted_budget t")
        case True
        then show ?thesis
          using False d ra by (auto simp: unfold tried_def decided_def frame simp del: try_all.simps)
      next
        case nexh: False
        have dead: "\<not> can_finish es (rem_set s0 - {i}) st'"
          and new: "\<forall>x \<in> seen t - seen s. failed es x"
          using d False nexh by (auto simp: decided_def dr frame)
        have "\<forall>x \<in> seen (ascend i t) - seen s0. failed es x"
          using new cur(3) by (auto simp: frame)
        then obtain b' t' where
          t': "try_all rec st (min_ret s0) is (ascend i t) = Some (b', t')" "tried es st s0 is b' t'"
          using Cons.IH [OF ra] nexh cur(4) by (auto simp: frame)
        have "try_all rec st (min_ret s0) (i # is) s = Some (b', t')"
          using False nexh t'(1) by (simp add: unfold frame del: try_all.simps)
        moreover have "st'' = st'" if "cand es (rem_set s0) st i st''" for st''
          using that c by (simp add: cand_def)
        then have "tried es st s0 (i # is) b' t'"
          using t'(2) dead by (auto simp: tried_def)
        ultimately show ?thesis by blast
      qed
    qed
  qed
qed

lemma visit_frame [frame]:
  "s_entries (visit st s) = s_entries s" "seen (visit st s) = insert (mask s, st) (seen s)"
  "states (visit st s) = states s" "budget (visit st s) = budget s"
  "exhausted_budget (visit st s) = exhausted_budget s"
  "remaining (visit st s) = remaining s" "mask (visit st s) = mask s"
  "order (visit st s) = order s" "known_left (visit st s) = known_left s"
  by (simp_all add: visit_def Let_def)

lemma not_can_finishI:
  assumes "known_in es R \<noteq> {}"
    and "\<And>i st'. cand es R st i st' \<Longrightarrow> \<not> can_finish es (R - {i}) st'"
  shows "\<not> can_finish es R st"
  using assms by (auto simp: can_finish_iff [of es R] cand_def)

lemma recurse_decides:
  "call_ok es s \<Longrightarrow> card (rem_set s) < depth \<Longrightarrow>
     \<exists>b t. recurse depth st s = Some (b, t) \<and> decided es st s b t"
proof (induction depth arbitrary: st s)
  case 0
  then show ?case by simp
next
  case (Suc depth)
  have es: "s_entries s = es" and ok: "search_ok s" and nexh: "\<not> exhausted_budget s"
    and below: "\<forall>x \<in> seen s. failed es x \<or> rem_set s \<subset> mask_set (length es) (fst x)"
    using Suc.prems(1) by (auto simp: call_ok_def)
  have "known_left s = card (known_in es (rem_set s))"
    using ok es by (simp add: search_ok_def)
  then have kl: "known_left s = 0 \<longleftrightarrow> known_in es (rem_set s) = {}"
    using card_0_eq [OF finite_known_in [OF finite_rem_set [of s], of es]] by simp
  have R: "rem_set s = mask_set (length es) (mask s)"
    using ok es by (simp add: search_ok_def)
  define s1 where "s1 = s\<lparr>states := states s + 1\<rparr>"
  define s3 where "s3 = visit st s1"
  consider (fin) "known_left s = 0" | (out) "known_left s \<noteq> 0" "budget s \<le> states s"
    | (hit) "known_left s \<noteq> 0" "states s < budget s" "(mask s, st) \<in> seen s"
    | (node) "known_left s \<noteq> 0" "states s < budget s" "(mask s, st) \<notin> seen s"
    by linarith
  then show ?case
  proof cases
    case fin
    then show ?thesis
      using kl by (auto simp: decided_def intro: can_finish.finished)
  next
    case out
    then show ?thesis by (auto simp: decided_def restored_def)
  next
    case hit
    then have "\<not> can_finish es (rem_set s) st"
      using below R by (auto simp: failed_def)
    with hit nexh show ?thesis by (auto simp: decided_def restored_def Let_def)
  next
    case node
    have s3: "s_entries s3 = es" "rem_set s3 = rem_set s" "search_ok s3" "restored s s3"
      "seen s3 = insert (mask s, st) (seen s)" "\<not> exhausted_budget s3"
      using es ok nexh
      by (auto simp: s3_def s1_def frame restored_def search_ok_def rem_set_def)
    have eq: "recurse (Suc depth) st s =
        try_all (recurse depth) st (min_ret s3) [0..<length es] s3"
      using node es by (simp add: Let_def s3_def s1_def frame)
    have rec: "\<exists>b t. recurse depth st s = Some (b, t) \<and> decided es st s b t"
      if "call_ok es s" "card (rem_set s) < depth" for st s
      using Suc.IH that by blast
    have "\<exists>b t. try_all (recurse depth) st (min_ret s3) [0..<length es] s3 = Some (b, t) \<and>
        tried es st s3 [0..<length es] b t"
    proof (rule try_all_decides [OF rec])
      show "card (rem_set s3) \<le> depth" using Suc.prems(2) s3(2) by simp
      show "\<forall>x \<in> seen s3. failed es x \<or> rem_set s3 \<subseteq> mask_set (length es) (fst x)"
        using below R s3(2,5) by auto
    qed (use s3 in auto)
    then obtain b t where bt: "try_all (recurse depth) st (min_ret s3) [0..<length es] s3 = Some (b, t)"
      and tr: "tried es st s3 [0..<length es] b t" by blast
    have "decided es st s b t"
    proof (cases "b \<or> exhausted_budget t")
      case True
      then show ?thesis
        using tr s3 restored_trans [OF s3(4)] by (auto simp: tried_def decided_def split: if_splits)
    next
      case False
      have rt: "restored s t"
        using tr False s3(4) restored_trans by (auto simp: tried_def)
      have "\<not> can_finish es (rem_set s) st"
      proof (rule not_can_finishI)
        show "known_in es (rem_set s) \<noteq> {}" using kl node(1) by simp
        fix i st' assume c: "cand es (rem_set s) st i st'"
        then have "i < length es" using es by (simp add: cand_def rem_set_def)
        with c tr False show "\<not> can_finish es (rem_set s - {i}) st'"
          by (auto simp: tried_def s3(2))
      qed
      moreover from this have "failed es (mask s, st)" using R by (simp add: failed_def)
      ultimately show ?thesis
        using tr False rt s3(5) by (auto simp: tried_def decided_def)
    qed
    then show ?thesis using bt eq by auto
  qed
qed

end
