(* ===== verification/Lin_Spec.thy ===== *)
theory Lin_Spec
  imports Lin_Search
begin

text \<open>
  What the search of \<^verbatim>\<open>disttest/src/lin/mod.rs\<close> promises. \<open>linearizable\<close> is Herlihy and Wing's
  definition for one key (a total order of the operations, inside their windows, that the
  sequential register accepts, with unanswered operations optional); \<open>run_decides\<close> shows that
  the search decides it, \<open>run_budget\<close> and \<open>run_enough\<close> bound its work.
\<close>

section \<open>The specification\<close>

text \<open>
  Entries as the recorder builds them: the answer does not come before the call, and an
  operation without an answer never returns.
\<close>

definition wf_entry :: "entry \<Rightarrow> bool" where
  "wf_entry e \<longleftrightarrow> e_call_ns e \<le> e_ret_ns e \<and> (is_unknown e \<longrightarrow> e_ret_ns e = u64_max)"

abbreviation wf_entries :: "entry list \<Rightarrow> bool" where
  "wf_entries es \<equiv> \<forall>e \<in> set es. wf_entry e"

abbreviation apply_ops :: "state \<Rightarrow> entry list \<Rightarrow> state option" where
  "apply_ops \<equiv> run_list step"

text \<open>\<open>a\<close> may stand before \<open>b\<close> in a linearization: \<open>b\<close> had not returned when \<open>a\<close> was called.\<close>

definition may_precede :: "entry \<Rightarrow> entry \<Rightarrow> bool" where
  "may_precede a b \<longleftrightarrow> \<not> e_ret_ns b < e_call_ns a"

definition linearization_from :: "entry list \<Rightarrow> nat set \<Rightarrow> state \<Rightarrow> nat list \<Rightarrow> bool" where
  "linearization_from es R st ord \<longleftrightarrow>
     distinct ord \<and> set ord \<subseteq> R \<and> known_in es R \<subseteq> set ord \<and>
     sorted_wrt (\<lambda>i j. may_precede (es ! i) (es ! j)) ord \<and>
     apply_ops st (map ((!) es) ord) \<noteq> None"

definition linearizable :: "entry list \<Rightarrow> bool" where
  "linearizable es \<longleftrightarrow> (\<exists>ord. linearization_from es {..<length es} None ord)"

section \<open>The search decides linearizability\<close>

lemma can_finish_linearization:
  "can_finish es R st \<Longrightarrow> \<exists>ord. linearization_from es R st ord"
proof (induction rule: can_finish.induct)
  case (finished R st)
  then have "linearization_from es R st []" by (simp add: linearization_from_def)
  then show ?case ..
next
  case (pick i R st st')
  then obtain ord where "linearization_from es (R - {i}) st' ord" by blast
  with pick have "linearization_from es R st (i # ord)"
    by (auto simp: linearization_from_def may_precede_def known_in_remove not_less subset_iff
        split: if_splits)
  then show ?case ..
qed

lemma linearization_can_finish:
  assumes "linearization_from es R st ord" and "\<forall>i \<in> R. wf_entry (es ! i)"
  shows "can_finish es R st"
  using assms
proof (induction ord arbitrary: R st)
  case Nil
  then show ?case by (auto simp: linearization_from_def intro: can_finish.finished)
next
  case (Cons i ord)
  then obtain st' where st': "step st (es ! i) = Some st'"
    by (auto simp: linearization_from_def split: option.splits)
  have "e_call_ns (es ! i) \<le> e_ret_ns (es ! j)" if j: "j \<in> R" for j
  proof -
    consider "j = i" | "j \<in> set ord" | "j \<notin> set (i # ord)" by auto
    then show ?thesis
    proof cases
      case 3
      then have "is_unknown (es ! j)"
        using Cons.prems(1) j by (auto simp: linearization_from_def known_in_def)
      then show ?thesis using Cons.prems(2) j by (simp add: wf_entry_def)
    qed (use Cons.prems j in \<open>auto simp: linearization_from_def may_precede_def wf_entry_def not_less\<close>)
  qed
  moreover have "linearization_from es (R - {i}) st' ord"
    using Cons.prems(1) st' by (auto simp: linearization_from_def known_in_def)
  then have "can_finish es (R - {i}) st'"
    using Cons.IH Cons.prems(2) by simp
  ultimately show ?case
    using st' Cons.prems(1) by (auto simp: linearization_from_def intro: can_finish.pick)
qed

lemma can_finish_iff_linearizable:
  "wf_entries es \<Longrightarrow> can_finish es {..<length es} None \<longleftrightarrow> linearizable es"
  using can_finish_linearization linearization_can_finish
  by (fastforce simp: linearizable_def)

lemma mask_set_zero: "mask_set n (replicate (max ((n + 63) div 64) 1) 0) = {..<n}"
  using word_index_bound by (auto simp: mask_set_def)

lemma search_new_ok:
  "call_ok es (search_new es b)" "rem_set (search_new es b) = {..<length es}"
proof -
  show R: "rem_set (search_new es b) = {..<length es}"
    by (auto simp: rem_set_def search_new_def)
  have "length (filter (\<lambda>e. \<not> is_unknown e) es) = card (known_in es {..<length es})"
    by (simp add: length_filter_conv_card known_in_def lessThan_def)
  then show "call_ok es (search_new es b)"
    using R mask_set_zero [of "length es"]
    by (simp add: call_ok_def search_ok_def) (simp add: search_new_def)
qed

lemma linearizable_Nil: "linearizable []"
  by (auto simp: linearizable_def linearization_from_def known_in_def)

lemma run_decides:
  assumes wf: "wf_entries es"
  shows "\<exists>b t. run (search_new es bd) = Some (b, t) \<and>
      (b \<longrightarrow> linearizable es) \<and> (\<not> b \<longrightarrow> \<not> exhausted_budget t \<longrightarrow> \<not> linearizable es)"
proof (cases "es = []")
  case True
  then show ?thesis by (auto simp: run_def linearizable_Nil search_new_def)
next
  case False
  have e: "s_entries (search_new es bd) = es" by (simp add: search_new_def)
  have "card (rem_set (search_new es bd)) < Suc (length es)"
    by (simp add: search_new_ok)
  then obtain b t where "recurse (Suc (length es)) None (search_new es bd) = Some (b, t)"
    and d: "decided es None (search_new es bd) b t"
    using recurse_decides [OF search_new_ok(1)] by blast
  then have "run (search_new es bd) = Some (b, t)"
    using False e by (simp add: run_def del: recurse.simps)
  then show ?thesis
    using d can_finish_iff_linearizable [OF wf] by (auto simp: decided_def search_new_ok)
qed

section \<open>The budget\<close>

text \<open>The nodes a search of \<open>n\<close> operations and depth \<open>d\<close> can visit at most.\<close>

fun search_bound :: "nat \<Rightarrow> nat \<Rightarrow> nat" where
  "search_bound n 0 = 0"
| "search_bound n (Suc d) = Suc (n * search_bound n d)"

definition spent :: "search \<Rightarrow> nat \<Rightarrow> search \<Rightarrow> bool" where
  "spent s k t \<longleftrightarrow>
     s_entries t = s_entries s \<and> budget t = budget s \<and> states t \<le> budget t \<and>
     states s \<le> states t \<and> states t \<le> states s + k \<and> (exhausted_budget t \<longrightarrow> exhausted_budget s \<or> states t = budget s)"

lemma spent_trans: "spent s k t \<Longrightarrow> spent t l u \<Longrightarrow> spent s (k + l) u"
  by (auto simp: spent_def)

lemma try_all_spent:
  assumes "\<And>st s b t. rec st s = Some (b, t) \<Longrightarrow> states s \<le> budget s \<Longrightarrow>
      length (s_entries s) = n \<Longrightarrow> spent s k t"
  shows "try_all rec st m is s = Some (b, t) \<Longrightarrow> states s \<le> budget s \<Longrightarrow>
      length (s_entries s) = n \<Longrightarrow> spent s (length is * k) t"
proof (induction "is" arbitrary: s)
  case Nil
  then show ?case by (simp add: spent_def)
next
  case (Cons i "is")
  have skip: "spent s (length (i # is) * k) t" if "try_all rec st m is s = Some (b, t)"
    using Cons.IH [OF that Cons.prems(2,3)] by (auto simp: spent_def)
  show ?case
  proof (cases "\<not> remaining s ! i \<or> m < e_call_ns (s_entries s ! i) \<or> step st (s_entries s ! i) = None")
    case True
    then show ?thesis using Cons.prems(1) skip by (auto simp: Let_def split: if_splits)
  next
    case False
    then obtain st' where st': "step st (s_entries s ! i) = Some st'" by auto
    with False Cons.prems(1) obtain c u where u: "rec st' (descend i s) = Some (c, u)"
      by (auto simp: Let_def split: option.splits)
    have "spent (descend i s) k u"
      using assms [OF u] Cons.prems(2,3) by (simp add: frame)
    then have su: "spent s k u" and sa: "spent s k (ascend i u)"
      by (simp_all add: spent_def frame)
    show ?thesis
    proof (cases "c \<or> exhausted_budget u")
      case True
      then show ?thesis
        using False st' u Cons.prems(1) su sa
        by (auto simp: Let_def frame spent_def split: if_splits)
    next
      case nc: False
      then have go: "try_all rec st m is (ascend i u) = Some (b, t)"
        using False st' u Cons.prems(1) by (simp add: Let_def frame)
      have "states (ascend i u) \<le> budget (ascend i u)" "length (s_entries (ascend i u)) = n"
        using sa Cons.prems(3) by (auto simp: spent_def)
      then have "spent (ascend i u) (length is * k) t" using Cons.IH [OF go] by blast
      then show ?thesis using spent_trans [OF sa] by simp
    qed
  qed
qed

lemma recurse_spent:
  "recurse d st s = Some (b, t) \<Longrightarrow> states s \<le> budget s \<Longrightarrow> length (s_entries s) = n \<Longrightarrow>
     spent s (search_bound n d) t"
proof (induction d arbitrary: st s b t)
  case 0
  then show ?case by simp
next
  case (Suc d)
  show ?case
  proof (cases "known_left s = 0 \<or> budget s \<le> states s \<or> (mask s, st) \<in> seen s")
    case True
    then show ?thesis using Suc.prems by (auto simp: spent_def Let_def split: if_splits)
  next
    case False
    let ?s3 = "visit st (s\<lparr>states := states s + 1\<rparr>)"
    have "try_all (recurse d) st (min_ret ?s3) [0..<n] ?s3 = Some (b, t)"
      using False Suc.prems(1,3) by (simp add: Let_def frame)
    from try_all_spent [OF Suc.IH this] have "spent ?s3 (n * search_bound n d) t"
      using False Suc.prems by (simp add: frame)
    then show ?thesis by (auto simp: spent_def frame)
  qed
qed

lemma run_spent:
  assumes "run (search_new es bd) = Some (b, t)"
  shows "spent (search_new es bd) (search_bound (length es) (Suc (length es))) t"
proof (cases "es = []")
  case True
  then show ?thesis using assms by (auto simp: run_def spent_def search_new_def)
next
  case False
  have "s_entries (search_new es bd) = es" "states (search_new es bd) = 0"
    by (simp_all add: search_new_def)
  then show ?thesis
    using recurse_spent [of "Suc (length es)" None "search_new es bd" b t "length es"] assms False
    by (simp add: run_def del: recurse.simps search_bound.simps)
qed

lemma run_budget:
  "run (search_new es bd) = Some (b, t) \<Longrightarrow>
     states t \<le> bd \<and> (exhausted_budget t \<longrightarrow> states t = bd)"
  using run_spent [of es bd b t] by (auto simp: spent_def search_new_def)

lemma run_enough:
  "run (search_new es bd) = Some (b, t) \<Longrightarrow>
     search_bound (length es) (Suc (length es)) < bd \<Longrightarrow> \<not> exhausted_budget t"
  using run_spent [of es bd b t] by (auto simp: spent_def search_new_def)

end
