(* ===== verification/Lin_Check.thy ===== *)
theory Lin_Check
  imports Lin_Spec "HOL-Library.Product_Lexorder"
begin

text \<open>
  The checker of \<^verbatim>\<open>disttest/src/lin/mod.rs\<close> above the search: the history as it stood at an
  instant (\<open>prefix_at\<close>), the bisection that finds the earliest impossible instant, the verdict
  for one key (\<open>check_one_key\<close>) and for a whole history (\<open>check_with_budget\<close>). A value \<open>None\<close>
  of these functions would be a search that ran out of depth; \<open>check_total\<close> excludes it.
\<close>

section \<open>Verdicts\<close>

record violation =
  v_key :: string
  v_entries :: "entry list"
  v_culprit :: entry
  v_best_attempt :: "nat list"
  v_best_state :: "bytes option"
  v_states :: nat

datatype verdict =
    Linearizable
  | NotLinearizable violation
  | Inconclusive string nat

definition verdict_ok :: "verdict \<Rightarrow> bool" where
  "verdict_ok v = (case v of NotLinearizable _ \<Rightarrow> False | _ \<Rightarrow> True)"

definition DEFAULT_BUDGET :: nat where
  "DEFAULT_BUDGET = 400000"

section \<open>The history at an instant\<close>

definition truncate_at :: "u64 \<Rightarrow> entry \<Rightarrow> entry" where
  "truncate_at t e =
     (if t < e_ret_ns e then e\<lparr>e_outcome := Unknown, e_ret_ns := u64_max\<rparr> else e)"

definition prefix_at :: "entry list \<Rightarrow> u64 \<Rightarrow> entry list \<times> entry list" where
  "prefix_at es t =
     (let shown = filter (\<lambda>e. e_call_ns e \<le> t) es
      in (shown, map (truncate_at t) shown))"

section \<open>The earliest impossible instant\<close>

definition flatten :: "'a option option \<Rightarrow> 'a option" where
  "flatten x = (case x of None \<Rightarrow> None | Some y \<Rightarrow> y)"

definition returns :: "entry list \<Rightarrow> (u64 \<times> nat) list" where
  "returns es =
     sort (map (\<lambda>(i, e). (e_ret_ns e, i))
             (filter (\<lambda>(i, e). \<not> is_unknown e) (enumerate 0 es)))"

type_synonym best = "nat \<times> entry list \<times> nat list \<times> state"

function bisect ::
  "entry list \<Rightarrow> nat \<Rightarrow> (u64 \<times> nat) list \<Rightarrow> nat \<Rightarrow> nat \<Rightarrow> best option \<Rightarrow> best option option" where
  "bisect es bd rs lo hi best =
     (if lo < hi then
        (let mid = lo + (hi - lo) div 2;
             (t, culprit) = rs ! mid;
             (shown, searched) = prefix_at es t
         in case run (search_new searched bd) of
              None \<Rightarrow> None
            | Some (ok, s) \<Rightarrow>
                if \<not> ok \<and> \<not> exhausted_budget s
                then bisect es bd rs lo mid
                       (Some (culprit, shown, best_attempt s, flatten (best_state s)))
                else bisect es bd rs (mid + 1) hi best)
      else Some best)"
  by pat_completeness auto
termination
  by (relation "measure (\<lambda>(es, bd, rs, lo, hi, best). hi - lo)") auto

declare bisect.simps [simp del]

definition by_return :: "entry list \<Rightarrow> entry list" where
  "by_return es = sort_key (\<lambda>e. (e_ret_ns e, e_call_ns e, e_id e)) es"

definition check_one_key :: "string \<Rightarrow> entry list \<Rightarrow> nat \<Rightarrow> verdict option" where
  "check_one_key key es bd =
     (case run (search_new es bd) of
        None \<Rightarrow> None
      | Some (ok, search) \<Rightarrow>
          if ok then Some Linearizable
          else if exhausted_budget search then Some (Inconclusive key (states search))
          else
            (let rs = returns es in
             case bisect es bd rs 0 (length rs) None of
               None \<Rightarrow> None
             | Some (Some (culprit, shown, attempt, st)) \<Rightarrow>
                 Some (NotLinearizable
                   \<lparr>v_key = key, v_entries = shown, v_culprit = es ! culprit,
                    v_best_attempt = attempt, v_best_state = st, v_states = states search\<rparr>)
             | Some None \<Rightarrow>
                 (let br = by_return es in
                  Some (NotLinearizable
                    \<lparr>v_key = key, v_entries = br,
                     v_culprit = (if br = [] then es ! 0 else last br),
                     v_best_attempt = best_attempt search,
                     v_best_state = flatten (best_state search),
                     v_states = states search\<rparr>))))"

section \<open>All keys\<close>

fun check_keys :: "history \<Rightarrow> nat \<Rightarrow> verdict option \<Rightarrow> string list \<Rightarrow> verdict option" where
  "check_keys h bd undecided [] =
     Some (case undecided of None \<Rightarrow> Linearizable | Some v \<Rightarrow> v)"
| "check_keys h bd undecided (key # ks) =
     (case check_one_key key (for_key h key) bd of
        None \<Rightarrow> None
      | Some Linearizable \<Rightarrow> check_keys h bd undecided ks
      | Some (Inconclusive k n) \<Rightarrow>
          check_keys h bd
            (Some (case undecided of None \<Rightarrow> Inconclusive k n | Some v \<Rightarrow> v)) ks
      | Some v \<Rightarrow> Some v)"

definition check_with_budget :: "history \<Rightarrow> nat \<Rightarrow> verdict option" where
  "check_with_budget h bd = check_keys h bd None (history_keys h)"

definition check :: "history \<Rightarrow> verdict option" where
  "check h = check_with_budget h DEFAULT_BUDGET"

end
