(* ===== verification/Lin_Prefix.thy ===== *)
theory Lin_Prefix
  imports Lin_Check
begin

text \<open>
  Linearizability is closed under prefixes, so \<^emph>\<open>impossible at t\<close> only ever turns from false to
  true as \<open>t\<close> grows, which is what the bisection of \<open>check_one_key\<close> assumes. The interface to
  the sequential model is the locale \<open>lossy_object\<close>: forgetting an answer never makes a run
  impossible.
\<close>

section \<open>Forgetting answers\<close>

locale lossy_object =
  fixes stp :: "'s \<Rightarrow> 'e \<Rightarrow> 's option"
    and forget :: "'e \<Rightarrow> 'e"
  assumes forget_step: "stp s e = Some s' \<Longrightarrow> stp s (forget e) = Some s'"
begin

lemma run_forget:
  "\<forall>e \<in> set es. g e = e \<or> g e = forget e \<Longrightarrow> run_list stp s es = Some s' \<Longrightarrow>
     run_list stp s (map g es) = Some s'"
proof (induction es arbitrary: s)
  case Nil
  then show ?case by simp
next
  case (Cons e es)
  then obtain s1 where "stp s e = Some s1" "run_list stp s1 es = Some s'"
    by (auto split: option.splits)
  moreover from this have "stp s (g e) = Some s1"
    using Cons.prems(1) forget_step by auto
  ultimately show ?case using Cons by simp
qed

end

definition forget_answer :: "entry \<Rightarrow> entry" where
  "forget_answer e = e\<lparr>e_outcome := Unknown, e_ret_ns := u64_max\<rparr>"

interpretation reg: lossy_object step forget_answer
  by unfold_locales (simp add: forget_answer_def step_relax)

lemma truncate_cases: "truncate_at t e = e \<or> truncate_at t e = forget_answer e"
  by (simp add: truncate_at_def forget_answer_def)

section \<open>Sub-histories by position\<close>

lemma linearization_reindex:
  assumes bij: "bij_betw f {..<length es'} R"
    and eq: "\<And>k. k < length es' \<Longrightarrow> es' ! k = es ! (f k)"
  shows "(\<exists>ord. linearization_from es' {..<length es'} st ord) \<longleftrightarrow>
      (\<exists>ord. linearization_from es R st ord)"
proof
  have inj: "inj_on f {..<length es'}" and img: "f ` {..<length es'} = R"
    using bij by (auto simp: bij_betw_def)
  have map_eq: "map ((!) es) (map f ord) = map ((!) es') ord" if "set ord \<subseteq> {..<length es'}" for ord
    using that eq by (auto simp: subset_iff)
  have known: "known_in es R = f ` known_in es' {..<length es'}"
    using img eq by (auto simp: known_in_def image_iff)
  have transfer: "linearization_from es R st (map f ord) \<longleftrightarrow>
      linearization_from es' {..<length es'} st ord" if sub: "set ord \<subseteq> {..<length es'}" for ord
  proof -
    have "distinct (map f ord) \<longleftrightarrow> distinct ord"
      using sub inj by (simp add: distinct_map inj_on_subset)
    moreover have "f ` known_in es' {..<length es'} \<subseteq> f ` set ord \<longleftrightarrow>
        known_in es' {..<length es'} \<subseteq> set ord"
    proof -
      have "x \<in> B" if "f ` A \<subseteq> f ` B" "x \<in> A" "A \<subseteq> {..<length es'}" "B \<subseteq> {..<length es'}"
        for A B x
        using that inj_on_image_mem_iff [OF inj, of x B] by blast
      moreover have "known_in es' {..<length es'} \<subseteq> {..<length es'}" by (auto simp: known_in_def)
      ultimately show ?thesis using sub by blast
    qed
    moreover have "sorted_wrt (\<lambda>i j. may_precede (es ! i) (es ! j)) (map f ord) \<longleftrightarrow>
        sorted_wrt (\<lambda>i j. may_precede (es' ! i) (es' ! j)) ord"
      using sub eq unfolding sorted_wrt_map
      by (intro iffI; elim sorted_wrt_mono_rel [rotated]; auto simp: subset_iff)
    moreover have "f ` set ord \<subseteq> R" using img sub by auto
    ultimately show ?thesis
      using sub unfolding linearization_from_def known map_eq [OF sub] by simp
  qed
  show "\<exists>ord. linearization_from es R st ord"
    if "\<exists>ord. linearization_from es' {..<length es'} st ord"
  proof -
    from that obtain ord where ord: "linearization_from es' {..<length es'} st ord" by blast
    then have "set ord \<subseteq> {..<length es'}" by (simp add: linearization_from_def)
    then show ?thesis using transfer ord by blast
  qed
  show "\<exists>ord. linearization_from es' {..<length es'} st ord"
    if "\<exists>ord. linearization_from es R st ord"
  proof -
    from that obtain ord where ord: "linearization_from es R st ord" by blast
    let ?ord' = "map (the_inv_into {..<length es'} f) ord"
    have sub: "set ord \<subseteq> R" using ord by (simp add: linearization_from_def)
    have "map f ?ord' = ord"
      using sub img by (simp add: map_idI f_the_inv_into_f [OF inj] subset_iff)
    moreover have "set ?ord' \<subseteq> {..<length es'}"
      using sub img the_inv_into_into [OF inj, of _ "{..<length es'}"] by (auto simp: subset_iff)
    ultimately show ?thesis using transfer [of ?ord'] ord by auto
  qed
qed

lemma linearizable_filter:
  "linearizable (filter P es) \<longleftrightarrow>
     (\<exists>ord. linearization_from es {i. i < length es \<and> P (es ! i)} None ord)"
  unfolding linearizable_def
  by (rule linearization_reindex [OF bij_positions]) (simp add: nth_filter_positions)

section \<open>Prefix closure\<close>

lemma truncate_frame [simp]:
  "e_call_ns (truncate_at t e) = e_call_ns e" "e_key (truncate_at t e) = e_key e"
  "e_op (truncate_at t e) = e_op e" "e_id (truncate_at t e) = e_id e"
  by (simp_all add: truncate_at_def)

lemma truncate_ret: "e_ret_ns e \<le> e_ret_ns (truncate_at t e)"
  by (simp add: truncate_at_def)

lemma is_unknown_truncate:
  "is_unknown (truncate_at t e) \<longleftrightarrow> is_unknown e \<or> t < e_ret_ns e"
  by (simp add: truncate_at_def is_unknown_def)

lemma filter_map_truncate:
  "filter (\<lambda>e. e_call_ns e \<le> u) (map (truncate_at t) es) =
     map (truncate_at t) (filter (\<lambda>e. e_call_ns e \<le> u) es)"
  by (simp add: filter_map comp_def)

lemma prefix_at_snd:
  "snd (prefix_at es t) = filter (\<lambda>e. e_call_ns e \<le> t) (map (truncate_at t) es)"
  by (simp add: prefix_at_def filter_map_truncate Let_def)

lemma prefix_at_prefix_at:
  assumes "t \<le> u"
  shows "snd (prefix_at (snd (prefix_at es u)) t) = snd (prefix_at es t)"
proof -
  have "truncate_at t (truncate_at u e) = truncate_at t e" for e
    using assms by (cases "u = u64_max") (auto simp: truncate_at_def not_less word_order.not_eq_extremum)
  moreover have "filter (\<lambda>e. e_call_ns e \<le> u \<and> e_call_ns e \<le> t) es = filter (\<lambda>e. e_call_ns e \<le> t) es"
    using assms by (intro filter_cong) auto
  ultimately show ?thesis by (simp add: prefix_at_snd filter_map_truncate comp_def)
qed

lemma wf_prefix_at: "wf_entries es \<Longrightarrow> wf_entries (snd (prefix_at es t))"
  by (auto simp: prefix_at_def Let_def wf_entry_def truncate_at_def is_unknown_def)

lemma prefix_linearization:
  assumes ord: "linearization_from es {..<length es} None ord" and wf: "wf_entries es"
  shows "\<exists>ord'. linearization_from (map (truncate_at t) es)
      {i. i < length es \<and> e_call_ns (es ! i) \<le> t} None ord'"
proof -
  define g where "g = map (truncate_at t) es"
  define R where "R = {i. i < length es \<and> e_call_ns (es ! i) \<le> t}"
  define K where "K = {i. i < length es \<and> \<not> is_unknown (es ! i) \<and> e_ret_ns (es ! i) \<le> t}"
  have g: "g ! i = truncate_at t (es ! i)" if "i < length es" for i using that by (simp add: g_def)
  have bound: "set ord \<subseteq> {..<length es}" using ord by (simp add: linearization_from_def)
  have known: "known_in g R \<subseteq> K"
    by (auto simp: known_in_def K_def R_def g is_unknown_truncate not_less)
  have K_ord: "K \<subseteq> set ord" using ord by (auto simp: linearization_from_def known_in_def K_def)
  text \<open>Up to the last operation that had answered by \<open>t\<close>, everything had been called by \<open>t\<close>.\<close>
  have "\<exists>ys zs. ord = ys @ zs \<and> set ys \<subseteq> R \<and> K \<subseteq> set ys"
  proof (cases "K = {}")
    case True
    then show ?thesis by (intro exI [of _ "[]"] exI [of _ ord]) simp
  next
    case False
    then have "\<exists>x \<in> set ord. x \<in> K" using K_ord by auto
    then obtain ys y zs where s: "ord = ys @ y # zs" "y \<in> K" "\<forall>z \<in> set zs. z \<notin> K"
      using takeWhile_last_split [of ord "\<lambda>x. x \<in> K"] by blast
    have "x \<in> R" if "x \<in> set ys \<or> x = y" for x
    proof -
      have "e_call_ns (es ! x) \<le> e_ret_ns (es ! y)"
        using that ord s(1,2) wf
        by (auto simp: linearization_from_def sorted_wrt_append may_precede_def not_less
            wf_entry_def K_def)
      then show ?thesis using that s(1,2) bound by (auto simp: R_def K_def)
    qed
    then show ?thesis
      using s K_ord by (intro exI [of _ "ys @ [y]"] exI [of _ zs]) auto
  qed
  then obtain ys zs where s: "ord = ys @ zs" "set ys \<subseteq> R" "K \<subseteq> set ys" by blast
  have ysb: "set ys \<subseteq> {..<length es}" using s(2) by (auto simp: R_def)
  have "run_list step None (map ((!) es) ys) \<noteq> None"
    using ord run_list_prefix [of step None "map ((!) es) ys" "map ((!) es) zs"]
    by (simp add: linearization_from_def s(1))
  then obtain st where "run_list step None (map ((!) es) ys) = Some st" by blast
  then have "run_list step None (map (truncate_at t) (map ((!) es) ys)) = Some st"
    by (rule reg.run_forget [rotated]) (use truncate_cases in auto)
  moreover have "map (truncate_at t) (map ((!) es) ys) = map ((!) g) ys"
    using ysb g by auto
  ultimately have "apply_ops None (map ((!) g) ys) = Some st" by (simp only:)
  then have "apply_ops None (map ((!) g) ys) \<noteq> None" by simp
  moreover have "sorted_wrt (\<lambda>i j. may_precede (g ! i) (g ! j)) ys"
  proof (rule sorted_wrt_mono_rel)
    show "sorted_wrt (\<lambda>i j. may_precede (es ! i) (es ! j)) ys"
      using ord by (simp add: linearization_from_def s(1) sorted_wrt_append)
    show "may_precede (g ! i) (g ! j)" if "i \<in> set ys" "j \<in> set ys" "may_precede (es ! i) (es ! j)"
      for i j
    proof -
      have "i < length es" "j < length es" using that ysb by auto
      then show ?thesis
        using that(3) truncate_ret [of "es ! j" t] by (auto simp: may_precede_def g not_less)
    qed
  qed
  ultimately have "linearization_from g R None ys"
    using s known ord by (auto simp: linearization_from_def s(1))
  then show ?thesis by (auto simp: g_def R_def)
qed

lemma linearizable_prefix:
  assumes "linearizable es" and "wf_entries es"
  shows "linearizable (snd (prefix_at es t))"
proof -
  obtain ord where "linearization_from es {..<length es} None ord"
    using assms(1) by (auto simp: linearizable_def)
  from prefix_linearization [OF this assms(2)] show ?thesis
    unfolding prefix_at_snd linearizable_filter by (auto cong: conj_cong)
qed

lemma linearizable_prefix_mono:
  assumes "wf_entries es" and "t \<le> u" and "linearizable (snd (prefix_at es u))"
  shows "linearizable (snd (prefix_at es t))"
  using linearizable_prefix [OF assms(3) wf_prefix_at [OF assms(1)], of t] prefix_at_prefix_at [OF assms(2)]
  by simp

text \<open>At the last return instant, what was not called yet is unanswered, so optional.\<close>

lemma linearizable_last_return:
  assumes wf: "wf_entries es" and lin: "linearizable (snd (prefix_at es t))"
    and last: "\<forall>e \<in> set es. \<not> is_unknown e \<longrightarrow> e_ret_ns e \<le> t"
  shows "linearizable es"
proof -
  have "truncate_at t e = e" if "e \<in> set es" for e
    using wf last that by (auto simp: truncate_at_def wf_entry_def is_unknown_def)
  then have "map (truncate_at t) es = es" by (simp add: map_idI)
  then obtain ord where ord: "linearization_from es {i. i < length es \<and> e_call_ns (es ! i) \<le> t} None ord"
    using lin by (auto simp: prefix_at_snd linearizable_filter)
  moreover have "known_in es {..<length es} \<subseteq> known_in es {i. i < length es \<and> e_call_ns (es ! i) \<le> t}"
    using wf last by (fastforce simp: known_in_def wf_entry_def)
  ultimately show ?thesis
    by (auto simp: linearizable_def linearization_from_def intro!: exI [of _ ord])
qed

end
