(* ===== verification/Lin_Local.thy ===== *)
theory Lin_Local
  imports Lin_Prefix
begin

text \<open>
  Keys are checked independently: a history over a key/value store is linearizable exactly when
  each key's sub-history is. The specification of the whole store is \<open>store_linearizable\<close>. The
  locale \<open>independent_objects\<close> states what the store's step owes to its keys; the direction from
  keys to store merges the per-key orders along linearization points.
\<close>

section \<open>A store of independent objects\<close>

locale independent_objects =
  fixes obj :: "'s \<Rightarrow> 'e \<Rightarrow> 's option"
    and store :: "('k \<Rightarrow> 's) \<Rightarrow> 'e \<Rightarrow> ('k \<Rightarrow> 's) option"
    and key :: "'e \<Rightarrow> 'k"
  assumes store_step:
    "store \<sigma> e = (case obj (\<sigma> (key e)) e of None \<Rightarrow> None | Some s \<Rightarrow> Some (\<sigma>(key e := s)))"
begin

lemma store_run_iff:
  "run_list store \<sigma> es \<noteq> None \<longleftrightarrow>
     (\<forall>k. run_list obj (\<sigma> k) (filter (\<lambda>e. key e = k) es) \<noteq> None)"
proof (induction es arbitrary: \<sigma>)
  case Nil
  then show ?case by simp
next
  case (Cons e es)
  show ?case
  proof (cases "obj (\<sigma> (key e)) e")
    case None
    then show ?thesis by (auto simp: store_step intro!: exI [of _ "key e"])
  next
    case (Some s)
    have "run_list obj (\<sigma> k) (filter (\<lambda>x. key x = k) (e # es)) =
        run_list obj ((\<sigma>(key e := s)) k) (filter (\<lambda>x. key x = k) es)" for k
      using Some by simp
    moreover have "run_list store \<sigma> (e # es) = run_list store (\<sigma>(key e := s)) es"
      using Some by (simp only: run_list.simps store_step option.case)
    ultimately show ?thesis using Cons.IH [of "\<sigma>(key e := s)"] by (simp only:)
  qed
qed

end

definition kv_step :: "(string \<Rightarrow> state) \<Rightarrow> entry \<Rightarrow> (string \<Rightarrow> state) option" where
  "kv_step \<sigma> e =
     (case step (\<sigma> (e_key e)) e of None \<Rightarrow> None | Some s \<Rightarrow> Some (\<sigma>(e_key e := s)))"

interpretation kv: independent_objects step kv_step e_key
  by unfold_locales (rule kv_step_def)

definition store_linearization :: "entry list \<Rightarrow> nat list \<Rightarrow> bool" where
  "store_linearization es ord \<longleftrightarrow>
     distinct ord \<and> set ord \<subseteq> {..<length es} \<and> known_in es {..<length es} \<subseteq> set ord \<and>
     sorted_wrt (\<lambda>i j. may_precede (es ! i) (es ! j)) ord \<and>
     run_list kv_step (\<lambda>_. None) (map ((!) es) ord) \<noteq> None"

definition store_linearizable :: "entry list \<Rightarrow> bool" where
  "store_linearizable es \<longleftrightarrow> (\<exists>ord. store_linearization es ord)"

definition key_positions :: "entry list \<Rightarrow> string \<Rightarrow> nat set" where
  "key_positions es k = {i. i < length es \<and> e_key (es ! i) = k}"

lemma linearizable_key:
  "linearizable (filter (\<lambda>e. e_key e = k) es) \<longleftrightarrow>
     (\<exists>ord. linearization_from es (key_positions es k) None ord)"
  by (simp add: linearizable_filter key_positions_def)

lemma filter_key_map:
  "filter (\<lambda>e. e_key e = k) (map ((!) es) ord) = map ((!) es) (filter (\<lambda>i. e_key (es ! i) = k) ord)"
  by (simp add: filter_map comp_def)

section \<open>From the store to the keys\<close>

lemma store_to_key:
  assumes "store_linearization es ord"
  shows "linearization_from es (key_positions es k) None (filter (\<lambda>i. e_key (es ! i) = k) ord)"
proof -
  have "apply_ops None (map ((!) es) (filter (\<lambda>i. e_key (es ! i) = k) ord)) \<noteq> None"
    using assms kv.store_run_iff [of "\<lambda>_. None" "map ((!) es) ord"]
    unfolding filter_key_map store_linearization_def by blast
  then show ?thesis
    using assms
    by (auto simp: store_linearization_def linearization_from_def key_positions_def known_in_def
        sorted_wrt_filter)
qed

section \<open>From the keys to the store: linearization points\<close>

text \<open>
  Each operation of a per-key order gets an instant: the latest call seen so far. It lies in the
  operation's own window and never decreases along the order.
\<close>

fun points :: "entry list \<Rightarrow> u64 \<Rightarrow> nat list \<Rightarrow> (u64 \<times> nat) list" where
  "points es m [] = []"
| "points es m (i # is) =
     (let m' = max m (e_call_ns (es ! i)) in (m', i) # points es m' is)"

lemma map_snd_points: "map snd (points es m is) = is"
  by (induction es m "is" rule: points.induct) (simp_all add: Let_def)

lemma points_ge: "(p, i) \<in> set (points es m is) \<Longrightarrow> m \<le> p"
  by (induction es m "is" rule: points.induct) (auto simp: Let_def)

lemma sorted_points: "sorted (map fst (points es m is))"
  by (induction es m "is" rule: points.induct) (auto simp: Let_def dest: points_ge)

lemma points_window:
  assumes "sorted_wrt (\<lambda>i j. may_precede (es ! i) (es ! j)) is"
    and "\<forall>i \<in> set is. e_call_ns (es ! i) \<le> e_ret_ns (es ! i) \<and> m \<le> e_ret_ns (es ! i)"
    and "(p, i) \<in> set (points es m is)"
  shows "e_call_ns (es ! i) \<le> p \<and> p \<le> e_ret_ns (es ! i)"
  using assms
  by (induction es m "is" rule: points.induct)
    (auto simp: Let_def may_precede_def not_less dest: points_ge)

lemma filter_concat_key:
  assumes "distinct ks" and "\<And>k x. k \<in> set ks \<Longrightarrow> x \<in> set (F k) \<Longrightarrow> g x = k"
  shows "filter (\<lambda>x. g x = k) (concat (map F ks)) = (if k \<in> set ks then F k else [])"
  using assms
proof (induction ks)
  case Nil
  then show ?case by simp
next
  case (Cons a ks)
  have "filter (\<lambda>x. g x = k) (F a) = (if k = a then F a else [])"
    using Cons.prems(2) [of a] by (auto simp: filter_empty_conv filter_id_conv)
  then show ?case using Cons by (auto simp: filter_id_conv)
qed

lemma keys_to_store:
  assumes wf: "wf_entries es"
    and ks: "distinct ks" "set ks = e_key ` set es"
    and F: "\<And>k. k \<in> set ks \<Longrightarrow> linearization_from es (key_positions es k) None (F k)"
  shows "store_linearizable es"
proof -
  define all where "all = concat (map (\<lambda>k. points es 0 (F k)) ks)"
  define srt where "srt = sort_key fst all"
  define ord where "ord = map snd srt"
  have Fk: "i < length es \<and> e_key (es ! i) = k" if "k \<in> set ks" "i \<in> set (F k)" for k i
    using F [OF that(1)] that(2) by (auto simp: linearization_from_def key_positions_def)
  have mem: "\<exists>k \<in> set ks. x \<in> set (points es 0 (F k))" if "x \<in> set srt" for x
    using that by (auto simp: srt_def all_def)
  have snd_F: "snd x \<in> set (F k)" if "x \<in> set (points es 0 (F k))" for x k
    using that map_snd_points [of es 0 "F k"] by (metis image_eqI list.set_map)
  text \<open>Seen from one key, the merged order is that key's own order.\<close>
  have key_ord: "filter (\<lambda>i. e_key (es ! i) = k) ord = (if k \<in> set ks then F k else [])" for k
  proof -
    have "filter (\<lambda>x. e_key (es ! snd x) = k) all = (if k \<in> set ks then points es 0 (F k) else [])"
      unfolding all_def
      by (rule filter_concat_key [OF ks(1)]) (use Fk snd_F in blast)
    then have "filter (\<lambda>x. e_key (es ! snd x) = k) srt = (if k \<in> set ks then points es 0 (F k) else [])"
      using sorted_points by (simp add: srt_def filter_sort sort_key_id_if_sorted)
    then show ?thesis
      by (simp add: ord_def filter_map comp_def map_snd_points)
  qed
  have win: "e_call_ns (es ! snd x) \<le> fst x \<and> fst x \<le> e_ret_ns (es ! snd x)" if x: "x \<in> set srt" for x
  proof -
    obtain k where k: "k \<in> set ks" "x \<in> set (points es 0 (F k))" using mem [OF x] by blast
    have "e_call_ns (es ! i) \<le> e_ret_ns (es ! i)" if "i \<in> set (F k)" for i
      using wf Fk [OF k(1) that] by (auto simp: wf_entry_def)
    then show ?thesis
      using points_window [of es "F k" 0 "fst x" "snd x"] F [OF k(1)] k(2)
      by (simp add: linearization_from_def)
  qed
  have real_time: "sorted_wrt (\<lambda>i j. may_precede (es ! i) (es ! j)) ord"
    unfolding ord_def sorted_wrt_map
  proof (rule sorted_wrt_mono_rel)
    show "sorted_wrt (\<lambda>x y. fst x \<le> fst y) srt"
      using sorted_sort_key [of fst all] by (simp add: srt_def sorted_map)
    show "may_precede (es ! snd x) (es ! snd y)"
      if "x \<in> set srt" "y \<in> set srt" "fst x \<le> fst y" for x y
      using win [OF that(1)] win [OF that(2)] that(3) by (auto simp: may_precede_def)
  qed
  have in_ord: "i \<in> set ord \<longleftrightarrow> (\<exists>k \<in> set ks. i \<in> set (F k))" for i
  proof
    assume i: "i \<in> set ord"
    then have "i \<in> set (filter (\<lambda>j. e_key (es ! j) = e_key (es ! i)) ord)" by simp
    then show "\<exists>k \<in> set ks. i \<in> set (F k)" by (auto simp: key_ord split: if_splits)
  next
    assume "\<exists>k \<in> set ks. i \<in> set (F k)"
    then obtain k where "k \<in> set ks" "i \<in> set (F k)" by blast
    then have "i \<in> set (filter (\<lambda>j. e_key (es ! j) = k) ord)" by (simp add: key_ord)
    then show "i \<in> set ord" by simp
  qed
  have "distinct ord"
    by (rule distinct_by_key [where g = "\<lambda>i. e_key (es ! i)"])
      (use F in \<open>auto simp: key_ord linearization_from_def\<close>)
  moreover have "set ord \<subseteq> {..<length es}" using Fk by (auto simp: in_ord)
  moreover have "known_in es {..<length es} \<subseteq> set ord"
  proof
    fix i assume i: "i \<in> known_in es {..<length es}"
    then have k: "e_key (es ! i) \<in> set ks" by (simp add: ks(2) known_in_def)
    have "i \<in> known_in es (key_positions es (e_key (es ! i)))"
      using i by (simp add: known_in_def key_positions_def)
    then have "i \<in> set (F (e_key (es ! i)))" using F [OF k] by (auto simp: linearization_from_def)
    then show "i \<in> set ord" using k by (auto simp: in_ord)
  qed
  moreover have "run_list kv_step (\<lambda>_. None) (map ((!) es) ord) \<noteq> None"
    unfolding kv.store_run_iff filter_key_map key_ord
    using F by (auto simp: linearization_from_def)
  ultimately show ?thesis
    using real_time by (auto simp: store_linearizable_def store_linearization_def)
qed

lemma store_linearizable_keys:
  assumes wf: "wf_entries es" and ks: "distinct ks" "set ks = e_key ` set es"
  shows "store_linearizable es \<longleftrightarrow> (\<forall>k \<in> set ks. linearizable (filter (\<lambda>e. e_key e = k) es))"
proof
  assume "store_linearizable es"
  then show "\<forall>k \<in> set ks. linearizable (filter (\<lambda>e. e_key e = k) es)"
    unfolding store_linearizable_def linearizable_key using store_to_key by blast
next
  assume "\<forall>k \<in> set ks. linearizable (filter (\<lambda>e. e_key e = k) es)"
  then have "\<forall>k \<in> set ks. \<exists>ord. linearization_from es (key_positions es k) None ord"
    by (simp add: linearizable_key)
  then obtain F where "\<forall>k \<in> set ks. linearization_from es (key_positions es k) None (F k)"
    by metis
  then show "store_linearizable es" using keys_to_store [OF wf ks, of F] by blast
qed

end
