(* ===== verification/Lin_Correct.thy ===== *)
theory Lin_Correct
  imports Lin_Local
begin

text \<open>
  The theorems about the whole linearizability checker of \<^verbatim>\<open>disttest/src/lin/mod.rs\<close>: its
  verdicts, its report, its termination and its budget.
\<close>

section \<open>One search\<close>

lemma run_total: "\<exists>b t. run (search_new es bd) = Some (b, t)"
proof (cases "es = []")
  case False
  have e: "s_entries (search_new es bd) = es" by (simp add: search_new_def)
  have "card (rem_set (search_new es bd)) < Suc (length es)" by (simp add: search_new_ok)
  from recurse_decides [OF search_new_ok(1) this, of None] show ?thesis
    using False e by (auto simp: run_def simp del: recurse.simps)
qed (auto simp: run_def search_new_def)

lemma search_bound_Suc: "search_bound n d \<le> search_bound n (Suc d)"
proof (induction d)
  case (Suc d)
  then have "n * search_bound n d \<le> n * search_bound n (Suc d)" by (rule mult_le_mono2)
  then show ?case by simp
qed simp

lemma search_bound_mono:
  assumes "n \<le> n'" and "d \<le> d'"
  shows "search_bound n d \<le> search_bound n' d'"
proof -
  have "search_bound n d \<le> search_bound n d'"
    by (rule lift_Suc_mono_le [where f = "search_bound n", OF search_bound_Suc assms(2)])
  also have "search_bound n d' \<le> search_bound n' d'"
    using assms(1) by (induction d') (auto intro: mult_le_mono)
  finally show ?thesis .
qed

definition enough :: "nat \<Rightarrow> nat \<Rightarrow> bool" where
  "enough n bd \<longleftrightarrow> search_bound n (Suc n) < bd"

lemma enough_mono: "enough n bd \<Longrightarrow> m \<le> n \<Longrightarrow> enough m bd"
  unfolding enough_def using search_bound_mono [of m n "Suc m" "Suc n"] by linarith

lemma run_exact:
  assumes "wf_entries es" and "enough (length es) bd"
  shows "\<exists>t. run (search_new es bd) = Some (linearizable es, t) \<and> \<not> exhausted_budget t"
proof -
  obtain b t where r: "run (search_new es bd) = Some (b, t)"
    and d: "b \<longrightarrow> linearizable es" "\<not> b \<longrightarrow> \<not> exhausted_budget t \<longrightarrow> \<not> linearizable es"
    using run_decides [OF assms(1)] by blast
  have "\<not> exhausted_budget t"
    using run_enough [OF r] assms(2) by (simp add: enough_def del: search_bound.simps)
  with r d show ?thesis by (cases b) auto
qed

section \<open>The bisection\<close>

definition impossible_at :: "entry list \<Rightarrow> u64 \<Rightarrow> bool" where
  "impossible_at es t \<longleftrightarrow> \<not> linearizable (snd (prefix_at es t))"

definition evidence :: "entry list \<Rightarrow> (u64 \<times> nat) list \<Rightarrow> nat \<Rightarrow> best \<Rightarrow> bool" where
  "evidence es rs k b \<longleftrightarrow>
     k < length rs \<and> fst b = snd (rs ! k) \<and> fst (snd b) = fst (prefix_at es (fst (rs ! k))) \<and>
     impossible_at es (fst (rs ! k))"

lemma bisect_step:
  assumes "lo < hi" and "mid = lo + (hi - lo) div 2"
    and "run (search_new (snd (prefix_at es (fst (rs ! mid)))) bd) = Some (ok, s)"
  shows "bisect es bd rs lo hi best =
    (if \<not> ok \<and> \<not> exhausted_budget s
     then bisect es bd rs lo mid
       (Some (snd (rs ! mid), fst (prefix_at es (fst (rs ! mid))), best_attempt s, flatten (best_state s)))
     else bisect es bd rs (mid + 1) hi best)"
  using assms by (subst bisect.simps) (simp add: Let_def case_prod_beta)

lemma bisect_sound:
  assumes wf: "wf_entries es"
  shows "hi \<le> length rs \<Longrightarrow> \<forall>b. best = Some b \<longrightarrow> (\<exists>k. evidence es rs k b) \<Longrightarrow>
    \<exists>r. bisect es bd rs lo hi best = Some r \<and> (\<forall>b. r = Some b \<longrightarrow> (\<exists>k. evidence es rs k b))"
proof (induction "hi - lo" arbitrary: lo hi best rule: less_induct)
  case less
  show ?case
  proof (cases "lo < hi")
    case False
    then show ?thesis using less.prems by (subst bisect.simps) simp
  next
    case True
    define mid where "mid = lo + (hi - lo) div 2"
    have mid: "lo \<le> mid" "mid < hi" using True by (auto simp: mid_def)
    let ?es = "snd (prefix_at es (fst (rs ! mid)))"
    obtain ok s where r: "run (search_new ?es bd) = Some (ok, s)"
      and d: "\<not> ok \<longrightarrow> \<not> exhausted_budget s \<longrightarrow> \<not> linearizable ?es"
      using run_decides [OF wf_prefix_at [OF wf]] by blast
    note step = bisect_step [OF True mid_def r, of best]
    show ?thesis
    proof (cases "\<not> ok \<and> \<not> exhausted_budget s")
      case True
      let ?b = "(snd (rs ! mid), fst (prefix_at es (fst (rs ! mid))), best_attempt s, flatten (best_state s))"
      have "evidence es rs mid ?b"
        using True d mid less.prems(1) by (simp add: evidence_def impossible_at_def)
      then have "\<forall>b. Some ?b = Some b \<longrightarrow> (\<exists>k. evidence es rs k b)" by blast
      moreover have "mid - lo < hi - lo" "mid \<le> length rs" using mid less.prems(1) by auto
      ultimately show ?thesis
        using less.hyps [of mid lo "Some ?b"] True by (simp only: step if_True simp_thms)
    next
      case False
      have "hi - (mid + 1) < hi - lo" using mid by linarith
      from less.hyps [OF this less.prems] show ?thesis unfolding step if_not_P [OF False] .
    qed
  qed
qed

lemma bisect_first:
  assumes wf: "wf_entries es" and srt: "sorted rs" and bd: "enough (length es) bd"
  shows "hi \<le> length rs \<Longrightarrow> lo \<le> hi \<Longrightarrow> (\<forall>j < lo. \<not> impossible_at es (fst (rs ! j))) \<Longrightarrow>
    (if hi < length rs then \<exists>b. best = Some b \<and> evidence es rs hi b else best = None) \<Longrightarrow>
    \<exists>r k. bisect es bd rs lo hi best = Some r \<and> k \<le> length rs \<and>
      (\<forall>j < k. \<not> impossible_at es (fst (rs ! j))) \<and>
      (if k < length rs then \<exists>b. r = Some b \<and> evidence es rs k b else r = None)"
proof (induction "hi - lo" arbitrary: lo hi best rule: less_induct)
  case less
  show ?case
  proof (cases "lo < hi")
    case False
    then have "bisect es bd rs lo hi best = Some best" by (subst bisect.simps) simp
    then show ?thesis
      using less.prems False by (intro exI [of _ best] exI [of _ hi]) auto
  next
    case True
    define mid where "mid = lo + (hi - lo) div 2"
    have mid: "lo \<le> mid" "mid < hi" using True by (auto simp: mid_def)
    let ?es = "snd (prefix_at es (fst (rs ! mid)))"
    have "length ?es \<le> length es"
      using length_filter_le [of _ "map (truncate_at (fst (rs ! mid))) es"] by (simp add: prefix_at_snd)
    then obtain s where r: "run (search_new ?es bd) = Some (linearizable ?es, s)"
      and s: "\<not> exhausted_budget s"
      using run_exact [OF wf_prefix_at [OF wf] enough_mono [OF bd]] by blast
    note step = bisect_step [OF True mid_def r, of best]
    show ?thesis
    proof (cases "linearizable ?es")
      case False
      let ?b = "(snd (rs ! mid), fst (prefix_at es (fst (rs ! mid))), best_attempt s, flatten (best_state s))"
      have "evidence es rs mid ?b"
        using False mid less.prems(1) by (simp add: evidence_def impossible_at_def)
      moreover have "mid - lo < hi - lo" "mid \<le> length rs" "mid < length rs"
        using mid less.prems(1) by auto
      ultimately show ?thesis
        using less.hyps [of mid lo "Some ?b"] mid(1) less.prems(3) False s by (auto simp: step)
    next
      case lin: True
      have "\<not> impossible_at es (fst (rs ! j))" if "j < mid + 1" for j
      proof -
        have "rs ! j \<le> rs ! mid"
          using srt that mid less.prems(1) by (intro sorted_nth_mono) auto
        then have "fst (rs ! j) \<le> fst (rs ! mid)" by (auto simp: less_eq_prod_def)
        then show ?thesis
          using linearizable_prefix_mono [OF wf _ lin] by (simp add: impossible_at_def)
      qed
      moreover have "hi - (mid + 1) < hi - lo" "mid + 1 \<le> hi" using mid by auto
      ultimately show ?thesis
        using less.hyps [of hi "mid + 1" best] less.prems(1,4) lin by (simp add: step)
    qed
  qed
qed

lemma set_returns:
  "(t, i) \<in> set (returns es) \<longleftrightarrow> i < length es \<and> \<not> is_unknown (es ! i) \<and> t = e_ret_ns (es ! i)"
  by (auto simp: returns_def in_set_enumerate_eq image_iff)

lemma sorted_returns: "sorted (returns es)"
  by (simp add: returns_def)

section \<open>The verdict for one key\<close>

text \<open>What every report carries: a prefix that is impossible, or the whole sub-history.\<close>

definition report_ok :: "string \<Rightarrow> entry list \<Rightarrow> violation \<Rightarrow> bool" where
  "report_ok key es v \<longleftrightarrow>
     v_key v = key \<and> v_culprit v \<in> set es \<and> \<not> linearizable es \<and>
     (v_entries v = fst (prefix_at es (e_ret_ns (v_culprit v))) \<and>
        \<not> is_unknown (v_culprit v) \<and> impossible_at es (e_ret_ns (v_culprit v))
      \<or> v_entries v = by_return es)"

text \<open>With enough budget: the culprit's return is the first that made the history impossible.\<close>

definition report_earliest :: "entry list \<Rightarrow> violation \<Rightarrow> bool" where
  "report_earliest es v \<longleftrightarrow>
     v_culprit v \<in> set es \<and> \<not> is_unknown (v_culprit v) \<and>
     v_entries v = fst (prefix_at es (e_ret_ns (v_culprit v))) \<and>
     impossible_at es (e_ret_ns (v_culprit v)) \<and>
     (\<forall>e \<in> set es. \<not> is_unknown e \<longrightarrow> e_ret_ns e < e_ret_ns (v_culprit v) \<longrightarrow>
        \<not> impossible_at es (e_ret_ns e))"

lemma evidence_returns:
  assumes "evidence es (returns es) k b"
  shows "fst b < length es" "\<not> is_unknown (es ! fst b)"
    "fst (snd b) = fst (prefix_at es (e_ret_ns (es ! fst b)))"
    "impossible_at es (e_ret_ns (es ! fst b))" "fst (returns es ! k) = e_ret_ns (es ! fst b)"
proof -
  have "returns es ! k \<in> set (returns es)" using assms by (simp add: evidence_def)
  then have "fst b < length es \<and> \<not> is_unknown (es ! fst b) \<and> fst (returns es ! k) = e_ret_ns (es ! fst b)"
    using assms set_returns [of "fst (returns es ! k)" "snd (returns es ! k)" es]
    by (simp add: evidence_def)
  with assms show "fst b < length es" "\<not> is_unknown (es ! fst b)"
    "fst (snd b) = fst (prefix_at es (e_ret_ns (es ! fst b)))"
    "impossible_at es (e_ret_ns (es ! fst b))" "fst (returns es ! k) = e_ret_ns (es ! fst b)"
    by (auto simp: evidence_def)
qed

lemma check_one_key_correct:
  assumes wf: "wf_entries es"
  shows "\<exists>v. check_one_key key es bd = Some v \<and>
    (case v of
       Linearizable \<Rightarrow> linearizable es
     | NotLinearizable viol \<Rightarrow> report_ok key es viol
     | Inconclusive k n \<Rightarrow> k = key \<and> n = bd)"
proof -
  obtain b t where r: "run (search_new es bd) = Some (b, t)"
    and d: "b \<longrightarrow> linearizable es" "\<not> b \<longrightarrow> \<not> exhausted_budget t \<longrightarrow> \<not> linearizable es"
    using run_decides [OF wf] by blast
  consider "b" | "\<not> b" "exhausted_budget t" | (bad) "\<not> b" "\<not> exhausted_budget t" by blast
  then show ?thesis
  proof cases
    case bad
    then have nl: "\<not> linearizable es" using d by blast
    then have "es \<noteq> []" using linearizable_Nil by blast
    then have br: "by_return es \<noteq> []" "set (by_return es) = set es"
      by (simp_all add: by_return_def sort_key_def [symmetric] flip: set_empty)
    obtain res where res: "bisect es bd (returns es) 0 (length (returns es)) None = Some res"
      "\<forall>b. res = Some b \<longrightarrow> (\<exists>k. evidence es (returns es) k b)"
      using bisect_sound [OF wf, of "length (returns es)" "returns es" None bd 0] by auto
    show ?thesis
    proof (cases res)
      case None
      then show ?thesis
        using r bad res nl br last_in_set [OF br(1)]
        by (simp add: check_one_key_def report_ok_def Let_def)
    next
      case (Some b4)
      obtain c sh at st where b4: "b4 = (c, sh, at, st)" by (cases b4) auto
      obtain k where "evidence es (returns es) k b4" using res(2) Some by blast
      from evidence_returns [OF this] show ?thesis
        using r bad res(1) nl Some b4 by (simp add: check_one_key_def report_ok_def Let_def)
    qed
  qed (use r d run_budget [OF r] in \<open>auto simp: check_one_key_def\<close>)
qed

lemma check_one_key_exact:
  assumes wf: "wf_entries es" and bd: "enough (length es) bd"
  shows "linearizable es \<and> check_one_key key es bd = Some Linearizable \<or>
    \<not> linearizable es \<and>
      (\<exists>v. check_one_key key es bd = Some (NotLinearizable v) \<and> v_key v = key \<and> report_earliest es v)"
proof (cases "linearizable es")
  case True
  then show ?thesis using run_exact [OF wf bd] by (auto simp: check_one_key_def)
next
  case False
  obtain t where r: "run (search_new es bd) = Some (False, t)" and nexh: "\<not> exhausted_budget t"
    using run_exact [OF wf bd] False by auto
  let ?rs = "returns es"
  obtain res k where res: "bisect es bd ?rs 0 (length ?rs) None = Some res"
    and k: "k \<le> length ?rs" "\<forall>j < k. \<not> impossible_at es (fst (?rs ! j))"
    and best: "if k < length ?rs then \<exists>b. res = Some b \<and> evidence es ?rs k b else res = None"
    using bisect_first [OF wf sorted_returns [of es] bd, of "length ?rs" 0 None] by auto
  have early: "\<not> impossible_at es (e_ret_ns e)"
    if e: "e \<in> set es" "\<not> is_unknown e" "k < length ?rs \<longrightarrow> e_ret_ns e < fst (?rs ! k)" for e
  proof -
    obtain i where "i < length es" "es ! i = e" using e(1) by (auto simp: in_set_conv_nth)
    then have "(e_ret_ns e, i) \<in> set ?rs" using e(2) by (auto simp: set_returns)
    then obtain j where j: "j < length ?rs" "?rs ! j = (e_ret_ns e, i)"
      by (auto simp: in_set_conv_nth)
    have "j < k"
    proof (rule ccontr)
      assume "\<not> j < k"
      then have "?rs ! k \<le> ?rs ! j" using j(1) sorted_returns by (intro sorted_nth_mono) auto
      then have "fst (?rs ! k) \<le> e_ret_ns e" using j(2) by (auto simp: less_eq_prod_def)
      then show False using e(3) j(1) \<open>\<not> j < k\<close> by auto
    qed
    then show ?thesis using k(2) j(2) by force
  qed
  have klen: "k < length ?rs"
  proof (rule ccontr)
    assume k_end: "\<not> k < length ?rs"
    have "linearizable es"
    proof (cases "\<exists>e \<in> set es. \<not> is_unknown e")
      case True
      define T where "T = Max (e_ret_ns ` {e \<in> set es. \<not> is_unknown e})"
      have fin: "finite (e_ret_ns ` {e \<in> set es. \<not> is_unknown e})" by simp
      then have "T \<in> e_ret_ns ` {e \<in> set es. \<not> is_unknown e}"
        unfolding T_def using True by (intro Max_in) auto
      then obtain e where "e \<in> set es" "\<not> is_unknown e" "T = e_ret_ns e" by auto
      then have "linearizable (snd (prefix_at es T))"
        using early k_end by (auto simp: impossible_at_def)
      moreover have "\<forall>e \<in> set es. \<not> is_unknown e \<longrightarrow> e_ret_ns e \<le> T"
        using fin by (auto simp: T_def intro!: Max_ge)
      ultimately show ?thesis by (rule linearizable_last_return [OF wf])
    next
      case no: False
      then have "known_in es {..<length es} = {}" by (auto simp: known_in_def)
      then have "linearization_from es {..<length es} None []" by (simp add: linearization_from_def)
      then show ?thesis by (auto simp: linearizable_def)
    qed
    with False show False by blast
  qed
  then obtain b where b: "res = Some b" "evidence es ?rs k b" using best by auto
  obtain c sh at st where b4: "b = (c, sh, at, st)" by (cases b) auto
  have "\<forall>e \<in> set es. \<not> is_unknown e \<longrightarrow> e_ret_ns e < e_ret_ns (es ! c) \<longrightarrow> \<not> impossible_at es (e_ret_ns e)"
    using early evidence_returns(5) [OF b(2)] b4 by simp
  then show ?thesis
    using False r nexh res b(1) b4 evidence_returns [OF b(2)]
    by (simp add: check_one_key_def Let_def report_earliest_def)
qed

end
