(* ===== verification/Lin_Theorems.thy ===== *)
theory Lin_Theorems
  imports Lin_Correct
begin

text \<open>
  The properties of the linearizability checker, over whole histories. \<open>stale_read\<close> is the
  history of the first failing unit test of \<^verbatim>\<open>disttest/src/lin/mod.rs\<close>; the witnesses run the
  checker on it.
\<close>

section \<open>From one key to the history\<close>

lemma bisect_total: "\<exists>r. bisect es bd rs lo hi best = Some r"
proof (induction "hi - lo" arbitrary: lo hi best rule: less_induct)
  case less
  show ?case
  proof (cases "lo < hi")
    case False
    then show ?thesis by (subst bisect.simps) simp
  next
    case True
    define mid where "mid = lo + (hi - lo) div 2"
    have mid: "lo \<le> mid" "mid < hi" using True by (auto simp: mid_def)
    obtain ok s where "run (search_new (snd (prefix_at es (fst (rs ! mid)))) bd) = Some (ok, s)"
      using run_total by blast
    note step = bisect_step [OF True mid_def this, of best]
    show ?thesis unfolding step using less.hyps mid by auto
  qed
qed

lemma check_one_key_total: "\<exists>v. check_one_key key es bd = Some v"
proof -
  obtain b t where "run (search_new es bd) = Some (b, t)" using run_total by blast
  moreover obtain r where "bisect es bd (returns es) 0 (length (returns es)) None = Some r"
    using bisect_total by blast
  ultimately show ?thesis by (auto simp: check_one_key_def Let_def split: option.splits)
qed

lemma check_keys_total: "\<exists>v. check_keys h bd u ks = Some v"
proof (induction ks arbitrary: u)
  case Nil
  then show ?case by simp
next
  case (Cons k ks)
  obtain v where "check_one_key k (for_key h k) bd = Some v" using check_one_key_total by blast
  then show ?case using Cons.IH by (cases v) auto
qed

lemma wf_for_key: "wf_entries (entries h) \<Longrightarrow> wf_entries (for_key h k)"
  by (simp add: for_key_def)

text \<open>What the loop over the keys returns, by the verdicts of the single keys.\<close>

definition verdict_means :: "history \<Rightarrow> nat \<Rightarrow> string list \<Rightarrow> verdict option \<Rightarrow> verdict \<Rightarrow> bool" where
  "verdict_means h bd ks u v =
     (case v of
        Linearizable \<Rightarrow> u = None \<and> (\<forall>k \<in> set ks. linearizable (for_key h k))
      | NotLinearizable viol \<Rightarrow>
          u = Some v \<or> v_key viol \<in> set ks \<and> report_ok (v_key viol) (for_key h (v_key viol)) viol
      | Inconclusive k n \<Rightarrow> u = Some v \<or> k \<in> set ks \<and> n = bd)"

lemma check_keys_means:
  assumes wf: "wf_entries (entries h)"
  shows "(\<forall>v. u = Some v \<longrightarrow> (\<exists>k n. v = Inconclusive k n)) \<Longrightarrow>
    check_keys h bd u ks = Some v \<Longrightarrow> verdict_means h bd ks u v"
proof (induction ks arbitrary: u)
  case Nil
  then show ?case by (auto simp: verdict_means_def split: option.splits verdict.splits)
next
  case (Cons key ks)
  obtain w where w: "check_one_key key (for_key h key) bd = Some w"
    and cw: "case w of Linearizable \<Rightarrow> linearizable (for_key h key)
     | NotLinearizable viol \<Rightarrow> report_ok key (for_key h key) viol
     | Inconclusive k n \<Rightarrow> k = key \<and> n = bd"
    using check_one_key_correct [OF wf_for_key [OF wf]] by blast
  show ?case
  proof (cases w)
    case Linearizable
    then have "check_keys h bd u ks = Some v" using Cons.prems(2) w by simp
    from Cons.IH [OF Cons.prems(1) this] show ?thesis
      using Linearizable cw by (auto simp: verdict_means_def split: verdict.splits)
  next
    case (NotLinearizable viol)
    then show ?thesis
      using Cons.prems(2) w cw by (auto simp: verdict_means_def report_ok_def)
  next
    case (Inconclusive k n)
    let ?u = "Some (case u of None \<Rightarrow> Inconclusive k n | Some v \<Rightarrow> v)"
    have "check_keys h bd ?u ks = Some v" using Cons.prems(2) w Inconclusive by simp
    moreover have "\<forall>v. ?u = Some v \<longrightarrow> (\<exists>k n. v = Inconclusive k n)"
      using Cons.prems(1) by (auto split: option.splits)
    ultimately have "verdict_means h bd ks ?u v" using Cons.IH by blast
    then show ?thesis
      using Inconclusive cw Cons.prems(1)
      by (auto simp: verdict_means_def split: verdict.splits option.splits)
  qed
qed

lemma check_keys_exact:
  assumes wf: "wf_entries (entries h)" and bd: "\<forall>k \<in> set ks. enough (length (for_key h k)) bd"
  shows "check_keys h bd None ks = Some Linearizable \<and> (\<forall>k \<in> set ks. linearizable (for_key h k)) \<or>
    (\<exists>v. check_keys h bd None ks = Some (NotLinearizable v) \<and> v_key v \<in> set ks \<and>
       \<not> linearizable (for_key h (v_key v)) \<and> report_earliest (for_key h (v_key v)) v)"
  using bd
proof (induction ks)
  case Nil
  then show ?case by simp
next
  case (Cons key ks)
  have "enough (length (for_key h key)) bd" using Cons.prems by simp
  from check_one_key_exact [OF wf_for_key [OF wf] this, of key] Cons show ?case by auto
qed

lemma store_linearizable_history:
  "wf_entries (entries h) \<Longrightarrow>
     store_linearizable (entries h) \<longleftrightarrow> (\<forall>k \<in> set (history_keys h). linearizable (for_key h k))"
  using store_linearizable_keys [OF _ distinct_history_keys set_history_keys] by (simp add: for_key_def)

section \<open>Properties\<close>

definition stale_read :: history where
  "stale_read =
     history_push
       (history_push history_new (recorder_entry 0 ''k'' (Write [97]) Ok 0 10 ''''))
       (recorder_entry 1 ''k'' Read (Value None) 20 30 '''')"

lemma wf_stale_read: "wf_entries (entries stale_read)"
  by (simp add: stale_read_def history_push_def history_new_def recorder_entry_def wf_entry_def
      is_unknown_def)

text \<open>C1: with a budget above the search bound of every key, the checker decides: it answers
  \<open>Linearizable\<close> exactly when the whole history is linearizable over the sequential key/value
  store, and otherwise reports a key, the first return instant at which that key's history had
  become impossible, and the operations called by then.\<close>

theorem check_decides:
  assumes "wf_entries (entries h)"
    and "\<forall>k \<in> set (history_keys h). enough (length (for_key h k)) bd"
  shows "if store_linearizable (entries h) then check_with_budget h bd = Some Linearizable
    else \<exists>v. check_with_budget h bd = Some (NotLinearizable v) \<and>
      v_key v \<in> set (history_keys h) \<and> report_earliest (for_key h (v_key v)) v"
  using check_keys_exact [OF assms] store_linearizable_history [OF assms(1)]
  by (auto simp: check_with_budget_def)

lemma stale_read_verdict:
  "case check_with_budget stale_read 20 of
     Some (NotLinearizable v) \<Rightarrow> e_id (v_culprit v) = 1 \<and> v_key v = ''k'' | _ \<Rightarrow> False"
  by code_simp

lemma enough_stale_read: "\<forall>k \<in> set (history_keys stale_read). enough (length (for_key stale_read k)) 20"
  by code_simp

lemma stale_read_keys: "history_keys stale_read = [''k'']"
  by code_simp

lemma stale_read_broken: "\<not> store_linearizable (entries stale_read)"
proof -
  have "\<not> linearizable (for_key stale_read ''k'')"
  proof
    assume "linearizable (for_key stale_read ''k'')"
    then have "check_one_key ''k'' (for_key stale_read ''k'') 20 = Some Linearizable"
      using check_one_key_exact [OF wf_for_key [OF wf_stale_read], of "''k''" 20 "''k''"] enough_stale_read
      by (auto simp: stale_read_keys)
    then have "check_with_budget stale_read 20 = Some Linearizable"
      by (simp add: check_with_budget_def stale_read_keys)
    then show False using stale_read_verdict by simp
  qed
  then show ?thesis by (simp add: store_linearizable_history [OF wf_stale_read] stale_read_keys)
qed

theorem check_decides_witness:
  "\<not> store_linearizable (entries stale_read) \<and>
   (\<exists>v. check_with_budget stale_read 20 = Some (NotLinearizable v) \<and>
      report_earliest (for_key stale_read (v_key v)) v)"
  using check_decides [OF wf_stale_read enough_stale_read] stale_read_verdict
  by (auto split: if_splits)

text \<open>C2: whatever the budget, a verdict is never wrong. \<open>Linearizable\<close> means the history is
  linearizable over the store; \<open>NotLinearizable\<close> means it is not, names a key whose sub-history
  is not, a culprit from it, and an impossible prefix (or the whole sub-history); \<open>Inconclusive\<close>
  names a key of the history and reports exactly the budget as its state count.\<close>

theorem check_verdict_sound:
  assumes "wf_entries (entries h)" and "check_with_budget h bd = Some v"
  shows "case v of
       Linearizable \<Rightarrow> store_linearizable (entries h)
     | NotLinearizable viol \<Rightarrow>
         \<not> store_linearizable (entries h) \<and> v_key viol \<in> set (history_keys h) \<and>
         report_ok (v_key viol) (for_key h (v_key viol)) viol
     | Inconclusive k n \<Rightarrow> k \<in> set (history_keys h) \<and> n = bd"
  using check_keys_means [OF assms(1), of None bd "history_keys h" v] assms(2)
    store_linearizable_history [OF assms(1)]
  by (auto simp: check_with_budget_def verdict_means_def report_ok_def split: verdict.splits)

theorem check_verdict_sound_witness:
  "\<exists>v. check_with_budget stale_read 20 = Some (NotLinearizable v) \<and>
     report_ok (v_key v) (for_key stale_read (v_key v)) v"
proof -
  obtain v where "check_with_budget stale_read 20 = Some (NotLinearizable v)"
    using stale_read_verdict by (auto split: option.splits verdict.splits)
  with check_verdict_sound [OF wf_stale_read this] show ?thesis by auto
qed

text \<open>C4: the checker always returns: no search runs out of depth, the bisection stops and every
  key is visited, for any history and any budget.\<close>

theorem check_total: "\<exists>v. check_with_budget h bd = Some v"
  by (simp add: check_with_budget_def check_keys_total)

text \<open>C3: checking keys independently loses nothing. For entries as the recorder builds them, a
  history is linearizable over the key/value store exactly when the sub-history of every key it
  mentions is linearizable over a single register.\<close>

theorem keys_independent:
  assumes "wf_entries (entries h)"
  shows "store_linearizable (entries h) \<longleftrightarrow>
    (\<forall>k \<in> set (history_keys h). linearizable (for_key h k))"
  by (rule store_linearizable_history [OF assms])

theorem keys_independent_witness:
  "store_linearizable (entries stale_read) \<longleftrightarrow>
    (\<forall>k \<in> set (history_keys stale_read). linearizable (for_key stale_read k))"
  by (rule keys_independent [OF wf_stale_read])

lemma stale_read_impossible: "impossible_at (entries stale_read) 30"
proof -
  have "for_key stale_read ''k'' = snd (prefix_at (entries stale_read) 30)"
    by code_simp
  moreover have "\<not> linearizable (for_key stale_read ''k'')"
    using store_linearizable_history [OF wf_stale_read] stale_read_broken stale_read_keys by simp
  ultimately show ?thesis by (simp add: impossible_at_def)
qed

text \<open>\<^emph>\<open>impossible at t\<close> only ever turns from false to true as \<open>t\<close> grows. A history whose
  prefix at a later instant (operations called by then, unanswered ones optional) is linearizable
  has a linearizable prefix at every earlier instant, so bisecting the return instants is sound.\<close>

theorem impossible_monotone:
  assumes "wf_entries es" and "t \<le> u" and "impossible_at es t"
  shows "impossible_at es u"
  using linearizable_prefix_mono [OF assms(1,2)] assms(3) by (auto simp: impossible_at_def)

theorem impossible_monotone_witness: "impossible_at (entries stale_read) 40"
  by (rule impossible_monotone [OF wf_stale_read _ stale_read_impossible]) simp

text \<open>the search keeps its three views of the remaining operations in step. Choosing an
  operation moves the flags, the bitmap and the count of answered operations together, and
  putting it back after a failed branch restores the node exactly, so the memo key (bitmap, model
  state) identifies the set of operations already linearized.\<close>

theorem search_state_in_step:
  assumes "search_ok s" and "i \<in> rem_set s"
  shows "search_ok (descend i s) \<and> rem_set (descend i s) = rem_set s - {i} \<and>
    (\<forall>t. restored (descend i s) t \<longrightarrow> restored s (ascend i t) \<and> search_ok (ascend i t))"
  using search_ok_descend [OF assms] restored_ascend [OF assms] restored_search_ok [OF _ assms(1)]
  by blast

theorem search_state_in_step_witness:
  "rem_set (descend 1 (search_new (entries stale_read) 20)) = {0}"
proof -
  have "search_ok (search_new (entries stale_read) 20)" "1 \<in> rem_set (search_new (entries stale_read) 20)"
    using search_new_ok [of "entries stale_read" 20]
    by (simp_all add: call_ok_def) (simp add: stale_read_def history_push_def history_new_def)
  moreover have "length (entries stale_read) = 2" by code_simp
  then have "rem_set (search_new (entries stale_read) 20) = {0, 1}"
    by (auto simp: search_new_ok)
  ultimately show ?thesis using search_state_in_step by auto
qed

end
