(* ===== verification/Bytes.thy ===== *)
theory Bytes
  imports Prelude
begin

text \<open>
  Byte strings: little- and big-endian integers of any width (\<open>to_le_bytes\<close>, \<open>to_be_bytes\<close>,
  \<open>from_le_bytes\<close>, \<open>from_be_bytes\<close> of Rust), slices, and the decimal and hexadecimal printing
  that error messages and reports use. Every wire format of the development is built on these.
\<close>

section \<open>Integers as bytes\<close>

fun le_bytes :: "nat \<Rightarrow> nat \<Rightarrow> bytes" where
  "le_bytes 0 v = []"
| "le_bytes (Suc n) v = word_of_nat v # le_bytes n (v div 256)"

definition be_bytes :: "nat \<Rightarrow> nat \<Rightarrow> bytes" where
  "be_bytes n v = rev (le_bytes n v)"

fun le_val :: "bytes \<Rightarrow> nat" where
  "le_val [] = 0"
| "le_val (b # bs) = unat b + 256 * le_val bs"

definition be_val :: "bytes \<Rightarrow> nat" where
  "be_val bs = le_val (rev bs)"

lemma length_le_bytes [simp]: "length (le_bytes n v) = n"
  by (induction n arbitrary: v) auto

lemma length_be_bytes [simp]: "length (be_bytes n v) = n"
  by (simp add: be_bytes_def)

lemma unat_byte: "unat (word_of_nat v :: u8) = v mod 256"
  by (simp add: unat_of_nat)

lemma le_val_le_bytes: "le_val (le_bytes n v) = v mod 256 ^ n"
proof (induction n arbitrary: v)
  case 0
  then show ?case by simp
next
  case (Suc n)
  have "v mod 256 ^ Suc n = v mod (256 * 256 ^ n)" by simp
  also have "\<dots> = 256 * (v div 256 mod 256 ^ n) + v mod 256" by (rule mod_mult2_eq)
  finally show ?case using Suc by (simp add: unat_byte)
qed

lemma be_val_be_bytes: "be_val (be_bytes n v) = v mod 256 ^ n"
  by (simp add: be_val_def be_bytes_def le_val_le_bytes)

lemma le_val_le_bytes_small [codec]: "v < 256 ^ n \<Longrightarrow> le_val (le_bytes n v) = v"
  by (simp add: le_val_le_bytes)

lemma be_val_be_bytes_small [codec]: "v < 256 ^ n \<Longrightarrow> be_val (be_bytes n v) = v"
  by (simp add: be_val_be_bytes)

lemma byte_lt: "unat (b :: u8) < 256"
  using unsigned_less [where ?'a = nat, of b] by simp

lemma le_val_bound: "le_val bs < 256 ^ length bs"
proof (induction bs)
  case Nil
  then show ?case by simp
next
  case (Cons b bs)
  then have "256 * Suc (le_val bs) \<le> 256 * 256 ^ length bs"
    by (intro mult_le_mono2) simp
  then show ?case using byte_lt [of b] by simp
qed

lemma be_val_bound: "be_val bs < 256 ^ length bs"
  using le_val_bound [of "rev bs"] by (simp add: be_val_def)

lemma le_bytes_le_val: "le_bytes (length bs) (le_val bs) = bs"
proof (induction bs)
  case (Cons b bs)
  have "(word_of_nat (unat b + 256 * le_val bs) :: u8) = b"
    by (rule word_unat_eq_iff [THEN iffD2]) (use byte_lt [of b] in \<open>simp add: unat_byte del: of_nat_add of_nat_mult\<close>)
  moreover have "(unat b + 256 * le_val bs) div 256 = le_val bs"
    using byte_lt [of b] by simp
  ultimately show ?case using Cons by simp
qed simp

lemma be_bytes_be_val: "be_bytes (length bs) (be_val bs) = bs"
  using le_bytes_le_val [of "rev bs"] by (simp add: be_bytes_def be_val_def)

lemma be_bytes_mod: "be_bytes n (v mod 256 ^ n) = be_bytes n v"
  using be_bytes_be_val [of "be_bytes n v"] by (simp add: be_val_be_bytes)

lemma le_bytes_mod: "le_bytes n (v mod 256 ^ n) = le_bytes n v"
  using le_bytes_le_val [of "le_bytes n v"] by (simp add: le_val_le_bytes)

lemma tl_be_bytes: "tl (be_bytes (Suc n) v) = be_bytes n v"
proof -
  have "butlast (le_bytes (Suc n) v) = le_bytes n v"
    by (induction n arbitrary: v) auto
  then show ?thesis by (metis be_bytes_def butlast_rev rev_rev_ident)
qed

section \<open>Words of the four widths\<close>

definition u16_be :: "u16 \<Rightarrow> bytes" where "u16_be v = be_bytes 2 (unat v)"
definition u32_be :: "u32 \<Rightarrow> bytes" where "u32_be v = be_bytes 4 (unat v)"
definition u64_be :: "u64 \<Rightarrow> bytes" where "u64_be v = be_bytes 8 (unat v)"
definition u16_le :: "u16 \<Rightarrow> bytes" where "u16_le v = le_bytes 2 (unat v)"
definition u32_le :: "u32 \<Rightarrow> bytes" where "u32_le v = le_bytes 4 (unat v)"
definition u64_le :: "u64 \<Rightarrow> bytes" where "u64_le v = le_bytes 8 (unat v)"

definition u16_from_be :: "bytes \<Rightarrow> u16" where "u16_from_be bs = word_of_nat (be_val bs)"
definition u32_from_be :: "bytes \<Rightarrow> u32" where "u32_from_be bs = word_of_nat (be_val bs)"
definition u64_from_be :: "bytes \<Rightarrow> u64" where "u64_from_be bs = word_of_nat (be_val bs)"
definition u16_from_le :: "bytes \<Rightarrow> u16" where "u16_from_le bs = word_of_nat (le_val bs)"
definition u32_from_le :: "bytes \<Rightarrow> u32" where "u32_from_le bs = word_of_nat (le_val bs)"
definition u64_from_le :: "bytes \<Rightarrow> u64" where "u64_from_le bs = word_of_nat (le_val bs)"

lemmas word_bytes_defs =
  u16_be_def u32_be_def u64_be_def u16_le_def u32_le_def u64_le_def
  u16_from_be_def u32_from_be_def u64_from_be_def
  u16_from_le_def u32_from_le_def u64_from_le_def

lemma u16_lt: "unat (v :: u16) < 65536"
  using unsigned_less [where ?'a = nat, of v] by simp

lemma u32_lt: "unat (v :: u32) < 4294967296"
  using unsigned_less [where ?'a = nat, of v] by simp

lemma u64_lt: "unat (v :: u64) < 18446744073709551616"
  using unsigned_less [where ?'a = nat, of v] by simp

lemma length_word_bytes [simp]:
  "length (u16_be a) = 2" "length (u32_be b) = 4" "length (u64_be c) = 8"
  "length (u16_le a) = 2" "length (u32_le b) = 4" "length (u64_le c) = 8"
  by (simp_all add: word_bytes_defs)

lemma from_word_bytes [codec, simp]:
  "u16_from_be (u16_be a) = a" "u32_from_be (u32_be b) = b" "u64_from_be (u64_be c) = c"
  "u16_from_le (u16_le a) = a" "u32_from_le (u32_le b) = b" "u64_from_le (u64_le c) = c"
  using u16_lt [of a] u32_lt [of b] u64_lt [of c]
  by (simp_all add: word_bytes_defs be_val_be_bytes le_val_le_bytes)

lemma u16_be_inj [simp]: "u16_be a = u16_be b \<longleftrightarrow> a = b"
proof
  assume "u16_be a = u16_be b"
  then have "u16_from_be (u16_be a) = u16_from_be (u16_be b)" by (rule arg_cong)
  then show "a = b" by (simp only: from_word_bytes)
qed (rule arg_cong)

lemma u32_be_inj [simp]: "u32_be a = u32_be b \<longleftrightarrow> a = b"
proof
  assume "u32_be a = u32_be b"
  then have "u32_from_be (u32_be a) = u32_from_be (u32_be b)" by (rule arg_cong)
  then show "a = b" by (simp only: from_word_bytes)
qed (rule arg_cong)

lemma u64_be_inj [simp]: "u64_be a = u64_be b \<longleftrightarrow> a = b"
proof
  assume "u64_be a = u64_be b"
  then have "u64_from_be (u64_be a) = u64_from_be (u64_be b)" by (rule arg_cong)
  then show "a = b" by (simp only: from_word_bytes)
qed (rule arg_cong)

lemma u16_le_inj [simp]: "u16_le a = u16_le b \<longleftrightarrow> a = b"
proof
  assume "u16_le a = u16_le b"
  then have "u16_from_le (u16_le a) = u16_from_le (u16_le b)" by (rule arg_cong)
  then show "a = b" by (simp only: from_word_bytes)
qed (rule arg_cong)

lemma u32_le_inj [simp]: "u32_le a = u32_le b \<longleftrightarrow> a = b"
proof
  assume "u32_le a = u32_le b"
  then have "u32_from_le (u32_le a) = u32_from_le (u32_le b)" by (rule arg_cong)
  then show "a = b" by (simp only: from_word_bytes)
qed (rule arg_cong)

lemma u64_le_inj [simp]: "u64_le a = u64_le b \<longleftrightarrow> a = b"
proof
  assume "u64_le a = u64_le b"
  then have "u64_from_le (u64_le a) = u64_from_le (u64_le b)" by (rule arg_cong)
  then show "a = b" by (simp only: from_word_bytes)
qed (rule arg_cong)

lemma of_nat_u16_inj:
  assumes "n < 65536" "m < 65536"
  shows "(word_of_nat n :: u16) = word_of_nat m \<longleftrightarrow> n = m"
proof
  assume "(word_of_nat n :: u16) = word_of_nat m"
  then have "unat (word_of_nat n :: u16) = unat (word_of_nat m :: u16)" by (rule arg_cong)
  then show "n = m" using assms by (simp add: unat_of_nat)
qed simp

lemma unat_from_be [simp]:
  "length bs = 2 \<Longrightarrow> unat (u16_from_be bs) = be_val bs"
  "length bs = 4 \<Longrightarrow> unat (u32_from_be bs) = be_val bs"
  using be_val_bound [of bs] by (simp_all add: word_bytes_defs unat_of_nat)

lemma u16_be_of_nat: "u16_be (word_of_nat n) = be_bytes 2 n"
  using be_bytes_mod [of 2 n] by (simp add: u16_be_def unat_of_nat)

lemma u32_be_of_nat: "u32_be (word_of_nat n) = be_bytes 4 n"
  using be_bytes_mod [of 4 n] by (simp add: u32_be_def unat_of_nat)

section \<open>Slices\<close>

text \<open>\<open>&xs[a..b]\<close> for \<open>a \<le> b \<le> xs.len()\<close>.\<close>

definition slice :: "nat \<Rightarrow> nat \<Rightarrow> 'a list \<Rightarrow> 'a list" where
  "slice a b xs = take (b - a) (drop a xs)"

lemma length_slice: "b \<le> length xs \<Longrightarrow> length (slice a b xs) = b - a"
  by (simp add: slice_def)

section \<open>Chunks\<close>

text \<open>\<open>chunks(n)\<close> for \<open>n > 0\<close>.\<close>

function chunks :: "nat \<Rightarrow> 'a list \<Rightarrow> 'a list list" where
  "chunks n xs = (if n = 0 \<or> xs = [] then [] else take n xs # chunks n (drop n xs))"
  by pat_completeness auto
termination by (relation "measure (\<lambda>(n, xs). length xs)") auto

declare chunks.simps [simp del]

lemma concat_chunks: "0 < n \<Longrightarrow> concat (chunks n xs) = xs"
proof (induction n xs rule: chunks.induct)
  case (1 n xs)
  then show ?case by (subst chunks.simps) (cases "xs = []"; simp)
qed

lemma chunks_sizes: "c \<in> set (chunks n xs) \<Longrightarrow> 0 < length c \<and> length c \<le> n"
proof (induction n xs rule: chunks.induct)
  case (1 n xs)
  show ?case
  proof (cases "n = 0 \<or> xs = []")
    case False
    then have "chunks n xs = take n xs # chunks n (drop n xs)" by (subst chunks.simps) simp
    then show ?thesis using 1 False by auto
  qed (use 1(2) in \<open>simp add: chunks.simps\<close>)
qed

lemma chunks_full: "Suc i < length (chunks n xs) \<Longrightarrow> length (chunks n xs ! i) = n"
proof (induction n xs arbitrary: i rule: chunks.induct)
  case (1 n xs)
  show ?case
  proof (cases "n = 0 \<or> xs = []")
    case True
    then show ?thesis using 1(2) by (simp add: chunks.simps)
  next
    case False
    then have e: "chunks n xs = take n xs # chunks n (drop n xs)" by (subst chunks.simps) simp
    show ?thesis
    proof (cases i)
      case 0
      have "drop n xs \<noteq> []" using 1(2) unfolding e 0 by (auto simp: chunks.simps)
      then show ?thesis by (simp add: e 0)
    next
      case (Suc j)
      then show ?thesis using 1(1) [OF False, of j] 1(2) by (simp add: e)
    qed
  qed
qed

section \<open>Decimal and hexadecimal\<close>

definition digit_char :: "nat \<Rightarrow> char" where
  "digit_char d = char_of (if d < 10 then 48 + d else 87 + d)"

fun show_nat :: "nat \<Rightarrow> string" where
  "show_nat n = (if n < 10 then [digit_char n] else show_nat (n div 10) @ [digit_char (n mod 10)])"

declare show_nat.simps [simp del]

text \<open>\<open>{b:02x}\<close> and \<open>{v:04x}\<close>.\<close>

definition hex2 :: "u8 \<Rightarrow> string" where
  "hex2 b = [digit_char (unat b div 16), digit_char (unat b mod 16)]"

definition hex4 :: "u16 \<Rightarrow> string" where
  "hex4 v = [digit_char (unat v div 4096), digit_char (unat v div 256 mod 16),
             digit_char (unat v div 16 mod 16), digit_char (unat v mod 16)]"

lemma show_nat_nonempty: "show_nat n \<noteq> []"
  by (subst show_nat.simps) simp

text \<open>The bytes of an ASCII string.\<close>

definition as_bytes :: "string \<Rightarrow> bytes" where
  "as_bytes s = map (\<lambda>c. word_of_nat (of_char c)) s"

end
