(* ===== verification/Text.thy ===== *)
theory Text
  imports Bytes
begin

text \<open>
  The formatting the reports share. A Rust string is its UTF-8 bytes as characters; \<open>{:<n}\<close> and \<open>{:>n}\<close>
  pad with spaces (the padded texts are ASCII but for \<open>ELLIPSIS\<close>, whose three bytes count as one).
\<close>

definition show_int :: "int \<Rightarrow> string" where
  "show_int i = (if i < 0 then ''-'' @ show_nat (nat (- i)) else show_nat (nat i))"

text \<open>\<open>{:<n}\<close> and \<open>{:>n}\<close>.\<close>

definition pad_right :: "nat \<Rightarrow> string \<Rightarrow> string" where
  "pad_right n s = s @ replicate (n - length s) (CHR '' '')"

definition pad_left :: "nat \<Rightarrow> string \<Rightarrow> string" where
  "pad_left n s = replicate (n - length s) (CHR '' '') @ s"

text \<open>\<open>join(sep)\<close>.\<close>

fun join :: "string \<Rightarrow> string list \<Rightarrow> string" where
  "join sep [] = []"
| "join sep [s] = s"
| "join sep (s # t # ts) = s @ sep @ join sep (t # ts)"

text \<open>\<open>{:x}\<close> and \<open>{:0nx}\<close>.\<close>

fun hex_nat :: "nat \<Rightarrow> string" where
  "hex_nat n = (if n < 16 then [digit_char n] else hex_nat (n div 16) @ [digit_char (n mod 16)])"

declare hex_nat.simps [simp del]

definition hex_pad :: "nat \<Rightarrow> nat \<Rightarrow> string" where
  "hex_pad w n = replicate (w - length (hex_nat n)) (CHR ''0'') @ hex_nat n"

definition ELLIPSIS :: string where "ELLIPSIS = [CHR 0xE2, CHR 0x80, CHR 0xA6]"
definition ARROW :: string where "ARROW = [CHR 0xE2, CHR 0x86, CHR 0x92]"
definition EM_DASH :: string where "EM_DASH = [CHR 0xE2, CHR 0x80, CHR 0x94]"
definition TIMES :: string where "TIMES = [CHR 0xC3, CHR 0x97]"

definition newline :: string where "newline = [CHR 0x0A]"

text \<open>A byte as the reports print it.\<close>

definition printable :: "u8 \<Rightarrow> char" where
  "printable b = (if 0x20 \<le> b \<and> b < 0x7f then char_of (unat b) else CHR ''.'')"

section \<open>Hex dumps\<close>

text \<open>
  The dump of \<^verbatim>\<open>kafkatest/src/proto/mod.rs\<close> and of \<^verbatim>\<open>wasmtest/src/wasm/hex.rs\<close>: sixteen bytes a row,
  a caret line under the rows with marked bytes. A mark is the pair of ends of a range.
\<close>

definition dump_hex :: "bytes \<Rightarrow> nat \<Rightarrow> nat \<Rightarrow> string" where
  "dump_hex bs start e =
     concat (map (\<lambda>i. (if i mod 8 = 0 \<and> i \<noteq> 0 then '' '' else []) @
                    (if start + i < length bs \<and> start + i < e then hex2 (bs ! (start + i)) @ '' '' else ''   ''))
       [0..<16])"

definition dump_ascii :: "bytes \<Rightarrow> nat \<Rightarrow> nat \<Rightarrow> string" where
  "dump_ascii bs start e =
     map (\<lambda>i. if start + i < length bs \<and> start + i < e then printable (bs ! (start + i)) else CHR '' '') [0..<16]"

definition marked :: "(nat \<times> nat) list \<Rightarrow> nat \<Rightarrow> bool" where
  "marked marks i \<longleftrightarrow> list_ex (\<lambda>(a, b). a \<le> i \<and> i < b) marks"

definition dump_caret :: "(nat \<times> nat) list \<Rightarrow> nat \<Rightarrow> nat \<Rightarrow> string" where
  "dump_caret marks start e =
     concat (map (\<lambda>i. (if i mod 8 = 0 \<and> i \<noteq> start then '' '' else []) @
                    (if marked marks i then ''^^ '' else ''   '')) [start..<e])"

definition dump_row :: "bytes \<Rightarrow> (nat \<times> nat) list \<Rightarrow> nat \<Rightarrow> nat \<Rightarrow> string" where
  "dump_row bs marks shown row =
     (let start = row * 16; e = min (start + 16) shown in
      hex_pad 4 start @ ''  '' @ dump_hex bs start e @ '' |'' @ dump_ascii bs start e @ ''|'' @ newline @
      (if list_ex (marked marks) [start..<e] then ''      '' @ dump_caret marks start e @ newline else []))"

definition dump_rows :: "bytes \<Rightarrow> (nat \<times> nat) list \<Rightarrow> nat \<Rightarrow> string" where
  "dump_rows bs marks shown = concat (map (dump_row bs marks shown) [0..<(shown + 15) div 16])"

text \<open>\<open>trim_end\<close> on ASCII text, whose white space here is the space and the line feed.\<close>

definition trim_end :: "string \<Rightarrow> string" where
  "trim_end s = rev (dropWhile (\<lambda>c. c = CHR '' '' \<or> c = CHR 0x0A) (rev s))"

definition kafka_hexdump :: "bytes \<Rightarrow> (nat \<times> nat) list \<Rightarrow> nat \<Rightarrow> string" where
  "kafka_hexdump bs marks max_bytes =
     (let shown = min (length bs) max_bytes;
          out = dump_rows bs marks shown @
            (if length bs > shown
             then ''      ... '' @ show_nat (length bs - shown) @ '' more bytes'' @ newline else [])
      in trim_end (if out = [] then ''      (no bytes)'' @ newline else out))"

definition wasm_hexdump :: "bytes \<Rightarrow> (nat \<times> nat) list \<Rightarrow> nat \<Rightarrow> string" where
  "wasm_hexdump bs marks max_bytes =
     (let shown = min (length bs) max_bytes in
      dump_rows bs marks shown @
      (if length bs > shown
       then ''      '' @ ELLIPSIS @ '' '' @ show_nat (length bs - shown) @ '' more bytes'' @ newline else []))"

end
