(* ===== verification/Tls_Types.thy ===== *)
theory Tls_Types
  imports Text
begin

text \<open>
  The code points and enumerations of \<^verbatim>\<open>tlstest/src/tls/mod.rs\<close> (content types, handshake types,
  alerts, suites, groups, signature schemes, extensions, GREASE), the error type of the client and
  its hexadecimal helpers. Single-field tuple structs are datatypes with one constructor.
\<close>

section \<open>Content types\<close>

datatype content_type =
    CT_ChangeCipherSpec
  | CT_Alert
  | CT_Handshake
  | CT_ApplicationData
  | CT_Other u8

fun ct_as_u8 :: "content_type \<Rightarrow> u8" where
  "ct_as_u8 CT_ChangeCipherSpec = 20"
| "ct_as_u8 CT_Alert = 21"
| "ct_as_u8 CT_Handshake = 22"
| "ct_as_u8 CT_ApplicationData = 23"
| "ct_as_u8 (CT_Other b) = b"

definition ct_from_u8 :: "u8 \<Rightarrow> content_type" where
  "ct_from_u8 b =
     (if b = 20 then CT_ChangeCipherSpec
      else if b = 21 then CT_Alert
      else if b = 22 then CT_Handshake
      else if b = 23 then CT_ApplicationData
      else CT_Other b)"

fun ct_name :: "content_type \<Rightarrow> string" where
  "ct_name CT_ChangeCipherSpec = ''change_cipher_spec(20)''"
| "ct_name CT_Alert = ''alert(21)''"
| "ct_name CT_Handshake = ''handshake(22)''"
| "ct_name CT_ApplicationData = ''application_data(23)''"
| "ct_name (CT_Other b) = ''unknown('' @ show_nat (unat b) @ '')''"

section \<open>Handshake types\<close>

datatype handshake_type = HandshakeType (hs_code: u8)

definition HS_CLIENT_HELLO :: handshake_type where
  "HS_CLIENT_HELLO = HandshakeType 1"

definition HS_SERVER_HELLO :: handshake_type where
  "HS_SERVER_HELLO = HandshakeType 2"

definition HS_NEW_SESSION_TICKET :: handshake_type where
  "HS_NEW_SESSION_TICKET = HandshakeType 4"

definition HS_END_OF_EARLY_DATA :: handshake_type where
  "HS_END_OF_EARLY_DATA = HandshakeType 5"

definition HS_ENCRYPTED_EXTENSIONS :: handshake_type where
  "HS_ENCRYPTED_EXTENSIONS = HandshakeType 8"

definition HS_CERTIFICATE :: handshake_type where
  "HS_CERTIFICATE = HandshakeType 11"

definition HS_CERTIFICATE_REQUEST :: handshake_type where
  "HS_CERTIFICATE_REQUEST = HandshakeType 13"

definition HS_CERTIFICATE_VERIFY :: handshake_type where
  "HS_CERTIFICATE_VERIFY = HandshakeType 15"

definition HS_FINISHED :: handshake_type where
  "HS_FINISHED = HandshakeType 20"

definition HS_KEY_UPDATE :: handshake_type where
  "HS_KEY_UPDATE = HandshakeType 24"

definition HS_MESSAGE_HASH :: handshake_type where
  "HS_MESSAGE_HASH = HandshakeType 254"

definition HS_HELLO_REQUEST :: handshake_type where
  "HS_HELLO_REQUEST = HandshakeType 0"

text \<open>A name table, then \<open>name(code)\<close>, or \<open>unknown(code)\<close> for a code it does not list.\<close>

definition hs_names :: "(u8 \<times> string) list" where
  "hs_names =
    [(0, ''hello_request_RESERVED''),
     (1, ''client_hello''),
     (2, ''server_hello''),
     (4, ''new_session_ticket''),
     (5, ''end_of_early_data''),
     (8, ''encrypted_extensions''),
     (11, ''certificate''),
     (13, ''certificate_request''),
     (15, ''certificate_verify''),
     (20, ''finished''),
     (24, ''key_update''),
     (254, ''message_hash'')]"

definition hs_name :: "handshake_type \<Rightarrow> string" where
  "hs_name h =
     (case map_of hs_names (hs_code h) of
        None \<Rightarrow> ''unknown('' @ show_nat (unat (hs_code h)) @ '')''
      | Some n \<Rightarrow> n @ ''('' @ show_nat (unat (hs_code h)) @ '')'')"

section \<open>Alerts\<close>

datatype alert_level = AL_Warning | AL_Fatal | AL_Other u8

definition al_from_u8 :: "u8 \<Rightarrow> alert_level" where
  "al_from_u8 b = (if b = 1 then AL_Warning else if b = 2 then AL_Fatal else AL_Other b)"

fun al_as_u8 :: "alert_level \<Rightarrow> u8" where
  "al_as_u8 AL_Warning = 1"
| "al_as_u8 AL_Fatal = 2"
| "al_as_u8 (AL_Other b) = b"

fun al_name :: "alert_level \<Rightarrow> string" where
  "al_name AL_Warning = ''warning(1)''"
| "al_name AL_Fatal = ''fatal(2)''"
| "al_name (AL_Other b) = ''unknown('' @ show_nat (unat b) @ '')''"

datatype alert_description = AlertDescription (ad_code: u8)

definition CLOSE_NOTIFY :: alert_description where
  "CLOSE_NOTIFY = AlertDescription 0"

definition UNEXPECTED_MESSAGE :: alert_description where
  "UNEXPECTED_MESSAGE = AlertDescription 10"

definition BAD_RECORD_MAC :: alert_description where
  "BAD_RECORD_MAC = AlertDescription 20"

definition RECORD_OVERFLOW :: alert_description where
  "RECORD_OVERFLOW = AlertDescription 22"

definition HANDSHAKE_FAILURE :: alert_description where
  "HANDSHAKE_FAILURE = AlertDescription 40"

definition BAD_CERTIFICATE :: alert_description where
  "BAD_CERTIFICATE = AlertDescription 42"

definition ILLEGAL_PARAMETER :: alert_description where
  "ILLEGAL_PARAMETER = AlertDescription 47"

definition DECODE_ERROR :: alert_description where
  "DECODE_ERROR = AlertDescription 50"

definition DECRYPT_ERROR :: alert_description where
  "DECRYPT_ERROR = AlertDescription 51"

definition PROTOCOL_VERSION :: alert_description where
  "PROTOCOL_VERSION = AlertDescription 70"

definition INSUFFICIENT_SECURITY :: alert_description where
  "INSUFFICIENT_SECURITY = AlertDescription 71"

definition INTERNAL_ERROR :: alert_description where
  "INTERNAL_ERROR = AlertDescription 80"

definition INAPPROPRIATE_FALLBACK :: alert_description where
  "INAPPROPRIATE_FALLBACK = AlertDescription 86"

definition USER_CANCELED :: alert_description where
  "USER_CANCELED = AlertDescription 90"

definition MISSING_EXTENSION :: alert_description where
  "MISSING_EXTENSION = AlertDescription 109"

definition UNSUPPORTED_EXTENSION :: alert_description where
  "UNSUPPORTED_EXTENSION = AlertDescription 110"

definition UNRECOGNIZED_NAME :: alert_description where
  "UNRECOGNIZED_NAME = AlertDescription 112"

definition NO_RENEGOTIATION :: alert_description where
  "NO_RENEGOTIATION = AlertDescription 100"

definition CERTIFICATE_REQUIRED :: alert_description where
  "CERTIFICATE_REQUIRED = AlertDescription 116"

definition UNKNOWN_CA :: alert_description where
  "UNKNOWN_CA = AlertDescription 48"

definition CERTIFICATE_UNKNOWN :: alert_description where
  "CERTIFICATE_UNKNOWN = AlertDescription 46"

definition NO_APPLICATION_PROTOCOL :: alert_description where
  "NO_APPLICATION_PROTOCOL = AlertDescription 120"

definition ad_names :: "(u8 \<times> string) list" where
  "ad_names =
    [(0, ''close_notify''),
     (10, ''unexpected_message''),
     (20, ''bad_record_mac''),
     (21, ''decryption_failed_RESERVED''),
     (22, ''record_overflow''),
     (40, ''handshake_failure''),
     (42, ''bad_certificate''),
     (43, ''unsupported_certificate''),
     (44, ''certificate_revoked''),
     (45, ''certificate_expired''),
     (46, ''certificate_unknown''),
     (47, ''illegal_parameter''),
     (48, ''unknown_ca''),
     (49, ''access_denied''),
     (50, ''decode_error''),
     (51, ''decrypt_error''),
     (70, ''protocol_version''),
     (71, ''insufficient_security''),
     (80, ''internal_error''),
     (86, ''inappropriate_fallback''),
     (90, ''user_canceled''),
     (100, ''no_renegotiation_RESERVED''),
     (109, ''missing_extension''),
     (110, ''unsupported_extension''),
     (112, ''unrecognized_name''),
     (113, ''bad_certificate_status_response''),
     (115, ''unknown_psk_identity''),
     (116, ''certificate_required''),
     (120, ''no_application_protocol'')]"

definition ad_name :: "alert_description \<Rightarrow> string" where
  "ad_name d =
     (case map_of ad_names (ad_code d) of
        None \<Rightarrow> ''unknown('' @ show_nat (unat (ad_code d)) @ '')''
      | Some n \<Rightarrow> n @ ''('' @ show_nat (unat (ad_code d)) @ '')'')"

section \<open>Negotiation code points\<close>

definition TLS_AES_128_GCM_SHA256 :: u16 where
  "TLS_AES_128_GCM_SHA256 = 4865"

definition TLS_AES_256_GCM_SHA384 :: u16 where
  "TLS_AES_256_GCM_SHA384 = 4866"

definition TLS_CHACHA20_POLY1305_SHA256 :: u16 where
  "TLS_CHACHA20_POLY1305_SHA256 = 4867"

definition GROUP_X25519 :: u16 where
  "GROUP_X25519 = 29"

definition GROUP_SECP256R1 :: u16 where
  "GROUP_SECP256R1 = 23"

definition GROUP_SECP384R1 :: u16 where
  "GROUP_SECP384R1 = 24"

definition GROUP_FFDHE2048 :: u16 where
  "GROUP_FFDHE2048 = 256"

definition SIG_RSA_PKCS1_SHA256 :: u16 where
  "SIG_RSA_PKCS1_SHA256 = 1025"

definition SIG_ECDSA_SECP256R1_SHA256 :: u16 where
  "SIG_ECDSA_SECP256R1_SHA256 = 1027"

definition SIG_RSA_PSS_RSAE_SHA256 :: u16 where
  "SIG_RSA_PSS_RSAE_SHA256 = 2052"

definition SIG_RSA_PSS_RSAE_SHA384 :: u16 where
  "SIG_RSA_PSS_RSAE_SHA384 = 2053"

definition SIG_RSA_PSS_RSAE_SHA512 :: u16 where
  "SIG_RSA_PSS_RSAE_SHA512 = 2054"

definition SIG_ED25519 :: u16 where
  "SIG_ED25519 = 2055"

definition EXT_SERVER_NAME :: u16 where
  "EXT_SERVER_NAME = 0"

definition EXT_MAX_FRAGMENT_LENGTH :: u16 where
  "EXT_MAX_FRAGMENT_LENGTH = 1"

definition EXT_SUPPORTED_GROUPS :: u16 where
  "EXT_SUPPORTED_GROUPS = 10"

definition EXT_SIGNATURE_ALGORITHMS :: u16 where
  "EXT_SIGNATURE_ALGORITHMS = 13"

definition EXT_ALPN :: u16 where
  "EXT_ALPN = 16"

definition EXT_PRE_SHARED_KEY :: u16 where
  "EXT_PRE_SHARED_KEY = 41"

definition EXT_EARLY_DATA :: u16 where
  "EXT_EARLY_DATA = 42"

definition EXT_SUPPORTED_VERSIONS :: u16 where
  "EXT_SUPPORTED_VERSIONS = 43"

definition EXT_COOKIE :: u16 where
  "EXT_COOKIE = 44"

definition EXT_PSK_KEY_EXCHANGE_MODES :: u16 where
  "EXT_PSK_KEY_EXCHANGE_MODES = 45"

definition EXT_KEY_SHARE :: u16 where
  "EXT_KEY_SHARE = 51"

definition LEGACY_VERSION_TLS12 :: u16 where
  "LEGACY_VERSION_TLS12 = 771"

definition LEGACY_VERSION_TLS10 :: u16 where
  "LEGACY_VERSION_TLS10 = 769"

definition TLS13_VERSION :: u16 where
  "TLS13_VERSION = 772"

definition TLS12_VERSION :: u16 where
  "TLS12_VERSION = 771"

definition ALL_SUITES :: "u16 list" where
  "ALL_SUITES = [TLS_AES_256_GCM_SHA384, TLS_CHACHA20_POLY1305_SHA256, TLS_AES_128_GCM_SHA256]"

definition is_grease :: "u16 \<Rightarrow> bool" where
  "is_grease value \<longleftrightarrow>
     value AND 0x0f0f = 0x0a0a \<and> drop_bit 12 value = drop_bit 4 value AND 0x0f"

definition grease_values :: "u16 list" where
  "grease_values =
     map (\<lambda>i. (push_bit 12 (word_of_nat i) OR push_bit 4 (word_of_nat i)) OR 0x0a0a) [0..<16]"

definition unknown4 :: "u16 \<Rightarrow> string" where
  "unknown4 v = ''unknown(0x'' @ hex4 v @ '')''"

definition grease4 :: "u16 \<Rightarrow> string" where
  "grease4 v = ''GREASE(0x'' @ hex4 v @ '')''"

definition suite_name :: "u16 \<Rightarrow> string" where
  "suite_name suite =
     (case map_of
    [(TLS_AES_128_GCM_SHA256, ''TLS_AES_128_GCM_SHA256(0x1301)''),
     (TLS_AES_256_GCM_SHA384, ''TLS_AES_256_GCM_SHA384(0x1302)''),
     (TLS_CHACHA20_POLY1305_SHA256, ''TLS_CHACHA20_POLY1305_SHA256(0x1303)''),
     (4868, ''TLS_AES_128_CCM_SHA256(0x1304)''),
     (4869, ''TLS_AES_128_CCM_8_SHA256(0x1305)'')] suite of
        Some n \<Rightarrow> n
      | None \<Rightarrow> unknown4 suite)"

definition group_name :: "u16 \<Rightarrow> string" where
  "group_name grp =
     (case map_of
    [(GROUP_SECP256R1, ''secp256r1(0x0017)''),
     (GROUP_SECP384R1, ''secp384r1(0x0018)''),
     (25, ''secp521r1(0x0019)''),
     (GROUP_X25519, ''x25519(0x001d)''),
     (30, ''x448(0x001e)''),
     (GROUP_FFDHE2048, ''ffdhe2048(0x0100)''),
     (4588, ''X25519MLKEM768(0x11ec)'')] grp of
        Some n \<Rightarrow> n
      | None \<Rightarrow> if is_grease grp then grease4 grp else unknown4 grp)"

definition sig_name :: "u16 \<Rightarrow> string" where
  "sig_name scheme =
     (case map_of
    [(513, ''rsa_pkcs1_sha1(0x0201)''),
     (SIG_RSA_PKCS1_SHA256, ''rsa_pkcs1_sha256(0x0401)''),
     (1281, ''rsa_pkcs1_sha384(0x0501)''),
     (1537, ''rsa_pkcs1_sha512(0x0601)''),
     (SIG_ECDSA_SECP256R1_SHA256, ''ecdsa_secp256r1_sha256(0x0403)''),
     (1283, ''ecdsa_secp384r1_sha384(0x0503)''),
     (1539, ''ecdsa_secp521r1_sha512(0x0603)''),
     (SIG_RSA_PSS_RSAE_SHA256, ''rsa_pss_rsae_sha256(0x0804)''),
     (SIG_RSA_PSS_RSAE_SHA384, ''rsa_pss_rsae_sha384(0x0805)''),
     (SIG_RSA_PSS_RSAE_SHA512, ''rsa_pss_rsae_sha512(0x0806)''),
     (SIG_ED25519, ''ed25519(0x0807)''),
     (2057, ''rsa_pss_pss_sha256(0x0809)'')] scheme of
        Some n \<Rightarrow> n
      | None \<Rightarrow> if is_grease scheme then grease4 scheme else unknown4 scheme)"

definition ext_names :: "(u16 \<times> string) list" where
  "ext_names =
    [(0, ''server_name''),
     (1, ''max_fragment_length''),
     (5, ''status_request''),
     (10, ''supported_groups''),
     (13, ''signature_algorithms''),
     (14, ''use_srtp''),
     (15, ''heartbeat''),
     (16, ''application_layer_protocol_negotiation''),
     (18, ''signed_certificate_timestamp''),
     (19, ''client_certificate_type''),
     (20, ''server_certificate_type''),
     (21, ''padding''),
     (41, ''pre_shared_key''),
     (42, ''early_data''),
     (43, ''supported_versions''),
     (44, ''cookie''),
     (45, ''psk_key_exchange_modes''),
     (47, ''certificate_authorities''),
     (48, ''oid_filters''),
     (49, ''post_handshake_auth''),
     (50, ''signature_algorithms_cert''),
     (51, ''key_share'')]"

definition ext_name :: "u16 \<Rightarrow> string" where
  "ext_name ext =
     (case map_of ext_names ext of
        Some n \<Rightarrow> n @ ''('' @ show_nat (unat ext) @ '')''
      | None \<Rightarrow>
          if is_grease ext then grease4 ext
          else ''unknown('' @ show_nat (unat ext) @ '')'')"

section \<open>Limits and fixed strings\<close>

definition MAX_PLAINTEXT :: nat where
  "MAX_PLAINTEXT = 16384"

definition MAX_CIPHERTEXT :: nat where
  "MAX_CIPHERTEXT = 16384 + 256"

definition DOWNGRADE_SENTINEL_TLS12 :: bytes where
  "DOWNGRADE_SENTINEL_TLS12 = [68, 79, 87, 78, 71, 82, 68, 1]"

definition DOWNGRADE_SENTINEL_TLS11 :: bytes where
  "DOWNGRADE_SENTINEL_TLS11 = [68, 79, 87, 78, 71, 82, 68, 0]"

definition HELLO_RETRY_REQUEST_RANDOM :: bytes where
  "HELLO_RETRY_REQUEST_RANDOM =
     [207, 33, 173, 116, 229, 154, 97, 17, 190, 29, 140, 2, 30, 101, 184, 145,
      194, 162, 17, 22, 122, 187, 140, 94, 7, 158, 9, 226, 200, 168, 51, 156]"

definition SERVER_CV_CONTEXT :: string where
  "SERVER_CV_CONTEXT = ''TLS 1.3, server CertificateVerify''"

definition CLIENT_CV_CONTEXT :: string where
  "CLIENT_CV_CONTEXT = ''TLS 1.3, client CertificateVerify''"

section \<open>Errors\<close>

text \<open>The payload of \<open>Io\<close>, a \<open>std::io::Error\<close>, is its printed form.\<close>

datatype tls_error =
    E_Closed
  | E_Timeout string
  | E_Io string
  | E_Record string
  | E_Decode string
  | E_Crypto string
  | E_Alert alert_level alert_description
  | E_Protocol string

type_synonym 'a tls_result = "tls_error + 'a"

fun tls_error_display :: "tls_error \<Rightarrow> string" where
  "tls_error_display E_Closed = ''the server closed the connection''"
| "tls_error_display (E_Timeout what) = ''timed out waiting for '' @ what"
| "tls_error_display (E_Io e) = ''socket error: '' @ e"
| "tls_error_display (E_Record m) = ''bad record: '' @ m"
| "tls_error_display (E_Decode m) = ''cannot decode: '' @ m"
| "tls_error_display (E_Crypto m) = ''crypto check failed: '' @ m"
| "tls_error_display (E_Alert level desc) =
     ''the server sent alert '' @ al_name level @ '' '' @ ad_name desc"
| "tls_error_display (E_Protocol m) = ''protocol violation: '' @ m"

section \<open>Hexadecimal\<close>

definition hex :: "bytes \<Rightarrow> string" where
  "hex bs = concat (map hex2 bs)"

text \<open>\<open>char::to_digit(16)\<close> and \<open>u8::from_str_radix(_, 16)\<close>, which accepts a leading plus sign.\<close>

definition hex_digit :: "char \<Rightarrow> nat option" where
  "hex_digit c =
     (let n = of_char c :: nat in
      if 48 \<le> n \<and> n \<le> 57 then Some (n - 48)
      else if 97 \<le> n \<and> n \<le> 102 then Some (n - 87)
      else if 65 \<le> n \<and> n \<le> 70 then Some (n - 55)
      else None)"

definition from_str_radix16 :: "char \<Rightarrow> char \<Rightarrow> u8 option" where
  "from_str_radix16 a b =
     (if a = CHR ''+'' then map_option word_of_nat (hex_digit b)
      else case hex_digit a of
             None \<Rightarrow> None
           | Some h \<Rightarrow> map_option (\<lambda>l. word_of_nat (16 * h + l)) (hex_digit b))"

definition is_whitespace :: "char \<Rightarrow> bool" where
  "is_whitespace c \<longleftrightarrow> (let n = of_char c :: nat in n = 32 \<or> 9 \<le> n \<and> n \<le> 13)"

fun unhex_pairs :: "string \<Rightarrow> bytes option" where
  "unhex_pairs (a # b # cs) =
     (case from_str_radix16 a b of
        None \<Rightarrow> None
      | Some v \<Rightarrow> map_option ((#) v) (unhex_pairs cs))"
| "unhex_pairs _ = Some []"

text \<open>For ASCII text (a \<open>char\<close> is one byte).\<close>

definition unhex :: "string \<Rightarrow> bytes option" where
  "unhex s =
     (let t = filter (\<lambda>c. \<not> is_whitespace c) s in
      if odd (length t) then None else unhex_pairs t)"

end
