(* ===== verification/Tls_Buf.thy ===== *)
theory Tls_Buf
  imports Tls_Types
begin

text \<open>
  The TLS byte grammar of \<^verbatim>\<open>tlstest/src/tls/buf.rs\<close>: \<open>Writer\<close> and \<open>Reader\<close>, with the error
  text that names the field. A reader operation takes the reader and returns the error or the value
  with the advanced reader.

  The locale \<open>wire\<close> is the contract between an encoder and a decoder: a decoder standing at the
  encoding of a value returns the value and stands behind it. The interpretations at the end give
  it for the integers and the length-prefixed vectors of the grammar.
\<close>

section \<open>Writer\<close>

record writer =
  w_bytes :: bytes

definition writer_new :: writer where
  "writer_new = \<lparr>w_bytes = []\<rparr>"

definition writer_from :: "bytes \<Rightarrow> writer" where
  "writer_from bs = \<lparr>w_bytes = bs\<rparr>"

definition writer_finish :: "writer \<Rightarrow> bytes" where
  "writer_finish w = w_bytes w"

definition writer_len :: "writer \<Rightarrow> nat" where
  "writer_len w = length (w_bytes w)"

definition writer_is_empty :: "writer \<Rightarrow> bool" where
  "writer_is_empty w \<longleftrightarrow> w_bytes w = []"

definition w_raw :: "bytes \<Rightarrow> writer \<Rightarrow> writer" where
  "w_raw v w = w\<lparr>w_bytes := w_bytes w @ v\<rparr>"

definition w_u8 :: "u8 \<Rightarrow> writer \<Rightarrow> writer" where
  "w_u8 v w = w\<lparr>w_bytes := w_bytes w @ [v]\<rparr>"

definition w_u16 :: "u16 \<Rightarrow> writer \<Rightarrow> writer" where
  "w_u16 v w = w\<lparr>w_bytes := w_bytes w @ u16_be v\<rparr>"

definition w_u24 :: "u32 \<Rightarrow> writer \<Rightarrow> writer" where
  "w_u24 v w = w\<lparr>w_bytes := w_bytes w @ tl (u32_be v)\<rparr>"

definition w_u32 :: "u32 \<Rightarrow> writer \<Rightarrow> writer" where
  "w_u32 v w = w\<lparr>w_bytes := w_bytes w @ u32_be v\<rparr>"

definition w_u64 :: "u64 \<Rightarrow> writer \<Rightarrow> writer" where
  "w_u64 v w = w\<lparr>w_bytes := w_bytes w @ u64_be v\<rparr>"

definition w_vec8 :: "bytes \<Rightarrow> writer \<Rightarrow> writer" where
  "w_vec8 v w = w\<lparr>w_bytes := (w_bytes w @ [word_of_nat (length v)]) @ v\<rparr>"

definition w_vec16 :: "bytes \<Rightarrow> writer \<Rightarrow> writer" where
  "w_vec16 v w = (let w1 = w_u16 (word_of_nat (length v)) w in w1\<lparr>w_bytes := w_bytes w1 @ v\<rparr>)"

definition w_vec24 :: "bytes \<Rightarrow> writer \<Rightarrow> writer" where
  "w_vec24 v w = (let w1 = w_u24 (word_of_nat (length v)) w in w1\<lparr>w_bytes := w_bytes w1 @ v\<rparr>)"

definition w_nest8 :: "(writer \<Rightarrow> writer) \<Rightarrow> writer \<Rightarrow> writer" where
  "w_nest8 f w = w_vec8 (w_bytes (f writer_new)) w"

definition w_nest16 :: "(writer \<Rightarrow> writer) \<Rightarrow> writer \<Rightarrow> writer" where
  "w_nest16 f w = w_vec16 (w_bytes (f writer_new)) w"

definition w_nest24 :: "(writer \<Rightarrow> writer) \<Rightarrow> writer \<Rightarrow> writer" where
  "w_nest24 f w = w_vec24 (w_bytes (f writer_new)) w"

text \<open>\<open>copy_from_slice\<close> at an offset: the window is replaced, nothing moves.\<close>

definition overwrite :: "nat \<Rightarrow> 'a list \<Rightarrow> 'a list \<Rightarrow> 'a list" where
  "overwrite off v xs = take off xs @ v @ drop (off + length v) xs"

definition patch_u16 :: "nat \<Rightarrow> u16 \<Rightarrow> writer \<Rightarrow> writer" where
  "patch_u16 offset value w =
     (if offset + 2 \<le> length (w_bytes w)
      then w\<lparr>w_bytes := overwrite offset (u16_be value) (w_bytes w)\<rparr> else w)"

definition patch_u24 :: "nat \<Rightarrow> u32 \<Rightarrow> writer \<Rightarrow> writer" where
  "patch_u24 offset value w =
     (if offset + 3 \<le> length (w_bytes w)
      then w\<lparr>w_bytes := overwrite offset (tl (u32_be value)) (w_bytes w)\<rparr> else w)"

section \<open>Reader\<close>

record reader =
  r_bytes :: bytes
  r_pos :: nat
  r_path :: string

type_synonym 'a rd = "reader \<Rightarrow> ('a \<times> reader) tls_result"

definition reader_new :: "bytes \<Rightarrow> string \<Rightarrow> reader" where
  "reader_new bs path = \<lparr>r_bytes = bs, r_pos = 0, r_path = path\<rparr>"

definition rd_left :: "reader \<Rightarrow> nat" where
  "rd_left r = length (r_bytes r) - r_pos r"

definition rd_done :: "reader \<Rightarrow> bool" where
  "rd_done r \<longleftrightarrow> rd_left r = 0"

definition rd_rest :: "reader \<Rightarrow> bytes" where
  "rd_rest r = drop (min (r_pos r) (length (r_bytes r))) (r_bytes r)"

definition rd_fail :: "string \<Rightarrow> nat \<Rightarrow> reader \<Rightarrow> 'a tls_result" where
  "rd_fail field want r =
     Inl (E_Decode (r_path r @ ''.'' @ field @ '': wanted '' @ show_nat want @ '' byte(s), '' @
       show_nat (rd_left r) @ '' left at offset '' @ show_nat (r_pos r)))"

definition rd_take :: "nat \<Rightarrow> string \<Rightarrow> bytes rd" where
  "rd_take n field r =
     (if rd_left r < n then rd_fail field n r
      else Inr (slice (r_pos r) (r_pos r + n) (r_bytes r), r\<lparr>r_pos := r_pos r + n\<rparr>))"

text \<open>The \<open>?\<close> operator over a reader.\<close>

definition rd_bind :: "'a rd \<Rightarrow> ('a \<Rightarrow> 'b rd) \<Rightarrow> 'b rd" where
  "rd_bind p f r = (case p r of Inl e \<Rightarrow> Inl e | Inr (x, r') \<Rightarrow> f x r')"

definition rd_return :: "'a \<Rightarrow> 'a rd" where
  "rd_return x r = Inr (x, r)"

definition rd_map :: "('a \<Rightarrow> 'b) \<Rightarrow> 'a rd \<Rightarrow> 'b rd" where
  "rd_map f p = rd_bind p (\<lambda>x. rd_return (f x))"

definition rd_u8 :: "string \<Rightarrow> u8 rd" where
  "rd_u8 field = rd_map (\<lambda>b. b ! 0) (rd_take 1 field)"

definition rd_u16 :: "string \<Rightarrow> u16 rd" where
  "rd_u16 field = rd_map (\<lambda>b. u16_from_be [b ! 0, b ! 1]) (rd_take 2 field)"

definition rd_u24 :: "string \<Rightarrow> u32 rd" where
  "rd_u24 field = rd_map (\<lambda>b. u32_from_be [0, b ! 0, b ! 1, b ! 2]) (rd_take 3 field)"

definition rd_u32 :: "string \<Rightarrow> u32 rd" where
  "rd_u32 field = rd_map (\<lambda>b. u32_from_be [b ! 0, b ! 1, b ! 2, b ! 3]) (rd_take 4 field)"

definition rd_vec8 :: "string \<Rightarrow> bytes rd" where
  "rd_vec8 field = rd_bind (rd_u8 (field @ ''.length'')) (\<lambda>n. rd_take (unat n) field)"

definition rd_vec16 :: "string \<Rightarrow> bytes rd" where
  "rd_vec16 field = rd_bind (rd_u16 (field @ ''.length'')) (\<lambda>n. rd_take (unat n) field)"

definition rd_vec24 :: "string \<Rightarrow> bytes rd" where
  "rd_vec24 field = rd_bind (rd_u24 (field @ ''.length'')) (\<lambda>n. rd_take (unat n) field)"

definition rd_sub16 :: "string \<Rightarrow> reader rd" where
  "rd_sub16 field r =
     rd_map (\<lambda>bs. reader_new bs (r_path r @ ''.'' @ field)) (rd_vec16 field) r"

definition rd_sub8 :: "string \<Rightarrow> reader rd" where
  "rd_sub8 field r =
     rd_map (\<lambda>bs. reader_new bs (r_path r @ ''.'' @ field)) (rd_vec8 field) r"

definition rd_expect_done :: "string \<Rightarrow> unit rd" where
  "rd_expect_done field r =
     (if rd_done r then Inr ((), r)
      else Inl (E_Decode (r_path r @ ''.'' @ field @ '': '' @ show_nat (rd_left r) @
        '' byte(s) left over after the structure ended'')))"

text \<open>What a finished parse returns: the value without the reader.\<close>

definition rd_run :: "'a rd \<Rightarrow> reader \<Rightarrow> 'a tls_result" where
  "rd_run p r = (case p r of Inl e \<Rightarrow> Inl e | Inr (x, _) \<Rightarrow> Inr x)"

section \<open>Reading moves forward\<close>

definition advance :: "nat \<Rightarrow> reader \<Rightarrow> reader" where
  "advance n r = r\<lparr>r_pos := r_pos r + n\<rparr>"

lemma rd_rest_eq: "rd_rest r = drop (r_pos r) (r_bytes r)"
  by (simp add: rd_rest_def min_def)

lemma rd_left_rest: "rd_left r = length (rd_rest r)"
  by (simp add: rd_left_def rd_rest_eq)

lemma rd_rest_advance [simp]: "rd_rest (advance n r) = drop n (rd_rest r)"
  by (simp add: rd_rest_eq advance_def add.commute)

lemma advance_advance [simp]: "advance m (advance n r) = advance (n + m) r"
  by (simp add: advance_def)

lemma advance_0 [simp]: "advance 0 r = r"
  by (simp add: advance_def)

lemma r_path_advance [simp]: "r_path (advance n r) = r_path r"
  by (simp add: advance_def)

lemma rd_rest_new [simp]: "rd_rest (reader_new bs path) = bs"
  by (simp add: rd_rest_eq reader_new_def)

lemma rd_done_rest: "rd_done r \<longleftrightarrow> rd_rest r = []"
  by (simp add: rd_done_def rd_left_rest)

lemma rd_take_eq:
  "rd_take n field r =
     (if length (rd_rest r) < n then rd_fail field n r
      else Inr (take n (rd_rest r), advance n r))"
  by (simp add: rd_take_def rd_left_rest slice_def rd_rest_eq advance_def)

text \<open>A parser consumes: it stands exactly behind the bytes it returned.\<close>

definition consumes :: "nat \<Rightarrow> 'a rd \<Rightarrow> bool" where
  "consumes k p \<longleftrightarrow>
     (\<forall>r x r'. p r = Inr (x, r') \<longrightarrow>
        (\<exists>n. k \<le> n \<and> n \<le> length (rd_rest r) \<and> r' = advance n r))"

lemma consumes_take: "consumes n (rd_take n field)"
  by (auto simp: consumes_def rd_take_eq rd_fail_def split: if_splits)

lemma consumes_bind:
  assumes p: "consumes k p" and f: "\<And>x. consumes l (f x)"
  shows "consumes (k + l) (rd_bind p f)"
  unfolding consumes_def
proof (intro allI impI)
  fix r y r2 assume "rd_bind p f r = Inr (y, r2)"
  then obtain x r1 where 1: "p r = Inr (x, r1)" and 2: "f x r1 = Inr (y, r2)"
    by (auto simp: rd_bind_def split: sum.splits)
  obtain n where n: "k \<le> n" "n \<le> length (rd_rest r)" "r1 = advance n r"
    using p 1 unfolding consumes_def by blast
  obtain m where m: "l \<le> m" "m \<le> length (rd_rest r1)" "r2 = advance m r1"
    using f [of x] 2 unfolding consumes_def by blast
  have "k + l \<le> n + m \<and> n + m \<le> length (rd_rest r) \<and> r2 = advance (n + m) r"
    using n m by simp
  then show "\<exists>n. k + l \<le> n \<and> n \<le> length (rd_rest r) \<and> r2 = advance n r" by blast
qed

lemma consumes_return: "consumes 0 (rd_return x)"
  by (auto simp: consumes_def rd_return_def intro!: exI [of _ "0 :: nat"])

lemma consumes_map: "consumes k p \<Longrightarrow> consumes k (rd_map f p)"
  unfolding rd_map_def using consumes_bind [of k p 0] consumes_return by fastforce

lemma consumes_weaken: "consumes k p \<Longrightarrow> l \<le> k \<Longrightarrow> consumes l p"
  unfolding consumes_def by (meson le_trans)

lemma consumes_prims:
  "consumes 1 (rd_u8 f)" "consumes 2 (rd_u16 f)" "consumes 3 (rd_u24 f)" "consumes 4 (rd_u32 f)"
  unfolding rd_u8_def rd_u16_def rd_u24_def rd_u32_def
  by (intro consumes_map consumes_take)+

lemma consumes_vecs:
  "consumes 1 (rd_vec8 f)" "consumes 2 (rd_vec16 f)" "consumes 3 (rd_vec24 f)"
proof -
  have t: "consumes 0 (rd_take n g)" for n g by (rule consumes_weaken [OF consumes_take]) simp
  show "consumes 1 (rd_vec8 f)"
    unfolding rd_vec8_def using consumes_bind [OF consumes_prims(1) t] by simp
  show "consumes 2 (rd_vec16 f)"
    unfolding rd_vec16_def using consumes_bind [OF consumes_prims(2) t] by simp
  show "consumes 3 (rd_vec24 f)"
    unfolding rd_vec24_def using consumes_bind [OF consumes_prims(3) t] by simp
qed

lemma consumes_left:
  "consumes k p \<Longrightarrow> p r = Inr (x, r') \<Longrightarrow> 0 < k \<Longrightarrow> rd_left r' < rd_left r"
  unfolding consumes_def rd_left_rest by fastforce

section \<open>The wire contract\<close>

locale wire =
  fixes enc :: "'a \<Rightarrow> bytes"
    and dec :: "'a rd"
    and ok :: "'a \<Rightarrow> bool"
  assumes dec_enc: "ok x \<Longrightarrow> rd_rest r = enc x @ rest \<Longrightarrow> dec r = Inr (x, advance (length (enc x)) r)"
begin

lemma bind_enc:
  "ok x \<Longrightarrow> rd_rest r = enc x @ rest \<Longrightarrow> rd_bind dec f r = f x (advance (length (enc x)) r)"
  by (simp add: rd_bind_def dec_enc)

lemma run_enc: "ok x \<Longrightarrow> rd_run dec (reader_new (enc x) path) = Inr x"
  using dec_enc [of x "reader_new (enc x) path" "[]"] by (simp add: rd_run_def)

lemma enc_inj: "ok x \<Longrightarrow> ok y \<Longrightarrow> enc x = enc y \<Longrightarrow> x = y"
  by (metis run_enc sum.inject(2))

end

lemma take_enc: "rd_rest r = v @ rest \<Longrightarrow> rd_take (length v) f r = Inr (v, advance (length v) r)"
  by (simp add: rd_take_eq)

lemma map_take_enc:
  "rd_rest r = v @ rest \<Longrightarrow> n = length v \<Longrightarrow> rd_map g (rd_take n f) r = Inr (g v, advance n r)"
  by (simp add: rd_map_def rd_bind_def rd_return_def take_enc)

lemma list2: "length v = 2 \<Longrightarrow> [v ! 0, v ! 1] = v"
  by (cases v; cases "tl v") auto

lemma list3: "length v = 3 \<Longrightarrow> [v ! 0, v ! 1, v ! 2] = v"
  by (cases v; cases "tl v"; cases "tl (tl v)") auto

lemma list4: "length v = 4 \<Longrightarrow> [v ! 0, v ! 1, v ! 2, v ! 3] = v"
  by (auto simp: numeral_eq_Suc length_Suc_conv)

lemma be_val_Cons0: "be_val (0 # bs) = be_val bs"
proof -
  have "le_val (xs @ [0]) = le_val xs" for xs by (induction xs) auto
  then show ?thesis by (simp add: be_val_def)
qed

lemma tl_u32_be: "tl (u32_be v) = be_bytes 3 (unat v)"
  using tl_be_bytes [of 3 "unat v"] by (simp add: u32_be_def)

interpretation wu8: wire "\<lambda>v. [v]" "rd_u8 f" "\<lambda>_. True"
proof
  fix v :: u8 and r rest
  assume "rd_rest r = [v] @ rest"
  note t = map_take_enc [OF this, of 1]
  show "rd_u8 f r = Inr (v, advance (length [v]) r)" by (simp add: rd_u8_def t [unfolded One_nat_def])
qed

interpretation wu16: wire u16_be "rd_u16 f" "\<lambda>_. True"
proof
  fix v :: u16 and r rest
  assume "rd_rest r = u16_be v @ rest"
  moreover have "u16_from_be [u16_be v ! 0, u16_be v ! 1] = v" by (simp only: list2 length_word_bytes from_word_bytes)
  ultimately show "rd_u16 f r = Inr (v, advance (length (u16_be v)) r)"
    by (simp add: rd_u16_def map_take_enc)
qed

interpretation wu32: wire u32_be "rd_u32 f" "\<lambda>_. True"
proof
  fix v :: u32 and r rest
  assume "rd_rest r = u32_be v @ rest"
  moreover have "u32_from_be [u32_be v ! 0, u32_be v ! 1, u32_be v ! 2, u32_be v ! 3] = v"
    by (simp only: list4 length_word_bytes from_word_bytes)
  ultimately show "rd_u32 f r = Inr (v, advance (length (u32_be v)) r)"
    by (simp add: rd_u32_def map_take_enc)
qed

interpretation wu24: wire "\<lambda>v. tl (u32_be v)" "rd_u24 f" "\<lambda>v. unat v < 2 ^ 24"
proof
  fix v :: u32 and r rest
  assume v: "unat v < 2 ^ 24" and r: "rd_rest r = tl (u32_be v) @ rest"
  have "u32_from_be (0 # be_bytes 3 (unat v)) = v"
    using v by (simp add: u32_from_be_def be_val_Cons0 be_val_be_bytes)
  then have "u32_from_be (0 # [be_bytes 3 (unat v) ! 0, be_bytes 3 (unat v) ! 1, be_bytes 3 (unat v) ! 2]) = v"
    by (simp only: list3 length_be_bytes)
  then show "rd_u24 f r = Inr (v, advance (length (tl (u32_be v))) r)"
    using r by (simp add: rd_u24_def map_take_enc tl_u32_be)
qed

text \<open>Length-prefixed vectors: read the length, then that many bytes.\<close>

definition enc8 :: "bytes \<Rightarrow> bytes" where "enc8 v = word_of_nat (length v) # v"
definition enc16 :: "bytes \<Rightarrow> bytes" where "enc16 v = be_bytes 2 (length v) @ v"
definition enc24 :: "bytes \<Rightarrow> bytes" where "enc24 v = be_bytes 3 (length v) @ v"

lemmas enc_defs = enc8_def enc16_def enc24_def

interpretation wvec8: wire enc8 "rd_vec8 f" "\<lambda>v. length v < 2 ^ 8"
proof
  fix v r rest
  assume l: "length v < 2 ^ 8" and r: "rd_rest r = enc8 v @ rest"
  have "rd_rest r = [word_of_nat (length v)] @ v @ rest" using r by (simp add: enc8_def)
  note b = wu8.bind_enc [OF TrueI this] and t = take_enc [of "advance 1 r" v rest]
  show "rd_vec8 f r = Inr (v, advance (length (enc8 v)) r)"
    using l r by (simp add: rd_vec8_def b t [unfolded One_nat_def] enc8_def unat_of_nat)
qed

interpretation wvec16: wire enc16 "rd_vec16 f" "\<lambda>v. length v < 2 ^ 16"
proof
  fix v r rest
  assume l: "length v < 2 ^ 16" and r: "rd_rest r = enc16 v @ rest"
  have "rd_rest r = u16_be (word_of_nat (length v)) @ v @ rest"
    using r by (simp add: enc16_def u16_be_of_nat)
  note b = wu16.bind_enc [OF TrueI this] and t = take_enc [of "advance 2 r" v rest]
  show "rd_vec16 f r = Inr (v, advance (length (enc16 v)) r)"
    using l r by (simp add: rd_vec16_def b t enc16_def unat_of_nat)
qed

interpretation wvec24: wire enc24 "rd_vec24 f" "\<lambda>v. length v < 2 ^ 24"
proof
  fix v r rest
  assume l: "length v < 2 ^ 24" and r: "rd_rest r = enc24 v @ rest"
  let ?n = "word_of_nat (length v) :: u32"
  have n: "unat ?n = length v" using l by (simp add: unat_of_nat)
  then have e: "tl (u32_be ?n) = be_bytes 3 (length v)" by (simp only: tl_u32_be)
  have "unat ?n < 2 ^ 24" "rd_rest r = tl (u32_be ?n) @ v @ rest"
    using l n r by (simp_all only: e enc24_def append_assoc)
  note b = wu24.bind_enc [OF this] and t = take_enc [of "advance 3 r" v rest]
  show "rd_vec24 f r = Inr (v, advance (length (enc24 v)) r)"
    using n r e by (simp add: rd_vec24_def b t enc24_def)
qed

text \<open>What each writer operation appends.\<close>

lemma writer_codec [codec, simp]:
  "w_bytes writer_new = []"
  "w_bytes (w_raw v w) = w_bytes w @ v"
  "w_bytes (w_u8 b w) = w_bytes w @ [b]"
  "w_bytes (w_u16 h w) = w_bytes w @ u16_be h"
  "w_bytes (w_u32 x w) = w_bytes w @ u32_be x"
  "w_bytes (w_vec8 v w) = w_bytes w @ enc8 v"
  "w_bytes (w_vec16 v w) = w_bytes w @ enc16 v"
  "w_bytes (w_vec24 v w) = w_bytes w @ enc24 v"
  "w_bytes (w_nest8 f w) = w_bytes w @ enc8 (w_bytes (f writer_new))"
  "w_bytes (w_nest16 f w) = w_bytes w @ enc16 (w_bytes (f writer_new))"
  "w_bytes (w_nest24 f w) = w_bytes w @ enc24 (w_bytes (f writer_new))"
  by (simp_all add: writer_new_def w_raw_def w_u8_def w_u16_def w_u32_def w_vec8_def w_vec16_def
      w_vec24_def w_u24_def w_nest8_def w_nest16_def w_nest24_def enc_defs u16_be_of_nat
      u32_be_of_nat tl_be_bytes numeral_eq_Suc)

section \<open>Nothing but encodings is accepted\<close>

text \<open>
  The other direction: what a decoder accepts is the encoding of what it returns, so two byte
  strings never mean the same value.
\<close>

locale wire_exact = wire +
  assumes enc_dec: "dec r = Inr (x, r') \<Longrightarrow> ok x \<and> rd_rest r = enc x @ rd_rest r' \<and> r_path r' = r_path r"
begin

lemma bind_dec:
  assumes "rd_bind dec f r = Inr (y, r2)"
  obtains x r1 where "dec r = Inr (x, r1)" "f x r1 = Inr (y, r2)" "ok x"
    "rd_rest r = enc x @ rd_rest r1" "r_path r1 = r_path r"
  using assms enc_dec by (auto simp: rd_bind_def split: sum.splits)

lemma dec_iff: "(\<exists>r'. dec r = Inr (x, r')) \<longleftrightarrow> ok x \<and> (\<exists>rest. rd_rest r = enc x @ rest)"
  using dec_enc enc_dec by blast

end

lemma take_dec:
  assumes "rd_take n f r = Inr (v, r')"
  shows "length v = n \<and> rd_rest r = v @ rd_rest r' \<and> r_path r' = r_path r"
  using assms by (auto simp: rd_take_eq rd_fail_def split: if_splits)

lemma map_take_dec:
  assumes "rd_map g (rd_take n f) r = Inr (x, r')"
  shows "\<exists>v. x = g v \<and> length v = n \<and> rd_rest r = v @ rd_rest r' \<and> r_path r' = r_path r"
proof -
  obtain v where "rd_take n f r = Inr (v, r')" "x = g v"
    using assms by (auto simp: rd_map_def rd_bind_def rd_return_def split: sum.splits)
  with take_dec [OF this(1)] show ?thesis by blast
qed

interpretation wu8: wire_exact "\<lambda>v. [v]" "rd_u8 f" "\<lambda>_. True"
proof
  fix r v r' assume "rd_u8 f r = Inr (v, r')"
  then show "True \<and> rd_rest r = [v] @ rd_rest r' \<and> r_path r' = r_path r"
    unfolding rd_u8_def using map_take_dec [of "\<lambda>b. b ! 0" 1 f r v r']
    by (auto simp: length_Suc_conv)
qed

interpretation wu16: wire_exact u16_be "rd_u16 f" "\<lambda>_. True"
proof
  fix r v r' assume "rd_u16 f r = Inr (v, r')"
  from map_take_dec [OF this [unfolded rd_u16_def]]
  obtain b where b: "v = u16_from_be [b ! 0, b ! 1]" "length b = 2" "rd_rest r = b @ rd_rest r'"
    "r_path r' = r_path r" by blast
  have "v = u16_from_be b" using b(1) by (simp only: list2 [OF b(2)])
  then show "True \<and> rd_rest r = u16_be v @ rd_rest r' \<and> r_path r' = r_path r"
    using b be_bytes_be_val [of b] by (simp add: u16_be_def)
qed

interpretation wu32: wire_exact u32_be "rd_u32 f" "\<lambda>_. True"
proof
  fix r v r' assume "rd_u32 f r = Inr (v, r')"
  from map_take_dec [OF this [unfolded rd_u32_def]]
  obtain b where b: "v = u32_from_be [b ! 0, b ! 1, b ! 2, b ! 3]" "length b = 4"
    "rd_rest r = b @ rd_rest r'" "r_path r' = r_path r" by blast
  have "v = u32_from_be b" using b(1) by (simp only: list4 [OF b(2)])
  then show "True \<and> rd_rest r = u32_be v @ rd_rest r' \<and> r_path r' = r_path r"
    using b be_bytes_be_val [of b] by (simp add: u32_be_def)
qed

interpretation wu24: wire_exact "\<lambda>v. tl (u32_be v)" "rd_u24 f" "\<lambda>v. unat v < 2 ^ 24"
proof
  fix r v r' assume "rd_u24 f r = Inr (v, r')"
  from map_take_dec [OF this [unfolded rd_u24_def]]
  obtain b where b: "v = u32_from_be [0, b ! 0, b ! 1, b ! 2]" "length b = 3"
    "rd_rest r = b @ rd_rest r'" "r_path r' = r_path r" by blast
  have "v = u32_from_be (0 # b)" using b(1) by (simp only: list3 [OF b(2)])
  then have "unat v = be_val b" using b(2) by (simp add: be_val_Cons0)
  then show "unat v < 2 ^ 24 \<and> rd_rest r = tl (u32_be v) @ rd_rest r' \<and> r_path r' = r_path r"
    using b be_bytes_be_val [of b] be_val_bound [of b] by (simp add: tl_u32_be)
qed

interpretation wvec8: wire_exact enc8 "rd_vec8 f" "\<lambda>v. length v < 2 ^ 8"
proof
  fix r v r' assume "rd_vec8 f r = Inr (v, r')"
  then have "rd_bind (rd_u8 (f @ ''.length'')) (\<lambda>n. rd_take (unat n) f) r = Inr (v, r')"
    by (simp add: rd_vec8_def)
  from wu8.bind_dec [OF this] obtain n r1 where n: "rd_take (unat n) f r1 = Inr (v, r')"
    "rd_rest r = [n] @ rd_rest r1" "r_path r1 = r_path r" by blast
  from take_dec [OF n(1)] show "length v < 2 ^ 8 \<and> rd_rest r = enc8 v @ rd_rest r' \<and> r_path r' = r_path r"
    using n(2,3) byte_lt [of n] by (simp add: enc8_def)
qed

interpretation wvec16: wire_exact enc16 "rd_vec16 f" "\<lambda>v. length v < 2 ^ 16"
proof
  fix r v r' assume "rd_vec16 f r = Inr (v, r')"
  then have "rd_bind (rd_u16 (f @ ''.length'')) (\<lambda>n. rd_take (unat n) f) r = Inr (v, r')"
    by (simp add: rd_vec16_def)
  from wu16.bind_dec [OF this] obtain n r1 where n: "rd_take (unat n) f r1 = Inr (v, r')"
    "rd_rest r = u16_be n @ rd_rest r1" "r_path r1 = r_path r" by blast
  from take_dec [OF n(1)] show "length v < 2 ^ 16 \<and> rd_rest r = enc16 v @ rd_rest r' \<and> r_path r' = r_path r"
    using n(2,3) u16_lt [of n] by (simp add: enc16_def u16_be_def)
qed

interpretation wvec24: wire_exact enc24 "rd_vec24 f" "\<lambda>v. length v < 2 ^ 24"
proof
  fix r v r' assume "rd_vec24 f r = Inr (v, r')"
  then have "rd_bind (rd_u24 (f @ ''.length'')) (\<lambda>n. rd_take (unat n) f) r = Inr (v, r')"
    by (simp add: rd_vec24_def)
  from wu24.bind_dec [OF this] obtain n r1 where n: "rd_take (unat n) f r1 = Inr (v, r')"
    "rd_rest r = tl (u32_be n) @ rd_rest r1" "r_path r1 = r_path r" "unat n < 2 ^ 24" by blast
  from take_dec [OF n(1)] show "length v < 2 ^ 24 \<and> rd_rest r = enc24 v @ rd_rest r' \<and> r_path r' = r_path r"
    using n(2-4) by (simp add: enc24_def tl_u32_be)
qed

section \<open>Loops until the reader is empty\<close>

text \<open>
  The contract of a \<open>while !r.done()\<close> loop over an item decoder that is told its index: it returns
  exactly the items whose encodings, one after the other, are what the reader holds.
\<close>

locale wire_loop =
  fixes enc :: "'a \<Rightarrow> bytes"
    and item :: "nat \<Rightarrow> 'a rd"
    and ok :: "'a \<Rightarrow> bool"
    and loop :: "'a list \<Rightarrow> reader \<Rightarrow> 'a list tls_result"
  assumes item_wire: "wire_exact enc (item i) ok"
    and nonempty: "enc x \<noteq> []"
    and loop: "loop out r =
      (if rd_done r then Inr out
       else case item (length out) r of Inl e \<Rightarrow> Inl e | Inr (x, r') \<Rightarrow> loop (out @ [x]) r')"
begin

lemma loop_enc:
  "list_all ok xs \<Longrightarrow> rd_rest r = concat (map enc xs) \<Longrightarrow> loop out r = Inr (out @ xs)"
proof (induction xs arbitrary: out r)
  case Nil
  then show ?case by (subst loop) (simp add: rd_done_rest)
next
  case (Cons x xs)
  have "item (length out) r = Inr (x, advance (length (enc x)) r)"
    using wire.dec_enc [OF wire_exact.axioms(1) [OF item_wire], of x r] Cons.prems by simp
  then show ?case
    using Cons nonempty [of x] by (subst loop) (simp add: rd_done_rest)
qed

lemma loop_dec:
  "loop out r = Inr ys \<Longrightarrow>
     \<exists>xs. ys = out @ xs \<and> list_all ok xs \<and> rd_rest r = concat (map enc xs)"
proof (induction "length (rd_rest r)" arbitrary: out r rule: less_induct)
  case less
  show ?case
  proof (cases "rd_done r")
    case True
    then show ?thesis using less.prems by (subst (asm) loop) (auto simp: rd_done_rest intro: exI [of _ "[]"])
  next
    case False
    then obtain x r' where x: "item (length out) r = Inr (x, r')" and l: "loop (out @ [x]) r' = Inr ys"
      using less.prems by (subst (asm) loop) (auto split: sum.splits)
    from wire_exact.enc_dec [OF item_wire x]
    have e: "ok x" "rd_rest r = enc x @ rd_rest r'" by auto
    then have "length (rd_rest r') < length (rd_rest r)" using nonempty [of x] by simp
    from less.hyps [OF this l] e show ?thesis by (auto intro: exI [of _ "x # _"])
  qed
qed

lemma loop_iff:
  "loop [] r = Inr xs \<longleftrightarrow> list_all ok xs \<and> rd_rest r = concat (map enc xs)"
  using loop_enc [of xs r "[]"] loop_dec [of "[]" r xs] by auto

end

end
