(* ===== verification/Tls_Msg.thy ===== *)
theory Tls_Msg
  imports Tls_Buf
begin

text \<open>
  The handshake messages of \<^verbatim>\<open>tlstest/src/tls/msg.rs\<close>: extensions and their builders, the
  ClientHello with its own parser, the handshake framing, and the messages a server sends. The
  key exchange itself (X25519, P-256) is external code and not part of the model.
\<close>

section \<open>Extensions\<close>

record extension =
  ext_type :: u16
  ext_data :: bytes

definition extension_new :: "u16 \<Rightarrow> bytes \<Rightarrow> extension" where
  "extension_new t d = \<lparr>ext_type = t, ext_data = d\<rparr>"

definition extension_name :: "extension \<Rightarrow> string" where
  "extension_name e = ext_name (ext_type e)"

definition extension_encode :: "extension \<Rightarrow> writer \<Rightarrow> writer" where
  "extension_encode e w = w_vec16 (ext_data e) (w_u16 (ext_type e) w)"

text \<open>A \<open>for\<close> loop that writes one item after the other.\<close>

definition w_each :: "('a \<Rightarrow> writer \<Rightarrow> writer) \<Rightarrow> 'a list \<Rightarrow> writer \<Rightarrow> writer" where
  "w_each f xs w = fold f xs w"

definition encode_extensions :: "extension list \<Rightarrow> bytes" where
  "encode_extensions exts = writer_finish (w_nest16 (w_each extension_encode exts) writer_new)"

definition rd_extension :: "nat \<Rightarrow> extension rd" where
  "rd_extension i =
     rd_bind (rd_u16 (''extensions['' @ show_nat i @ ''].extension_type'')) (\<lambda>t.
     rd_bind (rd_vec16 (''extensions['' @ show_nat i @ ''].extension_data'')) (\<lambda>d.
     rd_return (extension_new t d)))"

lemma consumes_extension: "consumes 4 (rd_extension i)"
  unfolding rd_extension_def
  using consumes_bind [OF consumes_prims(2), of 2, OF consumes_map [OF consumes_vecs(2), unfolded rd_map_def]]
  by simp

function extensions_loop :: "extension list \<Rightarrow> reader \<Rightarrow> extension list tls_result" where
  "extensions_loop out r =
     (if rd_done r then Inr out
      else case rd_extension (length out) r of
             Inl e \<Rightarrow> Inl e
           | Inr (x, r') \<Rightarrow> extensions_loop (out @ [x]) r')"
  by pat_completeness auto
termination
  by (relation "measure (\<lambda>(out, r). rd_left r)") (auto dest: consumes_left [OF consumes_extension])

declare extensions_loop.simps [simp del]

definition parse_extensions :: "bytes \<Rightarrow> string \<Rightarrow> extension list tls_result" where
  "parse_extensions bs path = extensions_loop [] (reader_new bs path)"

definition find_extension :: "extension list \<Rightarrow> u16 \<Rightarrow> extension option" where
  "find_extension exts t = find (\<lambda>e. ext_type e = t) exts"

definition server_name_extension :: "string \<Rightarrow> extension" where
  "server_name_extension host =
     extension_new EXT_SERVER_NAME
       (writer_finish (w_nest16 (\<lambda>l. w_vec16 (as_bytes host) (w_u8 0 l)) writer_new))"

definition alpn_extension :: "string list \<Rightarrow> extension" where
  "alpn_extension protocols =
     extension_new EXT_ALPN
       (writer_finish (w_nest16 (w_each (\<lambda>p. w_vec8 (as_bytes p)) protocols) writer_new))"

definition supported_versions_extension :: "u16 list \<Rightarrow> extension" where
  "supported_versions_extension versions =
     extension_new EXT_SUPPORTED_VERSIONS
       (writer_finish (w_nest8 (w_each w_u16 versions) writer_new))"

definition supported_groups_extension :: "u16 list \<Rightarrow> extension" where
  "supported_groups_extension groups =
     extension_new EXT_SUPPORTED_GROUPS
       (writer_finish (w_nest16 (w_each w_u16 groups) writer_new))"

definition signature_algorithms_extension :: "u16 list \<Rightarrow> extension" where
  "signature_algorithms_extension schemes =
     extension_new EXT_SIGNATURE_ALGORITHMS
       (writer_finish (w_nest16 (w_each w_u16 schemes) writer_new))"

definition psk_key_exchange_modes_extension :: "u8 list \<Rightarrow> extension" where
  "psk_key_exchange_modes_extension modes =
     extension_new EXT_PSK_KEY_EXCHANGE_MODES
       (writer_finish (w_nest8 (w_each w_u8 modes) writer_new))"

definition client_key_share_extension :: "(u16 \<times> bytes) list \<Rightarrow> extension" where
  "client_key_share_extension shares =
     extension_new EXT_KEY_SHARE
       (writer_finish (w_nest16 (w_each (\<lambda>(g, k) l. w_vec16 k (w_u16 g l)) shares) writer_new))"

definition cookie_extension :: "bytes \<Rightarrow> extension" where
  "cookie_extension cookie = extension_new EXT_COOKIE (writer_finish (w_vec16 cookie writer_new))"

definition early_data_extension :: extension where
  "early_data_extension = extension_new EXT_EARLY_DATA []"

definition share_len :: "u16 \<Rightarrow> nat option" where
  "share_len g =
     (if g = GROUP_X25519 then Some 32 else if g = GROUP_SECP256R1 then Some 65 else None)"

section \<open>Handshake framing\<close>

record handshake_message =
  hm_type :: handshake_type
  hm_body :: bytes
  hm_raw :: bytes

definition handshake_parse :: "bytes \<Rightarrow> (handshake_message \<times> nat) tls_result" where
  "handshake_parse bs =
     (if length bs < 4 then
        Inl (E_Decode (''a handshake header is four bytes; only '' @ show_nat (length bs) @ '' arrived''))
      else
        (let len = unat (u32_from_be [0, bs ! 1, bs ! 2, bs ! 3]) in
         if length bs < 4 + len then
           Inl (E_Decode (''handshake message '' @ hs_name (HandshakeType (bs ! 0)) @ '' claims a '' @
             show_nat len @ ''-byte body, '' @ show_nat (length bs - 4) @ '' arrived''))
         else
           Inr (\<lparr>hm_type = HandshakeType (bs ! 0), hm_body = slice 4 (4 + len) bs,
                 hm_raw = take (4 + len) bs\<rparr>, 4 + len)))"

definition handshake_message_name :: "handshake_message \<Rightarrow> string" where
  "handshake_message_name m = hs_name (hm_type m)"

definition encode_handshake :: "handshake_type \<Rightarrow> bytes \<Rightarrow> bytes" where
  "encode_handshake t body = hs_code t # tl (u32_be (word_of_nat (length body))) @ body"

section \<open>ClientHello\<close>

record client_hello =
  ch_legacy_version :: u16
  ch_random :: bytes
  ch_legacy_session_id :: bytes
  ch_cipher_suites :: "u16 list"
  ch_legacy_compression_methods :: bytes
  ch_extensions :: "extension list"

definition client_hello_encode_body :: "client_hello \<Rightarrow> bytes" where
  "client_hello_encode_body h =
     writer_finish
       (w_raw (encode_extensions (ch_extensions h))
       (w_vec8 (ch_legacy_compression_methods h)
       (w_nest16 (w_each w_u16 (ch_cipher_suites h))
       (w_vec8 (ch_legacy_session_id h)
       (w_raw (ch_random h)
       (w_u16 (ch_legacy_version h) writer_new))))))"

definition client_hello_encode :: "client_hello \<Rightarrow> bytes" where
  "client_hello_encode h = encode_handshake HS_CLIENT_HELLO (client_hello_encode_body h)"

text \<open>\<open>while !sr.done() { out.push(sr.u16(field)?) }\<close>\<close>

function u16_loop :: "string \<Rightarrow> u16 list \<Rightarrow> reader \<Rightarrow> u16 list tls_result" where
  "u16_loop field out r =
     (if rd_done r then Inr out
      else case rd_u16 field r of
             Inl e \<Rightarrow> Inl e
           | Inr (x, r') \<Rightarrow> u16_loop field (out @ [x]) r')"
  by pat_completeness auto
termination
  by (relation "measure (\<lambda>(f, out, r). rd_left r)") (auto dest: consumes_left [OF consumes_prims(2)])

declare u16_loop.simps [simp del]

text \<open>A fallible computation inside a reader, and the \<open>try_into\<close> of the 32 random bytes.\<close>

definition rd_lift :: "'a tls_result \<Rightarrow> 'a rd" where
  "rd_lift x r = (case x of Inl e \<Rightarrow> Inl e | Inr y \<Rightarrow> Inr (y, r))"

definition try_into_32 :: "string \<Rightarrow> bytes \<Rightarrow> bytes tls_result" where
  "try_into_32 msg b = (if length b = 32 then Inr b else Inl (E_Decode msg))"

definition client_hello_parse_body :: "bytes \<Rightarrow> client_hello tls_result" where
  "client_hello_parse_body body =
     rd_run
       (rd_bind (rd_u16 ''legacy_version'') (\<lambda>v.
        rd_bind (rd_take 32 ''random'') (\<lambda>rnd0.
        rd_bind (rd_lift (try_into_32 ''client_hello.random must be 32 bytes'' rnd0)) (\<lambda>rnd.
        rd_bind (rd_vec8 ''legacy_session_id'') (\<lambda>sid.
        rd_bind (rd_vec16 ''cipher_suites'') (\<lambda>suites.
        rd_bind (rd_lift (u16_loop ''entry'' [] (reader_new suites ''client_hello.cipher_suites''))) (\<lambda>cs.
        rd_bind (rd_vec8 ''legacy_compression_methods'') (\<lambda>comp.
        rd_bind (rd_vec16 ''extensions'') (\<lambda>eb.
        rd_bind (rd_lift (parse_extensions eb ''client_hello'')) (\<lambda>exts.
        rd_bind (rd_expect_done ''client_hello'') (\<lambda>_.
        rd_return
          \<lparr>ch_legacy_version = v, ch_random = rnd, ch_legacy_session_id = sid,
           ch_cipher_suites = cs, ch_legacy_compression_methods = comp,
           ch_extensions = exts\<rparr>)))))))))))
       (reader_new body ''client_hello'')"

section \<open>ServerHello\<close>

record server_hello =
  sh_legacy_version :: u16
  sh_random :: bytes
  sh_legacy_session_id_echo :: bytes
  sh_cipher_suite :: u16
  sh_legacy_compression_method :: u8
  sh_extensions :: "extension list"

definition server_hello_parse :: "bytes \<Rightarrow> server_hello tls_result" where
  "server_hello_parse body =
     rd_run
       (rd_bind (rd_u16 ''legacy_version'') (\<lambda>v.
        rd_bind (rd_take 32 ''random'') (\<lambda>rnd0.
        rd_bind (rd_lift (try_into_32 ''server_hello.random must be 32 bytes'' rnd0)) (\<lambda>rnd.
        rd_bind (rd_vec8 ''legacy_session_id_echo'') (\<lambda>sid.
        rd_bind (rd_u16 ''cipher_suite'') (\<lambda>cs.
        rd_bind (rd_u8 ''legacy_compression_method'') (\<lambda>comp.
        rd_bind (rd_vec16 ''extensions'') (\<lambda>eb.
        rd_bind (rd_lift (parse_extensions eb ''server_hello'')) (\<lambda>exts.
        rd_bind (rd_expect_done ''server_hello'') (\<lambda>_.
        rd_return
          \<lparr>sh_legacy_version = v, sh_random = rnd, sh_legacy_session_id_echo = sid,
           sh_cipher_suite = cs, sh_legacy_compression_method = comp,
           sh_extensions = exts\<rparr>))))))))))
       (reader_new body ''server_hello'')"

definition is_hello_retry_request :: "server_hello \<Rightarrow> bool" where
  "is_hello_retry_request h \<longleftrightarrow> sh_random h = HELLO_RETRY_REQUEST_RANDOM"

definition selected_version :: "server_hello \<Rightarrow> u16 option" where
  "selected_version h =
     (case find_extension (sh_extensions h) EXT_SUPPORTED_VERSIONS of
        None \<Rightarrow> None
      | Some e \<Rightarrow>
          if length (ext_data e) = 2 then Some (u16_from_be [ext_data e ! 0, ext_data e ! 1]) else None)"

text \<open>Each accessor finds its extension, parses its data, and insists that nothing is left.\<close>

definition extension_field ::
  "server_hello \<Rightarrow> u16 \<Rightarrow> string \<Rightarrow> string \<Rightarrow> 'a rd \<Rightarrow> 'a option tls_result" where
  "extension_field h t path field p =
     (case find_extension (sh_extensions h) t of
        None \<Rightarrow> Inr None
      | Some e \<Rightarrow>
          rd_run (rd_bind p (\<lambda>x. rd_bind (rd_expect_done field) (\<lambda>_. rd_return (Some x))))
            (reader_new (ext_data e) path))"

definition sh_key_share :: "server_hello \<Rightarrow> (u16 \<times> bytes) option tls_result" where
  "sh_key_share h =
     extension_field h EXT_KEY_SHARE ''server_hello.key_share'' ''key_share''
       (rd_bind (rd_u16 ''group'') (\<lambda>g.
        rd_bind (rd_vec16 ''key_exchange'') (\<lambda>k. rd_return (g, k))))"

definition retry_group :: "server_hello \<Rightarrow> u16 option tls_result" where
  "retry_group h =
     extension_field h EXT_KEY_SHARE ''hello_retry_request.key_share'' ''key_share''
       (rd_u16 ''selected_group'')"

definition sh_cookie :: "server_hello \<Rightarrow> bytes option tls_result" where
  "sh_cookie h =
     extension_field h EXT_COOKIE ''hello_retry_request.cookie'' ''cookie'' (rd_vec16 ''cookie'')"

definition selected_psk :: "server_hello \<Rightarrow> u16 option tls_result" where
  "selected_psk h =
     extension_field h EXT_PRE_SHARED_KEY ''server_hello.pre_shared_key'' ''pre_shared_key''
       (rd_u16 ''selected_identity'')"

section \<open>Certificate\<close>

type_synonym cert_entry = "bytes \<times> extension list"

record certificate_msg =
  cm_request_context :: bytes
  cm_entries :: "cert_entry list"

text \<open>One turn of the loop over \<open>certificate_list\<close>; \<open>i\<close> is the index of the entry.\<close>

definition rd_cert_entry :: "nat \<Rightarrow> cert_entry rd" where
  "rd_cert_entry i =
     rd_bind (rd_vec24 (''['' @ show_nat i @ ''].cert_data'')) (\<lambda>c.
     rd_bind (rd_vec16 (''['' @ show_nat i @ ''].extensions'')) (\<lambda>eb.
     rd_bind (rd_lift (parse_extensions eb (''certificate.certificate_list['' @ show_nat i @ '']''))) (\<lambda>exts.
     rd_return (c, exts))))"

lemma consumes_lift: "consumes 0 (rd_lift x)"
  by (auto simp: consumes_def rd_lift_def split: sum.splits intro!: exI [of _ "0 :: nat"])

lemma consumes_cert_entry: "consumes 5 (rd_cert_entry i)"
proof -
  have "consumes (3 + (2 + (0 + 0))) (rd_cert_entry i)"
    unfolding rd_cert_entry_def
    by (intro consumes_bind consumes_vecs consumes_lift consumes_return)
  then show ?thesis by simp
qed

function certificate_loop :: "cert_entry list \<Rightarrow> reader \<Rightarrow> cert_entry list tls_result" where
  "certificate_loop out r =
     (if rd_done r then Inr out
      else case rd_cert_entry (length out) r of
             Inl e \<Rightarrow> Inl e
           | Inr (x, r') \<Rightarrow> certificate_loop (out @ [x]) r')"
  by pat_completeness auto
termination
  by (relation "measure (\<lambda>(out, r). rd_left r)") (auto dest: consumes_left [OF consumes_cert_entry])

declare certificate_loop.simps [simp del]

definition certificate_parse :: "bytes \<Rightarrow> certificate_msg tls_result" where
  "certificate_parse body =
     rd_run
       (rd_bind (rd_vec8 ''certificate_request_context'') (\<lambda>ctxt.
        rd_bind (rd_vec24 ''certificate_list'') (\<lambda>lst.
        rd_bind (rd_expect_done ''certificate'') (\<lambda>_.
        rd_bind (rd_lift (certificate_loop [] (reader_new lst ''certificate.certificate_list''))) (\<lambda>es.
        rd_return \<lparr>cm_request_context = ctxt, cm_entries = es\<rparr>)))))
       (reader_new body ''certificate'')"

definition certificate_encode_body :: "certificate_msg \<Rightarrow> bytes" where
  "certificate_encode_body m =
     writer_finish
       (w_nest24 (w_each (\<lambda>(der, exts) l. w_raw (encode_extensions exts) (w_vec24 der l)) (cm_entries m))
       (w_vec8 (cm_request_context m) writer_new))"

definition certificate_one :: "bytes \<Rightarrow> bytes \<Rightarrow> certificate_msg" where
  "certificate_one ctxt der = \<lparr>cm_request_context = ctxt, cm_entries = [(der, [])]\<rparr>"

definition certificate_none :: "bytes \<Rightarrow> certificate_msg" where
  "certificate_none ctxt = \<lparr>cm_request_context = ctxt, cm_entries = []\<rparr>"

definition certificate_leaf :: "certificate_msg \<Rightarrow> bytes tls_result" where
  "certificate_leaf m =
     (case cm_entries m of
        (d, _) # _ \<Rightarrow> Inr d
      | [] \<Rightarrow> Inl (E_Protocol (''certificate.certificate_list is empty: a server must send its '' @
          ''end-entity certificate first'')))"

section \<open>CertificateRequest, CertificateVerify\<close>

record certificate_request_msg =
  cr_context :: bytes
  cr_extensions :: "extension list"

definition certificate_request_parse :: "bytes \<Rightarrow> certificate_request_msg tls_result" where
  "certificate_request_parse body =
     rd_run
       (rd_bind (rd_vec8 ''certificate_request_context'') (\<lambda>ctxt.
        rd_bind (rd_vec16 ''extensions'') (\<lambda>eb.
        rd_bind (rd_expect_done ''certificate_request'') (\<lambda>_.
        rd_bind (rd_lift (parse_extensions eb ''certificate_request'')) (\<lambda>exts.
        rd_return \<lparr>cr_context = ctxt, cr_extensions = exts\<rparr>)))))
       (reader_new body ''certificate_request'')"

definition cr_signature_algorithms :: "certificate_request_msg \<Rightarrow> u16 list tls_result" where
  "cr_signature_algorithms m =
     (case find (\<lambda>e. ext_type e = EXT_SIGNATURE_ALGORITHMS) (cr_extensions m) of
        None \<Rightarrow>
          Inl (E_Protocol (''certificate_request has no signature_algorithms: RFC 8446 section 4.3.2 '' @
            ''makes it mandatory, because nothing else tells the client what to sign with''))
      | Some ext \<Rightarrow>
          rd_run
            (rd_bind (rd_vec16 ''supported_signature_algorithms'') (\<lambda>lst.
             rd_lift (u16_loop ''scheme'' [] (reader_new lst ''supported_signature_algorithms''))))
            (reader_new (ext_data ext) ''certificate_request.signature_algorithms''))"

record certificate_verify_msg =
  cv_algorithm :: u16
  cv_signature :: bytes

definition certificate_verify_encode_body :: "certificate_verify_msg \<Rightarrow> bytes" where
  "certificate_verify_encode_body m =
     writer_finish (w_vec16 (cv_signature m) (w_u16 (cv_algorithm m) writer_new))"

definition certificate_verify_parse :: "bytes \<Rightarrow> certificate_verify_msg tls_result" where
  "certificate_verify_parse body =
     rd_run
       (rd_bind (rd_u16 ''algorithm'') (\<lambda>a.
        rd_bind (rd_vec16 ''signature'') (\<lambda>sg.
        rd_bind (rd_expect_done ''certificate_verify'') (\<lambda>_.
        rd_return \<lparr>cv_algorithm = a, cv_signature = sg\<rparr>))))
       (reader_new body ''certificate_verify'')"

section \<open>NewSessionTicket, KeyUpdate, Alert\<close>

record new_session_ticket =
  nst_ticket_lifetime :: u32
  nst_ticket_age_add :: u32
  nst_ticket_nonce :: bytes
  nst_ticket :: bytes
  nst_extensions :: "extension list"

definition new_session_ticket_parse :: "bytes \<Rightarrow> new_session_ticket tls_result" where
  "new_session_ticket_parse body =
     rd_run
       (rd_bind (rd_u32 ''ticket_lifetime'') (\<lambda>lt.
        rd_bind (rd_u32 ''ticket_age_add'') (\<lambda>age.
        rd_bind (rd_vec8 ''ticket_nonce'') (\<lambda>nonce.
        rd_bind (rd_vec16 ''ticket'') (\<lambda>tk.
        rd_bind (rd_vec16 ''extensions'') (\<lambda>eb.
        rd_bind (rd_lift (parse_extensions eb ''new_session_ticket'')) (\<lambda>exts.
        rd_bind (rd_expect_done ''new_session_ticket'') (\<lambda>_.
        rd_return
          \<lparr>nst_ticket_lifetime = lt, nst_ticket_age_add = age, nst_ticket_nonce = nonce,
           nst_ticket = tk, nst_extensions = exts\<rparr>))))))))
       (reader_new body ''new_session_ticket'')"

definition max_early_data :: "new_session_ticket \<Rightarrow> u32 option" where
  "max_early_data t =
     (case find_extension (nst_extensions t) EXT_EARLY_DATA of
        None \<Rightarrow> None
      | Some e \<Rightarrow>
          if length (ext_data e) = 4
          then Some (u32_from_be [ext_data e ! 0, ext_data e ! 1, ext_data e ! 2, ext_data e ! 3])
          else None)"

record key_update =
  ku_request_update :: u8

definition KU_NOT_REQUESTED :: key_update where
  "KU_NOT_REQUESTED = \<lparr>ku_request_update = 0\<rparr>"

definition KU_REQUESTED :: key_update where
  "KU_REQUESTED = \<lparr>ku_request_update = 1\<rparr>"

definition key_update_parse :: "bytes \<Rightarrow> key_update tls_result" where
  "key_update_parse body =
     rd_run
       (rd_bind (rd_u8 ''request_update'') (\<lambda>b.
        rd_bind (rd_expect_done ''key_update'') (\<lambda>_.
        rd_return \<lparr>ku_request_update = b\<rparr>)))
       (reader_new body ''key_update'')"

definition key_update_encode :: "key_update \<Rightarrow> bytes" where
  "key_update_encode k = encode_handshake HS_KEY_UPDATE [ku_request_update k]"

definition key_update_name :: "key_update \<Rightarrow> string" where
  "key_update_name k =
     (if ku_request_update k = 0 then ''update_not_requested(0)''
      else if ku_request_update k = 1 then ''update_requested(1)''
      else ''unknown('' @ show_nat (unat (ku_request_update k)) @ '')'')"

record alert =
  al_level :: alert_level
  al_description :: alert_description

definition alert_parse :: "bytes \<Rightarrow> alert tls_result" where
  "alert_parse body =
     (if length body \<noteq> 2 then
        Inl (E_Decode (''an alert is exactly two bytes (level, description); '' @
          show_nat (length body) @ '' arrived''))
      else Inr \<lparr>al_level = al_from_u8 (body ! 0), al_description = AlertDescription (body ! 1)\<rparr>)"

definition alert_encode :: "alert \<Rightarrow> bytes" where
  "alert_encode a = [al_as_u8 (al_level a), ad_code (al_description a)]"

definition alert_fatal :: "alert_description \<Rightarrow> alert" where
  "alert_fatal d = \<lparr>al_level = AL_Fatal, al_description = d\<rparr>"

definition alert_close_notify :: alert where
  "alert_close_notify = \<lparr>al_level = AL_Warning, al_description = CLOSE_NOTIFY\<rparr>"

definition alert_describe :: "alert \<Rightarrow> string" where
  "alert_describe a = al_name (al_level a) @ '' '' @ ad_name (al_description a)"

definition default_signature_algorithms :: "u16 list" where
  "default_signature_algorithms =
     [SIG_ECDSA_SECP256R1_SHA256, SIG_RSA_PSS_RSAE_SHA256, SIG_RSA_PSS_RSAE_SHA384,
      SIG_RSA_PSS_RSAE_SHA512, SIG_ED25519, SIG_RSA_PKCS1_SHA256]"

definition default_client_hello :: "bytes \<Rightarrow> bytes \<Rightarrow> (u16 \<times> bytes) list \<Rightarrow> client_hello" where
  "default_client_hello rnd sid shares =
     \<lparr>ch_legacy_version = LEGACY_VERSION_TLS12, ch_random = rnd, ch_legacy_session_id = sid,
      ch_cipher_suites = ALL_SUITES, ch_legacy_compression_methods = [0],
      ch_extensions =
        [supported_versions_extension [TLS13_VERSION],
         supported_groups_extension [GROUP_X25519, GROUP_SECP256R1],
         signature_algorithms_extension default_signature_algorithms,
         client_key_share_extension shares]\<rparr>"

end
