(* ===== verification/Tls_Wire.thy ===== *)
theory Tls_Wire
  imports Tls_Msg
begin

text \<open>
  Correctness of the parsers and encoders of \<^verbatim>\<open>tlstest/src/tls/msg.rs\<close>. \<open>grammar p R\<close> describes a
  reader by the relation between the value, the bytes consumed and the bytes that follow; it is
  closed under \<open>rd_bind\<close>, so the grammar of a message is composed from the grammars of its fields
  by the rules \<open>grammar_intros\<close>. The main facts say that a parser accepts exactly the encodings of
  well-formed messages.
\<close>

section \<open>Grammars\<close>

definition grammar :: "'a rd \<Rightarrow> ('a \<Rightarrow> bytes \<Rightarrow> bytes \<Rightarrow> bool) \<Rightarrow> bool" where
  "grammar p R \<longleftrightarrow>
     (\<forall>r x r'. p r = Inr (x, r') \<longleftrightarrow>
        (\<exists>bs rest. R x bs rest \<and> rd_rest r = bs @ rest \<and> r' = advance (length bs) r))"

context wire_exact begin

lemma dec_advance: "dec r = Inr (x, r') \<Longrightarrow> r' = advance (length (enc x)) r"
  using enc_dec [of r x r'] dec_enc [of x r "rd_rest r'"] by simp

lemma grammar: "grammar dec (\<lambda>x bs rest. ok x \<and> bs = enc x)"
  unfolding grammar_def
proof (intro allI iffI)
  fix r x r' assume d: "dec r = Inr (x, r')"
  then show "\<exists>bs rest. (ok x \<and> bs = enc x) \<and> rd_rest r = bs @ rest \<and> r' = advance (length bs) r"
    using enc_dec [OF d] dec_advance [OF d] by auto
next
  fix r x r'
  assume "\<exists>bs rest. (ok x \<and> bs = enc x) \<and> rd_rest r = bs @ rest \<and> r' = advance (length bs) r"
  then show "dec r = Inr (x, r')" using dec_enc by auto
qed

end

lemma grammar_bind:
  assumes p: "grammar p R" and f: "\<And>x. grammar (f x) (S x)"
  shows "grammar (rd_bind p f)
    (\<lambda>y bs rest. \<exists>x b1 b2. R x b1 (b2 @ rest) \<and> S x y b2 rest \<and> bs = b1 @ b2)"
  unfolding grammar_def
proof (intro allI iffI)
  fix r y r2 assume "rd_bind p f r = Inr (y, r2)"
  then obtain x r1 where "p r = Inr (x, r1)" "f x r1 = Inr (y, r2)"
    by (auto simp: rd_bind_def split: sum.splits)
  with p f obtain b1 t1 b2 t2 where
    "R x b1 t1" "rd_rest r = b1 @ t1" "r1 = advance (length b1) r"
    "S x y b2 t2" "rd_rest r1 = b2 @ t2" "r2 = advance (length b2) r1"
    unfolding grammar_def by blast
  moreover from this have "t1 = b2 @ t2" by simp
  ultimately show "\<exists>bs rest. (\<exists>x b1 b2. R x b1 (b2 @ rest) \<and> S x y b2 rest \<and> bs = b1 @ b2) \<and>
      rd_rest r = bs @ rest \<and> r2 = advance (length bs) r"
    by (intro exI [of _ "b1 @ b2"] exI [of _ t2]) auto
next
  fix r y r2
  assume "\<exists>bs rest. (\<exists>x b1 b2. R x b1 (b2 @ rest) \<and> S x y b2 rest \<and> bs = b1 @ b2) \<and>
      rd_rest r = bs @ rest \<and> r2 = advance (length bs) r"
  then obtain x b1 b2 rest where b: "R x b1 (b2 @ rest)" "S x y b2 rest"
    "rd_rest r = b1 @ b2 @ rest" "r2 = advance (length b2) (advance (length b1) r)"
    by auto
  then have "p r = Inr (x, advance (length b1) r)" using p unfolding grammar_def by blast
  moreover have "f x (advance (length b1) r) = Inr (y, r2)"
  proof -
    have "rd_rest (advance (length b1) r) = b2 @ rest" using b(3) by simp
    then show ?thesis using f [of x] b(2,4) unfolding grammar_def by blast
  qed
  ultimately show "rd_bind p f r = Inr (y, r2)" by (simp add: rd_bind_def)
qed

lemma grammar_return: "grammar (rd_return x) (\<lambda>y bs rest. y = x \<and> bs = [])"
  by (auto simp: grammar_def rd_return_def)

lemma grammar_lift: "grammar (rd_lift res) (\<lambda>y bs rest. res = Inr y \<and> bs = [])"
  by (auto simp: grammar_def rd_lift_def split: sum.splits)

lemma grammar_expect_done: "grammar (rd_expect_done f) (\<lambda>_ bs rest. bs = [] \<and> rest = [])"
  by (auto simp: grammar_def rd_expect_done_def rd_done_rest)

lemma grammar_take: "grammar (rd_take n f) (\<lambda>v bs rest. bs = v \<and> length v = n)"
  unfolding grammar_def
proof (intro allI iffI)
  fix r v r' assume a: "rd_take n f r = Inr (v, r')"
  then have "r' = advance (length v) r" using take_dec [OF a] by (auto simp: rd_take_eq rd_fail_def split: if_splits)
  then show "\<exists>bs rest. (bs = v \<and> length v = n) \<and> rd_rest r = bs @ rest \<and> r' = advance (length bs) r"
    using take_dec [OF a] by auto
qed (auto simp: take_enc)

lemmas grammar_intros =
  grammar_bind grammar_return grammar_lift grammar_expect_done grammar_take
  wu8.grammar wu16.grammar wu32.grammar wu24.grammar wvec8.grammar wvec16.grammar wvec24.grammar

lemma run_grammar:
  assumes "grammar p R" and "(\<exists>bs rest. b = bs @ rest \<and> R x bs rest) \<longleftrightarrow> Q"
  shows "rd_run p (reader_new b path) = Inr x \<longleftrightarrow> Q"
proof -
  have "rd_run p (reader_new b path) = Inr x \<longleftrightarrow> (\<exists>r'. p (reader_new b path) = Inr (x, r'))"
    by (auto simp: rd_run_def split: sum.splits)
  then show ?thesis using assms unfolding grammar_def by auto
qed

section \<open>Extension blocks\<close>

definition enc_ext :: "extension \<Rightarrow> bytes" where
  "enc_ext e = u16_be (ext_type e) @ enc16 (ext_data e)"

definition ext_ok :: "extension \<Rightarrow> bool" where
  "ext_ok e \<longleftrightarrow> length (ext_data e) < 2 ^ 16"

definition enc_exts :: "extension list \<Rightarrow> bytes" where
  "enc_exts exts = concat (map enc_ext exts)"

definition exts_ok :: "extension list \<Rightarrow> bool" where
  "exts_ok exts \<longleftrightarrow> list_all ext_ok exts \<and> length (enc_exts exts) < 2 ^ 16"

lemma w_each_bytes:
  assumes "\<And>x w. w_bytes (f x w) = w_bytes w @ g x"
  shows "w_bytes (w_each f xs w) = w_bytes w @ concat (map g xs)"
  by (induction xs arbitrary: w) (simp_all add: w_each_def assms)

lemma w_each_u16: "w_bytes (w_each w_u16 xs w) = w_bytes w @ concat (map u16_be xs)"
  by (rule w_each_bytes) simp

lemma encode_extensions_eq: "encode_extensions exts = enc16 (enc_exts exts)"
  by (simp add: encode_extensions_def writer_finish_def enc_exts_def extension_encode_def enc_ext_def
      w_each_bytes [where g = enc_ext])

lemma grammar_extension:
  "grammar (rd_extension i) (\<lambda>e bs rest. ext_ok e \<and> bs = enc_ext e)"
proof -
  have "grammar (rd_extension i) R" if "grammar
     (rd_bind (rd_u16 (''extensions['' @ show_nat i @ ''].extension_type'')) (\<lambda>t.
     rd_bind (rd_vec16 (''extensions['' @ show_nat i @ ''].extension_data'')) (\<lambda>d.
     rd_return (extension_new t d)))) R" for R
    using that by (simp add: rd_extension_def)
  note g = this [OF grammar_bind [OF wu16.grammar grammar_bind [OF wvec16.grammar grammar_return]]]
  have "(\<lambda>y bs rest. \<exists>x b1 b2. (True \<and> b1 = u16_be x) \<and>
      (\<exists>xa b1 b2a. (length xa < 2 ^ 16 \<and> b1 = enc16 xa) \<and>
        (y = extension_new x xa \<and> b2a = []) \<and> b2 = b1 @ b2a) \<and> bs = b1 @ b2) =
    (\<lambda>e bs (rest :: bytes). ext_ok e \<and> bs = enc_ext e)"
  proof (intro ext)
    fix e :: extension and bs rest :: bytes
    show "(\<exists>x b1 b2. (True \<and> b1 = u16_be x) \<and>
      (\<exists>xa b1 b2a. (length xa < 2 ^ 16 \<and> b1 = enc16 xa) \<and>
        (e = extension_new x xa \<and> b2a = []) \<and> b2 = b1 @ b2a) \<and> bs = b1 @ b2) =
      (ext_ok e \<and> bs = enc_ext e)"
      by (cases e) (auto simp: ext_ok_def enc_ext_def extension_new_def)
  qed
  with g show ?thesis by simp
qed

text \<open>From a grammar that is an encoding back to the contract \<open>wire_exact\<close>.\<close>

lemma wire_exact_grammar:
  assumes g: "grammar dec (\<lambda>x bs rest. ok x \<and> bs = enc x)"
  shows "wire_exact enc dec ok"
proof
  show "dec r = Inr (x, advance (length (enc x)) r)" if "ok x" "rd_rest r = enc x @ rest" for x r rest
    using g that unfolding grammar_def by blast
  show "ok x \<and> rd_rest r = enc x @ rd_rest r' \<and> r_path r' = r_path r"
    if a: "dec r = Inr (x, r')" for r x r'
  proof -
    obtain rest where "ok x" "rd_rest r = enc x @ rest" "r' = advance (length (enc x)) r"
      using g a unfolding grammar_def by blast
    then show ?thesis by simp
  qed
qed

interpretation ext: wire_loop enc_ext rd_extension ext_ok extensions_loop
proof (rule wire_loop.intro)
  show "wire_exact enc_ext (rd_extension i) ext_ok" for i
    by (rule wire_exact_grammar [OF grammar_extension])
  show "enc_ext e \<noteq> []" for e
  proof -
    have "2 \<le> length (enc_ext e)" by (simp add: enc_ext_def)
    then show ?thesis by auto
  qed
  show "extensions_loop out r =
      (if rd_done r then Inr out
       else case rd_extension (length out) r of Inl e \<Rightarrow> Inl e | Inr (x, r') \<Rightarrow> extensions_loop (out @ [x]) r')"
    for out r by (rule extensions_loop.simps)
qed

interpretation u16s: wire_loop u16_be "\<lambda>_. rd_u16 f" "\<lambda>_. True" "u16_loop f"
proof (rule wire_loop.intro)
  show "wire_exact u16_be (rd_u16 f) (\<lambda>_. True)" by (rule wu16.wire_exact_axioms)
  show "u16_be v \<noteq> []" for v by (metis length_word_bytes(1) list.size(3) zero_neq_numeral)
  show "u16_loop f out r =
      (if rd_done r then Inr out
       else case rd_u16 f r of Inl e \<Rightarrow> Inl e | Inr (x, r') \<Rightarrow> u16_loop f (out @ [x]) r')"
    for out r by (rule u16_loop.simps)
qed

lemma parse_extensions_iff:
  "parse_extensions bs path = Inr exts \<longleftrightarrow> list_all ext_ok exts \<and> bs = enc_exts exts"
  by (simp add: parse_extensions_def ext.loop_iff enc_exts_def)

lemma try_into_32_iff: "try_into_32 m b = Inr y \<longleftrightarrow> length b = 32 \<and> y = b"
  by (auto simp: try_into_32_def)

lemma u16_loop_iff:
  "u16_loop f [] (reader_new bs path) = Inr xs \<longleftrightarrow> bs = concat (map u16_be xs)"
  using u16s.loop_iff [of f "reader_new bs path" xs] by (simp add: list_all_iff)

section \<open>ClientHello\<close>

definition client_hello_ok :: "client_hello \<Rightarrow> bool" where
  "client_hello_ok h \<longleftrightarrow>
     length (ch_random h) = 32 \<and> length (ch_legacy_session_id h) < 2 ^ 8 \<and>
     2 * length (ch_cipher_suites h) < 2 ^ 16 \<and>
     length (ch_legacy_compression_methods h) < 2 ^ 8 \<and> exts_ok (ch_extensions h)"

lemma length_u16s: "length (concat (map u16_be xs)) = 2 * length xs"
  by (induction xs) auto

lemma client_hello_encode_body_eq:
  "client_hello_encode_body h =
     u16_be (ch_legacy_version h) @ ch_random h @ enc8 (ch_legacy_session_id h) @
     enc16 (concat (map u16_be (ch_cipher_suites h))) @ enc8 (ch_legacy_compression_methods h) @
     enc16 (enc_exts (ch_extensions h))"
  by (simp add: client_hello_encode_body_def writer_finish_def w_each_u16 encode_extensions_eq)

text \<open>C11: the ClientHello parser is exact. It accepts a body with a value exactly when that
  value encodes to those bytes (and its fields fit their length prefixes): whatever the client
  sends parses back, nothing is lost, and no other bytes are accepted.\<close>

lemma client_hello_iff:
  "client_hello_parse_body b = Inr h \<longleftrightarrow> client_hello_ok h \<and> b = client_hello_encode_body h"
  unfolding client_hello_parse_body_def
  by (rule run_grammar, (rule grammar_intros)+, cases h)
    (auto simp: client_hello_ok_def client_hello_encode_body_eq exts_ok_def parse_extensions_iff
      u16_loop_iff try_into_32_iff length_u16s)

section \<open>The other messages\<close>

definition enc_cert :: "cert_entry \<Rightarrow> bytes" where
  "enc_cert c = enc24 (fst c) @ enc16 (enc_exts (snd c))"

definition cert_ok :: "cert_entry \<Rightarrow> bool" where
  "cert_ok c \<longleftrightarrow> length (fst c) < 2 ^ 24 \<and> exts_ok (snd c)"

lemma grammar_cong: "grammar p R \<Longrightarrow> (\<And>x bs rest. R x bs rest \<longleftrightarrow> S x bs rest) \<Longrightarrow> grammar p S"
  by (simp add: grammar_def)

lemma grammar_cert_entry: "grammar (rd_cert_entry i) (\<lambda>c bs rest. cert_ok c \<and> bs = enc_cert c)"
  unfolding rd_cert_entry_def
  by (rule grammar_cong, (rule grammar_intros)+)
    (auto simp: cert_ok_def enc_cert_def exts_ok_def parse_extensions_iff)

interpretation cert: wire_loop enc_cert rd_cert_entry cert_ok certificate_loop
proof (rule wire_loop.intro)
  show "wire_exact enc_cert (rd_cert_entry i) cert_ok" for i
    by (rule wire_exact_grammar [OF grammar_cert_entry])
  show "enc_cert c \<noteq> []" for c
  proof -
    have "2 \<le> length (enc_cert c)" by (simp add: enc_cert_def enc16_def)
    then show ?thesis by auto
  qed
  show "certificate_loop out r =
      (if rd_done r then Inr out
       else case rd_cert_entry (length out) r of Inl e \<Rightarrow> Inl e | Inr (x, r') \<Rightarrow> certificate_loop (out @ [x]) r')"
    for out r by (rule certificate_loop.simps)
qed

definition certificate_ok :: "certificate_msg \<Rightarrow> bool" where
  "certificate_ok m \<longleftrightarrow>
     length (cm_request_context m) < 2 ^ 8 \<and> list_all cert_ok (cm_entries m) \<and>
     length (concat (map enc_cert (cm_entries m))) < 2 ^ 24"

lemma certificate_encode_body_eq:
  "certificate_encode_body m = enc8 (cm_request_context m) @ enc24 (concat (map enc_cert (cm_entries m)))"
proof -
  have "w_bytes (w_each (\<lambda>(der, exts) l. w_raw (encode_extensions exts) (w_vec24 der l)) es w) =
      w_bytes w @ concat (map enc_cert es)" for es w
    by (rule w_each_bytes) (auto simp: enc_cert_def encode_extensions_eq)
  then show ?thesis by (simp add: certificate_encode_body_def writer_finish_def)
qed

lemma certificate_loop_iff:
  "certificate_loop [] (reader_new bs path) = Inr es \<longleftrightarrow>
     list_all cert_ok es \<and> bs = concat (map enc_cert es)"
  by (simp add: cert.loop_iff)

text \<open>the Certificate parser is exact. A body parses to a certificate message exactly
  when it is that message's encoding, every entry with its extensions, with nothing left over.\<close>

lemma certificate_iff:
  "certificate_parse b = Inr m \<longleftrightarrow> certificate_ok m \<and> b = certificate_encode_body m"
  unfolding certificate_parse_def
  by (rule run_grammar, (rule grammar_intros)+, cases m)
    (auto simp: certificate_ok_def certificate_encode_body_eq certificate_loop_iff)

lemma certificate_verify_iff:
  "certificate_verify_parse b = Inr m \<longleftrightarrow>
     length (cv_signature m) < 2 ^ 16 \<and> b = certificate_verify_encode_body m"
  unfolding certificate_verify_parse_def
  by (rule run_grammar, (rule grammar_intros)+, cases m)
    (auto simp: certificate_verify_encode_body_def writer_finish_def)

text \<open>the ServerHello parser is exact. A body parses to a ServerHello exactly when it
  is the concatenation of the fields in order, the random is 32 bytes, and the extensions fill the
  rest.\<close>

lemma server_hello_iff:
  "server_hello_parse b = Inr h \<longleftrightarrow>
     length (sh_random h) = 32 \<and> length (sh_legacy_session_id_echo h) < 2 ^ 8 \<and>
     exts_ok (sh_extensions h) \<and>
     b = u16_be (sh_legacy_version h) @ sh_random h @ enc8 (sh_legacy_session_id_echo h) @
       u16_be (sh_cipher_suite h) @ [sh_legacy_compression_method h] @
       enc16 (enc_exts (sh_extensions h))"
  unfolding server_hello_parse_def
  by (rule run_grammar, (rule grammar_intros)+, cases h)
    (auto simp: exts_ok_def parse_extensions_iff try_into_32_iff)

lemma certificate_request_iff:
  "certificate_request_parse b = Inr m \<longleftrightarrow>
     length (cr_context m) < 2 ^ 8 \<and> exts_ok (cr_extensions m) \<and>
     b = enc8 (cr_context m) @ enc16 (enc_exts (cr_extensions m))"
  unfolding certificate_request_parse_def
  by (rule run_grammar, (rule grammar_intros)+, cases m) (auto simp: exts_ok_def parse_extensions_iff)

lemma new_session_ticket_iff:
  "new_session_ticket_parse b = Inr t \<longleftrightarrow>
     length (nst_ticket_nonce t) < 2 ^ 8 \<and> length (nst_ticket t) < 2 ^ 16 \<and> exts_ok (nst_extensions t) \<and>
     b = u32_be (nst_ticket_lifetime t) @ u32_be (nst_ticket_age_add t) @ enc8 (nst_ticket_nonce t) @
       enc16 (nst_ticket t) @ enc16 (enc_exts (nst_extensions t))"
  unfolding new_session_ticket_parse_def
  by (rule run_grammar, (rule grammar_intros)+, cases t) (auto simp: exts_ok_def parse_extensions_iff)

section \<open>Handshake framing, key updates, alerts\<close>

lemma encode_handshake_eq: "encode_handshake t body = hs_code t # be_bytes 3 (length body) @ body"
  using tl_be_bytes [of 3 "length body"] by (simp add: encode_handshake_def u32_be_of_nat)

lemma handshake_parse_split:
  assumes "length v = 3"
  shows "handshake_parse (c # v @ rest) =
    (if length rest < be_val v then
       Inl (E_Decode (''handshake message '' @ hs_name (HandshakeType c) @ '' claims a '' @
         show_nat (be_val v) @ ''-byte body, '' @ show_nat (length rest) @ '' arrived''))
     else Inr (\<lparr>hm_type = HandshakeType c, hm_body = take (be_val v) rest,
            hm_raw = c # v @ take (be_val v) rest\<rparr>, 4 + be_val v))"
proof -
  obtain x y z where v: "v = [x, y, z]"
    using assms by (auto simp: numeral_eq_Suc length_Suc_conv)
  have "take (4 + n) (c # x # y # z # rest) = c # x # y # z # take n rest" for n
    by (simp add: numeral_eq_Suc)
  then show ?thesis by (simp add: handshake_parse_def v Let_def be_val_Cons0 slice_def)
qed

lemma handshake_parse_encode:
  assumes "length body < 2 ^ 24"
  shows "handshake_parse (encode_handshake t body @ rest) =
    Inr (\<lparr>hm_type = t, hm_body = body, hm_raw = encode_handshake t body\<rparr>, length (encode_handshake t body))"
proof -
  have "be_val (be_bytes 3 (length body)) = length body"
    using assms by (simp add: be_val_be_bytes)
  then show ?thesis
    using handshake_parse_split [of "be_bytes 3 (length body)" "hs_code t" "body @ rest"]
    by (simp add: encode_handshake_eq)
qed

lemma handshake_parse_dec:
  assumes "handshake_parse bs = Inr (m, n)"
  shows "bs = encode_handshake (hm_type m) (hm_body m) @ drop n bs \<and>
    hm_raw m = encode_handshake (hm_type m) (hm_body m) \<and> n = length (hm_raw m) \<and>
    length (hm_body m) < 2 ^ 24"
proof -
  from assms have "\<not> length bs < 4" by (auto simp: handshake_parse_def)
  then obtain c v rest where bs: "bs = c # v @ rest" "length v = 3"
    by (cases bs) (auto intro: that [of _ "take 3 (tl bs)" "drop 3 (tl bs)"])
  with assms have ok: "be_val v \<le> length rest"
    and m: "m = \<lparr>hm_type = HandshakeType c, hm_body = take (be_val v) rest, hm_raw = c # v @ take (be_val v) rest\<rparr>"
      "n = 4 + be_val v"
    by (simp_all add: handshake_parse_split split: if_splits)
  have "encode_handshake (hm_type m) (hm_body m) = c # v @ take (be_val v) rest"
    using m(1) bs ok be_bytes_be_val [of v] by (simp add: encode_handshake_eq)
  moreover have "be_val v < 2 ^ 24" using be_val_bound [of v] bs(2) by simp
  moreover have "drop (4 + k) (c # v @ rest) = drop k rest" for k
    using bs(2) by (simp add: numeral_eq_Suc)
  ultimately show ?thesis using m bs ok by simp
qed

lemma key_update_iff:
  "key_update_parse b = Inr k \<longleftrightarrow> b = [ku_request_update k]"
  unfolding key_update_parse_def
  by (rule run_grammar, (rule grammar_intros)+, cases k) auto

lemma al_as_u8_from_u8 [simp]: "al_as_u8 (al_from_u8 b) = b"
  by (simp add: al_from_u8_def)

lemma ct_as_u8_from_u8 [simp]: "ct_as_u8 (ct_from_u8 b) = b"
  by (simp add: ct_from_u8_def)

lemma alert_encode_parse: "alert_parse b = Inr a \<Longrightarrow> alert_encode a = b"
  by (auto simp: alert_parse_def alert_encode_def numeral_eq_Suc length_Suc_conv split: if_splits)

end
