(* ===== verification/Tls_Crypto.thy ===== *)
theory Tls_Crypto
  imports Tls_Wire
begin

text \<open>
  The key schedule of \<^verbatim>\<open>tlstest/src/tls/crypto.rs\<close>: HKDF, \<open>HkdfLabel\<close>, cipher suites, traffic keys
  and their nonces, the handshake transcript and the secrets of a connection, every derivation
  recorded as a step.

  The hash, HMAC and AEAD implementations are third-party crates: they are the fields of a
  \<open>primitives\<close> record passed to every definition that uses them. What the code relies on is stated
  by \<open>hmac_sized\<close> (an HMAC is as long as its hash) and by \<open>aead_correct\<close> of theory
  \<open>Tls_Record\<close>. A Rust panic (a slice index out of range) is the value \<open>None\<close>.
\<close>

section \<open>Hash agility\<close>

datatype hash_alg = Sha256 | Sha384

datatype aead_alg = Aes128Gcm | Aes256Gcm | ChaCha20Poly1305

record primitives =
  p_digest :: "hash_alg \<Rightarrow> bytes \<Rightarrow> bytes"
  p_hmac :: "hash_alg \<Rightarrow> bytes \<Rightarrow> bytes \<Rightarrow> bytes"
  p_encrypt :: "aead_alg \<Rightarrow> bytes \<Rightarrow> bytes \<Rightarrow> bytes \<Rightarrow> bytes \<Rightarrow> bytes option"
  p_decrypt :: "aead_alg \<Rightarrow> bytes \<Rightarrow> bytes \<Rightarrow> bytes \<Rightarrow> bytes \<Rightarrow> bytes option"

fun hash_len :: "hash_alg \<Rightarrow> nat" where
  "hash_len Sha256 = 32"
| "hash_len Sha384 = 48"

fun hash_name :: "hash_alg \<Rightarrow> string" where
  "hash_name Sha256 = ''SHA-256''"
| "hash_name Sha384 = ''SHA-384''"

definition empty_hash :: "primitives \<Rightarrow> hash_alg \<Rightarrow> bytes" where
  "empty_hash P h = p_digest P h []"

definition zeros :: "hash_alg \<Rightarrow> bytes" where
  "zeros h = replicate (hash_len h) 0"

definition hmac_sized :: "primitives \<Rightarrow> bool" where
  "hmac_sized P \<longleftrightarrow> (\<forall>h k d. length (p_hmac P h k d) = hash_len h)"

text \<open>The UTF-8 bytes of the characters outside ASCII that the messages use.\<close>

definition arrow :: string where
  "arrow = map char_of [226 :: nat, 134, 146]"

definition ellipsis :: string where
  "ellipsis = map char_of [226 :: nat, 128, 166]"

definition em_dash :: string where
  "em_dash = map char_of [226 :: nat, 128, 148]"

definition hex_prefix :: "bytes \<Rightarrow> nat \<Rightarrow> string" where
  "hex_prefix bs n =
     (if length bs \<le> n then hex bs
      else hex (take n bs) @ ellipsis @ '' ('' @ show_nat (length bs) @ '' bytes)'')"

section \<open>HKDF\<close>

definition hkdf_extract :: "primitives \<Rightarrow> hash_alg \<Rightarrow> bytes \<Rightarrow> bytes \<Rightarrow> bytes" where
  "hkdf_extract P alg salt ikm = p_hmac P alg salt ikm"

definition div_ceil :: "nat \<Rightarrow> nat \<Rightarrow> nat" where
  "div_ceil a b = (a + (b - 1)) div b"

fun expand_loop :: "primitives \<Rightarrow> hash_alg \<Rightarrow> bytes \<Rightarrow> bytes \<Rightarrow> nat list \<Rightarrow> bytes \<Rightarrow> bytes \<Rightarrow> bytes" where
  "expand_loop P alg prk info [] previous out = out"
| "expand_loop P alg prk info (counter # rest) previous out =
     (let input = previous @ info @ [word_of_nat counter];
          previous' = p_hmac P alg prk input
      in expand_loop P alg prk info rest previous' (out @ previous'))"

definition hkdf_expand :: "primitives \<Rightarrow> hash_alg \<Rightarrow> bytes \<Rightarrow> bytes \<Rightarrow> nat \<Rightarrow> bytes tls_result" where
  "hkdf_expand P alg prk info len =
     (let n = div_ceil len (hash_len alg) in
      if n > 255
      then Inl (E_Crypto (''HKDF-Expand asked for '' @ show_nat len @ '' bytes, more than 255 * '' @
             show_nat (hash_len alg)))
      else Inr (take len (expand_loop P alg prk info [1..<Suc n] [] [])))"

definition hkdf_label :: "string \<Rightarrow> bytes \<Rightarrow> nat \<Rightarrow> bytes" where
  "hkdf_label label context len =
     (let full = as_bytes ''tls13 '' @ as_bytes label
      in u16_be (word_of_nat len) @ [word_of_nat (length full)] @ full @
         [word_of_nat (length context)] @ context)"

definition hkdf_expand_label ::
    "primitives \<Rightarrow> hash_alg \<Rightarrow> bytes \<Rightarrow> string \<Rightarrow> bytes \<Rightarrow> nat \<Rightarrow> bytes tls_result" where
  "hkdf_expand_label P alg secret label context len =
     hkdf_expand P alg secret (hkdf_label label context len) len"

definition derive_secret ::
    "primitives \<Rightarrow> hash_alg \<Rightarrow> bytes \<Rightarrow> string \<Rightarrow> bytes \<Rightarrow> bytes tls_result" where
  "derive_secret P alg secret label transcript_hash =
     hkdf_expand_label P alg secret label transcript_hash (hash_len alg)"

section \<open>AEAD\<close>

fun key_len :: "aead_alg \<Rightarrow> nat" where
  "key_len Aes128Gcm = 16"
| "key_len Aes256Gcm = 32"
| "key_len ChaCha20Poly1305 = 32"

definition iv_len :: "aead_alg \<Rightarrow> nat" where
  "iv_len a = 12"

definition tag_len :: "aead_alg \<Rightarrow> nat" where
  "tag_len a = 16"

fun aead_name :: "aead_alg \<Rightarrow> string" where
  "aead_name Aes128Gcm = ''AES-128-GCM''"
| "aead_name Aes256Gcm = ''AES-256-GCM''"
| "aead_name ChaCha20Poly1305 = ''ChaCha20-Poly1305''"

text \<open>
  \<open>new_from_slice\<close> refuses a key of the wrong length with an error; \<open>nonce.into()\<close> panics on a
  nonce that is not twelve bytes.
\<close>

fun bad_key :: "aead_alg \<Rightarrow> tls_error" where
  "bad_key Aes128Gcm = E_Crypto ''AES-128-GCM needs a 16-byte key''"
| "bad_key Aes256Gcm = E_Crypto ''AES-256-GCM needs a 32-byte key''"
| "bad_key ChaCha20Poly1305 = E_Crypto ''ChaCha20-Poly1305 needs a 32-byte key''"

definition aead_seal ::
    "primitives \<Rightarrow> aead_alg \<Rightarrow> bytes \<Rightarrow> bytes \<Rightarrow> bytes \<Rightarrow> bytes \<Rightarrow> bytes tls_result option" where
  "aead_seal P a key nonce aad plaintext =
     (if length key \<noteq> key_len a then Some (Inl (bad_key a))
      else if length nonce \<noteq> 12 then None
      else Some (case p_encrypt P a key nonce aad plaintext of
             None \<Rightarrow> Inl (E_Crypto (aead_name a @ '' sealing failed''))
           | Some out \<Rightarrow> Inr out))"

definition aead_open ::
    "primitives \<Rightarrow> aead_alg \<Rightarrow> bytes \<Rightarrow> bytes \<Rightarrow> bytes \<Rightarrow> bytes \<Rightarrow> bytes tls_result option" where
  "aead_open P a key nonce aad ciphertext =
     (if length key \<noteq> key_len a then Some (Inl (bad_key a))
      else if length nonce \<noteq> 12 then None
      else Some (case p_decrypt P a key nonce aad ciphertext of
             None \<Rightarrow> Inl (E_Crypto (aead_name a @ '' could not authenticate the record (bad tag)''))
           | Some out \<Rightarrow> Inr out))"

section \<open>Suites and traffic keys\<close>

record suite =
  su_code :: u16
  su_hash :: hash_alg
  su_aead :: aead_alg

definition suite_from_code :: "u16 \<Rightarrow> suite option" where
  "suite_from_code code =
     (if code = TLS_AES_128_GCM_SHA256
      then Some \<lparr>su_code = code, su_hash = Sha256, su_aead = Aes128Gcm\<rparr>
      else if code = TLS_AES_256_GCM_SHA384
      then Some \<lparr>su_code = code, su_hash = Sha384, su_aead = Aes256Gcm\<rparr>
      else if code = TLS_CHACHA20_POLY1305_SHA256
      then Some \<lparr>su_code = code, su_hash = Sha256, su_aead = ChaCha20Poly1305\<rparr>
      else None)"

definition suite_display :: "suite \<Rightarrow> string" where
  "suite_display s = suite_name (su_code s)"

record traffic_keys =
  tk_secret :: bytes
  tk_key :: bytes
  tk_iv :: bytes
  tk_aead :: aead_alg
  tk_hash :: hash_alg

text \<open>The \<open>?\<close> operator on plain results.\<close>

definition res_bind :: "'a tls_result \<Rightarrow> ('a \<Rightarrow> 'b tls_result) \<Rightarrow> 'b tls_result" where
  "res_bind x f = (case x of Inl e \<Rightarrow> Inl e | Inr v \<Rightarrow> f v)"

lemma res_bind_simps [simp]: "res_bind (Inl e) f = Inl e" "res_bind (Inr x) f = f x"
  by (simp_all add: res_bind_def)

definition keys_derive :: "primitives \<Rightarrow> suite \<Rightarrow> bytes \<Rightarrow> traffic_keys tls_result" where
  "keys_derive P s secret =
     res_bind (hkdf_expand_label P (su_hash s) secret ''key'' [] (key_len (su_aead s))) (\<lambda>key.
     res_bind (hkdf_expand_label P (su_hash s) secret ''iv'' [] (iv_len (su_aead s))) (\<lambda>iv.
     Inr \<lparr>tk_secret = secret, tk_key = key, tk_iv = iv, tk_aead = su_aead s, tk_hash = su_hash s\<rparr>))"

text \<open>\<open>nonce[start + i] ^= b\<close> for the eight bytes of the sequence number; an index out of range panics.\<close>

fun xor_into :: "nat \<Rightarrow> bytes \<Rightarrow> bytes \<Rightarrow> bytes option" where
  "xor_into i [] nonce = Some nonce"
| "xor_into i (b # bs) nonce =
     (if i < length nonce then xor_into (Suc i) bs (nonce[i := (nonce ! i) XOR b]) else None)"

definition nonce :: "traffic_keys \<Rightarrow> u64 \<Rightarrow> bytes option" where
  "nonce k sequence = xor_into (length (tk_iv k) - 8) (u64_be sequence) (tk_iv k)"

definition keys_updated :: "primitives \<Rightarrow> traffic_keys \<Rightarrow> traffic_keys tls_result" where
  "keys_updated P k =
     res_bind (hkdf_expand_label P (tk_hash k) (tk_secret k) ''traffic upd'' [] (hash_len (tk_hash k)))
       (\<lambda>next. keys_derive P \<lparr>su_code = 0, su_hash = tk_hash k, su_aead = tk_aead k\<rparr> next)"

definition finished_key :: "primitives \<Rightarrow> traffic_keys \<Rightarrow> bytes tls_result" where
  "finished_key P k =
     hkdf_expand_label P (tk_hash k) (tk_secret k) ''finished'' [] (hash_len (tk_hash k))"

end
