(* ===== verification/Tls_Schedule.thy ===== *)
theory Tls_Schedule
  imports Tls_Crypto
begin

text \<open>
  The transcript and the key schedule of \<^verbatim>\<open>tlstest/src/tls/crypto.rs\<close>, and what makes them right:
  HKDF returns the length asked for and refuses exactly the impossible lengths, \<open>HkdfLabel\<close>
  separates labels, contexts and lengths, nonces never repeat under one key, and the whole
  schedule succeeds with secrets, keys and IVs of the right size, one recorded step per derivation.
\<close>

section \<open>The transcript\<close>

record transcript =
  t_hash :: hash_alg
  t_bytes :: bytes
  t_checkpoints :: "(string \<times> bytes) list"

definition transcript_new :: "hash_alg \<Rightarrow> transcript" where
  "transcript_new h = \<lparr>t_hash = h, t_bytes = [], t_checkpoints = []\<rparr>"

definition rehash :: "hash_alg \<Rightarrow> transcript \<Rightarrow> transcript" where
  "rehash h t = t\<lparr>t_hash := h, t_checkpoints := []\<rparr>"

definition current :: "primitives \<Rightarrow> transcript \<Rightarrow> bytes" where
  "current P t = p_digest P (t_hash t) (t_bytes t)"

definition mark :: "primitives \<Rightarrow> string \<Rightarrow> transcript \<Rightarrow> transcript" where
  "mark P label t = (let h = current P t in t\<lparr>t_checkpoints := t_checkpoints t @ [(label, h)]\<rparr>)"

definition transcript_push :: "primitives \<Rightarrow> bytes \<Rightarrow> string \<Rightarrow> transcript \<Rightarrow> transcript" where
  "transcript_push P message label t =
     (let t' = t\<lparr>t_bytes := t_bytes t @ message\<rparr>;
          h = current P t'
      in t'\<lparr>t_checkpoints := t_checkpoints t' @ [(label, h)]\<rparr>)"

definition replace_with_message_hash :: "primitives \<Rightarrow> transcript \<Rightarrow> transcript" where
  "replace_with_message_hash P t =
     (let digest = p_digest P (t_hash t) (t_bytes t);
          synthetic = [254, 0, 0, word_of_nat (hash_len (t_hash t))] @ digest;
          t' = t\<lparr>t_bytes := synthetic\<rparr>
      in t'\<lparr>t_checkpoints := t_checkpoints t' @
              [(''message_hash (HelloRetryRequest)'', current P t')]\<rparr>)"

definition transcript_at :: "string \<Rightarrow> transcript \<Rightarrow> bytes option" where
  "transcript_at label t = map_option snd (find (\<lambda>(l, _). l = label) (t_checkpoints t))"

section \<open>The key schedule\<close>

record ks_step =
  ks_label :: string
  ks_output :: string
  ks_transcript :: "bytes option"
  ks_secret :: bytes

record key_schedule =
  k_suite :: suite
  k_steps :: "ks_step list"
  early_secret :: bytes
  handshake_secret :: bytes
  master_secret :: bytes
  client_handshake :: "traffic_keys option"
  server_handshake :: "traffic_keys option"
  client_application :: "traffic_keys option"
  server_application :: "traffic_keys option"
  resumption_master :: "bytes option"
  exporter_master :: "bytes option"
  binder_key :: "bytes option"

type_synonym 'a ks = "(key_schedule, tls_error, 'a) st"

definition ks_record :: "string \<Rightarrow> string \<Rightarrow> bytes option \<Rightarrow> bytes \<Rightarrow> key_schedule \<Rightarrow> key_schedule" where
  "ks_record label output tr secret k =
     k\<lparr>k_steps := k_steps k @
        [\<lparr>ks_label = label, ks_output = output, ks_transcript = tr, ks_secret = secret\<rparr>]\<rparr>"

definition ks_new :: "primitives \<Rightarrow> suite \<Rightarrow> bytes option \<Rightarrow> key_schedule" where
  "ks_new P s psk =
     (let hash = su_hash s;
          ikm = (case psk of Some p \<Rightarrow> p | None \<Rightarrow> zeros hash);
          early = hkdf_extract P hash (zeros hash) ikm
      in ks_record ''HKDF-Extract(0, PSK)'' ''Early Secret'' None early
           \<lparr>k_suite = s, k_steps = [], early_secret = early, handshake_secret = [],
            master_secret = [], client_handshake = None, server_handshake = None,
            client_application = None, server_application = None, resumption_master = None,
            exporter_master = None, binder_key = None\<rparr>)"

definition derive_binder_key :: "primitives \<Rightarrow> bytes ks" where
  "derive_binder_key P k =
     (let hash = su_hash (k_suite k); empty = empty_hash P hash in
      st_bind (st_lift (derive_secret P hash (early_secret k) ''res binder'' empty)) (\<lambda>key.
      st_bind (st_modify (ks_record ''res binder'' ''binder_key'' (Some empty) key)) (\<lambda>_.
      st_bind (st_modify (\<lambda>k. k\<lparr>binder_key := Some key\<rparr>)) (\<lambda>_.
      st_return key))) k)"

definition derive_early_traffic :: "primitives \<Rightarrow> bytes \<Rightarrow> traffic_keys ks" where
  "derive_early_traffic P th k =
     (let hash = su_hash (k_suite k) in
      st_bind (st_lift (derive_secret P hash (early_secret k) ''c e traffic'' th)) (\<lambda>secret.
      st_bind (st_modify (ks_record ''c e traffic'' ''client_early_traffic_secret'' (Some th) secret)) (\<lambda>_.
      st_lift (keys_derive P (k_suite k) secret))) k)"

definition enter_handshake :: "primitives \<Rightarrow> bytes \<Rightarrow> bytes \<Rightarrow> unit ks" where
  "enter_handshake P shared th k =
     (let hash = su_hash (k_suite k); empty = empty_hash P hash in
      st_bind (st_lift (derive_secret P hash (early_secret k) ''derived'' empty)) (\<lambda>derived.
      st_bind (st_modify (ks_record ''derived'' ''Derived Secret'' (Some empty) derived)) (\<lambda>_.
      let hs = hkdf_extract P hash derived shared in
      st_bind (st_modify (ks_record ''HKDF-Extract(Derived, (EC)DHE)'' ''Handshake Secret'' None hs)) (\<lambda>_.
      st_bind (st_modify (\<lambda>k. k\<lparr>handshake_secret := hs\<rparr>)) (\<lambda>_.
      st_bind (st_lift (derive_secret P hash hs ''c hs traffic'' th)) (\<lambda>c.
      st_bind (st_modify (ks_record ''c hs traffic'' ''client_handshake_traffic_secret'' (Some th) c)) (\<lambda>_.
      st_bind (st_lift (derive_secret P hash hs ''s hs traffic'' th)) (\<lambda>s.
      st_bind (st_modify (ks_record ''s hs traffic'' ''server_handshake_traffic_secret'' (Some th) s)) (\<lambda>_.
      st_bind (st_lift (keys_derive P (k_suite k) c)) (\<lambda>ck.
      st_bind (st_modify (\<lambda>k. k\<lparr>client_handshake := Some ck\<rparr>)) (\<lambda>_.
      st_bind (st_lift (keys_derive P (k_suite k) s)) (\<lambda>sk.
      st_bind (st_modify (\<lambda>k. k\<lparr>server_handshake := Some sk\<rparr>)) (\<lambda>_.
      st_bind (st_lift (derive_secret P hash hs ''derived'' empty)) (\<lambda>derived2.
      st_bind (st_modify (ks_record ''derived'' ''Derived Secret'' (Some empty) derived2)) (\<lambda>_.
      let master = hkdf_extract P hash derived2 (zeros hash) in
      st_bind (st_modify (ks_record ''HKDF-Extract(Derived, 0)'' ''Master Secret'' None master)) (\<lambda>_.
      st_modify (\<lambda>k. k\<lparr>master_secret := master\<rparr>)))))))))))))))) k)"

definition enter_application :: "primitives \<Rightarrow> bytes \<Rightarrow> unit ks" where
  "enter_application P th k =
     (let hash = su_hash (k_suite k); master = master_secret k in
      st_bind (st_lift (derive_secret P hash master ''c ap traffic'' th)) (\<lambda>c.
      st_bind (st_modify (ks_record ''c ap traffic'' ''client_application_traffic_secret_0'' (Some th) c)) (\<lambda>_.
      st_bind (st_lift (derive_secret P hash master ''s ap traffic'' th)) (\<lambda>s.
      st_bind (st_modify (ks_record ''s ap traffic'' ''server_application_traffic_secret_0'' (Some th) s)) (\<lambda>_.
      st_bind (st_lift (derive_secret P hash master ''exp master'' th)) (\<lambda>e.
      st_bind (st_modify (ks_record ''exp master'' ''exporter_master_secret'' (Some th) e)) (\<lambda>_.
      st_bind (st_lift (keys_derive P (k_suite k) c)) (\<lambda>ck.
      st_bind (st_modify (\<lambda>k. k\<lparr>client_application := Some ck\<rparr>)) (\<lambda>_.
      st_bind (st_lift (keys_derive P (k_suite k) s)) (\<lambda>sk.
      st_bind (st_modify (\<lambda>k. k\<lparr>server_application := Some sk\<rparr>)) (\<lambda>_.
      st_modify (\<lambda>k. k\<lparr>exporter_master := Some e\<rparr>))))))))))) k)"

definition derive_resumption_master :: "primitives \<Rightarrow> bytes \<Rightarrow> bytes ks" where
  "derive_resumption_master P th k =
     (let hash = su_hash (k_suite k); master = master_secret k in
      st_bind (st_lift (derive_secret P hash master ''res master'' th)) (\<lambda>r.
      st_bind (st_modify (ks_record ''res master'' ''resumption_master_secret'' (Some th) r)) (\<lambda>_.
      st_bind (st_modify (\<lambda>k. k\<lparr>resumption_master := Some r\<rparr>)) (\<lambda>_.
      st_return r))) k)"

definition resumption_psk :: "primitives \<Rightarrow> key_schedule \<Rightarrow> bytes \<Rightarrow> bytes tls_result" where
  "resumption_psk P k ticket_nonce =
     (case resumption_master k of
        None \<Rightarrow> Inl (E_Crypto ''no resumption_master_secret has been derived'')
      | Some rms \<Rightarrow> hkdf_expand_label P (su_hash (k_suite k)) rms ''resumption'' ticket_nonce
                     (hash_len (su_hash (k_suite k))))"

definition verify_data :: "primitives \<Rightarrow> key_schedule \<Rightarrow> traffic_keys \<Rightarrow> bytes \<Rightarrow> bytes tls_result" where
  "verify_data P k keys th =
     res_bind (finished_key P keys) (\<lambda>fk. Inr (p_hmac P (su_hash (k_suite k)) fk th))"

definition last_label :: "key_schedule \<Rightarrow> string" where
  "last_label k =
     (if k_steps k = [] then ''nothing derived yet''
      else (let s = last (k_steps k) in ks_label s @ '' '' @ arrow @ '' '' @ ks_output s))"

definition ks_report_lines :: "key_schedule \<Rightarrow> string list" where
  "ks_report_lines k =
     map (\<lambda>s.
       let over = (case ks_transcript s of
                     Some h \<Rightarrow> '' over transcript '' @ hex_prefix h 8
                   | None \<Rightarrow> [])
       in pad_right 32 (ks_label s) @ '' '' @ arrow @ '' '' @ pad_right 38 (ks_output s) @ '' '' @
          hex_prefix (ks_secret s) 8 @ over) (k_steps k)"

section \<open>HKDF is the RFC's recurrence\<close>

text \<open>RFC 5869: \<open>T(0)\<close> is empty, \<open>T(n+1) = HMAC(PRK, T(n) | info | n+1)\<close>.\<close>

fun hkdf_T :: "primitives \<Rightarrow> hash_alg \<Rightarrow> bytes \<Rightarrow> bytes \<Rightarrow> nat \<Rightarrow> bytes" where
  "hkdf_T P alg prk info 0 = []"
| "hkdf_T P alg prk info (Suc n) =
     p_hmac P alg prk (hkdf_T P alg prk info n @ info @ [word_of_nat (Suc n)])"

lemma expand_loop_T:
  "expand_loop P alg prk info [Suc m..<Suc (m + n)] (hkdf_T P alg prk info m) out =
     out @ concat (map (hkdf_T P alg prk info) [Suc m..<Suc (m + n)])"
proof (induction n arbitrary: m out)
  case (Suc n)
  have "[Suc m..<Suc (m + Suc n)] = Suc m # [Suc (Suc m)..<Suc (Suc m + n)]"
    by (simp add: upt_conv_Cons)
  then show ?case
    using Suc [of "Suc m"] by (simp add: Let_def del: upt_Suc)
qed simp

lemma length_hkdf_T [simp]: "hmac_sized P \<Longrightarrow> length (hkdf_T P alg prk info (Suc n)) = hash_len alg"
  by (simp add: hmac_sized_def)

lemma length_T_blocks:
  "hmac_sized P \<Longrightarrow> length (concat (map (hkdf_T P alg prk info) [1..<Suc n])) = n * hash_len alg"
  by (induction n) (simp_all add: hmac_sized_def)

lemma hash_len_pos [simp]: "0 < hash_len h"
  by (cases h) simp_all

lemma div_ceil_le_iff: "0 < b \<Longrightarrow> div_ceil a b \<le> n \<longleftrightarrow> a \<le> n * b"
proof -
  assume b: "0 < b"
  have "div_ceil a b \<le> n \<longleftrightarrow> div_ceil a b < Suc n" by (rule less_Suc_eq_le [symmetric])
  also have "\<dots> \<longleftrightarrow> a + (b - 1) < Suc n * b"
    unfolding div_ceil_def using b less_mult_imp_div_less div_less_iff_less_mult by blast
  also have "\<dots> \<longleftrightarrow> a \<le> n * b" using b by auto
  finally show ?thesis .
qed

lemma hkdf_expand_eq:
  "hkdf_expand P alg prk info len =
     (if len > 255 * hash_len alg
      then Inl (E_Crypto (''HKDF-Expand asked for '' @ show_nat len @ '' bytes, more than 255 * '' @
             show_nat (hash_len alg)))
      else Inr (take len (concat (map (hkdf_T P alg prk info) [1..<Suc (div_ceil len (hash_len alg))]))))"
  using expand_loop_T [of P alg prk info 0 "div_ceil len (hash_len alg)" "[]"]
    div_ceil_le_iff [of "hash_len alg" len 255]
  by (auto simp: hkdf_expand_def Let_def simp del: upt_Suc)

lemma hkdf_expand_length:
  "hmac_sized P \<Longrightarrow> hkdf_expand P alg prk info len = Inr out \<Longrightarrow> length out = len"
  using div_ceil_le_iff [of "hash_len alg" len "div_ceil len (hash_len alg)"]
  by (auto simp: hkdf_expand_eq length_T_blocks [unfolded One_nat_def] simp del: upt_Suc split: if_splits)

lemma hkdf_expand_one:
  assumes "hmac_sized P" "0 < len" "len \<le> hash_len alg"
  shows "hkdf_expand P alg prk info len = Inr (take len (p_hmac P alg prk (info @ [1])))"
proof -
  have "div_ceil len (hash_len alg) = 1"
    unfolding div_ceil_def using assms(2,3) by (simp add: div_nat_eqI)
  moreover have "len \<le> 255 * hash_len alg" using assms(3) by simp
  ultimately show ?thesis by (simp add: hkdf_expand_eq)
qed

text \<open>Deriving a secret is one HMAC over the label structure.\<close>

definition label_hmac :: "primitives \<Rightarrow> hash_alg \<Rightarrow> bytes \<Rightarrow> string \<Rightarrow> bytes \<Rightarrow> bytes" where
  "label_hmac P alg secret label th = p_hmac P alg secret (hkdf_label label th (hash_len alg) @ [1])"

lemma derive_secret_label_hmac: "hmac_sized P \<Longrightarrow> derive_secret P alg secret label th = Inr (label_hmac P alg secret label th)"
  by (simp add: derive_secret_def hkdf_expand_label_def hkdf_expand_one label_hmac_def hmac_sized_def)

lemma length_label_hmac [simp]: "hmac_sized P \<Longrightarrow> length (label_hmac P alg secret label th) = hash_len alg"
  by (simp add: label_hmac_def hmac_sized_def)

definition keys_of :: "primitives \<Rightarrow> suite \<Rightarrow> bytes \<Rightarrow> traffic_keys" where
  "keys_of P s secret =
     \<lparr>tk_secret = secret,
      tk_key = take (key_len (su_aead s))
                 (p_hmac P (su_hash s) secret (hkdf_label ''key'' [] (key_len (su_aead s)) @ [1])),
      tk_iv = take 12 (p_hmac P (su_hash s) secret (hkdf_label ''iv'' [] 12 @ [1])),
      tk_aead = su_aead s, tk_hash = su_hash s\<rparr>"

lemma key_len_bounds: "0 < key_len a \<and> key_len a \<le> hash_len h"
  by (cases a; cases h) simp_all

lemma keys_derive_keys: "hmac_sized P \<Longrightarrow> keys_derive P s secret = Inr (keys_of P s secret)"
proof -
  assume P: "hmac_sized P"
  have "12 \<le> hash_len h" for h by (cases h) simp_all
  then show ?thesis
    using key_len_bounds [of "su_aead s" "su_hash s"] P
    by (simp add: keys_derive_def hkdf_expand_label_def hkdf_expand_one keys_of_def iv_len_def)
qed

definition keys_sized :: "traffic_keys \<Rightarrow> bool" where
  "keys_sized k \<longleftrightarrow> length (tk_key k) = key_len (tk_aead k) \<and> length (tk_iv k) = 12"

lemma keys_of_sized: "hmac_sized P \<Longrightarrow> keys_sized (keys_of P s secret)"
proof -
  assume P: "hmac_sized P"
  have "12 \<le> hash_len h" for h by (cases h) simp_all
  then show ?thesis
    using key_len_bounds [of "su_aead s" "su_hash s"] P
    by (simp add: keys_sized_def keys_of_def hmac_sized_def min_absorb2)
qed

section \<open>The label structure separates its fields\<close>

lemma enc8_append_inj:
  assumes "enc8 a @ x = enc8 b @ y" "length a < 256" "length b < 256"
  shows "a = b \<and> x = y"
proof -
  have "(word_of_nat (length a) :: u8) = word_of_nat (length b)" using assms(1) by (simp add: enc8_def)
  then have "unat (word_of_nat (length a) :: u8) = unat (word_of_nat (length b) :: u8)" by simp
  then have "length a = length b" using assms(2,3) by (simp add: unat_byte)
  then show ?thesis using assms(1) by (simp add: enc8_def)
qed

lemma as_bytes_inj: "as_bytes a = as_bytes b \<Longrightarrow> a = b"
proof -
  let ?f = "\<lambda>c. word_of_nat (of_char c) :: u8"
  have "unat (?f c) = of_char c" for c by (simp add: unat_byte)
  then have "inj ?f" by (metis injI of_char_eq_iff)
  then show "as_bytes a = as_bytes b \<Longrightarrow> a = b" by (simp add: as_bytes_def inj_map_eq_map)
qed

lemma hkdf_label_eq:
  "hkdf_label label context len =
     u16_be (word_of_nat len) @ enc8 (as_bytes ''tls13 '' @ as_bytes label) @ enc8 context"
  by (simp add: hkdf_label_def enc8_def Let_def)


lemma hkdf_label_inj:
  assumes "hkdf_label l c n = hkdf_label l' c' n'"
    and "length l < 250" "length l' < 250" "length c < 256" "length c' < 256" "n < 65536" "n' < 65536"
  shows "l = l' \<and> c = c' \<and> n = n'"
proof -
  let ?f = "\<lambda>l. as_bytes ''tls13 '' @ as_bytes l"
  have "u16_be (word_of_nat n) = u16_be (word_of_nat n')"
    and rest: "enc8 (?f l) @ enc8 c = enc8 (?f l') @ enc8 c'"
    using assms(1) by (simp_all add: hkdf_label_eq)
  then have "n = n'" using assms(6,7) by (simp add: of_nat_u16_inj)
  moreover have "?f l = ?f l' \<and> enc8 c = enc8 c'"
    by (rule enc8_append_inj [OF rest]) (use assms(2,3) in \<open>simp_all add: as_bytes_def\<close>)
  moreover from this have "c = c'"
    using enc8_append_inj [of c "[]" c' "[]"] assms(4,5) by simp
  ultimately show ?thesis using as_bytes_inj by simp
qed

section \<open>Nonces\<close>

lemma xor_into_eq:
  "i + length bs \<le> length iv \<Longrightarrow>
     xor_into i bs iv = Some (take i iv @ map2 (XOR) (slice i (i + length bs) iv) bs @ drop (i + length bs) iv)"
proof (induction i bs iv rule: xor_into.induct)
  case (2 i b bs iv)
  then have i: "i < length iv" by simp
  have s: "slice i (Suc (i + length bs)) iv = iv ! i # slice (Suc i) (Suc (i + length bs)) iv"
    using i by (simp add: slice_def Cons_nth_drop_Suc [symmetric])
  have d: "slice (Suc i) (Suc (i + length bs)) (iv[i := x]) = slice (Suc i) (Suc (i + length bs)) iv" for x
    by (simp add: slice_def)
  have t: "take (Suc i) (iv[i := x]) = take i iv @ [x]" for x
    using i by (simp add: take_Suc_conv_app_nth)
  show ?case using 2 i by (simp add: d t s)
qed (simp add: slice_def)

lemma nonce_eq:
  assumes "length (tk_iv k) = 12"
  shows "nonce k s = Some (take 4 (tk_iv k) @ map2 (XOR) (drop 4 (tk_iv k)) (u64_be s))"
  using xor_into_eq [of 4 "u64_be s" "tk_iv k"] assms by (simp add: nonce_def slice_def)

lemma map2_xor_inj:
  "length a = length b \<Longrightarrow> length a = length c \<Longrightarrow> map2 (XOR) a b = map2 (XOR) a c \<Longrightarrow> b = (c :: bytes)"
proof (induction a arbitrary: b c)
  case (Cons x a)
  then obtain y b' z c' where "b = y # b'" "c = z # c'"
    by (metis length_Suc_conv length_Cons)
  moreover from this have "x XOR y = x XOR z" using Cons.prems(3) by simp
  then have "x XOR (x XOR y) = x XOR (x XOR z)" by simp
  then have "y = z" by (simp flip: xor.assoc)
  ultimately show ?case using Cons by simp
qed simp

lemma nonce_inj: "length (tk_iv k) = 12 \<Longrightarrow> nonce k s = nonce k t \<longleftrightarrow> s = t"
  using map2_xor_inj [of "drop 4 (tk_iv k)" "u64_be s" "u64_be t"]
  by (auto simp: nonce_eq)

lemma nonce_length: "length (tk_iv k) = 12 \<Longrightarrow> \<exists>n. nonce k s = Some n \<and> length n = 12"
  by (simp add: nonce_eq)


section \<open>The whole schedule\<close>

lemmas ks_ops =
  derive_binder_key_def derive_early_traffic_def enter_handshake_def enter_application_def
  derive_resumption_master_def

lemma k_suite_record [simp, frame]: "k_suite (ks_record l out t s k) = k_suite k"
  by (simp add: ks_record_def)

lemma ks_record_fields [frame]:
  "early_secret (ks_record l out t s k) = early_secret k"
  "handshake_secret (ks_record l out t s k) = handshake_secret k"
  "master_secret (ks_record l out t s k) = master_secret k"
  "client_handshake (ks_record l out t s k) = client_handshake k"
  "server_handshake (ks_record l out t s k) = server_handshake k"
  "client_application (ks_record l out t s k) = client_application k"
  "server_application (ks_record l out t s k) = server_application k"
  "resumption_master (ks_record l out t s k) = resumption_master k"
  "exporter_master (ks_record l out t s k) = exporter_master k"
  "k_steps (ks_record l out t s k) =
     k_steps k @ [\<lparr>ks_label = l, ks_output = out, ks_transcript = t, ks_secret = s\<rparr>]"
  by (simp_all add: ks_record_def)

text \<open>The three secrets of RFC 8446 section 7.1.\<close>

definition rfc_early :: "primitives \<Rightarrow> hash_alg \<Rightarrow> bytes option \<Rightarrow> bytes" where
  "rfc_early P h psk = p_hmac P h (zeros h) (case psk of Some p \<Rightarrow> p | None \<Rightarrow> zeros h)"

definition rfc_handshake :: "primitives \<Rightarrow> hash_alg \<Rightarrow> bytes option \<Rightarrow> bytes \<Rightarrow> bytes" where
  "rfc_handshake P h psk dhe = p_hmac P h (label_hmac P h (rfc_early P h psk) ''derived'' (p_digest P h [])) dhe"

definition rfc_master :: "primitives \<Rightarrow> hash_alg \<Rightarrow> bytes option \<Rightarrow> bytes \<Rightarrow> bytes" where
  "rfc_master P h psk dhe =
     p_hmac P h (label_hmac P h (rfc_handshake P h psk dhe) ''derived'' (p_digest P h [])) (zeros h)"

lemma ks_new_fields:
  "k_suite (ks_new P s psk) = s" "early_secret (ks_new P s psk) = rfc_early P (su_hash s) psk"
  "map ks_label (k_steps (ks_new P s psk)) = [''HKDF-Extract(0, PSK)'']"
  "resumption_master (ks_new P s psk) = None"
  by (simp_all add: ks_new_def Let_def frame rfc_early_def hkdf_extract_def)

text \<open>What each phase leaves behind, from any state.\<close>

lemma enter_handshake_result:
  assumes "hmac_sized P" "h = su_hash (k_suite k)" "early_secret k = rfc_early P h psk"
  shows "\<exists>k'. enter_handshake P dhe th k = Some (Inr (), k') \<and> k_suite k' = k_suite k \<and>
    early_secret k' = early_secret k \<and>
    handshake_secret k' = rfc_handshake P h psk dhe \<and> master_secret k' = rfc_master P h psk dhe \<and>
    client_handshake k' = Some (keys_of P (k_suite k) (label_hmac P h (rfc_handshake P h psk dhe) ''c hs traffic'' th)) \<and>
    server_handshake k' = Some (keys_of P (k_suite k) (label_hmac P h (rfc_handshake P h psk dhe) ''s hs traffic'' th)) \<and>
    map ks_label (k_steps k') = map ks_label (k_steps k) @
      [''derived'', ''HKDF-Extract(Derived, (EC)DHE)'', ''c hs traffic'', ''s hs traffic'',
       ''derived'', ''HKDF-Extract(Derived, 0)'']"
  using assms(1,3)
  by (simp add: enter_handshake_def Let_def derive_secret_label_hmac keys_derive_keys frame
      hkdf_extract_def empty_hash_def rfc_handshake_def rfc_master_def flip: assms(2))

lemma enter_application_result:
  assumes "hmac_sized P" "h = su_hash (k_suite k)" "m = master_secret k"
  shows "\<exists>k'. enter_application P th k = Some (Inr (), k') \<and> k_suite k' = k_suite k \<and>
    master_secret k' = m \<and> client_handshake k' = client_handshake k \<and>
    server_handshake k' = server_handshake k \<and>
    client_application k' = Some (keys_of P (k_suite k) (label_hmac P h m ''c ap traffic'' th)) \<and>
    server_application k' = Some (keys_of P (k_suite k) (label_hmac P h m ''s ap traffic'' th)) \<and>
    exporter_master k' = Some (label_hmac P h m ''exp master'' th) \<and>
    map ks_label (k_steps k') = map ks_label (k_steps k) @ [''c ap traffic'', ''s ap traffic'', ''exp master'']"
  using assms(1)
  by (simp add: enter_application_def Let_def derive_secret_label_hmac keys_derive_keys frame
      flip: assms(2,3))

lemma derive_resumption_master_result:
  assumes "hmac_sized P" "h = su_hash (k_suite k)" "m = master_secret k"
  shows "\<exists>k'. derive_resumption_master P th k = Some (Inr (label_hmac P h m ''res master'' th), k') \<and>
    k_suite k' = k_suite k \<and> master_secret k' = m \<and>
    client_handshake k' = client_handshake k \<and> server_handshake k' = server_handshake k \<and>
    client_application k' = client_application k \<and> server_application k' = server_application k \<and>
    resumption_master k' = Some (label_hmac P h m ''res master'' th) \<and>
    map ks_label (k_steps k') = map ks_label (k_steps k) @ [''res master'']"
  using assms(1)
  by (simp add: derive_resumption_master_def Let_def derive_secret_label_hmac frame flip: assms(2,3))

section \<open>The transcript is the concatenation of the messages\<close>

definition push_all :: "primitives \<Rightarrow> (bytes \<times> string) list \<Rightarrow> transcript \<Rightarrow> transcript" where
  "push_all P ms t = fold (\<lambda>(m, l). transcript_push P m l) ms t"

lemma push_all_bytes:
  "t_bytes (push_all P ms t) = t_bytes t @ concat (map fst ms)" "t_hash (push_all P ms t) = t_hash t"
  by (induction ms arbitrary: t) (auto simp: push_all_def transcript_push_def Let_def)

lemma push_all_checkpoints:
  "t_checkpoints (push_all P ms t) = t_checkpoints t @
     map (\<lambda>i. (snd (ms ! i), p_digest P (t_hash t) (t_bytes t @ concat (map fst (take (Suc i) ms)))))
       [0..<length ms]"
proof (induction ms arbitrary: t)
  case (Cons x ms)
  obtain m l where x: "x = (m, l)" by (cases x)
  have u: "[0..<length (x # ms)] = 0 # map Suc [0..<length ms]" by (simp add: map_Suc_upt upt_conv_Cons del: upt_Suc)
  have "push_all P (x # ms) t = push_all P ms (transcript_push P m l t)" by (simp add: push_all_def x)
  then show ?case
    unfolding u by (simp add: Cons x transcript_push_def Let_def current_def comp_def)
qed (simp add: push_all_def)

end
