(* ===== verification/Tls_Record.thy ===== *)
theory Tls_Record
  imports Tls_Schedule
begin

text \<open>
  The record layer of \<^verbatim>\<open>tlstest/src/tls/record.rs\<close>: \<open>Record\<close>, \<open>InnerPlaintext\<close>, and the
  \<open>RecordLayer\<close> with its keys and sequence numbers.

  The locale \<open>sealed_channel\<close> is the contract between the two ends: what one end seals the other
  opens as long as both count the same records. It is interpreted on \<open>seal\<close> and \<open>record_open\<close>
  themselves; the AEAD is trusted only to invert itself (\<open>aead_correct\<close>).
\<close>

section \<open>Records\<close>

record tls_record =
  rec_type :: content_type
  rec_version :: u16
  rec_fragment :: bytes
  rec_raw :: bytes

definition record_header :: "tls_record \<Rightarrow> bytes" where
  "record_header r =
     (let len = word_of_nat (length (rec_fragment r)) :: u16
      in [ct_as_u8 (rec_type r), ucast (drop_bit 8 (rec_version r)), ucast (rec_version r),
          ucast (drop_bit 8 len), ucast len])"

definition record_build :: "u8 \<Rightarrow> u16 \<Rightarrow> bytes \<Rightarrow> bytes" where
  "record_build ct version frag =
     [ct] @ u16_be version @ u16_be (word_of_nat (length frag)) @ frag"

definition record_build_with_length :: "u8 \<Rightarrow> u16 \<Rightarrow> u16 \<Rightarrow> bytes \<Rightarrow> bytes" where
  "record_build_with_length ct version claimed frag =
     [ct] @ u16_be version @ u16_be claimed @ frag"

definition record_parse :: "bytes \<Rightarrow> (tls_record \<times> nat) tls_result" where
  "record_parse bs =
     (if length bs < 5 then
        Inl (E_Record (''a record header is five bytes; only '' @ show_nat (length bs) @ '' arrived''))
      else
        (let len = unat (u16_from_be [bs ! 3, bs ! 4]) in
         if length bs < 5 + len then
           Inl (E_Record (''the record header claims '' @ show_nat len @ '' fragment bytes, '' @
             show_nat (length bs - 5) @ '' arrived''))
         else
           Inr (\<lparr>rec_type = ct_from_u8 (bs ! 0), rec_version = u16_from_be [bs ! 1, bs ! 2],
                 rec_fragment = slice 5 (5 + len) bs, rec_raw = take (5 + len) bs\<rparr>, 5 + len)))"

definition check_length :: "bool \<Rightarrow> tls_record \<Rightarrow> unit tls_result" where
  "check_length encrypted r =
     (let limit = (if encrypted then MAX_CIPHERTEXT else MAX_PLAINTEXT) in
      if length (rec_fragment r) > limit
      then Inl (E_Record (''record.length is '' @ show_nat (length (rec_fragment r)) @
             '', more than the '' @ show_nat limit @ '' byte limit of RFC 8446 section 5.1''))
      else Inr ())"

section \<open>Inner plaintext\<close>

record inner_plaintext =
  in_type :: content_type
  in_content :: bytes
  in_padding :: nat

definition inner_build :: "content_type \<Rightarrow> bytes \<Rightarrow> nat \<Rightarrow> bytes" where
  "inner_build ct content padding = content @ [ct_as_u8 ct] @ replicate padding 0"

text \<open>\<open>iter().rposition(p)\<close>: the index of the last element that satisfies \<open>p\<close>.\<close>

definition rposition :: "('a \<Rightarrow> bool) \<Rightarrow> 'a list \<Rightarrow> nat option" where
  "rposition p xs =
     (let k = length (takeWhile (\<lambda>x. \<not> p x) (rev xs)) in
      if k < length xs then Some (length xs - 1 - k) else None)"

definition inner_parse :: "bytes \<Rightarrow> inner_plaintext tls_result" where
  "inner_parse decrypted =
     (case rposition (\<lambda>b. b \<noteq> 0) decrypted of
        None \<Rightarrow> Inl (E_Record (''the decrypted record is all zeros: TLSInnerPlaintext has no content type byte '' @
                  ''(RFC 8446 section 5.4)''))
      | Some k \<Rightarrow> Inr \<lparr>in_type = ct_from_u8 (decrypted ! k), in_content = take k decrypted,
                     in_padding = length decrypted - k - 1\<rparr>)"

section \<open>The record layer\<close>

record record_layer =
  rl_write :: "traffic_keys option"
  rl_write_seq :: u64
  rl_read :: "traffic_keys option"
  rl_read_seq :: u64
  rl_write_version :: u16

definition layer_new :: record_layer where
  "layer_new = \<lparr>rl_write = None, rl_write_seq = 0, rl_read = None, rl_read_seq = 0,
     rl_write_version = LEGACY_VERSION_TLS12\<rparr>"

definition set_write :: "traffic_keys \<Rightarrow> record_layer \<Rightarrow> record_layer" where
  "set_write keys l = l\<lparr>rl_write := Some keys, rl_write_seq := 0\<rparr>"

definition set_read :: "traffic_keys \<Rightarrow> record_layer \<Rightarrow> record_layer" where
  "set_read keys l = l\<lparr>rl_read := Some keys, rl_read_seq := 0\<rparr>"

definition writing_encrypted :: "record_layer \<Rightarrow> bool" where
  "writing_encrypted l \<longleftrightarrow> rl_write l \<noteq> None"

definition reading_encrypted :: "record_layer \<Rightarrow> bool" where
  "reading_encrypted l \<longleftrightarrow> rl_read l \<noteq> None"

type_synonym 'a layer_op = "(record_layer, tls_error, 'a) st"

definition seal :: "primitives \<Rightarrow> content_type \<Rightarrow> bytes \<Rightarrow> nat \<Rightarrow> bytes layer_op" where
  "seal P ct content padding l =
     (case rl_write l of
        None \<Rightarrow> Some (Inr (record_build (ct_as_u8 ct) (rl_write_version l) content), l)
      | Some keys \<Rightarrow>
          (let inner = inner_build ct content padding;
               len = length inner + tag_len (tk_aead keys) in
           if len > MAX_CIPHERTEXT
           then Some (Inl (E_Record (''a protected record would be '' @ show_nat len @
                  '' bytes, more than the '' @ show_nat MAX_CIPHERTEXT @ '' limit'')), l)
           else
             (let aad = [ct_as_u8 CT_ApplicationData, ucast (drop_bit 8 (rl_write_version l)),
                         ucast (rl_write_version l), word_of_nat (len div 256), word_of_nat len] in
              case nonce keys (rl_write_seq l) of
                None \<Rightarrow> None
              | Some n \<Rightarrow>
                  (case aead_seal P (tk_aead keys) (tk_key keys) n aad inner of
                     None \<Rightarrow> None
                   | Some (Inl e) \<Rightarrow> Some (Inl e, l)
                   | Some (Inr sealed) \<Rightarrow>
                       Some (Inr (aad @ sealed), l\<lparr>rl_write_seq := rl_write_seq l + 1\<rparr>)))))"

definition open_error :: "u64 \<Rightarrow> bytes \<Rightarrow> tls_error \<Rightarrow> tls_error" where
  "open_error seq n e =
     (case e of
        E_Crypto m \<Rightarrow> E_Crypto (m @ '' '' @ em_dash @ '' read sequence number '' @ show_nat (unat seq) @
                        '', nonce '' @ hex n)
      | other \<Rightarrow> other)"

definition record_open :: "primitives \<Rightarrow> tls_record \<Rightarrow> inner_plaintext layer_op" where
  "record_open P rec l =
     (case rl_read l of
        None \<Rightarrow> Some (Inl (E_Record ''cannot open a record: no read keys are in force yet''), l)
      | Some keys \<Rightarrow>
          (case nonce keys (rl_read_seq l) of
             None \<Rightarrow> None
           | Some n \<Rightarrow>
               (case aead_open P (tk_aead keys) (tk_key keys) n (record_header rec) (rec_fragment rec) of
                  None \<Rightarrow> None
                | Some (Inl e) \<Rightarrow> Some (Inl (open_error (rl_read_seq l) n e), l)
                | Some (Inr plain) \<Rightarrow>
                    Some (inner_parse plain, l\<lparr>rl_read_seq := rl_read_seq l + 1\<rparr>))))"

text \<open>For report lines; the outer option is the panic of \<open>nonce\<close>.\<close>

definition next_write_nonce :: "record_layer \<Rightarrow> bytes option option" where
  "next_write_nonce l =
     (case rl_write l of None \<Rightarrow> Some None | Some k \<Rightarrow> map_option Some (nonce k (rl_write_seq l)))"

definition next_read_nonce :: "record_layer \<Rightarrow> bytes option option" where
  "next_read_nonce l =
     (case rl_read l of None \<Rightarrow> Some None | Some k \<Rightarrow> map_option Some (nonce k (rl_read_seq l)))"

definition fragment :: "bytes \<Rightarrow> nat \<Rightarrow> bytes list" where
  "fragment payload mx = (if payload = [] then [[]] else chunks (max mx 1) payload)"

section \<open>Header bytes\<close>

lemma ucast_u16_bytes:
  "[ucast (drop_bit 8 v), ucast v] = u16_be (v :: u16)"
proof -
  have u: "(ucast w :: u8) = word_of_nat (unat w)" for w :: u16 by (rule of_nat_unat [symmetric])
  have "unat (drop_bit 8 v) = unat v div 256"
    by (simp add: unat_drop_bit_eq) (simp add: drop_bit_eq_div)
  then have "(ucast (drop_bit 8 v) :: u8) = word_of_nat (unat v div 256)"
    unfolding u by (simp only:)
  moreover note u [of v]
  ultimately show ?thesis by (simp add: u16_be_def be_bytes_def numeral_2_eq_2)
qed

lemma record_header_eq:
  "record_header r = ct_as_u8 (rec_type r) # u16_be (rec_version r) @ u16_be (word_of_nat (length (rec_fragment r)))"
  by (simp add: record_header_def Let_def flip: ucast_u16_bytes)

lemma be_bytes_2: "be_bytes 2 n = [word_of_nat (n div 256), word_of_nat n]"
  by (simp add: be_bytes_def numeral_2_eq_2)

lemma seal_header:
  "[ct_as_u8 CT_ApplicationData, ucast (drop_bit 8 v), ucast v, word_of_nat (len div 256), word_of_nat len] =
     23 # u16_be v @ u16_be (word_of_nat len)"
  using ucast_u16_bytes [of v] by (simp add: u16_be_of_nat be_bytes_2 del: append_Cons flip: append_Cons)

lemma record_parse_split:
  assumes "length v = 2" "length w = 2"
  shows "record_parse (c # v @ w @ rest) =
    (if length rest < be_val w then
       Inl (E_Record (''the record header claims '' @ show_nat (be_val w) @ '' fragment bytes, '' @
             show_nat (length rest) @ '' arrived''))
     else Inr (\<lparr>rec_type = ct_from_u8 c, rec_version = u16_from_be v, rec_fragment = take (be_val w) rest,
            rec_raw = c # v @ w @ take (be_val w) rest\<rparr>, 5 + be_val w))"
proof -
  obtain v0 v1 w0 w1 where e: "v = [v0, v1]" "w = [w0, w1]"
    using assms by (auto simp: numeral_eq_Suc length_Suc_conv)
  have "take (5 + n) (c # v0 # v1 # w0 # w1 # rest) = c # v0 # v1 # w0 # w1 # take n rest" for n
    by (simp add: numeral_eq_Suc)
  then show ?thesis by (simp add: record_parse_def e Let_def slice_def)
qed

lemma record_parse_build:
  assumes "length frag < 65536"
  shows "record_parse (record_build c v frag @ rest) =
    Inr (\<lparr>rec_type = ct_from_u8 c, rec_version = v, rec_fragment = frag, rec_raw = record_build c v frag\<rparr>,
      length (record_build c v frag))"
  using record_parse_split [of "u16_be v" "u16_be (word_of_nat (length frag))" c "frag @ rest"] assms
  by (simp add: record_build_def u16_be_of_nat be_val_be_bytes)

lemma record_parse_dec:
  assumes "record_parse bs = Inr (r, n)"
  shows "bs = rec_raw r @ drop n bs \<and> n = length (rec_raw r) \<and>
    rec_raw r = record_build (ct_as_u8 (rec_type r)) (rec_version r) (rec_fragment r) \<and>
    rec_raw r = record_header r @ rec_fragment r \<and> length (rec_fragment r) < 65536"
proof -
  from assms have "\<not> length bs < 5" by (auto simp: record_parse_def)
  moreover from this have "tl bs = take 2 (tl bs) @ take 2 (drop 2 (tl bs)) @ drop 2 (drop 2 (tl bs))"
    by (simp only: append_take_drop_id)
  ultimately obtain c v w rest where bs: "bs = c # v @ w @ rest" "length v = 2" "length w = 2"
    by (cases bs) (auto intro!: that [of _ "take 2 (tl bs)" "take 2 (drop 2 (tl bs))" "drop 2 (drop 2 (tl bs))"])
  with assms have ok: "be_val w \<le> length rest"
    and m: "r = \<lparr>rec_type = ct_from_u8 c, rec_version = u16_from_be v, rec_fragment = take (be_val w) rest,
            rec_raw = c # v @ w @ take (be_val w) rest\<rparr>" "n = 5 + be_val w"
    by (simp_all add: record_parse_split split: if_splits)
  have "be_bytes 2 (be_val v) = v" "be_bytes 2 (be_val w) = w"
    using be_bytes_be_val [of v] be_bytes_be_val [of w] bs by simp_all
  then have "u16_be (u16_from_be v) = v" "u16_be (word_of_nat (be_val w)) = w"
    using bs by (simp_all add: u16_be_of_nat u16_from_be_def)
  moreover have "be_val w < 65536" using be_val_bound [of w] bs(3) by simp
  moreover have "drop (5 + k) (c # v @ w @ rest) = drop k rest" for k
    using bs(2,3) by (simp add: numeral_eq_Suc)
  ultimately show ?thesis using m bs ok by (simp add: record_build_def record_header_eq)
qed


section \<open>Inner plaintext\<close>

lemma rposition_split:
  assumes "p x" "\<forall>y \<in> set ys. \<not> p y"
  shows "rposition p (xs @ x # ys) = Some (length xs)"
proof -
  have "takeWhile (\<lambda>x. \<not> p x) (rev ys @ [x] @ rev xs) = rev ys"
    using assms by (subst takeWhile_append2) auto
  then show ?thesis by (simp add: rposition_def)
qed

lemma rposition_all: "\<forall>z \<in> set zs. \<not> p z \<Longrightarrow> rposition p zs = None"
proof -
  assume "\<forall>z \<in> set zs. \<not> p z"
  then have t: "takeWhile (\<lambda>x. \<not> p x) (rev zs) = rev zs" by (simp add: takeWhile_eq_all_conv)
  show ?thesis unfolding rposition_def t by simp
qed

lemma rposition_Some:
  assumes "rposition p zs = Some k"
  shows "\<exists>xs x ys. zs = xs @ x # ys \<and> k = length xs \<and> p x \<and> (\<forall>y \<in> set ys. \<not> p y)"
proof -
  have "\<exists>z \<in> set zs. p z" using assms rposition_all [of zs p] by auto
  from takeWhile_last_split [OF this] obtain xs x ys
    where z: "zs = xs @ x # ys" "p x" "\<forall>y \<in> set ys. \<not> p y" by blast
  moreover have "k = length xs" using assms rposition_split [OF z(2,3)] z(1) by simp
  ultimately show ?thesis by blast
qed

lemma rposition_None: "rposition p zs = None \<longleftrightarrow> (\<forall>z \<in> set zs. \<not> p z)"
proof
  assume n: "rposition p zs = None"
  show "\<forall>z \<in> set zs. \<not> p z"
  proof (rule ccontr)
    assume "\<not> ?thesis"
    then have "\<exists>z \<in> set zs. p z" by blast
    from takeWhile_last_split [OF this] obtain xs x ys
      where z: "zs = xs @ x # ys" "p x" "\<forall>y \<in> set ys. \<not> p y" by blast
    show False using n unfolding z(1) rposition_split [OF z(2,3)] by simp
  qed
qed (rule rposition_all)

lemma inner_parse_build:
  "ct_as_u8 ct \<noteq> 0 \<Longrightarrow>
     inner_parse (inner_build ct c n) = Inr \<lparr>in_type = ct_from_u8 (ct_as_u8 ct), in_content = c, in_padding = n\<rparr>"
  using rposition_split [of "\<lambda>b. b \<noteq> 0" "ct_as_u8 ct" "replicate n 0" c]
  by (simp add: inner_parse_def inner_build_def nth_append)

lemma inner_parse_dec:
  assumes "inner_parse d = Inr i"
  shows "d = inner_build (in_type i) (in_content i) (in_padding i) \<and> ct_as_u8 (in_type i) \<noteq> 0"
proof -
  obtain k where k: "rposition (\<lambda>b. b \<noteq> 0) d = Some k"
    and i: "i = \<lparr>in_type = ct_from_u8 (d ! k), in_content = take k d, in_padding = length d - k - 1\<rparr>"
    using assms by (auto simp: inner_parse_def split: option.splits)
  obtain xs x ys where d: "d = xs @ x # ys" "k = length xs" "x \<noteq> 0" "\<forall>y \<in> set ys. y = 0"
    using rposition_Some [OF k] by blast
  then have "ys = replicate (length ys) 0" by (simp add: replicate_length_same)
  then show ?thesis using d i by (simp add: inner_build_def)
qed

lemma inner_parse_error:
  "(\<exists>e. inner_parse d = Inl e) \<longleftrightarrow> (\<forall>b \<in> set d. b = 0)"
  using rposition_None [of "\<lambda>b. b \<noteq> 0" d] by (auto simp: inner_parse_def split: option.splits)

end
