(* ===== verification/Tls_Channel.thy ===== *)
theory Tls_Channel
  imports Tls_Record
begin

text \<open>
  Sealing at one end and opening at the other: the locale \<open>sealed_channel\<close>, its interpretation on
  the record layer, and the properties of the record layer and the key schedule.
\<close>

section \<open>The channel contract\<close>

locale sealed_channel =
  fixes send :: "'m \<Rightarrow> ('s, 'e, 'w) st"
    and recv :: "'w \<Rightarrow> ('r, 'e, 'n) st"
    and view :: "'m \<Rightarrow> 'n"
    and sync :: "'s \<Rightarrow> 'r \<Rightarrow> bool"
    and ok :: "'m \<Rightarrow> bool"
  assumes transmit: "sync s r \<Longrightarrow> ok m \<Longrightarrow>
    \<exists>w s' r'. send m s = Some (Inr w, s') \<and> recv w r = Some (Inr (view m), r') \<and> sync s' r'"
begin

lemma stream:
  "sync s r \<Longrightarrow> \<forall>m \<in> set ms. ok m \<Longrightarrow>
     \<exists>ws s' r'. st_each send ms s = Some (Inr ws, s') \<and>
       st_each recv ws r = Some (Inr (map view ms), r') \<and> sync s' r' \<and> length ws = length ms"
proof (induction ms arbitrary: s r)
  case (Cons m ms)
  obtain w s1 r1 where 1: "send m s = Some (Inr w, s1)" "recv w r = Some (Inr (view m), r1)" "sync s1 r1"
    using transmit [OF Cons.prems(1), of m] Cons.prems(2) by auto
  obtain ws s2 r2 where 2: "st_each send ms s1 = Some (Inr ws, s2)"
      "st_each recv ws r1 = Some (Inr (map view ms), r2)" "sync s2 r2" "length ws = length ms"
    using Cons.IH [OF 1(3)] Cons.prems(2) by auto
  have "st_each send (m # ms) s = Some (Inr (w # ws), s2)"
    by (rule st_each_Cons_ok [OF 1(1) 2(1)])
  moreover have "st_each recv (w # ws) r = Some (Inr (map view (m # ms)), r2)"
    using st_each_Cons_ok [of recv, OF 1(2) 2(2)] by simp
  ultimately show ?case using 2(3,4) by (metis length_Cons)
qed simp

end

section \<open>The record layer keeps the contract\<close>

definition aead_correct :: "primitives \<Rightarrow> bool" where
  "aead_correct P \<longleftrightarrow>
     (\<forall>a key n aad m. length key = key_len a \<longrightarrow> length n = 12 \<longrightarrow> length m < 2 ^ 16 \<longrightarrow>
        (\<exists>c. p_encrypt P a key n aad m = Some c \<and> length c = length m + 16 \<and>
             p_decrypt P a key n aad c = Some m))"

lemma aead_correctD:
  "aead_correct P \<Longrightarrow> length key = key_len a \<Longrightarrow> length n = 12 \<Longrightarrow> length m < 2 ^ 16 \<Longrightarrow>
     \<exists>c. p_encrypt P a key n aad m = Some c \<and> length c = length m + 16 \<and> p_decrypt P a key n aad c = Some m"
  by (simp add: aead_correct_def)

text \<open>A message to seal is a content type, a content and a padding length.\<close>

type_synonym outgoing = "content_type \<times> bytes \<times> nat"

definition seal_one :: "primitives \<Rightarrow> outgoing \<Rightarrow> bytes layer_op" where
  "seal_one P = (\<lambda>(ct, c, padding). seal P ct c padding)"

definition open_bytes :: "primitives \<Rightarrow> bytes \<Rightarrow> inner_plaintext layer_op" where
  "open_bytes P w = st_bind (st_lift (record_parse w)) (\<lambda>(r, used). record_open P r)"

definition outgoing_view :: "outgoing \<Rightarrow> inner_plaintext" where
  "outgoing_view = (\<lambda>(ct, c, padding). \<lparr>in_type = ct, in_content = c, in_padding = padding\<rparr>)"

definition type_ok :: "content_type \<Rightarrow> bool" where
  "type_ok ct \<longleftrightarrow> ct_as_u8 ct \<noteq> 0 \<and> ct_from_u8 (ct_as_u8 ct) = ct"

definition outgoing_ok :: "outgoing \<Rightarrow> bool" where
  "outgoing_ok = (\<lambda>(ct, c, padding). type_ok ct \<and> length c + 1 + padding + 16 \<le> MAX_CIPHERTEXT)"

definition in_sync :: "traffic_keys \<Rightarrow> u16 \<Rightarrow> record_layer \<Rightarrow> record_layer \<Rightarrow> bool" where
  "in_sync k v l r \<longleftrightarrow>
     keys_sized k \<and> rl_write l = Some k \<and> rl_read r = Some k \<and> rl_write_seq l = rl_read_seq r \<and>
     rl_write_version l = v"

lemma max_ciphertext [simp]: "MAX_CIPHERTEXT = 16640"
  by (simp add: MAX_CIPHERTEXT_def MAX_PLAINTEXT_def)

lemma length_inner_build [simp]: "length (inner_build ct c n) = length c + 1 + n"
  by (simp add: inner_build_def)

lemma seal_protected:
  assumes P: "aead_correct P" and k: "keys_sized k" "rl_write l = Some k"
    and len: "length c + 1 + padding + 16 \<le> MAX_CIPHERTEXT"
  shows "\<exists>n body. nonce k (rl_write_seq l) = Some n \<and> length n = 12 \<and>
    length body = length c + 1 + padding + 16 \<and>
    seal P ct c padding l =
      Some (Inr (record_build 23 (rl_write_version l) body), l\<lparr>rl_write_seq := rl_write_seq l + 1\<rparr>) \<and>
    p_decrypt P (tk_aead k) (tk_key k) n
      (23 # u16_be (rl_write_version l) @ u16_be (word_of_nat (length body))) body =
      Some (inner_build ct c padding)"
proof -
  obtain n where n: "nonce k (rl_write_seq l) = Some n" "length n = 12"
    using nonce_length [of k "rl_write_seq l"] k(1) by (auto simp: keys_sized_def)
  let ?len = "length c + 1 + padding + 16"
  let ?aad = "23 # u16_be (rl_write_version l) @ u16_be (word_of_nat ?len)"
  have "length (inner_build ct c padding) < 2 ^ 16" using len by simp
  then obtain body where body: "p_encrypt P (tk_aead k) (tk_key k) n ?aad (inner_build ct c padding) = Some body"
      "length body = ?len" "p_decrypt P (tk_aead k) (tk_key k) n ?aad body = Some (inner_build ct c padding)"
    using aead_correctD [OF P _ n(2), of "tk_key k" "tk_aead k" "inner_build ct c padding" ?aad] k(1)
    by (auto simp: keys_sized_def)
  have "seal P ct c padding l =
      Some (Inr (?aad @ body), l\<lparr>rl_write_seq := rl_write_seq l + 1\<rparr>)"
    unfolding seal_def Let_def seal_header using k len n body
    by (simp add: keys_sized_def tag_len_def aead_seal_def)
  moreover have "?aad @ body = record_build 23 (rl_write_version l) body"
    using body(2) by (simp add: record_build_def)
  ultimately show ?thesis using n body by auto
qed

lemma in_sync_step:
  assumes P: "aead_correct P" and s: "in_sync k v l r" and ok: "outgoing_ok m"
  shows "\<exists>w l' r'. seal_one P m l = Some (Inr w, l') \<and>
    open_bytes P w r = Some (Inr (outgoing_view m), r') \<and> in_sync k v l' r'"
proof -
  obtain ct c padding where m: "m = (ct, c, padding)" by (cases m)
  from s have k: "keys_sized k" "rl_write l = Some k" "rl_read r = Some k"
    and q: "rl_write_seq l = rl_read_seq r" "rl_write_version l = v" by (auto simp: in_sync_def)
  obtain n body where b: "nonce k (rl_write_seq l) = Some n" "length n = 12"
      "length body = length c + 1 + padding + 16"
      "seal P ct c padding l = Some (Inr (record_build 23 v body), l\<lparr>rl_write_seq := rl_write_seq l + 1\<rparr>)"
      "p_decrypt P (tk_aead k) (tk_key k) n (23 # u16_be v @ u16_be (word_of_nat (length body))) body =
         Some (inner_build ct c padding)"
    using seal_protected [OF P k(1,2), of c padding ct] ok m q(2) by (auto simp: outgoing_ok_def)
  let ?r = "r\<lparr>rl_read_seq := rl_read_seq r + 1\<rparr>"
  have "length body < 65536" using b(3) ok m by (simp add: outgoing_ok_def)
  then have "record_parse (record_build 23 v body) =
      Inr (\<lparr>rec_type = ct_from_u8 23, rec_version = v, rec_fragment = body,
        rec_raw = record_build 23 v body\<rparr>, length (record_build 23 v body))"
    using record_parse_build [of body 23 v "[]"] by simp
  moreover have "inner_parse (inner_build ct c padding) = Inr (outgoing_view m)"
    using ok m by (simp add: inner_parse_build outgoing_ok_def type_ok_def outgoing_view_def)
  moreover have "ct_as_u8 (ct_from_u8 23) = 23" by simp
  ultimately have "open_bytes P (record_build 23 v body) r = Some (Inr (outgoing_view m), ?r)"
    using b k q by (simp add: open_bytes_def record_open_def aead_open_def record_header_eq keys_sized_def)
  moreover have "in_sync k v (l\<lparr>rl_write_seq := rl_write_seq l + 1\<rparr>) ?r"
    using s by (simp add: in_sync_def)
  ultimately show ?thesis using b(4) by (auto simp: seal_one_def m)
qed

interpretation layer: sealed_channel "seal_one P" "open_bytes P" outgoing_view
    "\<lambda>l r. aead_correct P \<and> in_sync k v l r" outgoing_ok
  using in_sync_step by unfold_locales blast

text \<open>Counting: every successful seal under keys advances the sequence number by one.\<close>

lemma seal_counts:
  assumes "seal P ct c padding l = Some (Inr w, l')"
  shows "l' = (if rl_write l = None then l else l\<lparr>rl_write_seq := rl_write_seq l + 1\<rparr>)"
  using assms unfolding seal_def Let_def by (auto split: option.splits sum.splits if_splits)

lemma seal_each_counts:
  "st_each (seal_one P) ms l = Some (Inr ws, l') \<Longrightarrow> rl_write l \<noteq> None \<Longrightarrow>
     l' = l\<lparr>rl_write_seq := rl_write_seq l + of_nat (length ms)\<rparr>"
proof (induction ms arbitrary: l ws)
  case (Cons m ms)
  obtain w l1 ws' where 1: "seal_one P m l = Some (Inr w, l1)" "st_each (seal_one P) ms l1 = Some (Inr ws', l')"
    using Cons.prems(1) by (rule st_each_ConsE)
  have "l1 = l\<lparr>rl_write_seq := rl_write_seq l + 1\<rparr>"
    using 1(1) Cons.prems(2) seal_counts [of P _ _ _ l w l1] by (cases m) (auto simp: seal_one_def)
  then show ?case using Cons.IH [OF 1(2)] Cons.prems(2) by (simp add: add.assoc)
qed simp

lemma of_nat_u64_0: "n < 2 ^ 64 \<Longrightarrow> (of_nat n :: u64) = 0 \<longleftrightarrow> n = 0"
  using nat_dvd_not_less [of n "2 ^ 64"] by (cases "n = 0") (simp_all add: word_of_nat_eq_0_iff)

end
