(* ===== verification/Socket.thy ===== *)
theory Socket
  imports Bytes
begin

text \<open>
  The network as both clients see it: the list of what the next reads will return, each after a
  delay in milliseconds. \<open>Read []\<close> is the end of the stream; when the list is empty the peer stays
  silent. Only waiting on the socket advances the clock.
\<close>

datatype socket_read = Read bytes | Reset | Io string

type_synonym net = "(nat \<times> socket_read) list"

fun read_bytes :: "socket_read \<Rightarrow> bytes" where
  "read_bytes (Read bs) = bs"
| "read_bytes _ = []"

text \<open>A read into a buffer of \<open>n\<close> bytes leaves the rest in the socket.\<close>

definition unread_rest :: "nat \<Rightarrow> bytes \<Rightarrow> net \<Rightarrow> net" where
  "unread_rest n bs net = (if length bs \<le> n then net else (0, Read (drop n bs)) # net)"

definition net_size :: "net \<Rightarrow> nat" where
  "net_size net = sum_list (map (\<lambda>(_, ev). Suc (length (read_bytes ev))) net)"

definition net_bytes :: "net \<Rightarrow> bytes" where
  "net_bytes net = concat (map (read_bytes \<circ> snd) net)"

definition net_delay :: "net \<Rightarrow> nat" where
  "net_delay net = sum_list (map fst net)"

text \<open>A peer that only sends data: no end of stream and no error yet.\<close>

definition net_open :: "net \<Rightarrow> bool" where
  "net_open net \<longleftrightarrow> (\<forall>(d, ev) \<in> set net. read_bytes ev \<noteq> [])"

lemma net_simps [simp]:
  "net_size [] = 0" "net_size ((d, ev) # net) = Suc (length (read_bytes ev)) + net_size net"
  "net_bytes [] = []" "net_bytes ((d, ev) # net) = read_bytes ev @ net_bytes net"
  "net_delay [] = 0" "net_delay ((d, ev) # net) = d + net_delay net"
  "net_open []" "net_open ((d, ev) # net) \<longleftrightarrow> read_bytes ev \<noteq> [] \<and> net_open net"
  by (simp_all add: net_size_def net_bytes_def net_delay_def net_open_def)

lemma unread_rest_simps [simp]:
  "net_bytes (unread_rest n bs net) = drop n bs @ net_bytes net"
  "net_delay (unread_rest n bs net) = net_delay net"
  "net_open (unread_rest n bs net) \<longleftrightarrow> net_open net"
  by (simp_all add: unread_rest_def)

lemma net_size_unread_rest [simp]:
  "net_size (unread_rest n bs net) < Suc (length bs + net_size net) \<longleftrightarrow> n \<noteq> 0 \<or> bs = []"
  by (cases "n = 0") (auto simp: unread_rest_def)

text \<open>A peer that sends the given chunks, each after its delay.\<close>

lemma net_zip [simp]:
  assumes "length ds = length bss"
  shows "net_bytes (zip ds (map Read bss)) = concat bss" "net_delay (zip ds (map Read bss)) = sum_list ds"
    "net_open (zip ds (map Read bss)) \<longleftrightarrow> (\<forall>bs \<in> set bss. bs \<noteq> [])"
  using assms by (induction ds bss rule: list_induct2) simp_all

end
