(* ===== verification/Tls_Conn.thy ===== *)
theory Tls_Conn
  imports Tls_Channel Socket
begin

text \<open>
  The connection of \<^verbatim>\<open>tlstest/src/tls/conn.rs\<close>: TCP bytes to records, records to handshake
  messages, with the buffers in between and the trace.

  The socket is the list \<open>c_net\<close> of what the next reads will return, each after a delay in
  milliseconds (\<open>Read []\<close> is the end of the stream); when the list is empty the peer stays silent.
  \<open>c_now\<close> is the clock, which only waiting on the socket advances. \<open>c_write_fails\<close> is the error
  the next write meets, if any. A \<open>?\<close> on a socket error wraps it as \<open>TlsError::Io\<close>.
\<close>

section \<open>Trace and incoming messages\<close>

datatype direction = Sent | Received

fun direction_arrow :: "direction \<Rightarrow> string" where
  "direction_arrow Sent = ''-->''"
| "direction_arrow Received = ''<--''"

record trace_entry =
  tr_direction :: direction
  tr_what :: string
  tr_bytes :: bytes
  tr_encrypted :: bool

definition trace_line :: "trace_entry \<Rightarrow> string" where
  "trace_line t =
     direction_arrow (tr_direction t) @ '' '' @ pad_right 34 (tr_what t) @ '' '' @
     pad_left 5 (show_nat (length (tr_bytes t))) @ '' bytes  '' @
     (if tr_encrypted t then ''[encrypted] '' else []) @ hex_prefix (tr_bytes t) 12"

datatype incoming =
    In_Handshake handshake_message
  | In_Alert alert
  | In_AppData bytes
  | In_ChangeCipherSpec tls_record
  | In_Unexpected tls_record

fun incoming_describe :: "incoming \<Rightarrow> string" where
  "incoming_describe (In_Handshake m) = ''handshake '' @ handshake_message_name m"
| "incoming_describe (In_Alert a) = ''alert '' @ alert_describe a"
| "incoming_describe (In_AppData d) = ''application_data, '' @ show_nat (length d) @ '' bytes''"
| "incoming_describe (In_ChangeCipherSpec _) = ''change_cipher_spec''"
| "incoming_describe (In_Unexpected r) = ''a '' @ ct_name (rec_type r) @ '' record''"

section \<open>The connection\<close>

record conn =
  c_timeout :: nat
  c_layer :: record_layer
  c_inbuf :: bytes
  c_hs_buf :: bytes
  c_app_buf :: "bytes list"
  c_trace :: "trace_entry list"
  c_records_in :: "tls_record list"
  c_last_alert :: "alert option"
  c_server_closed :: bool
  c_now :: nat
  c_net :: "(nat \<times> socket_read) list"
  c_written :: bytes
  c_write_fails :: "string option"

type_synonym 'a conn_op = "(conn, tls_error, 'a) st"

text \<open>The connection state once the TCP connection is established.\<close>

definition conn_connect :: "nat \<Rightarrow> (nat \<times> socket_read) list \<Rightarrow> conn" where
  "conn_connect timeout net =
     \<lparr>c_timeout = timeout, c_layer = layer_new, c_inbuf = [], c_hs_buf = [], c_app_buf = [],
      c_trace = [], c_records_in = [], c_last_alert = None, c_server_closed = False,
      c_now = 0, c_net = net, c_written = [], c_write_fails = None\<rparr>"

definition add_trace :: "direction \<Rightarrow> string \<Rightarrow> bytes \<Rightarrow> bool \<Rightarrow> conn \<Rightarrow> conn" where
  "add_trace d what bs enc c =
     c\<lparr>c_trace := c_trace c @
        [\<lparr>tr_direction = d, tr_what = what, tr_bytes = bs, tr_encrypted = enc\<rparr>]\<rparr>"

definition conn_note :: "string \<Rightarrow> conn \<Rightarrow> conn" where
  "conn_note what c =
     c\<lparr>c_trace := c_trace c @
        [\<lparr>tr_direction = Sent, tr_what = what, tr_bytes = [], tr_encrypted = False\<rparr>]\<rparr>"

subsection \<open>Writing\<close>

text \<open>\<open>write_all\<close> and \<open>flush\<close> on the stream.\<close>

definition socket_write :: "bytes \<Rightarrow> unit conn_op" where
  "socket_write bs c =
     (case c_write_fails c of
        Some e \<Rightarrow> Some (Inl (E_Io e), c)
      | None \<Rightarrow> Some (Inr (), c\<lparr>c_written := c_written c @ bs\<rparr>))"

text \<open>Running a record layer operation on the connection's layer.\<close>

definition on_layer :: "'a layer_op \<Rightarrow> 'a conn_op" where
  "on_layer f c =
     (case f (c_layer c) of None \<Rightarrow> None | Some (r, l) \<Rightarrow> Some (r, c\<lparr>c_layer := l\<rparr>))"

definition write_raw :: "bytes \<Rightarrow> unit conn_op" where
  "write_raw bs =
     st_bind (socket_write bs) (\<lambda>_. st_modify (add_trace Sent ''raw bytes'' bs False))"

definition write_record_padded :: "primitives \<Rightarrow> content_type \<Rightarrow> bytes \<Rightarrow> nat \<Rightarrow> unit conn_op" where
  "write_record_padded P ct content padding =
     st_bind (st_get (\<lambda>c. writing_encrypted (c_layer c))) (\<lambda>encrypted.
     st_bind (on_layer (seal P ct content padding)) (\<lambda>bs.
     st_bind (socket_write bs) (\<lambda>_.
     st_modify (add_trace Sent (''record '' @ ct_name ct) bs encrypted))))"

definition write_record :: "primitives \<Rightarrow> content_type \<Rightarrow> bytes \<Rightarrow> unit conn_op" where
  "write_record P ct content = write_record_padded P ct content 0"

definition write_handshake :: "primitives \<Rightarrow> bytes \<Rightarrow> unit conn_op" where
  "write_handshake P message =
     (let name = (case handshake_parse message of
                    Inr (m, _) \<Rightarrow> handshake_message_name m
                  | Inl _ \<Rightarrow> ''handshake (unparsable)'') in
      st_bind (st_get (\<lambda>c. writing_encrypted (c_layer c))) (\<lambda>encrypted.
      st_bind (on_layer (seal P CT_Handshake message 0)) (\<lambda>bs.
      st_bind (socket_write bs) (\<lambda>_.
      st_modify (add_trace Sent name message encrypted)))))"

definition write_app_data :: "primitives \<Rightarrow> bytes \<Rightarrow> unit conn_op" where
  "write_app_data P d = write_record P CT_ApplicationData d"

definition write_change_cipher_spec :: "unit conn_op" where
  "write_change_cipher_spec =
     (let bs = record_build (ct_as_u8 CT_ChangeCipherSpec) LEGACY_VERSION_TLS12 [1] in
      st_bind (socket_write bs) (\<lambda>_.
      st_modify (add_trace Sent ''record change_cipher_spec(20)'' bs False)))"

definition write_alert :: "primitives \<Rightarrow> alert \<Rightarrow> unit conn_op" where
  "write_alert P a = write_record P CT_Alert (alert_encode a)"

subsection \<open>Reading\<close>

text \<open>\<open>tokio::time::timeout(timeout, stream.read(..))\<close>: the read wins when it is ready in time.\<close>

definition fill :: "nat \<Rightarrow> string \<Rightarrow> bool conn_op" where
  "fill timeout what c =
     (case c_net c of
        [] \<Rightarrow> Some (Inl (E_Timeout what), c\<lparr>c_now := c_now c + timeout\<rparr>)
      | (delay, ev) # net \<Rightarrow>
          (if timeout < delay
           then Some (Inl (E_Timeout what),
                  c\<lparr>c_now := c_now c + timeout, c_net := (delay - timeout, ev) # net\<rparr>)
           else
             (let c1 = c\<lparr>c_now := c_now c + delay, c_net := net\<rparr> in
              case ev of
                Read [] \<Rightarrow> Some (Inr False, c1\<lparr>c_server_closed := True\<rparr>)
              | Read bs \<Rightarrow>
                  Some (Inr True, c1\<lparr>c_inbuf := c_inbuf c1 @ take 16384 bs,
                                    c_net := unread_rest 16384 bs net\<rparr>)
              | Reset \<Rightarrow> Some (Inr False, c1\<lparr>c_server_closed := True\<rparr>)
              | Io e \<Rightarrow> Some (Inl (E_Io e), c1))))"

text \<open>The record at the front of the buffer, when it is complete.\<close>

definition take_record :: "conn \<Rightarrow> (tls_record tls_result \<times> conn) option" where
  "take_record c =
     (if length (c_inbuf c) \<ge> 5 then
        (let len = unat (u16_from_be [c_inbuf c ! 3, c_inbuf c ! 4]) in
         if length (c_inbuf c) \<ge> 5 + len then
           (case record_parse (c_inbuf c) of
              Inl e \<Rightarrow> Some (Inl e, c)
            | Inr (r, used) \<Rightarrow>
                (let c1 = c\<lparr>c_inbuf := drop used (c_inbuf c)\<rparr>;
                     enc = (rec_type r = CT_ApplicationData \<and> reading_encrypted (c_layer c1));
                     c2 = add_trace Received (''record '' @ ct_name (rec_type r)) (rec_raw r) enc c1
                 in Some (Inr r, c2\<lparr>c_records_in := c_records_in c2 @ [r]\<rparr>)))
         else None)
      else None)"

lemma fill_consumes: "fill t w c = Some (Inr b, c') \<Longrightarrow> net_size (c_net c') < net_size (c_net c)"
  by (auto simp: fill_def Let_def unread_rest_def net_size_def
      split: list.splits if_splits socket_read.splits)

function read_loop :: "nat \<Rightarrow> conn \<Rightarrow> (tls_record tls_result \<times> conn) option" where
  "read_loop deadline c =
     (case take_record c of
        Some res \<Rightarrow> Some res
      | None \<Rightarrow>
          (let left = deadline - c_now c in
           if left = 0 then Some (Inl (E_Timeout ''a record from the server''), c)
           else case fill left ''a record from the server'' c of
                  None \<Rightarrow> None
                | Some (Inl e, c1) \<Rightarrow> Some (Inl e, c1)
                | Some (Inr got, c1) \<Rightarrow>
                    if got then read_loop deadline c1 else Some (Inl E_Closed, c1)))"
  by pat_completeness auto
termination
  by (relation "measure (\<lambda>(d, c). net_size (c_net c))") (auto dest: fill_consumes)

declare read_loop.simps [simp del]

definition read_record_within :: "nat \<Rightarrow> tls_record conn_op" where
  "read_record_within timeout c = read_loop (c_now c + timeout) c"

definition read_record :: "tls_record conn_op" where
  "read_record c = (let timeout = c_timeout c in read_record_within timeout c)"

definition pop_handshake :: "handshake_message option conn_op" where
  "pop_handshake c =
     (if length (c_hs_buf c) < 4 then Some (Inr None, c)
      else
        (let len = unat (u32_from_be [0, c_hs_buf c ! 1, c_hs_buf c ! 2, c_hs_buf c ! 3]) in
         if length (c_hs_buf c) < 4 + len then Some (Inr None, c)
         else case handshake_parse (c_hs_buf c) of
                Inl e \<Rightarrow> Some (Inl e, c)
              | Inr (m, used) \<Rightarrow> Some (Inr (Some m), c\<lparr>c_hs_buf := drop used (c_hs_buf c)\<rparr>)))"

text \<open>
  What one record means: \<open>None\<close> when it only filled a buffer, otherwise what \<open>next_message\<close>
  returns.
\<close>

definition got_alert :: "bytes \<Rightarrow> incoming option conn_op" where
  "got_alert body =
     st_bind (st_lift (alert_parse body)) (\<lambda>a.
     st_bind (st_modify (\<lambda>c. c\<lparr>c_last_alert := Some a\<rparr>)) (\<lambda>_.
     st_return (Some (In_Alert a))))"

definition open_and_dispatch :: "primitives \<Rightarrow> tls_record \<Rightarrow> incoming option conn_op" where
  "open_and_dispatch P r =
     st_bind (on_layer (record_open P r)) (\<lambda>inner.
     st_bind (st_modify (add_trace Received (''decrypted '' @ ct_name (in_type inner)) (in_content inner) True)) (\<lambda>_.
     case in_type inner of
       CT_Handshake \<Rightarrow>
         st_bind (st_modify (\<lambda>c. c\<lparr>c_hs_buf := c_hs_buf c @ in_content inner\<rparr>)) (\<lambda>_. st_return None)
     | CT_Alert \<Rightarrow> got_alert (in_content inner)
     | CT_ApplicationData \<Rightarrow>
         st_bind (st_modify (\<lambda>c. c\<lparr>c_app_buf := c_app_buf c @ [in_content inner]\<rparr>)) (\<lambda>_. st_return None)
     | _ \<Rightarrow> st_return (Some (In_Unexpected r))))"

definition dispatch :: "primitives \<Rightarrow> tls_record \<Rightarrow> incoming option conn_op" where
  "dispatch P r c =
     (if rec_type r = CT_ChangeCipherSpec then Some (Inr (Some (In_ChangeCipherSpec r)), c)
      else if rec_type r = CT_ApplicationData \<and> reading_encrypted (c_layer c) then open_and_dispatch P r c
      else if rec_type r = CT_Handshake \<and> \<not> reading_encrypted (c_layer c)
      then Some (Inr None, c\<lparr>c_hs_buf := c_hs_buf c @ rec_fragment r\<rparr>)
      else if rec_type r = CT_Alert \<and> length (rec_fragment r) = 2 then got_alert (rec_fragment r) c
      else Some (Inr (Some (In_Unexpected r)), c))"

text \<open>The bytes the peer has sent or will send that are not framed yet.\<close>

definition unread :: "conn \<Rightarrow> bytes" where
  "unread c = c_inbuf c @ concat (map (read_bytes \<circ> snd) (c_net c))"

lemma fill_unread:
  "fill t w c = Some (Inr True, c') \<Longrightarrow> unread c' = unread c \<and> c_layer c' = c_layer c \<and>
     c_hs_buf c' = c_hs_buf c \<and> c_app_buf c' = c_app_buf c"
  by (auto simp: fill_def unread_def unread_rest_def Let_def split: list.splits if_splits socket_read.splits)

lemma take_record_unread:
  assumes "take_record c = Some (Inr r, c')"
  shows "unread c = rec_raw r @ unread c' \<and> 5 \<le> length (rec_raw r) \<and> c_layer c' = c_layer c \<and>
    c_hs_buf c' = c_hs_buf c \<and> c_app_buf c' = c_app_buf c \<and> c_net c' = c_net c \<and> c_now c' = c_now c"
proof -
  obtain n where p: "record_parse (c_inbuf c) = Inr (r, n)"
      and c': "c_inbuf c' = drop n (c_inbuf c)" "c_net c' = c_net c" "c_layer c' = c_layer c"
        "c_hs_buf c' = c_hs_buf c" "c_app_buf c' = c_app_buf c" "c_now c' = c_now c"
    using assms by (auto simp: take_record_def Let_def add_trace_def split: if_splits sum.splits)
  have "5 \<le> length (rec_raw r)" using record_parse_dec [OF p] by (simp add: record_build_def)
  moreover have "c_inbuf c = rec_raw r @ c_inbuf c'" using record_parse_dec [OF p] unfolding c'(1) by blast
  ultimately show ?thesis using c' by (simp add: unread_def)
qed

lemma read_loop_unread:
  "read_loop d c = Some (Inr r, c') \<Longrightarrow>
     unread c = rec_raw r @ unread c' \<and> 5 \<le> length (rec_raw r) \<and> c_layer c' = c_layer c \<and>
     c_hs_buf c' = c_hs_buf c \<and> c_app_buf c' = c_app_buf c"
proof (induction d c rule: read_loop.induct)
  case (1 d c)
  show ?case
  proof (cases "take_record c")
    case (Some res)
    then show ?thesis using 1(2) take_record_unread [of c r c'] by (simp add: read_loop.simps [of d c])
  next
    case None
    then obtain c1 where f: "d - c_now c \<noteq> 0" "fill (d - c_now c) ''a record from the server'' c = Some (Inr True, c1)"
      and l: "read_loop d c1 = Some (Inr r, c')"
      using 1(2) by (auto simp: read_loop.simps [of d c] Let_def split: if_splits option.splits sum.splits)
    show ?thesis using 1(1) [OF None refl f(1) f(2) refl refl TrueI l] fill_unread [OF f(2)] by simp
  qed
qed

lemma on_layer_frame:
  "on_layer f c = Some (x, c') \<Longrightarrow> unread c' = unread c"
  by (auto simp: on_layer_def unread_def split: option.splits)

lemma dispatch_unread: "dispatch P r c = Some (x, c') \<Longrightarrow> unread c' = unread c"
  by (auto simp: dispatch_def open_and_dispatch_def got_alert_def st_bind_def st_lift_def unread_def
      on_layer_def add_trace_def st_modify_def
      split: if_splits option.splits sum.splits content_type.splits)

text \<open>The body of the loop after the record was read, as \<open>next_message\<close> runs it.\<close>

function next_loop :: "primitives \<Rightarrow> nat \<Rightarrow> conn \<Rightarrow> (incoming tls_result \<times> conn) option" where
  "next_loop P deadline c =
     (case pop_handshake c of
        None \<Rightarrow> None
      | Some (Inl e, c1) \<Rightarrow> Some (Inl e, c1)
      | Some (Inr (Some m), c1) \<Rightarrow> Some (Inr (In_Handshake m), c1)
      | Some (Inr None, _) \<Rightarrow>
          (case c_app_buf c of
             d # ds \<Rightarrow> Some (Inr (In_AppData d), c\<lparr>c_app_buf := ds\<rparr>)
           | [] \<Rightarrow>
               (let left = deadline - c_now c in
                if left = 0 then Some (Inl (E_Timeout ''the next TLS message''), c)
                else case read_record_within left c of
                       None \<Rightarrow> None
                     | Some (Inl e, c1) \<Rightarrow> Some (Inl e, c1)
                     | Some (Inr r, c1) \<Rightarrow>
                         (case dispatch P r c1 of
                            None \<Rightarrow> None
                          | Some (Inl e, c2) \<Rightarrow> Some (Inl e, c2)
                          | Some (Inr (Some i), c2) \<Rightarrow> Some (Inr i, c2)
                          | Some (Inr None, c2) \<Rightarrow> next_loop P deadline c2))))"
  by pat_completeness auto
termination
  by (relation "measure (\<lambda>(P, d, c). length (unread c))")
    (auto simp: read_record_within_def dest!: dispatch_unread read_loop_unread)

declare next_loop.simps [simp del]

definition next_message_within :: "primitives \<Rightarrow> nat \<Rightarrow> incoming conn_op" where
  "next_message_within P timeout c = next_loop P (c_now c + timeout) c"

definition next_message :: "primitives \<Rightarrow> incoming conn_op" where
  "next_message P c = (let timeout = c_timeout c in next_message_within P timeout c)"

definition has_partial_handshake :: "conn \<Rightarrow> bool" where
  "has_partial_handshake c \<longleftrightarrow> c_hs_buf c \<noteq> []"

definition buffered_app_data :: "conn \<Rightarrow> bytes list \<times> conn" where
  "buffered_app_data c = (c_app_buf c, c\<lparr>c_app_buf := []\<rparr>)"

text \<open>The loop of \<open>expect_closed\<close>; \<open>seen\<close> is its local variable.\<close>

function closed_loop :: "nat \<Rightarrow> bytes \<Rightarrow> conn \<Rightarrow> (bytes tls_result \<times> conn) option" where
  "closed_loop deadline seen c =
     (let left = deadline - c_now c in
      if left = 0
      then Some (Inl (E_Timeout ''the server to close the connection''), c\<lparr>c_inbuf := seen\<rparr>)
      else
        (let before = length (c_inbuf c) in
         case fill left ''the server to close the connection'' c of
           None \<Rightarrow> None
         | Some (Inl e, c1) \<Rightarrow> Some (Inl e, c1)
         | Some (Inr got, c1) \<Rightarrow>
             (if \<not> got
              then Some (Inr (seen @ c_inbuf c1),
                     add_trace Received ''TCP FIN (server closed)'' [] False (c1\<lparr>c_inbuf := []\<rparr>))
              else closed_loop deadline (seen @ drop before (c_inbuf c1))
                     (c1\<lparr>c_inbuf := take before (c_inbuf c1)\<rparr>))))"
  by pat_completeness auto
termination
  by (relation "measure (\<lambda>(d, s, c). net_size (c_net c))") (auto dest: fill_consumes)

declare closed_loop.simps [simp del]

definition expect_closed :: "nat \<Rightarrow> bytes conn_op" where
  "expect_closed timeout c = closed_loop (c_now c + timeout) (c_inbuf c) (c\<lparr>c_inbuf := []\<rparr>)"

text \<open>\<open>read_silence\<close>: a read of at most 4096 bytes, what is left stays in the socket.\<close>

definition read_silence :: "nat \<Rightarrow> bytes conn_op" where
  "read_silence quiet c =
     (case c_net c of
        [] \<Rightarrow> Some (Inr [], c\<lparr>c_now := c_now c + quiet\<rparr>)
      | (delay, ev) # net \<Rightarrow>
          (if quiet < delay
           then Some (Inr [], c\<lparr>c_now := c_now c + quiet, c_net := (delay - quiet, ev) # net\<rparr>)
           else
             (let c1 = c\<lparr>c_now := c_now c + delay, c_net := net\<rparr> in
              case ev of
                Read [] \<Rightarrow> Some (Inl E_Closed, c1\<lparr>c_server_closed := True\<rparr>)
              | Read bs \<Rightarrow>
                  (let seen = take 4096 bs
                   in Some (Inr seen, c1\<lparr>c_inbuf := c_inbuf c1 @ seen,
                                        c_net := unread_rest 4096 bs net\<rparr>))
              | Reset \<Rightarrow> Some (Inl E_Closed, c1\<lparr>c_server_closed := True\<rparr>)
              | Io e \<Rightarrow> Some (Inl (E_Io e), c1))))"

section \<open>Reactions\<close>

datatype reaction =
    R_Alert alert
  | R_Closed
  | R_Silence
  | R_Message string
  | R_Error string

definition conn_reaction :: "primitives \<Rightarrow> nat \<Rightarrow> conn \<Rightarrow> (reaction \<times> conn) option" where
  "conn_reaction P timeout c =
     (case next_message_within P timeout c of
        None \<Rightarrow> None
      | Some (res, c') \<Rightarrow>
          Some (case res of
                  Inr (In_Alert a) \<Rightarrow> R_Alert a
                | Inr other \<Rightarrow> R_Message (incoming_describe other)
                | Inl E_Closed \<Rightarrow> R_Closed
                | Inl (E_Timeout _) \<Rightarrow> R_Silence
                | Inl e \<Rightarrow> R_Error (tls_error_display e), c'))"

definition trace_lines :: "conn \<Rightarrow> string list" where
  "trace_lines c = map trace_line (c_trace c)"

definition last_record_bytes :: "conn \<Rightarrow> bytes option" where
  "last_record_bytes c =
     (if c_records_in c = [] then None else Some (rec_raw (last (c_records_in c))))"

fun reaction_describe :: "reaction \<Rightarrow> string" where
  "reaction_describe (R_Alert a) = ''alert '' @ alert_describe a"
| "reaction_describe R_Closed = ''the connection was closed''"
| "reaction_describe R_Silence = ''nothing at all, connection left open''"
| "reaction_describe (R_Message m) = ''a normal message: '' @ m"
| "reaction_describe (R_Error e) = ''an error: '' @ e"

fun is_refusal :: "reaction \<Rightarrow> bool" where
  "is_refusal (R_Alert _) = True"
| "is_refusal R_Closed = True"
| "is_refusal _ = False"

fun is_refusal_with :: "reaction \<Rightarrow> alert_description \<Rightarrow> bool" where
  "is_refusal_with (R_Alert a) d = (al_description a = d)"
| "is_refusal_with R_Closed d = True"
| "is_refusal_with _ d = False"

fun reaction_alert :: "reaction \<Rightarrow> alert option" where
  "reaction_alert (R_Alert a) = Some a"
| "reaction_alert _ = None"

section \<open>What CertificateVerify signs\<close>

text \<open>The keys themselves are values of the cryptographic crates: type parameters here.\<close>

definition signed_content :: "string \<Rightarrow> bytes \<Rightarrow> bytes" where
  "signed_content context th = replicate 64 0x20 @ as_bytes context @ [0] @ th"

definition server_signed_content :: "bytes \<Rightarrow> bytes" where
  "server_signed_content th = signed_content SERVER_CV_CONTEXT th"

definition client_signed_content :: "bytes \<Rightarrow> bytes" where
  "client_signed_content th = signed_content CLIENT_CV_CONTEXT th"

datatype ('r, 'e, 'd) public_key = PK_Rsa 'r | PK_EcdsaP256 'e | PK_Ed25519 'd

fun pk_algorithm :: "('r, 'e, 'd) public_key \<Rightarrow> string" where
  "pk_algorithm (PK_Rsa _) = ''RSA''"
| "pk_algorithm (PK_EcdsaP256 _) = ''ECDSA P-256''"
| "pk_algorithm (PK_Ed25519 _) = ''Ed25519''"

fun pk_accepts :: "('r, 'e, 'd) public_key \<Rightarrow> u16 \<Rightarrow> bool" where
  "pk_accepts (PK_Rsa _) s =
     (s = SIG_RSA_PSS_RSAE_SHA256 \<or> s = SIG_RSA_PSS_RSAE_SHA384 \<or> s = SIG_RSA_PSS_RSAE_SHA512 \<or>
      s = SIG_RSA_PKCS1_SHA256)"
| "pk_accepts (PK_EcdsaP256 _) s = (s = SIG_ECDSA_SECP256R1_SHA256)"
| "pk_accepts (PK_Ed25519 _) s = (s = SIG_ED25519)"

end
