(* ===== verification/Tls_Reassembly.thy ===== *)
theory Tls_Reassembly
  imports Tls_Conn
begin

text \<open>
  Framing and reassembly: whatever way the peer cuts the handshake stream into records, and TCP
  cuts the records into reads, \<open>next_message\<close> returns the handshake messages one by one, in order.
\<close>

section \<open>A peer whose bytes are already there\<close>

definition prompt :: "conn \<Rightarrow> bool" where
  "prompt c \<longleftrightarrow> (\<forall>(d, ev) \<in> set (c_net c). d = 0 \<and> (\<exists>bs. ev = Read bs \<and> bs \<noteq> []))"

text \<open>Two states that agree on everything reading depends on but the buffers of records.\<close>

definition same_upper :: "conn \<Rightarrow> conn \<Rightarrow> bool" where
  "same_upper c c' \<longleftrightarrow>
     c_layer c' = c_layer c \<and> c_hs_buf c' = c_hs_buf c \<and> c_app_buf c' = c_app_buf c \<and>
     c_now c' = c_now c \<and> c_timeout c' = c_timeout c"

lemma same_upper_trans: "same_upper a b \<Longrightarrow> same_upper b c \<Longrightarrow> same_upper a c"
  by (simp add: same_upper_def)

lemma fill_prompt:
  assumes "prompt c" "c_net c \<noteq> []"
  shows "\<exists>c1. fill t w c = Some (Inr True, c1) \<and> prompt c1 \<and> unread c1 = unread c \<and> same_upper c c1"
proof -
  obtain bs net where n: "c_net c = (0, Read bs) # net" "bs \<noteq> []"
    using assms by (cases "c_net c") (auto simp: prompt_def)
  moreover from n obtain b bs' where "bs = b # bs'" by (cases bs) auto
  ultimately show ?thesis
    using assms(1) by (auto simp: fill_def prompt_def unread_def same_upper_def unread_rest_def)
qed

lemma take_record_eq:
  assumes u: "c_inbuf c @ tail = record_build ct v f @ rest" and f: "length f < 65536"
  shows "if length (c_inbuf c) < 5 + length f then take_record c = None
    else \<exists>c'. take_record c = Some (Inr \<lparr>rec_type = ct_from_u8 ct, rec_version = v, rec_fragment = f,
        rec_raw = record_build ct v f\<rparr>, c') \<and> c_inbuf c' @ tail = rest \<and> c_net c' = c_net c \<and>
        same_upper c c'"
proof (cases "length (c_inbuf c) < 5 + length f")
  case True
  have "take_record c = None" if l: "5 \<le> length (c_inbuf c)"
  proof -
    obtain v0 v1 where v: "u16_be v = [v0, v1]"
      using list2 [OF length_word_bytes(1), of v] by metis
    obtain w0 w1 where w: "u16_be (word_of_nat (length f)) = [w0, w1]"
      using list2 [OF length_word_bytes(1), of "word_of_nat (length f)"] by metis
    have n: "c_inbuf c ! i = (record_build ct v f @ rest) ! i" if "i < 5" for i
      unfolding u [symmetric] using l that by (simp add: nth_append)
    have "c_inbuf c ! 3 = w0" "c_inbuf c ! 4 = w1"
      using n [of 3] n [of 4] by (simp_all add: record_build_def v w)
    moreover have "u16_from_be [w0, w1] = word_of_nat (length f)"
      using from_word_bytes(1) [of "word_of_nat (length f)"] w by simp
    moreover have "unat (word_of_nat (length f) :: u16) = length f" using f by (simp add: unat_of_nat)
    ultimately show ?thesis using True by (simp add: take_record_def Let_def)
  qed
  then show ?thesis using True by (auto simp: take_record_def)
next
  case False
  have lb: "length (record_build ct v f) = 5 + length f" by (simp add: record_build_def)
  have i: "c_inbuf c = record_build ct v f @ drop (5 + length f) (c_inbuf c)"
    and r: "rest = drop (5 + length f) (c_inbuf c) @ tail"
    using split_front [OF u] False lb by auto
  have p: "record_parse (c_inbuf c) = Inr (\<lparr>rec_type = ct_from_u8 ct, rec_version = v, rec_fragment = f,
        rec_raw = record_build ct v f\<rparr>, 5 + length f)"
    using record_parse_build [OF f, of ct v "drop (5 + length f) (c_inbuf c)"] i lb by simp
  have "\<not> length (c_inbuf c) < 5 + unat (u16_from_be [c_inbuf c ! 3, c_inbuf c ! 4])"
    using p by (auto simp: record_parse_def Let_def split: if_splits)
  then show ?thesis
    using False p r by (auto simp: take_record_def Let_def add_trace_def same_upper_def)
qed

lemma read_loop_complete:
  assumes "prompt c" "c_now c < d" "unread c = record_build ct v f @ rest" "length f < 65536"
  shows "\<exists>c'. read_loop d c = Some (Inr \<lparr>rec_type = ct_from_u8 ct, rec_version = v, rec_fragment = f,
        rec_raw = record_build ct v f\<rparr>, c') \<and> prompt c' \<and> unread c' = rest \<and> same_upper c c'"
  using assms
proof (induction "net_size (c_net c)" arbitrary: c rule: less_induct)
  case less
  let ?tl = "concat (map (read_bytes \<circ> snd) (c_net c))"
  note t = take_record_eq [OF less.prems(3) [unfolded unread_def] less.prems(4)]
  show ?case
  proof (cases "length (c_inbuf c) < 5 + length f")
    case True
    with t have t: "take_record c = None" by simp
    have "length (unread c) \<ge> 5 + length f" using less.prems(3) by (simp add: record_build_def)
    then have "c_net c \<noteq> []" using True by (auto simp: unread_def)
    then obtain c1 where c1: "fill (d - c_now c) ''a record from the server'' c = Some (Inr True, c1)"
        "prompt c1" "unread c1 = unread c" "same_upper c c1"
      using fill_prompt less.prems(1) by blast
    have "c_now c1 < d" "unread c1 = record_build ct v f @ rest"
      using c1(3,4) less.prems(2,3) by (simp_all add: same_upper_def)
    from less.hyps [OF fill_consumes [OF c1(1)] c1(2) this less.prems(4)]
    show ?thesis using c1 t less.prems(2) same_upper_trans [OF c1(4)]
      by (subst read_loop.simps) (auto simp: Let_def)
  next
    case False
    then show ?thesis using t less.prems(1)
      by (subst read_loop.simps) (auto simp: prompt_def unread_def)
  qed
qed

section \<open>Handshake messages\<close>

definition hs_message :: "handshake_type \<times> bytes \<Rightarrow> handshake_message" where
  "hs_message m = \<lparr>hm_type = fst m, hm_body = snd m, hm_raw = encode_handshake (fst m) (snd m)\<rparr>"

lemma length_encode_handshake [simp]: "length (encode_handshake t b) = 4 + length b"
  by (simp add: encode_handshake_eq)

lemma pop_handshake_eq:
  assumes u: "c_hs_buf c @ tail = encode_handshake t b @ rest" and b: "length b < 2 ^ 24"
  shows "pop_handshake c =
    (if length (c_hs_buf c) < 4 + length b then Some (Inr None, c)
     else Some (Inr (Some (hs_message (t, b))), c\<lparr>c_hs_buf := drop (4 + length b) (c_hs_buf c)\<rparr>))"
proof (cases "length (c_hs_buf c) < 4")
  case True
  then show ?thesis by (simp add: pop_handshake_def)
next
  case False
  obtain x y z where v: "be_bytes 3 (length b) = [x, y, z]"
    using list3 [OF length_be_bytes, of "length b"] by metis
  have n: "c_hs_buf c ! i = (encode_handshake t b @ rest) ! i" if "i < 4" for i
    unfolding u [symmetric] using False that by (simp add: nth_append)
  have "c_hs_buf c ! 1 = x" "c_hs_buf c ! 2 = y" "c_hs_buf c ! 3 = z"
    using n [of 1] n [of 2] n [of 3] by (simp_all add: encode_handshake_eq v)
  moreover have "unat (u32_from_be [0, x, y, z]) = length b"
    using b be_val_be_bytes [of 3 "length b"] by (simp add: v be_val_Cons0)
  ultimately have p: "pop_handshake c = (if length (c_hs_buf c) < 4 + length b then Some (Inr None, c)
      else case handshake_parse (c_hs_buf c) of
                Inl e \<Rightarrow> Some (Inl e, c)
              | Inr (m, used) \<Rightarrow> Some (Inr (Some m), c\<lparr>c_hs_buf := drop used (c_hs_buf c)\<rparr>))"
    using False by (simp add: pop_handshake_def Let_def)
  show ?thesis
  proof (cases "length (c_hs_buf c) < 4 + length b")
    case False
    then have "c_hs_buf c = encode_handshake t b @ drop (4 + length b) (c_hs_buf c)"
      using split_front [OF u] by simp
    then have "handshake_parse (c_hs_buf c) = Inr (hs_message (t, b), 4 + length b)"
      using handshake_parse_encode [OF b, of t "drop (4 + length b) (c_hs_buf c)"]
      by (simp add: hs_message_def)
    then show ?thesis using False p by simp
  qed (use p in simp)
qed

text \<open>
  The invariant between calls: the unread bytes are whole records, and the handshake buffer
  followed by their fragments is the stream of messages still to come.
\<close>

definition carries :: "conn \<Rightarrow> (u16 \<times> bytes) list \<Rightarrow> bytes \<Rightarrow> bool" where
  "carries c recs stream \<longleftrightarrow>
     prompt c \<and> rl_read (c_layer c) = None \<and> c_app_buf c = [] \<and>
     (\<forall>r \<in> set recs. length (snd r) < 65536) \<and>
     unread c = concat (map (\<lambda>r. record_build 22 (fst r) (snd r)) recs) \<and>
     c_hs_buf c @ concat (map snd recs) = stream"

lemma ct_from_22: "ct_from_u8 22 = CT_Handshake"
  by (simp add: ct_from_u8_def)

lemma carries_step:
  assumes c: "carries c ((v, f) # recs) s" and d: "0 < t"
  shows "\<exists>r c1 c2. read_record_within t c = Some (Inr r, c1) \<and> dispatch P r c1 = Some (Inr None, c2) \<and>
    carries c2 recs s \<and> c_now c2 = c_now c \<and> c_timeout c2 = c_timeout c"
proof -
  have u: "unread c = record_build 22 v f @ concat (map (\<lambda>r. record_build 22 (fst r) (snd r)) recs)"
    and f: "length f < 65536" and p: "prompt c"
    using c by (simp_all add: carries_def)
  obtain c1 where c1: "read_record_within t c = Some (Inr \<lparr>rec_type = CT_Handshake, rec_version = v,
        rec_fragment = f, rec_raw = record_build 22 v f\<rparr>, c1)" "prompt c1"
      "unread c1 = concat (map (\<lambda>r. record_build 22 (fst r) (snd r)) recs)" "same_upper c c1"
    using read_loop_complete [OF p _ u f, of "c_now c + t"] d
    by (auto simp: read_record_within_def ct_from_22)
  let ?c2 = "c1\<lparr>c_hs_buf := c_hs_buf c1 @ f\<rparr>"
  have "rl_read (c_layer c1) = None" using c c1(4) by (simp add: carries_def same_upper_def)
  then have "dispatch P \<lparr>rec_type = CT_Handshake, rec_version = v, rec_fragment = f,
      rec_raw = record_build 22 v f\<rparr> c1 = Some (Inr None, ?c2)"
    by (simp add: dispatch_def reading_encrypted_def)
  moreover have "carries ?c2 recs s"
    using c c1 by (auto simp: carries_def same_upper_def prompt_def unread_def)
  ultimately show ?thesis using c1(1,4) by (force simp: same_upper_def)
qed

lemma next_loop_message:
  assumes "carries c recs (encode_handshake t b @ s)" "length b < 2 ^ 24" "c_now c < d"
  shows "\<exists>c' recs'. next_loop P d c = Some (Inr (In_Handshake (hs_message (t, b))), c') \<and>
    carries c' recs' s \<and> c_now c' = c_now c \<and> c_timeout c' = c_timeout c"
  using assms
proof (induction recs arbitrary: c)
  case Nil
  then have h: "c_hs_buf c = encode_handshake t b @ s" by (simp add: carries_def)
  then have "pop_handshake c = Some (Inr (Some (hs_message (t, b))), c\<lparr>c_hs_buf := s\<rparr>)"
    using pop_handshake_eq [of c "[]" t b s] Nil.prems(2) by simp
  moreover have "carries (c\<lparr>c_hs_buf := s\<rparr>) [] s"
    using Nil.prems(1) by (simp add: carries_def prompt_def unread_def)
  ultimately show ?case by (subst next_loop.simps) force
next
  case (Cons r recs)
  obtain v f where r: "r = (v, f)" by (cases r)
  have h: "c_hs_buf c @ concat (map snd (r # recs)) = encode_handshake t b @ s"
    using Cons.prems(1) by (simp add: carries_def)
  note p = pop_handshake_eq [OF h Cons.prems(2)]
  show ?case
  proof (cases "length (c_hs_buf c) < 4 + length b")
    case True
    obtain x c1 c2 where 1: "read_record_within (d - c_now c) c = Some (Inr x, c1)"
        "dispatch P x c1 = Some (Inr None, c2)" "carries c2 recs (encode_handshake t b @ s)"
        "c_now c2 = c_now c" "c_timeout c2 = c_timeout c"
      using carries_step [of c v f recs "encode_handshake t b @ s" "d - c_now c" P] Cons.prems(1,3) r
      by auto
    have "c_app_buf c = []" using Cons.prems(1) by (simp add: carries_def)
    then have "next_loop P d c = next_loop P d c2"
      using 1(1,2) p True Cons.prems(3) by (subst next_loop.simps) (simp add: Let_def)
    then show ?thesis using Cons.IH [OF 1(3) Cons.prems(2)] 1(4,5) Cons.prems(3) by simp
  next
    case False
    let ?c' = "c\<lparr>c_hs_buf := drop (4 + length b) (c_hs_buf c)\<rparr>"
    have "drop (4 + length b) (c_hs_buf c) @ concat (map snd (r # recs)) = s"
      using split_front [OF h] False by simp
    then have "carries ?c' (r # recs) s"
      using Cons.prems(1) by (simp add: carries_def prompt_def unread_def)
    moreover have "next_loop P d c = Some (Inr (In_Handshake (hs_message (t, b))), ?c')"
      using p False by (subst next_loop.simps) simp
    ultimately show ?thesis by force
  qed
qed

lemma next_messages:
  assumes "carries c recs (concat (map (\<lambda>m. encode_handshake (fst m) (snd m)) msgs))"
    "\<forall>m \<in> set msgs. length (snd m) < 2 ^ 24" "0 < c_timeout c"
  shows "\<exists>c' recs'. st_each (\<lambda>_. next_message P) msgs c =
      Some (Inr (map (\<lambda>m. In_Handshake (hs_message m)) msgs), c') \<and> carries c' recs' []"
  using assms
proof (induction msgs arbitrary: c recs)
  case Nil
  then show ?case by auto
next
  case (Cons m msgs)
  let ?s = "concat (map (\<lambda>m. encode_handshake (fst m) (snd m)) msgs)"
  have "carries c recs (encode_handshake (fst m) (snd m) @ ?s)" "length (snd m) < 2 ^ 24"
    "c_now c < c_now c + c_timeout c" using Cons.prems by simp_all
  from next_loop_message [OF this, of P] obtain c1 recs1
    where 1: "next_message P c = Some (Inr (In_Handshake (hs_message m)), c1)" "carries c1 recs1 ?s"
      "c_timeout c1 = c_timeout c"
    by (auto simp: next_message_def next_message_within_def)
  obtain c2 recs2 where 2: "st_each (\<lambda>_. next_message P) msgs c1 =
      Some (Inr (map (\<lambda>m. In_Handshake (hs_message m)) msgs), c2)" "carries c2 recs2 []"
    using Cons.IH [OF 1(2)] Cons.prems(2,3) 1(3) by auto
  show ?case using st_each_Cons_ok [of "\<lambda>_. next_message P", OF 1(1) 2(1)] 2(2) by auto
qed

end
