(* ===== verification/Tls_Theorems.thy ===== *)
theory Tls_Theorems
  imports Tls_Reassembly
begin

text \<open>
  The properties of the TLS 1.3 client: what the record layer, the key schedule, the message
  parsers and the connection promise, each with a concrete instance where it has hypotheses.
\<close>

section \<open>A concrete set of primitives\<close>

text \<open>
  Not cryptography: a digest and an HMAC of the right length and an AEAD that appends sixteen tag
  bytes, to evaluate the definitions and to show that the hypotheses can hold.
\<close>

definition demo :: primitives where
  "demo = \<lparr>p_digest = (\<lambda>h d. replicate (hash_len h) (word_of_nat (length d))),
     p_hmac = (\<lambda>h k d. replicate (hash_len h) (word_of_nat (length k + length d))),
     p_encrypt = (\<lambda>a k n aad m. Some (m @ replicate 16 0)),
     p_decrypt = (\<lambda>a k n aad c. Some (take (length c - 16) c))\<rparr>"

lemma demo_sized: "hmac_sized demo"
  by (simp add: hmac_sized_def demo_def)

lemma demo_aead: "aead_correct demo"
  by (simp add: aead_correct_def demo_def)

definition demo_suite :: suite where
  "demo_suite = \<lparr>su_code = TLS_AES_128_GCM_SHA256, su_hash = Sha256, su_aead = Aes128Gcm\<rparr>"

definition demo_keys :: traffic_keys where
  "demo_keys = keys_of demo demo_suite [1, 2, 3]"

lemma demo_keys_sized: "keys_sized demo_keys"
  unfolding demo_keys_def by (rule keys_of_sized [OF demo_sized])

section \<open>Reassembly\<close>

text \<open>C5: reassembly. A handshake sent in the clear may be cut into records anywhere, several
  messages in one record or one message over many, and TCP may cut the records into reads
  anywhere. Calling \<open>next_message\<close> once per message returns exactly the messages sent, in order,
  and leaves no partial message behind.\<close>

theorem handshake_reassembled:
  assumes "\<forall>bs \<in> set reads. bs \<noteq> []" and "0 < timeout"
    and "concat reads = concat (map (\<lambda>r. record_build 22 (fst r) (snd r)) recs)"
    and "\<forall>r \<in> set recs. length (snd r) < 65536"
    and "concat (map snd recs) = concat (map (\<lambda>m. encode_handshake (fst m) (snd m)) msgs)"
    and "\<forall>m \<in> set msgs. length (snd m) < 2 ^ 24"
  shows "\<exists>c. st_each (\<lambda>_. next_message P) msgs (conn_connect timeout (map (\<lambda>bs. (0, Read bs)) reads)) =
      Some (Inr (map (\<lambda>m. In_Handshake (hs_message m)) msgs), c) \<and> \<not> has_partial_handshake c"
proof -
  let ?c = "conn_connect timeout (map (\<lambda>bs. (0, Read bs)) reads)"
  have "concat (map (read_bytes \<circ> snd \<circ> (\<lambda>bs. (0 :: nat, Read bs))) reads) = concat reads"
    by (induction reads) simp_all
  then have "carries ?c recs (concat (map (\<lambda>m. encode_handshake (fst m) (snd m)) msgs))"
    using assms(1,3,4,5)
    by (auto simp: carries_def prompt_def unread_def conn_connect_def layer_new_def comp_assoc)
  from next_messages [OF this assms(6), of P] assms(2) show ?thesis
    by (auto simp: carries_def conn_connect_def has_partial_handshake_def)
qed

theorem handshake_reassembled_witness:
  "\<exists>c. st_each (\<lambda>_. next_message demo) [(HS_SERVER_HELLO, [5 :: u8, 6]), (HS_FINISHED, [7])]
      (conn_connect 100 (map (\<lambda>bs. (0, Read bs))
        [[22, 3, 3, 0, 3, 2, 0], [0, 22, 3, 3, 0, 8, 2, 5], [6, 20, 0, 0, 1, 7]])) =
      Some (Inr (map (\<lambda>m. In_Handshake (hs_message m)) [(HS_SERVER_HELLO, [5, 6]), (HS_FINISHED, [7])]), c) \<and>
    \<not> has_partial_handshake c"
  by (rule handshake_reassembled [of _ _ "[(0x0303, [2, 0, 0]), (0x0303, [2, 5, 6, 20, 0, 0, 1, 7])]"])
    (simp, simp, code_simp, simp, code_simp, simp)

section \<open>The record layer\<close>

text \<open>C6: sealed records open in order. Two ends that install the same keys and carry the
  same records stay in step: every record sealed by one end is opened by the other with its
  content type, content and padding, whatever was on the layers before, and both sequence numbers
  have counted the records from zero.\<close>

theorem records_open_in_order:
  assumes "aead_correct P" and "keys_sized k" and "\<forall>m \<in> set ms. outgoing_ok m"
  shows "\<exists>ws l' r'. st_each (seal_one P) ms (set_write k l) = Some (Inr ws, l') \<and>
    st_each (open_bytes P) ws (set_read k r) = Some (Inr (map outgoing_view ms), r') \<and>
    rl_write_seq l' = of_nat (length ms) \<and> rl_read_seq r' = of_nat (length ms)"
proof -
  have "in_sync k (rl_write_version l) (set_write k l) (set_read k r)"
    using assms(2) by (simp add: in_sync_def set_write_def set_read_def)
  then obtain ws l' r' where "st_each (seal_one P) ms (set_write k l) = Some (Inr ws, l')"
      "st_each (open_bytes P) ws (set_read k r) = Some (Inr (map outgoing_view ms), r')"
      "in_sync k (rl_write_version l) l' r'"
    using layer.stream [of P k "rl_write_version l" "set_write k l" "set_read k r" ms] assms(1,3) by blast
  moreover from this(1) have "rl_write_seq l' = of_nat (length ms)"
    using seal_each_counts [of P ms "set_write k l" ws l'] by (simp add: set_write_def)
  ultimately show ?thesis by (auto simp: in_sync_def)
qed

theorem records_open_in_order_witness:
  "\<exists>ws l' r'. st_each (seal_one demo) [(CT_Handshake, [1, 2], 3), (CT_ApplicationData, [], 0)]
      (set_write demo_keys layer_new) = Some (Inr ws, l') \<and>
    st_each (open_bytes demo) ws (set_read demo_keys layer_new) =
      Some (Inr (map outgoing_view [(CT_Handshake, [1, 2], 3), (CT_ApplicationData, [], 0)]), r') \<and>
    rl_write_seq l' = of_nat 2 \<and> rl_read_seq r' = of_nat 2"
  using records_open_in_order [OF demo_aead demo_keys_sized,
      of "[(CT_Handshake, [1, 2], 3), (CT_ApplicationData, [], 0)]" layer_new layer_new]
  by (simp add: outgoing_ok_def type_ok_def ct_from_u8_def)



text \<open>C8: what \<open>seal\<close> emits under keys. It never panics; it refuses, changing nothing,
  exactly when the protected record would exceed the ciphertext limit of RFC 8446, and otherwise
  emits one record of outer type \<open>application_data\<close> that parses back whole, passes the receiver's
  length check, and advances the sequence number by one.\<close>

theorem seal_within_limits:
  assumes "aead_correct P" and "keys_sized k" and "rl_write l = Some k"
  shows "if MAX_CIPHERTEXT < length content + 1 + padding + 16
    then \<exists>e. seal P ct content padding l = Some (Inl (E_Record e), l)
    else \<exists>w r. seal P ct content padding l = Some (Inr w, l\<lparr>rl_write_seq := rl_write_seq l + 1\<rparr>) \<and>
      record_parse w = Inr (r, length w) \<and> rec_type r = CT_ApplicationData \<and>
      rec_version r = rl_write_version l \<and> check_length True r = Inr ()"
proof (cases "MAX_CIPHERTEXT < length content + 1 + padding + 16")
  case True
  then show ?thesis using assms(3) by (simp add: seal_def Let_def tag_len_def)
next
  case False
  then obtain body where b: "length body = length content + 1 + padding + 16"
      "seal P ct content padding l =
        Some (Inr (record_build 23 (rl_write_version l) body), l\<lparr>rl_write_seq := rl_write_seq l + 1\<rparr>)"
    using seal_protected [OF assms, of content padding ct] by auto
  moreover have "record_parse (record_build 23 (rl_write_version l) body) =
      Inr (\<lparr>rec_type = CT_ApplicationData, rec_version = rl_write_version l, rec_fragment = body,
        rec_raw = record_build 23 (rl_write_version l) body\<rparr>, length (record_build 23 (rl_write_version l) body))"
    using record_parse_build [of body 23 "rl_write_version l" "[]"] b(1) False by (simp add: ct_from_u8_def)
  ultimately show ?thesis using False by (simp add: check_length_def)
qed

theorem seal_within_limits_witness:
  "\<exists>e. seal demo CT_ApplicationData (replicate 16640 0) 0 (set_write demo_keys layer_new) =
     Some (Inl (E_Record e), set_write demo_keys layer_new)"
  using seal_within_limits [OF demo_aead demo_keys_sized, of "set_write demo_keys layer_new" "replicate 16640 0" 0 CT_ApplicationData]
  by (simp add: set_write_def)

text \<open>record framing is exact. A parse succeeds with a record and a count exactly when
  the input starts with that record as \<open>build\<close> writes it, header fields and fragment, and the count
  is its length; the content type is the one its byte stands for.\<close>

theorem record_parse_exact:
  "record_parse bs = Inr (r, n) \<longleftrightarrow>
     bs = rec_raw r @ drop n bs \<and> n = length (rec_raw r) \<and> length (rec_fragment r) < 65536 \<and>
     rec_raw r = record_build (ct_as_u8 (rec_type r)) (rec_version r) (rec_fragment r) \<and>
     ct_from_u8 (ct_as_u8 (rec_type r)) = rec_type r"
  (is "_ \<longleftrightarrow> ?rhs")
proof
  assume p: "record_parse bs = Inr (r, n)"
  then have "ct_from_u8 (ct_as_u8 (rec_type r)) = rec_type r"
    by (auto simp: record_parse_def Let_def split: if_splits)
  then show ?rhs using record_parse_dec [OF p] by blast
next
  assume r: ?rhs
  let ?b = "record_build (ct_as_u8 (rec_type r)) (rec_version r) (rec_fragment r)"
  have bs: "bs = ?b @ drop n bs" "rec_raw r = ?b" "n = length ?b" using r by metis+
  have "record_parse (?b @ drop n bs) = Inr (r, n)"
    using record_parse_build [of "rec_fragment r" "ct_as_u8 (rec_type r)" "rec_version r" "drop n bs"] r bs(2,3)
    by simp
  then show "record_parse bs = Inr (r, n)" using bs(1) by simp
qed

text \<open>the inner plaintext is exact. Splitting a decrypted fragment succeeds with a type,
  content and padding exactly when the fragment is what \<open>build\<close> makes of them and the type byte is
  not zero, so content that itself ends in zeros is never mistaken for padding.\<close>

theorem inner_plaintext_exact:
  "inner_parse d = Inr i \<longleftrightarrow>
     d = inner_build (in_type i) (in_content i) (in_padding i) \<and> type_ok (in_type i)"
proof
  assume p: "inner_parse d = Inr i"
  then have "ct_from_u8 (ct_as_u8 (in_type i)) = in_type i"
    by (auto simp: inner_parse_def split: option.splits)
  then show "d = inner_build (in_type i) (in_content i) (in_padding i) \<and> type_ok (in_type i)"
    using inner_parse_dec [OF p] by (simp add: type_ok_def)
next
  assume "d = inner_build (in_type i) (in_content i) (in_padding i) \<and> type_ok (in_type i)"
  then show "inner_parse d = Inr i" by (simp add: type_ok_def inner_parse_build)
qed

text \<open>fragmenting loses nothing. The fragments concatenate to the payload, there is
  at least one, none exceeds the limit (one byte when the limit is zero), every one but the last is
  full, and only the empty payload gives an empty fragment.\<close>

theorem fragments_cover:
  "concat (fragment payload mx) = payload \<and> fragment payload mx \<noteq> [] \<and>
   list_all (\<lambda>f. length f \<le> max mx 1 \<and> (f = [] \<longleftrightarrow> payload = [])) (fragment payload mx) \<and>
   list_all (\<lambda>f. length f = max mx 1) (butlast (fragment payload mx))"
proof (cases "payload = []")
  case True
  then show ?thesis by (simp add: fragment_def)
next
  case False
  have c: "concat (chunks (max mx 1) payload) = payload" by (rule concat_chunks) simp
  have "length f = max mx 1" if f: "f \<in> set (butlast (chunks (max mx 1) payload))" for f
  proof -
    obtain j where "j < length (butlast (chunks (max mx 1) payload))" "butlast (chunks (max mx 1) payload) ! j = f"
      using f by (auto simp: in_set_conv_nth)
    then show ?thesis using chunks_full [of j "max mx 1" payload] by (simp add: nth_butlast)
  qed
  moreover have "chunks (max mx 1) payload \<noteq> []" using c False by auto
  moreover have "0 < length f \<and> length f \<le> max mx 1" if "f \<in> set (chunks (max mx 1) payload)" for f
    using chunks_sizes [OF that] .
  ultimately show ?thesis using False c by (auto simp: fragment_def list_all_iff)
qed

section \<open>The key schedule\<close>

text \<open>C10: HKDF-Expand is RFC 5869. The loop of the code returns the first \<open>len\<close> bytes of
  \<open>T(1) | T(2) | ...\<close>, of exactly the length asked for, and it refuses exactly the lengths above
  255 hash lengths.\<close>

theorem hkdf_expand_rfc5869:
  assumes "hmac_sized P"
  shows "if 255 * hash_len alg < len
    then \<exists>e. hkdf_expand P alg prk info len = Inl (E_Crypto e)
    else \<exists>n. hkdf_expand P alg prk info len =
        Inr (take len (concat (map (hkdf_T P alg prk info) [1..<Suc n]))) \<and>
      length (take len (concat (map (hkdf_T P alg prk info) [1..<Suc n]))) = len \<and> n \<le> 255"
proof (cases "255 * hash_len alg < len")
  case False
  let ?n = "div_ceil len (hash_len alg)"
  have e: "hkdf_expand P alg prk info len =
      Inr (take len (concat (map (hkdf_T P alg prk info) [1..<Suc ?n])))"
    using False by (simp add: hkdf_expand_eq del: upt_Suc)
  moreover have "?n \<le> 255" using False div_ceil_le_iff [of "hash_len alg" len 255] by simp
  ultimately show ?thesis using hkdf_expand_length [OF assms e] False by (simp del: upt_Suc) blast
qed (simp add: hkdf_expand_eq)

theorem hkdf_expand_rfc5869_witness:
  "\<exists>e. hkdf_expand demo Sha256 [1] [2] 8161 = Inl (E_Crypto e)"
  using hkdf_expand_rfc5869 [OF demo_sized, of Sha256 8161 "[1]" "[2]"] by simp

text \<open>the label structure separates its uses. Two \<open>HkdfLabel\<close> structures are equal
  only if label, context and length all are, as long as each fits the field RFC 8446 gives it, so no
  two derivations of the schedule feed HKDF the same input.\<close>

theorem hkdf_label_separates:
  assumes "length l < 250" "length l' < 250" "length c < 256" "length c' < 256" "n < 65536" "n' < 65536"
  shows "hkdf_label l c n = hkdf_label l' c' n' \<longleftrightarrow> l = l' \<and> c = c' \<and> n = n'"
  using hkdf_label_inj [OF _ assms] by auto

theorem hkdf_label_separates_witness: "hkdf_label ''c hs traffic'' [7] 32 \<noteq> hkdf_label ''s hs traffic'' [7] 32"
  using hkdf_label_separates [of "''c hs traffic''" "''s hs traffic''" "[7]" "[7]" 32 32] by simp

text \<open>C9: the key schedule completes. From any suite, with or without a PSK, entering the
  handshake, then the application phase, then deriving the resumption secret never fails; the
  secrets are those of the RFC's tree, every traffic key and IV has the size its AEAD needs, and
  the recorded steps are the RFC's derivations in the RFC's order.\<close>

theorem key_schedule_complete:
  assumes "hmac_sized P"
  shows "\<exists>k ck sk ca sa. st_bind (enter_handshake P dhe th1) (\<lambda>_. st_bind (enter_application P th2)
        (\<lambda>_. derive_resumption_master P th3)) (ks_new P s psk) =
      Some (Inr (label_hmac P (su_hash s) (rfc_master P (su_hash s) psk dhe) ''res master'' th3), k) \<and>
    client_handshake k = Some ck \<and> server_handshake k = Some sk \<and>
    client_application k = Some ca \<and> server_application k = Some sa \<and>
    tk_secret ck = label_hmac P (su_hash s) (rfc_handshake P (su_hash s) psk dhe) ''c hs traffic'' th1 \<and>
    tk_secret sk = label_hmac P (su_hash s) (rfc_handshake P (su_hash s) psk dhe) ''s hs traffic'' th1 \<and>
    tk_secret ca = label_hmac P (su_hash s) (rfc_master P (su_hash s) psk dhe) ''c ap traffic'' th2 \<and>
    tk_secret sa = label_hmac P (su_hash s) (rfc_master P (su_hash s) psk dhe) ''s ap traffic'' th2 \<and>
    keys_sized ck \<and> keys_sized sk \<and> keys_sized ca \<and> keys_sized sa \<and>
    map ks_label (k_steps k) =
      [''HKDF-Extract(0, PSK)'', ''derived'', ''HKDF-Extract(Derived, (EC)DHE)'', ''c hs traffic'',
       ''s hs traffic'', ''derived'', ''HKDF-Extract(Derived, 0)'', ''c ap traffic'', ''s ap traffic'',
       ''exp master'', ''res master'']"
proof -
  let ?h = "su_hash s"
  let ?k0 = "ks_new P s psk"
  have h0: "?h = su_hash (k_suite ?k0)" by (simp add: ks_new_fields)
  obtain k1 where 1: "enter_handshake P dhe th1 ?k0 = Some (Inr (), k1)" "k_suite k1 = s"
      "master_secret k1 = rfc_master P ?h psk dhe"
      "client_handshake k1 = Some (keys_of P s (label_hmac P ?h (rfc_handshake P ?h psk dhe) ''c hs traffic'' th1))"
      "server_handshake k1 = Some (keys_of P s (label_hmac P ?h (rfc_handshake P ?h psk dhe) ''s hs traffic'' th1))"
      "map ks_label (k_steps k1) = [''HKDF-Extract(0, PSK)'', ''derived'', ''HKDF-Extract(Derived, (EC)DHE)'',
        ''c hs traffic'', ''s hs traffic'', ''derived'', ''HKDF-Extract(Derived, 0)'']"
    using enter_handshake_result [OF assms h0, of psk dhe th1] by (auto simp: ks_new_fields)
  obtain k2 where 2: "enter_application P th2 k1 = Some (Inr (), k2)" "k_suite k2 = s"
      "master_secret k2 = master_secret k1" "client_handshake k2 = client_handshake k1"
      "server_handshake k2 = server_handshake k1"
      "client_application k2 = Some (keys_of P s (label_hmac P ?h (master_secret k1) ''c ap traffic'' th2))"
      "server_application k2 = Some (keys_of P s (label_hmac P ?h (master_secret k1) ''s ap traffic'' th2))"
      "map ks_label (k_steps k2) = map ks_label (k_steps k1) @ [''c ap traffic'', ''s ap traffic'', ''exp master'']"
    using enter_application_result [where k = k1 and th = th2, OF assms refl refl] 1(2) by auto
  obtain k3 where 3: "derive_resumption_master P th3 k2 =
        Some (Inr (label_hmac P ?h (master_secret k1) ''res master'' th3), k3)"
      "client_handshake k3 = client_handshake k2" "server_handshake k3 = server_handshake k2"
      "client_application k3 = client_application k2" "server_application k3 = server_application k2"
      "map ks_label (k_steps k3) = map ks_label (k_steps k2) @ [''res master'']"
    using derive_resumption_master_result [where k = k2 and th = th3, OF assms refl refl] 2(2,3) by auto
  have s: "tk_secret (keys_of P s x) = x \<and> keys_sized (keys_of P s x)" for x
    using keys_of_sized [OF assms] by (simp add: keys_of_def)
  show ?thesis using s 1 2 3 by (simp add: st_bind_def)
qed

theorem key_schedule_complete_witness:
  "\<exists>r k. st_bind (enter_handshake demo [9] [1]) (\<lambda>_. st_bind (enter_application demo [2])
     (\<lambda>_. derive_resumption_master demo [3])) (ks_new demo demo_suite None) = Some (Inr r, k) \<and> length (k_steps k) = 11"
  using key_schedule_complete [OF demo_sized, of "[9]" "[1]" "[2]" "[3]" demo_suite None]
  by (force dest: map_eq_imp_length_eq)

text \<open>the transcript after a HelloRetryRequest. Pushing messages, replacing what is
  there by the synthetic \<open>message_hash\<close> and pushing more gives the hash of the synthetic message
  followed by the later messages; the synthetic message is itself a well-formed handshake message of
  type \<open>message_hash\<close> whose body is the hash of the first flight; and a label used once is
  found with the hash of everything up to its message.\<close>

theorem hello_retry_transcript:
  assumes "length (p_digest P h (concat (map fst ms1))) = hash_len h"
  shows "current P (push_all P ms2 (replace_with_message_hash P (push_all P ms1 (transcript_new h)))) =
      p_digest P h (encode_handshake HS_MESSAGE_HASH (p_digest P h (concat (map fst ms1))) @ concat (map fst ms2)) \<and>
    (distinct (map snd ms1) \<longrightarrow> (\<forall>i < length ms1.
       transcript_at (snd (ms1 ! i)) (push_all P ms1 (transcript_new h)) =
         Some (p_digest P h (concat (map fst (take (Suc i) ms1))))))"
proof -
  let ?t = "push_all P ms1 (transcript_new h)"
  have t: "t_bytes ?t = concat (map fst ms1)" "t_hash ?t = h"
    by (simp_all add: push_all_bytes transcript_new_def)
  have "be_bytes 3 (hash_len h) = [0, 0, word_of_nat (hash_len h)]"
    by (cases h) (simp_all add: be_bytes_def numeral_3_eq_3)
  then have "encode_handshake HS_MESSAGE_HASH (p_digest P h (concat (map fst ms1))) =
      [254, 0, 0, word_of_nat (hash_len h)] @ p_digest P h (concat (map fst ms1))"
    using assms by (simp add: encode_handshake_eq HS_MESSAGE_HASH_def)
  then have 1: "current P (push_all P ms2 (replace_with_message_hash P ?t)) =
      p_digest P h (encode_handshake HS_MESSAGE_HASH (p_digest P h (concat (map fst ms1))) @ concat (map fst ms2))"
    by (simp add: current_def push_all_bytes replace_with_message_hash_def Let_def t transcript_new_def)
  have "transcript_at (snd (ms1 ! i)) ?t = Some (p_digest P h (concat (map fst (take (Suc i) ms1))))"
    if d: "distinct (map snd ms1)" and i: "i < length ms1" for i
  proof -
    let ?f = "\<lambda>i. (snd (ms1 ! i), p_digest P h (concat (map fst (take (Suc i) ms1))))"
    have c: "t_checkpoints ?t = map ?f [0..<length ms1]"
      by (simp add: push_all_checkpoints transcript_new_def)
    have "find (\<lambda>(l, _). l = snd (ms1 ! i)) (map ?f [0..<length ms1]) = Some (?f i)"
      unfolding find_Some_iff using i d
      by (auto intro!: exI [of _ i] simp: distinct_conv_nth)
    then show ?thesis by (simp add: transcript_at_def c)
  qed
  with 1 show ?thesis by blast
qed

theorem hello_retry_transcript_witness:
  "transcript_at ''server_hello'' (push_all demo [([1, 0, 0, 0], ''client_hello''), ([2, 0, 0, 0], ''server_hello'')]
     (transcript_new Sha384)) = Some (replicate 48 8)"
  using hello_retry_transcript [of demo Sha384 "[([1, 0, 0, 0], ''client_hello''), ([2, 0, 0, 0], ''server_hello'')]" "[]"]
  by (simp add: demo_def All_less_Suc)

section \<open>Code points and signed content\<close>

lemma all16: "(\<forall>n<16. P n) \<longleftrightarrow> list_all P [0,1,2,3,4,5,6,7,8,9,10,11,12,13,14,15::nat]"
proof -
  have "[0..<16] = [0,1,2,3,4,5,6,7,8,9,10,11,12,13,14,15::nat]" by code_simp
  from this [symmetric] show ?thesis by (simp add: list_all_iff lessThan_iff Ball_def)
qed

lemma u16_eq_bits:
  "(v :: u16) = w \<longleftrightarrow> list_all (\<lambda>n. bit v n = bit w n) [0,1,2,3,4,5,6,7,8,9,10,11,12,13,14,15]"
  unfolding all16 [symmetric] by (auto intro: bit_word_eqI)

lemma grease_low: "v AND 0x0f0f = (0x0a0a :: u16) \<longleftrightarrow>
   \<not> bit v 0 \<and> bit v 1 \<and> \<not> bit v 2 \<and> bit v 3 \<and> \<not> bit v 8 \<and> bit v 9 \<and> \<not> bit v 10 \<and> bit v 11"
  unfolding u16_eq_bits list.pred_inject by (simp add: bit_simps)

lemma no_high_bit: "16 \<le> n \<Longrightarrow> \<not> bit (v :: u16) n"
  using bit_imp_le_length [of v n] by auto

lemma grease_high: "drop_bit 12 v = drop_bit 4 (v :: u16) AND 0x0f \<longleftrightarrow>
   bit v 12 = bit v 4 \<and> bit v 13 = bit v 5 \<and> bit v 14 = bit v 6 \<and> bit v 15 = bit v 7"
  unfolding u16_eq_bits list.pred_inject by (simp add: bit_simps no_high_bit)

lemma grease_form:
  "is_grease v \<Longrightarrow> v = (push_bit 12 (drop_bit 12 v) OR push_bit 4 (drop_bit 12 v)) OR 0x0a0a"
  unfolding is_grease_def grease_low grease_high u16_eq_bits list.pred_inject by (simp add: bit_simps)

lemma drop12: "unat (drop_bit 12 (v :: u16)) < 16"
  using u16_lt [of v] by (simp add: unat_drop_bit_eq) (simp add: drop_bit_eq_div)

text \<open>GREASE. The bit test recognises exactly the sixteen reserved values, and the
  generated list holds each of them once, so a GREASE value sent as an unknown one is never
  mistaken for a value the client knows.\<close>

theorem grease_exact:
  "(\<forall>v. is_grease v \<longleftrightarrow> v \<in> set grease_values) \<and> distinct grease_values \<and> length grease_values = 16"
proof -
  have "v \<in> set grease_values" if "is_grease v" for v
  proof -
    from grease_form [OF that] have "v = (\<lambda>i. (push_bit 12 (word_of_nat i) OR push_bit 4 (word_of_nat i)) OR 0x0a0a)
        (unat (drop_bit 12 v))" by simp
    then show ?thesis
      using drop12 [of v] unfolding grease_values_def set_map by (intro image_eqI) simp_all
  qed
  moreover have "list_all is_grease grease_values \<and> distinct grease_values \<and> length grease_values = 16"
    by code_simp
  ultimately show ?thesis by (auto simp: list_all_iff)
qed

text \<open>no signature serves both roles. What a server signs in CertificateVerify
  never equals what a client signs, whatever the transcript hashes, and each determines its
  transcript hash.\<close>

theorem signed_contents_separate:
  "server_signed_content a \<noteq> client_signed_content b \<and>
   (server_signed_content a = server_signed_content a' \<longleftrightarrow> a = a')"
  by (simp add: server_signed_content_def client_signed_content_def signed_content_def
      SERVER_CV_CONTEXT_def CLIENT_CV_CONTEXT_def as_bytes_def)

section \<open>Waiting for the server to close\<close>

text \<open>C40: what \<open>expect_closed\<close> does with buffered bytes when the server stays silent.
  With no time left it fails and keeps the bytes already buffered; when the time runs out inside
  the wait for the socket it fails with the same error and the buffered bytes are gone.\<close>

theorem expect_closed_drops_buffer:
  assumes "c_net c = []"
  shows "expect_closed 0 c = Some (Inl (E_Timeout ''the server to close the connection''), c) \<and>
    expect_closed (Suc t) c = Some (Inl (E_Timeout ''the server to close the connection''),
      c\<lparr>c_inbuf := [], c_now := c_now c + Suc t\<rparr>)"
  using assms by (simp add: expect_closed_def closed_loop.simps fill_def)

theorem expect_closed_drops_buffer_witness:
  "expect_closed 5 ((conn_connect 10 [])\<lparr>c_inbuf := [21, 3, 3]\<rparr>) =
     Some (Inl (E_Timeout ''the server to close the connection''), (conn_connect 10 [])\<lparr>c_inbuf := [], c_now := 5\<rparr>)"
  using expect_closed_drops_buffer [of "(conn_connect 10 [])\<lparr>c_inbuf := [21, 3, 3]\<rparr>" 4]
  by (simp add: conn_connect_def)

section \<open>Hexadecimal\<close>

lemma hex_digit_char: "d < 16 \<Longrightarrow> hex_digit (digit_char d) = Some d"
  by (auto simp: hex_digit_def digit_char_def Let_def)

lemma digit_char_plain: "d < 16 \<Longrightarrow> digit_char d \<noteq> CHR ''+'' \<and> \<not> is_whitespace (digit_char d)"
proof -
  assume d: "d < 16"
  have "of_char (digit_char d) = (if d < 10 then 48 + d else 87 + d)" using d by (simp add: digit_char_def)
  moreover have "(of_char (CHR ''+'') :: nat) = 43" by simp
  ultimately have "of_char (digit_char d) \<noteq> (of_char (CHR ''+'') :: nat)" "\<not> is_whitespace (digit_char d)"
    using d by (auto simp: is_whitespace_def Let_def)
  then show ?thesis by metis
qed

lemma byte_nibbles: "unat (b :: u8) div 16 < 16" "unat b mod 16 < 16"
  using byte_lt [of b] by (simp_all add: div_less_iff_less_mult)

lemma unhex_pairs_hex: "unhex_pairs (hex bs) = Some bs"
proof (induction bs)
  case (Cons b bs)
  have "16 * word_of_nat (unat b div 16) + word_of_nat (unat b mod 16) =
      (word_of_nat (16 * (unat b div 16) + unat b mod 16) :: u8)"
    unfolding of_nat_add of_nat_mult by simp
  also have "16 * (unat b div 16) + unat b mod 16 = unat b" by (rule mult_div_mod_eq)
  also have "(word_of_nat (unat b) :: u8) = b" by simp
  finally have "from_str_radix16 (digit_char (unat b div 16)) (digit_char (unat b mod 16)) = Some b"
    using digit_char_plain [OF byte_nibbles(1)] byte_nibbles [of b]
    by (simp add: from_str_radix16_def hex_digit_char)
  then show ?case using Cons by (simp add: hex_def hex2_def)
qed (simp add: hex_def)

text \<open>hexadecimal round trip. Decoding the hexadecimal text of any bytes gives the
  bytes back, and white space anywhere in the text does not matter.\<close>

theorem unhex_hex: "filter (\<lambda>c. \<not> is_whitespace c) text = hex bs \<Longrightarrow> unhex text = Some bs"
proof -
  assume t: "filter (\<lambda>c. \<not> is_whitespace c) text = hex bs"
  have "length (hex bs) = 2 * length bs" by (induction bs) (simp_all add: hex_def hex2_def)
  then show ?thesis by (simp add: unhex_def Let_def t unhex_pairs_hex)
qed

theorem unhex_hex_witness: "unhex '' 0a ff'' = Some [10, 255]"
  by (rule unhex_hex) code_simp

text \<open>The radix parser of the standard library also takes a sign, so text that is not
  hexadecimal at all decodes.\<close>

lemma unhex_accepts_sign: "unhex ''+f'' = Some [15]"
  by code_simp

end
