(* ===== verification/Utf8.thy ===== *)
theory Utf8
  imports Bytes
begin

text \<open>
  UTF-8 as the standard library reads it: the sequences \<open>String::from_utf8\<close> accepts, and
  \<open>String::from_utf8_lossy\<close>, which puts a replacement character for every maximal invalid part.
\<close>

definition cont :: "u8 \<Rightarrow> bool" where
  "cont b \<longleftrightarrow> 128 \<le> unat b \<and> unat b \<le> 191"

fun utf8_valid :: "bytes \<Rightarrow> bool" where
  "utf8_valid [] = True"
| "utf8_valid (a # as) =
     (let n = unat a in
      if n < 128 then utf8_valid as
      else if 194 \<le> n \<and> n \<le> 223 then
        (case as of b # bs \<Rightarrow> cont b \<and> utf8_valid bs | [] \<Rightarrow> False)
      else if 224 \<le> n \<and> n \<le> 239 then
        (case as of
           b # c # bs \<Rightarrow> cont b \<and> (n = 224 \<longrightarrow> 160 \<le> unat b) \<and> (n = 237 \<longrightarrow> unat b \<le> 159) \<and>
             cont c \<and> utf8_valid bs
         | _ \<Rightarrow> False)
      else if 240 \<le> n \<and> n \<le> 244 then
        (case as of
           b # c # d # bs \<Rightarrow> cont b \<and> (n = 240 \<longrightarrow> 144 \<le> unat b) \<and> (n = 244 \<longrightarrow> unat b \<le> 143) \<and>
             cont c \<and> cont d \<and> utf8_valid bs
         | _ \<Rightarrow> False)
      else False)"

lemma utf8_ascii: "\<forall>b \<in> set bs. unat b < 128 \<Longrightarrow> utf8_valid bs"
  by (induction bs) (auto simp: Let_def)

text \<open>The first part of a byte string: how many bytes it takes, and whether they are a character.\<close>

definition cont_at :: "nat \<Rightarrow> bytes \<Rightarrow> bool" where
  "cont_at i bs \<longleftrightarrow> i < length bs \<and> cont (bs ! i)"

definition second_ok :: "nat \<Rightarrow> bytes \<Rightarrow> bool" where
  "second_ok n bs \<longleftrightarrow>
     cont_at 1 bs \<and> (n = 224 \<longrightarrow> 160 \<le> unat (bs ! 1)) \<and> (n = 237 \<longrightarrow> unat (bs ! 1) \<le> 159) \<and>
     (n = 240 \<longrightarrow> 144 \<le> unat (bs ! 1)) \<and> (n = 244 \<longrightarrow> unat (bs ! 1) \<le> 143)"

definition utf8_part :: "bytes \<Rightarrow> nat \<times> bool" where
  "utf8_part bs =
     (let n = unat (bs ! 0) in
      if n < 128 then (1, True)
      else if 194 \<le> n \<and> n \<le> 223 then (if cont_at 1 bs then (2, True) else (1, False))
      else if 224 \<le> n \<and> n \<le> 239 then
        (if \<not> second_ok n bs then (1, False) else if cont_at 2 bs then (3, True) else (2, False))
      else if 240 \<le> n \<and> n \<le> 244 then
        (if \<not> second_ok n bs then (1, False)
         else if \<not> cont_at 2 bs then (2, False)
         else if cont_at 3 bs then (4, True) else (3, False))
      else (1, False))"

definition REPLACEMENT :: bytes where "REPLACEMENT = [0xEF, 0xBF, 0xBD]"

function utf8_lossy :: "bytes \<Rightarrow> bytes" where
  "utf8_lossy bs =
     (if bs = [] then []
      else
        (case utf8_part bs of
           (k, ok) \<Rightarrow> (if ok then take k bs else REPLACEMENT) @ utf8_lossy (drop k bs)))"
  by pat_completeness auto
termination
  by (relation "measure length") (auto simp: utf8_part_def Let_def split: if_splits)

declare utf8_lossy.simps [simp del]

lemma utf8_lossy_Nil [simp]: "utf8_lossy [] = []"
  by (simp add: utf8_lossy.simps)

lemma utf8_part_valid:
  assumes "utf8_valid bs" "bs \<noteq> []"
  shows "\<exists>k. utf8_part bs = (k, True) \<and> 0 < k \<and> utf8_valid (drop k bs)"
  using assms
  by (cases bs rule: utf8_valid.cases)
     (auto simp: utf8_part_def second_ok_def cont_at_def Let_def split: if_splits list.splits)

lemma utf8_lossy_valid [simp]: "utf8_valid bs \<Longrightarrow> utf8_lossy bs = bs"
proof (induction "length bs" arbitrary: bs rule: less_induct)
  case less
  show ?case
  proof (cases "bs = []")
    case False
    obtain k where k: "utf8_part bs = (k, True)" "0 < k" "utf8_valid (drop k bs)"
      using utf8_part_valid [OF less(2) False] by blast
    then have "utf8_lossy (drop k bs) = drop k bs" using less(1) [of "drop k bs"] False by simp
    then show ?thesis using k by (subst utf8_lossy.simps) (simp add: False)
  qed simp
qed

text \<open>Text as its bytes, and back.\<close>

definition as_chars :: "bytes \<Rightarrow> string" where
  "as_chars bs = map (\<lambda>b. char_of (unat b)) bs"

lemma as_chars_as_bytes [simp]: "as_chars (as_bytes s) = s"
proof -
  have "char_of (unat (word_of_nat (of_char c) :: u8)) = c" for c :: char
    by (simp add: unat_of_nat)
  then show ?thesis by (simp add: as_chars_def as_bytes_def comp_def)
qed

lemma length_as_bytes [simp]: "length (as_bytes s) = length s"
  by (simp add: as_bytes_def)

definition lossy_text :: "bytes \<Rightarrow> string" where
  "lossy_text bs = as_chars (utf8_lossy bs)"

end
