(* ===== verification/Leb128.thy ===== *)
theory Leb128
  imports Text Utf8
begin

text \<open>
  The variable-length integers the wire formats share: the unsigned LEB128 loops of
  \<^verbatim>\<open>kafkatest/src/proto/records.rs\<close> (\<open>put_uvarlong\<close>, read back by \<open>Cursor::uvarlong\<close>),
  \<^verbatim>\<open>kafkatest/src/proto/meta.rs\<close> (\<open>Enc::uvarint\<close>) and \<^verbatim>\<open>wasmtest/src/wasm/encode.rs\<close> (\<open>uleb\<close>), their value,
  and zig-zag.
\<close>

section \<open>Unsigned LEB128\<close>

lemma unat_drop_7: "unat (drop_bit 7 v) = unat v div 128" for v :: "'a::len word"
  by (simp add: unat_drop_bit_eq) (simp add: drop_bit_eq_div)

text \<open>\<open>while v >= 0x80 { out.push((v as u8) | 0x80); v >>= 7 } out.push(v as u8)\<close>\<close>

function put_uvarlong :: "u64 \<Rightarrow> bytes" where
  "put_uvarlong v =
     (if v \<ge> 0x80 then (ucast v OR 0x80) # put_uvarlong (drop_bit 7 v) else [ucast v])"
  by pat_completeness auto
termination
  by (relation "measure unat") (auto simp: unat_drop_7 word_le_nat_alt)

declare put_uvarlong.simps [simp del]

text \<open>The same loop on a \<open>u32\<close>.\<close>

function put_uvarint :: "u32 \<Rightarrow> bytes" where
  "put_uvarint v =
     (if v \<ge> 0x80 then (ucast v OR 0x80) # put_uvarint (drop_bit 7 v) else [ucast v])"
  by pat_completeness auto
termination
  by (relation "measure unat") (auto simp: unat_drop_7 word_le_nat_alt)

declare put_uvarint.simps [simp del]

text \<open>The reference: base 128 digits, least significant first, all but the last flagged.\<close>

function uleb_nat :: "nat \<Rightarrow> bytes" where
  "uleb_nat n = (if n < 128 then [word_of_nat n] else word_of_nat (n mod 128 + 128) # uleb_nat (n div 128))"
  by pat_completeness auto
termination by (relation "measure id") auto

declare uleb_nat.simps [simp del]

lemma ucast_nat: "(ucast v :: 'b::len word) = word_of_nat (unat v)" for v :: "'a::len word"
  by (rule of_nat_unat [symmetric])

text \<open>A fact about every byte can be checked on the 256 bytes.\<close>

lemma u8_all: "list_all (\<lambda>n. P (word_of_nat n)) [0..<256] \<Longrightarrow> P (b :: u8)"
proof -
  assume "list_all (\<lambda>n. P (word_of_nat n)) [0..<256]"
  moreover have "unat b \<in> set [0..<256]" using byte_lt [of b] by simp
  ultimately have "P (word_of_nat (unat b))" unfolding list_all_iff by (rule bspec)
  then show ?thesis by simp
qed

lemma flag_u8: "b OR 0x80 = word_of_nat (unat b mod 128 + 128)" for b :: u8
  by (rule u8_all [of "\<lambda>b. b OR 0x80 = word_of_nat (unat b mod 128 + 128)"]) code_simp

lemma flag_byte: "(ucast v OR 0x80 :: u8) = word_of_nat (unat v mod 128 + 128)" for v :: "'a::len word"
proof -
  have "unat (ucast v :: u8) mod 128 = unat v mod 128"
    by (simp only: ucast_nat unat_byte) (simp add: mod_mod_cancel)
  then show ?thesis by (simp only: flag_u8)
qed

lemma put_uvarlong_nat: "put_uvarlong v = uleb_nat (unat v)"
proof (induction v rule: put_uvarlong.induct)
  case (1 v)
  show ?case
  proof (cases "0x80 \<le> v")
    case True
    then have "\<not> unat v < 128" by (simp add: word_le_nat_alt)
    then have "uleb_nat (unat v) = word_of_nat (unat v mod 128 + 128) # uleb_nat (unat (drop_bit 7 v))"
      by (subst uleb_nat.simps) (simp add: unat_drop_7)
    moreover have "put_uvarlong v = (ucast v OR 0x80) # put_uvarlong (drop_bit 7 v)"
      using True by (subst put_uvarlong.simps) simp
    ultimately show ?thesis using 1 [OF True] by (simp only: flag_byte)
  next
    case False
    then have "unat v < 128" by (simp add: word_le_nat_alt)
    then have "uleb_nat (unat v) = [ucast v]" by (subst uleb_nat.simps) simp
    moreover have "put_uvarlong v = [ucast v]" using False by (subst put_uvarlong.simps) simp
    ultimately show ?thesis by simp
  qed
qed

lemma put_uvarint_nat: "put_uvarint v = uleb_nat (unat v)"
proof (induction v rule: put_uvarint.induct)
  case (1 v)
  show ?case
  proof (cases "0x80 \<le> v")
    case True
    then have "\<not> unat v < 128" by (simp add: word_le_nat_alt)
    then have "uleb_nat (unat v) = word_of_nat (unat v mod 128 + 128) # uleb_nat (unat (drop_bit 7 v))"
      by (subst uleb_nat.simps) (simp add: unat_drop_7)
    moreover have "put_uvarint v = (ucast v OR 0x80) # put_uvarint (drop_bit 7 v)"
      using True by (subst put_uvarint.simps) simp
    ultimately show ?thesis using 1 [OF True] by (simp only: flag_byte)
  next
    case False
    then have "unat v < 128" by (simp add: word_le_nat_alt)
    then have "uleb_nat (unat v) = [ucast v]" by (subst uleb_nat.simps) simp
    moreover have "put_uvarint v = [ucast v]" using False by (subst put_uvarint.simps) simp
    ultimately show ?thesis by simp
  qed
qed

lemma put_uvarint_uvarlong: "put_uvarint v = put_uvarlong (ucast v)"
proof -
  have "unat (ucast v :: u64) = unat v mod 2 ^ 64"
    by (simp only: ucast_nat unat_of_nat) simp
  then show ?thesis using u32_lt [of v] by (simp add: put_uvarint_nat put_uvarlong_nat)
qed

lemma length_uleb_nat: "n < 128 ^ Suc k \<Longrightarrow> length (uleb_nat n) \<le> Suc k"
proof (induction k arbitrary: n)
  case 0
  then show ?case by (subst uleb_nat.simps) simp
next
  case (Suc k)
  then have "n div 128 < 128 ^ Suc k" by (simp add: less_mult_imp_div_less mult.commute)
  then show ?case using Suc.IH [of "n div 128"] by (subst uleb_nat.simps) simp
qed


section \<open>Zig-zag\<close>

text \<open>\<open>((v << 1) ^ (v >> 31)) as u32\<close> on \<open>i32\<close>, and its inverse; the same with 63 on \<open>i64\<close>.\<close>

definition zigzag32 :: "32 word \<Rightarrow> u32" where
  "zigzag32 v = push_bit 1 v XOR signed_drop_bit 31 v"

definition unzigzag32 :: "u32 \<Rightarrow> 32 word" where
  "unzigzag32 v = drop_bit 1 v XOR - (v AND 1)"

definition zigzag64 :: "64 word \<Rightarrow> u64" where
  "zigzag64 v = push_bit 1 v XOR signed_drop_bit 63 v"

definition unzigzag64 :: "u64 \<Rightarrow> 64 word" where
  "unzigzag64 v = drop_bit 1 v XOR - (v AND 1)"

lemma sign_fill: "LENGTH('a) = Suc n \<Longrightarrow> signed_drop_bit n v = (if bit v n then - 1 else 0)"
  for v :: "'a::len word"
  by (rule bit_word_eqI) (auto simp: bit_simps not_less le_less less_Suc_eq)

lemma zigzag_inverse:
  fixes v :: "'a::len word"
  assumes n: "LENGTH('a) = Suc n"
  shows "drop_bit 1 (push_bit 1 v XOR signed_drop_bit n v) XOR - ((push_bit 1 v XOR signed_drop_bit n v) AND 1) = v"
proof -
  define w where "w = push_bit 1 v"
  have w: "bit w i \<longleftrightarrow> 0 < i \<and> i < Suc n \<and> bit v (i - 1)" for i
    by (simp only: w_def bit_push_bit_iff) (use n in auto)
  have "drop_bit 1 (w XOR signed_drop_bit n v) XOR - ((w XOR signed_drop_bit n v) AND 1) = v"
  proof (cases "bit v n")
    case True
    have "(w XOR - 1) AND 1 = 1"
      by (rule bit_word_eqI) (auto simp: bit_and_iff bit_xor_iff bit_1_iff bit_not_iff w)
    moreover have "drop_bit 1 (w XOR - 1) XOR - 1 = v"
      using True n by (intro bit_word_eqI) (auto simp: bit_simps w less_Suc_eq)
    ultimately show ?thesis using True by (simp add: sign_fill [OF n])
  next
    case False
    have "w AND 1 = 0"
      by (rule bit_word_eqI) (auto simp: bit_and_iff bit_1_iff w)
    moreover have "drop_bit 1 w = v"
      using False n by (intro bit_word_eqI) (auto simp: bit_simps w less_Suc_eq)
    ultimately show ?thesis using False by (simp add: sign_fill [OF n])
  qed
  then show ?thesis by (simp only: w_def)
qed

lemma unzigzag_zigzag [codec, simp]: "unzigzag32 (zigzag32 v) = v" "unzigzag64 (zigzag64 w) = w"
  unfolding unzigzag32_def zigzag32_def unzigzag64_def zigzag64_def
  by (rule zigzag_inverse, simp)+

end
