(* ===== verification/Kafka_Cursor.thy ===== *)
theory Kafka_Cursor
  imports Leb128
begin

text \<open>
  The bounds-checked \<open>Cursor\<close> of \<^verbatim>\<open>kafkatest/src/proto/records.rs\<close> and the contract its readers keep
  with the writers: the locale \<open>cursor_codec\<close>. An error is the \<open>anyhow\<close> chain, outermost context first.
  Signed integers are words read with \<open>sint\<close>; arithmetic that overflows wraps, as in a release build.
\<close>

type_synonym chain = "string list"

record cursor =
  cu_buf :: bytes
  cu_pos :: nat

type_synonym 'a cur = "(cursor, chain, 'a) st"

text \<open>\<open>.context(l)?\<close>\<close>

definition with_context :: "string \<Rightarrow> 'a cur \<Rightarrow> 'a cur" where
  "with_context l p c =
     (case p c of
        Some (Inl e, c') \<Rightarrow> Some (Inl (l # e), c')
      | other \<Rightarrow> other)"

lemma with_context_ok [simp]: "with_context l p c = Some (Inr x, c') \<longleftrightarrow> p c = Some (Inr x, c')"
  by (auto simp: with_context_def split: option.splits sum.splits)

definition bail :: "string \<Rightarrow> 'a cur" where
  "bail m = st_fail [m]"

definition cursor_new :: "bytes \<Rightarrow> cursor" where
  "cursor_new bs = \<lparr>cu_buf = bs, cu_pos = 0\<rparr>"

definition cu_remaining :: "cursor \<Rightarrow> nat" where
  "cu_remaining c = length (cu_buf c) - cu_pos c"

definition cu_take :: "nat \<Rightarrow> bytes cur" where
  "cu_take n c =
     (if cu_remaining c < n
      then Some (Inl [''need '' @ show_nat n @ '' bytes, '' @ show_nat (cu_remaining c) @ '' remain''], c)
      else Some (Inr (slice (cu_pos c) (cu_pos c + n) (cu_buf c)), c\<lparr>cu_pos := cu_pos c + n\<rparr>))"

definition cu_i8 :: "8 word cur" where
  "cu_i8 = st_bind (cu_take 1) (\<lambda>b. st_return (b ! 0))"

definition cu_i16 :: "16 word cur" where
  "cu_i16 = st_bind (cu_take 2) (\<lambda>b. st_return (u16_from_be [b ! 0, b ! 1]))"

definition cu_i32 :: "32 word cur" where
  "cu_i32 = st_bind (cu_take 4) (\<lambda>b. st_return (u32_from_be [b ! 0, b ! 1, b ! 2, b ! 3]))"

definition cu_u32 :: "u32 cur" where
  "cu_u32 = cu_i32"

definition cu_i64 :: "64 word cur" where
  "cu_i64 = st_bind (cu_take 8) (\<lambda>b. st_return (u64_from_be b))"

function uvarlong_loop :: "nat \<Rightarrow> u64 \<Rightarrow> cursor \<Rightarrow> ((chain + u64) \<times> cursor) option" where
  "uvarlong_loop shift out c =
     (if shift > 63 then bail ''varint is longer than 10 bytes'' c
      else case cu_take 1 c of
             None \<Rightarrow> None
           | Some (Inl e, c1) \<Rightarrow> Some (Inl e, c1)
           | Some (Inr bs, c1) \<Rightarrow>
               (let b = bs ! 0;
                    out' = out OR push_bit shift (ucast (b AND 0x7f))
                in if b AND 0x80 = 0 then Some (Inr out', c1)
                   else uvarlong_loop (shift + 7) out' c1))"
  by pat_completeness auto
termination by (relation "measure (\<lambda>(s, o', c). 64 - s)") auto

declare uvarlong_loop.simps [simp del]

definition cu_uvarlong :: "u64 cur" where
  "cu_uvarlong = uvarlong_loop 0 0"

definition cu_varint :: "32 word cur" where
  "cu_varint =
     st_bind cu_uvarlong (\<lambda>v.
     if unat v > 4294967295 then bail ''varint does not fit in 32 bits''
     else st_return (unzigzag32 (ucast v)))"

definition cu_varlong :: "64 word cur" where
  "cu_varlong = st_bind cu_uvarlong (\<lambda>v. st_return (unzigzag64 v))"

definition cu_nullable :: "bytes option cur" where
  "cu_nullable =
     st_bind cu_varint (\<lambda>n.
     if n = - 1 then st_return None
     else if sint n < 0 then bail (''length '' @ show_int (sint n) @ '' is negative but not -1'')
     else st_bind (cu_take (nat (sint n))) (\<lambda>bs. st_return (Some bs)))"

section \<open>Writers\<close>

definition put_varint :: "32 word \<Rightarrow> bytes" where
  "put_varint v = put_uvarlong (ucast (zigzag32 v))"

definition put_varlong :: "64 word \<Rightarrow> bytes" where
  "put_varlong v = put_uvarlong (zigzag64 v)"

definition put_nullable :: "bytes option \<Rightarrow> bytes" where
  "put_nullable v =
     (case v of None \<Rightarrow> put_varint (- 1) | Some b \<Rightarrow> put_varint (word_of_nat (length b)) @ b)"

section \<open>What is left of a cursor\<close>

definition cu_rest :: "cursor \<Rightarrow> bytes" where
  "cu_rest c = drop (cu_pos c) (cu_buf c)"

definition cu_adv :: "nat \<Rightarrow> cursor \<Rightarrow> cursor" where
  "cu_adv n c = c\<lparr>cu_pos := cu_pos c + n\<rparr>"

lemma cu_rest_adv [simp]: "cu_rest (cu_adv n c) = drop n (cu_rest c)"
  by (simp add: cu_rest_def cu_adv_def add.commute)

lemma cu_adv_adv [simp]: "cu_adv m (cu_adv n c) = cu_adv (n + m) c"
  by (simp add: cu_adv_def)

lemma cu_adv_0 [simp]: "cu_adv 0 c = c"
  by (simp add: cu_adv_def)

lemma cu_rest_new [simp]: "cu_rest (cursor_new bs) = bs"
  by (simp add: cu_rest_def cursor_new_def)

lemma cu_buf_adv [simp]: "cu_buf (cu_adv n c) = cu_buf c" "cu_pos (cu_adv n c) = cu_pos c + n"
  by (simp_all add: cu_adv_def)

lemma cu_remaining_rest: "cu_remaining c = length (cu_rest c)"
  by (simp add: cu_remaining_def cu_rest_def)

lemma cu_take_eq:
  "cu_take n c =
     (if length (cu_rest c) < n
      then Some (Inl [''need '' @ show_nat n @ '' bytes, '' @ show_nat (length (cu_rest c)) @ '' remain''], c)
      else Some (Inr (take n (cu_rest c)), cu_adv n c))"
  by (simp add: cu_take_def cu_remaining_rest slice_def cu_rest_def cu_adv_def)

section \<open>The codec contract\<close>

text \<open>A reader that meets the encoding of a good value returns the value and stands behind it.\<close>

locale cursor_codec =
  fixes enc :: "'a \<Rightarrow> bytes"
    and dec :: "'a cur"
    and ok :: "'a \<Rightarrow> bool"
  assumes dec_enc: "ok x \<Longrightarrow> cu_rest c = enc x @ tail \<Longrightarrow> dec c = Some (Inr x, cu_adv (length (enc x)) c)"
begin

lemma bind_enc:
  "ok x \<Longrightarrow> cu_rest c = enc x @ tail \<Longrightarrow> st_bind dec f c = f x (cu_adv (length (enc x)) c)"
  by (simp add: st_bind_def dec_enc)

lemma in_context: "cursor_codec enc (with_context l dec) ok"
  by unfold_locales (simp add: with_context_def dec_enc)

lemma whole: "ok x \<Longrightarrow> dec (cursor_new (enc x)) = Some (Inr x, cu_adv (length (enc x)) (cursor_new (enc x)))"
  by (rule dec_enc [where tail = "[]"]) simp_all

lemma enc_inj: "ok x \<Longrightarrow> ok y \<Longrightarrow> enc x = enc y \<Longrightarrow> x = y"
proof -
  assume x: "ok x" and y: "ok y" and e: "enc x = enc y"
  have "dec (cursor_new (enc y)) = Some (Inr x, cu_adv (length (enc y)) (cursor_new (enc y)))"
    using whole [OF x] unfolding e .
  then show "x = y" unfolding whole [OF y] by simp
qed

end

text \<open>A loop that reads one item per index.\<close>

lemma each_codec:
  assumes "\<And>i. cursor_codec enc (d i) ok"
  shows "\<forall>x \<in> set xs. ok x \<Longrightarrow> length ks = length xs \<Longrightarrow> cu_rest c = concat (map enc xs) @ tail \<Longrightarrow>
    st_each d ks c = Some (Inr xs, cu_adv (length (concat (map enc xs))) c)"
proof (induction xs arbitrary: ks c)
  case (Cons x xs)
  then obtain i js where i: "ks = i # js" "length js = length xs" by (cases ks) auto
  have "cu_rest c = enc x @ concat (map enc xs) @ tail" using Cons.prems(3) by simp
  note b = cursor_codec.dec_enc [OF assms [of i] _ this]
  have "st_each d js (cu_adv (length (enc x)) c) =
      Some (Inr xs, cu_adv (length (concat (map enc xs))) (cu_adv (length (enc x)) c))"
    by (rule Cons.IH) (use Cons.prems i in simp_all)
  from st_each_Cons_ok [where f = d, OF b this] show ?case using Cons.prems(1) by (simp add: i)
qed simp


section \<open>The readers keep it\<close>

lemma cursor_codecI_take:
  assumes "\<And>x. ok x \<Longrightarrow> length (enc x) = n" "\<And>x. ok x \<Longrightarrow> f (enc x) = x"
  shows "cursor_codec enc (st_bind (cu_take n) (\<lambda>b. st_return (f b))) ok"
proof
  fix x c tail assume x: "ok x" and r: "cu_rest c = enc x @ tail"
  have "cu_take n c = Some (Inr (enc x), cu_adv n c)"
    using r assms(1) [OF x] by (simp add: cu_take_eq)
  then show "st_bind (cu_take n) (\<lambda>b. st_return (f b)) c = Some (Inr x, cu_adv (length (enc x)) c)"
    using assms [OF x] by (simp add: st_bind_def)
qed

lemma nth_list:
  "length v = 2 \<Longrightarrow> [v ! 0, v ! 1] = v" "length v = 4 \<Longrightarrow> [v ! 0, v ! 1, v ! 2, v ! 3] = v"
  by (auto simp: numeral_eq_Suc length_Suc_conv)

interpretation ki8: cursor_codec "\<lambda>v. [v]" cu_i8 "\<lambda>_. True"
  unfolding cu_i8_def by (rule cursor_codecI_take) simp_all

interpretation ki16: cursor_codec u16_be cu_i16 "\<lambda>_. True"
  unfolding cu_i16_def by (rule cursor_codecI_take) (simp_all only: nth_list length_word_bytes from_word_bytes)

interpretation ki32: cursor_codec u32_be cu_i32 "\<lambda>_. True"
  unfolding cu_i32_def by (rule cursor_codecI_take) (simp_all only: nth_list length_word_bytes from_word_bytes)

interpretation ki64: cursor_codec u64_be cu_i64 "\<lambda>_. True"
  unfolding cu_i64_def by (rule cursor_codecI_take) simp_all

lemma low_u8: "b AND 0x7f = word_of_nat (unat b mod 128)" for b :: u8
  by (rule u8_all [of "\<lambda>b. b AND 0x7f = word_of_nat (unat b mod 128)"]) code_simp

lemma high_u8: "b AND 0x80 = 0 \<longleftrightarrow> unat b < 128" for b :: u8
  by (rule u8_all [of "\<lambda>b. b AND 0x80 = 0 \<longleftrightarrow> unat b < 128"]) code_simp

lemma low_byte: "(ucast (b AND 0x7f) :: u64) = word_of_nat (unat b mod 128)" for b :: u8
proof -
  have "(ucast (b AND 0x7f) :: u64) = word_of_nat (unat (b AND 0x7f))" by (rule ucast_nat)
  also have "unat (b AND 0x7f) = unat b mod 128" by (simp only: low_u8 unat_byte) (simp add: mod_mod_trivial)
  finally show ?thesis .
qed

lemma split_7: "n < 2 ^ 64 \<Longrightarrow> word_of_nat (n mod 128) OR push_bit 7 (word_of_nat (n div 128)) = (word_of_nat n :: u64)"
proof -
  assume n: "n < 2 ^ 64"
  let ?w = "word_of_nat n :: u64"
  have u: "unat ?w = n" using n by (simp add: unat_of_nat)
  have "word_of_nat (n div 128) = drop_bit 7 ?w"
    by (metis u unat_drop_7 of_nat_unat ucast_id)
  moreover have "word_of_nat (n mod 128) = take_bit 7 ?w"
  proof -
    have "unat (take_bit 7 ?w) = n mod 128"
      by (simp only: unsigned_take_bit_eq u) (simp add: take_bit_eq_mod)
    then show ?thesis by (metis of_nat_unat ucast_id)
  qed
  moreover have "take_bit 7 ?w OR push_bit 7 (drop_bit 7 ?w) = ?w"
  proof (rule bit_word_eqI)
    fix i assume "i < LENGTH(64)"
    then show "bit (take_bit 7 ?w OR push_bit 7 (drop_bit 7 ?w)) i = bit ?w i"
      by (cases "i < 7") (simp_all add: bit_or_iff bit_take_bit_iff bit_push_bit_iff bit_drop_bit_eq)
  qed
  ultimately show ?thesis by simp
qed


lemma uvarlong_loop_enc:
  "n < 2 ^ (64 - shift) \<Longrightarrow> shift \<le> 63 \<Longrightarrow> cu_rest c = uleb_nat n @ tail \<Longrightarrow>
     uvarlong_loop shift out c =
       Some (Inr (out OR push_bit shift (word_of_nat n)), cu_adv (length (uleb_nat n)) c)"
proof (induction n arbitrary: shift out c rule: uleb_nat.induct)
  case (1 n)
  show ?case
  proof (cases "n < 128")
    case True
    then have e: "uleb_nat n = [word_of_nat n]" by (subst uleb_nat.simps) simp
    have u: "unat (word_of_nat n :: u8) = n" using True by (simp add: unat_byte)
    have t: "cu_take 1 c = Some (Inr [word_of_nat n], cu_adv 1 c)"
      using 1(4) by (simp add: cu_take_eq e)
    show ?thesis
      using 1(3) True by (subst uvarlong_loop.simps) (simp add: t [unfolded One_nat_def] Let_def high_u8 low_byte u e)
  next
    case False
    define b where "b = (word_of_nat (n mod 128 + 128) :: u8)"
    have e: "uleb_nat n = b # uleb_nat (n div 128)"
      using False by (subst uleb_nat.simps) (simp add: b_def)
    have u: "unat b = n mod 128 + 128"
      unfolding b_def by (simp only: unat_byte) (use mod_less_divisor [of 128 n] in simp)
    have t: "cu_take 1 c = Some (Inr [b], cu_adv 1 c)" using 1(4) by (simp add: cu_take_eq e)
    have "7 < 64 - shift"
    proof (rule ccontr)
      assume "\<not> ?thesis"
      then have "(2::nat) ^ (64 - shift) \<le> 2 ^ 7" by (intro power_increasing) auto
      then show False using 1(2) False by simp
    qed
    then have s: "shift + 7 \<le> 63" "64 - shift = 7 + (64 - (shift + 7))" using 1(3) by simp_all
    have "n < 2 ^ 7 * 2 ^ (64 - (shift + 7))" using 1(2) by (simp only: s(2) power_add)
    then have d: "n div 128 < 2 ^ (64 - (shift + 7))" by (simp add: less_mult_imp_div_less mult.commute)
    have "n < 2 ^ 64" using 1(2) power_increasing [of "64 - shift" 64 "2 :: nat"] by simp
    then have w: "push_bit shift (word_of_nat (n mod 128)) OR push_bit (shift + 7) (word_of_nat (n div 128)) =
        (push_bit shift (word_of_nat n) :: u64)"
      by (simp only: push_bit_push_bit [symmetric] push_bit_or [symmetric] split_7)
    have "cu_rest (cu_adv 1 c) = uleb_nat (n div 128) @ tail" using 1(4) by (simp add: e)
    note ih = 1(1) [OF False d s(1) this]
    have "uvarlong_loop shift out c =
        uvarlong_loop (shift + 7) (out OR push_bit shift (word_of_nat (n mod 128))) (cu_adv 1 c)"
      using 1(3) by (subst uvarlong_loop.simps) (simp add: t [unfolded One_nat_def] Let_def high_u8 low_byte u)
    also have "\<dots> = Some (Inr ((out OR push_bit shift (word_of_nat (n mod 128))) OR
        push_bit (shift + 7) (word_of_nat (n div 128))), cu_adv (length (uleb_nat (n div 128))) (cu_adv 1 c))"
      by (rule ih)
    finally show ?thesis using w by (simp add: e or.assoc)
  qed
qed

interpretation kuv: cursor_codec put_uvarlong cu_uvarlong "\<lambda>_. True"
proof
  fix v c tail assume "cu_rest c = put_uvarlong v @ tail"
  then have "cu_rest c = uleb_nat (unat v) @ tail" by (simp only: put_uvarlong_nat)
  then show "cu_uvarlong c = Some (Inr v, cu_adv (length (put_uvarlong v)) c)"
    using uvarlong_loop_enc [of "unat v" 0 c tail 0] u64_lt [of v]
    by (simp add: cu_uvarlong_def put_uvarlong_nat)
qed


lemma unat_ucast_64: "unat (ucast (v :: u32) :: u64) = unat v"
proof -
  have "unat (ucast v :: u64) = unat v mod 2 ^ 64"
    by (simp only: ucast_nat unat_of_nat) simp
  then show ?thesis using u32_lt [of v] by simp
qed

lemma ucast_ucast_32: "(ucast (ucast (v :: u32) :: u64) :: u32) = v"
  by (simp only: ucast_nat [of "ucast v :: u64"] unat_ucast_64) simp

interpretation kvar: cursor_codec put_varint cu_varint "\<lambda>_. True"
proof
  fix v c tail assume "cu_rest c = put_varint v @ tail"
  then have r: "cu_rest c = put_uvarlong (ucast (zigzag32 v)) @ tail" by (simp add: put_varint_def)
  have "\<not> unat (ucast (zigzag32 v) :: u64) > 4294967295"
    using u32_lt [of "zigzag32 v"] by (simp add: unat_ucast_64)
  then show "cu_varint c = Some (Inr v, cu_adv (length (put_varint v)) c)"
    unfolding cu_varint_def kuv.bind_enc [OF TrueI r]
    by (simp add: put_varint_def ucast_ucast_32)
qed

interpretation kvarl: cursor_codec put_varlong cu_varlong "\<lambda>_. True"
proof
  fix v c tail assume "cu_rest c = put_varlong v @ tail"
  then have r: "cu_rest c = put_uvarlong (zigzag64 v) @ tail" by (simp add: put_varlong_def)
  show "cu_varlong c = Some (Inr v, cu_adv (length (put_varlong v)) c)"
    unfolding cu_varlong_def kuv.bind_enc [OF TrueI r] by (simp add: put_varlong_def)
qed

lemma sint_of_nat_32: "n < 2 ^ 31 \<Longrightarrow> sint (word_of_nat n :: 32 word) = int n"
  by (simp add: signed_of_nat signed_take_bit_int_eq_self)

lemma cu_take_enc: "cu_rest c = v @ tail \<Longrightarrow> cu_take (length v) c = Some (Inr v, cu_adv (length v) c)"
  by (simp add: cu_take_eq)

definition len_ok :: "'a list \<Rightarrow> bool" where
  "len_ok v \<longleftrightarrow> length v < 2 ^ 31"

definition null_ok :: "bytes option \<Rightarrow> bool" where
  "null_ok v \<longleftrightarrow> (case v of None \<Rightarrow> True | Some b \<Rightarrow> len_ok b)"

interpretation knull: cursor_codec put_nullable cu_nullable null_ok
proof
  fix v c tail assume ok: "null_ok v" and r: "cu_rest c = put_nullable v @ tail"
  show "cu_nullable c = Some (Inr v, cu_adv (length (put_nullable v)) c)"
  proof (cases v)
    case None
    then have "cu_rest c = put_varint (- 1) @ tail" using r by (simp add: put_nullable_def)
    note n = kvar.dec_enc [OF TrueI this]
    show ?thesis using None by (simp add: cu_nullable_def put_nullable_def st_bind_def n)
  next
    case (Some b)
    let ?n = "word_of_nat (length b) :: 32 word"
    have e: "cu_rest c = put_varint ?n @ b @ tail" using r Some by (simp add: put_nullable_def)
    note n = kvar.dec_enc [OF TrueI e] and t = cu_take_enc [of "cu_adv (length (put_varint ?n)) c" b tail]
    have s: "sint ?n = int (length b)" using ok Some by (simp add: null_ok_def len_ok_def sint_of_nat_32)
    then have "?n \<noteq> - 1" by (metis of_nat_less_0_iff sint_n1 neg_less_0_iff_less zero_less_one)
    then show ?thesis
      using Some s by (simp add: cu_nullable_def put_nullable_def n t e st_bind_def)
  qed
qed

end
