(* ===== verification/Kafka_Records.thy ===== *)
theory Kafka_Records
  imports Kafka_Cursor
begin

text \<open>
  The record batch format of \<^verbatim>\<open>kafkatest/src/proto/records.rs\<close>: records with their headers, the batch
  header, CRC and compression, one batch and a buffer of batches. The checksum and the four
  compression codecs are code of external crates: fields of \<open>kafka_ext\<close>. A Rust \<open>String\<close> is its
  UTF-8 bytes.
\<close>

section \<open>Constants and codecs\<close>

record kafka_ext =
  ke_crc :: "bytes \<Rightarrow> u32"
  ke_compress :: "16 word \<Rightarrow> bytes \<Rightarrow> chain + bytes"
  ke_decompress :: "16 word \<Rightarrow> bytes \<Rightarrow> chain + bytes"

definition BATCH_HEADER_AFTER_LENGTH :: "32 word" where
  "BATCH_HEADER_AFTER_LENGTH = 49"

definition MAGIC_V2 :: "8 word" where
  "MAGIC_V2 = 2"

definition NO_PRODUCER_ID :: "64 word" where
  "NO_PRODUCER_ID = - 1"

definition NO_PRODUCER_EPOCH :: "16 word" where
  "NO_PRODUCER_EPOCH = - 1"

definition NO_SEQUENCE :: "32 word" where
  "NO_SEQUENCE = - 1"

definition COMPRESSION_MASK :: "16 word" where
  "COMPRESSION_MASK = 0x07"

definition NO_COMPRESSION :: "16 word" where
  "NO_COMPRESSION = 0"

definition GZIP :: "16 word" where
  "GZIP = 1"

definition SNAPPY :: "16 word" where
  "SNAPPY = 2"

definition LZ4 :: "16 word" where
  "LZ4 = 3"

definition ZSTD :: "16 word" where
  "ZSTD = 4"

lemmas codec_ids = NO_COMPRESSION_def GZIP_def SNAPPY_def LZ4_def ZSTD_def

definition codec_name :: "16 word \<Rightarrow> string" where
  "codec_name codec =
     (if codec = NO_COMPRESSION then ''none''
      else if codec = GZIP then ''gzip''
      else if codec = SNAPPY then ''snappy''
      else if codec = LZ4 then ''lz4''
      else if codec = ZSTD then ''zstd''
      else ''unknown'')"

definition compress_records :: "kafka_ext \<Rightarrow> 16 word \<Rightarrow> bytes \<Rightarrow> chain + bytes" where
  "compress_records X codec raw =
     (if codec = NO_COMPRESSION then Inr raw
      else if codec \<in> {GZIP, SNAPPY, LZ4, ZSTD} then ke_compress X codec raw
      else Inl [''unknown compression codec '' @ show_int (sint codec)])"

definition decompress_records :: "kafka_ext \<Rightarrow> 16 word \<Rightarrow> bytes \<Rightarrow> chain + bytes" where
  "decompress_records X codec payload =
     (if codec = NO_COMPRESSION then Inr payload
      else if codec \<in> {GZIP, SNAPPY, LZ4, ZSTD} then ke_decompress X codec payload
      else Inl [''unknown compression codec '' @ show_int (sint codec)])"

section \<open>Records\<close>

record record_item =
  ri_attributes :: "8 word"
  ri_timestamp_delta :: "64 word"
  ri_offset_delta :: "32 word"
  ri_key :: "bytes option"
  ri_value :: "bytes option"
  ri_headers :: "(bytes \<times> bytes option) list"

definition item_default :: record_item where
  "item_default = \<lparr>ri_attributes = 0, ri_timestamp_delta = 0, ri_offset_delta = 0, ri_key = None,
     ri_value = None, ri_headers = []\<rparr>"

definition item_value :: "bytes \<Rightarrow> record_item" where
  "item_value v = item_default\<lparr>ri_value := Some v\<rparr>"

definition item_keyed :: "bytes \<Rightarrow> bytes \<Rightarrow> record_item" where
  "item_keyed k v = item_default\<lparr>ri_key := Some k, ri_value := Some v\<rparr>"

definition encode_header :: "bytes \<times> bytes option \<Rightarrow> bytes" where
  "encode_header h = (case h of (k, v) \<Rightarrow> put_varint (word_of_nat (length k)) @ k @ put_nullable v)"

definition record_body :: "record_item \<Rightarrow> bytes" where
  "record_body r =
     [ri_attributes r] @ put_varlong (ri_timestamp_delta r) @ put_varint (ri_offset_delta r) @
     put_nullable (ri_key r) @ put_nullable (ri_value r) @
     put_varint (word_of_nat (length (ri_headers r))) @ concat (map encode_header (ri_headers r))"

definition encode_record :: "record_item \<Rightarrow> bytes" where
  "encode_record r = (let body = record_body r in put_varint (word_of_nat (length body)) @ body)"

definition decode_header :: "nat \<Rightarrow> (bytes \<times> bytes option) cur" where
  "decode_header i =
     st_bind (with_context (''headers['' @ show_nat i @ ''].key_length'') cu_varint) (\<lambda>klen.
     if sint klen < 0 then bail (''headers['' @ show_nat i @ ''].key_length is negative'')
     else
       st_bind (with_context (''headers['' @ show_nat i @ ''].key'') (cu_take (nat (sint klen)))) (\<lambda>kb.
       if \<not> utf8_valid kb then st_fail [''headers['' @ show_nat i @ ''].key is not utf-8'']
       else
         st_bind (with_context (''headers['' @ show_nat i @ ''].value'') cu_nullable) (\<lambda>v.
         st_return (kb, v))))"

text \<open>\<open>end as i64 - (end - c.pos) as i64\<close>, the subtraction of \<open>usize\<close> wrapping.\<close>

definition decoded_count :: "nat \<Rightarrow> nat \<Rightarrow> int" where
  "decoded_count e pos = sint ((word_of_nat e :: 64 word) - (word_of_nat e - word_of_nat pos))"

definition decode_record :: "record_item cur" where
  "decode_record =
     st_bind (with_context ''record.length'' cu_varint) (\<lambda>len.
     if sint len < 0 then bail (''record.length is negative ('' @ show_int (sint len) @ '')'')
     else
       st_bind (st_get (\<lambda>c. cu_pos c + nat (sint len))) (\<lambda>e.
       st_bind (st_get (\<lambda>c. (length (cu_buf c), length (cu_buf c) - cu_pos c))) (\<lambda>(total, left).
       if e > total
       then bail (''record claims '' @ show_int (sint len) @ '' bytes, only '' @ show_nat left @ '' left'')
       else
         st_bind (with_context ''record.attributes'' cu_i8) (\<lambda>attributes.
         st_bind (with_context ''record.timestamp_delta'' cu_varlong) (\<lambda>timestamp_delta.
         st_bind (with_context ''record.offset_delta'' cu_varint) (\<lambda>offset_delta.
         st_bind (with_context ''record.key'' cu_nullable) (\<lambda>key.
         st_bind (with_context ''record.value'' cu_nullable) (\<lambda>value.
         st_bind (with_context ''record.header_count'' cu_varint) (\<lambda>nheaders.
         if sint nheaders < 0
         then bail (''record.header_count is negative ('' @ show_int (sint nheaders) @ '')'')
         else
           st_bind (st_each decode_header [0..<nat (sint nheaders)]) (\<lambda>headers.
           st_bind (st_get cu_pos) (\<lambda>pos.
           if pos \<noteq> e
           then bail (''record length '' @ show_int (sint len) @ '' does not match the '' @
                  show_int (decoded_count e pos) @ '' bytes decoded'')
           else st_return
             \<lparr>ri_attributes = attributes, ri_timestamp_delta = timestamp_delta,
              ri_offset_delta = offset_delta, ri_key = key, ri_value = value,
              ri_headers = headers\<rparr>)))))))))))"

section \<open>Batches\<close>

record record_batch =
  rb_base_offset :: "64 word"
  rb_partition_leader_epoch :: "32 word"
  rb_attributes :: "16 word"
  rb_last_offset_delta :: "32 word"
  rb_base_timestamp :: "64 word"
  rb_max_timestamp :: "64 word"
  rb_producer_id :: "64 word"
  rb_producer_epoch :: "16 word"
  rb_base_sequence :: "32 word"
  rb_records :: "record_item list"
  rb_record_count_override :: "32 word option"
  rb_crc_override :: "u32 option"

definition batch_default :: record_batch where
  "batch_default = \<lparr>rb_base_offset = 0, rb_partition_leader_epoch = 0, rb_attributes = 0,
     rb_last_offset_delta = 0, rb_base_timestamp = 0, rb_max_timestamp = 0,
     rb_producer_id = NO_PRODUCER_ID, rb_producer_epoch = NO_PRODUCER_EPOCH,
     rb_base_sequence = NO_SEQUENCE, rb_records = [], rb_record_count_override = None,
     rb_crc_override = None\<rparr>"

definition batch_of :: "64 word \<Rightarrow> 64 word \<Rightarrow> record_item list \<Rightarrow> record_batch" where
  "batch_of base_offset base_timestamp values =
     (let rs = map (\<lambda>(i, r). r\<lparr>ri_offset_delta := word_of_nat i, ri_timestamp_delta := 0\<rparr>)
                 (zip [0..<length values] values)
      in batch_default\<lparr>rb_base_offset := base_offset, rb_base_timestamp := base_timestamp,
           rb_max_timestamp := base_timestamp, rb_records := rs,
           rb_last_offset_delta := word_of_nat (length rs - 1)\<rparr>)"

definition batch_next_offset :: "record_batch \<Rightarrow> 64 word" where
  "batch_next_offset b = rb_base_offset b + word_of_nat (length (rb_records b))"

definition batch_is_control :: "record_batch \<Rightarrow> bool" where
  "batch_is_control b \<longleftrightarrow> rb_attributes b AND push_bit 5 1 \<noteq> 0"

definition batch_compression :: "record_batch \<Rightarrow> 16 word" where
  "batch_compression b = rb_attributes b AND COMPRESSION_MASK"

definition with_compression :: "16 word \<Rightarrow> record_batch \<Rightarrow> record_batch" where
  "with_compression codec b =
     b\<lparr>rb_attributes := (rb_attributes b AND NOT COMPRESSION_MASK) OR (codec AND COMPRESSION_MASK)\<rparr>"

text \<open>Everything the CRC covers, and the whole batch.\<close>

definition batch_body :: "record_batch \<Rightarrow> bytes \<Rightarrow> bytes" where
  "batch_body b payload =
     u16_be (rb_attributes b) @ u32_be (rb_last_offset_delta b) @ u64_be (rb_base_timestamp b) @
     u64_be (rb_max_timestamp b) @ u64_be (rb_producer_id b) @ u16_be (rb_producer_epoch b) @
     u32_be (rb_base_sequence b) @
     u32_be (case rb_record_count_override b of
               Some n \<Rightarrow> n | None \<Rightarrow> word_of_nat (length (rb_records b))) @
     payload"

definition try_encode :: "kafka_ext \<Rightarrow> record_batch \<Rightarrow> chain + bytes" where
  "try_encode X b =
     (let raw = concat (map encode_record (rb_records b));
          codec = batch_compression b in
      case (if codec \<noteq> NO_COMPRESSION
            then (case compress_records X codec raw of
                    Inl e \<Rightarrow> Inl ((''compressing the batch payload with '' @ codec_name codec) # e)
                  | Inr p \<Rightarrow> Inr p)
            else Inr raw) of
        Inl e \<Rightarrow> Inl e
      | Inr payload \<Rightarrow>
          (let body = batch_body b payload;
               crc = (case rb_crc_override b of Some v \<Rightarrow> v | None \<Rightarrow> ke_crc X body)
           in Inr (u64_be (rb_base_offset b) @ u32_be (word_of_nat (4 + 1 + 4 + length body)) @
                u32_be (rb_partition_leader_epoch b) @ [MAGIC_V2] @ u32_be crc @ body)))"

definition batch_encode :: "kafka_ext \<Rightarrow> record_batch \<Rightarrow> bytes" where
  "batch_encode X b =
     (case try_encode X b of
        Inr bs \<Rightarrow> bs
      | Inl _ \<Rightarrow> (case try_encode X (with_compression NO_COMPRESSION b) of Inr bs \<Rightarrow> bs | Inl _ \<Rightarrow> []))"

text \<open>
  The records of a payload, read with a cursor of their own; with the records comes the number of
  bytes left over.
\<close>

definition decode_payload :: "bytes \<Rightarrow> 32 word \<Rightarrow> (record_item list \<times> nat) cur" where
  "decode_payload payload count c =
     (case st_each (\<lambda>i. with_context (''records['' @ show_nat i @ '']'') decode_record)
             [0..<nat (sint count)] (cursor_new payload) of
        None \<Rightarrow> None
      | Some (Inl e, rc) \<Rightarrow> Some (Inl e, c)
      | Some (Inr records, rc) \<Rightarrow> Some (Inr (records, cu_remaining rc), c))"

definition decode_fields :: "kafka_ext \<Rightarrow> bytes \<Rightarrow> (record_batch \<times> nat) cur" where
  "decode_fields X buf =
     st_bind (with_context ''batch.base_offset'' cu_i64) (\<lambda>base_offset.
     st_bind (with_context ''batch.batch_length'' cu_i32) (\<lambda>batch_length.
     if sint batch_length < sint BATCH_HEADER_AFTER_LENGTH
     then bail (''batch.batch_length is '' @ show_int (sint batch_length) @ '', less than the '' @
            show_int (sint BATCH_HEADER_AFTER_LENGTH) @ '' bytes of header that follow it'')
     else
       st_bind (st_get (\<lambda>c. cu_pos c + nat (sint batch_length))) (\<lambda>total.
       if total > length buf
       then bail (''batch claims '' @ show_nat total @ '' bytes but only '' @ show_nat (length buf) @
              '' are available'')
       else
         st_bind (with_context ''batch.partition_leader_epoch'' cu_i32) (\<lambda>epoch.
         st_bind (with_context ''batch.magic'' cu_i8) (\<lambda>magic.
         if magic \<noteq> MAGIC_V2
         then bail (''unsupported record batch magic '' @ show_int (sint magic) @ '', only v2 is supported'')
         else
           st_bind (with_context ''batch.crc'' cu_u32) (\<lambda>crc.
           st_bind (st_get cu_pos) (\<lambda>crc_start.
           let actual_crc = ke_crc X (slice crc_start total buf) in
           if actual_crc \<noteq> crc
           then bail (''batch.crc mismatch: header says '' @ show_nat (unat crc) @ '', computed '' @
                  show_nat (unat actual_crc))
           else
             st_bind (with_context ''batch.attributes'' cu_i16) (\<lambda>attributes.
             st_bind (with_context ''batch.last_offset_delta'' cu_i32) (\<lambda>last_offset_delta.
             st_bind (with_context ''batch.base_timestamp'' cu_i64) (\<lambda>base_timestamp.
             st_bind (with_context ''batch.max_timestamp'' cu_i64) (\<lambda>max_timestamp.
             st_bind (with_context ''batch.producer_id'' cu_i64) (\<lambda>producer_id.
             st_bind (with_context ''batch.producer_epoch'' cu_i16) (\<lambda>producer_epoch.
             st_bind (with_context ''batch.base_sequence'' cu_i32) (\<lambda>base_sequence.
             st_bind (with_context ''batch.record_count'' cu_i32) (\<lambda>count.
             let codec = attributes AND COMPRESSION_MASK in
             if sint count < 0 then bail (''batch.record_count is negative ('' @ show_int (sint count) @ '')'')
             else
               st_bind (st_get (\<lambda>c. slice (cu_pos c) total buf)) (\<lambda>payload.
               st_bind (if codec \<noteq> NO_COMPRESSION
                        then st_bind (with_context (''decompressing a '' @ codec_name codec @ '' batch of '' @
                               show_int (sint count) @ '' records'') (st_lift (decompress_records X codec payload)))
                               (\<lambda>raw. decode_payload raw count)
                        else decode_payload payload count) (\<lambda>(records, leftover).
               if leftover \<noteq> 0
               then bail (show_nat leftover @ '' byte(s) left in the batch after its '' @ show_int (sint count) @
                      '' record(s): batchLength or recordCount does not match the records'')
               else st_return
                 (\<lparr>rb_base_offset = base_offset, rb_partition_leader_epoch = epoch,
                   rb_attributes = attributes, rb_last_offset_delta = last_offset_delta,
                   rb_base_timestamp = base_timestamp, rb_max_timestamp = max_timestamp,
                   rb_producer_id = producer_id, rb_producer_epoch = producer_epoch,
                   rb_base_sequence = base_sequence, rb_records = records,
                   rb_record_count_override = None, rb_crc_override = None\<rparr>, total))))))))))))))))))"

definition batch_decode :: "kafka_ext \<Rightarrow> bytes \<Rightarrow> (chain + record_batch \<times> nat) option" where
  "batch_decode X buf = map_option fst (decode_fields X buf (cursor_new buf))"


section \<open>What a successful decode establishes\<close>

text \<open>Fixed-width reads advance by their width and return the bytes that are there.\<close>

lemma cu_takeE:
  assumes "cu_take n c = Some (Inr x, c')"
  shows "x = take n (cu_rest c) \<and> c' = cu_adv n c \<and> n \<le> length (cu_rest c)"
  using assms by (auto simp: cu_take_eq split: if_splits)

lemma cu_fixedE:
  "cu_i8 c = Some (Inr a, c') \<Longrightarrow> c' = cu_adv 1 c \<and> 1 \<le> length (cu_rest c) \<and> a = cu_rest c ! 0"
  "cu_i16 c = Some (Inr h, c') \<Longrightarrow> c' = cu_adv 2 c \<and> 2 \<le> length (cu_rest c) \<and> u16_be h = take 2 (cu_rest c)"
  "cu_i32 c = Some (Inr w, c') \<Longrightarrow> c' = cu_adv 4 c \<and> 4 \<le> length (cu_rest c) \<and> u32_be w = take 4 (cu_rest c)"
  "cu_i64 c = Some (Inr q, c') \<Longrightarrow> c' = cu_adv 8 c \<and> 8 \<le> length (cu_rest c) \<and> u64_be q = take 8 (cu_rest c)"
proof -
  have u16: "u16_be (u16_from_be v) = v" if "length v = 2" for v
    using that be_bytes_be_val [of v] by (simp add: u16_from_be_def u16_be_of_nat)
  have u32: "u32_be (u32_from_be v) = v" if "length v = 4" for v
    using that be_bytes_be_val [of v] by (simp add: u32_from_be_def u32_be_of_nat)
  have u64: "u64_be (u64_from_be v) = v" if "length v = 8" for v
    using that be_bytes_be_val [of v] be_val_bound [of v] be_bytes_mod [of 8 "be_val v"]
    by (simp add: u64_from_be_def u64_be_def unat_of_nat)
  show "cu_i8 c = Some (Inr a, c') \<Longrightarrow> c' = cu_adv 1 c \<and> 1 \<le> length (cu_rest c) \<and> a = cu_rest c ! 0"
    unfolding cu_i8_def by (erule st_bindE) (auto dest!: cu_takeE simp: Suc_le_eq)
  show "cu_i16 c = Some (Inr h, c') \<Longrightarrow> c' = cu_adv 2 c \<and> 2 \<le> length (cu_rest c) \<and> u16_be h = take 2 (cu_rest c)"
    unfolding cu_i16_def by (erule st_bindE) (auto dest!: cu_takeE simp only: nth_list u16 length_take min.absorb2 st_run option.inject prod.inject sum.inject)
  show "cu_i32 c = Some (Inr w, c') \<Longrightarrow> c' = cu_adv 4 c \<and> 4 \<le> length (cu_rest c) \<and> u32_be w = take 4 (cu_rest c)"
    unfolding cu_i32_def by (erule st_bindE) (auto dest!: cu_takeE simp only: nth_list u32 length_take min.absorb2 st_run option.inject prod.inject sum.inject)
  show "cu_i64 c = Some (Inr q, c') \<Longrightarrow> c' = cu_adv 8 c \<and> 8 \<le> length (cu_rest c) \<and> u64_be q = take 8 (cu_rest c)"
    unfolding cu_i64_def by (erule st_bindE) (auto dest!: cu_takeE simp: u64)
qed

lemma decode_payloadE:
  assumes "decode_payload p count c = Some (Inr (rs, n), c')"
  shows "\<exists>rc. st_each (\<lambda>i. with_context (''records['' @ show_nat i @ '']'') decode_record)
      [0..<nat (sint count)] (cursor_new p) = Some (Inr rs, rc) \<and> n = cu_remaining rc \<and> c' = c"
  using assms by (auto simp: decode_payload_def split: option.splits sum.splits)

lemma batch_decodeE:
  assumes "batch_decode X buf = Some (Inr (b, used))"
  shows "61 \<le> used \<and> used \<le> length buf \<and> buf ! 16 = 2 \<and>
    u32_be (ke_crc X (slice 21 used buf)) = slice 17 21 buf"
proof -
  let ?c = "cursor_new buf"
  obtain c' where "decode_fields X buf ?c = Some (Inr (b, used), c')"
    using assms by (auto simp: batch_decode_def)
  then obtain v0 v1 v2 v3 v4 c0 c1 c2 c3 c4 where
      0: "cu_i64 ?c = Some (Inr v0, c0)" and 1: "cu_i32 c0 = Some (Inr v1, c1)"
    and l: "\<not> sint v1 < sint BATCH_HEADER_AFTER_LENGTH" "used = cu_pos c1 + nat (sint v1)" "used \<le> length buf"
    and 2: "cu_i32 c1 = Some (Inr v2, c2)" and 3: "cu_i8 c2 = Some (Inr v3, c3)" and m: "v3 = MAGIC_V2"
    and 4: "cu_u32 c3 = Some (Inr v4, c4)" and crc: "ke_crc X (slice (cu_pos c4) used buf) = v4"
    unfolding decode_fields_def
    by (auto elim!: st_bindE simp: bail_def Let_def split: if_splits prod.splits)
  note f = cu_fixedE(4) [OF 0] cu_fixedE(3) [OF 1] cu_fixedE(3) [OF 2] cu_fixedE(1) [OF 3]
    cu_fixedE(3) [OF 4 [unfolded cu_u32_def]]
  have p: "cu_pos c1 = 12" "cu_pos c4 = 21" "cu_rest c2 = drop 16 buf" "cu_rest c3 = drop 17 buf"
    using f by (auto simp: cursor_new_def cu_rest_def)
  have "sint BATCH_HEADER_AFTER_LENGTH = 49" by (simp add: BATCH_HEADER_AFTER_LENGTH_def)
  then have "61 \<le> used" using l(1,2) p(1) by simp
  moreover have "buf ! 16 = 2" using f(4) m p(3) l(3) calculation by (simp add: MAGIC_V2_def)
  moreover have "u32_be v4 = slice 17 21 buf" using f(5) p(4) by (simp add: slice_def)
  ultimately show ?thesis using l(3) crc p(2) by simp
qed


section \<open>A buffer of batches\<close>

function decode_all_loop :: "kafka_ext \<Rightarrow> bytes \<Rightarrow> nat \<Rightarrow> record_batch list \<Rightarrow> (chain + record_batch list) option" where
  "decode_all_loop X buf at out =
     (if at + 12 \<le> length buf then
        (case batch_decode X (drop at buf) of
           None \<Rightarrow> None
         | Some (Inl e) \<Rightarrow> Some (Inl ((''batch at byte '' @ show_nat at) # e))
         | Some (Inr (b, used)) \<Rightarrow> decode_all_loop X buf (at + used) (out @ [b]))
      else Some (Inr out))"
  by pat_completeness auto
termination
  by (relation "measure (\<lambda>(X, buf, at, out). length buf - at)") (auto dest!: batch_decodeE)

declare decode_all_loop.simps [simp del]

definition decode_all :: "kafka_ext \<Rightarrow> bytes \<Rightarrow> (chain + record_batch list) option" where
  "decode_all X buf = decode_all_loop X buf 0 []"

definition encode_batches :: "kafka_ext \<Rightarrow> record_batch list \<Rightarrow> bytes" where
  "encode_batches X bs = concat (map (batch_encode X) bs)"

section \<open>Records read back\<close>

lemma st_bind_ok: "p c = Some (Inr x, c') \<Longrightarrow> st_bind p f c = f x c'"
  by (simp add: st_bind_def)

lemma ctx_step:
  assumes "cursor_codec e p ok" "ok x" "cu_rest c = e x @ t"
  shows "st_bind (with_context l p) f c = f x (cu_adv (length (e x)) c)"
    and "cu_rest (cu_adv (length (e x)) c) = t"
proof -
  have "with_context l p c = Some (Inr x, cu_adv (length (e x)) c)"
    by (rule cursor_codec.dec_enc [OF cursor_codec.in_context [OF assms(1)] assms(2,3)])
  then show "st_bind (with_context l p) f c = f x (cu_adv (length (e x)) c)" by (rule st_bind_ok)
  show "cu_rest (cu_adv (length (e x)) c) = t" using assms(3) by simp
qed

lemma ctx_take:
  assumes "cu_rest c = v @ t" "n = length v"
  shows "st_bind (with_context l (cu_take n)) f c = f v (cu_adv n c)" and "cu_rest (cu_adv n c) = t"
  using cu_take_enc [OF assms(1)] assms by (simp_all add: st_bind_def with_context_def)

lemmas codecs = ki8.cursor_codec_axioms ki16.cursor_codec_axioms ki32.cursor_codec_axioms
  ki64.cursor_codec_axioms kuv.cursor_codec_axioms kvar.cursor_codec_axioms
  kvarl.cursor_codec_axioms knull.cursor_codec_axioms

lemma len_word: "len_ok v \<Longrightarrow> sint (word_of_nat (length v) :: 32 word) = int (length v)"
  by (simp add: len_ok_def sint_of_nat_32)

definition header_ok :: "bytes \<times> bytes option \<Rightarrow> bool" where
  "header_ok h \<longleftrightarrow> len_ok (fst h) \<and> utf8_valid (fst h) \<and> null_ok (snd h)"

interpretation kheader: cursor_codec encode_header "decode_header i" header_ok
proof
  fix h c tail assume ok: "header_ok h" and r: "cu_rest c = encode_header h @ tail"
  obtain k v where h: "h = (k, v)" by (cases h)
  let ?n = "word_of_nat (length k) :: 32 word"
  have "cu_rest c = put_varint ?n @ k @ put_nullable v @ tail" using r h by (simp add: encode_header_def)
  note 1 = ctx_step [OF kvar.cursor_codec_axioms TrueI this]
  note 2 = ctx_take [OF 1(2) refl]
  have v: "null_ok v" using ok h by (simp add: header_ok_def)
  note 3 = ctx_step [OF knull.cursor_codec_axioms v 2(2)]
  have s: "sint ?n = int (length k)" "utf8_valid k" using ok h by (simp_all add: header_ok_def len_word)
  show "decode_header i c = Some (Inr h, cu_adv (length (encode_header h)) c)"
    using s by (simp add: decode_header_def 1(1) 2(1) 3(1) [simplified] h encode_header_def add.assoc)
qed

definition record_ok :: "record_item \<Rightarrow> bool" where
  "record_ok r \<longleftrightarrow> null_ok (ri_key r) \<and> null_ok (ri_value r) \<and> len_ok (ri_headers r) \<and>
     (\<forall>h \<in> set (ri_headers r). header_ok h) \<and> len_ok (record_body r)"

interpretation krecord: cursor_codec encode_record decode_record record_ok
proof
  fix r c tail assume ok: "record_ok r" and c: "cu_rest c = encode_record r @ tail"
  define n where "n = length (record_body r)"
  define l where "l = (word_of_nat n :: 32 word)"
  let ?h = "word_of_nat (length (ri_headers r)) :: 32 word"
  have c': "cu_rest c = put_varint l @ record_body r @ tail" using c by (simp add: encode_record_def Let_def l_def n_def)
  note 1 = ctx_step [OF kvar.cursor_codec_axioms TrueI c']
  have c1: "cu_rest (cu_adv (length (put_varint l)) c) = [ri_attributes r] @ put_varlong (ri_timestamp_delta r) @
      put_varint (ri_offset_delta r) @ put_nullable (ri_key r) @ put_nullable (ri_value r) @
      put_varint ?h @ concat (map encode_header (ri_headers r)) @ tail"
    using 1(2) by (simp add: record_body_def)
  have k: "null_ok (ri_key r)" "null_ok (ri_value r)" using ok by (simp_all add: record_ok_def)
  note 2 = ctx_step [OF ki8.cursor_codec_axioms TrueI c1]
  note 3 = ctx_step [OF kvarl.cursor_codec_axioms TrueI 2(2)]
  note 4 = ctx_step [OF kvar.cursor_codec_axioms TrueI 3(2)]
  note 5 = ctx_step [OF knull.cursor_codec_axioms k(1) 4(2)]
  note 6 = ctx_step [OF knull.cursor_codec_axioms k(2) 5(2)]
  note 7 = ctx_step [OF kvar.cursor_codec_axioms TrueI 6(2)]
  have h: "sint ?h = int (length (ri_headers r))" "sint l = int n"
    using ok by (simp_all add: record_ok_def len_word l_def n_def)
  have "\<forall>x \<in> set (ri_headers r). header_ok x" using ok by (simp add: record_ok_def)
  note e = each_codec [where d = decode_header, OF kheader.cursor_codec_axioms this _ 7(2),
      of "[0..<length (ri_headers r)]", simplified]
  note 8 = st_bind_ok [where p = "st_each decode_header [0..<length (ri_headers r)]", OF e]
  have b: "length (cu_buf c) = cu_pos c + length (put_varint l) + n + length tail"
  proof -
    have "0 < length (cu_rest c)" using c' by (simp add: record_body_def)
    moreover have "length (cu_rest c) = length (put_varint l) + n + length tail" using c' by (simp add: n_def)
    ultimately show ?thesis by (simp add: cu_rest_def)
  qed
  have n: "n = Suc (length (put_varlong (ri_timestamp_delta r)) + length (put_varint (ri_offset_delta r)) +
      length (put_nullable (ri_key r)) + length (put_nullable (ri_value r)) + length (put_varint ?h) +
      length (concat (map encode_header (ri_headers r))))"
    by (simp add: n_def record_body_def)
  have en: "length (encode_record r) = length (put_varint l) + n"
    by (simp add: encode_record_def Let_def l_def n_def)
  show "decode_record c = Some (Inr r, cu_adv (length (encode_record r)) c)"
    unfolding decode_record_def en
    by (simp add: 1(1) 2(1) [simplified] 3(1) [simplified] 4(1) [simplified] 5(1) [simplified]
        6(1) [simplified] 7(1) [simplified] 8 h b) (simp add: n)
qed


section \<open>Batches read back\<close>

definition codecs_invert :: "kafka_ext \<Rightarrow> bool" where
  "codecs_invert X \<longleftrightarrow>
     (\<forall>codec \<in> {GZIP, SNAPPY, LZ4, ZSTD}. \<forall>raw z.
        ke_compress X codec raw = Inr z \<longrightarrow> ke_decompress X codec z = Inr raw)"

definition batch_ok :: "record_batch \<Rightarrow> bool" where
  "batch_ok b \<longleftrightarrow> rb_record_count_override b = None \<and> rb_crc_override b = None \<and>
     len_ok (rb_records b) \<and> (\<forall>r \<in> set (rb_records b). record_ok r)"

lemma decode_payload_enc:
  assumes "\<forall>r \<in> set rs. record_ok r" "len_ok rs"
  shows "decode_payload (concat (map encode_record rs)) (word_of_nat (length rs)) c = Some (Inr (rs, 0), c)"
proof -
  let ?p = "concat (map encode_record rs)"
  have "st_each (\<lambda>i. with_context (''records['' @ show_nat i @ '']'') decode_record) [0..<length rs] (cursor_new ?p) =
      Some (Inr rs, cu_adv (length ?p) (cursor_new ?p))"
    by (rule each_codec [OF krecord.in_context assms(1), where tail = "[]"]) simp_all
  then show ?thesis using assms(2) by (simp add: decode_payload_def len_word cu_remaining_rest)
qed

lemma decode_body_payload:
  assumes "codecs_invert X"
    and "(if batch_compression b \<noteq> NO_COMPRESSION
          then compress_records X (batch_compression b) raw else Inr raw) = Inr payload"
  shows "decompress_records X (batch_compression b) payload = Inr raw"
  using assms by (auto simp: compress_records_def decompress_records_def codecs_invert_def split: if_splits)

text \<open>The bytes of a batch, with the payload and the checksum named.\<close>

lemma try_encodeE:
  assumes "try_encode X b = Inr bs" "batch_ok b"
  obtains payload where
    "(if batch_compression b \<noteq> NO_COMPRESSION
      then compress_records X (batch_compression b) (concat (map encode_record (rb_records b)))
      else Inr (concat (map encode_record (rb_records b)))) = Inr payload"
    "bs = u64_be (rb_base_offset b) @ u32_be (word_of_nat (9 + length (batch_body b payload))) @
       u32_be (rb_partition_leader_epoch b) @ [MAGIC_V2] @ u32_be (ke_crc X (batch_body b payload)) @
       batch_body b payload"
  using assms by (auto simp: try_encode_def Let_def batch_ok_def split: if_splits sum.splits)

lemma length_batch_body: "length (batch_body b payload) = 40 + length payload"
  by (simp add: batch_body_def)

lemma batch_decode_encode:
  assumes X: "codecs_invert X" and e: "try_encode X b = Inr bs" and ok: "batch_ok b" and len: "length bs < 2 ^ 31"
  shows "batch_decode X (bs @ tail) = Some (Inr (b, length bs))"
proof -
  obtain payload where p: "(if batch_compression b \<noteq> NO_COMPRESSION
      then compress_records X (batch_compression b) (concat (map encode_record (rb_records b)))
      else Inr (concat (map encode_record (rb_records b)))) = Inr payload"
    and bs: "bs = u64_be (rb_base_offset b) @ u32_be (word_of_nat (9 + length (batch_body b payload))) @
       u32_be (rb_partition_leader_epoch b) @ [MAGIC_V2] @ u32_be (ke_crc X (batch_body b payload)) @
       batch_body b payload"
    using try_encodeE [OF e ok] .
  define c where "c = cursor_new (bs @ tail)"
  define n where "n = (word_of_nat (9 + length (batch_body b payload)) :: 32 word)"
  define k where "k = (word_of_nat (length (rb_records b)) :: 32 word)"
  have lbs: "length bs = 61 + length payload" using bs by (simp add: length_batch_body)
  have n: "sint n = 49 + int (length payload)"
    unfolding n_def using len lbs by (subst sint_of_nat_32) (simp_all add: length_batch_body)
  have k: "sint k = int (length (rb_records b))" using ok by (simp add: k_def batch_ok_def len_word)
  have pos: "cu_pos c = 0" by (simp add: c_def cursor_new_def)
  have 0: "cu_rest c = u64_be (rb_base_offset b) @ u32_be n @ u32_be (rb_partition_leader_epoch b) @
      [MAGIC_V2] @ u32_be (ke_crc X (batch_body b payload)) @ u16_be (rb_attributes b) @
      u32_be (rb_last_offset_delta b) @ u64_be (rb_base_timestamp b) @ u64_be (rb_max_timestamp b) @
      u64_be (rb_producer_id b) @ u16_be (rb_producer_epoch b) @ u32_be (rb_base_sequence b) @ u32_be k @
      payload @ tail"
    using ok by (simp add: c_def bs n_def k_def batch_body_def batch_ok_def)
  note 1 = ctx_step [OF ki64.cursor_codec_axioms TrueI 0]
  note 2 = ctx_step [OF ki32.cursor_codec_axioms TrueI 1(2)]
  note 3 = ctx_step [OF ki32.cursor_codec_axioms TrueI 2(2)]
  note 4 = ctx_step [OF ki8.cursor_codec_axioms TrueI 3(2)]
  note 5 = ctx_step [OF ki32.cursor_codec_axioms TrueI 4(2), folded cu_u32_def]
  note 6 = ctx_step [OF ki16.cursor_codec_axioms TrueI 5(2)]
  note 7 = ctx_step [OF ki32.cursor_codec_axioms TrueI 6(2)]
  note 8 = ctx_step [OF ki64.cursor_codec_axioms TrueI 7(2)]
  note 9 = ctx_step [OF ki64.cursor_codec_axioms TrueI 8(2)]
  note 10 = ctx_step [OF ki64.cursor_codec_axioms TrueI 9(2)]
  note 11 = ctx_step [OF ki16.cursor_codec_axioms TrueI 10(2)]
  note 12 = ctx_step [OF ki32.cursor_codec_axioms TrueI 11(2)]
  note 13 = ctx_step [OF ki32.cursor_codec_axioms TrueI 12(2)]
  have s1: "slice 21 (61 + length payload) (bs @ tail) = batch_body b payload"
    using lbs by (simp add: slice_def bs length_batch_body)
  have s2: "slice 61 (61 + length payload) (bs @ tail) = payload"
    by (simp add: slice_def bs batch_body_def)
  have dec: "decode_payload (concat (map encode_record (rb_records b))) k c' = Some (Inr (rb_records b, 0), c')" for c'
    unfolding k_def using ok by (intro decode_payload_enc) (simp_all add: batch_ok_def)
  have raw: "decompress_records X (rb_attributes b AND COMPRESSION_MASK) payload =
      Inr (concat (map encode_record (rb_records b)))"
    using decode_body_payload [OF X p] by (simp add: batch_compression_def)
  have pl1: "st_bind (decode_payload payload k) f c' = f (rb_records b, 0) c'"
    if "rb_attributes b AND COMPRESSION_MASK = NO_COMPRESSION" for f c'
  proof -
    have "payload = concat (map encode_record (rb_records b))" using p that by (simp add: batch_compression_def)
    then show ?thesis using dec by (simp add: st_bind_def)
  qed
  have pl2: "st_bind (st_bind (with_context l (st_lift (decompress_records X (rb_attributes b AND COMPRESSION_MASK) payload)))
      (\<lambda>raw. decode_payload raw k)) f c' = f (rb_records b, 0) c'" for l f c'
    using dec by (simp add: st_bind_def with_context_def raw)
  have "b = \<lparr>rb_base_offset = rb_base_offset b, rb_partition_leader_epoch = rb_partition_leader_epoch b,
      rb_attributes = rb_attributes b, rb_last_offset_delta = rb_last_offset_delta b,
      rb_base_timestamp = rb_base_timestamp b, rb_max_timestamp = rb_max_timestamp b,
      rb_producer_id = rb_producer_id b, rb_producer_epoch = rb_producer_epoch b,
      rb_base_sequence = rb_base_sequence b, rb_records = rb_records b,
      rb_record_count_override = None, rb_crc_override = None\<rparr>"
    using ok by (simp add: batch_ok_def)
  note r = this [symmetric]
  have "\<exists>c'. decode_fields X (bs @ tail) c = Some (Inr (b, length bs), c')"
    unfolding decode_fields_def
    by (simp add: 1(1) [simplified] 2(1) [simplified] 3(1) [simplified] 4(1) [simplified] 5(1) [simplified]
        6(1) [simplified] 7(1) [simplified] 8(1) [simplified] 9(1) [simplified] 10(1) [simplified]
        11(1) [simplified] 12(1) [simplified] 13(1) [simplified] n k pos lbs s1 s2 pl1 pl2 r
        BATCH_HEADER_AFTER_LENGTH_def nat_add_distrib Let_def)
  then show ?thesis by (auto simp: batch_decode_def c_def)
qed


lemma decode_all_loop_enc:
  assumes X: "codecs_invert X"
  shows "\<forall>b \<in> set bs. batch_ok b \<and> (\<exists>e. try_encode X b = Inr e \<and> length e < 2 ^ 31) \<Longrightarrow> length tail < 12 \<Longrightarrow>
    decode_all_loop X (pre @ encode_batches X bs @ tail) (length pre) out = Some (Inr (out @ bs))"
proof (induction bs arbitrary: pre out)
  case Nil
  then show ?case by (subst decode_all_loop.simps) (simp add: encode_batches_def)
next
  case (Cons b bs)
  then obtain e where e: "try_encode X b = Inr e" "length e < 2 ^ 31" and ok: "batch_ok b" by auto
  have eb: "batch_encode X b = e" using e by (simp add: batch_encode_def)
  have d: "batch_decode X (e @ encode_batches X bs @ tail) = Some (Inr (b, length e))"
    by (rule batch_decode_encode [OF X e(1) ok e(2)])
  have "61 \<le> length e" using batch_decodeE [OF d] by simp
  moreover have "encode_batches X (b # bs) = e @ encode_batches X bs" by (simp add: encode_batches_def eb)
  moreover have "decode_all_loop X ((pre @ e) @ encode_batches X bs @ tail) (length (pre @ e)) (out @ [b]) =
      Some (Inr ((out @ [b]) @ bs))"
    by (rule Cons.IH) (use Cons.prems in auto)
  ultimately show ?case using d by (subst decode_all_loop.simps) simp
qed

end
