(* ===== verification/Kafka_Meta.thy ===== *)
theory Kafka_Meta
  imports Kafka_Records
begin

text \<open>
  The cluster-metadata records of \<^verbatim>\<open>kafkatest/src/proto/meta.rs\<close>: Kafka's flexible encoding, the
  three record types and their decoder, and the textual form of a topic id. A \<open>Uuid\<close> of the external
  crate is its 16 bytes; a \<open>String\<close> is its UTF-8 bytes.
\<close>

section \<open>Topic ids as text\<close>

definition ALPHABET :: string where
  "ALPHABET = ''ABCDEFGHIJKLMNOPQRSTUVWXYZabcdefghijklmnopqrstuvwxyz0123456789-_''"

definition base64_chunk :: "bytes \<Rightarrow> string" where
  "base64_chunk ch =
     (let b0 = ch ! 0;
          b1 = (if 1 < length ch then ch ! 1 else 0);
          b2 = (if 2 < length ch then ch ! 2 else 0);
          n = ((push_bit 16 (ucast b0) OR push_bit 8 (ucast b1)) OR ucast b2) :: u32;
          chars = [ALPHABET ! (unat (drop_bit 18 n) mod 64), ALPHABET ! (unat (drop_bit 12 n) mod 64),
                   ALPHABET ! (unat (drop_bit 6 n) mod 64), ALPHABET ! (unat n mod 64)];
          keep = (if length ch = 1 then 2 else if length ch = 2 then 3 else 4)
      in take keep chars)"

definition base64_url_nopad :: "bytes \<Rightarrow> string" where
  "base64_url_nopad bs = concat (map base64_chunk (chunks 3 bs))"

definition uuid_to_kafka_string :: "bytes \<Rightarrow> string" where
  "uuid_to_kafka_string uuid = base64_url_nopad uuid"

section \<open>The flexible encoding\<close>

record enc =
  en_buf :: bytes

definition enc_new :: enc where
  "enc_new = \<lparr>en_buf = []\<rparr>"

definition en_append :: "bytes \<Rightarrow> enc \<Rightarrow> enc" where
  "en_append bs e = e\<lparr>en_buf := en_buf e @ bs\<rparr>"

definition en_u8 :: "u8 \<Rightarrow> enc \<Rightarrow> enc" where
  "en_u8 v = en_append [v]"

definition en_i16 :: "16 word \<Rightarrow> enc \<Rightarrow> enc" where
  "en_i16 v = en_append (u16_be v)"

definition en_i32 :: "32 word \<Rightarrow> enc \<Rightarrow> enc" where
  "en_i32 v = en_append (u32_be v)"

definition en_uvarint :: "u32 \<Rightarrow> enc \<Rightarrow> enc" where
  "en_uvarint v = en_append (put_uvarint v)"

definition en_compact_string :: "bytes \<Rightarrow> enc \<Rightarrow> enc" where
  "en_compact_string s = en_append s \<circ> en_uvarint (word_of_nat (length s) + 1)"

definition en_uuid :: "bytes \<Rightarrow> enc \<Rightarrow> enc" where
  "en_uuid uuid = en_append uuid"

definition en_compact_i32_array :: "32 word list \<Rightarrow> enc \<Rightarrow> enc" where
  "en_compact_i32_array xs = fold en_i32 xs \<circ> en_uvarint (word_of_nat (length xs) + 1)"

definition en_compact_uuid_array :: "bytes list \<Rightarrow> enc \<Rightarrow> enc" where
  "en_compact_uuid_array xs = fold en_uuid xs \<circ> en_uvarint (word_of_nat (length xs) + 1)"

definition en_empty_tagged_fields :: "enc \<Rightarrow> enc" where
  "en_empty_tagged_fields = en_uvarint 0"

definition en_done :: "enc \<Rightarrow> bytes" where
  "en_done e = en_buf e"

definition FRAME_VERSION :: u8 where
  "FRAME_VERSION = 1"

definition TOPIC :: u32 where
  "TOPIC = 2"

definition PARTITION :: u32 where
  "PARTITION = 3"

definition FEATURE_LEVEL :: u32 where
  "FEATURE_LEVEL = 12"

definition meta_frame :: "u32 \<Rightarrow> u32 \<Rightarrow> enc \<Rightarrow> enc" where
  "meta_frame type_id version = en_uvarint version \<circ> en_uvarint type_id \<circ> en_u8 FRAME_VERSION"

section \<open>The records\<close>

record feature_level_record =
  fl_name :: bytes
  fl_level :: "16 word"

record topic_record =
  tp_name :: bytes
  tp_id :: bytes

record partition_record =
  pr_partition_id :: "32 word"
  pr_topic_id :: bytes
  pr_replicas :: "32 word list"
  pr_isr :: "32 word list"
  pr_leader :: "32 word"
  pr_leader_epoch :: "32 word"
  pr_partition_epoch :: "32 word"
  pr_directories :: "bytes list"

datatype metadata_record =
    M_FeatureLevel feature_level_record
  | M_Topic topic_record
  | M_Partition partition_record
  | M_Other u32 u32

definition feature_level_encode :: "feature_level_record \<Rightarrow> bytes" where
  "feature_level_encode r =
     en_done ((en_empty_tagged_fields \<circ> en_i16 (fl_level r) \<circ> en_compact_string (fl_name r) \<circ>
       meta_frame FEATURE_LEVEL 0) enc_new)"

definition topic_encode :: "topic_record \<Rightarrow> bytes" where
  "topic_encode r =
     en_done ((en_empty_tagged_fields \<circ> en_uuid (tp_id r) \<circ> en_compact_string (tp_name r) \<circ>
       meta_frame TOPIC 0) enc_new)"

definition partition_single :: "32 word \<Rightarrow> bytes \<Rightarrow> 32 word \<Rightarrow> bytes \<Rightarrow> partition_record" where
  "partition_single partition_id topic_id broker dir =
     \<lparr>pr_partition_id = partition_id, pr_topic_id = topic_id, pr_replicas = [broker], pr_isr = [broker],
      pr_leader = broker, pr_leader_epoch = 0, pr_partition_epoch = 0, pr_directories = [dir]\<rparr>"

definition partition_encode :: "partition_record \<Rightarrow> bytes" where
  "partition_encode r =
     en_done ((en_empty_tagged_fields \<circ> en_compact_uuid_array (pr_directories r) \<circ>
       en_i32 (pr_partition_epoch r) \<circ> en_i32 (pr_leader_epoch r) \<circ> en_i32 (pr_leader r) \<circ>
       en_compact_i32_array [] \<circ> en_compact_i32_array [] \<circ> en_compact_i32_array (pr_isr r) \<circ>
       en_compact_i32_array (pr_replicas r) \<circ> en_uuid (pr_topic_id r) \<circ> en_i32 (pr_partition_id r) \<circ>
       meta_frame PARTITION 1) enc_new)"

definition meta_encode :: "metadata_record \<Rightarrow> bytes option" where
  "meta_encode m =
     (case m of
        M_FeatureLevel r \<Rightarrow> Some (feature_level_encode r)
      | M_Topic r \<Rightarrow> Some (topic_encode r)
      | M_Partition r \<Rightarrow> Some (partition_encode r)
      | M_Other _ _ \<Rightarrow> None)"

section \<open>Decoding\<close>

definition compact_string :: "bytes cur" where
  "compact_string =
     st_bind cu_uvarlong (\<lambda>n.
     if n = 0 then bail ''compact string is null where a value is required''
     else
       st_bind (cu_take (unat (n - 1))) (\<lambda>bs.
       if utf8_valid bs then st_return bs else st_fail [''compact string is not utf-8'']))"

definition read_uuid :: "bytes cur" where
  "read_uuid = cu_take 16"

definition compact_array :: "'a cur \<Rightarrow> 'a list cur" where
  "compact_array item =
     st_bind cu_uvarlong (\<lambda>n.
     if n = 0 then st_return [] else st_each (\<lambda>_. item) [0..<unat (n - 1)])"

definition compact_i32_array :: "32 word list cur" where
  "compact_i32_array = compact_array cu_i32"

definition compact_uuid_array :: "bytes list cur" where
  "compact_uuid_array = compact_array read_uuid"

definition decode_feature_level :: "metadata_record cur" where
  "decode_feature_level =
     st_bind (with_context ''feature_level.name'' compact_string) (\<lambda>name.
     st_bind (with_context ''feature_level.level'' cu_i16) (\<lambda>level.
     st_return (M_FeatureLevel \<lparr>fl_name = name, fl_level = level\<rparr>)))"

definition decode_topic :: "metadata_record cur" where
  "decode_topic =
     st_bind (with_context ''topic.name'' compact_string) (\<lambda>name.
     st_bind (with_context ''topic.id'' read_uuid) (\<lambda>uuid.
     st_return (M_Topic \<lparr>tp_name = name, tp_id = uuid\<rparr>)))"

definition decode_partition :: "u32 \<Rightarrow> metadata_record cur" where
  "decode_partition version =
     st_bind (with_context ''partition.partition_id'' cu_i32) (\<lambda>partition_id.
     st_bind (with_context ''partition.topic_id'' read_uuid) (\<lambda>topic_id.
     st_bind (with_context ''partition.replicas'' compact_i32_array) (\<lambda>replicas.
     st_bind (with_context ''partition.isr'' compact_i32_array) (\<lambda>isr.
     st_bind (with_context ''partition.removing_replicas'' compact_i32_array) (\<lambda>removing.
     st_bind (with_context ''partition.adding_replicas'' compact_i32_array) (\<lambda>adding.
     st_bind (with_context ''partition.leader'' cu_i32) (\<lambda>leader.
     st_bind (with_context ''partition.leader_epoch'' cu_i32) (\<lambda>leader_epoch.
     st_bind (with_context ''partition.partition_epoch'' cu_i32) (\<lambda>partition_epoch.
     st_bind (if 1 \<le> version then with_context ''partition.directories'' compact_uuid_array
              else st_return []) (\<lambda>directories.
     st_return (M_Partition
       \<lparr>pr_partition_id = partition_id, pr_topic_id = topic_id, pr_replicas = replicas, pr_isr = isr,
        pr_leader = leader, pr_leader_epoch = leader_epoch, pr_partition_epoch = partition_epoch,
        pr_directories = directories\<rparr>)))))))))))"

definition decode_metadata :: "metadata_record cur" where
  "decode_metadata =
     st_bind (with_context ''metadata record frame version'' cu_i8) (\<lambda>frame_version.
     if frame_version \<noteq> FRAME_VERSION
     then bail (''unexpected metadata frame version '' @ show_int (sint frame_version) @ '', want '' @
            show_nat (unat FRAME_VERSION))
     else
       st_bind (with_context ''metadata record type'' cu_uvarlong) (\<lambda>t.
       st_bind (with_context ''metadata record version'' cu_uvarlong) (\<lambda>v.
       let type_id = ucast t :: u32; version = ucast v :: u32 in
       if type_id = FEATURE_LEVEL then decode_feature_level
       else if type_id = TOPIC then decode_topic
       else if type_id = PARTITION then decode_partition version
       else st_return (M_Other type_id version))))"

definition meta_decode :: "bytes \<Rightarrow> (chain + metadata_record) option" where
  "meta_decode value = map_option fst (decode_metadata (cursor_new value))"


section \<open>Reading back what was written\<close>

lemma en_buf_simps [codec]:
  "en_buf (en_append bs e) = en_buf e @ bs" "en_buf (en_u8 b e) = en_buf e @ [b]"
  "en_buf (en_i16 h e) = en_buf e @ u16_be h" "en_buf (en_i32 w e) = en_buf e @ u32_be w"
  "en_buf (en_uvarint w e) = en_buf e @ put_uvarlong (ucast w)" "en_buf enc_new = []"
  "en_buf (en_uuid u e) = en_buf e @ u"
  by (simp_all add: en_append_def en_u8_def en_i16_def en_i32_def en_uvarint_def enc_new_def en_uuid_def
      put_uvarint_uvarlong)

lemma en_buf_folds [codec]:
  "en_buf (fold en_i32 ws e) = en_buf e @ concat (map u32_be ws)"
  "en_buf (fold en_uuid us e) = en_buf e @ concat us"
proof -
  show "en_buf (fold en_i32 ws e) = en_buf e @ concat (map u32_be ws)"
    by (induction ws arbitrary: e) (simp_all add: codec)
  show "en_buf (fold en_uuid us e) = en_buf e @ concat us"
    by (induction us arbitrary: e) (simp_all add: codec)
qed

definition count_ok :: "'a list \<Rightarrow> bool" where
  "count_ok xs \<longleftrightarrow> length xs < 4294967295"

definition count_word :: "'a list \<Rightarrow> u64" where
  "count_word xs = ucast (word_of_nat (length xs) + 1 :: u32)"

lemma count_word:
  assumes "count_ok xs"
  shows "count_word xs \<noteq> 0" "unat (count_word xs - 1) = length xs"
proof -
  have "(word_of_nat (length xs) + 1 :: u32) = word_of_nat (Suc (length xs))" by simp
  then have u: "unat (count_word xs) = Suc (length xs)"
    unfolding count_word_def unat_ucast_64 using assms by (simp only: unat_of_nat) (simp add: count_ok_def)
  show "count_word xs \<noteq> 0" using u by auto
  have "1 \<le> count_word xs" using u by (simp add: word_le_nat_alt)
  then show "unat (count_word xs - 1) = length xs" using u by (simp add: unat_sub)
qed

definition put_string :: "bytes \<Rightarrow> bytes" where
  "put_string s = put_uvarlong (count_word s) @ s"

definition put_array :: "('a \<Rightarrow> bytes) \<Rightarrow> 'a list \<Rightarrow> bytes" where
  "put_array e xs = put_uvarlong (count_word xs) @ concat (map e xs)"

lemma en_buf_compounds [codec]:
  "en_buf (en_compact_string v e) = en_buf e @ put_string v"
  "en_buf (en_compact_i32_array ws e) = en_buf e @ put_array u32_be ws"
  "en_buf (en_compact_uuid_array us e) = en_buf e @ put_array (\<lambda>u. u) us"
  "en_buf (en_empty_tagged_fields e) = en_buf e @ put_uvarlong 0"
  "en_buf (meta_frame t n e) = en_buf e @ [FRAME_VERSION] @ put_uvarlong (ucast t) @ put_uvarlong (ucast n)"
  by (simp_all add: codec en_compact_string_def en_compact_i32_array_def en_compact_uuid_array_def
      en_empty_tagged_fields_def meta_frame_def put_string_def put_array_def count_word_def)

interpretation kstr: cursor_codec put_string compact_string "\<lambda>s. count_ok s \<and> utf8_valid s"
proof
  fix s c tail assume ok: "count_ok s \<and> utf8_valid s" and r: "cu_rest c = put_string s @ tail"
  then have 1: "cu_rest c = put_uvarlong (count_word s) @ s @ tail" by (simp add: put_string_def)
  note n = kuv.dec_enc [OF TrueI 1]
  have t: "cu_take (length s) (cu_adv (length (put_uvarlong (count_word s))) c) =
      Some (Inr s, cu_adv (length s) (cu_adv (length (put_uvarlong (count_word s))) c))"
    using 1 by (intro cu_take_enc [of _ s tail]) simp
  show "compact_string c = Some (Inr s, cu_adv (length (put_string s)) c)"
    unfolding compact_string_def st_bind_ok [where p = cu_uvarlong, OF n]
    using ok count_word [of s] t by (simp add: st_bind_def put_string_def)
qed

interpretation kuuid: cursor_codec "\<lambda>u. u" read_uuid "\<lambda>u. length u = 16"
  unfolding read_uuid_def by unfold_locales (metis cu_take_enc)

lemma compact_array_codec:
  assumes "cursor_codec e d ok"
  shows "cursor_codec (put_array e) (compact_array d) (\<lambda>xs. count_ok xs \<and> (\<forall>x \<in> set xs. ok x))"
proof
  fix xs c tail assume ok: "count_ok xs \<and> (\<forall>x \<in> set xs. ok x)" and r: "cu_rest c = put_array e xs @ tail"
  then have 1: "cu_rest c = put_uvarlong (count_word xs) @ concat (map e xs) @ tail" by (simp add: put_array_def)
  note n = kuv.dec_enc [OF TrueI 1]
  have "st_each (\<lambda>_. d) [0..<length xs] (cu_adv (length (put_uvarlong (count_word xs))) c) =
      Some (Inr xs, cu_adv (length (concat (map e xs))) (cu_adv (length (put_uvarlong (count_word xs))) c))"
    using ok 1 by (intro each_codec [OF assms, where tail = tail]) simp_all
  then show "compact_array d c = Some (Inr xs, cu_adv (length (put_array e xs)) c)"
    unfolding compact_array_def st_bind_ok [where p = cu_uvarlong, OF n]
    using ok count_word [of xs] by (simp add: put_array_def)
qed

interpretation karr: cursor_codec "put_array u32_be" compact_i32_array "\<lambda>xs. count_ok xs \<and> (\<forall>x \<in> set xs. True)"
  unfolding compact_i32_array_def by (rule compact_array_codec [OF ki32.cursor_codec_axioms])

interpretation kuarr: cursor_codec "put_array (\<lambda>u. u)" compact_uuid_array
    "\<lambda>xs. count_ok xs \<and> (\<forall>x \<in> set xs. length x = 16)"
  unfolding compact_uuid_array_def by (rule compact_array_codec [OF kuuid.cursor_codec_axioms])

fun meta_ok :: "metadata_record \<Rightarrow> bool" where
  "meta_ok (M_FeatureLevel r) = (count_ok (fl_name r) \<and> utf8_valid (fl_name r))"
| "meta_ok (M_Topic r) = (count_ok (tp_name r) \<and> utf8_valid (tp_name r) \<and> length (tp_id r) = 16)"
| "meta_ok (M_Partition r) = (length (pr_topic_id r) = 16 \<and> count_ok (pr_replicas r) \<and> count_ok (pr_isr r) \<and>
     count_ok (pr_directories r) \<and> (\<forall>d \<in> set (pr_directories r). length d = 16))"
| "meta_ok (M_Other t v) = True"

lemma decode_frame:
  assumes "cu_rest c = [FRAME_VERSION] @ put_uvarlong (ucast (t :: u32)) @ put_uvarlong (ucast (v :: u32)) @ tail"
  shows "\<exists>c'. decode_metadata c =
      (if t = FEATURE_LEVEL then decode_feature_level c'
       else if t = TOPIC then decode_topic c'
       else if t = PARTITION then decode_partition v c'
       else Some (Inr (M_Other t v), c')) \<and> cu_rest c' = tail"
proof -
  note 1 = ctx_step [OF ki8.cursor_codec_axioms TrueI assms]
  note 2 = ctx_step [OF kuv.cursor_codec_axioms TrueI 1(2)]
  note 3 = ctx_step [OF kuv.cursor_codec_axioms TrueI 2(2)]
  let ?c = "cu_adv (length (put_uvarlong (ucast v))) (cu_adv (length (put_uvarlong (ucast t)))
      (cu_adv (length [FRAME_VERSION]) c))"
  have "decode_metadata c =
      (if t = FEATURE_LEVEL then decode_feature_level
       else if t = TOPIC then decode_topic
       else if t = PARTITION then decode_partition v
       else st_return (M_Other t v)) ?c"
    unfolding decode_metadata_def
    by (simp only: 1(1) 2(1) 3(1) if_False not_True_eq_False Let_def ucast_ucast_32 simp_thms)
  moreover have "\<dots> = (if t = FEATURE_LEVEL then decode_feature_level ?c else if t = TOPIC then decode_topic ?c
      else if t = PARTITION then decode_partition v ?c else Some (Inr (M_Other t v), ?c))"
    by simp
  ultimately show ?thesis using 3(2) by (intro exI [of _ ?c] conjI) (simp only:)+
qed

lemma decode_feature_enc:
  assumes "count_ok n" "utf8_valid n" "cu_rest c = put_string n @ u16_be l @ tail"
  shows "\<exists>c'. decode_feature_level c = Some (Inr (M_FeatureLevel \<lparr>fl_name = n, fl_level = l\<rparr>), c')"
proof -
  have n: "count_ok n \<and> utf8_valid n" using assms by simp
  note 1 = ctx_step [OF kstr.cursor_codec_axioms n assms(3)]
  note 2 = ctx_step [OF ki16.cursor_codec_axioms TrueI 1(2)]
  show ?thesis unfolding decode_feature_level_def 1(1) 2(1) by simp
qed

lemma decode_topic_enc:
  assumes "count_ok n" "utf8_valid n" "length u = 16" "cu_rest c = put_string n @ u @ tail"
  shows "\<exists>c'. decode_topic c = Some (Inr (M_Topic \<lparr>tp_name = n, tp_id = u\<rparr>), c')"
proof -
  have n: "count_ok n \<and> utf8_valid n" using assms by simp
  note 1 = ctx_step [OF kstr.cursor_codec_axioms n assms(4)]
  note 2 = ctx_step [OF kuuid.cursor_codec_axioms assms(3) 1(2)]
  show ?thesis unfolding decode_topic_def 1(1) 2(1) by simp
qed

lemma decode_partition_enc:
  assumes ok: "meta_ok (M_Partition r)"
    and c: "cu_rest c = u32_be (pr_partition_id r) @ pr_topic_id r @ put_array u32_be (pr_replicas r) @
      put_array u32_be (pr_isr r) @ put_array u32_be [] @ put_array u32_be [] @ u32_be (pr_leader r) @
      u32_be (pr_leader_epoch r) @ u32_be (pr_partition_epoch r) @ put_array (\<lambda>u. u) (pr_directories r) @ tail"
  shows "\<exists>c'. decode_partition 1 c = Some (Inr (M_Partition r), c')"
proof -
  have u: "length (pr_topic_id r) = 16" and rs: "count_ok (pr_replicas r) \<and> (\<forall>x \<in> set (pr_replicas r). True)"
    and sr: "count_ok (pr_isr r) \<and> (\<forall>x \<in> set (pr_isr r). True)"
    and e: "count_ok ([] :: 32 word list) \<and> (\<forall>x \<in> set ([] :: 32 word list). True)"
    and d: "count_ok (pr_directories r) \<and> (\<forall>x \<in> set (pr_directories r). length x = 16)"
    using ok by (simp_all add: count_ok_def)
  note 1 = ctx_step [OF ki32.cursor_codec_axioms TrueI c]
  note 2 = ctx_step [OF kuuid.cursor_codec_axioms u 1(2)]
  note 3 = ctx_step [OF karr.cursor_codec_axioms rs 2(2)]
  note 4 = ctx_step [OF karr.cursor_codec_axioms sr 3(2)]
  note 5 = ctx_step [OF karr.cursor_codec_axioms e 4(2)]
  note 6 = ctx_step [OF karr.cursor_codec_axioms e 5(2)]
  note 7 = ctx_step [OF ki32.cursor_codec_axioms TrueI 6(2)]
  note 8 = ctx_step [OF ki32.cursor_codec_axioms TrueI 7(2)]
  note 9 = ctx_step [OF ki32.cursor_codec_axioms TrueI 8(2)]
  note 10 = ctx_step [OF kuarr.cursor_codec_axioms d 9(2)]
  show ?thesis
    unfolding decode_partition_def 1(1) 2(1) 3(1) 4(1) 5(1) 6(1) 7(1) 8(1) 9(1)
    by (simp only: order_refl if_True 10(1)) simp
qed

lemma meta_decode_frame:
  assumes "\<And>c. cu_rest c = rest @ tail \<Longrightarrow> \<exists>c'.
      (if t = FEATURE_LEVEL then decode_feature_level c else if t = TOPIC then decode_topic c
       else if t = PARTITION then decode_partition v c else Some (Inr (M_Other t v), c)) = Some (Inr m, c')"
  shows "meta_decode (([FRAME_VERSION] @ put_uvarlong (ucast (t :: u32)) @ put_uvarlong (ucast (v :: u32)) @ rest) @ tail) =
      Some (Inr m)"
proof -
  let ?bs = "([FRAME_VERSION] @ put_uvarlong (ucast t) @ put_uvarlong (ucast v) @ rest) @ tail"
  have "cu_rest (cursor_new ?bs) = [FRAME_VERSION] @ put_uvarlong (ucast t) @ put_uvarlong (ucast v) @ rest @ tail"
    by simp
  from decode_frame [OF this] obtain c where c: "cu_rest c = rest @ tail" and d: "decode_metadata (cursor_new ?bs) =
      (if t = FEATURE_LEVEL then decode_feature_level c else if t = TOPIC then decode_topic c
       else if t = PARTITION then decode_partition v c else Some (Inr (M_Other t v), c))"
    by blast
  from assms [OF c] d show ?thesis by (auto simp: meta_decode_def)
qed

lemma meta_encode_frames:
  "feature_level_encode f = [FRAME_VERSION] @ put_uvarlong (ucast FEATURE_LEVEL) @ put_uvarlong (ucast (0 :: u32)) @
     put_string (fl_name f) @ u16_be (fl_level f) @ put_uvarlong 0"
  "topic_encode t = [FRAME_VERSION] @ put_uvarlong (ucast TOPIC) @ put_uvarlong (ucast (0 :: u32)) @
     put_string (tp_name t) @ tp_id t @ put_uvarlong 0"
  "partition_encode r = [FRAME_VERSION] @ put_uvarlong (ucast PARTITION) @ put_uvarlong (ucast (1 :: u32)) @
     u32_be (pr_partition_id r) @ pr_topic_id r @ put_array u32_be (pr_replicas r) @
     put_array u32_be (pr_isr r) @ put_array u32_be [] @ put_array u32_be [] @ u32_be (pr_leader r) @
     u32_be (pr_leader_epoch r) @ u32_be (pr_partition_epoch r) @ put_array (\<lambda>u. u) (pr_directories r) @
     put_uvarlong 0"
  by (simp_all add: feature_level_encode_def topic_encode_def partition_encode_def en_done_def codec)

lemma meta_type_ids:
  "TOPIC \<noteq> FEATURE_LEVEL" "PARTITION \<noteq> FEATURE_LEVEL" "PARTITION \<noteq> TOPIC"
  by (simp_all add: TOPIC_def PARTITION_def FEATURE_LEVEL_def)

lemma meta_decode_feature:
  assumes "meta_ok (M_FeatureLevel f)"
  shows "meta_decode (feature_level_encode f @ tail) = Some (Inr (M_FeatureLevel f))"
  unfolding meta_encode_frames
proof (rule meta_decode_frame)
  fix c assume "cu_rest c = (put_string (fl_name f) @ u16_be (fl_level f) @ put_uvarlong 0) @ tail"
  then have "cu_rest c = put_string (fl_name f) @ u16_be (fl_level f) @ put_uvarlong 0 @ tail" by simp
  from decode_feature_enc [OF _ _ this] assms
  show "\<exists>c'. (if FEATURE_LEVEL = FEATURE_LEVEL then decode_feature_level c
      else if FEATURE_LEVEL = TOPIC then decode_topic c
      else if FEATURE_LEVEL = PARTITION then decode_partition 0 c
      else Some (Inr (M_Other FEATURE_LEVEL 0), c)) = Some (Inr (M_FeatureLevel f), c')"
    by (cases f) simp
qed

lemma meta_decode_topic:
  assumes "meta_ok (M_Topic f)"
  shows "meta_decode (topic_encode f @ tail) = Some (Inr (M_Topic f))"
  unfolding meta_encode_frames
proof (rule meta_decode_frame)
  fix c assume "cu_rest c = (put_string (tp_name f) @ tp_id f @ put_uvarlong 0) @ tail"
  then have "cu_rest c = put_string (tp_name f) @ tp_id f @ put_uvarlong 0 @ tail" by simp
  from decode_topic_enc [OF _ _ _ this] assms
  show "\<exists>c'. (if TOPIC = FEATURE_LEVEL then decode_feature_level c else if TOPIC = TOPIC then decode_topic c
      else if TOPIC = PARTITION then decode_partition 0 c
      else Some (Inr (M_Other TOPIC 0), c)) = Some (Inr (M_Topic f), c')"
    by (cases f) (simp add: meta_type_ids)
qed

lemma meta_decode_partition:
  assumes "meta_ok (M_Partition r)"
  shows "meta_decode (partition_encode r @ tail) = Some (Inr (M_Partition r))"
  unfolding meta_encode_frames
proof (rule meta_decode_frame)
  fix c assume c: "cu_rest c = (u32_be (pr_partition_id r) @ pr_topic_id r @ put_array u32_be (pr_replicas r) @
      put_array u32_be (pr_isr r) @ put_array u32_be [] @ put_array u32_be [] @ u32_be (pr_leader r) @
      u32_be (pr_leader_epoch r) @ u32_be (pr_partition_epoch r) @ put_array (\<lambda>u. u) (pr_directories r) @
      put_uvarlong 0) @ tail"
  from decode_partition_enc [OF assms, of c "put_uvarlong 0 @ tail"] c
  show "\<exists>c'. (if PARTITION = FEATURE_LEVEL then decode_feature_level c
      else if PARTITION = TOPIC then decode_topic c
      else if PARTITION = PARTITION then decode_partition 1 c
      else Some (Inr (M_Other PARTITION 1), c)) = Some (Inr (M_Partition r), c')"
    by (simp add: meta_type_ids del: meta_ok.simps)
qed

lemma meta_decode_encode:
  "meta_ok m \<Longrightarrow> meta_encode m = Some bs \<Longrightarrow> meta_decode (bs @ tail) = Some (Inr m)"
  by (cases m) (auto simp: meta_encode_def meta_decode_feature meta_decode_topic meta_decode_partition
      simp del: meta_ok.simps)

section \<open>Topic ids as text are injective\<close>

lemma alphabet_inj: "i < 64 \<Longrightarrow> j < 64 \<Longrightarrow> ALPHABET ! i = ALPHABET ! j \<Longrightarrow> i = j"
proof -
  assume "i < 64" "j < 64" "ALPHABET ! i = ALPHABET ! j"
  moreover have "distinct ALPHABET" by code_simp
  moreover have "length ALPHABET = 64" by code_simp
  ultimately show "i = j" by (simp add: nth_eq_iff_index_eq)
qed

definition sextets :: "nat \<Rightarrow> nat list" where
  "sextets n = [n div 262144 mod 64, n div 4096 mod 64, n div 64 mod 64, n mod 64]"

lemma sextets_inj:
  assumes "n < 16777216" "m < 16777216"
  shows "sextets n = sextets m \<Longrightarrow> n = m"
    and "take 2 (sextets n) = take 2 (sextets m) \<Longrightarrow> n div 4096 = m div 4096"
    and "take 3 (sextets n) = take 3 (sextets m) \<Longrightarrow> n div 64 = m div 64"
proof -
  have d: "k div 262144 = k div 4096 div 64" "k div 4096 = k div 64 div 64" for k :: nat
    by (simp_all add: div_mult2_eq [symmetric])
  have e: "k div 4096 = 64 * (k div 262144) + k div 4096 mod 64"
    "k div 64 = 64 * (k div 4096) + k div 64 mod 64" "k = 64 * (k div 64) + k mod 64" for k :: nat
    unfolding d(1) unfolding d(2) by simp_all
  have s: "n div 262144 mod 64 = n div 262144" "m div 262144 mod 64 = m div 262144" using assms by simp_all
  show 2: "n div 4096 = m div 4096" if "take 2 (sextets n) = take 2 (sextets m)"
  proof -
    have "n div 262144 = m div 262144" "n div 4096 mod 64 = m div 4096 mod 64"
      using that s by (simp_all add: sextets_def)
    then show ?thesis by (intro trans [OF e(1) [of n] trans [OF _ e(1) [of m, symmetric]]]) (simp only:)
  qed
  show 3: "n div 64 = m div 64" if "take 3 (sextets n) = take 3 (sextets m)"
  proof -
    have "n div 4096 = m div 4096" by (rule 2) (use that in \<open>simp add: sextets_def\<close>)
    moreover have "n div 64 mod 64 = m div 64 mod 64" using that by (simp add: sextets_def)
    ultimately show ?thesis by (intro trans [OF e(2) [of n] trans [OF _ e(2) [of m, symmetric]]]) (simp only:)
  qed
  show "n = m" if "sextets n = sextets m"
  proof -
    have "n div 64 = m div 64" by (rule 3) (use that in \<open>simp add: sextets_def\<close>)
    moreover have "n mod 64 = m mod 64" using that by (simp add: sextets_def)
    ultimately show ?thesis by (intro trans [OF e(3) [of n] trans [OF _ e(3) [of m, symmetric]]]) (simp only:)
  qed
qed

lemma bit_u8: "bit (w :: u8) k \<Longrightarrow> k < 8"
  by (drule bit_imp_le_length) simp

lemma base64_word:
  "unat ((push_bit 16 (ucast (a :: u8)) OR push_bit 8 (ucast (b :: u8))) OR ucast (c :: u8) :: u32) =
     65536 * unat a + 256 * unat b + unat c"
proof -
  have "push_bit 16 (ucast a) AND push_bit 8 (ucast b) = (0 :: u32)"
    "(push_bit 16 (ucast a) OR push_bit 8 (ucast b)) AND ucast c = (0 :: u32)"
    by (auto intro!: bit_eqI simp: bit_simps dest!: bit_u8)
  then have "(push_bit 16 (ucast a) OR push_bit 8 (ucast b)) OR ucast c =
      (push_bit 16 (ucast a) + push_bit 8 (ucast b) + ucast c :: u32)"
    by (simp add: disjunctive_add_eq_or)
  also have "\<dots> = word_of_nat (65536 * unat a + 256 * unat b + unat c)"
    by (simp add: push_bit_eq_mult)
  finally show ?thesis
    using byte_lt [of a] byte_lt [of b] byte_lt [of c] by (simp only: unat_of_nat) simp
qed

definition byte_at :: "nat \<Rightarrow> bytes \<Rightarrow> u8" where
  "byte_at i bs = (if i < length bs then bs ! i else 0)"

definition chunk_val :: "bytes \<Rightarrow> nat" where
  "chunk_val ch = 65536 * unat (ch ! 0) + 256 * unat (byte_at 1 ch) + unat (byte_at 2 ch)"

lemma chunk_val_lt: "chunk_val ch < 16777216"
  using byte_lt [of "ch ! 0"] byte_lt [of "byte_at 1 ch"] byte_lt [of "byte_at 2 ch"] by (simp add: chunk_val_def)

lemma base64_chunk_sextets:
  "base64_chunk ch = map ((!) ALPHABET)
     (take (if length ch = 1 then 2 else if length ch = 2 then 3 else 4) (sextets (chunk_val ch)))"
proof -
  let ?n = "(push_bit 16 (ucast (ch ! 0)) OR push_bit 8 (ucast (byte_at 1 ch))) OR ucast (byte_at 2 ch) :: u32"
  have n: "unat ?n = chunk_val ch" by (simp only: base64_word chunk_val_def)
  have "base64_chunk ch = take (if length ch = 1 then 2 else if length ch = 2 then 3 else 4)
      [ALPHABET ! (unat (drop_bit 18 ?n) mod 64), ALPHABET ! (unat (drop_bit 12 ?n) mod 64),
       ALPHABET ! (unat (drop_bit 6 ?n) mod 64), ALPHABET ! (unat ?n mod 64)]"
    by (simp only: base64_chunk_def byte_at_def Let_def)
  also have "\<dots> = take (if length ch = 1 then 2 else if length ch = 2 then 3 else 4)
      (map ((!) ALPHABET) (sextets (chunk_val ch)))"
    by (simp only: unat_drop_bit_eq n) (simp add: drop_bit_eq_div sextets_def)
  finally show ?thesis by (simp only: take_map)
qed

lemma sextets_lt: "x \<in> set (sextets n) \<Longrightarrow> x < 64"
  by (auto simp: sextets_def)

lemma alphabet_map_inj:
  "\<forall>x \<in> set xs. x < 64 \<Longrightarrow> \<forall>y \<in> set ys. y < 64 \<Longrightarrow> map ((!) ALPHABET) xs = map ((!) ALPHABET) ys \<Longrightarrow> xs = ys"
  by (rule list.inj_map_strong [of xs ys "(!) ALPHABET" "(!) ALPHABET"]) (auto intro: alphabet_inj)

lemma digit:
  assumes "B * x + y = B * x' + y'" "y < B" "y' < (B :: nat)"
  shows "x = x' \<and> y = y'"
proof -
  have "(B * x + y) div B = (B * x' + y') div B" "(B * x + y) mod B = (B * x' + y') mod B" using assms(1) by simp_all
  then show ?thesis using assms(2,3) by simp
qed

lemma digits2:
  "1024 * x + 4 * y = 1024 * x' + 4 * y' \<Longrightarrow> y < 256 \<Longrightarrow> y' < 256 \<Longrightarrow> x = x' \<and> y = y'" for x y x' y' :: nat
  by (rule digit [of 256]) simp_all

lemma digits3:
  "65536 * x + 256 * y + z = 65536 * x' + 256 * y' + z' \<Longrightarrow> y < 256 \<Longrightarrow> y' < 256 \<Longrightarrow> z < 256 \<Longrightarrow> z' < 256 \<Longrightarrow>
     x = x' \<and> y = y' \<and> z = z'" for x y z x' y' z' :: nat
  using digit [of 256 "256 * x + y" z "256 * x' + y'" z'] digit [of 256 x y x' y'] by simp

lemma base64_chunk_inj:
  assumes l: "length ch = length ch'" and n: "0 < length ch" "length ch \<le> 3" and e: "base64_chunk ch = base64_chunk ch'"
  shows "ch = ch'"
proof -
  let ?k = "if length ch = 1 then 2 else if length ch = 2 then 3 else (4 :: nat)"
  have t: "take ?k (sextets (chunk_val ch)) = take ?k (sextets (chunk_val ch'))"
    using e l by (intro alphabet_map_inj) (auto simp: base64_chunk_sextets dest!: in_set_takeD sextets_lt)
  have "length ch = 1 \<or> length ch = 2 \<or> length ch = 3" using n by linarith
  then show ?thesis
  proof (elim disjE)
    assume 1: "length ch = 1"
    then obtain a b where c: "ch = [a]" "ch' = [b]" using l by (auto simp: length_Suc_conv)
    with sextets_inj(2) [OF chunk_val_lt chunk_val_lt, of ch ch'] t
    have "chunk_val ch div 4096 = chunk_val ch' div 4096" by simp
    then have "unat a = unat b" by (simp add: c chunk_val_def byte_at_def)
    then have "a = b" by (rule unsigned_word_eqI)
    then show ?thesis by (simp only: c)
  next
    assume 2: "length ch = 2"
    then obtain a b a' b' where c: "ch = [a, b]" "ch' = [a', b']" using l by (auto simp: length_Suc_conv numeral_2_eq_2)
    with sextets_inj(3) [OF chunk_val_lt chunk_val_lt, of ch ch'] t
    have "chunk_val ch div 64 = chunk_val ch' div 64" by simp
    then have "1024 * unat a + 4 * unat b = 1024 * unat a' + 4 * unat b'" by (simp add: c chunk_val_def byte_at_def)
    then have "unat a = unat a' \<and> unat b = unat b'" by (rule digits2) (rule byte_lt)+
    then show ?thesis by (simp add: c word_unat_eq_iff)
  next
    assume 3: "length ch = 3"
    then obtain a b d a' b' d' where c: "ch = [a, b, d]" "ch' = [a', b', d']" using l by (auto simp: length_Suc_conv numeral_3_eq_3)
    with sextets_inj(1) [OF chunk_val_lt chunk_val_lt, of ch ch'] t
    have "chunk_val ch = chunk_val ch'" by (simp add: sextets_def)
    then have "65536 * unat a + 256 * unat b + unat d = 65536 * unat a' + 256 * unat b' + unat d'"
      by (simp add: c chunk_val_def byte_at_def)
    then have "unat a = unat a' \<and> unat b = unat b' \<and> unat d = unat d'"
      by (rule digits3) (rule byte_lt)+
    then show ?thesis by (simp add: c word_unat_eq_iff)
  qed
qed

lemma length_base64_chunk:
  "0 < length ch \<Longrightarrow> length ch \<le> 3 \<Longrightarrow> length (base64_chunk ch) = Suc (length ch)"
proof -
  assume "0 < length ch" "length ch \<le> 3"
  then have "length ch = 1 \<or> length ch = 2 \<or> length ch = 3" by linarith
  then show ?thesis by (elim disjE) (simp_all add: base64_chunk_sextets sextets_def)
qed

lemma chunks_step: "bs \<noteq> [] \<Longrightarrow> chunks 3 bs = take 3 bs # chunks 3 (drop 3 bs)"
  by (subst chunks.simps) simp

lemma base64_step:
  "bs \<noteq> [] \<Longrightarrow> base64_url_nopad bs = base64_chunk (take 3 bs) @ base64_url_nopad (drop 3 bs)"
  by (simp add: base64_url_nopad_def chunks_step)

lemma base64_inj: "length as = length bs \<Longrightarrow> base64_url_nopad as = base64_url_nopad bs \<Longrightarrow> as = bs"
proof (induction "length as" arbitrary: as bs rule: less_induct)
  case less
  show ?case
  proof (cases "as = []")
    case False
    then have ne: "as \<noteq> []" "bs \<noteq> []" using less(2) by auto
    have l: "length (take 3 as) = length (take 3 bs)" "0 < length (take 3 as)" "length (take 3 as) \<le> 3"
      "0 < length (take 3 bs)" "length (take 3 bs) \<le> 3"
      using less(2) ne by simp_all
    have "base64_chunk (take 3 as) = base64_chunk (take 3 bs) \<and>
        base64_url_nopad (drop 3 as) = base64_url_nopad (drop 3 bs)"
      using less(3) length_base64_chunk [OF l(2,3)] length_base64_chunk [OF l(4,5)] l(1)
      unfolding base64_step [OF ne(1)] base64_step [OF ne(2)] by simp
    moreover have "drop 3 as = drop 3 bs" if "base64_url_nopad (drop 3 as) = base64_url_nopad (drop 3 bs)"
      using less(1) [of "drop 3 as" "drop 3 bs"] that less(2) ne by simp
    ultimately have "take 3 as = take 3 bs" "drop 3 as = drop 3 bs"
      using base64_chunk_inj [OF l(1-3)] by simp_all
    then show ?thesis by (metis append_take_drop_id)
  qed (use less in simp)
qed

lemma length_base64: "length (base64_url_nopad bs) = (4 * length bs + 2) div 3"
proof (induction "length bs" arbitrary: bs rule: less_induct)
  case less
  show ?case
  proof (cases "bs = []")
    case False
    show ?thesis
    proof (cases "length bs \<le> 3")
      case True
      then have "length (base64_url_nopad bs) = Suc (length bs)"
        using False length_base64_chunk [of bs] base64_step [OF False]
        by (simp add: base64_url_nopad_def chunks.simps [of 3 "[]"])
      moreover have "length bs = 1 \<or> length bs = 2 \<or> length bs = 3" using False True length_greater_0_conv [of bs] by linarith
      ultimately show ?thesis by auto
    next
      case F: False
      then have "length (base64_url_nopad bs) = 4 + (4 * (length bs - 3) + 2) div 3"
        using False length_base64_chunk [of "take 3 bs"] base64_step [OF False] less [of "drop 3 bs"] by simp
      moreover have "4 * length bs + 2 = 4 * (length bs - 3) + 2 + 4 * 3" using F by simp
      ultimately show ?thesis by (simp only: div_mult_self1 split: if_splits)
    qed
  qed (simp add: base64_url_nopad_def chunks.simps)
qed

end
