(* ===== verification/Kafka_Conn.thy ===== *)
theory Kafka_Conn
  imports Kafka_Cursor Socket
begin

text \<open>
  The broker connection of \<^verbatim>\<open>kafkatest/src/proto/mod.rs\<close>: framing, correlation ids, deadlines and the
  failures of the peer. What a request type encodes to and how its response decodes is the
  \<open>kafka_protocol\<close> crate: the record \<open>request_api\<close> of one request type, whose encoders return the
  bytes they append and whose decoders return the value with what is left of the buffer.
\<close>

section \<open>Errors\<close>

definition MAX_FRAME :: nat where
  "MAX_FRAME = 100 * 1024 * 1024"

datatype proto_error =
    P_Closed
  | P_Timeout string
  | P_Io string
  | P_Frame string
  | P_Decode string

fun proto_error_display :: "proto_error \<Rightarrow> string" where
  "proto_error_display P_Closed = ''the broker closed the connection''"
| "proto_error_display (P_Timeout what) = ''timed out waiting for '' @ what"
| "proto_error_display (P_Io e) = ''socket error: '' @ e"
| "proto_error_display (P_Frame m) = ''bad frame: '' @ m"
| "proto_error_display (P_Decode m) = ''cannot decode: '' @ m"

section \<open>Requests and responses\<close>

record request_header =
  rh_request_api_key :: "16 word"
  rh_request_api_version :: "16 word"
  rh_correlation_id :: "32 word"
  rh_client_id :: "bytes option"

record ('q, 'r) request_api =
  ra_key :: "16 word"
  ra_header_version :: "16 word \<Rightarrow> 16 word"
  ra_response_header_version :: "16 word \<Rightarrow> 16 word"
  ra_encode_header :: "request_header \<Rightarrow> 16 word \<Rightarrow> string + bytes"
  ra_encode :: "'q \<Rightarrow> 16 word \<Rightarrow> string + bytes"
  ra_decode_header :: "bytes \<Rightarrow> 16 word \<Rightarrow> string + 32 word \<times> bytes"
  ra_decode :: "bytes \<Rightarrow> 16 word \<Rightarrow> string + 'r \<times> bytes"

record 'r decoded =
  de_body :: 'r
  de_correlation_id :: "32 word"
  de_raw :: bytes
  de_trailing :: nat

definition encode_request ::
  "('q, 'r) request_api \<Rightarrow> 16 word \<Rightarrow> 32 word \<Rightarrow> bytes option \<Rightarrow> 'q \<Rightarrow> proto_error + bytes" where
  "encode_request R version correlation_id client_id req =
     (let header = \<lparr>rh_request_api_key = ra_key R, rh_request_api_version = version,
                    rh_correlation_id = correlation_id, rh_client_id = client_id\<rparr> in
      case ra_encode_header R header (ra_header_version R version) of
        Inl e \<Rightarrow> Inl (P_Decode (''cannot encode request header: '' @ e))
      | Inr h \<Rightarrow>
          (case ra_encode R req version of
             Inl e \<Rightarrow> Inl (P_Decode (''cannot encode request body: '' @ e))
           | Inr b \<Rightarrow> Inr (h @ b)))"

definition decode_response :: "('q, 'r) request_api \<Rightarrow> 16 word \<Rightarrow> bytes \<Rightarrow> proto_error + 'r decoded" where
  "decode_response R version payload =
     (case ra_decode_header R payload (ra_response_header_version R version) of
        Inl e \<Rightarrow> Inl (P_Decode (''response header: '' @ e))
      | Inr (correlation_id, buf) \<Rightarrow>
          (case ra_decode R buf version of
             Inl e \<Rightarrow> Inl (P_Decode (''response body (v'' @ show_int (sint version) @ ''): '' @ e))
           | Inr (body, buf') \<Rightarrow>
               Inr \<lparr>de_body = body, de_correlation_id = correlation_id, de_raw = payload,
                    de_trailing = length buf'\<rparr>))"

section \<open>The connection\<close>

record kconn =
  k_next_id :: "32 word"
  k_client_id :: "bytes option"
  k_timeout :: nat
  k_last_request :: "bytes option"
  k_last_response :: "bytes option"
  k_now :: nat
  k_net :: net
  k_written :: bytes
  k_write_fails :: "string option"
  k_write_shut :: bool

type_synonym 'a kconn_op = "(kconn, proto_error, 'a) st"

text \<open>The connection once TCP has connected.\<close>

definition kconn_connect :: "nat \<Rightarrow> net \<Rightarrow> kconn" where
  "kconn_connect timeout net =
     \<lparr>k_next_id = 1, k_client_id = Some (as_bytes ''kafkatest''), k_timeout = timeout,
      k_last_request = None, k_last_response = None, k_now = 0, k_net = net, k_written = [],
      k_write_fails = None, k_write_shut = False\<rparr>"

definition peek_correlation_id :: "kconn \<Rightarrow> 32 word" where
  "peek_correlation_id c = k_next_id c"

definition next_correlation_id :: "32 word kconn_op" where
  "next_correlation_id c = (let id = k_next_id c in Some (Inr id, c\<lparr>k_next_id := id + 1\<rparr>))"

subsection \<open>Writing\<close>

definition send_bytes :: "bytes \<Rightarrow> unit kconn_op" where
  "send_bytes bs c =
     (case k_write_fails c of
        Some e \<Rightarrow> Some (Inl (P_Io e), c)
      | None \<Rightarrow> Some (Inr (), c\<lparr>k_written := k_written c @ bs\<rparr>))"

definition send_frame :: "bytes \<Rightarrow> unit kconn_op" where
  "send_frame payload =
     (let frame = u32_be (word_of_nat (length payload)) @ payload in
      st_bind (st_modify (\<lambda>c. c\<lparr>k_last_request := Some payload\<rparr>)) (\<lambda>_. send_bytes frame))"

definition shutdown_write :: "unit kconn_op" where
  "shutdown_write c =
     (case k_write_fails c of
        Some e \<Rightarrow> Some (Inl (P_Io e), c)
      | None \<Rightarrow> Some (Inr (), c\<lparr>k_write_shut := True\<rparr>))"

definition send_request ::
  "('q, 'r) request_api \<Rightarrow> 16 word \<Rightarrow> 32 word \<Rightarrow> 'q \<Rightarrow> bytes kconn_op" where
  "send_request R version correlation_id req =
     st_bind (st_get k_client_id) (\<lambda>client_id.
     st_bind (st_lift (encode_request R version correlation_id client_id req)) (\<lambda>payload.
     st_bind (send_frame payload) (\<lambda>_.
     st_return payload)))"

subsection \<open>Reading\<close>

text \<open>
  \<open>tokio::time::timeout(left, stream.read(buf))\<close> on a buffer of \<open>n\<close> bytes: \<open>None\<close> when nothing arrived
  in time, otherwise what the read returned.
\<close>

definition read_within :: "nat \<Rightarrow> nat \<Rightarrow> kconn \<Rightarrow> socket_read option \<times> kconn" where
  "read_within left n c =
     (case k_net c of
        [] \<Rightarrow> (None, c\<lparr>k_now := k_now c + left\<rparr>)
      | (delay, ev) # net \<Rightarrow>
          (if left < delay
           then (None, c\<lparr>k_now := k_now c + left, k_net := (delay - left, ev) # net\<rparr>)
           else
             (let c1 = c\<lparr>k_now := k_now c + delay, k_net := net\<rparr> in
              case ev of
                Read bs \<Rightarrow> (Some (Read (take n bs)), c1\<lparr>k_net := unread_rest n bs net\<rparr>)
              | _ \<Rightarrow> (Some ev, c1))))"

lemma read_within_consumes:
  "read_within left n c = (Some ev, c') \<Longrightarrow> ev \<noteq> Read [] \<Longrightarrow> net_size (k_net c') < net_size (k_net c)"
  by (auto simp: read_within_def Let_def
      split: list.splits if_splits socket_read.splits)

text \<open>\<open>read_exact_within\<close> with \<open>need\<close> bytes of the buffer still to fill and \<open>got\<close> filled.\<close>

function read_exact_loop :: "nat \<Rightarrow> string \<Rightarrow> nat \<Rightarrow> bytes \<Rightarrow> bytes kconn_op" where
  "read_exact_loop deadline what need got c =
     (if need = 0 then Some (Inr got, c)
      else
        (let left = deadline - k_now c in
         if left = 0 then Some (Inl (P_Timeout what), c)
         else
           (case read_within left need c of
              (None, c1) \<Rightarrow> Some (Inl (P_Timeout what), c1)
            | (Some ev, c1) \<Rightarrow>
                (case ev of
                   Read bs \<Rightarrow>
                     (if bs = [] then Some (Inl P_Closed, c1)
                      else read_exact_loop deadline what (need - length bs) (got @ bs) c1)
                 | Reset \<Rightarrow> Some (Inl P_Closed, c1)
                 | Io e \<Rightarrow> Some (Inl (P_Io e), c1)))))"
  by pat_completeness auto
termination
  by (relation "measure (\<lambda>(d, w, n, g, c). net_size (k_net c))")
     (auto dest!: read_within_consumes [OF sym])

declare read_exact_loop.simps [simp del]

definition read_exact_within :: "nat \<Rightarrow> nat \<Rightarrow> string \<Rightarrow> bytes kconn_op" where
  "read_exact_within n timeout what c = read_exact_loop (k_now c + timeout) what n [] c"

definition read_frame_within :: "nat \<Rightarrow> bytes kconn_op" where
  "read_frame_within timeout =
     st_bind (read_exact_within 4 timeout ''a response length prefix'') (\<lambda>len.
     let size = u32_from_be len :: 32 word in
     if sint size < 0
     then st_fail (P_Frame (''response length prefix is negative ('' @ show_int (sint size) @ '')''))
     else if nat (sint size) > MAX_FRAME
     then st_fail (P_Frame (''response length prefix is '' @ show_int (sint size) @ '' bytes, more than the '' @
            show_nat MAX_FRAME @ '' byte limit''))
     else
       st_bind (read_exact_within (nat (sint size)) timeout (show_int (sint size) @ '' bytes of response body''))
         (\<lambda>payload.
       st_bind (st_modify (\<lambda>c. c\<lparr>k_last_response := Some payload\<rparr>)) (\<lambda>_.
       st_return payload)))"

definition read_frame :: "bytes kconn_op" where
  "read_frame c = (let timeout = k_timeout c in read_frame_within timeout c)"

definition request_with_id ::
  "('q, 'r) request_api \<Rightarrow> 16 word \<Rightarrow> 32 word \<Rightarrow> 'q \<Rightarrow> 'r decoded kconn_op" where
  "request_with_id R version correlation_id req =
     st_bind (st_get k_client_id) (\<lambda>client_id.
     st_bind (st_lift (encode_request R version correlation_id client_id req)) (\<lambda>payload.
     st_bind (send_frame payload) (\<lambda>_.
     st_bind read_frame (\<lambda>resp.
     st_bind (st_lift (decode_response R version resp)) (\<lambda>d.
     if de_correlation_id d \<noteq> correlation_id
     then st_fail (P_Decode (''response.correlation_id: expected '' @ show_int (sint correlation_id) @
            '', got '' @ show_int (sint (de_correlation_id d))))
     else st_return d)))))"

definition request :: "('q, 'r) request_api \<Rightarrow> 16 word \<Rightarrow> 'q \<Rightarrow> 'r decoded kconn_op" where
  "request R version req = st_bind next_correlation_id (\<lambda>id. request_with_id R version id req)"

function kclosed_loop :: "nat \<Rightarrow> bytes \<Rightarrow> bytes kconn_op" where
  "kclosed_loop deadline seen c =
     (let left = deadline - k_now c in
      if left = 0 then Some (Inl (P_Timeout ''the broker to close the connection''), c)
      else
        (case read_within left 4096 c of
           (None, c1) \<Rightarrow> Some (Inl (P_Timeout ''the broker to close the connection''), c1)
         | (Some ev, c1) \<Rightarrow>
             (case ev of
                Read bs \<Rightarrow> (if bs = [] then Some (Inr seen, c1) else kclosed_loop deadline (seen @ bs) c1)
              | Reset \<Rightarrow> Some (Inr seen, c1)
              | Io e \<Rightarrow> Some (Inl (P_Io e), c1))))"
  by pat_completeness auto
termination
  by (relation "measure (\<lambda>(d, s, c). net_size (k_net c))")
     (auto dest!: read_within_consumes [OF sym])

declare kclosed_loop.simps [simp del]

definition kconn_expect_closed :: "nat \<Rightarrow> bytes kconn_op" where
  "kconn_expect_closed timeout c = kclosed_loop (k_now c + timeout) [] c"

definition kconn_read_silence :: "nat \<Rightarrow> bytes kconn_op" where
  "kconn_read_silence quiet c =
     (case read_within quiet 4096 c of
        (None, c1) \<Rightarrow> Some (Inr [], c1)
      | (Some ev, c1) \<Rightarrow>
          (case ev of
             Read bs \<Rightarrow> Some (if bs = [] then Inl P_Closed else Inr bs, c1)
           | Reset \<Rightarrow> Some (Inl P_Closed, c1)
           | Io e \<Rightarrow> Some (Inl (P_Io e), c1)))"

section \<open>Framing\<close>

lemma read_within_frame:
  "read_within left n c = (r, c') \<Longrightarrow> k_timeout c' = k_timeout c \<and> k_next_id c' = k_next_id c \<and>
     k_client_id c' = k_client_id c \<and> k_last_request c' = k_last_request c \<and>
     k_last_response c' = k_last_response c \<and> k_written c' = k_written c"
  by (auto simp: read_within_def Let_def split: list.splits if_splits socket_read.splits)

definition same_sent :: "kconn \<Rightarrow> kconn \<Rightarrow> bool" where
  "same_sent c c' \<longleftrightarrow> k_timeout c' = k_timeout c \<and> k_next_id c' = k_next_id c \<and>
     k_client_id c' = k_client_id c \<and> k_last_request c' = k_last_request c \<and> k_written c' = k_written c"

lemma read_exact_loop_sent:
  "read_exact_loop d w n g c = Some (r, c') \<Longrightarrow> same_sent c c' \<and> k_last_response c' = k_last_response c"
proof (induction d w n g c rule: read_exact_loop.induct)
  case (1 d w n g c)
  show ?case
  proof (cases "n = 0 \<or> d - k_now c = 0")
    case True
    then show ?thesis
      using 1(2) by (auto simp: read_exact_loop.simps [of d w n g c] Let_def same_sent_def split: if_splits)
  next
    case False
    obtain r1 c1 where r: "read_within (d - k_now c) n c = (r1, c1)" by fastforce
    note f = read_within_frame [OF r]
    show ?thesis
    proof (cases "\<exists>bs. r1 = Some (Read bs) \<and> bs \<noteq> []")
      case True
      then obtain bs where bs: "r1 = Some (Read bs)" "bs \<noteq> []" by blast
      then have "read_exact_loop d w (n - length bs) (g @ bs) c1 = Some (r, c')"
        using 1(2) False r by (simp add: read_exact_loop.simps [of d w n g c] Let_def)
      then show ?thesis using 1(1) [of "d - k_now c" r1 c1 "Read bs" bs] False r bs f by (auto simp: same_sent_def)
    next
      case no: False
      have e: "read_exact_loop d w n g c = (case r1 of None \<Rightarrow> Some (Inl (P_Timeout w), c1)
          | Some (Read bs) \<Rightarrow> Some (Inl P_Closed, c1)
          | Some Reset \<Rightarrow> Some (Inl P_Closed, c1)
          | Some (Io e) \<Rightarrow> Some (Inl (P_Io e), c1))"
        using False r no by (subst read_exact_loop.simps) (simp add: Let_def split: option.split socket_read.split)
      have "c' = c1" using 1(2) unfolding e by (simp split: option.splits socket_read.splits)
      then show ?thesis using f by (simp add: same_sent_def)
    qed
  qed
qed

text \<open>A successful read takes exactly the bytes asked for from the front of the stream.\<close>

lemma read_exact_loop_complete:
  assumes "net_open (k_net c)" "k_now c + net_delay (k_net c) < d" "net_bytes (k_net c) = bs @ rest"
  shows "\<exists>c'. read_exact_loop d w (length bs) g c = Some (Inr (g @ bs), c') \<and> net_open (k_net c') \<and>
    k_now c \<le> k_now c' \<and> k_now c' + net_delay (k_net c') = k_now c + net_delay (k_net c) \<and>
    net_bytes (k_net c') = rest"
  using assms
proof (induction "net_size (k_net c)" arbitrary: c bs g rule: less_induct)
  case less
  show ?case
  proof (cases "bs = []")
    case True
    then show ?thesis using less.prems by (simp add: read_exact_loop.simps)
  next
    case False
    then obtain delay ev net where n: "k_net c = (delay, ev) # net" using less.prems(3) by (cases "k_net c") auto
    obtain chunk where ev: "ev = Read chunk" "chunk \<noteq> []" using less.prems(1) n by (cases ev) auto
    have k: "chunk @ net_bytes net = bs @ rest" using less.prems(3) n ev by simp
    let ?m = "take (length bs) chunk"
    let ?c1 = "c\<lparr>k_now := k_now c + delay, k_net := unread_rest (length bs) chunk net\<rparr>"
    have m: "?m = take (length chunk) bs"
      using arg_cong [OF k, of "take (min (length bs) (length chunk))"] by (simp add: min_def split: if_splits)
    then have bs: "bs = ?m @ drop (length chunk) bs" by simp
    have r: "read_within (d - k_now c) (length bs) c = (Some (Read ?m), ?c1)"
      using less.prems(2) n ev by (simp add: read_within_def)
    have ne: "?m \<noteq> []" using ev False by simp
    have nb: "net_bytes (k_net ?c1) = drop (length chunk) bs @ rest"
      using arg_cong [OF k, of "drop (length ?m)"] m by (simp add: min_def split: if_splits)
    have small: "net_size (k_net ?c1) < net_size (k_net c)" using read_within_consumes [OF r] ne by simp
    have l: "length (drop (length chunk) bs) = length bs - length ?m" by (simp add: min_def)
    have "\<exists>c'. read_exact_loop d w (length bs - length ?m) (g @ ?m) ?c1 = Some (Inr ((g @ ?m) @ drop (length chunk) bs), c') \<and>
        net_open (k_net c') \<and> k_now ?c1 \<le> k_now c' \<and>
        k_now c' + net_delay (k_net c') = k_now ?c1 + net_delay (k_net ?c1) \<and>
        net_bytes (k_net c') = rest"
      unfolding l [symmetric] by (rule less.hyps [OF small]) (use less.prems n ev nb in simp_all)
    then show ?thesis
      using r ne False less.prems(2) n bs by (subst read_exact_loop.simps) (auto simp: Let_def)
  qed
qed

definition kframe :: "bytes \<Rightarrow> bytes" where
  "kframe payload = u32_be (word_of_nat (length payload)) @ payload"

text \<open>A peer from which the given bytes arrive within the timeout.\<close>

definition answers :: "kconn \<Rightarrow> nat \<Rightarrow> bytes \<Rightarrow> bool" where
  "answers c timeout bs \<longleftrightarrow> net_open (k_net c) \<and> net_delay (k_net c) < timeout \<and> net_bytes (k_net c) = bs"

lemma read_exact_complete:
  assumes "answers c t (bs @ rest)"
  shows "\<exists>c'. read_exact_within (length bs) t w c = Some (Inr bs, c') \<and> answers c' t rest \<and> same_sent c c'"
proof -
  have "k_now c + net_delay (k_net c) < k_now c + t" using assms by (simp add: answers_def)
  from read_exact_loop_complete [OF _ this, of bs rest w "[]"] assms obtain c' where
    c': "read_exact_loop (k_now c + t) w (length bs) [] c = Some (Inr bs, c')" "net_open (k_net c')"
      "k_now c \<le> k_now c'" "k_now c' + net_delay (k_net c') = k_now c + net_delay (k_net c)" "net_bytes (k_net c') = rest"
    by (auto simp: answers_def)
  have "answers c' t rest" using assms c'(2-5) by (simp add: answers_def)
  then show ?thesis using c'(1) read_exact_loop_sent [OF c'(1)] by (simp add: read_exact_within_def)
qed

lemma frame_size:
  assumes "length p \<le> MAX_FRAME"
  shows "sint (u32_from_be (u32_be (word_of_nat (length p)))) = int (length p)"
proof -
  have "length p < 2 ^ 31" using assms by (simp add: MAX_FRAME_def)
  then show ?thesis by (simp add: sint_of_nat_32)
qed

lemma read_frame_complete:
  assumes "answers c t (kframe p @ rest)" "length p \<le> MAX_FRAME"
  shows "\<exists>c'. read_frame_within t c = Some (Inr p, c') \<and> answers c' t rest \<and> same_sent c c' \<and>
    k_last_response c' = Some p"
proof -
  let ?len = "u32_be (word_of_nat (length p))"
  have "answers c t (?len @ p @ rest)" using assms(1) by (simp add: kframe_def)
  from read_exact_complete [OF this, of "''a response length prefix''"] obtain c1 where
    1: "read_exact_within 4 t ''a response length prefix'' c = Some (Inr ?len, c1)" "answers c1 t (p @ rest)" "same_sent c c1"
    by auto
  from read_exact_complete [OF 1(2)] obtain c2 where
    2: "read_exact_within (length p) t (show_int (int (length p)) @ '' bytes of response body'') c1 = Some (Inr p, c2)"
       "answers c2 t rest" "same_sent c1 c2"
    by blast
  have "read_frame_within t c = Some (Inr p, c2\<lparr>k_last_response := Some p\<rparr>)"
    using 1(1) 2(1) frame_size [OF assms(2)] assms(2)
    by (simp add: read_frame_within_def st_bind_def Let_def)
  then show ?thesis using 1(3) 2(2,3) by (simp add: answers_def same_sent_def)
qed

lemma read_frames_complete:
  "answers c (k_timeout c) (concat (map kframe ps) @ rest) \<Longrightarrow> \<forall>p \<in> set ps. length p \<le> MAX_FRAME \<Longrightarrow>
     \<exists>c'. st_each (\<lambda>_. read_frame) ps c = Some (Inr ps, c') \<and> answers c' (k_timeout c') rest \<and> same_sent c c'"
proof (induction ps arbitrary: c)
  case Nil
  then show ?case by (simp add: same_sent_def)
next
  case (Cons p ps)
  then have "answers c (k_timeout c) (kframe p @ concat (map kframe ps) @ rest)" "length p \<le> MAX_FRAME" by simp_all
  from read_frame_complete [OF this] obtain c1 where
    1: "read_frame_within (k_timeout c) c = Some (Inr p, c1)" "answers c1 (k_timeout c) (concat (map kframe ps) @ rest)"
      "same_sent c c1"
    by blast
  then have "answers c1 (k_timeout c1) (concat (map kframe ps) @ rest)" by (simp add: same_sent_def)
  from Cons.IH [OF this] Cons.prems obtain c2 where
    2: "st_each (\<lambda>_. read_frame) ps c1 = Some (Inr ps, c2)" "answers c2 (k_timeout c2) rest" "same_sent c1 c2"
    by auto
  have "st_each (\<lambda>_. read_frame) (p # ps) c = Some (Inr (p # ps), c2)"
    using 1(1) 2(1) by (intro st_each_Cons_ok) (simp_all add: read_frame_def)
  then show ?case using 1(3) 2(2,3) by (auto simp: same_sent_def)
qed

text \<open>What a frame that was read says of the connection, whatever the peer sent.\<close>

lemma read_within_length: "read_within left n c = (Some (Read bs), c') \<Longrightarrow> length bs \<le> n"
  by (auto simp: read_within_def Let_def split: list.splits if_splits socket_read.splits)

lemma read_exact_loop_length:
  "read_exact_loop d w n g c = Some (Inr bs, c') \<Longrightarrow> length bs = length g + n"
proof (induction d w n g c rule: read_exact_loop.induct)
  case (1 d w n g c)
  show ?case
  proof (cases "n = 0")
    case True
    then show ?thesis using 1(2) by (simp add: read_exact_loop.simps [of d w 0 g c])
  next
    case False
    obtain m c1 where r: "d - k_now c \<noteq> 0" "read_within (d - k_now c) n c = (Some (Read m), c1)" "m \<noteq> []"
      and l: "read_exact_loop d w (n - length m) (g @ m) c1 = Some (Inr bs, c')"
      using 1(2) False
      by (auto simp: read_exact_loop.simps [of d w n g c] Let_def split: if_splits prod.splits option.splits socket_read.splits)
    from 1(1) [OF False refl r(1) r(2) [symmetric] _ _ r(3) l] read_within_length [OF r(2)]
    show ?thesis by simp
  qed
qed

lemma read_frameE:
  assumes "read_frame c = Some (Inr p, c')"
  shows "length p \<le> MAX_FRAME \<and> k_last_response c' = Some p \<and> same_sent c c'"
proof -
  obtain len c1 p' c2 where 1: "read_exact_loop (k_now c + k_timeout c) ''a response length prefix'' 4 [] c = Some (Inr len, c1)"
    and s: "\<not> MAX_FRAME < nat (sint (u32_from_be len))"
    and 2: "read_exact_loop (k_now c1 + k_timeout c) (show_int (sint (u32_from_be len)) @ '' bytes of response body'')
        (nat (sint (u32_from_be len))) [] c1 = Some (Inr p, c2)"
    and c': "c' = c2\<lparr>k_last_response := Some p\<rparr>"
    using assms unfolding read_frame_def read_frame_within_def read_exact_within_def
    by (auto simp: Let_def elim!: st_bindE split: if_splits)
  show ?thesis
    using read_exact_loop_sent [OF 1] read_exact_loop_sent [OF 2] read_exact_loop_length [OF 2] s c'
    by (simp add: same_sent_def)
qed

lemma send_frameE:
  assumes "send_frame p c = Some (Inr u, c')"
  shows "c' = c\<lparr>k_last_request := Some p, k_written := k_written c @ kframe p\<rparr>"
  using assms by (auto simp: send_frame_def send_bytes_def kframe_def Let_def st_bind_def st_modify_def split: option.splits)

lemma requestE:
  assumes "request R version req c = Some (Inr d, c')"
  shows "\<exists>payload. encode_request R version (k_next_id c) (k_client_id c) req = Inr payload \<and>
    k_written c' = k_written c @ kframe payload \<and> k_last_request c' = Some payload \<and>
    k_last_response c' = Some (de_raw d) \<and> decode_response R version (de_raw d) = Inr d \<and>
    de_correlation_id d = k_next_id c \<and> k_next_id c' = k_next_id c + 1 \<and> length (de_raw d) \<le> MAX_FRAME"
proof -
  let ?c0 = "c\<lparr>k_next_id := k_next_id c + 1\<rparr>"
  have "request_with_id R version (k_next_id c) req ?c0 = Some (Inr d, c')"
    using assms by (simp add: request_def next_correlation_id_def st_bind_def Let_def)
  then obtain payload u c1 resp c2 where e: "encode_request R version (k_next_id c) (k_client_id c) req = Inr payload"
    and 1: "send_frame payload ?c0 = Some (Inr u, c1)" and 2: "read_frame c1 = Some (Inr resp, c')"
    and d: "decode_response R version resp = Inr d" "de_correlation_id d = k_next_id c"
    unfolding request_with_id_def
    by (auto simp: st_lift_def elim!: st_bindE split: if_splits)
  have "resp = de_raw d" using d(1) by (auto simp: decode_response_def split: sum.splits)
  then show ?thesis using e d send_frameE [OF 1] read_frameE [OF 2] by (simp add: same_sent_def)
qed

text \<open>A request that is answered in time returns the answer.\<close>

lemma request_complete:
  assumes w: "k_write_fails c = None" and e: "encode_request R version (k_next_id c) (k_client_id c) req = Inr payload"
    and a: "answers c (k_timeout c) (kframe resp @ rest)" and l: "length resp \<le> MAX_FRAME"
    and d: "decode_response R version resp = Inr d" "de_correlation_id d = k_next_id c"
  shows "\<exists>c'. request R version req c = Some (Inr d, c') \<and> answers c' (k_timeout c') rest"
proof -
  let ?c1 = "c\<lparr>k_next_id := k_next_id c + 1, k_last_request := Some payload, k_written := k_written c @ kframe payload\<rparr>"
  have "answers ?c1 (k_timeout c) (kframe resp @ rest)" using a by (simp add: answers_def)
  from read_frame_complete [OF this l] obtain c' where
    c': "read_frame_within (k_timeout c) ?c1 = Some (Inr resp, c')" "answers c' (k_timeout c) rest" "same_sent ?c1 c'"
    by blast
  have s: "send_frame payload (c\<lparr>k_next_id := k_next_id c + 1\<rparr>) = Some (Inr (), ?c1)"
    using w by (simp add: send_frame_def send_bytes_def kframe_def st_bind_def st_modify_def)
  have "request R version req c = Some (Inr d, c')"
    using e c'(1) d s
    by (simp add: request_def next_correlation_id_def request_with_id_def st_bind_def st_get_def st_lift_def
        Let_def read_frame_def)
  then show ?thesis using c'(2,3) by (simp add: same_sent_def)
qed

section \<open>Finding a value in a frame\<close>

text \<open>A range \<open>a..b\<close> is the pair of its ends.\<close>

definition find_be :: "bytes \<Rightarrow> bytes \<Rightarrow> (nat \<times> nat) list" where
  "find_be haystack needle =
     (if needle = [] \<or> length needle > length haystack then []
      else
        map (\<lambda>i. (i, i + length needle))
          (filter (\<lambda>i. slice i (i + length needle) haystack = needle)
            [0..<length haystack - length needle + 1]))"

end
