(* ===== verification/Kafka_Theorems.thy ===== *)
theory Kafka_Theorems
  imports Kafka_Meta Kafka_Conn "HOL-Library.Code_Target_Numeral"
begin

text \<open>
  The properties of the Kafka client: record batches, metadata records and frames come back as they
  were written, and what a decoder accepts is what it promises.
\<close>

section \<open>A concrete codec and checksum\<close>

definition demo_ext :: kafka_ext where
  "demo_ext = \<lparr>ke_crc = (\<lambda>bs. word_of_nat (length bs)), ke_compress = (\<lambda>codec bs. Inr (rev bs)),
     ke_decompress = (\<lambda>codec bs. Inr (rev bs))\<rparr>"

lemma demo_ext_inverts: "codecs_invert demo_ext"
  by (simp add: codecs_invert_def demo_ext_def)

definition demo_batch :: record_batch where
  "demo_batch = with_compression ZSTD (batch_of 7 1000 [item_keyed [1] [2, 3], item_value [4]])"

section \<open>Record batches\<close>

text \<open>C19: a record batch comes back. For every batch without a forced record count or checksum
  whose parts fit their 32-bit lengths, in every compression the decompressors invert, decoding
  the encoded bytes returns the batch and its length, whatever bytes follow in the buffer.\<close>

theorem batch_roundtrip:
  assumes "codecs_invert X" and "try_encode X b = Inr bs" and "batch_ok b" and "length bs < 2 ^ 31"
  shows "batch_decode X (bs @ tail) = Some (Inr (b, length bs))"
  using assms by (rule batch_decode_encode)

lemma demo_batch_facts:
  "batch_ok demo_batch" "batch_compression demo_batch = ZSTD"
  "case try_encode demo_ext demo_batch of Inr bs \<Rightarrow> length bs < 2 ^ 31 | Inl _ \<Rightarrow> False"
  by code_simp+

lemma demo_batch_bytes: "\<exists>bs. try_encode demo_ext demo_batch = Inr bs \<and> length bs < 2 ^ 31"
  using demo_batch_facts(3) by (cases "try_encode demo_ext demo_batch") auto

lemma batch_roundtrip_witness:
  "\<exists>bs. try_encode demo_ext demo_batch = Inr bs \<and> batch_compression demo_batch = ZSTD \<and>
     batch_decode demo_ext (bs @ [9, 9]) = Some (Inr (demo_batch, length bs))"
proof -
  obtain bs where e: "try_encode demo_ext demo_batch = Inr bs" and l: "length bs < 2 ^ 31"
    using demo_batch_bytes by blast
  from batch_roundtrip [OF demo_ext_inverts e demo_batch_facts(1) l] e demo_batch_facts(2) show ?thesis by blast
qed

text \<open>a log segment comes back. Batches written one after the other are read back in order and
  completely, and a tail too short to hold a base offset and a length (under 12 bytes) is ignored,
  as the reader documents.\<close>

theorem segment_roundtrip:
  assumes "codecs_invert X"
    and "\<forall>b \<in> set bs. batch_ok b \<and> (\<exists>e. try_encode X b = Inr e \<and> length e < 2 ^ 31)"
    and "length tail < 12"
  shows "decode_all X (encode_batches X bs @ tail) = Some (Inr bs)"
  using decode_all_loop_enc [OF assms, of "[]" "[]"] by (simp add: decode_all_def)

lemma segment_roundtrip_witness:
  "decode_all demo_ext (encode_batches demo_ext [demo_batch, demo_batch] @ replicate 11 0) =
     Some (Inr [demo_batch, demo_batch])"
  by (rule segment_roundtrip) (use demo_ext_inverts demo_batch_facts(1) demo_batch_bytes in auto)

text \<open>what a decoded batch guarantees. Whatever the bytes, a batch that decodes is at least the 61
  bytes of its header long, lies inside the buffer, has magic 2, and its stored checksum is the
  checksum of exactly the bytes from the attributes to the end of the batch.\<close>

theorem batch_decode_sound:
  assumes "batch_decode X buf = Some (Inr (b, used))"
  shows "61 \<le> used \<and> used \<le> length buf \<and> buf ! 16 = 2 \<and>
    u32_be (ke_crc X (slice 21 used buf)) = slice 17 21 buf"
  using assms by (rule batch_decodeE)

lemma batch_decode_sound_witness:
  "\<exists>buf b used. batch_decode demo_ext buf = Some (Inr (b, used)) \<and> used < length buf \<and>
     u32_be (ke_crc demo_ext (slice 21 used buf)) = slice 17 21 buf"
proof -
  obtain bs where e: "try_encode demo_ext demo_batch = Inr bs" and l: "length bs < 2 ^ 31"
    using demo_batch_bytes by blast
  have d: "batch_decode demo_ext (bs @ [9]) = Some (Inr (demo_batch, length bs))"
    by (rule batch_decode_encode [OF demo_ext_inverts e demo_batch_facts(1) l])
  from batch_decode_sound [OF d] d show ?thesis by (intro exI [of _ "bs @ [9]"]) auto
qed

section \<open>Metadata records\<close>

text \<open>a cluster-metadata record comes back. Feature-level, topic and partition records decode to
  themselves from their encoding, their tagged fields and anything after them being ignored.\<close>

theorem metadata_roundtrip:
  assumes "meta_ok m" and "meta_encode m = Some bs"
  shows "meta_decode (bs @ tail) = Some (Inr m)"
  using assms by (rule meta_decode_encode)

definition demo_partition :: metadata_record where
  "demo_partition = M_Partition (partition_single 3 (replicate 16 5) 1 (replicate 16 6))"

lemma metadata_roundtrip_witness:
  "\<exists>bs. meta_encode demo_partition = Some bs \<and> meta_decode (bs @ [1, 2, 3]) = Some (Inr demo_partition)"
  using metadata_roundtrip [of demo_partition]
  by (auto simp: demo_partition_def meta_encode_def partition_single_def count_ok_def)

text \<open>topic ids print faithfully. The URL-safe base64 text of a byte string without padding has
  \<open>ceil (4n / 3)\<close> characters, all from the alphabet's length class, and two byte strings of one
  length print alike only when they are equal; so the text of a 16-byte id has 22 characters and
  names one id.\<close>

theorem topic_id_text:
  "length (base64_url_nopad bs) = (4 * length bs + 2) div 3 \<and>
   (length u = 16 \<longrightarrow> length (uuid_to_kafka_string u) = 22) \<and>
   (length u = 16 \<and> length v = 16 \<and> uuid_to_kafka_string u = uuid_to_kafka_string v \<longrightarrow> u = v)"
  by (auto simp: uuid_to_kafka_string_def length_base64 intro: base64_inj)

lemma topic_id_text_witness:
  "length (uuid_to_kafka_string (replicate 16 255)) = 22 \<and>
   uuid_to_kafka_string (replicate 16 255) \<noteq> uuid_to_kafka_string (replicate 16 254)"
  using topic_id_text [of "[]" "replicate 16 255" "replicate 16 254"] by auto

section \<open>The connection\<close>

text \<open>frames survive any segmentation. If what \<open>send_frame\<close> writes for each payload arrives in
  reads of any sizes, with delays that together stay under the timeout, reading one frame per
  payload returns the payloads in order and leaves the rest of the stream unread.\<close>

theorem frames_survive_segmentation:
  assumes "\<forall>bs \<in> set reads. bs \<noteq> []" and "length delays = length reads" and "sum_list delays < timeout"
    and "concat reads = concat (map kframe payloads) @ rest"
    and "\<forall>p \<in> set payloads. length p \<le> MAX_FRAME"
  shows "\<exists>c. st_each (\<lambda>_. read_frame) payloads (kconn_connect timeout (zip delays (map Read reads))) =
      Some (Inr payloads, c) \<and> net_bytes (k_net c) = rest"
proof -
  let ?c = "kconn_connect timeout (zip delays (map Read reads))"
  have "answers ?c (k_timeout ?c) (concat (map kframe payloads) @ rest)"
    using assms by (simp add: answers_def kconn_connect_def)
  from read_frames_complete [OF this assms(5)] show ?thesis by (auto simp: answers_def)
qed

lemma frames_survive_segmentation_witness:
  "\<exists>c. st_each (\<lambda>_. read_frame) ([[1, 2], []] :: bytes list)
      (kconn_connect 10 (zip [3, 0, 4] (map Read [[0, 0, 0], [2, 1, 2, 0, 0], [0, 0, 7]]))) =
     Some (Inr [[1, 2], []], c) \<and> net_bytes (k_net c) = [7]"
proof (rule frames_survive_segmentation)
  show "concat [[0, 0, 0], [2, 1, 2, 0, 0], [0, 0, 7]] = concat (map kframe [[1, 2], []]) @ [7]" by code_simp
qed (simp_all add: MAX_FRAME_def)

text \<open>C21: a returned response belongs to its request. When \<open>request\<close> returns a response, exactly the
  frame of the encoded request was written, the response was decoded from the frame kept as
  \<open>last_response\<close>, it carries the correlation id of this request, and the next request will use the
  next id (wrapping).\<close>

theorem response_matches_request:
  assumes "request R version req c = Some (Inr d, c')"
  shows "\<exists>payload. encode_request R version (k_next_id c) (k_client_id c) req = Inr payload \<and>
    k_written c' = k_written c @ kframe payload \<and> k_last_request c' = Some payload \<and>
    k_last_response c' = Some (de_raw d) \<and> decode_response R version (de_raw d) = Inr d \<and>
    de_correlation_id d = k_next_id c \<and> k_next_id c' = k_next_id c + 1 \<and> length (de_raw d) \<le> MAX_FRAME"
  using assms by (rule requestE)

text \<open>A request type whose header is the correlation id and whose bodies are plain bytes.\<close>

definition demo_api :: "(bytes, bytes) request_api" where
  "demo_api = \<lparr>ra_key = 18, ra_header_version = (\<lambda>v. 2), ra_response_header_version = (\<lambda>v. 0),
     ra_encode_header = (\<lambda>h v. Inr (u32_be (rh_correlation_id h))), ra_encode = (\<lambda>q v. Inr q),
     ra_decode_header = (\<lambda>bs v. if length bs < 4 then Inl ''short''
                              else Inr (u32_from_be (take 4 bs), drop 4 bs)),
     ra_decode = (\<lambda>bs v. Inr (bs, []))\<rparr>"

definition demo_kconn :: kconn where
  "demo_kconn = kconn_connect 10 [(1, Read (kframe (u32_be 1 @ [42])))]"

lemma demo_kconn_facts:
  "k_write_fails demo_kconn = None" "k_next_id demo_kconn = 1"
  "answers demo_kconn (k_timeout demo_kconn) (kframe (u32_be 1 @ [42]) @ [])"
  "decode_response demo_api 3 (u32_be 1 @ [42]) =
     Inr \<lparr>de_body = [42], de_correlation_id = 1, de_raw = u32_be 1 @ [42], de_trailing = 0\<rparr>"
  by (simp_all add: demo_kconn_def kconn_connect_def answers_def kframe_def decode_response_def demo_api_def)

text \<open>C20: an answered request returns. If the request encodes, the socket can be written, and the
  frame of a response that decodes and carries the right correlation id arrives within the timeout
  (in any reads), then \<open>request\<close> returns that response and leaves whatever follows it unread.\<close>

theorem answered_request_returns:
  assumes "k_write_fails c = None"
    and "encode_request R version (k_next_id c) (k_client_id c) req = Inr payload"
    and "answers c (k_timeout c) (kframe resp @ rest)" and "length resp \<le> MAX_FRAME"
    and "decode_response R version resp = Inr d" and "de_correlation_id d = k_next_id c"
  shows "\<exists>c'. request R version req c = Some (Inr d, c') \<and> answers c' (k_timeout c') rest"
  using assms by (rule request_complete)

lemma demo_request_encodes:
  "encode_request demo_api 3 (k_next_id demo_kconn) (k_client_id demo_kconn) [5] =
     Inr (u32_be (k_next_id demo_kconn) @ [5])"
  by (simp add: encode_request_def demo_api_def)

lemma answered_request_returns_witness:
  "\<exists>c'. request demo_api 3 [5] demo_kconn =
     Some (Inr \<lparr>de_body = [42], de_correlation_id = 1, de_raw = u32_be 1 @ [42], de_trailing = 0\<rparr>, c') \<and>
     answers c' (k_timeout c') []"
  by (rule answered_request_returns [OF demo_kconn_facts(1) demo_request_encodes demo_kconn_facts(3) _ demo_kconn_facts(4)])
     (simp_all add: MAX_FRAME_def demo_kconn_facts(2))

lemma response_matches_request_witness:
  "\<exists>d c'. request demo_api 3 [5] demo_kconn = Some (Inr d, c') \<and> de_correlation_id d = 1 \<and>
     k_next_id c' = 2"
proof -
  obtain d c' where r: "request demo_api 3 [5] demo_kconn = Some (Inr d, c')"
    using request_complete [OF demo_kconn_facts(1) demo_request_encodes demo_kconn_facts(3) _ demo_kconn_facts(4)]
    by (auto simp: MAX_FRAME_def demo_kconn_facts(2))
  from response_matches_request [OF r] r show ?thesis by (auto simp: demo_kconn_facts(2))
qed

section \<open>Two surprises of the decoders\<close>

text \<open>The message of a record whose length is wrong reports the position of the cursor in the payload,
  not the number of bytes of the record.\<close>

lemma mismatch_reports_position:
  assumes "pos < 2 ^ 63"
  shows "decoded_count e pos = int pos"
proof -
  have "decoded_count e pos = sint (word_of_nat pos :: 64 word)" by (simp add: decoded_count_def)
  also have "\<dots> = int pos" using assms by (simp add: signed_of_nat signed_take_bit_int_eq_self)
  finally show ?thesis .
qed

text \<open>The type of a metadata record is cut to 32 bits: type 4294967298 is read as a topic record.\<close>

lemma truncated_record_type:
  "meta_decode ([1] @ put_uvarlong 4294967298 @ [0, 2, 97] @ replicate 16 7 @ [0]) =
     Some (Inr (M_Topic \<lparr>tp_name = [97], tp_id = replicate 16 7\<rparr>))"
  by code_simp

end
