(* ===== verification/Wasm_Leb.thy ===== *)
theory Wasm_Leb
  imports Leb128
begin

text \<open>
  The integers of the WebAssembly binary format, \<^verbatim>\<open>wasmtest/src/wasm/encode.rs\<close>: shortest and padded
  LEB128, unsigned and signed. \<open>uleb_dec\<close> and \<open>sleb_dec\<close> are the format's own rules for reading such a
  number: seven bits a byte, least significant first, the last byte without its high bit; a signed
  number is extended from bit 6 of its last byte.
\<close>

section \<open>The encoders\<close>

function uleb :: "u64 \<Rightarrow> bytes" where
  "uleb v =
     (let byte = ucast (v AND 0x7f) :: u8; v' = drop_bit 7 v in
      if v' = 0 then [byte] else (byte OR 0x80) # uleb v')"
  by pat_completeness auto
termination
  by (relation "measure unat") (auto simp: unat_drop_7 word_unat_eq_iff)

declare uleb.simps [simp del]

text \<open>\<open>for i in 0..len\<close>: a byte is the last one when one remains.\<close>

fun uleb_padded :: "u64 \<Rightarrow> nat \<Rightarrow> bytes" where
  "uleb_padded v 0 = []"
| "uleb_padded v (Suc k) =
     (let byte = ucast (v AND 0x7f) :: u8 in
      (if k = 0 then byte else byte OR 0x80) # uleb_padded (drop_bit 7 v) k)"

section \<open>Bytes of seven bits\<close>

lemma low7: "unat (ucast (v AND 0x7f) :: u8) = unat v mod 128" for v :: u64
proof -
  have v: "v AND 0x7f = take_bit 7 v" by (simp only: take_bit_eq_mask) (simp add: mask_numeral)
  have "unat (v AND 0x7f) = unat v mod 128" unfolding v unsigned_take_bit_eq by (simp add: take_bit_eq_mod)
  then show ?thesis by (simp only: ucast_nat unat_byte) simp
qed

lemma low7_flag: "unat ((ucast (v AND 0x7f) :: u8) OR 0x80) = unat v mod 128 + 128" for v :: u64
proof -
  have "unat ((ucast (v AND 0x7f) :: u8) OR 0x80) = (unat v mod 128 mod 128 + 128) mod 256"
    by (simp only: flag_u8 low7 unat_byte)
  then show ?thesis by simp
qed

lemma sint_mod_128: "unat v mod 128 = nat (sint v mod 128)" for v :: u64
proof -
  have "take_bit 7 (sint v) = take_bit 7 (uint v)" unfolding sint_uint by (rule take_bit_signed_take_bit) simp
  moreover have "(2 :: int) ^ 7 = 128" by simp
  ultimately have "sint v mod 128 = uint v mod 128" by (simp only: take_bit_eq_mod)
  then show ?thesis by (simp add: nat_mod_distrib)
qed

lemma bit_6: "b AND 0x40 \<noteq> 0 \<longleftrightarrow> 64 \<le> unat b mod 128" for b :: u8
  by (rule u8_all [of "\<lambda>b. b AND 0x40 \<noteq> 0 \<longleftrightarrow> 64 \<le> unat b mod 128"]) code_simp

lemma sint_signed_drop_7: "sint (signed_drop_bit 7 v) = sint v div 128" for v :: "64 word"
  by (simp add: sint_signed_drop_bit_eq drop_bit_eq_div)

text \<open>The loop of the signed encoder stops when seven bits with the sign say it all.\<close>

lemma sleb_stop:
  "(signed_drop_bit 7 v = 0 \<and> \<not> ((ucast (v AND 0x7f) :: u8) AND 0x40 \<noteq> 0)) \<or>
   (signed_drop_bit 7 v = - 1 \<and> (ucast (v AND 0x7f) :: u8) AND 0x40 \<noteq> 0) \<longleftrightarrow>
   - 64 \<le> sint v \<and> sint v < 64" for v :: "64 word"
proof -
  have s: "(ucast (v AND 0x7f) :: u8) AND 0x40 \<noteq> 0 \<longleftrightarrow> 64 \<le> sint v mod 128"
    by (simp only: bit_6 low7 sint_mod_128 mod_mod_trivial) (simp add: le_nat_iff)
  have "signed_drop_bit 7 v = 0 \<longleftrightarrow> sint v div 128 = 0" "signed_drop_bit 7 v = - 1 \<longleftrightarrow> sint v div 128 = - 1"
    using sint_signed_drop_7 [of v] by (auto intro: signed_word_eqI)
  moreover have "(i div 128 = 0 \<and> \<not> 64 \<le> i mod 128) \<or> (i div 128 = - 1 \<and> 64 \<le> i mod 128) \<longleftrightarrow> - 64 \<le> i \<and> i < 64"
    for i :: int by presburger
  ultimately show ?thesis by (simp only: s)
qed

section \<open>The signed encoders\<close>

function sleb :: "64 word \<Rightarrow> bytes" where
  "sleb v =
     (let byte = ucast (v AND 0x7f) :: u8; v' = signed_drop_bit 7 v; sign_bit_set = (byte AND 0x40 \<noteq> 0) in
      if (v' = 0 \<and> \<not> sign_bit_set) \<or> (v' = - 1 \<and> sign_bit_set) then [byte]
      else (byte OR 0x80) # sleb v')"
  by pat_completeness auto
termination
proof (relation "measure (\<lambda>v. nat (if sint v < 0 then - sint v else sint v + 1))", goal_cases)
  case (2 v byte v' sign_bit_set)
  have "\<not> (- 64 \<le> sint v \<and> sint v < 64)" using 2(4) sleb_stop [of v] unfolding 2(1-3) by blast
  moreover have "nat (if i div 128 < 0 then - (i div 128) else i div 128 + 1) < nat (if i < 0 then - i else i + 1)"
    if "\<not> (- 64 \<le> i \<and> i < 64)" for i :: int using that by (auto; presburger)
  ultimately show ?case by (simp only: 2(2) sint_signed_drop_7 in_measure)
qed simp

declare sleb.simps [simp del]

fun sleb_padded :: "64 word \<Rightarrow> nat \<Rightarrow> bytes" where
  "sleb_padded v 0 = []"
| "sleb_padded v (Suc k) =
     (let byte = ucast (v AND 0x7f) :: u8 in
      (if k = 0 then byte else byte OR 0x80) # sleb_padded (signed_drop_bit 7 v) k)"

text \<open>\<open>vec(T)\<close> and \<open>name\<close>.\<close>

definition vector :: "bytes list \<Rightarrow> bytes" where
  "vector items = uleb (word_of_nat (length items)) @ concat items"

definition wasm_name :: "string \<Rightarrow> bytes" where
  "wasm_name s = uleb (word_of_nat (length s)) @ as_bytes s"

section \<open>Reading the numbers back\<close>

fun uleb_dec :: "bytes \<Rightarrow> (nat \<times> bytes) option" where
  "uleb_dec [] = None"
| "uleb_dec (b # bs) =
     (if unat b < 128 then Some (unat b, bs)
      else case uleb_dec bs of None \<Rightarrow> None | Some (n, r) \<Rightarrow> Some (unat b - 128 + 128 * n, r))"

fun sleb_dec :: "bytes \<Rightarrow> (int \<times> bytes) option" where
  "sleb_dec [] = None"
| "sleb_dec (b # bs) =
     (if unat b < 64 then Some (int (unat b), bs)
      else if unat b < 128 then Some (int (unat b) - 128, bs)
      else case sleb_dec bs of None \<Rightarrow> None | Some (n, r) \<Rightarrow> Some (int (unat b) - 128 + 128 * n, r))"

section \<open>Unsigned numbers\<close>

lemma uleb_nat_of: "uleb v = uleb_nat (unat v)"
proof (induction v rule: uleb.induct)
  case (1 v)
  have z: "drop_bit 7 v = 0 \<longleftrightarrow> unat v < 128" by (simp add: word_unat_eq_iff unat_drop_7 div_eq_0_iff)
  have low: "(ucast (v AND 0x7f) :: u8) = word_of_nat (unat v mod 128)"
    "((ucast (v AND 0x7f) :: u8) OR 0x80) = word_of_nat (unat v mod 128 + 128)"
    by (simp_all only: word_unat_eq_iff low7 low7_flag unat_byte) simp_all
  show ?case
  proof (cases "unat v < 128")
    case True
    then show ?thesis by (subst uleb.simps, subst uleb_nat.simps) (simp only: Let_def z low if_True mod_less)
  next
    case False
    then have "uleb (drop_bit 7 v) = uleb_nat (unat v div 128)" using 1 z by (simp add: unat_drop_7)
    with False show ?thesis by (subst uleb.simps, subst uleb_nat.simps) (simp only: Let_def z low(2) if_False)
  qed
qed

lemma uleb_is_put_uvarlong: "uleb = put_uvarlong"
  by (rule ext) (simp only: uleb_nat_of put_uvarlong_nat)

lemma uleb_dec_nat: "uleb_dec (uleb_nat n @ rest) = Some (n, rest)"
proof (induction n rule: uleb_nat.induct)
  case (1 n)
  have "unat (word_of_nat (n mod 128 + 128) :: u8) = n mod 128 + 128" by (simp only: unat_byte) simp
  moreover have "n < 128 \<Longrightarrow> unat (word_of_nat n :: u8) = n" by (simp only: unat_byte) simp
  ultimately show ?case using 1 by (subst uleb_nat.simps) (simp del: of_nat_add)
qed

lemma uleb_padded_dec: "0 < k \<Longrightarrow> uleb_dec (uleb_padded v k @ rest) = Some (unat v mod 128 ^ k, rest)"
proof (induction k arbitrary: v)
  case (Suc k)
  show ?case
  proof (cases "k = 0")
    case True
    have "unat v mod 128 < 128" by simp
    with True show ?thesis by (simp add: Let_def low7)
  next
    case False
    have "unat v mod 128 ^ Suc k = unat v mod 128 + 128 * (unat v div 128 mod 128 ^ k)"
      by (simp add: mod_mult2_eq)
    with False Suc.IH [of "drop_bit 7 v"] show ?thesis by (simp add: Let_def low7_flag unat_drop_7)
  qed
qed simp

lemma length_uleb_padded: "length (uleb_padded v k) = k"
  by (induction k arbitrary: v) (simp_all add: Let_def)

text \<open>No shorter byte string reads as the same number.\<close>

lemma uleb_dec_length: "uleb_dec bs = Some (n, r) \<Longrightarrow> n < 128 ^ (length bs - length r) \<and> length r < length bs"
proof (induction bs arbitrary: n)
  case (Cons b bs)
  show ?case
  proof (cases "unat b < 128")
    case True
    then show ?thesis using Cons.prems by auto
  next
    case False
    then obtain m where m: "uleb_dec bs = Some (m, r)" "n = unat b - 128 + 128 * m"
      using Cons.prems by (auto split: option.splits)
    have "unat b - 128 < 128" using byte_lt [of b] by simp
    moreover have "Suc m \<le> 128 ^ (length bs - length r)" "length r < length bs" using Cons.IH [OF m(1)] by simp_all
    ultimately show ?thesis using m(2) by (simp add: Suc_diff_le)
  qed
qed simp

lemma length_uleb_nat_least: "n < 128 ^ k \<Longrightarrow> 0 < k \<Longrightarrow> length (uleb_nat n) \<le> k"
proof (induction n arbitrary: k rule: uleb_nat.induct)
  case (1 n)
  show ?case
  proof (cases "n < 128")
    case True
    then show ?thesis using 1(3) by (subst uleb_nat.simps) simp
  next
    case False
    then obtain j where j: "k = Suc j" "0 < j" using 1(2,3) by (cases k; cases "k - 1") auto
    then have "n div 128 < 128 ^ j" using 1(2) by (simp add: div_less_iff_less_mult mult.commute)
    with 1(1) [OF False this j(2)] False j(1) show ?thesis by (subst uleb_nat.simps) simp
  qed
qed

lemma uleb_shortest: "uleb_dec bs = Some (unat v, []) \<Longrightarrow> length (uleb v) \<le> length bs"
  using uleb_dec_length [of bs "unat v" "[]"] by (simp add: uleb_nat_of length_uleb_nat_least)

lemma uleb_nonempty [simp]: "uleb v \<noteq> []"
  by (subst uleb.simps) (simp add: Let_def)

section \<open>Signed numbers\<close>

text \<open>The reference: base 128 digits of an integer.\<close>

function sleb_int :: "int \<Rightarrow> bytes" where
  "sleb_int i =
     (if - 64 \<le> i \<and> i < 64 then [word_of_nat (nat (i mod 128))]
      else word_of_nat (nat (i mod 128) + 128) # sleb_int (i div 128))"
  by pat_completeness auto
termination by (relation "measure (\<lambda>i. nat \<bar>i\<bar>)") auto

declare sleb_int.simps [simp del]

lemma sleb_int_of: "sleb v = sleb_int (sint v)"
proof (induction v rule: sleb.induct)
  case (1 v)
  have low: "(ucast (v AND 0x7f) :: u8) = word_of_nat (nat (sint v mod 128))"
    "((ucast (v AND 0x7f) :: u8) OR 0x80) = word_of_nat (nat (sint v mod 128) + 128)"
    by (simp_all only: word_unat_eq_iff low7 low7_flag unat_byte sint_mod_128) simp_all
  have e: "sleb v = (if - 64 \<le> sint v \<and> sint v < 64 then [word_of_nat (nat (sint v mod 128))]
      else word_of_nat (nat (sint v mod 128) + 128) # sleb (signed_drop_bit 7 v))"
    unfolding low [symmetric] by (subst sleb.simps) (simp only: Let_def sleb_stop)
  show ?case
  proof (cases "- 64 \<le> sint v \<and> sint v < 64")
    case True
    then show ?thesis unfolding e by (subst sleb_int.simps) simp
  next
    case False
    then have "sleb (signed_drop_bit 7 v) = sleb_int (sint (signed_drop_bit 7 v))"
      using sleb_stop [of v] by (intro 1 [OF refl refl refl]) blast
    then have "sleb (signed_drop_bit 7 v) = sleb_int (sint v div 128)" by (simp only: sint_signed_drop_7)
    with False show ?thesis unfolding e by (subst sleb_int.simps) simp
  qed
qed

lemma sleb_byte: "0 \<le> i \<Longrightarrow> i < 256 \<Longrightarrow> int (unat (word_of_nat (nat i) :: u8)) = i"
  by (simp only: unat_byte) simp

lemma sleb_dec_last:
  assumes b: "int (unat b) = i mod 128" and i: "- 64 \<le> i" "i < 64"
  shows "sleb_dec (b # rest) = Some (i, rest)"
proof -
  have "(i < 0 \<longrightarrow> i mod 128 = i + 128) \<and> (0 \<le> i \<longrightarrow> i mod 128 = i)" using i by presburger
  then have "(i < 0 \<longrightarrow> \<not> unat b < 64 \<and> unat b < 128 \<and> int (unat b) - 128 = i) \<and> (0 \<le> i \<longrightarrow> unat b < 64 \<and> int (unat b) = i)"
    using b i by linarith
  then show ?thesis by (cases "i < 0") (simp_all del: of_nat_unat)
qed

lemma sleb_dec_more:
  assumes b: "int (unat b) = i mod 128 + 128" and r: "sleb_dec bs = Some (i div 128, rest)"
  shows "sleb_dec (b # bs) = Some (i, rest)"
proof -
  have "\<not> unat b < 64" "\<not> unat b < 128" "int (unat b) - 128 + 128 * (i div 128) = i"
    using b mult_div_mod_eq [of 128 i] pos_mod_sign [of 128 i] by linarith+
  then show ?thesis using r by (simp del: of_nat_unat)
qed

lemma sleb_dec_int: "sleb_dec (sleb_int i @ rest) = Some (i, rest)"
proof (induction i rule: sleb_int.induct)
  case (1 i)
  define x y where "x = (word_of_nat (nat (i mod 128)) :: u8)" and "y = (word_of_nat (nat (i mod 128) + 128) :: u8)"
  have x: "int (unat x) = i mod 128" unfolding x_def by (rule sleb_byte) simp_all
  have "nat (i mod 128) + 128 = nat (i mod 128 + 128)" by simp
  then have y: "int (unat y) = i mod 128 + 128" unfolding y_def by (simp only:) (rule sleb_byte, simp_all)
  have e: "sleb_int i = (if - 64 \<le> i \<and> i < 64 then [x] else y # sleb_int (i div 128))"
    unfolding x_def y_def by (rule sleb_int.simps)
  show ?case
  proof (cases "- 64 \<le> i \<and> i < 64")
    case True
    then show ?thesis unfolding e using sleb_dec_last [OF x] by simp
  next
    case False
    then have "sleb_int i = y # sleb_int (i div 128)" unfolding e by (simp only: if_False)
    with sleb_dec_more [OF y 1 [OF False]] show ?thesis by (simp only: append_Cons)
  qed
qed

lemma div_128_bounds: "- (128 * M) \<le> i \<Longrightarrow> i < 128 * M \<Longrightarrow> - M \<le> i div 128 \<and> i div 128 < M" for i M :: int
proof -
  assume i: "- (128 * M) \<le> i" "i < 128 * M"
  have "128 * (- M) div 128 \<le> i div 128" by (rule zdiv_mono1) (use i in simp_all)
  moreover have "128 * (i div 128) < 128 * M" using i(2) mult_div_mod_eq [of 128 i] pos_mod_sign [of 128 i] by linarith
  ultimately show ?thesis by simp
qed

lemma sleb_padded_dec:
  "0 < k \<Longrightarrow> - (64 * 128 ^ (k - 1)) \<le> sint v \<Longrightarrow> sint v < 64 * 128 ^ (k - 1) \<Longrightarrow>
     sleb_dec (sleb_padded v k @ rest) = Some (sint v, rest)"
proof (induction k arbitrary: v)
  case (Suc k)
  have low: "int (unat (ucast (v AND 0x7f) :: u8)) = sint v mod 128"
    "int (unat ((ucast (v AND 0x7f) :: u8) OR 0x80)) = sint v mod 128 + 128"
    by (simp_all only: low7 low7_flag sint_mod_128)
  show ?case
  proof (cases "k = 0")
    case True
    then show ?thesis using Suc.prems sleb_dec_last [OF low(1)] by (simp add: Let_def)
  next
    case False
    then obtain j where j: "k = Suc j" by (cases k) auto
    have "- (64 * 128 ^ j) \<le> sint v div 128" "sint v div 128 < 64 * 128 ^ j"
      using div_128_bounds [of "64 * 128 ^ j" "sint v"] Suc.prems j by simp_all
    then have "sleb_dec (sleb_padded (signed_drop_bit 7 v) k @ rest) = Some (sint v div 128, rest)"
      using Suc.IH [of "signed_drop_bit 7 v"] j by (simp add: sint_signed_drop_7)
    with False sleb_dec_more [OF low(2)] show ?thesis by (simp add: Let_def)
  qed
qed simp

lemma sleb_dec_length:
  "sleb_dec bs = Some (i, r) \<Longrightarrow>
     - (64 * 128 ^ (length bs - length r - 1)) \<le> i \<and> i < 64 * 128 ^ (length bs - length r - 1) \<and> length r < length bs"
proof (induction bs arbitrary: i)
  case (Cons b bs)
  show ?case
  proof (cases "unat b < 128")
    case True
    define n where "n = unat b"
    show ?thesis using Cons.prems True unfolding sleb_dec.simps n_def [symmetric] by (auto split: if_splits)
  next
    case False
    then obtain m where m: "sleb_dec bs = Some (m, r)" "i = int (unat b) - 128 + 128 * m"
      using Cons.prems by (auto split: option.splits)
    obtain j where j: "length bs - length r = Suc j" "length r < length bs"
      using Cons.IH [OF m(1)] by (metis Suc_diff_Suc)
    have "int (unat b) - 128 < 128" "0 \<le> int (unat b) - 128" using byte_lt [of b] False by linarith+
    moreover have "- (64 * 128 ^ j) \<le> m" "m + 1 \<le> 64 * 128 ^ j" using Cons.IH [OF m(1)] j by simp_all
    moreover have "length (b # bs) - length r - 1 = Suc j" using j by simp
    ultimately show ?thesis using m(2) j(2) by simp
  qed
qed simp

lemma length_sleb_int_least:
  "- (64 * 128 ^ (k - 1)) \<le> i \<Longrightarrow> i < 64 * 128 ^ (k - 1) \<Longrightarrow> 0 < k \<Longrightarrow> length (sleb_int i) \<le> k"
proof (induction i arbitrary: k rule: sleb_int.induct)
  case (1 i)
  show ?case
  proof (cases "- 64 \<le> i \<and> i < 64")
    case True
    then show ?thesis using 1(4) by (subst sleb_int.simps) simp
  next
    case False
    then obtain j where j: "k = Suc (Suc j)" using 1(2-4) by (cases k; cases "k - 1") auto
    have "- (64 * 128 ^ (Suc j - 1)) \<le> i div 128" "i div 128 < 64 * 128 ^ (Suc j - 1)" using 1(2,3) j by simp_all
    with 1(1) [OF False this] False j show ?thesis by (subst sleb_int.simps) simp
  qed
qed

lemma sleb_shortest: "sleb_dec bs = Some (sint v, []) \<Longrightarrow> length (sleb v) \<le> length bs"
  using sleb_dec_length [of bs "sint v" "[]"] by (simp add: sleb_int_of length_sleb_int_least)

lemma sleb_nonempty [simp]: "sleb v \<noteq> []"
  by (subst sleb.simps) (simp add: Let_def)

end
