(* ===== verification/Wasm_Types.thy ===== *)
theory Wasm_Types
  imports Wasm_Leb
begin

text \<open>
  The annotated byte sink and the parts of a module, \<^verbatim>\<open>wasmtest/src/wasm/encode.rs\<close>: annotations, the
  finished module and its listing, value types, limits, imports, exports, bodies and segments with
  their encodings. A name is its UTF-8 bytes as characters; floats are their bit patterns.
\<close>

section \<open>Annotations and modules\<close>

record ann =
  an_offset :: nat
  an_length :: nat
  an_field :: string
  an_value :: string

record wasm_module =
  wm_bytes :: bytes
  wm_anns :: "ann list"
  wm_label :: string

definition module_hex :: "wasm_module \<Rightarrow> string" where
  "module_hex m = concat (map hex2 (wm_bytes m))"

definition module_len :: "wasm_module \<Rightarrow> nat" where
  "module_len m = length (wm_bytes m)"

definition module_is_empty :: "wasm_module \<Rightarrow> bool" where
  "module_is_empty m \<longleftrightarrow> wm_bytes m = []"

text \<open>A row of the listing: offset, at most twelve bytes, the field and its value.\<close>

definition listing_row :: "bytes \<Rightarrow> nat \<Rightarrow> nat \<Rightarrow> string \<Rightarrow> string \<Rightarrow> string" where
  "listing_row bs from len field val =
     (let e = min (from + len) (length bs);
          sl = slice (min from (length bs)) e bs;
          shown = concat (map (\<lambda>b. hex2 b @ '' '') (take 12 sl));
          more = (if length sl > 12 then ELLIPSIS else []);
          width = length shown + (if more = [] then 0 else 1)
      in hex_pad 4 from @ ''  '' @ shown @ more @ replicate (38 - width) (CHR '' '') @ '' '' @ field @
         (if val = [] then [] else '' = '') @ val @ newline)"

fun listing_loop :: "bytes \<Rightarrow> ann list \<Rightarrow> nat \<Rightarrow> nat \<Rightarrow> string" where
  "listing_loop bs [] at budget =
     (if at < length bs then listing_row bs at (length bs - at) ''(unannotated)'' [] else [])"
| "listing_loop bs (a # as) at budget =
     (if an_offset a > at then listing_row bs at (an_offset a - at) ''(unannotated)'' [] else []) @
     (if budget = 0
      then ''      '' @ ELLIPSIS @ '' '' @ show_nat (length bs - at) @ '' more bytes'' @ newline
      else listing_row bs (an_offset a) (an_length a) (an_field a) (an_value a) @
           listing_loop bs as (max at (an_offset a + an_length a)) (budget - max (an_length a) 1))"

text \<open>\<open>sort_by_key(|a| (a.offset, a.length))\<close>, a stable sort.\<close>

definition hex_listing :: "bytes \<Rightarrow> ann list \<Rightarrow> nat \<Rightarrow> string" where
  "hex_listing bs anns max_bytes =
     listing_loop bs (sort_key an_offset (sort_key an_length anns)) 0 max_bytes"

definition module_listing :: "wasm_module \<Rightarrow> nat \<Rightarrow> string" where
  "module_listing m max_bytes = hex_listing (wm_bytes m) (wm_anns m) max_bytes"

definition module_dump :: "wasm_module \<Rightarrow> (nat \<times> nat) list \<Rightarrow> nat \<Rightarrow> string" where
  "module_dump m marks max_bytes = wasm_hexdump (wm_bytes m) marks max_bytes"

definition with_byte :: "nat \<Rightarrow> u8 \<Rightarrow> wasm_module \<Rightarrow> wasm_module" where
  "with_byte at val m = (if at < length (wm_bytes m) then m\<lparr>wm_bytes := (wm_bytes m)[at := val]\<rparr> else m)"

definition truncated :: "nat \<Rightarrow> wasm_module \<Rightarrow> wasm_module" where
  "truncated keep m =
     m\<lparr>wm_bytes := take keep (wm_bytes m),
       wm_anns := filter (\<lambda>a. an_offset a + an_length a \<le> keep) (wm_anns m),
       wm_label := wm_label m @ ''-truncated-'' @ show_nat keep\<rparr>"

definition labelled :: "string \<Rightarrow> wasm_module \<Rightarrow> wasm_module" where
  "labelled label m = m\<lparr>wm_label := label\<rparr>"

definition ann_at :: "nat \<Rightarrow> wasm_module \<Rightarrow> ann option" where
  "ann_at off m = find (\<lambda>a. an_offset a \<le> off \<and> off < an_offset a + an_length a) (wm_anns m)"

section \<open>The sink\<close>

record wenc =
  we_buf :: bytes
  we_anns :: "ann list"

definition wenc_new :: wenc where
  "wenc_new = \<lparr>we_buf = [], we_anns = []\<rparr>"

definition wenc_at :: "wenc \<Rightarrow> nat" where
  "wenc_at e = length (we_buf e)"

definition wenc_raw :: "bytes \<Rightarrow> wenc \<Rightarrow> wenc" where
  "wenc_raw bs e = e\<lparr>we_buf := we_buf e @ bs\<rparr>"

definition wenc_annotate :: "nat \<Rightarrow> nat \<Rightarrow> string \<Rightarrow> string \<Rightarrow> wenc \<Rightarrow> wenc" where
  "wenc_annotate off len field val e =
     e\<lparr>we_anns := we_anns e @ [\<lparr>an_offset = off, an_length = len, an_field = field, an_value = val\<rparr>]\<rparr>"

definition wenc_put :: "bytes \<Rightarrow> string \<Rightarrow> string \<Rightarrow> wenc \<Rightarrow> wenc" where
  "wenc_put bs field val e =
     (let at = length (we_buf e) in
      e\<lparr>we_buf := we_buf e @ bs,
        we_anns := we_anns e @ [\<lparr>an_offset = at, an_length = length bs, an_field = field, an_value = val\<rparr>]\<rparr>)"

definition wenc_with_header :: wenc where
  "wenc_with_header =
     wenc_put (u32_le 1) ''header.version'' ''1 (little-endian)''
       (wenc_put (0 # as_bytes ''asm'') ''header.magic'' (CHR 0x5C # ''0asm'') wenc_new)"

definition wenc_splice :: "wenc \<Rightarrow> wenc \<Rightarrow> wenc" where
  "wenc_splice other e =
     (let base = length (we_buf e) in
      \<lparr>we_buf = we_buf e @ we_buf other,
       we_anns = we_anns e @ map (\<lambda>a. a\<lparr>an_offset := an_offset a + base\<rparr>) (we_anns other)\<rparr>)"

definition section_name :: "u8 \<Rightarrow> string" where
  "section_name i =
     (if i = 0 then ''custom section'' else if i = 1 then ''type section''
      else if i = 2 then ''import section'' else if i = 3 then ''function section''
      else if i = 4 then ''table section'' else if i = 5 then ''memory section''
      else if i = 6 then ''global section'' else if i = 7 then ''export section''
      else if i = 8 then ''start section'' else if i = 9 then ''element section''
      else if i = 10 then ''code section'' else if i = 11 then ''data section''
      else if i = 12 then ''data count section'' else ''an id no section uses'')"

definition wenc_section :: "u8 \<Rightarrow> bytes \<Rightarrow> wenc \<Rightarrow> wenc" where
  "wenc_section i body =
     wenc_raw body \<circ>
     wenc_put (uleb (word_of_nat (length body))) (''section['' @ show_nat (unat i) @ ''].size'')
       (show_nat (length body) @ '' bytes'') \<circ>
     wenc_put [i] (''section['' @ show_nat (unat i) @ ''].id'') (section_name i)"

definition wenc_section_with_size :: "u8 \<Rightarrow> bytes \<Rightarrow> bytes \<Rightarrow> string \<Rightarrow> wenc \<Rightarrow> wenc" where
  "wenc_section_with_size i sz body why =
     wenc_raw body \<circ>
     wenc_put sz (''section['' @ show_nat (unat i) @ ''].size'') why \<circ>
     wenc_put [i] (''section['' @ show_nat (unat i) @ ''].id'') (section_name i)"

definition wenc_finish :: "string \<Rightarrow> wenc \<Rightarrow> wasm_module" where
  "wenc_finish label e = \<lparr>wm_bytes = we_buf e, wm_anns = we_anns e, wm_label = label\<rparr>"

definition SEC_CUSTOM :: u8 where "SEC_CUSTOM = 0"
definition SEC_TYPE :: u8 where "SEC_TYPE = 1"
definition SEC_IMPORT :: u8 where "SEC_IMPORT = 2"
definition SEC_FUNCTION :: u8 where "SEC_FUNCTION = 3"
definition SEC_TABLE :: u8 where "SEC_TABLE = 4"
definition SEC_MEMORY :: u8 where "SEC_MEMORY = 5"
definition SEC_GLOBAL :: u8 where "SEC_GLOBAL = 6"
definition SEC_EXPORT :: u8 where "SEC_EXPORT = 7"
definition SEC_START :: u8 where "SEC_START = 8"
definition SEC_ELEMENT :: u8 where "SEC_ELEMENT = 9"
definition SEC_CODE :: u8 where "SEC_CODE = 10"
definition SEC_DATA :: u8 where "SEC_DATA = 11"
definition SEC_DATA_COUNT :: u8 where "SEC_DATA_COUNT = 12"

lemmas section_ids = SEC_CUSTOM_def SEC_TYPE_def SEC_IMPORT_def SEC_FUNCTION_def SEC_TABLE_def
  SEC_MEMORY_def SEC_GLOBAL_def SEC_EXPORT_def SEC_START_def SEC_ELEMENT_def SEC_CODE_def
  SEC_DATA_def SEC_DATA_COUNT_def

section \<open>Types\<close>

datatype val_type = I32 | I64 | F32 | F64 | FuncRef | ExternRef | V128

fun vt_code :: "val_type \<Rightarrow> u8" where
  "vt_code I32 = 0x7f"
| "vt_code I64 = 0x7e"
| "vt_code F32 = 0x7d"
| "vt_code F64 = 0x7c"
| "vt_code FuncRef = 0x70"
| "vt_code ExternRef = 0x6f"
| "vt_code V128 = 0x7b"

fun vt_name :: "val_type \<Rightarrow> string" where
  "vt_name I32 = ''i32''"
| "vt_name I64 = ''i64''"
| "vt_name F32 = ''f32''"
| "vt_name F64 = ''f64''"
| "vt_name FuncRef = ''funcref''"
| "vt_name ExternRef = ''externref''"
| "vt_name V128 = ''v128''"

definition types_text :: "val_type list \<Rightarrow> string" where
  "types_text ts = join '' '' (map vt_name ts)"

record func_type =
  ft_params :: "val_type list"
  ft_results :: "val_type list"

definition ftype :: "val_type list \<Rightarrow> val_type list \<Rightarrow> func_type" where
  "ftype params results = \<lparr>ft_params = params, ft_results = results\<rparr>"

definition functype_text :: "func_type \<Rightarrow> string" where
  "functype_text t = ''('' @ types_text (ft_params t) @ '') -> ('' @ types_text (ft_results t) @ '')''"

definition functype_encode :: "func_type \<Rightarrow> bytes" where
  "functype_encode t =
     [0x60] @ uleb (word_of_nat (length (ft_params t))) @ map vt_code (ft_params t) @
     uleb (word_of_nat (length (ft_results t))) @ map vt_code (ft_results t)"

record limits =
  li_min :: u32
  li_max :: "u32 option"

definition limits_min :: "u32 \<Rightarrow> limits" where
  "limits_min mn = \<lparr>li_min = mn, li_max = None\<rparr>"

definition limits_range :: "u32 \<Rightarrow> u32 \<Rightarrow> limits" where
  "limits_range mn mx = \<lparr>li_min = mn, li_max = Some mx\<rparr>"

definition limits_encode :: "limits \<Rightarrow> bytes" where
  "limits_encode l =
     (case li_max l of
        None \<Rightarrow> [0x00] @ uleb (ucast (li_min l))
      | Some m \<Rightarrow> [0x01] @ uleb (ucast (li_min l)) @ uleb (ucast m))"

definition limits_text :: "limits \<Rightarrow> string" where
  "limits_text l =
     (case li_max l of
        None \<Rightarrow> ''min '' @ show_nat (unat (li_min l)) @ '', no max''
      | Some m \<Rightarrow> ''min '' @ show_nat (unat (li_min l)) @ '', max '' @ show_nat (unat m))"

record table_type =
  tt_elem :: val_type
  tt_limits :: limits

section \<open>Constant expressions\<close>

definition const_i32 :: "32 word \<Rightarrow> bytes" where
  "const_i32 v = [0x41] @ sleb (scast v) @ [0x0b]"

definition const_i64 :: "64 word \<Rightarrow> bytes" where
  "const_i64 v = [0x42] @ sleb v @ [0x0b]"

definition const_f32 :: "u32 \<Rightarrow> bytes" where
  "const_f32 v = [0x43] @ u32_le v @ [0x0b]"

definition const_f64 :: "u64 \<Rightarrow> bytes" where
  "const_f64 v = [0x44] @ u64_le v @ [0x0b]"

definition const_global_get :: "u32 \<Rightarrow> bytes" where
  "const_global_get n = [0x23] @ uleb (ucast n) @ [0x0b]"

definition const_ref_null :: "val_type \<Rightarrow> bytes" where
  "const_ref_null t = [0xd0, vt_code t, 0x0b]"

definition const_ref_func :: "u32 \<Rightarrow> bytes" where
  "const_ref_func n = [0xd2] @ uleb (ucast n) @ [0x0b]"

section \<open>The entries of the sections\<close>

record global =
  gl_ty :: val_type
  gl_mutable :: bool
  gl_init :: bytes
  gl_init_text :: string

definition global_i32 :: "32 word \<Rightarrow> bool \<Rightarrow> global" where
  "global_i32 v mut =
     \<lparr>gl_ty = I32, gl_mutable = mut, gl_init = const_i32 v, gl_init_text = ''i32.const '' @ show_int (sint v)\<rparr>"

definition global_i64 :: "64 word \<Rightarrow> bool \<Rightarrow> global" where
  "global_i64 v mut =
     \<lparr>gl_ty = I64, gl_mutable = mut, gl_init = const_i64 v, gl_init_text = ''i64.const '' @ show_int (sint v)\<rparr>"

datatype import_kind = IK_Func u32 | IK_Table table_type | IK_Memory limits | IK_Global val_type bool

record wimport =
  im_module :: string
  im_name :: string
  im_kind :: import_kind

datatype export_kind = EK_Func | EK_Table | EK_Memory | EK_Global

fun ek_code :: "export_kind \<Rightarrow> u8" where
  "ek_code EK_Func = 0"
| "ek_code EK_Table = 1"
| "ek_code EK_Memory = 2"
| "ek_code EK_Global = 3"

fun ek_name :: "export_kind \<Rightarrow> string" where
  "ek_name EK_Func = ''func''"
| "ek_name EK_Table = ''table''"
| "ek_name EK_Memory = ''memory''"
| "ek_name EK_Global = ''global''"

record wexport =
  ex_name :: string
  ex_kind :: export_kind
  ex_index :: u32

record wfunc =
  fu_locals :: "(u32 \<times> val_type) list"
  fu_body :: bytes
  fu_text :: string

datatype elem_mode = EM_Active u32 bytes | EM_Passive | EM_Declarative

record elem_segment =
  el_mode :: elem_mode
  el_ty :: val_type
  el_funcs :: "u32 list"
  el_exprs :: "bytes list"

datatype data_mode = DM_Active u32 bytes | DM_Passive

record data_segment =
  da_mode :: data_mode
  da_bytes :: bytes

record custom_section =
  cs_name :: string
  cs_payload :: bytes
  cs_after :: "u8 option"

definition table_encode :: "table_type \<Rightarrow> bytes" where
  "table_encode t = [vt_code (tt_elem t)] @ limits_encode (tt_limits t)"

definition bool_byte :: "bool \<Rightarrow> u8" where
  "bool_byte b = (if b then 1 else 0)"

definition global_encode :: "global \<Rightarrow> bytes" where
  "global_encode g = [vt_code (gl_ty g), bool_byte (gl_mutable g)] @ gl_init g"

definition export_encode :: "wexport \<Rightarrow> bytes" where
  "export_encode x = wasm_name (ex_name x) @ [ek_code (ex_kind x)] @ uleb (ucast (ex_index x))"

definition encode_import :: "wimport \<Rightarrow> bytes" where
  "encode_import i =
     wasm_name (im_module i) @ wasm_name (im_name i) @
     (case im_kind i of
        IK_Func t \<Rightarrow> [0x00] @ uleb (ucast t)
      | IK_Table t \<Rightarrow> [0x01, vt_code (tt_elem t)] @ limits_encode (tt_limits t)
      | IK_Memory l \<Rightarrow> [0x02] @ limits_encode l
      | IK_Global ty mut \<Rightarrow> [0x03, vt_code ty, bool_byte mut])"

text \<open>The contents of a body, which its size counts.\<close>

definition func_inner :: "wfunc \<Rightarrow> bytes" where
  "func_inner f =
     uleb (word_of_nat (length (fu_locals f))) @
     concat (map (\<lambda>(n, t). uleb (ucast n) @ [vt_code t]) (fu_locals f)) @ fu_body f"

definition encode_func :: "wfunc \<Rightarrow> bytes" where
  "encode_func f = (let inner = func_inner f in uleb (word_of_nat (length inner)) @ inner)"

definition encode_elem :: "elem_segment \<Rightarrow> bytes" where
  "encode_elem e =
     (let use_exprs = (el_exprs e \<noteq> []);
          funcs = vector (map (\<lambda>f. uleb (ucast f)) (el_funcs e)) in
      if \<not> use_exprs then
        (case el_mode e of
           EM_Active table off \<Rightarrow>
             (if table = 0 then [0x00] @ off @ funcs
              else [0x02] @ uleb (ucast table) @ off @ [0x00] @ funcs)
         | EM_Passive \<Rightarrow> [0x01, 0x00] @ funcs
         | EM_Declarative \<Rightarrow> [0x03, 0x00] @ funcs)
      else
        (case el_mode e of
           EM_Active table off \<Rightarrow>
             (if table = 0 \<and> el_ty e = FuncRef then [0x04] @ off @ vector (el_exprs e)
              else [0x06] @ uleb (ucast table) @ off @ [vt_code (el_ty e)] @ vector (el_exprs e))
         | EM_Passive \<Rightarrow> [0x05, vt_code (el_ty e)] @ vector (el_exprs e)
         | EM_Declarative \<Rightarrow> [0x07, vt_code (el_ty e)] @ vector (el_exprs e)))"

definition encode_data :: "data_segment \<Rightarrow> bytes" where
  "encode_data d =
     (case da_mode d of
        DM_Active memory off \<Rightarrow>
          (if memory = 0 then [0x00] @ off else [0x02] @ uleb (ucast memory) @ off)
      | DM_Passive \<Rightarrow> [0x01]) @
     uleb (word_of_nat (length (da_bytes d))) @ da_bytes d"

subsection \<open>Their texts\<close>

definition locals_text :: "(u32 \<times> val_type) list \<Rightarrow> string" where
  "locals_text ls = join '', '' (map (\<lambda>(n, t). show_nat (unat n) @ TIMES @ vt_name t) ls)"

text \<open>\<open>{:?}\<close> of a list of numbers.\<close>

definition debug_u32s :: "u32 list \<Rightarrow> string" where
  "debug_u32s xs = ''['' @ join '', '' (map (show_nat \<circ> unat) xs) @ '']''"

definition elem_text :: "elem_segment \<Rightarrow> string" where
  "elem_text e =
     (let what = (if el_exprs e = []
                  then show_nat (length (el_funcs e)) @ '' funcs '' @ debug_u32s (el_funcs e)
                  else show_nat (length (el_exprs e)) @ '' element expressions'') in
      case el_mode e of
        EM_Active table _ \<Rightarrow> ''active into table '' @ show_nat (unat table) @ '', '' @ what
      | EM_Passive \<Rightarrow> ''passive, '' @ what
      | EM_Declarative \<Rightarrow> ''declarative, '' @ what)"

definition data_text :: "data_segment \<Rightarrow> string" where
  "data_text d =
     (let preview = map printable (take 16 (da_bytes d)) in
      case da_mode d of
        DM_Active memory _ \<Rightarrow> ''active into memory '' @ show_nat (unat memory) @ '', '' @
          show_nat (length (da_bytes d)) @ '' bytes '' @ [CHR 0x27] @ preview @ [CHR 0x27]
      | DM_Passive \<Rightarrow> ''passive, '' @ show_nat (length (da_bytes d)) @ '' bytes '' @ [CHR 0x27] @ preview @ [CHR 0x27])"

end
