(* ===== verification/Wasm_Build.thy ===== *)
theory Wasm_Build
  imports Wasm_Types "HOL-Library.Sublist"
begin

text \<open>
  The module builder of \<^verbatim>\<open>wasmtest/src/wasm/encode.rs\<close>: its state, one function per method, and \<open>build\<close>,
  one step per section in the order the code writes them.
\<close>

section \<open>The builder\<close>

record module_builder =
  mb_label :: string
  mb_types :: "func_type list"
  mb_imports :: "wimport list"
  mb_funcs :: "u32 list"
  mb_tables :: "table_type list"
  mb_memories :: "limits list"
  mb_globals :: "global list"
  mb_exports :: "wexport list"
  mb_start :: "u32 option"
  mb_elems :: "elem_segment list"
  mb_code :: "wfunc list"
  mb_data :: "data_segment list"
  mb_force_data_count :: bool
  mb_customs :: "custom_section list"

definition mb_new :: "string \<Rightarrow> module_builder" where
  "mb_new label =
     \<lparr>mb_label = label, mb_types = [], mb_imports = [], mb_funcs = [], mb_tables = [], mb_memories = [],
      mb_globals = [], mb_exports = [], mb_start = None, mb_elems = [], mb_code = [], mb_data = [],
      mb_force_data_count = False, mb_customs = []\<rparr>"

text \<open>\<open>iter().position(p)\<close>.\<close>

fun position :: "('a \<Rightarrow> bool) \<Rightarrow> 'a list \<Rightarrow> nat option" where
  "position p [] = None"
| "position p (x # xs) = (if p x then Some 0 else map_option Suc (position p xs))"

definition add_type :: "func_type \<Rightarrow> module_builder \<Rightarrow> u32 \<times> module_builder" where
  "add_type t b =
     (case position (\<lambda>x. x = t) (mb_types b) of
        Some i \<Rightarrow> (word_of_nat i, b)
      | None \<Rightarrow>
          (let b' = b\<lparr>mb_types := mb_types b @ [t]\<rparr>
           in (word_of_nat (length (mb_types b')) - 1, b')))"

definition mb_func_type :: "func_type \<Rightarrow> module_builder \<Rightarrow> module_builder" where
  "mb_func_type t b = snd (add_type t b)"

definition mb_import :: "string \<Rightarrow> string \<Rightarrow> import_kind \<Rightarrow> module_builder \<Rightarrow> module_builder" where
  "mb_import mname name kind b =
     b\<lparr>mb_imports := mb_imports b @ [\<lparr>im_module = mname, im_name = name, im_kind = kind\<rparr>]\<rparr>"

fun is_func_import :: "import_kind \<Rightarrow> bool" where
  "is_func_import (IK_Func _) = True"
| "is_func_import _ = False"

definition imported_funcs :: "module_builder \<Rightarrow> u32" where
  "imported_funcs b = word_of_nat (length (filter (is_func_import \<circ> im_kind) (mb_imports b)))"

definition add_func :: "u32 \<Rightarrow> wfunc \<Rightarrow> module_builder \<Rightarrow> u32 \<times> module_builder" where
  "add_func ty body b =
     (let b' = b\<lparr>mb_funcs := mb_funcs b @ [ty], mb_code := mb_code b @ [body]\<rparr>
      in (imported_funcs b' + word_of_nat (length (mb_funcs b')) - 1, b'))"

definition mb_function :: "u32 \<Rightarrow> wfunc \<Rightarrow> module_builder \<Rightarrow> module_builder" where
  "mb_function ty body b = snd (add_func ty body b)"

definition add_typed_func :: "func_type \<Rightarrow> wfunc \<Rightarrow> module_builder \<Rightarrow> u32 \<times> module_builder" where
  "add_typed_func sig body b = (case add_type sig b of (ty, b') \<Rightarrow> add_func ty body b')"

definition mb_table :: "table_type \<Rightarrow> module_builder \<Rightarrow> module_builder" where
  "mb_table t b = b\<lparr>mb_tables := mb_tables b @ [t]\<rparr>"

definition mb_memory :: "limits \<Rightarrow> module_builder \<Rightarrow> module_builder" where
  "mb_memory l b = b\<lparr>mb_memories := mb_memories b @ [l]\<rparr>"

definition mb_global :: "global \<Rightarrow> module_builder \<Rightarrow> module_builder" where
  "mb_global g b = b\<lparr>mb_globals := mb_globals b @ [g]\<rparr>"

definition mb_export :: "string \<Rightarrow> export_kind \<Rightarrow> u32 \<Rightarrow> module_builder \<Rightarrow> module_builder" where
  "mb_export name kind i b =
     b\<lparr>mb_exports := mb_exports b @ [\<lparr>ex_name = name, ex_kind = kind, ex_index = i\<rparr>]\<rparr>"

definition mb_export_func :: "string \<Rightarrow> u32 \<Rightarrow> module_builder \<Rightarrow> module_builder" where
  "mb_export_func name i = mb_export name EK_Func i"

definition mb_export_memory :: "module_builder \<Rightarrow> module_builder" where
  "mb_export_memory = mb_export ''memory'' EK_Memory 0"

definition mb_set_start :: "u32 \<Rightarrow> module_builder \<Rightarrow> module_builder" where
  "mb_set_start i b = b\<lparr>mb_start := Some i\<rparr>"

definition mb_elem :: "elem_segment \<Rightarrow> module_builder \<Rightarrow> module_builder" where
  "mb_elem e b = b\<lparr>mb_elems := mb_elems b @ [e]\<rparr>"

definition mb_elem_active :: "32 word \<Rightarrow> u32 list \<Rightarrow> module_builder \<Rightarrow> module_builder" where
  "mb_elem_active off funcs =
     mb_elem \<lparr>el_mode = EM_Active 0 (const_i32 off), el_ty = FuncRef, el_funcs = funcs, el_exprs = []\<rparr>"

definition mb_add_data :: "data_segment \<Rightarrow> module_builder \<Rightarrow> module_builder" where
  "mb_add_data d b = b\<lparr>mb_data := mb_data b @ [d]\<rparr>"

definition mb_data_active :: "32 word \<Rightarrow> bytes \<Rightarrow> module_builder \<Rightarrow> module_builder" where
  "mb_data_active off bs = mb_add_data \<lparr>da_mode = DM_Active 0 (const_i32 off), da_bytes = bs\<rparr>"

definition mb_data_passive :: "bytes \<Rightarrow> module_builder \<Rightarrow> module_builder" where
  "mb_data_passive bs = mb_add_data \<lparr>da_mode = DM_Passive, da_bytes = bs\<rparr>"

definition mb_with_data_count :: "module_builder \<Rightarrow> module_builder" where
  "mb_with_data_count b = b\<lparr>mb_force_data_count := True\<rparr>"

definition mb_custom :: "string \<Rightarrow> bytes \<Rightarrow> u8 option \<Rightarrow> module_builder \<Rightarrow> module_builder" where
  "mb_custom name payload after b =
     b\<lparr>mb_customs := mb_customs b @ [\<lparr>cs_name = name, cs_payload = payload, cs_after = after\<rparr>]\<rparr>"

fun is_passive :: "data_mode \<Rightarrow> bool" where
  "is_passive DM_Passive = True"
| "is_passive _ = False"

definition needs_data_count :: "module_builder \<Rightarrow> bool" where
  "needs_data_count b \<longleftrightarrow> mb_force_data_count b \<or> list_ex (is_passive \<circ> da_mode) (mb_data b)"

section \<open>Building\<close>

text \<open>
  A section of items: the section, then one annotation per item, at positions that start after the
  id, the size and the count. \<open>notes\<close> are the field and the value of each item.
\<close>

fun annotate_items :: "nat \<Rightarrow> (bytes \<times> string \<times> string) list \<Rightarrow> wenc \<Rightarrow> wenc" where
  "annotate_items pos [] e = e"
| "annotate_items pos ((bs, field, val) # items) e =
     annotate_items (pos + length bs) items (wenc_annotate pos (length bs) field val e)"

definition items_pos :: "nat \<Rightarrow> bytes list \<Rightarrow> nat" where
  "items_pos at items =
     at + 1 + length (uleb (word_of_nat (length (vector items)))) + length (uleb (word_of_nat (length items)))"

definition emit_section :: "u8 \<Rightarrow> bytes list \<Rightarrow> (string \<times> string) list \<Rightarrow> wenc \<Rightarrow> wenc" where
  "emit_section i items notes e =
     (if items = [] then e
      else
        (let body = vector items; at = wenc_at e in
         annotate_items (items_pos at items) (zip items notes) (wenc_section i body e)))"

text \<open>The numbered notes of a list of entries.\<close>

definition notes_of :: "(nat \<Rightarrow> 'a \<Rightarrow> string \<times> string) \<Rightarrow> 'a list \<Rightarrow> (string \<times> string) list" where
  "notes_of f xs = map (\<lambda>(i, x). f i x) (zip [0..<length xs] xs)"

definition indexed :: "string \<Rightarrow> nat \<Rightarrow> string" where
  "indexed name i = name @ ''['' @ show_nat i @ '']''"

definition type_text_at :: "module_builder \<Rightarrow> u32 \<Rightarrow> string" where
  "type_text_at b t =
     (if unat t < length (mb_types b) then functype_text (mb_types b ! unat t) else ''(no such type)'')"

definition import_text :: "import_kind \<Rightarrow> module_builder \<Rightarrow> string" where
  "import_text kind b =
     (case kind of
        IK_Func t \<Rightarrow> ''func type '' @ show_nat (unat t) @ '' '' @ type_text_at b t
      | IK_Table t \<Rightarrow> ''table '' @ vt_name (tt_elem t) @ '', '' @ limits_text (tt_limits t)
      | IK_Memory l \<Rightarrow> ''memory '' @ limits_text l
      | IK_Global ty mut \<Rightarrow> ''global '' @ (if mut then ''mut'' else ''const'') @ '' '' @ vt_name ty)"

definition custom_body :: "custom_section \<Rightarrow> bytes" where
  "custom_body c = wasm_name (cs_name c) @ cs_payload c"

definition emit_custom :: "custom_section \<Rightarrow> wenc \<Rightarrow> wenc" where
  "emit_custom c e =
     (let body = custom_body c; at = wenc_at e in
      wenc_annotate (at + 2) (length body) (''custom['' @ cs_name c @ '']'')
        (''name '' @ [CHR 0x27] @ cs_name c @ [CHR 0x27] @ '', '' @ show_nat (length (cs_payload c)) @ '' payload bytes'')
        (wenc_section SEC_CUSTOM body e))"

definition customs_after :: "module_builder \<Rightarrow> u8 option \<Rightarrow> wenc \<Rightarrow> wenc" where
  "customs_after b i = fold emit_custom (filter (\<lambda>c. cs_after c = i) (mb_customs b))"

text \<open>The field path and the text of each kind of entry.\<close>

definition type_note :: "nat \<Rightarrow> func_type \<Rightarrow> string \<times> string" where
  "type_note i t = (indexed ''type'' i, functype_text t)"

definition import_note :: "module_builder \<Rightarrow> nat \<Rightarrow> wimport \<Rightarrow> string \<times> string" where
  "import_note b i m =
     (indexed ''import'' i,
      im_module m @ ''::'' @ im_name m @ '' '' @ EM_DASH @ '' '' @ import_text (im_kind m) b)"

definition func_note :: "module_builder \<Rightarrow> nat \<Rightarrow> u32 \<Rightarrow> string \<times> string" where
  "func_note b i ty =
     (indexed ''function'' (unat (imported_funcs b + word_of_nat i)),
      ''type '' @ show_nat (unat ty) @ '' '' @ type_text_at b ty)"

definition table_note :: "nat \<Rightarrow> table_type \<Rightarrow> string \<times> string" where
  "table_note i t = (indexed ''table'' i, vt_name (tt_elem t) @ '', '' @ limits_text (tt_limits t))"

definition memory_note :: "nat \<Rightarrow> limits \<Rightarrow> string \<times> string" where
  "memory_note i m = (indexed ''memory'' i, limits_text m @ '' (64 KiB pages)'')"

definition global_note :: "nat \<Rightarrow> global \<Rightarrow> string \<times> string" where
  "global_note i g =
     (indexed ''global'' i,
      (if gl_mutable g then ''mut'' else ''const'') @ '' '' @ vt_name (gl_ty g) @ '', init '' @ gl_init_text g)"

definition export_note :: "nat \<Rightarrow> wexport \<Rightarrow> string \<times> string" where
  "export_note i x =
     (indexed ''export'' i,
      [CHR 0x27] @ ex_name x @ [CHR 0x27] @ '' '' @ ARROW @ '' '' @ ek_name (ex_kind x) @ '' '' @
      show_nat (unat (ex_index x)))"

definition elem_note :: "nat \<Rightarrow> elem_segment \<Rightarrow> string \<times> string" where
  "elem_note i el = (indexed ''elem'' i, elem_text el)"

definition data_note :: "nat \<Rightarrow> data_segment \<Rightarrow> string \<times> string" where
  "data_note i d = (indexed ''data'' i, data_text d)"

definition start_note :: "u32 \<Rightarrow> string \<times> string" where
  "start_note s = (''start.func'', ''function '' @ show_nat (unat s) @ '' runs before any export is callable'')"

definition data_count_note :: "module_builder \<Rightarrow> string \<times> string" where
  "data_count_note b =
     (''data_count.count'', show_nat (length (mb_data b)) @ '' data segments, declared before the code section'')"

definition emit_types :: "module_builder \<Rightarrow> wenc \<Rightarrow> wenc" where
  "emit_types b = emit_section SEC_TYPE (map functype_encode (mb_types b)) (notes_of type_note (mb_types b))"

definition emit_imports :: "module_builder \<Rightarrow> wenc \<Rightarrow> wenc" where
  "emit_imports b = emit_section SEC_IMPORT (map encode_import (mb_imports b)) (notes_of (import_note b) (mb_imports b))"

definition emit_funcs :: "module_builder \<Rightarrow> wenc \<Rightarrow> wenc" where
  "emit_funcs b = emit_section SEC_FUNCTION (map (\<lambda>t. uleb (ucast t)) (mb_funcs b)) (notes_of (func_note b) (mb_funcs b))"

definition emit_tables :: "module_builder \<Rightarrow> wenc \<Rightarrow> wenc" where
  "emit_tables b = emit_section SEC_TABLE (map table_encode (mb_tables b)) (notes_of table_note (mb_tables b))"

definition emit_memories :: "module_builder \<Rightarrow> wenc \<Rightarrow> wenc" where
  "emit_memories b = emit_section SEC_MEMORY (map limits_encode (mb_memories b)) (notes_of memory_note (mb_memories b))"

definition emit_globals :: "module_builder \<Rightarrow> wenc \<Rightarrow> wenc" where
  "emit_globals b = emit_section SEC_GLOBAL (map global_encode (mb_globals b)) (notes_of global_note (mb_globals b))"

definition emit_exports :: "module_builder \<Rightarrow> wenc \<Rightarrow> wenc" where
  "emit_exports b = emit_section SEC_EXPORT (map export_encode (mb_exports b)) (notes_of export_note (mb_exports b))"

text \<open>A section whose body is one number, annotated after the id and the size.\<close>

definition emit_number :: "u8 \<Rightarrow> bytes \<Rightarrow> string \<times> string \<Rightarrow> wenc \<Rightarrow> wenc" where
  "emit_number i body note e =
     (let at = wenc_at e in
      wenc_annotate (at + 1 + length (uleb (word_of_nat (length body)))) (length body) (fst note) (snd note)
        (wenc_section i body e))"

definition emit_start :: "module_builder \<Rightarrow> wenc \<Rightarrow> wenc" where
  "emit_start b e =
     (case mb_start b of None \<Rightarrow> e | Some s \<Rightarrow> emit_number SEC_START (uleb (ucast s)) (start_note s) e)"

definition emit_elems :: "module_builder \<Rightarrow> wenc \<Rightarrow> wenc" where
  "emit_elems b = emit_section SEC_ELEMENT (map encode_elem (mb_elems b)) (notes_of elem_note (mb_elems b))"

definition emit_data_count :: "module_builder \<Rightarrow> wenc \<Rightarrow> wenc" where
  "emit_data_count b e =
     (if needs_data_count b
      then emit_number SEC_DATA_COUNT (uleb (word_of_nat (length (mb_data b)))) (data_count_note b) e
      else e)"

definition body_text :: "wfunc \<Rightarrow> string" where
  "body_text f = (if fu_locals f = [] then fu_text f else ''locals '' @ locals_text (fu_locals f) @ ''; '' @ fu_text f)"

definition code_note :: "u32 \<Rightarrow> nat \<Rightarrow> wfunc \<Rightarrow> string \<times> string" where
  "code_note base i f = (indexed ''code'' (unat (base + word_of_nat i)) @ ''.body'', body_text f)"

text \<open>The annotations of the code section: the size and the body of each function.\<close>

fun annotate_code :: "u32 \<Rightarrow> nat \<Rightarrow> nat \<Rightarrow> (wfunc \<times> bytes) list \<Rightarrow> wenc \<Rightarrow> wenc" where
  "annotate_code base i pos [] e = e"
| "annotate_code base i pos ((f, bs) # items) e =
     (let size_len = length (uleb (word_of_nat (length bs - length (uleb (word_of_nat (length bs))))));
          num = unat (base + word_of_nat i) in
      annotate_code base (Suc i) (pos + length bs) items
        (wenc_annotate (pos + size_len) (length bs - size_len) (fst (code_note base i f)) (snd (code_note base i f))
          (wenc_annotate pos size_len (indexed ''code'' num @ ''.size'')
            (show_nat (length bs - size_len) @ '' bytes'') e)))"

definition emit_code :: "module_builder \<Rightarrow> wenc \<Rightarrow> wenc" where
  "emit_code b e =
     (if mb_code b = [] then e
      else
        (let items = map encode_func (mb_code b); body = vector items; at = wenc_at e in
         annotate_code (imported_funcs b) 0 (items_pos at items) (zip (mb_code b) items)
           (wenc_section SEC_CODE body e)))"

definition emit_data :: "module_builder \<Rightarrow> wenc \<Rightarrow> wenc" where
  "emit_data b = emit_section SEC_DATA (map encode_data (mb_data b)) (notes_of data_note (mb_data b))"

text \<open>The steps of \<open>build\<close>, in order.\<close>

definition build_steps :: "module_builder \<Rightarrow> (wenc \<Rightarrow> wenc) list" where
  "build_steps b =
     [customs_after b None,
      emit_types b, customs_after b (Some SEC_TYPE),
      emit_imports b, customs_after b (Some SEC_IMPORT),
      emit_funcs b, customs_after b (Some SEC_FUNCTION),
      emit_tables b, customs_after b (Some SEC_TABLE),
      emit_memories b, customs_after b (Some SEC_MEMORY),
      emit_globals b, customs_after b (Some SEC_GLOBAL),
      emit_exports b, customs_after b (Some SEC_EXPORT),
      emit_start b, customs_after b (Some SEC_START),
      emit_elems b, customs_after b (Some SEC_ELEMENT),
      emit_data_count b, customs_after b (Some SEC_DATA_COUNT),
      emit_code b, customs_after b (Some SEC_CODE),
      emit_data b, customs_after b (Some SEC_DATA)]"

definition build :: "module_builder \<Rightarrow> wasm_module" where
  "build b = wenc_finish (mb_label b) (fold (\<lambda>step. step) (build_steps b) wenc_with_header)"

end
