(* ===== verification/Wasm_Layout.thy ===== *)
theory Wasm_Layout
  imports Wasm_Build
begin

text \<open>
  What \<open>build\<close> produces: the abstract layout of a module as its list of sections, the bytes as the
  encoding of that list, and annotations that lie inside the module, in order, each over exactly the
  bytes of its entry.
\<close>

section \<open>The abstract layout\<close>

type_synonym layout = "(u8 \<times> bytes) list"

definition section_bytes :: "u8 \<times> bytes \<Rightarrow> bytes" where
  "section_bytes s = (case s of (i, body) \<Rightarrow> i # uleb (word_of_nat (length body)) @ body)"

definition layout_bytes :: "layout \<Rightarrow> bytes" where
  "layout_bytes ss = concat (map section_bytes ss)"

definition when_items :: "u8 \<Rightarrow> bytes list \<Rightarrow> layout" where
  "when_items i items = (if items = [] then [] else [(i, vector items)])"

definition custom_layout :: "module_builder \<Rightarrow> u8 option \<Rightarrow> layout" where
  "custom_layout b i = map (\<lambda>c. (SEC_CUSTOM, custom_body c)) (filter (\<lambda>c. cs_after c = i) (mb_customs b))"

text \<open>The sections of a module other than the custom ones, in the order of the format.\<close>

definition known_sections :: "module_builder \<Rightarrow> layout" where
  "known_sections b =
     when_items SEC_TYPE (map functype_encode (mb_types b)) @
     when_items SEC_IMPORT (map encode_import (mb_imports b)) @
     when_items SEC_FUNCTION (map (\<lambda>t. uleb (ucast t)) (mb_funcs b)) @
     when_items SEC_TABLE (map table_encode (mb_tables b)) @
     when_items SEC_MEMORY (map limits_encode (mb_memories b)) @
     when_items SEC_GLOBAL (map global_encode (mb_globals b)) @
     when_items SEC_EXPORT (map export_encode (mb_exports b)) @
     (case mb_start b of None \<Rightarrow> [] | Some s \<Rightarrow> [(SEC_START, uleb (ucast s))]) @
     when_items SEC_ELEMENT (map encode_elem (mb_elems b)) @
     (if needs_data_count b then [(SEC_DATA_COUNT, uleb (word_of_nat (length (mb_data b))))] else []) @
     when_items SEC_CODE (map encode_func (mb_code b)) @
     when_items SEC_DATA (map encode_data (mb_data b))"

text \<open>Every slot of the fixed order, with the custom sections that name it after it.\<close>

definition slots :: "u8 list" where
  "slots = [SEC_TYPE, SEC_IMPORT, SEC_FUNCTION, SEC_TABLE, SEC_MEMORY, SEC_GLOBAL, SEC_EXPORT,
            SEC_START, SEC_ELEMENT, SEC_DATA_COUNT, SEC_CODE, SEC_DATA]"

definition module_layout :: "module_builder \<Rightarrow> layout" where
  "module_layout b =
     custom_layout b None @
     concat (map (\<lambda>i. filter (\<lambda>s. fst s = i) (known_sections b) @ custom_layout b (Some i)) slots)"

section \<open>How a step extends the sink\<close>

text \<open>
  A step appends the bytes of some sections and annotations that start where the old bytes end, are in
  order, and end inside the new bytes.
\<close>

definition extends :: "bytes \<Rightarrow> (wenc \<Rightarrow> wenc) \<Rightarrow> bool" where
  "extends bs f \<longleftrightarrow>
     (\<forall>e. we_buf (f e) = we_buf e @ bs \<and>
       (\<exists>as. we_anns (f e) = we_anns e @ as \<and> sorted (map an_offset as) \<and>
          (\<forall>a \<in> set as. length (we_buf e) \<le> an_offset a \<and>
             an_offset a + an_length a \<le> length (we_buf e) + length bs)))"

lemma extendsE:
  assumes "extends bs f"
  obtains as where "we_buf (f e) = we_buf e @ bs" "we_anns (f e) = we_anns e @ as" "sorted (map an_offset as)"
    "\<And>a. a \<in> set as \<Longrightarrow> length (we_buf e) \<le> an_offset a"
    "\<And>a. a \<in> set as \<Longrightarrow> an_offset a + an_length a \<le> length (we_buf e) + length bs"
  using assms unfolding extends_def by blast

lemma extends_id: "extends [] (\<lambda>e. e)"
  by (simp add: extends_def)

lemma extends_comp:
  assumes f: "extends bs f" and g: "extends cs g"
  shows "extends (bs @ cs) (\<lambda>e. g (f e))"
  unfolding extends_def
proof
  fix e
  obtain as where a: "we_buf (f e) = we_buf e @ bs" "we_anns (f e) = we_anns e @ as" "sorted (map an_offset as)"
    "\<And>a. a \<in> set as \<Longrightarrow> length (we_buf e) \<le> an_offset a"
    "\<And>a. a \<in> set as \<Longrightarrow> an_offset a + an_length a \<le> length (we_buf e) + length bs"
    by (rule extendsE [OF f]) blast
  obtain cs' where c: "we_buf (g (f e)) = we_buf (f e) @ cs" "we_anns (g (f e)) = we_anns (f e) @ cs'"
    "sorted (map an_offset cs')"
    "\<And>a. a \<in> set cs' \<Longrightarrow> length (we_buf (f e)) \<le> an_offset a"
    "\<And>a. a \<in> set cs' \<Longrightarrow> an_offset a + an_length a \<le> length (we_buf (f e)) + length cs"
    by (rule extendsE [OF g]) blast
  have "sorted (map an_offset (as @ cs'))"
    using a c by (auto simp: sorted_append intro: order_trans [of _ "length (we_buf e) + length bs"] dest: add_leD1)
  moreover have "\<forall>a \<in> set (as @ cs'). length (we_buf e) \<le> an_offset a \<and>
      an_offset a + an_length a \<le> length (we_buf e) + length (bs @ cs)"
    using a c by (fastforce dest: le_trans)
  ultimately show "we_buf (g (f e)) = we_buf e @ bs @ cs \<and>
      (\<exists>as. we_anns (g (f e)) = we_anns e @ as \<and> sorted (map an_offset as) \<and>
         (\<forall>a \<in> set as. length (we_buf e) \<le> an_offset a \<and>
            an_offset a + an_length a \<le> length (we_buf e) + length (bs @ cs)))"
    using a(1,2) c(1,2) by (intro conjI exI [of _ "as @ cs'"]) simp_all
qed

lemma extends_fold:
  "list_all2 extends bss fs \<Longrightarrow> extends (concat bss) (fold (\<lambda>f. f) fs)"
proof (induction rule: list_all2_induct)
  case Nil
  then show ?case using extends_id by (simp add: id_def)
next
  case (Cons bs bss f fs)
  then show ?case using extends_comp [of bs f "concat bss" "fold (\<lambda>f. f) fs"] by (simp add: comp_def)
qed

section \<open>The annotations of a section\<close>

lemma wenc_section_eq:
  "we_buf (wenc_section i body e) = we_buf e @ section_bytes (i, body)"
  "we_anns (wenc_section i body e) = we_anns e @
     [\<lparr>an_offset = length (we_buf e), an_length = 1, an_field = ''section['' @ show_nat (unat i) @ ''].id'',
        an_value = section_name i\<rparr>,
      \<lparr>an_offset = length (we_buf e) + 1, an_length = length (uleb (word_of_nat (length body))),
        an_field = ''section['' @ show_nat (unat i) @ ''].size'', an_value = show_nat (length body) @ '' bytes''\<rparr>]"
  by (simp_all add: wenc_section_def wenc_raw_def wenc_put_def section_bytes_def)

lemma length_section_bytes:
  "length (section_bytes (i, body)) = 1 + length (uleb (word_of_nat (length body))) + length body"
  by (simp add: section_bytes_def)

text \<open>A section followed by further annotations of its body.\<close>

lemma extends_section:
  assumes "\<And>e. we_buf (f e) = we_buf (wenc_section i body e)"
    and "\<And>e. we_anns (f e) = we_anns (wenc_section i body e) @ extra e"
    and "\<And>e. sorted (map an_offset (extra e))"
    and "\<And>e a. a \<in> set (extra e) \<Longrightarrow> length (we_buf e) + 2 \<le> an_offset a \<and>
       an_offset a + an_length a \<le> length (we_buf e) + length (section_bytes (i, body))"
  shows "extends (section_bytes (i, body)) f"
  unfolding extends_def
proof (intro allI conjI)
  fix e
  show "we_buf (f e) = we_buf e @ section_bytes (i, body)" by (simp add: assms(1) wenc_section_eq)
  let ?as = "drop (length (we_anns e)) (we_anns (f e))"
  have as: "we_anns (f e) = we_anns e @ ?as" by (simp add: assms(2) wenc_section_eq)
  have "sorted (map an_offset ?as)"
    using assms(3,4) [where e = e] by (fastforce simp: assms(2) wenc_section_eq)
  moreover have "\<forall>a \<in> set ?as. length (we_buf e) \<le> an_offset a \<and>
      an_offset a + an_length a \<le> length (we_buf e) + length (section_bytes (i, body))"
    using assms(4) [where e = e] by (fastforce simp: assms(2) wenc_section_eq length_section_bytes)
  ultimately show "\<exists>as. we_anns (f e) = we_anns e @ as \<and> sorted (map an_offset as) \<and>
      (\<forall>a \<in> set as. length (we_buf e) \<le> an_offset a \<and>
         an_offset a + an_length a \<le> length (we_buf e) + length (section_bytes (i, body)))"
    using as by blast
qed

subsection \<open>Items\<close>

fun item_anns :: "nat \<Rightarrow> (bytes \<times> string \<times> string) list \<Rightarrow> ann list" where
  "item_anns pos [] = []"
| "item_anns pos ((bs, field, val) # items) =
     \<lparr>an_offset = pos, an_length = length bs, an_field = field, an_value = val\<rparr> # item_anns (pos + length bs) items"

lemma annotate_items_eq:
  "we_buf (annotate_items pos items e) = we_buf e"
  "we_anns (annotate_items pos items e) = we_anns e @ item_anns pos items"
  by (induction pos items e rule: annotate_items.induct) (simp_all add: wenc_annotate_def)

lemma item_anns_bounds:
  "a \<in> set (item_anns pos items) \<Longrightarrow>
     pos \<le> an_offset a \<and> an_offset a + an_length a \<le> pos + length (concat (map fst items))"
  by (induction pos items rule: item_anns.induct) fastforce+

lemma item_anns_sorted: "sorted (map an_offset (item_anns pos items))"
  by (induction pos items rule: item_anns.induct) (auto dest: item_anns_bounds)

definition covers :: "bytes \<Rightarrow> ann \<Rightarrow> bytes \<Rightarrow> bool" where
  "covers bs a c \<longleftrightarrow> an_offset a + an_length a \<le> length bs \<and>
     slice (an_offset a) (an_offset a + an_length a) bs = c"

lemma covers_append: "covers bs a c \<Longrightarrow> covers (bs @ cs) a c"
  by (simp add: covers_def slice_def)

lemma covers_middle: "covers (pre @ c @ post) \<lparr>an_offset = length pre, an_length = length c, an_field = f, an_value = v\<rparr> c"
  by (simp add: covers_def slice_def)

lemma item_anns_cover:
  "list_all2 (\<lambda>a (c, f, v). covers (pre @ concat (map fst items) @ post) a c \<and> an_field a = f \<and> an_value a = v)
     (item_anns (length pre) items) items"
proof (induction items arbitrary: pre)
  case (Cons it items)
  obtain c f v where it: "it = (c, f, v)" by (cases it)
  show ?case
    using Cons.IH [of "pre @ c"] covers_middle [of pre c "concat (map fst items) @ post" f v] by (simp add: it)
qed simp

lemma emit_section_parts:
  assumes "items \<noteq> []"
  shows "we_buf (emit_section i items notes e) = we_buf (wenc_section i (vector items) e)"
    "we_anns (emit_section i items notes e) =
       we_anns (wenc_section i (vector items) e) @ item_anns (items_pos (wenc_at e) items) (zip items notes)"
  using assms by (simp_all add: emit_section_def Let_def annotate_items_eq)

lemma items_pos_end:
  "items_pos at items + length (concat items) = at + length (section_bytes (i, vector items))"
  by (simp add: items_pos_def length_section_bytes vector_def)

lemma uleb_pos: "0 < length (uleb v)"
  by simp

lemma extends_emit_section:
  assumes l: "length notes = length items"
  shows "extends (layout_bytes (when_items i items)) (emit_section i items notes)"
proof (cases "items = []")
  case True
  then have "emit_section i items notes = (\<lambda>e. e)" by (intro ext) (simp add: emit_section_def)
  then show ?thesis using True extends_id by (simp add: when_items_def layout_bytes_def)
next
  case False
  have "extends (section_bytes (i, vector items)) (emit_section i items notes)"
  proof (rule extends_section [where extra = "\<lambda>e. item_anns (items_pos (wenc_at e) items) (zip items notes)"])
    fix e a assume "a \<in> set (item_anns (items_pos (wenc_at e) items) (zip items notes))"
    from item_anns_bounds [OF this] items_pos_end [of "wenc_at e" items i] l
    show "length (we_buf e) + 2 \<le> an_offset a \<and>
        an_offset a + an_length a \<le> length (we_buf e) + length (section_bytes (i, vector items))"
      using uleb_pos [of "word_of_nat (length (vector items))"]
      by (simp add: items_pos_def wenc_at_def Suc_le_eq del: length_greater_0_conv)
  qed (simp_all add: emit_section_parts [OF False] item_anns_sorted)
  then show ?thesis using False by (simp add: when_items_def layout_bytes_def)
qed

lemma emit_section_covers:
  assumes "k < length items" "length notes = length items"
  shows "\<exists>a \<in> set (we_anns (emit_section i items notes e)).
     covers (we_buf (emit_section i items notes e)) a (items ! k) \<and> (an_field a, an_value a) = notes ! k"
proof -
  have ne: "items \<noteq> []" using assms(1) by auto
  let ?pre = "we_buf e @ [i] @ uleb (word_of_nat (length (vector items))) @ uleb (word_of_nat (length items))"
  have b: "we_buf (emit_section i items notes e) = ?pre @ concat (map fst (zip items notes)) @ []"
    using assms(2) by (simp add: emit_section_parts(1) [OF ne] wenc_section_eq section_bytes_def vector_def)
  have p: "items_pos (wenc_at e) items = length ?pre" by (simp add: items_pos_def wenc_at_def)
  have "list_all2 (\<lambda>a (c, f, v). covers (we_buf (emit_section i items notes e)) a c \<and> an_field a = f \<and> an_value a = v)
      (item_anns (length ?pre) (zip items notes)) (zip items notes)"
    unfolding b by (rule item_anns_cover)
  moreover have "k < length (zip items notes)" using assms by simp
  ultimately have "case zip items notes ! k of (c, f, v) \<Rightarrow>
      covers (we_buf (emit_section i items notes e)) (item_anns (length ?pre) (zip items notes) ! k) c \<and>
      an_field (item_anns (length ?pre) (zip items notes) ! k) = f \<and>
      an_value (item_anns (length ?pre) (zip items notes) ! k) = v"
    and "k < length (item_anns (length ?pre) (zip items notes))"
    by (auto simp: list_all2_conv_all_nth)
  then show ?thesis
    using assms nth_mem [of k "item_anns (length ?pre) (zip items notes)"] unfolding emit_section_parts(2) [OF ne] p
    by (cases "notes ! k") (auto intro!: bexI [of _ "item_anns (length ?pre) (zip items notes) ! k"])
qed

subsection \<open>Custom sections and numbers\<close>

lemma custom_body_nonempty: "custom_body c \<noteq> []"
  by (simp add: custom_body_def wasm_name_def)

lemma extends_custom: "extends (section_bytes (SEC_CUSTOM, custom_body c)) (emit_custom c)"
proof (rule extends_section [where extra = "\<lambda>e. [\<lparr>an_offset = length (we_buf e) + 2, an_length = length (custom_body c),
      an_field = ''custom['' @ cs_name c @ '']'', an_value = ''name '' @ [CHR 0x27] @ cs_name c @ [CHR 0x27] @ '', '' @
        show_nat (length (cs_payload c)) @ '' payload bytes''\<rparr>]"])
  fix e a
  assume "a \<in> set [\<lparr>an_offset = length (we_buf e) + 2, an_length = length (custom_body c),
      an_field = ''custom['' @ cs_name c @ '']'', an_value = ''name '' @ [CHR 0x27] @ cs_name c @ [CHR 0x27] @ '', '' @
        show_nat (length (cs_payload c)) @ '' payload bytes''\<rparr>]"
  then show "length (we_buf e) + 2 \<le> an_offset a \<and>
      an_offset a + an_length a \<le> length (we_buf e) + length (section_bytes (SEC_CUSTOM, custom_body c))"
    using uleb_pos [of "word_of_nat (length (custom_body c))"]
    by (simp add: length_section_bytes Suc_le_eq del: length_greater_0_conv)
qed (simp_all add: emit_custom_def Let_def wenc_annotate_def wenc_at_def)

lemma extends_customs: "extends (layout_bytes (custom_layout b i)) (customs_after b i)"
proof -
  have "extends (layout_bytes (map (\<lambda>c. (SEC_CUSTOM, custom_body c)) cs)) (fold emit_custom cs)" for cs
  proof (induction cs)
    case Nil
    then show ?case using extends_id by (simp add: layout_bytes_def id_def)
  next
    case (Cons c cs)
    from extends_comp [OF extends_custom [of c] Cons] show ?case by (simp add: layout_bytes_def comp_def)
  qed
  then show ?thesis by (simp add: custom_layout_def customs_after_def)
qed

lemma extends_number: "extends (section_bytes (i, body)) (emit_number i body note)"
proof (rule extends_section [where extra = "\<lambda>e. [\<lparr>an_offset = length (we_buf e) + 1 + length (uleb (word_of_nat (length body))),
      an_length = length body, an_field = fst note, an_value = snd note\<rparr>]"])
  fix e a
  assume "a \<in> set [\<lparr>an_offset = length (we_buf e) + 1 + length (uleb (word_of_nat (length body))),
      an_length = length body, an_field = fst note, an_value = snd note\<rparr>]"
  then show "length (we_buf e) + 2 \<le> an_offset a \<and>
      an_offset a + an_length a \<le> length (we_buf e) + length (section_bytes (i, body))"
    using uleb_pos [of "word_of_nat (length body)"]
    by (simp add: length_section_bytes Suc_le_eq del: length_greater_0_conv)
qed (simp_all add: emit_number_def Let_def wenc_annotate_def wenc_at_def)

subsection \<open>Code\<close>

fun code_anns :: "u32 \<Rightarrow> nat \<Rightarrow> nat \<Rightarrow> (wfunc \<times> bytes) list \<Rightarrow> ann list" where
  "code_anns base i pos [] = []"
| "code_anns base i pos ((f, bs) # items) =
     (let size_len = length (uleb (word_of_nat (length bs - length (uleb (word_of_nat (length bs))))));
          num = unat (base + word_of_nat i) in
      [\<lparr>an_offset = pos, an_length = size_len, an_field = indexed ''code'' num @ ''.size'',
         an_value = show_nat (length bs - size_len) @ '' bytes''\<rparr>,
       \<lparr>an_offset = pos + size_len, an_length = length bs - size_len, an_field = fst (code_note base i f),
         an_value = snd (code_note base i f)\<rparr>] @
      code_anns base (Suc i) (pos + length bs) items)"

lemma annotate_code_eq:
  "we_buf (annotate_code base i pos items e) = we_buf e"
  "we_anns (annotate_code base i pos items e) = we_anns e @ code_anns base i pos items"
  by (induction base i pos items e rule: annotate_code.induct) (simp_all add: wenc_annotate_def Let_def)

text \<open>The size of a body is computed from the size of the entry, and comes out right.\<close>

lemma length_uleb: "length (uleb (word_of_nat n)) = length (uleb_nat n)" if "n < 2 ^ 64"
  using that by (simp add: uleb_nat_of unat_of_nat)

lemma length_uleb_nat_iff: "length (uleb_nat n) = Suc k \<longleftrightarrow> n < 128 ^ Suc k \<and> (k = 0 \<or> 128 ^ k \<le> n)"
proof -
  have u: "n < 128 ^ length (uleb_nat n)" using uleb_dec_length [of "uleb_nat n" n "[]"] uleb_dec_nat [of n "[]"] by simp
  have p: "0 < length (uleb_nat n)" by (subst uleb_nat.simps) simp
  show ?thesis
  proof
    assume l: "length (uleb_nat n) = Suc k"
    then have "\<not> (n < 128 ^ k \<and> 0 < k)" using length_uleb_nat_least [of n k] by auto
    then show "n < 128 ^ Suc k \<and> (k = 0 \<or> 128 ^ k \<le> n)" using u l by auto
  next
    assume a: "n < 128 ^ Suc k \<and> (k = 0 \<or> 128 ^ k \<le> n)"
    then have "length (uleb_nat n) \<le> Suc k" by (intro length_uleb_nat_least) simp_all
    moreover have "\<not> length (uleb_nat n) \<le> k"
    proof
      assume "length (uleb_nat n) \<le> k"
      then have "(128 :: nat) ^ length (uleb_nat n) \<le> 128 ^ k" by (rule power_increasing) simp
      then have "n < 128 ^ k" using u by linarith
      then show False using a p \<open>length (uleb_nat n) \<le> k\<close> by auto
    qed
    ultimately show "length (uleb_nat n) = Suc k" by simp
  qed
qed

lemma Suc_le_pow128: "Suc k \<le> 128 ^ k"
  by (induction k) auto

lemma entry_size:
  assumes "n + length (uleb_nat n) = m"
  shows "length (uleb_nat (m - length (uleb_nat m))) = length (uleb_nat n)"
proof -
  obtain k where k: "length (uleb_nat n) = Suc k"
    by (cases "length (uleb_nat n)") (auto simp: uleb_nat.simps [of n] split: if_splits)
  have n: "n < 128 ^ Suc k" "k = 0 \<or> 128 ^ k \<le> n" using k by (simp_all add: length_uleb_nat_iff)
  have m: "m = n + Suc k" using assms k by simp
  show ?thesis
  proof (cases "m < 128 ^ Suc k")
    case True
    then have "length (uleb_nat m) = Suc k" using n(2) m by (auto simp: length_uleb_nat_iff)
    then show ?thesis using m by simp
  next
    case False
    have "m < 128 ^ Suc (Suc k)" using n(1) m Suc_le_pow128 [of k] by simp
    then have lm: "length (uleb_nat m) = Suc (Suc k)" using False by (simp add: length_uleb_nat_iff)
    have "length (uleb_nat (n - 1)) = Suc k"
    proof (cases "k = 0")
      case True
      then show ?thesis using n(1) by (simp add: length_uleb_nat_iff)
    next
      case nz: False
      have "Suc (Suc 0) \<le> 128 ^ k" using Suc_le_pow128 [of k] nz by linarith
      then have "128 ^ k \<le> n - 1" using False m Suc_le_pow128 [of k] by simp
      then show ?thesis using n(1) by (simp add: length_uleb_nat_iff)
    qed
    moreover have "m - length (uleb_nat m) = n - 1" using m lm by simp
    ultimately show ?thesis using k by simp
  qed
qed

lemma code_size_len:
  assumes "length (encode_func f) < 2 ^ 64"
  shows "length (uleb (word_of_nat (length (encode_func f) - length (uleb (word_of_nat (length (encode_func f))))))) =
    length (uleb (word_of_nat (length (func_inner f))))"
proof -
  let ?n = "length (func_inner f)" and ?m = "length (encode_func f)"
  have l: "?m = length (uleb (word_of_nat ?n)) + ?n" by (simp add: encode_func_def Let_def)
  then have n: "?n < 2 ^ 64" using assms by simp
  have "?n + length (uleb_nat ?n) = ?m" using l length_uleb [OF n] by simp
  from entry_size [OF this] show ?thesis
    using length_uleb [OF n] length_uleb [OF assms] length_uleb [of "?m - length (uleb_nat ?m)"] assms by simp
qed

lemma code_size_le: "length (uleb (word_of_nat (length bs - length (uleb (word_of_nat (length bs)))))) \<le> length bs"
  if "bs = encode_func f" "length bs < 2 ^ 64"
  using code_size_len [of f] that by (simp add: encode_func_def Let_def)

lemma code_anns_bounds:
  "list_all (\<lambda>(f, bs). bs = encode_func f \<and> length bs < 2 ^ 64) items \<Longrightarrow> a \<in> set (code_anns base i pos items) \<Longrightarrow>
     pos \<le> an_offset a \<and> an_offset a + an_length a \<le> pos + length (concat (map snd items))"
proof (induction base i pos items rule: code_anns.induct)
  case (2 base i pos f bs items)
  then have l: "length (uleb (word_of_nat (length bs - length (uleb (word_of_nat (length bs)))))) \<le> length bs"
    by (intro code_size_le [of _ f]) auto
  have IH: "a \<in> set (code_anns base (Suc i) (pos + length bs) items) \<Longrightarrow> pos + length bs \<le> an_offset a \<and>
      an_offset a + an_length a \<le> pos + length bs + length (concat (map snd items))"
    using 2 by simp
  from 2(3) l IH show ?case by (auto simp: Let_def)
qed simp

lemma code_anns_sorted:
  "list_all (\<lambda>(f, bs). bs = encode_func f \<and> length bs < 2 ^ 64) items \<Longrightarrow> sorted (map an_offset (code_anns base i pos items))"
proof (induction base i pos items rule: code_anns.induct)
  case (2 base i pos f bs items)
  then have l: "length (uleb (word_of_nat (length bs - length (uleb (word_of_nat (length bs)))))) \<le> length bs"
    by (intro code_size_le [of _ f]) auto
  have a: "list_all (\<lambda>(f, bs). bs = encode_func f \<and> length bs < 2 ^ 64) items" using 2(2) by simp
  have "\<forall>a \<in> set (code_anns base (Suc i) (pos + length bs) items). pos + length bs \<le> an_offset a"
    using code_anns_bounds [OF a] by blast
  moreover have "sorted (map an_offset (code_anns base (Suc i) (pos + length bs) items))" using 2(1) a by simp
  ultimately show ?case using l by (fastforce simp: Let_def)
qed simp

lemma code_anns_cover:
  "\<forall>f \<in> set fs. length (encode_func f) < 2 ^ 64 \<Longrightarrow> k < length fs \<Longrightarrow>
     \<exists>a \<in> set (code_anns base i (length pre) (zip fs (map encode_func fs))).
       covers (pre @ concat (map encode_func fs) @ post) a (func_inner (fs ! k)) \<and>
       (an_field a, an_value a) = code_note base (i + k) (fs ! k)"
proof (induction fs arbitrary: pre i k)
  case (Cons f fs)
  show ?case
  proof (cases k)
    case 0
    let ?u = "uleb (word_of_nat (length (func_inner f)))"
    have e: "encode_func f = ?u @ func_inner f" by (simp add: encode_func_def Let_def)
    have s: "length (uleb (word_of_nat (length (encode_func f) - length (uleb (word_of_nat (length (encode_func f))))))) = length ?u"
      using Cons.prems by (intro code_size_len) simp
    have "covers ((pre @ ?u) @ func_inner f @ concat (map encode_func fs) @ post)
        \<lparr>an_offset = length (pre @ ?u), an_length = length (func_inner f),
         an_field = fst (code_note base i f), an_value = snd (code_note base i f)\<rparr> (func_inner f)"
      by (rule covers_middle)
    then show ?thesis using 0 s e by (simp add: Let_def)
  next
    case (Suc j)
    with Cons.prems have "\<forall>f \<in> set fs. length (encode_func f) < 2 ^ 64" "j < length fs" by simp_all
    from Cons.IH [OF this, of "Suc i" "pre @ encode_func f"] Suc show ?thesis by (auto simp: Let_def add_ac)
  qed
qed simp

lemma code_items_ok:
  "\<forall>f \<in> set fs. length (encode_func f) < 2 ^ 64 \<Longrightarrow>
     list_all (\<lambda>(f, bs). bs = encode_func f \<and> length bs < 2 ^ 64) (zip fs (map encode_func fs))"
  by (auto simp: list_all_iff zip_map2 set_zip)

lemma emit_code_parts:
  assumes "mb_code b \<noteq> []"
  shows "we_buf (emit_code b e) = we_buf (wenc_section SEC_CODE (vector (map encode_func (mb_code b))) e)"
    "we_anns (emit_code b e) = we_anns (wenc_section SEC_CODE (vector (map encode_func (mb_code b))) e) @
       code_anns (imported_funcs b) 0 (items_pos (wenc_at e) (map encode_func (mb_code b)))
         (zip (mb_code b) (map encode_func (mb_code b)))"
  using assms by (simp_all add: emit_code_def Let_def annotate_code_eq)

definition code_fits :: "module_builder \<Rightarrow> bool" where
  "code_fits b \<longleftrightarrow> (\<forall>f \<in> set (mb_code b). length (encode_func f) < 2 ^ 64)"

lemma extends_code:
  assumes "code_fits b"
  shows "extends (layout_bytes (when_items SEC_CODE (map encode_func (mb_code b)))) (emit_code b)"
proof (cases "mb_code b = []")
  case True
  then have "emit_code b = (\<lambda>e. e)" by (intro ext) (simp add: emit_code_def)
  then show ?thesis using True extends_id by (simp add: when_items_def layout_bytes_def)
next
  case False
  let ?items = "map encode_func (mb_code b)"
  have ok: "list_all (\<lambda>(f, bs). bs = encode_func f \<and> length bs < 2 ^ 64) (zip (mb_code b) ?items)"
    using assms by (intro code_items_ok) (simp add: code_fits_def)
  have "extends (section_bytes (SEC_CODE, vector ?items)) (emit_code b)"
  proof (rule extends_section [where extra = "\<lambda>e. code_anns (imported_funcs b) 0 (items_pos (wenc_at e) ?items) (zip (mb_code b) ?items)"])
    fix e a assume "a \<in> set (code_anns (imported_funcs b) 0 (items_pos (wenc_at e) ?items) (zip (mb_code b) ?items))"
    from code_anns_bounds [OF ok this] items_pos_end [of "wenc_at e" ?items SEC_CODE]
    show "length (we_buf e) + 2 \<le> an_offset a \<and>
        an_offset a + an_length a \<le> length (we_buf e) + length (section_bytes (SEC_CODE, vector ?items))"
      using uleb_pos [of "word_of_nat (length (vector ?items))"]
      by (simp add: items_pos_def wenc_at_def Suc_le_eq del: length_greater_0_conv)
  qed (simp_all add: emit_code_parts [OF False] code_anns_sorted [OF ok])
  then show ?thesis using False by (simp add: when_items_def layout_bytes_def)
qed

lemma emit_code_covers:
  assumes "code_fits b" "k < length (mb_code b)"
  shows "\<exists>a \<in> set (we_anns (emit_code b e)). covers (we_buf (emit_code b e)) a (func_inner (mb_code b ! k)) \<and>
     (an_field a, an_value a) = code_note (imported_funcs b) k (mb_code b ! k)"
proof -
  have ne: "mb_code b \<noteq> []" using assms(2) by auto
  let ?items = "map encode_func (mb_code b)"
  let ?pre = "we_buf e @ [SEC_CODE] @ uleb (word_of_nat (length (vector ?items))) @ uleb (word_of_nat (length ?items))"
  have b: "we_buf (emit_code b e) = ?pre @ concat ?items @ []"
    by (simp add: emit_code_parts(1) [OF ne] wenc_section_eq section_bytes_def vector_def)
  have p: "items_pos (wenc_at e) ?items = length ?pre" by (simp add: items_pos_def wenc_at_def)
  have "\<forall>f \<in> set (mb_code b). length (encode_func f) < 2 ^ 64" using assms(1) by (simp add: code_fits_def)
  from code_anns_cover [OF this assms(2), of "imported_funcs b" 0 ?pre "[]"]
  show ?thesis unfolding b emit_code_parts(2) [OF ne] p by auto
qed

section \<open>The whole module\<close>

lemma length_notes [simp]: "length (notes_of f xs) = length xs"
  by (simp add: notes_of_def)

lemma nth_notes: "k < length xs \<Longrightarrow> notes_of f xs ! k = f k (xs ! k)"
  by (simp add: notes_of_def)

lemma extends_start:
  "extends (layout_bytes (case mb_start b of None \<Rightarrow> [] | Some s \<Rightarrow> [(SEC_START, uleb (ucast s))])) (emit_start b)"
proof (cases "mb_start b")
  case None
  then have "emit_start b = (\<lambda>e. e)" by (intro ext) (simp add: emit_start_def)
  then show ?thesis using None extends_id by (simp add: layout_bytes_def)
next
  case (Some s)
  then have "emit_start b = emit_number SEC_START (uleb (ucast s)) (start_note s)"
    by (intro ext) (simp add: emit_start_def)
  then show ?thesis using Some extends_number by (simp add: layout_bytes_def)
qed

lemma extends_data_count:
  "extends (layout_bytes (if needs_data_count b then [(SEC_DATA_COUNT, uleb (word_of_nat (length (mb_data b))))] else []))
     (emit_data_count b)"
proof (cases "needs_data_count b")
  case False
  then have "emit_data_count b = (\<lambda>e. e)" by (intro ext) (simp add: emit_data_count_def)
  then show ?thesis using False extends_id by (simp add: layout_bytes_def)
next
  case True
  then have "emit_data_count b = emit_number SEC_DATA_COUNT (uleb (word_of_nat (length (mb_data b)))) (data_count_note b)"
    by (intro ext) (simp add: emit_data_count_def)
  then show ?thesis using True extends_number by (simp add: layout_bytes_def)
qed

lemma extends_items: "extends (layout_bytes (when_items i (map g xs))) (emit_section i (map g xs) (notes_of f xs))"
  by (rule extends_emit_section) simp

lemma filter_when_items [simp]:
  "filter (\<lambda>s. fst s = i) (when_items j items) = (if j = i then when_items j items else [])"
  by (simp add: when_items_def)

lemma filter_start [simp]:
  "filter (\<lambda>s. fst s = i) (case st of None \<Rightarrow> [] | Some x \<Rightarrow> [(j, f x)]) =
     (if j = i then (case st of None \<Rightarrow> [] | Some x \<Rightarrow> [(j, f x)]) else [])"
  by (cases st) simp_all

lemma known_slots:
  "filter (\<lambda>s. fst s = SEC_TYPE) (known_sections b) = when_items SEC_TYPE (map functype_encode (mb_types b))"
  "filter (\<lambda>s. fst s = SEC_IMPORT) (known_sections b) = when_items SEC_IMPORT (map encode_import (mb_imports b))"
  "filter (\<lambda>s. fst s = SEC_FUNCTION) (known_sections b) = when_items SEC_FUNCTION (map (\<lambda>t. uleb (ucast t)) (mb_funcs b))"
  "filter (\<lambda>s. fst s = SEC_TABLE) (known_sections b) = when_items SEC_TABLE (map table_encode (mb_tables b))"
  "filter (\<lambda>s. fst s = SEC_MEMORY) (known_sections b) = when_items SEC_MEMORY (map limits_encode (mb_memories b))"
  "filter (\<lambda>s. fst s = SEC_GLOBAL) (known_sections b) = when_items SEC_GLOBAL (map global_encode (mb_globals b))"
  "filter (\<lambda>s. fst s = SEC_EXPORT) (known_sections b) = when_items SEC_EXPORT (map export_encode (mb_exports b))"
  "filter (\<lambda>s. fst s = SEC_START) (known_sections b) =
     (case mb_start b of None \<Rightarrow> [] | Some s \<Rightarrow> [(SEC_START, uleb (ucast s))])"
  "filter (\<lambda>s. fst s = SEC_ELEMENT) (known_sections b) = when_items SEC_ELEMENT (map encode_elem (mb_elems b))"
  "filter (\<lambda>s. fst s = SEC_DATA_COUNT) (known_sections b) =
     (if needs_data_count b then [(SEC_DATA_COUNT, uleb (word_of_nat (length (mb_data b))))] else [])"
  "filter (\<lambda>s. fst s = SEC_CODE) (known_sections b) = when_items SEC_CODE (map encode_func (mb_code b))"
  "filter (\<lambda>s. fst s = SEC_DATA) (known_sections b) = when_items SEC_DATA (map encode_data (mb_data b))"
  by (simp_all add: known_sections_def section_ids)

definition step_bytes :: "module_builder \<Rightarrow> bytes list" where
  "step_bytes b =
     layout_bytes (custom_layout b None) #
     concat (map (\<lambda>i. [layout_bytes (filter (\<lambda>s. fst s = i) (known_sections b)), layout_bytes (custom_layout b (Some i))]) slots)"

lemma step_bytes_layout: "concat (step_bytes b) = layout_bytes (module_layout b)"
proof -
  have "concat (concat (map (\<lambda>i. [layout_bytes (f i), layout_bytes (g i)]) xs)) = layout_bytes (concat (map (\<lambda>i. f i @ g i) xs))"
    for f g :: "u8 \<Rightarrow> layout" and xs
    by (induction xs) (simp_all add: layout_bytes_def)
  then show ?thesis by (simp add: step_bytes_def module_layout_def layout_bytes_def)
qed

lemma steps_extend:
  assumes "code_fits b"
  shows "list_all2 extends (step_bytes b) (build_steps b)"
proof -
  show ?thesis
    unfolding step_bytes_def build_steps_def slots_def list.map concat.simps append_Cons append_Nil known_slots list.rel_inject
      emit_types_def emit_imports_def emit_funcs_def emit_tables_def emit_memories_def emit_globals_def emit_exports_def
      emit_elems_def emit_data_def Let_def
    by (intro conjI extends_customs extends_items extends_start extends_data_count extends_code [OF assms] list.rel_intros)
qed

lemma extends_build: "code_fits b \<Longrightarrow> extends (layout_bytes (module_layout b)) (fold (\<lambda>f. f) (build_steps b))"
  using extends_fold [OF steps_extend [of b]] by (simp only: step_bytes_layout)

definition header_bytes :: bytes where
  "header_bytes = [0, 97, 115, 109, 1, 0, 0, 0]"

lemma header_eq: "we_buf wenc_with_header = header_bytes"
  by code_simp

lemma header_anns: "map an_offset (we_anns wenc_with_header) = [0, 4]" "map an_length (we_anns wenc_with_header) = [4, 4]"
  by code_simp+

lemma build_bytes: "code_fits b \<Longrightarrow> wm_bytes (build b) = header_bytes @ layout_bytes (module_layout b)"
  by (rule extendsE [OF extends_build [of b], of wenc_with_header]) (simp_all add: build_def wenc_finish_def header_eq)

lemma build_anns:
  assumes "code_fits b"
  shows "sorted (map an_offset (wm_anns (build b))) \<and>
    (\<forall>a \<in> set (wm_anns (build b)). an_offset a + an_length a \<le> length (wm_bytes (build b)))"
proof -
  obtain x y where h: "we_anns wenc_with_header = [x, y]" "an_offset x = 0" "an_offset y = 4" "an_length x = 4" "an_length y = 4"
    using header_anns by (auto simp: map_eq_Cons_conv)
  have l: "length header_bytes = 8" by (simp add: header_bytes_def)
  obtain as where as: "we_anns (fold (\<lambda>f. f) (build_steps b) wenc_with_header) = [x, y] @ as" "sorted (map an_offset as)"
    "\<And>a. a \<in> set as \<Longrightarrow> 8 \<le> an_offset a"
    "\<And>a. a \<in> set as \<Longrightarrow> an_offset a + an_length a \<le> 8 + length (layout_bytes (module_layout b))"
  proof (rule extendsE [OF extends_build [OF assms], of wenc_with_header], goal_cases)
    case (1 as)
    show ?case by (rule 1(1) [of as]) (use 1(2-6) in \<open>simp_all add: h(1) header_eq l\<close>)
  qed
  have a: "wm_anns (build b) = [x, y] @ as" using as(1) by (simp add: build_def wenc_finish_def)
  show ?thesis unfolding a build_bytes [OF assms] using as(2-4) h(2-5) l by fastforce
qed

text \<open>An annotation with its field and value over exactly the given bytes.\<close>

definition annotates :: "wenc \<Rightarrow> string \<times> string \<Rightarrow> bytes \<Rightarrow> bool" where
  "annotates e note c \<longleftrightarrow> (\<exists>a \<in> set (we_anns e). covers (we_buf e) a c \<and> (an_field a, an_value a) = note)"

definition module_annotates :: "wasm_module \<Rightarrow> string \<times> string \<Rightarrow> bytes \<Rightarrow> bool" where
  "module_annotates m note c \<longleftrightarrow>
     (\<exists>a \<in> set (wm_anns m). covers (wm_bytes m) a c \<and> (an_field a, an_value a) = note)"

lemma annotates_extends: "extends bs g \<Longrightarrow> annotates e n c \<Longrightarrow> annotates (g e) n c"
  by (erule extendsE [of bs g e]) (auto simp: annotates_def intro: covers_append)

lemma annotates_fold:
  assumes "list_all2 extends bss fs" "f \<in> set fs" "\<And>e. annotates (f e) n c"
  shows "annotates (fold (\<lambda>f. f) fs e) n c"
  using assms
proof (induction arbitrary: e rule: list_all2_induct)
  case (Cons bs bss g gs)
  show ?case
  proof (cases "f \<in> set gs")
    case True
    then show ?thesis using Cons.IH Cons.prems(2) by simp
  next
    case False
    then have "annotates (g e) n c" using Cons.prems by auto
    from annotates_extends [OF extends_fold [OF Cons.hyps(2)] this] show ?thesis by simp
  qed
qed simp

lemma build_annotates:
  assumes "code_fits b" "f \<in> set (build_steps b)" "\<And>e. annotates (f e) n c"
  shows "module_annotates (build b) n c"
  using annotates_fold [OF steps_extend [OF assms(1)] assms(2,3), of wenc_with_header]
  by (simp add: module_annotates_def annotates_def build_def wenc_finish_def)

lemma annotates_emit_section:
  "k < length xs \<Longrightarrow> annotates (emit_section i (map g xs) (notes_of f xs) e) (f k (xs ! k)) (g (xs ! k))"
  using emit_section_covers [of k "map g xs" "notes_of f xs" i e] by (simp add: annotates_def nth_notes)

lemma annotates_emit_code:
  "code_fits b \<Longrightarrow> k < length (mb_code b) \<Longrightarrow>
     annotates (emit_code b e) (code_note (imported_funcs b) k (mb_code b ! k)) (func_inner (mb_code b ! k))"
  using emit_code_covers [of b k e] by (simp add: annotates_def)

lemma annotates_emit_number: "annotates (emit_number i body note e) note body"
proof -
  have "covers ((we_buf e @ [i] @ uleb (word_of_nat (length body))) @ body @ [])
      \<lparr>an_offset = length (we_buf e @ [i] @ uleb (word_of_nat (length body))), an_length = length body,
       an_field = fst note, an_value = snd note\<rparr> body"
    by (rule covers_middle)
  then show ?thesis
    by (simp add: annotates_def emit_number_def Let_def wenc_annotate_def wenc_at_def wenc_section_eq section_bytes_def)
qed

text \<open>Every entry of a module: its field path and text, and its encoding.\<close>

definition noted :: "(nat \<Rightarrow> 'a \<Rightarrow> string \<times> string) \<Rightarrow> ('a \<Rightarrow> bytes) \<Rightarrow> 'a list \<Rightarrow> ((string \<times> string) \<times> bytes) list" where
  "noted note enc xs = zip (notes_of note xs) (map enc xs)"

definition entries :: "module_builder \<Rightarrow> ((string \<times> string) \<times> bytes) list" where
  "entries b =
     noted type_note functype_encode (mb_types b) @
     noted (import_note b) encode_import (mb_imports b) @
     noted (func_note b) (\<lambda>t. uleb (ucast t)) (mb_funcs b) @
     noted table_note table_encode (mb_tables b) @
     noted memory_note limits_encode (mb_memories b) @
     noted global_note global_encode (mb_globals b) @
     noted export_note export_encode (mb_exports b) @
     (case mb_start b of None \<Rightarrow> [] | Some s \<Rightarrow> [(start_note s, uleb (ucast s))]) @
     noted elem_note encode_elem (mb_elems b) @
     (if needs_data_count b then [(data_count_note b, uleb (word_of_nat (length (mb_data b))))] else []) @
     noted (code_note (imported_funcs b)) func_inner (mb_code b) @
     noted data_note encode_data (mb_data b)"

lemma in_noted:
  assumes "(n, c) \<in> set (noted note enc xs)"
  obtains k where "k < length xs" "n = note k (xs ! k)" "c = enc (xs ! k)"
  using assms by (auto simp: noted_def in_set_zip nth_notes)

lemma noted_annotated:
  assumes "code_fits b" "emit_section i (map enc xs) (notes_of note xs) \<in> set (build_steps b)"
    and "(n, c) \<in> set (noted note enc xs)"
  shows "module_annotates (build b) n c"
proof -
  obtain k where k: "k < length xs" "n = note k (xs ! k)" "c = enc (xs ! k)" by (rule in_noted [OF assms(3)])
  show ?thesis by (rule build_annotates [OF assms(1,2)]) (simp add: k annotates_emit_section)
qed

lemma emit_steps:
  "emit_section SEC_TYPE (map functype_encode (mb_types b)) (notes_of type_note (mb_types b)) \<in> set (build_steps b)"
  "emit_section SEC_IMPORT (map encode_import (mb_imports b)) (notes_of (import_note b) (mb_imports b)) \<in> set (build_steps b)"
  "emit_section SEC_FUNCTION (map (\<lambda>t. uleb (ucast t)) (mb_funcs b)) (notes_of (func_note b) (mb_funcs b)) \<in> set (build_steps b)"
  "emit_section SEC_TABLE (map table_encode (mb_tables b)) (notes_of table_note (mb_tables b)) \<in> set (build_steps b)"
  "emit_section SEC_MEMORY (map limits_encode (mb_memories b)) (notes_of memory_note (mb_memories b)) \<in> set (build_steps b)"
  "emit_section SEC_GLOBAL (map global_encode (mb_globals b)) (notes_of global_note (mb_globals b)) \<in> set (build_steps b)"
  "emit_section SEC_EXPORT (map export_encode (mb_exports b)) (notes_of export_note (mb_exports b)) \<in> set (build_steps b)"
  "emit_section SEC_ELEMENT (map encode_elem (mb_elems b)) (notes_of elem_note (mb_elems b)) \<in> set (build_steps b)"
  "emit_section SEC_DATA (map encode_data (mb_data b)) (notes_of data_note (mb_data b)) \<in> set (build_steps b)"
  "emit_start b \<in> set (build_steps b)" "emit_data_count b \<in> set (build_steps b)" "emit_code b \<in> set (build_steps b)"
  unfolding build_steps_def emit_types_def emit_imports_def emit_funcs_def emit_tables_def emit_memories_def
    emit_globals_def emit_exports_def emit_elems_def emit_data_def set_simps by blast+

lemma entries_annotated:
  assumes fits: "code_fits b" and e: "(n, c) \<in> set (entries b)"
  shows "module_annotates (build b) n c"
proof -
  note noted = noted_annotated [OF fits emit_steps(1)] noted_annotated [OF fits emit_steps(2)]
    noted_annotated [OF fits emit_steps(3)] noted_annotated [OF fits emit_steps(4)] noted_annotated [OF fits emit_steps(5)]
    noted_annotated [OF fits emit_steps(6)] noted_annotated [OF fits emit_steps(7)] noted_annotated [OF fits emit_steps(8)]
    noted_annotated [OF fits emit_steps(9)]
  have start: "module_annotates (build b) (start_note s) (uleb (ucast s))" if "mb_start b = Some s" for s
    by (rule build_annotates [OF fits emit_steps(10)]) (simp add: that emit_start_def annotates_emit_number)
  have count: "module_annotates (build b) (data_count_note b) (uleb (word_of_nat (length (mb_data b))))" if "needs_data_count b"
    by (rule build_annotates [OF fits emit_steps(11)]) (simp add: that emit_data_count_def annotates_emit_number)
  have code: "module_annotates (build b) n c" if m: "(n, c) \<in> set (noted (code_note (imported_funcs b)) func_inner (mb_code b))"
  proof -
    obtain k where k: "k < length (mb_code b)" "n = code_note (imported_funcs b) k (mb_code b ! k)" "c = func_inner (mb_code b ! k)"
      by (rule in_noted [OF m])
    show ?thesis by (rule build_annotates [OF fits emit_steps(12)]) (simp add: k annotates_emit_code [OF fits])
  qed
  from e show ?thesis
    unfolding entries_def by (auto intro: noted start [OF sym] start count code split: option.splits if_splits)
qed

section \<open>Reading the sections back\<close>

text \<open>The framing of the format: an id, a size, that many bytes.\<close>

function read_sections :: "bytes \<Rightarrow> layout option" where
  "read_sections [] = Some []"
| "read_sections (i # bs) =
     (case uleb_dec bs of
        None \<Rightarrow> None
      | Some (n, r) \<Rightarrow>
          (if length r < n then None
           else map_option (\<lambda>ss. (i, take n r) # ss) (read_sections (drop n r))))"
  by pat_completeness auto
termination
proof (relation "measure length", goal_cases)
  case (2 i bs p n r)
  have "length r < length bs" using uleb_dec_length [of bs n r] 2(1,2) by simp
  then show ?case by simp
qed simp

lemma read_layout:
  "\<forall>s \<in> set ss. length (snd s) < 2 ^ 64 \<Longrightarrow> read_sections (layout_bytes ss) = Some ss"
proof (induction ss)
  case (Cons s ss)
  obtain i body where s: "s = (i, body)" by (cases s)
  have "unat (word_of_nat (length body) :: u64) = length body" using Cons.prems s by (simp add: unat_of_nat)
  then have "uleb_dec (uleb (word_of_nat (length body)) @ body @ layout_bytes ss) = Some (length body, body @ layout_bytes ss)"
    using uleb_dec_nat [of "length body" "body @ layout_bytes ss"] by (simp add: uleb_nat_of)
  then show ?case using Cons by (simp add: s layout_bytes_def section_bytes_def)
qed (simp add: layout_bytes_def)

lemma layout_body_length: "s \<in> set ss \<Longrightarrow> length (snd s) \<le> length (layout_bytes ss)"
  by (induction ss) (auto simp: layout_bytes_def section_bytes_def split: prod.splits)

text \<open>The custom sections do not disturb the others, and those are in the order of the format.\<close>

lemma custom_layout_ids: "s \<in> set (custom_layout b i) \<Longrightarrow> fst s = SEC_CUSTOM"
  by (auto simp: custom_layout_def)

lemma known_filter: "filter (\<lambda>s. fst s \<noteq> SEC_CUSTOM) (custom_layout b i) = []"
  by (auto simp: filter_empty_conv dest: custom_layout_ids)

lemma filter_custom_slot: "i \<noteq> SEC_CUSTOM \<Longrightarrow> filter (\<lambda>s. fst s \<noteq> SEC_CUSTOM) (filter (\<lambda>s. fst s = i) ss) = filter (\<lambda>s. fst s = i) ss"
  by (induction ss) auto

lemma module_layout_known: "filter (\<lambda>s. fst s \<noteq> SEC_CUSTOM) (module_layout b) = known_sections b"
proof -
  have "filter (\<lambda>s. fst s \<noteq> SEC_CUSTOM) (concat (map (\<lambda>i. filter (\<lambda>s. fst s = i) ss @ custom_layout b (Some i)) js)) =
      concat (map (\<lambda>i. filter (\<lambda>s. fst s = i) ss) js)" if "\<forall>i \<in> set js. i \<noteq> SEC_CUSTOM" for ss js
    using that by (induction js) (simp_all add: known_filter filter_custom_slot del: filter_filter)
  moreover have "\<forall>i \<in> set slots. i \<noteq> SEC_CUSTOM" by (simp add: slots_def section_ids)
  moreover have "concat (map (\<lambda>i. filter (\<lambda>s. fst s = i) (known_sections b)) slots) = known_sections b"
    by (simp add: slots_def known_slots) (simp add: known_sections_def)
  ultimately show ?thesis by (simp add: module_layout_def known_filter)
qed

lemma known_order: "subseq (map fst (known_sections b)) slots"
proof -
  have "subseq (map fst (known_sections b)) ([SEC_TYPE] @ [SEC_IMPORT] @ [SEC_FUNCTION] @ [SEC_TABLE] @ [SEC_MEMORY] @
      [SEC_GLOBAL] @ [SEC_EXPORT] @ [SEC_START] @ [SEC_ELEMENT] @ [SEC_DATA_COUNT] @ [SEC_CODE] @ [SEC_DATA])"
    unfolding known_sections_def map_append
    by (intro list_emb_append_mono) (auto simp: when_items_def split: option.split)
  then show ?thesis by (simp add: slots_def)
qed

end
