(* ===== verification/Wasm_Opcodes.thy ===== *)
theory Wasm_Opcodes
  imports Wasm_Types
begin

text \<open>
  The opcode constants of \<^verbatim>\<open>wasmtest/src/wasm/instr.rs\<close> (modules \<open>op\<close>, \<open>op2\<close> and \<open>opv\<close>), with the list of
  each module's constants in the order of the source.
\<close>

datatype wop = Op (wop_code: u8) (wop_name: string)
datatype wop2 = Op2 (wop2_code: u32) (wop2_name: string)
datatype wopv = OpV (wopv_code: u32) (wopv_name: string)

section \<open>Single-byte opcodes\<close>

definition op_UNREACHABLE :: wop where "op_UNREACHABLE = Op 0x00 ''unreachable''"
definition op_NOP :: wop where "op_NOP = Op 0x01 ''nop''"
definition op_ELSE :: wop where "op_ELSE = Op 0x05 ''else''"
definition op_END :: wop where "op_END = Op 0x0b ''end''"
definition op_RETURN :: wop where "op_RETURN = Op 0x0f ''return''"
definition op_DROP :: wop where "op_DROP = Op 0x1a ''drop''"
definition op_SELECT :: wop where "op_SELECT = Op 0x1b ''select''"
definition op_I32_LOAD :: wop where "op_I32_LOAD = Op 0x28 ''i32.load''"
definition op_I64_LOAD :: wop where "op_I64_LOAD = Op 0x29 ''i64.load''"
definition op_F32_LOAD :: wop where "op_F32_LOAD = Op 0x2a ''f32.load''"
definition op_F64_LOAD :: wop where "op_F64_LOAD = Op 0x2b ''f64.load''"
definition op_I32_LOAD8_S :: wop where "op_I32_LOAD8_S = Op 0x2c ''i32.load8_s''"
definition op_I32_LOAD8_U :: wop where "op_I32_LOAD8_U = Op 0x2d ''i32.load8_u''"
definition op_I32_LOAD16_S :: wop where "op_I32_LOAD16_S = Op 0x2e ''i32.load16_s''"
definition op_I32_LOAD16_U :: wop where "op_I32_LOAD16_U = Op 0x2f ''i32.load16_u''"
definition op_I64_LOAD8_S :: wop where "op_I64_LOAD8_S = Op 0x30 ''i64.load8_s''"
definition op_I64_LOAD8_U :: wop where "op_I64_LOAD8_U = Op 0x31 ''i64.load8_u''"
definition op_I64_LOAD16_S :: wop where "op_I64_LOAD16_S = Op 0x32 ''i64.load16_s''"
definition op_I64_LOAD16_U :: wop where "op_I64_LOAD16_U = Op 0x33 ''i64.load16_u''"
definition op_I64_LOAD32_S :: wop where "op_I64_LOAD32_S = Op 0x34 ''i64.load32_s''"
definition op_I64_LOAD32_U :: wop where "op_I64_LOAD32_U = Op 0x35 ''i64.load32_u''"
definition op_I32_STORE :: wop where "op_I32_STORE = Op 0x36 ''i32.store''"
definition op_I64_STORE :: wop where "op_I64_STORE = Op 0x37 ''i64.store''"
definition op_F32_STORE :: wop where "op_F32_STORE = Op 0x38 ''f32.store''"
definition op_F64_STORE :: wop where "op_F64_STORE = Op 0x39 ''f64.store''"
definition op_I32_STORE8 :: wop where "op_I32_STORE8 = Op 0x3a ''i32.store8''"
definition op_I32_STORE16 :: wop where "op_I32_STORE16 = Op 0x3b ''i32.store16''"
definition op_I64_STORE8 :: wop where "op_I64_STORE8 = Op 0x3c ''i64.store8''"
definition op_I64_STORE16 :: wop where "op_I64_STORE16 = Op 0x3d ''i64.store16''"
definition op_I64_STORE32 :: wop where "op_I64_STORE32 = Op 0x3e ''i64.store32''"
definition op_I32_EQZ :: wop where "op_I32_EQZ = Op 0x45 ''i32.eqz''"
definition op_I32_EQ :: wop where "op_I32_EQ = Op 0x46 ''i32.eq''"
definition op_I32_NE :: wop where "op_I32_NE = Op 0x47 ''i32.ne''"
definition op_I32_LT_S :: wop where "op_I32_LT_S = Op 0x48 ''i32.lt_s''"
definition op_I32_LT_U :: wop where "op_I32_LT_U = Op 0x49 ''i32.lt_u''"
definition op_I32_GT_S :: wop where "op_I32_GT_S = Op 0x4a ''i32.gt_s''"
definition op_I32_GT_U :: wop where "op_I32_GT_U = Op 0x4b ''i32.gt_u''"
definition op_I32_LE_S :: wop where "op_I32_LE_S = Op 0x4c ''i32.le_s''"
definition op_I32_LE_U :: wop where "op_I32_LE_U = Op 0x4d ''i32.le_u''"
definition op_I32_GE_S :: wop where "op_I32_GE_S = Op 0x4e ''i32.ge_s''"
definition op_I32_GE_U :: wop where "op_I32_GE_U = Op 0x4f ''i32.ge_u''"
definition op_I64_EQZ :: wop where "op_I64_EQZ = Op 0x50 ''i64.eqz''"
definition op_I64_EQ :: wop where "op_I64_EQ = Op 0x51 ''i64.eq''"
definition op_I64_NE :: wop where "op_I64_NE = Op 0x52 ''i64.ne''"
definition op_I64_LT_S :: wop where "op_I64_LT_S = Op 0x53 ''i64.lt_s''"
definition op_I64_LT_U :: wop where "op_I64_LT_U = Op 0x54 ''i64.lt_u''"
definition op_I64_GT_S :: wop where "op_I64_GT_S = Op 0x55 ''i64.gt_s''"
definition op_I64_GT_U :: wop where "op_I64_GT_U = Op 0x56 ''i64.gt_u''"
definition op_I64_LE_S :: wop where "op_I64_LE_S = Op 0x57 ''i64.le_s''"
definition op_I64_LE_U :: wop where "op_I64_LE_U = Op 0x58 ''i64.le_u''"
definition op_I64_GE_S :: wop where "op_I64_GE_S = Op 0x59 ''i64.ge_s''"
definition op_I64_GE_U :: wop where "op_I64_GE_U = Op 0x5a ''i64.ge_u''"
definition op_F32_EQ :: wop where "op_F32_EQ = Op 0x5b ''f32.eq''"
definition op_F32_NE :: wop where "op_F32_NE = Op 0x5c ''f32.ne''"
definition op_F32_LT :: wop where "op_F32_LT = Op 0x5d ''f32.lt''"
definition op_F32_GT :: wop where "op_F32_GT = Op 0x5e ''f32.gt''"
definition op_F32_LE :: wop where "op_F32_LE = Op 0x5f ''f32.le''"
definition op_F32_GE :: wop where "op_F32_GE = Op 0x60 ''f32.ge''"
definition op_F64_EQ :: wop where "op_F64_EQ = Op 0x61 ''f64.eq''"
definition op_F64_NE :: wop where "op_F64_NE = Op 0x62 ''f64.ne''"
definition op_F64_LT :: wop where "op_F64_LT = Op 0x63 ''f64.lt''"
definition op_F64_GT :: wop where "op_F64_GT = Op 0x64 ''f64.gt''"
definition op_F64_LE :: wop where "op_F64_LE = Op 0x65 ''f64.le''"
definition op_F64_GE :: wop where "op_F64_GE = Op 0x66 ''f64.ge''"
definition op_I32_CLZ :: wop where "op_I32_CLZ = Op 0x67 ''i32.clz''"
definition op_I32_CTZ :: wop where "op_I32_CTZ = Op 0x68 ''i32.ctz''"
definition op_I32_POPCNT :: wop where "op_I32_POPCNT = Op 0x69 ''i32.popcnt''"
definition op_I32_ADD :: wop where "op_I32_ADD = Op 0x6a ''i32.add''"
definition op_I32_SUB :: wop where "op_I32_SUB = Op 0x6b ''i32.sub''"
definition op_I32_MUL :: wop where "op_I32_MUL = Op 0x6c ''i32.mul''"
definition op_I32_DIV_S :: wop where "op_I32_DIV_S = Op 0x6d ''i32.div_s''"
definition op_I32_DIV_U :: wop where "op_I32_DIV_U = Op 0x6e ''i32.div_u''"
definition op_I32_REM_S :: wop where "op_I32_REM_S = Op 0x6f ''i32.rem_s''"
definition op_I32_REM_U :: wop where "op_I32_REM_U = Op 0x70 ''i32.rem_u''"
definition op_I32_AND :: wop where "op_I32_AND = Op 0x71 ''i32.and''"
definition op_I32_OR :: wop where "op_I32_OR = Op 0x72 ''i32.or''"
definition op_I32_XOR :: wop where "op_I32_XOR = Op 0x73 ''i32.xor''"
definition op_I32_SHL :: wop where "op_I32_SHL = Op 0x74 ''i32.shl''"
definition op_I32_SHR_S :: wop where "op_I32_SHR_S = Op 0x75 ''i32.shr_s''"
definition op_I32_SHR_U :: wop where "op_I32_SHR_U = Op 0x76 ''i32.shr_u''"
definition op_I32_ROTL :: wop where "op_I32_ROTL = Op 0x77 ''i32.rotl''"
definition op_I32_ROTR :: wop where "op_I32_ROTR = Op 0x78 ''i32.rotr''"
definition op_I64_CLZ :: wop where "op_I64_CLZ = Op 0x79 ''i64.clz''"
definition op_I64_CTZ :: wop where "op_I64_CTZ = Op 0x7a ''i64.ctz''"
definition op_I64_POPCNT :: wop where "op_I64_POPCNT = Op 0x7b ''i64.popcnt''"
definition op_I64_ADD :: wop where "op_I64_ADD = Op 0x7c ''i64.add''"
definition op_I64_SUB :: wop where "op_I64_SUB = Op 0x7d ''i64.sub''"
definition op_I64_MUL :: wop where "op_I64_MUL = Op 0x7e ''i64.mul''"
definition op_I64_DIV_S :: wop where "op_I64_DIV_S = Op 0x7f ''i64.div_s''"
definition op_I64_DIV_U :: wop where "op_I64_DIV_U = Op 0x80 ''i64.div_u''"
definition op_I64_REM_S :: wop where "op_I64_REM_S = Op 0x81 ''i64.rem_s''"
definition op_I64_REM_U :: wop where "op_I64_REM_U = Op 0x82 ''i64.rem_u''"
definition op_I64_AND :: wop where "op_I64_AND = Op 0x83 ''i64.and''"
definition op_I64_OR :: wop where "op_I64_OR = Op 0x84 ''i64.or''"
definition op_I64_XOR :: wop where "op_I64_XOR = Op 0x85 ''i64.xor''"
definition op_I64_SHL :: wop where "op_I64_SHL = Op 0x86 ''i64.shl''"
definition op_I64_SHR_S :: wop where "op_I64_SHR_S = Op 0x87 ''i64.shr_s''"
definition op_I64_SHR_U :: wop where "op_I64_SHR_U = Op 0x88 ''i64.shr_u''"
definition op_I64_ROTL :: wop where "op_I64_ROTL = Op 0x89 ''i64.rotl''"
definition op_I64_ROTR :: wop where "op_I64_ROTR = Op 0x8a ''i64.rotr''"
definition op_F32_ABS :: wop where "op_F32_ABS = Op 0x8b ''f32.abs''"
definition op_F32_NEG :: wop where "op_F32_NEG = Op 0x8c ''f32.neg''"
definition op_F32_CEIL :: wop where "op_F32_CEIL = Op 0x8d ''f32.ceil''"
definition op_F32_FLOOR :: wop where "op_F32_FLOOR = Op 0x8e ''f32.floor''"
definition op_F32_TRUNC :: wop where "op_F32_TRUNC = Op 0x8f ''f32.trunc''"
definition op_F32_NEAREST :: wop where "op_F32_NEAREST = Op 0x90 ''f32.nearest''"
definition op_F32_SQRT :: wop where "op_F32_SQRT = Op 0x91 ''f32.sqrt''"
definition op_F32_ADD :: wop where "op_F32_ADD = Op 0x92 ''f32.add''"
definition op_F32_SUB :: wop where "op_F32_SUB = Op 0x93 ''f32.sub''"
definition op_F32_MUL :: wop where "op_F32_MUL = Op 0x94 ''f32.mul''"
definition op_F32_DIV :: wop where "op_F32_DIV = Op 0x95 ''f32.div''"
definition op_F32_MIN :: wop where "op_F32_MIN = Op 0x96 ''f32.min''"
definition op_F32_MAX :: wop where "op_F32_MAX = Op 0x97 ''f32.max''"
definition op_F32_COPYSIGN :: wop where "op_F32_COPYSIGN = Op 0x98 ''f32.copysign''"
definition op_F64_ABS :: wop where "op_F64_ABS = Op 0x99 ''f64.abs''"
definition op_F64_NEG :: wop where "op_F64_NEG = Op 0x9a ''f64.neg''"
definition op_F64_CEIL :: wop where "op_F64_CEIL = Op 0x9b ''f64.ceil''"
definition op_F64_FLOOR :: wop where "op_F64_FLOOR = Op 0x9c ''f64.floor''"
definition op_F64_TRUNC :: wop where "op_F64_TRUNC = Op 0x9d ''f64.trunc''"
definition op_F64_NEAREST :: wop where "op_F64_NEAREST = Op 0x9e ''f64.nearest''"
definition op_F64_SQRT :: wop where "op_F64_SQRT = Op 0x9f ''f64.sqrt''"
definition op_F64_ADD :: wop where "op_F64_ADD = Op 0xa0 ''f64.add''"
definition op_F64_SUB :: wop where "op_F64_SUB = Op 0xa1 ''f64.sub''"
definition op_F64_MUL :: wop where "op_F64_MUL = Op 0xa2 ''f64.mul''"
definition op_F64_DIV :: wop where "op_F64_DIV = Op 0xa3 ''f64.div''"
definition op_F64_MIN :: wop where "op_F64_MIN = Op 0xa4 ''f64.min''"
definition op_F64_MAX :: wop where "op_F64_MAX = Op 0xa5 ''f64.max''"
definition op_F64_COPYSIGN :: wop where "op_F64_COPYSIGN = Op 0xa6 ''f64.copysign''"
definition op_I32_WRAP_I64 :: wop where "op_I32_WRAP_I64 = Op 0xa7 ''i32.wrap_i64''"
definition op_I32_TRUNC_F32_S :: wop where "op_I32_TRUNC_F32_S = Op 0xa8 ''i32.trunc_f32_s''"
definition op_I32_TRUNC_F32_U :: wop where "op_I32_TRUNC_F32_U = Op 0xa9 ''i32.trunc_f32_u''"
definition op_I32_TRUNC_F64_S :: wop where "op_I32_TRUNC_F64_S = Op 0xaa ''i32.trunc_f64_s''"
definition op_I32_TRUNC_F64_U :: wop where "op_I32_TRUNC_F64_U = Op 0xab ''i32.trunc_f64_u''"
definition op_I64_EXTEND_I32_S :: wop where "op_I64_EXTEND_I32_S = Op 0xac ''i64.extend_i32_s''"
definition op_I64_EXTEND_I32_U :: wop where "op_I64_EXTEND_I32_U = Op 0xad ''i64.extend_i32_u''"
definition op_I64_TRUNC_F32_S :: wop where "op_I64_TRUNC_F32_S = Op 0xae ''i64.trunc_f32_s''"
definition op_I64_TRUNC_F32_U :: wop where "op_I64_TRUNC_F32_U = Op 0xaf ''i64.trunc_f32_u''"
definition op_I64_TRUNC_F64_S :: wop where "op_I64_TRUNC_F64_S = Op 0xb0 ''i64.trunc_f64_s''"
definition op_I64_TRUNC_F64_U :: wop where "op_I64_TRUNC_F64_U = Op 0xb1 ''i64.trunc_f64_u''"
definition op_F32_CONVERT_I32_S :: wop where "op_F32_CONVERT_I32_S = Op 0xb2 ''f32.convert_i32_s''"
definition op_F32_CONVERT_I32_U :: wop where "op_F32_CONVERT_I32_U = Op 0xb3 ''f32.convert_i32_u''"
definition op_F32_CONVERT_I64_S :: wop where "op_F32_CONVERT_I64_S = Op 0xb4 ''f32.convert_i64_s''"
definition op_F32_CONVERT_I64_U :: wop where "op_F32_CONVERT_I64_U = Op 0xb5 ''f32.convert_i64_u''"
definition op_F32_DEMOTE_F64 :: wop where "op_F32_DEMOTE_F64 = Op 0xb6 ''f32.demote_f64''"
definition op_F64_CONVERT_I32_S :: wop where "op_F64_CONVERT_I32_S = Op 0xb7 ''f64.convert_i32_s''"
definition op_F64_CONVERT_I32_U :: wop where "op_F64_CONVERT_I32_U = Op 0xb8 ''f64.convert_i32_u''"
definition op_F64_CONVERT_I64_S :: wop where "op_F64_CONVERT_I64_S = Op 0xb9 ''f64.convert_i64_s''"
definition op_F64_CONVERT_I64_U :: wop where "op_F64_CONVERT_I64_U = Op 0xba ''f64.convert_i64_u''"
definition op_F64_PROMOTE_F32 :: wop where "op_F64_PROMOTE_F32 = Op 0xbb ''f64.promote_f32''"
definition op_I32_REINTERPRET_F32 :: wop where "op_I32_REINTERPRET_F32 = Op 0xbc ''i32.reinterpret_f32''"
definition op_I64_REINTERPRET_F64 :: wop where "op_I64_REINTERPRET_F64 = Op 0xbd ''i64.reinterpret_f64''"
definition op_F32_REINTERPRET_I32 :: wop where "op_F32_REINTERPRET_I32 = Op 0xbe ''f32.reinterpret_i32''"
definition op_F64_REINTERPRET_I64 :: wop where "op_F64_REINTERPRET_I64 = Op 0xbf ''f64.reinterpret_i64''"
definition op_I32_EXTEND8_S :: wop where "op_I32_EXTEND8_S = Op 0xc0 ''i32.extend8_s''"
definition op_I32_EXTEND16_S :: wop where "op_I32_EXTEND16_S = Op 0xc1 ''i32.extend16_s''"
definition op_I64_EXTEND8_S :: wop where "op_I64_EXTEND8_S = Op 0xc2 ''i64.extend8_s''"
definition op_I64_EXTEND16_S :: wop where "op_I64_EXTEND16_S = Op 0xc3 ''i64.extend16_s''"
definition op_I64_EXTEND32_S :: wop where "op_I64_EXTEND32_S = Op 0xc4 ''i64.extend32_s''"

definition op_table :: "wop list" where
  "op_table =
     [op_UNREACHABLE, op_NOP, op_ELSE, op_END, op_RETURN, op_DROP, op_SELECT, op_I32_LOAD, op_I64_LOAD,
      op_F32_LOAD, op_F64_LOAD, op_I32_LOAD8_S, op_I32_LOAD8_U, op_I32_LOAD16_S, op_I32_LOAD16_U,
      op_I64_LOAD8_S, op_I64_LOAD8_U, op_I64_LOAD16_S, op_I64_LOAD16_U, op_I64_LOAD32_S, op_I64_LOAD32_U,
      op_I32_STORE, op_I64_STORE, op_F32_STORE, op_F64_STORE, op_I32_STORE8, op_I32_STORE16, op_I64_STORE8,
      op_I64_STORE16, op_I64_STORE32, op_I32_EQZ, op_I32_EQ, op_I32_NE, op_I32_LT_S, op_I32_LT_U,
      op_I32_GT_S, op_I32_GT_U, op_I32_LE_S, op_I32_LE_U, op_I32_GE_S, op_I32_GE_U, op_I64_EQZ, op_I64_EQ,
      op_I64_NE, op_I64_LT_S, op_I64_LT_U, op_I64_GT_S, op_I64_GT_U, op_I64_LE_S, op_I64_LE_U, op_I64_GE_S,
      op_I64_GE_U, op_F32_EQ, op_F32_NE, op_F32_LT, op_F32_GT, op_F32_LE, op_F32_GE, op_F64_EQ, op_F64_NE,
      op_F64_LT, op_F64_GT, op_F64_LE, op_F64_GE, op_I32_CLZ, op_I32_CTZ, op_I32_POPCNT, op_I32_ADD,
      op_I32_SUB, op_I32_MUL, op_I32_DIV_S, op_I32_DIV_U, op_I32_REM_S, op_I32_REM_U, op_I32_AND, op_I32_OR,
      op_I32_XOR, op_I32_SHL, op_I32_SHR_S, op_I32_SHR_U, op_I32_ROTL, op_I32_ROTR, op_I64_CLZ, op_I64_CTZ,
      op_I64_POPCNT, op_I64_ADD, op_I64_SUB, op_I64_MUL, op_I64_DIV_S, op_I64_DIV_U, op_I64_REM_S,
      op_I64_REM_U, op_I64_AND, op_I64_OR, op_I64_XOR, op_I64_SHL, op_I64_SHR_S, op_I64_SHR_U, op_I64_ROTL,
      op_I64_ROTR, op_F32_ABS, op_F32_NEG, op_F32_CEIL, op_F32_FLOOR, op_F32_TRUNC, op_F32_NEAREST,
      op_F32_SQRT, op_F32_ADD, op_F32_SUB, op_F32_MUL, op_F32_DIV, op_F32_MIN, op_F32_MAX, op_F32_COPYSIGN,
      op_F64_ABS, op_F64_NEG, op_F64_CEIL, op_F64_FLOOR, op_F64_TRUNC, op_F64_NEAREST, op_F64_SQRT,
      op_F64_ADD, op_F64_SUB, op_F64_MUL, op_F64_DIV, op_F64_MIN, op_F64_MAX, op_F64_COPYSIGN,
      op_I32_WRAP_I64, op_I32_TRUNC_F32_S, op_I32_TRUNC_F32_U, op_I32_TRUNC_F64_S, op_I32_TRUNC_F64_U,
      op_I64_EXTEND_I32_S, op_I64_EXTEND_I32_U, op_I64_TRUNC_F32_S, op_I64_TRUNC_F32_U, op_I64_TRUNC_F64_S,
      op_I64_TRUNC_F64_U, op_F32_CONVERT_I32_S, op_F32_CONVERT_I32_U, op_F32_CONVERT_I64_S,
      op_F32_CONVERT_I64_U, op_F32_DEMOTE_F64, op_F64_CONVERT_I32_S, op_F64_CONVERT_I32_U,
      op_F64_CONVERT_I64_S, op_F64_CONVERT_I64_U, op_F64_PROMOTE_F32, op_I32_REINTERPRET_F32,
      op_I64_REINTERPRET_F64, op_F32_REINTERPRET_I32, op_F64_REINTERPRET_I64, op_I32_EXTEND8_S,
      op_I32_EXTEND16_S, op_I64_EXTEND8_S, op_I64_EXTEND16_S, op_I64_EXTEND32_S]"

lemmas op_defs =
  op_UNREACHABLE_def op_NOP_def op_ELSE_def op_END_def op_RETURN_def op_DROP_def op_SELECT_def
  op_I32_LOAD_def op_I64_LOAD_def op_F32_LOAD_def op_F64_LOAD_def op_I32_LOAD8_S_def op_I32_LOAD8_U_def
  op_I32_LOAD16_S_def op_I32_LOAD16_U_def op_I64_LOAD8_S_def op_I64_LOAD8_U_def op_I64_LOAD16_S_def
  op_I64_LOAD16_U_def op_I64_LOAD32_S_def op_I64_LOAD32_U_def op_I32_STORE_def op_I64_STORE_def
  op_F32_STORE_def op_F64_STORE_def op_I32_STORE8_def op_I32_STORE16_def op_I64_STORE8_def op_I64_STORE16_def
  op_I64_STORE32_def op_I32_EQZ_def op_I32_EQ_def op_I32_NE_def op_I32_LT_S_def op_I32_LT_U_def
  op_I32_GT_S_def op_I32_GT_U_def op_I32_LE_S_def op_I32_LE_U_def op_I32_GE_S_def op_I32_GE_U_def
  op_I64_EQZ_def op_I64_EQ_def op_I64_NE_def op_I64_LT_S_def op_I64_LT_U_def op_I64_GT_S_def op_I64_GT_U_def
  op_I64_LE_S_def op_I64_LE_U_def op_I64_GE_S_def op_I64_GE_U_def op_F32_EQ_def op_F32_NE_def op_F32_LT_def
  op_F32_GT_def op_F32_LE_def op_F32_GE_def op_F64_EQ_def op_F64_NE_def op_F64_LT_def op_F64_GT_def
  op_F64_LE_def op_F64_GE_def op_I32_CLZ_def op_I32_CTZ_def op_I32_POPCNT_def op_I32_ADD_def op_I32_SUB_def
  op_I32_MUL_def op_I32_DIV_S_def op_I32_DIV_U_def op_I32_REM_S_def op_I32_REM_U_def op_I32_AND_def
  op_I32_OR_def op_I32_XOR_def op_I32_SHL_def op_I32_SHR_S_def op_I32_SHR_U_def op_I32_ROTL_def
  op_I32_ROTR_def op_I64_CLZ_def op_I64_CTZ_def op_I64_POPCNT_def op_I64_ADD_def op_I64_SUB_def
  op_I64_MUL_def op_I64_DIV_S_def op_I64_DIV_U_def op_I64_REM_S_def op_I64_REM_U_def op_I64_AND_def
  op_I64_OR_def op_I64_XOR_def op_I64_SHL_def op_I64_SHR_S_def op_I64_SHR_U_def op_I64_ROTL_def
  op_I64_ROTR_def op_F32_ABS_def op_F32_NEG_def op_F32_CEIL_def op_F32_FLOOR_def op_F32_TRUNC_def
  op_F32_NEAREST_def op_F32_SQRT_def op_F32_ADD_def op_F32_SUB_def op_F32_MUL_def op_F32_DIV_def
  op_F32_MIN_def op_F32_MAX_def op_F32_COPYSIGN_def op_F64_ABS_def op_F64_NEG_def op_F64_CEIL_def
  op_F64_FLOOR_def op_F64_TRUNC_def op_F64_NEAREST_def op_F64_SQRT_def op_F64_ADD_def op_F64_SUB_def
  op_F64_MUL_def op_F64_DIV_def op_F64_MIN_def op_F64_MAX_def op_F64_COPYSIGN_def op_I32_WRAP_I64_def
  op_I32_TRUNC_F32_S_def op_I32_TRUNC_F32_U_def op_I32_TRUNC_F64_S_def op_I32_TRUNC_F64_U_def
  op_I64_EXTEND_I32_S_def op_I64_EXTEND_I32_U_def op_I64_TRUNC_F32_S_def op_I64_TRUNC_F32_U_def
  op_I64_TRUNC_F64_S_def op_I64_TRUNC_F64_U_def op_F32_CONVERT_I32_S_def op_F32_CONVERT_I32_U_def
  op_F32_CONVERT_I64_S_def op_F32_CONVERT_I64_U_def op_F32_DEMOTE_F64_def op_F64_CONVERT_I32_S_def
  op_F64_CONVERT_I32_U_def op_F64_CONVERT_I64_S_def op_F64_CONVERT_I64_U_def op_F64_PROMOTE_F32_def
  op_I32_REINTERPRET_F32_def op_I64_REINTERPRET_F64_def op_F32_REINTERPRET_I32_def op_F64_REINTERPRET_I64_def
  op_I32_EXTEND8_S_def op_I32_EXTEND16_S_def op_I64_EXTEND8_S_def op_I64_EXTEND16_S_def op_I64_EXTEND32_S_def

section \<open>The saturating truncations\<close>

definition op2_I32_TRUNC_SAT_F32_S :: wop2 where "op2_I32_TRUNC_SAT_F32_S = Op2 0 ''i32.trunc_sat_f32_s''"
definition op2_I32_TRUNC_SAT_F32_U :: wop2 where "op2_I32_TRUNC_SAT_F32_U = Op2 1 ''i32.trunc_sat_f32_u''"
definition op2_I32_TRUNC_SAT_F64_S :: wop2 where "op2_I32_TRUNC_SAT_F64_S = Op2 2 ''i32.trunc_sat_f64_s''"
definition op2_I32_TRUNC_SAT_F64_U :: wop2 where "op2_I32_TRUNC_SAT_F64_U = Op2 3 ''i32.trunc_sat_f64_u''"
definition op2_I64_TRUNC_SAT_F32_S :: wop2 where "op2_I64_TRUNC_SAT_F32_S = Op2 4 ''i64.trunc_sat_f32_s''"
definition op2_I64_TRUNC_SAT_F32_U :: wop2 where "op2_I64_TRUNC_SAT_F32_U = Op2 5 ''i64.trunc_sat_f32_u''"
definition op2_I64_TRUNC_SAT_F64_S :: wop2 where "op2_I64_TRUNC_SAT_F64_S = Op2 6 ''i64.trunc_sat_f64_s''"
definition op2_I64_TRUNC_SAT_F64_U :: wop2 where "op2_I64_TRUNC_SAT_F64_U = Op2 7 ''i64.trunc_sat_f64_u''"

definition op2_table :: "wop2 list" where
  "op2_table =
     [op2_I32_TRUNC_SAT_F32_S, op2_I32_TRUNC_SAT_F32_U, op2_I32_TRUNC_SAT_F64_S, op2_I32_TRUNC_SAT_F64_U,
      op2_I64_TRUNC_SAT_F32_S, op2_I64_TRUNC_SAT_F32_U, op2_I64_TRUNC_SAT_F64_S, op2_I64_TRUNC_SAT_F64_U]"

lemmas op2_defs =
  op2_I32_TRUNC_SAT_F32_S_def op2_I32_TRUNC_SAT_F32_U_def op2_I32_TRUNC_SAT_F64_S_def
  op2_I32_TRUNC_SAT_F64_U_def op2_I64_TRUNC_SAT_F32_S_def op2_I64_TRUNC_SAT_F32_U_def
  op2_I64_TRUNC_SAT_F64_S_def op2_I64_TRUNC_SAT_F64_U_def

section \<open>The vector opcodes\<close>

definition opv_V128_LOAD :: wopv where "opv_V128_LOAD = OpV 0 ''v128.load''"
definition opv_V128_STORE :: wopv where "opv_V128_STORE = OpV 11 ''v128.store''"
definition opv_V128_CONST :: wopv where "opv_V128_CONST = OpV 12 ''v128.const''"
definition opv_I8X16_SHUFFLE :: wopv where "opv_I8X16_SHUFFLE = OpV 13 ''i8x16.shuffle''"
definition opv_I8X16_SWIZZLE :: wopv where "opv_I8X16_SWIZZLE = OpV 14 ''i8x16.swizzle''"
definition opv_I8X16_SPLAT :: wopv where "opv_I8X16_SPLAT = OpV 15 ''i8x16.splat''"
definition opv_I16X8_SPLAT :: wopv where "opv_I16X8_SPLAT = OpV 16 ''i16x8.splat''"
definition opv_I32X4_SPLAT :: wopv where "opv_I32X4_SPLAT = OpV 17 ''i32x4.splat''"
definition opv_I64X2_SPLAT :: wopv where "opv_I64X2_SPLAT = OpV 18 ''i64x2.splat''"
definition opv_F32X4_SPLAT :: wopv where "opv_F32X4_SPLAT = OpV 19 ''f32x4.splat''"
definition opv_F64X2_SPLAT :: wopv where "opv_F64X2_SPLAT = OpV 20 ''f64x2.splat''"
definition opv_I8X16_EXTRACT_LANE_S :: wopv where "opv_I8X16_EXTRACT_LANE_S = OpV 21 ''i8x16.extract_lane_s''"
definition opv_I8X16_EXTRACT_LANE_U :: wopv where "opv_I8X16_EXTRACT_LANE_U = OpV 22 ''i8x16.extract_lane_u''"
definition opv_I8X16_REPLACE_LANE :: wopv where "opv_I8X16_REPLACE_LANE = OpV 23 ''i8x16.replace_lane''"
definition opv_I16X8_EXTRACT_LANE_S :: wopv where "opv_I16X8_EXTRACT_LANE_S = OpV 24 ''i16x8.extract_lane_s''"
definition opv_I16X8_EXTRACT_LANE_U :: wopv where "opv_I16X8_EXTRACT_LANE_U = OpV 25 ''i16x8.extract_lane_u''"
definition opv_I16X8_REPLACE_LANE :: wopv where "opv_I16X8_REPLACE_LANE = OpV 26 ''i16x8.replace_lane''"
definition opv_I32X4_EXTRACT_LANE :: wopv where "opv_I32X4_EXTRACT_LANE = OpV 27 ''i32x4.extract_lane''"
definition opv_I32X4_REPLACE_LANE :: wopv where "opv_I32X4_REPLACE_LANE = OpV 28 ''i32x4.replace_lane''"
definition opv_I64X2_EXTRACT_LANE :: wopv where "opv_I64X2_EXTRACT_LANE = OpV 29 ''i64x2.extract_lane''"
definition opv_I64X2_REPLACE_LANE :: wopv where "opv_I64X2_REPLACE_LANE = OpV 30 ''i64x2.replace_lane''"
definition opv_F32X4_EXTRACT_LANE :: wopv where "opv_F32X4_EXTRACT_LANE = OpV 31 ''f32x4.extract_lane''"
definition opv_F32X4_REPLACE_LANE :: wopv where "opv_F32X4_REPLACE_LANE = OpV 32 ''f32x4.replace_lane''"
definition opv_F64X2_EXTRACT_LANE :: wopv where "opv_F64X2_EXTRACT_LANE = OpV 33 ''f64x2.extract_lane''"
definition opv_F64X2_REPLACE_LANE :: wopv where "opv_F64X2_REPLACE_LANE = OpV 34 ''f64x2.replace_lane''"
definition opv_I8X16_EQ :: wopv where "opv_I8X16_EQ = OpV 35 ''i8x16.eq''"
definition opv_I8X16_LT_S :: wopv where "opv_I8X16_LT_S = OpV 37 ''i8x16.lt_s''"
definition opv_I32X4_EQ :: wopv where "opv_I32X4_EQ = OpV 55 ''i32x4.eq''"
definition opv_I32X4_NE :: wopv where "opv_I32X4_NE = OpV 56 ''i32x4.ne''"
definition opv_I32X4_LT_S :: wopv where "opv_I32X4_LT_S = OpV 57 ''i32x4.lt_s''"
definition opv_I32X4_GT_S :: wopv where "opv_I32X4_GT_S = OpV 59 ''i32x4.gt_s''"
definition opv_F32X4_EQ :: wopv where "opv_F32X4_EQ = OpV 65 ''f32x4.eq''"
definition opv_F32X4_LT :: wopv where "opv_F32X4_LT = OpV 67 ''f32x4.lt''"
definition opv_V128_NOT :: wopv where "opv_V128_NOT = OpV 77 ''v128.not''"
definition opv_V128_AND :: wopv where "opv_V128_AND = OpV 78 ''v128.and''"
definition opv_V128_ANDNOT :: wopv where "opv_V128_ANDNOT = OpV 79 ''v128.andnot''"
definition opv_V128_OR :: wopv where "opv_V128_OR = OpV 80 ''v128.or''"
definition opv_V128_XOR :: wopv where "opv_V128_XOR = OpV 81 ''v128.xor''"
definition opv_V128_BITSELECT :: wopv where "opv_V128_BITSELECT = OpV 82 ''v128.bitselect''"
definition opv_V128_ANY_TRUE :: wopv where "opv_V128_ANY_TRUE = OpV 83 ''v128.any_true''"
definition opv_I8X16_ABS :: wopv where "opv_I8X16_ABS = OpV 96 ''i8x16.abs''"
definition opv_I8X16_NEG :: wopv where "opv_I8X16_NEG = OpV 97 ''i8x16.neg''"
definition opv_I8X16_ALL_TRUE :: wopv where "opv_I8X16_ALL_TRUE = OpV 99 ''i8x16.all_true''"
definition opv_I8X16_BITMASK :: wopv where "opv_I8X16_BITMASK = OpV 100 ''i8x16.bitmask''"
definition opv_I8X16_ADD :: wopv where "opv_I8X16_ADD = OpV 110 ''i8x16.add''"
definition opv_I8X16_ADD_SAT_S :: wopv where "opv_I8X16_ADD_SAT_S = OpV 111 ''i8x16.add_sat_s''"
definition opv_I8X16_ADD_SAT_U :: wopv where "opv_I8X16_ADD_SAT_U = OpV 112 ''i8x16.add_sat_u''"
definition opv_I8X16_SUB :: wopv where "opv_I8X16_SUB = OpV 113 ''i8x16.sub''"
definition opv_I8X16_SUB_SAT_S :: wopv where "opv_I8X16_SUB_SAT_S = OpV 114 ''i8x16.sub_sat_s''"
definition opv_I8X16_SUB_SAT_U :: wopv where "opv_I8X16_SUB_SAT_U = OpV 115 ''i8x16.sub_sat_u''"
definition opv_I8X16_MIN_S :: wopv where "opv_I8X16_MIN_S = OpV 118 ''i8x16.min_s''"
definition opv_I8X16_MAX_S :: wopv where "opv_I8X16_MAX_S = OpV 120 ''i8x16.max_s''"
definition opv_I16X8_ALL_TRUE :: wopv where "opv_I16X8_ALL_TRUE = OpV 131 ''i16x8.all_true''"
definition opv_I16X8_BITMASK :: wopv where "opv_I16X8_BITMASK = OpV 132 ''i16x8.bitmask''"
definition opv_I16X8_ADD :: wopv where "opv_I16X8_ADD = OpV 142 ''i16x8.add''"
definition opv_I16X8_SUB :: wopv where "opv_I16X8_SUB = OpV 145 ''i16x8.sub''"
definition opv_I16X8_MUL :: wopv where "opv_I16X8_MUL = OpV 149 ''i16x8.mul''"
definition opv_I32X4_ALL_TRUE :: wopv where "opv_I32X4_ALL_TRUE = OpV 163 ''i32x4.all_true''"
definition opv_I32X4_BITMASK :: wopv where "opv_I32X4_BITMASK = OpV 164 ''i32x4.bitmask''"
definition opv_I32X4_SHL :: wopv where "opv_I32X4_SHL = OpV 171 ''i32x4.shl''"
definition opv_I32X4_SHR_S :: wopv where "opv_I32X4_SHR_S = OpV 172 ''i32x4.shr_s''"
definition opv_I32X4_SHR_U :: wopv where "opv_I32X4_SHR_U = OpV 173 ''i32x4.shr_u''"
definition opv_I32X4_ADD :: wopv where "opv_I32X4_ADD = OpV 174 ''i32x4.add''"
definition opv_I32X4_SUB :: wopv where "opv_I32X4_SUB = OpV 177 ''i32x4.sub''"
definition opv_I32X4_MUL :: wopv where "opv_I32X4_MUL = OpV 181 ''i32x4.mul''"
definition opv_I32X4_MIN_S :: wopv where "opv_I32X4_MIN_S = OpV 182 ''i32x4.min_s''"
definition opv_I32X4_MAX_S :: wopv where "opv_I32X4_MAX_S = OpV 184 ''i32x4.max_s''"
definition opv_I64X2_ADD :: wopv where "opv_I64X2_ADD = OpV 206 ''i64x2.add''"
definition opv_I64X2_MUL :: wopv where "opv_I64X2_MUL = OpV 213 ''i64x2.mul''"
definition opv_F32X4_ADD :: wopv where "opv_F32X4_ADD = OpV 228 ''f32x4.add''"
definition opv_F32X4_SUB :: wopv where "opv_F32X4_SUB = OpV 229 ''f32x4.sub''"
definition opv_F32X4_MUL :: wopv where "opv_F32X4_MUL = OpV 230 ''f32x4.mul''"
definition opv_F32X4_DIV :: wopv where "opv_F32X4_DIV = OpV 231 ''f32x4.div''"
definition opv_F32X4_MIN :: wopv where "opv_F32X4_MIN = OpV 232 ''f32x4.min''"
definition opv_F32X4_MAX :: wopv where "opv_F32X4_MAX = OpV 233 ''f32x4.max''"
definition opv_F64X2_ADD :: wopv where "opv_F64X2_ADD = OpV 240 ''f64x2.add''"
definition opv_F64X2_MUL :: wopv where "opv_F64X2_MUL = OpV 242 ''f64x2.mul''"

definition opv_table :: "wopv list" where
  "opv_table =
     [opv_V128_LOAD, opv_V128_STORE, opv_V128_CONST, opv_I8X16_SHUFFLE, opv_I8X16_SWIZZLE, opv_I8X16_SPLAT,
      opv_I16X8_SPLAT, opv_I32X4_SPLAT, opv_I64X2_SPLAT, opv_F32X4_SPLAT, opv_F64X2_SPLAT,
      opv_I8X16_EXTRACT_LANE_S, opv_I8X16_EXTRACT_LANE_U, opv_I8X16_REPLACE_LANE, opv_I16X8_EXTRACT_LANE_S,
      opv_I16X8_EXTRACT_LANE_U, opv_I16X8_REPLACE_LANE, opv_I32X4_EXTRACT_LANE, opv_I32X4_REPLACE_LANE,
      opv_I64X2_EXTRACT_LANE, opv_I64X2_REPLACE_LANE, opv_F32X4_EXTRACT_LANE, opv_F32X4_REPLACE_LANE,
      opv_F64X2_EXTRACT_LANE, opv_F64X2_REPLACE_LANE, opv_I8X16_EQ, opv_I8X16_LT_S, opv_I32X4_EQ,
      opv_I32X4_NE, opv_I32X4_LT_S, opv_I32X4_GT_S, opv_F32X4_EQ, opv_F32X4_LT, opv_V128_NOT, opv_V128_AND,
      opv_V128_ANDNOT, opv_V128_OR, opv_V128_XOR, opv_V128_BITSELECT, opv_V128_ANY_TRUE, opv_I8X16_ABS,
      opv_I8X16_NEG, opv_I8X16_ALL_TRUE, opv_I8X16_BITMASK, opv_I8X16_ADD, opv_I8X16_ADD_SAT_S,
      opv_I8X16_ADD_SAT_U, opv_I8X16_SUB, opv_I8X16_SUB_SAT_S, opv_I8X16_SUB_SAT_U, opv_I8X16_MIN_S,
      opv_I8X16_MAX_S, opv_I16X8_ALL_TRUE, opv_I16X8_BITMASK, opv_I16X8_ADD, opv_I16X8_SUB, opv_I16X8_MUL,
      opv_I32X4_ALL_TRUE, opv_I32X4_BITMASK, opv_I32X4_SHL, opv_I32X4_SHR_S, opv_I32X4_SHR_U, opv_I32X4_ADD,
      opv_I32X4_SUB, opv_I32X4_MUL, opv_I32X4_MIN_S, opv_I32X4_MAX_S, opv_I64X2_ADD, opv_I64X2_MUL,
      opv_F32X4_ADD, opv_F32X4_SUB, opv_F32X4_MUL, opv_F32X4_DIV, opv_F32X4_MIN, opv_F32X4_MAX,
      opv_F64X2_ADD, opv_F64X2_MUL]"

lemmas opv_defs =
  opv_V128_LOAD_def opv_V128_STORE_def opv_V128_CONST_def opv_I8X16_SHUFFLE_def opv_I8X16_SWIZZLE_def
  opv_I8X16_SPLAT_def opv_I16X8_SPLAT_def opv_I32X4_SPLAT_def opv_I64X2_SPLAT_def opv_F32X4_SPLAT_def
  opv_F64X2_SPLAT_def opv_I8X16_EXTRACT_LANE_S_def opv_I8X16_EXTRACT_LANE_U_def opv_I8X16_REPLACE_LANE_def
  opv_I16X8_EXTRACT_LANE_S_def opv_I16X8_EXTRACT_LANE_U_def opv_I16X8_REPLACE_LANE_def
  opv_I32X4_EXTRACT_LANE_def opv_I32X4_REPLACE_LANE_def opv_I64X2_EXTRACT_LANE_def opv_I64X2_REPLACE_LANE_def
  opv_F32X4_EXTRACT_LANE_def opv_F32X4_REPLACE_LANE_def opv_F64X2_EXTRACT_LANE_def opv_F64X2_REPLACE_LANE_def
  opv_I8X16_EQ_def opv_I8X16_LT_S_def opv_I32X4_EQ_def opv_I32X4_NE_def opv_I32X4_LT_S_def opv_I32X4_GT_S_def
  opv_F32X4_EQ_def opv_F32X4_LT_def opv_V128_NOT_def opv_V128_AND_def opv_V128_ANDNOT_def opv_V128_OR_def
  opv_V128_XOR_def opv_V128_BITSELECT_def opv_V128_ANY_TRUE_def opv_I8X16_ABS_def opv_I8X16_NEG_def
  opv_I8X16_ALL_TRUE_def opv_I8X16_BITMASK_def opv_I8X16_ADD_def opv_I8X16_ADD_SAT_S_def
  opv_I8X16_ADD_SAT_U_def opv_I8X16_SUB_def opv_I8X16_SUB_SAT_S_def opv_I8X16_SUB_SAT_U_def
  opv_I8X16_MIN_S_def opv_I8X16_MAX_S_def opv_I16X8_ALL_TRUE_def opv_I16X8_BITMASK_def opv_I16X8_ADD_def
  opv_I16X8_SUB_def opv_I16X8_MUL_def opv_I32X4_ALL_TRUE_def opv_I32X4_BITMASK_def opv_I32X4_SHL_def
  opv_I32X4_SHR_S_def opv_I32X4_SHR_U_def opv_I32X4_ADD_def opv_I32X4_SUB_def opv_I32X4_MUL_def
  opv_I32X4_MIN_S_def opv_I32X4_MAX_S_def opv_I64X2_ADD_def opv_I64X2_MUL_def opv_F32X4_ADD_def
  opv_F32X4_SUB_def opv_F32X4_MUL_def opv_F32X4_DIV_def opv_F32X4_MIN_def opv_F32X4_MAX_def opv_F64X2_ADD_def
  opv_F64X2_MUL_def

end
