(* ===== verification/Wasm_Instr.thy ===== *)
theory Wasm_Instr
  imports Wasm_Opcodes
begin

text \<open>
  The instruction builder of \<^verbatim>\<open>wasmtest/src/wasm/instr.rs\<close>: an expression is its bytes and the
  mnemonics it wrote. A float constant written from a value prints that value with Rust's float
  formatting, which is not modelled; the forms that take the bit pattern are.
\<close>

section \<open>Block types\<close>

datatype block_type = BT_Empty | BT_Value val_type | BT_Type u32

fun bt_encode :: "block_type \<Rightarrow> bytes" where
  "bt_encode BT_Empty = [0x40]"
| "bt_encode (BT_Value t) = [vt_code t]"
| "bt_encode (BT_Type i) = sleb (ucast i)"

fun bt_text :: "block_type \<Rightarrow> string" where
  "bt_text BT_Empty = []"
| "bt_text (BT_Value t) = '' (result '' @ vt_name t @ '')''"
| "bt_text (BT_Type i) = '' (type '' @ show_nat (unat i) @ '')''"

section \<open>Expressions\<close>

record expr =
  xp_bytes :: bytes
  xp_text :: "string list"

definition expr_new :: expr where
  "expr_new = \<lparr>xp_bytes = [], xp_text = []\<rparr>"

definition expr_into_body :: "expr \<Rightarrow> bytes" where
  "expr_into_body e = xp_bytes e @ [0x0b]"

definition expr_into_const :: "expr \<Rightarrow> bytes" where
  "expr_into_const e = expr_into_body e"

definition expr_text :: "expr \<Rightarrow> string" where
  "expr_text e = join '', '' (xp_text e)"

definition xpush :: "bytes \<Rightarrow> string \<Rightarrow> expr \<Rightarrow> expr" where
  "xpush bs text e = e\<lparr>xp_bytes := xp_bytes e @ bs, xp_text := xp_text e @ [text]\<rparr>"

definition expr_bytes :: "bytes \<Rightarrow> string \<Rightarrow> expr \<Rightarrow> expr" where
  "expr_bytes bs text = xpush bs text"

definition expr_then :: "expr \<Rightarrow> expr \<Rightarrow> expr" where
  "expr_then other e = e\<lparr>xp_bytes := xp_bytes e @ xp_bytes other, xp_text := xp_text e @ xp_text other\<rparr>"

definition expr_repeat :: "nat \<Rightarrow> expr \<Rightarrow> expr \<Rightarrow> expr" where
  "expr_repeat n other e =
     (let e1 = e\<lparr>xp_bytes := xp_bytes e @ concat (replicate n (xp_bytes other))\<rparr> in
      if n > 0
      then e1\<lparr>xp_text := xp_text e1 @ [''['' @ show_nat n @ '' '' @ TIMES @ '' '' @ expr_text other @ '']'']\<rparr>
      else e1)"

subsection \<open>Constants, locals and globals\<close>

definition x_i32_const :: "32 word \<Rightarrow> expr \<Rightarrow> expr" where
  "x_i32_const v = xpush ([0x41] @ sleb (scast v)) (''i32.const '' @ show_int (sint v))"

definition x_i64_const :: "64 word \<Rightarrow> expr \<Rightarrow> expr" where
  "x_i64_const v = xpush ([0x42] @ sleb v) (''i64.const '' @ show_int (sint v))"

definition x_f32_bits :: "u32 \<Rightarrow> expr \<Rightarrow> expr" where
  "x_f32_bits bits = xpush ([0x43] @ u32_le bits) (''f32.const 0x'' @ hex_pad 8 (unat bits) @ '' (bit pattern)'')"

definition x_f64_bits :: "u64 \<Rightarrow> expr \<Rightarrow> expr" where
  "x_f64_bits bits = xpush ([0x44] @ u64_le bits) (''f64.const 0x'' @ hex_pad 16 (unat bits) @ '' (bit pattern)'')"

text \<open>The many instructions of one opcode and one index.\<close>

definition x_index :: "u8 \<Rightarrow> string \<Rightarrow> u32 \<Rightarrow> expr \<Rightarrow> expr" where
  "x_index code name n = xpush ([code] @ uleb (ucast n)) (name @ '' '' @ show_nat (unat n))"

definition x_local_get :: "u32 \<Rightarrow> expr \<Rightarrow> expr" where "x_local_get = x_index 0x20 ''local.get''"
definition x_local_set :: "u32 \<Rightarrow> expr \<Rightarrow> expr" where "x_local_set = x_index 0x21 ''local.set''"
definition x_local_tee :: "u32 \<Rightarrow> expr \<Rightarrow> expr" where "x_local_tee = x_index 0x22 ''local.tee''"
definition x_global_get :: "u32 \<Rightarrow> expr \<Rightarrow> expr" where "x_global_get = x_index 0x23 ''global.get''"
definition x_global_set :: "u32 \<Rightarrow> expr \<Rightarrow> expr" where "x_global_set = x_index 0x24 ''global.set''"

subsection \<open>Opcodes\<close>

definition x_op :: "wop \<Rightarrow> expr \<Rightarrow> expr" where
  "x_op w = xpush [wop_code w] (wop_name w)"

definition x_op2 :: "wop2 \<Rightarrow> expr \<Rightarrow> expr" where
  "x_op2 w = xpush ([0xfc] @ uleb (ucast (wop2_code w))) (wop2_name w)"

definition x_opv :: "wopv \<Rightarrow> expr \<Rightarrow> expr" where
  "x_opv w = xpush ([0xfd] @ uleb (ucast (wopv_code w))) (wopv_name w)"

definition x_opv_lane :: "wopv \<Rightarrow> u8 \<Rightarrow> expr \<Rightarrow> expr" where
  "x_opv_lane w lane =
     xpush ([0xfd] @ uleb (ucast (wopv_code w)) @ [lane]) (wopv_name w @ '' '' @ show_nat (unat lane))"

text \<open>\<open>1u32 << align\<close>, whose shift distance wraps at 32 in a release build.\<close>

definition align_text :: "u32 \<Rightarrow> string" where
  "align_text align = show_nat (unat (push_bit (unat (align AND 31)) 1 :: u32))"

definition x_opv_mem :: "wopv \<Rightarrow> u32 \<Rightarrow> u32 \<Rightarrow> expr \<Rightarrow> expr" where
  "x_opv_mem w align off =
     xpush ([0xfd] @ uleb (ucast (wopv_code w)) @ uleb (ucast align) @ uleb (ucast off))
       (wopv_name w @ '' align='' @ align_text align @ '' offset='' @ show_nat (unat off))"

definition x_v128_const :: "bytes \<Rightarrow> expr \<Rightarrow> expr" where
  "x_v128_const bs =
     (let lanes = map (\<lambda>c. show_int (sint (u32_from_le c :: 32 word))) (chunks 4 bs) in
      xpush ([0xfd] @ uleb (ucast (wopv_code opv_V128_CONST)) @ bs) (''v128.const i32x4 '' @ join '' '' lanes))"

definition x_v128_const_i32x4 :: "32 word list \<Rightarrow> expr \<Rightarrow> expr" where
  "x_v128_const_i32x4 lanes = x_v128_const (concat (map u32_le lanes))"

definition x_i8x16_shuffle :: "bytes \<Rightarrow> expr \<Rightarrow> expr" where
  "x_i8x16_shuffle lanes =
     xpush ([0xfd] @ uleb (ucast (wopv_code opv_I8X16_SHUFFLE)) @ lanes)
       (''i8x16.shuffle '' @ join '' '' (map (show_nat \<circ> unat) lanes))"

definition x_v128_load :: "u32 \<Rightarrow> expr \<Rightarrow> expr" where "x_v128_load = x_opv_mem opv_V128_LOAD 4"
definition x_v128_store :: "u32 \<Rightarrow> expr \<Rightarrow> expr" where "x_v128_store = x_opv_mem opv_V128_STORE 4"
definition x_nop :: "expr \<Rightarrow> expr" where "x_nop = x_op op_NOP"
definition x_drop :: "expr \<Rightarrow> expr" where "x_drop = x_op op_DROP"
definition x_unreachable :: "expr \<Rightarrow> expr" where "x_unreachable = x_op op_UNREACHABLE"
definition x_return :: "expr \<Rightarrow> expr" where "x_return = x_op op_RETURN"
definition x_select :: "expr \<Rightarrow> expr" where "x_select = x_op op_SELECT"

definition x_select_typed :: "val_type list \<Rightarrow> expr \<Rightarrow> expr" where
  "x_select_typed types =
     xpush ([0x1c] @ uleb (word_of_nat (length types)) @ map vt_code types)
       (''select ('' @ join '' '' (map vt_name types) @ '')'')"

subsection \<open>Control flow\<close>

text \<open>An opening instruction, a nested expression and \<open>end\<close>.\<close>

definition nest :: "expr \<Rightarrow> expr \<Rightarrow> expr" where
  "nest body e = e\<lparr>xp_bytes := xp_bytes e @ xp_bytes body @ [0x0b]\<rparr>"

definition braces :: "expr \<Rightarrow> string" where
  "braces e = '' { '' @ expr_text e @ '' }''"

definition x_block :: "block_type \<Rightarrow> expr \<Rightarrow> expr \<Rightarrow> expr" where
  "x_block bt body = nest body \<circ> xpush ([0x02] @ bt_encode bt) (''block'' @ bt_text bt @ braces body)"

definition x_loop :: "block_type \<Rightarrow> expr \<Rightarrow> expr \<Rightarrow> expr" where
  "x_loop bt body = nest body \<circ> xpush ([0x03] @ bt_encode bt) (''loop'' @ bt_text bt @ braces body)"

definition x_if :: "block_type \<Rightarrow> expr \<Rightarrow> expr \<Rightarrow> expr" where
  "x_if bt yes = nest yes \<circ> xpush ([0x04] @ bt_encode bt) (''if'' @ bt_text bt @ braces yes)"

definition x_if_else :: "block_type \<Rightarrow> expr \<Rightarrow> expr \<Rightarrow> expr \<Rightarrow> expr" where
  "x_if_else bt yes no e =
     (let e1 = xpush ([0x04] @ bt_encode bt) (''if'' @ bt_text bt @ braces yes @ '' else'' @ braces no) e in
      e1\<lparr>xp_bytes := xp_bytes e1 @ xp_bytes yes @ [0x05] @ xp_bytes no @ [0x0b]\<rparr>)"

definition x_br :: "u32 \<Rightarrow> expr \<Rightarrow> expr" where "x_br = x_index 0x0c ''br''"
definition x_br_if :: "u32 \<Rightarrow> expr \<Rightarrow> expr" where "x_br_if = x_index 0x0d ''br_if''"

definition x_br_table :: "u32 list \<Rightarrow> u32 \<Rightarrow> expr \<Rightarrow> expr" where
  "x_br_table labels default_label =
     xpush ([0x0e] @ uleb (word_of_nat (length labels)) @ concat (map (\<lambda>l. uleb (ucast l)) labels) @
            uleb (ucast default_label))
       (''br_table '' @ debug_u32s labels @ '' default '' @ show_nat (unat default_label))"

definition x_call :: "u32 \<Rightarrow> expr \<Rightarrow> expr" where "x_call = x_index 0x10 ''call''"

definition x_call_indirect :: "u32 \<Rightarrow> u32 \<Rightarrow> expr \<Rightarrow> expr" where
  "x_call_indirect ty table =
     xpush ([0x11] @ uleb (ucast ty) @ uleb (ucast table))
       (''call_indirect (type '' @ show_nat (unat ty) @ '') (table '' @ show_nat (unat table) @ '')'')"

subsection \<open>Memory\<close>

definition x_mem :: "wop \<Rightarrow> u32 \<Rightarrow> u32 \<Rightarrow> expr \<Rightarrow> expr" where
  "x_mem w align off =
     xpush ([wop_code w] @ uleb (ucast align) @ uleb (ucast off))
       (wop_name w @ '' align='' @ align_text align @ '' offset='' @ show_nat (unat off))"

definition x_i32_load :: "u32 \<Rightarrow> expr \<Rightarrow> expr" where "x_i32_load = x_mem op_I32_LOAD 2"
definition x_i32_store :: "u32 \<Rightarrow> expr \<Rightarrow> expr" where "x_i32_store = x_mem op_I32_STORE 2"
definition x_i64_load :: "u32 \<Rightarrow> expr \<Rightarrow> expr" where "x_i64_load = x_mem op_I64_LOAD 3"
definition x_i64_store :: "u32 \<Rightarrow> expr \<Rightarrow> expr" where "x_i64_store = x_mem op_I64_STORE 3"
definition x_memory_size :: "expr \<Rightarrow> expr" where "x_memory_size = xpush [0x3f, 0x00] ''memory.size''"
definition x_memory_grow :: "expr \<Rightarrow> expr" where "x_memory_grow = xpush [0x40, 0x00] ''memory.grow''"

definition x_memory_init :: "u32 \<Rightarrow> expr \<Rightarrow> expr" where
  "x_memory_init seg = xpush ([0xfc] @ uleb 8 @ uleb (ucast seg) @ [0x00]) (''memory.init '' @ show_nat (unat seg))"

text \<open>A prefixed instruction of one index.\<close>

definition x_prefixed :: "u64 \<Rightarrow> string \<Rightarrow> u32 \<Rightarrow> expr \<Rightarrow> expr" where
  "x_prefixed code name n = xpush ([0xfc] @ uleb code @ uleb (ucast n)) (name @ '' '' @ show_nat (unat n))"

definition x_data_drop :: "u32 \<Rightarrow> expr \<Rightarrow> expr" where "x_data_drop = x_prefixed 9 ''data.drop''"
definition x_memory_copy :: "expr \<Rightarrow> expr" where "x_memory_copy = xpush ([0xfc] @ uleb 10 @ [0x00, 0x00]) ''memory.copy''"
definition x_memory_fill :: "expr \<Rightarrow> expr" where "x_memory_fill = xpush ([0xfc] @ uleb 11 @ [0x00]) ''memory.fill''"

subsection \<open>Tables and references\<close>

definition x_table_get :: "u32 \<Rightarrow> expr \<Rightarrow> expr" where "x_table_get = x_index 0x25 ''table.get''"
definition x_table_set :: "u32 \<Rightarrow> expr \<Rightarrow> expr" where "x_table_set = x_index 0x26 ''table.set''"
definition x_table_size :: "u32 \<Rightarrow> expr \<Rightarrow> expr" where "x_table_size = x_prefixed 16 ''table.size''"
definition x_table_grow :: "u32 \<Rightarrow> expr \<Rightarrow> expr" where "x_table_grow = x_prefixed 15 ''table.grow''"
definition x_table_fill :: "u32 \<Rightarrow> expr \<Rightarrow> expr" where "x_table_fill = x_prefixed 17 ''table.fill''"
definition x_elem_drop :: "u32 \<Rightarrow> expr \<Rightarrow> expr" where "x_elem_drop = x_prefixed 13 ''elem.drop''"

definition x_table_copy :: "u32 \<Rightarrow> u32 \<Rightarrow> expr \<Rightarrow> expr" where
  "x_table_copy dst src =
     xpush ([0xfc] @ uleb 14 @ uleb (ucast dst) @ uleb (ucast src))
       (''table.copy '' @ show_nat (unat dst) @ '' '' @ show_nat (unat src))"

definition x_table_init :: "u32 \<Rightarrow> u32 \<Rightarrow> expr \<Rightarrow> expr" where
  "x_table_init seg table =
     xpush ([0xfc] @ uleb 12 @ uleb (ucast seg) @ uleb (ucast table))
       (''table.init '' @ show_nat (unat seg) @ '' '' @ show_nat (unat table))"

definition x_ref_null :: "val_type \<Rightarrow> expr \<Rightarrow> expr" where
  "x_ref_null t = xpush [0xd0, vt_code t] (''ref.null '' @ vt_name t)"

definition x_ref_is_null :: "expr \<Rightarrow> expr" where "x_ref_is_null = xpush [0xd1] ''ref.is_null''"
definition x_ref_func :: "u32 \<Rightarrow> expr \<Rightarrow> expr" where "x_ref_func = x_index 0xd2 ''ref.func''"

section \<open>Function bodies\<close>

definition func_new :: "expr \<Rightarrow> wfunc" where
  "func_new e = \<lparr>fu_locals = [], fu_body = expr_into_body e, fu_text = expr_text e\<rparr>"

definition func_with_locals :: "(u32 \<times> val_type) list \<Rightarrow> expr \<Rightarrow> wfunc" where
  "func_with_locals ls e = \<lparr>fu_locals = ls, fu_body = expr_into_body e, fu_text = expr_text e\<rparr>"

definition func_raw :: "bytes \<Rightarrow> string \<Rightarrow> wfunc" where
  "func_raw body text = \<lparr>fu_locals = [], fu_body = body, fu_text = text\<rparr>"

definition func_raw_with_locals :: "(u32 \<times> val_type) list \<Rightarrow> bytes \<Rightarrow> string \<Rightarrow> wfunc" where
  "func_raw_with_locals ls body text = \<lparr>fu_locals = ls, fu_body = body, fu_text = text\<rparr>"

section \<open>Block types read back\<close>

text \<open>A block type read as a signed number: negative for the one-byte forms, the index otherwise.\<close>

fun bt_number :: "block_type \<Rightarrow> int" where
  "bt_number BT_Empty = - 64"
| "bt_number (BT_Value t) = int (unat (vt_code t)) - 128"
| "bt_number (BT_Type i) = int (unat i)"

lemma sint_ucast_u32: "sint (ucast (i :: u32) :: 64 word) = int (unat i)"
proof -
  have "- (2 ^ 63) \<le> uint i" "uint i < 2 ^ 63" using uint_lt2p [of i] order_trans [OF _ uint_ge_0 [of i], of "- (2 ^ 63)"] by simp_all
  then have "signed_take_bit 63 (uint i) = uint i" by (rule signed_take_bit_int_eq_self)
  then show ?thesis by (simp add: signed_ucast_eq)
qed

lemma bt_dec: "sleb_dec (bt_encode bt @ rest) = Some (bt_number bt, rest)"
proof (cases bt)
  case (BT_Value t)
  then show ?thesis by (cases t) simp_all
next
  case (BT_Type i)
  then show ?thesis by (simp add: sleb_int_of sleb_dec_int sint_ucast_u32)
qed simp

lemma vt_code_range: "64 < unat (vt_code t)" "unat (vt_code t) < 128"
  by (cases t; simp)+

lemma vt_code_inj: "vt_code a = vt_code b \<Longrightarrow> a = b"
  by (cases a; cases b; simp)

lemma bt_number_kind:
  "bt_number (BT_Value t) < 0" "bt_number (BT_Value t) \<noteq> - 64" "0 \<le> bt_number (BT_Type i)"
  using vt_code_range [of t] by (simp_all del: of_nat_unat)

lemma bt_number_inj:
  assumes eq: "bt_number a = bt_number b"
  shows "a = b"
proof (cases a)
  case BT_Empty
  with eq bt_number_kind show ?thesis by (cases b) (metis bt_number.simps(1), metis bt_number.simps(1), (metis bt_number.simps(1) neg_0_le_iff_le not_numeral_le_zero))
next
  case (BT_Value t)
  then show ?thesis
  proof (cases b)
    case (BT_Value u)
    with eq \<open>a = BT_Value t\<close> have "unat (vt_code t) = unat (vt_code u)" by (simp del: of_nat_unat)
    then show ?thesis using vt_code_inj BT_Value \<open>a = BT_Value t\<close> by (simp add: word_unat_eq_iff)
  qed (use eq BT_Value bt_number_kind in \<open>metis bt_number.simps(1) not_less\<close>)+
next
  case (BT_Type i)
  then show ?thesis
  proof (cases b)
    case (BT_Type j)
    with eq \<open>a = BT_Type i\<close> show ?thesis by (simp add: word_unat_eq_iff del: of_nat_unat)
  next
    case BT_Empty
    with eq BT_Type show ?thesis using bt_number_kind(3) [of i] by (simp del: of_nat_unat)
  next
    case (BT_Value t)
    with eq \<open>a = BT_Type i\<close> show ?thesis using bt_number_kind(1) [of t] bt_number_kind(3) [of i] by (simp del: of_nat_unat bt_number.simps)
  qed
qed

end
