(* ===== verification/Wasm_Theorems.thy ===== *)
theory Wasm_Theorems
  imports Wasm_Layout Wasm_Instr "HOL-Library.Code_Target_Numeral"
begin

text \<open>
  The properties of the WebAssembly module writer: its integers, the layout of a built module, the
  annotations over it, and the indices its builder hands out.
\<close>

section \<open>Integers\<close>

text \<open>unsigned LEB128. The encoding of a 64-bit number reads back as that number, is the shortest
  byte string that does, and is byte for byte the varint the Kafka writer produces; an encoding padded
  to \<open>k\<close> bytes has \<open>k\<close> bytes and reads back as the number when its low \<open>7k\<close> bits hold it.\<close>

theorem unsigned_leb:
  "uleb_dec (uleb v @ rest) = Some (unat v, rest) \<and>
   (uleb_dec bs = Some (unat v, []) \<longrightarrow> length (uleb v) \<le> length bs) \<and>
   uleb v = put_uvarlong v \<and>
   (0 < k \<longrightarrow> length (uleb_padded v k) = k \<and> uleb_dec (uleb_padded v k @ rest) = Some (unat v mod 128 ^ k, rest))"
  by (auto simp: uleb_is_put_uvarlong [symmetric] length_uleb_padded uleb_padded_dec uleb_shortest)
     (simp add: uleb_nat_of uleb_dec_nat)

lemma unsigned_leb_witness:
  "uleb_dec (uleb_padded 1 5 @ [9]) = Some (1, [9]) \<and> length (uleb 624485) \<le> 3"
proof
  show "uleb_dec (uleb_padded 1 5 @ [9]) = Some (1, [9])"
    using unsigned_leb [of 1 "[9]" "[]" 5] by simp
  have "uleb_dec [0xe5, 0x8e, 0x26] = Some (unat (624485 :: u64), [])" by code_simp
  moreover have "uleb_dec [0xe5, 0x8e, 0x26] = Some (unat (624485 :: u64), []) \<longrightarrow>
      length (uleb 624485) \<le> length [0xe5, 0x8e, 0x26 :: u8]"
    using unsigned_leb by blast
  ultimately show "length (uleb 624485) \<le> 3" by simp
qed

text \<open>signed LEB128. The encoding of a signed 64-bit number reads back as that number, sign
  included, and is the shortest byte string that does; padded to \<open>k\<close> bytes it still reads back as the
  number, as long as \<open>7k\<close> bits with their sign can hold it.\<close>

theorem signed_leb:
  "sleb_dec (sleb v @ rest) = Some (sint v, rest) \<and>
   (sleb_dec bs = Some (sint v, []) \<longrightarrow> length (sleb v) \<le> length bs) \<and>
   (0 < k \<and> - (64 * 128 ^ (k - 1)) \<le> sint v \<and> sint v < 64 * 128 ^ (k - 1) \<longrightarrow>
      sleb_dec (sleb_padded v k @ rest) = Some (sint v, rest))"
  by (auto simp: sleb_shortest sleb_padded_dec) (simp add: sleb_int_of sleb_dec_int)

lemma signed_leb_witness:
  "sleb_dec (sleb_padded (- 1) 3 @ [7]) = Some (- 1, [7]) \<and> length (sleb (- 123456)) \<le> 3"
proof
  show "sleb_dec (sleb_padded (- 1) 3 @ [7]) = Some (- 1, [7])"
    using signed_leb [of "- 1" "[7]" "[]" 3] by simp
  have "sleb_dec [0xc0, 0xbb, 0x78] = Some (sint (- 123456 :: 64 word), [])" by code_simp
  moreover have "sleb_dec [0xc0, 0xbb, 0x78] = Some (sint (- 123456 :: 64 word), []) \<longrightarrow>
      length (sleb (- 123456)) \<le> length [0xc0, 0xbb, 0x78 :: u8]"
    using signed_leb by blast
  ultimately show "length (sleb (- 123456)) \<le> 3" by simp
qed

section \<open>Instructions\<close>

text \<open>block types are unambiguous. Whatever follows it, the encoding of a block type determines
  the block type and where it ends: a signed type index is never read as one of the one-byte forms.\<close>

theorem block_types_unambiguous:
  assumes "bt_encode a @ r = bt_encode b @ s"
  shows "a = b \<and> r = s"
  using bt_dec [of a r] bt_dec [of b s] assms bt_number_inj [of a b] by simp

lemma block_types_unambiguous_witness: "bt_encode (BT_Type 64) \<noteq> bt_encode (BT_Value I32) @ [1]"
  using block_types_unambiguous [of "BT_Type 64" "[]" "BT_Value I32" "[1]"] by force

section \<open>The layout\<close>

text \<open>C12: a built module is its layout. The bytes of a module are the eight header bytes and then its
  sections; a reader that knows only the framing of the format (id, size, body) recovers exactly the
  abstract layout. In it the sections other than the custom ones are those of the non-empty parts of
  the builder, in the order the format fixes (the data count before the code), and every custom
  section stands right after the slot it names, in the order of addition.\<close>

theorem module_has_its_layout:
  assumes "code_fits b" and "length (wm_bytes (build b)) < 2 ^ 64"
  shows "take 8 (wm_bytes (build b)) = header_bytes \<and>
    read_sections (drop 8 (wm_bytes (build b))) = Some (module_layout b) \<and>
    filter (\<lambda>s. fst s \<noteq> SEC_CUSTOM) (module_layout b) = known_sections b \<and>
    subseq (map fst (known_sections b)) slots"
proof -
  have b: "wm_bytes (build b) = header_bytes @ layout_bytes (module_layout b)" by (rule build_bytes [OF assms(1)])
  have l: "length header_bytes = 8" by (simp add: header_bytes_def)
  have "\<forall>s \<in> set (module_layout b). length (snd s) < 2 ^ 64"
    using layout_body_length [of _ "module_layout b"] assms(2) b l by fastforce
  then show ?thesis using b l by (simp add: read_layout module_layout_known known_order)
qed

text \<open>A module with one of each of its parts.\<close>

definition demo_module :: module_builder where
  "demo_module =
     (mb_custom ''x'' [1, 2] (Some SEC_TYPE) \<circ> mb_data_active 0 (as_bytes ''hi'') \<circ> mb_export_func ''f'' 0 \<circ>
      mb_function 0 \<lparr>fu_locals = [(2, I32)], fu_body = [0x41, 7, 0x0b], fu_text = ''i32.const 7, end''\<rparr> \<circ>
      mb_memory (limits_range 1 2) \<circ> mb_func_type (ftype [I32] [I32])) (mb_new ''demo'')"

lemma demo_module_small: "code_fits demo_module" "length (wm_bytes (build demo_module)) = 59"
  by code_simp+

lemma module_has_its_layout_witness:
  "read_sections (drop 8 (wm_bytes (build demo_module))) = Some (module_layout demo_module) \<and>
   map fst (module_layout demo_module) = [SEC_TYPE, SEC_CUSTOM, SEC_FUNCTION, SEC_MEMORY, SEC_EXPORT, SEC_CODE, SEC_DATA]"
proof
  show "read_sections (drop 8 (wm_bytes (build demo_module))) = Some (module_layout demo_module)"
    using module_has_its_layout [of demo_module] demo_module_small by simp
  show "map fst (module_layout demo_module) =
      [SEC_TYPE, SEC_CUSTOM, SEC_FUNCTION, SEC_MEMORY, SEC_EXPORT, SEC_CODE, SEC_DATA]"
    by code_simp
qed

section \<open>The annotations\<close>

text \<open>annotations are in order and inside the module. In every built module the annotations come in
  ascending order of their offsets and none reaches past the last byte.\<close>

theorem annotations_in_order:
  assumes "code_fits b"
  shows "sorted (map an_offset (wm_anns (build b))) \<and>
    (\<forall>a \<in> set (wm_anns (build b)). an_offset a + an_length a \<le> length (wm_bytes (build b)))"
  using assms by (rule build_anns)

lemma annotations_in_order_witness:
  "sorted (map an_offset (wm_anns (build demo_module))) \<and> length (wm_anns (build demo_module)) = 24"
proof
  show "sorted (map an_offset (wm_anns (build demo_module)))"
    using annotations_in_order [OF demo_module_small(1)] by blast
  show "length (wm_anns (build demo_module)) = 24" by code_simp
qed



text \<open>the annotation of a long custom section is off. A custom section whose body takes 128 bytes
  or more needs a size of at least two bytes, but its annotation starts two bytes after the id: its
  region holds the last bytes of the size and misses as many bytes at the end of the body.\<close>

theorem custom_annotation_shifted:
  assumes "128 \<le> length (custom_body c)" and "length (custom_body c) < 2 ^ 64"
  shows "\<exists>a. we_anns (emit_custom c e) = we_anns (wenc_section SEC_CUSTOM (custom_body c) e) @ [a] \<and>
    an_length a = length (custom_body c) \<and>
    (\<exists>k. 0 < k \<and> k < length (custom_body c) \<and>
       slice (an_offset a) (an_offset a + an_length a) (we_buf (emit_custom c e)) =
         drop 1 (uleb (word_of_nat (length (custom_body c)))) @ take (length (custom_body c) - k) (custom_body c))"
proof -
  let ?n = "length (custom_body c)" and ?u = "uleb (word_of_nat (length (custom_body c)))"
  obtain k where k: "length ?u = Suc k" by (cases ?u) auto
  have l: "length (uleb_nat ?n) = Suc k" using k length_uleb [OF assms(2)] by simp
  then have b: "?n < 128 ^ Suc k" "k = 0 \<or> 128 ^ k \<le> ?n" by (simp_all only: length_uleb_nat_iff)
  have "k \<noteq> 0" using assms(1) b(1) by (cases k) auto
  then have "k < ?n" using b(2) Suc_le_pow128 [of k] by simp
  moreover have "we_buf (emit_custom c e) = we_buf e @ [SEC_CUSTOM] @ ?u @ custom_body c"
    by (simp add: emit_custom_def Let_def wenc_annotate_def wenc_section_eq section_bytes_def)
  ultimately show ?thesis using k \<open>k \<noteq> 0\<close>
    by (auto simp: emit_custom_def Let_def wenc_annotate_def wenc_at_def slice_def intro!: exI [of _ k])
qed

lemma custom_annotation_shifted_witness:
  "\<exists>a. last (we_anns (emit_custom \<lparr>cs_name = [], cs_payload = replicate 130 7, cs_after = None\<rparr> wenc_new)) = a \<and>
     hd (slice (an_offset a) (an_offset a + an_length a)
           (we_buf (emit_custom \<lparr>cs_name = [], cs_payload = replicate 130 7, cs_after = None\<rparr> wenc_new))) = 1"
proof -
  let ?c = "\<lparr>cs_name = [], cs_payload = replicate 130 7, cs_after = None\<rparr>"
  have l: "length (custom_body ?c) = 131" by code_simp
  have d: "drop 1 (uleb (word_of_nat 131)) = [1]" by code_simp
  have "128 \<le> length (custom_body ?c)" "length (custom_body ?c) < 2 ^ 64" unfolding l by simp_all
  from custom_annotation_shifted [OF this, of wenc_new] show ?thesis unfolding l d by auto
qed

section \<open>Indices\<close>

lemma position_Some: "position p xs = Some i \<Longrightarrow> i < length xs \<and> p (xs ! i)"
  by (induction xs arbitrary: i) (auto split: if_splits)

lemma add_type_spec:
  assumes "add_type t b = (ty, b')" and "length (mb_types b) < 2 ^ 32 - 1"
  shows "unat ty < length (mb_types b') \<and> mb_types b' ! unat ty = t \<and> mb_funcs b' = mb_funcs b \<and>
    mb_code b' = mb_code b \<and> mb_imports b' = mb_imports b \<and> (\<exists>ts. mb_types b' = mb_types b @ ts)"
proof (cases "position (\<lambda>x. x = t) (mb_types b)")
  case None
  have "unat (word_of_nat (Suc (length (mb_types b))) - 1 :: u32) = length (mb_types b)"
    using assms(2) by (simp add: unat_of_nat)
  then show ?thesis using assms(1) None by (auto simp: add_type_def Let_def)
next
  case (Some i)
  then have "unat (word_of_nat i :: u32) = i" using assms(2) position_Some [OF Some] by (simp add: unat_of_nat)
  then show ?thesis using assms(1) Some position_Some [OF Some] by (auto simp: add_type_def)
qed

text \<open>the index of a typed function leads to it. Adding a function with a signature returns an index
  that, counted from the first defined function, finds in the function section a type index whose type
  is that signature (an equal type being shared, never duplicated) and in the code section the given
  body; functions and types added before keep their indices.\<close>

theorem typed_func_index:
  assumes "add_typed_func sig body b = (i, b')" and "length (mb_code b) = length (mb_funcs b)"
    and "length (mb_types b) < 2 ^ 32 - 1" and "length (mb_imports b) + length (mb_funcs b) < 2 ^ 32 - 1"
  shows "\<exists>k ty. unat i = unat (imported_funcs b') + k \<and> k < length (mb_funcs b') \<and> mb_code b' ! k = body \<and>
    mb_funcs b' ! k = ty \<and> unat ty < length (mb_types b') \<and> mb_types b' ! unat ty = sig \<and>
    length (mb_code b') = length (mb_funcs b') \<and> (\<exists>ts. mb_types b' = mb_types b @ ts) \<and>
    mb_funcs b' = mb_funcs b @ [ty] \<and> mb_code b' = mb_code b @ [body]"
proof -
  obtain ty b1 where t: "add_type sig b = (ty, b1)" by fastforce
  note s = add_type_spec [OF t assms(3)]
  have b': "b' = b1\<lparr>mb_funcs := mb_funcs b @ [ty], mb_code := mb_code b @ [body]\<rparr>"
    and i: "i = imported_funcs b' + word_of_nat (Suc (length (mb_funcs b))) - 1"
    using assms(1) t s by (auto simp: add_typed_func_def add_func_def Let_def)
  let ?n = "length (filter (is_func_import \<circ> im_kind) (mb_imports b))"
  have "?n \<le> length (mb_imports b)" by (rule length_filter_le)
  then have n: "?n + length (mb_funcs b) < 2 ^ 32 - 1" using assms(4) by linarith
  have im: "imported_funcs b' = word_of_nat ?n" using b' s by (simp add: imported_funcs_def)
  have "i = word_of_nat (?n + length (mb_funcs b))" unfolding i im by simp
  then have "unat i = ?n + length (mb_funcs b)" using n by (simp only: unat_of_nat) simp
  moreover have "unat (imported_funcs b') = ?n" unfolding im using n by (simp only: unat_of_nat) simp
  ultimately show ?thesis using b' s assms(2) by (intro exI [of _ "length (mb_funcs b)"] exI [of _ ty]) (simp add: nth_append)
qed

lemma typed_func_index_witness:
  "\<exists>k. unat (fst (add_typed_func (ftype [I32] [I32]) \<lparr>fu_locals = [], fu_body = [0x0b], fu_text = []\<rparr>
         (mb_import ''m'' ''n'' (IK_Func 0) demo_module))) = 1 + k \<and> k = 1"
proof -
  let ?r = "add_typed_func (ftype [I32] [I32]) \<lparr>fu_locals = [], fu_body = [0x0b], fu_text = []\<rparr>
         (mb_import ''m'' ''n'' (IK_Func 0) demo_module)"
  let ?b = "mb_import ''m'' ''n'' (IK_Func 0) demo_module"
  have s: "length (mb_code ?b) = length (mb_funcs ?b)" "length (mb_types ?b) < 2 ^ 32 - 1"
    "length (mb_imports ?b) + length (mb_funcs ?b) < 2 ^ 32 - 1" "length (mb_funcs ?b) = 1"
    "unat (imported_funcs (snd ?r)) = 1"
    by code_simp+
  have r: "?r = (fst ?r, snd ?r)" by simp
  from typed_func_index [OF r s(1-3)] obtain k ty where
    k: "unat (fst ?r) = unat (imported_funcs (snd ?r)) + k" "k < length (mb_funcs (snd ?r))"
    "mb_funcs (snd ?r) = mb_funcs ?b @ [ty]"
    by blast
  have "unat (fst ?r) = 2" by code_simp
  then show ?thesis using k(1) s(5) by simp
qed

end
