(* ===== verification/Elf_Types.thy ===== *)
theory Elf_Types
  imports Text Utf8
begin

text \<open>
  The ELF constants and the small functions of \<^verbatim>\<open>linktest/src/elf/mod.rs\<close>: the packed \<open>st_info\<close> and
  \<open>r_info\<close> fields, the names the reports use, and the hex dump of the track.
\<close>

section \<open>Constants\<close>

definition ELF_MAGIC :: bytes where "ELF_MAGIC = [0x7f, 0x45, 0x4c, 0x46]"

definition EI_NIDENT :: nat where "EI_NIDENT = 16"
definition ELFCLASS32 :: u8 where "ELFCLASS32 = 1"
definition ELFCLASS64 :: u8 where "ELFCLASS64 = 2"
definition ELFDATA2LSB :: u8 where "ELFDATA2LSB = 1"
definition ELFDATA2MSB :: u8 where "ELFDATA2MSB = 2"
definition EV_CURRENT :: u8 where "EV_CURRENT = 1"
definition ELFOSABI_SYSV :: u8 where "ELFOSABI_SYSV = 0"
definition ET_NONE :: u16 where "ET_NONE = 0"
definition ET_REL :: u16 where "ET_REL = 1"
definition ET_EXEC :: u16 where "ET_EXEC = 2"
definition ET_DYN :: u16 where "ET_DYN = 3"
definition ET_CORE :: u16 where "ET_CORE = 4"
definition EM_X86_64 :: u16 where "EM_X86_64 = 62"
definition EM_386 :: u16 where "EM_386 = 3"
definition EM_AARCH64 :: u16 where "EM_AARCH64 = 183"
definition EHDR_SIZE :: u16 where "EHDR_SIZE = 64"
definition PHDR_SIZE :: u16 where "PHDR_SIZE = 56"
definition SHDR_SIZE :: u16 where "SHDR_SIZE = 64"
definition SYM_SIZE :: u64 where "SYM_SIZE = 24"
definition RELA_SIZE :: u64 where "RELA_SIZE = 24"
definition REL_SIZE :: u64 where "REL_SIZE = 16"
definition PAGE_SIZE :: u64 where "PAGE_SIZE = 0x1000"
definition SHT_NULL :: u32 where "SHT_NULL = 0"
definition SHT_PROGBITS :: u32 where "SHT_PROGBITS = 1"
definition SHT_SYMTAB :: u32 where "SHT_SYMTAB = 2"
definition SHT_STRTAB :: u32 where "SHT_STRTAB = 3"
definition SHT_RELA :: u32 where "SHT_RELA = 4"
definition SHT_HASH :: u32 where "SHT_HASH = 5"
definition SHT_DYNAMIC :: u32 where "SHT_DYNAMIC = 6"
definition SHT_NOTE :: u32 where "SHT_NOTE = 7"
definition SHT_NOBITS :: u32 where "SHT_NOBITS = 8"
definition SHT_REL :: u32 where "SHT_REL = 9"
definition SHT_INIT_ARRAY :: u32 where "SHT_INIT_ARRAY = 14"
definition SHT_FINI_ARRAY :: u32 where "SHT_FINI_ARRAY = 15"
definition SHT_PREINIT_ARRAY :: u32 where "SHT_PREINIT_ARRAY = 16"
definition SHT_UNKNOWN_OS :: u32 where "SHT_UNKNOWN_OS = 0x60000042"
definition SHF_ALLOC :: u64 where "SHF_ALLOC = 0x2"
definition SHF_WRITE :: u64 where "SHF_WRITE = 0x1"
definition SHF_EXECINSTR :: u64 where "SHF_EXECINSTR = 0x4"
definition SHF_MERGE :: u64 where "SHF_MERGE = 0x10"
definition SHF_STRINGS :: u64 where "SHF_STRINGS = 0x20"
definition SHF_INFO_LINK :: u64 where "SHF_INFO_LINK = 0x40"
definition SHF_GROUP :: u64 where "SHF_GROUP = 0x200"
definition SHF_TLS :: u64 where "SHF_TLS = 0x400"
definition SHN_UNDEF :: u16 where "SHN_UNDEF = 0"
definition SHN_ABS :: u16 where "SHN_ABS = 0xfff1"
definition SHN_COMMON :: u16 where "SHN_COMMON = 0xfff2"
definition SHN_XINDEX :: u16 where "SHN_XINDEX = 0xffff"
definition SHN_LORESERVE :: u16 where "SHN_LORESERVE = 0xff00"
definition PT_NULL :: u32 where "PT_NULL = 0"
definition PT_LOAD :: u32 where "PT_LOAD = 1"
definition PT_DYNAMIC :: u32 where "PT_DYNAMIC = 2"
definition PT_INTERP :: u32 where "PT_INTERP = 3"
definition PT_NOTE :: u32 where "PT_NOTE = 4"
definition PT_PHDR :: u32 where "PT_PHDR = 6"
definition PT_TLS :: u32 where "PT_TLS = 7"
definition PT_GNU_EH_FRAME :: u32 where "PT_GNU_EH_FRAME = 0x6474e550"
definition PT_GNU_STACK :: u32 where "PT_GNU_STACK = 0x6474e551"
definition PT_GNU_PROPERTY :: u32 where "PT_GNU_PROPERTY = 0x6474e553"
definition PF_X :: u32 where "PF_X = 0x1"
definition PF_W :: u32 where "PF_W = 0x2"
definition PF_R :: u32 where "PF_R = 0x4"
definition STB_LOCAL :: u8 where "STB_LOCAL = 0"
definition STB_GLOBAL :: u8 where "STB_GLOBAL = 1"
definition STB_WEAK :: u8 where "STB_WEAK = 2"
definition STT_NOTYPE :: u8 where "STT_NOTYPE = 0"
definition STT_OBJECT :: u8 where "STT_OBJECT = 1"
definition STT_FUNC :: u8 where "STT_FUNC = 2"
definition STT_SECTION :: u8 where "STT_SECTION = 3"
definition STT_FILE :: u8 where "STT_FILE = 4"
definition STT_COMMON :: u8 where "STT_COMMON = 5"
definition STV_DEFAULT :: u8 where "STV_DEFAULT = 0"
definition STV_INTERNAL :: u8 where "STV_INTERNAL = 1"
definition STV_HIDDEN :: u8 where "STV_HIDDEN = 2"
definition STV_PROTECTED :: u8 where "STV_PROTECTED = 3"
definition R_X86_64_NONE :: u32 where "R_X86_64_NONE = 0"
definition R_X86_64_64 :: u32 where "R_X86_64_64 = 1"
definition R_X86_64_PC32 :: u32 where "R_X86_64_PC32 = 2"
definition R_X86_64_GOT32 :: u32 where "R_X86_64_GOT32 = 3"
definition R_X86_64_PLT32 :: u32 where "R_X86_64_PLT32 = 4"
definition R_X86_64_GOTPCREL :: u32 where "R_X86_64_GOTPCREL = 9"
definition R_X86_64_32 :: u32 where "R_X86_64_32 = 10"
definition R_X86_64_32S :: u32 where "R_X86_64_32S = 11"
definition R_X86_64_16 :: u32 where "R_X86_64_16 = 12"
definition R_X86_64_PC16 :: u32 where "R_X86_64_PC16 = 13"
definition R_X86_64_8 :: u32 where "R_X86_64_8 = 14"
definition R_X86_64_PC8 :: u32 where "R_X86_64_PC8 = 15"
definition R_X86_64_PC64 :: u32 where "R_X86_64_PC64 = 24"
definition R_X86_64_TPOFF32 :: u32 where "R_X86_64_TPOFF32 = 23"
definition R_X86_64_GOTPCRELX :: u32 where "R_X86_64_GOTPCRELX = 41"
definition R_X86_64_REX_GOTPCRELX :: u32 where "R_X86_64_REX_GOTPCRELX = 42"

lemmas elf_ident_defs =
  ELF_MAGIC_def EI_NIDENT_def ELFCLASS32_def ELFCLASS64_def ELFDATA2LSB_def ELFDATA2MSB_def EV_CURRENT_def
  ELFOSABI_SYSV_def ET_NONE_def ET_REL_def ET_EXEC_def ET_DYN_def ET_CORE_def EM_X86_64_def EM_386_def
  EM_AARCH64_def

lemmas elf_size_defs =
  EHDR_SIZE_def PHDR_SIZE_def SHDR_SIZE_def SYM_SIZE_def RELA_SIZE_def REL_SIZE_def PAGE_SIZE_def

lemmas sht_defs =
  SHT_NULL_def SHT_PROGBITS_def SHT_SYMTAB_def SHT_STRTAB_def SHT_RELA_def SHT_HASH_def SHT_DYNAMIC_def
  SHT_NOTE_def SHT_NOBITS_def SHT_REL_def SHT_INIT_ARRAY_def SHT_FINI_ARRAY_def SHT_PREINIT_ARRAY_def
  SHT_UNKNOWN_OS_def

lemmas shf_defs =
  SHF_ALLOC_def SHF_WRITE_def SHF_EXECINSTR_def SHF_MERGE_def SHF_STRINGS_def SHF_INFO_LINK_def SHF_GROUP_def
  SHF_TLS_def

lemmas shn_defs =
  SHN_UNDEF_def SHN_ABS_def SHN_COMMON_def SHN_XINDEX_def SHN_LORESERVE_def

lemmas sym_defs =
  STB_LOCAL_def STB_GLOBAL_def STB_WEAK_def STT_NOTYPE_def STT_OBJECT_def STT_FUNC_def STT_SECTION_def
  STT_FILE_def STT_COMMON_def STV_DEFAULT_def STV_INTERNAL_def STV_HIDDEN_def STV_PROTECTED_def

section \<open>Packed fields\<close>

definition flags_string :: "u32 \<Rightarrow> string" where
  "flags_string flags =
     [if flags AND PF_R \<noteq> 0 then CHR ''R'' else CHR '' '', if flags AND PF_W \<noteq> 0 then CHR ''W'' else CHR '' '',
      if flags AND PF_X \<noteq> 0 then CHR ''X'' else CHR '' '']"

definition st_info :: "u8 \<Rightarrow> u8 \<Rightarrow> u8" where
  "st_info bnd stype = push_bit 4 bnd OR (stype AND 0xf)"

definition info_bind :: "u8 \<Rightarrow> u8" where "info_bind info = drop_bit 4 info"
definition info_type :: "u8 \<Rightarrow> u8" where "info_type info = info AND 0xf"

definition r_info :: "u32 \<Rightarrow> u32 \<Rightarrow> u64" where
  "r_info i kind = push_bit 32 (ucast i) OR ucast kind"

definition r_sym :: "u64 \<Rightarrow> u32" where "r_sym info = ucast (drop_bit 32 info)"
definition r_type :: "u64 \<Rightarrow> u32" where "r_type info = ucast (info AND 0xffffffff)"

section \<open>Names\<close>

definition reloc_name :: "u32 \<Rightarrow> string" where
  "reloc_name kind =
     (if kind = R_X86_64_NONE then ''R_X86_64_NONE''
      else if kind = R_X86_64_64 then ''R_X86_64_64''
      else if kind = R_X86_64_PC32 then ''R_X86_64_PC32''
      else if kind = R_X86_64_GOT32 then ''R_X86_64_GOT32''
      else if kind = R_X86_64_PLT32 then ''R_X86_64_PLT32''
      else if kind = R_X86_64_GOTPCREL then ''R_X86_64_GOTPCREL''
      else if kind = R_X86_64_32 then ''R_X86_64_32''
      else if kind = R_X86_64_32S then ''R_X86_64_32S''
      else if kind = R_X86_64_16 then ''R_X86_64_16''
      else if kind = R_X86_64_PC16 then ''R_X86_64_PC16''
      else if kind = R_X86_64_8 then ''R_X86_64_8''
      else if kind = R_X86_64_PC8 then ''R_X86_64_PC8''
      else if kind = R_X86_64_PC64 then ''R_X86_64_PC64''
      else if kind = R_X86_64_GOTPCRELX then ''R_X86_64_GOTPCRELX''
      else if kind = R_X86_64_REX_GOTPCRELX then ''R_X86_64_REX_GOTPCRELX''
       else ''R_X86_64_<'' @ show_nat (unat kind) @ ''>'')"

definition section_type_name :: "u32 \<Rightarrow> string" where
  "section_type_name t =
     (if t = SHT_NULL then ''NULL''
      else if t = SHT_PROGBITS then ''PROGBITS''
      else if t = SHT_SYMTAB then ''SYMTAB''
      else if t = SHT_STRTAB then ''STRTAB''
      else if t = SHT_RELA then ''RELA''
      else if t = SHT_HASH then ''HASH''
      else if t = SHT_DYNAMIC then ''DYNAMIC''
      else if t = SHT_NOTE then ''NOTE''
      else if t = SHT_NOBITS then ''NOBITS''
      else if t = SHT_INIT_ARRAY then ''INIT_ARRAY''
      else if t = SHT_FINI_ARRAY then ''FINI_ARRAY''
      else if t = SHT_PREINIT_ARRAY then ''PREINIT_ARRAY''
      else if t = SHT_REL then ''REL''
       else ''0x'' @ hex_nat (unat t))"

definition segment_type_name :: "u32 \<Rightarrow> string" where
  "segment_type_name t =
     (if t = PT_NULL then ''NULL''
      else if t = PT_LOAD then ''LOAD''
      else if t = PT_DYNAMIC then ''DYNAMIC''
      else if t = PT_INTERP then ''INTERP''
      else if t = PT_NOTE then ''NOTE''
      else if t = PT_PHDR then ''PHDR''
      else if t = PT_TLS then ''TLS''
      else if t = PT_GNU_EH_FRAME then ''GNU_EH_FRAME''
      else if t = PT_GNU_STACK then ''GNU_STACK''
      else if t = PT_GNU_PROPERTY then ''GNU_PROPERTY''
       else ''0x'' @ hex_nat (unat t))"

text \<open>A name in quotes, as the error messages show it.\<close>

definition quoted :: "string \<Rightarrow> string" where "quoted s = [CHR 0x27] @ s @ [CHR 0x27]"

section \<open>The hex dump\<close>

definition elf_dump_hex :: "bytes \<Rightarrow> string" where
  "elf_dump_hex chunk =
     concat (map (\<lambda>(i, b). hex2 b @ '' '' @ (if i = 7 then '' '' else [])) (zip [0..<length chunk] chunk))"

definition elf_dump_caret :: "(nat \<times> nat) list \<Rightarrow> nat \<Rightarrow> bytes \<Rightarrow> string" where
  "elf_dump_caret marks base chunk =
     concat (map (\<lambda>i. (if marked marks (base + i) then ''^^ '' else ''   '') @ (if i = 7 then '' '' else []))
       [0..<length chunk])"

definition elf_dump_row :: "(nat \<times> nat) list \<Rightarrow> nat \<Rightarrow> bytes \<Rightarrow> string" where
  "elf_dump_row marks row chunk =
     (let base = row * 16 in
      hex_pad 4 base @ ''  '' @ pad_right 50 (elf_dump_hex chunk) @ ''|'' @ map printable chunk @ ''|'' @ newline @
      (if list_ex (marked marks) [base..<base + length chunk]
       then ''      '' @ elf_dump_caret marks base chunk @ newline else []))"

definition elf_hexdump :: "bytes \<Rightarrow> (nat \<times> nat) list \<Rightarrow> nat \<Rightarrow> string" where
  "elf_hexdump bs marks limit =
     (let shown = min (length bs) limit; rows = chunks 16 (take shown bs) in
      trim_end
        (concat (map (\<lambda>(row, chunk). elf_dump_row marks row chunk) (zip [0..<length rows] rows)) @
         (if length bs > shown
          then ''      ... '' @ show_nat (length bs - shown) @ '' more bytes'' @ newline else [])))"

section \<open>The packed fields unpack\<close>

lemma low_mask: "x AND 0xf = take_bit 4 x" "y AND 0xffffffff = take_bit 32 y" for x :: u8 and y :: u64
  by (simp_all add: take_bit_eq_mask mask_eq_exp_minus_1)

lemma small_take_bit: "x < 16 \<Longrightarrow> take_bit 4 x = x" for x :: u8
  by (simp add: word_less_nat_alt unsigned_take_bit_eq word_unat_eq_iff take_bit_nat_eq_self)

lemma info_pack:
  assumes "bnd < 16" "stype < 16"
  shows "info_bind (st_info bnd stype) = bnd" "info_type (st_info bnd stype) = stype"
proof -
  have b: "take_bit 4 bnd = bnd" and t: "take_bit 4 stype = stype" by (simp_all add: assms small_take_bit)
  have bit: "bit bnd n \<Longrightarrow> n < 4" "bit stype n \<Longrightarrow> n < 4" for n
    using b t by (metis bit_take_bit_iff)+
  show "info_bind (st_info bnd stype) = bnd"
    by (rule bit_word_eqI) (use bit in \<open>auto simp: info_bind_def st_info_def low_mask bit_simps\<close>)
  show "info_type (st_info bnd stype) = stype"
    by (rule bit_word_eqI) (use bit in \<open>auto simp: info_type_def st_info_def low_mask bit_simps\<close>)
qed

lemma r_info_unpack [simp]: "r_sym (r_info i k) = i" "r_type (r_info i k) = k"
  by (rule bit_word_eqI, auto simp: r_sym_def r_type_def r_info_def low_mask bit_simps dest: bit_imp_le_length)+

end
