(* ===== verification/Elf_Write.thy ===== *)
theory Elf_Write
  imports Elf_Types
begin

text \<open>
  The relocatable-object writer of \<^verbatim>\<open>linktest/src/elf/write.rs\<close>: the specifications of sections,
  symbols and relocations, the builder, \<open>plan\<close>, which decides every index and table, and \<open>emit\<close>,
  which lays them out. Section and symbol names are strings; a usize is a \<open>nat\<close>.
\<close>

section \<open>What is written\<close>

datatype sym_section = SS_Undefined | SS_Absolute | SS_Common | SS_Section string | SS_Raw u16
datatype rel_target = RT_Symbol string | RT_Section string | RT_Raw u32

record reloc =
  re_offset :: u64
  re_target :: rel_target
  re_kind :: u32
  re_addend :: "64 word"

definition reloc_sym :: "u64 \<Rightarrow> string \<Rightarrow> u32 \<Rightarrow> 64 word \<Rightarrow> reloc" where
  "reloc_sym off name kind addend =
     \<lparr>re_offset = off, re_target = RT_Symbol name, re_kind = kind, re_addend = addend\<rparr>"

definition reloc_section :: "u64 \<Rightarrow> string \<Rightarrow> u32 \<Rightarrow> 64 word \<Rightarrow> reloc" where
  "reloc_section off name kind addend =
     \<lparr>re_offset = off, re_target = RT_Section name, re_kind = kind, re_addend = addend\<rparr>"

record section_spec =
  sp_name :: string
  sp_type :: u32
  sp_flags :: u64
  sp_align :: u64
  sp_data :: bytes
  sp_nobits_size :: u64
  sp_entsize :: u64
  sp_addr :: u64
  sp_relocs :: "reloc list"
  sp_offset_override :: "u64 option"
  sp_size_override :: "u64 option"
  sp_link_override :: "u32 option"
  sp_info_override :: "u32 option"

definition spec_new :: "string \<Rightarrow> u32 \<Rightarrow> u64 \<Rightarrow> bytes \<Rightarrow> section_spec" where
  "spec_new name t flags bs =
     \<lparr>sp_name = name, sp_type = t, sp_flags = flags, sp_align = 1, sp_data = bs, sp_nobits_size = 0,
      sp_entsize = 0, sp_addr = 0, sp_relocs = [], sp_offset_override = None, sp_size_override = None,
      sp_link_override = None, sp_info_override = None\<rparr>"

definition spec_with_align :: "u64 \<Rightarrow> section_spec \<Rightarrow> section_spec" where
  "spec_with_align a s = s\<lparr>sp_align := a\<rparr>"

definition spec_text :: "string \<Rightarrow> bytes \<Rightarrow> section_spec" where
  "spec_text name bs = spec_with_align 16 (spec_new name SHT_PROGBITS (SHF_ALLOC OR SHF_EXECINSTR) bs)"

definition spec_rodata :: "string \<Rightarrow> bytes \<Rightarrow> section_spec" where
  "spec_rodata name bs = spec_new name SHT_PROGBITS SHF_ALLOC bs"

definition spec_data :: "string \<Rightarrow> bytes \<Rightarrow> section_spec" where
  "spec_data name bs = spec_new name SHT_PROGBITS (SHF_ALLOC OR SHF_WRITE) bs"

definition spec_bss :: "string \<Rightarrow> u64 \<Rightarrow> section_spec" where
  "spec_bss name sz = (spec_new name SHT_NOBITS (SHF_ALLOC OR SHF_WRITE) [])\<lparr>sp_nobits_size := sz\<rparr>"

definition spec_with_entsize :: "u64 \<Rightarrow> section_spec \<Rightarrow> section_spec" where
  "spec_with_entsize v s = s\<lparr>sp_entsize := v\<rparr>"

definition spec_reloc :: "reloc \<Rightarrow> section_spec \<Rightarrow> section_spec" where
  "spec_reloc r s = s\<lparr>sp_relocs := sp_relocs s @ [r]\<rparr>"

definition spec_relocs :: "reloc list \<Rightarrow> section_spec \<Rightarrow> section_spec" where
  "spec_relocs rs s = s\<lparr>sp_relocs := sp_relocs s @ rs\<rparr>"

definition spec_offset_override :: "u64 \<Rightarrow> section_spec \<Rightarrow> section_spec" where
  "spec_offset_override v s = s\<lparr>sp_offset_override := Some v\<rparr>"

definition spec_size_override :: "u64 \<Rightarrow> section_spec \<Rightarrow> section_spec" where
  "spec_size_override v s = s\<lparr>sp_size_override := Some v\<rparr>"

definition spec_link_override :: "u32 \<Rightarrow> section_spec \<Rightarrow> section_spec" where
  "spec_link_override v s = s\<lparr>sp_link_override := Some v\<rparr>"

definition spec_size :: "section_spec \<Rightarrow> u64" where
  "spec_size s =
     (case sp_size_override s of
        Some v \<Rightarrow> v
      | None \<Rightarrow> if sp_type s = SHT_NOBITS then sp_nobits_size s else word_of_nat (length (sp_data s)))"

record symbol_spec =
  sy_name :: string
  sy_bind :: u8
  sy_type :: u8
  sy_visibility :: u8
  sy_section :: sym_section
  sy_value :: u64
  sy_size :: u64

definition sym_global :: "string \<Rightarrow> string \<Rightarrow> u64 \<Rightarrow> symbol_spec" where
  "sym_global name sect v =
     \<lparr>sy_name = name, sy_bind = STB_GLOBAL, sy_type = STT_NOTYPE, sy_visibility = STV_DEFAULT,
      sy_section = SS_Section sect, sy_value = v, sy_size = 0\<rparr>"

definition sym_local :: "string \<Rightarrow> string \<Rightarrow> u64 \<Rightarrow> symbol_spec" where
  "sym_local name sect v = (sym_global name sect v)\<lparr>sy_bind := STB_LOCAL\<rparr>"

definition sym_weak :: "string \<Rightarrow> string \<Rightarrow> u64 \<Rightarrow> symbol_spec" where
  "sym_weak name sect v = (sym_global name sect v)\<lparr>sy_bind := STB_WEAK\<rparr>"

definition sym_undefined :: "string \<Rightarrow> symbol_spec" where
  "sym_undefined name =
     \<lparr>sy_name = name, sy_bind = STB_GLOBAL, sy_type = STT_NOTYPE, sy_visibility = STV_DEFAULT,
      sy_section = SS_Undefined, sy_value = 0, sy_size = 0\<rparr>"

definition sym_weak_undefined :: "string \<Rightarrow> symbol_spec" where
  "sym_weak_undefined name = (sym_undefined name)\<lparr>sy_bind := STB_WEAK\<rparr>"

definition sym_absolute :: "string \<Rightarrow> u64 \<Rightarrow> symbol_spec" where
  "sym_absolute name v =
     \<lparr>sy_name = name, sy_bind = STB_GLOBAL, sy_type = STT_NOTYPE, sy_visibility = STV_DEFAULT,
      sy_section = SS_Absolute, sy_value = v, sy_size = 0\<rparr>"

definition sym_common :: "string \<Rightarrow> u64 \<Rightarrow> u64 \<Rightarrow> symbol_spec" where
  "sym_common name sz align =
     \<lparr>sy_name = name, sy_bind = STB_GLOBAL, sy_type = STT_OBJECT, sy_visibility = STV_DEFAULT,
      sy_section = SS_Common, sy_value = align, sy_size = sz\<rparr>"

definition sym_func :: "symbol_spec \<Rightarrow> symbol_spec" where
  "sym_func s = s\<lparr>sy_type := STT_FUNC\<rparr>"

definition sym_object :: "u64 \<Rightarrow> symbol_spec \<Rightarrow> symbol_spec" where
  "sym_object sz s = s\<lparr>sy_type := STT_OBJECT, sy_size := sz\<rparr>"

definition sym_with_size :: "u64 \<Rightarrow> symbol_spec \<Rightarrow> symbol_spec" where
  "sym_with_size sz s = s\<lparr>sy_size := sz\<rparr>"

definition sym_with_visibility :: "u8 \<Rightarrow> symbol_spec \<Rightarrow> symbol_spec" where
  "sym_with_visibility v s = s\<lparr>sy_visibility := v\<rparr>"

definition sym_weaken :: "symbol_spec \<Rightarrow> symbol_spec" where
  "sym_weaken s = s\<lparr>sy_bind := STB_WEAK\<rparr>"

record header_overrides =
  ho_magic :: "bytes option"
  ho_class :: "u8 option"
  ho_endianness :: "u8 option"
  ho_ident_version :: "u8 option"
  ho_osabi :: "u8 option"
  ho_e_type :: "u16 option"
  ho_e_machine :: "u16 option"
  ho_e_version :: "u32 option"
  ho_e_ehsize :: "u16 option"
  ho_e_shoff :: "u64 option"
  ho_e_shnum :: "u16 option"
  ho_e_shentsize :: "u16 option"
  ho_e_shstrndx :: "u16 option"
  ho_e_entry :: "u64 option"

definition no_overrides :: header_overrides where
  "no_overrides =
     \<lparr>ho_magic = None, ho_class = None, ho_endianness = None, ho_ident_version = None, ho_osabi = None,
      ho_e_type = None, ho_e_machine = None, ho_e_version = None, ho_e_ehsize = None, ho_e_shoff = None,
      ho_e_shnum = None, ho_e_shentsize = None, ho_e_shstrndx = None, ho_e_entry = None\<rparr>"

record object_builder =
  ob_sections :: "section_spec list"
  ob_symbols :: "symbol_spec list"
  ob_header :: header_overrides
  ob_truncate_to :: "nat option"
  ob_rela_before_target :: bool
  ob_symtab_first :: bool
  ob_omit_section_symbols :: bool

definition object_new :: object_builder where
  "object_new =
     \<lparr>ob_sections = [], ob_symbols = [], ob_header = no_overrides, ob_truncate_to = None,
      ob_rela_before_target = False, ob_symtab_first = False, ob_omit_section_symbols = False\<rparr>"

definition object_section :: "section_spec \<Rightarrow> object_builder \<Rightarrow> object_builder" where
  "object_section s b = b\<lparr>ob_sections := ob_sections b @ [s]\<rparr>"

definition object_symbol :: "symbol_spec \<Rightarrow> object_builder \<Rightarrow> object_builder" where
  "object_symbol s b = b\<lparr>ob_symbols := ob_symbols b @ [s]\<rparr>"

definition object_symbols :: "symbol_spec list \<Rightarrow> object_builder \<Rightarrow> object_builder" where
  "object_symbols ss b = b\<lparr>ob_symbols := ob_symbols b @ ss\<rparr>"

definition object_header :: "header_overrides \<Rightarrow> object_builder \<Rightarrow> object_builder" where
  "object_header h b = b\<lparr>ob_header := h\<rparr>"

definition object_truncate_to :: "nat \<Rightarrow> object_builder \<Rightarrow> object_builder" where
  "object_truncate_to n b = b\<lparr>ob_truncate_to := Some n\<rparr>"

definition object_rela_before_target :: "object_builder \<Rightarrow> object_builder" where
  "object_rela_before_target b = b\<lparr>ob_rela_before_target := True\<rparr>"

definition object_symtab_first :: "object_builder \<Rightarrow> object_builder" where
  "object_symtab_first b = b\<lparr>ob_symtab_first := True\<rparr>"

definition object_without_section_symbols :: "object_builder \<Rightarrow> object_builder" where
  "object_without_section_symbols b = b\<lparr>ob_omit_section_symbols := True\<rparr>"

section \<open>The tables\<close>

text \<open>A string table is its bytes; adding a string returns the offset it landed at.\<close>

definition strtab_new :: bytes where "strtab_new = [0]"

definition strtab_add :: "string \<Rightarrow> bytes \<Rightarrow> u32 \<times> bytes" where
  "strtab_add s t = (if s = [] then (0, t) else (word_of_nat (length t), t @ as_bytes s @ [0]))"

definition sym_bytes :: "u32 \<Rightarrow> u8 \<Rightarrow> u8 \<Rightarrow> u16 \<Rightarrow> u64 \<Rightarrow> u64 \<Rightarrow> bytes" where
  "sym_bytes name info other shndx v sz = u32_le name @ [info, other] @ u16_le shndx @ u64_le v @ u64_le sz"

record shdr =
  sh_name :: string
  sh_typ :: u32
  sh_flags :: u64
  sh_addr :: u64
  sh_size :: u64
  sh_link :: u32
  sh_info :: u32
  sh_align :: u64
  sh_entsize :: u64
  sh_data :: bytes
  sh_offset_override :: "u64 option"
  sh_occupies :: bool

record elf_layout =
  l_builder :: object_builder
  l_shdrs :: "shdr list"
  l_index_of :: "(string \<times> u32) list"
  l_name_offsets :: "u32 list"
  l_shstrtab_index :: u16

text \<open>The first pair with this name, as the association vectors are searched.\<close>

definition lookup_name :: "string \<Rightarrow> (string \<times> u32) list \<Rightarrow> u32 option" where
  "lookup_name name ps = map_option snd (find_first (\<lambda>p. fst p = name) ps)"

definition section_index :: "(string \<times> u32) list \<Rightarrow> string \<Rightarrow> string + u32" where
  "section_index ps name =
     ok_or (''the object has no section named '' @ quoted name) (lookup_name name ps)"

text \<open>The indices of the user's sections.\<close>

fun index_sections :: "bool \<Rightarrow> u32 \<Rightarrow> section_spec list \<Rightarrow> (string \<times> u32) list" where
  "index_sections early next [] = []"
| "index_sections early next (s # ss) =
     (let own = (if early \<and> sp_relocs s \<noteq> [] then next + 1 else next)
      in (sp_name s, own) # index_sections early (own + 1) ss)"

subsection \<open>Symbols\<close>

record sym_tables =
  t_syms :: "(string \<times> bytes) list"
  t_index :: "(string \<times> u32) list"
  t_section_index :: "(string \<times> u32) list"
  t_strtab :: bytes

type_synonym 'a sym_op = "(sym_tables, string, 'a) st"

definition tables_new :: sym_tables where
  "tables_new = \<lparr>t_syms = [([], replicate 24 0)], t_index = [], t_section_index = [], t_strtab = strtab_new\<rparr>"

definition push_section_sym :: "(string \<times> u32) list \<Rightarrow> section_spec \<Rightarrow> unit sym_op" where
  "push_section_sym ps s =
     st_bind (st_get (\<lambda>t. word_of_nat (length (t_syms t)))) (\<lambda>idx.
     st_bind (st_lift (section_index ps (sp_name s))) (\<lambda>shndx.
     st_modify (\<lambda>t. t\<lparr>
       t_syms := t_syms t @ [(sp_name s, sym_bytes 0 (st_info STB_LOCAL STT_SECTION) STV_DEFAULT (ucast shndx) 0 0)],
       t_section_index := t_section_index t @ [(sp_name s, idx)]\<rparr>)))"

definition sym_shndx :: "(string \<times> u32) list \<Rightarrow> sym_section \<Rightarrow> string + u16" where
  "sym_shndx ps sect =
     (case sect of
        SS_Undefined \<Rightarrow> Inr SHN_UNDEF
      | SS_Absolute \<Rightarrow> Inr SHN_ABS
      | SS_Common \<Rightarrow> Inr SHN_COMMON
      | SS_Raw v \<Rightarrow> Inr v
      | SS_Section name \<Rightarrow> sum_bind (section_index ps name) (\<lambda>i. Inr (ucast i)))"

definition push_sym :: "(string \<times> u32) list \<Rightarrow> symbol_spec \<Rightarrow> unit sym_op" where
  "push_sym ps spec =
     st_bind (st_lift (sym_shndx ps (sy_section spec))) (\<lambda>shndx.
     st_modify (\<lambda>t.
       let (name_off, strtab) = strtab_add (sy_name spec) (t_strtab t);
           idx = word_of_nat (length (t_syms t))
       in t\<lparr>t_strtab := strtab,
            t_syms := t_syms t @ [(sy_name spec, sym_bytes name_off (st_info (sy_bind spec) (sy_type spec))
              (sy_visibility spec) shndx (sy_value spec) (sy_size spec))],
            t_index := (if sy_name spec \<noteq> [] then t_index t @ [(sy_name spec, idx)] else t_index t)\<rparr>))"

text \<open>The symbol table: locals first, and the index of the first that is not.\<close>

definition plan_symbols :: "object_builder \<Rightarrow> (string \<times> u32) list \<Rightarrow> u32 sym_op" where
  "plan_symbols b ps =
     st_bind (if ob_omit_section_symbols b then st_return []
              else st_each (push_section_sym ps) (ob_sections b)) (\<lambda>_.
     st_bind (st_each (push_sym ps) (filter (\<lambda>s. sy_bind s = STB_LOCAL) (ob_symbols b))) (\<lambda>_.
     st_bind (st_get (\<lambda>t. word_of_nat (length (t_syms t)))) (\<lambda>first_global.
     st_bind (st_each (push_sym ps) (filter (\<lambda>s. sy_bind s \<noteq> STB_LOCAL) (ob_symbols b))) (\<lambda>_.
     st_return first_global))))"

definition symtab_bytes :: "sym_tables \<Rightarrow> bytes" where
  "symtab_bytes t = concat (map snd (t_syms t))"

subsection \<open>Relocations\<close>

definition reloc_symbol :: "sym_tables \<Rightarrow> string \<Rightarrow> rel_target \<Rightarrow> string + u32" where
  "reloc_symbol t sect target =
     (case target of
        RT_Raw i \<Rightarrow> Inr i
      | RT_Symbol name \<Rightarrow>
          ok_or (''section '' @ quoted sect @ '' has a relocation against '' @ quoted name @
                 '', which the object never declares as a symbol'') (lookup_name name (t_index t))
      | RT_Section name \<Rightarrow>
          ok_or (''section '' @ quoted sect @ '' has a relocation against the section symbol of '' @ quoted name @
                 '', which this object does not have'') (lookup_name name (t_section_index t)))"

definition rela_entry :: "u64 \<Rightarrow> u32 \<Rightarrow> u32 \<Rightarrow> 64 word \<Rightarrow> bytes" where
  "rela_entry off i kind addend = u64_le off @ u64_le (r_info i kind) @ u64_le addend"

definition reloc_bytes :: "sym_tables \<Rightarrow> string \<Rightarrow> reloc \<Rightarrow> string + bytes" where
  "reloc_bytes t sect r =
     sum_bind (reloc_symbol t sect (re_target r)) (\<lambda>i. Inr (rela_entry (re_offset r) i (re_kind r) (re_addend r)))"

definition rela_bytes :: "sym_tables \<Rightarrow> section_spec \<Rightarrow> string + (string \<times> bytes)" where
  "rela_bytes t s =
     sum_bind (map_ok (reloc_bytes t (sp_name s)) (sp_relocs s)) (\<lambda>bs. Inr (sp_name s, concat bs))"

definition plan_relocs :: "object_builder \<Rightarrow> sym_tables \<Rightarrow> string + (string \<times> bytes) list" where
  "plan_relocs b t = map_ok (rela_bytes t) (filter (\<lambda>s. sp_relocs s \<noteq> []) (ob_sections b))"

subsection \<open>Section headers\<close>

definition null_shdr :: shdr where
  "null_shdr =
     \<lparr>sh_name = [], sh_typ = SHT_NULL, sh_flags = 0, sh_addr = 0, sh_size = 0, sh_link = 0, sh_info = 0,
      sh_align = 0, sh_entsize = 0, sh_data = [], sh_offset_override = None, sh_occupies = False\<rparr>"

definition rela_shdr :: "string \<Rightarrow> bytes \<Rightarrow> u32 \<Rightarrow> u32 \<Rightarrow> shdr" where
  "rela_shdr name bs symtab_index idx =
     \<lparr>sh_name = ''.rela'' @ name, sh_typ = SHT_RELA, sh_flags = SHF_INFO_LINK, sh_addr = 0,
      sh_size = word_of_nat (length bs), sh_link = symtab_index, sh_info = idx, sh_align = 8,
      sh_entsize = RELA_SIZE, sh_data = bs, sh_offset_override = None, sh_occupies = True\<rparr>"

definition spec_shdr :: "section_spec \<Rightarrow> shdr" where
  "spec_shdr s =
     \<lparr>sh_name = sp_name s, sh_typ = sp_type s, sh_flags = sp_flags s, sh_addr = sp_addr s,
      sh_size = spec_size s, sh_link = case_option 0 id (sp_link_override s),
      sh_info = case_option 0 id (sp_info_override s), sh_align = sp_align s, sh_entsize = sp_entsize s,
      sh_data = sp_data s, sh_offset_override = sp_offset_override s,
      sh_occupies = (sp_type s \<noteq> SHT_NOBITS)\<rparr>"

definition symtab_shdr :: "bytes \<Rightarrow> u32 \<Rightarrow> u32 \<Rightarrow> shdr" where
  "symtab_shdr bs strtab_index first_global =
     \<lparr>sh_name = ''.symtab'', sh_typ = SHT_SYMTAB, sh_flags = 0, sh_addr = 0,
      sh_size = word_of_nat (length bs), sh_link = strtab_index, sh_info = first_global, sh_align = 8,
      sh_entsize = SYM_SIZE, sh_data = bs, sh_offset_override = None, sh_occupies = True\<rparr>"

definition strtab_shdr :: "string \<Rightarrow> bytes \<Rightarrow> shdr" where
  "strtab_shdr name bs =
     \<lparr>sh_name = name, sh_typ = SHT_STRTAB, sh_flags = 0, sh_addr = 0, sh_size = word_of_nat (length bs),
      sh_link = 0, sh_info = 0, sh_align = 1, sh_entsize = 0, sh_data = bs, sh_offset_override = None,
      sh_occupies = True\<rparr>"

text \<open>\<open>content_base\<close> and the index of \<open>.symtab\<close>, which \<open>.strtab\<close> and \<open>.shstrtab\<close> follow.\<close>

definition content_base :: "object_builder \<Rightarrow> u32" where
  "content_base b = (if ob_symtab_first b then 4 else 1)"

definition n_user :: "object_builder \<Rightarrow> u32" where
  "n_user b = word_of_nat (length (ob_sections b))"

definition n_rela :: "object_builder \<Rightarrow> u32" where
  "n_rela b = word_of_nat (length (filter (\<lambda>s. sp_relocs s \<noteq> []) (ob_sections b)))"

definition symtab_index :: "object_builder \<Rightarrow> u32" where
  "symtab_index b = (if ob_symtab_first b then 1 else content_base b + n_user b + n_rela b)"

definition plan_index :: "object_builder \<Rightarrow> (string \<times> u32) list" where
  "plan_index b = index_sections (ob_rela_before_target b) (content_base b) (ob_sections b)"

text \<open>The position of the first pair with this name, or 0.\<close>

definition name_position :: "string \<Rightarrow> (string \<times> 'a) list \<Rightarrow> nat" where
  "name_position name ps =
     (let k = length (takeWhile (\<lambda>p. fst p \<noteq> name) ps) in if k < length ps then k else 0)"

definition rela_index :: "object_builder \<Rightarrow> (string \<times> bytes) list \<Rightarrow> string \<Rightarrow> u32 \<Rightarrow> u32" where
  "rela_index b rela_for name idx =
     (if ob_rela_before_target b then idx - 1
      else content_base b + n_user b + word_of_nat (name_position name rela_for))"

definition section_entries ::
  "object_builder \<Rightarrow> (string \<times> bytes) list \<Rightarrow> section_spec \<Rightarrow> string + (u32 \<times> shdr) list" where
  "section_entries b rela_for s =
     sum_bind (section_index (plan_index b) (sp_name s)) (\<lambda>idx.
     Inr ((case find_first (\<lambda>p. fst p = sp_name s) rela_for of
             None \<Rightarrow> []
           | Some (_, bs) \<Rightarrow>
               [(rela_index b rela_for (sp_name s) idx, rela_shdr (sp_name s) bs (symtab_index b) idx)]) @
          [(idx, spec_shdr s)]))"

definition plan_entries ::
  "object_builder \<Rightarrow> sym_tables \<Rightarrow> u32 \<Rightarrow> (string \<times> bytes) list \<Rightarrow> string + (u32 \<times> shdr) list" where
  "plan_entries b t first_global rela_for =
     sum_bind (map_ok (section_entries b rela_for) (ob_sections b)) (\<lambda>ess.
     Inr ([(0, null_shdr)] @ concat ess @
          [(symtab_index b, symtab_shdr (symtab_bytes t) (symtab_index b + 1) first_global),
           (symtab_index b + 1, strtab_shdr ''.strtab'' (t_strtab t)),
           (symtab_index b + 2, strtab_shdr ''.shstrtab'' [])]))"

text \<open>The section names, in table order, as offsets into the string table they build.\<close>

fun add_names :: "string list \<Rightarrow> bytes \<Rightarrow> u32 list \<times> bytes" where
  "add_names [] t = ([], t)"
| "add_names (s # ss) t =
     (let (off, t1) = strtab_add s t; (offs, t2) = add_names ss t1 in (off # offs, t2))"

definition show_u32s :: "u32 list \<Rightarrow> string" where
  "show_u32s xs = ''['' @ join '', '' (map (show_nat \<circ> unat) xs) @ '']''"

text \<open>The table: the entries by index, checked, with \<open>.shstrtab\<close> filled in.\<close>

definition plan_table :: "object_builder \<Rightarrow> (u32 \<times> shdr) list \<Rightarrow> string + elf_layout" where
  "plan_table b es =
     (let entries = sort_key fst es;
          expected = map word_of_nat [0..<length entries];
          got = map fst entries
      in if got \<noteq> expected
         then Inl (''internal: section indices came out as '' @ show_u32s got @ '', expected '' @
                show_u32s expected)
         else
           (let shdrs = map snd entries;
                (name_offsets, shstr) = add_names (map sh_name shdrs) strtab_new;
                k = unat (symtab_index b + 2)
            in if k < length shdrs
               then Inr \<lparr>l_builder = b,
                         l_shdrs = shdrs[k := (shdrs ! k)\<lparr>sh_data := shstr, sh_size := word_of_nat (length shstr)\<rparr>],
                         l_index_of = plan_index b, l_name_offsets = name_offsets,
                         l_shstrtab_index = ucast (symtab_index b + 2)\<rparr>
               else Inl ''internal: .shstrtab is not in the section header table''))"

definition plan :: "object_builder \<Rightarrow> (string + elf_layout) option" where
  "plan b =
     (if ob_rela_before_target b \<and> ob_symtab_first b
      then Some (Inl (''rela_before_target and symtab_first cannot be combined: both rewrite the '' @
                      ''section header indices''))
      else
        (case plan_symbols b (plan_index b) tables_new of
           None \<Rightarrow> None
         | Some (Inl e, _) \<Rightarrow> Some (Inl e)
         | Some (Inr first_global, t) \<Rightarrow>
             Some (sum_bind (plan_relocs b t) (\<lambda>rela_for.
               sum_bind (plan_entries b t first_global rela_for) (plan_table b)))))"

section \<open>Emission\<close>

text \<open>\<open>while !out.len().is_multiple_of(align) { out.push(0) }\<close>, for an alignment that is not 0.\<close>

function pad_to :: "nat \<Rightarrow> bytes \<Rightarrow> bytes" where
  "pad_to a out = (if a = 0 \<or> length out mod a = 0 then out else pad_to a (out @ [0]))"
  by pat_completeness auto
termination
proof (relation "measure (\<lambda>(a, out). (a - length out mod a) mod a)")
  fix a and out :: bytes
  assume "\<not> (a = 0 \<or> length out mod a = 0)"
  then have m: "0 < a" "0 < length out mod a" "length out mod a < a" by simp_all
  then show "((a, out @ [0]), (a, out)) \<in> measure (\<lambda>(a, out). (a - length out mod a) mod a)"
    by (auto simp: mod_Suc)
qed simp

declare pad_to.simps [simp del]

text \<open>The bodies of the sections, and the offset each landed at.\<close>

fun emit_bodies :: "shdr list \<Rightarrow> bytes \<Rightarrow> u64 list \<times> bytes" where
  "emit_bodies [] out = ([], out)"
| "emit_bodies (s # ss) out =
     (if sh_typ s = SHT_NULL then (let (offs, out') = emit_bodies ss out in (0 # offs, out'))
      else
        (let out1 = pad_to (unat (max (sh_align s) 1)) out;
             at = word_of_nat (length out1);
             off = (case sh_offset_override s of Some v \<Rightarrow> v | None \<Rightarrow> at);
             (offs, out') = emit_bodies ss (if sh_occupies s then out1 @ sh_data s else out1)
         in (off # offs, out')))"

definition shdr_bytes :: "u32 \<Rightarrow> u64 \<Rightarrow> shdr \<Rightarrow> bytes" where
  "shdr_bytes name_off off s =
     u32_le name_off @ u32_le (sh_typ s) @ u64_le (sh_flags s) @ u64_le (sh_addr s) @ u64_le off @
     u64_le (sh_size s) @ u32_le (sh_link s) @ u32_le (sh_info s) @ u64_le (sh_align s) @ u64_le (sh_entsize s)"

definition elf_ident :: "header_overrides \<Rightarrow> bytes" where
  "elf_ident h =
     case_option ELF_MAGIC id (ho_magic h) @
     [case_option ELFCLASS64 id (ho_class h), case_option ELFDATA2LSB id (ho_endianness h),
      case_option EV_CURRENT id (ho_ident_version h), case_option ELFOSABI_SYSV id (ho_osabi h)] @ replicate 8 0"

definition ehdr_bytes :: "elf_layout \<Rightarrow> u64 \<Rightarrow> bytes" where
  "ehdr_bytes l shoff =
     (let h = ob_header (l_builder l) in
      elf_ident h @ u16_le (case_option ET_REL id (ho_e_type h)) @
      u16_le (case_option EM_X86_64 id (ho_e_machine h)) @
      u32_le (case_option (ucast EV_CURRENT) id (ho_e_version h)) @ u64_le (case_option 0 id (ho_e_entry h)) @
      u64_le 0 @ u64_le (case_option shoff id (ho_e_shoff h)) @ u32_le 0 @
      u16_le (case_option EHDR_SIZE id (ho_e_ehsize h)) @ u16_le 0 @ u16_le 0 @
      u16_le (case_option SHDR_SIZE id (ho_e_shentsize h)) @
      u16_le (case_option (word_of_nat (length (l_shdrs l))) id (ho_e_shnum h)) @
      u16_le (case_option (l_shstrtab_index l) id (ho_e_shstrndx h)))"

definition name_offset_at :: "elf_layout \<Rightarrow> nat \<Rightarrow> u32" where
  "name_offset_at l i = (if i < length (l_name_offsets l) then l_name_offsets l ! i else 0)"

definition emit :: "elf_layout \<Rightarrow> string + bytes" where
  "emit l =
     (let (offsets, out) = emit_bodies (l_shdrs l) (replicate 64 0);
          out1 = pad_to 8 out;
          shoff = word_of_nat (length out1);
          table = concat (map (\<lambda>(i, s). shdr_bytes (name_offset_at l i) (offsets ! i) s)
                    (zip [0..<length (l_shdrs l)] (l_shdrs l)));
          out2 = out1 @ table;
          hdr = ehdr_bytes l shoff
      in if length hdr \<noteq> unat EHDR_SIZE
         then Inl (''internal: the file header came out '' @ show_nat (length hdr) @ '' bytes, not '' @
                show_nat (unat EHDR_SIZE))
         else
           (let out3 = hdr @ drop (unat EHDR_SIZE) out2
            in Inr (case ob_truncate_to (l_builder l) of None \<Rightarrow> out3 | Some n \<Rightarrow> take n out3)))"

definition object_build :: "object_builder \<Rightarrow> (string + bytes) option" where
  "object_build b = map_option (\<lambda>r. sum_bind r emit) (plan b)"

section \<open>Padding\<close>

lemma pad_to_eq: "0 < a \<Longrightarrow> pad_to a out = out @ replicate ((a - length out mod a) mod a) 0"
proof (induction a out rule: pad_to.induct)
  case (1 a out)
  show ?case
  proof (cases "length out mod a = 0")
    case True
    then show ?thesis by (subst pad_to.simps) simp
  next
    case False
    define m where "m = length out mod a"
    have m: "0 < m" "m < a" using False 1(2) by (simp_all add: m_def)
    have l: "length (out @ [0 :: u8]) mod a = Suc m mod a" by (simp add: m_def mod_Suc)
    have "pad_to a out = pad_to a (out @ [0])" using False 1(2) by (subst pad_to.simps) simp
    also have "\<dots> = (out @ [0]) @ replicate ((a - Suc m mod a) mod a) 0"
      using 1(1) [OF _ 1(2)] False 1(2) l by simp
    also have "\<dots> = out @ replicate (Suc ((a - Suc m mod a) mod a)) 0" by simp
    also have "Suc ((a - Suc m mod a) mod a) = (a - m) mod a"
      using m by (cases "Suc m = a") simp_all
    finally show ?thesis unfolding m_def .
  qed
qed

lemma pad_to_append: "\<exists>k. pad_to a out = out @ replicate k 0"
proof (cases "a = 0")
  case True
  then show ?thesis by (intro exI [of _ 0]) (simp add: pad_to.simps)
qed (use pad_to_eq [of a out] in blast)

lemma pad_to_aligned: "0 < a \<Longrightarrow> length (pad_to a out) mod a = 0"
proof (induction a out rule: pad_to.induct)
  case (1 a out)
  then show ?case by (subst pad_to.simps) auto
qed

lemma pad_to_short: "0 < a \<Longrightarrow> length (pad_to a out) < length out + a"
  by (simp add: pad_to_eq)

end
