(* ===== verification/Elf_Read.thy ===== *)
theory Elf_Read
  imports Elf_Types
begin

text \<open>
  The reader of \<^verbatim>\<open>linktest/src/elf/read.rs\<close>: the bounds-checked fields, \<open>Elf::parse\<close> with its four
  passes, and the lookups. Parsing is an operation on the \<open>Elf\<close> under construction; \<open>None\<close> is a panic:
  an addition of offsets that leaves \<open>usize\<close>, an index out of range. A usize is a \<open>nat\<close> below
  \<open>2 ^ 64\<close>. \<open>ElfError\<close> is its message.
\<close>

section \<open>The parsed file\<close>

record section_hdr =
  se_index :: nat
  se_name :: string
  se_type :: u32
  se_flags :: u64
  se_addr :: u64
  se_offset :: u64
  se_size :: u64
  se_link :: u32
  se_info :: u32
  se_align :: u64
  se_entsize :: u64

definition is_alloc :: "section_hdr \<Rightarrow> bool" where "is_alloc s \<longleftrightarrow> se_flags s AND SHF_ALLOC \<noteq> 0"
definition is_write :: "section_hdr \<Rightarrow> bool" where "is_write s \<longleftrightarrow> se_flags s AND SHF_WRITE \<noteq> 0"
definition is_exec :: "section_hdr \<Rightarrow> bool" where "is_exec s \<longleftrightarrow> se_flags s AND SHF_EXECINSTR \<noteq> 0"
definition is_nobits :: "section_hdr \<Rightarrow> bool" where "is_nobits s \<longleftrightarrow> se_type s = SHT_NOBITS"

record segment =
  sg_index :: nat
  sg_type :: u32
  sg_flags :: u32
  sg_offset :: u64
  sg_vaddr :: u64
  sg_paddr :: u64
  sg_filesz :: u64
  sg_memsz :: u64
  sg_align :: u64

definition seg_readable :: "segment \<Rightarrow> bool" where "seg_readable g \<longleftrightarrow> sg_flags g AND PF_R \<noteq> 0"
definition seg_writable :: "segment \<Rightarrow> bool" where "seg_writable g \<longleftrightarrow> sg_flags g AND PF_W \<noteq> 0"
definition seg_executable :: "segment \<Rightarrow> bool" where "seg_executable g \<longleftrightarrow> sg_flags g AND PF_X \<noteq> 0"

definition saturating_add :: "u64 \<Rightarrow> u64 \<Rightarrow> u64" where
  "saturating_add a b = (if unat a + unat b < 2 ^ 64 then a + b else u64_max)"

definition seg_contains :: "segment \<Rightarrow> u64 \<Rightarrow> bool" where
  "seg_contains g addr \<longleftrightarrow> sg_vaddr g \<le> addr \<and> addr < saturating_add (sg_vaddr g) (sg_memsz g)"

text \<open>\<open>0x{:x}\<close> and \<open>0x{:08x}\<close>.\<close>

definition hex_addr :: "u64 \<Rightarrow> string" where "hex_addr v = ''0x'' @ hex_nat (unat v)"
definition hex_addr8 :: "u64 \<Rightarrow> string" where "hex_addr8 v = ''0x'' @ hex_pad 8 (unat v)"

definition seg_describe :: "segment \<Rightarrow> string" where
  "seg_describe g =
     segment_type_name (sg_type g) @ '' vaddr '' @ hex_addr (sg_vaddr g) @ '' offset '' @ hex_addr (sg_offset g) @
     '' filesz '' @ hex_addr (sg_filesz g) @ '' memsz '' @ hex_addr (sg_memsz g) @ '' flags '' @
     flags_string (sg_flags g) @ '' align '' @ hex_addr (sg_align g)"

record elf_symbol =
  ym_index :: nat
  ym_name :: string
  ym_bind :: u8
  ym_type :: u8
  ym_visibility :: u8
  ym_shndx :: u16
  ym_value :: u64
  ym_size :: u64

definition ym_undefined :: "elf_symbol \<Rightarrow> bool" where "ym_undefined s \<longleftrightarrow> ym_shndx s = SHN_UNDEF"
definition ym_absolute :: "elf_symbol \<Rightarrow> bool" where "ym_absolute s \<longleftrightarrow> ym_shndx s = SHN_ABS"
definition ym_common :: "elf_symbol \<Rightarrow> bool" where "ym_common s \<longleftrightarrow> ym_shndx s = SHN_COMMON"

record relocation =
  rl_target_section :: nat
  rl_offset :: u64
  rl_sym :: u32
  rl_kind :: u32
  rl_addend :: "64 word"

record elf =
  el_bytes :: bytes
  el_ident :: bytes
  el_type :: u16
  el_machine :: u16
  el_version :: u32
  el_entry :: u64
  el_phoff :: u64
  el_shoff :: u64
  el_flags :: u32
  el_ehsize :: u16
  el_phentsize :: u16
  el_phnum :: u16
  el_shentsize :: u16
  el_shnum :: u16
  el_shstrndx :: u16
  el_sections :: "section_hdr list"
  el_segments :: "segment list"
  el_symbols :: "elf_symbol list"
  el_relocations :: "relocation list"

type_synonym 'a elf_op = "(elf, string, 'a) st"

section \<open>Bounds-checked fields\<close>

definition usize_max :: nat where "usize_max = 2 ^ 64 - 1"

definition checked_add :: "nat \<Rightarrow> nat \<Rightarrow> nat option" where
  "checked_add a b = (if a + b \<le> usize_max then Some (a + b) else None)"

definition checked_mul :: "nat \<Rightarrow> nat \<Rightarrow> nat option" where
  "checked_mul a b = (if a * b \<le> usize_max then Some (a * b) else None)"

text \<open>\<open>a + b\<close> on \<open>usize\<close>, and an index; both may panic.\<close>

definition usize_add :: "nat \<Rightarrow> nat \<Rightarrow> ('s, 'e, nat) st" where
  "usize_add a b s = map_option (\<lambda>r. (Inr r, s)) (checked_add a b)"

definition st_index :: "'a list \<Rightarrow> nat \<Rightarrow> ('s, 'e, 'a) st" where
  "st_index xs i s = (if i < length xs then Some (Inr (xs ! i), s) else None)"

definition read_error :: "nat \<Rightarrow> nat \<Rightarrow> bytes \<Rightarrow> string" where
  "read_error n at b =
     ''wanted '' @ show_nat n @ '' bytes at offset '' @ show_nat at @ '', the file is only '' @
     show_nat (length b) @ '' bytes''"

definition field_end :: "nat \<Rightarrow> nat \<Rightarrow> nat" where
  "field_end at n = case_option usize_max id (checked_add at n)"

definition u16le :: "bytes \<Rightarrow> nat \<Rightarrow> string + u16" where
  "u16le b at = (if length b < field_end at 2 then Inl (read_error 2 at b) else Inr (u16_from_le [b ! at, b ! (at + 1)]))"

definition u32le :: "bytes \<Rightarrow> nat \<Rightarrow> string + u32" where
  "u32le b at = (if length b < field_end at 4 then Inl (read_error 4 at b) else Inr (u32_from_le (slice at (field_end at 4) b)))"

definition u64le :: "bytes \<Rightarrow> nat \<Rightarrow> string + u64" where
  "u64le b at = (if length b < field_end at 8 then Inl (read_error 8 at b) else Inr (u64_from_le (slice at (field_end at 8) b)))"

definition entry_at :: "nat \<Rightarrow> nat \<Rightarrow> nat \<Rightarrow> nat \<Rightarrow> string \<Rightarrow> string + nat" where
  "entry_at base i entry_size len what =
     ok_or (what @ '' '' @ show_nat i @ '' at 0x'' @ hex_nat base @ '' + '' @ show_nat i @ '' * '' @
            show_nat entry_size @ '' is past the end of a '' @ show_nat len @ ''-byte file'')
       (Option.bind (checked_mul i entry_size) (\<lambda>o'.
        Option.bind (checked_add base o') (\<lambda>at.
        case checked_add at entry_size of
          None \<Rightarrow> None
        | Some e \<Rightarrow> if e \<le> len then Some at else None)))"

definition cstr :: "bytes \<Rightarrow> nat \<Rightarrow> string" where
  "cstr table at =
     (if length table \<le> at then [] else lossy_text (takeWhile (\<lambda>b. b \<noteq> 0) (drop at table)))"

text \<open>A field \<open>k\<close> bytes into an entry, as the passes read it: \<open>rd(b, at + k)?\<close>.\<close>

definition field_at :: "(bytes \<Rightarrow> nat \<Rightarrow> string + 'a) \<Rightarrow> bytes \<Rightarrow> nat \<Rightarrow> nat \<Rightarrow> ('s, string, 'a) st" where
  "field_at rd b at k = st_bind (usize_add at k) (\<lambda>o'. st_lift (rd b o'))"

definition elf_slice :: "bytes \<Rightarrow> u64 \<Rightarrow> u64 \<Rightarrow> string + bytes" where
  "elf_slice b off sz =
     (case checked_add (unat off) (unat sz) of
        None \<Rightarrow> Inl (''offset '' @ hex_addr off @ '' + size '' @ hex_addr sz @ '' overflows'')
      | Some e \<Rightarrow>
          if e \<le> length b then Inr (slice (unat off) e b)
          else Inl (''bytes '' @ hex_addr off @ ''..0x'' @ hex_nat e @ '' are past the end of a '' @
                 show_nat (length b) @ ''-byte file''))"

section \<open>Parsing\<close>

definition parse_segment :: "nat \<Rightarrow> nat \<Rightarrow> nat \<Rightarrow> unit elf_op" where
  "parse_segment base entry_size i =
     st_bind (st_get el_bytes) (\<lambda>b.
     st_bind (st_lift (entry_at base i entry_size (length b) ''program header'')) (\<lambda>at.
     st_bind (st_lift (u32le b at)) (\<lambda>ty.
     st_bind (field_at u32le b at 4) (\<lambda>flags.
     st_bind (field_at u64le b at 8) (\<lambda>off.
     st_bind (field_at u64le b at 16) (\<lambda>vaddr.
     st_bind (field_at u64le b at 24) (\<lambda>paddr.
     st_bind (field_at u64le b at 32) (\<lambda>filesz.
     st_bind (field_at u64le b at 40) (\<lambda>memsz.
     st_bind (field_at u64le b at 48) (\<lambda>align.
     st_modify (\<lambda>e. e\<lparr>el_segments := el_segments e @
       [\<lparr>sg_index = i, sg_type = ty, sg_flags = flags, sg_offset = off, sg_vaddr = vaddr, sg_paddr = paddr,
         sg_filesz = filesz, sg_memsz = memsz, sg_align = align\<rparr>]\<rparr>)))))))))))"

definition parse_segments :: "unit elf_op" where
  "parse_segments =
     st_bind (st_get el_phnum) (\<lambda>phnum.
     if phnum = 0 then st_return ()
     else
       st_bind (st_get (\<lambda>e. unat (el_phentsize e))) (\<lambda>entry_size.
       if entry_size < unat PHDR_SIZE
       then st_fail (''e_phentsize is '' @ show_nat entry_size @ '', an ELF64 program header is '' @
              show_nat (unat PHDR_SIZE) @ '' bytes'')
       else
         st_bind (st_get (\<lambda>e. unat (el_phoff e))) (\<lambda>base.
         st_bind (st_each (parse_segment base entry_size) [0..<unat phnum]) (\<lambda>_. st_return ()))))"

definition parse_section :: "nat \<Rightarrow> nat \<Rightarrow> nat \<Rightarrow> (u32 \<times> section_hdr) elf_op" where
  "parse_section base entry_size i =
     st_bind (st_get el_bytes) (\<lambda>b.
     st_bind (st_lift (entry_at base i entry_size (length b) ''section header'')) (\<lambda>at.
     st_bind (st_lift (u32le b at)) (\<lambda>name_off.
     st_bind (field_at u32le b at 4) (\<lambda>ty.
     st_bind (field_at u64le b at 8) (\<lambda>flags.
     st_bind (field_at u64le b at 16) (\<lambda>addr.
     st_bind (field_at u64le b at 24) (\<lambda>off.
     st_bind (field_at u64le b at 32) (\<lambda>sz.
     st_bind (field_at u32le b at 40) (\<lambda>lnk.
     st_bind (field_at u32le b at 44) (\<lambda>info.
     st_bind (field_at u64le b at 48) (\<lambda>align.
     st_bind (field_at u64le b at 56) (\<lambda>entsize.
     st_return (name_off,
       \<lparr>se_index = i, se_name = [], se_type = ty, se_flags = flags, se_addr = addr, se_offset = off,
        se_size = sz, se_link = lnk, se_info = info, se_align = align, se_entsize = entsize\<rparr>)))))))))))))"

text \<open>The bytes of the section with this index, or none when it cannot be read.\<close>

definition table_bytes :: "bytes \<Rightarrow> section_hdr list \<Rightarrow> nat \<Rightarrow> bytes" where
  "table_bytes b ss k =
     (if k < length ss
      then (case elf_slice b (se_offset (ss ! k)) (se_size (ss ! k)) of Inl _ \<Rightarrow> [] | Inr bs \<Rightarrow> bs) else [])"

definition parse_sections :: "unit elf_op" where
  "parse_sections =
     st_bind (st_get (\<lambda>e. (el_shnum e, el_shoff e))) (\<lambda>(shnum, shoff).
     if shnum = 0 \<or> shoff = 0 then st_return ()
     else
       st_bind (st_get (\<lambda>e. unat (el_shentsize e))) (\<lambda>entry_size.
       if entry_size < unat SHDR_SIZE
       then st_fail (''e_shentsize is '' @ show_nat entry_size @ '', an ELF64 section header is '' @
              show_nat (unat SHDR_SIZE) @ '' bytes'')
       else
         st_bind (st_each (parse_section (unat shoff) entry_size) [0..<unat shnum]) (\<lambda>raw.
         st_modify (\<lambda>e.
           let names = table_bytes (el_bytes e) (map snd raw) (unat (el_shstrndx e))
           in e\<lparr>el_sections := map (\<lambda>(name_off, s). s\<lparr>se_name := cstr names (unat name_off)\<rparr>) raw\<rparr>))))"

definition parse_symbol :: "bytes \<Rightarrow> nat \<times> bytes \<Rightarrow> unit elf_op" where
  "parse_symbol strings = (\<lambda>(i, chunk).
     st_bind (st_lift (u32le chunk 0)) (\<lambda>name_off.
     st_bind (st_index chunk 4) (\<lambda>info.
     st_bind (st_index chunk 5) (\<lambda>other.
     st_bind (st_lift (u16le chunk 6)) (\<lambda>shndx.
     st_bind (st_lift (u64le chunk 8)) (\<lambda>v.
     st_bind (st_lift (u64le chunk 16)) (\<lambda>sz.
     st_modify (\<lambda>e. e\<lparr>el_symbols := el_symbols e @
       [\<lparr>ym_index = i, ym_name = cstr strings (unat name_off), ym_bind = info_bind info,
         ym_type = info_type info, ym_visibility = other AND 0x3, ym_shndx = shndx, ym_value = v,
         ym_size = sz\<rparr>]\<rparr>))))))))"

text \<open>The chunks up to the first short one, with their numbers.\<close>

definition full_chunks :: "nat \<Rightarrow> nat \<Rightarrow> bytes \<Rightarrow> (nat \<times> bytes) list" where
  "full_chunks least step bs =
     (let cs = takeWhile (\<lambda>c. least \<le> length c) (chunks step bs) in zip [0..<length cs] cs)"

definition parse_symbols :: "unit elf_op" where
  "parse_symbols =
     st_bind (st_get (\<lambda>e. find_first (\<lambda>s. se_type s = SHT_SYMTAB) (el_sections e))) (\<lambda>found.
     case found of
       None \<Rightarrow> st_return ()
     | Some symtab \<Rightarrow>
         st_bind (st_get (\<lambda>e. table_bytes (el_bytes e) (el_sections e) (unat (se_link symtab)))) (\<lambda>strings.
         st_bind (st_get (\<lambda>e. elf_slice (el_bytes e) (se_offset symtab) (se_size symtab))) (\<lambda>sliced.
         st_bind (st_lift sliced) (\<lambda>data.
         let step = unat (if se_entsize symtab = 0 then SYM_SIZE else se_entsize symtab) in
         if step < unat SYM_SIZE
         then st_fail (''.symtab has sh_entsize '' @ show_nat step @ '', an ELF64 symbol is '' @
                show_nat (unat SYM_SIZE) @ '' bytes'')
         else
           st_bind (st_each (parse_symbol strings) (full_chunks (unat SYM_SIZE) step data)) (\<lambda>_.
           st_return ())))))"

definition parse_relocation :: "section_hdr \<Rightarrow> nat \<times> bytes \<Rightarrow> unit elf_op" where
  "parse_relocation s = (\<lambda>(_, chunk).
     st_bind (st_lift (u64le chunk 8)) (\<lambda>info.
     st_bind (st_lift (u64le chunk 0)) (\<lambda>off.
     st_bind (if se_type s = SHT_RELA then st_lift (u64le chunk 16) else st_return 0) (\<lambda>addend.
     st_modify (\<lambda>e. e\<lparr>el_relocations := el_relocations e @
       [\<lparr>rl_target_section = unat (se_info s), rl_offset = off, rl_sym = r_sym info, rl_kind = r_type info,
         rl_addend = addend\<rparr>]\<rparr>)))))"

definition rel_step :: "section_hdr \<Rightarrow> nat" where
  "rel_step s = unat (if se_type s = SHT_RELA then RELA_SIZE else REL_SIZE)"

definition parse_rel_section :: "section_hdr \<Rightarrow> unit elf_op" where
  "parse_rel_section s =
     st_bind (st_get (\<lambda>e. elf_slice (el_bytes e) (se_offset s) (se_size s))) (\<lambda>sliced.
     st_bind (st_lift sliced) (\<lambda>data.
     st_bind (st_each (parse_relocation s) (full_chunks (rel_step s) (rel_step s) data)) (\<lambda>_. st_return ())))"

definition parse_relocations :: "unit elf_op" where
  "parse_relocations =
     st_bind (st_get (\<lambda>e. filter (\<lambda>s. se_type s = SHT_RELA \<or> se_type s = SHT_REL) (el_sections e))) (\<lambda>rs.
     st_bind (st_each parse_rel_section rs) (\<lambda>_. st_return ()))"

definition parse_passes :: "unit elf_op" where
  "parse_passes =
     st_bind parse_segments (\<lambda>_. st_bind parse_sections (\<lambda>_. st_bind parse_symbols (\<lambda>_. parse_relocations)))"

definition parse_header :: "bytes \<Rightarrow> string + elf" where
  "parse_header bs =
     sum_bind (u16le bs 16) (\<lambda>ty. sum_bind (u16le bs 18) (\<lambda>machine. sum_bind (u32le bs 20) (\<lambda>version.
     sum_bind (u64le bs 24) (\<lambda>entry. sum_bind (u64le bs 32) (\<lambda>phoff. sum_bind (u64le bs 40) (\<lambda>shoff.
     sum_bind (u32le bs 48) (\<lambda>flags. sum_bind (u16le bs 52) (\<lambda>ehsize. sum_bind (u16le bs 54) (\<lambda>phentsize.
     sum_bind (u16le bs 56) (\<lambda>phnum. sum_bind (u16le bs 58) (\<lambda>shentsize. sum_bind (u16le bs 60) (\<lambda>shnum.
     sum_bind (u16le bs 62) (\<lambda>shstrndx.
     Inr \<lparr>el_bytes = bs, el_ident = take EI_NIDENT bs, el_type = ty, el_machine = machine,
          el_version = version, el_entry = entry, el_phoff = phoff, el_shoff = shoff, el_flags = flags,
          el_ehsize = ehsize, el_phentsize = phentsize, el_phnum = phnum, el_shentsize = shentsize,
          el_shnum = shnum, el_shstrndx = shstrndx, el_sections = [], el_segments = [], el_symbols = [],
          el_relocations = []\<rparr>)))))))))))))"

definition elf_parse :: "bytes \<Rightarrow> (string + elf) option" where
  "elf_parse bs =
     (if length bs < unat EHDR_SIZE
      then Some (Inl (''the file is '' @ show_nat (length bs) @ '' bytes; an ELF64 header alone is '' @
             show_nat (unat EHDR_SIZE)))
      else if take 4 bs \<noteq> ELF_MAGIC
      then Some (Inl (''bad magic ['' @ join '', '' (map hex2 (take 4 bs)) @ ''], expected 7f 45 4c 46''))
      else if bs ! 4 \<noteq> ELFCLASS64
      then Some (Inl (''e_ident[EI_CLASS] is '' @ show_nat (unat (bs ! 4)) @
             '', this parser only reads ELFCLASS64 (2)''))
      else if bs ! 5 \<noteq> ELFDATA2LSB
      then Some (Inl (''e_ident[EI_DATA] is '' @ show_nat (unat (bs ! 5)) @
             '', this parser only reads little-endian (1)''))
      else
        (case parse_header bs of
           Inl e \<Rightarrow> Some (Inl e)
         | Inr e \<Rightarrow> map_option (\<lambda>(r, e'). sum_bind r (\<lambda>_. Inr e')) (parse_passes e)))"

section \<open>Lookups\<close>

definition el_slice :: "elf \<Rightarrow> u64 \<Rightarrow> u64 \<Rightarrow> string + bytes" where
  "el_slice e = elf_slice (el_bytes e)"

definition el_section :: "elf \<Rightarrow> string \<Rightarrow> section_hdr option" where
  "el_section e name = find_first (\<lambda>s. se_name s = name) (el_sections e)"

definition sections_named :: "elf \<Rightarrow> string \<Rightarrow> section_hdr list" where
  "sections_named e name = filter (\<lambda>s. se_name s = name) (el_sections e)"

definition section_data :: "elf \<Rightarrow> string \<Rightarrow> string + bytes" where
  "section_data e name =
     sum_bind (ok_or (''the file has no section named '' @ quoted name) (el_section e name)) (\<lambda>s.
     if is_nobits s then Inr [] else el_slice e (se_offset s) (se_size s))"

definition el_symbol :: "elf \<Rightarrow> string \<Rightarrow> elf_symbol option" where
  "el_symbol e name = find_first (\<lambda>s. ym_name s = name) (el_symbols e)"

definition symbol_address :: "elf \<Rightarrow> string \<Rightarrow> string + u64" where
  "symbol_address e name =
     sum_bind (ok_or (''the output has no symbol named '' @ quoted name) (el_symbol e name)) (\<lambda>s.
     if ym_undefined s then Inl (''symbol '' @ quoted name @ '' is still undefined in the output'')
     else Inr (ym_value s))"

definition el_loads :: "elf \<Rightarrow> segment list" where
  "el_loads e = filter (\<lambda>g. sg_type g = PT_LOAD) (el_segments e)"

definition segment_at :: "elf \<Rightarrow> u64 \<Rightarrow> segment option" where
  "segment_at e addr = find_first (\<lambda>g. seg_contains g addr) (el_loads e)"

text \<open>\<open>a - b\<close> on \<open>u64\<close>, which panics when it would be negative.\<close>

definition u64_sub :: "u64 \<Rightarrow> u64 \<Rightarrow> u64 option" where
  "u64_sub a b = (if b \<le> a then Some (a - b) else None)"

definition u64_checked_add :: "u64 \<Rightarrow> u64 \<Rightarrow> u64 option" where
  "u64_checked_add a b = (if unat a + unat b < 2 ^ 64 then Some (a + b) else None)"

definition read_at_vaddr :: "elf \<Rightarrow> u64 \<Rightarrow> u64 \<Rightarrow> (string + bytes) option" where
  "read_at_vaddr e addr len =
     (case segment_at e addr of
        None \<Rightarrow> Some (Inl (''no PT_LOAD segment maps address '' @ hex_addr addr))
      | Some seg \<Rightarrow>
          (case u64_sub addr (sg_vaddr seg) of
             None \<Rightarrow> None
           | Some delta \<Rightarrow>
               if sg_filesz seg < saturating_add delta len
               then Some (Inl (''address '' @ hex_addr addr @ '' is inside the segment at '' @
                      hex_addr (sg_vaddr seg) @ '' but past its '' @ show_nat (unat (sg_filesz seg)) @
                      '' file bytes (p_filesz '' @ hex_addr (sg_filesz seg) @ '') '' @ EM_DASH @
                      '' .bss has no bytes in the file''))
               else
                 (case u64_checked_add (sg_offset seg) delta of
                    None \<Rightarrow> Some (Inl (''the segment at '' @ hex_addr (sg_vaddr seg) @ '' claims p_offset '' @
                              hex_addr (sg_offset seg) @ '', which overflows''))
                  | Some off \<Rightarrow> Some (el_slice e off len))))"

text \<open>A value at a virtual address; taking its bytes panics when the slice is not as long as asked.\<close>

definition value_at :: "nat \<Rightarrow> (bytes \<Rightarrow> 'a) \<Rightarrow> elf \<Rightarrow> u64 \<Rightarrow> (string + 'a) option" where
  "value_at n from_le e addr =
     (case read_at_vaddr e addr (word_of_nat n) of
        None \<Rightarrow> None
      | Some (Inl err) \<Rightarrow> Some (Inl err)
      | Some (Inr b) \<Rightarrow> if length b = n then Some (Inr (from_le b)) else None)"

definition u32_at_vaddr :: "elf \<Rightarrow> u64 \<Rightarrow> (string + u32) option" where
  "u32_at_vaddr = value_at 4 u32_from_le"

definition i32_at_vaddr :: "elf \<Rightarrow> u64 \<Rightarrow> (string + 32 word) option" where
  "i32_at_vaddr = u32_at_vaddr"

definition u64_at_vaddr :: "elf \<Rightarrow> u64 \<Rightarrow> (string + u64) option" where
  "u64_at_vaddr = value_at 8 u64_from_le"

definition u16_at_vaddr :: "elf \<Rightarrow> u64 \<Rightarrow> (string + u16) option" where
  "u16_at_vaddr = value_at 2 u16_from_le"

definition u8_at_vaddr :: "elf \<Rightarrow> u64 \<Rightarrow> (string + u8) option" where
  "u8_at_vaddr = value_at 1 (\<lambda>b. b ! 0)"

section \<open>Reports\<close>

definition elf_type_text :: "u16 \<Rightarrow> string" where
  "elf_type_text t =
     (if t = ET_REL then ''ET_REL'' else if t = ET_EXEC then ''ET_EXEC'' else if t = ET_DYN then ''ET_DYN''
      else show_nat (unat t))"

definition elf_describe :: "elf \<Rightarrow> string" where
  "elf_describe e =
     ''e_type '' @ elf_type_text (el_type e) @ '' entry '' @ hex_addr (el_entry e) @ '', '' @
     show_nat (length (el_segments e)) @ '' program headers, '' @ show_nat (length (el_sections e)) @
     '' sections, '' @ show_nat (length (el_symbols e)) @ '' symbols''"

definition program_header_row :: "segment \<Rightarrow> string" where
  "program_header_row g =
     ''  '' @ pad_right 10 (segment_type_name (sg_type g)) @ '' '' @ hex_addr8 (sg_offset g) @ '' '' @
     hex_addr8 (sg_vaddr g) @ '' '' @ hex_addr8 (sg_filesz g) @ '' '' @ hex_addr8 (sg_memsz g) @ '' '' @
     flags_string (sg_flags g) @ '' '' @ hex_addr (sg_align g) @ newline"

definition program_header_table :: "elf \<Rightarrow> string" where
  "program_header_table e =
     trim_end (''  Type       Offset     VirtAddr   FileSiz    MemSiz     Flg Align'' @ newline @
               concat (map program_header_row (el_segments e)))"

text \<open>A section name is padded by its characters; the model counts bytes, the same for ASCII names.\<close>

definition section_header_row :: "section_hdr \<Rightarrow> string" where
  "section_header_row s =
     ''  '' @ pad_left 2 (show_nat (se_index s)) @ '' '' @ pad_right 17 (se_name s) @ '' '' @
     pad_right 10 (section_type_name (se_type s)) @ '' '' @ hex_addr8 (se_addr s) @ '' '' @
     hex_addr8 (se_offset s) @ '' '' @ hex_addr8 (se_size s) @ '' '' @ show_nat (unat (se_align s)) @ newline"

definition section_header_table :: "elf \<Rightarrow> string" where
  "section_header_table e =
     trim_end (''  Nr Name              Type       Addr       Off        Size       Al'' @ newline @
               concat (map section_header_row (el_sections e)))"

end
