(* ===== verification/Elf_Safety.thy ===== *)
theory Elf_Safety
  imports Elf_Read
begin

text \<open>
  No pass of the ELF reader panics. \<open>safe P m Q\<close>: from a state that satisfies \<open>P\<close>, the operation
  returns, keeps \<open>P\<close>, and a value it returns satisfies \<open>Q\<close>.
\<close>

definition safe :: "('s \<Rightarrow> bool) \<Rightarrow> ('s, 'e, 'a) st \<Rightarrow> ('a \<Rightarrow> bool) \<Rightarrow> bool" where
  "safe P m Q \<longleftrightarrow> (\<forall>s. P s \<longrightarrow> (\<exists>r s'. m s = Some (r, s') \<and> P s' \<and> (\<forall>x. r = Inr x \<longrightarrow> Q x)))"

lemma safe_bind: "safe P m Q \<Longrightarrow> (\<And>x. Q x \<Longrightarrow> safe P (f x) R) \<Longrightarrow> safe P (st_bind m f) R"
  unfolding safe_def st_bind_def
proof (intro allI impI)
  fix s assume "P s" and m: "\<forall>s. P s \<longrightarrow> (\<exists>r s'. m s = Some (r, s') \<and> P s' \<and> (\<forall>x. r = Inr x \<longrightarrow> Q x))"
    and f: "\<And>x. Q x \<Longrightarrow> \<forall>s. P s \<longrightarrow> (\<exists>r s'. f x s = Some (r, s') \<and> P s' \<and> (\<forall>x. r = Inr x \<longrightarrow> R x))"
  obtain r s1 where r: "m s = Some (r, s1)" "P s1" "\<forall>x. r = Inr x \<longrightarrow> Q x" using m \<open>P s\<close> by blast
  show "\<exists>r s'. (case m s of None \<Rightarrow> None | Some (Inl e, s') \<Rightarrow> Some (Inl e, s') | Some (Inr x, s') \<Rightarrow> f x s') = Some (r, s') \<and>
      P s' \<and> (\<forall>x. r = Inr x \<longrightarrow> R x)"
    using r f by (cases r) auto
qed

lemma safe_weaken: "safe P m Q \<Longrightarrow> (\<And>x. Q x \<Longrightarrow> R x) \<Longrightarrow> safe P m R"
  unfolding safe_def by meson

lemma safe_basic:
  "Q x \<Longrightarrow> safe P (st_return x) Q" "safe P (st_fail e) Q" "(\<And>x. r = Inr x \<Longrightarrow> Q x) \<Longrightarrow> safe P (st_lift r) Q"
  "(\<And>s. P s \<Longrightarrow> Q (g s)) \<Longrightarrow> safe P (st_get g) Q"
  by (simp_all add: safe_def)

lemma safe_modify: "(\<And>s. P s \<Longrightarrow> P (h s)) \<Longrightarrow> safe P (st_modify h) (\<lambda>_. True)"
  by (simp add: safe_def)

lemma safe_then: "safe P m (\<lambda>_. True) \<Longrightarrow> (\<And>x. safe P (f x) R) \<Longrightarrow> safe P (st_bind m f) R"
  by (rule safe_bind) simp

lemma safe_lift: "safe P (st_lift r) (\<lambda>_. True)"
  by (rule safe_basic) simp

lemma safe_if: "(b \<Longrightarrow> safe P m Q) \<Longrightarrow> (\<not> b \<Longrightarrow> safe P n Q) \<Longrightarrow> safe P (if b then m else n) Q"
  by simp

lemma safe_each: "(\<And>x. x \<in> set xs \<Longrightarrow> safe P (f x) (\<lambda>_. True)) \<Longrightarrow> safe P (st_each f xs) (\<lambda>_. True)"
proof (induction xs)
  case (Cons x xs)
  have "safe P (f x) (\<lambda>_. True)" "safe P (st_each f xs) (\<lambda>_. True)" using Cons by simp_all
  then show ?case unfolding st_each.simps by (intro safe_then safe_basic) simp_all
qed (simp add: safe_basic)

lemma safe_index: "i < length xs \<Longrightarrow> safe P (st_index xs i) (\<lambda>_. True)"
  by (simp add: safe_def st_index_def)

lemma safe_field: "at + k \<le> usize_max \<Longrightarrow> safe P (field_at rd b at k) (\<lambda>_. True)"
  unfolding field_at_def by (rule safe_then) (auto simp: safe_def usize_add_def checked_add_def)

lemma entry_at_inside: "entry_at base i n len what = Inr at \<Longrightarrow> at + n \<le> len"
  by (auto simp: entry_at_def checked_add_def checked_mul_def bind_eq_Some_conv split: option.splits if_splits)

text \<open>The passes keep the bytes of the file, which fit in memory.\<close>

abbreviation reads :: "bytes \<Rightarrow> elf \<Rightarrow> bool" where
  "reads bs e \<equiv> el_bytes e = bs"

lemma safe_entry:
  assumes "\<And>at. at + n \<le> length bs \<Longrightarrow> safe (reads bs) (f bs at) R"
  shows "safe (reads bs)
    (st_bind (st_get el_bytes) (\<lambda>b. st_bind (st_lift (entry_at base i n (length b) what)) (f b))) R"
  by (rule safe_bind [where Q = "\<lambda>b. b = bs"], rule safe_basic, simp,
      rule safe_bind [where Q = "\<lambda>at. at + n \<le> length bs"]) (auto intro!: safe_basic assms dest: entry_at_inside)

lemma safe_parse_segment:
  "length bs \<le> usize_max \<Longrightarrow> 56 \<le> n \<Longrightarrow> safe (reads bs) (parse_segment base n i) (\<lambda>_. True)"
  unfolding parse_segment_def by (intro safe_entry safe_then safe_lift safe_field safe_modify safe_basic) simp_all

lemma safe_parse_section:
  "length bs \<le> usize_max \<Longrightarrow> 64 \<le> n \<Longrightarrow> safe (reads bs) (parse_section base n i) (\<lambda>_. True)"
  unfolding parse_section_def by (intro safe_entry safe_then safe_lift safe_field safe_modify safe_basic) simp_all

lemma full_chunks_long: "(i, c) \<in> set (full_chunks least step bs) \<Longrightarrow> least \<le> length c"
  by (auto simp: full_chunks_def Let_def dest!: set_zip_rightD set_takeWhileD)

lemma safe_parse_symbol:
  assumes "24 \<le> length (snd c)"
  shows "safe (reads bs) (parse_symbol strings c) (\<lambda>_. True)"
  using assms unfolding parse_symbol_def split_beta
  by (intro safe_then safe_lift safe_index safe_modify) simp_all

lemma safe_parse_relocation: "safe (reads bs) (parse_relocation s c) (\<lambda>_. True)"
  unfolding parse_relocation_def split_beta by (intro safe_then safe_lift safe_if safe_modify safe_basic) simp_all

lemma safe_any_get: "safe P (st_get g) (\<lambda>_. True)"
  by (rule safe_basic) simp

lemma safe_parse_segments: "length bs \<le> usize_max \<Longrightarrow> safe (reads bs) parse_segments (\<lambda>_. True)"
  unfolding parse_segments_def
  by (intro safe_then safe_any_get safe_if safe_each safe_basic safe_parse_segment) (simp_all add: elf_size_defs)

lemma safe_parse_sections: "length bs \<le> usize_max \<Longrightarrow> safe (reads bs) parse_sections (\<lambda>_. True)"
  unfolding parse_sections_def split_beta
  by (intro safe_then safe_any_get safe_if safe_each safe_modify safe_basic safe_parse_section)
     (simp_all add: elf_size_defs Let_def)

lemma safe_parse_symbols: "safe (reads bs) parse_symbols (\<lambda>_. True)"
proof -
  have "safe (reads bs) (parse_symbol strings c) (\<lambda>_. True)"
    if "c \<in> set (full_chunks (unat SYM_SIZE) step bytes)" for strings c step bytes
    using that full_chunks_long [of "fst c" "snd c"] by (intro safe_parse_symbol) (simp add: elf_size_defs)
  then show ?thesis unfolding parse_symbols_def Let_def
    by (intro safe_then safe_any_get)
       (simp split: option.split, intro conjI impI allI safe_then safe_any_get safe_lift safe_if safe_each safe_basic TrueI)
qed

lemma safe_parse_relocations: "safe (reads bs) parse_relocations (\<lambda>_. True)"
  unfolding parse_relocations_def parse_rel_section_def
  by (intro safe_then safe_any_get safe_each safe_lift safe_basic safe_parse_relocation TrueI)

lemma safe_parse_passes: "length bs \<le> usize_max \<Longrightarrow> safe (reads bs) parse_passes (\<lambda>_. True)"
  unfolding parse_passes_def
  by (intro safe_then safe_parse_segments safe_parse_sections safe_parse_symbols safe_parse_relocations)

lemma parse_header_bytes: "parse_header bs = Inr e \<Longrightarrow> el_bytes e = bs"
  unfolding parse_header_def by (elim sum_bindE) auto

lemma elf_parse_returns:
  assumes "length bs \<le> usize_max"
  shows "\<exists>r. elf_parse bs = Some r"
proof (cases "parse_header bs")
  case (Inr e)
  then obtain r e' where "parse_passes e = Some (r, e')"
    using safe_parse_passes [OF assms] parse_header_bytes unfolding safe_def by blast
  then show ?thesis using Inr by (simp add: elf_parse_def)
qed (simp add: elf_parse_def)

text \<open>The lookups cannot panic either.\<close>

lemma elf_slice_length: "elf_slice b off sz = Inr bs \<Longrightarrow> length bs = unat sz"
  by (auto simp: elf_slice_def checked_add_def length_slice split: option.splits if_splits)

lemma read_at_vaddr_returns:
  "\<exists>r. read_at_vaddr e addr len = Some r \<and> (\<forall>bs. r = Inr bs \<longrightarrow> length bs = unat len)"
  by (auto simp: read_at_vaddr_def segment_at_def seg_contains_def u64_sub_def el_slice_def elf_slice_length
        split: option.split dest!: find_first_Some)

lemma value_at_returns: "n < 2 ^ 64 \<Longrightarrow> value_at n f e addr \<noteq> None"
  using read_at_vaddr_returns [of e addr "word_of_nat n"]
  by (auto simp: value_at_def unat_of_nat split: sum.split)

end
