(* ===== verification/Elf_Fields.thy ===== *)
theory Elf_Fields
  imports Elf_Write Elf_Safety
begin

text \<open>
  Fields, string tables and bodies as the writer puts them and the reader finds them. The locale
  \<open>field_codec\<close> is the contract of one field: what \<open>wr\<close> wrote at an offset, \<open>rd\<close> reads there.
\<close>

section \<open>Fields\<close>

locale field_codec =
  fixes rd :: "bytes \<Rightarrow> nat \<Rightarrow> string + 'a" and wr :: "'a \<Rightarrow> bytes"
  assumes reads_back: "drop at bs = wr v @ rest \<Longrightarrow> length bs \<le> usize_max \<Longrightarrow> rd bs at = Inr v"
    and not_empty: "wr v \<noteq> []"
begin

lemma field_back:
  assumes "drop (at + k) bs = wr v @ rest" and "length bs \<le> usize_max"
  shows "field_at rd bs at k s = Some (Inr v, s)"
proof -
  have "at + k \<le> length bs" using assms(1) not_empty [of v] by (metis append_is_Nil_conv drop_all nat_le_linear)
  then have "at + k \<le> usize_max" using assms(2) by linarith
  then show ?thesis
    using reads_back [OF assms] by (simp add: field_at_def st_bind_def usize_add_def checked_add_def)
qed

end

lemma field_inside:
  assumes "drop at bs = w @ rest" and "length bs \<le> usize_max" and "w \<noteq> []"
  shows "field_end at (length w) = at + length w" "at + length w \<le> length bs" "slice at (at + length w) bs = w"
proof -
  have "at \<le> length bs" using assms by (metis append_is_Nil_conv drop_all nat_le_linear)
  then show l: "at + length w \<le> length bs" using arg_cong [OF assms(1), of length] by simp
  then show "field_end at (length w) = at + length w" using assms(2) by (simp add: field_end_def checked_add_def)
  show "slice at (at + length w) bs = w" by (simp add: slice_def assms(1))
qed

interpretation f32: field_codec u32le u32_le
proof
  fix at bs v rest assume a: "drop at bs = u32_le v @ rest" "length bs \<le> usize_max"
  have "u32_le v \<noteq> []" by (metis length_word_bytes(5) list.size(3) zero_neq_numeral)
  from field_inside [OF a this] show "u32le bs at = Inr v" by (simp add: u32le_def)
qed (metis length_word_bytes(5) list.size(3) zero_neq_numeral)

interpretation f64: field_codec u64le u64_le
proof
  fix at bs v rest assume a: "drop at bs = u64_le v @ rest" "length bs \<le> usize_max"
  have "u64_le v \<noteq> []" by (metis length_word_bytes(6) list.size(3) zero_neq_numeral)
  from field_inside [OF a this] show "u64le bs at = Inr v" by (simp add: u64le_def)
qed (metis length_word_bytes(6) list.size(3) zero_neq_numeral)

interpretation f16: field_codec u16le u16_le
proof
  fix at bs v rest assume a: "drop at bs = u16_le v @ rest" "length bs \<le> usize_max"
  have ne: "u16_le v \<noteq> []" by (metis length_word_bytes(4) list.size(3) zero_neq_numeral)
  note i = field_inside [OF a ne]
  obtain x y where xy: "u16_le v = [x, y]"
    by (simp add: u16_le_def numeral_2_eq_2)
  have "drop at bs ! 0 = x" "drop at bs ! 1 = y" by (simp_all add: a(1) xy)
  moreover have "at + 2 \<le> length bs" using i(2) by simp
  ultimately have "[bs ! at, bs ! (at + 1)] = u16_le v" by (simp add: xy)
  then have "u16_from_le [bs ! at, bs ! (at + 1)] = v" using arg_cong [of _ _ u16_from_le] by fastforce
  then show "u16le bs at = Inr v" using i(1,2) by (simp add: u16le_def)
qed (metis length_word_bytes(4) list.size(3) zero_neq_numeral)

section \<open>String tables\<close>

definition name_ok :: "string \<Rightarrow> bool" where
  "name_ok s \<longleftrightarrow> utf8_valid (as_bytes s) \<and> 0 \<notin> set (as_bytes s)"

lemma cstr_here:
  assumes "name_ok s"
  shows "cstr (t @ as_bytes s @ 0 # u) (length t) = s"
proof -
  have "takeWhile (\<lambda>b. b \<noteq> 0) (as_bytes s @ 0 # u) = as_bytes s"
    using assms by (subst takeWhile_append2) (auto simp: name_ok_def)
  then show ?thesis using assms by (simp add: cstr_def lossy_text_def name_ok_def)
qed

lemma cstr_zero: "cstr (0 # u) 0 = []"
  by (simp add: cstr_def lossy_text_def as_chars_def)

text \<open>A table under construction starts with a NUL, and what was added stays readable.\<close>

definition strtab_ok :: "bytes \<Rightarrow> bool" where
  "strtab_ok t \<longleftrightarrow> (\<exists>u. t = 0 # u)"

lemma strtab_new_ok: "strtab_ok strtab_new"
  by (simp add: strtab_ok_def strtab_new_def)

lemma strtab_add_ok:
  assumes "strtab_ok t" and "strtab_add s t = (off, t')"
  obtains x where "t' = t @ x" "strtab_ok t'"
    "\<And>u. name_ok s \<Longrightarrow> length (t' @ u) < 2 ^ 32 \<Longrightarrow> cstr (t' @ u) (unat off) = s"
proof (cases "s = []")
  case True
  then show ?thesis using assms that [of "[]"] by (auto simp: strtab_add_def strtab_ok_def cstr_zero)
next
  case False
  then have t': "t' = t @ as_bytes s @ [0]" and off: "off = word_of_nat (length t)"
    using assms(2) by (simp_all add: strtab_add_def)
  show ?thesis
  proof (rule that [of "as_bytes s @ [0]"])
    show "strtab_ok t'" using assms(1) by (auto simp: strtab_ok_def t')
  next
    fix u assume "name_ok s" "length (t' @ u) < 2 ^ 32"
    then have "unat off = length t" by (simp add: off t' unat_of_nat)
    then show "cstr (t' @ u) (unat off) = s" using cstr_here [OF \<open>name_ok s\<close>, of t u] by (simp add: t')
  qed (simp add: t')
qed

lemma add_names_ok:
  assumes "add_names ss t = (offs, t')" and "strtab_ok t"
  shows "length offs = length ss \<and> (\<exists>x. t' = t @ x) \<and> strtab_ok t' \<and>
    (\<forall>i < length ss. \<forall>u. name_ok (ss ! i) \<longrightarrow> length (t' @ u) < 2 ^ 32 \<longrightarrow> cstr (t' @ u) (unat (offs ! i)) = ss ! i)"
  using assms
proof (induction ss arbitrary: t offs)
  case (Cons s ss)
  obtain off t1 where 1: "strtab_add s t = (off, t1)" by fastforce
  obtain offs2 where 2: "add_names ss t1 = (offs2, t')" and offs: "offs = off # offs2"
    using Cons.prems(1) 1 by (auto simp: Let_def split: prod.splits)
  obtain x where x: "t1 = t @ x" "strtab_ok t1"
    "\<And>u. name_ok s \<Longrightarrow> length (t1 @ u) < 2 ^ 32 \<Longrightarrow> cstr (t1 @ u) (unat off) = s"
    using strtab_add_ok [OF Cons.prems(2) 1] by metis
  note ih = Cons.IH [OF 2 x(2)]
  then obtain y where y: "t' = t1 @ y" by blast
  have "cstr (t' @ u) (unat off) = s" if "name_ok s" "length (t' @ u) < 2 ^ 32" for u
    using x(3) [of "y @ u"] that by (simp add: y)
  then show ?case using ih x(1) y by (auto simp: offs nth_Cons less_Suc_eq_0_disj split: nat.splits)
qed simp

section \<open>Bodies\<close>

text \<open>Where \<open>emit_bodies\<close> puts a section: its offset, the body there, and its alignment.\<close>

definition placed :: "bytes \<Rightarrow> nat \<Rightarrow> u64 \<Rightarrow> shdr \<Rightarrow> bool" where
  "placed out lo off s \<longleftrightarrow>
     (if sh_typ s = SHT_NULL then off = 0
      else
        (\<exists>p. lo \<le> p \<and> p \<le> length out \<and> p mod unat (max (sh_align s) 1) = 0 \<and>
             off = case_option (word_of_nat p) id (sh_offset_override s) \<and>
             (sh_occupies s \<longrightarrow> p + length (sh_data s) \<le> length out \<and> slice p (p + length (sh_data s)) out = sh_data s)))"

lemma slice_append_left: "b \<le> length xs \<Longrightarrow> slice a b (xs @ ys) = slice a b xs"
  by (simp add: slice_def)

lemma placed_extend:
  assumes "placed out lo off s" and "lo' \<le> lo"
  shows "placed (out @ x) lo' off s"
proof (cases "sh_typ s = SHT_NULL")
  case False
  then obtain p where p: "lo \<le> p" "p \<le> length out" "p mod unat (max (sh_align s) 1) = 0"
    "off = case_option (word_of_nat p) id (sh_offset_override s)"
    "sh_occupies s \<Longrightarrow> p + length (sh_data s) \<le> length out \<and> slice p (p + length (sh_data s)) out = sh_data s"
    using assms(1) by (auto simp: placed_def)
  have "lo' \<le> p" "p \<le> length (out @ x)" using p(1,2) assms(2) by simp_all
  then show ?thesis using False p(3-5) by (auto simp: placed_def slice_append_left intro!: exI [of _ p])
qed (use assms(1) in \<open>simp add: placed_def\<close>)

lemma emit_bodies_ok:
  "emit_bodies ss out = (offs, out') \<Longrightarrow>
     length offs = length ss \<and> (\<exists>x. out' = out @ x) \<and>
     (\<forall>i < length ss. placed out' (length out) (offs ! i) (ss ! i))"
proof (induction ss arbitrary: out offs)
  case (Cons s ss)
  show ?case
  proof (cases "sh_typ s = SHT_NULL")
    case True
    then obtain offs2 where "emit_bodies ss out = (offs2, out')" "offs = 0 # offs2"
      using Cons.prems by (auto simp: Let_def split: prod.splits)
    then show ?thesis using Cons.IH True by (auto simp: nth_Cons placed_def less_Suc_eq_0_disj split: nat.splits)
  next
    case False
    define a where "a = unat (max (sh_align s) 1)"
    define out1 where "out1 = pad_to a out"
    define out2 where "out2 = (if sh_occupies s then out1 @ sh_data s else out1)"
    define off where "off = case_option (word_of_nat (length out1)) id (sh_offset_override s)"
    have "emit_bodies (s # ss) out = (let (offs, out') = emit_bodies ss out2 in (off # offs, out'))"
      using False by (simp add: Let_def out2_def out1_def off_def a_def split: option.split)
    then obtain offs2 where e: "emit_bodies ss out2 = (offs2, out')" and offs: "offs = off # offs2"
      using Cons.prems by (auto split: prod.splits)
    note ih = Cons.IH [OF e]
    obtain k where k: "out1 = out @ replicate k 0" using pad_to_append [of a out] by (auto simp: out1_def)
    obtain x where x: "out' = out2 @ x" using ih by blast
    have "0 < a" by (auto simp: a_def unat_gt_0 max_def)
    then have "placed out2 (length out) off s"
      using False pad_to_aligned [of a out]
      by (auto simp: placed_def off_def out2_def slice_def a_def [symmetric] out1_def [symmetric] k intro!: exI [of _ "length out1"])
    then have "placed out' (length out) off s" unfolding x by (rule placed_extend) simp
    moreover have "placed out' (length out) (offs2 ! i) (ss ! i)" if "i < length ss" for i
      using ih that placed_extend [of out' "length out2" "offs2 ! i" "ss ! i" "length out" "[]"]
      by (simp add: out2_def k)
    ultimately show ?thesis using ih x by (auto simp: offs nth_Cons out2_def k less_Suc_eq_0_disj split: nat.splits)
  qed
qed simp

end
