(* ===== verification/Elf_Plan.thy ===== *)
theory Elf_Plan
  imports Elf_Fields "HOL-Library.Multiset"
begin

text \<open>
  What \<open>plan\<close> decides: the section header table holds every entry at its index, the symbol table
  describes the declared symbols in the order of the ABI, and the relocation tables name the symbols
  they were declared against.
\<close>

section \<open>An honest object\<close>

text \<open>
  No field is forced, names are text without NUL, section types are not the ones the writer makes
  itself, \<open>st_info\<close> and \<open>st_other\<close> hold the values they are given, and the section indices stay below
  the reserved ones.
\<close>

definition spec_ok :: "section_spec \<Rightarrow> bool" where
  "spec_ok s \<longleftrightarrow> name_ok (sp_name s) \<and> sp_type s \<notin> {SHT_NULL, SHT_SYMTAB, SHT_RELA, SHT_REL} \<and>
     sp_offset_override s = None \<and> sp_size_override s = None"

definition symbol_ok :: "symbol_spec \<Rightarrow> bool" where
  "symbol_ok y \<longleftrightarrow> name_ok (sy_name y) \<and> sy_bind y < 16 \<and> sy_type y < 16 \<and> sy_visibility y < 4"

definition object_ok :: "object_builder \<Rightarrow> bool" where
  "object_ok b \<longleftrightarrow>
     ob_header b = no_overrides \<and> ob_truncate_to b = None \<and> list_all spec_ok (ob_sections b) \<and>
     list_all symbol_ok (ob_symbols b) \<and> 2 * length (ob_sections b) + 4 < unat SHN_LORESERVE"

section \<open>The plan\<close>

lemma planE:
  assumes "plan b = Some (Inr l)"
  obtains fg t rela_for es where
    "plan_symbols b (plan_index b) tables_new = Some (Inr fg, t)" "plan_relocs b t = Inr rela_for"
    "plan_entries b t fg rela_for = Inr es" "plan_table b es = Inr l"
  using assms by (auto simp: plan_def sum_bind_eq_Inr split: if_splits option.splits sum.splits)

lemma plan_tableE:
  assumes "plan_table b es = Inr l"
  obtains offs shstr where
    "map fst (sort_key fst es) = map word_of_nat [0..<length es]"
    "add_names (map (sh_name \<circ> snd) (sort_key fst es)) strtab_new = (offs, shstr)"
    "unat (symtab_index b + 2) < length es"
    "l_builder l = b" "l_name_offsets l = offs" "l_shstrtab_index l = ucast (symtab_index b + 2)"
    "l_shdrs l = (map snd (sort_key fst es))[unat (symtab_index b + 2) :=
       (map snd (sort_key fst es) ! unat (symtab_index b + 2))
          \<lparr>sh_data := shstr, sh_size := word_of_nat (length shstr)\<rparr>]"
proof -
  obtain offs shstr where 3: "add_names (map sh_name (map snd (sort_key fst es))) strtab_new = (offs, shstr)" by fastforce
  show ?thesis
    using assms 3 by (intro that [of offs shstr]) (auto simp: plan_table_def Let_def comp_def split: if_splits)
qed

section \<open>The table of section headers\<close>

text \<open>The indices of a table that passed the check are those of the positions.\<close>

lemma keyed_table:
  fixes es :: "(u32 \<times> 'a) list"
  assumes "map fst (sort_key fst es) = map word_of_nat [0..<length es]" and "length es < 2 ^ 32"
  shows "distinct (map fst es)"
    and "(i, x) \<in> set es \<Longrightarrow> unat i < length es \<and> map snd (sort_key fst es) ! unat i = x"
    and "k < length es \<Longrightarrow> (word_of_nat k, map snd (sort_key fst es) ! k) \<in> set es"
proof -
  let ?t = "sort_key fst es"
  have key: "fst (?t ! k) = word_of_nat k" if "k < length es" for k
    using arg_cong [OF assms(1), of "\<lambda>l. l ! k"] that by simp
  have "inj_on (word_of_nat :: nat \<Rightarrow> u32) {0..<length es}"
  proof (rule inj_onI)
    fix x y assume "x \<in> {0..<length es}" "y \<in> {0..<length es}" and e: "(word_of_nat x :: u32) = word_of_nat y"
    then have "x < 2 ^ 32" "y < 2 ^ 32" using assms(2) by auto
    then show "x = y" using arg_cong [OF e, of unat] by (simp add: unat_of_nat)
  qed
  then have "distinct (map fst ?t)" unfolding assms(1) by (simp add: distinct_map)
  moreover have "mset (map fst ?t) = mset (map fst es)" by simp
  ultimately show "distinct (map fst es)" by (metis mset_eq_imp_distinct_iff)
  show "unat i < length es \<and> map snd ?t ! unat i = x" if "(i, x) \<in> set es"
  proof -
    have "(i, x) \<in> set ?t" using that by simp
    then obtain k where k: "k < length es" "?t ! k = (i, x)" by (metis in_set_conv_nth length_sort)
    then have "unat i = k" using key [OF k(1)] assms(2) by (simp add: unat_of_nat)
    then show ?thesis using k by simp
  qed
  show "(word_of_nat k, map snd ?t ! k) \<in> set es" if "k < length es"
  proof -
    have "?t ! k \<in> set ?t" using that by (intro nth_mem) simp
    then have "(fst (?t ! k), snd (?t ! k)) \<in> set es" by simp
    then show ?thesis using key [OF that] that by simp
  qed
qed

lemma lookup_name_cons:
  "lookup_name n ((m, i) # ps) = (if m = n then Some i else lookup_name n ps)"
  by (simp add: lookup_name_def find_first_def)

lemma lookup_name_Nil [simp]: "lookup_name n [] = None"
  by (simp add: lookup_name_def find_first_def)

lemma find_first_unique:
  assumes "k < length xs" "p (xs ! k)" "\<And>j. j < length xs \<Longrightarrow> p (xs ! j) \<Longrightarrow> j = k"
  shows "find_first p xs = Some (xs ! k)"
proof -
  have "xs = take k xs @ xs ! k # drop (Suc k) xs" using assms(1) by (simp add: id_take_nth_drop)
  moreover have "\<not> p x" if x: "x \<in> set (take k xs)" for x
  proof
    assume "p x"
    obtain j where j: "j < k" "j < length xs" "xs ! j = x" using x by (auto simp: nth_take_set)
    then have "j = k" using assms(3) \<open>p x\<close> by blast
    then show False using j(1) by simp
  qed
  then have "filter p (take k xs) = []" by (simp add: filter_empty_conv)
  ultimately have "filter p xs = xs ! k # filter p (drop (Suc k) xs)" using assms(2) by (metis append_Nil filter.simps(2) filter_append)
  then show ?thesis by (simp add: find_first_def)
qed

text \<open>The entries, by kind: the sections of the object, and those the writer adds.\<close>

definition is_rela_of :: "object_builder \<Rightarrow> (string \<times> bytes) list \<Rightarrow> u32 \<times> shdr \<Rightarrow> bool" where
  "is_rela_of b rela_for e \<longleftrightarrow>
     (\<exists>s \<in> set (ob_sections b). \<exists>p idx. section_index (plan_index b) (sp_name s) = Inr idx \<and>
        find_first (\<lambda>p. fst p = sp_name s) rela_for = Some p \<and>
        e = (rela_index b rela_for (sp_name s) idx, rela_shdr (sp_name s) (snd p) (symtab_index b) idx))"

definition is_spec_of :: "object_builder \<Rightarrow> u32 \<times> shdr \<Rightarrow> bool" where
  "is_spec_of b e \<longleftrightarrow>
     (\<exists>s \<in> set (ob_sections b). section_index (plan_index b) (sp_name s) = Inr (fst e) \<and> snd e = spec_shdr s)"

lemma section_entries_kinds:
  assumes "section_entries b rela_for s = Inr es" "s \<in> set (ob_sections b)"
  shows "length es \<le> 2 \<and> (\<forall>e \<in> set es. is_rela_of b rela_for e \<or> is_spec_of b e) \<and>
    (\<exists>idx. section_index (plan_index b) (sp_name s) = Inr idx \<and> (idx, spec_shdr s) \<in> set es)"
proof -
  obtain idx where i: "section_index (plan_index b) (sp_name s) = Inr idx"
    and es: "es = (case find_first (\<lambda>p. fst p = sp_name s) rela_for of
             None \<Rightarrow> []
           | Some (_, bs) \<Rightarrow>
               [(rela_index b rela_for (sp_name s) idx, rela_shdr (sp_name s) bs (symtab_index b) idx)]) @
          [(idx, spec_shdr s)]"
    using assms(1) by (auto simp: section_entries_def sum_bind_eq_Inr)
  have spec: "is_spec_of b (idx, spec_shdr s)" using i assms(2) by (auto simp: is_spec_of_def)
  show ?thesis
  proof (cases "find_first (\<lambda>p. fst p = sp_name s) rela_for")
    case None
    then show ?thesis using i spec by (simp add: es)
  next
    case (Some p)
    then have "is_rela_of b rela_for
        (rela_index b rela_for (sp_name s) idx, rela_shdr (sp_name s) (snd p) (symtab_index b) idx)"
      using i assms(2) unfolding is_rela_of_def by blast
    then show ?thesis using Some i spec by (cases p) (simp add: es)
  qed
qed

lemma plan_entries_kinds:
  assumes "plan_entries b t fg rela_for = Inr es"
  obtains mid where
    "es = (0, null_shdr) # mid @
       [(symtab_index b, symtab_shdr (symtab_bytes t) (symtab_index b + 1) fg),
        (symtab_index b + 1, strtab_shdr ''.strtab'' (t_strtab t)),
        (symtab_index b + 2, strtab_shdr ''.shstrtab'' [])]"
    "length mid \<le> 2 * length (ob_sections b)"
    "\<And>e. e \<in> set mid \<Longrightarrow> is_rela_of b rela_for e \<or> is_spec_of b e"
    "\<And>s. s \<in> set (ob_sections b) \<Longrightarrow>
       \<exists>idx. section_index (plan_index b) (sp_name s) = Inr idx \<and> (idx, spec_shdr s) \<in> set mid"
    "map_ok (section_entries b rela_for) (ob_sections b) = Inr mids \<Longrightarrow> mid = concat mids"
proof -
  obtain ess where ess: "map_ok (section_entries b rela_for) (ob_sections b) = Inr ess"
    and es: "es = [(0, null_shdr)] @ concat ess @
       [(symtab_index b, symtab_shdr (symtab_bytes t) (symtab_index b + 1) fg),
        (symtab_index b + 1, strtab_shdr ''.strtab'' (t_strtab t)),
        (symtab_index b + 2, strtab_shdr ''.shstrtab'' [])]"
    using assms by (auto simp: plan_entries_def sum_bind_eq_Inr)
  have a: "list_all2 (\<lambda>s e. section_entries b rela_for s = Inr e) (ob_sections b) ess"
    using ess by (simp add: map_ok_eq_Inr)
  have k: "section_entries b rela_for (ob_sections b ! i) = Inr (ess ! i)" if "i < length ess" for i
    using a that by (simp add: list_all2_conv_all_nth)
  have l: "length ess = length (ob_sections b)" using a by (simp add: list_all2_lengthD)
  have each: "length (ess ! i) \<le> 2 \<and> (\<forall>e \<in> set (ess ! i). is_rela_of b rela_for e \<or> is_spec_of b e) \<and>
    (\<exists>idx. section_index (plan_index b) (sp_name (ob_sections b ! i)) = Inr idx \<and> (idx, spec_shdr (ob_sections b ! i)) \<in> set (ess ! i))"
    if "i < length ess" for i
    using section_entries_kinds [OF k [OF that]] that l by simp
  show ?thesis
  proof (rule that)
    show "es = (0, null_shdr) # concat ess @
       [(symtab_index b, symtab_shdr (symtab_bytes t) (symtab_index b + 1) fg),
        (symtab_index b + 1, strtab_shdr ''.strtab'' (t_strtab t)),
        (symtab_index b + 2, strtab_shdr ''.shstrtab'' [])]" using es by simp
    have "\<forall>e \<in> set ess. length e \<le> 2" using each by (metis in_set_conv_nth)
    then have "length (concat ess) \<le> 2 * length ess" by (induction ess) auto
    then show "length (concat ess) \<le> 2 * length (ob_sections b)" by (simp add: l)
    show "is_rela_of b rela_for e \<or> is_spec_of b e" if e: "e \<in> set (concat ess)" for e
    proof -
      obtain x where "x \<in> set ess" "e \<in> set x" using e by auto
      then show ?thesis using each by (metis in_set_conv_nth)
    qed
    show "\<exists>idx. section_index (plan_index b) (sp_name s) = Inr idx \<and> (idx, spec_shdr s) \<in> set (concat ess)"
      if s: "s \<in> set (ob_sections b)" for s
    proof -
      obtain i where "i < length ess" "s = ob_sections b ! i" using s l by (metis in_set_conv_nth)
      then show ?thesis using each [of i] by fastforce
    qed
    show "concat ess = concat mids" if "map_ok (section_entries b rela_for) (ob_sections b) = Inr mids"
      using that ess by simp
  qed
qed

end
