(* ===== verification/Elf_Symbols.thy ===== *)
theory Elf_Symbols
  imports Elf_Plan
begin

text \<open>
  The symbol table of a planned object: the symbols it describes (the null symbol, one symbol per
  section, the local symbols, then the others), and the indices under which relocations find them.
\<close>

section \<open>The symbols an object declares\<close>

definition null_view :: elf_symbol where
  "null_view = \<lparr>ym_index = 0, ym_name = [], ym_bind = 0, ym_type = 0, ym_visibility = 0, ym_shndx = 0,
     ym_value = 0, ym_size = 0\<rparr>"

definition section_view :: "u32 \<Rightarrow> elf_symbol" where
  "section_view idx = \<lparr>ym_index = 0, ym_name = [], ym_bind = STB_LOCAL, ym_type = STT_SECTION,
     ym_visibility = STV_DEFAULT, ym_shndx = ucast idx, ym_value = 0, ym_size = 0\<rparr>"

definition symbol_view :: "u16 \<Rightarrow> symbol_spec \<Rightarrow> elf_symbol" where
  "symbol_view shndx y = \<lparr>ym_index = 0, ym_name = sy_name y, ym_bind = sy_bind y, ym_type = sy_type y,
     ym_visibility = sy_visibility y, ym_shndx = shndx, ym_value = sy_value y, ym_size = sy_size y\<rparr>"

definition section_views :: "object_builder \<Rightarrow> elf_symbol list \<Rightarrow> bool" where
  "section_views b vs \<longleftrightarrow>
     (if ob_omit_section_symbols b then vs = []
      else list_all2 (\<lambda>s v. \<exists>idx. section_index (plan_index b) (sp_name s) = Inr idx \<and> v = section_view idx)
             (ob_sections b) vs)"

definition symbol_views :: "object_builder \<Rightarrow> symbol_spec list \<Rightarrow> elf_symbol list \<Rightarrow> bool" where
  "symbol_views b ys vs \<longleftrightarrow>
     list_all2 (\<lambda>y v. \<exists>shndx. sym_shndx (plan_index b) (sy_section y) = Inr shndx \<and> v = symbol_view shndx y) ys vs"

section \<open>A table and the symbols it describes\<close>

definition decodes :: "bytes \<Rightarrow> bytes \<Rightarrow> elf_symbol \<Rightarrow> bool" where
  "decodes strtab bs v \<longleftrightarrow>
     (\<exists>off info other. bs = sym_bytes off info other (ym_shndx v) (ym_value v) (ym_size v) \<and>
        cstr strtab (unat off) = ym_name v \<and> info_bind info = ym_bind v \<and> info_type info = ym_type v \<and>
        other AND 3 = ym_visibility v)"

text \<open>However the string table grows later.\<close>

definition decodes_on :: "bytes \<Rightarrow> bytes \<Rightarrow> elf_symbol \<Rightarrow> bool" where
  "decodes_on strtab bs v \<longleftrightarrow> (\<forall>u. length (strtab @ u) < 2 ^ 32 \<longrightarrow> decodes (strtab @ u) bs v)"

lemma decodes_onI:
  assumes "\<And>u. length (t @ u) < 2 ^ 32 \<Longrightarrow> cstr (t @ u) (unat off) = ym_name v"
    and "info_bind info = ym_bind v" "info_type info = ym_type v" "other AND 3 = ym_visibility v"
    and "shndx = ym_shndx v" "val = ym_value v" "sz = ym_size v"
  shows "decodes_on t (sym_bytes off info other shndx val sz) v"
  using assms unfolding decodes_on_def decodes_def by blast

lemma cstr_start: "strtab_ok t \<Longrightarrow> cstr (t @ u) 0 = []"
  by (auto simp: strtab_ok_def cstr_zero)

lemma decodes_on_grow: "decodes_on t bs v \<Longrightarrow> decodes_on (t @ x) bs v"
  unfolding decodes_on_def by (metis append_assoc)

definition named_at :: "string \<Rightarrow> elf_symbol list \<Rightarrow> u32 option" where
  "named_at n vs =
     (if n \<noteq> [] \<and> (\<exists>v \<in> set vs. ym_name v = n)
      then Some (word_of_nat (length (takeWhile (\<lambda>v. ym_name v \<noteq> n) vs))) else None)"

definition table_ok :: "object_builder \<Rightarrow> sym_tables \<Rightarrow> elf_symbol list \<Rightarrow> bool" where
  "table_ok b t vs \<longleftrightarrow>
     strtab_ok (t_strtab t) \<and> list_all2 (\<lambda>p v. decodes_on (t_strtab t) (snd p) v) (t_syms t) vs \<and>
     (\<forall>n. lookup_name n (t_index t) = named_at n vs) \<and>
     (\<forall>(n, i) \<in> set (t_section_index t). \<exists>k idx. k < length vs \<and> i = word_of_nat k \<and>
        section_index (plan_index b) n = Inr idx \<and> vs ! k = section_view idx)"

lemma lookup_name_snoc:
  "lookup_name n (ps @ [(m, i)]) =
     (case lookup_name n ps of Some j \<Rightarrow> Some j | None \<Rightarrow> if m = n then Some i else None)"
  by (induction ps) (auto simp: lookup_name_cons)

lemma named_at_snoc:
  "named_at n (vs @ [v]) =
     (case named_at n vs of
        Some j \<Rightarrow> Some j
      | None \<Rightarrow> if n \<noteq> [] \<and> ym_name v = n then Some (word_of_nat (length vs)) else None)"
proof (cases "\<exists>w \<in> set vs. ym_name w = n")
  case True
  then show ?thesis by (auto simp: named_at_def takeWhile_append1)
next
  case False
  then have "takeWhile (\<lambda>v. ym_name v \<noteq> n) vs = vs" by (simp add: takeWhile_eq_all_conv)
  then show ?thesis using False by (auto simp: named_at_def takeWhile_append2)
qed

lemma visibility_kept: "v < 4 \<Longrightarrow> v AND 3 = v" for v :: u8
proof -
  assume "v < 4"
  then have "take_bit 2 v = v" by (simp add: word_less_nat_alt unsigned_take_bit_eq word_unat_eq_iff take_bit_nat_eq_self)
  then show ?thesis by (simp add: take_bit_eq_mask mask_eq_exp_minus_1)
qed

lemma table_ok_snoc:
  assumes t: "table_ok b t vs"
    and strtab: "t_strtab t' = t_strtab t @ x" "strtab_ok (t_strtab t')"
    and syms: "t_syms t' = t_syms t @ [(nm, bs)]" "decodes_on (t_strtab t') bs v"
    and index: "t_index t' = (if ym_name v \<noteq> [] then t_index t @ [(ym_name v, word_of_nat (length vs))] else t_index t)"
    and sects: "t_section_index t' = t_section_index t @ sx"
      "\<And>n i. (n, i) \<in> set sx \<Longrightarrow>
         i = word_of_nat (length vs) \<and> (\<exists>idx. section_index (plan_index b) n = Inr idx \<and> v = section_view idx)"
  shows "table_ok b t' (vs @ [v])"
  unfolding table_ok_def
proof (intro conjI allI)
  have "list_all2 (\<lambda>p v. decodes_on (t_strtab t @ x) (snd p) v) (t_syms t) vs"
    using t decodes_on_grow by (auto simp: table_ok_def elim!: list_all2_mono)
  then show "list_all2 (\<lambda>p v. decodes_on (t_strtab t') (snd p) v) (t_syms t') (vs @ [v])"
    using syms strtab by (simp add: list_all2_appendI)
next
  fix n
  show "lookup_name n (t_index t') = named_at n (vs @ [v])"
    using t by (auto simp: table_ok_def index named_at_snoc lookup_name_snoc split: option.split)
next
  show "\<forall>(n, i) \<in> set (t_section_index t'). \<exists>k idx. k < length (vs @ [v]) \<and> i = word_of_nat k \<and>
      section_index (plan_index b) n = Inr idx \<and> (vs @ [v]) ! k = section_view idx"
  proof (clarify)
    fix n i assume "(n, i) \<in> set (t_section_index t')"
    then consider "(n, i) \<in> set (t_section_index t)" | "(n, i) \<in> set sx" by (auto simp: sects(1))
    then show "\<exists>k idx. k < length (vs @ [v]) \<and> i = word_of_nat k \<and>
        section_index (plan_index b) n = Inr idx \<and> (vs @ [v]) ! k = section_view idx"
    proof cases
      case 1
      then obtain k idx where k: "k < length vs" "i = word_of_nat k" "section_index (plan_index b) n = Inr idx"
          "vs ! k = section_view idx"
        using t unfolding table_ok_def by blast
      then show ?thesis by (intro exI [of _ k] exI [of _ idx]) (simp add: nth_append)
    next
      case 2
      then obtain idx where "i = word_of_nat (length vs)" "section_index (plan_index b) n = Inr idx" "v = section_view idx"
        using sects(2) by blast
      then show ?thesis by (intro exI [of _ "length vs"] exI [of _ idx]) simp
    qed
  qed
qed (use strtab in simp)

lemma table_new_ok: "table_ok b tables_new [null_view]"
proof -
  have "replicate 24 0 = sym_bytes 0 0 0 0 0 0"
    by code_simp
  then have "decodes_on strtab_new (replicate 24 0) null_view"
    by (simp, intro decodes_onI) (simp_all add: null_view_def cstr_start strtab_new_ok info_bind_def info_type_def)
  then show ?thesis
    by (auto simp: table_ok_def tables_new_def strtab_new_ok null_view_def named_at_def)
qed

lemma push_section_sym_ok:
  assumes "table_ok b t vs" and "push_section_sym (plan_index b) s t = Some (Inr (), t')"
  obtains idx where "section_index (plan_index b) (sp_name s) = Inr idx" "table_ok b t' (vs @ [section_view idx])"
proof -
  obtain idx where i: "section_index (plan_index b) (sp_name s) = Inr idx"
    and t': "t' = t\<lparr>t_syms := t_syms t @ [(sp_name s, sym_bytes 0 (st_info STB_LOCAL STT_SECTION) STV_DEFAULT (ucast idx) 0 0)],
       t_section_index := t_section_index t @ [(sp_name s, word_of_nat (length (t_syms t)))]\<rparr>"
    using assms(2) by (cases "section_index (plan_index b) (sp_name s)") (auto simp: push_section_sym_def)
  have l: "length (t_syms t) = length vs" "strtab_ok (t_strtab t)"
    using assms(1) by (auto simp: table_ok_def list_all2_lengthD)
  have "decodes_on (t_strtab t) (sym_bytes 0 (st_info STB_LOCAL STT_SECTION) STV_DEFAULT (ucast idx) 0 0) (section_view idx)"
    using info_pack [of STB_LOCAL STT_SECTION] cstr_start [OF l(2)]
    by (intro decodes_onI) (simp_all add: section_view_def STB_LOCAL_def STT_SECTION_def STV_DEFAULT_def)
  then have "table_ok b t' (vs @ [section_view idx])"
    using i l by (intro table_ok_snoc [OF assms(1)]) (auto simp: t' section_view_def)
  then show ?thesis using i that by blast
qed

lemma push_sym_ok:
  assumes "table_ok b t vs" and "push_sym (plan_index b) y t = Some (Inr (), t')" and "symbol_ok y"
  obtains shndx where "sym_shndx (plan_index b) (sy_section y) = Inr shndx" "table_ok b t' (vs @ [symbol_view shndx y])"
proof -
  obtain off st where a: "strtab_add (sy_name y) (t_strtab t) = (off, st)" by fastforce
  obtain shndx where i: "sym_shndx (plan_index b) (sy_section y) = Inr shndx"
    and t': "t' = t\<lparr>t_strtab := st,
            t_syms := t_syms t @ [(sy_name y, sym_bytes off (st_info (sy_bind y) (sy_type y))
              (sy_visibility y) shndx (sy_value y) (sy_size y))],
            t_index := (if sy_name y \<noteq> [] then t_index t @ [(sy_name y, word_of_nat (length (t_syms t)))] else t_index t)\<rparr>"
    using assms(2) a by (cases "sym_shndx (plan_index b) (sy_section y)") (auto simp: push_sym_def Let_def)
  have l: "length (t_syms t) = length vs" "strtab_ok (t_strtab t)"
    using assms(1) by (auto simp: table_ok_def list_all2_lengthD)
  obtain x where x: "st = t_strtab t @ x" "strtab_ok st"
    "\<And>u. name_ok (sy_name y) \<Longrightarrow> length (st @ u) < 2 ^ 32 \<Longrightarrow> cstr (st @ u) (unat off) = sy_name y"
    using strtab_add_ok [OF l(2) a] by metis
  have "decodes_on st (sym_bytes off (st_info (sy_bind y) (sy_type y)) (sy_visibility y) shndx (sy_value y) (sy_size y))
      (symbol_view shndx y)"
    using assms(3) info_pack [of "sy_bind y" "sy_type y"] x(3)
    by (intro decodes_onI) (simp_all add: symbol_view_def symbol_ok_def visibility_kept)
  then have "table_ok b t' (vs @ [symbol_view shndx y])"
    using x l by (intro table_ok_snoc [OF assms(1), of t' x _ _ _ "[]"]) (simp_all add: t' symbol_view_def)
  then show ?thesis using i that by blast
qed

section \<open>The whole table\<close>

lemma push_section_syms_ok:
  assumes "table_ok b t vs" and "st_each (push_section_sym (plan_index b)) ss t = Some (Inr us, t')"
  shows "\<exists>ws. list_all2 (\<lambda>s v. \<exists>idx. section_index (plan_index b) (sp_name s) = Inr idx \<and> v = section_view idx) ss ws \<and>
    table_ok b t' (vs @ ws)"
  using assms
proof (induction ss arbitrary: t vs us)
  case (Cons s ss)
  obtain t1 us1 where 1: "push_section_sym (plan_index b) s t = Some (Inr (), t1)"
      "st_each (push_section_sym (plan_index b)) ss t1 = Some (Inr us1, t')"
    using Cons.prems(2) by (rule st_each_ConsE) auto
  obtain idx where idx: "section_index (plan_index b) (sp_name s) = Inr idx" "table_ok b t1 (vs @ [section_view idx])"
    using push_section_sym_ok [OF Cons.prems(1) 1(1)] .
  obtain ws where "list_all2 (\<lambda>s v. \<exists>idx. section_index (plan_index b) (sp_name s) = Inr idx \<and> v = section_view idx) ss ws"
      "table_ok b t' ((vs @ [section_view idx]) @ ws)"
    using Cons.IH [OF idx(2) 1(2)] by blast
  then show ?case using idx(1) by (intro exI [of _ "section_view idx # ws"]) simp
qed auto

lemma push_syms_ok:
  assumes "table_ok b t vs" and "st_each (push_sym (plan_index b)) ys t = Some (Inr us, t')" and "list_all symbol_ok ys"
  shows "\<exists>ws. symbol_views b ys ws \<and> table_ok b t' (vs @ ws)"
  using assms
proof (induction ys arbitrary: t vs us)
  case (Cons y ys)
  obtain t1 us1 where 1: "push_sym (plan_index b) y t = Some (Inr (), t1)"
      "st_each (push_sym (plan_index b)) ys t1 = Some (Inr us1, t')"
    using Cons.prems(2) by (rule st_each_ConsE) auto
  obtain shndx where sx: "sym_shndx (plan_index b) (sy_section y) = Inr shndx" "table_ok b t1 (vs @ [symbol_view shndx y])"
    using push_sym_ok [OF Cons.prems(1) 1(1)] Cons.prems(3) by auto
  obtain ws where "symbol_views b ys ws" "table_ok b t' ((vs @ [symbol_view shndx y]) @ ws)"
    using Cons.IH [OF sx(2) 1(2)] Cons.prems(3) by auto
  then show ?case using sx(1) by (intro exI [of _ "symbol_view shndx y # ws"]) (simp add: symbol_views_def)
qed (auto simp: symbol_views_def)

text \<open>The symbols in the order of the ABI; the plan records where the first that is not local stands.\<close>

lemma plan_symbols_ok:
  assumes "plan_symbols b (plan_index b) tables_new = Some (Inr fg, t)" and "list_all symbol_ok (ob_symbols b)"
  obtains ss ls gs where "section_views b ss"
    "symbol_views b (filter (\<lambda>y. sy_bind y = STB_LOCAL) (ob_symbols b)) ls"
    "symbol_views b (filter (\<lambda>y. sy_bind y \<noteq> STB_LOCAL) (ob_symbols b)) gs"
    "table_ok b t (null_view # ss @ ls @ gs)" "fg = word_of_nat (1 + length ss + length ls)"
proof -
  obtain u1 t1 where 1: "(if ob_omit_section_symbols b then st_return []
      else st_each (push_section_sym (plan_index b)) (ob_sections b)) tables_new = Some (Inr u1, t1)"
    and r1: "st_bind (st_each (push_sym (plan_index b)) (filter (\<lambda>s. sy_bind s = STB_LOCAL) (ob_symbols b))) (\<lambda>_.
     st_bind (st_get (\<lambda>t. word_of_nat (length (t_syms t)))) (\<lambda>first_global.
     st_bind (st_each (push_sym (plan_index b)) (filter (\<lambda>s. sy_bind s \<noteq> STB_LOCAL) (ob_symbols b))) (\<lambda>_.
     st_return first_global))) t1 = Some (Inr fg, t)"
    using assms(1) unfolding plan_symbols_def by (rule st_bindE)
  from r1 obtain u2 t2 where 2: "st_each (push_sym (plan_index b)) (filter (\<lambda>s. sy_bind s = STB_LOCAL) (ob_symbols b)) t1 = Some (Inr u2, t2)"
    and r2: "st_bind (st_get (\<lambda>t. word_of_nat (length (t_syms t)))) (\<lambda>first_global.
     st_bind (st_each (push_sym (plan_index b)) (filter (\<lambda>s. sy_bind s \<noteq> STB_LOCAL) (ob_symbols b))) (\<lambda>_.
     st_return first_global)) t2 = Some (Inr fg, t)"
    by (rule st_bindE)
  from r2 have "st_bind (st_each (push_sym (plan_index b)) (filter (\<lambda>s. sy_bind s \<noteq> STB_LOCAL) (ob_symbols b))) (\<lambda>_.
     st_return (word_of_nat (length (t_syms t2)))) t2 = Some (Inr fg, t)"
    by simp
  then obtain u3 where 3: "st_each (push_sym (plan_index b)) (filter (\<lambda>s. sy_bind s \<noteq> STB_LOCAL) (ob_symbols b)) t2 = Some (Inr u3, t)"
    and fg: "fg = word_of_nat (length (t_syms t2))"
    by (rule st_bindE) auto
  obtain ss where ss: "section_views b ss" "table_ok b t1 ([null_view] @ ss)"
    using 1 table_new_ok [of b]
    by (auto simp: section_views_def split: if_splits dest!: push_section_syms_ok [OF table_new_ok])
  obtain ls where ls: "symbol_views b (filter (\<lambda>y. sy_bind y = STB_LOCAL) (ob_symbols b)) ls" "table_ok b t2 (([null_view] @ ss) @ ls)"
    using push_syms_ok [OF ss(2) 2] assms(2) by (auto simp: list_all_iff)
  obtain gs where gs: "symbol_views b (filter (\<lambda>y. sy_bind y \<noteq> STB_LOCAL) (ob_symbols b)) gs"
      "table_ok b t ((([null_view] @ ss) @ ls) @ gs)"
    using push_syms_ok [OF ls(2) 3] assms(2) by (auto simp: list_all_iff)
  have "length (t_syms t2) = 1 + length ss + length ls" using ls(2) by (auto simp: table_ok_def dest!: list_all2_lengthD)
  then show ?thesis using that ss(1) ls(1) gs fg by simp
qed

end
