(* ===== verification/Elf_Relocs.thy ===== *)
theory Elf_Relocs
  imports Elf_Symbols
begin

text \<open>
  The relocation tables of a planned object: each section with relocations has its own table, and the
  symbol index in an entry is the one of the symbol it was declared against.
\<close>

definition reloc_view :: "nat \<Rightarrow> u32 \<Rightarrow> reloc \<Rightarrow> relocation" where
  "reloc_view target i r =
     \<lparr>rl_target_section = target, rl_offset = re_offset r, rl_sym = i, rl_kind = re_kind r,
      rl_addend = re_addend r\<rparr>"

text \<open>The symbol index an entry carries, among the symbols of the object.\<close>

definition names_symbol :: "object_builder \<Rightarrow> elf_symbol list \<Rightarrow> rel_target \<Rightarrow> u32 \<Rightarrow> bool" where
  "names_symbol b vs target i \<longleftrightarrow>
     (case target of
        RT_Raw k \<Rightarrow> i = k
      | RT_Symbol n \<Rightarrow> named_at n vs = Some i
      | RT_Section n \<Rightarrow>
          (\<exists>k idx. k < length vs \<and> i = word_of_nat k \<and> section_index (plan_index b) n = Inr idx \<and>
             vs ! k = section_view idx))"

lemma reloc_symbol_names:
  assumes "table_ok b t vs" and "reloc_symbol t sect target = Inr i"
  shows "names_symbol b vs target i"
proof (cases target)
  case (RT_Section n)
  then have "lookup_name n (t_section_index t) = Some i" using assms(2) by (simp add: reloc_symbol_def)
  then have "(n, i) \<in> set (t_section_index t)" by (auto simp: lookup_name_def dest: find_first_Some)
  then show ?thesis using assms(1) RT_Section unfolding table_ok_def names_symbol_def by fastforce
qed (use assms in \<open>auto simp: reloc_symbol_def names_symbol_def table_ok_def\<close>)

text \<open>The bytes of a relocation table, and the indices in it.\<close>

definition table_of :: "reloc list \<Rightarrow> u32 list \<Rightarrow> bytes" where
  "table_of rs is = concat (map (\<lambda>(r, i). rela_entry (re_offset r) i (re_kind r) (re_addend r)) (zip rs is))"

lemma rela_bytes_table:
  assumes "table_ok b t vs" and "rela_bytes t s = Inr (n, bs)"
  obtains "is" where "n = sp_name s" "length is = length (sp_relocs s)" "bs = table_of (sp_relocs s) is"
    "\<And>k. k < length is \<Longrightarrow> names_symbol b vs (re_target (sp_relocs s ! k)) (is ! k)"
proof -
  obtain bss where n: "n = sp_name s" "bs = concat bss"
    and a: "list_all2 (\<lambda>r bs. reloc_bytes t (sp_name s) r = Inr bs) (sp_relocs s) bss"
    using assms(2) by (auto simp: rela_bytes_def sum_bind_eq_Inr map_ok_eq_Inr)
  have "\<exists>is. length is = length rs \<and> concat bss = table_of rs is \<and>
      (\<forall>k < length is. names_symbol b vs (re_target (rs ! k)) (is ! k))"
    if "list_all2 (\<lambda>r bs. reloc_bytes t (sp_name s) r = Inr bs) rs bss" for rs
    using that
  proof (induction rs bss rule: list_all2_induct)
    case (Cons r rs bs bss)
    obtain i where i: "reloc_symbol t (sp_name s) (re_target r) = Inr i"
      "bs = rela_entry (re_offset r) i (re_kind r) (re_addend r)"
      using Cons(1) by (auto simp: reloc_bytes_def sum_bind_eq_Inr)
    obtain "is" where is': "length is = length rs" "concat bss = table_of rs is"
      "\<forall>k < length is. names_symbol b vs (re_target (rs ! k)) (is ! k)" using Cons.IH by blast
    have "names_symbol b vs (re_target r) i" using reloc_symbol_names [OF assms(1) i(1)] .
    then show ?case using i is'
      by (intro exI [of _ "i # is"]) (auto simp: table_of_def nth_Cons less_Suc_eq_0_disj split: nat.split)
  qed (simp add: table_of_def)
  then show ?thesis using a n that by blast
qed

section \<open>One table per section\<close>

lemma distinct_concat_apart:
  assumes "distinct (map fst (concat xss))" "i < j" "j < length xss" "x \<in> set (xss ! i)" "y \<in> set (xss ! j)"
  shows "fst x \<noteq> fst y"
proof -
  have i: "i < length xss" using assms(2,3) by simp
  have "concat xss = concat (take i xss) @ xss ! i @ concat (drop (Suc i) xss)"
    using arg_cong [OF id_take_nth_drop [OF i], of concat] by simp
  then have "set (map fst (xss ! i)) \<inter> set (map fst (concat (drop (Suc i) xss))) = {}"
    using assms(1) by (metis distinct_append map_append)
  moreover have "xss ! j \<in> set (drop (Suc i) xss)"
    using assms(2,3) by (auto simp: in_set_conv_nth intro!: exI [of _ "j - Suc i"])
  then have "fst y \<in> set (map fst (concat (drop (Suc i) xss)))" using assms(5) by auto
  moreover have "fst x \<in> set (map fst (xss ! i))" using assms(4) by simp
  ultimately show ?thesis by (metis IntI emptyE)
qed

text \<open>Two sections of a planned object never share a name.\<close>

lemma plan_names_distinct:
  assumes "map_ok (section_entries b rela_for) (ob_sections b) = Inr mids" and "distinct (map fst (concat mids))"
  shows "distinct (map sp_name (ob_sections b))"
proof -
  have a: "section_entries b rela_for (ob_sections b ! i) = Inr (mids ! i)" if "i < length mids" for i
    using assms(1) that by (simp add: map_ok_eq_Inr list_all2_conv_all_nth)
  have l: "length mids = length (ob_sections b)" using assms(1) by (simp add: map_ok_eq_Inr list_all2_conv_all_nth)
  have "sp_name (ob_sections b ! i) \<noteq> sp_name (ob_sections b ! j)" if "i < j" "j < length (ob_sections b)" for i j
  proof
    assume n: "sp_name (ob_sections b ! i) = sp_name (ob_sections b ! j)"
    have "\<exists>idx. section_index (plan_index b) (sp_name (ob_sections b ! k)) = Inr idx \<and> (idx, spec_shdr (ob_sections b ! k)) \<in> set (mids ! k)"
      if "k < length (ob_sections b)" for k
      using section_entries_kinds [OF a] that l by simp
    then obtain x y where "section_index (plan_index b) (sp_name (ob_sections b ! i)) = Inr x" "(x, spec_shdr (ob_sections b ! i)) \<in> set (mids ! i)"
        "section_index (plan_index b) (sp_name (ob_sections b ! j)) = Inr y" "(y, spec_shdr (ob_sections b ! j)) \<in> set (mids ! j)"
      using \<open>i < j\<close> \<open>j < length (ob_sections b)\<close> by (meson order.strict_trans)
    then show False using distinct_concat_apart [OF assms(2) that(1)] that(2) l n by fastforce
  qed
  then show ?thesis by (auto simp: distinct_conv_nth) (metis linorder_neqE_nat)
qed

lemma find_first_assoc: "distinct (map fst ps) \<Longrightarrow> (n, x) \<in> set ps \<Longrightarrow> find_first (\<lambda>p. fst p = n) ps = Some (n, x)"
  by (induction ps) (force simp: find_first_def)+

text \<open>The table of a section is the one made from its own relocations.\<close>

lemma plan_relocs_own:
  assumes "plan_relocs b t = Inr rela_for" "distinct (map sp_name (ob_sections b))" "s \<in> set (ob_sections b)"
  shows "find_first (\<lambda>p. fst p = sp_name s) rela_for =
    (if sp_relocs s = [] then None else (case rela_bytes t s of Inl _ \<Rightarrow> None | Inr p \<Rightarrow> Some p)) \<and>
    (sp_relocs s \<noteq> [] \<longrightarrow> (\<exists>bs. rela_bytes t s = Inr (sp_name s, bs)))"
proof -
  let ?f = "filter (\<lambda>s. sp_relocs s \<noteq> []) (ob_sections b)"
  have a: "list_all2 (\<lambda>s p. rela_bytes t s = Inr p) ?f rela_for"
    using assms(1) by (simp add: plan_relocs_def map_ok_eq_Inr)
  have n: "map fst rela_for = map sp_name ?f"
    using a by (induction rule: list_all2_induct) (auto simp: rela_bytes_def sum_bind_eq_Inr)
  have d: "distinct (map fst rela_for)" unfolding n using assms(2) by (rule distinct_map_filter)
  show ?thesis
  proof (cases "sp_relocs s = []")
    case True
    have "sp_name s \<notin> set (map fst rela_for)"
    proof
      assume "sp_name s \<in> set (map fst rela_for)"
      then obtain s' where "s' \<in> set (ob_sections b)" "sp_relocs s' \<noteq> []" "sp_name s' = sp_name s" unfolding n by auto
      then show False using True assms(2,3) by (metis distinct_map inj_on_eq_iff)
    qed
    then have "filter (\<lambda>p. fst p = sp_name s) rela_for = []" by (force simp: filter_empty_conv)
    then show ?thesis using True by (simp add: find_first_def)
  next
    case False
    then have "s \<in> set ?f" using assms(3) by simp
    then obtain k where k: "k < length ?f" "?f ! k = s" by (metis in_set_conv_nth)
    then have "rela_bytes t s = Inr (rela_for ! k)" "k < length rela_for"
      using list_all2_nthD [OF a k(1)] list_all2_lengthD [OF a] by simp_all
    then obtain p where p: "rela_bytes t s = Inr p" "p \<in> set rela_for" using nth_mem by blast
    moreover have "fst p = sp_name s" using p(1) by (auto simp: rela_bytes_def sum_bind_eq_Inr)
    ultimately show ?thesis using False find_first_assoc [OF d, of "fst p" "snd p"] by (cases p) auto
  qed
qed

end
