(* ===== verification/Elf_Roundtrip.thy ===== *)
theory Elf_Roundtrip
  imports Elf_Relocs
begin

text \<open>
  A written object read back: what \<open>emit\<close> puts where, and what each pass of the reader makes of it.
\<close>

section \<open>The file\<close>

lemma slice_behind_header:
  assumes "length h = 64" "64 \<le> a"
  shows "slice a e (h @ drop 64 out) = slice a e out"
proof -
  have "drop a (h @ drop 64 out) = drop (a - 64) (drop 64 out)" using assms by simp
  then show ?thesis using assms(2) by (simp add: slice_def)
qed

lemma drop_behind_header:
  "length h = 64 \<Longrightarrow> 64 \<le> a \<Longrightarrow> drop a (h @ drop 64 out) = drop a out"
  by simp

lemma length_shdr_bytes [simp]: "length (shdr_bytes n off s) = 64"
  by (simp add: shdr_bytes_def)

lemma table_entry:
  assumes "i < n" "\<And>j. j < n \<Longrightarrow> length (g j) = (k :: nat)"
  shows "\<exists>rest. drop (k * i) (concat (map g [0..<n])) = g i @ rest"
  using assms
proof (induction n arbitrary: i g)
  case (Suc n)
  have e: "concat (map g [0..<Suc n]) = g 0 @ concat (map (g \<circ> Suc) [0..<n])"
    by (simp only: upt_conv_Cons [OF zero_less_Suc] map_Suc_upt [symmetric] list.map concat.simps map_map)
  show ?case
  proof (cases i)
    case 0
    then show ?thesis unfolding e by simp
  next
    case (Suc j)
    have "length (g 0) = k" using Suc.prems(2) by simp
    moreover have "\<exists>rest. drop (k * j) (concat (map (g \<circ> Suc) [0..<n])) = (g \<circ> Suc) j @ rest"
      using Suc.prems Suc by (intro Suc.IH) simp_all
    ultimately show ?thesis unfolding e by (simp add: Suc)
  qed
qed simp

text \<open>What \<open>emit\<close> wrote: the header, the bodies, and the section header table at \<open>base\<close>.\<close>

definition file_ok :: "elf_layout \<Rightarrow> bytes \<Rightarrow> nat \<Rightarrow> u64 list \<Rightarrow> bool" where
  "file_ok l bs base offs \<longleftrightarrow>
     length offs = length (l_shdrs l) \<and> 64 \<le> base \<and> base + 64 * length (l_shdrs l) = length bs \<and>
     (\<exists>rest. bs = ehdr_bytes l (word_of_nat base) @ rest) \<and>
     (\<forall>i < length (l_shdrs l). \<exists>rest.
        drop (base + 64 * i) bs = shdr_bytes (name_offset_at l i) (offs ! i) (l_shdrs l ! i) @ rest) \<and>
     (\<forall>i < length (l_shdrs l). placed bs 64 (offs ! i) (l_shdrs l ! i))"

lemma length_ehdr_bytes:
  "ob_header (l_builder l) = no_overrides \<Longrightarrow> length (ehdr_bytes l shoff) = 64"
  by (simp add: ehdr_bytes_def elf_ident_def no_overrides_def ELF_MAGIC_def Let_def)

lemma placed_header:
  assumes "placed out 64 off s" "length h = 64" "64 \<le> length out"
  shows "placed (h @ drop 64 out) 64 off s"
  using assms unfolding placed_def
  by (auto simp: slice_behind_header split: if_splits)

lemma emit_file:
  assumes "emit l = Inr bs" and "ob_header (l_builder l) = no_overrides" and "ob_truncate_to (l_builder l) = None"
  obtains base offs where "file_ok l bs base offs"
proof -
  let ?ss = "l_shdrs l"
  obtain offs out where e: "emit_bodies ?ss (replicate 64 0) = (offs, out)" by fastforce
  note b = emit_bodies_ok [OF e]
  obtain x where x: "out = replicate 64 0 @ x" using b by blast
  define out1 where "out1 = pad_to 8 out"
  obtain k where k: "out1 = out @ replicate k 0" using pad_to_append [of 8 out] by (auto simp: out1_def)
  define h where "h = ehdr_bytes l (word_of_nat (length out1))"
  define g where "g i = shdr_bytes (name_offset_at l i) (offs ! i) (?ss ! i)" for i
  have h: "length h = 64" by (simp add: h_def length_ehdr_bytes assms(2))
  have t: "concat (map (\<lambda>(i, s). shdr_bytes (name_offset_at l i) (offs ! i) s) (zip [0..<length ?ss] ?ss)) =
      concat (map g [0..<length ?ss])"
    by (rule arg_cong [where f = concat], rule nth_equalityI) (simp_all add: g_def)
  have bs: "bs = h @ drop 64 (out1 @ concat (map g [0..<length ?ss]))"
    using assms(1,3) h e unfolding emit_def Let_def out1_def [symmetric]
    by (simp add: t h_def [symmetric] out1_def [symmetric] EHDR_SIZE_def)
  have l1: "64 \<le> length out1" by (simp add: k x)
  have lt: "length (concat (map g [0..<length ?ss])) = 64 * length ?ss"
    by (simp add: length_concat comp_def g_def sum_list_triv)
  have "file_ok l bs (length out1) offs"
    unfolding file_ok_def
  proof (intro conjI allI impI)
    show "length offs = length ?ss" using b by blast
    show "length out1 + 64 * length ?ss = length bs" using l1 lt h by (simp add: bs)
    show "\<exists>rest. bs = ehdr_bytes l (word_of_nat (length out1)) @ rest" unfolding bs h_def by blast
  next
    fix i assume i: "i < length ?ss"
    have "drop (length out1 + 64 * i) bs = drop (64 * i) (concat (map g [0..<length ?ss]))"
      using l1 h by (simp add: bs drop_behind_header)
    then show "\<exists>rest. drop (length out1 + 64 * i) bs = shdr_bytes (name_offset_at l i) (offs ! i) (?ss ! i) @ rest"
      using table_entry [OF i, of g 64] by (simp add: g_def)
    have "placed (out @ (replicate k 0 @ concat (map g [0..<length ?ss]))) 64 (offs ! i) (?ss ! i)"
      using b i by (intro placed_extend [where lo = 64]) simp_all
    then have "placed (h @ drop 64 (out1 @ concat (map g [0..<length ?ss]))) 64 (offs ! i) (?ss ! i)"
      using h l1 by (intro placed_header) (simp_all add: k)
    then show "placed bs 64 (offs ! i) (?ss ! i)" by (simp add: bs)
  qed (use l1 in simp)
  then show ?thesis by (rule that)
qed

section \<open>The header\<close>

definition header_view :: "elf_layout \<Rightarrow> bytes \<Rightarrow> nat \<Rightarrow> elf" where
  "header_view l bs base =
     \<lparr>el_bytes = bs, el_ident = take EI_NIDENT bs, el_type = ET_REL, el_machine = EM_X86_64, el_version = 1,
      el_entry = 0, el_phoff = 0, el_shoff = word_of_nat base, el_flags = 0, el_ehsize = EHDR_SIZE,
      el_phentsize = 0, el_phnum = 0, el_shentsize = SHDR_SIZE, el_shnum = word_of_nat (length (l_shdrs l)),
      el_shstrndx = l_shstrtab_index l, el_sections = [], el_segments = [], el_symbols = [],
      el_relocations = []\<rparr>"

lemma header_view_fields [simp]:
  "el_bytes (header_view l bs base) = bs" "el_phnum (header_view l bs base) = 0"
  "el_shoff (header_view l bs base) = word_of_nat base" "el_shentsize (header_view l bs base) = SHDR_SIZE"
  "el_shnum (header_view l bs base) = word_of_nat (length (l_shdrs l))"
  "el_shstrndx (header_view l bs base) = l_shstrtab_index l" "el_symbols (header_view l bs base) = []"
  "el_relocations (header_view l bs base) = []" "el_segments (header_view l bs base) = []"
  "el_type (header_view l bs base) = ET_REL" "el_machine (header_view l bs base) = EM_X86_64"
  by (simp_all add: header_view_def)

lemma parse_header_written:
  assumes "bs = ehdr_bytes l (word_of_nat base) @ rest" and "ob_header (l_builder l) = no_overrides"
    and "length bs \<le> usize_max"
  shows "parse_header bs = Inr (header_view l bs base)"
    and "take 4 bs = ELF_MAGIC" "bs ! 4 = ELFCLASS64" "bs ! 5 = ELFDATA2LSB" "64 \<le> length bs"
proof -
  have b: "bs = [0x7f, 0x45, 0x4c, 0x46, 2, 1, 1, 0, 0, 0, 0, 0, 0, 0, 0, 0] @ u16_le ET_REL @ u16_le EM_X86_64 @ u32_le 1 @
      u64_le 0 @ u64_le 0 @ u64_le (word_of_nat base) @ u32_le 0 @ u16_le EHDR_SIZE @ u16_le 0 @ u16_le 0 @
      u16_le SHDR_SIZE @ u16_le (word_of_nat (length (l_shdrs l))) @ u16_le (l_shstrtab_index l) @ rest"
    using assms(1,2)
    by (simp add: ehdr_bytes_def elf_ident_def no_overrides_def Let_def ELF_MAGIC_def ELFCLASS64_def ELFDATA2LSB_def
        EV_CURRENT_def ELFOSABI_SYSV_def numeral_eq_Suc)
  note f = f16.reads_back [OF _ assms(3)] f32.reads_back [OF _ assms(3)] f64.reads_back [OF _ assms(3)]
  have u: "u16le bs 16 = Inr ET_REL" "u16le bs 18 = Inr EM_X86_64" "u32le bs 20 = Inr 1" "u64le bs 24 = Inr 0"
    "u64le bs 32 = Inr 0" "u64le bs 40 = Inr (word_of_nat base)" "u32le bs 48 = Inr 0" "u16le bs 52 = Inr EHDR_SIZE"
    "u16le bs 54 = Inr 0" "u16le bs 56 = Inr 0" "u16le bs 58 = Inr SHDR_SIZE"
    "u16le bs 60 = Inr (word_of_nat (length (l_shdrs l)))" "u16le bs 62 = Inr (l_shstrtab_index l)"
    by (rule f, simp add: b)+
  show "parse_header bs = Inr (header_view l bs base)" by (simp add: parse_header_def u header_view_def)
  show "take 4 bs = ELF_MAGIC" "bs ! 4 = ELFCLASS64" "bs ! 5 = ELFDATA2LSB" "64 \<le> length bs"
    by (simp_all add: b ELF_MAGIC_def ELFCLASS64_def ELFDATA2LSB_def)
qed

section \<open>The section headers\<close>

lemma st_each_reads:
  "(\<And>x. x \<in> set xs \<Longrightarrow> f x s = Some (Inr (g x), s)) \<Longrightarrow> st_each f xs s = Some (Inr (map g xs), s)"
proof (induction xs)
  case (Cons x xs)
  then have "f x s = Some (Inr (g x), s)" "st_each f xs s = Some (Inr (map g xs), s)" by simp_all
  from st_each_Cons_ok [where f = f, OF this] show ?case by simp
qed simp

definition raw_view :: "nat \<Rightarrow> u64 \<Rightarrow> shdr \<Rightarrow> section_hdr" where
  "raw_view i off s =
     \<lparr>se_index = i, se_name = [], se_type = sh_typ s, se_flags = sh_flags s, se_addr = sh_addr s, se_offset = off,
      se_size = sh_size s, se_link = sh_link s, se_info = sh_info s, se_align = sh_align s,
      se_entsize = sh_entsize s\<rparr>"

lemma drop_more: "drop at bs = x \<Longrightarrow> drop (at + k) bs = drop k x"
  by (auto simp: add.commute)

lemma parse_section_written:
  assumes f: "file_ok l bs base offs" and i: "i < length (l_shdrs l)" and len: "length bs \<le> usize_max"
    and e: "el_bytes e = bs"
  shows "parse_section base 64 i e = Some (Inr (name_offset_at l i, raw_view i (offs ! i) (l_shdrs l ! i)), e)"
proof -
  let ?s = "l_shdrs l ! i"
  obtain rest where d: "drop (base + 64 * i) bs = shdr_bytes (name_offset_at l i) (offs ! i) ?s @ rest"
    using f i by (auto simp: file_ok_def)
  have "base + 64 * i + 64 \<le> length bs" using f i by (auto simp: file_ok_def)
  then have at: "entry_at base i 64 (length bs) what = Inr (base + 64 * i)" for what
    using len by (simp add: entry_at_def checked_mul_def checked_add_def ok_or_def mult.commute)
  note x = d [unfolded shdr_bytes_def append_assoc]
  note fb = f32.field_back [OF _ len] f64.field_back [OF _ len]
  have u: "u32le bs (base + 64 * i) = Inr (name_offset_at l i)"
    by (rule f32.reads_back [OF x len])
  have g: "field_at u32le bs (base + 64 * i) 4 e = Some (Inr (sh_typ ?s), e)"
    "field_at u64le bs (base + 64 * i) 8 e = Some (Inr (sh_flags ?s), e)"
    "field_at u64le bs (base + 64 * i) 16 e = Some (Inr (sh_addr ?s), e)"
    "field_at u64le bs (base + 64 * i) 24 e = Some (Inr (offs ! i), e)"
    "field_at u64le bs (base + 64 * i) 32 e = Some (Inr (sh_size ?s), e)"
    "field_at u32le bs (base + 64 * i) 40 e = Some (Inr (sh_link ?s), e)"
    "field_at u32le bs (base + 64 * i) 44 e = Some (Inr (sh_info ?s), e)"
    "field_at u64le bs (base + 64 * i) 48 e = Some (Inr (sh_align ?s), e)"
    "field_at u64le bs (base + 64 * i) 56 e = Some (Inr (sh_entsize ?s), e)"
    by (rule fb, subst drop_more [OF x], simp)+
  show ?thesis by (simp add: parse_section_def e at u st_bind_def g raw_view_def)
qed

text \<open>A name offset of the table reads back as the name.\<close>

definition names_ok :: "elf_layout \<Rightarrow> bytes \<Rightarrow> bool" where
  "names_ok l names \<longleftrightarrow>
     (\<forall>i < length (l_shdrs l). cstr names (unat (name_offset_at l i)) = sh_name (l_shdrs l ! i))"

definition full_view :: "nat \<Rightarrow> u64 \<Rightarrow> shdr \<Rightarrow> section_hdr" where
  "full_view i off s = (raw_view i off s)\<lparr>se_name := sh_name s\<rparr>"

definition section_views_of :: "elf_layout \<Rightarrow> u64 list \<Rightarrow> section_hdr list" where
  "section_views_of l offs = map (\<lambda>i. full_view i (offs ! i) (l_shdrs l ! i)) [0..<length (l_shdrs l)]"

text \<open>The body of a placed section is what a slice of the file returns.\<close>

definition plain :: "shdr \<Rightarrow> bool" where
  "plain s \<longleftrightarrow> sh_typ s \<noteq> SHT_NULL \<and> sh_offset_override s = None \<and> sh_occupies s \<and> sh_size s = word_of_nat (length (sh_data s))"

lemma unat_of_nat_usize: "n \<le> usize_max \<Longrightarrow> unat (word_of_nat n :: u64) = n"
  by (simp add: unat_of_nat usize_max_def)

lemma placed_slice:
  assumes "placed bs 64 off s" "plain s" "length bs \<le> usize_max"
  shows "elf_slice bs off (sh_size s) = Inr (sh_data s)"
proof -
  obtain p where p: "p \<le> length bs" "off = word_of_nat p" "p + length (sh_data s) \<le> length bs"
      "slice p (p + length (sh_data s)) bs = sh_data s"
    using assms(1,2) by (auto simp: placed_def plain_def)
  then have "unat off = p" "unat (sh_size s) = length (sh_data s)"
    using assms(2,3) by (simp_all add: plain_def unat_of_nat_usize)
  then show ?thesis using p assms(3) by (simp add: elf_slice_def checked_add_def)
qed

lemma parse_sections_written:
  assumes f: "file_ok l bs base offs" and len: "length bs \<le> usize_max"
    and n: "0 < length (l_shdrs l)" "length (l_shdrs l) < 2 ^ 16"
    and k: "unat (l_shstrtab_index l) < length (l_shdrs l)" "plain (l_shdrs l ! unat (l_shstrtab_index l))"
    and names: "names_ok l (sh_data (l_shdrs l ! unat (l_shstrtab_index l)))"
  shows "parse_sections (header_view l bs base) =
    Some (Inr (), (header_view l bs base)\<lparr>el_sections := section_views_of l offs\<rparr>)"
proof -
  let ?e = "header_view l bs base" and ?n = "length (l_shdrs l)" and ?k = "unat (l_shstrtab_index l)"
  have base: "0 < base" "base \<le> usize_max" using f len by (auto simp: file_ok_def)
  have nz: "(word_of_nat ?n :: u16) \<noteq> 0" "unat (word_of_nat ?n :: u16) = ?n"
    using n by (simp_all add: unat_of_nat word_unat_eq_iff)
  have bz: "(word_of_nat base :: u64) \<noteq> 0" "unat (word_of_nat base :: u64) = base"
    using base unat_of_nat_usize [OF base(2)] by (simp_all add: word_unat_eq_iff)
  define raw where "raw = map (\<lambda>i. (name_offset_at l i, raw_view i (offs ! i) (l_shdrs l ! i))) [0..<?n]"
  have each: "st_each (parse_section base 64) [0..<?n] ?e = Some (Inr raw, ?e)"
    unfolding raw_def
    by (rule st_each_reads) (use f len in \<open>simp add: parse_section_written\<close>)
  have "placed bs 64 (offs ! ?k) (l_shdrs l ! ?k)" using f k(1) by (simp add: file_ok_def)
  then have "elf_slice bs (offs ! ?k) (sh_size (l_shdrs l ! ?k)) = Inr (sh_data (l_shdrs l ! ?k))"
    using placed_slice k(2) len by blast
  then have t: "table_bytes bs (map snd raw) ?k = sh_data (l_shdrs l ! ?k)"
    using k(1) by (simp add: table_bytes_def raw_def raw_view_def)
  have v: "map (\<lambda>(name_off, s). s\<lparr>se_name := cstr (sh_data (l_shdrs l ! ?k)) (unat name_off)\<rparr>) raw = section_views_of l offs"
    using names by (auto simp: raw_def section_views_of_def full_view_def names_ok_def)
  have "parse_sections ?e = st_bind (st_each (parse_section base 64) [0..<?n]) (\<lambda>raw.
         st_modify (\<lambda>e. let names = table_bytes (el_bytes e) (map snd raw) (unat (el_shstrndx e))
           in e\<lparr>el_sections := map (\<lambda>(name_off, s). s\<lparr>se_name := cstr names (unat name_off)\<rparr>) raw\<rparr>)) ?e"
    using nz bz by (simp add: parse_sections_def SHDR_SIZE_def)
  also have "\<dots> = Some (Inr (), ?e\<lparr>el_sections := section_views_of l offs\<rparr>)"
    using t v by (simp add: st_bind_def each Let_def)
  finally show ?thesis .
qed

section \<open>The symbols\<close>

text \<open>
  A pass that pushes onto a list of the file under construction: the contract of the list, and a
  \<open>for\<close> loop over such pushes.
\<close>

locale pushed_list =
  fixes push :: "'b list \<Rightarrow> 's \<Rightarrow> 's"
  assumes push_none: "push [] s = s"
    and push_push: "push ys (push xs s) = push (xs @ ys) s"
begin

lemma each_pushes:
  assumes "\<And>x zs. x \<in> set xs \<Longrightarrow> f x (push zs s) = Some (Inr (), push (g x) (push zs s))"
  shows "st_each f xs s = Some (Inr (replicate (length xs) ()), push (concat (map g xs)) s)"
proof -
  have "st_each f ys (push zs s) = Some (Inr (replicate (length ys) ()), push (concat (map g ys)) (push zs s))"
    if "set ys \<subseteq> set xs" for ys zs
    using that
  proof (induction ys arbitrary: zs)
    case (Cons y ys)
    have 1: "f y (push zs s) = Some (Inr (), push (zs @ g y) s)" using assms Cons.prems by (simp add: push_push)
    have 2: "st_each f ys (push (zs @ g y) s) =
        Some (Inr (replicate (length ys) ()), push (concat (map g ys)) (push (zs @ g y) s))"
      using Cons by simp
    show ?case using st_each_Cons_ok [where f = f, OF 1 2] by (simp add: push_push)
  qed (simp add: push_none)
  from this [of xs "[]"] show ?thesis by (simp add: push_none)
qed

end

interpretation symbols: pushed_list "\<lambda>ys e. e\<lparr>el_symbols := el_symbols e @ ys\<rparr>"
  by unfold_locales simp_all

interpretation relocations: pushed_list "\<lambda>ys e. e\<lparr>el_relocations := el_relocations e @ ys\<rparr>"
  by unfold_locales simp_all

lemma chunks_concat: "(\<And>c. c \<in> set cs \<Longrightarrow> length c = n) \<Longrightarrow> 0 < n \<Longrightarrow> chunks n (concat cs) = cs"
proof (induction cs)
  case (Cons c cs)
  then have "length c = n" "chunks n (concat cs) = cs" by simp_all
  then show ?case using Cons.prems(2) by (subst chunks.simps) auto
qed (simp add: chunks.simps)

lemma full_chunks_concat:
  assumes "\<And>c. c \<in> set cs \<Longrightarrow> length c = n" and "0 < n"
  shows "full_chunks n n (concat cs) = zip [0..<length cs] cs"
proof -
  have t: "takeWhile (\<lambda>c. n \<le> length c) cs = cs" using assms(1) by (simp add: takeWhile_eq_all_conv)
  show ?thesis by (simp only: full_chunks_def Let_def chunks_concat [OF assms] t)
qed

lemma length_sym_bytes [simp]: "length (sym_bytes a b c d e f) = 24"
  by (simp add: sym_bytes_def)

lemma parse_symbol_written:
  assumes "decodes strings c v"
  shows "parse_symbol strings (i, c) e = Some (Inr (), e\<lparr>el_symbols := el_symbols e @ [v\<lparr>ym_index := i\<rparr>]\<rparr>)"
proof -
  obtain off info other where c: "c = sym_bytes off info other (ym_shndx v) (ym_value v) (ym_size v)"
    and v: "cstr strings (unat off) = ym_name v" "info_bind info = ym_bind v" "info_type info = ym_type v"
      "other AND 3 = ym_visibility v"
    using assms by (auto simp: decodes_def)
  have len: "length c \<le> usize_max" by (simp add: c usize_max_def)
  note f = f16.reads_back [OF _ len] f32.reads_back [OF _ len] f64.reads_back [OF _ len]
  have u: "u32le c 0 = Inr off" "u16le c 6 = Inr (ym_shndx v)" "u64le c 8 = Inr (ym_value v)" "u64le c 16 = Inr (ym_size v)"
    by (rule f, simp add: c sym_bytes_def)+
  have n: "c ! 4 = info" "c ! 5 = other" "length c = 24" by (simp_all add: c sym_bytes_def nth_append)
  show ?thesis
    by (cases v) (use v in \<open>simp add: parse_symbol_def u st_index_def n st_bind_def\<close>)
qed

definition numbered :: "elf_symbol list \<Rightarrow> elf_symbol list" where
  "numbered vs = map (\<lambda>i. (vs ! i)\<lparr>ym_index := i\<rparr>) [0..<length vs]"

lemma parse_symbols_written:
  assumes e: "el_bytes e = bs" "el_sections e = section_views_of l offs" "el_symbols e = []"
    and f: "file_ok l bs base offs" and len: "length bs \<le> usize_max"
    and a: "a < length (l_shdrs l)" "l_shdrs l ! a = symtab_shdr sb si fg"
    and only: "\<And>j. j < length (l_shdrs l) \<Longrightarrow> sh_typ (l_shdrs l ! j) = SHT_SYMTAB \<Longrightarrow> j = a"
    and s: "unat si < length (l_shdrs l)" "l_shdrs l ! unat si = strtab_shdr ''.strtab'' st"
    and sb: "sb = concat cs" "list_all2 (decodes st) cs vs"
  shows "parse_symbols e = Some (Inr (), e\<lparr>el_symbols := numbered vs\<rparr>)"
proof -
  let ?vs = "section_views_of l offs"
  have vn: "length ?vs = length (l_shdrs l)" "\<And>j. j < length (l_shdrs l) \<Longrightarrow> ?vs ! j = full_view j (offs ! j) (l_shdrs l ! j)"
    by (simp_all add: section_views_of_def)
  have "find_first (\<lambda>s. se_type s = SHT_SYMTAB) ?vs = Some (?vs ! a)"
  proof (rule find_first_unique)
    show "a < length ?vs" using a(1) vn(1) by simp
    show "se_type (?vs ! a) = SHT_SYMTAB" by (simp add: vn(2) a full_view_def raw_view_def symtab_shdr_def)
    show "j = a" if "j < length ?vs" "se_type (?vs ! j) = SHT_SYMTAB" for j
    proof (rule only)
      show "j < length (l_shdrs l)" using that(1) vn(1) by simp
      then show "sh_typ (l_shdrs l ! j) = SHT_SYMTAB" using that(2) by (simp add: vn(2) full_view_def raw_view_def)
    qed
  qed
  then have found: "find_first (\<lambda>s. se_type s = SHT_SYMTAB) ?vs = Some (full_view a (offs ! a) (symtab_shdr sb si fg))"
    using a by (simp add: vn)
  have pl: "placed bs 64 (offs ! j) (l_shdrs l ! j)" if "j < length (l_shdrs l)" for j
    using f that by (simp add: file_ok_def)
  have "plain (symtab_shdr sb si fg)" "plain (strtab_shdr ''.strtab'' st)"
    by (simp_all add: plain_def symtab_shdr_def strtab_shdr_def sht_defs)
  then have r: "elf_slice bs (offs ! a) (word_of_nat (length sb)) = Inr sb"
    "elf_slice bs (offs ! unat si) (word_of_nat (length st)) = Inr st"
    using placed_slice [OF pl [OF a(1)]] placed_slice [OF pl [OF s(1)]] a(2) s(2) len
    by (simp_all add: symtab_shdr_def strtab_shdr_def)
  have strings: "table_bytes bs ?vs (unat si) = st"
    using s r(2) by (simp add: table_bytes_def vn full_view_def raw_view_def strtab_shdr_def)
  have dec: "decodes st (cs ! i) (vs ! i)" if "i < length cs" for i
    using sb(2) that by (rule list_all2_nthD)
  have l24: "length c = 24" if "c \<in> set cs" for c
    using that sb(2) by (auto simp: list_all2_conv_all_nth in_set_conv_nth decodes_def)
  have nv: "length vs = length cs" using sb(2) by (simp add: list_all2_lengthD)
  have chunks: "full_chunks 24 24 sb = zip [0..<length cs] cs"
    unfolding sb(1) by (rule full_chunks_concat [OF l24]) simp_all
  have step: "parse_symbol st x (e\<lparr>el_symbols := el_symbols e @ zs\<rparr>) =
      Some (Inr (), e\<lparr>el_symbols := el_symbols e @ zs\<rparr>
        \<lparr>el_symbols := el_symbols (e\<lparr>el_symbols := el_symbols e @ zs\<rparr>) @ [(vs ! fst x)\<lparr>ym_index := fst x\<rparr>]\<rparr>)"
    if x: "x \<in> set (zip [0..<length cs] cs)" for x zs
  proof -
    obtain i where "i < length cs" "x = (i, cs ! i)" using x by (auto simp: set_zip)
    then show ?thesis using parse_symbol_written [OF dec] by simp
  qed
  have each: "st_each (parse_symbol st) (zip [0..<length cs] cs) e =
      Some (Inr (replicate (length (zip [0..<length cs] cs)) ()),
      e\<lparr>el_symbols := el_symbols e @ concat (map (\<lambda>x. [(vs ! fst x)\<lparr>ym_index := fst x\<rparr>]) (zip [0..<length cs] cs))\<rparr>)"
    by (rule symbols.each_pushes, rule step)
  have "concat (map (\<lambda>x. [(vs ! fst x)\<lparr>ym_index := fst x\<rparr>]) (zip [0..<length cs] cs)) = numbered vs"
    unfolding concat_map_singleton by (rule nth_equalityI) (simp_all add: numbered_def nv)
  then show ?thesis
    using each e(3)
    by (simp add: parse_symbols_def found e strings r full_view_def raw_view_def symtab_shdr_def Let_def elf_size_defs
        chunks st_bind_def)
qed

end
