(* ===== verification/Elf_Object.thy ===== *)
theory Elf_Object
  imports Elf_Roundtrip
begin

text \<open>
  The whole object: what the reader makes of the bytes \<open>object_build\<close> returned, for every honest
  object and each of the three section orders.
\<close>

section \<open>The relocations\<close>

definition decode_rela :: "nat \<Rightarrow> bytes \<Rightarrow> relocation" where
  "decode_rela target c =
     \<lparr>rl_target_section = target, rl_offset = u64_from_le (slice 0 8 c), rl_sym = r_sym (u64_from_le (slice 8 16 c)),
      rl_kind = r_type (u64_from_le (slice 8 16 c)), rl_addend = u64_from_le (slice 16 24 c)\<rparr>"

definition shdr_relocs :: "shdr \<Rightarrow> relocation list" where
  "shdr_relocs s = map (decode_rela (unat (sh_info s))) (chunks 24 (sh_data s))"

definition rela_table :: "shdr \<Rightarrow> bool" where
  "rela_table s \<longleftrightarrow> plain s \<and> sh_typ s = SHT_RELA \<and> (\<forall>c \<in> set (chunks 24 (sh_data s)). length c = 24)"

lemma u64le_slice: "length c = 24 \<Longrightarrow> k + 8 \<le> 24 \<Longrightarrow> u64le c k = Inr (u64_from_le (slice k (k + 8) c))"
  by (simp add: u64le_def field_end_def checked_add_def usize_max_def)

lemma parse_relocation_written:
  assumes "se_type h = SHT_RELA" "length c = 24"
  shows "parse_relocation h (i, c) e =
    Some (Inr (), e\<lparr>el_relocations := el_relocations e @ [decode_rela (unat (se_info h)) c]\<rparr>)"
  using u64le_slice [OF assms(2), of 0] u64le_slice [OF assms(2), of 8] u64le_slice [OF assms(2), of 16]
  by (simp add: parse_relocation_def assms decode_rela_def st_bind_def)

lemma parse_rel_section_written:
  assumes s: "rela_table s" and p: "placed bs 64 off s" and len: "length bs \<le> usize_max" and e: "el_bytes e = bs"
  shows "parse_rel_section (full_view j off s) e =
    Some (Inr (), e\<lparr>el_relocations := el_relocations e @ shdr_relocs s\<rparr>)"
proof -
  let ?h = "full_view j off s" and ?cs = "chunks 24 (sh_data s)"
  have h: "se_type ?h = SHT_RELA" "se_info ?h = sh_info s" "se_offset ?h = off" "se_size ?h = sh_size s"
    using s by (simp_all add: full_view_def raw_view_def rela_table_def)
  have l: "length c = 24" if "c \<in> set ?cs" for c using s that by (simp add: rela_table_def)
  have whole: "concat ?cs = sh_data s" by (simp add: concat_chunks)
  have chunks: "full_chunks 24 24 (sh_data s) = zip [0..<length ?cs] ?cs"
    using full_chunks_concat [where cs = ?cs and n = 24] l unfolding whole by simp
  have r: "elf_slice bs off (sh_size s) = Inr (sh_data s)"
    using placed_slice [OF p _ len] s by (simp add: rela_table_def)
  have step: "parse_relocation ?h x (e\<lparr>el_relocations := el_relocations e @ zs\<rparr>) =
      Some (Inr (), e\<lparr>el_relocations := el_relocations e @ zs\<rparr>
        \<lparr>el_relocations := el_relocations (e\<lparr>el_relocations := el_relocations e @ zs\<rparr>) @ [decode_rela (unat (sh_info s)) (snd x)]\<rparr>)"
    if x: "x \<in> set (zip [0..<length ?cs] ?cs)" for x zs
  proof -
    obtain i c where ic: "x = (i, c)" by (cases x) auto
    then have "length c = 24" using l x by (auto dest: set_zip_rightD)
    then show ?thesis using parse_relocation_written [OF h(1), of c i] h(2) by (simp add: ic)
  qed
  have each: "st_each (parse_relocation ?h) (zip [0..<length ?cs] ?cs) e =
      Some (Inr (replicate (length (zip [0..<length ?cs] ?cs)) ()),
      e\<lparr>el_relocations := el_relocations e @
          concat (map (\<lambda>x. [decode_rela (unat (sh_info s)) (snd x)]) (zip [0..<length ?cs] ?cs))\<rparr>)"
    by (rule relocations.each_pushes, rule step)
  have "concat (map (\<lambda>x. [decode_rela (unat (sh_info s)) (snd x)]) (zip [0..<length ?cs] ?cs)) = shdr_relocs s"
    unfolding concat_map_singleton shdr_relocs_def by (rule nth_equalityI) simp_all
  then show ?thesis
    using each by (simp add: parse_rel_section_def e h r rel_step_def RELA_SIZE_def chunks st_bind_def)
qed

definition relocating :: "shdr \<Rightarrow> bool" where
  "relocating s \<longleftrightarrow> sh_typ s = SHT_RELA \<or> sh_typ s = SHT_REL"

lemma parse_relocations_written:
  assumes e: "el_bytes e = bs" "el_sections e = section_views_of l offs" "el_relocations e = []"
    and f: "file_ok l bs base offs" and len: "length bs \<le> usize_max"
    and tables: "\<And>s. s \<in> set (l_shdrs l) \<Longrightarrow> relocating s \<Longrightarrow> rela_table s"
  shows "parse_relocations e =
    Some (Inr (), e\<lparr>el_relocations := concat (map shdr_relocs (filter relocating (l_shdrs l)))\<rparr>)"
proof -
  let ?n = "length (l_shdrs l)"
  define js where "js = filter (\<lambda>j. relocating (l_shdrs l ! j)) [0..<?n]"
  define view where "view j = full_view j (offs ! j) (l_shdrs l ! j)" for j
  have rs: "filter (\<lambda>s. se_type s = SHT_RELA \<or> se_type s = SHT_REL) (el_sections e) = map view js"
    by (simp add: e section_views_of_def filter_map comp_def js_def view_def relocating_def full_view_def raw_view_def)
  have step: "parse_rel_section x (e\<lparr>el_relocations := el_relocations e @ zs\<rparr>) =
      Some (Inr (), e\<lparr>el_relocations := el_relocations e @ zs\<rparr>
        \<lparr>el_relocations := el_relocations (e\<lparr>el_relocations := el_relocations e @ zs\<rparr>) @ shdr_relocs (l_shdrs l ! se_index x)\<rparr>)"
    if x: "x \<in> set (map view js)" for x zs
  proof -
    obtain j where j: "j < ?n" "relocating (l_shdrs l ! j)" "x = view j" using x by (auto simp: js_def)
    moreover have "se_index x = j" by (simp add: j view_def full_view_def raw_view_def)
    moreover have "placed bs 64 (offs ! j) (l_shdrs l ! j)" using f j(1) by (simp add: file_ok_def)
    moreover have "rela_table (l_shdrs l ! j)" using tables j by simp
    ultimately show ?thesis
      using parse_rel_section_written [of "l_shdrs l ! j" bs "offs ! j" "e\<lparr>el_relocations := el_relocations e @ zs\<rparr>" j] len e(1)
      by (simp add: view_def)
  qed
  have each: "st_each parse_rel_section (map view js) e = Some (Inr (replicate (length (map view js)) ()),
      e\<lparr>el_relocations := el_relocations e @ concat (map (\<lambda>x. shdr_relocs (l_shdrs l ! se_index x)) (map view js))\<rparr>)"
    by (rule relocations.each_pushes, rule step)
  have "map (\<lambda>x. shdr_relocs (l_shdrs l ! se_index x)) (map view js) = map (\<lambda>j. shdr_relocs (l_shdrs l ! j)) js"
    by (simp add: view_def full_view_def raw_view_def)
  also have "\<dots> = map shdr_relocs (filter relocating (l_shdrs l))"
  proof -
    have "filter relocating (l_shdrs l) = map ((!) (l_shdrs l)) js"
      unfolding js_def using map_positions [of "l_shdrs l" relocating] by (simp add: positions_def)
    then show ?thesis by simp
  qed
  finally show ?thesis using each e(3) by (simp add: parse_relocations_def rs st_bind_def)
qed

end
