(* ===== verification/Elf_Table.thy ===== *)
theory Elf_Table
  imports Elf_Object
begin

text \<open>
  The section header table of a planned object, entry by entry: the null header, the sections of the
  object, one relocation table for each section that has relocations, and the three tables of the
  writer.
\<close>

section \<open>The entries of the sections\<close>

text \<open>What \<open>section_entries\<close> makes of one section, given the relocation table made for it.\<close>

definition own_table :: "object_builder \<Rightarrow> sym_tables \<Rightarrow> section_spec \<Rightarrow> u32 \<Rightarrow> shdr list" where
  "own_table b t s idx =
     (if sp_relocs s = [] then []
      else (case rela_bytes t s of Inl _ \<Rightarrow> [] | Inr p \<Rightarrow> [rela_shdr (sp_name s) (snd p) (symtab_index b) idx]))"

lemma section_entries_own:
  assumes "section_entries b rela_for s = Inr es" and "plan_relocs b t = Inr rela_for"
    and "distinct (map sp_name (ob_sections b))" and "s \<in> set (ob_sections b)"
  obtains idx where "section_index (plan_index b) (sp_name s) = Inr idx"
    "map snd es = own_table b t s idx @ [spec_shdr s]" "(idx, spec_shdr s) \<in> set es"
    "sp_relocs s \<noteq> [] \<Longrightarrow> \<exists>bs. rela_bytes t s = Inr (sp_name s, bs)"
proof -
  note own = plan_relocs_own [OF assms(2-4)]
  obtain idx where i: "section_index (plan_index b) (sp_name s) = Inr idx"
    and es: "es = (case find_first (\<lambda>p. fst p = sp_name s) rela_for of
             None \<Rightarrow> []
           | Some (_, bs) \<Rightarrow>
               [(rela_index b rela_for (sp_name s) idx, rela_shdr (sp_name s) bs (symtab_index b) idx)]) @
          [(idx, spec_shdr s)]"
    using assms(1) by (auto simp: section_entries_def sum_bind_eq_Inr)
  show ?thesis
  proof (rule that [OF i])
    show "map snd es = own_table b t s idx @ [spec_shdr s]"
      using own by (auto simp: es own_table_def split: if_splits)
  qed (use own in \<open>simp_all add: es\<close>)
qed

section \<open>The checked table\<close>

lemma filter_update: "k < length xs \<Longrightarrow> \<not> P (xs ! k) \<Longrightarrow> \<not> P y \<Longrightarrow> filter P (xs[k := y]) = filter P xs"
  by (simp add: upd_conv_take_nth_drop) (subst (3) id_take_nth_drop [of k xs], simp_all)

lemma lt_16_word: "n < 2 ^ 16 \<Longrightarrow> unat (w :: u32) < n \<Longrightarrow> unat (ucast w :: u16) = unat w"
  by (simp add: unsigned_ucast_eq take_bit_nat_eq_self)

lemma plan_table_entries:
  assumes p: "plan_table b es = Inr l" and n: "length es < 2 ^ 16"
    and k: "(symtab_index b + 2, strtab_shdr ''.shstrtab'' []) \<in> set es"
  obtains shstr where "l_builder l = b" "length (l_shdrs l) = length es" "distinct (map fst es)"
    "\<forall>i x. (i, x) \<in> set es \<longrightarrow> unat i < length es"
    "\<forall>i x. (i, x) \<in> set es \<longrightarrow> i \<noteq> symtab_index b + 2 \<longrightarrow> l_shdrs l ! unat i = x"
    "\<forall>j < length es. j \<noteq> unat (symtab_index b + 2) \<longrightarrow> (word_of_nat j, l_shdrs l ! j) \<in> set es"
    "l_shdrs l ! unat (symtab_index b + 2) = strtab_shdr ''.shstrtab'' shstr"
    "unat (l_shstrtab_index l) = unat (symtab_index b + 2)"
    "(\<forall>(i, x) \<in> set es. name_ok (sh_name x)) \<and> length shstr < 2 ^ 32 \<longrightarrow> names_ok l shstr"
    "mset (filter relocating (l_shdrs l)) = mset (filter relocating (map snd es))"
proof -
  let ?t = "sort_key fst es" and ?k = "unat (symtab_index b + 2)"
  obtain offs shstr where keys: "map fst ?t = map word_of_nat [0..<length es]"
    and add: "add_names (map (sh_name \<circ> snd) ?t) strtab_new = (offs, shstr)"
    and kl: "?k < length es" and l: "l_builder l = b" "l_name_offsets l = offs" "l_shstrtab_index l = ucast (symtab_index b + 2)"
    and sh: "l_shdrs l = (map snd ?t)[?k := (map snd ?t ! ?k) \<lparr>sh_data := shstr, sh_size := word_of_nat (length shstr)\<rparr>]"
    using plan_tableE [OF p] .
  have n32: "length es < 2 ^ 32" using n by simp
  note kt = keyed_table [OF keys n32]
  have tk: "map snd ?t ! ?k = strtab_shdr ''.shstrtab'' []" using kt(2) [OF k] by simp
  have shk: "l_shdrs l ! ?k = strtab_shdr ''.shstrtab'' shstr"
    using kl by (simp add: sh tk strtab_shdr_def)
  have same: "sh_name (l_shdrs l ! i) = sh_name (snd (?t ! i))" if "i < length es" for i
    using that tk kl by (cases "i = ?k") (simp_all add: sh strtab_shdr_def)
  show ?thesis
  proof (rule that)
    show "distinct (map fst es)" by (rule kt(1))
    show "length (l_shdrs l) = length es" by (simp add: sh)
    show "\<forall>i x. (i, x) \<in> set es \<longrightarrow> unat i < length es" using kt(2) by blast
    show "\<forall>i x. (i, x) \<in> set es \<longrightarrow> i \<noteq> symtab_index b + 2 \<longrightarrow> l_shdrs l ! unat i = x"
    proof (intro allI impI)
      fix i x assume m: "(i, x) \<in> set es" "i \<noteq> symtab_index b + 2"
      have "unat i \<noteq> ?k" using m(2) by (metis unsigned_word_eqI)
      then show "l_shdrs l ! unat i = x" using kt(2) [OF m(1)] by (simp add: sh)
    qed
    show "\<forall>j < length es. j \<noteq> ?k \<longrightarrow> (word_of_nat j, l_shdrs l ! j) \<in> set es"
      using kt(3) by (simp add: sh)
    show "(\<forall>(i, x) \<in> set es. name_ok (sh_name x)) \<and> length shstr < 2 ^ 32 \<longrightarrow> names_ok l shstr"
      unfolding names_ok_def
    proof (intro impI allI)
      assume names: "(\<forall>(i, x) \<in> set es. name_ok (sh_name x)) \<and> length shstr < 2 ^ 32"
      fix i assume "i < length (l_shdrs l)"
      then have i: "i < length es" by (simp add: sh)
      have "(word_of_nat i, map snd ?t ! i) \<in> set es" using kt(3) i by simp
      then have "name_ok (sh_name (snd (?t ! i)))" using names i by fastforce
      then have "cstr shstr (unat (offs ! i)) = sh_name (snd (?t ! i))" "length offs = length es"
        using add_names_ok [OF add strtab_new_ok] i names by (auto dest!: spec [of _ "[]"])
      then show "cstr shstr (unat (name_offset_at l i)) = sh_name (l_shdrs l ! i)"
        using i same by (simp add: name_offset_at_def l(2))
    qed
    have "mset (map snd ?t) = mset (map snd es)" by simp
    moreover have "filter relocating (l_shdrs l) = filter relocating (map snd ?t)"
      unfolding sh by (rule filter_update) (use kl tk in \<open>simp_all add: relocating_def strtab_shdr_def sht_defs\<close>)
    ultimately show "mset (filter relocating (l_shdrs l)) = mset (filter relocating (map snd es))"
      by (metis mset_filter)
  qed (use l shk lt_16_word [OF n kl] in simp_all)
qed

end
