(* ===== verification/Elf_Parsed.thy ===== *)
theory Elf_Parsed
  imports Elf_Table
begin

text \<open>
  The reader over what the writer wrote, from end to end: every honest object that builds is parsed,
  and the file the reader returns is described section by section, symbol by symbol and relocation by
  relocation.
\<close>

section \<open>A planned object\<close>

text \<open>The relocations the reader makes of one section of the object.\<close>

definition relocs_of :: "object_builder \<Rightarrow> elf_symbol list \<Rightarrow> section_spec \<Rightarrow> relocation list \<Rightarrow> bool" where
  "relocs_of b vs s xs \<longleftrightarrow>
     (sp_relocs s = [] \<and> xs = [] \<or>
      (\<exists>idx. section_index (plan_index b) (sp_name s) = Inr idx \<and>
         list_all2 (\<lambda>r x. \<exists>i. x = reloc_view (unat idx) i r \<and> names_symbol b vs (re_target r) i) (sp_relocs s) xs))"

text \<open>What a table of section headers has to hold for the reader to find everything again.\<close>

definition table_holds ::
  "object_builder \<Rightarrow> elf_layout \<Rightarrow> bytes \<Rightarrow> elf_symbol list \<Rightarrow> bytes \<Rightarrow> u32 \<Rightarrow> bool" where
  "table_holds b l shstr vs st fg \<longleftrightarrow>
     l_builder l = b \<and> length (l_shdrs l) < 2 ^ 16 \<and>
     unat (l_shstrtab_index l) < length (l_shdrs l) \<and>
     l_shdrs l ! unat (l_shstrtab_index l) = strtab_shdr ''.shstrtab'' shstr \<and>
     (length shstr < 2 ^ 32 \<longrightarrow> names_ok l shstr) \<and>
     (\<exists>a si cs. a < length (l_shdrs l) \<and> l_shdrs l ! a = symtab_shdr (concat cs) si fg \<and>
        (\<forall>j < length (l_shdrs l). sh_typ (l_shdrs l ! j) = SHT_SYMTAB \<longrightarrow> j = a) \<and>
        unat si < length (l_shdrs l) \<and> l_shdrs l ! unat si = strtab_shdr ''.strtab'' st \<and>
        list_all2 (decodes_on st) cs vs) \<and>
     (\<forall>s \<in> set (ob_sections b). \<exists>idx. section_index (plan_index b) (sp_name s) = Inr idx \<and>
        unat idx < length (l_shdrs l) \<and> l_shdrs l ! unat idx = spec_shdr s) \<and>
     (\<forall>s \<in> set (l_shdrs l). relocating s \<longrightarrow> rela_table s) \<and>
     (\<exists>rss. list_all2 (relocs_of b vs) (ob_sections b) rss \<and>
        mset (concat (map shdr_relocs (filter relocating (l_shdrs l)))) = mset (concat rss))"

lemma name_ok_names: "name_ok []" "name_ok ''.symtab''" "name_ok ''.strtab''" "name_ok ''.shstrtab''"
  "name_ok n \<Longrightarrow> name_ok (''.rela'' @ n)"
  by (simp_all add: name_ok_def as_bytes_def of_char_def)

text \<open>A relocation table, decoded: the relocations it was made from.\<close>

lemma table_of_decoded:
  assumes "length is = length rs"
  shows "chunks 24 (table_of rs is) = map (\<lambda>(r, i). rela_entry (re_offset r) i (re_kind r) (re_addend r)) (zip rs is)"
    and "map (decode_rela k) (chunks 24 (table_of rs is)) = map (\<lambda>(r, i). reloc_view k i r) (zip rs is)"
proof -
  show c: "chunks 24 (table_of rs is) = map (\<lambda>(r, i). rela_entry (re_offset r) i (re_kind r) (re_addend r)) (zip rs is)"
    unfolding table_of_def by (rule chunks_concat) (auto simp: rela_entry_def)
  have "decode_rela k (rela_entry (re_offset r) i (re_kind r) (re_addend r)) = reloc_view k i r" for r i
    by (simp add: decode_rela_def rela_entry_def reloc_view_def slice_def r_info_unpack)
  then show "map (decode_rela k) (chunks 24 (table_of rs is)) = map (\<lambda>(r, i). reloc_view k i r) (zip rs is)"
    unfolding c by (auto simp: comp_def split: prod.splits)
qed

lemma rela_shdr_holds:
  assumes "table_ok b t vs" and "rela_bytes t s = Inr (sp_name s, bs)"
    and "section_index (plan_index b) (sp_name s) = Inr idx"
  shows "rela_table (rela_shdr (sp_name s) bs (symtab_index b) idx)"
    and "relocs_of b vs s (shdr_relocs (rela_shdr (sp_name s) bs (symtab_index b) idx))"
proof -
  obtain "is" where is': "length is = length (sp_relocs s)" "bs = table_of (sp_relocs s) is"
    "\<And>k. k < length is \<Longrightarrow> names_symbol b vs (re_target (sp_relocs s ! k)) (is ! k)"
    using rela_bytes_table [OF assms(1,2)] by metis
  note d = table_of_decoded [OF is'(1)]
  have "length c = 24" if "c \<in> set (chunks 24 bs)" for c
    using that unfolding is'(2) d(1) by (auto simp: rela_entry_def)
  then show "rela_table (rela_shdr (sp_name s) bs (symtab_index b) idx)"
    by (simp add: rela_table_def plain_def rela_shdr_def sht_defs)
  have "shdr_relocs (rela_shdr (sp_name s) bs (symtab_index b) idx) =
      map (\<lambda>(r, i). reloc_view (unat idx) i r) (zip (sp_relocs s) is)"
    by (simp add: shdr_relocs_def rela_shdr_def is'(2) d(2))
  then show "relocs_of b vs s (shdr_relocs (rela_shdr (sp_name s) bs (symtab_index b) idx))"
    using is'(1,3) assms(3) by (auto simp: relocs_of_def list_all2_conv_all_nth)
qed


lemma mset_concat_map: "mset xs = mset ys \<Longrightarrow> mset (concat (map f xs)) = mset (concat (map f ys))"
proof -
  have e: "mset (concat (map f zs)) = \<Sum>\<^sub># (image_mset (mset \<circ> f) (mset zs))" for zs
    by (induction zs) auto
  show "mset xs = mset ys \<Longrightarrow> mset (concat (map f xs)) = mset (concat (map f ys))" unfolding e by simp
qed

text \<open>Every entry of the table by its kind; what the reader needs of it.\<close>

lemma spec_shdr_facts:
  assumes "spec_ok s"
  shows "name_ok (sh_name (spec_shdr s))" "sh_typ (spec_shdr s) \<noteq> SHT_SYMTAB" "\<not> relocating (spec_shdr s)"
    "sh_typ (spec_shdr s) \<noteq> SHT_NULL" "sh_offset_override (spec_shdr s) = None"
  using assms by (auto simp: spec_ok_def spec_shdr_def relocating_def)

text \<open>The entries of the sections, given the symbol table and the relocation tables of the plan.\<close>

definition entries_of ::
  "object_builder \<Rightarrow> sym_tables \<Rightarrow> (string \<times> bytes) list \<Rightarrow> (u32 \<times> shdr) list list \<Rightarrow> bool" where
  "entries_of b t rela_for mids \<longleftrightarrow>
     list_all spec_ok (ob_sections b) \<and> plan_relocs b t = Inr rela_for \<and>
     map_ok (section_entries b rela_for) (ob_sections b) = Inr mids \<and> distinct (map fst (concat mids))"

lemma entries_ofE:
  assumes "entries_of b t rela_for mids" and "j < length mids"
  obtains idx where "ob_sections b ! j \<in> set (ob_sections b)" "spec_ok (ob_sections b ! j)"
    "section_index (plan_index b) (sp_name (ob_sections b ! j)) = Inr idx"
    "map snd (mids ! j) = own_table b t (ob_sections b ! j) idx @ [spec_shdr (ob_sections b ! j)]"
    "(idx, spec_shdr (ob_sections b ! j)) \<in> set (concat mids)"
    "sp_relocs (ob_sections b ! j) \<noteq> [] \<Longrightarrow>
       \<exists>bs. rela_bytes t (ob_sections b ! j) = Inr (sp_name (ob_sections b ! j), bs)"
proof -
  let ?s = "ob_sections b ! j"
  have m: "map_ok (section_entries b rela_for) (ob_sections b) = Inr mids" "plan_relocs b t = Inr rela_for"
    "distinct (map fst (concat mids))" "list_all spec_ok (ob_sections b)"
    using assms(1) by (simp_all add: entries_of_def)
  have s: "?s \<in> set (ob_sections b)" "section_entries b rela_for ?s = Inr (mids ! j)"
    using m(1) assms(2) by (simp_all add: map_ok_eq_Inr list_all2_conv_all_nth)
  obtain idx where "section_index (plan_index b) (sp_name ?s) = Inr idx"
    "map snd (mids ! j) = own_table b t ?s idx @ [spec_shdr ?s]" "(idx, spec_shdr ?s) \<in> set (mids ! j)"
    "sp_relocs ?s \<noteq> [] \<Longrightarrow> \<exists>bs. rela_bytes t ?s = Inr (sp_name ?s, bs)"
    using section_entries_own [OF s(2) m(2) plan_names_distinct [OF m(1,3)] s(1)] by metis
  moreover have "mids ! j \<in> set mids" using assms(2) by simp
  moreover have "spec_ok ?s" using m(4) s(1) by (simp add: list_all_iff)
  ultimately show ?thesis using s(1) by (intro that) auto
qed

lemma own_table_holds:
  assumes "table_ok b t vs" "spec_ok s" "section_index (plan_index b) (sp_name s) = Inr idx"
    and "sp_relocs s \<noteq> [] \<Longrightarrow> \<exists>bs. rela_bytes t s = Inr (sp_name s, bs)"
  shows "x \<in> set (own_table b t s idx) \<Longrightarrow> rela_table x \<and> name_ok (sh_name x) \<and> relocating x \<and> sh_typ x \<noteq> SHT_SYMTAB"
    and "relocs_of b vs s (concat (map shdr_relocs (own_table b t s idx)))"
proof -
  show "rela_table x \<and> name_ok (sh_name x) \<and> relocating x \<and> sh_typ x \<noteq> SHT_SYMTAB" if x: "x \<in> set (own_table b t s idx)"
  proof -
    obtain bs where "rela_bytes t s = Inr (sp_name s, bs)" "x = rela_shdr (sp_name s) bs (symtab_index b) idx"
      using x assms(4) by (auto simp: own_table_def split: if_splits)
    then show ?thesis
      using rela_shdr_holds(1) [OF assms(1) _ assms(3)] assms(2)
      by (simp add: rela_shdr_def relocating_def sht_defs spec_ok_def name_ok_names [simplified])
  qed
  show "relocs_of b vs s (concat (map shdr_relocs (own_table b t s idx)))"
  proof (cases "sp_relocs s = []")
    case False
    then obtain bs where r: "rela_bytes t s = Inr (sp_name s, bs)" using assms(4) by blast
    then show ?thesis using rela_shdr_holds(2) [OF assms(1) r assms(3)] False by (simp add: own_table_def)
  qed (simp add: own_table_def relocs_of_def)
qed

lemma entries_kinds:
  assumes "entries_of b t rela_for mids" "table_ok b t vs" "(i, x) \<in> set (concat mids)"
  shows "name_ok (sh_name x) \<and> sh_typ x \<noteq> SHT_SYMTAB \<and> (relocating x \<longrightarrow> rela_table x)"
proof -
  obtain m where "m \<in> set mids" "(i, x) \<in> set m" using assms(3) by auto
  then obtain j where j: "j < length mids" "(i, x) \<in> set (mids ! j)" by (metis in_set_conv_nth)
  note e = entries_ofE [OF assms(1) j(1)]
  obtain idx where "map snd (mids ! j) = own_table b t (ob_sections b ! j) idx @ [spec_shdr (ob_sections b ! j)]"
    and o: "\<And>x. x \<in> set (own_table b t (ob_sections b ! j) idx) \<Longrightarrow> rela_table x \<and> name_ok (sh_name x) \<and> relocating x \<and> sh_typ x \<noteq> SHT_SYMTAB"
    and s: "spec_ok (ob_sections b ! j)"
    using e own_table_holds(1) [OF assms(2)] by metis
  moreover have "x \<in> set (map snd (mids ! j))" using j(2) by force
  ultimately show ?thesis using spec_shdr_facts [OF s] by auto
qed

lemma entries_relocs:
  assumes "entries_of b t rela_for mids" "table_ok b t vs"
  obtains rss where "list_all2 (relocs_of b vs) (ob_sections b) rss"
    "concat (map shdr_relocs (filter relocating (map snd (concat mids)))) = concat rss"
proof (rule that)
  define f where "f e = concat (map shdr_relocs (filter relocating (map snd e)))" for e :: "(u32 \<times> shdr) list"
  have l: "length mids = length (ob_sections b)"
    using assms(1) by (auto simp: entries_of_def map_ok_eq_Inr dest: list_all2_lengthD)
  have "relocs_of b vs (ob_sections b ! j) (f (mids ! j))" if j: "j < length mids" for j
  proof -
    obtain idx where i: "map snd (mids ! j) = own_table b t (ob_sections b ! j) idx @ [spec_shdr (ob_sections b ! j)]"
      and o: "\<And>x. x \<in> set (own_table b t (ob_sections b ! j) idx) \<Longrightarrow> relocating x"
        "relocs_of b vs (ob_sections b ! j) (concat (map shdr_relocs (own_table b t (ob_sections b ! j) idx)))"
      and s: "spec_ok (ob_sections b ! j)"
      using entries_ofE [OF assms(1) j] own_table_holds [OF assms(2)] by metis
    have "filter relocating (map snd (mids ! j)) = own_table b t (ob_sections b ! j) idx"
      using o(1) spec_shdr_facts [OF s] by (simp add: i)
    then show ?thesis using o(2) by (simp add: f_def)
  qed
  then show "list_all2 (relocs_of b vs) (ob_sections b) (map f mids)"
    using l by (simp add: list_all2_conv_all_nth)
  have "concat (map shdr_relocs (filter relocating (map snd (concat ms)))) = concat (map f ms)" for ms
    by (induction ms) (simp_all add: f_def)
  then show "concat (map shdr_relocs (filter relocating (map snd (concat mids)))) = concat (map f mids)" .
qed


section \<open>The plan holds what the reader needs\<close>

definition own_entries :: "object_builder \<Rightarrow> sym_tables \<Rightarrow> u32 \<Rightarrow> (u32 \<times> shdr) list" where
  "own_entries b t fg =
     [(symtab_index b, symtab_shdr (symtab_bytes t) (symtab_index b + 1) fg),
      (symtab_index b + 1, strtab_shdr ''.strtab'' (t_strtab t)),
      (symtab_index b + 2, strtab_shdr ''.shstrtab'' [])]"

lemma plan_entries_eq:
  assumes "entries_of b t rela_for mids" and "plan_entries b t fg rela_for = Inr es"
  shows "es = (0, null_shdr) # concat mids @ own_entries b t fg" "length es \<le> 2 * length (ob_sections b) + 4"
proof -
  have m: "map_ok (section_entries b rela_for) (ob_sections b) = Inr mids" using assms(1) by (simp add: entries_of_def)
  show es: "es = (0, null_shdr) # concat mids @ own_entries b t fg"
    using assms(2) m by (simp add: plan_entries_def own_entries_def)
  obtain mid where "length mid \<le> 2 * length (ob_sections b)" "mid = concat mids"
    using plan_entries_kinds [OF assms(2)] m by metis
  then show "length es \<le> 2 * length (ob_sections b) + 4" by (simp add: es own_entries_def)
qed

lemma own_entries_plain:
  assumes "(i, x) \<in> set ((0, null_shdr) # own_entries b t fg)"
  shows "name_ok (sh_name x) \<and> \<not> relocating x \<and> (sh_typ x = SHT_SYMTAB \<longrightarrow> i = symtab_index b)"
  using assms
  by (auto simp: own_entries_def null_shdr_def symtab_shdr_def strtab_shdr_def relocating_def sht_defs name_ok_names [simplified])

lemma plan_entries_plain:
  assumes "entries_of b t rela_for mids" "table_ok b t vs" "plan_entries b t fg rela_for = Inr es" "(i, x) \<in> set es"
  shows "name_ok (sh_name x) \<and> (relocating x \<longrightarrow> rela_table x) \<and> (sh_typ x = SHT_SYMTAB \<longrightarrow> i = symtab_index b)"
  using assms(4) own_entries_plain [of i x b t fg] entries_kinds [OF assms(1,2), of i x]
  unfolding plan_entries_eq(1) [OF assms(1,3)] by auto

lemma plan_entries_relocs:
  assumes "entries_of b t rela_for mids" "table_ok b t vs" "plan_entries b t fg rela_for = Inr es"
  obtains rss where "list_all2 (relocs_of b vs) (ob_sections b) rss"
    "concat (map shdr_relocs (filter relocating (map snd es))) = concat rss"
proof -
  obtain rss where rss: "list_all2 (relocs_of b vs) (ob_sections b) rss"
    "concat (map shdr_relocs (filter relocating (map snd (concat mids)))) = concat rss"
    using entries_relocs [OF assms(1,2)] .
  have "filter relocating (map snd (own_entries b t fg)) = []" "\<not> relocating null_shdr"
    by (simp_all add: own_entries_def null_shdr_def symtab_shdr_def strtab_shdr_def relocating_def sht_defs)
  then have "filter relocating (map snd es) = filter relocating (map snd (concat mids))"
    by (simp add: plan_entries_eq(1) [OF assms(1,3)])
  then show ?thesis using rss that by simp
qed

text \<open>Where the headers of the sections and of the writer's own tables stand.\<close>

lemma plan_entries_specs:
  assumes "entries_of b t rela_for mids" "plan_entries b t fg rela_for = Inr es" "distinct (map fst es)"
    and "s \<in> set (ob_sections b)"
  obtains idx where "section_index (plan_index b) (sp_name s) = Inr idx" "(idx, spec_shdr s) \<in> set es"
    "idx \<noteq> symtab_index b + 2"
proof -
  note es = plan_entries_eq(1) [OF assms(1,2)]
  have "length mids = length (ob_sections b)"
    using assms(1) by (auto simp: entries_of_def map_ok_eq_Inr dest: list_all2_lengthD)
  then obtain j where j: "j < length mids" "ob_sections b ! j = s" using assms(4) by (metis in_set_conv_nth)
  obtain idx where i: "section_index (plan_index b) (sp_name s) = Inr idx" "(idx, spec_shdr s) \<in> set (concat mids)"
    using entries_ofE [OF assms(1) j(1)] j(2) by metis
  moreover have "idx \<noteq> symtab_index b + 2" using assms(3) i(2) by (force simp: es own_entries_def)
  ultimately show ?thesis by (intro that) (simp_all add: es)
qed

lemma planned_table:
  assumes e: "entries_of b t rela_for mids" and t: "table_ok b t vs" and len: "2 * length (ob_sections b) + 4 < 2 ^ 16"
    and es: "plan_entries b t fg rela_for = Inr es" and l: "plan_table b es = Inr l"
  shows "\<exists>shstr. table_holds b l shstr vs (t_strtab t) fg"
proof -
  note plain = plan_entries_plain [OF e t es]
  define a where "a = unat (symtab_index b)"
  define c where "c = unat (symtab_index b + 2)"
  have n: "length es < 2 ^ 16" using plan_entries_eq(2) [OF e es] len by simp
  have k: "(symtab_index b + 2, strtab_shdr ''.shstrtab'' []) \<in> set es"
    and sym: "(symtab_index b, symtab_shdr (symtab_bytes t) (symtab_index b + 1) fg) \<in> set es"
      "(symtab_index b + 1, strtab_shdr ''.strtab'' (t_strtab t)) \<in> set es"
    by (simp_all add: plan_entries_eq(1) [OF e es] own_entries_def)
  obtain shstr where lb: "l_builder l = b" "length (l_shdrs l) = length es" and dist: "distinct (map fst es)"
    and ent: "\<forall>i x. (i, x) \<in> set es \<longrightarrow> unat i < length es"
      "\<forall>i x. (i, x) \<in> set es \<longrightarrow> i \<noteq> symtab_index b + 2 \<longrightarrow> l_shdrs l ! unat i = x"
    and inv: "\<forall>j < length es. j \<noteq> unat (symtab_index b + 2) \<longrightarrow> (word_of_nat j, l_shdrs l ! j) \<in> set es"
    and shk: "l_shdrs l ! unat (symtab_index b + 2) = strtab_shdr ''.shstrtab'' shstr"
      "unat (l_shstrtab_index l) = unat (symtab_index b + 2)"
    and nm: "(\<forall>(i, x) \<in> set es. name_ok (sh_name x)) \<and> length shstr < 2 ^ 32 \<longrightarrow> names_ok l shstr"
    and rels: "mset (filter relocating (l_shdrs l)) = mset (filter relocating (map snd es))"
    using plan_table_entries [OF l n k] .
  have cl: "c < length es" using ent(1) [rule_format, OF k] by (simp add: c_def)
  have kind: "(relocating (l_shdrs l ! j) \<longrightarrow> rela_table (l_shdrs l ! j)) \<and> (sh_typ (l_shdrs l ! j) = SHT_SYMTAB \<longrightarrow> j = a)"
    if j: "j < length es" for j
  proof (cases "j = c")
    case False
    then have "(word_of_nat j, l_shdrs l ! j) \<in> set es" using inv j by (simp add: c_def)
    moreover have "word_of_nat j = symtab_index b \<Longrightarrow> j = a" using j n by (auto simp: a_def unat_of_nat dest!: arg_cong [of _ _ unat])
    ultimately show ?thesis using plain by blast
  qed (use shk(1) in \<open>simp add: c_def strtab_shdr_def relocating_def sht_defs\<close>)
  have typed: "relocating x \<Longrightarrow> rela_table x" if "x \<in> set (l_shdrs l)" for x
    using kind that lb(2) by (metis in_set_conv_nth)
  have specs: "\<exists>idx. section_index (plan_index b) (sp_name s) = Inr idx \<and> unat idx < length (l_shdrs l) \<and>
      l_shdrs l ! unat idx = spec_shdr s" if s: "s \<in> set (ob_sections b)" for s
    using plan_entries_specs [OF e es dist s] ent lb(2) by metis
  have names: "length shstr < 2 ^ 32 \<longrightarrow> names_ok l shstr" using nm plain by fast
  obtain rss where rss: "list_all2 (relocs_of b vs) (ob_sections b) rss"
    "concat (map shdr_relocs (filter relocating (map snd es))) = concat rss"
    using plan_entries_relocs [OF e t es] .
  have dec: "list_all2 (decodes_on (t_strtab t)) (map snd (t_syms t)) vs"
    using t by (simp add: table_ok_def list_all2_map1)
  have sa: "a < length (l_shdrs l)" "l_shdrs l ! a = symtab_shdr (concat (map snd (t_syms t))) (symtab_index b + 1) fg"
    "unat (symtab_index b + 1) < length (l_shdrs l)" "l_shdrs l ! unat (symtab_index b + 1) = strtab_shdr ''.strtab'' (t_strtab t)"
    using ent(1,2) [rule_format, OF sym(1)] ent(1,2) [rule_format, OF sym(2)] lb(2)
    by (simp_all add: a_def symtab_bytes_def)
  have "table_holds b l shstr vs (t_strtab t) fg"
    unfolding table_holds_def
  proof (intro conjI)
    show "\<exists>a si cs. a < length (l_shdrs l) \<and> l_shdrs l ! a = symtab_shdr (concat cs) si fg \<and>
        (\<forall>j < length (l_shdrs l). sh_typ (l_shdrs l ! j) = SHT_SYMTAB \<longrightarrow> j = a) \<and>
        unat si < length (l_shdrs l) \<and> l_shdrs l ! unat si = strtab_shdr ''.strtab'' (t_strtab t) \<and>
        list_all2 (decodes_on (t_strtab t)) cs vs"
      using sa kind dec unfolding lb(2) by blast
    show "\<exists>rss. list_all2 (relocs_of b vs) (ob_sections b) rss \<and>
        mset (concat (map shdr_relocs (filter relocating (l_shdrs l)))) = mset (concat rss)"
      using rss mset_concat_map [OF rels] by metis
  qed (use lb n cl names shk typed specs in \<open>simp_all add: c_def\<close>)
  then show ?thesis by blast
qed

lemma planned:
  assumes ok: "object_ok b" and plan: "plan b = Some (Inr l)"
  obtains shstr ss ls gs st where "section_views b ss"
    "symbol_views b (filter (\<lambda>y. sy_bind y = STB_LOCAL) (ob_symbols b)) ls"
    "symbol_views b (filter (\<lambda>y. sy_bind y \<noteq> STB_LOCAL) (ob_symbols b)) gs"
    "table_holds b l shstr (null_view # ss @ ls @ gs) st (word_of_nat (1 + length ss + length ls))"
proof -
  have oks: "list_all spec_ok (ob_sections b)" "list_all symbol_ok (ob_symbols b)"
    "2 * length (ob_sections b) + 4 < 2 ^ 16"
    using ok by (auto simp: object_ok_def SHN_LORESERVE_def)
  obtain fg t rela_for es where p: "plan_symbols b (plan_index b) tables_new = Some (Inr fg, t)" "plan_relocs b t = Inr rela_for"
    "plan_entries b t fg rela_for = Inr es" "plan_table b es = Inr l"
    using planE [OF plan] .
  obtain ss ls gs where v: "section_views b ss"
    "symbol_views b (filter (\<lambda>y. sy_bind y = STB_LOCAL) (ob_symbols b)) ls"
    "symbol_views b (filter (\<lambda>y. sy_bind y \<noteq> STB_LOCAL) (ob_symbols b)) gs"
    "table_ok b t (null_view # ss @ ls @ gs)" and fg: "fg = word_of_nat (1 + length ss + length ls)"
    using plan_symbols_ok [OF p(1) oks(2)] .
  obtain mids where m: "map_ok (section_entries b rela_for) (ob_sections b) = Inr mids"
    using p(3) by (auto simp: plan_entries_def sum_bind_eq_Inr)
  obtain offs shstr where "map fst (sort_key fst es) = map word_of_nat [0..<length es]"
    using plan_tableE [OF p(4)] by metis
  moreover obtain mid where "length mid \<le> 2 * length (ob_sections b)" "mid = concat mids" and
    es: "es = (0, null_shdr) # mid @ own_entries b t fg"
    using plan_entries_kinds [OF p(3)] m unfolding own_entries_def by metis
  ultimately have "distinct (map fst es)" using oks(3) by (intro keyed_table(1)) (simp_all add: own_entries_def)
  then have "entries_of b t rela_for mids" using oks(1) p(2) m es \<open>mid = concat mids\<close> by (simp add: entries_of_def)
  then show ?thesis using planned_table [OF _ v(4) oks(3) p(3,4)] v that unfolding fg by metis
qed


section \<open>The file read back\<close>

text \<open>What the reader returns: the views of the headers, the symbols in order, the relocations.\<close>

definition reads_back :: "object_builder \<Rightarrow> bytes \<Rightarrow> elf \<Rightarrow> elf_layout \<Rightarrow> u64 list \<Rightarrow> elf_symbol list \<Rightarrow> bool" where
  "reads_back b bs e l offs vs \<longleftrightarrow>
     el_bytes e = bs \<and> el_type e = ET_REL \<and> el_machine e = EM_X86_64 \<and> el_segments e = [] \<and>
     el_sections e = section_views_of l offs \<and> el_symbols e = numbered vs \<and>
     el_relocations e = concat (map shdr_relocs (filter relocating (l_shdrs l)))"

lemma elf_parse_written:
  assumes f: "file_ok l bs base offs" and ov: "ob_header (l_builder l) = no_overrides" and len: "length bs < 2 ^ 32"
    and t: "table_holds b l shstr vs st fg"
  shows "\<exists>e. elf_parse bs = Some (Inr e) \<and> reads_back b bs e l offs vs"
proof -
  let ?k = "unat (l_shstrtab_index l)" and ?h = "header_view l bs base"
  have u: "length bs \<le> usize_max" using len by (simp add: usize_max_def)
  have k: "?k < length (l_shdrs l)" "l_shdrs l ! ?k = strtab_shdr ''.shstrtab'' shstr" "length (l_shdrs l) < 2 ^ 16"
    and names: "length shstr < 2 ^ 32 \<longrightarrow> names_ok l shstr"
    and rel: "\<And>s. s \<in> set (l_shdrs l) \<Longrightarrow> relocating s \<Longrightarrow> rela_table s"
    using t by (simp_all add: table_holds_def)
  obtain a si cs where s: "a < length (l_shdrs l)" "l_shdrs l ! a = symtab_shdr (concat cs) si fg"
      "\<And>j. j < length (l_shdrs l) \<Longrightarrow> sh_typ (l_shdrs l ! j) = SHT_SYMTAB \<Longrightarrow> j = a"
      "unat si < length (l_shdrs l)" "l_shdrs l ! unat si = strtab_shdr ''.strtab'' st" "list_all2 (decodes_on st) cs vs"
    using t unfolding table_holds_def by blast
  have small: "length (sh_data (l_shdrs l ! j)) < 2 ^ 32" if "j < length (l_shdrs l)" "plain (l_shdrs l ! j)" for j
  proof -
    have "placed bs 64 (offs ! j) (l_shdrs l ! j)" using f that(1) by (simp add: file_ok_def)
    then have "length (sh_data (l_shdrs l ! j)) \<le> length bs" using that(2) by (auto simp: placed_def plain_def)
    then show ?thesis using len by simp
  qed
  have plain: "plain (strtab_shdr n d)" for n d by (simp add: plain_def strtab_shdr_def sht_defs)
  have sized: "length shstr < 2 ^ 32" "length st < 2 ^ 32"
    using small [OF k(1)] small [OF s(4)] by (simp_all add: k(2) s(5) plain) (simp_all add: strtab_shdr_def)
  have dec: "list_all2 (decodes st) cs vs"
    using s(6) sized(2) by (auto elim!: list_all2_mono simp: decodes_on_def dest!: spec [of _ "[]"])
  have hdr: "bs = ehdr_bytes l (word_of_nat base) @ drop 64 bs" using f length_ehdr_bytes [OF ov] by (auto simp: file_ok_def)
  note h = parse_header_written [OF hdr ov u]
  have 1: "parse_segments ?h = Some (Inr (), ?h)" by (simp add: parse_segments_def)
  have ne: "0 < length (l_shdrs l)" using s(1) by (rule le_less_trans [OF le0])
  have 2: "parse_sections ?h = Some (Inr (), ?h\<lparr>el_sections := section_views_of l offs\<rparr>)"
    using names sized(1) k ne
    by (intro parse_sections_written [OF f u]) (simp_all add: plain, simp_all add: strtab_shdr_def)
  let ?e2 = "?h\<lparr>el_sections := section_views_of l offs\<rparr>"
  have 3: "parse_symbols ?e2 = Some (Inr (), ?e2\<lparr>el_symbols := numbered vs\<rparr>)"
    by (rule parse_symbols_written [OF _ _ _ f u s(1,2,3,4,5) refl dec]) simp_all
  let ?e3 = "?e2\<lparr>el_symbols := numbered vs\<rparr>"
  have 4: "parse_relocations ?e3 = Some (Inr (), ?e3\<lparr>el_relocations := concat (map shdr_relocs (filter relocating (l_shdrs l)))\<rparr>)"
    by (rule parse_relocations_written [OF _ _ _ f u rel]) simp_all
  have "parse_passes ?h = Some (Inr (), ?e3\<lparr>el_relocations := concat (map shdr_relocs (filter relocating (l_shdrs l)))\<rparr>)"
    by (simp add: parse_passes_def st_bind_def 1 2 3 4)
  then have "elf_parse bs = Some (Inr (?e3\<lparr>el_relocations := concat (map shdr_relocs (filter relocating (l_shdrs l)))\<rparr>))"
    using h by (simp add: elf_parse_def EHDR_SIZE_def)
  then show ?thesis by (simp add: reads_back_def)
qed

lemma object_parsed:
  assumes ok: "object_ok b" and built: "object_build b = Some (Inr bs)" and len: "length bs < 2 ^ 32"
  obtains e l base offs shstr ss ls gs st where "elf_parse bs = Some (Inr e)" "section_views b ss"
    "symbol_views b (filter (\<lambda>y. sy_bind y = STB_LOCAL) (ob_symbols b)) ls"
    "symbol_views b (filter (\<lambda>y. sy_bind y \<noteq> STB_LOCAL) (ob_symbols b)) gs"
    "reads_back b bs e l offs (null_view # ss @ ls @ gs)" "file_ok l bs base offs"
    "table_holds b l shstr (null_view # ss @ ls @ gs) st (word_of_nat (1 + length ss + length ls))"
proof -
  obtain l where l: "plan b = Some (Inr l)" "emit l = Inr bs"
    using built by (auto simp: object_build_def sum_bind_eq_Inr)
  obtain shstr ss ls gs st where v: "section_views b ss"
    "symbol_views b (filter (\<lambda>y. sy_bind y = STB_LOCAL) (ob_symbols b)) ls"
    "symbol_views b (filter (\<lambda>y. sy_bind y \<noteq> STB_LOCAL) (ob_symbols b)) gs"
    "table_holds b l shstr (null_view # ss @ ls @ gs) st (word_of_nat (1 + length ss + length ls))"
    using planned [OF ok l(1)] .
  have lb: "l_builder l = b" using v(4) by (simp add: table_holds_def)
  have ov: "ob_header (l_builder l) = no_overrides" "ob_truncate_to (l_builder l) = None" using ok by (simp_all add: lb object_ok_def)
  obtain base offs where f: "file_ok l bs base offs" using emit_file [OF l(2) ov] .
  obtain e where "elf_parse bs = Some (Inr e)" "reads_back b bs e l offs (null_view # ss @ ls @ gs)"
    using elf_parse_written [OF f ov(1) len v(4)] by blast
  then show ?thesis using that v f by blast
qed

end
