(* ===== verification/Elf_Theorems.thy ===== *)
theory Elf_Theorems
  imports Elf_Parsed "HOL-Library.Code_Target_Numeral"
begin

text \<open>
  The correctness of the object writer and reader: what one writes, the other finds again, and no
  file makes the reader panic.
\<close>

section \<open>Emission never fails\<close>

definition body_room :: "shdr list \<Rightarrow> nat" where
  "body_room ss = sum_list (map (\<lambda>s. unat (max (sh_align s) 1) + length (sh_data s)) ss)"

lemma emit_bodies_length:
  "emit_bodies ss out = (offs, out') \<Longrightarrow> length out' \<le> length out + body_room ss"
proof (induction ss arbitrary: out offs)
  case (Cons s ss)
  show ?case
  proof (cases "sh_typ s = SHT_NULL")
    case True
    then have "emit_bodies ss out = (fst (emit_bodies ss out), out')"
      using Cons.prems by (auto simp: Let_def split: prod.splits)
    then show ?thesis using Cons.IH by (fastforce simp: body_room_def)
  next
    case False
    define out1 where "out1 = pad_to (unat (max (sh_align s) 1)) out"
    define out2 where "out2 = (if sh_occupies s then out1 @ sh_data s else out1)"
    have "emit_bodies ss out2 = (fst (emit_bodies ss out2), out')"
      using Cons.prems False by (auto simp: Let_def out1_def [symmetric] out2_def [symmetric] split: prod.splits)
    then have "length out' \<le> length out2 + body_room ss" by (rule Cons.IH)
    moreover have "0 < unat (max (sh_align s) 1)" by (auto simp: unat_gt_0 max_def)
    then have "length out1 < length out + unat (max (sh_align s) 1)" unfolding out1_def by (rule pad_to_short)
    ultimately show ?thesis by (simp add: body_room_def out2_def split: if_splits)
  qed
qed (simp add: body_room_def)

lemma emit_returns:
  assumes "ob_header (l_builder l) = no_overrides" and "ob_truncate_to (l_builder l) = None"
  obtains bs where "emit l = Inr bs" "length bs \<le> 72 + body_room (l_shdrs l) + 64 * length (l_shdrs l)"
proof -
  obtain offs out where e: "emit_bodies (l_shdrs l) (replicate 64 0) = (offs, out)" by fastforce
  define out1 where "out1 = pad_to 8 out"
  define t where "t = concat (map (\<lambda>(i, s). shdr_bytes (name_offset_at l i) (offs ! i) s)
    (zip [0..<length (l_shdrs l)] (l_shdrs l)))"
  have h: "length (ehdr_bytes l x) = 64" for x using assms(1) by (rule length_ehdr_bytes)
  have o: "length out \<le> 64 + body_room (l_shdrs l)" using emit_bodies_length [OF e] by simp
  have p: "length out1 < length out + 8" unfolding out1_def by (rule pad_to_short) simp
  have t: "length t \<le> 64 * length (l_shdrs l)"
    by (simp add: t_def length_concat comp_def split_beta sum_list_triv)
  have "emit l = Inr (ehdr_bytes l (word_of_nat (length out1)) @ drop 64 (out1 @ t))"
    by (simp add: emit_def e h assms(2) out1_def t_def EHDR_SIZE_def Let_def)
  then show ?thesis using h o p t by (intro that) auto
qed

section \<open>A small object\<close>

definition demo_object :: object_builder where
  "demo_object =
     object_symbols [sym_global ''f'' ''.t'' 0, sym_undefined ''g'']
       (object_section (spec_reloc (reloc_sym 1 ''g'' R_X86_64_PC32 (- 4)) (spec_data ''.t'' [7, 8]))
          object_new)"

lemma demo_object_ok: "object_ok demo_object"
  by code_simp

text \<open>The plan of the object, stage by stage.\<close>

definition demo_tables :: sym_tables where
  "demo_tables = (case plan_symbols demo_object (plan_index demo_object) tables_new of Some (_, t) \<Rightarrow> t | None \<Rightarrow> tables_new)"

definition demo_relas :: "(string \<times> bytes) list" where
  "demo_relas = (case plan_relocs demo_object demo_tables of Inr r \<Rightarrow> r | Inl _ \<Rightarrow> [])"

definition demo_entries :: "(u32 \<times> shdr) list" where
  "demo_entries = (case plan_entries demo_object demo_tables 2 demo_relas of Inr es \<Rightarrow> es | Inl _ \<Rightarrow> [])"

definition ok_with :: "('a \<Rightarrow> bool) \<Rightarrow> 'e + 'a \<Rightarrow> bool" where
  "ok_with p r = (case r of Inr x \<Rightarrow> p x | Inl _ \<Rightarrow> False)"

lemma demo_symbols: "map_option fst (plan_symbols demo_object (plan_index demo_object) tables_new) = Some (Inr 2)"
  by code_simp

lemma demo_relocations: "ok_with (\<lambda>_. True) (plan_relocs demo_object demo_tables)"
  by code_simp

lemma demo_sections: "ok_with (\<lambda>_. True) (plan_entries demo_object demo_tables 2 demo_relas)"
  by code_simp

lemma demo_table: "ok_with (\<lambda>l. body_room (l_shdrs l) + length (l_shdrs l) < 1000) (plan_table demo_object demo_entries)"
  by code_simp

lemma demo_file_built: "\<exists>bs. object_build demo_object = Some (Inr bs) \<and> length bs < 2 ^ 32"
proof -
  have 1: "plan_symbols demo_object (plan_index demo_object) tables_new = Some (Inr 2, demo_tables)"
    using demo_symbols by (auto simp: demo_tables_def split: option.splits)
  have 2: "plan_relocs demo_object demo_tables = Inr demo_relas"
    using demo_relocations by (auto simp: demo_relas_def ok_with_def split: sum.splits)
  have 3: "plan_entries demo_object demo_tables 2 demo_relas = Inr demo_entries"
    using demo_sections by (auto simp: demo_entries_def ok_with_def split: sum.splits)
  obtain l where 4: "plan_table demo_object demo_entries = Inr l" "body_room (l_shdrs l) + length (l_shdrs l) < 1000"
    using demo_table by (auto simp: ok_with_def split: sum.splits)
  have "ob_header demo_object = no_overrides" "ob_truncate_to demo_object = None" "\<not> ob_symtab_first demo_object"
    using demo_object_ok by (simp_all add: object_ok_def demo_object_def object_symbols_def object_section_def object_new_def)
  moreover have "l_builder l = demo_object" using plan_tableE [OF 4(1)] by metis
  ultimately obtain bs where "emit l = Inr bs" "length bs \<le> 72 + body_room (l_shdrs l) + 64 * length (l_shdrs l)"
    "plan demo_object = Some (Inr l)"
    using emit_returns [of l] 1 2 3 4(1) by (auto simp: plan_def)
  then show ?thesis using 4(2) by (auto simp: object_build_def)
qed

section \<open>What is written is what is read\<close>





lemma filter_upt_single: "a < n \<Longrightarrow> filter (\<lambda>j. j = a) [0..<n] = [a]"
  by (induction n) (auto simp: less_Suc_eq filter_empty_conv)

text \<open>C15: The symbol table is the one the ABI asks for: the reader finds the null symbol, one section
  symbol for each section unless they are omitted, then every local symbol and only then the others,
  each group in the order of declaration, numbered from 0 and with the name, binding, type,
  visibility, section, value and size it was declared with; and the \<open>sh_info\<close> of the only symbol table
  is the index of the first symbol that is not local.
\<close>

theorem object_symbols_read_back:
  assumes "object_ok b" and "object_build b = Some (Inr bs)" and "length bs < 2 ^ 32"
  shows "\<exists>e ss ls gs. elf_parse bs = Some (Inr e) \<and> section_views b ss \<and>
    symbol_views b (filter (\<lambda>y. sy_bind y = STB_LOCAL) (ob_symbols b)) ls \<and>
    symbol_views b (filter (\<lambda>y. sy_bind y \<noteq> STB_LOCAL) (ob_symbols b)) gs \<and>
    el_symbols e = numbered (null_view # ss @ ls @ gs) \<and>
    map se_info (filter (\<lambda>h. se_type h = SHT_SYMTAB) (el_sections e)) = [word_of_nat (1 + length ss + length ls)]"
proof -
  obtain e l base offs shstr ss ls gs st where e: "elf_parse bs = Some (Inr e)" "section_views b ss"
    "symbol_views b (filter (\<lambda>y. sy_bind y = STB_LOCAL) (ob_symbols b)) ls"
    "symbol_views b (filter (\<lambda>y. sy_bind y \<noteq> STB_LOCAL) (ob_symbols b)) gs"
    "reads_back b bs e l offs (null_view # ss @ ls @ gs)" "file_ok l bs base offs"
    "table_holds b l shstr (null_view # ss @ ls @ gs) st (word_of_nat (1 + length ss + length ls))"
    using object_parsed [OF assms] .
  obtain a si cs where a: "a < length (l_shdrs l)"
      "l_shdrs l ! a = symtab_shdr (concat cs) si (word_of_nat (1 + length ss + length ls))"
      "\<And>j. j < length (l_shdrs l) \<Longrightarrow> sh_typ (l_shdrs l ! j) = SHT_SYMTAB \<Longrightarrow> j = a"
    using e(7) unfolding table_holds_def by blast
  have t: "sh_typ (l_shdrs l ! a) = SHT_SYMTAB" unfolding a(2) by (simp add: symtab_shdr_def)
  have "filter (\<lambda>j. sh_typ (l_shdrs l ! j) = SHT_SYMTAB) [0..<length (l_shdrs l)] = filter (\<lambda>j. j = a) [0..<length (l_shdrs l)]"
    by (rule filter_cong) (use a(3) t in fastforce)+
  also have "\<dots> = [a]" using a(1) by (rule filter_upt_single)
  finally have "map se_info (filter (\<lambda>h. se_type h = SHT_SYMTAB) (section_views_of l offs)) = [word_of_nat (1 + length ss + length ls)]"
    using a(2) by (simp add: section_views_of_def filter_map comp_def full_view_def raw_view_def symtab_shdr_def)
  moreover have "el_sections e = section_views_of l offs" "el_symbols e = numbered (null_view # ss @ ls @ gs)"
    using e(5) by (simp_all add: reads_back_def)
  ultimately show ?thesis using e(1-4) by metis
qed

theorem object_symbols_read_back_witness:
  "\<exists>bs e vs. object_build demo_object = Some (Inr bs) \<and> elf_parse bs = Some (Inr e) \<and> el_symbols e = numbered (null_view # vs)"
  using demo_file_built object_symbols_read_back [OF demo_object_ok] by metis

text \<open>C16: Relocations keep their target: the reader finds, for every section of the object, exactly its
  relocations, each with the section it applies to, its offset, kind and addend, and with the index of
  the symbol it was declared against: of the first symbol of that name, or of the section's symbol.
\<close>

theorem object_relocations_read_back:
  assumes "object_ok b" and "object_build b = Some (Inr bs)" and "length bs < 2 ^ 32"
  shows "\<exists>e vs rss. elf_parse bs = Some (Inr e) \<and> el_symbols e = numbered vs \<and>
    list_all2 (relocs_of b vs) (ob_sections b) rss \<and> mset (el_relocations e) = mset (concat rss)"
proof -
  obtain e l base offs shstr ss ls gs st where e: "elf_parse bs = Some (Inr e)" "section_views b ss"
    "symbol_views b (filter (\<lambda>y. sy_bind y = STB_LOCAL) (ob_symbols b)) ls"
    "symbol_views b (filter (\<lambda>y. sy_bind y \<noteq> STB_LOCAL) (ob_symbols b)) gs"
    "reads_back b bs e l offs (null_view # ss @ ls @ gs)" "file_ok l bs base offs"
    "table_holds b l shstr (null_view # ss @ ls @ gs) st (word_of_nat (1 + length ss + length ls))"
    using object_parsed [OF assms] .
  then show ?thesis unfolding table_holds_def reads_back_def by metis
qed

theorem object_relocations_read_back_witness:
  "\<exists>bs e. object_build demo_object = Some (Inr bs) \<and> elf_parse bs = Some (Inr e) \<and> length (el_relocations e) = 1"
proof -
  obtain bs where bs: "object_build demo_object = Some (Inr bs)" "length bs < 2 ^ 32" using demo_file_built by blast
  obtain e vs rss where e: "elf_parse bs = Some (Inr e)" "list_all2 (relocs_of demo_object vs) (ob_sections demo_object) rss"
    "mset (el_relocations e) = mset (concat rss)"
    using object_relocations_read_back [OF demo_object_ok bs] by blast
  obtain rs where rs: "rss = [rs]" "length rs = 1"
    using e(2) by (auto simp: demo_object_def object_symbols_def object_section_def object_new_def relocs_of_def
        spec_reloc_def spec_data_def spec_new_def list_all2_Cons1 dest: list_all2_lengthD)
  then have "length (el_relocations e) = 1" using e(3) by (metis append_Nil2 concat.simps size_mset)
  then show ?thesis using bs(1) e(1) by blast
qed



end
