(* ===== verification/Str.thy ===== *)
theory Str
  imports Text Utf8
begin

text \<open>
  The standard library's string operations: trimming Unicode white space, the number of characters
  padding counts, and reading a number. A string is its UTF-8 bytes as characters.
\<close>

section \<open>White space\<close>

definition ascii_space :: "char \<Rightarrow> bool" where
  "ascii_space c \<longleftrightarrow> (let n = of_char c :: nat in 9 \<le> n \<and> n \<le> 13 \<or> n = 32)"

text \<open>The encodings of the characters with the property White_Space beyond ASCII.\<close>

definition wide_space :: "nat list \<Rightarrow> bool" where
  "wide_space ns \<longleftrightarrow>
     ns \<in> {[0xC2, 0x85], [0xC2, 0xA0], [0xE1, 0x9A, 0x80], [0xE2, 0x80, 0xA8], [0xE2, 0x80, 0xA9], [0xE2, 0x80, 0xAF],
            [0xE2, 0x81, 0x9F], [0xE3, 0x80, 0x80]} \<or>
     (length ns = 3 \<and> ns ! 0 = 0xE2 \<and> ns ! 1 = 0x80 \<and> 0x80 \<le> ns ! 2 \<and> ns ! 2 \<le> 0x8A)"

text \<open>How many bytes a white space at the front takes, of a string or of a reversed one.\<close>

definition leading_space :: "(string \<Rightarrow> string) \<Rightarrow> string \<Rightarrow> nat" where
  "leading_space f s =
     (case s of
        [] \<Rightarrow> 0
      | c # _ \<Rightarrow> if ascii_space c then 1
          else if wide_space (map of_char (f (take 2 s))) then 2
          else if wide_space (map of_char (f (take 3 s))) then 3 else 0)"

lemma leading_space_Nil [simp]: "leading_space f [] = 0"
  by (simp add: leading_space_def)

function drop_space :: "(string \<Rightarrow> string) \<Rightarrow> string \<Rightarrow> string" where
  "drop_space f s = (if leading_space f s = 0 then s else drop_space f (drop (leading_space f s) s))"
  by pat_completeness auto
termination
proof (relation "measure (length \<circ> snd)")
  fix f :: "string \<Rightarrow> string" and s
  assume "leading_space f s \<noteq> 0"
  then have "0 < leading_space f s" "s \<noteq> []" by auto
  then show "((f, drop (leading_space f s) s), f, s) \<in> measure (length \<circ> snd)" by simp
qed simp

declare drop_space.simps [simp del]

definition str_trim_start :: "string \<Rightarrow> string" where
  "str_trim_start s = drop_space id s"

definition str_trim_end :: "string \<Rightarrow> string" where
  "str_trim_end s = rev (drop_space rev (rev s))"

definition str_trim :: "string \<Rightarrow> string" where
  "str_trim s = str_trim_end (str_trim_start s)"

text \<open>A visible ASCII character at the front stops the trimming; spaces before it go.\<close>

definition visible :: "char \<Rightarrow> bool" where
  "visible c \<longleftrightarrow> (let n = of_char c :: nat in 32 < n \<and> n < 128)"

lemma wide_space_high: "wide_space ns \<Longrightarrow> n \<in> set ns \<Longrightarrow> 128 \<le> n"
proof -
  assume w: "wide_space ns" and n: "n \<in> set ns"
  show "128 \<le> n"
  proof (cases "length ns = 3 \<and> ns ! 0 = 0xE2 \<and> ns ! 1 = 0x80 \<and> 0x80 \<le> ns ! 2 \<and> ns ! 2 \<le> 0x8A")
    case True
    then obtain i where "i < 3" "ns ! i = n" using n by (metis in_set_conv_nth)
    then show ?thesis using True by (auto simp: numeral_3_eq_3 numeral_2_eq_2 less_Suc_eq)
  next
    case False
    then show ?thesis using w n by (auto simp: wide_space_def)
  qed
qed

lemma drop_space_visible:
  assumes "visible c" and "\<And>t. set (f t) = set t"
  shows "drop_space f (c # s) = c # s"
proof -
  have "c \<in> set (f (take 2 (c # s)))" "c \<in> set (f (take 3 (c # s)))" by (simp_all add: assms(2))
  then have "of_char c \<in> set (map of_char (f (take 2 (c # s))) :: nat list)" "of_char c \<in> set (map of_char (f (take 3 (c # s))) :: nat list)"
    by simp_all
  then have "leading_space f (c # s) = 0"
    using assms(1) wide_space_high by (fastforce simp: leading_space_def visible_def ascii_space_def Let_def)
  then show ?thesis by (subst drop_space.simps) simp
qed

lemma drop_space_spaces: "drop_space f (replicate k (CHR '' '') @ s) = drop_space f s"
proof (induction k)
  case (Suc k)
  have "leading_space f (CHR '' '' # replicate k (CHR '' '') @ s) = 1" by (simp add: leading_space_def ascii_space_def)
  then show ?case using Suc by (subst drop_space.simps) simp
qed simp

lemma str_trim_end_padded: "visible c \<Longrightarrow> str_trim_end (s @ [c] @ replicate k (CHR '' '')) = s @ [c]"
  by (simp add: str_trim_end_def drop_space_spaces drop_space_visible)

lemma str_trim_start_visible: "visible c \<Longrightarrow> str_trim_start (c # s) = c # s"
  by (simp add: str_trim_start_def drop_space_visible)

section \<open>Characters\<close>

text \<open>\<open>chars().count()\<close>, which padding counts: the bytes that start a character.\<close>

definition char_count :: "string \<Rightarrow> nat" where
  "char_count s = length (filter (\<lambda>b. \<not> cont b) (as_bytes s))"

definition pad_chars :: "nat \<Rightarrow> string \<Rightarrow> string" where
  "pad_chars n s = s @ replicate (n - char_count s) (CHR '' '')"

lemma char_count_le: "char_count s \<le> length s"
  unfolding char_count_def by (metis length_as_bytes length_filter_le)

text \<open>\<open>get(at..)\<close> on a string: none past the end or inside a character.\<close>

definition str_get_from :: "nat \<Rightarrow> string \<Rightarrow> string option" where
  "str_get_from k s =
     (if k = 0 \<or> k = length s \<or> (k < length s \<and> \<not> cont (as_bytes s ! k)) then Some (drop k s) else None)"

section \<open>Numbers\<close>

definition digit_of :: "char \<Rightarrow> nat option" where
  "digit_of c = (let n = of_char c in if 48 \<le> n \<and> n \<le> 57 then Some (n - 48) else None)"

fun digits_val :: "nat \<Rightarrow> nat \<Rightarrow> string \<Rightarrow> nat option" where
  "digits_val m v [] = Some v"
| "digits_val m v (c # cs) =
     (case digit_of c of
        None \<Rightarrow> None
      | Some d \<Rightarrow> if v * 10 + d \<le> m then digits_val m (v * 10 + d) cs else None)"

text \<open>\<open>parse\<close> of an unsigned type whose largest value is \<open>m\<close>.\<close>

definition parse_uint :: "nat \<Rightarrow> string \<Rightarrow> nat option" where
  "parse_uint m s =
     (let t = (case s of c # cs \<Rightarrow> if c = CHR ''+'' then cs else s | [] \<Rightarrow> [])
      in if t = [] then None else digits_val m 0 t)"

lemma digits_val_append:
  "digits_val m v (xs @ ys) = Option.bind (digits_val m v xs) (\<lambda>w. digits_val m w ys)"
  by (induction m v xs rule: digits_val.induct) (auto split: option.split)

lemma digit_of_digit: "d < 10 \<Longrightarrow> digit_of (digit_char d) = Some d"
  by (simp add: digit_of_def digit_char_def)

lemma digits_val_show: "n \<le> m \<Longrightarrow> digits_val m 0 (show_nat n) = Some n"
proof (induction n rule: show_nat.induct)
  case (1 n)
  show ?case
  proof (cases "n < 10")
    case True
    then show ?thesis using 1(2) by (subst show_nat.simps) (simp add: digit_of_digit)
  next
    case False
    then have "digits_val m 0 (show_nat (n div 10)) = Some (n div 10)" using 1 by simp
    moreover have "n div 10 * 10 + n mod 10 = n" by simp
    ultimately show ?thesis using False 1(2) by (subst show_nat.simps) (simp add: digits_val_append digit_of_digit)
  qed
qed

lemma show_nat_digits: "c \<in> set (show_nat n) \<Longrightarrow> \<exists>d < 10. c = digit_char d"
proof (induction n rule: show_nat.induct)
  case (1 n)
  have "show_nat n = (if n < 10 then [digit_char n] else show_nat (n div 10) @ [digit_char (n mod 10)])"
    by (rule show_nat.simps)
  then show ?case using 1 mod_less_divisor [of 10 n] by (auto simp del: mod_less_divisor split: if_splits)
qed

lemma visible_digit: "d < 10 \<Longrightarrow> visible (digit_char d)"
  by (simp add: visible_def digit_char_def)

lemma digit_not_sign:
  assumes "d < 10"
  shows "digit_char d \<noteq> CHR ''+''" "digit_char d \<noteq> CHR ''/''"
proof -
  have "48 \<le> (of_char (digit_char d) :: nat)" using assms by (simp add: digit_char_def)
  moreover have "of_char (CHR ''+'') = (43 :: nat)" "of_char (CHR ''/'') = (47 :: nat)" by (simp_all add: of_char_def)
  ultimately show "digit_char d \<noteq> CHR ''+''" "digit_char d \<noteq> CHR ''/''" by auto
qed

lemma parse_uint_show:
  assumes "n \<le> m"
  shows "parse_uint m (show_nat n) = Some n"
proof -
  obtain c cs where c: "show_nat n = c # cs" using show_nat_nonempty by (cases "show_nat n") auto
  then have "c \<noteq> CHR ''+''" using show_nat_digits [of c n] digit_not_sign by auto
  then show ?thesis using digits_val_show [OF assms] by (simp add: parse_uint_def c)
qed

end
