(* ===== verification/Elf_Archive.thy ===== *)
theory Elf_Archive
  imports Elf_Read Str
begin

text \<open>
  The archives of \<^verbatim>\<open>linktest/src/elf/archive.rs\<close>: the builder with its four ways to write the symbol
  index, the two passes that lay the members out, the member header, and the reader. A String is its
  UTF-8 bytes as characters, a usize a \<open>nat\<close>.
\<close>

definition ARCHIVE_MAGIC :: bytes where "ARCHIVE_MAGIC = as_bytes (''!<arch>'' @ newline)"
definition HEADER_TERMINATOR :: bytes where "HEADER_TERMINATOR = as_bytes (''`'' @ newline)"
definition MEMBER_HEADER_SIZE :: nat where "MEMBER_HEADER_SIZE = 60"

section \<open>Writing\<close>

record ar_member =
  am_name :: string
  am_data :: bytes
  am_symbols :: "string list"

definition member_new :: "string \<Rightarrow> bytes \<Rightarrow> string list \<Rightarrow> ar_member" where
  "member_new name bs symbols = \<lparr>am_name = name, am_data = bs, am_symbols = symbols\<rparr>"

datatype index_mode = IM_Correct | IM_Omitted | IM_Stale | IM_Phantom

record archive_builder =
  ab_members :: "ar_member list"
  ab_index :: index_mode
  ab_magic_override :: "bytes option"
  ab_truncate_to :: "nat option"

definition archive_new :: archive_builder where
  "archive_new = \<lparr>ab_members = [], ab_index = IM_Correct, ab_magic_override = None, ab_truncate_to = None\<rparr>"

definition archive_member :: "ar_member \<Rightarrow> archive_builder \<Rightarrow> archive_builder" where
  "archive_member x b = b\<lparr>ab_members := ab_members b @ [x]\<rparr>"

definition archive_index :: "index_mode \<Rightarrow> archive_builder \<Rightarrow> archive_builder" where
  "archive_index i b = b\<lparr>ab_index := i\<rparr>"

definition archive_magic_override :: "bytes \<Rightarrow> archive_builder \<Rightarrow> archive_builder" where
  "archive_magic_override w b = b\<lparr>ab_magic_override := Some w\<rparr>"

definition archive_truncate_to :: "nat \<Rightarrow> archive_builder \<Rightarrow> archive_builder" where
  "archive_truncate_to n b = b\<lparr>ab_truncate_to := Some n\<rparr>"

definition pad_even :: "nat \<Rightarrow> nat" where
  "pad_even n = n + n mod 2"

text \<open>The stored names, and the long name table they grow.\<close>

fun store_names :: "ar_member list \<Rightarrow> bytes \<Rightarrow> string list \<times> bytes" where
  "store_names [] long = ([], long)"
| "store_names (x # xs) long =
     (if length (am_name x) \<le> 15
      then (let (ns, long') = store_names xs long in ((am_name x @ ''/'') # ns, long'))
      else
        (let (ns, long') = store_names xs (long @ as_bytes (am_name x) @ as_bytes (''/'' @ newline))
         in ((''/'' @ show_nat (length long)) # ns, long')))"

definition PHANTOM :: string where "PHANTOM = ''linktest_phantom_symbol''"

definition index_payload_len :: "archive_builder \<Rightarrow> nat" where
  "index_payload_len b =
     (if ab_index b = IM_Omitted then 0
      else 4 + 4 * sum_list (map (\<lambda>x. length (am_symbols x)) (ab_members b)) +
        sum_list (map (\<lambda>s. length s + 1) (concat (map am_symbols (ab_members b)))) +
        (if ab_index b = IM_Phantom then length PHANTOM + 1 + 4 else 0))"

text \<open>Where every member header lands.\<close>

fun member_offsets :: "nat \<Rightarrow> ar_member list \<Rightarrow> u32 list" where
  "member_offsets cursor [] = []"
| "member_offsets cursor (x # xs) =
     word_of_nat cursor # member_offsets (cursor + MEMBER_HEADER_SIZE + pad_even (length (am_data x))) xs"

definition first_member :: "nat \<Rightarrow> nat \<Rightarrow> nat" where
  "first_member payload_len long_len =
     length ARCHIVE_MAGIC +
     (if 0 < payload_len then MEMBER_HEADER_SIZE + pad_even payload_len else 0) +
     (if 0 < long_len then MEMBER_HEADER_SIZE + pad_even long_len else 0)"

definition first_offset :: "u32 list \<Rightarrow> u32" where
  "first_offset offs = (case offs of [] \<Rightarrow> 0 | off # _ \<Rightarrow> off)"

definition index_entries :: "archive_builder \<Rightarrow> u32 list \<Rightarrow> (u32 \<times> string) list" where
  "index_entries b offs =
     concat (map (\<lambda>(i, x). map (\<lambda>s. (if ab_index b = IM_Stale then first_offset offs else offs ! i, s)) (am_symbols x))
       (zip [0..<length (ab_members b)] (ab_members b))) @
     (if ab_index b = IM_Phantom then [(first_offset offs, PHANTOM)] else [])"

definition index_payload :: "(u32 \<times> string) list \<Rightarrow> bytes" where
  "index_payload es =
     u32_be (word_of_nat (length es)) @ concat (map (\<lambda>(off, _). u32_be off) es) @
     concat (map (\<lambda>(_, name). as_bytes name @ [0]) es)"

definition member_header :: "string \<Rightarrow> bytes \<Rightarrow> string" where
  "member_header name bs =
     pad_chars 16 name @ pad_right 12 ''0'' @ pad_right 6 ''0'' @ pad_right 6 ''0'' @ pad_right 8 ''644'' @
     pad_right 10 (show_nat (length bs))"

definition write_member :: "string \<Rightarrow> bytes \<Rightarrow> bytes \<Rightarrow> string + bytes" where
  "write_member name bs out =
     (if 16 < length name then Inl (''member name '' @ quoted name @ '' does not fit a 16-byte field'')
      else
        (let header = member_header name bs in
         if length header \<noteq> MEMBER_HEADER_SIZE - 2
         then Inl (''internal: member header came out '' @ show_nat (length header + 2) @ '' bytes, not '' @
                show_nat MEMBER_HEADER_SIZE)
         else Inr (out @ as_bytes header @ HEADER_TERMINATOR @ bs @
                (if length bs mod 2 \<noteq> 0 then as_bytes newline else []))))"

fun write_members :: "(string \<times> bytes) list \<Rightarrow> bytes \<Rightarrow> string + bytes" where
  "write_members [] out = Inr out"
| "write_members ((name, bs) # ms) out = sum_bind (write_member name bs out) (write_members ms)"

definition archive_build :: "archive_builder \<Rightarrow> string + bytes" where
  "archive_build b =
     (let (names, long) = store_names (ab_members b) [];
          payload_len = index_payload_len b;
          offs = member_offsets (first_member payload_len (length long)) (ab_members b);
          out = case_option ARCHIVE_MAGIC id (ab_magic_override b)
      in sum_bind (if 0 < payload_len then write_member ''/'' (index_payload (index_entries b offs)) out else Inr out) (\<lambda>out.
         sum_bind (if long \<noteq> [] then write_member ''//'' long out else Inr out) (\<lambda>out.
         sum_bind (write_members (zip names (map am_data (ab_members b))) out) (\<lambda>out.
         Inr (case ab_truncate_to b of None \<Rightarrow> out | Some n \<Rightarrow> take n out)))))"

section \<open>Reading\<close>

record parsed_member =
  pm_name :: string
  pm_header_offset :: nat
  pm_data :: bytes

type_synonym parsed_index = "(string \<times> u32) list"

text \<open>\<open>split(|b| *b == 0)\<close>: always at least one part.\<close>

fun split_zero :: "bytes \<Rightarrow> bytes list" where
  "split_zero [] = [[]]"
| "split_zero (b # bs) = (if b = 0 then [] # split_zero bs else (case split_zero bs of p # ps \<Rightarrow> (b # p) # ps | [] \<Rightarrow> [[b]]))"

fun index_loop :: "bytes \<Rightarrow> nat \<Rightarrow> nat \<Rightarrow> bytes list \<Rightarrow> string + parsed_index" where
  "index_loop bs i 0 names = Inr []"
| "index_loop bs i (Suc k) names =
     (case names of
        [] \<Rightarrow> Inl (''the symbol index has no name for entry '' @ show_nat i)
      | n # names' \<Rightarrow>
          sum_bind (index_loop bs (i + 1) k names') (\<lambda>es.
            Inr ((lossy_text n, u32_from_be (slice (4 + 4 * i) (4 + 4 * i + 4) bs)) # es)))"

definition parse_index :: "bytes \<Rightarrow> string + parsed_index" where
  "parse_index bs =
     (if length bs < 4 then Inl ''the symbol index is shorter than its own count field''
      else
        (let count = unat (u32_from_be (take 4 bs)); offsets_end = 4 + 4 * count in
         if length bs < offsets_end
         then Inl (''the symbol index claims '' @ show_nat count @ '' symbols but is only '' @
                show_nat (length bs) @ '' bytes'')
         else index_loop bs 0 count (split_zero (drop offsets_end bs))))"

text \<open>One header: its name, its payload, and where that ends.\<close>

definition read_member :: "bytes \<Rightarrow> nat \<Rightarrow> string + (string \<times> bytes \<times> nat)" where
  "read_member bs pos =
     (if slice (pos + 58) (pos + 60) bs \<noteq> HEADER_TERMINATOR
      then Inl (''member header at '' @ show_nat pos @ '' does not end with '' @ quoted (''`'' @ [CHR 0x5C] @ ''n''))
      else
        sum_bind (ok_or (''member at '' @ show_nat pos @ '' has an unreadable size field'')
          (parse_uint usize_max (str_trim (lossy_text (slice (pos + 48) (pos + 58) bs))))) (\<lambda>size.
        let start = pos + MEMBER_HEADER_SIZE in
        (case checked_add start size of
           Some e \<Rightarrow>
             if e \<le> length bs
             then Inr (str_trim_end (lossy_text (slice pos (pos + 16) bs)), slice start e bs, e)
             else Inl (''member at '' @ show_nat pos @ '' claims '' @ show_nat size @ '' bytes, past the end'')
         | None \<Rightarrow> Inl (''member at '' @ show_nat pos @ '' claims '' @ show_nat size @ '' bytes, past the end''))))"

definition first_part :: "char \<Rightarrow> string \<Rightarrow> string" where
  "first_part c s = takeWhile (\<lambda>d. d \<noteq> c) s"

definition trim_end_matches :: "char \<Rightarrow> string \<Rightarrow> string" where
  "trim_end_matches c s = rev (dropWhile (\<lambda>d. d = c) (rev s))"

definition member_name :: "bytes \<Rightarrow> string \<Rightarrow> string + string" where
  "member_name long raw =
     (case raw of
        CHR ''/'' # offset \<Rightarrow>
          sum_bind (ok_or (''bad long-name reference '' @ quoted raw) (parse_uint usize_max offset)) (\<lambda>k.
          Inr (case str_get_from k (lossy_text long) of Some s \<Rightarrow> first_part (CHR ''/'') s | None \<Rightarrow> []))
      | _ \<Rightarrow> Inr (trim_end_matches (CHR ''/'') raw))"

record archive_state =
  as_members :: "parsed_member list"
  as_index :: "parsed_index option"
  as_long :: bytes

definition read_step :: "nat \<Rightarrow> string \<Rightarrow> bytes \<Rightarrow> archive_state \<Rightarrow> string + archive_state" where
  "read_step pos raw payload st =
     (if raw = ''/'' then sum_bind (parse_index payload) (\<lambda>ix. Inr (st\<lparr>as_index := Some ix\<rparr>))
      else if raw = ''//'' then Inr (st\<lparr>as_long := payload\<rparr>)
      else
        sum_bind (member_name (as_long st) raw) (\<lambda>name.
        Inr (st\<lparr>as_members := as_members st @ [\<lparr>pm_name = name, pm_header_offset = pos, pm_data = payload\<rparr>]\<rparr>)))"

lemma read_member_end: "read_member bs pos = Inr (raw, payload, e) \<Longrightarrow> pos + 60 \<le> e \<and> e \<le> length bs"
  by (auto simp: read_member_def Let_def checked_add_def MEMBER_HEADER_SIZE_def sum_bind_eq_Inr split: if_splits option.splits)

function read_members :: "bytes \<Rightarrow> nat \<Rightarrow> archive_state \<Rightarrow> string + archive_state" where
  "read_members bs pos st =
     (if length bs < pos + MEMBER_HEADER_SIZE then Inr st
      else
        (case read_member bs pos of
           Inl err \<Rightarrow> Inl err
         | Inr (raw, payload, e) \<Rightarrow>
             (case read_step pos raw payload st of
                Inl err \<Rightarrow> Inl err
              | Inr st' \<Rightarrow> read_members bs (e + e mod 2) st')))"
  by pat_completeness auto
termination
  by (relation "measure (\<lambda>(bs, pos, st). length bs - pos)")
     (auto simp: MEMBER_HEADER_SIZE_def dest!: read_member_end)

declare read_members.simps [simp del]

definition archive_parse :: "bytes \<Rightarrow> string + (parsed_member list \<times> parsed_index option)" where
  "archive_parse bs =
     (if length bs < length ARCHIVE_MAGIC \<or> take 8 bs \<noteq> ARCHIVE_MAGIC
      then Inl (''not an archive: the file does not start with !<arch>'' @ [CHR 0x5C] @ ''n'')
      else
        sum_bind (read_members bs (length ARCHIVE_MAGIC) \<lparr>as_members = [], as_index = None, as_long = []\<rparr>) (\<lambda>st.
        Inr (as_members st, as_index st)))"

end
