(* ===== verification/Elf_Members.thy ===== *)
theory Elf_Members
  imports Elf_Archive Elf_Roundtrip
begin

text \<open>
  A written archive read back, piece by piece: one member header, the long name table, the symbol index,
  and the offsets the first pass computed for the members the second pass writes.
\<close>

section \<open>One member\<close>

definition member_bytes :: "string \<Rightarrow> bytes \<Rightarrow> bytes" where
  "member_bytes name bs =
     as_bytes (member_header name bs) @ HEADER_TERMINATOR @ bs @ (if length bs mod 2 \<noteq> 0 then as_bytes newline else [])"

lemma as_bytes_append [simp]: "as_bytes (s @ t) = as_bytes s @ as_bytes t"
  by (simp add: as_bytes_def)

lemma write_memberE:
  assumes "write_member name bs out = Inr out'"
  shows "out' = out @ member_bytes name bs" "length (pad_chars 16 name) = 16"
    "length (pad_right 10 (show_nat (length bs))) = 10" "length (member_header name bs) = 58"
proof -
  show "out' = out @ member_bytes name bs" and h: "length (member_header name bs) = 58"
    using assms by (auto simp: write_member_def Let_def member_bytes_def MEMBER_HEADER_SIZE_def split: if_splits)
  have "16 \<le> length (pad_chars 16 name)" using char_count_le [of name] by (simp add: pad_chars_def)
  moreover have "10 \<le> length (pad_right 10 (show_nat (length bs)))" by (simp add: pad_right_def)
  ultimately show "length (pad_chars 16 name) = 16" "length (pad_right 10 (show_nat (length bs))) = 10"
    using h by (simp_all add: member_header_def) (simp_all add: pad_right_def)
qed

lemma length_member_bytes: "length (member_header name bs) = 58 \<Longrightarrow> length (member_bytes name bs) = 60 + pad_even (length bs)"
  by (auto simp: member_bytes_def HEADER_TERMINATOR_def newline_def pad_even_def)

text \<open>A name the reader recovers from its field: valid text whose last character is visible.\<close>

definition stored_ok :: "string \<Rightarrow> bool" where
  "stored_ok n \<longleftrightarrow> utf8_valid (as_bytes n) \<and> (\<exists>s c. n = s @ [c] \<and> visible c)"

lemma utf8_valid_append: "utf8_valid as \<Longrightarrow> utf8_valid bs \<Longrightarrow> utf8_valid (as @ bs)"
proof (induction as rule: utf8_valid.induct)
  case (2 a as)
  show ?case using 2 by (auto simp: Let_def split: if_splits list.splits)
qed simp

lemma utf8_ascii_text: "(\<And>c. c \<in> set s \<Longrightarrow> of_char c < (128 :: nat)) \<Longrightarrow> utf8_valid (as_bytes s)"
  by (rule utf8_ascii) (auto simp: as_bytes_def unat_of_nat)

lemma lossy_text_as_bytes: "utf8_valid (as_bytes s) \<Longrightarrow> lossy_text (as_bytes s) = s"
  by (simp add: lossy_text_def)

lemma visible_ascii: "visible c \<Longrightarrow> of_char c < (128 :: nat)"
  by (simp add: visible_def Let_def)

lemma utf8_spaces: "utf8_valid (as_bytes (replicate k (CHR '' '')))"
  by (rule utf8_ascii_text) (auto split: if_splits)

lemma stored_field:
  assumes "stored_ok n"
  shows "str_trim_end (lossy_text (as_bytes (pad_chars k n))) = n"
proof -
  obtain s c where n: "utf8_valid (as_bytes n)" "n = s @ [c]" "visible c" using assms by (auto simp: stored_ok_def)
  have "utf8_valid (as_bytes (pad_chars k n))"
    unfolding pad_chars_def as_bytes_append by (rule utf8_valid_append [OF n(1) utf8_spaces])
  then show ?thesis using n(2,3) str_trim_end_padded by (simp add: lossy_text_as_bytes) (simp add: pad_chars_def)
qed

lemma show_nat_ends:
  obtains c s d t where "show_nat n = c # s" "visible c" "show_nat n = t @ [d]" "visible d"
    "\<forall>c \<in> set (show_nat n). visible c \<and> c \<noteq> CHR ''+'' \<and> c \<noteq> CHR ''/''"
proof -
  obtain c s where c: "show_nat n = c # s" using show_nat_nonempty by (cases "show_nat n") auto
  obtain d t where d: "show_nat n = t @ [d]" using show_nat_nonempty by (cases "show_nat n" rule: rev_cases) auto
  have all: "\<forall>c \<in> set (show_nat n). visible c \<and> c \<noteq> CHR ''+'' \<and> c \<noteq> CHR ''/''"
  proof
    fix x assume "x \<in> set (show_nat n)"
    then obtain e where "e < 10" "x = digit_char e" using show_nat_digits by blast
    then show "visible x \<and> x \<noteq> CHR ''+'' \<and> x \<noteq> CHR ''/''" using visible_digit digit_not_sign by simp
  qed
  have "c \<in> set (show_nat n)" "d \<in> set (show_nat n)" by (simp add: c) (simp add: d)
  then have "visible c" "visible d" using all by blast+
  then show ?thesis by (rule that [OF c _ d _ all])
qed

lemma size_field: "str_trim (lossy_text (as_bytes (pad_right k (show_nat n)))) = show_nat n"
proof -
  obtain c s d t where n: "show_nat n = c # s" "visible c" "show_nat n = t @ [d]" "visible d"
    "\<forall>c \<in> set (show_nat n). visible c \<and> c \<noteq> CHR ''+'' \<and> c \<noteq> CHR ''/''" by (rule show_nat_ends)
  have "utf8_valid (as_bytes (pad_right k (show_nat n)))"
  proof (rule utf8_ascii_text)
    fix x assume "x \<in> set (pad_right k (show_nat n))"
    then consider "x \<in> set (show_nat n)" | "x = CHR '' ''" by (auto simp: pad_right_def split: if_splits)
    then show "of_char x < (128 :: nat)" by cases (use n(5) visible_ascii in blast, simp)
  qed
  then have l: "lossy_text (as_bytes (pad_right k (show_nat n))) = show_nat n @ replicate (k - length (show_nat n)) (CHR '' '')"
    by (simp add: lossy_text_as_bytes) (simp add: pad_right_def)
  have "str_trim_start (show_nat n @ replicate (k - length (show_nat n)) (CHR '' '')) =
      show_nat n @ replicate (k - length (show_nat n)) (CHR '' '')"
    using str_trim_start_visible [OF n(2)] by (simp add: n(1))
  then show ?thesis unfolding l str_trim_def using str_trim_end_padded [OF n(4), of t] by (simp add: n(3))
qed

lemma read_member_written:
  assumes w: "length (pad_chars 16 name) = 16" "length (pad_right 10 (show_nat (length d))) = 10"
    and n: "stored_ok name" and bs: "bs = pre @ member_bytes name d @ rest" and len: "length bs \<le> usize_max"
  shows "read_member bs (length pre) = Inr (name, d, length pre + 60 + length d)"
proof -
  let ?p = "length pre"
  let ?mid = "pad_right 12 ''0'' @ pad_right 6 ''0'' @ pad_right 6 ''0'' @ pad_right 8 ''644''"
  have b: "bs = pre @ as_bytes (pad_chars 16 name) @ as_bytes ?mid @ as_bytes (pad_right 10 (show_nat (length d))) @
      HEADER_TERMINATOR @ d @ (if length d mod 2 \<noteq> 0 then as_bytes newline else []) @ rest"
    by (simp add: bs member_bytes_def member_header_def)
  have mid: "length ?mid = 32" by (simp add: pad_right_def)
  have t: "length HEADER_TERMINATOR = 2" by (simp add: HEADER_TERMINATOR_def newline_def)
  have s: "slice ?p (?p + 16) bs = as_bytes (pad_chars 16 name)"
    "slice (?p + 48) (?p + 58) bs = as_bytes (pad_right 10 (show_nat (length d)))"
    "slice (?p + 58) (?p + 60) bs = HEADER_TERMINATOR" "slice (?p + 60) (?p + 60 + length d) bs = d"
    using w mid t by (simp_all add: b slice_def)
  have e: "?p + 60 + length d \<le> length bs" using w mid t by (simp add: b)
  then have "parse_uint usize_max (show_nat (length d)) = Some (length d)" using len by (intro parse_uint_show) simp
  then show ?thesis
    using e len by (simp add: read_member_def s size_field stored_field [OF n] MEMBER_HEADER_SIZE_def checked_add_def Let_def ok_or_def)
qed

text \<open>The reader at a written member: one step, and on to the next even offset.\<close>

lemma read_members_step:
  assumes w: "length (member_header name d) = 58" "length (pad_chars 16 name) = 16" "length (pad_right 10 (show_nat (length d))) = 10"
    and n: "stored_ok name" and bs: "bs = pre @ member_bytes name d @ rest" and len: "length bs \<le> usize_max"
    and even: "length pre mod 2 = 0" and step: "read_step (length pre) name d st = Inr st'"
  shows "read_members bs (length pre) st = read_members bs (length (pre @ member_bytes name d)) st'"
proof -
  note r = read_member_written [OF w(2,3) n bs len]
  have "60 \<le> length (member_bytes name d)" by (simp add: length_member_bytes [OF w(1)])
  then have "length pre + MEMBER_HEADER_SIZE \<le> length bs" by (simp add: bs MEMBER_HEADER_SIZE_def)
  moreover have pos: "length pre + 60 + length d + (length pre + 60 + length d) mod 2 = length (pre @ member_bytes name d)"
    using even by (simp add: length_member_bytes [OF w(1)] pad_even_def) presburger
  moreover have "\<not> length bs < length pre + MEMBER_HEADER_SIZE" using calculation(1) by simp
  ultimately show ?thesis by (subst read_members.simps) (simp only: if_False r step sum.case prod.case)
qed

lemma read_members_end: "length bs \<le> pos \<Longrightarrow> read_members bs pos st = Inr st"
  by (subst read_members.simps) (simp add: MEMBER_HEADER_SIZE_def)


section \<open>All members\<close>

fun parsed_from :: "nat \<Rightarrow> ar_member list \<Rightarrow> parsed_member list" where
  "parsed_from pos [] = []"
| "parsed_from pos (x # xs) =
     \<lparr>pm_name = am_name x, pm_header_offset = pos, pm_data = am_data x\<rparr> #
       parsed_from (pos + 60 + pad_even (length (am_data x))) xs"

text \<open>A stored name stands for a member's own.\<close>

definition name_stored :: "bytes \<Rightarrow> string \<Rightarrow> ar_member \<Rightarrow> bool" where
  "name_stored long n x \<longleftrightarrow> stored_ok n \<and> n \<noteq> ''/'' \<and> n \<noteq> ''//'' \<and> member_name long n = Inr (am_name x)"

lemma length_members_even: "length pre mod 2 = 0 \<Longrightarrow> length (member_header name d) = 58 \<Longrightarrow> length (pre @ member_bytes name d) mod 2 = 0"
  by (simp add: length_member_bytes pad_even_def) presburger

lemma read_written_members:
  assumes "write_members (zip ns (map am_data xs)) pre = Inr bs" "list_all2 (name_stored (as_long st)) ns xs"
    and "length pre mod 2 = 0" "length bs \<le> usize_max"
  shows "read_members bs (length pre) st = Inr (st\<lparr>as_members := as_members st @ parsed_from (length pre) xs\<rparr>) \<and>
    (\<exists>rest. bs = pre @ rest) \<and> (\<forall>p \<in> set (parsed_from (length pre) xs). pm_header_offset p < length bs)"
  using assms
proof (induction xs arbitrary: ns pre st)
  case (Cons x xs)
  obtain n ms where ns: "ns = n # ms" "name_stored (as_long st) n x" "list_all2 (name_stored (as_long st)) ms xs"
    using Cons.prems(2) by (auto simp: list_all2_Cons2)
  obtain out where w: "write_member n (am_data x) pre = Inr out" and ws: "write_members (zip ms (map am_data xs)) out = Inr bs"
    using Cons.prems(1) by (auto simp: ns(1) sum_bind_eq_Inr)
  note m = write_memberE [OF w]
  let ?st = "st\<lparr>as_members := as_members st @ [\<lparr>pm_name = am_name x, pm_header_offset = length pre, pm_data = am_data x\<rparr>]\<rparr>"
  have even: "length out mod 2 = 0" unfolding m(1) by (rule length_members_even [OF Cons.prems(3) m(4)])
  have ih: "read_members bs (length out) ?st = Inr (?st\<lparr>as_members := as_members ?st @ parsed_from (length out) xs\<rparr>)"
    "\<exists>rest. bs = out @ rest" "\<forall>p \<in> set (parsed_from (length out) xs). pm_header_offset p < length bs"
    using Cons.IH [OF ws _ even Cons.prems(4), of ?st] ns(3) by simp_all
  obtain rest where rest: "bs = pre @ member_bytes n (am_data x) @ rest" using ih(2) by (auto simp: m(1))
  have "read_step (length pre) n (am_data x) st = Inr ?st"
    using ns(2) by (simp add: read_step_def name_stored_def)
  then have "read_members bs (length pre) st = read_members bs (length out) ?st"
    unfolding m(1) using ns(2)
    by (intro read_members_step [OF m(4,2,3) _ rest Cons.prems(4,3)]) (simp_all add: name_stored_def)
  moreover have "length out = length pre + 60 + pad_even (length (am_data x))"
    by (simp add: m(1) length_member_bytes [OF m(4)])
  moreover have "member_bytes n (am_data x) \<noteq> []" using length_member_bytes [OF m(4)] by auto
  ultimately show ?case using ih(1,3) rest by simp
qed (auto simp: read_members_end)

section \<open>The long names\<close>

definition member_ok :: "ar_member \<Rightarrow> bool" where
  "member_ok x \<longleftrightarrow>
     am_name x \<noteq> [] \<and> utf8_valid (as_bytes (am_name x)) \<and> CHR ''/'' \<notin> set (am_name x) \<and>
     (\<forall>s \<in> set (am_symbols x). utf8_valid (as_bytes s) \<and> 0 \<notin> set (as_bytes s))"

lemma utf8_head: "utf8_valid (a # as) \<Longrightarrow> \<not> cont a"
  by (auto simp: Let_def cont_def split: if_splits)

lemma visible_slash: "visible (CHR ''/'')"
  by (simp add: visible_def of_char_def)

lemma slash_newline: "utf8_valid (as_bytes (''/'' @ newline))"
  by (rule utf8_ascii_text) (auto simp: newline_def of_char_def)

lemma short_name_stored:
  assumes "member_ok x"
  shows "name_stored long (am_name x @ ''/'') x"
proof -
  have n: "am_name x \<noteq> []" "utf8_valid (as_bytes (am_name x))" "CHR ''/'' \<notin> set (am_name x)"
    using assms by (simp_all add: member_ok_def)
  have "utf8_valid (as_bytes ''/'')" by (rule utf8_ascii_text) (simp add: of_char_def)
  then have "stored_ok (am_name x @ ''/'')"
    using n(2) utf8_valid_append visible_slash by (auto simp: stored_ok_def)
  moreover have "trim_end_matches (CHR ''/'') (am_name x @ ''/'') = am_name x"
  proof -
    have "dropWhile (\<lambda>d. d = CHR ''/'') (rev (am_name x)) = rev (am_name x)"
      using n(3) by (intro dropWhile_eq_self_iff [THEN iffD2] disjI2) (metis hd_in_set list.size(3) rev_is_Nil_conv set_rev n(1))
    then show ?thesis by (simp add: trim_end_matches_def)
  qed
  moreover obtain c cs where "am_name x = c # cs" "c \<noteq> CHR ''/''" using n(1,3) by (cases "am_name x") auto
  ultimately show ?thesis by (auto simp: name_stored_def member_name_def split: list.splits char.splits bool.splits)
qed

lemma as_bytes_as_chars: "as_bytes (as_chars bs) = bs"
proof -
  have "word_of_nat (of_char (char_of (unat b) :: char)) = b" for b :: u8
    using byte_lt [of b] by simp
  then show ?thesis by (simp add: as_bytes_def as_chars_def comp_def)
qed

lemma as_chars_append: "as_chars (as @ bs) = as_chars as @ as_chars bs"
  by (simp add: as_chars_def)

lemma as_chars_simps [simp]: "length (as_chars bs) = length bs" "as_chars [] = []"
  by (simp_all add: as_chars_def)

lemma long_name_stored:
  assumes "member_ok x" and long: "utf8_valid (l @ as_bytes (am_name x) @ as_bytes (''/'' @ newline) @ u)"
    and len: "length l \<le> usize_max"
  shows "name_stored (l @ as_bytes (am_name x) @ as_bytes (''/'' @ newline) @ u) (''/'' @ show_nat (length l)) x"
proof -
  obtain c s d t where d: "show_nat (length l) = c # s" "visible c" "show_nat (length l) = t @ [d]" "visible d"
    "\<forall>c \<in> set (show_nat (length l)). visible c \<and> c \<noteq> CHR ''+'' \<and> c \<noteq> CHR ''/''" by (rule show_nat_ends)
  have "utf8_valid (as_bytes (''/'' @ show_nat (length l)))"
    using d(5) visible_ascii visible_slash by (intro utf8_ascii_text) auto
  then have "stored_ok (''/'' @ show_nat (length l))"
    unfolding stored_ok_def using d(4) by (intro conjI exI [of _ "''/'' @ t"] exI [of _ d]) (simp_all add: d(3))
  moreover have "''/'' @ show_nat (length l) \<noteq> ''/''" "''/'' @ show_nat (length l) \<noteq> ''//''" using d(1,5) by auto
  moreover have "member_name (l @ as_bytes (am_name x) @ as_bytes (''/'' @ newline) @ u) (''/'' @ show_nat (length l)) = Inr (am_name x)"
  proof -
    let ?L = "l @ as_bytes (am_name x) @ as_bytes (''/'' @ newline) @ u"
    have n: "am_name x \<noteq> []" "utf8_valid (as_bytes (am_name x))" "CHR ''/'' \<notin> set (am_name x)"
      using assms(1) by (simp_all add: member_ok_def)
    then obtain b bs where b: "as_bytes (am_name x) = b # bs" "\<not> cont b"
      using utf8_head by (cases "as_bytes (am_name x)") (auto simp: as_bytes_def)
    have "as_bytes (as_chars ?L) ! length l = b" by (simp only: as_bytes_as_chars) (simp add: b(1) nth_append)
    moreover have "length l < length (as_chars ?L)" using n(1) by (simp add: as_chars_def)
    ultimately have "str_get_from (length l) (as_chars ?L) = Some (drop (length l) (as_chars ?L))"
      using b(2) by (simp add: str_get_from_def)
    moreover have "drop (length l) (as_chars ?L) = am_name x @ ''/'' @ as_chars (as_bytes newline @ u)"
      by (simp add: as_chars_append)
    moreover have "takeWhile (\<lambda>c. c \<noteq> CHR ''/'') (am_name x @ ''/'' @ as_chars (as_bytes newline @ u)) = am_name x"
    proof -
      have "takeWhile (\<lambda>c. c \<noteq> CHR ''/'') (am_name x @ CHR ''/'' # as_chars (as_bytes newline @ u)) = am_name x"
        using n(3) by (subst takeWhile_append2) auto
      then show ?thesis by simp
    qed
    moreover have "lossy_text ?L = as_chars ?L" by (simp only: lossy_text_def utf8_lossy_valid [OF long])
    ultimately show ?thesis
      using parse_uint_show [OF len] by (simp only: member_name_def append_Cons append_Nil list.case char.case bool.case)
        (simp add: ok_or_def first_part_def)
  qed
  ultimately show ?thesis by (simp add: name_stored_def)
qed

lemma store_names_ok:
  "store_names xs l = (ns, long) \<Longrightarrow> list_all member_ok xs \<Longrightarrow> utf8_valid l \<Longrightarrow>
     (\<exists>u. long = l @ u) \<and> utf8_valid long \<and> (length long \<le> usize_max \<longrightarrow> list_all2 (name_stored long) ns xs)"
proof (induction xs arbitrary: l ns)
  case (Cons x xs)
  show ?case
  proof (cases "length (am_name x) \<le> 15")
    case True
    then obtain ms where m: "store_names xs l = (ms, long)" "ns = (am_name x @ ''/'') # ms"
      using Cons.prems(1) by (auto split: prod.splits)
    show ?thesis
      using Cons.IH [OF m(1) _ Cons.prems(3)] Cons.prems(2) short_name_stored [of x long] by (simp add: m(2))
  next
    case False
    let ?l = "l @ as_bytes (am_name x) @ as_bytes (''/'' @ newline)"
    obtain ms where m: "store_names xs ?l = (ms, long)" "ns = (''/'' @ show_nat (length l)) # ms"
      using Cons.prems(1) False by (auto simp: Let_def split: prod.splits)
    have x: "member_ok x" "list_all member_ok xs" using Cons.prems(2) by simp_all
    have "utf8_valid ?l"
      using Cons.prems(3) x(1) slash_newline by (intro utf8_valid_append) (simp_all add: member_ok_def)
    note ih = Cons.IH [OF m(1) x(2) this]
    then obtain u where u: "long = l @ as_bytes (am_name x) @ as_bytes (''/'' @ newline) @ u" by auto
    have "name_stored long (''/'' @ show_nat (length l)) x" if "length long \<le> usize_max"
      using long_name_stored [OF x(1), of l u] ih that by (simp add: u)
    then show ?thesis using ih u by (simp add: m(2))
  qed
qed simp

section \<open>The symbol index\<close>

lemma split_zero_text: "0 \<notin> set n \<Longrightarrow> split_zero (n @ 0 # rest) = n # split_zero rest"
  by (induction n) auto

lemma index_loop_written:
  assumes "\<And>j. j < length es \<Longrightarrow> slice (4 + 4 * (i + j)) (4 + 4 * (i + j) + 4) bs = u32_be (fst (es ! j))"
    and "\<And>e. e \<in> set es \<Longrightarrow> utf8_valid (as_bytes (snd e)) \<and> 0 \<notin> set (as_bytes (snd e))"
  shows "index_loop bs i (length es) (split_zero (concat (map (\<lambda>(_, name). as_bytes name @ [0]) es))) = Inr (map prod.swap es)"
  using assms
proof (induction es arbitrary: i)
  case (Cons e es)
  obtain off n where e: "e = (off, n)" by fastforce
  have n: "utf8_valid (as_bytes n)" "0 \<notin> set (as_bytes n)" using Cons.prems(2) [of e] by (simp_all add: e)
  have s: "slice (4 + 4 * i) (4 + 4 * i + 4) bs = u32_be off" using Cons.prems(1) [of 0] by (simp add: e)
  have "index_loop bs (i + 1) (length es) (split_zero (concat (map (\<lambda>(_, name). as_bytes name @ [0]) es))) = Inr (map prod.swap es)"
  proof (rule Cons.IH)
    show "slice (4 + 4 * (i + 1 + j)) (4 + 4 * (i + 1 + j) + 4) bs = u32_be (fst (es ! j))" if "j < length es" for j
      using Cons.prems(1) [of "Suc j"] that by (simp add: add.commute)
  qed (use Cons.prems(2) in simp)
  then show ?case using n s by (simp add: e split_zero_text lossy_text_as_bytes)
qed simp

lemma parse_index_written:
  assumes "length es < 2 ^ 32" and "\<And>e. e \<in> set es \<Longrightarrow> utf8_valid (as_bytes (snd e)) \<and> 0 \<notin> set (as_bytes (snd e))"
  shows "parse_index (index_payload es) = Inr (map prod.swap es)"
proof -
  let ?names = "concat (map (\<lambda>(_, name). as_bytes name @ [0]) es)"
  let ?offs = "concat (map (\<lambda>j. u32_be (fst (es ! j))) [0..<length es])"
  have m: "map (\<lambda>j. u32_be (fst (es ! j))) [0..<length es] = map (\<lambda>(off, _). u32_be off) es"
    by (rule nth_equalityI) (simp_all add: split_beta)
  then have p: "index_payload es = u32_be (word_of_nat (length es)) @ ?offs @ ?names"
    by (simp add: index_payload_def)
  have l: "length ?offs = 4 * length es" by (simp add: length_concat comp_def sum_list_triv)
  have count: "unat (u32_from_be (take 4 (index_payload es))) = length es"
    using assms(1) by (simp add: p unat_of_nat)
  have "slice (4 + 4 * (0 + j)) (4 + 4 * (0 + j) + 4) (index_payload es) = u32_be (fst (es ! j))" if j: "j < length es" for j
  proof -
    obtain rest where r: "drop (4 * j) ?offs = u32_be (fst (es ! j)) @ rest"
      using table_entry [OF j, of "\<lambda>j. u32_be (fst (es ! j))" 4] by auto
    have "slice (4 + 4 * j) (4 + 4 * j + 4) (index_payload es) = take 4 (drop (4 * j) (?offs @ ?names))"
      by (simp add: p slice_def)
    also have "\<dots> = u32_be (fst (es ! j))" using r j l by simp
    finally show ?thesis by simp
  qed
  then have "index_loop (index_payload es) 0 (length es) (split_zero ?names) = Inr (map prod.swap es)"
    by (rule index_loop_written [OF _ assms(2)])
  moreover have "drop (4 + 4 * length es) (index_payload es) = ?names" using l by (simp add: p)
  moreover have "4 + 4 * length es \<le> length (index_payload es)" using l by (simp add: p)
  ultimately show ?thesis by (simp add: parse_index_def count Let_def)
qed

text \<open>The length the first pass reserves for the index is the one the second pass fills.\<close>

lemma entry_names:
  "length is = length xs \<Longrightarrow>
     map snd (concat (map (\<lambda>(i, x). map (\<lambda>s. (g i, s)) (am_symbols x)) (zip is xs))) = concat (map am_symbols xs)"
  by (induction "is" xs rule: list_induct2) (simp_all add: comp_def)

lemma index_entries_names:
  "map snd (index_entries b offs) =
     concat (map am_symbols (ab_members b)) @ (if ab_index b = IM_Phantom then [PHANTOM] else [])"
  unfolding index_entries_def map_append
  by (subst entry_names [of _ _ "\<lambda>i. if ab_index b = IM_Stale then first_offset offs else offs ! i"]) simp_all

lemma index_payload_names:
  "length (index_payload es) = 4 + 4 * length (map snd es) + sum_list (map (\<lambda>s. length s + 1) (map snd es))"
  by (induction es) (auto simp: index_payload_def)

lemma index_payload_length:
  assumes "ab_index b \<noteq> IM_Omitted"
  shows "length (index_payload (index_entries b offs)) = index_payload_len b"
  using assms unfolding index_payload_names index_entries_names
  by (simp add: index_payload_len_def length_concat comp_def)

lemma member_offsets_parsed:
  "member_offsets pos xs = map (\<lambda>p. word_of_nat (pm_header_offset p)) (parsed_from pos xs)"
  by (induction xs arbitrary: pos) (simp_all add: MEMBER_HEADER_SIZE_def)

end
