(* ===== verification/Elf_Library.thy ===== *)
theory Elf_Library
  imports Elf_Members "HOL-Library.Code_Target_Numeral"
begin

text \<open>
  The correctness of the archive writer and reader: the members come back, and the symbol index sends
  a linker to the member that defines the symbol.
\<close>

definition archive_ok :: "archive_builder \<Rightarrow> bool" where
  "archive_ok b \<longleftrightarrow> ab_magic_override b = None \<and> ab_truncate_to b = None \<and> list_all member_ok (ab_members b)"

text \<open>The file position of the first member, as the writer reaches it.\<close>

lemma length_magic: "length ARCHIVE_MAGIC = 8"
  by (simp add: ARCHIVE_MAGIC_def newline_def)

lemma entry_text:
  assumes "list_all member_ok (ab_members b)" "e \<in> set (index_entries b offs)"
  shows "utf8_valid (as_bytes (snd e)) \<and> 0 \<notin> set (as_bytes (snd e))"
proof -
  have "snd e \<in> set (map snd (index_entries b offs))" using assms(2) by simp
  then consider x where "x \<in> set (ab_members b)" "snd e \<in> set (am_symbols x)" | "snd e = PHANTOM"
    unfolding index_entries_names by (auto split: if_splits)
  then show ?thesis
  proof cases
    case 1
    then show ?thesis using assms(1) by (auto simp: list_all_iff member_ok_def)
  next
    case 2
    show ?thesis unfolding 2 by code_simp
  qed
qed

lemma read_special:
  assumes w: "write_member n d pre = Inr out" and n: "stored_ok n" and bs: "bs = out @ rest"
    and len: "length bs \<le> usize_max" and even: "length pre mod 2 = 0" and step: "read_step (length pre) n d st = Inr st'"
  shows "read_members bs (length pre) st = read_members bs (length out) st'" "length out = length pre + 60 + pad_even (length d)"
    "length out mod 2 = 0"
proof -
  note m = write_memberE [OF w]
  show l: "length out = length pre + 60 + pad_even (length d)" by (simp add: m(1) length_member_bytes [OF m(4)])
  show "length out mod 2 = 0" unfolding m(1) by (rule length_members_even [OF even m(4)])
  have "bs = pre @ member_bytes n d @ rest" by (simp add: bs m(1))
  then show "read_members bs (length pre) st = read_members bs (length out) st'"
    unfolding m(1) by (intro read_members_step [OF m(4,2,3) n _ len even step]) simp_all
qed

lemma stored_slashes: "stored_ok ''/''" "stored_ok ''//''"
proof -
  have "utf8_valid (as_bytes ''/'')" "utf8_valid (as_bytes ''//'')" by code_simp+
  then show "stored_ok ''/''" "stored_ok ''//''"
    unfolding stored_ok_def using visible_slash
    by (auto intro: exI [of _ "[]"] exI [of _ "''/''"])
qed

definition swapped_index :: "archive_builder \<Rightarrow> parsed_member list \<Rightarrow> parsed_index option" where
  "swapped_index b ms =
     (if ab_index b = IM_Omitted then None
      else Some (map prod.swap (index_entries b (map (\<lambda>p. word_of_nat (pm_header_offset p)) ms))))"

lemma write_members_grow: "write_members ms out = Inr bs \<Longrightarrow> \<exists>rest. bs = out @ rest"
proof (induction ms arbitrary: out)
  case (Cons p ms)
  obtain n d where p: "p = (n, d)" by fastforce
  obtain out1 where "write_member n d out = Inr out1" "write_members ms out1 = Inr bs"
    using Cons.prems by (auto simp: p sum_bind_eq_Inr)
  then show ?case using Cons.IH write_memberE(1) by fastforce
qed simp

lemma parsed_from_members:
  "map (\<lambda>p. (pm_name p, pm_data p)) (parsed_from pos xs) = map (\<lambda>x. (am_name x, am_data x)) xs"
  by (induction xs arbitrary: pos) simp_all

text \<open>The two special members: the index when there is one, the long names when there are any.\<close>

definition first_state :: archive_state where
  "first_state = \<lparr>as_members = [], as_index = None, as_long = []\<rparr>"

lemma index_stage:
  assumes ok: "list_all member_ok (ab_members b)" and es: "es = index_entries b (map (\<lambda>p. word_of_nat (pm_header_offset p)) ms)"
    and n: "n = index_payload_len b"
    and w: "(if 0 < n then write_member ''/'' (index_payload es) ARCHIVE_MAGIC else Inr ARCHIVE_MAGIC) = Inr out"
    and bs: "bs = out @ rest" and len: "length bs < 2 ^ 32"
  shows "read_members bs 8 first_state = read_members bs (length out) (first_state\<lparr>as_index := swapped_index b ms\<rparr>)"
    "length out mod 2 = 0" "length out = 8 + (if 0 < n then 60 + pad_even n else 0)" "\<exists>r. out = ARCHIVE_MAGIC @ r"
proof -
  have u: "length bs \<le> usize_max" using len by (simp add: usize_max_def)
  have mode: "0 < n \<longleftrightarrow> ab_index b \<noteq> IM_Omitted" by (simp add: n index_payload_len_def)
  have "read_members bs 8 first_state = read_members bs (length out) (first_state\<lparr>as_index := swapped_index b ms\<rparr>) \<and>
    length out mod 2 = 0 \<and> length out = 8 + (if 0 < n then 60 + pad_even n else 0) \<and> (\<exists>r. out = ARCHIVE_MAGIC @ r)"
  proof (cases "0 < n")
    case True
    have l: "length (index_payload es) = n" using True mode by (simp add: es n index_payload_length)
    have w: "write_member ''/'' (index_payload es) ARCHIVE_MAGIC = Inr out" using w True by simp
    have "length (index_payload es) \<le> length bs" using write_memberE(1) [OF w] bs by (simp add: member_bytes_def)
    then have "length es < 2 ^ 32" using index_payload_names [of es] len by simp
    then have "parse_index (index_payload es) = Inr (map prod.swap es)"
      using entry_text [OF ok] unfolding es by (intro parse_index_written) auto
    then have "read_step (length ARCHIVE_MAGIC) ''/'' (index_payload es) first_state = Inr (first_state\<lparr>as_index := swapped_index b ms\<rparr>)"
      using True mode by (simp add: read_step_def swapped_index_def es)
    note s = read_special [OF w stored_slashes(1) bs u _ this]
    then show ?thesis using True l write_memberE(1) [OF w] by (simp add: length_magic)
  next
    case False
    then show ?thesis using w mode by (simp add: length_magic swapped_index_def first_state_def)
  qed
  then show "read_members bs 8 first_state = read_members bs (length out) (first_state\<lparr>as_index := swapped_index b ms\<rparr>)"
    "length out mod 2 = 0" "length out = 8 + (if 0 < n then 60 + pad_even n else 0)" "\<exists>r. out = ARCHIVE_MAGIC @ r" by blast+
qed

lemma long_stage:
  assumes w: "(if long \<noteq> [] then write_member ''//'' long out else Inr out) = Inr out'" and bs: "bs = out' @ rest"
    and len: "length bs \<le> usize_max" and even: "length out mod 2 = 0" and st: "as_long st = []"
  shows "read_members bs (length out) st = read_members bs (length out') (st\<lparr>as_long := long\<rparr>)"
    "length out' mod 2 = 0" "length out' = length out + (if long \<noteq> [] then 60 + pad_even (length long) else 0)"
    "\<exists>r. out' = out @ r" "length long \<le> length bs"
proof -
  have "read_members bs (length out) st = read_members bs (length out') (st\<lparr>as_long := long\<rparr>) \<and> length out' mod 2 = 0 \<and>
    length out' = length out + (if long \<noteq> [] then 60 + pad_even (length long) else 0) \<and> (\<exists>r. out' = out @ r) \<and> length long \<le> length bs"
  proof (cases "long = []")
    case False
    then have w: "write_member ''//'' long out = Inr out'" using w by simp
    have "read_step (length out) ''//'' long st = Inr (st\<lparr>as_long := long\<rparr>)" by (simp add: read_step_def)
    note s = read_special [OF w stored_slashes(2) bs len even this]
    then show ?thesis using False write_memberE(1) [OF w] bs by (simp add: member_bytes_def)
  next
    case True
    moreover have "st\<lparr>as_long := []\<rparr> = st" using st by (cases st) simp
    ultimately show ?thesis using w even by simp
  qed
  then show "read_members bs (length out) st = read_members bs (length out') (st\<lparr>as_long := long\<rparr>)"
    "length out' mod 2 = 0" "length out' = length out + (if long \<noteq> [] then 60 + pad_even (length long) else 0)"
    "\<exists>r. out' = out @ r" "length long \<le> length bs" by blast+
qed

lemma archive_read_back:
  assumes ok: "archive_ok b" and built: "archive_build b = Inr bs" and len: "length bs < 2 ^ 32"
  shows "\<exists>pos. archive_parse bs = Inr (parsed_from pos (ab_members b), swapped_index b (parsed_from pos (ab_members b))) \<and>
    (\<forall>p \<in> set (parsed_from pos (ab_members b)). pm_header_offset p < length bs)"
proof -
  have u: "length bs \<le> usize_max" using len by (simp add: usize_max_def)
  have b: "ab_magic_override b = None" "ab_truncate_to b = None" "list_all member_ok (ab_members b)"
    using ok by (simp_all add: archive_ok_def)
  obtain ns long where names: "store_names (ab_members b) [] = (ns, long)" by fastforce
  define n where "n = index_payload_len b"
  define pos where "pos = first_member n (length long)"
  define ms where "ms = parsed_from pos (ab_members b)"
  define es where "es = index_entries b (map (\<lambda>p. word_of_nat (pm_header_offset p)) ms)"
  obtain out1 out2 where 1: "(if 0 < n then write_member ''/'' (index_payload es) ARCHIVE_MAGIC else Inr ARCHIVE_MAGIC) = Inr out1"
    and 2: "(if long \<noteq> [] then write_member ''//'' long out1 else Inr out1) = Inr out2"
    and 3: "write_members (zip ns (map am_data (ab_members b))) out2 = Inr bs"
    using built b unfolding es_def ms_def pos_def n_def
    by (auto simp: archive_build_def names Let_def sum_bind_eq_Inr member_offsets_parsed)
  obtain r2 where r2: "bs = out2 @ r2" using write_members_grow [OF 3] by blast
  have "\<exists>r1. bs = out1 @ r1" using 2 r2 write_memberE(1) [of "''//''" long out1 out2] by (auto split: if_splits)
  then obtain r1 where r1: "bs = out1 @ r1" by blast
  note s1 = index_stage [OF b(3) es_def n_def 1 r1 len]
  have "as_long (first_state\<lparr>as_index := swapped_index b ms\<rparr>) = []" by (simp add: first_state_def)
  note s2 = long_stage [OF 2 r2 u s1(2) this]
  let ?st = "first_state\<lparr>as_index := swapped_index b ms, as_long := long\<rparr>"
  have pos: "length out2 = pos" using s1(3) s2(3) by (simp add: pos_def first_member_def length_magic MEMBER_HEADER_SIZE_def)
  have "list_all2 (name_stored (as_long ?st)) ns (ab_members b)"
    using store_names_ok [OF names b(3)] s2(5) u by simp
  then have "read_members bs (length out2) ?st = Inr (?st\<lparr>as_members := as_members ?st @ ms\<rparr>)"
    and inside: "\<forall>p \<in> set ms. pm_header_offset p < length bs"
    using read_written_members [OF 3 _ s2(2) u, of ?st] pos by (simp_all add: ms_def)
  then have "read_members bs 8 first_state = Inr (?st\<lparr>as_members := ms\<rparr>)" using s1(1) s2(1) by (simp add: first_state_def)
  moreover have "take 8 bs = ARCHIVE_MAGIC" "8 \<le> length bs" using s1(4) r1 length_magic by auto
  ultimately have "archive_parse bs = Inr (ms, swapped_index b ms)"
    by (simp add: archive_parse_def length_magic first_state_def)
  then show ?thesis using inside by (intro exI [of _ pos]) (simp add: ms_def)
qed


section \<open>A small archive\<close>

definition demo_archive :: archive_builder where
  "demo_archive =
     archive_member (member_new ''a_very_long_member_name.o'' [4, 5, 6] [''beta''])
       (archive_member (member_new ''a.o'' [1, 2] [''alpha'']) archive_new)"

definition demo_archive_bytes :: bytes where
  "demo_archive_bytes = (case archive_build demo_archive of Inr bs \<Rightarrow> bs | Inl _ \<Rightarrow> [])"

lemma demo_archive_ok: "archive_ok demo_archive"
  by code_simp

lemma demo_archive_length: "length demo_archive_bytes = 306"
  by code_simp

lemma demo_archive_built: "archive_build demo_archive = Inr demo_archive_bytes" "length demo_archive_bytes < 2 ^ 32"
  using demo_archive_length by (auto simp: demo_archive_bytes_def split: sum.splits)

section \<open>Members and index\<close>



lemma parsed_from_apart:
  "distinct (map pm_header_offset (parsed_from pos xs)) \<and> (\<forall>p \<in> set (parsed_from pos xs). pos \<le> pm_header_offset p)"
proof (induction xs arbitrary: pos)
  case (Cons x xs)
  have "\<forall>p \<in> set (parsed_from (pos + 60 + pad_even (length (am_data x))) xs). pos + 60 \<le> pm_header_offset p"
    using Cons by (meson le_add1 order_trans)
  then show ?case using Cons by fastforce
qed simp

lemma length_parsed_from [simp]: "length (parsed_from pos xs) = length xs"
  by (induction xs arbitrary: pos) simp_all

lemma distinct_filter_key: "distinct (map f xs) \<Longrightarrow> i < length xs \<Longrightarrow> filter (\<lambda>x. f x = f (xs ! i)) xs = [xs ! i]"
proof (induction xs arbitrary: i)
  case (Cons x xs)
  show ?case
  proof (cases i)
    case 0
    have "f x \<notin> set (map f xs)" using Cons.prems(1) by simp
    then have "f y \<noteq> f x" if "y \<in> set xs" for y using that by (auto simp: image_iff)
    then have "filter (\<lambda>y. f y = f x) xs = []" by (simp add: filter_empty_conv)
    then show ?thesis by (simp add: 0)
  next
    case (Suc j)
    then have "f x \<noteq> f (xs ! j)" using Cons.prems by (metis distinct.simps(2) length_Cons list.simps(9) not_less_eq nth_mem set_map image_eqI)
    then show ?thesis using Cons.IH [of j] Cons.prems Suc by simp
  qed
qed simp

text \<open>The symbol index finds the definition: in a correct archive, the offset recorded with a symbol
  is that of exactly one member header, and a linker that goes there finds a member that declares the
  symbol; and every symbol of every member is in the index.\<close>

theorem archive_index_finds_member:
  assumes "archive_ok b" and "archive_build b = Inr bs" and "length bs < 2 ^ 32" and "ab_index b = IM_Correct"
  shows "\<exists>ms ix. archive_parse bs = Inr (ms, Some ix) \<and>
    (\<forall>(s, off) \<in> set ix. \<exists>i < length (ab_members b).
       filter (\<lambda>p. pm_header_offset p = unat off) ms = [ms ! i] \<and> s \<in> set (am_symbols (ab_members b ! i)) \<and>
       pm_name (ms ! i) = am_name (ab_members b ! i) \<and> pm_data (ms ! i) = am_data (ab_members b ! i)) \<and>
    (\<forall>x \<in> set (ab_members b). set (am_symbols x) \<subseteq> fst ` set ix)"
proof -
  obtain pos where p: "archive_parse bs = Inr (parsed_from pos (ab_members b), swapped_index b (parsed_from pos (ab_members b)))"
    "\<forall>p \<in> set (parsed_from pos (ab_members b)). pm_header_offset p < length bs"
    using archive_read_back [OF assms(1-3)] by blast
  define ms where "ms = parsed_from pos (ab_members b)"
  define es where "es = index_entries b (map (\<lambda>p. word_of_nat (pm_header_offset p)) ms)"
  have n: "length ms = length (ab_members b)" by (simp add: ms_def)
  have same: "pm_name (ms ! i) = am_name (ab_members b ! i) \<and> pm_data (ms ! i) = am_data (ab_members b ! i)"
    if "i < length (ab_members b)" for i
    using arg_cong [OF parsed_from_members [of pos "ab_members b"], of "\<lambda>l. l ! i"] that n by (simp add: ms_def)
  have found: "\<exists>i < length (ab_members b). filter (\<lambda>p. pm_header_offset p = unat off) ms = [ms ! i] \<and>
      s \<in> set (am_symbols (ab_members b ! i))" if e: "(off, s) \<in> set es" for off s
  proof -
    obtain i where i: "i < length (ab_members b)" "s \<in> set (am_symbols (ab_members b ! i))"
        "off = word_of_nat (pm_header_offset (ms ! i))"
      using e assms(4) n by (auto simp: es_def index_entries_def set_zip)
    have "pm_header_offset (ms ! i) < 2 ^ 32" using p(2) [folded ms_def] i(1) n assms(3) by (metis nth_mem order_less_trans)
    then have off: "unat off = pm_header_offset (ms ! i)" by (simp add: i(3) unat_of_nat)
    have "distinct (map pm_header_offset ms)" using parsed_from_apart by (simp add: ms_def)
    then have "filter (\<lambda>p. pm_header_offset p = unat off) ms = [ms ! i]"
      using i(1) n unfolding off by (intro distinct_filter_key) simp_all
    then show ?thesis using i by blast
  qed
  have "set (am_symbols x) \<subseteq> snd ` set es" if "x \<in> set (ab_members b)" for x
  proof -
    have "snd ` set es = set (map snd es)" by simp
    then show ?thesis using that unfolding es_def index_entries_names by auto
  qed
  moreover have "fst ` set (map prod.swap es) = snd ` set es" by force
  ultimately have "\<forall>x \<in> set (ab_members b). set (am_symbols x) \<subseteq> fst ` set (map prod.swap es)" by simp
  moreover have "\<forall>(s, off) \<in> set (map prod.swap es). \<exists>i < length (ab_members b).
      filter (\<lambda>p. pm_header_offset p = unat off) ms = [ms ! i] \<and> s \<in> set (am_symbols (ab_members b ! i)) \<and>
      pm_name (ms ! i) = am_name (ab_members b ! i) \<and> pm_data (ms ! i) = am_data (ab_members b ! i)"
  proof (clarify)
    fix s off assume "(s, off) \<in> set (map prod.swap es)"
    then have "(off, s) \<in> set es" by auto
    then show "\<exists>i < length (ab_members b). filter (\<lambda>p. pm_header_offset p = unat off) ms = [ms ! i] \<and>
        s \<in> set (am_symbols (ab_members b ! i)) \<and> pm_name (ms ! i) = am_name (ab_members b ! i) \<and>
        pm_data (ms ! i) = am_data (ab_members b ! i)"
      using found same by blast
  qed
  moreover have "archive_parse bs = Inr (ms, Some (map prod.swap es))"
    using p(1) assms(4) by (simp add: swapped_index_def ms_def es_def)
  ultimately show ?thesis by (intro exI [of _ ms] exI [of _ "map prod.swap es"]) simp
qed

theorem archive_index_finds_member_witness:
  "\<exists>ms ix. archive_parse demo_archive_bytes = Inr (ms, Some ix) \<and> {''alpha'', ''beta''} \<subseteq> fst ` set ix"
proof -
  have "ab_index demo_archive = IM_Correct" by code_simp
  from archive_index_finds_member [OF demo_archive_ok demo_archive_built this]
  show ?thesis by (auto simp: demo_archive_def archive_member_def archive_new_def member_new_def)
qed

end
