(* ===== verification/Btree.thy ===== *)
theory Btree
  imports Prelude "HOL-Library.List_Lexorder" "HOL-Library.Char_ord"
begin

text \<open>
  \<open>BTreeMap\<close> and \<open>BTreeSet\<close> as the standard library iterates them: association lists and lists in
  ascending order of the keys. Strings are ordered by their bytes, as in Rust.
\<close>

fun btree_insert :: "'k::linorder \<Rightarrow> 'v \<Rightarrow> ('k \<times> 'v) list \<Rightarrow> ('k \<times> 'v) list" where
  "btree_insert k v [] = [(k, v)]"
| "btree_insert k v ((k', v') # m) =
     (if k < k' then (k, v) # (k', v') # m
      else if k = k' then (k, v) # m
      else (k', v') # btree_insert k v m)"

definition btree_ok :: "('k::linorder \<times> 'v) list \<Rightarrow> bool" where
  "btree_ok m \<longleftrightarrow> sorted_wrt (<) (map fst m)"

lemma map_of_btree_insert [simp]: "map_of (btree_insert k v m) = (map_of m)(k \<mapsto> v)"
  by (induction k v m rule: btree_insert.induct) (auto simp: fun_upd_twist)

lemma keys_btree_insert [simp]: "fst ` set (btree_insert k v m) = insert k (fst ` set m)"
  by (induction k v m rule: btree_insert.induct) auto

lemma btree_ok_Nil [simp]: "btree_ok []"
  by (simp add: btree_ok_def)

lemma btree_ok_insert [simp]: "btree_ok m \<Longrightarrow> btree_ok (btree_insert k v m)"
proof (induction k v m rule: btree_insert.induct)
  case (2 k v k' v' m)
  have "k' < x" if "k' < k" "x \<in> fst ` set (btree_insert k v m)" for x
    using 2(2) that by (auto simp: btree_ok_def)
  then show ?case using 2 by (fastforce simp: btree_ok_def)
qed (simp add: btree_ok_def)

lemma btree_ok_distinct: "btree_ok m \<Longrightarrow> distinct (map fst m)"
  by (simp add: btree_ok_def strict_sorted_iff)

lemma length_btree_insert: "map_of m k = None \<Longrightarrow> length (btree_insert k v m) = Suc (length m)"
  by (induction k v m rule: btree_insert.induct) (auto split: if_splits)

text \<open>The size of a map is the number of its keys.\<close>

lemma length_btree: "btree_ok m \<Longrightarrow> length m = card (fst ` set m)"
  using distinct_card [OF btree_ok_distinct] by (metis length_map set_map)

lemma set_btree_insert: "set (btree_insert k v m) \<subseteq> insert (k, v) (set m)"
  by (induction k v m rule: btree_insert.induct) auto

lemma snd_btree_insert: "snd ` set (btree_insert k v m) \<subseteq> insert v (snd ` set m)"
  by (induction k v m rule: btree_insert.induct) auto

text \<open>Maps in order are what they map.\<close>

lemma btree_eq:
  assumes "btree_ok m" "btree_ok m'" "map_of m = map_of m'"
  shows "m = m'"
proof -
  have keyed: "m = map (\<lambda>k. (k, the (map_of m k))) (map fst m)" if "btree_ok m" for m :: "('a \<times> 'b) list"
  proof -
    have "map (\<lambda>x. (fst x, the (map_of m (fst x)))) m = m"
      by (rule map_idI) (use btree_ok_distinct [OF that] in auto)
    then show ?thesis by (simp add: comp_def)
  qed
  have "set (map fst m) = set (map fst m')"
    using assms(3) by (metis dom_map_of_conv_image_fst set_map)
  then have "map fst m = map fst m'"
    using assms(1,2) strict_sorted_equal [of "map fst m" "map fst m'"] by (simp add: btree_ok_def)
  then show ?thesis using keyed [OF assms(1)] keyed [OF assms(2)] assms(3) by simp
qed

text \<open>Sets.\<close>

fun bset_insert :: "'k::linorder \<Rightarrow> 'k list \<Rightarrow> 'k list" where
  "bset_insert k [] = [k]"
| "bset_insert k (k' # m) = (if k < k' then k # k' # m else if k = k' then k' # m else k' # bset_insert k m)"

lemma set_bset_insert [simp]: "set (bset_insert k m) = insert k (set m)"
  by (induction k m rule: bset_insert.induct) auto

lemma sorted_bset_insert: "sorted_wrt (<) m \<Longrightarrow> sorted_wrt (<) (bset_insert k m)"
  by (induction k m rule: bset_insert.induct) auto

end
