(* ===== verification/Topics.thy ===== *)
theory Topics
  imports Btree Str
begin

text \<open>
  What the reference programs share (\<^verbatim>\<open>disttest/examples/reference_algorithms.rs\<close> and
  \<^verbatim>\<open>reference_primitives.rs\<close>): JSON values, the error object, and the readers of arguments. The JSON
  parser is a third-party crate, so \<open>serde_json::from_str\<close> is a parameter. A topic is a state and a
  step that answers one command with one value.
\<close>

datatype json =
    JNull
  | JBool bool
  | JInt int
  | JFloat string
  | JStr string
  | JArr "json list"
  | JObj "(string \<times> json) list"

type_synonym json_parser = "string \<Rightarrow> string + json"

definition reply_err :: "string \<Rightarrow> json" where
  "reply_err m = JObj [(''ok'', JBool False), (''error'', JStr m)]"

text \<open>\<open>{:?}\<close> of a string; what the standard library escapes beyond ASCII is left as it is.\<close>

definition debug_char :: "char \<Rightarrow> string" where
  "debug_char c =
     (let n = of_char c :: nat in
      if c = CHR 0x22 \<or> c = CHR 0x5C then [CHR 0x5C, c]
      else if n = 9 then [CHR 0x5C, CHR ''t''] else if n = 10 then [CHR 0x5C, CHR ''n'']
      else if n = 13 then [CHR 0x5C, CHR ''r''] else if n = 0 then [CHR 0x5C, CHR ''0'']
      else if n < 32 \<or> n = 127 then [CHR 0x5C] @ ''u{'' @ hex_nat n @ ''}''
      else [c])"

definition debug_str :: "string \<Rightarrow> string" where
  "debug_str s = [CHR 0x22] @ concat (map debug_char s) @ [CHR 0x22]"

section \<open>Numbers\<close>

definition i64_max :: int where "i64_max = 9223372036854775807"
definition i64_min :: int where "i64_min = - 9223372036854775808"

definition in_i64 :: "int \<Rightarrow> bool" where
  "in_i64 v \<longleftrightarrow> i64_min \<le> v \<and> v \<le> i64_max"

text \<open>Sums leave the range by wrapping around, as in a release build.\<close>

definition wrap_i64 :: "int \<Rightarrow> int" where
  "wrap_i64 n = (n - i64_min) mod 2 ^ 64 + i64_min"

lemma wrap_i64_in [simp]: "in_i64 n \<Longrightarrow> wrap_i64 n = n"
  by (simp add: wrap_i64_def in_i64_def i64_min_def i64_max_def)

definition parse_i64 :: "string \<Rightarrow> int option" where
  "parse_i64 s =
     (case s of
        [] \<Rightarrow> None
      | c # cs \<Rightarrow>
          if c = CHR ''-'' then (if cs = [] then None else map_option (\<lambda>n. - int n) (digits_val (nat (- i64_min)) 0 cs))
          else map_option int (parse_uint (nat i64_max) s))"

section \<open>Arguments\<close>

definition arg :: "string list \<Rightarrow> nat \<Rightarrow> string option" where
  "arg args i = (if i < length args then Some (args ! i) else None)"

definition arg_missing :: "nat \<Rightarrow> json" where
  "arg_missing i = reply_err (''argument '' @ show_nat i @ '' is missing'')"

definition int_arg :: "string list \<Rightarrow> nat \<Rightarrow> json + int" where
  "int_arg args i =
     sum_bind (ok_or (arg_missing i) (arg args i)) (\<lambda>s.
     ok_or (reply_err (''argument '' @ show_nat i @ '' is not a whole number'')) (parse_i64 s))"

definition uint_arg :: "string list \<Rightarrow> nat \<Rightarrow> json + nat" where
  "uint_arg args i =
     sum_bind (int_arg args i) (\<lambda>n.
     if n < 0 then Inl (reply_err (''argument '' @ show_nat i @ '' must not be negative'')) else Inr (nat n))"

definition word_arg :: "string list \<Rightarrow> nat \<Rightarrow> json + string" where
  "word_arg args i = ok_or (arg_missing i) (arg args i)"

definition json_arg :: "json_parser \<Rightarrow> string list \<Rightarrow> nat \<Rightarrow> json + json" where
  "json_arg parse args i =
     sum_bind (word_arg args i) (\<lambda>raw.
     case parse raw of
       Inl e \<Rightarrow> Inl (reply_err (''argument '' @ show_nat i @ '' is not JSON: '' @ e))
     | Inr v \<Rightarrow> Inr v)"

definition as_str :: "json \<Rightarrow> string option" where
  "as_str v = (case v of JStr s \<Rightarrow> Some s | _ \<Rightarrow> None)"

definition word_list_arg :: "json_parser \<Rightarrow> (json \<Rightarrow> string) \<Rightarrow> string list \<Rightarrow> nat \<Rightarrow> json + string list" where
  "word_list_arg parse show args i =
     sum_bind (json_arg parse args i) (\<lambda>v.
     case v of
       JArr items \<Rightarrow>
         map_ok (\<lambda>x. ok_or (reply_err (''argument '' @ show_nat i @ '' holds '' @ show x @ '', not a string'')) (as_str x)) items
     | _ \<Rightarrow> Inl (reply_err (''argument '' @ show_nat i @ '' is not an array'')))"

definition json_i64 :: "json \<Rightarrow> int option" where
  "json_i64 v = (case v of JInt n \<Rightarrow> if in_i64 n then Some n else None | _ \<Rightarrow> None)"

definition int_list_arg :: "json_parser \<Rightarrow> (json \<Rightarrow> string) \<Rightarrow> string list \<Rightarrow> nat \<Rightarrow> json + int list" where
  "int_list_arg parse show args i =
     sum_bind (json_arg parse args i) (\<lambda>v.
     case v of
       JArr items \<Rightarrow>
         map_ok (\<lambda>x. ok_or (reply_err (''argument '' @ show_nat i @ '' holds '' @ show x @ '', not a whole number''))
           (json_i64 x)) items
     | _ \<Rightarrow> Inl (reply_err (''argument '' @ show_nat i @ '' is not an array'')))"

definition flag_arg :: "string list \<Rightarrow> nat \<Rightarrow> string \<Rightarrow> string \<Rightarrow> json + bool" where
  "flag_arg args i truthy falsy =
     sum_bind (word_arg args i) (\<lambda>w.
     if w = truthy then Inr True
     else if w = falsy then Inr False
     else Inl (reply_err (''argument '' @ show_nat i @ '' must be '' @ debug_str truthy @ '' or '' @ debug_str falsy @
            '', got '' @ debug_str w)))"

text \<open>An argument that fails to parse is the answer, and the state stays as it was.\<close>

definition with_arg :: "json + 'a \<Rightarrow> ('a \<Rightarrow> json \<times> 's) \<Rightarrow> 's \<Rightarrow> json \<times> 's" where
  "with_arg r f s = (case r of Inl e \<Rightarrow> (e, s) | Inr v \<Rightarrow> f v)"

lemma with_arg_simps [simp]: "with_arg (Inl e) f s = (e, s)" "with_arg (Inr v) f s = f v"
  by (simp_all add: with_arg_def)

lemma with_arg_cases:
  assumes "snd (with_arg r f s) = s'"
  obtains "s' = s" | v where "r = Inr v" "snd (f v) = s'"
  using assms by (cases r) auto

definition unknown_command :: "string \<Rightarrow> json" where
  "unknown_command c = reply_err (''unknown command '' @ debug_str c)"

definition json_opt :: "('a \<Rightarrow> json) \<Rightarrow> 'a option \<Rightarrow> json" where
  "json_opt f x = (case x of None \<Rightarrow> JNull | Some v \<Rightarrow> f v)"

text \<open>\<open>{n}\<close> of a whole number.\<close>

definition count_json :: "nat \<Rightarrow> json" where
  "count_json n = JInt (int n)"

section \<open>Sessions\<close>

text \<open>A session of a topic: every line is one step; the answers are collected in order.\<close>

fun topic_run :: "('s \<Rightarrow> string \<Rightarrow> string list \<Rightarrow> 'r \<times> 's) \<Rightarrow> (string \<times> string list) list \<Rightarrow> 's \<Rightarrow> 'r list \<times> 's" where
  "topic_run step [] s = ([], s)"
| "topic_run step ((c, args) # cs) s =
     (let (v, s') = step s c args; (vs, s'') = topic_run step cs s' in (v # vs, s''))"

text \<open>A session every command of which is allowed in the state it meets.\<close>

fun session_ok :: "('s \<Rightarrow> string \<Rightarrow> string list \<Rightarrow> bool) \<Rightarrow> ('s \<Rightarrow> string \<Rightarrow> string list \<Rightarrow> 'r \<times> 's) \<Rightarrow>
    (string \<times> string list) list \<Rightarrow> 's \<Rightarrow> bool" where
  "session_ok allowed step [] s \<longleftrightarrow> True"
| "session_ok allowed step ((c, args) # cs) s \<longleftrightarrow> allowed s c args \<and> session_ok allowed step cs (snd (step s c args))"

text \<open>Where no command is excluded.\<close>

definition any_command :: "'s \<Rightarrow> string \<Rightarrow> string list \<Rightarrow> bool" where
  "any_command s command args \<longleftrightarrow> True"

lemma session_ok_any [simp]: "session_ok any_command step cs s"
proof (induction cs arbitrary: s)
  case (Cons x cs)
  then show ?case by (cases x) (simp add: any_command_def)
qed simp

lemma topic_run_Cons: "snd (topic_run step ((c, args) # cs) s) = snd (topic_run step cs (snd (step s c args)))"
  by (simp add: split_beta Let_def)

lemma topic_run_append: "snd (topic_run step (xs @ ys) s) = snd (topic_run step ys (snd (topic_run step xs s)))"
proof (induction xs arbitrary: s)
  case (Cons x xs)
  then show ?case by (cases x) (simp only: append_Cons topic_run_Cons)
qed simp

text \<open>
  The contract of a topic with an invariant: each allowed command keeps it. Every session then does.
\<close>

locale topic_invariant =
  fixes step :: "'s \<Rightarrow> string \<Rightarrow> string list \<Rightarrow> 'r \<times> 's"
    and allowed :: "'s \<Rightarrow> string \<Rightarrow> string list \<Rightarrow> bool"
    and inv :: "'s \<Rightarrow> bool"
  assumes step_keeps: "inv s \<Longrightarrow> allowed s c args \<Longrightarrow> inv (snd (step s c args))"
begin

lemma session_keeps: "inv s \<Longrightarrow> session_ok allowed step cs s \<Longrightarrow> inv (snd (topic_run step cs s))"
proof (induction cs arbitrary: s)
  case (Cons x cs)
  obtain c args where x: "x = (c, args)" by fastforce
  show ?case using Cons step_keeps unfolding x by (simp only: topic_run_Cons session_ok.simps)
qed simp

end

end
