(* ===== verification/Dist_Paxos.thy ===== *)
theory Dist_Paxos
  imports Topics
begin

text \<open>
  Paxos, as \<^verbatim>\<open>disttest/examples/alg/paxos.rs\<close> plays it: the acceptors and the proposer of one decree,
  and the slots of Multi-Paxos. Every command of a topic is one definition.
\<close>

text \<open>\<open>acceptor_index\<close>: the names are \<open>a1\<close> to \<open>an\<close>.\<close>

definition acceptor_index :: "nat \<Rightarrow> string list \<Rightarrow> nat \<Rightarrow> json + nat" where
  "acceptor_index count args i =
     sum_bind (word_arg args i) (\<lambda>name.
     case (case name of c # rest \<Rightarrow> if c = CHR ''a'' then parse_uint (2 ^ 64 - 1) rest else None | [] \<Rightarrow> None) of
       None \<Rightarrow> Inl (reply_err (debug_str name @ '' is not an acceptor name like '' @ debug_str ''a1''))
     | Some k \<Rightarrow>
         if \<not> (1 \<le> k \<and> k \<le> count) then Inl (reply_err (''there is no acceptor '' @ debug_str name))
         else Inr (k - 1))"

section \<open>One decree\<close>

record acceptor =
  ac_promised :: int
  ac_last_n :: "int option"
  ac_last_value :: "string option"

definition acceptor_default :: acceptor where
  "acceptor_default = \<lparr>ac_promised = 0, ac_last_n = None, ac_last_value = None\<rparr>"

record proposer =
  pr_n :: int
  pr_own :: string
  pr_promises :: "(string \<times> (int option \<times> string option)) list"

record paxos =
  px_acceptors :: "acceptor list"
  px_proposer :: "proposer option"

definition paxos_default :: paxos where
  "paxos_default = \<lparr>px_acceptors = [], px_proposer = None\<rparr>"

definition px_majority :: "paxos \<Rightarrow> nat" where
  "px_majority s = length (px_acceptors s) div 2 + 1"

definition keep_best :: "(int \<times> string) option \<Rightarrow> int option \<times> string option \<Rightarrow> (int \<times> string) option" where
  "keep_best best r =
     (case r of
        (Some n, Some v) \<Rightarrow>
          (case best of None \<Rightarrow> Some (n, v) | Some (seen, _) \<Rightarrow> if n > seen then Some (n, v) else best)
      | _ \<Rightarrow> best)"

definition best_report :: "(int option \<times> string option) list \<Rightarrow> (int \<times> string) option" where
  "best_report rs = foldl keep_best None rs"

definition proposer_value :: "proposer \<Rightarrow> string" where
  "proposer_value p =
     (case best_report (map snd (pr_promises p)) of Some (_, v) \<Rightarrow> v | None \<Rightarrow> pr_own p)"

definition px_ready :: "paxos \<Rightarrow> proposer \<Rightarrow> bool" where
  "px_ready s p \<longleftrightarrow> length (pr_promises p) \<ge> px_majority s"

definition px_proposer_state :: "paxos \<Rightarrow> json" where
  "px_proposer_state s =
     (case px_proposer s of
        None \<Rightarrow> reply_err ''no proposal has been started''
      | Some p \<Rightarrow>
          JObj [(''n'', JInt (pr_n p)), (''phase'', JStr (if px_ready s p then ''accept'' else ''prepare'')),
                (''promises'', count_json (length (pr_promises p))), (''value'', JStr (proposer_value p)),
                (''ready'', JBool (px_ready s p))])"

subsection \<open>Learning\<close>

definition px_numbers :: "paxos \<Rightarrow> int list" where
  "px_numbers s = remdups (sort (List.map_filter ac_last_n (px_acceptors s)))"

definition px_holders :: "paxos \<Rightarrow> int \<Rightarrow> acceptor list" where
  "px_holders s n = filter (\<lambda>a. ac_last_n a = Some n) (px_acceptors s)"

fun px_choose :: "paxos \<Rightarrow> string option \<Rightarrow> int list \<Rightarrow> string option" where
  "px_choose s chosen [] = chosen"
| "px_choose s chosen (n # ns) =
     (let holders = px_holders s n in
      if length holders \<ge> px_majority s
      then (case holders of
              a # _ \<Rightarrow> (case ac_last_value a of Some v \<Rightarrow> px_choose s (Some v) ns | None \<Rightarrow> px_choose s chosen ns)
            | [] \<Rightarrow> px_choose s chosen ns)
      else px_choose s chosen ns)"

definition px_chosen :: "paxos \<Rightarrow> string option" where
  "px_chosen s = px_choose s None (px_numbers s)"

definition px_learn :: "paxos \<Rightarrow> json" where
  "px_learn s =
     (case px_chosen s of
        Some v \<Rightarrow>
          JObj [(''chosen'', JBool True), (''value'', JStr v),
                (''count'', count_json (length (filter (\<lambda>a. ac_last_value a = Some v) (px_acceptors s))))]
      | None \<Rightarrow> JObj [(''chosen'', JBool False), (''value'', JNull), (''count'', JInt 0)])"

subsection \<open>The commands\<close>

definition px_init :: "string list \<Rightarrow> paxos \<Rightarrow> json \<times> paxos" where
  "px_init args s =
     with_arg (uint_arg args 0) (\<lambda>n.
       if n \<ge> 1
       then (let s = \<lparr>px_acceptors = replicate n acceptor_default, px_proposer = None\<rparr>
             in (JObj [(''ok'', JBool True), (''acceptors'', count_json n), (''majority'', count_json (px_majority s))], s))
       else (reply_err ''Paxos needs at least one acceptor'', s)) s"

definition px_update :: "nat \<Rightarrow> acceptor \<Rightarrow> paxos \<Rightarrow> paxos" where
  "px_update i a s = s\<lparr>px_acceptors := (px_acceptors s)[i := a]\<rparr>"

definition last_json :: "acceptor \<Rightarrow> (string \<times> json) list" where
  "last_json a = [(''last_n'', json_opt JInt (ac_last_n a)), (''last_value'', json_opt JStr (ac_last_value a))]"

definition px_prepare :: "string list \<Rightarrow> paxos \<Rightarrow> json \<times> paxos" where
  "px_prepare args s =
     with_arg (acceptor_index (length (px_acceptors s)) args 0) (\<lambda>i. with_arg (int_arg args 1) (\<lambda>n.
       (let a = px_acceptors s ! i;
            promised = n > ac_promised a;
            a' = (if promised then a\<lparr>ac_promised := n\<rparr> else a)
        in (JObj ([(''promised'', JBool promised), (''promised_n'', JInt (ac_promised a'))] @ last_json a'),
            px_update i a' s))) s) s"

definition px_accept :: "string list \<Rightarrow> paxos \<Rightarrow> json \<times> paxos" where
  "px_accept args s =
     with_arg (acceptor_index (length (px_acceptors s)) args 0) (\<lambda>i. with_arg (int_arg args 1) (\<lambda>n.
     with_arg (word_arg args 2) (\<lambda>v.
       (let a = px_acceptors s ! i;
            accepted = n \<ge> ac_promised a;
            a' = (if accepted then a\<lparr>ac_promised := n, ac_last_n := Some n, ac_last_value := Some v\<rparr> else a)
        in (JObj [(''accepted'', JBool accepted), (''promised_n'', JInt (ac_promised a'))], px_update i a' s))) s) s) s"

definition px_acceptor :: "string list \<Rightarrow> paxos \<Rightarrow> json \<times> paxos" where
  "px_acceptor args s =
     with_arg (acceptor_index (length (px_acceptors s)) args 0) (\<lambda>i.
       (let a = px_acceptors s ! i in (JObj ((''promised_n'', JInt (ac_promised a)) # last_json a), s))) s"

definition px_propose :: "string list \<Rightarrow> paxos \<Rightarrow> json \<times> paxos" where
  "px_propose args s =
     with_arg (int_arg args 0) (\<lambda>n. with_arg (word_arg args 1) (\<lambda>v.
       (JObj [(''phase'', JStr ''prepare''), (''n'', JInt n), (''value'', JStr v)],
        s\<lparr>px_proposer := Some \<lparr>pr_n = n, pr_own = v, pr_promises = []\<rparr>\<rparr>)) s) s"

definition reported :: "int \<Rightarrow> string \<Rightarrow> int option \<times> string option" where
  "reported last_n last_value =
     (if last_n < 0 \<or> last_value = ''-'' then (None, None) else (Some last_n, Some last_value))"

definition px_promise :: "string list \<Rightarrow> paxos \<Rightarrow> json \<times> paxos" where
  "px_promise args s =
     with_arg (word_arg args 0) (\<lambda>name.
       case acceptor_index (length (px_acceptors s)) args 0 of
         Inl _ \<Rightarrow> (reply_err (''there is no acceptor '' @ debug_str name), s)
       | Inr _ \<Rightarrow>
           with_arg (int_arg args 1) (\<lambda>last_n. with_arg (word_arg args 2) (\<lambda>last_value.
             case px_proposer s of
               None \<Rightarrow> (reply_err ''no proposal has been started'', s)
             | Some p \<Rightarrow>
                 (let p = p\<lparr>pr_promises := btree_insert name (reported last_n last_value) (pr_promises p)\<rparr>
                  in (JObj [(''promises'', count_json (length (pr_promises p))), (''value'', JStr (proposer_value p)),
                            (''ready'', JBool (px_ready s p))], s\<lparr>px_proposer := Some p\<rparr>))) s) s) s"

definition paxos_step :: "paxos \<Rightarrow> string \<Rightarrow> string list \<Rightarrow> json \<times> paxos" where
  "paxos_step s command args =
     (if command = ''init'' then px_init args s
      else if command = ''prepare'' then px_prepare args s
      else if command = ''accept'' then px_accept args s
      else if command = ''acceptor'' then px_acceptor args s
      else if command = ''learn'' then (px_learn s, s)
      else if command = ''propose'' then px_propose args s
      else if command = ''promise'' then px_promise args s
      else if command = ''proposer'' then (px_proposer_state s, s)
      else (unknown_command command, s))"

section \<open>Many slots\<close>

record slot =
  sl_value :: "string option"
  sl_ballot :: int
  sl_accepted_by :: "string list"
  sl_chosen :: bool

definition slot_default :: slot where
  "slot_default = \<lparr>sl_value = None, sl_ballot = 0, sl_accepted_by = [], sl_chosen = False\<rparr>"

record multi_paxos =
  mp_promised :: "int list"
  mp_ballot :: int
  mp_leader :: bool
  mp_ever_leader :: bool
  mp_slots :: "(int \<times> slot) list"

definition mp_default :: multi_paxos where
  "mp_default = \<lparr>mp_promised = [], mp_ballot = 0, mp_leader = False, mp_ever_leader = False, mp_slots = []\<rparr>"

definition mp_majority :: "multi_paxos \<Rightarrow> nat" where
  "mp_majority s = length (mp_promised s) div 2 + 1"

definition is_chosen :: "multi_paxos \<Rightarrow> int \<Rightarrow> bool" where
  "is_chosen s i \<longleftrightarrow> (case map_of (mp_slots s) i of Some sl \<Rightarrow> sl_chosen sl | None \<Rightarrow> False)"

definition mp_highest :: "multi_paxos \<Rightarrow> int" where
  "mp_highest s = (case map fst (filter (\<lambda>(_, sl). sl_chosen sl) (mp_slots s)) of [] \<Rightarrow> 0 | k # ks \<Rightarrow> foldl max k ks)"

text \<open>The loop over the contiguous prefix: every turn finds one more chosen slot, so as many turns as
  there are slots, and one that stops, are enough.\<close>

fun applied_loop :: "nat \<Rightarrow> multi_paxos \<Rightarrow> int \<Rightarrow> int option" where
  "applied_loop 0 s index = None"
| "applied_loop (Suc fuel) s index = (if is_chosen s (index + 1) then applied_loop fuel s (index + 1) else Some index)"

definition applied_index :: "multi_paxos \<Rightarrow> int" where
  "applied_index s = (case applied_loop (length (mp_slots s) + 1) s 0 of Some i \<Rightarrow> i | None \<Rightarrow> 0)"

definition mp_gaps :: "multi_paxos \<Rightarrow> int list" where
  "mp_gaps s = filter (\<lambda>i. \<not> is_chosen s i) [1..mp_highest s]"

definition mp_init :: "string list \<Rightarrow> multi_paxos \<Rightarrow> json \<times> multi_paxos" where
  "mp_init args s =
     with_arg (uint_arg args 0) (\<lambda>n.
       if n \<ge> 1
       then (let s = mp_default\<lparr>mp_promised := replicate n 0\<rparr>
             in (JObj [(''ok'', JBool True), (''acceptors'', count_json n), (''majority'', count_json (mp_majority s))], s))
       else (reply_err ''Multi-Paxos needs at least one acceptor'', s)) s"

definition raise_promises :: "int \<Rightarrow> int list \<Rightarrow> int list" where
  "raise_promises n ps = map (\<lambda>p. if n > p then n else p) ps"

definition mp_prepare :: "string list \<Rightarrow> multi_paxos \<Rightarrow> json \<times> multi_paxos" where
  "mp_prepare args s =
     with_arg (int_arg args 0) (\<lambda>n.
       (let majority = mp_majority s;
            promised = length (filter (\<lambda>p. n > p) (mp_promised s));
            s = s\<lparr>mp_promised := raise_promises n (mp_promised s)\<rparr>;
            s = (if promised \<ge> majority then s\<lparr>mp_leader := True, mp_ever_leader := True, mp_ballot := n\<rparr> else s)
        in (JObj [(''promised'', count_json promised), (''leader'', JBool (mp_leader s)), (''n'', JInt n)], s))) s"

definition mp_phase :: "string list \<Rightarrow> multi_paxos \<Rightarrow> json" where
  "mp_phase args s =
     (case int_arg args 0 of
        Inl _ \<Rightarrow> reply_err ''argument 0 is not a slot number''
      | Inr _ \<Rightarrow>
          if mp_leader s then JObj [(''phase'', JStr ''accept''), (''reason'', JStr ''stable leader'')]
          else if mp_ever_leader s then JObj [(''phase'', JStr ''prepare''), (''reason'', JStr ''preempted'')]
          else JObj [(''phase'', JStr ''prepare''), (''reason'', JStr ''no leader'')])"

definition slot_at :: "multi_paxos \<Rightarrow> int \<Rightarrow> slot" where
  "slot_at s i = (case map_of (mp_slots s) i of Some sl \<Rightarrow> sl | None \<Rightarrow> slot_default)"

definition repropose :: "int \<Rightarrow> string \<Rightarrow> slot \<Rightarrow> slot" where
  "repropose ballot v e =
     (if sl_chosen e then e
      else
        (let e = (if sl_ballot e \<noteq> ballot then e\<lparr>sl_accepted_by := [], sl_ballot := ballot\<rparr> else e)
         in e\<lparr>sl_value := Some v\<rparr>))"

definition mp_propose :: "string list \<Rightarrow> multi_paxos \<Rightarrow> json \<times> multi_paxos" where
  "mp_propose args s =
     with_arg (int_arg args 0) (\<lambda>i. with_arg (word_arg args 1) (\<lambda>v.
       if \<not> mp_leader s
       then (JObj [(''ok'', JBool False), (''phase'', JStr ''prepare''), (''round_trips'', JInt 2),
                   (''error'', JStr ''phase one has to run first: this proposer is not the leader'')], s)
       else
         (JObj [(''ok'', JBool True), (''phase'', JStr ''accept''), (''round_trips'', JInt 1), (''error'', JNull)],
          s\<lparr>mp_slots := btree_insert i (repropose (mp_ballot s) v (slot_at s i)) (mp_slots s)\<rparr>)) s) s"

definition no_proposal :: "int \<Rightarrow> json" where
  "no_proposal i = reply_err (''slot '' @ show_int i @ '' has no proposal yet'')"

definition note_accept :: "nat \<Rightarrow> string \<Rightarrow> slot \<Rightarrow> slot" where
  "note_accept majority name e =
     (let e = e\<lparr>sl_accepted_by := bset_insert name (sl_accepted_by e)\<rparr>
      in if length (sl_accepted_by e) \<ge> majority then e\<lparr>sl_chosen := True\<rparr> else e)"

definition mp_accepted :: "string list \<Rightarrow> multi_paxos \<Rightarrow> json \<times> multi_paxos" where
  "mp_accepted args s =
     with_arg (int_arg args 0) (\<lambda>i. with_arg (word_arg args 1) (\<lambda>name.
     with_arg (acceptor_index (length (mp_promised s)) args 1) (\<lambda>_.
       (case map_of (mp_slots s) i of
          None \<Rightarrow> (no_proposal i, s)
        | Some e \<Rightarrow>
            if sl_value e = None then (no_proposal i, s)
            else
              (let e = note_accept (mp_majority s) name e
               in (JObj [(''chosen'', JBool (sl_chosen e)), (''value'', json_opt JStr (sl_value e)),
                         (''count'', count_json (length (sl_accepted_by e)))],
                   s\<lparr>mp_slots := btree_insert i e (mp_slots s)\<rparr>)))) s) s) s"

definition mp_chosen :: "string list \<Rightarrow> multi_paxos \<Rightarrow> json \<times> multi_paxos" where
  "mp_chosen args s =
     with_arg (int_arg args 0) (\<lambda>i.
       ((case map_of (mp_slots s) i of
           Some e \<Rightarrow> if sl_chosen e then JObj [(''chosen'', JBool True), (''value'', json_opt JStr (sl_value e))]
                     else JObj [(''chosen'', JBool False), (''value'', JNull)]
         | None \<Rightarrow> JObj [(''chosen'', JBool False), (''value'', JNull)]), s)) s"

definition mp_preempt :: "string list \<Rightarrow> multi_paxos \<Rightarrow> json \<times> multi_paxos" where
  "mp_preempt args s =
     with_arg (int_arg args 0) (\<lambda>n.
       (let s = s\<lparr>mp_promised := raise_promises n (mp_promised s)\<rparr>;
            s = (if n > mp_ballot s then s\<lparr>mp_leader := False\<rparr> else s)
        in (JObj [(''leader'', JBool (mp_leader s)),
                  (''promised_n'', JInt (case mp_promised s of [] \<Rightarrow> 0 | p # ps \<Rightarrow> foldl max p ps))], s))) s"

definition mp_applied :: "multi_paxos \<Rightarrow> json" where
  "mp_applied s = JObj [(''index'', JInt (applied_index s)), (''gaps'', JArr (map JInt (mp_gaps s)))]"

definition mp_state :: "multi_paxos \<Rightarrow> json" where
  "mp_state s =
     JObj [(''n'', JInt (mp_ballot s)), (''leader'', JBool (mp_leader s)),
           (''slots'', JObj (map (\<lambda>(k, e). (show_int k, JObj [(''chosen'', JBool (sl_chosen e)), (''value'', json_opt JStr (sl_value e))])) (mp_slots s))),
           (''applied'', JInt (applied_index s))]"

definition multi_paxos_step :: "multi_paxos \<Rightarrow> string \<Rightarrow> string list \<Rightarrow> json \<times> multi_paxos" where
  "multi_paxos_step s command args =
     (if command = ''init'' then mp_init args s
      else if command = ''prepare'' then mp_prepare args s
      else if command = ''phase'' then (mp_phase args s, s)
      else if command = ''propose'' then mp_propose args s
      else if command = ''accepted'' then mp_accepted args s
      else if command = ''chosen'' then mp_chosen args s
      else if command = ''preempt'' then mp_preempt args s
      else if command = ''applied'' then (mp_applied s, s)
      else if command = ''state'' then (mp_state s, s)
      else (unknown_command command, s))"

end
