(* ===== verification/Dist_Agreement.thy ===== *)
theory Dist_Agreement
  imports Dist_Paxos
begin

text \<open>
  Agreement of single-decree Paxos. The program plays the acceptors and one proposer; who may send
  which command is a step relation around it: every proposal number is started once, a promise
  carries what an acceptor answered to its prepare, and what is put to the acceptors is the value the
  proposer gives once a majority has promised. Messages may be late, lost or repeated.
\<close>

section \<open>The network\<close>

type_synonym report = "int option \<times> string option"

record net =
  nt_paxos :: paxos
  nt_started :: "int set"
  nt_promises :: "(nat \<times> int \<times> report) set"
  nt_proposals :: "(int \<times> string) set"
  nt_votes :: "(nat \<times> int \<times> string) set"

definition ac_name :: "nat \<Rightarrow> string" where
  "ac_name i = ''a'' @ show_nat (i + 1)"

definition report_args :: "nat \<Rightarrow> report \<Rightarrow> string list" where
  "report_args i r =
     [ac_name i, (case fst r of None \<Rightarrow> ''-1'' | Some m \<Rightarrow> show_int m), (case snd r of None \<Rightarrow> ''-'' | Some w \<Rightarrow> w)]"

definition last_report :: "acceptor \<Rightarrow> report" where
  "last_report a = (ac_last_n a, ac_last_value a)"

definition net_start :: "nat \<Rightarrow> net" where
  "net_start n =
     \<lparr>nt_paxos = snd (paxos_step paxos_default ''init'' [show_nat n]), nt_started = {}, nt_promises = {},
      nt_proposals = {}, nt_votes = {}\<rparr>"

abbreviation acceptors :: "net \<Rightarrow> acceptor list" where
  "acceptors s \<equiv> px_acceptors (nt_paxos s)"

definition after :: "net \<Rightarrow> string \<Rightarrow> string list \<Rightarrow> paxos" where
  "after s command args = snd (paxos_step (nt_paxos s) command args)"

inductive net_step :: "net \<Rightarrow> net \<Rightarrow> bool" where
  start: "0 < n \<Longrightarrow> in_i64 n \<Longrightarrow> n \<notin> nt_started s \<Longrightarrow> v \<noteq> ''-'' \<Longrightarrow>
    net_step s (s\<lparr>nt_paxos := after s ''propose'' [show_int n, v], nt_started := insert n (nt_started s)\<rparr>)"
| prepare: "n \<in> nt_started s \<Longrightarrow> i < length (acceptors s) \<Longrightarrow> n > ac_promised (acceptors s ! i) \<Longrightarrow>
    net_step s (s\<lparr>nt_paxos := after s ''prepare'' [ac_name i, show_int n],
      nt_promises := insert (i, n, last_report (acceptors s ! i)) (nt_promises s)\<rparr>)"
| refused: "n \<in> nt_started s \<Longrightarrow> i < length (acceptors s) \<Longrightarrow> n \<le> ac_promised (acceptors s ! i) \<Longrightarrow>
    net_step s (s\<lparr>nt_paxos := after s ''prepare'' [ac_name i, show_int n]\<rparr>)"
| promise: "(i, pr_n p, r) \<in> nt_promises s \<Longrightarrow> px_proposer (nt_paxos s) = Some p \<Longrightarrow>
    net_step s (s\<lparr>nt_paxos := after s ''promise'' (report_args i r)\<rparr>)"
| offer: "px_proposer (nt_paxos s) = Some p \<Longrightarrow> px_ready (nt_paxos s) p \<Longrightarrow> \<forall>v. (pr_n p, v) \<notin> nt_proposals s \<Longrightarrow>
    net_step s (s\<lparr>nt_proposals := insert (pr_n p, proposer_value p) (nt_proposals s)\<rparr>)"
| accept: "(n, v) \<in> nt_proposals s \<Longrightarrow> i < length (acceptors s) \<Longrightarrow>
    net_step s (s\<lparr>nt_paxos := after s ''accept'' [ac_name i, show_int n, v],
      nt_votes := (if ac_promised (acceptors s ! i) \<le> n then insert (i, n, v) (nt_votes s) else nt_votes s)\<rparr>)"

section \<open>What the commands do\<close>

lemma ac_name_inj: "ac_name i = ac_name j \<Longrightarrow> Suc i \<le> 2 ^ 64 - 1 \<Longrightarrow> Suc j \<le> 2 ^ 64 - 1 \<Longrightarrow> i = j"
  unfolding ac_name_def using parse_uint_show [of "Suc i" "2 ^ 64 - 1"] parse_uint_show [of "Suc j" "2 ^ 64 - 1"]
  by simp

lemma acceptor_index_name:
  "i < count \<Longrightarrow> count \<le> 2 ^ 64 - 1 \<Longrightarrow> acceptor_index count (ac_name i # args) 0 = Inr i"
  using parse_uint_show [of "Suc i" "2 ^ 64 - 1"]
  by (simp add: acceptor_index_def word_arg_def arg_def ok_or_def ac_name_def)

lemma show_nat_not_minus: "show_nat n = c # cs \<Longrightarrow> c \<noteq> CHR ''-''"
proof -
  assume "show_nat n = c # cs"
  then obtain d where d: "d < 10" "c = digit_char d" using show_nat_digits [of c n] by auto
  then have "48 \<le> (of_char c :: nat)" by (simp add: digit_char_def)
  moreover have "of_char (CHR ''-'') = (45 :: nat)" by (simp add: of_char_def)
  ultimately show "c \<noteq> CHR ''-''" by auto
qed

lemma parse_i64_show: "0 \<le> n \<Longrightarrow> in_i64 n \<Longrightarrow> parse_i64 (show_int n) = Some n"
proof -
  assume n: "0 \<le> n" "in_i64 n"
  obtain c cs where c: "show_nat (nat n) = c # cs" using show_nat_nonempty by (cases "show_nat (nat n)") auto
  have "nat n \<le> nat i64_max" using n by (intro nat_mono) (simp add: in_i64_def)
  then show ?thesis using n show_nat_not_minus [OF c] parse_uint_show [of "nat n" "nat i64_max"]
    by (simp add: show_int_def parse_i64_def c)
qed

lemma int_arg_show: "0 \<le> n \<Longrightarrow> in_i64 n \<Longrightarrow> i < length args \<Longrightarrow> args ! i = show_int n \<Longrightarrow> int_arg args i = Inr n"
  by (simp add: int_arg_def arg_def ok_or_def parse_i64_show)

lemma after_propose:
  assumes "0 \<le> n" "in_i64 n"
  shows "after s ''propose'' [show_int n, v] =
    (nt_paxos s)\<lparr>px_proposer := Some \<lparr>pr_n = n, pr_own = v, pr_promises = []\<rparr>\<rparr>"
  using int_arg_show [of n 0 "[show_int n, v]"] assms
  by (simp add: after_def paxos_step_def px_propose_def word_arg_def arg_def ok_or_def)

lemma after_prepare:
  assumes "0 \<le> n" "in_i64 n" "i < length (acceptors s)" "length (acceptors s) \<le> 2 ^ 64 - 1"
  shows "after s ''prepare'' [ac_name i, show_int n] =
    (if n > ac_promised (acceptors s ! i)
     then px_update i ((acceptors s ! i)\<lparr>ac_promised := n\<rparr>) (nt_paxos s) else nt_paxos s)"
  using int_arg_show [of n 1 "[ac_name i, show_int n]"] assms acceptor_index_name [OF assms(3,4), of "[show_int n]"]
  by (simp add: after_def paxos_step_def px_prepare_def px_update_def Let_def)

lemma after_accept:
  assumes "0 \<le> n" "in_i64 n" "i < length (acceptors s)" "length (acceptors s) \<le> 2 ^ 64 - 1"
  shows "after s ''accept'' [ac_name i, show_int n, v] =
    (if n \<ge> ac_promised (acceptors s ! i)
     then px_update i ((acceptors s ! i)\<lparr>ac_promised := n, ac_last_n := Some n, ac_last_value := Some v\<rparr>) (nt_paxos s)
     else nt_paxos s)"
  using int_arg_show [of n 1 "[ac_name i, show_int n, v]"] assms acceptor_index_name [OF assms(3,4), of "[show_int n, v]"]
  by (simp add: after_def paxos_step_def px_accept_def px_update_def Let_def word_arg_def arg_def ok_or_def)

text \<open>A report the proposer reads back as it was sent.\<close>

definition plain_report :: "report \<Rightarrow> bool" where
  "plain_report r \<longleftrightarrow> r = (None, None) \<or> (\<exists>m w. r = (Some m, Some w) \<and> 0 \<le> m \<and> in_i64 m \<and> w \<noteq> ''-'')"

lemma after_promise:
  assumes "i < length (acceptors s)" "length (acceptors s) \<le> 2 ^ 64 - 1" "plain_report r" "px_proposer (nt_paxos s) = Some p"
  shows "after s ''promise'' (report_args i r) =
    (nt_paxos s)\<lparr>px_proposer := Some (p\<lparr>pr_promises := btree_insert (ac_name i) r (pr_promises p)\<rparr>)\<rparr>"
proof -
  let ?n = "case fst r of None \<Rightarrow> - 1 | Some m \<Rightarrow> m" and ?v = "case snd r of None \<Rightarrow> ''-'' | Some w \<Rightarrow> w"
  have "parse_i64 (case fst r of None \<Rightarrow> ''-1'' | Some m \<Rightarrow> show_int m) = Some ?n"
  proof (cases "fst r")
    case None
    have "parse_i64 ''-1'' = Some (- 1)" by (simp add: parse_i64_def digit_of_def i64_min_def of_char_def)
    then show ?thesis using None by simp
  next
    case (Some m)
    then show ?thesis using assms(3) parse_i64_show [of m] by (auto simp: plain_report_def)
  qed
  then have "int_arg (report_args i r) 1 = Inr ?n"
    by (simp add: int_arg_def arg_def ok_or_def report_args_def)
  moreover have "reported ?n ?v = r" using assms(3) by (auto simp: plain_report_def reported_def)
  moreover have "word_arg (report_args i r) 0 = Inr (ac_name i)" "word_arg (report_args i r) 2 = Inr ?v"
    by (simp_all add: word_arg_def arg_def ok_or_def report_args_def)
  moreover have "acceptor_index (length (acceptors s)) (report_args i r) 0 = Inr i"
    using acceptor_index_name [OF assms(1,2)] by (simp add: report_args_def)
  ultimately show ?thesis using assms(4)
    unfolding after_def paxos_step_def px_promise_def by (simp only: with_arg_simps sum.case option.case) (simp add: Let_def)
qed

end
