(* ===== verification/Dist_Quorum.thy ===== *)
theory Dist_Quorum
  imports Dist_Agreement
begin

text \<open>
  The invariant of the network and its proof, step by step, and from it agreement: two values that are
  ever learnt are one value.
\<close>

section \<open>Majorities\<close>

definition majority :: "nat \<Rightarrow> nat set \<Rightarrow> bool" where
  "majority N q \<longleftrightarrow> q \<subseteq> {..<N} \<and> N < 2 * card q"

lemma majorities_meet: "majority N q \<Longrightarrow> majority N r \<Longrightarrow> \<exists>i. i \<in> q \<and> i \<in> r"
proof (rule ccontr)
  assume q: "majority N q" "majority N r" and no: "\<nexists>i. i \<in> q \<and> i \<in> r"
  have fin: "finite q" "finite r" using q finite_subset by (auto simp: majority_def)
  have "card (q \<union> r) = card q + card r" using fin no by (intro card_Un_disjoint) auto
  moreover have "card (q \<union> r) \<le> card {..<N}" using q by (intro card_mono) (auto simp: majority_def)
  ultimately show False using q by (simp add: majority_def)
qed

section \<open>The invariant\<close>

type_synonym votes = "(nat \<times> int \<times> string) set"

text \<open>What acceptor \<open>i\<close> says of its votes below \<open>n\<close>.\<close>

definition votes_below :: "votes \<Rightarrow> nat \<Rightarrow> int \<Rightarrow> report \<Rightarrow> bool" where
  "votes_below vs i n r \<longleftrightarrow>
     r = (None, None) \<and> (\<forall>k w. (i, k, w) \<in> vs \<longrightarrow> n \<le> k) \<or>
     (\<exists>m w. r = (Some m, Some w) \<and> m < n \<and> (i, m, w) \<in> vs \<and> (\<forall>k u. (i, k, u) \<in> vs \<longrightarrow> k < n \<longrightarrow> k \<le> m))"

text \<open>A proposal is safe where a majority cannot vote below it any more, and voted for nothing else last.\<close>

definition safe_at :: "nat \<Rightarrow> acceptor list \<Rightarrow> votes \<Rightarrow> int \<Rightarrow> string \<Rightarrow> bool" where
  "safe_at N as vs n v \<longleftrightarrow>
     (\<exists>q. majority N q \<and> (\<forall>i \<in> q. n \<le> ac_promised (as ! i)) \<and>
       ((\<forall>i \<in> q. \<forall>k w. (i, k, w) \<in> vs \<longrightarrow> n \<le> k) \<or>
        (\<exists>m. m < n \<and> (\<exists>i \<in> q. (i, m, v) \<in> vs) \<and> (\<forall>j \<in> q. \<forall>k w. (j, k, w) \<in> vs \<longrightarrow> k < n \<longrightarrow> k \<le> m))))"

definition started_ok :: "net \<Rightarrow> bool" where
  "started_ok s \<longleftrightarrow> (\<forall>n \<in> nt_started s. 0 < n \<and> in_i64 n)"

definition proposals_ok :: "net \<Rightarrow> bool" where
  "proposals_ok s \<longleftrightarrow>
     (\<forall>(n, v) \<in> nt_proposals s. n \<in> nt_started s \<and> v \<noteq> ''-'') \<and>
     (\<forall>n v w. (n, v) \<in> nt_proposals s \<longrightarrow> (n, w) \<in> nt_proposals s \<longrightarrow> v = w)"

definition acceptors_ok :: "nat \<Rightarrow> acceptor list \<Rightarrow> (int \<times> string) set \<Rightarrow> votes \<Rightarrow> bool" where
  "acceptors_ok N as ps vs \<longleftrightarrow> length as = N \<and>
     (\<forall>(i, n, v) \<in> vs. i < N \<and> (n, v) \<in> ps \<and> n \<le> ac_promised (as ! i)) \<and>
     (\<forall>i < N. votes_below vs i (ac_promised (as ! i) + 1) (last_report (as ! i)))"

definition promises_ok :: "nat \<Rightarrow> acceptor list \<Rightarrow> votes \<Rightarrow> (nat \<times> int \<times> report) set \<Rightarrow> bool" where
  "promises_ok N as vs ms \<longleftrightarrow> (\<forall>(i, n, r) \<in> ms. i < N \<and> n \<le> ac_promised (as ! i) \<and> votes_below vs i n r)"

definition proposer_ok :: "net \<Rightarrow> bool" where
  "proposer_ok s \<longleftrightarrow>
     (\<forall>p. px_proposer (nt_paxos s) = Some p \<longrightarrow>
       pr_n p \<in> nt_started s \<and> pr_own p \<noteq> ''-'' \<and> btree_ok (pr_promises p) \<and>
       (\<forall>(name, r) \<in> set (pr_promises p). \<exists>i. name = ac_name i \<and> (i, pr_n p, r) \<in> nt_promises s))"

definition net_inv :: "nat \<Rightarrow> net \<Rightarrow> bool" where
  "net_inv N s \<longleftrightarrow>
     started_ok s \<and> proposals_ok s \<and> acceptors_ok N (acceptors s) (nt_proposals s) (nt_votes s) \<and>
     promises_ok N (acceptors s) (nt_votes s) (nt_promises s) \<and> proposer_ok s \<and>
     (\<forall>(n, v) \<in> nt_proposals s. safe_at N (acceptors s) (nt_votes s) n v)"

text \<open>Promising more, or voting where nothing was promised away, disturbs none of it.\<close>

definition grows :: "acceptor list \<Rightarrow> votes \<Rightarrow> acceptor list \<Rightarrow> votes \<Rightarrow> bool" where
  "grows as vs as' vs' \<longleftrightarrow> vs \<subseteq> vs' \<and> (\<forall>i. ac_promised (as ! i) \<le> ac_promised (as' ! i)) \<and>
     (\<forall>i n v. (i, n, v) \<in> vs' \<longrightarrow> (i, n, v) \<in> vs \<or> ac_promised (as ! i) \<le> n)"

lemma votes_below_grows:
  assumes "grows as vs as' vs'" "n \<le> ac_promised (as ! i)" "votes_below vs i n r"
  shows "votes_below vs' i n r"
proof -
  have old: "(i, k, w) \<in> vs" if "(i, k, w) \<in> vs'" "k < n" for k w
    using assms(1,2) that unfolding grows_def by (meson le_less_trans not_le order_trans)
  have sub: "vs \<subseteq> vs'" using assms(1) by (simp add: grows_def)
  consider "r = (None, None)" "\<forall>k w. (i, k, w) \<in> vs \<longrightarrow> n \<le> k"
    | m w where "r = (Some m, Some w)" "m < n" "(i, m, w) \<in> vs" "\<forall>k u. (i, k, u) \<in> vs \<longrightarrow> k < n \<longrightarrow> k \<le> m"
    using assms(3) unfolding votes_below_def by blast
  then show ?thesis
  proof cases
    case 1
    have "n \<le> k" if "(i, k, w) \<in> vs'" for k w
    proof (rule ccontr)
      assume "\<not> n \<le> k"
      then show False using old [OF that] 1(2) by auto
    qed
    then show ?thesis using 1 by (simp add: votes_below_def)
  next
    case 2
    have "k \<le> m" if "(i, k, u) \<in> vs'" "k < n" for k u using old [OF that] 2(4) that(2) by blast
    then show ?thesis using 2 sub by (auto simp: votes_below_def)
  qed
qed

lemma safe_at_grows:
  assumes "grows as vs as' vs'" "safe_at N as vs n v"
  shows "safe_at N as' vs' n v"
proof -
  obtain q where q: "majority N q" "\<forall>i \<in> q. n \<le> ac_promised (as ! i)"
    and last: "(\<forall>i \<in> q. \<forall>k w. (i, k, w) \<in> vs \<longrightarrow> n \<le> k) \<or>
        (\<exists>m. m < n \<and> (\<exists>i \<in> q. (i, m, v) \<in> vs) \<and> (\<forall>j \<in> q. \<forall>k w. (j, k, w) \<in> vs \<longrightarrow> k < n \<longrightarrow> k \<le> m))"
    using assms(2) unfolding safe_at_def by blast
  have old: "(i, k, w) \<in> vs" if "i \<in> q" "(i, k, w) \<in> vs'" "k < n" for i k w
    using assms(1) q(2) that unfolding grows_def by (meson le_less_trans not_le order_trans)
  have "\<forall>i \<in> q. n \<le> ac_promised (as' ! i)" using q(2) assms(1) unfolding grows_def by (meson order_trans)
  moreover have "(\<forall>i \<in> q. \<forall>k w. (i, k, w) \<in> vs' \<longrightarrow> n \<le> k) \<or>
        (\<exists>m. m < n \<and> (\<exists>i \<in> q. (i, m, v) \<in> vs') \<and> (\<forall>j \<in> q. \<forall>k w. (j, k, w) \<in> vs' \<longrightarrow> k < n \<longrightarrow> k \<le> m))"
    using last
  proof
    assume none: "\<forall>i \<in> q. \<forall>k w. (i, k, w) \<in> vs \<longrightarrow> n \<le> k"
    have "n \<le> k" if "i \<in> q" "(i, k, w) \<in> vs'" for i k w
    proof (rule ccontr)
      assume "\<not> n \<le> k"
      then show False using old [OF that] none that(1) by auto
    qed
    then show ?thesis by blast
  next
    assume "\<exists>m. m < n \<and> (\<exists>i \<in> q. (i, m, v) \<in> vs) \<and> (\<forall>j \<in> q. \<forall>k w. (j, k, w) \<in> vs \<longrightarrow> k < n \<longrightarrow> k \<le> m)"
    then obtain m i where m: "m < n" "i \<in> q" "(i, m, v) \<in> vs" "\<forall>j \<in> q. \<forall>k w. (j, k, w) \<in> vs \<longrightarrow> k < n \<longrightarrow> k \<le> m"
      by blast
    have "k \<le> m" if "j \<in> q" "(j, k, w) \<in> vs'" "k < n" for j k w using old [OF that] m(4) that by blast
    moreover have "(i, m, v) \<in> vs'" using assms(1) m(3) by (auto simp: grows_def)
    ultimately show ?thesis using m(1,2) by blast
  qed
  ultimately show ?thesis using q(1) unfolding safe_at_def by blast
qed

lemma promises_ok_grows:
  assumes "grows as vs as' vs'" "promises_ok N as vs ms"
  shows "promises_ok N as' vs' ms"
proof -
  have "i < N \<and> n \<le> ac_promised (as' ! i) \<and> votes_below vs' i n r" if "(i, n, r) \<in> ms" for i n r
  proof -
    have "i < N" "n \<le> ac_promised (as ! i)" "votes_below vs i n r" using assms(2) that by (auto simp: promises_ok_def)
    moreover have "ac_promised (as ! i) \<le> ac_promised (as' ! i)" using assms(1) by (simp add: grows_def)
    ultimately show ?thesis using votes_below_grows [OF assms(1)] by auto
  qed
  then show ?thesis by (auto simp: promises_ok_def)
qed

text \<open>Choosing among the reports of a majority is safe.\<close>

lemma keep_best_cases:
  obtains "\<nexists>n v. r = (Some n, Some v)" "keep_best best r = best"
  | n v where "r = (Some n, Some v)" "best = None" "keep_best best r = Some (n, v)"
  | n v m w where "r = (Some n, Some v)" "best = Some (m, w)" "keep_best best r = (if n > m then Some (n, v) else Some (m, w))"
proof (cases "\<exists>n v. r = (Some n, Some v)")
  case True
  then show thesis using that(2,3) by (cases best) (auto simp: keep_best_def)
next
  case False
  then have "keep_best best r = best" by (cases r) (auto simp: keep_best_def split: option.split)
  then show thesis using False that(1) by blast
qed

lemma best_fold:
  "(foldl keep_best best rs = None \<longleftrightarrow> best = None \<and> (\<forall>m w. (Some m, Some w) \<notin> set rs)) \<and>
   (\<forall>n v. foldl keep_best best rs = Some (n, v) \<longrightarrow>
     (best = Some (n, v) \<or> (Some n, Some v) \<in> set rs) \<and> (\<forall>m w. best = Some (m, w) \<longrightarrow> m \<le> n) \<and>
     (\<forall>m w. (Some m, Some w) \<in> set rs \<longrightarrow> m \<le> n))"
proof (induction rs arbitrary: best)
  case (Cons r rs)
  show ?case
  proof (cases r best rule: keep_best_cases)
    case 1
    then have mem: "(Some m, Some w) \<in> set (r # rs) \<longleftrightarrow> (Some m, Some w) \<in> set rs" for m w by auto
    show ?thesis unfolding foldl_Cons 1(2) mem by (rule Cons.IH)
  next
    case (2 n v)
    then show ?thesis using Cons.IH [of "Some (n, v)"] by auto
  next
    case (3 n v m w)
    then show ?thesis using Cons.IH [of "Some (n, v)"] Cons.IH [of "Some (m, w)"] by (auto split: if_splits)
  qed
qed simp

text \<open>A proposer that is ready has the reports of a majority.\<close>

lemma ready_majority:
  assumes inv: "net_inv N s" and p: "px_proposer (nt_paxos s) = Some p" "px_ready (nt_paxos s) p" and N: "N \<le> 2 ^ 64 - 1"
  obtains q where "majority N q" "\<forall>i \<in> q. \<exists>r. (i, pr_n p, r) \<in> nt_promises s \<and> r \<in> snd ` set (pr_promises p)"
    and "\<forall>r \<in> snd ` set (pr_promises p). \<exists>i \<in> q. (i, pr_n p, r) \<in> nt_promises s"
proof -
  let ?m = "pr_promises p"
  let ?q = "{i. i < N \<and> (\<exists>r. (ac_name i, r) \<in> set ?m \<and> (i, pr_n p, r) \<in> nt_promises s)}"
  have ok: "btree_ok ?m" and src: "\<And>name r. (name, r) \<in> set ?m \<Longrightarrow> \<exists>i. name = ac_name i \<and> (i, pr_n p, r) \<in> nt_promises s"
    using inv p(1) by (auto simp: net_inv_def proposer_ok_def)
  have below: "i < N" if "(i, n, r) \<in> nt_promises s" for i n r
    using inv that by (auto simp: net_inv_def promises_ok_def)
  have "fst ` set ?m \<subseteq> ac_name ` ?q"
  proof
    fix name assume "name \<in> fst ` set ?m"
    then obtain r where r: "(name, r) \<in> set ?m" by auto
    obtain i where i: "name = ac_name i" "(i, pr_n p, r) \<in> nt_promises s" using src [OF r] by blast
    then have "i \<in> ?q" using below [OF i(2)] r by blast
    then show "name \<in> ac_name ` ?q" using i(1) by blast
  qed
  moreover have fin: "finite ?q" by (rule finite_subset [of _ "{..<N}"]) auto
  ultimately have "card (fst ` set ?m) \<le> card (ac_name ` ?q)" by (intro card_mono finite_imageI)
  then have "card (fst ` set ?m) \<le> card ?q" using card_image_le [OF fin, of ac_name] by linarith
  moreover have "length ?m = card (fst ` set ?m)" using ok by (rule length_btree)
  moreover have "length ?m \<ge> N div 2 + 1"
    using p(2) inv by (simp add: px_ready_def px_majority_def net_inv_def acceptors_ok_def)
  ultimately have "N < 2 * card ?q" by linarith
  then have "majority N ?q" by (auto simp: majority_def)
  moreover have "\<forall>i \<in> ?q. \<exists>r. (i, pr_n p, r) \<in> nt_promises s \<and> r \<in> snd ` set ?m" by force
  moreover have "\<forall>r \<in> snd ` set ?m. \<exists>i \<in> ?q. (i, pr_n p, r) \<in> nt_promises s"
  proof
    fix r assume "r \<in> snd ` set ?m"
    then obtain name where r: "(name, r) \<in> set ?m" by auto
    obtain i where i: "name = ac_name i" "(i, pr_n p, r) \<in> nt_promises s" using src [OF r] by blast
    then have "i \<in> ?q" using below [OF i(2)] r by blast
    then show "\<exists>i \<in> ?q. (i, pr_n p, r) \<in> nt_promises s" using i(2) by blast
  qed
  ultimately show thesis by (rule that)
qed

lemma votes_below_cases:
  assumes "votes_below vs i n r"
  obtains "r = (None, None)" "\<forall>k w. (i, k, w) \<in> vs \<longrightarrow> n \<le> k"
  | m w where "r = (Some m, Some w)" "m < n" "(i, m, w) \<in> vs" "\<forall>k u. (i, k, u) \<in> vs \<longrightarrow> k < n \<longrightarrow> k \<le> m"
  using assms unfolding votes_below_def by blast

lemma offer_safe:
  assumes inv: "net_inv N s" and p: "px_proposer (nt_paxos s) = Some p" "px_ready (nt_paxos s) p" and N: "N \<le> 2 ^ 64 - 1"
  shows "safe_at N (acceptors s) (nt_votes s) (pr_n p) (proposer_value p)" "proposer_value p \<noteq> ''-''"
proof -
  let ?n = "pr_n p" and ?rs = "map snd (pr_promises p)"
  obtain q where q: "majority N q" "\<forall>i \<in> q. \<exists>r. (i, ?n, r) \<in> nt_promises s \<and> r \<in> set ?rs"
      "\<forall>r \<in> set ?rs. \<exists>i \<in> q. (i, ?n, r) \<in> nt_promises s"
    using ready_majority [OF inv p N] by (metis list.set_map)
  have msg: "i < N" "?n \<le> ac_promised (acceptors s ! i)" "votes_below (nt_votes s) i ?n r"
    if "(i, ?n, r) \<in> nt_promises s" for i r
    using inv that by (auto simp: net_inv_def promises_ok_def)
  have prom: "\<forall>i \<in> q. ?n \<le> ac_promised (acceptors s ! i)" using q(2) msg(2) by blast
  have "safe_at N (acceptors s) (nt_votes s) ?n (proposer_value p) \<and> proposer_value p \<noteq> ''-''"
  proof (cases "best_report ?rs")
    case None
    then have none: "(Some m, Some w) \<notin> set ?rs" for m w using best_fold [of None ?rs] by (simp add: best_report_def)
    have "?n \<le> k" if iq: "i \<in> q" and vote: "(i, k, w) \<in> nt_votes s" for i k w
    proof -
      obtain r where r: "(i, ?n, r) \<in> nt_promises s" "r \<in> set ?rs" using bspec [OF q(2) iq] by blast
      show ?thesis using msg(3) [OF r(1)] by (rule votes_below_cases) (use vote none r(2) in auto)
    qed
    moreover have "proposer_value p = pr_own p" using None by (simp add: proposer_value_def)
    moreover have "pr_own p \<noteq> ''-''" using inv p(1) by (auto simp: net_inv_def proposer_ok_def)
    ultimately show ?thesis using q(1) prom unfolding safe_at_def by auto
  next
    case (Some x)
    then obtain m v where x: "best_report ?rs = Some (m, v)" by (cases x) auto
    then have b: "(Some m, Some v) \<in> set ?rs" and mx: "\<And>k w. (Some k, Some w) \<in> set ?rs \<Longrightarrow> k \<le> m"
      using best_fold [of None ?rs] by (auto simp: best_report_def)
    obtain i where i: "i \<in> q" "(i, ?n, (Some m, Some v)) \<in> nt_promises s" using q(3) b by blast
    have im: "m < ?n" "(i, m, v) \<in> nt_votes s" using msg(3) [OF i(2)] by (simp_all add: votes_below_def)
    have "k \<le> m" if iq: "j \<in> q" and vote: "(j, k, w) \<in> nt_votes s" "k < ?n" for j k w
    proof -
      obtain r where r: "(j, ?n, r) \<in> nt_promises s" "r \<in> set ?rs" using bspec [OF q(2) iq] by blast
      show ?thesis using msg(3) [OF r(1)]
      proof (cases rule: votes_below_cases)
        case 1
        then have "?n \<le> k" using vote(1) by blast
        then show ?thesis using vote(2) by simp
      next
        case (2 m' w')
        then have "k \<le> m'" using vote by blast
        moreover have "m' \<le> m" using mx r(2) 2(1) by blast
        ultimately show ?thesis by simp
      qed
    qed
    moreover have "proposer_value p = v" using x by (simp add: proposer_value_def)
    moreover have "v \<noteq> ''-''" using inv im(2) by (auto simp: net_inv_def acceptors_ok_def proposals_ok_def)
    ultimately show ?thesis using q(1) prom im i(1) unfolding safe_at_def by blast
  qed
  then show "safe_at N (acceptors s) (nt_votes s) ?n (proposer_value p)" "proposer_value p \<noteq> ''-''" by blast+
qed

section \<open>Every step keeps the invariant\<close>

lemma votes_below_raise:
  assumes "votes_below vs i n r" "n \<le> n'" "\<And>k w. (i, k, w) \<in> vs \<Longrightarrow> k < n"
  shows "votes_below vs i n' r"
  using assms(1)
proof (cases rule: votes_below_cases)
  case 1
  have "(i, k, w) \<notin> vs" for k w
  proof
    assume v: "(i, k, w) \<in> vs"
    then have "n \<le> k" using 1(2) by blast
    then show False using assms(3) [OF v] by simp
  qed
  then show ?thesis using 1 by (simp add: votes_below_def)
next
  case (2 m w)
  have "k \<le> m" if "(i, k, u) \<in> vs" for k u using 2(4) assms(3) [OF that] that by blast
  then show ?thesis using 2(1-3) assms(2) unfolding votes_below_def by auto
qed

text \<open>An acceptor that promises more.\<close>

lemma raise_keeps:
  assumes ok: "acceptors_ok N as ps vs" and i: "i < N" "ac_promised (as ! i) < n"
  shows "acceptors_ok N (as[i := (as ! i)\<lparr>ac_promised := n\<rparr>]) ps vs"
    and "grows as vs (as[i := (as ! i)\<lparr>ac_promised := n\<rparr>]) vs"
    and "votes_below vs i n (last_report (as ! i))"
proof -
  let ?as = "as[i := (as ! i)\<lparr>ac_promised := n\<rparr>]"
  have len: "length as = N" and vote: "\<And>j k w. (j, k, w) \<in> vs \<Longrightarrow> j < N \<and> (k, w) \<in> ps \<and> k \<le> ac_promised (as ! j)"
    and below: "\<And>j. j < N \<Longrightarrow> votes_below vs j (ac_promised (as ! j) + 1) (last_report (as ! j))"
    using ok by (auto simp: acceptors_ok_def)
  have nth: "?as ! j = (if j = i then (as ! i)\<lparr>ac_promised := n\<rparr> else as ! j)" for j using i(1) len by simp
  have more: "ac_promised (as ! j) \<le> ac_promised (?as ! j)" for j using i(2) by (simp add: nth)
  show g: "grows as vs ?as vs" using more by (auto simp: grows_def)
  have lt: "k < ac_promised (as ! j) + 1" if "(j, k, w) \<in> vs" for j k w using vote [OF that] by simp
  have "votes_below vs j (ac_promised (?as ! j) + 1) (last_report (?as ! j))" if "j < N" for j
  proof -
    have "last_report (?as ! j) = last_report (as ! j)" by (simp add: nth last_report_def)
    then show ?thesis using votes_below_raise [OF below [OF that], of "ac_promised (?as ! j) + 1"] lt more [of j] by simp
  qed
  moreover have "j < N \<and> (k, w) \<in> ps \<and> k \<le> ac_promised (?as ! j)" if "(j, k, w) \<in> vs" for j k w
    using vote [OF that] more [of j] by simp
  ultimately show "acceptors_ok N ?as ps vs" using len by (auto simp: acceptors_ok_def)
  show "votes_below vs i n (last_report (as ! i))"
    using votes_below_raise [OF below [OF i(1)], of n] lt i(2) by simp
qed

text \<open>An acceptor that accepts.\<close>

lemma vote_keeps:
  assumes ok: "acceptors_ok N as ps vs" and i: "i < N" "ac_promised (as ! i) \<le> n" and p: "(n, v) \<in> ps"
  defines "a \<equiv> (as ! i)\<lparr>ac_promised := n, ac_last_n := Some n, ac_last_value := Some v\<rparr>"
  shows "acceptors_ok N (as[i := a]) ps (insert (i, n, v) vs)" "grows as vs (as[i := a]) (insert (i, n, v) vs)"
proof -
  let ?as = "as[i := a]" and ?vs = "insert (i, n, v) vs"
  have len: "length as = N" and vote: "\<And>j k w. (j, k, w) \<in> vs \<Longrightarrow> j < N \<and> (k, w) \<in> ps \<and> k \<le> ac_promised (as ! j)"
    and below: "\<And>j. j < N \<Longrightarrow> votes_below vs j (ac_promised (as ! j) + 1) (last_report (as ! j))"
    using ok by (auto simp: acceptors_ok_def)
  have nth: "?as ! j = (if j = i then a else as ! j)" for j using i(1) len by simp
  have a: "ac_promised a = n" "last_report a = (Some n, Some v)" by (simp_all add: a_def last_report_def)
  have more: "ac_promised (as ! j) \<le> ac_promised (?as ! j)" for j using i(2) a by (simp add: nth)
  show "grows as vs ?as ?vs" using more i(2) by (auto simp: grows_def)
  have "votes_below ?vs j (ac_promised (?as ! j) + 1) (last_report (?as ! j))" if "j < N" for j
  proof (cases "j = i")
    case True
    have "k \<le> n" if "(i, k, w) \<in> ?vs" for k w using that vote [of i k w] i(2) by auto
    moreover have "?as ! j = a" using True by (simp add: nth)
    ultimately show ?thesis using True a by (simp add: votes_below_def) blast
  next
    case False
    then show ?thesis using below [OF that] by (simp add: nth votes_below_def)
  qed
  moreover have "j < N \<and> (k, w) \<in> ps \<and> k \<le> ac_promised (?as ! j)" if "(j, k, w) \<in> ?vs" for j k w
    using that vote [of j k w] more [of j] i(1) p a by (auto simp: nth)
  ultimately show "acceptors_ok N ?as ps ?vs" using len by (auto simp: acceptors_ok_def)
qed

lemma net_inv_acceptors:
  assumes inv: "net_inv N s" and g: "grows (acceptors s) (nt_votes s) as vs"
    and ok: "acceptors_ok N as (nt_proposals s) vs"
    and t: "nt_paxos t = (nt_paxos s)\<lparr>px_acceptors := as\<rparr>" "nt_votes t = vs" "nt_started t = nt_started s"
      "nt_proposals t = nt_proposals s" "nt_promises s \<subseteq> nt_promises t"
    and new: "\<And>i n r. (i, n, r) \<in> nt_promises t \<Longrightarrow> (i, n, r) \<in> nt_promises s \<or>
      i < N \<and> n \<le> ac_promised (as ! i) \<and> votes_below vs i n r"
  shows "net_inv N t"
proof -
  have "promises_ok N as vs (nt_promises s)" using promises_ok_grows [OF g] inv by (simp add: net_inv_def)
  then have "promises_ok N as vs (nt_promises t)" using new unfolding promises_ok_def by blast
  moreover have "proposer_ok t" using inv t unfolding net_inv_def proposer_ok_def by fastforce
  moreover have "\<forall>(n, v) \<in> nt_proposals s. safe_at N as vs n v"
    using inv safe_at_grows [OF g] unfolding net_inv_def by blast
  ultimately show ?thesis using inv ok t by (simp add: net_inv_def started_ok_def proposals_ok_def)
qed

lemma net_start_paxos:
  assumes "1 \<le> N" "int N \<le> i64_max"
  shows "nt_paxos (net_start N) = \<lparr>px_acceptors = replicate N acceptor_default, px_proposer = None\<rparr>"
proof -
  have "in_i64 (int N)" using assms by (simp add: in_i64_def i64_min_def)
  then have "uint_arg [show_nat N] 0 = Inr N"
    using int_arg_show [of "int N" 0 "[show_nat N]"] by (simp add: uint_arg_def show_int_def)
  then show ?thesis using assms by (simp add: net_start_def paxos_step_def px_init_def Let_def)
qed

lemma net_start_inv:
  assumes "1 \<le> N" "int N \<le> i64_max"
  shows "net_inv N (net_start N)"
proof -
  note s = net_start_paxos [OF assms]
  have "acceptors_ok N (replicate N acceptor_default) {} {}"
    by (simp add: acceptors_ok_def votes_below_def last_report_def acceptor_default_def)
  then show ?thesis
    by (simp add: net_inv_def s started_ok_def proposals_ok_def promises_ok_def proposer_ok_def) (simp add: net_start_def started_ok_def proposals_ok_def promises_ok_def)
qed

lemma net_step_inv:
  assumes "net_step s t" "net_inv N s" "N \<le> 2 ^ 64 - 1"
  shows "net_inv N t"
  using assms(1,2)
proof (cases rule: net_step.cases)
  case (start n v)
  have "nt_paxos t = (nt_paxos s)\<lparr>px_proposer := Some \<lparr>pr_n = n, pr_own = v, pr_promises = []\<rparr>\<rparr>"
    using start after_propose [of n s v] by simp
  then show ?thesis using start assms(2)
    by (auto simp: net_inv_def started_ok_def proposals_ok_def proposer_ok_def)
next
  case (prepare n i)
  have n: "0 < n" "in_i64 n" using prepare(2) assms(2) by (auto simp: net_inv_def started_ok_def)
  have ok: "acceptors_ok N (acceptors s) (nt_proposals s) (nt_votes s)" and i: "i < N"
    using assms(2) prepare(3) by (auto simp: net_inv_def acceptors_ok_def)
  note keep = raise_keeps [OF ok i prepare(4)]
  let ?as = "(acceptors s)[i := (acceptors s ! i)\<lparr>ac_promised := n\<rparr>]"
  have px: "nt_paxos t = (nt_paxos s)\<lparr>px_acceptors := ?as\<rparr>"
    using prepare n after_prepare [of n i s] i assms(3) ok by (simp add: px_update_def acceptors_ok_def)
  have at: "n \<le> ac_promised (?as ! i)" using i ok by (simp add: acceptors_ok_def)
  have "votes_below (nt_votes s) i n (last_report (acceptors s ! i))" by (rule keep(3))
  then show ?thesis using i at prepare(1)
    by (intro net_inv_acceptors [OF assms(2) keep(2,1) px]) auto
next
  case (refused n i)
  have n: "0 < n" "in_i64 n" using refused(2) assms(2) by (auto simp: net_inv_def started_ok_def)
  have "length (acceptors s) = N" using assms(2) by (simp add: net_inv_def acceptors_ok_def)
  then have "t = s" using refused n after_prepare [of n i s] assms(3) by simp
  then show ?thesis using assms(2) by simp
next
  case (promise i p r)
  have len: "length (acceptors s) = N" using assms(2) by (simp add: net_inv_def acceptors_ok_def)
  have msg: "i < N" "votes_below (nt_votes s) i (pr_n p) r" using assms(2) promise(2) by (auto simp: net_inv_def promises_ok_def)
  have "plain_report r" using msg(2)
  proof (cases rule: votes_below_cases)
    case 1
    then show ?thesis by (simp add: plain_report_def)
  next
    case (2 m w)
    then have "(m, w) \<in> nt_proposals s" using assms(2) by (auto simp: net_inv_def acceptors_ok_def)
    then show ?thesis using 2(1) assms(2) by (fastforce simp: plain_report_def net_inv_def proposals_ok_def started_ok_def)
  qed
  then have px: "nt_paxos t = (nt_paxos s)\<lparr>px_proposer := Some (p\<lparr>pr_promises := btree_insert (ac_name i) r (pr_promises p)\<rparr>)\<rparr>"
    using promise(1,3) after_promise [of i s r p] msg(1) len assms(3) by simp
  have "set (btree_insert (ac_name i) r (pr_promises p)) \<subseteq> insert (ac_name i, r) (set (pr_promises p))"
    by (rule set_btree_insert)
  then have "proposer_ok t" using px promise assms(2) unfolding net_inv_def proposer_ok_def by fastforce
  then show ?thesis using px promise(1) assms(2) by (simp add: net_inv_def started_ok_def proposals_ok_def)
next
  case (offer p)
  note new = offer_safe [OF assms(2) offer(2,3) assms(3)]
  have "proposals_ok t" using offer new assms(2) by (auto simp: proposals_ok_def net_inv_def proposer_ok_def)
  moreover have "acceptors_ok N (acceptors s) (nt_proposals t) (nt_votes s)"
    using assms(2) offer(1) by (auto simp: net_inv_def acceptors_ok_def)
  ultimately show ?thesis using new offer(1) assms(2) by (simp add: net_inv_def started_ok_def proposer_ok_def)
next
  case (accept n v i)
  have n: "0 < n" "in_i64 n" using accept(2) assms(2) by (fastforce simp: net_inv_def started_ok_def proposals_ok_def)+
  have ok: "acceptors_ok N (acceptors s) (nt_proposals s) (nt_votes s)" and i: "i < N"
    using assms(2) accept(3) by (auto simp: net_inv_def acceptors_ok_def)
  have len: "i < length (acceptors s)" "length (acceptors s) \<le> 2 ^ 64 - 1" using i ok assms(3) by (simp_all add: acceptors_ok_def)
  show ?thesis
  proof (cases "ac_promised (acceptors s ! i) \<le> n")
    case True
    note keep = vote_keeps [OF ok i True accept(2)]
    have px: "nt_paxos t = (nt_paxos s)\<lparr>px_acceptors :=
        (acceptors s)[i := (acceptors s ! i)\<lparr>ac_promised := n, ac_last_n := Some n, ac_last_value := Some v\<rparr>]\<rparr>"
      using accept(1) n after_accept [of n i s v] len True by (simp add: px_update_def)
    show ?thesis using accept(1) True by (intro net_inv_acceptors [OF assms(2) keep(2,1) px]) auto
  next
    case False
    have "t = s" using accept(1) n after_accept [of n i s v] len False by simp
    then show ?thesis using assms(2) by simp
  qed
qed

section \<open>Agreement\<close>

definition chosen_at :: "nat \<Rightarrow> votes \<Rightarrow> int \<Rightarrow> string \<Rightarrow> bool" where
  "chosen_at N vs n v \<longleftrightarrow> (\<exists>q. majority N q \<and> (\<forall>i \<in> q. (i, n, v) \<in> vs))"

lemma chosen_later:
  assumes inv: "net_inv N s" and c: "chosen_at N (nt_votes s) n v"
  shows "(n', v') \<in> nt_proposals s \<Longrightarrow> n \<le> n' \<Longrightarrow> v' = v"
proof (induction "nat n'" arbitrary: n' v' rule: less_induct)
  case less
  obtain q where q: "majority N q" "\<forall>i \<in> q. (i, n, v) \<in> nt_votes s" using c by (auto simp: chosen_at_def)
  have proposed: "(m, w) \<in> nt_proposals s" if "(i, m, w) \<in> nt_votes s" for i m w
    using inv that by (auto simp: net_inv_def acceptors_ok_def)
  show ?case
  proof (cases "n' = n")
    case True
    obtain i where "i \<in> q" using majorities_meet [OF q(1) q(1)] by blast
    then have "(n, v) \<in> nt_proposals s" using q(2) proposed by blast
    then show ?thesis using less(2) True inv unfolding net_inv_def proposals_ok_def by blast
  next
    case False
    have "safe_at N (acceptors s) (nt_votes s) n' v'" using inv less(2) by (auto simp: net_inv_def)
    then obtain r where r: "majority N r" "(\<forall>i \<in> r. \<forall>k w. (i, k, w) \<in> nt_votes s \<longrightarrow> n' \<le> k) \<or>
        (\<exists>m. m < n' \<and> (\<exists>i \<in> r. (i, m, v') \<in> nt_votes s) \<and> (\<forall>j \<in> r. \<forall>k w. (j, k, w) \<in> nt_votes s \<longrightarrow> k < n' \<longrightarrow> k \<le> m))"
      unfolding safe_at_def by blast
    obtain i where i: "i \<in> q" "i \<in> r" using majorities_meet [OF q(1) r(1)] by blast
    have iv: "(i, n, v) \<in> nt_votes s" using q(2) i(1) by blast
    have lt: "n < n'" using less(3) False by simp
    then obtain m j where m: "m < n'" "(j, m, v') \<in> nt_votes s" "n \<le> m" using r(2) i(2) iv by fastforce
    have mp: "(m, v') \<in> nt_proposals s" using proposed m(2) by blast
    then have "0 < m" using inv by (fastforce simp: net_inv_def proposals_ok_def started_ok_def)
    then show ?thesis using less(1) [OF _ mp m(3)] m(1) by simp
  qed
qed

lemma chosen_agree:
  assumes "net_inv N s" "chosen_at N (nt_votes s) n v" "chosen_at N (nt_votes s) n' v'"
  shows "v = v'"
proof -
  have proposed: "(m, w) \<in> nt_proposals s" if c: "chosen_at N (nt_votes s) m w" for m w
  proof -
    obtain q where q: "majority N q" "\<forall>i \<in> q. (i, m, w) \<in> nt_votes s" using c by (auto simp: chosen_at_def)
    then obtain i where "(i, m, w) \<in> nt_votes s" using majorities_meet [OF q(1) q(1)] by blast
    then show ?thesis using assms(1) by (auto simp: net_inv_def acceptors_ok_def)
  qed
  show ?thesis
  proof (cases "n \<le> n'")
    case True
    then show ?thesis using chosen_later [OF assms(1,2) proposed [OF assms(3)]] by simp
  next
    case False
    then show ?thesis using chosen_later [OF assms(1,3) proposed [OF assms(2)]] by simp
  qed
qed

text \<open>What the program reports as chosen has the votes of a majority.\<close>

lemma px_choose_from:
  "px_choose s c ns = Some v \<Longrightarrow> c = Some v \<or> (\<exists>n a. length (px_holders s n) \<ge> px_majority s \<and>
     a \<in> set (px_holders s n) \<and> ac_last_value a = Some v)"
proof (induction ns arbitrary: c)
  case (Cons n ns)
  show ?case
  proof (cases "length (px_holders s n) \<ge> px_majority s \<and> (\<exists>a as w. px_holders s n = a # as \<and> ac_last_value a = Some w)")
    case True
    then obtain a as w where h: "length (px_holders s n) \<ge> px_majority s" "px_holders s n = a # as" "ac_last_value a = Some w" by blast
    then have "px_choose s (Some w) ns = Some v" using Cons.prems by simp
    from Cons.IH [OF this] show ?thesis
    proof
      assume "Some w = Some v"
      then show ?thesis using h by (metis list.set_intros(1))
    qed blast
  next
    case False
    then have "px_choose s c ns = Some v" using Cons.prems by (auto simp: Let_def split: list.splits option.splits if_splits)
    then show ?thesis by (rule Cons.IH)
  qed
qed simp

lemma learnt_chosen:
  assumes inv: "net_inv N s" and v: "px_chosen (nt_paxos s) = Some v"
  shows "\<exists>n. chosen_at N (nt_votes s) n v"
proof -
  let ?as = "acceptors s"
  obtain n a where h: "length (px_holders (nt_paxos s) n) \<ge> px_majority (nt_paxos s)"
      "a \<in> set (px_holders (nt_paxos s) n)" "ac_last_value a = Some v"
    using px_choose_from [of "nt_paxos s" None] v unfolding px_chosen_def by blast
  have len: "length ?as = N" using inv by (simp add: net_inv_def acceptors_ok_def)
  let ?q = "{i. i < N \<and> ac_last_n (?as ! i) = Some n}"
  have voted: "\<exists>w. ac_last_value (?as ! i) = Some w \<and> (i, n, w) \<in> nt_votes s" if "i \<in> ?q" for i
  proof -
    have "votes_below (nt_votes s) i (ac_promised (?as ! i) + 1) (last_report (?as ! i))"
      using inv that by (simp add: net_inv_def acceptors_ok_def)
    then show ?thesis using that by (cases rule: votes_below_cases) (auto simp: last_report_def)
  qed
  have proposed: "(n, w) \<in> nt_proposals s" if "(i, n, w) \<in> nt_votes s" for i w
    using inv that by (auto simp: net_inv_def acceptors_ok_def)
  obtain j where j: "j \<in> ?q" "?as ! j = a" using h(2) len by (auto simp: px_holders_def in_set_conv_nth)
  have "(n, v) \<in> nt_proposals s" using voted [OF j(1)] h(3) j(2) proposed by auto
  then have "(i, n, v) \<in> nt_votes s" if "i \<in> ?q" for i
    using voted [OF that] proposed inv unfolding net_inv_def proposals_ok_def by blast
  moreover have "card ?q = length (px_holders (nt_paxos s) n)"
    unfolding px_holders_def length_filter_conv_card len by (rule arg_cong [where f = card]) auto
  then have "majority N ?q" using h(1) len by (auto simp: majority_def px_majority_def)
  ultimately show ?thesis unfolding chosen_at_def by blast
qed

lemma net_votes_grow: "net_step\<^sup>*\<^sup>* s t \<Longrightarrow> nt_votes s \<subseteq> nt_votes t"
proof (induction rule: rtranclp_induct)
  case (step t u)
  have "nt_votes t \<subseteq> nt_votes u" using step(2) by (cases rule: net_step.cases) auto
  then show ?case using step(3) by blast
qed simp

lemma net_reachable_inv:
  "net_step\<^sup>*\<^sup>* s t \<Longrightarrow> net_inv N s \<Longrightarrow> N \<le> 2 ^ 64 - 1 \<Longrightarrow> net_inv N t"
  by (induction rule: rtranclp_induct) (auto intro: net_step_inv)

text \<open>C27: Paxos agrees. Whatever the program answers to \<open>learn\<close> in a network of proposers and acceptors that
  follow the protocol, however messages are delayed, lost, repeated and however proposers compete:
  two values learnt at any two times of a run are the same value.\<close>
theorem paxos_agreement:
  assumes "1 \<le> N" "int N \<le> i64_max"
    and "net_step\<^sup>*\<^sup>* (net_start N) s" "net_step\<^sup>*\<^sup>* s t"
    and "px_chosen (nt_paxos s) = Some v" "px_chosen (nt_paxos t) = Some w"
  shows "v = w"
proof -
  have N: "N \<le> 2 ^ 64 - 1" using assms(2) by (simp add: i64_max_def)
  have s: "net_inv N s" using net_reachable_inv [OF assms(3) net_start_inv [OF assms(1,2)] N] .
  have t: "net_inv N t" using net_reachable_inv [OF assms(4) s N] .
  obtain n n' where "chosen_at N (nt_votes s) n v" "chosen_at N (nt_votes t) n' w"
    using learnt_chosen [OF s assms(5)] learnt_chosen [OF t assms(6)] by blast
  moreover have "chosen_at N (nt_votes t) n v"
    using calculation(1) net_votes_grow [OF assms(4)] unfolding chosen_at_def by blast
  ultimately show ?thesis using chosen_agree [OF t] by blast
qed

text \<open>A run in which the only acceptor promises to the first proposal and accepts it.\<close>

definition run_started :: net where
  "run_started = (net_start 1)\<lparr>nt_paxos := after (net_start 1) ''propose'' [show_int 1, ''x''],
     nt_started := insert 1 (nt_started (net_start 1))\<rparr>"

definition run_promised :: net where
  "run_promised = run_started\<lparr>nt_paxos := after run_started ''prepare'' [ac_name 0, show_int 1],
     nt_promises := insert (0, 1, last_report (acceptors run_started ! 0)) (nt_promises run_started)\<rparr>"

definition run_ready :: net where
  "run_ready = run_promised\<lparr>nt_paxos := after run_promised ''promise'' (report_args 0 (None, None))\<rparr>"

definition run_offered :: net where
  "run_offered = run_ready\<lparr>nt_proposals := insert (1, ''x'') (nt_proposals run_ready)\<rparr>"

definition run_accepted :: net where
  "run_accepted = run_offered\<lparr>nt_paxos := after run_offered ''accept'' [ac_name 0, show_int 1, ''x''],
     nt_votes := insert (0, 1, ''x'') (nt_votes run_offered)\<rparr>"

lemma one_i64: "in_i64 1"
  by (simp add: in_i64_def i64_min_def i64_max_def)

lemma run_started_paxos:
  "nt_paxos run_started = \<lparr>px_acceptors = [acceptor_default], px_proposer = Some \<lparr>pr_n = 1, pr_own = ''x'', pr_promises = []\<rparr>\<rparr>"
  using after_propose [of 1 "net_start 1" "''x''"] net_start_paxos [of 1] one_i64
  by (simp add: run_started_def i64_max_def)

lemma run_promised_paxos:
  "nt_paxos run_promised = \<lparr>px_acceptors = [acceptor_default\<lparr>ac_promised := 1\<rparr>],
     px_proposer = Some \<lparr>pr_n = 1, pr_own = ''x'', pr_promises = []\<rparr>\<rparr>"
  using after_prepare [of 1 0 run_started] one_i64
  by (simp add: run_promised_def run_started_paxos px_update_def acceptor_default_def)

lemma run_ready_paxos:
  "nt_paxos run_ready = \<lparr>px_acceptors = [acceptor_default\<lparr>ac_promised := 1\<rparr>],
     px_proposer = Some \<lparr>pr_n = 1, pr_own = ''x'', pr_promises = [(ac_name 0, (None, None))]\<rparr>\<rparr>"
  using after_promise [of 0 run_promised "(None, None)"]
  by (simp add: run_ready_def run_promised_paxos plain_report_def)

lemma run_accepted_paxos:
  "px_acceptors (nt_paxos run_accepted) = [\<lparr>ac_promised = 1, ac_last_n = Some 1, ac_last_value = Some ''x''\<rparr>]"
  using after_accept [of 1 0 run_offered "''x''"] one_i64
  by (simp add: run_accepted_def run_offered_def run_ready_paxos px_update_def acceptor_default_def)

lemma run_reachable: "net_step\<^sup>*\<^sup>* (net_start 1) run_accepted"
proof -
  have "net_step (net_start 1) run_started"
    unfolding run_started_def by (rule net_step.start) (simp_all add: one_i64 net_start_def)
  moreover have "net_step run_started run_promised"
    unfolding run_promised_def
    by (rule net_step.prepare) (simp_all add: run_started_paxos acceptor_default_def, simp add: run_started_def)
  moreover have "net_step run_promised run_ready"
    unfolding run_ready_def
    by (rule net_step.promise [where p = "\<lparr>pr_n = 1, pr_own = ''x'', pr_promises = []\<rparr>"])
       (simp_all add: run_promised_paxos, simp add: run_promised_def run_started_paxos last_report_def acceptor_default_def)
  moreover have "net_step run_ready run_offered"
  proof -
    let ?p = "\<lparr>pr_n = 1, pr_own = ''x'', pr_promises = [(ac_name 0, (None, None))]\<rparr>"
    have "nt_proposals run_ready = {}"
      by (simp add: run_ready_def run_promised_def run_started_def net_start_def)
    then have "net_step run_ready (run_ready\<lparr>nt_proposals := insert (pr_n ?p, proposer_value ?p) (nt_proposals run_ready)\<rparr>)"
      by (intro net_step.offer) (simp_all add: run_ready_paxos px_ready_def px_majority_def)
    moreover have "proposer_value ?p = ''x''"
      by (simp add: proposer_value_def best_report_def keep_best_def)
    ultimately show ?thesis by (simp add: run_offered_def)
  qed
  moreover have "net_step run_offered run_accepted"
  proof -
    have "(1, ''x'') \<in> nt_proposals run_offered" "0 < length (acceptors run_offered)"
        "ac_promised (acceptors run_offered ! 0) \<le> 1"
      by (simp_all add: run_offered_def run_ready_paxos)
    then show ?thesis using net_step.accept [of 1 "''x''" run_offered 0] by (simp add: run_accepted_def)
  qed
  ultimately show ?thesis by (meson converse_rtranclp_into_rtranclp rtranclp.rtrancl_refl)
qed

theorem paxos_agreement_witness:
  "px_chosen (nt_paxos run_accepted) = Some ''x'' \<and> (''x'' :: string) = ''x''"
proof -
  have c: "px_chosen (nt_paxos run_accepted) = Some ''x''"
    by (simp add: px_chosen_def px_numbers_def run_accepted_paxos px_holders_def px_majority_def map_filter_simps)
  show ?thesis
    using c paxos_agreement [of 1, OF _ _ run_reachable rtranclp.rtrancl_refl c c] by (simp add: i64_max_def)
qed

end
