(* ===== verification/Dist_Commit.thy ===== *)
theory Dist_Commit
  imports Topics
begin

text \<open>
  Atomic commit, as \<^verbatim>\<open>disttest/examples/alg/commit.rs\<close> plays it: two-phase commit, three-phase commit
  and the write-ahead log of one participant. Every command of a topic is one definition.
\<close>

datatype pstate = PS_Working | PS_Prepared | PS_PreCommitted | PS_Committed | PS_Aborted

fun ps_text :: "pstate \<Rightarrow> string" where
  "ps_text PS_Working = ''working''"
| "ps_text PS_Prepared = ''prepared''"
| "ps_text PS_PreCommitted = ''pre-committed''"
| "ps_text PS_Committed = ''committed''"
| "ps_text PS_Aborted = ''aborted''"

fun ps_decision :: "pstate \<Rightarrow> string option" where
  "ps_decision PS_Committed = Some ''commit''"
| "ps_decision PS_Aborted = Some ''abort''"
| "ps_decision _ = None"

definition not_a_participant :: "string \<Rightarrow> json" where
  "not_a_participant p = reply_err (debug_str p @ '' is not a participant'')"

definition settled_as :: "string \<Rightarrow> pstate" where
  "settled_as d = (if d = ''commit'' then PS_Committed else PS_Aborted)"

definition commit_verdict :: "json \<Rightarrow> bool \<Rightarrow> string \<Rightarrow> json" where
  "commit_verdict d blocked reason = JObj [(''decision'', d), (''blocked'', JBool blocked), (''reason'', JStr reason)]"

definition yes_no :: "bool \<Rightarrow> string" where
  "yes_no yes = (if yes then ''yes'' else ''no'')"

section \<open>Two-phase commit\<close>

record two_phase =
  tp_participants :: "string list"
  tp_state :: string
  tp_decision :: "string option"
  tp_votes :: "(string \<times> string) list"
  tp_pstates :: "(string \<times> pstate) list"
  tp_up :: bool
  tp_broadcast :: bool

definition tp_default :: two_phase where
  "tp_default =
     \<lparr>tp_participants = [], tp_state = ''init'', tp_decision = None, tp_votes = [], tp_pstates = [],
      tp_up = True, tp_broadcast = False\<rparr>"

definition tp_known :: "two_phase \<Rightarrow> string \<Rightarrow> bool" where
  "tp_known s p \<longleftrightarrow> p \<in> set (tp_participants s)"

definition tp_pstate :: "two_phase \<Rightarrow> string \<Rightarrow> pstate" where
  "tp_pstate s p = (case map_of (tp_pstates s) p of Some st \<Rightarrow> st | None \<Rightarrow> PS_Working)"

definition tp_reconsider :: "two_phase \<Rightarrow> two_phase" where
  "tp_reconsider s =
     (if tp_decision s \<noteq> None then s
      else if list_ex (\<lambda>(_, v). v = ''no'') (tp_votes s)
      then s\<lparr>tp_decision := Some ''abort'', tp_state := ''aborted''\<rparr>
      else if tp_participants s \<noteq> [] \<and> length (tp_votes s) = length (tp_participants s)
      then s\<lparr>tp_decision := Some ''commit'', tp_state := ''committed''\<rparr>
      else s)"

definition tp_set_pstate :: "string \<Rightarrow> pstate \<Rightarrow> two_phase \<Rightarrow> two_phase" where
  "tp_set_pstate p st s = s\<lparr>tp_pstates := btree_insert p st (tp_pstates s)\<rparr>"

definition tp_settle :: "string \<Rightarrow> string \<Rightarrow> two_phase \<Rightarrow> two_phase" where
  "tp_settle p d s = (if ps_decision (tp_pstate s p) \<noteq> None then s else tp_set_pstate p (settled_as d) s)"

definition tp_vote_default :: "string \<Rightarrow> two_phase \<Rightarrow> two_phase" where
  "tp_vote_default p s =
     (case map_of (tp_votes s) p of Some _ \<Rightarrow> s | None \<Rightarrow> s\<lparr>tp_votes := btree_insert p ''no'' (tp_votes s)\<rparr>)"

definition tp_decision_json :: "two_phase \<Rightarrow> json" where
  "tp_decision_json s = json_opt JStr (tp_decision s)"

definition tp_state_value :: "two_phase \<Rightarrow> json" where
  "tp_state_value s =
     JObj [(''state'', JStr (tp_state s)), (''decision'', tp_decision_json s),
           (''votes'', JObj (map (\<lambda>(k, v). (k, JStr v)) (tp_votes s))),
           (''coordinator'', JStr (if tp_up s then ''up'' else ''crashed''))]"

subsection \<open>The commands\<close>

definition tp_init :: "string list \<Rightarrow> json \<times> two_phase" where
  "tp_init names =
     (let s = foldl (\<lambda>s p. tp_set_pstate p PS_Working s) (tp_default\<lparr>tp_participants := names\<rparr>) names
      in (JObj [(''state'', JStr (tp_state s)), (''participants'', JArr (map JStr names))], s))"

definition tp_prepare :: "two_phase \<Rightarrow> json \<times> two_phase" where
  "tp_prepare s =
     (if \<not> tp_up s then (JObj [(''state'', JStr (tp_state s)), (''sent'', JInt 0)], s)
      else
        (let s = (if tp_state s = ''init'' then s\<lparr>tp_state := ''preparing''\<rparr> else s)
         in (JObj [(''state'', JStr (tp_state s)), (''sent'', count_json (length (tp_participants s)))], s)))"

definition tp_cast :: "string \<Rightarrow> bool \<Rightarrow> two_phase \<Rightarrow> two_phase" where
  "tp_cast p yes s =
     (case map_of (tp_votes s) p of
        Some _ \<Rightarrow> s
      | None \<Rightarrow>
          tp_reconsider (tp_set_pstate p (if yes then PS_Prepared else PS_Aborted)
            (s\<lparr>tp_votes := btree_insert p (yes_no yes) (tp_votes s)\<rparr>)))"

definition tp_vote :: "string \<Rightarrow> string list \<Rightarrow> two_phase \<Rightarrow> json \<times> two_phase" where
  "tp_vote p args s =
     (if \<not> tp_known s p then (not_a_participant p, s)
      else
        with_arg (flag_arg args 1 ''yes'' ''no'') (\<lambda>yes.
          let s = tp_cast p yes s
          in (JObj [(''state'', JStr (tp_state s)), (''votes'', count_json (length (tp_votes s))),
                    (''decision'', tp_decision_json s)], s)) s)"

definition tp_decide :: "two_phase \<Rightarrow> json \<times> two_phase" where
  "tp_decide s =
     (if \<not> tp_up s \<or> tp_decision s = None
      then (JObj [(''decision'', JNull), (''sent'', JInt 0)], s)
      else
        (JObj [(''decision'', tp_decision_json s), (''sent'', count_json (length (tp_participants s)))],
         s\<lparr>tp_broadcast := True\<rparr>))"

definition tp_deliver :: "string \<Rightarrow> two_phase \<Rightarrow> json \<times> two_phase" where
  "tp_deliver p s =
     (if \<not> tp_known s p then (not_a_participant p, s)
      else
        (let s = (if tp_broadcast s
                  then (case tp_decision s of Some d \<Rightarrow> tp_settle p d s | None \<Rightarrow> s) else s)
         in (JObj [(''state'', JStr (ps_text (tp_pstate s p)))], s)))"

definition tp_p_state :: "string \<Rightarrow> two_phase \<Rightarrow> json \<times> two_phase" where
  "tp_p_state p s =
     (if \<not> tp_known s p then (not_a_participant p, s)
      else (JObj [(''state'', JStr (ps_text (tp_pstate s p)))], s))"

text \<open>A participant that has promised nothing aborts, and its vote counts as no.\<close>

definition tp_give_up :: "string \<Rightarrow> two_phase \<Rightarrow> two_phase" where
  "tp_give_up p s = tp_reconsider (tp_vote_default p (tp_set_pstate p PS_Aborted s))"

definition tp_timeout :: "string \<Rightarrow> two_phase \<Rightarrow> json \<times> two_phase" where
  "tp_timeout p s =
     (if \<not> tp_known s p then (not_a_participant p, s)
      else
        (case ps_decision (tp_pstate s p) of
           Some d \<Rightarrow> (commit_verdict (JStr d) False ''already decided'', s)
         | None \<Rightarrow>
             if tp_pstate s p = PS_Prepared
             then (commit_verdict JNull True ''prepared, waiting for the coordinator'', s)
             else (commit_verdict (JStr ''abort'') False ''has not voted'', tp_give_up p s)))"

definition tp_peers :: "two_phase \<Rightarrow> string \<Rightarrow> string list" where
  "tp_peers s p = filter (\<lambda>x. x \<noteq> p) (tp_participants s)"

fun first_decision :: "two_phase \<Rightarrow> string list \<Rightarrow> string option" where
  "first_decision s [] = None"
| "first_decision s (q # qs) =
     (case ps_decision (tp_pstate s q) of Some d \<Rightarrow> Some d | None \<Rightarrow> first_decision s qs)"

definition tp_consult :: "string \<Rightarrow> two_phase \<Rightarrow> json \<times> two_phase" where
  "tp_consult p s =
     (if \<not> tp_known s p then (not_a_participant p, s)
      else
        (case ps_decision (tp_pstate s p) of
           Some d \<Rightarrow> (commit_verdict (JStr d) False ''already decided'', s)
         | None \<Rightarrow>
             if tp_pstate s p = PS_Working
             then (commit_verdict (JStr ''abort'') False ''has not voted'', tp_give_up p s)
             else
               (case first_decision s (tp_peers s p) of
                  Some d \<Rightarrow> (commit_verdict (JStr d) False ''a peer already decided'', tp_settle p d s)
                | None \<Rightarrow>
                    if list_ex (\<lambda>x. tp_pstate s x = PS_Working) (tp_peers s p)
                    then (commit_verdict (JStr ''abort'') False ''a peer never voted'', tp_set_pstate p PS_Aborted s)
                    else (commit_verdict JNull True ''every peer is prepared'', s))))"

definition tp_crash :: "string \<Rightarrow> two_phase \<Rightarrow> json \<times> two_phase" where
  "tp_crash what s =
     (if what \<noteq> ''coordinator''
      then (reply_err (''only the coordinator can crash, not '' @ debug_str what), s)
      else (JObj [(''ok'', JBool True), (''coordinator'', JStr ''crashed'')], s\<lparr>tp_up := False\<rparr>))"

definition two_phase_step :: "json_parser \<Rightarrow> (json \<Rightarrow> string) \<Rightarrow> two_phase \<Rightarrow> string \<Rightarrow> string list \<Rightarrow> json \<times> two_phase" where
  "two_phase_step parse show s command args =
     (if command = ''init'' then with_arg (word_list_arg parse show args 0) tp_init s
      else if command = ''prepare'' then tp_prepare s
      else if command = ''vote'' then with_arg (word_arg args 0) (\<lambda>p. tp_vote p args s) s
      else if command = ''decide'' then tp_decide s
      else if command = ''deliver'' then with_arg (word_arg args 0) (\<lambda>p. tp_deliver p s) s
      else if command = ''p-state'' then with_arg (word_arg args 0) (\<lambda>p. tp_p_state p s) s
      else if command = ''p-timeout'' then with_arg (word_arg args 0) (\<lambda>p. tp_timeout p s) s
      else if command = ''p-consult'' then with_arg (word_arg args 0) (\<lambda>p. tp_consult p s) s
      else if command = ''crash'' then with_arg (word_arg args 0) (\<lambda>w. tp_crash w s) s
      else if command = ''state'' then (tp_state_value s, s)
      else (unknown_command command, s))"

section \<open>Three-phase commit\<close>

record three_phase =
  th_participants :: "string list"
  th_state :: string
  th_decision :: "string option"
  th_votes :: "(string \<times> string) list"
  th_pstates :: "(string \<times> pstate) list"
  th_acks :: "string list"
  th_up :: bool
  th_broadcast :: bool
  th_cut_off :: "string list"
  th_split :: bool

definition th_default :: three_phase where
  "th_default =
     \<lparr>th_participants = [], th_state = ''init'', th_decision = None, th_votes = [], th_pstates = [], th_acks = [],
      th_up = True, th_broadcast = False, th_cut_off = [], th_split = False\<rparr>"

definition th_known :: "three_phase \<Rightarrow> string \<Rightarrow> bool" where
  "th_known s p \<longleftrightarrow> p \<in> set (th_participants s)"

definition th_pstate :: "three_phase \<Rightarrow> string \<Rightarrow> pstate" where
  "th_pstate s p = (case map_of (th_pstates s) p of Some st \<Rightarrow> st | None \<Rightarrow> PS_Working)"

definition th_reachable :: "three_phase \<Rightarrow> string \<Rightarrow> bool" where
  "th_reachable s p \<longleftrightarrow> \<not> th_split s \<or> p \<notin> set (th_cut_off s)"

definition th_majority :: "three_phase \<Rightarrow> nat" where
  "th_majority s = length (th_participants s) div 2 + 1"

definition th_all_yes :: "three_phase \<Rightarrow> bool" where
  "th_all_yes s \<longleftrightarrow>
     th_participants s \<noteq> [] \<and> length (th_votes s) = length (th_participants s) \<and>
     list_all (\<lambda>(_, v). v = ''yes'') (th_votes s)"

definition th_set_pstate :: "string \<Rightarrow> pstate \<Rightarrow> three_phase \<Rightarrow> three_phase" where
  "th_set_pstate p st s = s\<lparr>th_pstates := btree_insert p st (th_pstates s)\<rparr>"

definition th_settle :: "string \<Rightarrow> string \<Rightarrow> three_phase \<Rightarrow> three_phase" where
  "th_settle p d s = (if ps_decision (th_pstate s p) \<noteq> None then s else th_set_pstate p (settled_as d) s)"

definition th_decision_json :: "three_phase \<Rightarrow> json" where
  "th_decision_json s = json_opt JStr (th_decision s)"

subsection \<open>The commands\<close>

definition th_init :: "string list \<Rightarrow> json \<times> three_phase" where
  "th_init names =
     (let s = foldl (\<lambda>s p. th_set_pstate p PS_Working s) (th_default\<lparr>th_participants := names\<rparr>) names
      in (JObj [(''state'', JStr (th_state s)), (''participants'', JArr (map JStr names))], s))"

definition th_cast :: "string \<Rightarrow> bool \<Rightarrow> three_phase \<Rightarrow> three_phase" where
  "th_cast p yes s =
     (case map_of (th_votes s) p of
        Some _ \<Rightarrow> s
      | None \<Rightarrow>
          (let s1 = th_set_pstate p (if yes then PS_Prepared else PS_Aborted)
                 (s\<lparr>th_votes := btree_insert p (yes_no yes) (th_votes s)\<rparr>);
               s2 = (if th_state s1 = ''init'' then s1\<lparr>th_state := ''voting''\<rparr> else s1)
           in if \<not> yes \<and> th_decision s2 = None
              then s2\<lparr>th_decision := Some ''abort'', th_state := ''aborted'', th_broadcast := True\<rparr>
              else s2))"

definition th_vote :: "string \<Rightarrow> string list \<Rightarrow> three_phase \<Rightarrow> json \<times> three_phase" where
  "th_vote p args s =
     (if \<not> th_known s p then (not_a_participant p, s)
      else
        with_arg (flag_arg args 1 ''yes'' ''no'') (\<lambda>yes.
          let s = th_cast p yes s
          in (JObj [(''state'', JStr (th_state s)), (''votes'', count_json (length (th_votes s))),
                    (''decision'', th_decision_json s)], s)) s)"

definition th_refused :: "string \<Rightarrow> string \<Rightarrow> json" where
  "th_refused state e =
     JObj [(''ok'', JBool False), (''state'', JStr state), (''sent'', JInt 0), (''error'', JStr e)]"

definition th_pre_commit :: "three_phase \<Rightarrow> json \<times> three_phase" where
  "th_pre_commit s =
     (if \<not> th_up s then (th_refused (th_state s) ''the coordinator has crashed'', s)
      else if \<not> th_all_yes s then (th_refused (th_state s) ''not every participant has voted yes'', s)
      else
        (let s = s\<lparr>th_state := ''pre-committed''\<rparr>;
             sent = length (filter (th_reachable s) (th_participants s))
         in (JObj [(''ok'', JBool True), (''state'', JStr ''pre-committed''), (''sent'', count_json sent),
                   (''error'', JNull)], s)))"

definition th_p_precommit :: "string \<Rightarrow> three_phase \<Rightarrow> json \<times> three_phase" where
  "th_p_precommit p s =
     (if \<not> th_known s p then (not_a_participant p, s)
      else
        (let s = (if th_state s = ''pre-committed'' \<and> th_reachable s p \<and> th_pstate s p = PS_Prepared
                  then th_set_pstate p PS_PreCommitted s else s)
         in (JObj [(''state'', JStr (ps_text (th_pstate s p)))], s)))"

definition th_ack :: "string \<Rightarrow> three_phase \<Rightarrow> json \<times> three_phase" where
  "th_ack p s =
     (if \<not> th_known s p then (not_a_participant p, s)
      else
        (let s = (if th_pstate s p = PS_PreCommitted \<and> th_reachable s p
                  then s\<lparr>th_acks := bset_insert p (th_acks s)\<rparr> else s)
         in (JObj [(''acks'', count_json (length (th_acks s)))], s)))"

definition th_commit_refused :: "string \<Rightarrow> json" where
  "th_commit_refused e = JObj [(''ok'', JBool False), (''decision'', JNull), (''error'', JStr e)]"

definition th_commit :: "three_phase \<Rightarrow> json \<times> three_phase" where
  "th_commit s =
     (if \<not> th_up s then (th_commit_refused ''the coordinator has crashed'', s)
      else if th_state s \<noteq> ''pre-committed'' then (th_commit_refused ''no pre-commit round has finished'', s)
      else if length (th_acks s) < th_majority s
      then (th_commit_refused ''fewer than a majority have acknowledged the pre-commit'', s)
      else
        (JObj [(''ok'', JBool True), (''decision'', JStr ''commit''), (''error'', JNull)],
         s\<lparr>th_decision := Some ''commit'', th_state := ''committed'', th_broadcast := True\<rparr>))"

definition th_deliver :: "string \<Rightarrow> three_phase \<Rightarrow> json \<times> three_phase" where
  "th_deliver p s =
     (if \<not> th_known s p then (not_a_participant p, s)
      else
        (let s = (if th_broadcast s \<and> th_reachable s p
                  then (case th_decision s of Some d \<Rightarrow> th_settle p d s | None \<Rightarrow> s) else s)
         in (JObj [(''state'', JStr (ps_text (th_pstate s p)))], s)))"

definition th_p_state :: "string \<Rightarrow> three_phase \<Rightarrow> json \<times> three_phase" where
  "th_p_state p s =
     (if \<not> th_known s p then (not_a_participant p, s)
      else (JObj [(''state'', JStr (ps_text (th_pstate s p)))], s))"

definition th_vote_default :: "string \<Rightarrow> three_phase \<Rightarrow> three_phase" where
  "th_vote_default p s =
     (case map_of (th_votes s) p of Some _ \<Rightarrow> s | None \<Rightarrow> s\<lparr>th_votes := btree_insert p ''no'' (th_votes s)\<rparr>)"

definition th_timeout :: "string \<Rightarrow> three_phase \<Rightarrow> json \<times> three_phase" where
  "th_timeout p s =
     (if \<not> th_known s p then (not_a_participant p, s)
      else
        (case ps_decision (th_pstate s p) of
           Some d \<Rightarrow> (commit_verdict (JStr d) False ''already decided'', s)
         | None \<Rightarrow>
             (case th_pstate s p of
                PS_PreCommitted \<Rightarrow>
                  (commit_verdict (JStr ''commit'') False ''pre-commit received, every participant voted yes'',
                   th_set_pstate p PS_Committed s)
              | PS_Prepared \<Rightarrow>
                  (commit_verdict (JStr ''abort'') False ''no pre-commit received'', th_set_pstate p PS_Aborted s)
              | _ \<Rightarrow>
                  (commit_verdict (JStr ''abort'') False ''has not voted'',
                   th_vote_default p (th_set_pstate p PS_Aborted s)))))"

definition th_crash :: "string \<Rightarrow> three_phase \<Rightarrow> json \<times> three_phase" where
  "th_crash what s =
     (if what \<noteq> ''coordinator''
      then (reply_err (''only the coordinator can crash, not '' @ debug_str what), s)
      else (JObj [(''ok'', JBool True), (''coordinator'', JStr ''crashed'')], s\<lparr>th_up := False\<rparr>))"

definition th_partition :: "string list \<Rightarrow> three_phase \<Rightarrow> json \<times> three_phase" where
  "th_partition names s =
     (case find_first (\<lambda>p. \<not> th_known s p) names of
        Some p \<Rightarrow> (not_a_participant p, s)
      | None \<Rightarrow>
          (let s = s\<lparr>th_cut_off := foldl (\<lambda>c p. bset_insert p c) [] names, th_split := True\<rparr>;
               rest = filter (\<lambda>p. p \<notin> set (th_cut_off s)) (th_participants s)
           in (JObj [(''split'', JBool True), (''groups'', JArr [JArr (map JStr names), JArr (map JStr rest)])], s)))"

definition th_heal :: "three_phase \<Rightarrow> json \<times> three_phase" where
  "th_heal s = (JObj [(''split'', JBool False), (''groups'', JArr [])], s\<lparr>th_split := False, th_cut_off := []\<rparr>)"

definition th_decisions :: "three_phase \<Rightarrow> json" where
  "th_decisions s =
     JObj [(''decisions'', JObj (foldl (\<lambda>m p. btree_insert p (json_opt JStr (ps_decision (th_pstate s p))) m) [] (th_participants s))),
           (''inconsistent'', JBool (list_ex (\<lambda>p. th_pstate s p = PS_Committed) (th_participants s) \<and>
              list_ex (\<lambda>p. th_pstate s p = PS_Aborted) (th_participants s)))]"

definition three_phase_step :: "json_parser \<Rightarrow> (json \<Rightarrow> string) \<Rightarrow> three_phase \<Rightarrow> string \<Rightarrow> string list \<Rightarrow> json \<times> three_phase" where
  "three_phase_step parse show s command args =
     (if command = ''init'' then with_arg (word_list_arg parse show args 0) th_init s
      else if command = ''vote'' then with_arg (word_arg args 0) (\<lambda>p. th_vote p args s) s
      else if command = ''pre-commit'' then th_pre_commit s
      else if command = ''p-precommit'' then with_arg (word_arg args 0) (\<lambda>p. th_p_precommit p s) s
      else if command = ''ack'' then with_arg (word_arg args 0) (\<lambda>p. th_ack p s) s
      else if command = ''commit'' then th_commit s
      else if command = ''deliver'' then with_arg (word_arg args 0) (\<lambda>p. th_deliver p s) s
      else if command = ''p-state'' then with_arg (word_arg args 0) (\<lambda>p. th_p_state p s) s
      else if command = ''p-timeout'' then with_arg (word_arg args 0) (\<lambda>p. th_timeout p s) s
      else if command = ''crash'' then with_arg (word_arg args 0) (\<lambda>w. th_crash w s) s
      else if command = ''partition'' then with_arg (word_list_arg parse show args 0) (\<lambda>ns. th_partition ns s) s
      else if command = ''heal'' then th_heal s
      else if command = ''decisions'' then (th_decisions s, s)
      else (unknown_command command, s))"

section \<open>The log of one participant\<close>

record recovery =
  rv_participant :: string
  rv_log :: "string list"
  rv_applied :: "string list"
  rv_states :: "(string \<times> string) list"
  rv_crashed :: bool

definition rv_default :: recovery where
  "rv_default = \<lparr>rv_participant = [], rv_log = [], rv_applied = [], rv_states = [], rv_crashed = False\<rparr>"

definition record_of :: "string \<Rightarrow> string \<Rightarrow> string" where
  "record_of kind tx = kind @ '':'' @ tx"

definition rv_logged :: "recovery \<Rightarrow> string \<Rightarrow> string \<Rightarrow> bool" where
  "rv_logged s kind tx \<longleftrightarrow> record_of kind tx \<in> set (rv_log s)"

text \<open>\<open>split_once(':')\<close>: what follows the first colon.\<close>

definition after_colon :: "string \<Rightarrow> string option" where
  "after_colon r = (case dropWhile (\<lambda>c. c \<noteq> CHR '':'') r of [] \<Rightarrow> None | _ # t \<Rightarrow> Some t)"

definition rv_transactions :: "recovery \<Rightarrow> string list" where
  "rv_transactions s =
     foldl (\<lambda>out r. case after_colon r of
              Some tx \<Rightarrow> if tx \<in> set out then out else out @ [tx] | None \<Rightarrow> out) [] (rv_log s)"

definition rv_state_from_log :: "recovery \<Rightarrow> string \<Rightarrow> string \<times> string" where
  "rv_state_from_log s tx =
     (if rv_logged s ''commit'' tx
      then (if tx \<in> set (rv_applied s) then (''committed'', ''none'') else (''committed'', ''redo''))
      else if rv_logged s ''abort'' tx then (''aborted'', ''none'')
      else if rv_logged s ''prepared'' tx then (''prepared'', ''ask-coordinator'')
      else (''aborted'', ''abort''))"

definition rv_note :: "string \<Rightarrow> string \<Rightarrow> string \<Rightarrow> recovery \<Rightarrow> recovery" where
  "rv_note kind tx state s =
     s\<lparr>rv_log := rv_log s @ [record_of kind tx], rv_states := btree_insert tx state (rv_states s)\<rparr>"

definition rv_begin :: "string \<Rightarrow> recovery \<Rightarrow> json \<times> recovery" where
  "rv_begin tx s = (JObj [(''state'', JStr ''working'')], rv_note ''begin'' tx ''working'' s)"

definition rv_prepare :: "string \<Rightarrow> bool \<Rightarrow> recovery \<Rightarrow> json \<times> recovery" where
  "rv_prepare tx yes s =
     (if yes
      then (JObj [(''vote'', JStr ''yes''), (''logged'', JStr ''prepared''), (''state'', JStr ''prepared'')],
            rv_note ''prepared'' tx ''prepared'' s)
      else (JObj [(''vote'', JStr ''no''), (''logged'', JStr ''abort''), (''state'', JStr ''aborted'')],
            rv_note ''abort'' tx ''aborted'' s))"

definition decided_record :: "bool \<Rightarrow> string \<times> string" where
  "decided_record commit = (if commit then (''commit'', ''committed'') else (''abort'', ''aborted''))"

definition rv_decide :: "string \<Rightarrow> bool \<Rightarrow> recovery \<Rightarrow> json \<times> recovery" where
  "rv_decide tx commit s =
     (let (rec, state) = decided_record commit
      in (JObj [(''state'', JStr state), (''logged'', JStr rec)], rv_note rec tx state s))"

definition rv_apply :: "string \<Rightarrow> recovery \<Rightarrow> json \<times> recovery" where
  "rv_apply tx s = (JObj [(''applied'', JBool True)], s\<lparr>rv_applied := bset_insert tx (rv_applied s)\<rparr>)"

definition rv_crash :: "recovery \<Rightarrow> json \<times> recovery" where
  "rv_crash s =
     (JObj [(''ok'', JBool True), (''lost'', JStr ''volatile state'')], s\<lparr>rv_states := [], rv_crashed := True\<rparr>)"

definition rv_recover :: "recovery \<Rightarrow> json \<times> recovery" where
  "rv_recover s =
     (let txs = rv_transactions s;
          found = map (\<lambda>tx. (tx, rv_state_from_log s tx)) txs;
          s' = s\<lparr>rv_crashed := False, rv_states := foldl (\<lambda>m (tx, st, _). btree_insert tx st m) [] found\<rparr>
      in (JObj [(''pending'', JArr (map (JStr \<circ> fst) (filter (\<lambda>(_, st, _). st = ''prepared'') found))),
                (''decided'', JArr (map (JStr \<circ> fst) (filter (\<lambda>(_, st, _). st \<noteq> ''prepared'') found))),
                (''actions'', JObj (foldl (\<lambda>m (tx, _, a). btree_insert tx (JStr a) m) [] found))], s'))"

definition rv_outcome :: "string \<Rightarrow> recovery \<Rightarrow> json" where
  "rv_outcome tx s =
     JObj [(''state'', JStr (if rv_crashed s then ''unknown''
               else (case map_of (rv_states s) tx of Some st \<Rightarrow> st | None \<Rightarrow> ''unknown''))),
           (''applied'', JBool (tx \<in> set (rv_applied s)))]"

definition rv_coordinator_says :: "string \<Rightarrow> bool \<Rightarrow> recovery \<Rightarrow> json \<times> recovery" where
  "rv_coordinator_says tx commit s =
     (let (rec, state) = decided_record commit;
          s = rv_note rec tx state s;
          s = (if commit then s\<lparr>rv_applied := bset_insert tx (rv_applied s)\<rparr> else s)
      in (JObj [(''state'', JStr state), (''applied'', JBool (tx \<in> set (rv_applied s)))], s))"

definition recovery_step :: "recovery \<Rightarrow> string \<Rightarrow> string list \<Rightarrow> json \<times> recovery" where
  "recovery_step s command args =
     (if command = ''init''
      then with_arg (word_arg args 0) (\<lambda>name.
             (JObj [(''ok'', JBool True), (''log'', JArr [])], rv_default\<lparr>rv_participant := name\<rparr>)) s
      else if command = ''begin'' then with_arg (word_arg args 0) (\<lambda>tx. rv_begin tx s) s
      else if command = ''prepare''
      then with_arg (word_arg args 0) (\<lambda>tx. with_arg (flag_arg args 1 ''yes'' ''no'') (\<lambda>yes. rv_prepare tx yes s) s) s
      else if command = ''vote-sent'' then with_arg (word_arg args 0) (\<lambda>_. (JObj [(''ok'', JBool True)], s)) s
      else if command = ''decide''
      then with_arg (word_arg args 0) (\<lambda>tx. with_arg (flag_arg args 1 ''commit'' ''abort'') (\<lambda>c. rv_decide tx c s) s) s
      else if command = ''apply'' then with_arg (word_arg args 0) (\<lambda>tx. rv_apply tx s) s
      else if command = ''crash'' then rv_crash s
      else if command = ''recover'' then rv_recover s
      else if command = ''outcome'' then with_arg (word_arg args 0) (\<lambda>tx. (rv_outcome tx s, s)) s
      else if command = ''coordinator-says''
      then with_arg (word_arg args 0) (\<lambda>tx. with_arg (flag_arg args 1 ''commit'' ''abort'') (\<lambda>c. rv_coordinator_says tx c s) s) s
      else if command = ''log''
      then (JObj [(''records'', JArr (map JStr (rv_log s))), (''participant'', JStr (rv_participant s))], s)
      else (unknown_command command, s))"

end
