(* ===== verification/Dist_Atomic.thy ===== *)
theory Dist_Atomic
  imports Dist_Commit
begin

text \<open>
  What atomic commit promises: no two participants of a transaction end on different decisions, a
  commit has every vote behind it, and what the write-ahead log says survives every crash.
\<close>

section \<open>Two-phase commit\<close>

lemma tp_pstate_set [simp]: "tp_pstate (tp_set_pstate p st s) = (tp_pstate s)(p := st)"
  by (rule ext) (simp add: tp_pstate_def tp_set_pstate_def)

lemma tp_set_pstate_fields [simp]:
  "tp_participants (tp_set_pstate p st s) = tp_participants s"
  "tp_decision (tp_set_pstate p st s) = tp_decision s"
  "tp_votes (tp_set_pstate p st s) = tp_votes s"
  "tp_up (tp_set_pstate p st s) = tp_up s"
  "tp_broadcast (tp_set_pstate p st s) = tp_broadcast s"
  by (simp_all add: tp_set_pstate_def)

lemma tp_pstate_update [simp]:
  "tp_pstate (s\<lparr>tp_votes := v\<rparr>) = tp_pstate s"
  "tp_pstate (s\<lparr>tp_state := st\<rparr>) = tp_pstate s"
  "tp_pstate (s\<lparr>tp_decision := d\<rparr>) = tp_pstate s"
  "tp_pstate (s\<lparr>tp_up := u\<rparr>) = tp_pstate s"
  "tp_pstate (s\<lparr>tp_broadcast := b\<rparr>) = tp_pstate s"
  by (rule ext, simp add: tp_pstate_def)+

text \<open>Every participant has voted yes.\<close>

definition tp_all_yes :: "two_phase \<Rightarrow> bool" where
  "tp_all_yes s \<longleftrightarrow> (\<forall>p \<in> set (tp_participants s). map_of (tp_votes s) p = Some ''yes'')"

text \<open>A participant may have aborted only where no commit can ever be delivered.\<close>

definition tp_no_commit :: "two_phase \<Rightarrow> bool" where
  "tp_no_commit s \<longleftrightarrow>
     (\<exists>p. map_of (tp_votes s) p = Some ''no'') \<or> tp_decision s = Some ''abort'' \<or> (\<not> tp_up s \<and> \<not> tp_broadcast s)"

definition tp_votes_ok :: "two_phase \<Rightarrow> bool" where
  "tp_votes_ok s \<longleftrightarrow>
     btree_ok (tp_votes s) \<and> fst ` set (tp_votes s) \<subseteq> set (tp_participants s) \<and>
     snd ` set (tp_votes s) \<subseteq> {''yes'', ''no''} \<and>
     (\<forall>p. tp_pstate s p = PS_Working \<longrightarrow> map_of (tp_votes s) p = None) \<and>
     (\<forall>p. tp_pstate s p \<noteq> PS_PreCommitted)"

definition tp_decided_ok :: "two_phase \<Rightarrow> bool" where
  "tp_decided_ok s \<longleftrightarrow>
     tp_decision s \<in> {None, Some ''commit'', Some ''abort''} \<and>
     (tp_decision s = Some ''commit'' \<longrightarrow> tp_all_yes s) \<and>
     (tp_broadcast s \<longrightarrow> tp_decision s \<noteq> None)"

definition tp_settled_ok :: "two_phase \<Rightarrow> bool" where
  "tp_settled_ok s \<longleftrightarrow>
     (\<forall>p. tp_pstate s p = PS_Committed \<longrightarrow> tp_broadcast s \<and> tp_decision s = Some ''commit'') \<and>
     (\<forall>p. tp_pstate s p = PS_Aborted \<longrightarrow> tp_no_commit s)"

definition tp_inv :: "two_phase \<Rightarrow> bool" where
  "tp_inv s \<longleftrightarrow> tp_votes_ok s \<and> tp_decided_ok s \<and> tp_settled_ok s"

lemmas tp_inv_defs =
  tp_inv_def tp_votes_ok_def tp_decided_ok_def tp_settled_ok_def tp_no_commit_def tp_all_yes_def

text \<open>As many votes as participants is a vote from each.\<close>

lemma full_votes:
  assumes "btree_ok m" "fst ` set m \<subseteq> set ps" "length m = length ps"
  shows "fst ` set m = set ps"
proof -
  have "card (fst ` set m) = length ps" using length_btree [OF assms(1)] assms(3) by simp
  moreover have "card (set ps) \<le> length ps" by (rule card_length)
  ultimately show ?thesis using card_subset_eq [OF finite_set assms(2)] card_mono [OF finite_set assms(2)]
    by auto
qed

lemma not_in_list_ex: "\<not> list_ex (\<lambda>(_, v). v = w) m \<longleftrightarrow> w \<notin> snd ` set m"
  by (auto simp: list_ex_iff image_iff)

lemma map_of_keys: "k \<in> fst ` set m \<longleftrightarrow> (\<exists>v. map_of m k = Some v \<and> v \<in> snd ` set m)"
  by (metis image_eqI map_of_SomeD map_of_eq_None_iff not_Some_eq snd_conv)

lemma btree_insert_vote_snd:
  "snd ` set m \<subseteq> A \<Longrightarrow> v \<in> A \<Longrightarrow> snd ` set (btree_insert k v m) \<subseteq> A"
  using snd_btree_insert [of k v m] by blast

lemma tp_reconsider_keeps:
  assumes "tp_votes_ok s" "tp_decided_ok s" "tp_settled_ok s"
  shows "tp_inv (tp_reconsider s)"
proof (cases "tp_decision s")
  case (Some d)
  then show ?thesis using assms by (simp add: tp_reconsider_def tp_inv_def)
next
  case None
  then have nb: "\<not> tp_broadcast s" using assms by (auto simp: tp_decided_ok_def)
  have nc: "tp_pstate s p \<noteq> PS_Committed" for p using assms(3) None by (auto simp: tp_settled_ok_def)
  show ?thesis
  proof (cases "list_ex (\<lambda>(_, v). v = ''no'') (tp_votes s)")
    case True
    then show ?thesis using None assms nb nc by (simp add: tp_reconsider_def tp_inv_defs)
  next
    case False
    then have no: "''no'' \<notin> snd ` set (tp_votes s)" unfolding not_in_list_ex .
    have yes: "v = ''yes''" if "map_of (tp_votes s) p = Some v" for p v
    proof -
      have v: "v \<in> snd ` set (tp_votes s)" using map_of_SomeD [OF that] by force
      moreover have "snd ` set (tp_votes s) \<subseteq> {''yes'', ''no''}" using assms(1) by (simp add: tp_votes_ok_def)
      ultimately have "v \<in> {''yes'', ''no''}" by (rule rev_subsetD)
      moreover have "v \<noteq> ''no''" using v no by metis
      ultimately show ?thesis by simp
    qed
    show ?thesis
    proof (cases "tp_participants s \<noteq> [] \<and> length (tp_votes s) = length (tp_participants s)")
      case full: True
      have "fst ` set (tp_votes s) = set (tp_participants s)"
        using full assms(1) by (intro full_votes) (simp_all add: tp_votes_ok_def)
      then have "map_of (tp_votes s) p = Some ''yes''" if "p \<in> set (tp_participants s)" for p
        using that yes map_of_keys [of p "tp_votes s"] by auto
      then show ?thesis using None False full assms nb nc
        by (simp add: tp_reconsider_def tp_inv_defs)
    next
      case notfull: False
      have "tp_reconsider s = s" unfolding tp_reconsider_def using None False notfull by argo
      then show ?thesis using assms by (simp add: tp_inv_def)
    qed
  qed
qed

lemma tp_reconsider_participants [simp]: "tp_participants (tp_reconsider s) = tp_participants s"
  by (simp add: tp_reconsider_def)

lemma tp_all_yes_no_vote:
  "tp_all_yes s \<Longrightarrow> tp_votes_ok s \<Longrightarrow> map_of (tp_votes s) p \<noteq> Some ''no''"
proof
  assume a: "tp_all_yes s" "tp_votes_ok s" "map_of (tp_votes s) p = Some ''no''"
  then have "p \<in> set (tp_participants s)" using map_of_SomeD [of "tp_votes s" p] by (force simp: tp_votes_ok_def)
  then show False using a by (simp add: tp_all_yes_def)
qed

lemma tp_cast_keeps:
  assumes inv: "tp_inv s" and p: "tp_known s p"
  shows "tp_inv (tp_cast p yes s)"
proof (cases "map_of (tp_votes s) p")
  case (Some v)
  then show ?thesis using inv by (simp add: tp_cast_def)
next
  case None
  let ?t = "tp_set_pstate p (if yes then PS_Prepared else PS_Aborted) (s\<lparr>tp_votes := btree_insert p (yes_no yes) (tp_votes s)\<rparr>)"
  have "p \<in> set (tp_participants s)" using p by (simp add: tp_known_def)
  then have nc: "tp_decision s \<noteq> Some ''commit''"
    using inv None by (auto simp: tp_inv_defs)
  have "tp_votes_ok ?t" using inv p btree_insert_vote_snd [of "tp_votes s" "{''yes'', ''no''}"]
    by (auto simp: tp_inv_defs tp_known_def yes_no_def)
  moreover have "tp_decided_ok ?t" using inv nc by (simp add: tp_inv_defs)
  moreover have "tp_settled_ok ?t" using inv nc None
    by (simp add: tp_settled_ok_def tp_inv_def tp_no_commit_def yes_no_def) (metis not_None_eq option.distinct(1))
  ultimately show ?thesis using None tp_reconsider_keeps by (simp add: tp_cast_def)
qed

lemma tp_give_up_keeps:
  assumes inv: "tp_inv s" and p: "tp_known s p" "tp_pstate s p = PS_Working"
  shows "tp_inv (tp_give_up p s)"
proof -
  have none: "map_of (tp_votes s) p = None" using inv p(2) by (auto simp: tp_inv_defs)
  let ?t = "(tp_set_pstate p PS_Aborted s)\<lparr>tp_votes := btree_insert p ''no'' (tp_votes s)\<rparr>"
  have nc: "tp_decision s \<noteq> Some ''commit''" using inv none p by (auto simp: tp_inv_defs tp_known_def)
  have "tp_votes_ok ?t" using inv p btree_insert_vote_snd [of "tp_votes s" "{''yes'', ''no''}" "''no''" p]
    by (auto simp: tp_inv_defs tp_known_def)
  moreover have "tp_decided_ok ?t" using inv nc by (simp add: tp_inv_defs)
  moreover have "tp_settled_ok ?t" using inv nc
    by (simp add: tp_settled_ok_def tp_inv_def tp_no_commit_def) (metis)
  ultimately show ?thesis using none tp_reconsider_keeps
    by (simp add: tp_give_up_def tp_vote_default_def)
qed

lemma tp_set_pstate_keeps:
  assumes "tp_inv s" "st = PS_Aborted \<and> tp_no_commit s \<or>
      st = PS_Committed \<and> tp_broadcast s \<and> tp_decision s = Some ''commit''"
  shows "tp_inv (tp_set_pstate p st s)"
proof -
  have "tp_votes_ok (tp_set_pstate p st s)" using assms by (auto simp: tp_inv_def tp_votes_ok_def)
  moreover have "tp_decided_ok (tp_set_pstate p st s)"
    using assms by (simp add: tp_inv_def tp_decided_ok_def tp_all_yes_def)
  moreover have "tp_settled_ok (tp_set_pstate p st s)"
    using assms by (auto simp: tp_inv_def tp_settled_ok_def tp_no_commit_def)
  ultimately show ?thesis by (simp add: tp_inv_def)
qed

text \<open>Where a commit was broadcast no participant may abort.\<close>

lemma tp_commit_excludes:
  "tp_inv s \<Longrightarrow> tp_broadcast s \<Longrightarrow> tp_decision s = Some ''commit'' \<Longrightarrow> \<not> tp_no_commit s"
  using tp_all_yes_no_vote by (auto simp: tp_inv_def tp_no_commit_def tp_decided_ok_def)

lemma tp_settle_keeps:
  assumes inv: "tp_inv s"
    and d: "d = ''commit'' \<and> tp_broadcast s \<and> tp_decision s = Some ''commit'' \<or> d = ''abort'' \<and> tp_no_commit s"
  shows "tp_inv (tp_settle p d s)"
proof (cases "ps_decision (tp_pstate s p)")
  case None
  then show ?thesis using d inv tp_set_pstate_keeps by (auto simp: tp_settle_def settled_as_def)
qed (simp add: tp_settle_def inv)

lemma first_decision_peer:
  "first_decision s qs = Some d \<Longrightarrow> \<exists>q \<in> set qs. ps_decision (tp_pstate s q) = Some d"
  by (induction qs) (auto split: option.splits)

lemma ps_decision_Some:
  "ps_decision st = Some d \<longleftrightarrow> st = PS_Committed \<and> d = ''commit'' \<or> st = PS_Aborted \<and> d = ''abort''"
  by (cases st) auto

lemma tp_consult_keeps:
  assumes inv: "tp_inv s" and down: "\<not> tp_up s"
  shows "tp_inv (snd (tp_consult p s))"
proof -
  consider "\<not> tp_known s p" | d where "ps_decision (tp_pstate s p) = Some d"
    | "tp_known s p" "tp_pstate s p = PS_Working"
    | d where "tp_known s p" "ps_decision (tp_pstate s p) = None" "tp_pstate s p \<noteq> PS_Working"
        "first_decision s (tp_peers s p) = Some d"
    | q where "tp_known s p" "ps_decision (tp_pstate s p) = None" "tp_pstate s p \<noteq> PS_Working"
        "first_decision s (tp_peers s p) = None" "q \<in> set (tp_peers s p)" "tp_pstate s q = PS_Working"
    | "tp_known s p" "ps_decision (tp_pstate s p) = None" "tp_pstate s p \<noteq> PS_Working"
        "first_decision s (tp_peers s p) = None" "\<not> list_ex (\<lambda>x. tp_pstate s x = PS_Working) (tp_peers s p)"
    by (cases "ps_decision (tp_pstate s p)"; cases "first_decision s (tp_peers s p)") (auto simp: list_ex_iff)
  then show ?thesis
  proof cases
    case 1 then show ?thesis using inv by (simp add: tp_consult_def)
  next
    case 2 then show ?thesis using inv by (simp add: tp_consult_def)
  next
    case 3 then show ?thesis using inv tp_give_up_keeps by (simp add: tp_consult_def)
  next
    case 4
    obtain q where "ps_decision (tp_pstate s q) = Some d" using first_decision_peer [OF 4(4)] by blast
    then have "tp_inv (tp_settle p d s)"
      using inv by (intro tp_settle_keeps) (auto simp: ps_decision_Some tp_inv_def tp_settled_ok_def)
    then show ?thesis using 4 by (simp add: tp_consult_def)
  next
    case 5
    have "q \<in> set (tp_participants s)" using 5 by (simp add: tp_peers_def)
    moreover have "map_of (tp_votes s) q = None" using inv 5 by (auto simp: tp_inv_def tp_votes_ok_def)
    ultimately have "tp_decision s \<noteq> Some ''commit''" using inv by (auto simp: tp_inv_defs)
    then have "tp_no_commit s" using inv down by (auto simp: tp_inv_def tp_decided_ok_def tp_no_commit_def)
    then have "tp_inv (tp_set_pstate p PS_Aborted s)" using inv 5 tp_set_pstate_keeps by blast
    moreover have "list_ex (\<lambda>x. tp_pstate s x = PS_Working) (tp_peers s p)" using 5 by (auto simp: list_ex_iff)
    ultimately show ?thesis using 5 by (simp add: tp_consult_def)
  next
    case 6 then show ?thesis using inv by (simp add: tp_consult_def)
  qed
qed

lemma tp_timeout_keeps:
  assumes "tp_inv s"
  shows "tp_inv (snd (tp_timeout p s))"
proof (cases "tp_pstate s p")
  case PS_Working
  then show ?thesis using assms tp_give_up_keeps by (simp add: tp_timeout_def)
qed (use assms in \<open>simp_all add: tp_timeout_def tp_inv_def tp_votes_ok_def\<close>)

text \<open>\<open>init\<close> starts a transaction from nothing.\<close>

lemma foldl_set_working:
  "tp_participants (foldl (\<lambda>s p. tp_set_pstate p PS_Working s) s ns) = tp_participants s"
  "tp_votes (foldl (\<lambda>s p. tp_set_pstate p PS_Working s) s ns) = tp_votes s"
  "tp_decision (foldl (\<lambda>s p. tp_set_pstate p PS_Working s) s ns) = tp_decision s"
  "tp_broadcast (foldl (\<lambda>s p. tp_set_pstate p PS_Working s) s ns) = tp_broadcast s"
  by (induction ns arbitrary: s) simp_all

lemma foldl_set_working_pstate:
  "tp_pstate s = (\<lambda>_. PS_Working) \<Longrightarrow>
   tp_pstate (foldl (\<lambda>s p. tp_set_pstate p PS_Working s) s ns) = (\<lambda>_. PS_Working)"
  by (induction ns arbitrary: s) (simp_all add: fun_eq_iff)

lemma tp_init_keeps: "tp_inv (snd (tp_init ns))"
proof -
  have "tp_pstate (tp_default\<lparr>tp_participants := ns\<rparr>) = (\<lambda>_. PS_Working)"
    by (rule ext) (simp add: tp_pstate_def tp_default_def)
  then show ?thesis
    by (simp add: tp_init_def Let_def tp_inv_defs foldl_set_working foldl_set_working_pstate)
       (simp add: tp_default_def)
qed

lemma tp_default_inv: "tp_inv tp_default"
proof -
  have "tp_pstate tp_default = (\<lambda>_. PS_Working)" by (rule ext) (simp add: tp_pstate_def tp_default_def)
  then show ?thesis by (simp add: tp_inv_defs) (simp add: tp_default_def)
qed

lemma tp_deliver_keeps:
  assumes inv: "tp_inv s"
  shows "tp_inv (snd (tp_deliver p s))"
proof (cases "tp_known s p \<and> tp_broadcast s")
  case True
  then obtain d where d: "tp_decision s = Some d" "d = ''commit'' \<or> d = ''abort''"
    using inv by (auto simp: tp_inv_def tp_decided_ok_def)
  then have "tp_inv (tp_settle p d s)" using inv True by (intro tp_settle_keeps) (auto simp: tp_no_commit_def)
  then show ?thesis using True d(1) by (simp add: tp_deliver_def Let_def)
qed (auto simp: tp_deliver_def Let_def inv)

lemma tp_crash_keeps: "tp_inv s \<Longrightarrow> tp_inv (snd (tp_crash w s))"
  by (auto simp: tp_crash_def tp_inv_defs)

lemma tp_decide_keeps: "tp_inv s \<Longrightarrow> tp_inv (snd (tp_decide s))"
  by (auto simp: tp_decide_def tp_inv_defs)

lemma tp_prepare_keeps: "tp_inv s \<Longrightarrow> tp_inv (snd (tp_prepare s))"
  by (auto simp: tp_prepare_def tp_inv_defs Let_def)

lemma tp_vote_keeps: "tp_inv s \<Longrightarrow> tp_inv (snd (tp_vote p args s))"
  by (cases "flag_arg args 1 ''yes'' ''no''") (auto simp: tp_vote_def Let_def tp_cast_keeps)

text \<open>A session in which nobody asks around while the coordinator is up.\<close>

definition consult_when_down :: "two_phase \<Rightarrow> string \<Rightarrow> string list \<Rightarrow> bool" where
  "consult_when_down s command args \<longleftrightarrow> command = ''p-consult'' \<longrightarrow> \<not> tp_up s"

lemma with_arg_keeps:
  "P s \<Longrightarrow> (\<And>v. r = Inr v \<Longrightarrow> P (snd (f v))) \<Longrightarrow> P (snd (with_arg r f s))"
  by (cases r) auto

lemma two_phase_step_keeps:
  assumes "tp_inv s" "consult_when_down s c args"
  shows "tp_inv (snd (two_phase_step parse render s c args))"
  using assms unfolding two_phase_step_def
  by (simp add: with_arg_keeps [where P = tp_inv] tp_init_keeps tp_prepare_keeps tp_vote_keeps tp_decide_keeps
      tp_deliver_keeps tp_timeout_keeps tp_consult_keeps tp_crash_keeps tp_p_state_def consult_when_down_def)

interpretation tp: topic_invariant "two_phase_step parse render" consult_when_down tp_inv
  by unfold_locales (rule two_phase_step_keeps)

text \<open>C28: two-phase commit is atomic. In every session of the topic in which nobody asks its peers while
  the coordinator is up, a participant that committed has every participant's yes behind it, and no
  participant of the transaction has aborted.\<close>
theorem two_phase_atomic:
  assumes "session_ok consult_when_down (two_phase_step parse render) cs tp_default"
    and "s = snd (topic_run (two_phase_step parse render) cs tp_default)"
    and "tp_pstate s p = PS_Committed"
  shows "(\<forall>q. tp_pstate s q \<noteq> PS_Aborted) \<and>
    list_all (\<lambda>q. map_of (tp_votes s) q = Some ''yes'') (tp_participants s)"
proof -
  have inv: "tp_inv s" unfolding assms(2) using tp.session_keeps [OF tp_default_inv assms(1)] .
  then have c: "tp_broadcast s" "tp_decision s = Some ''commit''"
    using assms(3) by (auto simp: tp_inv_def tp_settled_ok_def)
  then have "\<forall>q. tp_pstate s q \<noteq> PS_Aborted"
    using tp_commit_excludes [OF inv c] inv by (auto simp: tp_inv_def tp_settled_ok_def)
  then show ?thesis using c inv by (auto simp: tp_inv_def tp_decided_ok_def tp_all_yes_def list_all_iff)
qed

text \<open>A session that commits: both participants vote yes, the decision is sent, and reaches both.\<close>

definition commit_session :: "(string \<times> string list) list" where
  "commit_session =
     [(''vote'', [''a'', ''yes'']), (''vote'', [''b'', ''yes'']), (''decide'', []),
      (''deliver'', [''a'']), (''crash'', [''coordinator'']), (''p-consult'', [''b''])]"

definition ab_init :: "(string \<times> string list) list" where
  "ab_init = [(''init'', [''ab''])]"

text \<open>A parser that reads one fixed list of two names.\<close>

definition ab_parse :: json_parser where
  "ab_parse raw = (if raw = ''ab'' then Inr (JArr [JStr ''a'', JStr ''b'']) else Inl ''?'')"

theorem two_phase_atomic_witness:
  "(\<forall>q. tp_pstate (snd (topic_run (two_phase_step ab_parse (\<lambda>_. [])) (ab_init @ commit_session) tp_default)) q
      \<noteq> PS_Aborted) \<and>
   list_all (\<lambda>q. map_of (tp_votes (snd (topic_run (two_phase_step ab_parse (\<lambda>_. [])) (ab_init @ commit_session) tp_default))) q
      = Some ''yes'')
     (tp_participants (snd (topic_run (two_phase_step ab_parse (\<lambda>_. [])) (ab_init @ commit_session) tp_default)))"
  by (rule two_phase_atomic [where p = "''b''" and parse = ab_parse and render = "\<lambda>_. []" and cs = "ab_init @ commit_session"])
     (code_simp, rule refl, code_simp)

text \<open>
  Asking around while the coordinator still works breaks it: \<open>a\<close> has voted yes, sees that \<open>b\<close> has not
  voted, and aborts without telling the coordinator; then \<open>b\<close> votes yes, the coordinator decides to
  commit, and \<open>b\<close> commits.
\<close>

theorem consult_splits_decision:
  "let s = snd (topic_run (two_phase_step ab_parse (\<lambda>_. []))
       (ab_init @ [(''vote'', [''a'', ''yes'']), (''p-consult'', [''a'']), (''vote'', [''b'', ''yes'']),
         (''decide'', []), (''deliver'', [''b''])]) tp_default)
   in tp_pstate s ''a'' = PS_Aborted \<and> tp_pstate s ''b'' = PS_Committed"
  by code_simp

end
