(* ===== verification/Dist_Three.thy ===== *)
theory Dist_Three
  imports Dist_Atomic
begin

text \<open>
  Three-phase commit and the recovery log: a commit has every vote behind it in every session,
  partitions and timeouts included; nobody is ever left waiting; the two outcomes meet only where a
  prepared participant gave up on its own; and recovery reads back what the log says.
\<close>

section \<open>Three-phase commit\<close>

lemma th_pstate_set [simp]: "th_pstate (th_set_pstate p st s) = (th_pstate s)(p := st)"
  by (rule ext) (simp add: th_pstate_def th_set_pstate_def)

lemma th_set_pstate_fields [simp]:
  "th_participants (th_set_pstate p st s) = th_participants s"
  "th_state (th_set_pstate p st s) = th_state s"
  "th_decision (th_set_pstate p st s) = th_decision s"
  "th_votes (th_set_pstate p st s) = th_votes s"
  "th_broadcast (th_set_pstate p st s) = th_broadcast s"
  by (simp_all add: th_set_pstate_def)

lemma th_pstate_update [simp]:
  "th_pstate (s\<lparr>th_votes := v\<rparr>) = th_pstate s"
  "th_pstate (s\<lparr>th_state := st\<rparr>) = th_pstate s"
  "th_pstate (s\<lparr>th_decision := d\<rparr>) = th_pstate s"
  "th_pstate (s\<lparr>th_up := u\<rparr>) = th_pstate s"
  "th_pstate (s\<lparr>th_broadcast := b\<rparr>) = th_pstate s"
  "th_pstate (s\<lparr>th_acks := a\<rparr>) = th_pstate s"
  "th_pstate (s\<lparr>th_cut_off := c\<rparr>) = th_pstate s"
  "th_pstate (s\<lparr>th_split := x\<rparr>) = th_pstate s"
  by (rule ext, simp add: th_pstate_def)+

definition th_everyone_yes :: "three_phase \<Rightarrow> bool" where
  "th_everyone_yes s \<longleftrightarrow> (\<forall>p \<in> set (th_participants s). map_of (th_votes s) p = Some ''yes'')"

definition th_votes_ok :: "three_phase \<Rightarrow> bool" where
  "th_votes_ok s \<longleftrightarrow> btree_ok (th_votes s) \<and> fst ` set (th_votes s) \<subseteq> set (th_participants s)"

text \<open>What only a full set of yes votes may lead to.\<close>

definition th_committing :: "three_phase \<Rightarrow> bool" where
  "th_committing s \<longleftrightarrow>
     th_state s = ''pre-committed'' \<or> th_decision s = Some ''commit'' \<or>
     (\<exists>p. th_pstate s p = PS_PreCommitted \<or> th_pstate s p = PS_Committed)"

definition th_inv :: "three_phase \<Rightarrow> bool" where
  "th_inv s \<longleftrightarrow> th_votes_ok s \<and> (th_committing s \<longrightarrow> th_everyone_yes s)"

text \<open>A no vote, or a decision to abort, is behind every abort.\<close>

definition th_someone_no :: "three_phase \<Rightarrow> bool" where
  "th_someone_no s \<longleftrightarrow> (\<exists>p. map_of (th_votes s) p = Some ''no'')"

definition th_abort_inv :: "three_phase \<Rightarrow> bool" where
  "th_abort_inv s \<longleftrightarrow> th_inv s \<and>
     (\<forall>p. th_pstate s p = PS_Aborted \<longrightarrow> th_someone_no s) \<and>
     th_decision s \<in> {None, Some ''commit'', Some ''abort''} \<and>
     (th_decision s = Some ''abort'' \<longrightarrow> th_someone_no s) \<and>
     (\<forall>p. th_pstate s p = PS_Working \<longrightarrow> map_of (th_votes s) p = None)"

lemma th_not_yet:
  assumes "th_inv s" "p \<in> set (th_participants s)" "map_of (th_votes s) p = None"
  shows "\<not> th_committing s"
  using assms by (auto simp: th_inv_def th_everyone_yes_def)

lemma th_all_yes_everyone:
  assumes "th_all_yes s" "th_votes_ok s"
  shows "th_everyone_yes s"
  unfolding th_everyone_yes_def
proof
  fix p assume "p \<in> set (th_participants s)"
  moreover have "fst ` set (th_votes s) = set (th_participants s)"
    using assms by (intro full_votes) (simp_all add: th_all_yes_def th_votes_ok_def)
  ultimately obtain v where v: "map_of (th_votes s) p = Some v"
    using map_of_keys [of p "th_votes s"] by auto
  then show "map_of (th_votes s) p = Some ''yes''"
    using assms(1) map_of_SomeD [OF v] by (auto simp: th_all_yes_def list_all_iff)
qed

lemma th_cast_votes:
  "map_of (th_votes s) p = None \<Longrightarrow> th_votes (th_cast p yes s) = btree_insert p (yes_no yes) (th_votes s)"
  "map_of (th_votes s) p = None \<Longrightarrow> th_pstate (th_cast p yes s) = (th_pstate s)(p := if yes then PS_Prepared else PS_Aborted)"
  "th_participants (th_cast p yes s) = th_participants s"
  by (simp_all add: th_cast_def Let_def split: option.split)

lemma th_cast_keeps:
  assumes "th_inv s" "th_known s p"
  shows "th_inv (th_cast p yes s)"
proof (cases "map_of (th_votes s) p")
  case None
  have p: "p \<in> set (th_participants s)" using assms by (simp add: th_known_def)
  have nc: "\<not> th_committing s" using th_not_yet [OF assms(1) p None] .
  have "th_state (th_cast p yes s) \<noteq> ''pre-committed''" "th_decision (th_cast p yes s) \<noteq> Some ''commit''"
    using nc None by (simp_all add: th_cast_def Let_def th_committing_def)
  then have "\<not> th_committing (th_cast p yes s)"
    using nc None by (simp add: th_committing_def th_cast_votes)
  moreover have "th_votes_ok (th_cast p yes s)" using assms p None by (simp add: th_votes_ok_def th_inv_def th_cast_votes)
  ultimately show ?thesis by (simp add: th_inv_def)
qed (use assms in \<open>simp add: th_cast_def\<close>)

lemma th_cast_abort_keeps:
  assumes "th_abort_inv s" "th_known s p"
  shows "th_abort_inv (th_cast p yes s)"
proof (cases "map_of (th_votes s) p")
  case None
  have inv: "th_inv (th_cast p yes s)" using assms th_cast_keeps by (simp add: th_abort_inv_def)
  have no: "th_someone_no (th_cast p yes s)" if "th_someone_no s \<or> \<not> yes"
    using that None by (auto simp: th_someone_no_def th_cast_votes yes_no_def) (metis option.distinct(1))
  show ?thesis unfolding th_abort_inv_def
  proof (intro conjI allI impI)
    fix q assume "th_pstate (th_cast p yes s) q = PS_Aborted"
    then show "th_someone_no (th_cast p yes s)" using assms None no
      by (auto simp: th_cast_votes th_abort_inv_def split: if_splits)
  next
    show "th_decision (th_cast p yes s) \<in> {None, Some ''commit'', Some ''abort''}"
      using assms None by (auto simp: th_cast_def Let_def th_abort_inv_def)
  next
    assume "th_decision (th_cast p yes s) = Some ''abort''"
    then have "th_decision s = Some ''abort'' \<or> \<not> yes" using None by (simp add: th_cast_def Let_def split: if_splits)
    then show "th_someone_no (th_cast p yes s)" using assms no by (auto simp: th_abort_inv_def)
  next
    fix q assume "th_pstate (th_cast p yes s) q = PS_Working"
    then show "map_of (th_votes (th_cast p yes s)) q = None"
      using assms(1) None by (auto simp: th_cast_votes th_abort_inv_def split: if_splits)
  qed (rule inv)
qed (use assms in \<open>simp add: th_cast_def\<close>)

text \<open>Settling one participant.\<close>

lemma th_set_pstate_keeps:
  "th_inv s \<Longrightarrow> (st = PS_PreCommitted \<or> st = PS_Committed \<longrightarrow> th_committing s) \<Longrightarrow> th_inv (th_set_pstate p st s)"
  by (auto simp: th_inv_def th_votes_ok_def th_committing_def th_everyone_yes_def split: if_splits)

lemma th_set_pstate_abort_keeps:
  assumes "th_abort_inv s" "st = PS_PreCommitted \<or> st = PS_Committed \<longrightarrow> th_committing s"
    and "st = PS_Aborted \<longrightarrow> th_someone_no s" "st \<noteq> PS_Working"
  shows "th_abort_inv (th_set_pstate p st s)"
  using assms th_set_pstate_keeps unfolding th_abort_inv_def
  by (auto simp: th_someone_no_def)

lemma th_settle_keeps:
  assumes "th_inv s" "th_decision s = Some d"
  shows "th_inv (th_settle p d s)"
proof -
  have "th_inv (th_set_pstate p (settled_as d) s)"
    using assms by (intro th_set_pstate_keeps) (auto simp: settled_as_def th_committing_def)
  then show ?thesis using assms by (simp add: th_settle_def)
qed

lemma th_settle_abort_keeps:
  assumes "th_abort_inv s" "th_decision s = Some d"
  shows "th_abort_inv (th_settle p d s)"
proof -
  have "th_abort_inv (th_set_pstate p (settled_as d) s)"
    using assms by (intro th_set_pstate_abort_keeps) (auto simp: settled_as_def th_committing_def th_abort_inv_def)
  then show ?thesis using assms by (simp add: th_settle_def)
qed

lemma th_vote_default_keeps:
  assumes "th_inv s" "p \<in> set (th_participants s)"
  shows "th_inv (th_vote_default p s)"
proof (cases "map_of (th_votes s) p")
  case None
  have "\<not> th_committing s" using th_not_yet [OF assms None] .
  then have "\<not> th_committing (s\<lparr>th_votes := btree_insert p ''no'' (th_votes s)\<rparr>)" by (simp add: th_committing_def)
  then show ?thesis using assms None by (simp add: th_vote_default_def th_inv_def th_votes_ok_def)
qed (use assms in \<open>simp add: th_vote_default_def\<close>)

lemma th_timeout_keeps:
  assumes inv: "th_inv s"
  shows "th_inv (snd (th_timeout p s))"
proof (cases "th_known s p")
  case True
  have a: "th_inv (th_set_pstate p PS_Aborted s)" using inv by (simp add: th_set_pstate_keeps)
  have c: "th_inv (th_set_pstate p PS_Committed s)" if "th_pstate s p = PS_PreCommitted"
    using inv that by (intro th_set_pstate_keeps) (auto simp: th_committing_def)
  have w: "th_inv (th_vote_default p (th_set_pstate p PS_Aborted s))"
    using a True by (intro th_vote_default_keeps) (simp_all add: th_known_def)
  show ?thesis using True a c w inv by (cases "th_pstate s p") (simp_all add: th_timeout_def)
qed (simp add: th_timeout_def inv)

text \<open>The other commands.\<close>

lemma foldl_set_working_th:
  "th_participants (foldl (\<lambda>s p. th_set_pstate p PS_Working s) s ns) = th_participants s"
  "th_votes (foldl (\<lambda>s p. th_set_pstate p PS_Working s) s ns) = th_votes s"
  "th_state (foldl (\<lambda>s p. th_set_pstate p PS_Working s) s ns) = th_state s"
  "th_decision (foldl (\<lambda>s p. th_set_pstate p PS_Working s) s ns) = th_decision s"
  by (induction ns arbitrary: s) simp_all

lemma foldl_set_working_pstate_th:
  "th_pstate s = (\<lambda>_. PS_Working) \<Longrightarrow>
   th_pstate (foldl (\<lambda>s p. th_set_pstate p PS_Working s) s ns) = (\<lambda>_. PS_Working)"
  by (induction ns arbitrary: s) (simp_all add: fun_eq_iff)

lemma th_start_inv:
  assumes "th_pstate s = (\<lambda>_. PS_Working)" "th_votes s = []" "th_state s = ''init''" "th_decision s = None"
  shows "th_inv s" "th_abort_inv s"
  using assms by (simp_all add: th_inv_def th_votes_ok_def th_committing_def th_abort_inv_def th_someone_no_def)

lemma th_default_pstate: "th_pstate (th_default\<lparr>th_participants := ns\<rparr>) = (\<lambda>_. PS_Working)"
  by (rule ext) (simp add: th_pstate_def th_default_def)

lemma th_init_starts: "th_inv (snd (th_init ns))" "th_abort_inv (snd (th_init ns))"
  by (rule th_start_inv; simp add: th_init_def Let_def foldl_set_working_pstate_th th_default_pstate
      foldl_set_working_th; simp add: th_default_def)+

lemma th_default_inv: "th_inv th_default" "th_abort_inv th_default"
  by (rule th_start_inv; auto simp: fun_eq_iff th_pstate_def th_default_def)+

definition th_same :: "three_phase \<Rightarrow> three_phase \<Rightarrow> bool" where
  "th_same s t \<longleftrightarrow>
     th_participants t = th_participants s \<and> th_votes t = th_votes s \<and> th_pstate t = th_pstate s \<and>
     th_state t = th_state s \<and> th_decision t = th_decision s"

lemma th_same_keeps:
  "th_same s t \<Longrightarrow> th_inv s \<Longrightarrow> th_inv t" "th_same s t \<Longrightarrow> th_abort_inv s \<Longrightarrow> th_abort_inv t"
  by (simp_all add: th_same_def th_inv_def th_votes_ok_def th_committing_def th_everyone_yes_def
      th_abort_inv_def th_someone_no_def)

lemma th_quiet:
  "th_same s (snd (th_ack p s))" "th_same s (snd (th_crash w s))" "th_same s (snd (th_heal s))"
  "th_same s (snd (th_partition ns s))"
  by (simp_all add: th_same_def th_ack_def th_crash_def th_heal_def th_partition_def Let_def split: option.split)

lemmas th_quiet_keeps = th_quiet [THEN th_same_keeps(1)] th_quiet [THEN th_same_keeps(2)]

lemma th_pre_commit_keeps:
  assumes "th_inv s"
  shows "th_inv (snd (th_pre_commit s))"
proof -
  have "th_inv (s\<lparr>th_state := ''pre-committed''\<rparr>)" if "th_all_yes s"
    using assms that th_all_yes_everyone [of s] by (simp add: th_inv_def th_votes_ok_def th_everyone_yes_def)
  then show ?thesis using assms by (auto simp: th_pre_commit_def Let_def)
qed

lemma th_commit_keeps:
  assumes "th_inv s"
  shows "th_inv (snd (th_commit s))"
  using assms by (auto simp: th_commit_def th_inv_def th_votes_ok_def th_everyone_yes_def th_committing_def)

lemma th_p_precommit_keeps:
  assumes "th_inv s"
  shows "th_inv (snd (th_p_precommit p s))"
proof -
  have "th_inv (th_set_pstate p PS_PreCommitted s)" if "th_state s = ''pre-committed''"
    using assms that by (intro th_set_pstate_keeps) (auto simp: th_committing_def)
  then show ?thesis using assms by (auto simp: th_p_precommit_def Let_def)
qed

lemma th_deliver_keeps: "th_inv s \<Longrightarrow> th_inv (snd (th_deliver p s))"
  by (auto simp: th_deliver_def Let_def th_settle_keeps split: option.split)

lemma th_vote_keeps: "th_inv s \<Longrightarrow> th_inv (snd (th_vote p args s))"
  by (cases "flag_arg args 1 ''yes'' ''no''") (auto simp: th_vote_def Let_def th_cast_keeps)

lemma three_phase_step_keeps:
  assumes "th_inv s"
  shows "th_inv (snd (three_phase_step parse render s c args))"
  using assms unfolding three_phase_step_def
  by (simp add: with_arg_keeps [where P = th_inv] th_init_starts th_vote_keeps th_pre_commit_keeps
      th_p_precommit_keeps th_commit_keeps th_deliver_keeps th_p_state_def th_timeout_keeps th_quiet_keeps)

interpretation th: topic_invariant "three_phase_step parse render" any_command th_inv
  by unfold_locales (rule three_phase_step_keeps)

text \<open>Keeping the votes behind an abort.\<close>

definition prepared_waits :: "three_phase \<Rightarrow> string \<Rightarrow> string list \<Rightarrow> bool" where
  "prepared_waits s command args \<longleftrightarrow>
     \<not> (command = ''p-timeout'' \<and> args \<noteq> [] \<and> th_pstate s (hd args) = PS_Prepared)"

lemma th_abort_timeout_keeps:
  assumes inv: "th_abort_inv s" and wait: "th_pstate s p \<noteq> PS_Prepared"
  shows "th_abort_inv (snd (th_timeout p s))"
proof (cases "th_known s p")
  case True
  have i: "th_inv (snd (th_timeout p s))" using inv th_timeout_keeps by (simp add: th_abort_inv_def)
  have c: "th_abort_inv (th_set_pstate p PS_Committed s)" if "th_pstate s p = PS_PreCommitted"
    using inv that by (intro th_set_pstate_abort_keeps) (auto simp: th_committing_def)
  show ?thesis
  proof (cases "th_pstate s p")
    case PS_Working
    have working: "map_of (th_votes s) p = None" using inv PS_Working by (simp add: th_abort_inv_def)
    let ?t = "snd (th_timeout p s)"
    have t: "th_votes ?t = btree_insert p ''no'' (th_votes s)" "th_decision ?t = th_decision s"
      using True PS_Working working by (simp_all add: th_timeout_def th_vote_default_def)
    then have "th_someone_no ?t" by (auto simp: th_someone_no_def)
    moreover have "th_pstate ?t = (th_pstate s)(p := PS_Aborted)"
      using True PS_Working working by (simp add: th_timeout_def th_vote_default_def)
    ultimately show ?thesis using inv i t by (auto simp: th_abort_inv_def)
  qed (use True c inv wait in \<open>simp_all add: th_timeout_def\<close>)
qed (simp add: th_timeout_def inv)

lemma th_abort_step_keeps:
  assumes inv: "th_abort_inv s" and ok: "prepared_waits s c args"
  shows "th_abort_inv (snd (three_phase_step parse render s c args))"
proof -
  have vote: "th_abort_inv (snd (th_vote p args s))" for p
    using inv by (cases "flag_arg args 1 ''yes'' ''no''") (auto simp: th_vote_def Let_def th_cast_abort_keeps)
  have pre: "th_abort_inv (snd (th_pre_commit s))"
    using inv th_pre_commit_keeps [of s]
    by (auto simp: th_abort_inv_def th_pre_commit_def Let_def th_someone_no_def)
  have p_pre: "th_abort_inv (snd (th_p_precommit p s))" for p
  proof -
    have "th_abort_inv (th_set_pstate p PS_PreCommitted s)" if "th_state s = ''pre-committed''"
      using inv that by (intro th_set_pstate_abort_keeps) (auto simp: th_committing_def)
    then show ?thesis using inv by (auto simp: th_p_precommit_def Let_def)
  qed
  have commit: "th_abort_inv (snd (th_commit s))"
    using inv th_commit_keeps [of s] by (auto simp: th_abort_inv_def th_commit_def th_someone_no_def)
  have deliver: "th_abort_inv (snd (th_deliver p s))" for p
    using inv by (auto simp: th_deliver_def Let_def th_settle_abort_keeps split: option.split)
  have timeout: "th_abort_inv (snd (th_timeout p s))" if "c = ''p-timeout''" "word_arg args 0 = Inr p" for p
    using that inv ok by (intro th_abort_timeout_keeps)
      (auto simp: prepared_waits_def word_arg_def arg_def ok_or_def hd_conv_nth split: if_splits)
  show ?thesis using inv unfolding three_phase_step_def
    by (simp add: with_arg_keeps [where P = th_abort_inv] th_init_starts vote pre p_pre commit deliver timeout
        th_p_state_def th_quiet_keeps)
qed

interpretation th_abort: topic_invariant "three_phase_step parse render" prepared_waits th_abort_inv
  by unfold_locales (rule th_abort_step_keeps)

text \<open>The two outcomes never meet where no prepared participant gives up on its own.\<close>

theorem three_phase_agrees:
  assumes "session_ok prepared_waits (three_phase_step parse render) cs th_default"
    and "s = snd (topic_run (three_phase_step parse render) cs th_default)"
  shows "\<not> (th_pstate s p = PS_Committed \<and> th_pstate s q = PS_Aborted)"
proof
  assume both: "th_pstate s p = PS_Committed \<and> th_pstate s q = PS_Aborted"
  have inv: "th_abort_inv s"
    unfolding assms(2) using th_abort.session_keeps [OF th_default_inv(2) assms(1)] .
  then obtain r where r: "map_of (th_votes s) r = Some ''no''"
    using both by (auto simp: th_abort_inv_def th_someone_no_def)
  have i: "th_inv s" using inv by (simp add: th_abort_inv_def)
  then have "th_everyone_yes s" using both by (auto simp: th_inv_def th_committing_def)
  moreover have "r \<in> set (th_participants s)"
    using i map_of_SomeD [OF r] by (force simp: th_inv_def th_votes_ok_def)
  ultimately show False using r by (simp add: th_everyone_yes_def)
qed

text \<open>C29: three-phase commit keeps a commit honest. In every session of the topic, with crashes, partitions
  and timeouts in any order, a participant that committed has the yes of every participant behind
  it; and whoever times out is decided at once, so that nobody waits for the coordinator.\<close>
theorem three_phase_commits_and_never_blocks:
  assumes "s = snd (topic_run (three_phase_step parse render) cs th_default)"
  shows "(th_pstate s p = PS_Committed \<longrightarrow>
      list_all (\<lambda>q. map_of (th_votes s) q = Some ''yes'') (th_participants s)) \<and>
    (p \<in> set (th_participants s) \<longrightarrow>
      ps_decision (th_pstate (snd (three_phase_step parse render s ''p-timeout'' [p])) p) \<noteq> None)"
proof (intro conjI impI)
  assume "th_pstate s p = PS_Committed"
  moreover have "th_inv s" unfolding assms using th.session_keeps [OF th_default_inv(1)] by simp
  ultimately show "list_all (\<lambda>q. map_of (th_votes s) q = Some ''yes'') (th_participants s)"
    by (auto simp: th_inv_def th_committing_def th_everyone_yes_def list_all_iff)
next
  assume "p \<in> set (th_participants s)"
  then have known: "th_known s p" by (simp add: th_known_def)
  have arg: "word_arg [p] 0 = Inr p" by (simp add: word_arg_def arg_def ok_or_def)
  have v: "th_pstate (th_vote_default p t) = th_pstate t" for t
    by (simp add: th_vote_default_def split: option.split)
  have "ps_decision (th_pstate (snd (th_timeout p s)) p) \<noteq> None"
    using known by (cases "th_pstate s p") (simp_all add: th_timeout_def v)
  then show "ps_decision (th_pstate (snd (three_phase_step parse render s ''p-timeout'' [p])) p) \<noteq> None"
    by (simp add: three_phase_step_def arg)
qed

definition three_phase_example :: "(string \<times> string list) list" where
  "three_phase_example =
     ab_init @ [(''vote'', [''a'', ''yes'']), (''vote'', [''b'', ''yes'']), (''pre-commit'', []),
       (''p-precommit'', [''a'']), (''crash'', [''coordinator'']), (''p-timeout'', [''a''])]"

theorem three_phase_commits_and_never_blocks_witness:
  "let s = snd (topic_run (three_phase_step ab_parse (\<lambda>_. [])) three_phase_example th_default)
   in th_pstate s ''a'' = PS_Committed \<and>
      list_all (\<lambda>q. map_of (th_votes s) q = Some ''yes'') (th_participants s) \<and>
      ps_decision (th_pstate (snd (three_phase_step ab_parse (\<lambda>_. []) s ''p-timeout'' [''b''])) ''b'') \<noteq> None"
proof -
  let ?s = "snd (topic_run (three_phase_step ab_parse (\<lambda>_. [])) three_phase_example th_default)"
  have c: "th_pstate ?s ''a'' = PS_Committed" by code_simp
  have b: "''b'' \<in> set (th_participants ?s)" by code_simp
  show ?thesis
    using c b three_phase_commits_and_never_blocks [OF refl, of ab_parse "\<lambda>_. []" three_phase_example "''a''"]
      three_phase_commits_and_never_blocks [OF refl, of ab_parse "\<lambda>_. []" three_phase_example "''b''"]
    unfolding Let_def by blast
qed

section \<open>The log of one participant\<close>

text \<open>Nothing but \<open>init\<close> shortens the log or the store.\<close>

lemma recovery_step_log:
  "c \<noteq> ''init'' \<Longrightarrow> set (rv_log s) \<subseteq> set (rv_log (snd (recovery_step s c args)))"
  unfolding recovery_step_def with_arg_def
  by (simp add: rv_begin_def rv_prepare_def rv_decide_def rv_apply_def rv_crash_def rv_recover_def rv_note_def
      rv_coordinator_says_def decided_record_def Let_def split: sum.split) blast

definition no_restart :: "recovery \<Rightarrow> string \<Rightarrow> string list \<Rightarrow> bool" where
  "no_restart s command args \<longleftrightarrow> command \<noteq> ''init''"

interpretation rv: topic_invariant recovery_step no_restart "\<lambda>s. r \<in> set (rv_log s)"
  by unfold_locales (use recovery_step_log in \<open>auto simp: no_restart_def\<close>)

lemma session_no_restart:
  "(\<forall>x \<in> set cs. fst x \<noteq> ''init'') \<Longrightarrow> session_ok no_restart recovery_step cs s"
proof (induction cs arbitrary: s)
  case (Cons y ys)
  obtain c args where "y = (c, args)" by fastforce
  then show ?case using Cons by (simp add: no_restart_def)
qed simp

text \<open>What recovery rebuilds.\<close>

lemma foldl_collect_set:
  "set (foldl (\<lambda>out r. case after_colon r of Some tx \<Rightarrow> if tx \<in> set out then out else out @ [tx] | None \<Rightarrow> out) acc rs)
   = set acc \<union> {tx. \<exists>r \<in> set rs. after_colon r = Some tx}"
  by (induction rs arbitrary: acc) (auto split: option.split)

lemma rv_transactions_set: "set (rv_transactions s) = {tx. \<exists>r \<in> set (rv_log s). after_colon r = Some tx}"
  unfolding rv_transactions_def by (simp add: foldl_collect_set)

lemma map_of_foldl_states:
  "map_of (foldl (\<lambda>m (tx, st, _). btree_insert tx st m) m (map (\<lambda>tx. (tx, f tx)) txs)) tx =
     (if tx \<in> set txs then Some (fst (f tx)) else map_of m tx)"
proof (induction txs arbitrary: m)
  case (Cons t txs)
  obtain a b where "f t = (a, b)" by fastforce
  then show ?case by (simp add: Cons.IH)
qed simp

lemma rv_recover_states:
  "map_of (rv_states (snd (rv_recover s))) tx =
     (if \<exists>r \<in> set (rv_log s). after_colon r = Some tx then Some (fst (rv_state_from_log s tx)) else None)"
  by (simp add: rv_recover_def Let_def map_of_foldl_states rv_transactions_set)

lemma after_colon_record: "CHR '':'' \<notin> set kind \<Longrightarrow> after_colon (record_of kind tx) = Some tx"
  by (induction kind) (auto simp: after_colon_def record_of_def)

text \<open>the log decides after a crash. For a transaction the log mentions, then after whatever commands
  follow, a crash and a recovery later the participant holds the state its log gives the
  transaction; once \<open>commit\<close> was logged it reports the transaction committed, and asks for a redo
  exactly when the effect is not in the store.\<close>
theorem recovery_follows_the_log:
  assumes "\<forall>x \<in> set cs. fst x \<noteq> ''init''" "record_of kind tx \<in> set (rv_log s)"
    and "kind \<in> {''begin'', ''prepared'', ''abort'', ''commit''}"
    and "t = snd (topic_run recovery_step (cs @ [(''crash'', []), (''recover'', [])]) s)"
  shows "map_of (rv_states t) tx = Some (fst (rv_state_from_log t tx)) \<and>
    (kind = ''commit'' \<longrightarrow>
       rv_outcome tx t = JObj [(''state'', JStr ''committed''), (''applied'', JBool (tx \<in> set (rv_applied t)))] \<and>
       snd (rv_state_from_log t tx) = (if tx \<in> set (rv_applied t) then ''none'' else ''redo''))"
proof -
  let ?u = "snd (topic_run recovery_step (cs @ [(''crash'', [])]) s)"
  have log: "record_of kind tx \<in> set (rv_log ?u)"
    by (rule rv.session_keeps [OF assms(2)]) (rule session_no_restart, use assms(1) in auto)
  have t: "t = snd (rv_recover ?u)"
    unfolding assms(4) by (simp only: topic_run_append) (simp add: recovery_step_def split_beta Let_def)
  have tl: "rv_log t = rv_log ?u" "rv_applied t = rv_applied ?u" "\<not> rv_crashed t"
    unfolding t by (simp_all add: rv_recover_def Let_def)
  have "CHR '':'' \<notin> set kind" using assms(3) by auto
  then have "after_colon (record_of kind tx) = Some tx" by (rule after_colon_record)
  then have st: "map_of (rv_states t) tx = Some (fst (rv_state_from_log t tx))"
    using log unfolding t rv_recover_states rv_state_from_log_def rv_logged_def
    by (auto simp: rv_recover_def Let_def)
  show ?thesis using st log tl(3) tl(1) 
    by (auto simp: rv_outcome_def rv_state_from_log_def rv_logged_def)
qed

definition crash_example :: recovery where
  "crash_example = snd (topic_run recovery_step
     [(''init'', [''p'']), (''begin'', [''t'']), (''prepare'', [''t'', ''yes'']), (''decide'', [''t'', ''commit''])] rv_default)"

theorem recovery_follows_the_log_witness:
  "let t = snd (topic_run recovery_step ([(''begin'', [''u'']), (''apply'', [''u''])] @ [(''crash'', []), (''recover'', [])]) crash_example)
   in map_of (rv_states t) ''t'' = Some (fst (rv_state_from_log t ''t'')) \<and>
      rv_outcome ''t'' t = JObj [(''state'', JStr ''committed''), (''applied'', JBool (''t'' \<in> set (rv_applied t)))] \<and>
      snd (rv_state_from_log t ''t'') = (if ''t'' \<in> set (rv_applied t) then ''none'' else ''redo'')"
proof -
  have log: "record_of ''commit'' ''t'' \<in> set (rv_log crash_example)" by code_simp
  show ?thesis
    using recovery_follows_the_log [OF _ log _ refl, of "[(''begin'', [''u'']), (''apply'', [''u''])]"]
    unfolding Let_def by simp
qed

end
