(* ===== verification/Crdt.thy ===== *)
theory Crdt
  imports Topics
begin

text \<open>
  Conflict-free replicated data types, as \<^verbatim>\<open>disttest/examples/prim/crdt.rs\<close> plays them: the two
  counters, the last-writer-wins register, the observed-remove set and the replicated growable
  array. A replica ships its state as JSON and merges the state of another one. Additions wrap around
  at 64 bits, as in a release build (a debug build panics instead).
\<close>

section \<open>Reading a state\<close>

definition json_get :: "string \<Rightarrow> json \<Rightarrow> json option" where
  "json_get k v = (case v of JObj m \<Rightarrow> map_of m k | _ \<Rightarrow> None)"

definition as_object :: "json \<Rightarrow> (string \<times> json) list option" where
  "as_object v = (case v of JObj m \<Rightarrow> Some m | _ \<Rightarrow> None)"

definition as_array :: "json \<Rightarrow> json list option" where
  "as_array v = (case v of JArr xs \<Rightarrow> Some xs | _ \<Rightarrow> None)"

definition as_bool :: "json \<Rightarrow> bool option" where
  "as_bool v = (case v of JBool b \<Rightarrow> Some b | _ \<Rightarrow> None)"

definition counts_to_json :: "(string \<times> int) list \<Rightarrow> json" where
  "counts_to_json m = JObj (map (\<lambda>(k, v). (k, JInt v)) m)"

definition as_i64 :: "json \<Rightarrow> int option" where
  "as_i64 v =
     (case v of
        JInt n \<Rightarrow> if in_i64 n then Some n else None
      | JStr s \<Rightarrow> parse_i64 s
      | _ \<Rightarrow> None)"

definition count_of :: "string \<Rightarrow> (string \<times> int) list \<Rightarrow> int" where
  "count_of k m = (case map_of m k of Some n \<Rightarrow> n | None \<Rightarrow> 0)"

text \<open>The entries are merged one after another; an entry that is not a number stops the loop, and what
  was merged before it stays merged.\<close>

fun merge_entries :: "(string \<times> json) list \<Rightarrow> (string \<times> int) list \<Rightarrow> json option \<times> (string \<times> int) list" where
  "merge_entries [] dst = (None, dst)"
| "merge_entries ((replica, count) # es) dst =
     (case as_i64 count of
        None \<Rightarrow> (Some (reply_err (''the entry for '' @ debug_str replica @ '' is not a number'')), dst)
      | Some n \<Rightarrow> merge_entries es (btree_insert replica (max (count_of replica dst) n) dst))"

definition merge_max :: "(string \<times> int) list \<Rightarrow> json option \<Rightarrow> json option \<times> (string \<times> int) list" where
  "merge_max dst incoming =
     (case incoming of
        None \<Rightarrow> (None, dst)
      | Some v \<Rightarrow>
          (case as_object v of
             None \<Rightarrow> (Some (reply_err ''a counter half of a state must be an object''), dst)
           | Some obj \<Rightarrow> merge_entries obj dst))"

definition strings_expected :: json where
  "strings_expected = reply_err ''expected an array of strings in the state''"

definition string_list :: "json option \<Rightarrow> json + string list" where
  "string_list v =
     (case v of
        None \<Rightarrow> Inr []
      | Some w \<Rightarrow>
          sum_bind (ok_or strings_expected (as_array w)) (\<lambda>items.
          map_ok (\<lambda>x. ok_or strings_expected (as_str x)) items))"

section \<open>The counters\<close>

record counter =
  ct_signed :: bool
  ct_p :: "(string \<times> int) list"
  ct_n :: "(string \<times> int) list"

definition counter_new :: "bool \<Rightarrow> counter" where
  "counter_new sg = \<lparr>ct_signed = sg, ct_p = [], ct_n = []\<rparr>"

definition sum_i64 :: "int list \<Rightarrow> int" where
  "sum_i64 ns = foldl (\<lambda>acc n. wrap_i64 (acc + n)) 0 ns"

definition counter_value :: "counter \<Rightarrow> int" where
  "counter_value s = wrap_i64 (sum_i64 (map snd (ct_p s)) - sum_i64 (map snd (ct_n s)))"

definition counter_state :: "counter \<Rightarrow> json" where
  "counter_state s =
     (if ct_signed s
      then JObj [(''p'', counts_to_json (ct_p s)), (''n'', counts_to_json (ct_n s))]
      else JObj [(''p'', counts_to_json (ct_p s))])"

definition value_json :: "counter \<Rightarrow> json" where
  "value_json s = JObj [(''value'', JInt (counter_value s))]"

definition bump :: "string \<Rightarrow> int \<Rightarrow> (string \<times> int) list \<Rightarrow> (string \<times> int) list" where
  "bump replica by m = btree_insert replica (wrap_i64 (count_of replica m + by)) m"

definition counter_move :: "bool \<Rightarrow> string list \<Rightarrow> counter \<Rightarrow> json \<times> counter" where
  "counter_move up args s =
     (if \<not> up \<and> \<not> ct_signed s then (reply_err ''a g-counter only ever increases'', s)
      else
        with_arg (word_arg args 0) (\<lambda>replica. with_arg (int_arg args 1) (\<lambda>n.
          if n < 0 then (reply_err ''a counter entry may not move backwards'', s)
          else
            (let s' = (if up then s\<lparr>ct_p := bump replica n (ct_p s)\<rparr> else s\<lparr>ct_n := bump replica n (ct_n s)\<rparr>)
             in (value_json s', s'))) s) s)"

definition counter_merge :: "json \<Rightarrow> counter \<Rightarrow> json \<times> counter" where
  "counter_merge incoming s =
     (let (e, p) = merge_max (ct_p s) (json_get ''p'' incoming);
          s = s\<lparr>ct_p := p\<rparr>
      in case e of
           Some err \<Rightarrow> (err, s)
         | None \<Rightarrow>
             (let (e, n) = merge_max (ct_n s) (json_get ''n'' incoming);
                  s = s\<lparr>ct_n := n\<rparr>
              in case e of Some err \<Rightarrow> (err, s) | None \<Rightarrow> (value_json s, s)))"

definition counter_step :: "json_parser \<Rightarrow> counter \<Rightarrow> string \<Rightarrow> string list \<Rightarrow> json \<times> counter" where
  "counter_step parse s command args =
     (if command = ''inc'' \<or> command = ''dec'' then counter_move (command = ''inc'') args s
      else if command = ''value'' then with_arg (word_arg args 0) (\<lambda>_. (value_json s, s)) s
      else if command = ''state'' then with_arg (word_arg args 0) (\<lambda>_. (JObj [(''state'', counter_state s)], s)) s
      else if command = ''merge''
      then with_arg (word_arg args 0) (\<lambda>_. with_arg (json_arg parse args 1) (\<lambda>v. counter_merge v s) s) s
      else (unknown_command command, s))"

section \<open>The last-writer-wins register\<close>

record lww =
  lw_value :: json
  lw_ts :: int
  lw_replica :: string

definition lww_default :: lww where
  "lww_default = \<lparr>lw_value = JNull, lw_ts = 0, lw_replica = []\<rparr>"

definition lww_take :: "json \<Rightarrow> int \<Rightarrow> string \<Rightarrow> lww \<Rightarrow> lww" where
  "lww_take v ts replica s =
     (if lw_ts s < ts \<or> lw_ts s = ts \<and> lw_replica s < replica
      then s\<lparr>lw_value := v, lw_ts := ts, lw_replica := replica\<rparr> else s)"

definition lww_reply :: "lww \<Rightarrow> json" where
  "lww_reply s = JObj [(''value'', lw_value s), (''ts'', JInt (lw_ts s))]"

definition lww_state :: "lww \<Rightarrow> json" where
  "lww_state s = JObj [(''v'', lw_value s), (''ts'', JInt (lw_ts s)), (''r'', JStr (lw_replica s))]"

definition lww_set :: "string list \<Rightarrow> lww \<Rightarrow> json \<times> lww" where
  "lww_set args s =
     with_arg (word_arg args 0) (\<lambda>replica. with_arg (word_arg args 1) (\<lambda>v. with_arg (int_arg args 2) (\<lambda>ts.
       (let s = lww_take (JStr v) ts replica s in (lww_reply s, s))) s) s) s"

definition opt_or :: "'a \<Rightarrow> 'a option \<Rightarrow> 'a" where
  "opt_or d x = (case x of None \<Rightarrow> d | Some y \<Rightarrow> y)"

definition lww_merge :: "json \<Rightarrow> lww \<Rightarrow> json \<times> lww" where
  "lww_merge incoming s =
     (let v = opt_or JNull (json_get ''v'' incoming);
          ts = opt_or 0 (Option.bind (json_get ''ts'' incoming) as_i64);
          replica = opt_or [] (Option.bind (json_get ''r'' incoming) as_str);
          s = lww_take v ts replica s
      in (JObj [(''value'', lw_value s)], s))"

definition lww_step :: "json_parser \<Rightarrow> lww \<Rightarrow> string \<Rightarrow> string list \<Rightarrow> json \<times> lww" where
  "lww_step parse s command args =
     (if command = ''set'' then lww_set args s
      else if command = ''value'' then with_arg (word_arg args 0) (\<lambda>_. (lww_reply s, s)) s
      else if command = ''state'' then with_arg (word_arg args 0) (\<lambda>_. (JObj [(''state'', lww_state s)], s)) s
      else if command = ''merge''
      then with_arg (word_arg args 0) (\<lambda>_. with_arg (json_arg parse args 1) (\<lambda>v. lww_merge v s) s) s
      else (unknown_command command, s))"

section \<open>The observed-remove set\<close>

record or_set =
  os_seq :: nat
  os_adds :: "(string \<times> string list) list"
  os_removed :: "string list"

definition or_default :: or_set where
  "or_default = \<lparr>os_seq = 0, os_adds = [], os_removed = []\<rparr>"

definition or_elements :: "or_set \<Rightarrow> string list" where
  "or_elements s = map fst (filter (\<lambda>(_, tags). list_ex (\<lambda>t. t \<notin> set (os_removed s)) tags) (os_adds s))"

definition or_state :: "or_set \<Rightarrow> json" where
  "or_state s =
     JObj [(''a'', JObj (map (\<lambda>(e, tags). (e, JArr (map JStr tags))) (os_adds s))),
           (''r'', JArr (map JStr (os_removed s)))]"

definition elements_json :: "or_set \<Rightarrow> json" where
  "elements_json s = JObj [(''elements'', JArr (map JStr (or_elements s)))]"

definition bset_extend :: "string list \<Rightarrow> string list \<Rightarrow> string list" where
  "bset_extend xs m = foldl (\<lambda>m x. bset_insert x m) m xs"

definition tags_of :: "string \<Rightarrow> (string \<times> string list) list \<Rightarrow> string list" where
  "tags_of e m = opt_or [] (map_of m e)"

definition extend_tags :: "string \<Rightarrow> string list \<Rightarrow> (string \<times> string list) list \<Rightarrow> (string \<times> string list) list" where
  "extend_tags e tags m = btree_insert e (bset_extend tags (tags_of e m)) m"

definition or_tag :: "string \<Rightarrow> nat \<Rightarrow> string" where
  "or_tag replica n = replica @ ''.'' @ show_nat n"

definition or_add :: "string list \<Rightarrow> or_set \<Rightarrow> json \<times> or_set" where
  "or_add args s =
     with_arg (word_arg args 0) (\<lambda>replica. with_arg (word_arg args 1) (\<lambda>element.
       (let n = os_seq s + 1;
            s = s\<lparr>os_seq := n, os_adds := extend_tags element [or_tag replica n] (os_adds s)\<rparr>
        in (elements_json s, s))) s) s"

definition or_remove :: "string list \<Rightarrow> or_set \<Rightarrow> json \<times> or_set" where
  "or_remove args s =
     with_arg (word_arg args 0) (\<lambda>_. with_arg (word_arg args 1) (\<lambda>element.
       (let s = (case map_of (os_adds s) element of
                   Some tags \<Rightarrow> s\<lparr>os_removed := bset_extend tags (os_removed s)\<rparr> | None \<Rightarrow> s)
        in (elements_json s, s))) s) s"

fun merge_adds :: "(string \<times> json) list \<Rightarrow> (string \<times> string list) list \<Rightarrow> json option \<times> (string \<times> string list) list" where
  "merge_adds [] m = (None, m)"
| "merge_adds ((e, tags) # es) m =
     (case string_list (Some tags) of
        Inl err \<Rightarrow> (Some err, m)
      | Inr ts \<Rightarrow> merge_adds es (extend_tags e ts m))"

definition or_merge_removed :: "json \<Rightarrow> or_set \<Rightarrow> json \<times> or_set" where
  "or_merge_removed incoming s =
     with_arg (string_list (json_get ''r'' incoming)) (\<lambda>r.
       (let s = s\<lparr>os_removed := bset_extend r (os_removed s)\<rparr> in (elements_json s, s))) s"

definition or_merge :: "json \<Rightarrow> or_set \<Rightarrow> json \<times> or_set" where
  "or_merge incoming s =
     (case json_get ''a'' incoming of
        None \<Rightarrow> or_merge_removed incoming s
      | Some v \<Rightarrow>
          (case as_object v of
             None \<Rightarrow> (reply_err ''the add half of an or-set state must be an object'', s)
           | Some adds \<Rightarrow>
               (let (e, m) = merge_adds adds (os_adds s);
                    s = s\<lparr>os_adds := m\<rparr>
                in case e of Some err \<Rightarrow> (err, s) | None \<Rightarrow> or_merge_removed incoming s)))"

definition or_step :: "json_parser \<Rightarrow> or_set \<Rightarrow> string \<Rightarrow> string list \<Rightarrow> json \<times> or_set" where
  "or_step parse s command args =
     (if command = ''add'' then or_add args s
      else if command = ''remove'' then or_remove args s
      else if command = ''elements'' then with_arg (word_arg args 0) (\<lambda>_. (elements_json s, s)) s
      else if command = ''state'' then with_arg (word_arg args 0) (\<lambda>_. (JObj [(''state'', or_state s)], s)) s
      else if command = ''merge''
      then with_arg (word_arg args 0) (\<lambda>_. with_arg (json_arg parse args 1) (\<lambda>v. or_merge v s) s) s
      else (unknown_command command, s))"

section \<open>The replicated growable array\<close>

record elem =
  el_ch :: string
  el_after :: string
  el_deleted :: bool

type_synonym rga = "(string \<times> elem) list"

definition rga_kids :: "rga \<Rightarrow> string \<Rightarrow> string list" where
  "rga_kids s parent = rev (map fst (filter (\<lambda>(_, e). el_after e = parent) s))"

text \<open>
  The walk runs down from one element to those inserted after it. \<open>None\<close> is the walk that does not
  return, where an element is below itself: one more level than there are elements can only be
  reached there. The map iterates its ids in ascending order, so the sort leaves them as they are.
\<close>

definition quoted_root :: string where
  "quoted_root = [CHR 0x27] @ ''root'' @ [CHR 0x27]"

definition shown :: "elem \<Rightarrow> string" where
  "shown e = (if el_deleted e then [] else el_ch e)"

fun walk_kids :: "(string \<Rightarrow> string option) \<Rightarrow> rga \<Rightarrow> string list \<Rightarrow> string option" where
  "walk_kids walk s [] = Some []"
| "walk_kids walk s (i # rest) =
     (case map_of s i of
        None \<Rightarrow> walk_kids walk s rest
      | Some e \<Rightarrow>
          Option.bind (walk i) (\<lambda>below. Option.bind (walk_kids walk s rest) (\<lambda>after. Some (shown e @ below @ after))))"

fun rga_walk :: "nat \<Rightarrow> rga \<Rightarrow> string \<Rightarrow> string option" where
  "rga_walk 0 s parent = None"
| "rga_walk (Suc fuel) s parent = walk_kids (rga_walk fuel s) s (rga_kids s parent)"

definition rga_text :: "rga \<Rightarrow> string option" where
  "rga_text s = rga_walk (length s + 1) s ''root''"

definition rga_state :: "rga \<Rightarrow> json" where
  "rga_state s =
     JObj [(''e'', JObj (map (\<lambda>(i, e). (i, JObj [(''c'', JStr (el_ch e)), (''a'', JStr (el_after e)), (''d'', JBool (el_deleted e))])) s))]"

text \<open>The answer carries the text; there is no answer where the walk does not return.\<close>

definition text_json :: "rga \<Rightarrow> json option" where
  "text_json s = map_option (\<lambda>t. JObj [(''text'', JStr t)]) (rga_text s)"

definition rga_insert :: "string \<Rightarrow> string \<Rightarrow> string \<Rightarrow> rga \<Rightarrow> json option \<times> rga" where
  "rga_insert after i ch s =
     (if i = ''root'' then (Some (reply_err (quoted_root @ '' is the name of the start of the sequence'')), s)
      else if map_of s i \<noteq> None then (Some (reply_err (''there is already an element '' @ debug_str i)), s)
      else if after \<noteq> ''root'' \<and> map_of s after = None
      then (Some (reply_err (''there is no element '' @ debug_str after @ '' to insert after'')), s)
      else (let s = btree_insert i \<lparr>el_ch = ch, el_after = after, el_deleted = False\<rparr> s in (text_json s, s)))"

definition rga_delete :: "string \<Rightarrow> rga \<Rightarrow> json option \<times> rga" where
  "rga_delete i s =
     (case map_of s i of
        Some e \<Rightarrow> (let s = btree_insert i (e\<lparr>el_deleted := True\<rparr>) s in (text_json s, s))
      | None \<Rightarrow> (Some (reply_err (''there is no element '' @ debug_str i)), s))"

definition elem_of_json :: "json \<Rightarrow> elem" where
  "elem_of_json e =
     \<lparr>el_ch = opt_or [] (Option.bind (json_get ''c'' e) as_str),
      el_after = opt_or ''root'' (Option.bind (json_get ''a'' e) as_str),
      el_deleted = opt_or False (Option.bind (json_get ''d'' e) as_bool)\<rparr>"

definition merge_elem :: "string \<Rightarrow> elem \<Rightarrow> rga \<Rightarrow> rga" where
  "merge_elem i e s =
     (case map_of s i of
        Some old \<Rightarrow> btree_insert i (old\<lparr>el_deleted := el_deleted old \<or> el_deleted e\<rparr>) s
      | None \<Rightarrow> btree_insert i e s)"

definition rga_merge :: "json \<Rightarrow> rga \<Rightarrow> json option \<times> rga" where
  "rga_merge incoming s =
     (case Option.bind (json_get ''e'' incoming) as_object of
        None \<Rightarrow> (Some (reply_err ''an rga state must carry an object of elements''), s)
      | Some elems \<Rightarrow> (let s = foldl (\<lambda>s (i, e). merge_elem i (elem_of_json e) s) s elems in (text_json s, s)))"

definition rga_step :: "json_parser \<Rightarrow> rga \<Rightarrow> string \<Rightarrow> string list \<Rightarrow> json option \<times> rga" where
  "rga_step parse s command args =
     (let ask = (\<lambda>i f. case word_arg args i of Inl e \<Rightarrow> (Some e, s) | Inr v \<Rightarrow> f v) in
      if command = ''insert''
      then ask 0 (\<lambda>_. ask 1 (\<lambda>after. ask 2 (\<lambda>i. ask 3 (\<lambda>ch. rga_insert after i ch s))))
      else if command = ''delete'' then ask 0 (\<lambda>_. ask 1 (\<lambda>i. rga_delete i s))
      else if command = ''text'' then ask 0 (\<lambda>_. (text_json s, s))
      else if command = ''state'' then ask 0 (\<lambda>_. (Some (JObj [(''state'', rga_state s)]), s))
      else if command = ''merge''
      then ask 0 (\<lambda>_. case json_arg parse args 1 of Inl e \<Rightarrow> (Some e, s) | Inr v \<Rightarrow> rga_merge v s)
      else (Some (unknown_command command), s))"

end
