(* ===== verification/Crdt_Laws.thy ===== *)
theory Crdt_Laws
  imports Crdt "HOL-Library.Product_Lexorder"
begin

text \<open>
  What makes the replicated types replicated: merging is a join, so replicas that have seen the same
  states answer the same, in whatever order and however often the states arrived.
\<close>

section \<open>Replicas that join\<close>

text \<open>
  The contract of a replicated type: \<open>take s t\<close> is \<open>s\<close> after the state of \<open>t\<close> reached it, \<open>view\<close> is what
  of a state the merge is about, and the answer depends on nothing else.
\<close>

locale replicas = semilattice_set join
  for join :: "'v \<Rightarrow> 'v \<Rightarrow> 'v" +
  fixes take :: "'s \<Rightarrow> 's \<Rightarrow> 's"
    and view :: "'s \<Rightarrow> 'v"
    and answer :: "'s \<Rightarrow> 'a"
    and ok :: "'s \<Rightarrow> bool"
  assumes take_ok: "ok s \<Longrightarrow> ok t \<Longrightarrow> ok (take s t)"
    and take_joins: "ok s \<Longrightarrow> ok t \<Longrightarrow> view (take s t) = join (view s) (view t)"
    and answer_view: "ok s \<Longrightarrow> ok t \<Longrightarrow> view s = view t \<Longrightarrow> answer s = answer t"
begin

lemma merged_ok: "ok s \<Longrightarrow> \<forall>t \<in> set ts. ok t \<Longrightarrow> ok (foldl take s ts)"
  by (induction ts arbitrary: s) (simp_all add: take_ok)

lemma merged_view:
  "ok s \<Longrightarrow> \<forall>t \<in> set ts. ok t \<Longrightarrow> view (foldl take s ts) = F (insert (view s) (view ` set ts))"
proof (induction ts rule: rev_induct)
  case (snoc t ts)
  have "view (foldl take s (ts @ [t])) = join (F (insert (view s) (view ` set ts))) (view t)"
    using snoc by (simp add: take_joins merged_ok)
  also have "\<dots> = F (insert (view t) (insert (view s) (view ` set ts)))"
    by (subst commute) (simp only: insert finite_insert finite_imageI finite_set insert_not_empty not_False_eq_True)
  finally show ?case by (simp add: insert_commute)
qed simp

lemma converge:
  assumes "ok s" "\<forall>x \<in> set xs. ok x" "ok t" "\<forall>y \<in> set ys. ok y"
    and "insert s (set xs) = insert t (set ys)"
  shows "answer (foldl take s xs) = answer (foldl take t ys)"
proof -
  have "view ` insert s (set xs) = view ` insert t (set ys)" using assms(5) by simp
  then have "insert (view s) (view ` set xs) = insert (view t) (view ` set ys)" by simp
  then have "view (foldl take s xs) = view (foldl take t ys)"
    using merged_view [OF assms(1,2)] merged_view [OF assms(3,4)] by simp
  then show ?thesis using assms by (intro answer_view merged_ok)
qed

end

text \<open>Delivering the state of \<open>t\<close> to \<open>s\<close>: the JSON is written out on one line and read back.\<close>

definition deliver_state :: "('s \<Rightarrow> string \<Rightarrow> string list \<Rightarrow> 'r \<times> 's) \<Rightarrow> ('s \<Rightarrow> json) \<Rightarrow> (json \<Rightarrow> string) \<Rightarrow> 's \<Rightarrow> 's \<Rightarrow> 's" where
  "deliver_state step state wire s t = snd (step s ''merge'' [''r'', wire (state t)])"

text \<open>What the code relies on: the JSON parser reads back the text of the states that are shipped.\<close>

definition wires :: "json_parser \<Rightarrow> (json \<Rightarrow> string) \<Rightarrow> ('s \<Rightarrow> json) \<Rightarrow> 's list \<Rightarrow> bool" where
  "wires parse wire state ts \<longleftrightarrow> (\<forall>t \<in> set ts. parse (wire (state t)) = Inr (state t))"

lemma wires_append [simp]: "wires parse wire state (xs @ ys) \<longleftrightarrow> wires parse wire state xs \<and> wires parse wire state ys"
  by (auto simp: wires_def)

lemma deliver_foldl:
  assumes "wires parse wire state ts"
    and "\<And>s t args. json_arg parse args (Suc 0) = Inr (state t) \<Longrightarrow> word_arg args 0 = Inr (hd args) \<Longrightarrow>
      snd (step s ''merge'' args) = join2 s t"
  shows "foldl (deliver_state step state wire) s ts = foldl join2 s ts"
proof (rule foldl_cong)
  fix s t assume "t \<in> set ts"
  then have "json_arg parse [''r'', wire (state t)] (Suc 0) = Inr (state t)"
    using assms(1) by (simp add: json_arg_def word_arg_def arg_def ok_or_def wires_def)
  then show "deliver_state step state wire s t = join2 s t"
    unfolding deliver_state_def by (rule assms(2)) (simp add: word_arg_def arg_def ok_or_def)
qed simp_all

section \<open>Counters\<close>

definition counts_ok :: "(string \<times> int) list \<Rightarrow> bool" where
  "counts_ok m \<longleftrightarrow> btree_ok m \<and> (\<forall>n \<in> snd ` set m. 0 \<le> n \<and> n \<le> i64_max)"

definition counter_ok :: "bool \<Rightarrow> counter \<Rightarrow> bool" where
  "counter_ok sg s \<longleftrightarrow> ct_signed s = sg \<and> counts_ok (ct_p s) \<and> counts_ok (ct_n s) \<and> (\<not> sg \<longrightarrow> ct_n s = [])"

text \<open>Entry by entry the larger count; a replica with no entry has counted nothing.\<close>

definition max_counts :: "(string \<rightharpoonup> int) \<Rightarrow> (string \<rightharpoonup> int) \<Rightarrow> (string \<rightharpoonup> int)" where
  "max_counts a b = (\<lambda>k. combine_options max (a k) (b k))"

lemma max_counts_empty [simp]: "max_counts a (\<lambda>_. None) = a"
  by (simp add: max_counts_def)

lemma max_counts_upd: "b k = None \<Longrightarrow> max_counts a (b(k \<mapsto> n)) = max_counts (a(k \<mapsto> max (case a k of None \<Rightarrow> n | Some x \<Rightarrow> x) n)) b"
  by (auto simp: max_counts_def fun_eq_iff split: option.split)

lemma as_i64_count: "0 \<le> n \<Longrightarrow> n \<le> i64_max \<Longrightarrow> as_i64 (JInt n) = Some n"
  by (simp add: as_i64_def in_i64_def i64_min_def)

lemma counts_ok_insert:
  assumes "counts_ok m" "0 \<le> n" "n \<le> i64_max"
  shows "counts_ok (btree_insert k n m)"
  using assms subsetD [OF snd_btree_insert [of k n m]] unfolding counts_ok_def by (simp only: btree_ok_insert) blast

lemma counts_ok_count:
  assumes "counts_ok m"
  shows "0 \<le> count_of k m" "count_of k m \<le> i64_max"
  using assms map_of_SomeD [of m k] by (force simp: counts_ok_def count_of_def i64_max_def split: option.split)+

lemma merge_entries_max:
  assumes "counts_ok m" "counts_ok dst"
  shows "\<exists>dst'. merge_entries (map (\<lambda>(k, v). (k, JInt v)) m) dst = (None, dst') \<and> counts_ok dst' \<and>
    map_of dst' = max_counts (map_of dst) (map_of m)"
  using assms
proof (induction m arbitrary: dst)
  case (Cons x m)
  obtain k n where x: "x = (k, n)" by fastforce
  have n: "0 \<le> n" "n \<le> i64_max" and m: "counts_ok m" and k: "map_of m k = None"
    using Cons.prems(1) unfolding x by (force simp: counts_ok_def btree_ok_def map_of_eq_None_iff)+
  let ?dst = "btree_insert k (max (count_of k dst) n) dst"
  have "counts_ok ?dst" using Cons.prems(2) n counts_ok_count [OF Cons.prems(2)]
    by (intro counts_ok_insert) (auto simp: max_def)
  then obtain dst' where d: "merge_entries (map (\<lambda>(k, v). (k, JInt v)) m) ?dst = (None, dst')" "counts_ok dst'"
      "map_of dst' = max_counts (map_of ?dst) (map_of m)"
    using Cons.IH [OF m] by blast
  have "max (case map_of dst k of None \<Rightarrow> n | Some x \<Rightarrow> x) n = max (count_of k dst) n"
    using n by (simp add: count_of_def split: option.split)
  then have "map_of dst' = max_counts (map_of dst) (map_of (x # m))"
    using d(3) max_counts_upd [of "map_of m" k "map_of dst" n] k by (simp add: x)
  moreover have "merge_entries (map (\<lambda>(k, v). (k, JInt v)) (x # m)) dst = (None, dst')"
    using d(1) n by (simp add: x as_i64_count)
  ultimately show ?case using d(2) by blast
qed (simp add: counts_ok_def)

definition counter_view :: "counter \<Rightarrow> (string \<rightharpoonup> int) \<times> (string \<rightharpoonup> int)" where
  "counter_view s = (map_of (ct_p s), map_of (ct_n s))"

definition counter_join :: "(string \<rightharpoonup> int) \<times> (string \<rightharpoonup> int) \<Rightarrow> (string \<rightharpoonup> int) \<times> (string \<rightharpoonup> int) \<Rightarrow> (string \<rightharpoonup> int) \<times> (string \<rightharpoonup> int)" where
  "counter_join a b = (max_counts (fst a) (fst b), max_counts (snd a) (snd b))"

text \<open>A counter after the state of another one arrived.\<close>

definition counter_take :: "counter \<Rightarrow> counter \<Rightarrow> counter" where
  "counter_take s t = snd (counter_merge (counter_state t) s)"

lemma counter_merge_state:
  assumes "counter_ok sg s" "counter_ok sg t"
  shows "counter_ok sg (counter_take s t)" "counter_view (counter_take s t) = counter_join (counter_view s) (counter_view t)"
proof -
  obtain p where p: "merge_max (ct_p s) (json_get ''p'' (counter_state t)) = (None, p)" "counts_ok p"
      "map_of p = max_counts (map_of (ct_p s)) (map_of (ct_p t))"
    using merge_entries_max [of "ct_p t" "ct_p s"] assms
    by (auto simp: counter_ok_def counter_state_def json_get_def merge_max_def as_object_def counts_to_json_def)
  have "\<exists>n. merge_max (ct_n s) (json_get ''n'' (counter_state t)) = (None, n) \<and> counts_ok n \<and> (\<not> sg \<longrightarrow> n = []) \<and>
      map_of n = max_counts (map_of (ct_n s)) (map_of (ct_n t))"
  proof (cases sg)
    case True
    then show ?thesis using merge_entries_max [of "ct_n t" "ct_n s"] assms
      by (auto simp: counter_ok_def counter_state_def json_get_def merge_max_def as_object_def counts_to_json_def)
  next
    case False
    then show ?thesis using assms
      by (simp add: counter_ok_def counter_state_def json_get_def merge_max_def counts_ok_def)
  qed
  then obtain n where n: "merge_max (ct_n s) (json_get ''n'' (counter_state t)) = (None, n)" "counts_ok n"
      "\<not> sg \<longrightarrow> n = []" "map_of n = max_counts (map_of (ct_n s)) (map_of (ct_n t))"
    by blast
  have "counter_take s t = s\<lparr>ct_p := p, ct_n := n\<rparr>"
    using p(1) n(1) by (simp add: counter_take_def counter_merge_def Let_def)
  then show "counter_ok sg (counter_take s t)" "counter_view (counter_take s t) = counter_join (counter_view s) (counter_view t)"
    using assms p n by (simp_all add: counter_ok_def counter_view_def counter_join_def)
qed

lemma counter_view_inj:
  assumes "counter_ok sg s" "counter_ok sg t" "counter_view s = counter_view t"
  shows "s = t"
  using assms btree_eq [of "ct_p s" "ct_p t"] btree_eq [of "ct_n s" "ct_n t"]
  by (simp add: counter_ok_def counter_view_def counts_ok_def)

interpretation crdt_counter: replicas counter_join counter_take counter_view counter_value "counter_ok sg"
proof
  fix a b c :: "(string \<rightharpoonup> int) \<times> (string \<rightharpoonup> int)"
  show "counter_join (counter_join a b) c = counter_join a (counter_join b c)"
    by (simp add: counter_join_def max_counts_def fun_eq_iff combine_options_assoc max.assoc)
  show "counter_join a b = counter_join b a"
    by (simp add: counter_join_def max_counts_def fun_eq_iff combine_options_commute max.commute)
  show "counter_join a a = a"
    by (cases a) (auto simp: counter_join_def max_counts_def fun_eq_iff combine_options_def split: option.split)
next
  fix s t
  assume "counter_ok sg s" "counter_ok sg t"
  then show "counter_ok sg (counter_take s t)" "counter_view (counter_take s t) = counter_join (counter_view s) (counter_view t)"
    by (rule counter_merge_state)+
next
  fix s t
  assume "counter_ok sg s" "counter_ok sg t" "counter_view s = counter_view t"
  then show "counter_value s = counter_value t" using counter_view_inj by blast
qed

lemma counter_deliver:
  "wires parse wire counter_state ts \<Longrightarrow> foldl (deliver_state (counter_step parse) counter_state wire) s ts = foldl counter_take s ts"
  by (rule deliver_foldl [where parse = parse]) (simp_all add: counter_step_def counter_take_def)

text \<open>Counting up keeps a counter as it must be, up to the largest count a replica can hold.\<close>

lemma counter_move_ok:
  assumes "counter_ok sg s" "word_arg args 0 = Inr r" "int_arg args 1 = Inr n"
    and "0 \<le> n" "count_of r (if up then ct_p s else ct_n s) + n \<le> i64_max"
  shows "counter_ok sg (snd (counter_move up args s))"
proof -
  have "wrap_i64 (count_of r m + n) = count_of r m + n" "0 \<le> count_of r m"
    if "counts_ok m" "count_of r m + n \<le> i64_max" for m
    using counts_ok_count [OF that(1), of r] that(2) assms(4)
    by (simp_all add: wrap_i64_def i64_min_def i64_max_def)
  then have "counts_ok (bump r n m)" if "counts_ok m" "count_of r m + n \<le> i64_max" for m
    using that assms(4) unfolding bump_def by (metis add_nonneg_nonneg counts_ok_insert)
  then show ?thesis using assms by (auto simp: counter_move_def counter_ok_def Let_def)
qed

section \<open>The observed-remove set\<close>

lemma set_bset_extend [simp]: "set (bset_extend xs m) = set m \<union> set xs"
  unfolding bset_extend_def by (induction xs arbitrary: m) auto

definition live_tags :: "or_set \<Rightarrow> string \<Rightarrow> string set" where
  "live_tags s e = set (tags_of e (os_adds s))"

definition or_ok :: "or_set \<Rightarrow> bool" where
  "or_ok s \<longleftrightarrow> btree_ok (os_adds s)"

definition or_view :: "or_set \<Rightarrow> (string \<Rightarrow> string set) \<times> string set" where
  "or_view s = (live_tags s, set (os_removed s))"

definition or_join :: "(string \<Rightarrow> string set) \<times> string set \<Rightarrow> (string \<Rightarrow> string set) \<times> string set \<Rightarrow> (string \<Rightarrow> string set) \<times> string set" where
  "or_join a b = (\<lambda>e. fst a e \<union> fst b e, snd a \<union> snd b)"

definition or_take :: "or_set \<Rightarrow> or_set \<Rightarrow> or_set" where
  "or_take s t = snd (or_merge (or_state t) s)"

lemma live_tags_iff:
  assumes "or_ok s"
  shows "t \<in> live_tags s e \<longleftrightarrow> (\<exists>tags. (e, tags) \<in> set (os_adds s) \<and> t \<in> set tags)"
proof -
  have "(e, tags) \<in> set (os_adds s) \<longleftrightarrow> map_of (os_adds s) e = Some tags" for tags
    using assms by (simp add: or_ok_def btree_ok_distinct)
  then have "(\<exists>tags. (e, tags) \<in> set (os_adds s) \<and> t \<in> set tags) \<longleftrightarrow> (\<exists>tags. map_of (os_adds s) e = Some tags \<and> t \<in> set tags)"
    by simp
  also have "\<dots> \<longleftrightarrow> t \<in> live_tags s e"
    by (cases "map_of (os_adds s) e") (simp_all add: live_tags_def tags_of_def opt_or_def)
  finally show ?thesis by simp
qed

lemma set_or_elements:
  assumes "or_ok s"
  shows "set (or_elements s) = {e. \<exists>t \<in> live_tags s e. t \<notin> set (os_removed s)}"
proof -
  have "e \<in> set (or_elements s) \<longleftrightarrow> (\<exists>tags. (e, tags) \<in> set (os_adds s) \<and> (\<exists>t \<in> set tags. t \<notin> set (os_removed s)))" for e
    by (force simp: or_elements_def list_ex_iff)
  then show ?thesis unfolding Bex_def live_tags_iff [OF assms] by blast
qed

lemma sorted_or_elements:
  assumes "or_ok s"
  shows "sorted_wrt (<) (or_elements s)"
proof -
  have "sorted_wrt (<) (map fst (filter P m))" if "sorted_wrt (<) (map fst m)" for P and m :: "(string \<times> string list) list"
    using that by (induction m) auto
  then show ?thesis using assms by (simp add: or_elements_def or_ok_def btree_ok_def)
qed

lemma string_list_strings [simp]: "string_list (Some (JArr (map JStr xs))) = Inr xs"
proof -
  have "map_ok (\<lambda>x. ok_or e (as_str x)) (map JStr xs) = Inr xs" for e :: json
    by (induction xs) (simp_all add: as_str_def ok_or_def)
  then show ?thesis by (simp add: string_list_def as_array_def ok_or_def)
qed

lemma merge_adds_state:
  assumes "btree_ok m"
  shows "\<exists>m'. merge_adds (map (\<lambda>(e, tags). (e, JArr (map JStr tags))) adds) m = (None, m') \<and> btree_ok m' \<and>
    (\<forall>e. set (tags_of e m') = set (tags_of e m) \<union> \<Union> (set ` snd ` {x \<in> set adds. fst x = e}))"
  using assms
proof (induction adds arbitrary: m)
  case (Cons x adds)
  obtain e tags where x: "x = (e, tags)" by fastforce
  have "btree_ok (extend_tags e tags m)" using Cons.prems by (simp add: extend_tags_def)
  from Cons.IH [OF this] obtain m' where m':
    "merge_adds (map (\<lambda>(e, tags). (e, JArr (map JStr tags))) adds) (extend_tags e tags m) = (None, m')" "btree_ok m'"
    "\<forall>f. set (tags_of f m') = set (tags_of f (extend_tags e tags m)) \<union> \<Union> (set ` snd ` {x \<in> set adds. fst x = f})"
    by blast
  have "set (tags_of f (extend_tags e tags m)) = set (tags_of f m) \<union> (if f = e then set tags else {})" for f
    by (auto simp: extend_tags_def tags_of_def opt_or_def)
  moreover have "{y \<in> set (x # adds). fst y = f} = (if f = e then {x} else {}) \<union> {y \<in> set adds. fst y = f}" for f
    using x by auto
  ultimately have "set (tags_of f m') = set (tags_of f m) \<union> \<Union> (set ` snd ` {y \<in> set (x # adds). fst y = f})" for f
    using m'(3) x by auto
  then show ?case using m'(1,2) x by auto
qed simp

lemma or_merge_state:
  assumes "or_ok s" "or_ok t"
  shows "or_ok (or_take s t)" "or_view (or_take s t) = or_join (or_view s) (or_view t)"
proof -
  have key: "\<Union> (set ` snd ` {x \<in> set (os_adds t). fst x = e}) = live_tags t e" for e
    using live_tags_iff [OF assms(2), of _ e] by force
  obtain m where m: "merge_adds (map (\<lambda>(e, tags). (e, JArr (map JStr tags))) (os_adds t)) (os_adds s) = (None, m)"
      "btree_ok m" "\<forall>e. set (tags_of e m) = set (tags_of e (os_adds s)) \<union> live_tags t e"
    using merge_adds_state [of "os_adds s" "os_adds t"] assms key by (auto simp: or_ok_def)
  have "or_take s t = s\<lparr>os_adds := m, os_removed := bset_extend (os_removed t) (os_removed s)\<rparr>"
    using m(1) by (simp add: or_take_def or_merge_def or_state_def json_get_def as_object_def or_merge_removed_def Let_def)
  then show "or_ok (or_take s t)" "or_view (or_take s t) = or_join (or_view s) (or_view t)"
    using m by (simp_all add: or_ok_def or_view_def or_join_def live_tags_def fun_eq_iff)
qed

interpretation crdt_or_set: replicas or_join or_take or_view or_elements or_ok
proof
  fix a b c :: "(string \<Rightarrow> string set) \<times> string set"
  show "or_join (or_join a b) c = or_join a (or_join b c)" "or_join a b = or_join b a" "or_join a a = a"
    by (auto simp: or_join_def prod_eq_iff fun_eq_iff)
next
  fix s t
  assume "or_ok s" "or_ok t"
  then show "or_ok (or_take s t)" "or_view (or_take s t) = or_join (or_view s) (or_view t)"
    by (rule or_merge_state)+
next
  fix s t
  assume "or_ok s" "or_ok t" "or_view s = or_view t"
  then show "or_elements s = or_elements t"
    by (intro strict_sorted_equal sorted_or_elements) (simp_all add: set_or_elements or_view_def)
qed

lemma or_deliver:
  "wires parse wire or_state ts \<Longrightarrow> foldl (deliver_state (or_step parse) or_state wire) s ts = foldl or_take s ts"
  by (rule deliver_foldl [where parse = parse]) (simp_all add: or_step_def or_take_def)

end
