(* ===== verification/Crdt_More.thy ===== *)
theory Crdt_More
  imports Crdt_Laws
begin

text \<open>
  The register and the array. Both join only among states that agree on what was written: a write of
  the register is named by its timestamp and replica, an element of the array by its id.
\<close>

section \<open>The register\<close>

definition lww_ok :: "(int \<times> string \<Rightarrow> json) \<Rightarrow> lww \<Rightarrow> bool" where
  "lww_ok written s \<longleftrightarrow> in_i64 (lw_ts s) \<and> lw_value s = written (lw_ts s, lw_replica s)"

definition lww_view :: "lww \<Rightarrow> int \<times> string" where
  "lww_view s = (lw_ts s, lw_replica s)"

definition lww_both :: "lww \<Rightarrow> lww \<Rightarrow> lww" where
  "lww_both s t = snd (lww_merge (lww_state t) s)"

lemma lww_both_take: "in_i64 (lw_ts t) \<Longrightarrow> lww_both s t = lww_take (lw_value t) (lw_ts t) (lw_replica t) s"
  by (simp add: lww_both_def lww_merge_def lww_state_def json_get_def opt_or_def as_i64_def as_str_def Let_def)

interpretation crdt_lww: replicas max lww_both lww_view lww_reply "lww_ok written"
proof
  fix s t
  assume "lww_ok written s" "lww_ok written t"
  then show "lww_ok written (lww_both s t)" "lww_view (lww_both s t) = max (lww_view s) (lww_view t)"
    by (auto simp: lww_ok_def lww_both_take lww_take_def lww_view_def max_def less_eq_prod_simp)
next
  fix s t
  assume "lww_ok written s" "lww_ok written t" "lww_view s = lww_view t"
  then show "lww_reply s = lww_reply t" by (simp add: lww_ok_def lww_view_def lww_reply_def)
qed

lemma lww_deliver:
  "wires parse wire lww_state ts \<Longrightarrow> foldl (deliver_state (lww_step parse) lww_state wire) s ts = foldl lww_both s ts"
  by (rule deliver_foldl [where parse = parse]) (simp_all add: lww_step_def lww_both_def)

section \<open>The array\<close>

text \<open>What was written under an id: the character and the id it was inserted after.\<close>

definition rga_ok :: "(string \<Rightarrow> string \<times> string) \<Rightarrow> rga \<Rightarrow> bool" where
  "rga_ok written s \<longleftrightarrow> btree_ok s \<and> ''root'' \<notin> fst ` set s \<and> (\<forall>(i, e) \<in> set s. (el_ch e, el_after e) = written i)"

definition rga_view :: "rga \<Rightarrow> string set \<times> string set" where
  "rga_view s = (fst ` set s, {i. \<exists>e. map_of s i = Some e \<and> el_deleted e})"

definition rga_join :: "string set \<times> string set \<Rightarrow> string set \<times> string set \<Rightarrow> string set \<times> string set" where
  "rga_join a b = (fst a \<union> fst b, snd a \<union> snd b)"

definition rga_take :: "rga \<Rightarrow> rga \<Rightarrow> rga" where
  "rga_take s t = snd (rga_merge (rga_state t) s)"

definition elem_json :: "elem \<Rightarrow> json" where
  "elem_json e = JObj [(''c'', JStr (el_ch e)), (''a'', JStr (el_after e)), (''d'', JBool (el_deleted e))]"

lemma elem_of_elem_json [simp]: "elem_of_json (elem_json e) = e"
  by (cases e) (simp add: elem_of_json_def elem_json_def json_get_def opt_or_def as_str_def as_bool_def)

lemma rga_take_foldl: "rga_take s t = foldl (\<lambda>s (i, e). merge_elem i e s) s t"
proof -
  have "foldl (\<lambda>s (i, e). merge_elem i (elem_of_json e) s) s (map (\<lambda>(i, e). (i, elem_json e)) t)
      = foldl (\<lambda>s (i, e). merge_elem i e s) s t" for s
    by (induction t arbitrary: s) auto
  then show ?thesis
    by (simp add: rga_take_def rga_merge_def rga_state_def elem_json_def [symmetric] json_get_def as_object_def
        Let_def split: option.split)
qed

lemma rga_ok_iff: "rga_ok written s \<longleftrightarrow> btree_ok s \<and> ''root'' \<notin> fst ` set s \<and> (\<forall>i e. map_of s i = Some e \<longrightarrow> (el_ch e, el_after e) = written i)"
  by (auto simp: rga_ok_def btree_ok_distinct)

lemma merge_elem_ok:
  assumes "rga_ok written s" "(el_ch e, el_after e) = written i" "i \<noteq> ''root''"
  shows "rga_ok written (merge_elem i e s)"
  using assms by (auto simp: rga_ok_iff merge_elem_def split: option.split)

lemma merge_elem_view:
  "rga_view (merge_elem i e s) = (insert i (fst (rga_view s)), snd (rga_view s) \<union> (if el_deleted e then {i} else {}))"
  by (auto simp: rga_view_def merge_elem_def map_of_eq_None_iff split: option.split if_splits)
     (metis fst_conv image_eqI map_of_SomeD)

lemma rga_merge_state:
  assumes "rga_ok written s" "rga_ok written t"
  shows "rga_ok written (rga_take s t)" "rga_view (rga_take s t) = rga_join (rga_view s) (rga_view t)"
proof -
  have "rga_ok written (foldl (\<lambda>s (i, e). merge_elem i e s) s t) \<and>
      rga_view (foldl (\<lambda>s (i, e). merge_elem i e s) s t)
        = (fst (rga_view s) \<union> fst ` set t, snd (rga_view s) \<union> {i. \<exists>e. (i, e) \<in> set t \<and> el_deleted e})"
    if "\<forall>(i, e) \<in> set t. (el_ch e, el_after e) = written i" "''root'' \<notin> fst ` set t" for t
    using assms(1) that
  proof (induction t arbitrary: s)
    case (Cons x t)
    obtain i e where x: "x = (i, e)" by fastforce
    have "rga_ok written (merge_elem i e s)" using Cons.prems x by (intro merge_elem_ok) force+
    then show ?case using Cons.IH [of "merge_elem i e s"] Cons.prems(2,3) by (auto simp: x merge_elem_view)
  qed (simp add: rga_view_def)
  then have m: "rga_ok written (rga_take s t)"
      "rga_view (rga_take s t) = (fst (rga_view s) \<union> fst ` set t, snd (rga_view s) \<union> {i. \<exists>e. (i, e) \<in> set t \<and> el_deleted e})"
    unfolding rga_take_foldl using assms(2) by (auto simp: rga_ok_def)
  show "rga_ok written (rga_take s t)" by (rule m)
  have "(i, e) \<in> set t \<longleftrightarrow> map_of t i = Some e" for i e
    using assms(2) by (simp add: rga_ok_def btree_ok_distinct)
  then show "rga_view (rga_take s t) = rga_join (rga_view s) (rga_view t)"
    unfolding m(2) by (simp add: rga_join_def rga_view_def)
qed

lemma rga_view_inj:
  assumes "rga_ok written s" "rga_ok written t" "rga_view s = rga_view t"
  shows "s = t"
proof (rule btree_eq)
  show "btree_ok s" "btree_ok t" using assms by (simp_all add: rga_ok_def)
  show "map_of s = map_of t"
  proof
    fix i
    have dom: "map_of s i = None \<longleftrightarrow> map_of t i = None"
      using assms(3) by (simp add: rga_view_def map_of_eq_None_iff)
    show "map_of s i = map_of t i"
    proof (cases "map_of s i")
      case (Some e)
      then obtain e' where e': "map_of t i = Some e'" using dom by auto
      have "(el_ch e, el_after e) = (el_ch e', el_after e')" using assms Some e' by (auto simp: rga_ok_iff)
      moreover have "el_deleted e \<longleftrightarrow> el_deleted e'"
      proof -
        have "i \<in> snd (rga_view s) \<longleftrightarrow> i \<in> snd (rga_view t)" using assms(3) by simp
        then show ?thesis using Some e' by (simp add: rga_view_def)
      qed
      ultimately show ?thesis using Some e' by (cases e, cases e') simp
    qed (use dom in auto)
  qed
qed

interpretation crdt_rga: replicas rga_join rga_take rga_view rga_text "rga_ok written"
proof
  fix a b c :: "string set \<times> string set"
  show "rga_join (rga_join a b) c = rga_join a (rga_join b c)" "rga_join a b = rga_join b a" "rga_join a a = a"
    by (auto simp: rga_join_def)
next
  fix s t
  assume "rga_ok written s" "rga_ok written t"
  then show "rga_ok written (rga_take s t)" "rga_view (rga_take s t) = rga_join (rga_view s) (rga_view t)"
    by (rule rga_merge_state)+
next
  fix s t
  assume "rga_ok written s" "rga_ok written t" "rga_view s = rga_view t"
  then show "rga_text s = rga_text t" using rga_view_inj by blast
qed

lemma rga_deliver:
  "wires parse wire rga_state ts \<Longrightarrow> foldl (deliver_state (rga_step parse) rga_state wire) s ts = foldl rga_take s ts"
  by (rule deliver_foldl [where parse = parse]) (simp_all add: rga_step_def rga_take_def)

section \<open>The walk returns\<close>

text \<open>Every element is after the start or after an element that is there, and none is below itself.\<close>

definition rga_edges :: "rga \<Rightarrow> (string \<times> string) set" where
  "rga_edges s = {(i, el_after e) | i e. (i, e) \<in> set s}"

definition rga_tree :: "rga \<Rightarrow> bool" where
  "rga_tree s \<longleftrightarrow> btree_ok s \<and> acyclic (rga_edges s) \<and> ''root'' \<notin> fst ` set s \<and>
     (\<forall>(i, e) \<in> set s. el_after e = ''root'' \<or> el_after e \<in> fst ` set s)"

definition below :: "rga \<Rightarrow> string \<Rightarrow> string set" where
  "below s p = {i. (i, p) \<in> (rga_edges s)\<^sup>+}"

lemma rga_edges_finite: "finite (rga_edges s)"
proof -
  have "rga_edges s = (\<lambda>(i, e). (i, el_after e)) ` set s" by (auto simp: rga_edges_def image_iff)
  then show ?thesis by simp
qed

lemma below_sub: "below s p \<subseteq> fst ` set s"
proof
  fix i assume "i \<in> below s p"
  then have "(i, p) \<in> (rga_edges s)\<^sup>+" by (simp add: below_def)
  then obtain q where "(i, q) \<in> rga_edges s" using tranclD by fast
  then show "i \<in> fst ` set s" by (force simp: rga_edges_def)
qed

lemma rga_kids_edges: "i \<in> set (rga_kids s p) \<Longrightarrow> (i, p) \<in> rga_edges s"
  by (auto simp: rga_kids_def rga_edges_def)

lemma below_kid:
  assumes "acyclic (rga_edges s)" "i \<in> set (rga_kids s p)"
  shows "card (below s i) < card (below s p)"
proof (rule psubset_card_mono)
  show "finite (below s p)" using finite_subset [OF below_sub] by simp
  have e: "(i, p) \<in> rga_edges s" using rga_kids_edges [OF assms(2)] .
  then have "i \<in> below s p" by (auto simp: below_def)
  moreover have "i \<notin> below s i" using assms(1) by (simp add: below_def acyclic_def)
  moreover have "below s i \<subseteq> below s p" using e by (auto simp: below_def intro: trancl_into_trancl)
  ultimately show "below s i \<subset> below s p" by blast
qed

lemma walk_kids_total:
  "\<forall>i \<in> set is. walk i \<noteq> None \<Longrightarrow> walk_kids walk s is \<noteq> None"
  by (induction "is") (auto split: option.split)

lemma rga_walk_total:
  "acyclic (rga_edges s) \<Longrightarrow> card (below s p) < fuel \<Longrightarrow> rga_walk fuel s p \<noteq> None"
proof (induction fuel arbitrary: p)
  case (Suc fuel)
  have "rga_walk fuel s i \<noteq> None" if "i \<in> set (rga_kids s p)" for i
    using Suc.IH [of i] Suc.prems below_kid [OF _ that] by simp
  then show ?case by (simp only: rga_walk.simps) (intro walk_kids_total ballI)
qed simp

text \<open>So a tree is walked to its end, and more levels find nothing else.\<close>

lemma rga_text_total: "acyclic (rga_edges s) \<Longrightarrow> rga_text s \<noteq> None"
proof -
  assume a: "acyclic (rga_edges s)"
  have "card (below s ''root'') \<le> card (fst ` set s)" by (intro card_mono below_sub) simp
  also have "\<dots> \<le> length s" by (metis card_length length_map list.set_map)
  finally show ?thesis unfolding rga_text_def by (intro rga_walk_total [OF a]) simp
qed

lemma btree_insert_mem:
  assumes "btree_ok m"
  shows "(j, f) \<in> set (btree_insert i e m) \<longleftrightarrow> (if j = i then f = e else (j, f) \<in> set m)"
proof -
  have "(j, f) \<in> set (btree_insert i e m) \<longleftrightarrow> map_of (btree_insert i e m) j = Some f"
    using assms by (simp add: btree_ok_distinct del: map_of_btree_insert)
  also have "\<dots> \<longleftrightarrow> (if j = i then f = e else map_of m j = Some f)" by auto
  finally show ?thesis using assms by (simp add: btree_ok_distinct)
qed

lemma rga_tree_insert:
  assumes "rga_tree s" "map_of s i = None" "i \<noteq> ''root''" "el_after e = ''root'' \<or> map_of s (el_after e) \<noteq> None"
  shows "rga_tree (btree_insert i e s)"
proof -
  have ok: "btree_ok (btree_insert i e s)" using assms by (simp add: rga_tree_def)
  have mem: "(j, f) \<in> set (btree_insert i e s) \<longleftrightarrow> (if j = i then f = e else (j, f) \<in> set s)" for j f
    using assms(1) by (simp add: rga_tree_def btree_insert_mem)
  have new: "i \<notin> fst ` set s" using assms(2) by (simp add: map_of_eq_None_iff)
  have edges: "rga_edges (btree_insert i e s) = insert (i, el_after e) (rga_edges s)"
    using new by (auto simp: rga_edges_def mem split: if_splits) force
  have closed: "\<forall>(j, f) \<in> set s. el_after f = ''root'' \<or> el_after f \<in> fst ` set s"
    using assms(1) by (simp add: rga_tree_def)
  have "i \<notin> Range (rga_edges s)" using closed new assms(3) by (fastforce simp: rga_edges_def)
  then have "(j, i) \<notin> (rga_edges s)\<^sup>+" for j using tranclD2 [of j i] by blast
  moreover have "el_after e \<noteq> i" using assms(2-4) by auto
  ultimately have "(el_after e, i) \<notin> (rga_edges s)\<^sup>*" by (simp add: rtrancl_eq_or_trancl)
  then have "acyclic (rga_edges (btree_insert i e s))" using assms(1) by (simp add: edges acyclic_insert rga_tree_def)
  moreover have "el_after f = ''root'' \<or> el_after f \<in> fst ` set (btree_insert i e s)" if "(j, f) \<in> set (btree_insert i e s)" for j f
  proof (cases "j = i")
    case True
    moreover have "el_after e = ''root'' \<or> el_after e \<in> fst ` set s" using assms(4) by (metis map_of_eq_None_iff)
    ultimately show ?thesis using that by (auto simp: mem)
  next
    case False
    then have "(j, f) \<in> set s" using that by (simp add: mem)
    then show ?thesis using closed by fastforce
  qed
  ultimately show ?thesis using ok assms(1,3) by (auto simp: rga_tree_def)
qed

end
