(* ===== verification/Crdt_Theorems.thy ===== *)
theory Crdt_Theorems
  imports Crdt_More
begin

text \<open>
  The properties of the replicated types: convergence, what a remove takes away, and that reading an
  array returns.
\<close>

section \<open>Convergence\<close>

text \<open>counters converge. Two replicas whose states are among those exchanged, and which have seen
  the same set of states, answer the same value, whatever the order in which the states arrived and
  however often; for both kinds of counter, while no count has passed the largest 64-bit number.\<close>
theorem counters_converge:
  assumes "wires parse wire counter_state (xs @ ys)"
    and "counter_ok sg s" "counter_ok sg t" "list_all (counter_ok sg) (xs @ ys)"
    and "insert s (set xs) = insert t (set ys)"
  shows "counter_value (foldl (deliver_state (counter_step parse) counter_state wire) s xs)
    = counter_value (foldl (deliver_state (counter_step parse) counter_state wire) t ys)"
proof -
  have wires: "wires parse wire counter_state xs" "wires parse wire counter_state ys" using assms(1) by simp_all
  have ok: "\<forall>x \<in> set xs. counter_ok sg x" "\<forall>y \<in> set ys. counter_ok sg y" using assms(4) by (simp_all add: list_all_iff)
  show ?thesis unfolding counter_deliver [OF wires(1)] counter_deliver [OF wires(2)]
    by (rule crdt_counter.converge [OF assms(2) ok(1) assms(3) ok(2) assms(5)])
qed

text \<open>Two replicas that counted on their own, and a parser that knows the two states.\<close>

definition counter_a :: counter where
  "counter_a = counter_new True \<lparr>ct_p := [(''a'', 3)], ct_n := [(''a'', 1)]\<rparr>"

definition counter_b :: counter where
  "counter_b = counter_new True \<lparr>ct_p := [(''a'', 2), (''b'', 5)]\<rparr>"

definition two_wire :: "json \<Rightarrow> json \<Rightarrow> string" where
  "two_wire u v = (if v = u then ''1'' else ''2'')"

definition two_parse :: "json \<Rightarrow> json \<Rightarrow> json_parser" where
  "two_parse u v raw = (if raw = ''1'' then Inr u else Inr v)"

theorem counters_converge_witness:
  "counter_value (foldl (deliver_state (counter_step (two_parse (counter_state counter_a) (counter_state counter_b)))
      counter_state (two_wire (counter_state counter_a))) counter_a [counter_b, counter_b])
   = counter_value (foldl (deliver_state (counter_step (two_parse (counter_state counter_a) (counter_state counter_b)))
      counter_state (two_wire (counter_state counter_a))) counter_b [counter_a])"
proof (rule counters_converge [where sg = True])
  have "counter_state counter_a \<noteq> counter_state counter_b" by code_simp
  then show "wires (two_parse (counter_state counter_a) (counter_state counter_b)) (two_wire (counter_state counter_a))
      counter_state ([counter_b, counter_b] @ [counter_a])"
    by (simp add: wires_def two_parse_def two_wire_def)
qed (auto simp: counter_ok_def counts_ok_def btree_ok_def counter_a_def counter_b_def counter_new_def i64_max_def)

text \<open>C37: observed-remove sets converge, and a remove takes away what it saw. Replicas that have seen
  the same states hold the same elements, in whatever order the states arrived; and after a replica
  has removed an element and then merged another state, the element is there exactly when that
  state carries an add of it that the remove had not seen and nobody has removed.\<close>
theorem or_sets_converge:
  assumes "wires parse wire or_state (u # xs @ ys)"
    and "or_ok s" "or_ok t" "or_ok u" "list_all or_ok (xs @ ys)"
  shows "(insert s (set xs) = insert t (set ys) \<longrightarrow>
      or_elements (foldl (deliver_state (or_step parse) or_state wire) s xs)
        = or_elements (foldl (deliver_state (or_step parse) or_state wire) t ys)) \<and>
    (e \<in> set (or_elements (deliver_state (or_step parse) or_state wire (snd (or_step parse s ''remove'' [r, e])) u)) \<longleftrightarrow>
      (\<exists>tag \<in> live_tags u e. tag \<notin> live_tags s e \<and> tag \<notin> set (os_removed s) \<and> tag \<notin> set (os_removed u)))"
proof
  have wires: "wires parse wire or_state xs" "wires parse wire or_state ys" "wires parse wire or_state [u]"
    using assms(1) by (auto simp: wires_def)
  have ok: "\<forall>x \<in> set xs. or_ok x" "\<forall>y \<in> set ys. or_ok y" using assms(5) by (simp_all add: list_all_iff)
  show "insert s (set xs) = insert t (set ys) \<longrightarrow>
      or_elements (foldl (deliver_state (or_step parse) or_state wire) s xs)
        = or_elements (foldl (deliver_state (or_step parse) or_state wire) t ys)"
    unfolding or_deliver [OF wires(1)] or_deliver [OF wires(2)]
    by (intro impI crdt_or_set.converge [OF assms(2) ok(1) assms(3) ok(2)])
  let ?s = "snd (or_step parse s ''remove'' [r, e])"
  have s: "?s = (case map_of (os_adds s) e of
      Some tags \<Rightarrow> s\<lparr>os_removed := bset_extend tags (os_removed s)\<rparr> | None \<Rightarrow> s)"
    by (simp add: or_step_def or_remove_def word_arg_def arg_def ok_or_def Let_def)
  have view: "live_tags ?s e = live_tags s e" "set (os_removed ?s) = set (os_removed s) \<union> live_tags s e" "or_ok ?s"
    using assms(2) unfolding s by (auto simp: live_tags_def tags_of_def opt_or_def or_ok_def split: option.split)
  have "deliver_state (or_step parse) or_state wire ?s u = or_take ?s u" using or_deliver [OF wires(3), of ?s] by simp
  moreover have "or_view (or_take ?s u) = or_join (or_view ?s) (or_view u)" "or_ok (or_take ?s u)"
    using or_merge_state [OF view(3) assms(4)] by simp_all
  ultimately show "e \<in> set (or_elements (deliver_state (or_step parse) or_state wire ?s u)) \<longleftrightarrow>
      (\<exists>tag \<in> live_tags u e. tag \<notin> live_tags s e \<and> tag \<notin> set (os_removed s) \<and> tag \<notin> set (os_removed u))"
    using view by (auto simp: set_or_elements or_view_def or_join_def)
qed

definition or_a :: or_set where
  "or_a = snd (or_add [''a'', ''x''] or_default)"

definition or_b :: or_set where
  "or_b = snd (or_add [''b'', ''x''] or_default)"

theorem or_sets_converge_witness:
  "let wire = two_wire (or_state or_a); parse = two_parse (or_state or_a) (or_state or_b)
   in or_elements (foldl (deliver_state (or_step parse) or_state wire) or_a [or_b, or_b])
        = or_elements (foldl (deliver_state (or_step parse) or_state wire) or_b [or_a]) \<and>
      (''x'' \<in> set (or_elements (deliver_state (or_step parse) or_state wire (snd (or_step parse or_a ''remove'' [''a'', ''x''])) or_b)) \<longleftrightarrow>
        (\<exists>tag \<in> live_tags or_b ''x''. tag \<notin> live_tags or_a ''x'' \<and> tag \<notin> set (os_removed or_a) \<and> tag \<notin> set (os_removed or_b)))"
proof -
  have "or_state or_a \<noteq> or_state or_b" by code_simp
  then have w: "wires (two_parse (or_state or_a) (or_state or_b)) (two_wire (or_state or_a)) or_state (or_b # [or_b, or_b] @ [or_a])"
    by (simp add: wires_def two_parse_def two_wire_def)
  have ok: "or_ok or_a" "or_ok or_b" "list_all or_ok ([or_b, or_b] @ [or_a])"
    by (simp_all add: or_ok_def btree_ok_def or_a_def or_b_def or_add_def word_arg_def arg_def ok_or_def
        or_default_def extend_tags_def Let_def)
  have "insert or_a (set [or_b, or_b]) = insert or_b (set [or_a])" by auto
  then show ?thesis
    using or_sets_converge [OF w ok(1,2,2,3), where e = "''x''" and r = "''a''"] unfolding Let_def by argo
qed

text \<open>Registers converge where one replica never writes two values at one time.\<close>

theorem registers_converge:
  assumes "wires parse wire lww_state (xs @ ys)"
    and "lww_ok written s" "lww_ok written t" "list_all (lww_ok written) (xs @ ys)"
    and "insert s (set xs) = insert t (set ys)"
  shows "lww_reply (foldl (deliver_state (lww_step parse) lww_state wire) s xs)
    = lww_reply (foldl (deliver_state (lww_step parse) lww_state wire) t ys)"
proof -
  have wires: "wires parse wire lww_state xs" "wires parse wire lww_state ys" using assms(1) by simp_all
  have ok: "\<forall>x \<in> set xs. lww_ok written x" "\<forall>y \<in> set ys. lww_ok written y" using assms(4) by (simp_all add: list_all_iff)
  show ?thesis unfolding lww_deliver [OF wires(1)] lww_deliver [OF wires(2)]
    by (rule crdt_lww.converge [OF assms(2) ok(1) assms(3) ok(2) assms(5)])
qed

section \<open>The array\<close>









text \<open>Every session without a merge answers every command: the elements form a tree throughout.\<close>

definition no_merge :: "rga \<Rightarrow> string \<Rightarrow> string list \<Rightarrow> bool" where
  "no_merge s command args \<longleftrightarrow> command \<noteq> ''merge''"

lemma rga_step_tree:
  assumes "rga_tree s" "no_merge s c args"
  shows "rga_tree (snd (rga_step parse s c args))"
proof -
  have ins: "rga_tree (snd (rga_insert after i ch s))" for after i ch
    using assms(1) by (auto simp: rga_insert_def Let_def intro!: rga_tree_insert)
  have del: "rga_tree (snd (rga_delete i s))" for i
  proof (cases "map_of s i")
    case (Some e)
    let ?t = "btree_insert i (e\<lparr>el_deleted := True\<rparr>) s"
    have mem: "(j, f) \<in> set ?t \<longleftrightarrow> (if j = i then f = e\<lparr>el_deleted := True\<rparr> else (j, f) \<in> set s)" for j f
      using assms(1) by (simp add: rga_tree_def btree_insert_mem)
    have e: "(i, e) \<in> set s" "\<And>f. (i, f) \<in> set s \<Longrightarrow> f = e"
      using Some map_of_SomeD assms(1) by (auto simp: rga_tree_def btree_ok_distinct dest: map_of_is_SomeI [rotated])
    have keys: "fst ` set ?t = fst ` set s" using e(1) by force
    have "(a, b) \<in> rga_edges ?t \<longleftrightarrow> (a, b) \<in> rga_edges s" for a b
    proof (cases "a = i")
      case True
      have "(i, b) \<in> rga_edges s \<longleftrightarrow> b = el_after e" using e unfolding rga_edges_def by blast
      moreover have "(i, b) \<in> rga_edges ?t \<longleftrightarrow> b = el_after e" by (simp add: rga_edges_def mem)
      ultimately show ?thesis using True by simp
    qed (simp add: rga_edges_def mem)
    then have "rga_edges ?t = rga_edges s" by auto
    moreover have "el_after f = ''root'' \<or> el_after f \<in> fst ` set s" if "(j, f) \<in> set ?t" for j f
      using that assms(1) e(1) by (cases "j = i") (fastforce simp: mem rga_tree_def)+
    ultimately have "rga_tree ?t" unfolding rga_tree_def keys using assms(1) by (auto simp: rga_tree_def)
    then show ?thesis using Some by (simp add: rga_delete_def Let_def)
  qed (simp add: rga_delete_def assms(1))
  show ?thesis using assms ins del
    by (simp add: rga_step_def no_merge_def Let_def split: sum.split)
qed

interpretation rga_session: topic_invariant "rga_step parse" no_merge rga_tree
  by unfold_locales (rule rga_step_tree)

lemma rga_tree_empty: "rga_tree []"
  by (simp add: rga_tree_def rga_edges_def acyclic_def)

lemma rga_reply_text:
  "fst (rga_insert after i ch s) = None \<Longrightarrow> text_json (snd (rga_insert after i ch s)) = None"
  "fst (rga_delete i s) = None \<Longrightarrow> text_json (snd (rga_delete i s)) = None"
  by (auto simp: rga_insert_def rga_delete_def Let_def split: if_splits option.splits)

lemma rga_step_reply:
  "c \<noteq> ''merge'' \<Longrightarrow> fst (rga_step parse s c args) = None \<Longrightarrow> text_json (snd (rga_step parse s c args)) = None"
  by (simp add: rga_step_def Let_def rga_reply_text split: sum.splits if_splits)

theorem array_sessions_answer:
  assumes "session_ok no_merge (rga_step parse) cs []" "c \<noteq> ''merge''"
  shows "fst (rga_step parse (snd (topic_run (rga_step parse) cs [])) c args) \<noteq> None"
proof -
  let ?s = "snd (topic_run (rga_step parse) cs [])"
  have "rga_tree (snd (rga_step parse ?s c args))"
    by (rule rga_step_tree [OF rga_session.session_keeps [OF rga_tree_empty assms(1)]]) (simp add: no_merge_def assms(2))
  then have "text_json (snd (rga_step parse ?s c args)) \<noteq> None"
    using rga_text_total by (simp add: text_json_def rga_tree_def)
  then show ?thesis using rga_step_reply [OF assms(2), of parse ?s args] by argo
qed

text \<open>
  A merge takes an element by the name of the start: it is below itself, and the walk from the start
  never ends, however many levels it is given.
\<close>

definition root_element :: json where
  "root_element = JObj [(''e'', JObj [(''root'', JObj [(''c'', JStr ''x''), (''a'', JStr ''root'')])])]"

theorem merged_root_never_read:
  "\<forall>fuel. rga_walk fuel (snd (rga_merge root_element [])) ''root'' = None"
proof
  fix fuel
  have s: "snd (rga_merge root_element []) = [(''root'', \<lparr>el_ch = ''x'', el_after = ''root'', el_deleted = False\<rparr>)]"
    by code_simp
  show "rga_walk fuel (snd (rga_merge root_element [])) ''root'' = None"
    unfolding s by (induction fuel) (simp_all add: rga_kids_def)
qed

end
