(* ===== verification/Oracles.thy ===== *)
theory Oracles
  imports Topics
begin

text \<open>
  The expected values of \<^verbatim>\<open>disttest/src/prim/oracles.rs\<close>: vector clocks and causal delivery, movement of
  keys, quorum arithmetic, Merkle trees and their differences, suspicion, and the replay of every
  order. SHA-256 is an external crate: the parameter \<open>sha\<close>. Sums of 64-bit numbers wrap, as in a
  release build. What is computed with \<open>f64\<close> is not modelled.
\<close>

section \<open>Vector clocks\<close>

datatype relation = Rel_Before | Rel_After | Rel_Equal | Rel_Concurrent

fun relation_text :: "relation \<Rightarrow> string" where
  "relation_text Rel_Before = ''before''"
| "relation_text Rel_After = ''after''"
| "relation_text Rel_Equal = ''equal''"
| "relation_text Rel_Concurrent = ''concurrent''"

type_synonym clock = "(string \<times> int) list"

definition tick_of :: "clock \<Rightarrow> string \<Rightarrow> int" where
  "tick_of c k = (case map_of c k of Some v \<Rightarrow> v | None \<Rightarrow> 0)"

definition clock_keys :: "clock \<Rightarrow> clock \<Rightarrow> string list" where
  "clock_keys a b = remdups_adj (sort (map fst a @ map fst b))"

fun compare_loop :: "clock \<Rightarrow> clock \<Rightarrow> bool \<times> bool \<Rightarrow> string list \<Rightarrow> bool \<times> bool" where
  "compare_loop a b (le, ge) [] = (le, ge)"
| "compare_loop a b (le, ge) (k # ks) =
     (let x = tick_of a k; y = tick_of b k
      in compare_loop a b (if x > y then False else le, if x < y then False else ge) ks)"

definition compare_clocks :: "clock \<Rightarrow> clock \<Rightarrow> relation" where
  "compare_clocks a b =
     (case compare_loop a b (True, True) (clock_keys a b) of
        (True, True) \<Rightarrow> Rel_Equal
      | (True, False) \<Rightarrow> Rel_Before
      | (False, True) \<Rightarrow> Rel_After
      | (False, False) \<Rightarrow> Rel_Concurrent)"

definition clock_of :: "(string \<times> int) list \<Rightarrow> clock" where
  "clock_of pairs = foldl (\<lambda>m (k, v). btree_insert k v m) [] pairs"

definition add_i64 :: "int \<Rightarrow> int \<Rightarrow> int" where
  "add_i64 a b = wrap_i64 (a + b)"

definition causally_deliverable :: "clock \<Rightarrow> string \<Rightarrow> clock \<Rightarrow> bool" where
  "causally_deliverable local sender msg =
     (let want = add_i64 (tick_of local sender) 1 in
      if tick_of msg sender \<noteq> want then False
      else list_all (\<lambda>(k, v). v \<le> tick_of local k) (filter (\<lambda>(k, _). k \<noteq> sender) msg))"

section \<open>Placement\<close>

record movement =
  mv_stayed :: nat
  mv_moved_to_new :: nat
  mv_moved_off_gone :: nat
  mv_moved_between_survivors :: "string list"

definition movement_default :: movement where
  "movement_default =
     \<lparr>mv_stayed = 0, mv_moved_to_new = 0, mv_moved_off_gone = 0, mv_moved_between_survivors = []\<rparr>"

definition move_key :: "string list \<Rightarrow> string list \<Rightarrow> string \<Rightarrow> string \<Rightarrow> string \<Rightarrow> movement \<Rightarrow> movement" where
  "move_key nodes_before nodes_after key was now m =
     (if was = now then m\<lparr>mv_stayed := mv_stayed m + 1\<rparr>
      else if now \<notin> set nodes_before then m\<lparr>mv_moved_to_new := mv_moved_to_new m + 1\<rparr>
      else if was \<notin> set nodes_after then m\<lparr>mv_moved_off_gone := mv_moved_off_gone m + 1\<rparr>
      else m\<lparr>mv_moved_between_survivors := mv_moved_between_survivors m @ [key]\<rparr>)"

fun movement_loop :: "(string \<times> string) list \<Rightarrow> string list \<Rightarrow> string list \<Rightarrow> movement \<Rightarrow> (string \<times> string) list \<Rightarrow> movement" where
  "movement_loop after nodes_before nodes_after m [] = m"
| "movement_loop after nodes_before nodes_after m ((key, was) # ks) =
     (case map_of after key of
        None \<Rightarrow> movement_loop after nodes_before nodes_after m ks
      | Some now \<Rightarrow> movement_loop after nodes_before nodes_after (move_key nodes_before nodes_after key was now m) ks)"

definition movement_of :: "(string \<times> string) list \<Rightarrow> (string \<times> string) list \<Rightarrow> string list \<Rightarrow> string list \<Rightarrow> movement" where
  "movement_of before after nodes_before nodes_after = movement_loop after nodes_before nodes_after movement_default before"

section \<open>Quorums\<close>

definition quorum_overlaps :: "int \<Rightarrow> int \<Rightarrow> int \<Rightarrow> bool" where
  "quorum_overlaps n r w \<longleftrightarrow> add_i64 r w > n"

definition mul_i64 :: "int \<Rightarrow> int \<Rightarrow> int" where
  "mul_i64 a b = wrap_i64 (a * b)"

definition write_conflict_possible :: "int \<Rightarrow> int \<Rightarrow> bool" where
  "write_conflict_possible n w \<longleftrightarrow> mul_i64 2 w \<le> n"

definition smallest_read_quorum :: "int \<Rightarrow> int \<Rightarrow> int" where
  "smallest_read_quorum n w = max (add_i64 (add_i64 n (- w)) 1) 1"

section \<open>Merkle trees\<close>

definition hex_text :: "bytes \<Rightarrow> string" where
  "hex_text bs = concat (map hex2 bs)"

definition merkle_leaf :: "(bytes \<Rightarrow> bytes) \<Rightarrow> bytes \<Rightarrow> string" where
  "merkle_leaf sha leaf = hex_text (sha (0 # leaf))"

definition merkle_node :: "(bytes \<Rightarrow> bytes) \<Rightarrow> string \<Rightarrow> string \<Rightarrow> string" where
  "merkle_node sha left right = hex_text (sha (1 # as_bytes left @ as_bytes right))"

text \<open>The loop over one level: pairs are joined, an odd one is carried up.\<close>

fun join_pairs :: "('a \<Rightarrow> 'a \<Rightarrow> 'a) \<Rightarrow> 'a list \<Rightarrow> 'a list" where
  "join_pairs f (x # y # zs) = f x y # join_pairs f zs"
| "join_pairs f [x] = [x]"
| "join_pairs f [] = []"

lemma length_join_pairs: "length (join_pairs f xs) = (length xs + 1) div 2"
  by (induction f xs rule: join_pairs.induct) auto

function levels_from :: "('a \<Rightarrow> 'a \<Rightarrow> 'a) \<Rightarrow> 'a list \<Rightarrow> 'a list list" where
  "levels_from f level = level # (if length level > 1 then levels_from f (join_pairs f level) else [])"
  by pat_completeness auto

termination
  by (relation "measure (\<lambda>(f, level). length level)") (auto simp: length_join_pairs)

declare levels_from.simps [simp del]

definition merkle_levels :: "(bytes \<Rightarrow> bytes) \<Rightarrow> bytes list \<Rightarrow> string list list" where
  "merkle_levels sha leaves =
     (if leaves = [] then [[hex_text (sha [])]]
      else levels_from (merkle_node sha) (map (merkle_leaf sha) leaves))"

definition merkle_root :: "(bytes \<Rightarrow> bytes) \<Rightarrow> bytes list \<Rightarrow> string" where
  "merkle_root sha leaves =
     (case rev (merkle_levels sha leaves) of
        [] \<Rightarrow> [] | l # _ \<Rightarrow> (case l of [] \<Rightarrow> [] | h # _ \<Rightarrow> h))"

definition list_get :: "'a list \<Rightarrow> nat \<Rightarrow> 'a option" where
  "list_get xs i = (if i < length xs then Some (xs ! i) else None)"

definition extend_ranges :: "(nat \<times> nat) list \<Rightarrow> nat \<Rightarrow> (nat \<times> nat) list" where
  "extend_ranges out i =
     (case rev out of
        (lo, hi) # before \<Rightarrow> if hi + 1 = i then rev before @ [(lo, i)] else out @ [(i, i)]
      | [] \<Rightarrow> out @ [(i, i)])"

definition differing_ranges :: "bytes list \<Rightarrow> bytes list \<Rightarrow> (nat \<times> nat) list" where
  "differing_ranges a b =
     foldl (\<lambda>out i. if list_get a i \<noteq> list_get b i then extend_ranges out i else out) []
       [0..<max (length a) (length b)]"

text \<open>\<open>usize::BITS - leading_zeros\<close> is the number of bits; \<open>next_power_of_two\<close> of a number below \<open>2 ^ 63\<close>.\<close>

fun bit_count :: "nat \<Rightarrow> nat" where
  "bit_count n = (if n = 0 then 0 else Suc (bit_count (n div 2)))"

declare bit_count.simps [simp del]

definition next_power_of_two :: "nat \<Rightarrow> nat" where
  "next_power_of_two n = (if n \<le> 1 then 1 else 2 ^ bit_count (n - 1))"

definition descent_bound :: "nat \<Rightarrow> nat \<Rightarrow> nat" where
  "descent_bound leaves differing =
     (if differing = 0 then 1
      else (let depth = bit_count (next_power_of_two leaves) + 1 in 2 * depth * differing + 2))"

section \<open>Suspicion\<close>

datatype suspicion = Alive | Suspect | Dead

fun suspicion_text :: "suspicion \<Rightarrow> string" where
  "suspicion_text Alive = ''alive''"
| "suspicion_text Suspect = ''suspect''"
| "suspicion_text Dead = ''dead''"

definition suspicion_of :: "int \<Rightarrow> int \<Rightarrow> int \<Rightarrow> suspicion" where
  "suspicion_of since suspect_after dead_after =
     (if since < suspect_after then Alive else if since < dead_after then Suspect else Dead)"

section \<open>Every order\<close>

definition swap_items :: "nat \<Rightarrow> nat \<Rightarrow> 'a list \<Rightarrow> 'a list" where
  "swap_items i j xs = xs[i := xs ! j, j := xs ! i]"

text \<open>\<open>permute\<close> with the vector it works on and the orders found so far; the recursion is over the
  positions that are left, the loop over those a position may be swapped with.\<close>

fun permute_loop :: "('a list \<Rightarrow> 'a list list \<Rightarrow> 'a list \<times> 'a list list) \<Rightarrow> nat \<Rightarrow> nat list \<Rightarrow> 'a list \<Rightarrow> 'a list list \<Rightarrow> 'a list \<times> 'a list list" where
  "permute_loop below k [] items out = (items, out)"
| "permute_loop below k (i # is) items out =
     (let (items, out) = below (swap_items k i items) out
      in permute_loop below k is (swap_items k i items) out)"

fun permute_left :: "nat \<Rightarrow> nat \<Rightarrow> 'a list \<Rightarrow> 'a list list \<Rightarrow> 'a list \<times> 'a list list" where
  "permute_left 0 k items out = (items, out @ [items])"
| "permute_left (Suc left) k items out =
     permute_loop (permute_left left (k + 1)) k [k..<length items] items out"

definition permute :: "'a list \<Rightarrow> nat \<Rightarrow> 'a list list \<Rightarrow> 'a list \<times> 'a list list" where
  "permute items k out = permute_left (length items - k) k items out"

definition permutations_of :: "nat \<Rightarrow> nat list list" where
  "permutations_of n = snd (permute [0..<n] 0 [])"

end
