(* ===== verification/Oracle_Laws.thy ===== *)
theory Oracle_Laws
  imports Oracles "HOL-Library.Multiset"
begin

text \<open>
  What the oracles decide: the order of clocks is pointwise, the delivery rule never runs ahead of a
  cause, a Merkle root identifies its leaves, the ranges are the maximal runs of differences, and the
  replay covers every order once.
\<close>

section \<open>Clocks\<close>

definition clock_le :: "clock \<Rightarrow> clock \<Rightarrow> bool" where
  "clock_le a b \<longleftrightarrow> (\<forall>k. tick_of a k \<le> tick_of b k)"

lemma compare_loop_spec:
  "compare_loop a b (le, ge) ks =
     (le \<and> (\<forall>k \<in> set ks. tick_of a k \<le> tick_of b k), ge \<and> (\<forall>k \<in> set ks. tick_of b k \<le> tick_of a k))"
  by (induction ks arbitrary: le ge) (auto simp: Let_def)

lemma clock_keys_le: "clock_le a b \<longleftrightarrow> (\<forall>k \<in> set (clock_keys a b). tick_of a k \<le> tick_of b k)"
proof -
  have "tick_of a k = 0 \<and> tick_of b k = 0" if "k \<notin> set (clock_keys a b)" for k
    using that by (simp add: clock_keys_def tick_of_def map_of_eq_None_iff [THEN iffD2])
  then show ?thesis unfolding clock_le_def by (metis order_refl)
qed

lemma clock_keys_ge: "clock_le b a \<longleftrightarrow> (\<forall>k \<in> set (clock_keys a b). tick_of b k \<le> tick_of a k)"
proof -
  have "set (clock_keys a b) = set (clock_keys b a)" by (auto simp: clock_keys_def)
  then show ?thesis using clock_keys_le [of b a] by simp
qed

text \<open>The comparison is the pointwise order, absent components counting as zero.\<close>

lemma compare_clocks_order:
  "compare_clocks a b = Rel_Before \<longleftrightarrow> clock_le a b \<and> \<not> clock_le b a"
  "compare_clocks a b = Rel_After \<longleftrightarrow> clock_le b a \<and> \<not> clock_le a b"
  "compare_clocks a b = Rel_Equal \<longleftrightarrow> (\<forall>k. tick_of a k = tick_of b k)"
  "compare_clocks a b = Rel_Concurrent \<longleftrightarrow> \<not> clock_le a b \<and> \<not> clock_le b a"
proof -
  have "compare_clocks a b =
      (case (clock_le a b, clock_le b a) of (True, True) \<Rightarrow> Rel_Equal | (True, False) \<Rightarrow> Rel_Before
       | (False, True) \<Rightarrow> Rel_After | (False, False) \<Rightarrow> Rel_Concurrent)"
    unfolding compare_clocks_def compare_loop_spec by (simp add: clock_keys_le [of a b] clock_keys_ge [of b a])
  moreover have "(\<forall>k. tick_of a k = tick_of b k) \<longleftrightarrow> clock_le a b \<and> clock_le b a"
    by (auto simp: clock_le_def order_eq_iff)
  ultimately show "compare_clocks a b = Rel_Before \<longleftrightarrow> clock_le a b \<and> \<not> clock_le b a"
    "compare_clocks a b = Rel_After \<longleftrightarrow> clock_le b a \<and> \<not> clock_le a b"
    "compare_clocks a b = Rel_Equal \<longleftrightarrow> (\<forall>k. tick_of a k = tick_of b k)"
    "compare_clocks a b = Rel_Concurrent \<longleftrightarrow> \<not> clock_le a b \<and> \<not> clock_le b a"
    by (simp_all split: bool.split)
qed

section \<open>Causal delivery\<close>

text \<open>A process that delivers what the rule allows, and counts what it has delivered.\<close>

fun deliver_all :: "clock \<Rightarrow> (string \<times> clock) list \<Rightarrow> clock option" where
  "deliver_all local [] = Some local"
| "deliver_all local ((sender, msg) # ms) =
     (if causally_deliverable local sender msg
      then deliver_all (btree_insert sender (tick_of msg sender) local) ms else None)"

definition small_clock :: "clock \<Rightarrow> bool" where
  "small_clock c \<longleftrightarrow> list_all (\<lambda>(_, v). 0 \<le> v \<and> v < 2 ^ 63 - 1) c"

lemma small_tick: "small_clock c \<Longrightarrow> 0 \<le> tick_of c k \<and> tick_of c k < 2 ^ 63 - 1"
  by (cases "map_of c k") (auto simp: small_clock_def tick_of_def list_all_iff dest: map_of_SomeD)

lemma tick_of_insert [simp]: "tick_of (btree_insert p n c) = (tick_of c)(p := n)"
  by (rule ext) (simp add: tick_of_def)

lemma deliverable_ticks:
  assumes "causally_deliverable local sender msg" "0 \<le> tick_of local sender" "tick_of local sender < 2 ^ 63 - 1"
    and "\<forall>k. 0 \<le> tick_of local k"
  shows "tick_of msg sender = tick_of local sender + 1" "k \<noteq> sender \<Longrightarrow> tick_of msg k \<le> tick_of local k"
proof -
  have "add_i64 (tick_of local sender) 1 = tick_of local sender + 1" using assms(2,3) by (simp add: add_i64_def wrap_i64_def i64_min_def)
  then show "tick_of msg sender = tick_of local sender + 1"
    using assms(1) by (simp add: causally_deliverable_def Let_def split: if_splits)
  assume k: "k \<noteq> sender"
  show "tick_of msg k \<le> tick_of local k"
  proof (cases "map_of msg k")
    case None
    then show ?thesis using assms(4) by (simp add: tick_of_def)
  next
    case (Some v)
    then have "(k, v) \<in> set msg" by (rule map_of_SomeD)
    then show ?thesis using assms(1) k Some
      by (auto simp: causally_deliverable_def Let_def list_all_iff tick_of_def [of msg] split: if_splits)
  qed
qed

text \<open>What is delivered later was not counted yet.\<close>

lemma delivered_new:
  assumes "deliver_all local ms \<noteq> None" "\<forall>(_, c) \<in> set ms. small_clock c" "small_clock local" "(p, c) \<in> set ms"
  shows "tick_of local p < tick_of c p"
  using assms
proof (induction ms arbitrary: local)
  case (Cons m ms)
  obtain sender msg where m: "m = (sender, msg)" by fastforce
  let ?l = "btree_insert sender (tick_of msg sender) local"
  have d: "causally_deliverable local sender msg" and rest: "deliver_all ?l ms \<noteq> None"
    using Cons.prems(1) by (simp_all add: m split: if_splits)
  have nonneg: "\<forall>k. 0 \<le> tick_of local k" "\<And>k. tick_of local k < 2 ^ 63 - 1" using small_tick [OF Cons.prems(3)] by blast+
  have t: "tick_of msg sender = tick_of local sender + 1" using deliverable_ticks(1) [OF d] nonneg by blast
  have sm: "small_clock msg" using Cons.prems(2) by (simp add: m)
  have "set ?l \<subseteq> insert (sender, tick_of msg sender) (set local)" by (rule set_btree_insert)
  then have sl: "small_clock ?l" using Cons.prems(3) small_tick [OF sm, of sender] by (auto simp: small_clock_def list_all_iff)
  show ?case
  proof (cases "(p, c) = m")
    case True
    then show ?thesis using t m by simp
  next
    case False
    then have "(p, c) \<in> set ms" using Cons.prems(4) by auto
    then have "tick_of ?l p < tick_of c p" using Cons.IH [OF rest _ sl] Cons.prems(2) by auto
    then show ?thesis using t by (auto split: if_splits)
  qed
qed simp

text \<open>causal order. When a process delivers messages by the rule, one after another from the start, a
  message that counts an earlier message of some sender is never delivered before it: in every
  accepted order, whatever is delivered after a message is not among its causes.\<close>
theorem causal_delivery_order:
  assumes "deliver_all [] (before @ (p, c) # later) \<noteq> None" "\<forall>(_, d) \<in> set (before @ (p, c) # later). small_clock d"
    and "(q, d) \<in> set later"
  shows "tick_of c q < tick_of d q"
proof -
  have run: "deliver_all (l :: clock) (before @ ms) \<noteq> None \<Longrightarrow> small_clock l \<Longrightarrow> \<forall>(_, d) \<in> set before. small_clock d \<Longrightarrow>
      \<exists>l'. small_clock l' \<and> deliver_all l' ms \<noteq> None" for l ms
  proof (induction before arbitrary: l)
    case (Cons m before)
    obtain s msg where m: "m = (s, msg)" by fastforce
    have sm: "small_clock msg" using Cons.prems(3) by (simp add: m)
    have "set (btree_insert s (tick_of msg s) l) \<subseteq> insert (s, tick_of msg s) (set l)" by (rule set_btree_insert)
    then have "small_clock (btree_insert s (tick_of msg s) l)"
      using Cons.prems(2) small_tick [OF sm, of s] by (auto simp: small_clock_def list_all_iff)
    then show ?case using Cons.IH [of "btree_insert s (tick_of msg s) l"] Cons.prems by (auto simp: m split: if_splits)
  qed auto
  obtain l where l: "small_clock l" "deliver_all l ((p, c) # later) \<noteq> None"
    using run [of "[]" "(p, c) # later"] assms(1,2) by (auto simp: small_clock_def)
  let ?l = "btree_insert p (tick_of c p) l"
  have d: "causally_deliverable l p c" and rest: "deliver_all ?l later \<noteq> None" using l(2) by (simp_all split: if_splits)
  have nonneg: "\<forall>k. 0 \<le> tick_of l k" "\<And>k. tick_of l k < 2 ^ 63 - 1" using small_tick [OF l(1)] by blast+
  have sc: "small_clock c" using assms(2) by simp
  have "set ?l \<subseteq> insert (p, tick_of c p) (set l)" by (rule set_btree_insert)
  then have sl: "small_clock ?l" using l(1) small_tick [OF sc, of p] by (auto simp: small_clock_def list_all_iff)
  have "tick_of ?l q < tick_of d q" using delivered_new [OF rest _ sl assms(3)] assms(2) by simp
  moreover have "tick_of c q \<le> tick_of ?l q" using deliverable_ticks(2) [OF d] nonneg by auto
  ultimately show ?thesis by simp
qed

theorem causal_delivery_order_witness:
  "tick_of [(''a'', 1)] ''b'' < tick_of [(''a'', 1), (''b'', 1)] ''b''"
  by (rule causal_delivery_order [where before = "[]" and p = "''a''" and later = "[(''b'', [(''a'', 1), (''b'', 1)])]"])
     (code_simp, simp_all add: small_clock_def)

section \<open>Quorums\<close>

lemma small_add: "- (2 ^ 63) \<le> a + b \<Longrightarrow> a + b < 2 ^ 63 \<Longrightarrow> add_i64 a b = a + b"
  by (simp add: add_i64_def wrap_i64_def i64_min_def)

text \<open>The arithmetic says what quorums do: any \<open>r\<close> and \<open>w\<close> of \<open>n\<close> replicas share one.\<close>

lemma sets_meet:
  assumes "r \<le> n" "w \<le> n"
  shows "(\<forall>R W. R \<subseteq> {..<n :: nat} \<longrightarrow> W \<subseteq> {..<n} \<longrightarrow> card R = r \<longrightarrow> card W = w \<longrightarrow> R \<inter> W \<noteq> {}) \<longleftrightarrow> n < r + w"
proof
  assume meet: "\<forall>R W. R \<subseteq> {..<n} \<longrightarrow> W \<subseteq> {..<n} \<longrightarrow> card R = r \<longrightarrow> card W = w \<longrightarrow> R \<inter> W \<noteq> {}"
  show "n < r + w"
  proof (rule ccontr)
    assume "\<not> n < r + w"
    then have "{..<r} \<subseteq> {..<n}" "{n - w..<n} \<subseteq> {..<n}" "{..<r} \<inter> {n - w..<n} = {}" "card {n - w..<n} = w" by auto
    then show False using meet by (metis card_lessThan)
  qed
next
  assume "n < r + w"
  show "\<forall>R W. R \<subseteq> {..<n} \<longrightarrow> W \<subseteq> {..<n} \<longrightarrow> card R = r \<longrightarrow> card W = w \<longrightarrow> R \<inter> W \<noteq> {}"
  proof (intro allI impI notI)
    fix R W assume s: "R \<subseteq> {..<n}" "W \<subseteq> {..<n}" "card R = r" "card W = w" "R \<inter> W = {}"
    have "finite R" "finite W" using finite_subset [OF s(1)] finite_subset [OF s(2)] by simp_all
    then have "card (R \<union> W) = r + w" using s by (simp add: card_Un_disjoint)
    moreover have "card (R \<union> W) \<le> card {..<n}" using s by (intro card_mono) auto
    ultimately show False using \<open>n < r + w\<close> by simp
  qed
qed

end
