(* ===== verification/Oracle_Theorems.thy ===== *)
theory Oracle_Theorems
  imports Oracle_Laws
begin

text \<open>
  Merkle trees, differing ranges and the replay of every order.
\<close>

section \<open>Merkle trees\<close>

text \<open>The tree behind the levels.\<close>

datatype mtree = MLeaf bytes | MNode mtree mtree

fun tree_leaves :: "mtree \<Rightarrow> bytes list" where
  "tree_leaves (MLeaf b) = [b]"
| "tree_leaves (MNode l r) = tree_leaves l @ tree_leaves r"

fun tree_hash :: "(bytes \<Rightarrow> bytes) \<Rightarrow> mtree \<Rightarrow> string" where
  "tree_hash sha (MLeaf b) = merkle_leaf sha b"
| "tree_hash sha (MNode l r) = merkle_node sha (tree_hash sha l) (tree_hash sha r)"

text \<open>What is hashed on the way to the root.\<close>

fun tree_hashed :: "(bytes \<Rightarrow> bytes) \<Rightarrow> mtree \<Rightarrow> bytes set" where
  "tree_hashed sha (MLeaf b) = {0 # b}"
| "tree_hashed sha (MNode l r) =
     insert (1 # as_bytes (tree_hash sha l) @ as_bytes (tree_hash sha r)) (tree_hashed sha l \<union> tree_hashed sha r)"

definition merkle_tree :: "bytes list \<Rightarrow> mtree" where
  "merkle_tree leaves = hd (last (levels_from MNode (map MLeaf leaves)))"

definition merkle_hashed :: "(bytes \<Rightarrow> bytes) \<Rightarrow> bytes list \<Rightarrow> bytes set" where
  "merkle_hashed sha leaves = (if leaves = [] then {[]} else tree_hashed sha (merkle_tree leaves))"

lemma join_pairs_map: "(\<And>x y. h (f x y) = g (h x) (h y)) \<Longrightarrow> join_pairs g (map h xs) = map h (join_pairs f xs)"
  by (induction f xs rule: join_pairs.induct) simp_all

lemma levels_from_map:
  "(\<And>x y. h (f x y) = g (h x) (h y)) \<Longrightarrow> levels_from g (map h xs) = map (map h) (levels_from f xs)"
proof (induction f xs rule: levels_from.induct)
  case (1 f level)
  have join: "join_pairs g (map h level) = map h (join_pairs f level)" by (rule join_pairs_map) (rule 1(2))
  show ?case
  proof (cases "length level > 1")
    case True
    then have "levels_from g (map h (join_pairs f level)) = map (map h) (levels_from f (join_pairs f level))"
      using 1 by blast
    then show ?thesis using True join by (simp add: levels_from.simps [of _ "map h level"] levels_from.simps [of _ level])
  next
    case False
    then show ?thesis by (simp add: levels_from.simps [of _ "map h level"] levels_from.simps [of _ level])
  qed
qed

lemma join_pairs_leaves: "concat (map tree_leaves (join_pairs MNode ts)) = concat (map tree_leaves ts)"
  by (induction MNode ts rule: join_pairs.induct) simp_all

lemma levels_from_last:
  "xs \<noteq> [] \<Longrightarrow> levels_from MNode xs \<noteq> [] \<and> (\<exists>t. last (levels_from MNode xs) = [t] \<and> tree_leaves t = concat (map tree_leaves xs))"
proof (induction MNode xs rule: levels_from.induct)
  case (1 level)
  show ?case
  proof (cases "length level > 1")
    case True
    then have "join_pairs MNode level \<noteq> []" using length_join_pairs [of MNode level] by (cases "join_pairs MNode level") auto
    then obtain t where t: "levels_from MNode (join_pairs MNode level) \<noteq> []" "last (levels_from MNode (join_pairs MNode level)) = [t]"
        "tree_leaves t = concat (map tree_leaves (join_pairs MNode level))"
      using 1(1) True by blast
    then show ?thesis using True by (simp add: levels_from.simps [of _ level] join_pairs_leaves)
  next
    case False
    then obtain t where "level = [t]" using 1(2) by (cases level) (auto simp: length_Suc_conv Suc_le_eq)
    then show ?thesis by (simp add: levels_from.simps [of _ "[t]"])
  qed
qed

lemma merkle_tree_leaves: "leaves \<noteq> [] \<Longrightarrow> tree_leaves (merkle_tree leaves) = leaves"
  using levels_from_last [of "map MLeaf leaves"] by (auto simp: merkle_tree_def comp_def)

lemma merkle_root_tree: "leaves \<noteq> [] \<Longrightarrow> merkle_root sha leaves = tree_hash sha (merkle_tree leaves)"
proof -
  assume l: "leaves \<noteq> []"
  obtain t where t: "levels_from MNode (map MLeaf leaves) \<noteq> []" "last (levels_from MNode (map MLeaf leaves)) = [t]"
    using levels_from_last [of "map MLeaf leaves"] l by auto
  have "merkle_levels sha leaves = map (map (tree_hash sha)) (levels_from MNode (map MLeaf leaves))"
    using levels_from_map [of "tree_hash sha" MNode "merkle_node sha" "map MLeaf leaves"] l
    by (simp add: merkle_levels_def comp_def)
  moreover obtain us where "levels_from MNode (map MLeaf leaves) = us @ [[t]]" using t append_butlast_last_id by metis
  ultimately show ?thesis by (simp add: merkle_root_def merkle_tree_def)
qed

text \<open>Hexadecimal loses nothing.\<close>

lemma of_digit_char: "d < 16 \<Longrightarrow> of_char (digit_char d) = (if d < 10 then 48 + d else 87 + d)"
  by (simp add: digit_char_def)

lemma digit_char_inj: "i < 16 \<Longrightarrow> j < 16 \<Longrightarrow> digit_char i = digit_char j \<Longrightarrow> i = j"
proof -
  assume a: "i < 16" "j < 16" "digit_char i = digit_char j"
  have "(if i < 10 then 48 + i else 87 + i) = (if j < 10 then 48 + j else 87 + j)"
    unfolding of_digit_char [OF a(1), symmetric] of_digit_char [OF a(2), symmetric] a(3) ..
  then show "i = j" using a(1,2) by (simp split: if_splits)
qed

lemma hex2_inj: "hex2 a = hex2 b \<Longrightarrow> a = b"
proof -
  assume h: "hex2 a = hex2 b"
  have "unat a < 256" "unat b < 256" using unsigned_less [of a] unsigned_less [of b] by simp_all
  then have "unat a div 16 < 16" "unat b div 16 < 16" by simp_all
  then have "unat a div 16 = unat b div 16" "unat a mod 16 = unat b mod 16"
    using h digit_char_inj by (simp_all add: hex2_def)
  then show "a = b" by (metis div_mult_mod_eq word_unat_eq_iff)
qed

lemma hex_text_inj: "hex_text x = hex_text y \<Longrightarrow> x = y"
proof (induction x arbitrary: y)
  case Nil
  then show ?case by (cases y) (simp_all add: hex_text_def hex2_def)
next
  case (Cons a x)
  then obtain b y' where y: "y = b # y'" by (cases y) (simp_all add: hex_text_def hex2_def)
  then have "hex2 a = hex2 b" "hex_text x = hex_text y'" using Cons.prems by (simp_all add: hex_text_def hex2_def)
  then show ?case using Cons.IH hex2_inj y by blast
qed

lemma length_hex_text: "length (hex_text x) = 2 * length x"
  by (induction x) (simp_all add: hex_text_def hex2_def)

definition sha_sized :: "(bytes \<Rightarrow> bytes) \<Rightarrow> bool" where
  "sha_sized sha \<longleftrightarrow> (\<forall>x. length (sha x) = 32)"

lemma length_tree_hash: "sha_sized sha \<Longrightarrow> length (tree_hash sha t) = 64"
  by (cases t) (simp_all add: merkle_leaf_def merkle_node_def length_hex_text sha_sized_def)

lemma as_bytes_same: "as_bytes a = as_bytes b \<Longrightarrow> a = b"
  by (metis as_chars_as_bytes)

lemma length_as_bytes': "length (as_bytes s) = length s"
  by (simp add: as_bytes_def)

lemma tree_hash_inj:
  assumes "sha_sized sha" "inj_on sha (tree_hashed sha s \<union> tree_hashed sha t)" "tree_hash sha s = tree_hash sha t"
  shows "s = t"
  using assms(2,3)
proof (induction s arbitrary: t)
  case (MLeaf b)
  show ?case
  proof (cases t)
    case (MLeaf c)
    then have "sha (0 # b) = sha (0 # c)" using MLeaf.prems(2) hex_text_inj by (auto simp: merkle_leaf_def)
    then have "0 # b = 0 # c" by (rule inj_onD [OF MLeaf.prems(1)]) (simp_all add: MLeaf)
    then show ?thesis by (simp add: MLeaf)
  next
    case (MNode l r)
    then have "sha (0 # b) = sha (1 # as_bytes (tree_hash sha l) @ as_bytes (tree_hash sha r))"
      using MLeaf.prems(2) hex_text_inj by (auto simp: merkle_leaf_def merkle_node_def)
    then have "0 # b = 1 # as_bytes (tree_hash sha l) @ as_bytes (tree_hash sha r)"
      by (rule inj_onD [OF MLeaf.prems(1)]) (simp_all add: MNode)
    then show ?thesis by simp
  qed
next
  case (MNode l r)
  show ?case
  proof (cases t)
    case (MLeaf c)
    then have "sha (1 # as_bytes (tree_hash sha l) @ as_bytes (tree_hash sha r)) = sha (0 # c)"
      using MNode.prems(2) hex_text_inj by (auto simp: merkle_leaf_def merkle_node_def)
    then have "1 # as_bytes (tree_hash sha l) @ as_bytes (tree_hash sha r) = 0 # c"
      by (rule inj_onD [OF MNode.prems(1)]) (simp_all add: MLeaf)
    then show ?thesis by simp
  next
    case (MNode l' r')
    then have "sha (1 # as_bytes (tree_hash sha l) @ as_bytes (tree_hash sha r)) = sha (1 # as_bytes (tree_hash sha l') @ as_bytes (tree_hash sha r'))"
      using MNode.prems(2) hex_text_inj by (auto simp: merkle_node_def)
    then have "1 # as_bytes (tree_hash sha l) @ as_bytes (tree_hash sha r) = 1 # as_bytes (tree_hash sha l') @ as_bytes (tree_hash sha r')"
      by (rule inj_onD [OF MNode.prems(1)]) (simp_all add: MNode)
    then have "tree_hash sha l = tree_hash sha l'" "tree_hash sha r = tree_hash sha r'"
      using length_tree_hash [OF assms(1)] by (auto simp: append_eq_append_conv length_as_bytes' intro: as_bytes_same)
    moreover have "inj_on sha (tree_hashed sha l \<union> tree_hashed sha l')" "inj_on sha (tree_hashed sha r \<union> tree_hashed sha r')"
      using MNode.prems(1) MNode by (auto elim: inj_on_subset)
    ultimately show ?thesis using MNode.IH MNode by blast
  qed
qed

text \<open>C39: a Merkle root identifies its leaves. Two lists of leaves, of any lengths, have the same root
  exactly when they are the same list, unless SHA-256 collides on one of the inputs that are hashed
  on the way to the two roots.\<close>
theorem merkle_root_identifies:
  assumes "sha_sized sha" "inj_on sha (merkle_hashed sha a \<union> merkle_hashed sha b)"
  shows "merkle_root sha a = merkle_root sha b \<longleftrightarrow> a = b"
proof
  assume same: "merkle_root sha a = merkle_root sha b"
  have empty: "merkle_root sha [] = hex_text (sha [])" by (simp add: merkle_root_def merkle_levels_def)
  have apart: False if "x \<noteq> []" "hex_text (sha []) = tree_hash sha (merkle_tree x)"
    "inj_on sha (insert [] (tree_hashed sha (merkle_tree x)))" for x
    using that by (cases "merkle_tree x") (auto simp: merkle_leaf_def merkle_node_def dest!: hex_text_inj dest: inj_onD)
  consider "a = []" "b = []" | "a = []" "b \<noteq> []" | "a \<noteq> []" "b = []" | "a \<noteq> []" "b \<noteq> []" by blast
  then show "a = b"
  proof cases
    case 2
    then show ?thesis using apart [of b] assms(2) same by (simp add: empty merkle_root_tree merkle_hashed_def)
  next
    case 3
    then show ?thesis using apart [of a] assms(2) same by (simp add: empty merkle_root_tree merkle_hashed_def)
  next
    case 4
    then have "merkle_tree a = merkle_tree b"
      using assms same tree_hash_inj [of sha "merkle_tree a" "merkle_tree b"] by (simp add: merkle_root_tree merkle_hashed_def)
    then show ?thesis using merkle_tree_leaves 4 by metis
  qed simp
qed simp

definition first_bytes :: "bytes \<Rightarrow> bytes" where
  "first_bytes x = take 32 (x @ replicate 32 0)"

theorem merkle_root_identifies_witness:
  "(merkle_root first_bytes [[1], [3]] = merkle_root first_bytes [[2], [3]]) = ([[1], [3 :: u8]] = [[2], [3]])"
proof (rule merkle_root_identifies)
  show "sha_sized first_bytes" by (auto simp: sha_sized_def first_bytes_def)
  show "inj_on first_bytes (merkle_hashed first_bytes [[1], [3]] \<union> merkle_hashed first_bytes [[2], [3]])"
    by (simp add: inj_on_def merkle_hashed_def merkle_tree_def levels_from.simps merkle_leaf_def hex_text_def
          first_bytes_def hex2_def digit_char_def as_bytes_def)
qed

section \<open>Ranges that differ\<close>

definition covered :: "(nat \<times> nat) list \<Rightarrow> nat set" where
  "covered out = (\<Union>(lo, hi) \<in> set out. {lo..hi})"

definition apart :: "nat \<times> nat \<Rightarrow> nat \<times> nat \<Rightarrow> bool" where
  "apart r s \<longleftrightarrow> snd r + 1 < fst s"

definition ranges_upto :: "nat \<Rightarrow> (nat \<times> nat) list \<Rightarrow> bool" where
  "ranges_upto n out \<longleftrightarrow> sorted_wrt apart out \<and> (\<forall>(lo, hi) \<in> set out. lo \<le> hi \<and> hi < n)"

lemma covered_append [simp]: "covered (a @ b) = covered a \<union> covered b"
  by (simp add: covered_def)

lemma extend_ranges_upto:
  assumes "ranges_upto i out"
  shows "ranges_upto (Suc i) (extend_ranges out i) \<and> covered (extend_ranges out i) = insert i (covered out)"
proof (cases out rule: rev_cases)
  case Nil
  then show ?thesis by (simp add: extend_ranges_def ranges_upto_def covered_def)
next
  case (snoc before r)
  obtain lo hi where r: "r = (lo, hi)" by fastforce
  have b: "sorted_wrt apart before" "\<forall>x \<in> set before. apart x (lo, hi)" "lo \<le> hi" "hi < i"
    "\<forall>(l, h) \<in> set before. l \<le> h \<and> h < i"
    using assms by (auto simp: snoc r ranges_upto_def sorted_wrt_append)
  show ?thesis
  proof (cases "hi + 1 = i")
    case True
    have "{lo..i} = insert i {lo..hi}" using True b(3) by auto
    then show ?thesis using True b
      by (auto simp: snoc r extend_ranges_def ranges_upto_def sorted_wrt_append covered_def apart_def)
  next
    case False
    have "apart x (i, i)" if "x \<in> set before" for x
      using b(2-4) that by (auto simp: apart_def)
    then show ?thesis using False b
      by (auto simp: snoc r extend_ranges_def ranges_upto_def sorted_wrt_append covered_def apart_def)
  qed
qed

text \<open>the expected answer of an anti-entropy round. The ranges reported for two replicas cover exactly
  the positions where they differ, a position past the end of the shorter one included, and they
  are the maximal ones: in increasing order with at least one equal position between two of them.\<close>
theorem differing_ranges_exact:
  "covered (differing_ranges a b) = {i. list_get a i \<noteq> list_get b i} \<and>
   sorted_wrt (\<lambda>(_, hi) (lo, _). hi + 1 < lo) (differing_ranges a b)"
proof -
  define f where "f = (\<lambda>out i. if list_get a i \<noteq> list_get b i then extend_ranges out i else out)"
  have "ranges_upto n (foldl f [] [0..<n]) \<and> covered (foldl f [] [0..<n]) = {i. i < n \<and> list_get a i \<noteq> list_get b i}" for n
  proof (induction n)
    case 0
    then show ?case by (simp add: ranges_upto_def covered_def)
  next
    case (Suc n)
    have "ranges_upto n out \<Longrightarrow> ranges_upto (Suc n) out" for out by (auto simp: ranges_upto_def)
    then show ?case using Suc extend_ranges_upto [of n "foldl f [] [0..<n]"] by (auto simp: f_def less_Suc_eq)
  qed
  note loop = this [of "max (length a) (length b)"]
  have "differing_ranges a b = foldl f [] [0..<max (length a) (length b)]" by (simp only: differing_ranges_def f_def)
  then show ?thesis using loop
    by (auto simp: ranges_upto_def list_get_def apart_def case_prod_beta' intro: sorted_wrt_mono_rel [rotated] split: if_splits)
qed

section \<open>Every order\<close>

text \<open>The orders the recursion appends.\<close>

fun orders :: "nat \<Rightarrow> nat \<Rightarrow> 'a list \<Rightarrow> 'a list list" where
  "orders 0 k items = [items]"
| "orders (Suc left) k items = concat (map (\<lambda>i. orders left (k + 1) (swap_items k i items)) [k..<length items])"

lemma swap_twice: "i < length items \<Longrightarrow> k < length items \<Longrightarrow> swap_items k i (swap_items k i items) = items"
  by (rule nth_equalityI) (auto simp: swap_items_def nth_list_update)

lemma length_swap [simp]: "length (swap_items k i items) = length items"
  by (simp add: swap_items_def)

lemma mset_swap_items: "i < length items \<Longrightarrow> k < length items \<Longrightarrow> mset (swap_items k i items) = mset items"
  by (simp add: swap_items_def mset_swap)

lemma permute_left_orders: "k + left = length items \<Longrightarrow> permute_left left k items out = (items, out @ orders left k items)"
proof (induction left arbitrary: k items out)
  case (Suc left)
  have "\<forall>i \<in> set is. k \<le> i \<and> i < length items \<Longrightarrow>
      permute_loop (permute_left left (k + 1)) k is items out =
        (items, out @ concat (map (\<lambda>i. orders left (k + 1) (swap_items k i items)) is))" for "is" out
    using Suc by (induction "is" arbitrary: out) (simp_all add: swap_twice)
  then show ?case by simp
qed simp

lemma distinct_concat_map:
  "distinct is \<Longrightarrow> (\<And>i. i \<in> set is \<Longrightarrow> distinct (f i)) \<Longrightarrow>
   (\<And>i j. i \<in> set is \<Longrightarrow> j \<in> set is \<Longrightarrow> i \<noteq> j \<Longrightarrow> set (f i) \<inter> set (f j) = {}) \<Longrightarrow> distinct (concat (map f is))"
  for "is" :: "'a list"
proof (induction "is")
  case (Cons a as)
  have "distinct (concat (map f as))" using Cons.prems by (intro Cons.IH) auto
  moreover have "set (f a) \<inter> set (f i) = {}" if "i \<in> set as" for i using Cons.prems that by (metis distinct.simps(2) list.set_intros)
  moreover have "distinct (f a)" using Cons.prems(2) by simp
  ultimately show ?case by auto
qed simp

lemma orders_perms:
  "k + left = length items \<Longrightarrow> distinct items \<Longrightarrow>
   distinct (orders left k items) \<and> set (orders left k items) = {xs. take k xs = take k items \<and> mset xs = mset items}"
proof (induction left arbitrary: k items)
  case 0
  then show ?case by (auto dest: mset_eq_length)
next
  case (Suc left)
  let ?sw = "\<lambda>i. swap_items k i items"
  have below: "distinct (orders left (k + 1) (?sw i)) \<and>
      set (orders left (k + 1) (?sw i)) = {xs. take k xs = take k items \<and> xs ! k = items ! i \<and> mset xs = mset items}"
    if i: "k \<le> i" "i < length items" for i
  proof -
    have ms: "mset (?sw i) = mset items" using i Suc.prems(1) by (intro mset_swap_items) auto
    then have "distinct (?sw i)" using Suc.prems(2) by (metis mset_eq_imp_distinct_iff)
    moreover have "take (k + 1) (?sw i) = take k items @ [items ! i]"
      using i Suc.prems(1) by (simp add: take_Suc_conv_app_nth swap_items_def nth_list_update)
    moreover have "take (k + 1) xs = take k items @ [items ! i] \<longleftrightarrow> take k xs = take k items \<and> xs ! k = items ! i"
      if "mset xs = mset items" for xs
      using i Suc.prems(1) mset_eq_length [OF that] by (simp add: take_Suc_conv_app_nth)
    ultimately show ?thesis using Suc.IH [of "k + 1" "?sw i"] Suc.prems(1) ms by auto
  qed
  have "\<exists>i. k \<le> i \<and> i < length items \<and> xs ! k = items ! i" if xs: "take k xs = take k items" "mset xs = mset items" for xs
  proof -
    have "mset (take k xs) + mset (drop k xs) = mset (take k items) + mset (drop k items)"
      using xs(2) by (simp flip: mset_append)
    then have "mset (drop k xs) = mset (drop k items)" using xs(1) by simp
    moreover have "xs ! k \<in> set (drop k xs)" using mset_eq_length [OF xs(2)] Suc.prems(1)
      by (auto simp: in_set_conv_nth intro!: exI [of _ 0])
    ultimately have "xs ! k \<in> set (drop k items)" by (metis set_mset_mset)
    then obtain j where "j < length items - k" "xs ! k = items ! (k + j)" by (auto simp: in_set_conv_nth)
    then show ?thesis by (intro exI [of _ "k + j"]) auto
  qed
  then have "set (orders (Suc left) k items) = {xs. take k xs = take k items \<and> mset xs = mset items}"
    using below by fastforce
  moreover have "distinct (orders (Suc left) k items)"
    unfolding orders.simps
  proof (rule distinct_concat_map)
    show "set (orders left (k + 1) (?sw i)) \<inter> set (orders left (k + 1) (?sw j)) = {}"
      if "i \<in> set [k..<length items]" "j \<in> set [k..<length items]" "i \<noteq> j" for i j
      using below [of i] below [of j] that Suc.prems(2) by (auto simp: nth_eq_iff_index_eq)
  qed (use below in auto)
  ultimately show ?case by blast
qed

text \<open>the replay of every order. The oracle that checks a merge under all interleavings tries each order
  of the \<open>n\<close> messages, each exactly once.\<close>
theorem permutations_all:
  "distinct (permutations_of n) \<and> set (permutations_of n) = {p. mset p = mset [0..<n]}"
  using orders_perms [of 0 n "[0..<n]"] by (simp add: permutations_of_def permute_def permute_left_orders)

end
