(* ===== verification/Raft.thy ===== *)
theory Raft
  imports Topics
begin

text \<open>
  Raft, as \<^verbatim>\<open>disttest/examples/alg/raft.rs\<close> plays it: one node's elections, the follower's log, the
  leader's commit rule. Every command of a topic is one definition. Terms and indices are \<open>i64\<close>.
\<close>

section \<open>Elections\<close>

datatype role = Role_Follower | Role_Candidate | Role_Leader

fun role_text :: "role \<Rightarrow> string" where
  "role_text Role_Follower = ''follower''"
| "role_text Role_Candidate = ''candidate''"
| "role_text Role_Leader = ''leader''"

record election =
  el_members :: nat
  el_term :: int
  el_role :: role
  el_voted_for :: "string option"
  el_leader :: "string option"
  el_granters :: "string list"
  el_log :: "int list"

definition election_default :: election where
  "election_default =
     \<lparr>el_members = 0, el_term = 0, el_role = Role_Follower, el_voted_for = None, el_leader = None,
      el_granters = [], el_log = []\<rparr>"

definition el_majority :: "election \<Rightarrow> nat" where
  "el_majority s = el_members s div 2 + 1"

definition el_last_index :: "election \<Rightarrow> int" where
  "el_last_index s = int (length (el_log s))"

definition last_or_zero :: "int list \<Rightarrow> int" where
  "last_or_zero log = (if log = [] then 0 else last log)"

definition el_last_term :: "election \<Rightarrow> int" where
  "el_last_term s = last_or_zero (el_log s)"

definition el_step_down :: "int \<Rightarrow> election \<Rightarrow> election" where
  "el_step_down t s =
     s\<lparr>el_term := t, el_role := Role_Follower, el_voted_for := None, el_leader := None, el_granters := []\<rparr>"

definition el_up_to_date :: "election \<Rightarrow> int \<Rightarrow> int \<Rightarrow> bool" where
  "el_up_to_date s last_index last_term =
     (if last_term > el_last_term s then True
      else if last_term < el_last_term s then False
      else last_index \<ge> el_last_index s)"

definition el_state :: "election \<Rightarrow> json" where
  "el_state s =
     JObj [(''state'', JStr (role_text (el_role s))), (''term'', JInt (el_term s)),
           (''voted_for'', json_opt JStr (el_voted_for s)), (''votes'', count_json (length (el_granters s))),
           (''leader'', json_opt JStr (el_leader s)), (''last_index'', JInt (el_last_index s)),
           (''last_term'', JInt (el_last_term s))]"

definition el_init :: "string list \<Rightarrow> election \<Rightarrow> json \<times> election" where
  "el_init args s =
     with_arg (uint_arg args 0) (\<lambda>n.
       if n \<ge> 1
       then (let s = election_default\<lparr>el_members := n\<rparr>
             in (JObj [(''ok'', JBool True), (''members'', count_json n), (''majority'', count_json (el_majority s))], s))
       else (reply_err ''a cluster needs at least one member'', s)) s"

definition el_log_append :: "string list \<Rightarrow> election \<Rightarrow> json \<times> election" where
  "el_log_append args s =
     with_arg (int_arg args 0) (\<lambda>t.
       (let s = s\<lparr>el_log := el_log s @ [t]\<rparr>
        in (JObj [(''last_index'', JInt (el_last_index s)), (''last_term'', JInt (el_last_term s))], s))) s"

definition el_timeout :: "election \<Rightarrow> json \<times> election" where
  "el_timeout s =
     (if el_role s = Role_Leader then (el_state s, s)
      else (let s = s\<lparr>el_term := wrap_i64 (el_term s + 1), el_role := Role_Candidate, el_voted_for := Some ''self'',
                       el_leader := None, el_granters := [''self'']\<rparr>
            in (el_state s, s)))"

definition vote_reply :: "election \<Rightarrow> bool \<Rightarrow> json" where
  "vote_reply s granted =
     JObj [(''term'', JInt (el_term s)), (''granted'', JBool granted), (''state'', JStr (role_text (el_role s)))]"

definition el_vote :: "int \<Rightarrow> string \<Rightarrow> int \<Rightarrow> int \<Rightarrow> election \<Rightarrow> json \<times> election" where
  "el_vote t candidate last_index last_term s =
     (if t < el_term s then (vote_reply s False, s)
      else
        (let s = (if t > el_term s then el_step_down t s else s);
             free = (case el_voted_for s of None \<Rightarrow> True | Some who \<Rightarrow> who = candidate);
             granted = (free \<and> el_up_to_date s last_index last_term);
             s = (if granted then s\<lparr>el_voted_for := Some candidate\<rparr> else s)
         in (vote_reply s granted, s)))"

definition el_request_vote :: "string list \<Rightarrow> election \<Rightarrow> json \<times> election" where
  "el_request_vote args s =
     with_arg (int_arg args 0) (\<lambda>t. with_arg (word_arg args 1) (\<lambda>candidate.
     with_arg (int_arg args 2) (\<lambda>last_index. with_arg (int_arg args 3) (\<lambda>last_term.
       el_vote t candidate last_index last_term s) s) s) s) s"

definition el_count_vote :: "int \<Rightarrow> string \<Rightarrow> bool \<Rightarrow> election \<Rightarrow> election" where
  "el_count_vote t voter granted s =
     (if t = el_term s \<and> el_role s = Role_Candidate \<and> granted
      then (let s = s\<lparr>el_granters := bset_insert voter (el_granters s)\<rparr>
            in if length (el_granters s) \<ge> el_majority s
               then s\<lparr>el_role := Role_Leader, el_leader := Some ''self''\<rparr> else s)
      else s)"

definition el_vote_response :: "string list \<Rightarrow> election \<Rightarrow> json \<times> election" where
  "el_vote_response args s =
     with_arg (int_arg args 0) (\<lambda>t. with_arg (word_arg args 1) (\<lambda>voter.
     with_arg (flag_arg args 2 ''true'' ''false'') (\<lambda>granted.
       (let s = (if t > el_term s then el_step_down t s else el_count_vote t voter granted s)
        in (el_state s, s))) s) s) s"

definition el_append_entries :: "string list \<Rightarrow> election \<Rightarrow> json \<times> election" where
  "el_append_entries args s =
     with_arg (int_arg args 0) (\<lambda>t. with_arg (word_arg args 1) (\<lambda>leader.
       if t < el_term s
       then (JObj [(''term'', JInt (el_term s)), (''success'', JBool False),
                   (''state'', JStr (role_text (el_role s)))], s)
       else
         (let s = (if t > el_term s then el_step_down t s else s\<lparr>el_role := Role_Follower\<rparr>);
              s = s\<lparr>el_leader := Some leader\<rparr>
          in (JObj [(''term'', JInt (el_term s)), (''success'', JBool True), (''state'', JStr ''follower'')], s))) s) s"

definition election_step :: "election \<Rightarrow> string \<Rightarrow> string list \<Rightarrow> json \<times> election" where
  "election_step s command args =
     (if command = ''init'' then el_init args s
      else if command = ''state'' then (el_state s, s)
      else if command = ''log-append'' then el_log_append args s
      else if command = ''timeout'' then el_timeout s
      else if command = ''request-vote'' then el_request_vote args s
      else if command = ''vote-response'' then el_vote_response args s
      else if command = ''append-entries'' then el_append_entries args s
      else (unknown_command command, s))"

section \<open>The follower's log\<close>

record log_replication =
  lr_term :: int
  lr_log :: "int list"
  lr_commit_index :: int

definition lr_default :: log_replication where
  "lr_default = \<lparr>lr_term = 0, lr_log = [], lr_commit_index = 0\<rparr>"

definition lr_last_index :: "log_replication \<Rightarrow> int" where
  "lr_last_index s = int (length (lr_log s))"

definition lr_last_term :: "log_replication \<Rightarrow> int" where
  "lr_last_term s = last_or_zero (lr_log s)"

text \<open>\<open>term_at\<close>, which the follower's and the leader's log share.\<close>

definition log_entry_at :: "int list \<Rightarrow> int \<Rightarrow> int option" where
  "log_entry_at log index =
     (if index \<ge> 1 \<and> index \<le> int (length log) then Some (log ! nat (index - 1)) else None)"

definition lr_term_at :: "log_replication \<Rightarrow> int \<Rightarrow> int option" where
  "lr_term_at s index = log_entry_at (lr_log s) index"

function run_back :: "log_replication \<Rightarrow> int \<Rightarrow> int \<Rightarrow> int" where
  "run_back s t first =
     (if first > 1 \<and> lr_term_at s (first - 1) = Some t then run_back s t (first - 1) else first)"
  by pat_completeness auto

termination
  by (relation "measure (\<lambda>(s, t, first). nat first)") auto

declare run_back.simps [simp del]

definition run_start :: "log_replication \<Rightarrow> int \<Rightarrow> int" where
  "run_start s index = (case lr_term_at s index of None \<Rightarrow> index | Some t \<Rightarrow> run_back s t index)"

definition lr_answer :: "log_replication \<Rightarrow> bool \<Rightarrow> int \<Rightarrow> json" where
  "lr_answer s success conflict_index =
     JObj [(''term'', JInt (lr_term s)), (''success'', JBool success), (''last_index'', JInt (lr_last_index s)),
           (''last_term'', JInt (lr_last_term s)), (''commit_index'', JInt (lr_commit_index s)),
           (''conflict_index'', JInt conflict_index)]"

definition lr_init :: "json_parser \<Rightarrow> (json \<Rightarrow> string) \<Rightarrow> string list \<Rightarrow> log_replication \<Rightarrow> json \<times> log_replication" where
  "lr_init parse render args s =
     with_arg (int_list_arg parse render args 0) (\<lambda>terms.
       (let s = s\<lparr>lr_term := last_or_zero terms, lr_log := terms, lr_commit_index := 0\<rparr>
        in (JObj [(''term'', JInt (lr_term s)), (''last_index'', JInt (lr_last_index s)),
                  (''last_term'', JInt (lr_last_term s)), (''commit_index'', JInt (lr_commit_index s))], s))) s"

definition lr_set_term :: "string list \<Rightarrow> log_replication \<Rightarrow> json \<times> log_replication" where
  "lr_set_term args s = with_arg (int_arg args 0) (\<lambda>t. (JObj [(''term'', JInt t)], s\<lparr>lr_term := t\<rparr>)) s"

definition lr_put :: "int \<Rightarrow> int \<Rightarrow> log_replication \<Rightarrow> log_replication" where
  "lr_put idx entry s =
     (case lr_term_at s idx of
        Some existing \<Rightarrow>
          if existing = entry then s else s\<lparr>lr_log := take (nat (idx - 1)) (lr_log s) @ [entry]\<rparr>
      | None \<Rightarrow> s\<lparr>lr_log := lr_log s @ [entry]\<rparr>)"

fun lr_put_all :: "int \<Rightarrow> int list \<Rightarrow> log_replication \<Rightarrow> log_replication" where
  "lr_put_all idx [] s = s"
| "lr_put_all idx (entry # entries) s = lr_put_all (idx + 1) entries (lr_put idx entry s)"

definition lr_raise_commit :: "int \<Rightarrow> int \<Rightarrow> log_replication \<Rightarrow> log_replication" where
  "lr_raise_commit leader_commit last_new s =
     (if leader_commit > lr_commit_index s
      then s\<lparr>lr_commit_index := max (lr_commit_index s) (min leader_commit last_new)\<rparr> else s)"

definition lr_apply :: "int \<Rightarrow> int \<Rightarrow> int \<Rightarrow> int \<Rightarrow> int list \<Rightarrow> log_replication \<Rightarrow> json \<times> log_replication" where
  "lr_apply t prev_index prev_term leader_commit entries s =
     (if prev_index < 0 then (reply_err ''prev_index must not be negative'', s)
      else if t < lr_term s then (lr_answer s False 0, s)
      else
        (let s = s\<lparr>lr_term := t\<rparr> in
         if prev_index > lr_last_index s then (lr_answer s False (lr_last_index s + 1), s)
         else if prev_index \<ge> 1 \<and> lr_term_at s prev_index \<noteq> Some prev_term
         then (lr_answer s False (run_start s prev_index), s)
         else
           (let s = lr_put_all (prev_index + 1) entries s;
                s = lr_raise_commit leader_commit (prev_index + int (length entries)) s
            in (lr_answer s True 0, s))))"

definition lr_append :: "json_parser \<Rightarrow> (json \<Rightarrow> string) \<Rightarrow> string list \<Rightarrow> log_replication \<Rightarrow> json \<times> log_replication" where
  "lr_append parse render args s =
     with_arg (int_arg args 0) (\<lambda>t. with_arg (int_arg args 1) (\<lambda>prev_index.
     with_arg (int_arg args 2) (\<lambda>prev_term. with_arg (int_arg args 3) (\<lambda>leader_commit.
     with_arg (int_list_arg parse render args 4) (\<lambda>entries.
       lr_apply t prev_index prev_term leader_commit entries s) s) s) s) s) s"

definition lr_show_log :: "log_replication \<Rightarrow> json" where
  "lr_show_log s =
     JObj [(''term'', JInt (lr_term s)), (''terms'', JArr (map JInt (lr_log s))),
           (''last_index'', JInt (lr_last_index s)), (''last_term'', JInt (lr_last_term s)),
           (''commit_index'', JInt (lr_commit_index s))]"

definition log_replication_step ::
    "json_parser \<Rightarrow> (json \<Rightarrow> string) \<Rightarrow> log_replication \<Rightarrow> string \<Rightarrow> string list \<Rightarrow> json \<times> log_replication" where
  "log_replication_step parse render s command args =
     (if command = ''init'' then lr_init parse render args s
      else if command = ''term'' then lr_set_term args s
      else if command = ''append'' then lr_append parse render args s
      else if command = ''log'' then (lr_show_log s, s)
      else (unknown_command command, s))"

section \<open>The leader's commit rule\<close>

record commitment =
  cm_members :: nat
  cm_term :: int
  cm_log :: "int list"
  cm_commit_index :: int
  cm_match_index :: "(string \<times> int) list"
  cm_next_index :: "(string \<times> int) list"

definition cm_default :: commitment where
  "cm_default =
     \<lparr>cm_members = 0, cm_term = 0, cm_log = [], cm_commit_index = 0, cm_match_index = [], cm_next_index = []\<rparr>"

definition cm_majority :: "commitment \<Rightarrow> nat" where
  "cm_majority s = cm_members s div 2 + 1"

definition cm_last_index :: "commitment \<Rightarrow> int" where
  "cm_last_index s = int (length (cm_log s))"

definition cm_term_at :: "commitment \<Rightarrow> int \<Rightarrow> int option" where
  "cm_term_at s index = log_entry_at (cm_log s) index"

definition cm_replicas :: "commitment \<Rightarrow> int \<Rightarrow> nat" where
  "cm_replicas s index = 1 + length (filter (\<lambda>(_, m). m \<ge> index) (cm_match_index s))"

function advance_from :: "int \<Rightarrow> commitment \<Rightarrow> commitment" where
  "advance_from n s =
     (if n > cm_commit_index s
      then (if cm_replicas s n \<ge> cm_majority s \<and> cm_term_at s n = Some (cm_term s)
            then s\<lparr>cm_commit_index := n\<rparr> else advance_from (n - 1) s)
      else s)"
  by pat_completeness auto

termination
  by (relation "measure (\<lambda>(n, s). nat (n - cm_commit_index s))") auto

declare advance_from.simps [simp del]

definition advance_commit :: "commitment \<Rightarrow> commitment" where
  "advance_commit s = advance_from (cm_last_index s) s"

definition index_json :: "(string \<times> int) list \<Rightarrow> json" where
  "index_json m = JObj (map (\<lambda>(k, v). (k, JInt v)) m)"

definition cm_state :: "commitment \<Rightarrow> json" where
  "cm_state s =
     JObj [(''term'', JInt (cm_term s)), (''last_index'', JInt (cm_last_index s)),
           (''commit_index'', JInt (cm_commit_index s)), (''match'', index_json (cm_match_index s)),
           (''next'', index_json (cm_next_index s))]"

definition cm_add_peer :: "int \<Rightarrow> commitment \<Rightarrow> nat \<Rightarrow> commitment" where
  "cm_add_peer next_index s i =
     (let peer = ''s'' @ show_nat i in
      s\<lparr>cm_match_index := btree_insert peer 0 (cm_match_index s),
        cm_next_index := btree_insert peer next_index (cm_next_index s)\<rparr>)"

definition cm_init :: "json_parser \<Rightarrow> (json \<Rightarrow> string) \<Rightarrow> string list \<Rightarrow> commitment \<Rightarrow> json \<times> commitment" where
  "cm_init parse render args s =
     with_arg (uint_arg args 0) (\<lambda>n. with_arg (int_arg args 1) (\<lambda>t.
     with_arg (int_list_arg parse render args 2) (\<lambda>terms.
       if n < 1 then (reply_err ''a cluster needs at least one member'', s)
       else
         (let s = cm_default\<lparr>cm_members := n, cm_term := t, cm_log := terms\<rparr>;
              s = foldl (cm_add_peer (cm_last_index s + 1)) s [2..<Suc n]
          in (JObj [(''term'', JInt (cm_term s)), (''last_index'', JInt (cm_last_index s)),
                    (''commit_index'', JInt (cm_commit_index s)), (''majority'', count_json (cm_majority s))], s))) s) s) s"

definition cm_append :: "commitment \<Rightarrow> json \<times> commitment" where
  "cm_append s =
     (let t = cm_term s; s = s\<lparr>cm_log := cm_log s @ [t]\<rparr>
      in (JObj [(''last_index'', JInt (cm_last_index s)), (''term'', JInt t)], s))"

definition not_a_peer :: "string \<Rightarrow> json" where
  "not_a_peer peer = reply_err (peer @ '' is not a peer of this cluster'')"

definition cm_matched :: "string \<Rightarrow> int \<Rightarrow> commitment \<Rightarrow> int" where
  "cm_matched peer index s = max (case map_of (cm_match_index s) peer of Some v \<Rightarrow> v | None \<Rightarrow> 0) index"

definition cm_next :: "string \<Rightarrow> int \<Rightarrow> commitment \<Rightarrow> int" where
  "cm_next peer matched s =
     max (case map_of (cm_next_index s) peer of Some v \<Rightarrow> v | None \<Rightarrow> 1) (wrap_i64 (matched + 1))"

definition cm_ack :: "string list \<Rightarrow> commitment \<Rightarrow> json \<times> commitment" where
  "cm_ack args s =
     with_arg (word_arg args 0) (\<lambda>peer. with_arg (int_arg args 1) (\<lambda>index.
       if map_of (cm_match_index s) peer = None then (not_a_peer peer, s)
       else
         (let matched = cm_matched peer index s;
              s = s\<lparr>cm_match_index := btree_insert peer matched (cm_match_index s)\<rparr>;
              next_index = cm_next peer matched s;
              s = s\<lparr>cm_next_index := btree_insert peer next_index (cm_next_index s)\<rparr>;
              s = advance_commit s
          in (JObj [(''match_index'', JInt matched), (''next_index'', JInt next_index),
                    (''commit_index'', JInt (cm_commit_index s))], s))) s) s"

definition cm_reject :: "string list \<Rightarrow> commitment \<Rightarrow> json \<times> commitment" where
  "cm_reject args s =
     with_arg (word_arg args 0) (\<lambda>peer. with_arg (int_arg args 1) (\<lambda>conflict.
       if map_of (cm_next_index s) peer = None then (not_a_peer peer, s)
       else
         (let next_index = max conflict 1
          in (JObj [(''next_index'', JInt next_index)],
              s\<lparr>cm_next_index := btree_insert peer next_index (cm_next_index s)\<rparr>))) s) s"

definition safe_reply :: "bool \<Rightarrow> nat \<Rightarrow> string \<Rightarrow> json" where
  "safe_reply safe replicas reason =
     JObj [(''safe'', JBool safe), (''replicas'', count_json replicas), (''reason'', JStr reason)]"

definition cm_safe :: "int \<Rightarrow> commitment \<Rightarrow> json" where
  "cm_safe index s =
     (if index < 1 \<or> index > cm_last_index s then safe_reply False 0 ''past the end of the log''
      else if index \<le> cm_commit_index s then safe_reply True (cm_replicas s index) ''already committed''
      else if cm_replicas s index < cm_majority s then safe_reply False (cm_replicas s index) ''no majority''
      else if cm_term_at s index \<noteq> Some (cm_term s) then safe_reply False (cm_replicas s index) ''earlier term''
      else safe_reply True (cm_replicas s index) ''current term'')"

definition cm_commit_safe :: "string list \<Rightarrow> commitment \<Rightarrow> json \<times> commitment" where
  "cm_commit_safe args s = with_arg (int_arg args 0) (\<lambda>index. (cm_safe index s, s)) s"

definition cm_entry :: "string list \<Rightarrow> commitment \<Rightarrow> json \<times> commitment" where
  "cm_entry args s =
     with_arg (int_arg args 0) (\<lambda>index.
       (case cm_term_at s index of
          Some t \<Rightarrow> JObj [(''term'', JInt t)]
        | None \<Rightarrow> reply_err (''there is no entry at index '' @ show_int index), s)) s"

definition commitment_step ::
    "json_parser \<Rightarrow> (json \<Rightarrow> string) \<Rightarrow> commitment \<Rightarrow> string \<Rightarrow> string list \<Rightarrow> json \<times> commitment" where
  "commitment_step parse render s command args =
     (if command = ''init'' then cm_init parse render args s
      else if command = ''append'' then cm_append s
      else if command = ''ack'' then cm_ack args s
      else if command = ''reject'' then cm_reject args s
      else if command = ''commit-safe'' then cm_commit_safe args s
      else if command = ''entry'' then cm_entry args s
      else if command = ''state'' then (cm_state s, s)
      else (unknown_command command, s))"

end
