(* ===== verification/Raft_Election.thy ===== *)
theory Raft_Election
  imports Raft Dist_Agreement Oracle_Laws
begin

text \<open>
  Election safety. Every node of the cluster runs the program's election topic; what the nodes may be
  told is a step relation around it. Requests for votes, heartbeats and refusals may be late, repeated
  or made up; a granted vote is only delivered if it was given.
\<close>

section \<open>The cluster\<close>

text \<open>A node calls itself \<open>self\<close>; the others know it by its name.\<close>

definition node_name :: "nat \<Rightarrow> string" where
  "node_name i = ''n'' @ show_nat i"

definition label :: "nat \<Rightarrow> nat \<Rightarrow> string" where
  "label i j = (if i = j then ''self'' else node_name j)"

lemma label_inj: "label i j = label i k \<Longrightarrow> j = k"
proof -
  have inj: "a = b" if "show_nat a = show_nat b" for a b
  proof -
    have "digits_val (a + b) 0 (show_nat a) = Some a" "digits_val (a + b) 0 (show_nat b) = Some b"
      by (simp_all add: digits_val_show)
    then show ?thesis unfolding that by (rule option.inject [THEN iffD1, OF trans [OF sym]])
  qed
  assume "label i j = label i k"
  then show "j = k" by (cases "i = j"; cases "i = k") (auto simp: label_def node_name_def dest: inj)
qed

record cluster =
  cl_nodes :: "election list"
  cl_votes :: "(nat \<times> int \<times> nat) set"
  cl_leaders :: "(int \<times> nat) set"

abbreviation node :: "cluster \<Rightarrow> nat \<Rightarrow> election" where
  "node c i \<equiv> cl_nodes c ! i"

definition become :: "nat \<Rightarrow> election \<Rightarrow> (nat \<times> int \<times> nat) set \<Rightarrow> cluster \<Rightarrow> cluster" where
  "become i s votes c =
     \<lparr>cl_nodes = (cl_nodes c)[i := s], cl_votes = cl_votes c \<union> votes,
      cl_leaders = cl_leaders c \<union> (if el_role s = Role_Leader then {(el_term s, i)} else {})\<rparr>"

definition perform :: "nat \<Rightarrow> string \<Rightarrow> string list \<Rightarrow> (nat \<times> int \<times> nat) set \<Rightarrow> cluster \<Rightarrow> cluster" where
  "perform i command args votes c = become i (snd (election_step (node c i) command args)) votes c"

definition granted_reply :: "json \<Rightarrow> bool" where
  "granted_reply v = (case v of JObj fs \<Rightarrow> map_of fs ''granted'' = Some (JBool True) | _ \<Rightarrow> False)"

text \<open>The votes a command gives: a candidate's own, and the one a request was answered with.\<close>

definition own_vote :: "nat \<Rightarrow> election \<Rightarrow> (nat \<times> int \<times> nat) set" where
  "own_vote i s = (if el_role s = Role_Leader then {} else {(i, el_term s + 1, i)})"

definition given_vote :: "nat \<Rightarrow> nat \<Rightarrow> json \<times> election \<Rightarrow> (nat \<times> int \<times> nat) set" where
  "given_vote i k r = (if granted_reply (fst r) then {(i, el_term (snd r), k)} else {})"

definition true_vote :: "nat \<Rightarrow> string list \<Rightarrow> cluster \<Rightarrow> bool" where
  "true_vote i args c \<longleftrightarrow>
     (\<forall>t voter. int_arg args 0 = Inr t \<longrightarrow> word_arg args 1 = Inr voter \<longrightarrow> flag_arg args 2 ''true'' ''false'' = Inr True \<longrightarrow>
        (\<exists>j < length (cl_nodes c). j \<noteq> i \<and> voter = node_name j \<and> (j, t, i) \<in> cl_votes c))"

inductive cluster_step :: "cluster \<Rightarrow> cluster \<Rightarrow> bool" where
  timeout: "i < length (cl_nodes c) \<Longrightarrow> el_term (node c i) < i64_max \<Longrightarrow>
    cluster_step c (perform i ''timeout'' args (own_vote i (node c i)) c)"
| request: "i < length (cl_nodes c) \<Longrightarrow> word_arg args 1 = Inr (node_name k) \<Longrightarrow> k \<noteq> i \<Longrightarrow>
    cluster_step c (perform i ''request-vote'' args
      (given_vote i k (election_step (node c i) ''request-vote'' args)) c)"
| response: "i < length (cl_nodes c) \<Longrightarrow> true_vote i args c \<Longrightarrow>
    cluster_step c (perform i ''vote-response'' args {} c)"
| other: "i < length (cl_nodes c) \<Longrightarrow> command \<notin> {''init'', ''timeout'', ''request-vote'', ''vote-response''} \<Longrightarrow>
    cluster_step c (perform i command args {} c)"

definition cluster_start :: "nat \<Rightarrow> cluster" where
  "cluster_start n =
     \<lparr>cl_nodes = replicate n (snd (election_step election_default ''init'' [show_nat n])), cl_votes = {}, cl_leaders = {}\<rparr>"

section \<open>The invariant\<close>

definition vote_recorded :: "cluster \<Rightarrow> nat \<times> int \<times> nat \<Rightarrow> bool" where
  "vote_recorded c = (\<lambda>(q, t, k). q < length (cl_nodes c) \<and> t \<le> el_term (node c q) \<and>
     (t = el_term (node c q) \<longrightarrow> el_voted_for (node c q) = Some (label q k)))"

definition granters_true :: "nat \<Rightarrow> (nat \<times> int \<times> nat) set \<Rightarrow> nat \<Rightarrow> election \<Rightarrow> bool" where
  "granters_true n votes i s \<longleftrightarrow> sorted_wrt (<) (el_granters s) \<and>
     (\<forall>g \<in> set (el_granters s). \<exists>j < n. g = label i j \<and> (j, el_term s, i) \<in> votes)"

definition carried :: "nat \<Rightarrow> (nat \<times> int \<times> nat) set \<Rightarrow> int \<Rightarrow> nat \<Rightarrow> bool" where
  "carried n votes t i \<longleftrightarrow> (\<exists>Q \<subseteq> {..<n}. n div 2 + 1 \<le> card Q \<and> (\<forall>q \<in> Q. (q, t, i) \<in> votes))"

definition cluster_ok :: "nat \<Rightarrow> cluster \<Rightarrow> bool" where
  "cluster_ok n c \<longleftrightarrow>
     length (cl_nodes c) = n \<and>
     (\<forall>v \<in> cl_votes c. vote_recorded c v) \<and>
     (\<forall>q t k k'. (q, t, k) \<in> cl_votes c \<longrightarrow> (q, t, k') \<in> cl_votes c \<longrightarrow> k = k') \<and>
     (\<forall>i < n. el_members (node c i) = n \<and> 0 \<le> el_term (node c i) \<and> granters_true n (cl_votes c) i (node c i) \<and>
        (el_role (node c i) = Role_Leader \<longrightarrow> (el_term (node c i), i) \<in> cl_leaders c)) \<and>
     (\<forall>(t, i) \<in> cl_leaders c. carried n (cl_votes c) t i)"

text \<open>What a command of node \<open>i\<close> may do to it.\<close>

definition fair_change :: "nat \<Rightarrow> nat \<Rightarrow> cluster \<Rightarrow> election \<Rightarrow> (nat \<times> int \<times> nat) set \<Rightarrow> bool" where
  "fair_change n i c s' votes \<longleftrightarrow>
     (let s = node c i in
      el_members s' = n \<and> el_term s \<le> el_term s' \<and>
      (el_term s' = el_term s \<longrightarrow> el_voted_for s \<noteq> None \<longrightarrow> el_voted_for s' = el_voted_for s) \<and>
      (\<forall>(q, t, k) \<in> votes. q = i \<and> t = el_term s' \<and> el_voted_for s' = Some (label i k)) \<and>
      granters_true n (cl_votes c \<union> votes) i s' \<and>
      (el_role s' = Role_Leader \<longrightarrow> (el_term s', i) \<in> cl_leaders c \<or> n div 2 + 1 \<le> length (el_granters s')))"

lemma granters_grow: "granters_true n votes i s \<Longrightarrow> votes \<subseteq> votes' \<Longrightarrow> granters_true n votes' i s"
  unfolding granters_true_def by blast

lemma carried_grow: "carried n votes t i \<Longrightarrow> votes \<subseteq> votes' \<Longrightarrow> carried n votes' t i"
  unfolding carried_def by blast

lemma granters_carry:
  assumes "granters_true n votes i s" "n div 2 + 1 \<le> length (el_granters s)"
  shows "carried n votes (el_term s) i"
proof -
  let ?Q = "{j. j < n \<and> (j, el_term s, i) \<in> votes}"
  have "set (el_granters s) \<subseteq> label i ` ?Q" using assms(1) by (auto simp: granters_true_def)
  then have "card (set (el_granters s)) \<le> card ?Q" by (intro surj_card_le) auto
  then have "n div 2 + 1 \<le> card ?Q" using assms by (simp add: granters_true_def strict_sorted_iff distinct_card)
  then show ?thesis unfolding carried_def by (intro exI [of _ ?Q]) auto
qed

lemma fair_change_keeps:
  assumes ok: "cluster_ok n c" and i: "i < n" and fair: "fair_change n i c s' votes"
  shows "cluster_ok n (become i s' votes c)"
proof -
  let ?c = "become i s' votes c" and ?s = "node c i"
  have len: "length (cl_nodes c) = n" using ok by (simp add: cluster_ok_def)
  have nodes: "node ?c j = (if j = i then s' else node c j)" if "j < n" for j
    using that i len by (simp add: become_def)
  have f: "el_members s' = n" "el_term ?s \<le> el_term s'"
    "el_term s' = el_term ?s \<Longrightarrow> el_voted_for ?s \<noteq> None \<Longrightarrow> el_voted_for s' = el_voted_for ?s"
    "\<And>q t k. (q, t, k) \<in> votes \<Longrightarrow> q = i \<and> t = el_term s' \<and> el_voted_for s' = Some (label i k)"
    "granters_true n (cl_votes c \<union> votes) i s'"
    "el_role s' = Role_Leader \<Longrightarrow> (el_term s', i) \<in> cl_leaders c \<or> n div 2 + 1 \<le> length (el_granters s')"
    using fair by (auto simp: fair_change_def Let_def)
  have old: "q < n \<and> t \<le> el_term (node c q) \<and> (t = el_term (node c q) \<longrightarrow> el_voted_for (node c q) = Some (label q k))"
    if "(q, t, k) \<in> cl_votes c" for q t k using ok that len by (fastforce simp: cluster_ok_def vote_recorded_def)
  have now: "el_voted_for s' = Some (label i k)" if "(i, el_term s', k) \<in> cl_votes c \<union> votes" for k
  proof (cases "(i, el_term s', k) \<in> votes")
    case True
    then show ?thesis using f(4) by blast
  next
    case False
    then have "(i, el_term s', k) \<in> cl_votes c" using that by simp
    then have "el_term s' = el_term ?s" "el_voted_for ?s = Some (label i k)" using old [of i "el_term s'" k] f(2) by auto
    then show ?thesis using f(3) by simp
  qed
  have recorded: "vote_recorded ?c v" if v: "v \<in> cl_votes ?c" for v
  proof -
    obtain q t k where q: "v = (q, t, k)" by (cases v)
    then have "(q, t, k) \<in> cl_votes c \<or> (q, t, k) \<in> votes" using v by (auto simp: become_def)
    then have "q < n \<and> t \<le> el_term (node ?c q) \<and> (t = el_term (node ?c q) \<longrightarrow> el_voted_for (node ?c q) = Some (label q k))"
    proof
      assume "(q, t, k) \<in> cl_votes c"
      then show ?thesis using old [of q t k] f(2) now [of k] by (cases "q = i") (auto simp: nodes)
    next
      assume "(q, t, k) \<in> votes"
      then have "q = i" "t = el_term s'" "el_voted_for s' = Some (label i k)" using f(4) by blast+
      then show ?thesis using i by (simp add: nodes)
    qed
    then show ?thesis using len by (simp add: q vote_recorded_def become_def)
  qed
  have once: "k = k'" if k: "(q, t, k) \<in> cl_votes ?c" "(q, t, k') \<in> cl_votes ?c" for q t k k'
  proof (cases "(q, t, k) \<in> votes \<or> (q, t, k') \<in> votes")
    case True
    then have "q = i" "t = el_term s'" using f(4) by blast+
    then show ?thesis using now [of k] now [of k'] k by (auto simp: become_def dest: label_inj)
  next
    case False
    then show ?thesis using ok k by (auto simp: cluster_ok_def become_def)
  qed
  have each: "el_members (node ?c j) = n \<and> 0 \<le> el_term (node ?c j) \<and> granters_true n (cl_votes ?c) j (node ?c j) \<and>
      (el_role (node ?c j) = Role_Leader \<longrightarrow> (el_term (node ?c j), j) \<in> cl_leaders ?c)" if "j < n" for j
  proof (cases "j = i")
    case True
    have "0 \<le> el_term ?s" using ok i by (simp add: cluster_ok_def)
    then show ?thesis using True i f(1,2,5) by (simp add: nodes) (simp add: become_def)
  next
    case False
    then have "el_members (node c j) = n \<and> 0 \<le> el_term (node c j) \<and> granters_true n (cl_votes c) j (node c j) \<and>
        (el_role (node c j) = Role_Leader \<longrightarrow> (el_term (node c j), j) \<in> cl_leaders c)"
      using ok that by (simp add: cluster_ok_def)
    then show ?thesis using False that granters_grow [of n "cl_votes c" j "node c j" "cl_votes c \<union> votes"]
      by (simp add: nodes) (simp add: become_def)
  qed
  have "carried n (cl_votes ?c) t j" if "(t, j) \<in> cl_leaders ?c" for t j
  proof (cases "(t, j) \<in> cl_leaders c")
    case True
    then have "carried n (cl_votes c) t j" using ok by (auto simp: cluster_ok_def)
    then show ?thesis by (rule carried_grow) (simp add: become_def)
  next
    case False
    then have "t = el_term s'" "j = i" "el_role s' = Role_Leader" using that by (auto simp: become_def split: if_splits)
    then show ?thesis using f(5,6) False granters_carry by (auto simp: become_def)
  qed
  then show ?thesis using recorded once each len unfolding cluster_ok_def by (auto simp: become_def)
qed

section \<open>The commands\<close>

definition quiet :: "election \<Rightarrow> election \<Rightarrow> bool" where
  "quiet s s' \<longleftrightarrow>
     el_members s' = el_members s \<and>
     (el_term s' = el_term s \<and> el_voted_for s' = el_voted_for s \<and> el_granters s' = el_granters s \<or>
      el_term s < el_term s' \<and> el_granters s' = []) \<and>
     (el_role s' = Role_Leader \<longrightarrow> el_role s = Role_Leader \<and> el_term s' = el_term s)"

lemma quiet_refl [simp]: "quiet s s"
  by (simp add: quiet_def)

lemma nodes_ok:
  assumes "cluster_ok n c" "i < n"
  shows "el_members (node c i) = n" "0 \<le> el_term (node c i)" "granters_true n (cl_votes c) i (node c i)"
    "el_role (node c i) = Role_Leader \<Longrightarrow> (el_term (node c i), i) \<in> cl_leaders c"
  using assms by (auto simp: cluster_ok_def)

lemma quiet_fair:
  assumes "cluster_ok n c" "i < n" "quiet (node c i) s'"
  shows "fair_change n i c s' {}"
  using nodes_ok [OF assms(1,2)] assms(3)
  by (auto simp: fair_change_def Let_def quiet_def granters_true_def)

lemma granted_vote_reply [simp]: "granted_reply (vote_reply s g) = g"
  by (simp add: granted_reply_def vote_reply_def)

lemma granted_error [simp]: "\<not> granted_reply (reply_err m)"
  by (simp add: granted_reply_def reply_err_def)

lemma int_arg_error: "int_arg args i = Inl e \<Longrightarrow> \<not> granted_reply e"
  by (auto simp: int_arg_def ok_or_def arg_missing_def split: option.splits)

lemma step_down_quiet: "el_term s < t \<Longrightarrow> quiet s (el_step_down t s)"
  by (simp add: quiet_def el_step_down_def)

lemma other_quiet:
  assumes "command \<notin> {''init'', ''timeout'', ''request-vote'', ''vote-response''}"
  shows "quiet s (snd (election_step s command args))"
proof -
  have "quiet s (snd (el_log_append args s))"
    by (cases "int_arg args 0") (auto simp: el_log_append_def Let_def quiet_def)
  moreover have "quiet s (snd (el_append_entries args s))"
    by (cases "int_arg args 0"; cases "word_arg args 1")
       (auto simp: el_append_entries_def Let_def quiet_def el_step_down_def)
  ultimately show ?thesis using assms by (simp add: election_step_def)
qed

lemma timeout_fair:
  assumes "cluster_ok n c" "i < n" "el_term (node c i) < i64_max"
  shows "fair_change n i c (snd (election_step (node c i) ''timeout'' args)) (own_vote i (node c i))"
proof (cases "el_role (node c i) = Role_Leader")
  case True
  then show ?thesis using quiet_fair [OF assms(1,2) quiet_refl]
    by (simp add: election_step_def el_timeout_def own_vote_def)
next
  case False
  have "wrap_i64 (el_term (node c i) + 1) = el_term (node c i) + 1"
    using assms(3) nodes_ok(2) [OF assms(1,2)] by (intro wrap_i64_in) (simp add: in_i64_def i64_min_def)
  then show ?thesis using False nodes_ok(1) [OF assms(1,2)] assms(2)
    by (auto simp: election_step_def el_timeout_def own_vote_def fair_change_def Let_def granters_true_def label_def)
qed

lemma vote_fair:
  assumes "cluster_ok n c" "i < n" "k \<noteq> i"
  shows "fair_change n i c (snd (el_vote t (node_name k) li lt (node c i)))
    (given_vote i k (el_vote t (node_name k) li lt (node c i)))"
proof -
  let ?s = "node c i" and ?r = "el_vote t (node_name k) li lt (node c i)"
  note n = nodes_ok [OF assms(1,2)]
  show ?thesis
  proof (cases "granted_reply (fst ?r)")
    case False
    have "quiet ?s (snd ?r)"
      using False by (auto simp: el_vote_def Let_def quiet_def el_step_down_def split: if_splits)
    then show ?thesis using quiet_fair [OF assms(1,2)] False by (simp add: given_vote_def)
  next
    case True
    then have g: "el_term (snd ?r) = t" "el_term ?s \<le> t" "el_voted_for (snd ?r) = Some (label i k)"
        "el_members (snd ?r) = el_members ?s"
        "t = el_term ?s \<Longrightarrow> el_voted_for ?s \<noteq> None \<Longrightarrow> el_voted_for ?s = Some (label i k)"
        "if t = el_term ?s then el_granters (snd ?r) = el_granters ?s \<and> el_role (snd ?r) = el_role ?s
         else el_granters (snd ?r) = [] \<and> el_role (snd ?r) = Role_Follower"
      using assms(3) by (auto simp: el_vote_def Let_def label_def el_step_down_def split: if_splits option.splits)
    have "granters_true n (cl_votes c \<union> {(i, t, k)}) i (snd ?r)"
      using g(1,6) granters_grow [OF n(3), of "cl_votes c \<union> {(i, t, k)}"]
      by (auto simp: granters_true_def split: if_splits)
    then show ?thesis using g n(1,4) True
      by (auto simp: fair_change_def Let_def given_vote_def split: if_splits)
  qed
qed

lemma count_fair:
  assumes "cluster_ok n c" "i < n" "granted \<Longrightarrow> \<exists>j < n. j \<noteq> i \<and> voter = node_name j \<and> (j, t, i) \<in> cl_votes c"
  shows "fair_change n i c (el_count_vote t voter granted (node c i)) {}"
proof (cases "t = el_term (node c i) \<and> el_role (node c i) = Role_Candidate \<and> granted")
  case False
  then show ?thesis using quiet_fair [OF assms(1,2) quiet_refl] unfolding el_count_vote_def by (simp only: if_False)
next
  case True
  let ?s = "node c i" and ?s' = "el_count_vote t voter granted (node c i)"
  note n = nodes_ok [OF assms(1,2)]
  obtain j where j: "j < n" "voter = label i j" "(j, el_term ?s, i) \<in> cl_votes c" using assms(3) True by (auto simp: label_def)
  have s': "el_members ?s' = el_members ?s" "el_term ?s' = el_term ?s" "el_voted_for ?s' = el_voted_for ?s"
      "el_granters ?s' = bset_insert voter (el_granters ?s)"
      "el_role ?s' = Role_Leader \<Longrightarrow> el_majority ?s \<le> length (el_granters ?s')"
    using True by (auto simp: el_count_vote_def Let_def el_majority_def split: if_splits)
  have "granters_true n (cl_votes c) i ?s'" using n(3) j s'(2,4) sorted_bset_insert by (auto simp: granters_true_def)
  then show ?thesis using s' n(1) by (auto simp: fair_change_def Let_def el_majority_def)
qed

lemma step_fair:
  assumes "cluster_step c c'" "cluster_ok n c"
  shows "\<exists>i s' votes. c' = become i s' votes c \<and> i < n \<and> fair_change n i c s' votes"
  using assms
proof (induction rule: cluster_step.induct)
  case (timeout i c args)
  then show ?case using timeout_fair [of n c i args] unfolding perform_def by (auto simp: cluster_ok_def)
next
  case (request i c args k)
  then have i: "i < n" by (simp add: cluster_ok_def)
  let ?r = "el_request_vote args (node c i)"
  have "fair_change n i c (snd ?r) (given_vote i k ?r)"
  proof (cases "\<exists>t li lt. ?r = el_vote t (node_name k) li lt (node c i)")
    case True
    then show ?thesis using vote_fair [OF request.prems i request.hyps(3)] by fastforce
  next
    case False
    then have "\<not> granted_reply (fst ?r) \<and> snd ?r = node c i"
      using request.hyps(2) int_arg_error
      by (cases "int_arg args 0"; cases "int_arg args 2"; cases "int_arg args 3") (auto simp: el_request_vote_def)
    then show ?thesis using quiet_fair [OF request.prems i quiet_refl] by (simp add: given_vote_def)
  qed
  then show ?case using i unfolding perform_def by (auto simp: election_step_def)
next
  case (response i c args)
  then have i: "i < n" and len: "length (cl_nodes c) = n" by (simp_all add: cluster_ok_def)
  have "fair_change n i c (snd (el_vote_response args (node c i))) {}"
  proof (cases "\<exists>t voter granted. int_arg args 0 = Inr t \<and> word_arg args 1 = Inr voter \<and> flag_arg args 2 ''true'' ''false'' = Inr granted")
    case True
    then obtain t voter granted where a: "int_arg args 0 = Inr t" "word_arg args 1 = Inr voter" "flag_arg args 2 ''true'' ''false'' = Inr granted"
      by blast
    have g: "granted \<Longrightarrow> \<exists>j < n. j \<noteq> i \<and> voter = node_name j \<and> (j, t, i) \<in> cl_votes c"
      using response.hyps(2) a len by (simp add: true_vote_def)
    show ?thesis using a count_fair [OF response.prems i g] quiet_fair [OF response.prems i step_down_quiet]
      by (auto simp: el_vote_response_def Let_def)
  next
    case False
    then have "snd (el_vote_response args (node c i)) = node c i"
      by (cases "int_arg args 0"; cases "word_arg args 1"; cases "flag_arg args 2 ''true'' ''false''")
         (auto simp: el_vote_response_def)
    then show ?thesis using quiet_fair [OF response.prems i quiet_refl] by simp
  qed
  then show ?case using i unfolding perform_def by (auto simp: election_step_def)
next
  case (other i c command args)
  then have i: "i < n" by (simp add: cluster_ok_def)
  then show ?case using quiet_fair [OF other.prems i other_quiet [OF other.hyps(2)]] unfolding perform_def by blast
qed

lemma cluster_step_ok: "cluster_step c c' \<Longrightarrow> cluster_ok n c \<Longrightarrow> cluster_ok n c'"
  using step_fair fair_change_keeps by blast

lemma cluster_run_ok: "cluster_step\<^sup>*\<^sup>* c c' \<Longrightarrow> cluster_ok n c \<Longrightarrow> cluster_ok n c'"
  by (induction rule: rtranclp_induct) (auto intro: cluster_step_ok)

lemma start_node:
  assumes "1 \<le> n" "int n \<le> i64_max"
  shows "snd (election_step election_default ''init'' [show_nat n]) = election_default\<lparr>el_members := n\<rparr>"
proof -
  have "int_arg [show_int (int n)] 0 = Inr (int n)" using assms by (intro int_arg_show) (auto simp: in_i64_def i64_min_def)
  then have "uint_arg [show_nat n] 0 = Inr n" by (simp add: uint_arg_def show_int_def)
  then show ?thesis using assms(1) by (simp add: election_step_def el_init_def Let_def)
qed

lemma cluster_start_ok: "1 \<le> n \<Longrightarrow> int n \<le> i64_max \<Longrightarrow> cluster_ok n (cluster_start n)"
  by (simp add: cluster_ok_def cluster_start_def start_node granters_true_def) (simp add: election_default_def)

text \<open>C22: election safety. In every run of a cluster whose nodes run the election topic, with messages late,
  repeated or made up but every granted vote one that was given, no term ever has two leaders, at
  whatever moments they led.\<close>
theorem one_leader_per_term:
  assumes "1 \<le> n" "int n \<le> i64_max" "cluster_step\<^sup>*\<^sup>* (cluster_start n) c"
    and "(t, i) \<in> cl_leaders c" "(t, j) \<in> cl_leaders c"
  shows "i = j"
proof -
  have ok: "cluster_ok n c" using cluster_run_ok [OF assms(3) cluster_start_ok [OF assms(1,2)]] .
  obtain P where P: "P \<subseteq> {..<n}" "n div 2 + 1 \<le> card P" "\<forall>q \<in> P. (q, t, i) \<in> cl_votes c"
    using ok assms(4) by (fastforce simp: cluster_ok_def carried_def)
  obtain Q where Q: "Q \<subseteq> {..<n}" "n div 2 + 1 \<le> card Q" "\<forall>q \<in> Q. (q, t, j) \<in> cl_votes c"
    using ok assms(5) by (fastforce simp: cluster_ok_def carried_def)
  have "P \<inter> Q \<noteq> {}"
    using sets_meet [of "card P" n "card Q"] P Q card_mono [OF _ P(1)] card_mono [OF _ Q(1)] by auto
  then obtain q where "(q, t, i) \<in> cl_votes c" "(q, t, j) \<in> cl_votes c" using P(3) Q(3) by blast
  then show ?thesis using ok unfolding cluster_ok_def by blast
qed

text \<open>A run of two nodes: the first asks for votes, the second gives its own, the first leads term 1.\<close>

definition run_asked :: cluster where
  "run_asked = perform 0 ''timeout'' [] (own_vote 0 (node (cluster_start 2) 0)) (cluster_start 2)"

definition vote_args :: "string list" where
  "vote_args = [''1'', node_name 0, ''0'', ''0'']"

definition run_voted :: cluster where
  "run_voted = perform 1 ''request-vote'' vote_args
     (given_vote 1 0 (election_step (node run_asked 1) ''request-vote'' vote_args)) run_asked"

definition run_led :: cluster where
  "run_led = perform 0 ''vote-response'' [''1'', node_name 1, ''true''] {} run_voted"

lemma parsed: "parse_i64 ''1'' = Some 1" "parse_i64 ''0'' = Some 0"
  by (simp_all add: parse_i64_def parse_uint_def digit_of_def i64_max_def of_char_def)

lemma start_two: "cluster_start 2 = \<lparr>cl_nodes = [election_default\<lparr>el_members := 2\<rparr>, election_default\<lparr>el_members := 2\<rparr>],
    cl_votes = {}, cl_leaders = {}\<rparr>"
  using start_node [of 2] by (simp add: cluster_start_def i64_max_def numeral_2_eq_2)

lemma asked: "run_asked = \<lparr>cl_nodes = [election_default\<lparr>el_members := 2, el_term := 1, el_role := Role_Candidate,
    el_voted_for := Some ''self'', el_granters := [''self'']\<rparr>, election_default\<lparr>el_members := 2\<rparr>],
    cl_votes = {(0, 1, 0)}, cl_leaders = {}\<rparr>"
  by (simp add: run_asked_def start_two perform_def become_def election_step_def el_timeout_def Let_def own_vote_def
      election_default_def in_i64_def i64_min_def i64_max_def)

lemma voted: "run_voted = \<lparr>cl_nodes = [node run_asked 0, election_default\<lparr>el_members := 2, el_term := 1,
    el_voted_for := Some (node_name 0)\<rparr>], cl_votes = {(1, 1, 0), (0, 1, 0)}, cl_leaders = {}\<rparr>"
  by (simp add: run_voted_def asked perform_def become_def election_step_def el_request_vote_def vote_args_def int_arg_def
      word_arg_def arg_def ok_or_def parsed el_vote_def Let_def el_step_down_def el_up_to_date_def el_last_index_def
      el_last_term_def last_or_zero_def given_vote_def election_default_def insert_commute)

lemma length_bset_insert: "k \<notin> set m \<Longrightarrow> length (bset_insert k m) = Suc (length m)"
  by (induction k m rule: bset_insert.induct) auto

lemma led: "(1, 0) \<in> cl_leaders run_led"
proof -
  have "node_name 1 \<notin> set [''self'']" by (simp add: node_name_def)
  then have "length (bset_insert (node_name 1) [''self'']) = 2" using length_bset_insert by fastforce
  then show ?thesis
    by (simp add: run_led_def voted asked perform_def become_def election_step_def el_vote_response_def int_arg_def
        word_arg_def flag_arg_def arg_def ok_or_def parsed el_count_vote_def Let_def el_majority_def election_default_def)
qed

lemma led_reachable: "cluster_step\<^sup>*\<^sup>* (cluster_start 2) run_led"
proof -
  have "cluster_step (cluster_start 2) run_asked"
    unfolding run_asked_def by (rule cluster_step.timeout) (simp_all add: start_two election_default_def i64_max_def)
  moreover have "cluster_step run_asked run_voted"
    unfolding run_voted_def by (rule cluster_step.request) (simp_all add: asked vote_args_def word_arg_def arg_def ok_or_def)
  moreover have "cluster_step run_voted run_led"
    unfolding run_led_def
    by (rule cluster_step.response) (auto simp: voted true_vote_def int_arg_def word_arg_def arg_def ok_or_def parsed)
  ultimately show ?thesis by auto
qed

theorem one_leader_per_term_witness: "{i. (1, i) \<in> cl_leaders run_led} = {0}"
proof -
  have "i = 0" if "(1, i) \<in> cl_leaders run_led" for i
    by (rule one_leader_per_term [OF _ _ led_reachable that led]) (simp_all add: i64_max_def)
  then show ?thesis using led by blast
qed

section \<open>A cluster of one\<close>

text \<open>The only member has a majority as soon as it votes for itself, but the program looks at the count only
  when a response arrives, and nobody is there to respond: it stays a candidate.\<close>

theorem lone_candidate_waits:
  "let s = snd (election_step (election_default\<lparr>el_members := 1\<rparr>) ''timeout'' [])
   in el_majority s \<le> length (el_granters s) \<and> el_role s = Role_Candidate"
  by (simp add: election_step_def el_timeout_def el_majority_def Let_def election_default_def)

end
