(* ===== verification/Raft_Config.thy ===== *)
theory Raft_Config
  imports Raft
begin

text \<open>
  Raft, as \<^verbatim>\<open>disttest/examples/alg/raft.rs\<close> plays it: snapshots of the log and changes of the
  members.
\<close>

text \<open>Adding a field to the object an answer is.\<close>

definition json_with :: "string \<Rightarrow> json \<Rightarrow> json \<Rightarrow> json" where
  "json_with k v obj = (case obj of JObj fs \<Rightarrow> JObj (fs @ [(k, v)]) | _ \<Rightarrow> obj)"

section \<open>Snapshots\<close>

record snapshots =
  sn_log :: "int list"
  sn_index :: int
  sn_term :: int
  sn_commit_index :: int

definition sn_default :: snapshots where
  "sn_default = \<lparr>sn_log = [], sn_index = 0, sn_term = 0, sn_commit_index = 0\<rparr>"

definition sn_first_index :: "snapshots \<Rightarrow> int" where
  "sn_first_index s = wrap_i64 (sn_index s + 1)"

definition sn_last_index :: "snapshots \<Rightarrow> int" where
  "sn_last_index s = wrap_i64 (sn_index s + int (length (sn_log s)))"

definition sn_term_at :: "snapshots \<Rightarrow> int \<Rightarrow> int option" where
  "sn_term_at s index =
     (if index = sn_index s then Some (sn_term s)
      else if index \<ge> sn_first_index s \<and> index \<le> sn_last_index s
      then log_entry_at (sn_log s) (index - sn_first_index s + 1) else None)"

definition sn_shape :: "snapshots \<Rightarrow> json" where
  "sn_shape s =
     JObj [(''first_index'', JInt (sn_first_index s)), (''last_index'', JInt (sn_last_index s)),
           (''commit_index'', JInt (sn_commit_index s)), (''snapshot_index'', JInt (sn_index s)),
           (''snapshot_term'', JInt (sn_term s))]"

definition sn_init :: "json_parser \<Rightarrow> (json \<Rightarrow> string) \<Rightarrow> string list \<Rightarrow> snapshots \<Rightarrow> json \<times> snapshots" where
  "sn_init parse render args s =
     with_arg (int_list_arg parse render args 0) (\<lambda>terms.
       (let s = sn_default\<lparr>sn_log := terms\<rparr> in (sn_shape s, s))) s"

definition sn_commit :: "string list \<Rightarrow> snapshots \<Rightarrow> json \<times> snapshots" where
  "sn_commit args s =
     with_arg (int_arg args 0) (\<lambda>index.
       (let wanted = min index (sn_last_index s);
            s = (if wanted > sn_commit_index s then s\<lparr>sn_commit_index := wanted\<rparr> else s)
        in (JObj [(''commit_index'', JInt (sn_commit_index s))], s))) s"

definition snapshot_reply :: "bool \<Rightarrow> snapshots \<Rightarrow> (string \<times> json) list" where
  "snapshot_reply ok s =
     [(''ok'', JBool ok), (''snapshot_index'', JInt (sn_index s)), (''snapshot_term'', JInt (sn_term s)),
      (''first_index'', JInt (sn_first_index s)), (''log_len'', count_json (length (sn_log s)))]"

definition compact_to :: "int \<Rightarrow> snapshots \<Rightarrow> snapshots" where
  "compact_to index s =
     (if index > sn_index s
      then (let t = (case sn_term_at s index of Some t \<Rightarrow> t | None \<Rightarrow> sn_term s);
                cut = nat (index - sn_index s)
            in s\<lparr>sn_log := drop (min cut (length (sn_log s))) (sn_log s), sn_index := index, sn_term := t\<rparr>)
      else s)"

definition sn_snapshot :: "string list \<Rightarrow> snapshots \<Rightarrow> json \<times> snapshots" where
  "sn_snapshot args s =
     with_arg (int_arg args 0) (\<lambda>index.
       if index > sn_commit_index s
       then (JObj (snapshot_reply False s @ [(''error'', JStr ''cannot snapshot past the commit index'')]), s)
       else (let s = compact_to index s in (JObj (snapshot_reply True s), s))) s"

definition sn_matching :: "int \<Rightarrow> int \<Rightarrow> snapshots \<Rightarrow> bool" where
  "sn_matching index t s \<longleftrightarrow> sn_term_at s index = Some t \<and> index \<ge> sn_first_index s"

definition install_log :: "int \<Rightarrow> int \<Rightarrow> snapshots \<Rightarrow> int list" where
  "install_log index t s =
     (if sn_matching index t s
      then drop (min (nat (index - sn_index s)) (length (sn_log s))) (sn_log s) else [])"

definition sn_install :: "string list \<Rightarrow> snapshots \<Rightarrow> json \<times> snapshots" where
  "sn_install args s =
     with_arg (int_arg args 0) (\<lambda>_. with_arg (int_arg args 1) (\<lambda>index. with_arg (int_arg args 2) (\<lambda>t.
       if index \<le> sn_commit_index s
       then (json_with ''action'' (JStr ''stale'') (json_with ''ok'' (JBool False) (sn_shape s)), s)
       else
         (let action = (if sn_matching index t s then ''retained'' else ''discarded'');
              s = s\<lparr>sn_log := install_log index t s, sn_index := index, sn_term := t,
                    sn_commit_index := max (sn_commit_index s) index\<rparr>
          in (json_with ''action'' (JStr action) (json_with ''ok'' (JBool True) (sn_shape s)), s))) s) s) s"

definition sn_put :: "int \<Rightarrow> int \<Rightarrow> snapshots \<Rightarrow> snapshots" where
  "sn_put idx entry s =
     (case sn_term_at s idx of
        Some existing \<Rightarrow>
          if existing = entry then s
          else s\<lparr>sn_log := take (nat (idx - sn_first_index s)) (sn_log s) @ [entry]\<rparr>
      | None \<Rightarrow> s\<lparr>sn_log := sn_log s @ [entry]\<rparr>)"

fun sn_put_all :: "int \<Rightarrow> int list \<Rightarrow> snapshots \<Rightarrow> snapshots" where
  "sn_put_all idx [] s = s"
| "sn_put_all idx (entry # entries) s = sn_put_all (wrap_i64 (idx + 1)) entries (sn_put idx entry s)"

definition append_reply :: "bool \<Rightarrow> string \<Rightarrow> snapshots \<Rightarrow> json" where
  "append_reply success reason s =
     JObj [(''success'', JBool success), (''reason'', JStr reason), (''last_index'', JInt (sn_last_index s))]"

definition sn_append :: "json_parser \<Rightarrow> (json \<Rightarrow> string) \<Rightarrow> string list \<Rightarrow> snapshots \<Rightarrow> json \<times> snapshots" where
  "sn_append parse render args s =
     with_arg (int_arg args 0) (\<lambda>_. with_arg (int_arg args 1) (\<lambda>prev_index. with_arg (int_arg args 2) (\<lambda>prev_term.
     with_arg (int_list_arg parse render args 3) (\<lambda>entries.
       if prev_index < sn_index s then (append_reply False ''compacted'' s, s)
       else if prev_index > sn_last_index s then (append_reply False ''missing'' s, s)
       else if sn_term_at s prev_index \<noteq> Some prev_term then (append_reply False ''term mismatch'' s, s)
       else (let s = sn_put_all (wrap_i64 (prev_index + 1)) entries s in (append_reply True ''ok'' s, s))) s) s) s) s"

definition snapshots_step ::
    "json_parser \<Rightarrow> (json \<Rightarrow> string) \<Rightarrow> snapshots \<Rightarrow> string \<Rightarrow> string list \<Rightarrow> json \<times> snapshots" where
  "snapshots_step parse render s command args =
     (if command = ''init'' then sn_init parse render args s
      else if command = ''commit'' then sn_commit args s
      else if command = ''snapshot'' then sn_snapshot args s
      else if command = ''install'' then sn_install args s
      else if command = ''append'' then sn_append parse render args s
      else if command = ''log'' then (json_with ''terms'' (JArr (map JInt (sn_log s))) (sn_shape s), s)
      else (unknown_command command, s))"

section \<open>Membership\<close>

record membership =
  mb_phase :: string
  mb_members :: "string list"
  mb_old :: "string list"
  mb_new :: "string list"

definition mb_default :: membership where
  "mb_default = \<lparr>mb_phase = [], mb_members = [], mb_old = [], mb_new = []\<rparr>"

definition quorum_of :: "string list \<Rightarrow> nat" where
  "quorum_of members = length members div 2 + 1"

definition bset_of :: "string list \<Rightarrow> string list" where
  "bset_of xs = foldl (\<lambda>m x. bset_insert x m) [] xs"

definition mb_voters :: "membership \<Rightarrow> string list" where
  "mb_voters s =
     (if mb_phase s = ''joint'' then foldl (\<lambda>m x. bset_insert x m) (bset_of (mb_old s)) (mb_new s) else mb_members s)"

definition mb_quorum :: "membership \<Rightarrow> nat" where
  "mb_quorum s =
     (if mb_phase s = ''joint'' then max (quorum_of (mb_old s)) (quorum_of (mb_new s)) else quorum_of (mb_members s))"

definition words_json :: "string list \<Rightarrow> json" where
  "words_json ws = JArr (map JStr ws)"

definition mb_state :: "membership \<Rightarrow> json" where
  "mb_state s =
     JObj [(''phase'', JStr (mb_phase s)), (''members'', words_json (mb_voters s)), (''quorum'', count_json (mb_quorum s))]"

definition mb_refuse :: "string \<Rightarrow> membership \<Rightarrow> json" where
  "mb_refuse e s = json_with ''error'' (JStr e) (json_with ''ok'' (JBool False) (mb_state s))"

definition mb_accept :: "membership \<Rightarrow> json" where
  "mb_accept s = json_with ''ok'' (JBool True) (mb_state s)"

definition mb_carries :: "string list \<Rightarrow> string list \<Rightarrow> bool" where
  "mb_carries voters config = (length (filter (\<lambda>m. m \<in> set voters) config) \<ge> quorum_of config)"

definition mb_init :: "json_parser \<Rightarrow> (json \<Rightarrow> string) \<Rightarrow> string list \<Rightarrow> membership \<Rightarrow> json \<times> membership" where
  "mb_init parse render args s =
     with_arg (word_list_arg parse render args 0) (\<lambda>members.
       if members = [] then (reply_err ''a cluster needs at least one member'', s)
       else (let s = mb_default\<lparr>mb_phase := ''stable'', mb_members := members\<rparr> in (mb_state s, s))) s"

definition in_flight :: string where
  "in_flight = ''a configuration change is already in flight''"

definition mb_joint :: "json_parser \<Rightarrow> (json \<Rightarrow> string) \<Rightarrow> string list \<Rightarrow> membership \<Rightarrow> json \<times> membership" where
  "mb_joint parse render args s =
     with_arg (word_list_arg parse render args 0) (\<lambda>new.
       if new = [] then (reply_err ''the new configuration needs at least one member'', s)
       else if mb_phase s \<noteq> ''stable'' then (mb_refuse in_flight s, s)
       else
         (let s = s\<lparr>mb_old := mb_members s, mb_new := new, mb_phase := ''joint''\<rparr>
          in (JObj [(''ok'', JBool True), (''phase'', JStr ''joint''), (''old'', words_json (mb_old s)),
                    (''new'', words_json (mb_new s)), (''quorum_old'', count_json (quorum_of (mb_old s))),
                    (''quorum_new'', count_json (quorum_of (mb_new s)))], s))) s"

definition mb_commit_joint :: "membership \<Rightarrow> json \<times> membership" where
  "mb_commit_joint s =
     (if mb_phase s \<noteq> ''joint'' then (mb_refuse ''there is no joint configuration to commit'' s, s)
      else (let s = s\<lparr>mb_members := mb_new s, mb_phase := ''new''\<rparr> in (mb_accept s, s)))"

definition mb_commit_new :: "membership \<Rightarrow> json \<times> membership" where
  "mb_commit_new s =
     (if mb_phase s \<noteq> ''new'' then (mb_refuse ''there is no new configuration to commit'' s, s)
      else (let s = s\<lparr>mb_old := [], mb_new := [], mb_phase := ''stable''\<rparr> in (mb_accept s, s)))"

definition mb_agrees :: "string list \<Rightarrow> membership \<Rightarrow> bool" where
  "mb_agrees voters s =
     (if mb_phase s = ''joint'' then mb_carries voters (mb_old s) \<and> mb_carries voters (mb_new s)
      else mb_carries voters (mb_members s))"

definition mb_reason :: "string list \<Rightarrow> membership \<Rightarrow> string" where
  "mb_reason voters s =
     (if mb_phase s = ''joint''
      then (case (mb_carries voters (mb_old s), mb_carries voters (mb_new s)) of
              (True, True) \<Rightarrow> ''old and new''
            | (True, False) \<Rightarrow> ''old only''
            | (False, True) \<Rightarrow> ''new only''
            | (False, False) \<Rightarrow> ''neither'')
      else if mb_carries voters (mb_members s) then ''majority'' else ''no majority'')"

definition mb_agree :: "json_parser \<Rightarrow> (json \<Rightarrow> string) \<Rightarrow> string list \<Rightarrow> membership \<Rightarrow> json \<times> membership" where
  "mb_agree parse render args s =
     with_arg (word_list_arg parse render args 0) (\<lambda>words.
       (let voters = bset_of words
        in (JObj [(''ok'', JBool (mb_agrees voters s)), (''reason'', JStr (mb_reason voters s))], s))) s"

definition mb_add :: "string \<Rightarrow> membership \<Rightarrow> json \<times> membership" where
  "mb_add who s =
     (if who \<in> set (mb_members s) then (mb_refuse (who @ '' is already a member'') s, s)
      else (let s = s\<lparr>mb_members := sort (mb_members s @ [who]), mb_phase := ''pending''\<rparr> in (mb_accept s, s)))"

definition mb_remove :: "string \<Rightarrow> membership \<Rightarrow> json \<times> membership" where
  "mb_remove who s =
     (if who \<notin> set (mb_members s) then (mb_refuse (who @ '' is not a member'') s, s)
      else
        (let s = s\<lparr>mb_members := filter (\<lambda>m. m \<noteq> who) (mb_members s)\<rparr> in
         if mb_members s = []
         then (let s = s\<lparr>mb_members := mb_members s @ [who]\<rparr> in (mb_refuse ''the last member cannot be removed'' s, s))
         else (let s = s\<lparr>mb_phase := ''pending''\<rparr> in (mb_accept s, s))))"

definition mb_change :: "string \<Rightarrow> string list \<Rightarrow> membership \<Rightarrow> json \<times> membership" where
  "mb_change command args s =
     with_arg (word_arg args 0) (\<lambda>who.
       if mb_phase s \<noteq> ''stable'' then (mb_refuse in_flight s, s)
       else if command = ''add'' then mb_add who s
       else mb_remove who s) s"

definition mb_commit_change :: "membership \<Rightarrow> json \<times> membership" where
  "mb_commit_change s =
     (if mb_phase s \<noteq> ''pending'' then (mb_refuse ''there is no single-server change to commit'' s, s)
      else (let s = s\<lparr>mb_phase := ''stable''\<rparr> in (mb_accept s, s)))"

definition membership_step ::
    "json_parser \<Rightarrow> (json \<Rightarrow> string) \<Rightarrow> membership \<Rightarrow> string \<Rightarrow> string list \<Rightarrow> json \<times> membership" where
  "membership_step parse render s command args =
     (if command = ''init'' then mb_init parse render args s
      else if command = ''joint'' then mb_joint parse render args s
      else if command = ''commit-joint'' then mb_commit_joint s
      else if command = ''commit-new'' then mb_commit_new s
      else if command = ''agree'' then mb_agree parse render args s
      else if command = ''add'' \<or> command = ''remove'' then mb_change command args s
      else if command = ''commit-change'' then mb_commit_change s
      else if command = ''state'' then (mb_state s, s)
      else (unknown_command command, s))"

text \<open>
  Changing the members: the configurations are well formed in every phase, and a decision taken under
  one configuration shares a voter with every decision taken under the next.
\<close>

section \<open>Well-formed configurations\<close>

definition config_ok :: "string list \<Rightarrow> bool" where
  "config_ok c \<longleftrightarrow> c \<noteq> [] \<and> distinct c"

definition mb_ok :: "membership \<Rightarrow> bool" where
  "mb_ok s \<longleftrightarrow>
     mb_phase s \<in> {''stable'', ''joint'', ''new'', ''pending''} \<and> config_ok (mb_members s) \<and>
     (mb_phase s = ''joint'' \<longrightarrow> mb_old s = mb_members s \<and> config_ok (mb_new s))"

text \<open>The lists a session is given name nobody twice.\<close>

definition mb_allowed :: "json_parser \<Rightarrow> (json \<Rightarrow> string) \<Rightarrow> membership \<Rightarrow> string \<Rightarrow> string list \<Rightarrow> bool" where
  "mb_allowed parse render s command args \<longleftrightarrow>
     (command \<in> {''init'', ''joint''} \<longrightarrow> (\<forall>ws. word_list_arg parse render args 0 = Inr ws \<longrightarrow> distinct ws))"

lemma sort_Nil_iff [simp]: "sort xs = [] \<longleftrightarrow> xs = []" for xs :: "string list"
  by (metis set_empty set_sort)

lemma mb_add_ok: "mb_ok s \<Longrightarrow> mb_phase s = ''stable'' \<Longrightarrow> mb_ok (snd (mb_add who s))"
  by (simp add: mb_add_def Let_def mb_ok_def config_ok_def)

lemma mb_remove_ok: "mb_ok s \<Longrightarrow> mb_phase s = ''stable'' \<Longrightarrow> mb_ok (snd (mb_remove who s))"
  by (auto simp: mb_remove_def Let_def mb_ok_def config_ok_def)

lemma mb_init_ok:
  assumes "mb_ok s" "mb_allowed parse render s ''init'' args"
  shows "mb_ok (snd (mb_init parse render args s))"
  using assms by (cases "word_list_arg parse render args 0")
    (auto simp: mb_init_def Let_def mb_ok_def config_ok_def mb_allowed_def mb_default_def)

lemma mb_joint_ok:
  assumes "mb_ok s" "mb_allowed parse render s ''joint'' args"
  shows "mb_ok (snd (mb_joint parse render args s))"
  using assms by (cases "word_list_arg parse render args 0")
    (auto simp: mb_joint_def Let_def mb_ok_def config_ok_def mb_allowed_def)

lemma mb_change_ok: "mb_ok s \<Longrightarrow> mb_ok (snd (mb_change command args s))"
  using mb_add_ok mb_remove_ok by (cases "word_arg args 0") (auto simp: mb_change_def)

lemma mb_commits_ok:
  "mb_ok s \<Longrightarrow> mb_ok (snd (mb_commit_joint s))" "mb_ok s \<Longrightarrow> mb_ok (snd (mb_commit_new s))"
  "mb_ok s \<Longrightarrow> mb_ok (snd (mb_commit_change s))"
  by (auto simp: mb_commit_joint_def mb_commit_new_def mb_commit_change_def Let_def mb_ok_def)

lemma mb_agree_same [simp]: "snd (mb_agree parse render args s) = s"
  by (cases "word_list_arg parse render args 0") (simp_all add: mb_agree_def Let_def)

lemma mb_step_ok:
  assumes "mb_ok s" "mb_allowed parse render s command args"
  shows "mb_ok (snd (membership_step parse render s command args))"
  using assms mb_init_ok [of s parse render args] mb_joint_ok [of s parse render args] mb_change_ok [OF assms(1)]
    mb_commits_ok [OF assms(1)]
  by (cases "command = ''init''"; cases "command = ''joint''") (simp_all add: membership_step_def)

interpretation mb: topic_invariant "membership_step parse render" "mb_allowed parse render" mb_ok
  by unfold_locales (rule mb_step_ok)

section \<open>Majorities of neighbouring configurations\<close>

lemma carries_card: "distinct c \<Longrightarrow> mb_carries v c \<longleftrightarrow> card (set c) div 2 + 1 \<le> card (set v \<inter> set c)"
proof -
  assume "distinct c"
  moreover have "set (filter (\<lambda>m. m \<in> set v) c) = set v \<inter> set c" by auto
  ultimately show ?thesis by (metis distinct_card distinct_filter mb_carries_def quorum_of_def)
qed

lemma carriers_share:
  assumes "distinct c" "distinct d" "mb_carries v c" "mb_carries w d"
    and near: "set c \<subseteq> set u" "set d \<subseteq> set u" "card (set u) < card (set c) div 2 + card (set d) div 2 + 2"
  shows "set v \<inter> set w \<noteq> {}"
proof
  assume none: "set v \<inter> set w = {}"
  have "card (set v \<inter> set c) + card (set w \<inter> set d) = card ((set v \<inter> set c) \<union> (set w \<inter> set d))"
    using none by (intro card_Un_disjoint [symmetric]) auto
  also have "\<dots> \<le> card (set u)" using near by (intro card_mono) auto
  finally show False using assms(1-4) near(3) by (simp add: carries_card)
qed

lemma carriers_share_same: "distinct c \<Longrightarrow> mb_carries v c \<Longrightarrow> mb_carries w c \<Longrightarrow> set v \<inter> set w \<noteq> {}"
  by (rule carriers_share [where u = c]) auto

lemma carriers_share_grown:
  assumes "distinct c" "distinct d" "set d = insert x (set c)" "x \<notin> set c"
  shows "mb_carries v c \<Longrightarrow> mb_carries w d \<Longrightarrow> set v \<inter> set w \<noteq> {}"
  using assms(3,4) by (intro carriers_share [OF assms(1,2), where u = d]) auto

definition same_decisions :: "membership \<Rightarrow> membership \<Rightarrow> bool" where
  "same_decisions s s' \<longleftrightarrow> (\<forall>v w. mb_agrees v s \<longrightarrow> mb_agrees w s' \<longrightarrow> set v \<inter> set w \<noteq> {})"

lemma share_refl: "mb_ok s \<Longrightarrow> same_decisions s s"
  using carriers_share_same by (auto simp: same_decisions_def mb_agrees_def mb_ok_def config_ok_def split: if_splits)

lemma share_add: "mb_ok s \<Longrightarrow> mb_phase s = ''stable'' \<Longrightarrow> same_decisions s (snd (mb_add who s))"
proof (cases "who \<in> set (mb_members s)")
  case True
  then show "mb_ok s \<Longrightarrow> ?thesis" using share_refl by (simp add: mb_add_def)
next
  case False
  assume "mb_ok s" "mb_phase s = ''stable''"
  then show ?thesis
    using False carriers_share_grown [of "mb_members s" "sort (mb_members s @ [who])" who]
    by (auto simp: mb_add_def same_decisions_def mb_agrees_def Let_def mb_ok_def config_ok_def)
qed

lemma share_remove: "mb_ok s \<Longrightarrow> mb_phase s = ''stable'' \<Longrightarrow> same_decisions s (snd (mb_remove who s))"
proof (cases "who \<in> set (mb_members s)")
  case False
  then show "mb_ok s \<Longrightarrow> ?thesis" using share_refl by (simp add: mb_remove_def)
next
  case True
  assume s: "mb_ok s" "mb_phase s = ''stable''"
  let ?rest = "filter (\<lambda>m. m \<noteq> who) (mb_members s)"
  have d: "distinct (mb_members s)" "distinct ?rest" using s by (auto simp: mb_ok_def config_ok_def)
  show ?thesis
  proof (cases "?rest = []")
    case empty: True
    then have "\<forall>m \<in> set (mb_members s). m = who" by (simp add: filter_empty_conv)
    then have "set (mb_members s) = {who}" using True by blast
    then have "length (mb_members s) = 1" using distinct_card [OF d(1)] by simp
    then have "mb_members s = [who]" using True by (auto simp: length_Suc_conv)
    then show ?thesis using share_refl [OF s(1)] empty s(2)
      by (simp add: mb_remove_def Let_def same_decisions_def mb_agrees_def)
  next
    case False
    have "set (mb_members s) = insert who (set ?rest)" "who \<notin> set ?rest" using True by auto
    then have "mb_carries v (mb_members s) \<Longrightarrow> mb_carries w ?rest \<Longrightarrow> set v \<inter> set w \<noteq> {}" for v w
      using carriers_share_grown [OF d(2,1), of who w v] by blast
    then show ?thesis using True False s(2)
      by (auto simp: mb_remove_def Let_def same_decisions_def mb_agrees_def)
  qed
qed

text \<open>C26: no change of members splits the cluster. Along every session whose lists name nobody twice, the
  configuration stays well formed, and a decision that carries before a command, other than a new
  \<open>init\<close>, shares a voter with every decision that carries after it: in a joint configuration both
  majorities are asked, and one server at a time moves a majority by at most one.\<close>
theorem neighbouring_quorums_meet:
  assumes "word_list_arg parse render args 0 = Inr members" "members \<noteq> []" "distinct members"
    and "session_ok (mb_allowed parse render) (membership_step parse render) cs
      (snd (membership_step parse render z ''init'' args))"
    and "s = snd (topic_run (membership_step parse render) cs (snd (membership_step parse render z ''init'' args)))"
    and "mb_allowed parse render s command given" "command \<noteq> ''init''"
    and "mb_agrees v s" "mb_agrees w (snd (membership_step parse render s command given))"
  shows "mb_ok s \<and> set v \<inter> set w \<noteq> {}"
proof -
  have "mb_ok (snd (membership_step parse render z ''init'' args))"
    using assms(1-3) by (simp add: membership_step_def mb_init_def Let_def mb_ok_def config_ok_def mb_default_def)
  then have ok: "mb_ok s" unfolding assms(5) using assms(4) by (rule mb.session_keeps)
  have joint: "same_decisions s (snd (mb_joint parse render given s))"
    using share_refl [OF ok] ok by (cases "word_list_arg parse render given 0")
      (auto simp: mb_joint_def Let_def same_decisions_def mb_agrees_def split: if_splits)
  have commits: "same_decisions s (snd (mb_commit_joint s))" "same_decisions s (snd (mb_commit_new s))"
      "same_decisions s (snd (mb_commit_change s))"
    using share_refl [OF ok] ok carriers_share_same
    by (auto simp: mb_commit_joint_def mb_commit_new_def mb_commit_change_def Let_def same_decisions_def mb_agrees_def
        mb_ok_def config_ok_def split: if_splits)
  have change: "same_decisions s (snd (mb_change command given s))"
    using share_refl [OF ok] share_add [OF ok] share_remove [OF ok]
    by (cases "word_arg given 0") (auto simp: mb_change_def)
  have "same_decisions s (snd (membership_step parse render s command given))"
    using joint commits change share_refl [OF ok] assms(7) by (simp add: membership_step_def)
  then show ?thesis using ok assms(8,9) unfolding same_decisions_def by blast
qed

definition three_members :: json_parser where
  "three_members raw =
     (if raw = ''abc'' then Inr (JArr [JStr ''a'', JStr ''b'', JStr ''c'']) else if raw = ''cd'' then Inr (JArr [JStr ''c'', JStr ''d''])
      else Inl ''expected value'')"

text \<open>From \<open>a b c\<close> to \<open>c d\<close>: the old majority \<open>a b\<close> decided, and the joint one needs both.\<close>

theorem neighbouring_quorums_meet_witness:
  "let s = snd (membership_step three_members (\<lambda>_. []) mb_default ''init'' [''abc'']);
       s' = snd (membership_step three_members (\<lambda>_. []) s ''joint'' [''cd''])
   in mb_agrees [''a'', ''b''] s \<and> mb_agrees [''b'', ''c'', ''d''] s' \<and> set [''a'', ''b''] \<inter> set [''b'', ''c'', ''d''] \<noteq> {}"
proof -
  let ?step = "membership_step three_members (\<lambda>_. [])"
  let ?old = "snd (?step mb_default ''init'' [''abc''])"
  note args = word_list_arg_def json_arg_def word_arg_def arg_def ok_or_def three_members_def as_str_def
  have a: "word_list_arg three_members (\<lambda>_. []) [''abc''] 0 = Inr [''a'', ''b'', ''c'']"
    "word_list_arg three_members (\<lambda>_. []) [''cd''] 0 = Inr [''c'', ''d'']"
    by (simp_all add: args)
  have old: "?old = mb_default\<lparr>mb_phase := ''stable'', mb_members := [''a'', ''b'', ''c'']\<rparr>"
    using a by (simp add: membership_step_def mb_init_def Let_def)
  have agree: "mb_agrees [''a'', ''b''] ?old" "mb_agrees [''b'', ''c'', ''d''] (snd (?step ?old ''joint'' [''cd'']))"
    unfolding old using a by (simp_all add: membership_step_def mb_joint_def Let_def mb_agrees_def mb_carries_def quorum_of_def)
  have "mb_ok ?old \<and> set [''a'', ''b''] \<inter> set [''b'', ''c'', ''d''] \<noteq> {}"
    by (rule neighbouring_quorums_meet [where cs = "[]" and z = mb_default, OF a(1) _ _ _ _ _ _ agree])
       (simp_all add: mb_allowed_def a)
  then show ?thesis using agree by (simp add: Let_def)
qed

text \<open>A name given twice is counted twice, and removing it moves the majority by more than one: the old
  configuration is carried by \<open>a\<close> alone and the new one by \<open>b\<close> alone.\<close>

theorem repeated_member_splits:
  "let s = mb_default\<lparr>mb_phase := ''stable'', mb_members := [''a'', ''a'', ''b'']\<rparr>;
       s' = snd (membership_step parse render s ''remove'' [''a''])
   in mb_agrees [''a''] s \<and> mb_agrees [''b''] s'"
  by (simp add: membership_step_def mb_change_def mb_remove_def Let_def mb_agrees_def mb_carries_def quorum_of_def
      word_arg_def arg_def ok_or_def)

end
