(* ===== verification/Raft_Log.thy ===== *)
theory Raft_Log
  imports Raft_Config
begin

text \<open>
  The follower's log and the leader's commit rule: logs that agree at an index agree before it, an
  append keeps that, and the commit index moves to the last entry of the leader's term that a majority
  holds.
\<close>

section \<open>Log matching\<close>

text \<open>Logs with the same term at the same place are the same up to there.\<close>

definition log_matching :: "int list \<Rightarrow> int list \<Rightarrow> bool" where
  "log_matching a b \<longleftrightarrow>
     (\<forall>i. i < length a \<longrightarrow> i < length b \<longrightarrow> a ! i = b ! i \<longrightarrow> take (Suc i) a = take (Suc i) b)"

lemma log_matching_sym: "log_matching a b \<Longrightarrow> log_matching b a"
  unfolding log_matching_def by metis


lemma log_matching_refl [simp]: "log_matching a a"
  by (simp add: log_matching_def)

text \<open>What the loop leaves: the log itself if it holds the entries already, otherwise what was before them
  and the entries.\<close>

definition appended :: "nat \<Rightarrow> int list \<Rightarrow> int list \<Rightarrow> int list" where
  "appended k entries log =
     (if take (length entries) (drop k log) = entries then log else take k log @ entries)"


lemma appended_Cons: "k \<le> length log \<Longrightarrow> appended (Suc k) es (appended k [e] log) = appended k (e # es) log"
proof (cases "k < length log")
  case True
  then have "drop k log = log ! k # drop (Suc k) log" by (simp add: Cons_nth_drop_Suc)
  then show ?thesis using True by (auto simp: appended_def take_Suc_conv_app_nth nth_append)
next
  case False
  assume "k \<le> length log"
  then show ?thesis using False by (auto simp: appended_def)
qed








lemma one_two: "parse_i64 ''1'' = Some 1" "parse_i64 ''2'' = Some 2"
  by (simp_all add: parse_i64_def parse_uint_def digit_of_def i64_max_def of_char_def)


section \<open>The commit rule\<close>

text \<open>What the leader may commit by counting: an entry of its own term that a majority holds.\<close>

definition countable :: "commitment \<Rightarrow> int \<Rightarrow> bool" where
  "countable s n \<longleftrightarrow> cm_majority s \<le> cm_replicas s n \<and> cm_term_at s n = Some (cm_term s)"

lemma advance_from_spec:
  "(\<exists>k. cm_commit_index s < k \<and> k \<le> n \<and> countable s k \<and> (\<forall>j. k < j \<and> j \<le> n \<longrightarrow> \<not> countable s j) \<and>
      advance_from n s = s\<lparr>cm_commit_index := k\<rparr>) \<or>
   (\<forall>k. cm_commit_index s < k \<and> k \<le> n \<longrightarrow> \<not> countable s k) \<and> advance_from n s = s"
proof (induction n s rule: advance_from.induct)
  case (1 n s)
  show ?case
  proof (cases "cm_commit_index s < n \<and> \<not> countable s n")
    case True
    then have step: "advance_from n s = advance_from (n - 1) s"
      by (subst advance_from.simps) (use True in \<open>auto simp: countable_def\<close>)
    have top: "k \<le> n \<longleftrightarrow> k \<le> n - 1 \<or> k = n" for k by auto
    show ?thesis using 1 True unfolding step top countable_def [symmetric] by (auto simp: countable_def)
  next
    case False
    then show ?thesis by (auto simp: advance_from.simps [of n] countable_def)
  qed
qed

text \<open>The members a count stands for: the leader and the peers that acknowledged the index.\<close>

definition holders :: "commitment \<Rightarrow> int \<Rightarrow> string set" where
  "holders s n = {p. \<exists>m. map_of (cm_match_index s) p = Some m \<and> n \<le> m}"

lemma replicas_holders: "btree_ok (cm_match_index s) \<Longrightarrow> cm_replicas s n = Suc (card (holders s n))"
proof -
  assume "btree_ok (cm_match_index s)"
  then have d: "distinct (map fst (cm_match_index s))" by (rule btree_ok_distinct)
  let ?f = "filter (\<lambda>(_, m). m \<ge> n) (cm_match_index s)"
  have "distinct (map fst ?f)" using d by (simp add: distinct_map_filter)
  then have "card (fst ` set ?f) = length ?f" using distinct_card [of "map fst ?f"] by simp
  moreover have "fst ` set ?f = holders s n"
    using d by (force simp: holders_def map_of_eq_Some_iff)
  ultimately show ?thesis by (simp add: cm_replicas_def)
qed

lemma holders_finite: "finite (holders s n)"
proof (rule finite_subset)
  show "holders s n \<subseteq> fst ` set (cm_match_index s)" by (force simp: holders_def dest!: map_of_SomeD)
qed simp

lemma holders_mono: "j \<le> n \<Longrightarrow> card (holders s n) \<le> card (holders s j)"
  by (rule card_mono [OF holders_finite]) (auto simp: holders_def)

text \<open>What every session keeps.\<close>

definition cm_ok :: "nat \<Rightarrow> int \<Rightarrow> commitment \<Rightarrow> bool" where
  "cm_ok n t s \<longleftrightarrow>
     cm_members s = n \<and> cm_term s = t \<and> btree_ok (cm_match_index s) \<and> 0 \<le> cm_commit_index s \<and>
     (cm_commit_index s = 0 \<or> countable s (cm_commit_index s))"

definition cm_no_restart :: "commitment \<Rightarrow> string \<Rightarrow> string list \<Rightarrow> bool" where
  "cm_no_restart s command args \<longleftrightarrow> command \<noteq> ''init''"

definition acked :: "string \<Rightarrow> int \<Rightarrow> commitment \<Rightarrow> commitment" where
  "acked peer index s =
     (let matched = cm_matched peer index s; s = s\<lparr>cm_match_index := btree_insert peer matched (cm_match_index s)\<rparr>
      in s\<lparr>cm_next_index := btree_insert peer (cm_next peer matched s) (cm_next_index s)\<rparr>)"

lemma cm_ack_known:
  "word_arg args 0 = Inr peer \<Longrightarrow> int_arg args 1 = Inr index \<Longrightarrow> map_of (cm_match_index s) peer = Some m \<Longrightarrow>
   snd (cm_ack args s) = advance_commit (acked peer index s)"
  by (simp add: cm_ack_def acked_def Let_def)

lemma acked_holders: "holders s n \<subseteq> holders (acked peer index s) n"
  by (auto simp: holders_def acked_def Let_def cm_matched_def)

lemma acked_fields [simp]:
  "cm_members (acked peer index s) = cm_members s" "cm_term (acked peer index s) = cm_term s"
  "cm_log (acked peer index s) = cm_log s" "cm_commit_index (acked peer index s) = cm_commit_index s"
  by (simp_all add: acked_def Let_def)

lemma acked_ok: "cm_ok n t s \<Longrightarrow> cm_ok n t (acked peer index s)"
proof -
  assume ok: "cm_ok n t s"
  have b: "btree_ok (cm_match_index (acked peer index s))" using ok by (simp add: cm_ok_def acked_def Let_def)
  have "cm_replicas s k \<le> cm_replicas (acked peer index s) k" for k
    using ok card_mono [OF holders_finite acked_holders] by (simp add: cm_ok_def replicas_holders b)
  then show ?thesis using ok b
    by (fastforce simp: cm_ok_def countable_def cm_majority_def cm_term_at_def intro: order_trans)
qed

lemma advance_ok: "cm_ok n t s \<Longrightarrow> cm_ok n t (advance_commit s)"
  using advance_from_spec [of s "cm_last_index s"] unfolding advance_commit_def
  by (auto simp: cm_ok_def countable_def cm_majority_def cm_term_at_def cm_replicas_def)

lemma countable_range: "countable s n \<Longrightarrow> n \<le> cm_last_index s"
  by (simp add: countable_def cm_term_at_def log_entry_at_def cm_last_index_def split: if_splits)

lemma advance_complete: "cm_commit_index (advance_commit s) < n \<Longrightarrow> \<not> countable (advance_commit s) n"
proof -
  have same: "countable (s\<lparr>cm_commit_index := k\<rparr>) n = countable s n" for k
    by (simp add: countable_def cm_majority_def cm_term_at_def cm_replicas_def)
  show "cm_commit_index (advance_commit s) < n \<Longrightarrow> \<not> countable (advance_commit s) n"
    using advance_from_spec [of s "cm_last_index s"] countable_range [of s n]
    unfolding advance_commit_def by (auto simp: same)
qed

lemma log_entry_at_append: "log_entry_at log k = Some e \<Longrightarrow> log_entry_at (log @ es) k = Some e"
proof -
  assume "log_entry_at log k = Some e"
  then have "1 \<le> k" "k \<le> int (length log)" "log ! nat (k - 1) = e" by (auto simp: log_entry_at_def split: if_splits)
  moreover have "nat (k - 1) < length log" using calculation by linarith
  ultimately show ?thesis by (simp add: log_entry_at_def nth_append)
qed

lemma cm_step_ok:
  assumes "cm_ok n t s" "cm_no_restart s command args"
  shows "cm_ok n t (snd (commitment_step parse render s command args))"
proof -
  have "countable s k \<Longrightarrow> countable (s\<lparr>cm_log := cm_log s @ [e]\<rparr>) k" for k e
    using log_entry_at_append [of "cm_log s" k] by (simp add: countable_def cm_majority_def cm_replicas_def cm_term_at_def)
  then have append: "cm_ok n t (snd (cm_append s))"
    using assms(1) by (auto simp: cm_append_def Let_def cm_ok_def)
  have reject: "cm_ok n t (snd (cm_reject args s))"
    using assms(1) by (cases "word_arg args 0"; cases "int_arg args 1")
      (auto simp: cm_reject_def Let_def cm_ok_def countable_def cm_majority_def cm_replicas_def cm_term_at_def)
  have ack: "cm_ok n t (snd (cm_ack args s))"
  proof (cases "\<exists>peer index m. word_arg args 0 = Inr peer \<and> int_arg args 1 = Inr index \<and> map_of (cm_match_index s) peer = Some m")
    case True
    then show ?thesis using cm_ack_known advance_ok [OF acked_ok [OF assms(1)]] by metis
  next
    case False
    then have "snd (cm_ack args s) = s"
      by (cases "word_arg args 0"; cases "int_arg args 1") (auto simp: cm_ack_def)
    then show ?thesis using assms(1) by simp
  qed
  have "snd (cm_commit_safe args s) = s" "snd (cm_entry args s) = s"
    by (cases "int_arg args 0"; simp add: cm_commit_safe_def cm_entry_def)+
  then show ?thesis using assms append reject ack by (simp add: commitment_step_def cm_no_restart_def)
qed

interpretation cm: topic_invariant "commitment_step parse render" cm_no_restart "cm_ok n t"
  by unfold_locales (rule cm_step_ok)

lemma add_peers: "cm_ok n t s \<Longrightarrow> cm_commit_index s = 0 \<Longrightarrow>
    cm_ok n t (foldl (cm_add_peer next_index) s is) \<and> cm_commit_index (foldl (cm_add_peer next_index) s is) = 0"
  by (induction "is" arbitrary: s) (simp_all add: cm_add_peer_def Let_def cm_ok_def)

lemma cm_init_ok:
  assumes "uint_arg args 0 = Inr n" "int_arg args 1 = Inr t" "int_list_arg parse render args 2 = Inr terms" "1 \<le> n"
  shows "cm_ok n t (snd (commitment_step parse render s ''init'' args))"
proof -
  let ?s = "cm_default\<lparr>cm_members := n, cm_term := t, cm_log := terms\<rparr>"
  have "cm_ok n t ?s" "cm_commit_index ?s = 0" by (simp_all add: cm_ok_def cm_default_def)
  then have "cm_ok n t (foldl (cm_add_peer (cm_last_index ?s + 1)) ?s [2..<Suc n])" using add_peers by blast
  moreover have "snd (commitment_step parse render s ''init'' args) = foldl (cm_add_peer (cm_last_index ?s + 1)) ?s [2..<Suc n]"
    using assms by (simp only: commitment_step_def cm_init_def with_arg_simps) (simp add: Let_def)
  ultimately show ?thesis by simp
qed

text \<open>C24: the leader commits by counting. In every session after an \<open>init\<close>, every index up to the commit index is
  held by a majority of the members, the leader included, and the entry at the commit index is of the
  leader's own term; after an acknowledgement no later entry of that term is held by a majority.\<close>
theorem leader_commits_by_majority:
  assumes "uint_arg args 0 = Inr n" "int_arg args 1 = Inr t" "int_list_arg parse render args 2 = Inr terms" "1 \<le> n"
    and "session_ok cm_no_restart (commitment_step parse render) cs (snd (commitment_step parse render s0 ''init'' args))"
    and "s = snd (topic_run (commitment_step parse render) cs (snd (commitment_step parse render s0 ''init'' args)))"
    and "word_arg ack 0 = Inr peer" "int_arg ack 1 = Inr index" "map_of (cm_match_index s) peer \<noteq> None"
  shows "(\<forall>k. 0 < k \<and> k \<le> cm_commit_index s \<longrightarrow> n div 2 + 1 \<le> Suc (card (holders s k))) \<and>
    (0 < cm_commit_index s \<longrightarrow> cm_term_at s (cm_commit_index s) = Some t) \<and>
    (let s' = snd (commitment_step parse render s ''ack'' ack)
     in \<forall>k > cm_commit_index s'. cm_term_at s' k = Some t \<longrightarrow> Suc (card (holders s' k)) < n div 2 + 1)"
proof -
  have ok: "cm_ok n t s" unfolding assms(6) using cm_init_ok [OF assms(1-4)] assms(5) by (rule cm.session_keeps)
  have "n div 2 + 1 \<le> Suc (card (holders s k))" if "0 < k" "k \<le> cm_commit_index s" for k
    using ok that holders_mono [of k "cm_commit_index s" s]
    by (auto simp: cm_ok_def countable_def cm_majority_def replicas_holders)
  moreover have "cm_term_at s (cm_commit_index s) = Some t" if "0 < cm_commit_index s"
    using ok that by (auto simp: cm_ok_def countable_def)
  moreover have "Suc (card (holders s' k)) < n div 2 + 1"
    if s': "s' = snd (commitment_step parse render s ''ack'' ack)" and "cm_commit_index s' < k" "cm_term_at s' k = Some t" for s' k
  proof -
    have ok': "cm_ok n t s'" unfolding s' using ok by (rule cm_step_ok) (simp add: cm_no_restart_def)
    obtain m where "map_of (cm_match_index s) peer = Some m" using assms(9) by auto
    then have "s' = advance_commit (acked peer index s)"
      using cm_ack_known [OF assms(7,8)] by (simp add: s' commitment_step_def)
    then have "\<not> countable s' k" using advance_complete that(2) by simp
    then show ?thesis using ok' that(3) by (simp add: countable_def cm_ok_def cm_majority_def replicas_holders)
  qed
  ultimately show ?thesis by (simp add: Let_def)
qed

definition two_terms :: json_parser where
  "two_terms raw = (if raw = ''[1,2]'' then Inr (JArr [JInt 1, JInt 2]) else Inl ''expected value'')"

text \<open>Three members in term 2: the entry of term 1 is not committed by counting, the one of term 2 is.\<close>

theorem leader_commits_by_majority_witness:
  "let s = snd (commitment_step two_terms (\<lambda>_. []) cm_default ''init'' [''3'', ''2'', ''[1,2]''])
   in \<forall>k > cm_commit_index (snd (commitment_step two_terms (\<lambda>_. []) s ''ack'' [''s2'', ''1''])).
        cm_term_at (snd (commitment_step two_terms (\<lambda>_. []) s ''ack'' [''s2'', ''1''])) k = Some 2 \<longrightarrow>
        Suc (card (holders (snd (commitment_step two_terms (\<lambda>_. []) s ''ack'' [''s2'', ''1''])) k)) < 2"
proof -
  let ?i = "[''3'', ''2'', ''[1,2]'']"
  let ?s = "snd (commitment_step two_terms (\<lambda>_. []) cm_default ''init'' ?i)"
  have p: "parse_i64 ''3'' = Some 3"
    by (simp add: parse_i64_def parse_uint_def digit_of_def i64_max_def of_char_def)
  have a: "uint_arg ?i 0 = Inr 3" "int_arg ?i 1 = Inr 2" "int_list_arg two_terms (\<lambda>_. []) ?i 2 = Inr [1, 2]"
    "word_arg [''s2'', ''1''] 0 = Inr ''s2''" "int_arg [''s2'', ''1''] 1 = Inr 1"
    by (simp_all add: uint_arg_def int_arg_def int_list_arg_def json_arg_def word_arg_def arg_def ok_or_def one_two p
        two_terms_def json_i64_def in_i64_def i64_min_def i64_max_def)
  have s2: "show_nat 2 = ''2''" by code_simp
  have upto: "[2..<Suc 3] = [2, 3]" by (simp add: upt_rec)
  have "?s = foldl (cm_add_peer 3) (cm_default\<lparr>cm_members := 3, cm_term := 2, cm_log := [1, 2]\<rparr>) [2, 3]"
    using a unfolding commitment_step_def cm_init_def
    by (simp only: with_arg_simps upto) (simp add: Let_def cm_last_index_def cm_default_def)
  then have "map_of (cm_match_index ?s) ''s2'' \<noteq> None"
    by (simp add: cm_add_peer_def Let_def s2)
  then show ?thesis
    using leader_commits_by_majority [of ?i 3 2 two_terms "\<lambda>_. []" "[1, 2]" "[]" cm_default ?s "[''s2'', ''1'']" "''s2''" 1] a
    by (simp add: Let_def)
qed

text \<open>
  Compaction is invisible: a log with a prefix replaced by a snapshot answers as the whole log would.
\<close>

section \<open>A compacted log\<close>

definition sn_small :: "snapshots \<Rightarrow> bool" where
  "sn_small s \<longleftrightarrow> 0 \<le> sn_index s \<and> sn_index s + int (length (sn_log s)) < i64_max"

lemma sn_bounds:
  assumes "sn_small s"
  shows "sn_first_index s = sn_index s + 1" "sn_last_index s = sn_index s + int (length (sn_log s))"
  using assms by (simp_all add: sn_first_index_def sn_last_index_def sn_small_def in_i64_def i64_min_def)

lemma sn_term_at_small:
  "sn_small s \<Longrightarrow> sn_term_at s i = (if i = sn_index s then Some (sn_term s) else log_entry_at (sn_log s) (i - sn_index s))"
  by (auto simp: sn_term_at_def sn_bounds log_entry_at_def)

lemma sn_put_small:
  assumes "sn_small s" "k \<le> length (sn_log s)"
  shows "sn_put (sn_index s + int k + 1) e s = s\<lparr>sn_log := appended k [e] (sn_log s)\<rparr>"
proof (cases "k < length (sn_log s)")
  case True
  then have "drop k (sn_log s) = sn_log s ! k # drop (Suc k) (sn_log s)" by (simp add: Cons_nth_drop_Suc)
  then show ?thesis using True assms(1)
    by (auto simp: sn_put_def sn_term_at_small sn_bounds log_entry_at_def appended_def nat_add_distrib)
next
  case False
  then show ?thesis using assms by (simp add: sn_put_def sn_term_at_small log_entry_at_def appended_def)
qed

lemma length_appended: "k \<le> length log \<Longrightarrow> k + length es \<le> length (appended k es log) \<and>
    length (appended k es log) \<le> max (length log) (k + length es)"
proof -
  assume k: "k \<le> length log"
  have "k + length es \<le> length log" if "take (length es) (drop k log) = es"
    using arg_cong [OF that, of length] k by simp
  then show ?thesis using k by (auto simp: appended_def)
qed

lemma sn_put_all_small:
  "sn_small s \<Longrightarrow> k \<le> length (sn_log s) \<Longrightarrow> sn_index s + int (length (sn_log s)) + int (length es) < i64_max \<Longrightarrow>
   sn_put_all (sn_index s + int k + 1) es s = s\<lparr>sn_log := appended k es (sn_log s)\<rparr>"
proof (induction es arbitrary: k s)
  case (Cons e es)
  let ?s = "s\<lparr>sn_log := appended k [e] (sn_log s)\<rparr>"
  have len: "Suc k \<le> length (appended k [e] (sn_log s))" "length (appended k [e] (sn_log s)) \<le> Suc (length (sn_log s))"
    using length_appended [OF Cons.prems(2), of "[e]"] Cons.prems(2) by auto
  have "sn_put_all (sn_index ?s + int (Suc k) + 1) es ?s = ?s\<lparr>sn_log := appended (Suc k) es (sn_log ?s)\<rparr>"
    using Cons.prems len by (intro Cons.IH) (auto simp: sn_small_def)
  moreover have "wrap_i64 (sn_index s + int k + 1 + 1) = sn_index s + int (Suc k) + 1"
    using Cons.prems by (simp add: in_i64_def i64_min_def sn_small_def)
  ultimately show ?case using Cons.prems by (simp add: sn_put_small appended_Cons)
qed (simp add: appended_def)

lemma drop_appended: "k \<le> j \<Longrightarrow> j \<le> length log \<Longrightarrow> drop k (appended j es log) = appended (j - k) es (drop k log)"
  by (simp add: appended_def drop_take)

section \<open>The same log, compacted and whole\<close>

definition compacted :: "snapshots \<Rightarrow> snapshots \<Rightarrow> bool" where
  "compacted s w \<longleftrightarrow>
     sn_index w = 0 \<and> sn_term w = 0 \<and> sn_small w \<and>
     0 \<le> sn_index s \<and> sn_index s \<le> sn_commit_index s \<and> sn_commit_index s \<le> int (length (sn_log w)) \<and>
     sn_log s = drop (nat (sn_index s)) (sn_log w) \<and>
     sn_term s = (if sn_index s = 0 then 0 else sn_log w ! nat (sn_index s - 1)) \<and>
     sn_commit_index s = sn_commit_index w"

lemma compacted_small:
  assumes "compacted s w"
  shows "sn_small s" "sn_last_index s = sn_last_index w"
proof -
  show s: "sn_small s" using assms by (auto simp: compacted_def sn_small_def)
  show "sn_last_index s = sn_last_index w" using assms
    by (auto simp: sn_bounds [OF s] sn_bounds compacted_def of_nat_diff nat_le_iff)
qed

lemma compacted_term_at: "compacted s w \<Longrightarrow> sn_index s \<le> i \<Longrightarrow> sn_term_at s i = sn_term_at w i"
proof -
  assume c: "compacted s w" and i: "sn_index s \<le> i"
  have w: "sn_small w" using c by (simp add: compacted_def)
  show ?thesis
  proof (cases "i = sn_index s")
    case True
    then show ?thesis using c
      by (auto simp: sn_term_at_small [OF w] sn_term_at_small [OF compacted_small(1) [OF c]] compacted_def log_entry_at_def)
  next
    case False
    define k where "k = nat (sn_index s)"
    have "sn_index s = int k" using c by (simp add: k_def compacted_def)
    moreover have "log_entry_at (drop k (sn_log w)) (i - int k) = log_entry_at (sn_log w) i"
      using False i calculation by (auto simp: log_entry_at_def nat_diff_distrib' nth_drop add.commute)
    ultimately show ?thesis using c False i
      by (simp add: sn_term_at_small [OF w] sn_term_at_small [OF compacted_small(1) [OF c]]) (auto simp: compacted_def)
  qed
qed

definition sn_allowed :: "json_parser \<Rightarrow> (json \<Rightarrow> string) \<Rightarrow> snapshots \<Rightarrow> string \<Rightarrow> string list \<Rightarrow> bool" where
  "sn_allowed parse render s command args \<longleftrightarrow>
     command \<notin> {''init'', ''install''} \<and>
     (command = ''append'' \<longrightarrow>
        (\<forall>p. int_arg args 1 = Inr p \<longrightarrow> sn_index s \<le> p) \<and>
        (\<forall>es. int_list_arg parse render args 3 = Inr es \<longrightarrow> sn_last_index s + int (length es) < i64_max) \<and>
        sn_commit_index s \<le> sn_last_index (snd (sn_append parse render args s)))"

lemma compacted_commit: "compacted s w \<Longrightarrow> compacted (snd (sn_commit args s)) (snd (sn_commit args w))"
  using compacted_small [of s w]
  by (cases "int_arg args 0") (auto simp: sn_commit_def Let_def compacted_def sn_bounds sn_small_def min_def split: if_splits)

lemma compacted_snapshot: "compacted s w \<Longrightarrow> compacted (snd (sn_snapshot args s)) w"
proof (cases "\<exists>index. int_arg args 0 = Inr index \<and> sn_index s < index \<and> index \<le> sn_commit_index s")
  case False
  then show "compacted s w \<Longrightarrow> ?thesis"
    by (cases "int_arg args 0") (auto simp: sn_snapshot_def compact_to_def)
next
  case True
  assume c: "compacted s w"
  obtain i where i: "int_arg args 0 = Inr i" "sn_index s < i" "i \<le> sn_commit_index s" using True by blast
  have "sn_term_at s i = sn_term_at w i" using c i by (intro compacted_term_at) auto
  also have "\<dots> = Some (sn_log w ! nat (i - 1))"
    using c i sn_term_at_small [of w i] by (simp add: compacted_def log_entry_at_def)
  finally show ?thesis using c i
    by (auto simp: sn_snapshot_def compact_to_def compacted_def Let_def min_def nat_diff_distrib')
qed

lemma sn_append_accepted:
  assumes "int_arg args 0 = Inr u" "int_arg args 1 = Inr p" "int_arg args 2 = Inr pt" "int_list_arg parse render args 3 = Inr es"
    and "sn_index s \<le> p" "p \<le> sn_last_index s" "sn_term_at s p = Some pt"
  shows "snd (sn_append parse render args s) = sn_put_all (wrap_i64 (p + 1)) es s"
  using assms(5-7) unfolding sn_append_def assms(1-4) with_arg_simps by (simp add: Let_def)

lemma compacted_append:
  assumes c: "compacted s w" and a: "sn_allowed parse render s ''append'' args"
  shows "compacted (snd (sn_append parse render args s)) (snd (sn_append parse render args w))"
proof (cases "\<exists>u p pt es. int_arg args 0 = Inr u \<and> int_arg args 1 = Inr p \<and> int_arg args 2 = Inr pt \<and>
    int_list_arg parse render args 3 = Inr es \<and> p \<le> sn_last_index s \<and> sn_term_at s p = Some pt")
  case False
  have "sn_index s \<le> p \<longrightarrow> sn_term_at s p = sn_term_at w p" for p using compacted_term_at [OF c] by blast
  then have "snd (sn_append parse render args s) = s" "snd (sn_append parse render args w) = w"
    using False a compacted_small(2) [OF c]
    by (cases "int_arg args 0"; cases "int_arg args 1"; cases "int_arg args 2"; cases "int_list_arg parse render args 3";
        auto simp: sn_append_def sn_allowed_def)+
  then show ?thesis using c by simp
next
  case True
  then obtain u p pt es where args: "int_arg args 0 = Inr u" "int_arg args 1 = Inr p" "int_arg args 2 = Inr pt"
      "int_list_arg parse render args 3 = Inr es" and at: "p \<le> sn_last_index s" "sn_term_at s p = Some pt"
    by blast
  have p: "sn_index s \<le> p" "sn_last_index s + int (length es) < i64_max"
      "sn_commit_index s \<le> sn_last_index (snd (sn_append parse render args s))"
    using a args by (auto simp: sn_allowed_def)
  note small = compacted_small [OF c]
  have w: "sn_small w" "sn_index w = 0" using c by (auto simp: compacted_def)
  define j where "j = nat p"
  define k where "k = nat (sn_index s)"
  have jk: "k \<le> j" "p = int j" "sn_index s = int k" "j \<le> length (sn_log w)"
    using c p(1) at(1) sn_bounds(2) [OF w(1)] small(2) by (auto simp: j_def k_def compacted_def)
  have pos: "\<not> p < 0" using jk(2) by simp
  have front: "sn_log s = drop k (sn_log w)" using c by (simp add: compacted_def k_def)
  then have lens: "length (sn_log s) = length (sn_log w) - k" by simp
  have j_sum: "sn_index s + int (j - k) + 1 = p + 1" "int j + 1 = p + 1" using jk by (simp_all add: of_nat_diff)
  have wrap: "wrap_i64 (p + 1) = p + 1"
    using jk at(1) p(2) by (simp add: in_i64_def i64_min_def)
  have "sn_put_all (sn_index s + int (j - k) + 1) es s = s\<lparr>sn_log := appended (j - k) es (sn_log s)\<rparr>"
  proof (rule sn_put_all_small [OF small(1)])
    show "j - k \<le> length (sn_log s)" using jk(4) lens by simp
    show "sn_index s + int (length (sn_log s)) + int (length es) < i64_max"
      using p(2) by (simp add: sn_bounds(2) [OF small(1)])
  qed
  moreover have "sn_put_all (sn_index w + int j + 1) es w = w\<lparr>sn_log := appended j es (sn_log w)\<rparr>"
  proof (rule sn_put_all_small [OF w(1) jk(4)])
    show "sn_index w + int (length (sn_log w)) + int (length es) < i64_max"
      using p(2) small(2) by (simp add: sn_bounds(2) [OF w(1)])
  qed
  moreover have "sn_term_at w p = Some pt" using compacted_term_at [OF c p(1)] at(2) by simp
  ultimately have after: "snd (sn_append parse render args s) = s\<lparr>sn_log := appended (j - k) es (sn_log s)\<rparr>"
      "snd (sn_append parse render args w) = w\<lparr>sn_log := appended j es (sn_log w)\<rparr>"
  proof -
    assume "sn_put_all (sn_index s + int (j - k) + 1) es s = s\<lparr>sn_log := appended (j - k) es (sn_log s)\<rparr>"
      "sn_put_all (sn_index w + int j + 1) es w = w\<lparr>sn_log := appended j es (sn_log w)\<rparr>" "sn_term_at w p = Some pt"
    moreover have "sn_index w + int j + 1 = p + 1" using j_sum(2) w(2) by simp
    ultimately show "snd (sn_append parse render args s) = s\<lparr>sn_log := appended (j - k) es (sn_log s)\<rparr>"
        "snd (sn_append parse render args w) = w\<lparr>sn_log := appended j es (sn_log w)\<rparr>"
      using sn_append_accepted [OF args p(1) at] sn_append_accepted [OF args _ at(1) [unfolded small(2)]] pos w(2)
      unfolding wrap j_sum(1) by simp_all
  qed
  have log: "appended (j - k) es (sn_log s) = drop k (appended j es (sn_log w))"
    unfolding front by (rule drop_appended [OF jk(1,4), symmetric])
  have len: "int (length (appended j es (sn_log w))) < i64_max" "k \<le> length (appended j es (sn_log w))"
    using length_appended [OF jk(4), of es] jk(1,4) p(2) unfolding small(2) sn_bounds(2) [OF w(1)] w(2)
    by (linarith, simp)
  have kept: "take k (appended j es (sn_log w)) = take k (sn_log w)"
    using jk(1,4) by (simp add: appended_def min_absorb1)
  have at_cut: "sn_index s \<noteq> 0 \<Longrightarrow> appended j es (sn_log w) ! nat (sn_index s - 1) = sn_log w ! nat (sn_index s - 1)"
    using arg_cong [OF kept, of "\<lambda>xs. xs ! nat (sn_index s - 1)"] jk(3) by (simp add: nat_less_iff)
  have new: "sn_small (s\<lparr>sn_log := appended (j - k) es (sn_log s)\<rparr>)"
    using len jk(3) by (simp add: sn_small_def log of_nat_diff)
  have "sn_commit_index s \<le> int (length (appended j es (sn_log w)))"
    using p(3) sn_bounds(2) [OF new] len(2) jk(3) by (simp add: after log of_nat_diff)
  then show ?thesis using c w len(1) log at_cut jk(3) unfolding after
    by (auto simp: compacted_def sn_small_def)
qed

lemma compacted_step:
  assumes "compacted s w" "sn_allowed parse render s command args"
  shows "compacted (snd (snapshots_step parse render s command args))
    (if command = ''snapshot'' then w else snd (snapshots_step parse render w command args))"
  using assms compacted_commit compacted_snapshot compacted_append
  by (auto simp: snapshots_step_def sn_allowed_def)

lemma compacted_session:
  "compacted s w \<Longrightarrow> session_ok (sn_allowed parse render) (snapshots_step parse render) cs s \<Longrightarrow>
   compacted (snd (topic_run (snapshots_step parse render) cs s))
     (snd (topic_run (snapshots_step parse render) (filter (\<lambda>(command, _). command \<noteq> ''snapshot'') cs) w))"
proof (induction cs arbitrary: s w)
  case (Cons x cs)
  obtain command args where x: "x = (command, args)" by fastforce
  have "compacted (snd (snapshots_step parse render s command args))
      (if command = ''snapshot'' then w else snd (snapshots_step parse render w command args))"
    using Cons.prems by (intro compacted_step) (simp_all add: x)
  from Cons.IH [OF this] show ?case using Cons.prems(2) by (auto simp: x topic_run_Cons simp del: topic_run.simps)
qed simp

text \<open>C25: compaction is invisible. A session that takes snapshots, and in which no append rewrites what is
  committed or starts before the snapshot, ends with the same last index and commit index and the same
  term at every index from the snapshot on as the same session without its snapshots; and no snapshot
  ever reaches past the commit index.\<close>
theorem compaction_invisible:
  assumes "int_list_arg parse render args 0 = Inr terms" "int (length terms) < i64_max"
    and "s0 = snd (snapshots_step parse render z ''init'' args)"
    and "session_ok (sn_allowed parse render) (snapshots_step parse render) cs s0"
    and "s = snd (topic_run (snapshots_step parse render) cs s0)"
    and "w = snd (topic_run (snapshots_step parse render) (filter (\<lambda>(command, _). command \<noteq> ''snapshot'') cs) s0)"
  shows "sn_last_index s = sn_last_index w \<and> sn_commit_index s = sn_commit_index w \<and>
    (\<forall>i \<ge> sn_index s. sn_term_at s i = sn_term_at w i) \<and> sn_index s \<le> sn_commit_index s"
proof -
  have "s0 = sn_default\<lparr>sn_log := terms\<rparr>" using assms(1,3) by (simp add: snapshots_step_def sn_init_def Let_def)
  then have "compacted s0 s0" using assms(2) by (simp add: compacted_def sn_default_def sn_small_def)
  then have c: "compacted s w" using compacted_session assms(4-6) by metis
  then show ?thesis using compacted_small(2) [OF c] compacted_term_at [OF c] by (simp add: compacted_def)
qed

definition four_terms :: json_parser where
  "four_terms raw =
     (if raw = ''[1,1,2]'' then Inr (JArr [JInt 1, JInt 1, JInt 2]) else if raw = ''[2,3]'' then Inr (JArr [JInt 2, JInt 3])
      else Inl ''expected value'')"

definition compacting_session :: "(string \<times> string list) list" where
  "compacting_session =
     [(''commit'', [''2'']), (''snapshot'', [''2'']), (''append'', [''3'', ''2'', ''1'', ''[2,3]''])]"

theorem compaction_invisible_witness:
  "let s0 = snd (snapshots_step four_terms (\<lambda>_. []) sn_default ''init'' [''[1,1,2]'']);
       s = snd (topic_run (snapshots_step four_terms (\<lambda>_. [])) compacting_session s0);
       w = snd (topic_run (snapshots_step four_terms (\<lambda>_. [])) (filter (\<lambda>(command, _). command \<noteq> ''snapshot'') compacting_session) s0)
   in sn_last_index s = sn_last_index w \<and> sn_index s \<le> sn_commit_index s"
proof -
  let ?step = "snapshots_step four_terms (\<lambda>_. [])"
  let ?s0 = "snd (?step sn_default ''init'' [''[1,1,2]''])"
  have p: "parse_i64 ''3'' = Some 3" "parse_i64 ''2'' = Some 2" "parse_i64 ''1'' = Some 1"
    by (simp_all add: parse_i64_def parse_uint_def digit_of_def i64_max_def of_char_def)
  note args = int_arg_def int_list_arg_def json_arg_def word_arg_def arg_def ok_or_def p four_terms_def json_i64_def
  have a: "int_list_arg four_terms (\<lambda>_. []) [''[1,1,2]''] 0 = Inr [1, 1, 2]"
    by (simp add: args in_i64_def i64_min_def i64_max_def)
  have s0: "?s0 = \<lparr>sn_log = [1, 1, 2], sn_index = 0, sn_term = 0, sn_commit_index = 0\<rparr>"
    using a by (simp add: snapshots_step_def sn_init_def Let_def sn_default_def)
  have s1: "snd (?step \<lparr>sn_log = [1, 1, 2], sn_index = 0, sn_term = 0, sn_commit_index = 0\<rparr> ''commit'' [''2'']) =
      \<lparr>sn_log = [1, 1, 2], sn_index = 0, sn_term = 0, sn_commit_index = 2\<rparr>"
    by (simp add: snapshots_step_def sn_commit_def args Let_def sn_last_index_def in_i64_def i64_min_def i64_max_def)
  have s2: "snd (?step \<lparr>sn_log = [1, 1, 2], sn_index = 0, sn_term = 0, sn_commit_index = 2\<rparr> ''snapshot'' [''2'']) =
      \<lparr>sn_log = [2], sn_index = 2, sn_term = 1, sn_commit_index = 2\<rparr>"
    by (simp add: snapshots_step_def sn_snapshot_def args Let_def compact_to_def sn_term_at_small sn_small_def log_entry_at_def i64_max_def)
  let ?u = "\<lparr>sn_log = [2], sn_index = 2, sn_term = 1, sn_commit_index = 2\<rparr>" and ?a = "[''3'', ''2'', ''1'', ''[2,3]'']"
  have b: "int_arg ?a 0 = Inr 3" "int_arg ?a 1 = Inr 2" "int_arg ?a 2 = Inr 1" "int_list_arg four_terms (\<lambda>_. []) ?a 3 = Inr [2, 3]"
    by (simp_all add: args in_i64_def i64_min_def i64_max_def)
  have small: "sn_small ?u" by (simp add: sn_small_def i64_max_def)
  have "sn_put_all (sn_index ?u + int 0 + 1) [2, 3] ?u = ?u\<lparr>sn_log := [2, 3]\<rparr>"
    using sn_put_all_small [OF small, of 0 "[2, 3]"] by (simp add: appended_def i64_max_def)
  then have s3: "sn_last_index (snd (sn_append four_terms (\<lambda>_. []) ?a ?u)) = 4" "sn_last_index ?u = 3"
    using sn_append_accepted [OF b, of ?u] sn_bounds(2) [OF small] sn_term_at_small [OF small]
    by (simp_all add: in_i64_def i64_min_def i64_max_def sn_last_index_def)
  have "session_ok (sn_allowed four_terms (\<lambda>_. [])) ?step compacting_session ?s0"
    unfolding s0 compacting_session_def using b s3 by (simp add: s1 s2 sn_allowed_def i64_max_def)
  then show ?thesis
    using compaction_invisible [of four_terms "\<lambda>_. []" "[''[1,1,2]'']" "[1, 1, 2]" ?s0 sn_default compacting_session, OF a _ refl _ refl refl]
    by (simp add: Let_def i64_max_def)
qed

end
