(* ===== verification/Broadcast.thy ===== *)
theory Broadcast
  imports Topics
begin

text \<open>
  Broadcast abstractions and failure detectors, as \<^verbatim>\<open>disttest/examples/alg/broadcast.rs\<close> plays them. Sets
  of processes are kept in ascending order, as \<open>BTreeSet\<close> iterates them.
\<close>

section \<open>Broadcast\<close>

datatype mode = Best_Effort | Reliable | Uniform

fun mode_text :: "mode \<Rightarrow> string" where
  "mode_text Best_Effort = ''best-effort''"
| "mode_text Reliable = ''reliable''"
| "mode_text Uniform = ''uniform''"

record msg =
  ms_id :: int
  ms_from :: nat
  ms_held :: "nat list"
  ms_delivered :: "nat list"

record broadcast =
  bc_n :: nat
  bc_alive :: "bool list"
  bc_mode :: mode
  bc_msgs :: "msg list"
  bc_next_id :: int

definition bc_default :: broadcast where
  "bc_default = \<lparr>bc_n = 0, bc_alive = [], bc_mode = Best_Effort, bc_msgs = [], bc_next_id = 1\<rparr>"

definition bc_live :: "broadcast \<Rightarrow> nat list" where
  "bc_live s = filter (\<lambda>i. bc_alive s ! i) [0..<bc_n s]"

text \<open>The first message with an id is changed in place.\<close>

fun update_msg :: "int \<Rightarrow> (msg \<Rightarrow> msg) \<Rightarrow> msg list \<Rightarrow> msg list" where
  "update_msg k f [] = []"
| "update_msg k f (m # ms) = (if ms_id m = k then f m # ms else m # update_msg k f ms)"

definition deliver_msg :: "broadcast \<Rightarrow> nat \<Rightarrow> msg \<Rightarrow> msg" where
  "deliver_msg s to m =
     (if to \<in> set (ms_delivered m) \<or> \<not> bc_alive s ! to then m
      else
        (let m = m\<lparr>ms_delivered := bset_insert to (ms_delivered m), ms_held := removeAll to (ms_held m)\<rparr> in
         if bc_mode s \<noteq> Best_Effort
         then foldl (\<lambda>m other. if other \<notin> set (ms_delivered m) then m\<lparr>ms_held := bset_insert other (ms_held m)\<rparr> else m) m
                (filter (\<lambda>i. i \<noteq> to) [0..<bc_n s])
         else m))"

definition bc_deliver :: "int \<Rightarrow> nat \<Rightarrow> broadcast \<Rightarrow> broadcast" where
  "bc_deliver k to s = s\<lparr>bc_msgs := update_msg k (deliver_msg s to) (bc_msgs s)\<rparr>"

definition nats_json :: "nat list \<Rightarrow> json" where
  "nats_json ns = JArr (map count_json ns)"

definition msg_json :: "msg \<Rightarrow> json" where
  "msg_json m =
     JObj [(''id'', JInt (ms_id m)), (''from'', count_json (ms_from m)), (''held_by'', nats_json (ms_held m)),
           (''delivered_to'', nats_json (ms_delivered m))]"

definition bc_state :: "broadcast \<Rightarrow> json" where
  "bc_state s =
     JObj [(''ok'', JBool True), (''mode'', JStr (mode_text (bc_mode s))), (''alive'', nats_json (bc_live s)),
           (''messages'', JArr (map msg_json (bc_msgs s)))]"

definition bc_init :: "string list \<Rightarrow> broadcast \<Rightarrow> json \<times> broadcast" where
  "bc_init args s =
     with_arg (uint_arg args 0) (\<lambda>n.
       if n = 0 then (reply_err ''a group needs at least one process'', s)
       else (JObj [(''ok'', JBool True), (''processes'', count_json n), (''mode'', JStr (mode_text Best_Effort))],
             s\<lparr>bc_n := n, bc_alive := replicate n True, bc_mode := Best_Effort, bc_msgs := [], bc_next_id := 1\<rparr>)) s"

definition mode_of :: "string \<Rightarrow> mode option" where
  "mode_of w =
     (if w = ''best-effort'' then Some Best_Effort
      else if w = ''reliable'' then Some Reliable
      else if w = ''uniform'' then Some Uniform else None)"

definition bc_set_mode :: "string list \<Rightarrow> broadcast \<Rightarrow> json \<times> broadcast" where
  "bc_set_mode args s =
     with_arg (word_arg args 0) (\<lambda>w.
       case mode_of w of
         None \<Rightarrow> (reply_err (''unknown mode '' @ debug_str w), s)
       | Some md \<Rightarrow> (JObj [(''ok'', JBool True), (''mode'', JStr (mode_text md))], s\<lparr>bc_mode := md\<rparr>)) s"

definition no_process :: "nat \<Rightarrow> json" where
  "no_process i = reply_err (''no process '' @ show_nat i)"

definition no_message :: "int \<Rightarrow> json" where
  "no_message k = reply_err (''no message '' @ show_int k)"

definition bc_send :: "nat \<Rightarrow> broadcast \<Rightarrow> broadcast" where
  "bc_send from s =
     (let k = bc_next_id s;
          m = \<lparr>ms_id = k, ms_from = from, ms_held = filter (\<lambda>i. i \<noteq> from) [0..<bc_n s], ms_delivered = []\<rparr>
      in bc_deliver k from (s\<lparr>bc_next_id := wrap_i64 (k + 1), bc_msgs := bc_msgs s @ [m]\<rparr>))"

definition bc_broadcast :: "string list \<Rightarrow> broadcast \<Rightarrow> json \<times> broadcast" where
  "bc_broadcast args s =
     with_arg (uint_arg args 0) (\<lambda>from.
       if from \<ge> bc_n s then (no_process from, s)
       else if \<not> bc_alive s ! from
       then (JObj [(''ok'', JBool True), (''sent'', JBool False), (''reason'', JStr ''sender is down'')], s)
       else (JObj [(''ok'', JBool True), (''sent'', JBool True), (''id'', JInt (bc_next_id s))], bc_send from s)) s"

definition find_msg :: "int \<Rightarrow> broadcast \<Rightarrow> msg option" where
  "find_msg k s = find_first (\<lambda>m. ms_id m = k) (bc_msgs s)"

definition bc_hand :: "string list \<Rightarrow> broadcast \<Rightarrow> json \<times> broadcast" where
  "bc_hand args s =
     with_arg (int_arg args 0) (\<lambda>k. with_arg (uint_arg args 1) (\<lambda>to.
       if to \<ge> bc_n s then (no_process to, s)
       else
         (let held = (case find_msg k s of Some m \<Rightarrow> to \<in> set (ms_held m) | None \<Rightarrow> False) in
          if \<not> held
          then (JObj [(''ok'', JBool True), (''handed'', JBool False), (''reason'', JStr ''nothing held for it'')], s)
          else (JObj [(''ok'', JBool True), (''handed'', JBool True), (''id'', JInt k), (''to'', count_json to)],
                bc_deliver k to s))) s) s"

definition bc_drop :: "string list \<Rightarrow> broadcast \<Rightarrow> json \<times> broadcast" where
  "bc_drop args s =
     with_arg (int_arg args 0) (\<lambda>k. with_arg (uint_arg args 1) (\<lambda>to.
       (JObj [(''ok'', JBool True), (''dropped'', JInt k), (''to'', count_json to)],
        s\<lparr>bc_msgs := update_msg k (\<lambda>m. m\<lparr>ms_held := removeAll to (ms_held m)\<rparr>) (bc_msgs s)\<rparr>)) s) s"

definition survives :: "mode \<Rightarrow> bool list \<Rightarrow> nat \<Rightarrow> msg \<Rightarrow> bool" where
  "survives md alive i m =
     (case md of
        Best_Effort \<Rightarrow> False
      | Reliable \<Rightarrow> list_ex (\<lambda>d. d \<noteq> i \<and> alive ! d) (ms_delivered m)
      | Uniform \<Rightarrow> ms_delivered m \<noteq> [])"

definition crash_msg :: "mode \<Rightarrow> bool list \<Rightarrow> nat \<Rightarrow> msg \<Rightarrow> msg" where
  "crash_msg md alive i m = (if ms_from m = i \<and> \<not> survives md alive i m then m\<lparr>ms_held := []\<rparr> else m)"

definition bc_crash :: "string list \<Rightarrow> broadcast \<Rightarrow> json \<times> broadcast" where
  "bc_crash args s =
     with_arg (uint_arg args 0) (\<lambda>i.
       if i \<ge> bc_n s then (no_process i, s)
       else
         (let s = s\<lparr>bc_alive := (bc_alive s)[i := False]\<rparr>
          in (JObj [(''ok'', JBool True), (''crashed'', count_json i)],
              s\<lparr>bc_msgs := map (crash_msg (bc_mode s) (bc_alive s) i) (bc_msgs s)\<rparr>))) s"

definition bc_pending :: "broadcast \<Rightarrow> (int \<times> nat) list" where
  "bc_pending s = concat (map (\<lambda>m. map (Pair (ms_id m)) (filter (\<lambda>to. bc_alive s ! to) (ms_held m))) (bc_msgs s))"

definition deliver_all_pending :: "(int \<times> nat) list \<Rightarrow> broadcast \<Rightarrow> broadcast" where
  "deliver_all_pending pending s = foldl (\<lambda>s (k, to). bc_deliver k to s) s pending"

lemma deliver_all_pending_n [simp]: "bc_n (deliver_all_pending ps s) = bc_n s"
  by (induction ps arbitrary: s) (auto simp: deliver_all_pending_def bc_deliver_def)

function settle_loop :: "nat \<Rightarrow> broadcast \<Rightarrow> nat \<times> broadcast" where
  "settle_loop rounds s =
     (let pending = bc_pending s in
      if pending = [] \<or> rounds > bc_n s * 4 then (rounds, s)
      else settle_loop (rounds + 1) (deliver_all_pending pending s))"
  by pat_completeness auto

termination
  by (relation "measure (\<lambda>(rounds, s). Suc (bc_n s * 4) - rounds)") auto

declare settle_loop.simps [simp del]

definition bc_settle :: "broadcast \<Rightarrow> json \<times> broadcast" where
  "bc_settle s =
     (let (rounds, s) = settle_loop 0 s in (JObj [(''ok'', JBool True), (''rounds'', count_json rounds)], s))"

definition all_correct :: "broadcast \<Rightarrow> msg \<Rightarrow> bool" where
  "all_correct s m = list_all (\<lambda>i. i \<in> set (ms_delivered m)) (bc_live s)"

definition bc_delivered :: "string list \<Rightarrow> broadcast \<Rightarrow> json \<times> broadcast" where
  "bc_delivered args s =
     with_arg (int_arg args 0) (\<lambda>k.
       (case find_msg k s of
          None \<Rightarrow> no_message k
        | Some m \<Rightarrow>
            JObj [(''ok'', JBool True), (''id'', JInt k), (''delivered_to'', nats_json (ms_delivered m)),
                  (''correct_processes'', nats_json (filter (\<lambda>i. bc_alive s ! i) (ms_delivered m))),
                  (''all_correct'', JBool (all_correct s m))], s)) s"

definition broadcast_step :: "broadcast \<Rightarrow> string \<Rightarrow> string list \<Rightarrow> json \<times> broadcast" where
  "broadcast_step s command args =
     (if command = ''init'' then bc_init args s
      else if command = ''mode'' then bc_set_mode args s
      else if command = ''broadcast'' then bc_broadcast args s
      else if command = ''hand'' then bc_hand args s
      else if command = ''drop'' then bc_drop args s
      else if command = ''crash'' then bc_crash args s
      else if command = ''settle'' then bc_settle s
      else if command = ''delivered'' then bc_delivered args s
      else if command = ''state'' then (bc_state s, s)
      else (unknown_command command, s))"

section \<open>Orders of delivery\<close>

record ordered =
  od_id :: int
  od_from :: nat
  od_seq :: int
  od_clock :: "int list"
  od_slot :: int

record ordering =
  og_n :: nat
  og_order :: string
  og_delivered_from :: "int list list"
  og_log :: "int list list"
  og_sent :: "int list"
  og_queue :: "ordered list"
  og_next_id :: int
  og_next_slot :: int

definition og_default :: ordering where
  "og_default =
     \<lparr>og_n = 0, og_order = ''fifo'', og_delivered_from = [], og_log = [], og_sent = [], og_queue = [],
      og_next_id = 1, og_next_slot = 1\<rparr>"

definition og_deliverable :: "ordering \<Rightarrow> ordered \<Rightarrow> nat \<Rightarrow> bool" where
  "og_deliverable s m to =
     (let seen = og_delivered_from s ! to in
      if og_order s = ''fifo'' then seen ! od_from m + 1 = od_seq m
      else if og_order s = ''causal''
      then (if seen ! od_from m + 1 \<noteq> od_seq m then False
            else list_all (\<lambda>k. k = od_from m \<or> seen ! k \<ge> od_clock m ! k) [0..<og_n s])
      else if og_order s = ''total'' then int (length (og_log s ! to)) + 1 = od_slot m
      else True)"

definition og_init :: "string list \<Rightarrow> ordering \<Rightarrow> json \<times> ordering" where
  "og_init args s =
     with_arg (uint_arg args 0) (\<lambda>n.
       if n = 0 then (reply_err ''a group needs at least one process'', s)
       else (JObj [(''ok'', JBool True), (''processes'', count_json n), (''order'', JStr (og_order s))],
             s\<lparr>og_n := n, og_delivered_from := replicate n (replicate n 0), og_log := replicate n [],
               og_sent := replicate n 0, og_queue := [], og_next_id := 1, og_next_slot := 1\<rparr>)) s"

definition og_set_order :: "string list \<Rightarrow> ordering \<Rightarrow> json \<times> ordering" where
  "og_set_order args s =
     with_arg (word_arg args 0) (\<lambda>w.
       if w \<in> {''fifo'', ''causal'', ''total''}
       then (JObj [(''ok'', JBool True), (''order'', JStr w)], s\<lparr>og_order := w\<rparr>)
       else (reply_err (''unknown order '' @ debug_str w), s)) s"

definition og_send_from :: "nat \<Rightarrow> ordering \<Rightarrow> json \<times> ordering" where
  "og_send_from from s =
     (let s = s\<lparr>og_sent := (og_sent s)[from := wrap_i64 (og_sent s ! from + 1)]\<rparr>;
          k = og_next_id s; slot = og_next_slot s;
          m = \<lparr>od_id = k, od_from = from, od_seq = og_sent s ! from, od_clock = og_delivered_from s ! from, od_slot = slot\<rparr>
      in (JObj [(''ok'', JBool True), (''id'', JInt k), (''seq'', JInt (og_sent s ! from)), (''slot'', JInt slot)],
          s\<lparr>og_next_id := wrap_i64 (k + 1), og_next_slot := wrap_i64 (slot + 1), og_queue := og_queue s @ [m]\<rparr>))"

definition og_send :: "string list \<Rightarrow> ordering \<Rightarrow> json \<times> ordering" where
  "og_send args s =
     with_arg (uint_arg args 0) (\<lambda>from. if from \<ge> og_n s then (no_process from, s) else og_send_from from s) s"

definition og_take :: "ordered \<Rightarrow> nat \<Rightarrow> ordering \<Rightarrow> ordering" where
  "og_take m to s =
     s\<lparr>og_delivered_from := (og_delivered_from s)[to := (og_delivered_from s ! to)[od_from m := od_seq m]],
       og_log := (og_log s)[to := og_log s ! to @ [od_id m]]\<rparr>"

definition og_offer :: "string list \<Rightarrow> ordering \<Rightarrow> json \<times> ordering" where
  "og_offer args s =
     with_arg (int_arg args 0) (\<lambda>k. with_arg (uint_arg args 1) (\<lambda>to.
       if to \<ge> og_n s then (no_process to, s)
       else
         (case find_first (\<lambda>m. od_id m = k) (og_queue s) of
            None \<Rightarrow> (no_message k, s)
          | Some m \<Rightarrow>
              if k \<in> set (og_log s ! to)
              then (JObj [(''ok'', JBool True), (''delivered'', JBool False), (''reason'', JStr ''already delivered'')], s)
              else if \<not> og_deliverable s m to
              then (JObj [(''ok'', JBool True), (''delivered'', JBool False), (''reason'', JStr ''held back''),
                          (''order'', JStr (og_order s))], s)
              else (JObj [(''ok'', JBool True), (''delivered'', JBool True), (''id'', JInt k), (''to'', count_json to)],
                    og_take m to s))) s) s"

definition ints_json :: "int list \<Rightarrow> json" where
  "ints_json ns = JArr (map JInt ns)"

definition og_show_log :: "string list \<Rightarrow> ordering \<Rightarrow> json \<times> ordering" where
  "og_show_log args s =
     with_arg (uint_arg args 0) (\<lambda>i.
       (if i \<ge> og_n s then no_process i
        else JObj [(''ok'', JBool True), (''process'', count_json i), (''log'', ints_json (og_log s ! i))], s)) s"

definition og_state :: "ordering \<Rightarrow> json" where
  "og_state s =
     JObj [(''ok'', JBool True), (''order'', JStr (og_order s)), (''logs'', JArr (map ints_json (og_log s))),
           (''queued'', count_json (length (og_queue s)))]"

definition ordering_step :: "ordering \<Rightarrow> string \<Rightarrow> string list \<Rightarrow> json \<times> ordering" where
  "ordering_step s command args =
     (if command = ''init'' then og_init args s
      else if command = ''order'' then og_set_order args s
      else if command = ''send'' then og_send args s
      else if command = ''offer'' then og_offer args s
      else if command = ''log'' then og_show_log args s
      else if command = ''state'' then (og_state s, s)
      else (unknown_command command, s))"

section \<open>Failure detectors\<close>

record detector =
  dt_n :: nat
  dt_crashed :: "bool list"
  dt_suspects :: "nat list list"
  dt_class :: string
  dt_stable :: bool

definition dt_default :: detector where
  "dt_default = \<lparr>dt_n = 0, dt_crashed = [], dt_suspects = [], dt_class = [], dt_stable = False\<rparr>"

definition dt_down :: "detector \<Rightarrow> nat list" where
  "dt_down s = filter (\<lambda>i. dt_crashed s ! i) [0..<dt_n s]"

definition dt_up :: "detector \<Rightarrow> nat list" where
  "dt_up s = filter (\<lambda>i. \<not> dt_crashed s ! i) [0..<dt_n s]"

definition insert_all :: "nat list \<Rightarrow> nat list \<Rightarrow> nat list" where
  "insert_all xs m = foldl (\<lambda>m x. bset_insert x m) m xs"

definition insert_first :: "nat option \<Rightarrow> nat list \<Rightarrow> nat list" where
  "insert_first x m = (case x of Some a \<Rightarrow> bset_insert a m | None \<Rightarrow> m)"

definition suspects_of :: "detector \<Rightarrow> nat \<Rightarrow> nat list" where
  "suspects_of s i =
     (let down = filter (\<lambda>c. c \<noteq> i) (dt_down s); up = dt_up s in
      if dt_class s = ''P'' then down
      else if dt_class s = ''eventually-perfect''
      then (if \<not> dt_stable s then insert_first (find_first (\<lambda>a. a \<noteq> i) up) down else down)
      else if dt_class s = ''eventually-strong''
      then
        (let trusted = find_first (\<lambda>_. True) up;
             m = insert_all (filter (\<lambda>a. Some a \<noteq> trusted \<and> a \<noteq> i) up) down
         in if \<not> dt_stable s
            then insert_first (case trusted of Some t \<Rightarrow> if t \<noteq> i then Some t else None | None \<Rightarrow> None) m
            else m)
      else down)"

definition dt_refresh :: "detector \<Rightarrow> detector" where
  "dt_refresh s = s\<lparr>dt_suspects := foldl (\<lambda>out i. out[i := suspects_of s i]) (dt_suspects s) [0..<dt_n s]\<rparr>"

definition dt_init :: "string list \<Rightarrow> detector \<Rightarrow> json \<times> detector" where
  "dt_init args s =
     with_arg (uint_arg args 0) (\<lambda>n.
       if n = 0 then (reply_err ''a group needs at least one process'', s)
       else
         (let s = dt_refresh (s\<lparr>dt_n := n, dt_crashed := replicate n False, dt_suspects := replicate n [],
                    dt_class := ''P'', dt_stable := True\<rparr>)
          in (JObj [(''ok'', JBool True), (''processes'', count_json n), (''class'', JStr (dt_class s))], s))) s"

definition dt_set_class :: "string list \<Rightarrow> detector \<Rightarrow> json \<times> detector" where
  "dt_set_class args s =
     with_arg (word_arg args 0) (\<lambda>w.
       if w \<in> {''P'', ''eventually-perfect'', ''eventually-strong''}
       then
         (let s = dt_refresh (s\<lparr>dt_class := w, dt_stable := (w = ''P'')\<rparr>)
          in (JObj [(''ok'', JBool True), (''class'', JStr (dt_class s)), (''stable'', JBool (dt_stable s))], s))
       else (reply_err (''unknown class '' @ debug_str w), s)) s"

definition dt_crash :: "string list \<Rightarrow> detector \<Rightarrow> json \<times> detector" where
  "dt_crash args s =
     with_arg (uint_arg args 0) (\<lambda>i.
       if i \<ge> dt_n s then (no_process i, s)
       else (JObj [(''ok'', JBool True), (''crashed'', count_json i)],
             dt_refresh (s\<lparr>dt_crashed := (dt_crashed s)[i := True]\<rparr>))) s"

definition dt_stabilise :: "detector \<Rightarrow> json \<times> detector" where
  "dt_stabilise s = (JObj [(''ok'', JBool True), (''stable'', JBool True)], dt_refresh (s\<lparr>dt_stable := True\<rparr>))"

definition dt_show_suspects :: "string list \<Rightarrow> detector \<Rightarrow> json \<times> detector" where
  "dt_show_suspects args s =
     with_arg (uint_arg args 0) (\<lambda>i.
       (if i \<ge> dt_n s then no_process i
        else JObj [(''ok'', JBool True), (''process'', count_json i), (''suspects'', nats_json (dt_suspects s ! i))], s)) s"

definition dt_complete :: "detector \<Rightarrow> bool" where
  "dt_complete s = list_all (\<lambda>i. list_all (\<lambda>c. c \<in> set (dt_suspects s ! i)) (dt_down s)) (dt_up s)"

definition strong_accuracy :: "detector \<Rightarrow> bool" where
  "strong_accuracy s = list_all (\<lambda>i. list_all (\<lambda>a. a = i \<or> a \<notin> set (dt_suspects s ! i)) (dt_up s)) (dt_up s)"

definition weak_accuracy :: "detector \<Rightarrow> bool" where
  "weak_accuracy s = list_ex (\<lambda>a. list_all (\<lambda>i. i = a \<or> a \<notin> set (dt_suspects s ! i)) (dt_up s)) (dt_up s)"

definition dt_properties :: "detector \<Rightarrow> json" where
  "dt_properties s =
     JObj [(''ok'', JBool True), (''class'', JStr (dt_class s)), (''stable'', JBool (dt_stable s)),
           (''strong_completeness'', JBool (dt_complete s)), (''strong_accuracy'', JBool (strong_accuracy s)),
           (''weak_accuracy'', JBool (weak_accuracy s))]"

definition dt_state :: "detector \<Rightarrow> json" where
  "dt_state s =
     JObj [(''ok'', JBool True), (''class'', JStr (dt_class s)), (''stable'', JBool (dt_stable s)),
           (''crashed'', nats_json (dt_down s)), (''suspects'', JArr (map nats_json (dt_suspects s)))]"

definition detector_step :: "detector \<Rightarrow> string \<Rightarrow> string list \<Rightarrow> json \<times> detector" where
  "detector_step s command args =
     (if command = ''init'' then dt_init args s
      else if command = ''class'' then dt_set_class args s
      else if command = ''crash'' then dt_crash args s
      else if command = ''stabilise'' then (dt_stabilise s)
      else if command = ''suspects'' then dt_show_suspects args s
      else if command = ''properties'' then (dt_properties s, s)
      else if command = ''state'' then (dt_state s, s)
      else (unknown_command command, s))"

end
