(* ===== verification/Broadcast_Order.thy ===== *)
theory Broadcast_Order
  imports Broadcast
begin

text \<open>
  What the orders of delivery promise: total order delivers one sequence everywhere, FIFO and causal order
  never deliver a message before one it needs. And what the classes of failure detectors promise.
\<close>

section \<open>Orders\<close>

text \<open>What must have been delivered before a message: the sender's earlier messages, and in causal order
  whatever the sender had delivered.\<close>

definition needed_before :: "string \<Rightarrow> ordered \<Rightarrow> ordered \<Rightarrow> bool" where
  "needed_before w x m \<longleftrightarrow>
     (if od_from x = od_from m then od_seq x < od_seq m else w = ''causal'' \<and> od_seq x \<le> od_clock m ! od_from x)"

definition og_base :: "nat \<Rightarrow> string \<Rightarrow> ordering \<Rightarrow> bool" where
  "og_base n w s \<longleftrightarrow>
     og_n s = n \<and> og_order s = w \<and> length (og_log s) = n \<and> length (og_sent s) = n \<and>
     length (og_delivered_from s) = n \<and> (\<forall>p < n. length (og_delivered_from s ! p) = n) \<and>
     og_next_id s = int (length (og_queue s)) + 1 \<and> og_next_slot s = og_next_id s \<and>
     (\<forall>k < n. 0 \<le> og_sent s ! k \<and> og_sent s ! k \<le> int (length (og_queue s))) \<and>
     (\<forall>i < length (og_queue s). od_id (og_queue s ! i) = int i + 1 \<and> od_slot (og_queue s ! i) = int i + 1) \<and>
     (\<forall>m \<in> set (og_queue s). od_from m < n)"

definition same_sequence :: "nat \<Rightarrow> ordering \<Rightarrow> bool" where
  "same_sequence n s \<longleftrightarrow> (\<forall>p < n. og_log s ! p = map od_id (take (length (og_log s ! p)) (og_queue s)))"

definition sequenced :: "nat \<Rightarrow> ordered list \<Rightarrow> int list \<Rightarrow> int list list \<Rightarrow> int list list \<Rightarrow> bool" where
  "sequenced n queue sent seen logs \<longleftrightarrow>
     (\<forall>m \<in> set queue. od_seq m \<le> sent ! od_from m \<and> (\<forall>k < n. od_clock m ! k \<le> sent ! k)) \<and>
     (\<forall>x \<in> set queue. \<forall>m \<in> set queue. od_from x = od_from m \<longrightarrow> od_seq x = od_seq m \<longrightarrow> x = m) \<and>
     (\<forall>p < n. \<forall>k < n. seen ! p ! k \<le> sent ! k) \<and>
     (\<forall>p < n. set (logs ! p) \<subseteq> od_id ` set queue) \<and>
     (\<forall>p < n. \<forall>m \<in> set queue. od_id m \<in> set (logs ! p) \<longleftrightarrow> od_seq m \<le> seen ! p ! od_from m)"

definition in_order :: "string \<Rightarrow> ordered list \<Rightarrow> int list \<Rightarrow> bool" where
  "in_order w queue log \<longleftrightarrow>
     (\<forall>i < length log. \<forall>m \<in> set queue. od_id m = log ! i \<longrightarrow>
        (\<forall>x \<in> set queue. needed_before w x m \<longrightarrow> od_id x \<in> set (take i log)))"

definition og_ok :: "nat \<Rightarrow> string \<Rightarrow> ordering \<Rightarrow> bool" where
  "og_ok n w s \<longleftrightarrow> og_base n w s \<and>
     (w = ''total'' \<longrightarrow> same_sequence n s) \<and>
     (w \<in> {''fifo'', ''causal''} \<longrightarrow> sequenced n (og_queue s) (og_sent s) (og_delivered_from s) (og_log s) \<and> (\<forall>p < n. in_order w (og_queue s) (og_log s ! p)))"

definition og_allowed :: "ordering \<Rightarrow> string \<Rightarrow> string list \<Rightarrow> bool" where
  "og_allowed s command args \<longleftrightarrow> command \<notin> {''init'', ''order''} \<and> og_next_id s < i64_max"

lemma find_queue:
  assumes "og_base n w s" "find_first (\<lambda>m. od_id m = k) (og_queue s) = Some m"
  shows "m \<in> set (og_queue s)" "od_id m = k" "\<exists>i < length (og_queue s). m = og_queue s ! i \<and> k = int i + 1 \<and> od_slot m = k"
proof -
  show m: "m \<in> set (og_queue s)" "od_id m = k" using find_first_Some [OF assms(2)] by simp_all
  then show "\<exists>i < length (og_queue s). m = og_queue s ! i \<and> k = int i + 1 \<and> od_slot m = k"
    using assms(1) by (auto simp: og_base_def in_set_conv_nth)
qed

lemma queue_ids:
  assumes "og_base n w s" "x \<in> set (og_queue s)" "m \<in> set (og_queue s)" "od_id x = od_id m"
  shows "x = m"
  using assms by (auto simp: og_base_def in_set_conv_nth)

subsection \<open>Sending\<close>

definition sent_msg :: "nat \<Rightarrow> ordering \<Rightarrow> ordered" where
  "sent_msg from s =
     \<lparr>od_id = og_next_id s, od_from = from, od_seq = og_sent s ! from + 1, od_clock = og_delivered_from s ! from,
      od_slot = og_next_slot s\<rparr>"

lemma send_state:
  assumes "og_base n w s" "from < n" "og_next_id s < i64_max"
  shows "snd (og_send_from from s) =
    s\<lparr>og_sent := (og_sent s)[from := og_sent s ! from + 1], og_next_id := og_next_id s + 1,
      og_next_slot := og_next_slot s + 1, og_queue := og_queue s @ [sent_msg from s]\<rparr>"
proof -
  have b: "length (og_sent s) = n" "og_next_slot s = og_next_id s" "og_next_id s = int (length (og_queue s)) + 1"
    "0 \<le> og_sent s ! from" "og_sent s ! from \<le> int (length (og_queue s))" using assms by (auto simp: og_base_def)
  have "wrap_i64 (og_sent s ! from + 1) = og_sent s ! from + 1" "wrap_i64 (og_next_id s + 1) = og_next_id s + 1"
    using b assms(3) by (auto intro!: wrap_i64_in simp: in_i64_def i64_min_def)
  then show ?thesis using b(1,2) assms(2) by (simp add: og_send_from_def Let_def sent_msg_def)
qed

lemma og_send_base:
  assumes "og_base n w s" "from < n" "og_next_id s < i64_max"
  shows "og_base n w (snd (og_send_from from s))"
proof -
  have seq: "0 \<le> (og_sent s)[from := og_sent s ! from + 1] ! k \<and>
      (og_sent s)[from := og_sent s ! from + 1] ! k \<le> 1 + int (length (og_queue s))" if "k < n" for k
    using assms that by (cases "k = from") (auto simp: og_base_def)
  have ids: "od_id ((og_queue s @ [sent_msg from s]) ! i) = int i + 1 \<and> od_slot ((og_queue s @ [sent_msg from s]) ! i) = int i + 1"
    if "i < Suc (length (og_queue s))" for i
    using assms that by (auto simp: og_base_def nth_append sent_msg_def less_Suc_eq)
  show ?thesis unfolding send_state [OF assms] using assms seq ids by (auto simp: og_base_def sent_msg_def)
qed

lemma send_sequence:
  "og_base n w s \<Longrightarrow> from < n \<Longrightarrow> og_next_id s < i64_max \<Longrightarrow> same_sequence n s \<Longrightarrow> same_sequence n (snd (og_send_from from s))"
proof -
  assume a: "og_base n w s" "from < n" "og_next_id s < i64_max" "same_sequence n s"
  have "length (og_log s ! p) \<le> length (og_queue s)" if "p < n" for p
    using arg_cong [of _ _ length, OF a(4) [unfolded same_sequence_def, rule_format, OF that]] by simp
  then show ?thesis using a(4) unfolding send_state [OF a(1-3)] same_sequence_def by simp
qed

lemma send_sequenced:
  assumes "sequenced n queue sent seen logs" "length sent = n" "from < n" "\<forall>m \<in> set queue. od_from m < n"
    and "od_from m = from" "od_seq m = sent ! from + 1" "od_clock m = seen ! from" "od_id m \<notin> od_id ` set queue"
  shows "sequenced n (queue @ [m]) (sent[from := sent ! from + 1]) seen logs"
proof -
  let ?sent = "sent[from := sent ! from + 1]"
  have up: "sent ! k \<le> ?sent ! k" if "k < n" for k using that assms(2) by (cases "k = from") auto
  have q: "\<And>x. x \<in> set queue \<Longrightarrow> od_seq x \<le> sent ! od_from x" "\<And>x k. x \<in> set queue \<Longrightarrow> k < n \<Longrightarrow> od_clock x ! k \<le> sent ! k"
    "\<And>p k. p < n \<Longrightarrow> k < n \<Longrightarrow> seen ! p ! k \<le> sent ! k" "\<And>p. p < n \<Longrightarrow> set (logs ! p) \<subseteq> od_id ` set queue"
    "\<And>p x. p < n \<Longrightarrow> x \<in> set queue \<Longrightarrow> od_id x \<in> set (logs ! p) \<longleftrightarrow> od_seq x \<le> seen ! p ! od_from x"
    "\<And>x y. x \<in> set queue \<Longrightarrow> y \<in> set queue \<Longrightarrow> od_from x = od_from y \<Longrightarrow> od_seq x = od_seq y \<Longrightarrow> x = y"
    using assms(1) by (auto simp: sequenced_def)
  have "od_seq x \<le> ?sent ! od_from x \<and> (\<forall>k < n. od_clock x ! k \<le> ?sent ! k)" if "x \<in> set (queue @ [m])" for x
  proof (cases "x = m")
    case True
    then show ?thesis using assms(2,3,5-7) q(3) [OF assms(3)] up by (auto intro: order_trans)
  next
    case False
    then show ?thesis using that q(1,2) [of x] up assms(4) by (auto intro: order_trans)
  qed
  moreover have "x = y" if "x \<in> set (queue @ [m])" "y \<in> set (queue @ [m])" "od_from x = od_from y" "od_seq x = od_seq y" for x y
    using that q(1) [of x] q(1) [of y] q(6) [of x y] assms(5,6) by auto
  moreover have "seen ! p ! k \<le> ?sent ! k" if "p < n" "k < n" for p k using q(3) up that by (meson order_trans)
  moreover have "set (logs ! p) \<subseteq> od_id ` set (queue @ [m])" if "p < n" for p using q(4) that by auto
  moreover have "od_id x \<in> set (logs ! p) \<longleftrightarrow> od_seq x \<le> seen ! p ! od_from x" if "p < n" "x \<in> set (queue @ [m])" for p x
  proof (cases "x = m")
    case True
    then have "od_id x \<notin> set (logs ! p)" using q(4) [OF that(1)] assms(8) by auto
    moreover have "seen ! p ! from \<le> sent ! from" using q(3) that(1) assms(3) by blast
    ultimately show ?thesis using True assms(5,6) by simp
  next
    case False
    then show ?thesis using that q(5) by simp
  qed
  ultimately show ?thesis unfolding sequenced_def by blast
qed

lemma send_in_order:
  assumes "sequenced n queue sent seen logs" "in_order w queue (logs ! p)" "p < n" "from < n"
    and "od_from m = from" "od_seq m = sent ! from + 1" "od_id m \<notin> od_id ` set queue"
  shows "in_order w (queue @ [m]) (logs ! p)"
proof -
  have q: "\<And>x. x \<in> set queue \<Longrightarrow> od_seq x \<le> sent ! od_from x" "\<And>x k. x \<in> set queue \<Longrightarrow> k < n \<Longrightarrow> od_clock x ! k \<le> sent ! k"
    "set (logs ! p) \<subseteq> od_id ` set queue"
    using assms(1,3) by (auto simp: sequenced_def)
  have "\<not> needed_before w m x" if "x \<in> set queue" for x
    using q(1) [OF that] q(2) [OF that assms(4)] assms(5,6) by (auto simp: needed_before_def)
  moreover have "od_id m \<noteq> logs ! p ! i" if "i < length (logs ! p)" for i
    using q(3) assms(7) nth_mem [OF that] by auto
  ultimately show ?thesis using assms(2) by (auto simp: in_order_def)
qed

subsection \<open>Delivering\<close>

lemma take_sequenced:
  assumes "sequenced n queue sent seen logs" "length logs = n" "length seen = n" "\<forall>p < n. length (seen ! p) = n"
    and "to < n" "m \<in> set queue" "od_from m < n" "seen ! to ! od_from m + 1 = od_seq m"
    and ids: "\<forall>x \<in> set queue. od_id x = od_id m \<longrightarrow> x = m"
  shows "sequenced n queue sent (seen[to := (seen ! to)[od_from m := od_seq m]]) (logs[to := logs ! to @ [od_id m]])"
proof -
  have q: "\<And>x. x \<in> set queue \<Longrightarrow> od_seq x \<le> sent ! od_from x"
    "\<And>p k. p < n \<Longrightarrow> k < n \<Longrightarrow> seen ! p ! k \<le> sent ! k" "\<And>p. p < n \<Longrightarrow> set (logs ! p) \<subseteq> od_id ` set queue"
    "\<And>p x. p < n \<Longrightarrow> x \<in> set queue \<Longrightarrow> od_id x \<in> set (logs ! p) \<longleftrightarrow> od_seq x \<le> seen ! p ! od_from x"
    "\<And>x y. x \<in> set queue \<Longrightarrow> y \<in> set queue \<Longrightarrow> od_from x = od_from y \<Longrightarrow> od_seq x = od_seq y \<Longrightarrow> x = y"
    using assms(1) by (auto simp: sequenced_def)
  let ?seen = "seen[to := (seen ! to)[od_from m := od_seq m]]" and ?logs = "logs[to := logs ! to @ [od_id m]]"
  have "?seen ! p ! k \<le> sent ! k" if "p < n" "k < n" for p k
    using q(1) [OF assms(6)] q(2) [OF that] assms(3-5,7) that by (cases "p = to"; cases "k = od_from m") auto
  moreover have "set (?logs ! p) \<subseteq> od_id ` set queue" if "p < n" for p
    using q(3) [OF that] assms(2,6) that by (cases "p = to") auto
  moreover have "od_id x \<in> set (?logs ! p) \<longleftrightarrow> od_seq x \<le> ?seen ! p ! od_from x" if "p < n" "x \<in> set queue" for p x
  proof (cases "p = to")
    case False
    then show ?thesis using q(4) that by simp
  next
    case True
    have same: "od_id x = od_id m \<longleftrightarrow> x = m" using ids that(2) by auto
    show ?thesis
    proof (cases "od_from x = od_from m")
      case f: True
      have "x = m \<longleftrightarrow> od_seq x = od_seq m" using q(5) [OF that(2) assms(6) f] by auto
      then show ?thesis using True f q(4) [OF assms(5) that(2)] assms(2-5,7,8) same by auto
    next
      case f: False
      then have "x \<noteq> m" by auto
      then show ?thesis using True f q(4) [OF assms(5) that(2)] assms(2-5) same by auto
    qed
  qed
  ultimately show ?thesis using assms(1) unfolding sequenced_def by blast
qed

lemma take_in_order:
  assumes "sequenced n queue sent seen logs" "in_order w queue (logs ! to)" "to < n" "m \<in> set queue"
    and ids: "\<forall>x \<in> set queue. od_id x = od_id m \<longrightarrow> x = m" and "\<forall>x \<in> set queue. od_from x < n"
    and seq: "seen ! to ! od_from m + 1 = od_seq m"
    and clock: "w = ''causal'' \<longrightarrow> (\<forall>k < n. k = od_from m \<or> seen ! to ! k \<ge> od_clock m ! k)"
  shows "in_order w queue (logs ! to @ [od_id m])"
proof -
  have d: "\<And>x. x \<in> set queue \<Longrightarrow> od_id x \<in> set (logs ! to) \<longleftrightarrow> od_seq x \<le> seen ! to ! od_from x"
    using assms(1,3) by (auto simp: sequenced_def)
  have "od_id x \<in> set (logs ! to)" if "x \<in> set queue" "needed_before w x m" for x
    using that d [OF that(1)] seq clock assms(6) by (auto simp: needed_before_def split: if_splits)
  then show ?thesis using assms(2) ids by (auto simp: in_order_def nth_append less_Suc_eq)
qed

lemma og_send_ok:
  assumes "og_ok n w s" "from < n" "og_next_id s < i64_max"
  shows "og_ok n w (snd (og_send_from from s))"
proof -
  have b: "og_base n w s" using assms(1) by (simp add: og_ok_def)
  then have l: "length (og_sent s) = n" "\<forall>m \<in> set (og_queue s). od_from m < n" "og_next_id s \<notin> od_id ` set (og_queue s)"
    by (auto simp: og_base_def in_set_conv_nth)
  have m: "od_from (sent_msg from s) = from" "od_seq (sent_msg from s) = og_sent s ! from + 1"
      "od_clock (sent_msg from s) = og_delivered_from s ! from" "od_id (sent_msg from s) \<notin> od_id ` set (og_queue s)"
    using l(3) by (simp_all add: sent_msg_def)
  have "sequenced n (og_queue s @ [sent_msg from s]) ((og_sent s)[from := og_sent s ! from + 1]) (og_delivered_from s) (og_log s) \<and>
      (\<forall>p < n. in_order w (og_queue s @ [sent_msg from s]) (og_log s ! p))" if "w \<in> {''fifo'', ''causal''}"
  proof -
    have s: "sequenced n (og_queue s) (og_sent s) (og_delivered_from s) (og_log s)"
        "\<And>p. p < n \<Longrightarrow> in_order w (og_queue s) (og_log s ! p)"
      using assms(1) that unfolding og_ok_def by blast+
    show ?thesis using send_sequenced [OF s(1) l(1) assms(2) l(2) m]
        send_in_order [OF s(1) s(2) _ assms(2) m(1,2,4)] by blast
  qed
  moreover have "w = ''total'' \<longrightarrow> same_sequence n (snd (og_send_from from s))"
    using send_sequence [OF b assms(2,3)] assms(1) by (simp add: og_ok_def)
  ultimately show ?thesis using og_send_base [OF b assms(2,3)]
    unfolding og_ok_def by (simp add: send_state [OF b assms(2,3)])
qed

lemma og_take_base: "og_base n w s \<Longrightarrow> to < n \<Longrightarrow> og_base n w (og_take m to s)"
  by (auto simp: og_base_def og_take_def nth_list_update)

lemma og_take_ok:
  assumes "og_ok n w s" "to < n" "find_first (\<lambda>m. od_id m = k) (og_queue s) = Some m" "og_deliverable s m to"
  shows "og_ok n w (og_take m to s)"
proof -
  have b: "og_base n w s" using assms(1) by (simp add: og_ok_def)
  note f = find_queue [OF b assms(3)]
  have l: "length (og_log s) = n" "length (og_delivered_from s) = n" "\<forall>p < n. length (og_delivered_from s ! p) = n"
      "\<forall>m \<in> set (og_queue s). od_from m < n" "og_order s = w" "og_n s = n"
    using b by (simp_all add: og_base_def)
  have ids: "\<forall>x \<in> set (og_queue s). od_id x = od_id m \<longrightarrow> x = m" using queue_ids [OF b _ f(1)] by blast
  have "same_sequence n (og_take m to s)" if t: "w = ''total''"
  proof -
    have same: "\<And>p. p < n \<Longrightarrow> og_log s ! p = map od_id (take (length (og_log s ! p)) (og_queue s))"
      using assms(1) t by (simp add: og_ok_def same_sequence_def)
    obtain i where i: "i < length (og_queue s)" "m = og_queue s ! i" "od_slot m = int i + 1" using f(3) by auto
    then have len: "length (og_log s ! to) = i" using assms(4) t l(5) by (simp add: og_deliverable_def Let_def)
    have "og_log s ! to @ [od_id m] = map od_id (take (Suc i) (og_queue s))"
      using same [OF assms(2)] len i by (simp add: take_Suc_conv_app_nth)
    then have "og_log (og_take m to s) ! to = map od_id (take (Suc i) (og_queue s))"
      using l(1) assms(2) by (simp add: og_take_def)
    moreover have "og_log (og_take m to s) ! p = og_log s ! p" if "p \<noteq> to" for p using that by (simp add: og_take_def)
    moreover have "og_queue (og_take m to s) = og_queue s" by (simp add: og_take_def)
    ultimately show ?thesis using same i(1) unfolding same_sequence_def by (metis Suc_leI length_map length_take min_absorb2)
  qed
  moreover have "sequenced n (og_queue s) (og_sent s) (og_delivered_from (og_take m to s)) (og_log (og_take m to s)) \<and>
      (\<forall>p < n. in_order w (og_queue s) (og_log (og_take m to s) ! p))" if t: "w \<in> {''fifo'', ''causal''}"
  proof -
    have s: "sequenced n (og_queue s) (og_sent s) (og_delivered_from s) (og_log s)"
        "\<And>p. p < n \<Longrightarrow> in_order w (og_queue s) (og_log s ! p)"
      using assms(1) t unfolding og_ok_def by blast+
    have seq: "og_delivered_from s ! to ! od_from m + 1 = od_seq m"
        "w = ''causal'' \<longrightarrow> (\<forall>k < n. k = od_from m \<or> og_delivered_from s ! to ! k \<ge> od_clock m ! k)"
      using assms(4) t l(5,6) by (auto simp: og_deliverable_def Let_def list_all_iff split: if_splits)
    have sender: "od_from m < n" using l(4) f(1) by blast
    show ?thesis
    proof (intro conjI allI impI)
      show "sequenced n (og_queue s) (og_sent s) (og_delivered_from (og_take m to s)) (og_log (og_take m to s))"
        using take_sequenced [OF s(1) l(1,2,3) assms(2) f(1) sender seq(1) ids] by (simp add: og_take_def)
      show "in_order w (og_queue s) (og_log (og_take m to s) ! p)" if "p < n" for p
        using take_in_order [OF s(1) s(2) [OF assms(2)] assms(2) f(1) ids l(4) seq] s(2) [OF that] l(1) that
        by (cases "p = to") (simp_all add: og_take_def)
    qed
  qed
  moreover have "og_queue (og_take m to s) = og_queue s" "og_sent (og_take m to s) = og_sent s" by (simp_all add: og_take_def)
  ultimately show ?thesis using og_take_base [OF b assms(2)] unfolding og_ok_def by simp
qed

lemma og_step_ok:
  assumes "og_ok n w s" "og_allowed s command args"
  shows "og_ok n w (snd (ordering_step s command args))"
proof -
  have n: "og_n s = n" using assms(1) by (simp add: og_ok_def og_base_def)
  have "og_ok n w (snd (og_send args s))"
    using assms og_send_ok [OF assms(1)] n by (cases "uint_arg args 0") (auto simp: og_send_def og_allowed_def)
  moreover have "og_ok n w (snd (og_offer args s))"
    using assms(1) og_take_ok [OF assms(1)] n
    by (cases "int_arg args 0"; cases "uint_arg args 1") (auto simp: og_offer_def split: option.split)
  moreover have "snd (og_show_log args s) = s" by (cases "uint_arg args 0") (simp_all add: og_show_log_def)
  ultimately show ?thesis using assms by (simp add: ordering_step_def og_allowed_def)
qed

interpretation ord: topic_invariant ordering_step og_allowed "og_ok n w"
  by unfold_locales (rule og_step_ok)

lemma og_init_ok: "uint_arg args 0 = Inr n \<Longrightarrow> 0 < n \<Longrightarrow> og_order z = w \<Longrightarrow> og_ok n w (snd (ordering_step z ''init'' args))"
  by (simp add: ordering_step_def og_init_def og_ok_def og_base_def same_sequence_def sequenced_def in_order_def)

text \<open>C36: orders of delivery. In every session under one order: in total order every process has delivered a
  prefix of one sequence; in FIFO and causal order no process has delivered a message without, before
  it, the earlier messages of its sender, and in causal order what its sender had delivered; and the
  next message a process sends counts as such causes all it has delivered from others.\<close>
theorem deliveries_in_order:
  assumes "uint_arg args 0 = Inr n" "0 < n" "og_order z = w"
    and "session_ok og_allowed ordering_step cs (snd (ordering_step z ''init'' args))"
    and "s = snd (topic_run ordering_step cs (snd (ordering_step z ''init'' args)))" "p < n"
  shows "(w = ''total'' \<longrightarrow> og_log s ! p = map od_id (take (length (og_log s ! p)) (og_queue s))) \<and>
    (w \<in> {''fifo'', ''causal''} \<longrightarrow> in_order w (og_queue s) (og_log s ! p)) \<and>
    (w = ''causal'' \<longrightarrow> (\<forall>x \<in> set (og_queue s). od_id x \<in> set (og_log s ! p) \<longrightarrow> od_from x \<noteq> p \<longrightarrow>
       needed_before w x (sent_msg p s)))"
proof -
  have ok: "og_ok n w s" unfolding assms(5) using og_init_ok [OF assms(1-3)] assms(4) by (rule ord.session_keeps)
  have "needed_before w x (sent_msg p s)"
    if "w = ''causal''" "x \<in> set (og_queue s)" "od_id x \<in> set (og_log s ! p)" "od_from x \<noteq> p" for x
    using ok that assms(6) by (simp add: og_ok_def sequenced_def needed_before_def sent_msg_def)
  then show ?thesis using ok assms(6) by (simp add: og_ok_def same_sequence_def)
qed

definition causal_session :: "(string \<times> string list) list" where
  "causal_session =
     [(''send'', [''0'']), (''offer'', [''1'', ''1'']), (''send'', [''1'']), (''offer'', [''2'', ''2'']), (''offer'', [''1'', ''2''])]"

text \<open>Process 1 delivers a message of process 0 and sends its own; process 2 is offered that one first.\<close>

lemma small_numbers: "parse_i64 ''0'' = Some 0" "parse_i64 ''1'' = Some 1" "parse_i64 ''2'' = Some 2" "parse_i64 ''3'' = Some 3"
  by (simp_all add: parse_i64_def parse_uint_def digit_of_def i64_max_def of_char_def)

definition three_at :: "int list list \<Rightarrow> int list list \<Rightarrow> int list \<Rightarrow> ordered list \<Rightarrow> ordering" where
  "three_at seen logs sent queue =
     \<lparr>og_n = 3, og_order = ''causal'', og_delivered_from = seen, og_log = logs, og_sent = sent, og_queue = queue,
      og_next_id = int (length queue) + 1, og_next_slot = int (length queue) + 1\<rparr>"

definition first_msg :: ordered where
  "first_msg = \<lparr>od_id = 1, od_from = 0, od_seq = 1, od_clock = [0, 0, 0], od_slot = 1\<rparr>"

definition second_msg :: ordered where
  "second_msg = \<lparr>od_id = 2, od_from = 1, od_seq = 1, od_clock = [1, 0, 0], od_slot = 2\<rparr>"

lemma three_fields [simp]:
  "og_n (three_at seen logs sent queue) = 3" "og_order (three_at seen logs sent queue) = ''causal''"
  "og_delivered_from (three_at seen logs sent queue) = seen" "og_log (three_at seen logs sent queue) = logs"
  "og_sent (three_at seen logs sent queue) = sent" "og_queue (three_at seen logs sent queue) = queue"
  "og_next_id (three_at seen logs sent queue) = int (length queue) + 1"
  by (simp_all add: three_at_def)

lemma upto_three: "[0..<3] = [0, 1, 2 :: nat]"
  by (simp add: upt_rec)

lemma three_steps:
  "snd (ordering_step (og_default\<lparr>og_order := ''causal''\<rparr>) ''init'' [''3'']) = three_at [[0, 0, 0], [0, 0, 0], [0, 0, 0]] [[], [], []] [0, 0, 0] []"
  "snd (ordering_step (three_at [[0, 0, 0], [0, 0, 0], [0, 0, 0]] [[], [], []] [0, 0, 0] []) ''send'' [''0'']) =
     three_at [[0, 0, 0], [0, 0, 0], [0, 0, 0]] [[], [], []] [1, 0, 0] [first_msg]"
  "snd (ordering_step (three_at [[0, 0, 0], [0, 0, 0], [0, 0, 0]] [[], [], []] [1, 0, 0] [first_msg]) ''offer'' [''1'', ''1'']) =
     three_at [[0, 0, 0], [1, 0, 0], [0, 0, 0]] [[], [1], []] [1, 0, 0] [first_msg]"
  "snd (ordering_step (three_at [[0, 0, 0], [1, 0, 0], [0, 0, 0]] [[], [1], []] [1, 0, 0] [first_msg]) ''send'' [''1'']) =
     three_at [[0, 0, 0], [1, 0, 0], [0, 0, 0]] [[], [1], []] [1, 1, 0] [first_msg, second_msg]"
  "snd (ordering_step (three_at [[0, 0, 0], [1, 0, 0], [0, 0, 0]] [[], [1], []] [1, 1, 0] [first_msg, second_msg]) ''offer'' [''2'', ''2'']) =
     three_at [[0, 0, 0], [1, 0, 0], [0, 0, 0]] [[], [1], []] [1, 1, 0] [first_msg, second_msg]"
  "snd (ordering_step (three_at [[0, 0, 0], [1, 0, 0], [0, 0, 0]] [[], [1], []] [1, 1, 0] [first_msg, second_msg]) ''offer'' [''1'', ''2'']) =
     three_at [[0, 0, 0], [1, 0, 0], [1, 0, 0]] [[], [1], [1]] [1, 1, 0] [first_msg, second_msg]"
  by (simp_all add: ordering_step_def og_init_def og_send_def og_send_from_def og_offer_def og_take_def og_deliverable_def
      Let_def three_at_def first_msg_def second_msg_def og_default_def uint_arg_def int_arg_def word_arg_def arg_def ok_or_def
      small_numbers find_first_def upto_three numeral_3_eq_3 in_i64_def i64_min_def i64_max_def)

theorem deliveries_in_order_witness:
  "let s = snd (topic_run ordering_step causal_session (snd (ordering_step (og_default\<lparr>og_order := ''causal''\<rparr>) ''init'' [''3''])))
   in og_log s ! 2 = [1] \<and> in_order ''causal'' (og_queue s) (og_log s ! 2)"
proof -
  let ?z = "og_default\<lparr>og_order := ''causal''\<rparr>"
  have a: "uint_arg [''3''] 0 = Inr 3" by (simp add: uint_arg_def int_arg_def arg_def ok_or_def small_numbers)
  let ?s = "snd (topic_run ordering_step causal_session (snd (ordering_step ?z ''init'' [''3''])))"
  have run: "?s = three_at [[0, 0, 0], [1, 0, 0], [1, 0, 0]] [[], [1], [1]] [1, 1, 0] [first_msg, second_msg]"
    unfolding causal_session_def three_steps(1) topic_run_Cons three_steps by simp
  have "session_ok og_allowed ordering_step causal_session (snd (ordering_step ?z ''init'' [''3'']))"
    unfolding causal_session_def three_steps(1) session_ok.simps three_steps by (simp add: og_allowed_def i64_max_def)
  then have "in_order ''causal'' (og_queue ?s) (og_log ?s ! 2)"
    using deliveries_in_order [OF a, of ?z "''causal''" causal_session ?s 2] by simp
  then show ?thesis by (simp add: Let_def run)
qed

section \<open>Failure detectors\<close>

definition dt_ok :: "nat \<Rightarrow> detector \<Rightarrow> bool" where
  "dt_ok n s \<longleftrightarrow>
     dt_n s = n \<and> length (dt_crashed s) = n \<and> length (dt_suspects s) = n \<and>
     (\<forall>i < n. dt_suspects s ! i = suspects_of s i) \<and>
     dt_class s \<in> {''P'', ''eventually-perfect'', ''eventually-strong''} \<and> (dt_class s = ''P'' \<longrightarrow> dt_stable s)"

definition dt_no_restart :: "detector \<Rightarrow> string \<Rightarrow> string list \<Rightarrow> bool" where
  "dt_no_restart s command args \<longleftrightarrow> command \<noteq> ''init''"

lemma refresh_all: "length (dt_suspects s) = dt_n s \<Longrightarrow> dt_suspects (dt_refresh s) = map (suspects_of s) [0..<dt_n s]"
proof -
  assume l: "length (dt_suspects s) = dt_n s"
  have "foldl (\<lambda>out i. out[i := suspects_of s i]) out [0..<k] = map (suspects_of s) [0..<k] @ drop k out"
    if "k \<le> length out" for k and out :: "nat list list"
    using that by (induction k) (simp_all add: list_update_append Cons_nth_drop_Suc [symmetric] upt_conv_Cons_Cons)
  from this [of "dt_n s" "dt_suspects s"] show ?thesis using l by (simp add: dt_refresh_def)
qed

lemma refresh_fields [simp]:
  "dt_n (dt_refresh s) = dt_n s" "dt_crashed (dt_refresh s) = dt_crashed s" "dt_class (dt_refresh s) = dt_class s"
  "dt_stable (dt_refresh s) = dt_stable s" "dt_down (dt_refresh s) = dt_down s" "dt_up (dt_refresh s) = dt_up s"
  by (simp_all add: dt_refresh_def dt_down_def dt_up_def)

lemma suspects_of_refresh [simp]: "suspects_of (dt_refresh s) i = suspects_of s i"
  unfolding suspects_of_def refresh_fields ..

lemma refresh_ok:
  "dt_n s = n \<Longrightarrow> length (dt_crashed s) = n \<Longrightarrow> length (dt_suspects s) = n \<Longrightarrow>
   dt_class s \<in> {''P'', ''eventually-perfect'', ''eventually-strong''} \<Longrightarrow> (dt_class s = ''P'' \<Longrightarrow> dt_stable s) \<Longrightarrow> dt_ok n (dt_refresh s)"
  using refresh_all [of s] by (simp add: dt_ok_def)

lemma dt_step_ok:
  assumes "dt_ok n s" "dt_no_restart s command args"
  shows "dt_ok n (snd (detector_step s command args))"
proof -
  have l: "dt_n s = n" "length (dt_crashed s) = n" "length (dt_suspects s) = n"
      "dt_class s \<in> {''P'', ''eventually-perfect'', ''eventually-strong''}" "dt_class s = ''P'' \<Longrightarrow> dt_stable s"
    using assms(1) by (simp_all add: dt_ok_def)
  have class_ok: "dt_ok n (dt_refresh (s\<lparr>dt_class := w, dt_stable := (w = ''P'')\<rparr>))"
    if "w \<in> {''P'', ''eventually-perfect'', ''eventually-strong''}" for w
    by (rule refresh_ok) (use l that in simp_all)
  have crash_ok: "dt_ok n (dt_refresh (s\<lparr>dt_crashed := (dt_crashed s)[i := True]\<rparr>))" for i
    by (rule refresh_ok) (use l in simp_all)
  have "dt_ok n (snd (dt_set_class args s))"
    using assms(1) class_ok unfolding dt_set_class_def by (cases "word_arg args 0") (simp_all add: Let_def)
  moreover have "dt_ok n (snd (dt_crash args s))"
    using assms(1) crash_ok unfolding dt_crash_def by (cases "uint_arg args 0") simp_all
  moreover have "dt_ok n (snd (dt_stabilise s))"
    unfolding dt_stabilise_def snd_conv by (rule refresh_ok) (use l in simp_all)
  moreover have "snd (dt_show_suspects args s) = s" by (cases "uint_arg args 0") (simp_all add: dt_show_suspects_def)
  ultimately show ?thesis using assms by (simp add: detector_step_def dt_no_restart_def)
qed

interpretation dt: topic_invariant detector_step dt_no_restart "dt_ok n"
  by unfold_locales (rule dt_step_ok)

lemma set_insert_all: "set (insert_all xs m) = set xs \<union> set m"
  unfolding insert_all_def by (induction xs arbitrary: m) auto

lemma set_insert_first [simp]: "set (insert_first x m) = set_option x \<union> set m"
  by (cases x) (simp_all add: insert_first_def)

text \<open>The classes of failure detectors. In every session every crashed process is suspected by every one
  that is up; the perfect detector, and the eventually perfect one once it is stable, suspect nobody
  that is up; the eventually strong one, once stable, leaves some process that is up unsuspected.\<close>
theorem detector_classes:
  assumes "uint_arg args 0 = Inr n" "0 < n"
    and "session_ok dt_no_restart detector_step cs (snd (detector_step z ''init'' args))"
    and "s = snd (topic_run detector_step cs (snd (detector_step z ''init'' args)))"
  shows "dt_complete s \<and> (dt_class s = ''P'' \<longrightarrow> strong_accuracy s) \<and>
    (dt_class s = ''eventually-perfect'' \<and> dt_stable s \<longrightarrow> strong_accuracy s) \<and>
    (dt_stable s \<and> dt_up s \<noteq> [] \<longrightarrow> weak_accuracy s)"
proof -
  have "dt_ok n (snd (detector_step z ''init'' args))"
    using assms(1,2) unfolding detector_step_def dt_init_def by (auto simp: Let_def intro!: refresh_ok)
  then have ok: "dt_ok n s" unfolding assms(4) using assms(3) by (rule dt.session_keeps)
  have sus: "dt_suspects s ! i = suspects_of s i" if "i \<in> set (dt_up s)" for i
    using ok that by (simp add: dt_ok_def dt_up_def)
  have apart: "c \<notin> set (dt_up s)" if "c \<in> set (dt_down s)" for c using that by (simp add: dt_down_def dt_up_def)
  have down: "c \<in> set (suspects_of s i)" if "c \<in> set (dt_down s)" "i \<in> set (dt_up s)" for c i
    using that apart by (auto simp: suspects_of_def Let_def set_insert_all)
  have perfect: "set (suspects_of s i) \<subseteq> set (dt_down s)"
    if "dt_class s = ''P'' \<or> dt_class s = ''eventually-perfect'' \<and> dt_stable s" for i
    using that by (auto simp: suspects_of_def Let_def)
  have trusted: "\<exists>t. t \<in> set (dt_up s) \<and> (\<forall>i. t \<notin> set (suspects_of s i))"
    if "dt_class s = ''eventually-strong''" "dt_stable s" "dt_up s \<noteq> []"
  proof -
    have "\<exists>t ts. dt_up s = t # ts" using that(3) by (cases "dt_up s") auto
    then obtain t ts where t: "dt_up s = t # ts" by blast
    then show ?thesis using that apart by (auto simp: suspects_of_def Let_def set_insert_all find_first_def)
  qed
  have complete: "dt_complete s" using sus down by (simp add: dt_complete_def list_all_iff)
  have strong: "strong_accuracy s" if "dt_class s = ''P'' \<or> dt_class s = ''eventually-perfect'' \<and> dt_stable s"
    using perfect [OF that] sus apart by (fastforce simp: strong_accuracy_def list_all_iff)
  have "weak_accuracy s" if "dt_stable s" "dt_up s \<noteq> []"
  proof (cases "dt_class s = ''eventually-strong''")
    case True
    then show ?thesis using trusted that sus by (auto simp: weak_accuracy_def list_all_iff list_ex_iff)
  next
    case False
    then have "strong_accuracy s" using ok that by (intro strong) (auto simp: dt_ok_def)
    then show ?thesis using that(2) by (cases "dt_up s") (auto simp: strong_accuracy_def weak_accuracy_def list_all_iff list_ex_iff)
  qed
  then show ?thesis using complete strong by blast
qed

text \<open>
  Reliable and uniform broadcast: once the network has settled, what a process has delivered that counts
  is delivered by every correct one.
\<close>

section \<open>One message\<close>

text \<open>The relay loop, as sets.\<close>

lemma relay_loop:
  "set (ms_held (foldl (\<lambda>m other. if other \<notin> set (ms_delivered m) then m\<lparr>ms_held := bset_insert other (ms_held m)\<rparr> else m) m others)) =
     set (ms_held m) \<union> (set others - set (ms_delivered m)) \<and>
   ms_delivered (foldl (\<lambda>m other. if other \<notin> set (ms_delivered m) then m\<lparr>ms_held := bset_insert other (ms_held m)\<rparr> else m) m others) =
     ms_delivered m \<and>
   ms_id (foldl (\<lambda>m other. if other \<notin> set (ms_delivered m) then m\<lparr>ms_held := bset_insert other (ms_held m)\<rparr> else m) m others) = ms_id m \<and>
   ms_from (foldl (\<lambda>m other. if other \<notin> set (ms_delivered m) then m\<lparr>ms_held := bset_insert other (ms_held m)\<rparr> else m) m others) = ms_from m"
  by (induction others arbitrary: m) auto

lemma deliver_msg_same [simp]: "ms_id (deliver_msg s to m) = ms_id m" "ms_from (deliver_msg s to m) = ms_from m"
  by (simp_all add: deliver_msg_def Let_def relay_loop)

lemma deliver_msg_again: "to \<in> set (ms_delivered m) \<or> \<not> bc_alive s ! to \<Longrightarrow> deliver_msg s to m = m"
  by (simp add: deliver_msg_def)

lemma deliver_msg_sets:
  assumes "to \<notin> set (ms_delivered m)" "bc_alive s ! to" "bc_mode s \<noteq> Best_Effort"
  shows "set (ms_delivered (deliver_msg s to m)) = insert to (set (ms_delivered m))"
    "set (ms_held (deliver_msg s to m)) =
       (set (ms_held m) - {to}) \<union> ({..<bc_n s} - {to} - set (ms_delivered m))"
  using assms by (auto simp: deliver_msg_def Let_def relay_loop)

text \<open>Which deliveries the mode promises the others.\<close>

definition counts :: "mode \<Rightarrow> bool list \<Rightarrow> msg \<Rightarrow> bool" where
  "counts md alive m \<longleftrightarrow>
     (case md of Best_Effort \<Rightarrow> False | Reliable \<Rightarrow> \<exists>d \<in> set (ms_delivered m). alive ! d | Uniform \<Rightarrow> ms_delivered m \<noteq> [])"

definition reaching :: "bool list \<Rightarrow> msg \<Rightarrow> bool" where
  "reaching alive m \<longleftrightarrow> (\<forall>p < length alive. alive ! p \<longrightarrow> p \<in> set (ms_delivered m) \<or> p \<in> set (ms_held m))"

definition still :: "bool list \<Rightarrow> msg \<Rightarrow> bool" where
  "still alive m \<longleftrightarrow> (\<forall>p \<in> set (ms_held m). \<not> alive ! p)"

definition msg_ok :: "mode \<Rightarrow> bool list \<Rightarrow> msg \<Rightarrow> bool" where
  "msg_ok md alive m \<longleftrightarrow>
     set (ms_held m) \<subseteq> {..<length alive} \<and> set (ms_held m) \<inter> set (ms_delivered m) = {} \<and> ms_delivered m \<noteq> [] \<and>
     (counts md alive m \<longrightarrow> reaching alive m)"

lemma deliver_msg_ok:
  assumes "msg_ok (bc_mode s) (bc_alive s) m" "length (bc_alive s) = bc_n s" "to < bc_n s" "bc_mode s \<noteq> Best_Effort"
  shows "msg_ok (bc_mode s) (bc_alive s) (deliver_msg s to m)"
proof (cases "to \<in> set (ms_delivered m) \<or> \<not> bc_alive s ! to")
  case True
  then show ?thesis using assms(1) by (simp add: deliver_msg_again)
next
  case False
  then have d: "set (ms_delivered (deliver_msg s to m)) = insert to (set (ms_delivered m))"
    "set (ms_held (deliver_msg s to m)) = (set (ms_held m) - {to}) \<union> ({..<bc_n s} - {to} - set (ms_delivered m))"
    using deliver_msg_sets [of to m s] assms(4) by blast+
  then have "ms_delivered (deliver_msg s to m) \<noteq> []" by force
  then show ?thesis using assms(1,2) d unfolding msg_ok_def reaching_def by auto
qed

section \<open>A round of deliveries\<close>

definition pass :: "broadcast \<Rightarrow> nat list \<Rightarrow> msg \<Rightarrow> msg" where
  "pass s tos m = foldl (\<lambda>m to. deliver_msg s to m) m tos"

lemma pass_same [simp]: "ms_id (pass s tos m) = ms_id m" "ms_from (pass s tos m) = ms_from m"
  unfolding pass_def by (induction tos arbitrary: m) simp_all

lemma update_msg_map: "distinct (map ms_id ms) \<Longrightarrow> update_msg k f ms = map (\<lambda>m. if ms_id m = k then f m else m) ms"
proof (induction ms)
  case (Cons m ms)
  have "map (\<lambda>x. if ms_id x = k then f x else x) ms = ms" if "ms_id m = k"
    using Cons.prems that by (intro map_idI) (auto simp: image_iff)
  then show ?case using Cons by auto
qed simp

lemma deliver_pending_map:
  assumes "distinct (map ms_id (bc_msgs s))"
  shows "deliver_all_pending ps s =
    s\<lparr>bc_msgs := map (\<lambda>m. pass s (map snd (filter (\<lambda>(k, _). k = ms_id m) ps)) m) (bc_msgs s)\<rparr>"
  using assms
proof (induction ps arbitrary: s)
  case Nil
  then show ?case by (simp add: deliver_all_pending_def pass_def)
next
  case (Cons p ps)
  obtain k to where p: "p = (k, to)" by fastforce
  let ?f = "\<lambda>m. if ms_id m = k then deliver_msg s to m else m"
  have step: "bc_deliver k to s = s\<lparr>bc_msgs := map ?f (bc_msgs s)\<rparr>"
    using Cons.prems by (simp add: bc_deliver_def update_msg_map)
  have "ms_id \<circ> ?f = ms_id" by (rule ext) simp
  then have d: "distinct (map ms_id (bc_msgs (s\<lparr>bc_msgs := map ?f (bc_msgs s)\<rparr>)))" using Cons.prems by simp
  have same: "deliver_msg (s\<lparr>bc_msgs := ms\<rparr>) = deliver_msg s" for ms by (intro ext) (simp add: deliver_msg_def Let_def)
  have "deliver_all_pending (p # ps) s = deliver_all_pending ps (s\<lparr>bc_msgs := map ?f (bc_msgs s)\<rparr>)"
    by (simp add: deliver_all_pending_def p step)
  also have "\<dots> = s\<lparr>bc_msgs := map (\<lambda>m. pass s (map snd (filter (\<lambda>(k, _). k = ms_id m) ps)) m) (map ?f (bc_msgs s))\<rparr>"
    unfolding Cons.IH [OF d] by (simp add: pass_def same)
  finally show ?case by (simp add: p pass_def comp_def)
qed

lemma pass_delivers:
  assumes "length (bc_alive s) = bc_n s" "bc_mode s \<noteq> Best_Effort" "\<forall>to \<in> set tos. to < bc_n s \<and> bc_alive s ! to"
    and "msg_ok (bc_mode s) (bc_alive s) m"
  shows "msg_ok (bc_mode s) (bc_alive s) (pass s tos m) \<and> set tos \<union> set (ms_delivered m) \<subseteq> set (ms_delivered (pass s tos m)) \<and>
    (reaching (bc_alive s) m \<or> (\<exists>to \<in> set tos. to \<notin> set (ms_delivered m)) \<longrightarrow> reaching (bc_alive s) (pass s tos m))"
  using assms(3,4)
proof (induction tos arbitrary: m)
  case Nil
  then show ?case by (simp add: pass_def)
next
  case (Cons to tos)
  let ?m = "deliver_msg s to m"
  have m: "msg_ok (bc_mode s) (bc_alive s) ?m" using deliver_msg_ok Cons.prems assms(1,2) by simp
  have p: "pass s (to # tos) m = pass s tos ?m" by (simp add: pass_def)
  have ih: "msg_ok (bc_mode s) (bc_alive s) (pass s tos ?m)"
    "set tos \<union> set (ms_delivered ?m) \<subseteq> set (ms_delivered (pass s tos ?m))"
    "reaching (bc_alive s) ?m \<or> (\<exists>to \<in> set tos. to \<notin> set (ms_delivered ?m)) \<longrightarrow> reaching (bc_alive s) (pass s tos ?m)"
    using Cons.IH [OF _ m] Cons.prems(1) by auto
  show ?case
  proof (cases "to \<in> set (ms_delivered m)")
    case True
    then show ?thesis using ih unfolding p by (auto simp: deliver_msg_again)
  next
    case False
    then have d: "set (ms_delivered ?m) = insert to (set (ms_delivered m))"
      "set (ms_held ?m) = (set (ms_held m) - {to}) \<union> ({..<bc_n s} - {to} - set (ms_delivered m))"
      using deliver_msg_sets [of to m s] Cons.prems(1) assms(2) by simp_all
    then have "reaching (bc_alive s) ?m" using assms(1) by (auto simp: reaching_def)
    then show ?thesis using ih d unfolding p by auto
  qed
qed

section \<open>Sessions\<close>

definition bc_ok :: "nat \<Rightarrow> mode \<Rightarrow> broadcast \<Rightarrow> bool" where
  "bc_ok n md s \<longleftrightarrow>
     bc_n s = n \<and> length (bc_alive s) = n \<and> bc_mode s = md \<and> distinct (map ms_id (bc_msgs s)) \<and>
     (\<forall>m \<in> set (bc_msgs s). ms_id m < bc_next_id s \<and> msg_ok md (bc_alive s) m)"

definition bc_allowed :: "broadcast \<Rightarrow> string \<Rightarrow> string list \<Rightarrow> bool" where
  "bc_allowed s command args \<longleftrightarrow> command \<notin> {''init'', ''mode'', ''drop''} \<and> in_i64 (bc_next_id s + 1) \<and> in_i64 (bc_next_id s)"

lemma bc_map_ok:
  assumes "bc_ok n md s" "\<And>m. msg_ok md (bc_alive s) m \<Longrightarrow> m \<in> set (bc_msgs s) \<Longrightarrow> msg_ok md alive (f m) \<and> ms_id (f m) = ms_id m"
    and "length alive = n"
  shows "bc_ok n md (s\<lparr>bc_alive := alive, bc_msgs := map f (bc_msgs s)\<rparr>)"
proof -
  have ids: "map ms_id (map f (bc_msgs s)) = map ms_id (bc_msgs s)" using assms(1,2) by (auto simp: bc_ok_def)
  have "distinct (map ms_id (map f (bc_msgs s)))" unfolding ids using assms(1) by (simp add: bc_ok_def)
  then show ?thesis using assms by (auto simp: bc_ok_def simp del: map_map)
qed

lemma bc_round_ok:
  assumes ok: "bc_ok n md s" and md: "md \<noteq> Best_Effort"
  defines "s' \<equiv> deliver_all_pending (bc_pending s) s"
  shows "bc_ok n md s'" "bc_alive s' = bc_alive s"
    "\<forall>m' \<in> set (bc_msgs s'). reaching (bc_alive s') m' \<or> still (bc_alive s') m'"
    "\<forall>m \<in> set (bc_msgs s). reaching (bc_alive s) m \<or> still (bc_alive s) m \<Longrightarrow> \<forall>m' \<in> set (bc_msgs s'). still (bc_alive s') m'"
proof -
  let ?tos = "\<lambda>m. map snd (filter (\<lambda>(k, _). k = ms_id m) (bc_pending s))"
  have d: "distinct (map ms_id (bc_msgs s))" "length (bc_alive s) = bc_n s" "bc_mode s = md"
    and each: "\<And>m. m \<in> set (bc_msgs s) \<Longrightarrow> msg_ok md (bc_alive s) m"
    using ok by (simp_all add: bc_ok_def)
  have s': "s' = s\<lparr>bc_msgs := map (\<lambda>m. pass s (?tos m) m) (bc_msgs s)\<rparr>" unfolding s'_def by (rule deliver_pending_map [OF d(1)])
  then show alive: "bc_alive s' = bc_alive s" by simp
  have tos: "set (?tos m) = {p \<in> set (ms_held m). bc_alive s ! p}" if m: "m \<in> set (bc_msgs s)" for m
  proof -
    have "x = m" if "x \<in> set (bc_msgs s)" "ms_id x = ms_id m" for x using d(1) m that by (auto simp: distinct_map dest: inj_onD)
    then show ?thesis using m by (auto simp: bc_pending_def image_iff)
  qed
  have passed: "msg_ok md (bc_alive s) (pass s (?tos m) m)"
    "set (?tos m) \<union> set (ms_delivered m) \<subseteq> set (ms_delivered (pass s (?tos m) m))"
    "reaching (bc_alive s) m \<or> (\<exists>to \<in> set (?tos m). to \<notin> set (ms_delivered m)) \<longrightarrow> reaching (bc_alive s) (pass s (?tos m) m)"
    if m: "m \<in> set (bc_msgs s)" for m
  proof -
    have "\<forall>to \<in> set (?tos m). to < bc_n s \<and> bc_alive s ! to"
      using tos [OF m] each [OF m] d(2) by (auto simp: msg_ok_def)
    from pass_delivers [OF d(2) _ this, of m]
    show "msg_ok md (bc_alive s) (pass s (?tos m) m)"
      "set (?tos m) \<union> set (ms_delivered m) \<subseteq> set (ms_delivered (pass s (?tos m) m))"
      "reaching (bc_alive s) m \<or> (\<exists>to \<in> set (?tos m). to \<notin> set (ms_delivered m)) \<longrightarrow> reaching (bc_alive s) (pass s (?tos m) m)"
      using md d(3) each [OF m] by simp_all
  qed
  show "bc_ok n md s'"
    using bc_map_ok [OF ok, of "bc_alive s" "\<lambda>m. pass s (?tos m) m"] passed(1) ok unfolding s' by (simp add: bc_ok_def)
  have rest: "pass s (?tos m) m = m \<and> still (bc_alive s) m"
    if m: "m \<in> set (bc_msgs s)" and none: "\<not> (\<exists>to \<in> set (?tos m). to \<notin> set (ms_delivered m))" for m
  proof -
    have "{p \<in> set (ms_held m). bc_alive s ! p} = {}" using none each [OF m] unfolding tos [OF m] by (auto simp: msg_ok_def)
    then have "still (bc_alive s) m" "set (?tos m) = {}" unfolding tos [OF m] by (auto simp: still_def)
    then have "still (bc_alive s) m" "?tos m = []" by (simp_all only: set_empty)
    then show ?thesis by (simp only: pass_def) simp
  qed
  show "\<forall>m' \<in> set (bc_msgs s'). reaching (bc_alive s') m' \<or> still (bc_alive s') m'"
  proof
    fix m' assume "m' \<in> set (bc_msgs s')"
    then obtain m where m: "m \<in> set (bc_msgs s)" "m' = pass s (?tos m) m" by (auto simp: s')
    show "reaching (bc_alive s') m' \<or> still (bc_alive s') m'"
      using passed(3) [OF m(1)] rest [OF m(1)] unfolding alive m(2) by metis
  qed
  show "\<forall>m' \<in> set (bc_msgs s'). still (bc_alive s') m'"
    if spread: "\<forall>m \<in> set (bc_msgs s). reaching (bc_alive s) m \<or> still (bc_alive s) m"
  proof
    fix m' assume "m' \<in> set (bc_msgs s')"
    then obtain m where m: "m \<in> set (bc_msgs s)" "m' = pass s (?tos m) m" by (auto simp: s')
    show "still (bc_alive s') m'"
    proof (cases "\<exists>to \<in> set (?tos m). to \<notin> set (ms_delivered m)")
      case True
      then have "\<not> still (bc_alive s) m" using tos [OF m(1)] by (auto simp: still_def)
      then have "reaching (bc_alive s) m" using spread m(1) by blast
      then have "p \<in> set (ms_delivered m')" if "p < length (bc_alive s)" "bc_alive s ! p" for p
        using passed(2) [OF m(1)] tos [OF m(1)] that unfolding m(2) reaching_def by blast
      then show ?thesis using passed(1) [OF m(1)] unfolding alive m(2) still_def msg_ok_def by auto
    next
      case False
      then show ?thesis using rest [OF m(1)] unfolding alive m(2) by metis
    qed
  qed
qed

lemma still_pending: "(\<forall>m \<in> set (bc_msgs s). still (bc_alive s) m) \<longleftrightarrow> bc_pending s = []"
  by (auto simp: bc_pending_def still_def filter_empty_conv)

text \<open>Two rounds are enough, and the limit leaves at least four.\<close>

lemma bc_settle_ok:
  assumes "bc_ok n md s" "md \<noteq> Best_Effort" "0 < n"
  shows "bc_ok n md (snd (settle_loop 0 s)) \<and> bc_pending (snd (settle_loop 0 s)) = [] \<and> fst (settle_loop 0 s) \<le> 2 \<and>
    bc_alive (snd (settle_loop 0 s)) = bc_alive s"
proof -
  let ?r = "\<lambda>s. deliver_all_pending (bc_pending s) s"
  note one = bc_round_ok [OF assms(1,2)]
  note two = bc_round_ok [OF one(1) assms(2)]
  have last: "bc_pending (?r (?r s)) = []" using two(4) [OF one(3)] by (simp add: still_pending)
  have n: "bc_n s = n" "bc_n (?r s) = n" "bc_n (?r (?r s)) = n" using assms(1) one(1) two(1) by (simp_all add: bc_ok_def)
  consider "bc_pending s = []" | "bc_pending s \<noteq> []" "bc_pending (?r s) = []" | "bc_pending s \<noteq> []" "bc_pending (?r s) \<noteq> []" by blast
  then show ?thesis
  proof cases
    case 1
    then show ?thesis using assms(1) by (subst settle_loop.simps) (simp add: settle_loop.simps [of 0 s] Let_def)
  next
    case 2
    then have "settle_loop 0 s = (1, ?r s)"
      by (simp add: settle_loop.simps [of 0 s] settle_loop.simps [of 1 "?r s"] settle_loop.simps [of "Suc 0" "?r s"] Let_def)
    then show ?thesis using one(1,2) 2 by simp
  next
    case 3
    have "settle_loop 0 s = settle_loop (Suc 0) (?r s)" using 3 by (simp add: settle_loop.simps [of 0 s] Let_def)
    also have "\<dots> = settle_loop (Suc (Suc 0)) (?r (?r s))"
      using 3 n assms(3) by (simp add: settle_loop.simps [of "Suc 0" "?r s"] Let_def)
    also have "\<dots> = (2, ?r (?r s))" using last by (simp add: settle_loop.simps [of "Suc (Suc 0)" "?r (?r s)"] Let_def)
    finally show ?thesis using two(1,2) one(2) last by simp
  qed
qed

lemma find_in_order: "find_msg k s = Some m \<Longrightarrow> m \<in> set (bc_msgs s) \<and> ms_id m = k"
  unfolding find_msg_def by (rule find_first_Some)

lemma bc_deliver_ok:
  assumes "bc_ok n md s" "md \<noteq> Best_Effort" "to < n"
  shows "bc_ok n md (bc_deliver k to s)"
proof -
  have d: "distinct (map ms_id (bc_msgs s))" "bc_mode s = md" "length (bc_alive s) = n" "bc_n s = n"
    using assms(1) by (simp_all add: bc_ok_def)
  have "msg_ok md (bc_alive s) (if ms_id m = k then deliver_msg s to m else m)" if "msg_ok md (bc_alive s) m" for m
    using deliver_msg_ok [of s m to] d that assms(2,3) by simp
  then have "bc_ok n md (s\<lparr>bc_alive := bc_alive s, bc_msgs := map (\<lambda>m. if ms_id m = k then deliver_msg s to m else m) (bc_msgs s)\<rparr>)"
    using d(3) by (intro bc_map_ok [OF assms(1)]) auto
  then show ?thesis by (simp add: bc_deliver_def update_msg_map [OF d(1)])
qed

lemma update_msg_append:
  "\<forall>m \<in> set ms. ms_id m \<noteq> k \<Longrightarrow> update_msg k f (ms @ [m]) = ms @ update_msg k f [m]"
  by (induction ms) simp_all

lemma bc_send_ok:
  assumes "bc_ok n md s" "md \<noteq> Best_Effort" "sender < n" "bc_alive s ! sender" "in_i64 (bc_next_id s + 1)"
  shows "bc_ok n md (bc_send sender s)"
proof -
  let ?k = "bc_next_id s"
  let ?m = "\<lparr>ms_id = ?k, ms_from = sender, ms_held = filter (\<lambda>i. i \<noteq> sender) [0..<bc_n s], ms_delivered = []\<rparr>"
  let ?s = "s\<lparr>bc_next_id := wrap_i64 (?k + 1), bc_msgs := bc_msgs s @ [?m]\<rparr>"
  have s: "distinct (map ms_id (bc_msgs s))" "bc_mode s = md" "length (bc_alive s) = n" "bc_n s = n"
    and each: "\<forall>m \<in> set (bc_msgs s). ms_id m < ?k \<and> msg_ok md (bc_alive s) m"
    using assms(1) by (simp_all add: bc_ok_def)
  have d: "set (ms_delivered (deliver_msg ?s sender ?m)) = {sender}" "set (ms_held (deliver_msg ?s sender ?m)) = {..<n} - {sender}"
    using deliver_msg_sets [of sender ?m ?s] s assms(2,4) by auto
  then have "ms_delivered (deliver_msg ?s sender ?m) \<noteq> []" by force
  then have new: "msg_ok md (bc_alive s) (deliver_msg ?s sender ?m)"
    using d s(3) unfolding msg_ok_def reaching_def by auto
  have other: "ms_id m \<noteq> ?k" if "m \<in> set (bc_msgs s)" for m using each that by auto
  then have "update_msg ?k f (bc_msgs s @ [?m]) = bc_msgs s @ [f ?m]" for f
    by (simp add: update_msg_append)
  then have "bc_send sender s = ?s\<lparr>bc_msgs := bc_msgs s @ [deliver_msg ?s sender ?m]\<rparr>"
    by (simp add: bc_send_def Let_def bc_deliver_def)
  then show ?thesis using s each new other assms(5) by (auto simp: bc_ok_def)
qed

lemma bc_crash_ok:
  assumes "bc_ok n md s" "i < n"
  shows "bc_ok n md (s\<lparr>bc_alive := (bc_alive s)[i := False],
    bc_msgs := map (crash_msg md ((bc_alive s)[i := False]) i) (bc_msgs s)\<rparr>)"
proof (rule bc_map_ok [OF assms(1)])
  fix m assume m: "msg_ok md (bc_alive s) m"
  let ?alive = "(bc_alive s)[i := False]"
  have len: "length (bc_alive s) = n" using assms(1) by (simp add: bc_ok_def)
  have down: "?alive ! p \<Longrightarrow> bc_alive s ! p \<and> p \<noteq> i" for p using assms(2) len by (cases "p = i") auto
  have counted: "counts md (bc_alive s) m" if "counts md ?alive m" using that down by (auto simp: counts_def split: mode.splits)
  have kept: "survives md ?alive i m" if "counts md ?alive m" using that down by (auto simp: counts_def survives_def list_ex_iff split: mode.splits)
  have same: "counts md ?alive (m\<lparr>ms_held := []\<rparr>) = counts md ?alive m" by (cases md) (simp_all add: counts_def)
  have reach: "reaching (bc_alive s) m \<Longrightarrow> reaching ?alive m" using down by (auto simp: reaching_def)
  have "msg_ok md ?alive m" using m counted reach by (auto simp: msg_ok_def)
  moreover have "msg_ok md ?alive (m\<lparr>ms_held := []\<rparr>)" if "\<not> survives md ?alive i m"
    using m that kept by (auto simp: msg_ok_def same)
  ultimately show "msg_ok md ?alive (crash_msg md ?alive i m) \<and> ms_id (crash_msg md ?alive i m) = ms_id m"
    by (simp add: crash_msg_def)
qed (use assms(1) in \<open>simp add: bc_ok_def\<close>)

lemma bc_step_ok:
  assumes "bc_ok n md s \<and> md \<noteq> Best_Effort \<and> 0 < n" "bc_allowed s command args"
  shows "bc_ok n md (snd (broadcast_step s command args)) \<and> md \<noteq> Best_Effort \<and> 0 < n"
proof -
  have ok: "bc_ok n md s" "md \<noteq> Best_Effort" "0 < n" using assms(1) by blast+
  have n: "bc_n s = n" "bc_mode s = md" using ok(1) by (simp_all add: bc_ok_def)
  have next_id: "in_i64 (bc_next_id s + 1)" using assms(2) by (simp add: bc_allowed_def)
  have "bc_ok n md (snd (bc_broadcast args s))"
    using ok(1) bc_send_ok [OF ok(1,2) _ _ next_id] n by (cases "uint_arg args 0") (auto simp: bc_broadcast_def)
  moreover have "bc_ok n md (snd (bc_hand args s))"
    using ok(1) bc_deliver_ok [OF ok(1,2)] n
    by (cases "int_arg args 0"; cases "uint_arg args 1") (auto simp: bc_hand_def Let_def)
  moreover have "bc_ok n md (snd (bc_crash args s))"
    using ok(1) bc_crash_ok [OF ok(1)] n by (cases "uint_arg args 0") (auto simp: bc_crash_def Let_def)
  moreover have "bc_ok n md (snd (bc_settle s))"
    using bc_settle_ok [OF ok] by (simp add: bc_settle_def split_beta)
  moreover have "snd (bc_delivered args s) = s" by (cases "int_arg args 0") (simp_all add: bc_delivered_def)
  ultimately show ?thesis using assms ok by (simp add: broadcast_step_def bc_allowed_def)
qed

interpretation bc: topic_invariant broadcast_step bc_allowed "\<lambda>s. bc_ok n md s \<and> md \<noteq> Best_Effort \<and> 0 < n"
  by unfold_locales (rule bc_step_ok)

text \<open>C35: reliable and uniform broadcast. After any session in one of these modes in which the network loses
  nothing, \<open>settle\<close> stops within two rounds and leaves nothing to hand over; then every message that a
  correct process has delivered, in uniform mode every message that anyone has delivered even if it
  crashed since, is delivered by every correct process.\<close>
theorem broadcast_reaches_all:
  assumes "uint_arg args 0 = Inr n" "0 < n" "word_arg how 0 = Inr (mode_text md)" "md \<noteq> Best_Effort"
    and "s0 = snd (broadcast_step (snd (broadcast_step z ''init'' args)) ''mode'' how)"
    and "session_ok bc_allowed broadcast_step cs s0" "s = snd (topic_run broadcast_step cs s0)"
    and "s' = snd (broadcast_step s ''settle'' [])"
  shows "bc_pending s' = [] \<and> fst (settle_loop 0 s) \<le> 2 \<and> bc_alive s' = bc_alive s \<and>
    (\<forall>m \<in> set (bc_msgs s'). counts md (bc_alive s') m \<longrightarrow> all_correct s' m)"
proof -
  have "s0 = z\<lparr>bc_n := n, bc_alive := replicate n True, bc_mode := md, bc_msgs := [], bc_next_id := 1\<rparr>"
    unfolding assms(5) using assms(1-4)
    by (cases md) (simp_all add: broadcast_step_def bc_init_def bc_set_mode_def mode_of_def)
  then have start: "bc_ok n md s0 \<and> md \<noteq> Best_Effort \<and> 0 < n" using assms(2,4) by (simp add: bc_ok_def)
  have ok: "bc_ok n md s" using bc.session_keeps [OF start assms(6)] unfolding assms(7) by blast
  have s': "s' = snd (settle_loop 0 s)" unfolding assms(8) by (simp add: broadcast_step_def bc_settle_def split_beta)
  have settled: "bc_ok n md s'" "bc_pending s' = []" "fst (settle_loop 0 s) \<le> 2" "bc_alive s' = bc_alive s"
    unfolding s' using bc_settle_ok [OF ok assms(4,2)] by blast+
  have "all_correct s' m" if m: "m \<in> set (bc_msgs s')" and c: "counts md (bc_alive s') m" for m
  proof -
    have "still (bc_alive s') m" using settled(2) m by (simp flip: still_pending)
    moreover have "reaching (bc_alive s') m" using settled(1) m c by (simp add: bc_ok_def msg_ok_def)
    ultimately show ?thesis using settled(1)
      by (auto simp: all_correct_def bc_live_def list_all_iff reaching_def still_def bc_ok_def)
  qed
  then show ?thesis using settled(2,3,4) by blast
qed

definition crash_session :: "(string \<times> string list) list" where
  "crash_session = [(''broadcast'', [''0'']), (''hand'', [''1'', ''1'']), (''crash'', [''0''])]"

text \<open>The sender of three crashes after one of the others has its message.\<close>

theorem broadcast_reaches_all_witness:
  "let s0 = snd (broadcast_step (snd (broadcast_step bc_default ''init'' [''3''])) ''mode'' [''reliable'']);
       s' = snd (broadcast_step (snd (topic_run broadcast_step crash_session s0)) ''settle'' [])
   in bc_pending s' = [] \<and> (\<forall>m \<in> set (bc_msgs s'). counts Reliable (bc_alive s') m \<longrightarrow> all_correct s' m)"
proof -
  note args = uint_arg_def int_arg_def word_arg_def arg_def ok_or_def small_numbers
  let ?t = "snd (broadcast_step (snd (broadcast_step bc_default ''init'' [''3''])) ''mode'' [''reliable''])"
  have a: "uint_arg [''3''] 0 = Inr 3" "word_arg [''reliable''] 0 = Inr (mode_text Reliable)" by (simp_all add: args)
  have start: "?t = \<lparr>bc_n = 3, bc_alive = [True, True, True], bc_mode = Reliable, bc_msgs = [], bc_next_id = 1\<rparr>"
    using a by (simp add: broadcast_step_def bc_init_def bc_set_mode_def mode_of_def bc_default_def numeral_3_eq_3)
  have sent: "bc_next_id (snd (broadcast_step ?t ''broadcast'' [''0''])) = 2"
    unfolding start
    by (simp add: broadcast_step_def bc_broadcast_def args bc_send_def bc_deliver_def Let_def in_i64_def i64_min_def i64_max_def)
  have handed: "bc_next_id (snd (broadcast_step u ''hand'' [''1'', ''1''])) = bc_next_id u" for u
    by (simp add: broadcast_step_def bc_hand_def args bc_deliver_def Let_def)
  have "session_ok bc_allowed broadcast_step crash_session ?t"
    unfolding crash_session_def session_ok.simps
    by (simp add: bc_allowed_def sent handed) (simp add: start in_i64_def i64_min_def i64_max_def)
  then show ?thesis
    using broadcast_reaches_all [where z = bc_default and cs = crash_session, OF a(1) _ a(2) _ refl _ refl refl] by (simp add: Let_def)
qed

end
