(* ===== verification/Replication.thy ===== *)
theory Replication
  imports Topics
begin

text \<open>
  Replicated registers and reads, as \<^verbatim>\<open>disttest/examples/alg/replication.rs\<close> plays them: the register of
  Attiya, Bar-Noy and Dolev, chain replication, and the reads of a Raft leader.
\<close>

section \<open>A register from quorums\<close>

record tagged =
  tg_ts :: int
  tg_writer :: int
  tg_value :: int

definition tagged_default :: tagged where
  "tagged_default = \<lparr>tg_ts = 0, tg_writer = 0, tg_value = 0\<rparr>"

text \<open>Tags are compared as pairs.\<close>

definition tag_less :: "tagged \<Rightarrow> tagged \<Rightarrow> bool" where
  "tag_less a b \<longleftrightarrow> tg_ts a < tg_ts b \<or> tg_ts a = tg_ts b \<and> tg_writer a < tg_writer b"

record abd =
  abd_replicas :: "tagged list"
  abd_up :: "bool list"
  abd_writeback :: bool
  abd_messages :: int

definition abd_default :: abd where
  "abd_default = \<lparr>abd_replicas = [], abd_up = [], abd_writeback = True, abd_messages = 0\<rparr>"

definition abd_quorum :: "abd \<Rightarrow> nat" where
  "abd_quorum s = length (abd_replicas s) div 2 + 1"

definition abd_reachable :: "abd \<Rightarrow> nat list option" where
  "abd_reachable s =
     (let live = filter (\<lambda>i. abd_up s ! i) [0..<length (abd_replicas s)]
      in if length live \<ge> abd_quorum s then Some live else None)"

fun abd_read_loop :: "nat list \<Rightarrow> tagged \<Rightarrow> abd \<Rightarrow> tagged \<times> abd" where
  "abd_read_loop [] best s = (best, s)"
| "abd_read_loop (i # is) best s =
     (let s = s\<lparr>abd_messages := wrap_i64 (abd_messages s + 1)\<rparr>
      in abd_read_loop is (if tag_less best (abd_replicas s ! i) then abd_replicas s ! i else best) s)"

definition read_quorum :: "abd \<Rightarrow> tagged option \<times> abd" where
  "read_quorum s =
     (case abd_reachable s of
        None \<Rightarrow> (None, s)
      | Some live \<Rightarrow> (let (best, s) = abd_read_loop (take (abd_quorum s) live) tagged_default s in (Some best, s)))"

fun abd_write_loop :: "tagged \<Rightarrow> nat list \<Rightarrow> nat \<Rightarrow> abd \<Rightarrow> nat \<times> abd" where
  "abd_write_loop t [] written s = (written, s)"
| "abd_write_loop t (i # is) written s =
     (let s = s\<lparr>abd_messages := wrap_i64 (abd_messages s + 1)\<rparr>;
          s = (if tag_less (abd_replicas s ! i) t then s\<lparr>abd_replicas := (abd_replicas s)[i := t]\<rparr> else s)
      in abd_write_loop t is (written + 1) s)"

definition write_quorum :: "tagged \<Rightarrow> abd \<Rightarrow> nat option \<times> abd" where
  "write_quorum t s =
     (case abd_reachable s of
        None \<Rightarrow> (None, s)
      | Some live \<Rightarrow> (let (written, s) = abd_write_loop t (take (abd_quorum s) live) 0 s in (Some written, s)))"

definition abd_init :: "string list \<Rightarrow> abd \<Rightarrow> json \<times> abd" where
  "abd_init args s =
     with_arg (uint_arg args 0) (\<lambda>n.
       if n = 0 then (reply_err ''a register needs at least one replica'', s)
       else (JObj [(''ok'', JBool True), (''replicas'', count_json n), (''quorum'', count_json (n div 2 + 1))],
             \<lparr>abd_replicas = replicate n tagged_default, abd_up = replicate n True, abd_writeback = True, abd_messages = 0\<rparr>)) s"

definition on_off :: "string \<Rightarrow> json + bool" where
  "on_off w =
     (if w = ''on'' then Inr True else if w = ''off'' then Inr False
      else Inl (reply_err (''expected on or off, got '' @ debug_str w)))"

definition abd_set_writeback :: "string list \<Rightarrow> abd \<Rightarrow> json \<times> abd" where
  "abd_set_writeback args s =
     with_arg (word_arg args 0) (\<lambda>w. with_arg (on_off w) (\<lambda>b.
       (JObj [(''ok'', JBool True), (''writeback'', JBool b)], s\<lparr>abd_writeback := b\<rparr>)) s) s"

definition no_replica :: "nat \<Rightarrow> json" where
  "no_replica i = reply_err (''no replica '' @ show_nat i)"

definition abd_switch :: "bool \<Rightarrow> string list \<Rightarrow> abd \<Rightarrow> json \<times> abd" where
  "abd_switch b args s =
     with_arg (uint_arg args 0) (\<lambda>i.
       if i \<ge> length (abd_replicas s) then (no_replica i, s)
       else (JObj [(''ok'', JBool True), (''replica'', count_json i), (''up'', JBool b)], s\<lparr>abd_up := (abd_up s)[i := b]\<rparr>)) s"

definition no_quorum :: "string \<Rightarrow> json" where
  "no_quorum what = JObj [(''ok'', JBool True), (what, JBool False), (''reason'', JStr ''no quorum'')]"

definition abd_write :: "string list \<Rightarrow> abd \<Rightarrow> json \<times> abd" where
  "abd_write args s =
     with_arg (int_arg args 0) (\<lambda>writer. with_arg (int_arg args 1) (\<lambda>v.
       case read_quorum s of
         (None, s) \<Rightarrow> (no_quorum ''committed'', s)
       | (Some found, s) \<Rightarrow>
           (let t = \<lparr>tg_ts = wrap_i64 (tg_ts found + 1), tg_writer = writer, tg_value = v\<rparr> in
            case write_quorum t s of
              (Some n, s) \<Rightarrow>
                (JObj [(''ok'', JBool True), (''committed'', JBool True), (''ts'', JInt (tg_ts t)), (''writer'', JInt writer),
                       (''replicas_written'', count_json n)], s)
            | (None, s) \<Rightarrow> (no_quorum ''committed'', s))) s) s"

definition abd_read :: "abd \<Rightarrow> json \<times> abd" where
  "abd_read s =
     (case read_quorum s of
        (None, s) \<Rightarrow> (no_quorum ''served'', s)
      | (Some found, s) \<Rightarrow>
          (let (wrote_back, s) = (if abd_writeback s then (case write_quorum found s of (r, s) \<Rightarrow> (r \<noteq> None, s)) else (False, s))
           in (JObj [(''ok'', JBool True), (''served'', JBool True), (''value'', JInt (tg_value found)), (''ts'', JInt (tg_ts found)),
                     (''writer'', JInt (tg_writer found)), (''wrote_back'', JBool wrote_back)], s)))"

definition abd_poke :: "string list \<Rightarrow> abd \<Rightarrow> json \<times> abd" where
  "abd_poke args s =
     with_arg (uint_arg args 0) (\<lambda>i.
       if i \<ge> length (abd_replicas s) then (no_replica i, s)
       else
         with_arg (int_arg args 1) (\<lambda>ts. with_arg (int_arg args 2) (\<lambda>writer. with_arg (int_arg args 3) (\<lambda>v.
           (JObj [(''ok'', JBool True), (''replica'', count_json i), (''ts'', JInt ts), (''value'', JInt v)],
            s\<lparr>abd_replicas := (abd_replicas s)[i := \<lparr>tg_ts = ts, tg_writer = writer, tg_value = v\<rparr>]\<rparr>)) s) s) s) s"

definition abd_state :: "abd \<Rightarrow> json" where
  "abd_state s =
     JObj [(''ok'', JBool True), (''quorum'', count_json (abd_quorum s)), (''messages'', JInt (abd_messages s)),
           (''writeback'', JBool (abd_writeback s)),
           (''replicas'', JArr (map (\<lambda>i. let r = abd_replicas s ! i in
              JObj [(''up'', JBool (abd_up s ! i)), (''ts'', JInt (tg_ts r)), (''writer'', JInt (tg_writer r)),
                    (''value'', JInt (tg_value r))]) [0..<length (abd_replicas s)]))]"

definition abd_step :: "abd \<Rightarrow> string \<Rightarrow> string list \<Rightarrow> json \<times> abd" where
  "abd_step s command args =
     (if command = ''init'' then abd_init args s
      else if command = ''writeback'' then abd_set_writeback args s
      else if command = ''down'' \<or> command = ''up'' then abd_switch (command = ''up'') args s
      else if command = ''write'' then abd_write args s
      else if command = ''read'' then abd_read s
      else if command = ''poke'' then abd_poke args s
      else if command = ''state'' then (abd_state s, s)
      else (unknown_command command, s))"

section \<open>Chain replication\<close>

record link =
  lk_applied :: "(string \<times> int) list"
  lk_pending :: "(string \<times> int) list"
  lk_alive :: bool

type_synonym chain_nodes = "link list"

definition ch_live :: "chain_nodes \<Rightarrow> nat list" where
  "ch_live s = filter (\<lambda>i. lk_alive (s ! i)) [0..<length s]"

definition ch_head :: "chain_nodes \<Rightarrow> nat option" where
  "ch_head s = (case ch_live s of [] \<Rightarrow> None | i # _ \<Rightarrow> Some i)"

definition ch_tail :: "chain_nodes \<Rightarrow> nat option" where
  "ch_tail s = (case rev (ch_live s) of [] \<Rightarrow> None | i # _ \<Rightarrow> Some i)"

definition ch_state :: "chain_nodes \<Rightarrow> json" where
  "ch_state s =
     JObj [(''ok'', JBool True), (''head'', json_opt count_json (ch_head s)), (''tail'', json_opt count_json (ch_tail s)),
           (''nodes'', JArr (map (\<lambda>n. JObj [(''alive'', JBool (lk_alive n)), (''pending'', count_json (length (lk_pending n))),
              (''applied'', count_json (length (lk_applied n)))]) s))]"

definition ch_init :: "string list \<Rightarrow> chain_nodes \<Rightarrow> json \<times> chain_nodes" where
  "ch_init args s =
     with_arg (uint_arg args 0) (\<lambda>n.
       if n = 0 then (reply_err ''a chain needs at least one node'', s)
       else (JObj [(''ok'', JBool True), (''nodes'', count_json n), (''head'', JInt 0), (''tail'', count_json (n - 1))],
             replicate n \<lparr>lk_applied = [], lk_pending = [], lk_alive = True\<rparr>)) s"

text \<open>A node takes an update: it applies it and owes it to the next.\<close>

definition take_update :: "string \<Rightarrow> int \<Rightarrow> link \<Rightarrow> link" where
  "take_update k v n = n\<lparr>lk_applied := btree_insert k v (lk_applied n), lk_pending := lk_pending n @ [(k, v)]\<rparr>"

definition no_live_node :: "string \<Rightarrow> json" where
  "no_live_node what = JObj [(''ok'', JBool True), (what, JBool False), (''reason'', JStr ''no live node'')]"

definition ch_write :: "string list \<Rightarrow> chain_nodes \<Rightarrow> json \<times> chain_nodes" where
  "ch_write args s =
     with_arg (word_arg args 0) (\<lambda>key. with_arg (int_arg args 1) (\<lambda>v.
       case ch_head s of
         None \<Rightarrow> (no_live_node ''accepted'', s)
       | Some h \<Rightarrow>
           (JObj [(''ok'', JBool True), (''accepted'', JBool True), (''at'', count_json h)],
            s[h := take_update key v (s ! h)])) s) s"

fun windows2 :: "'a list \<Rightarrow> ('a \<times> 'a) list" where
  "windows2 (x # y # zs) = (x, y) # windows2 (y # zs)"
| "windows2 _ = []"

definition hop :: "chain_nodes \<times> nat \<Rightarrow> nat \<times> nat \<Rightarrow> chain_nodes \<times> nat" where
  "hop = (\<lambda>(s, moved) (i, j).
     (let pending = lk_pending (s ! i);
          s = s[i := (s ! i)\<lparr>lk_pending := []\<rparr>]
      in (s[j := foldl (\<lambda>n (k, v). take_update k v n) (s ! j) pending], moved + length pending)))"

definition ch_propagate :: "chain_nodes \<Rightarrow> json \<times> chain_nodes" where
  "ch_propagate s =
     (let (s, moved) = foldl hop (s, 0) (rev (windows2 (ch_live s)));
          s = (case ch_tail s of Some t \<Rightarrow> s[t := (s ! t)\<lparr>lk_pending := []\<rparr>] | None \<Rightarrow> s)
      in (JObj [(''ok'', JBool True), (''moved'', count_json moved)], s))"

definition ch_value :: "string \<Rightarrow> link \<Rightarrow> int" where
  "ch_value key n = (case map_of (lk_applied n) key of Some v \<Rightarrow> v | None \<Rightarrow> 0)"

definition ch_read :: "string list \<Rightarrow> chain_nodes \<Rightarrow> json \<times> chain_nodes" where
  "ch_read args s =
     with_arg (word_arg args 0) (\<lambda>key.
       (case ch_tail s of
          None \<Rightarrow> no_live_node ''served''
        | Some t \<Rightarrow>
            JObj [(''ok'', JBool True), (''served'', JBool True), (''value'', JInt (ch_value key (s ! t))),
                  (''from'', count_json t)], s)) s"

definition no_node :: "nat \<Rightarrow> json" where
  "no_node i = reply_err (''no node '' @ show_nat i)"

definition ch_read_at :: "string list \<Rightarrow> chain_nodes \<Rightarrow> json \<times> chain_nodes" where
  "ch_read_at args s =
     with_arg (uint_arg args 0) (\<lambda>i. with_arg (word_arg args 1) (\<lambda>key.
       (if i \<ge> length s then no_node i
        else if \<not> lk_alive (s ! i)
        then JObj [(''ok'', JBool True), (''served'', JBool False), (''reason'', JStr ''node is down'')]
        else JObj [(''ok'', JBool True), (''served'', JBool True), (''value'', JInt (ch_value key (s ! i))),
                   (''from'', count_json i), (''committed'', JBool (Some i = ch_tail s))], s)) s) s"

definition ch_close_up :: "nat \<Rightarrow> chain_nodes \<Rightarrow> chain_nodes" where
  "ch_close_up i s =
     (let predecessor = find_first (\<lambda>j. j < i) (rev (ch_live s));
          orphaned = lk_pending (s ! i);
          s = s[i := (s ! i)\<lparr>lk_pending := [], lk_alive := False\<rparr>]
      in case predecessor of
           Some prev \<Rightarrow> s[prev := (s ! prev)\<lparr>lk_pending := lk_pending (s ! prev) @ orphaned\<rparr>]
         | None \<Rightarrow> s)"

definition ch_fail :: "string list \<Rightarrow> chain_nodes \<Rightarrow> json \<times> chain_nodes" where
  "ch_fail args s =
     with_arg (uint_arg args 0) (\<lambda>i.
       if i \<ge> length s then (no_node i, s)
       else
         (let s' = ch_close_up i s
          in (JObj [(''ok'', JBool True), (''failed'', count_json i), (''was_head'', JBool (Some i = ch_head s)),
                    (''was_tail'', JBool (Some i = ch_tail s)), (''head'', json_opt count_json (ch_head s')),
                    (''tail'', json_opt count_json (ch_tail s'))], s'))) s"

definition chain_step :: "chain_nodes \<Rightarrow> string \<Rightarrow> string list \<Rightarrow> json \<times> chain_nodes" where
  "chain_step s command args =
     (if command = ''init'' then ch_init args s
      else if command = ''write'' then ch_write args s
      else if command = ''propagate'' then ch_propagate s
      else if command = ''read'' then ch_read args s
      else if command = ''read-at'' then ch_read_at args s
      else if command = ''fail'' then ch_fail args s
      else if command = ''state'' then (ch_state s, s)
      else (unknown_command command, s))"

section \<open>Reads of a Raft leader\<close>

record raft_reads =
  rr_nodes :: nat
  rr_term :: int
  rr_leader :: "nat option"
  rr_commit_index :: int
  rr_applied :: int
  rr_partitioned :: "bool list"
  rr_prevote :: bool

definition rr_default :: raft_reads where
  "rr_default =
     \<lparr>rr_nodes = 0, rr_term = 0, rr_leader = None, rr_commit_index = 0, rr_applied = 0, rr_partitioned = [],
      rr_prevote = False\<rparr>"

definition rr_quorum :: "raft_reads \<Rightarrow> nat" where
  "rr_quorum s = rr_nodes s div 2 + 1"

definition rr_reachable :: "raft_reads \<Rightarrow> nat" where
  "rr_reachable s = length (filter (\<lambda>i. \<not> rr_partitioned s ! i) [0..<rr_nodes s])"

definition rr_init :: "string list \<Rightarrow> raft_reads \<Rightarrow> json \<times> raft_reads" where
  "rr_init args s =
     with_arg (uint_arg args 0) (\<lambda>n.
       if n = 0 then (reply_err ''a cluster needs at least one node'', s)
       else
         (JObj [(''ok'', JBool True), (''nodes'', count_json n), (''term'', JInt 1), (''leader'', JInt 0)],
          \<lparr>rr_nodes = n, rr_term = 1, rr_leader = Some 0, rr_commit_index = 0, rr_applied = 0,
           rr_partitioned = replicate n False, rr_prevote = True\<rparr>)) s"

definition rr_set_prevote :: "string list \<Rightarrow> raft_reads \<Rightarrow> json \<times> raft_reads" where
  "rr_set_prevote args s =
     with_arg (word_arg args 0) (\<lambda>w. with_arg (on_off w) (\<lambda>b.
       (JObj [(''ok'', JBool True), (''prevote'', JBool b)], s\<lparr>rr_prevote := b\<rparr>)) s) s"

definition rr_cut :: "bool \<Rightarrow> string list \<Rightarrow> raft_reads \<Rightarrow> json \<times> raft_reads" where
  "rr_cut b args s =
     with_arg (uint_arg args 0) (\<lambda>i.
       if i \<ge> rr_nodes s then (no_node i, s)
       else (JObj [(''ok'', JBool True), (''node'', count_json i), (''partitioned'', JBool b)],
             s\<lparr>rr_partitioned := (rr_partitioned s)[i := b]\<rparr>)) s"

definition rr_append :: "raft_reads \<Rightarrow> json \<times> raft_reads" where
  "rr_append s =
     (if rr_leader s = None \<or> rr_reachable s < rr_quorum s then (no_quorum ''committed'', s)
      else (let s = s\<lparr>rr_commit_index := wrap_i64 (rr_commit_index s + 1)\<rparr>
            in (JObj [(''ok'', JBool True), (''committed'', JBool True), (''index'', JInt (rr_commit_index s))], s)))"

definition rr_apply :: "raft_reads \<Rightarrow> json \<times> raft_reads" where
  "rr_apply s =
     (let s = s\<lparr>rr_applied := rr_commit_index s\<rparr> in (JObj [(''ok'', JBool True), (''applied'', JInt (rr_applied s))], s))"

definition rr_votes :: "raft_reads \<Rightarrow> nat \<Rightarrow> nat" where
  "rr_votes s i = (if rr_partitioned s ! i then 1 else rr_reachable s)"

definition rr_campaign :: "string list \<Rightarrow> raft_reads \<Rightarrow> json \<times> raft_reads" where
  "rr_campaign args s =
     with_arg (uint_arg args 0) (\<lambda>i.
       if i \<ge> rr_nodes s then (no_node i, s)
       else
         (let votes = rr_votes s i in
          if rr_prevote s \<and> votes < rr_quorum s
          then (JObj [(''ok'', JBool True), (''became_leader'', JBool False), (''term'', JInt (rr_term s)),
                      (''term_raised'', JBool False), (''reason'', JStr ''pre-vote failed'')], s)
          else
            (let s = s\<lparr>rr_term := wrap_i64 (rr_term s + 1)\<rparr>;
                 won = votes \<ge> rr_quorum s;
                 s = (if won then s\<lparr>rr_leader := Some i\<rparr> else s)
             in (JObj [(''ok'', JBool True), (''became_leader'', JBool won), (''term'', JInt (rr_term s)),
                       (''term_raised'', JBool True), (''reason'', JStr (if won then ''elected'' else ''no majority''))], s)))) s"

definition not_served :: "string \<Rightarrow> (string \<times> json) list \<Rightarrow> json" where
  "not_served reason rest = JObj ([(''ok'', JBool True), (''served'', JBool False), (''reason'', JStr reason)] @ rest)"

definition rr_read_index :: "raft_reads \<Rightarrow> json" where
  "rr_read_index s =
     (if rr_leader s = None then not_served ''no leader'' []
      else if rr_reachable s < rr_quorum s
      then not_served ''lost quorum'' [(''read_index'', JInt (rr_commit_index s))]
      else if rr_applied s < rr_commit_index s
      then not_served ''state machine is behind'' [(''read_index'', JInt (rr_commit_index s)), (''applied'', JInt (rr_applied s))]
      else JObj [(''ok'', JBool True), (''served'', JBool True), (''read_index'', JInt (rr_commit_index s)),
                 (''applied'', JInt (rr_applied s))])"

definition not_transferred :: "string \<Rightarrow> json" where
  "not_transferred reason = JObj [(''ok'', JBool True), (''transferred'', JBool False), (''reason'', JStr reason)]"

definition rr_transfer :: "string list \<Rightarrow> raft_reads \<Rightarrow> json \<times> raft_reads" where
  "rr_transfer args s =
     with_arg (uint_arg args 0) (\<lambda>to.
       if to \<ge> rr_nodes s then (no_node to, s)
       else if rr_leader s = None then (not_transferred ''no leader'', s)
       else if rr_partitioned s ! to then (not_transferred ''target is unreachable'', s)
       else
         (let s = s\<lparr>rr_term := wrap_i64 (rr_term s + 1), rr_leader := Some to\<rparr>
          in (JObj [(''ok'', JBool True), (''transferred'', JBool True), (''leader'', count_json to), (''term'', JInt (rr_term s))], s))) s"

definition rr_state :: "raft_reads \<Rightarrow> json" where
  "rr_state s =
     JObj [(''ok'', JBool True), (''term'', JInt (rr_term s)), (''leader'', json_opt count_json (rr_leader s)),
           (''commit_index'', JInt (rr_commit_index s)), (''applied'', JInt (rr_applied s)),
           (''quorum'', count_json (rr_quorum s)), (''reachable'', count_json (rr_reachable s)), (''prevote'', JBool (rr_prevote s))]"

definition raft_reads_step :: "raft_reads \<Rightarrow> string \<Rightarrow> string list \<Rightarrow> json \<times> raft_reads" where
  "raft_reads_step s command args =
     (if command = ''init'' then rr_init args s
      else if command = ''prevote'' then rr_set_prevote args s
      else if command = ''partition'' \<or> command = ''heal'' then rr_cut (command = ''partition'') args s
      else if command = ''append'' then rr_append s
      else if command = ''apply'' then rr_apply s
      else if command = ''campaign'' then rr_campaign args s
      else if command = ''read-index'' then (rr_read_index s, s)
      else if command = ''transfer'' then rr_transfer args s
      else if command = ''state'' then (rr_state s, s)
      else (unknown_command command, s))"

section \<open>The register is atomic\<close>

text \<open>The replica with the highest tag among some positions.\<close>

fun best_of :: "tagged list \<Rightarrow> nat list \<Rightarrow> tagged \<Rightarrow> tagged" where
  "best_of rs [] best = best"
| "best_of rs (i # is) best = best_of rs is (if tag_less best (rs ! i) then rs ! i else best)"

lemma abd_read_loop_best: "\<exists>k. abd_read_loop is best s = (best_of (abd_replicas s) is best, s\<lparr>abd_messages := k\<rparr>)"
proof (induction "is" arbitrary: best s)
  case Nil
  show ?case by (intro exI [of _ "abd_messages s"]) simp
next
  case (Cons i "is")
  show ?case using Cons.IH [where s = "s\<lparr>abd_messages := wrap_i64 (abd_messages s + 1)\<rparr>"] by (fastforce simp: Let_def)
qed

lemma write_loop_replicas:
  "\<exists>k. snd (abd_write_loop t is w s) = s\<lparr>abd_messages := k,
     abd_replicas := foldl (\<lambda>rs i. if tag_less (rs ! i) t then rs[i := t] else rs) (abd_replicas s) is\<rparr>"
proof (induction "is" arbitrary: w s)
  case Nil
  show ?case by (intro exI [of _ "abd_messages s"]) simp
next
  case (Cons i "is")
  let ?s = "s\<lparr>abd_messages := wrap_i64 (abd_messages s + 1)\<rparr>"
  let ?s' = "if tag_less (abd_replicas ?s ! i) t then ?s\<lparr>abd_replicas := (abd_replicas ?s)[i := t]\<rparr> else ?s"
  obtain k where "snd (abd_write_loop t is (w + 1) ?s') = ?s'\<lparr>abd_messages := k,
      abd_replicas := foldl (\<lambda>rs i. if tag_less (rs ! i) t then rs[i := t] else rs) (abd_replicas ?s') is\<rparr>"
    using Cons.IH by blast
  then show ?case by (intro exI [of _ k]) (simp add: Let_def)
qed

text \<open>What holds of the replicas: none is ahead of the value last written, and a majority holds it.\<close>

definition settled_on :: "tagged \<Rightarrow> tagged list \<Rightarrow> bool" where
  "settled_on t rs \<longleftrightarrow> (\<forall>r \<in> set rs. tag_less r t \<or> r = t) \<and>
     length rs div 2 + 1 \<le> card {i. i < length rs \<and> rs ! i = t}"

lemma tag_less_irrefl [simp]: "\<not> tag_less t t"
  by (simp add: tag_less_def)

lemma tag_less_asym: "tag_less a b \<Longrightarrow> \<not> tag_less b a"
  by (auto simp: tag_less_def)

lemma best_of_settled:
  "settled_on t rs \<Longrightarrow> \<forall>i \<in> set is. i < length rs \<Longrightarrow> best = t \<or> tag_less best t \<Longrightarrow>
   best_of rs is best = t \<or> (best \<noteq> t \<and> (\<forall>i \<in> set is. rs ! i \<noteq> t))"
proof (induction "is" arbitrary: best)
  case (Cons i "is")
  have i: "tag_less (rs ! i) t \<or> rs ! i = t" using Cons.prems(1,2) by (simp add: settled_on_def)
  let ?best = "if tag_less best (rs ! i) then rs ! i else best"
  have "?best = t \<or> tag_less ?best t" using i Cons.prems(3) by auto
  then have "best_of rs is ?best = t \<or> (?best \<noteq> t \<and> (\<forall>i \<in> set is. rs ! i \<noteq> t))"
    using Cons.IH Cons.prems(1,2) by simp
  then show ?case using i Cons.prems(3) tag_less_asym by (auto split: if_splits)
qed simp

lemma quorum_best:
  assumes "settled_on t rs" "distinct is" "length is = length rs div 2 + 1" "\<forall>i \<in> set is. i < length rs"
    and "best = t \<or> tag_less best t"
  shows "best_of rs is best = t"
proof (rule ccontr)
  assume "best_of rs is best \<noteq> t"
  then have "\<forall>i \<in> set is. rs ! i \<noteq> t" using best_of_settled [OF assms(1,4,5)] by blast
  then have disjoint: "set is \<inter> {i. i < length rs \<and> rs ! i = t} = {}" by auto
  have "card (set is) + card {i. i < length rs \<and> rs ! i = t} = card (set is \<union> {i. i < length rs \<and> rs ! i = t})"
    by (rule card_Un_disjoint [symmetric]) (use disjoint in auto)
  also have "\<dots> \<le> card {..<length rs}" using assms(4) by (intro card_mono) auto
  finally have "length rs div 2 + 1 + card {i. i < length rs \<and> rs ! i = t} \<le> length rs"
    using assms(2,3) by (simp add: distinct_card)
  moreover have "length rs div 2 + 1 \<le> card {i. i < length rs \<and> rs ! i = t}" using assms(1) by (simp add: settled_on_def)
  ultimately show False by linarith
qed

lemma foldl_write:
  "\<forall>i \<in> set is. i < length rs \<Longrightarrow> \<forall>r \<in> set rs. tag_less r t \<or> r = t \<Longrightarrow>
   length (foldl (\<lambda>rs i. if tag_less (rs ! i) t then rs[i := t] else rs) rs is) = length rs \<and>
   (\<forall>j < length rs. foldl (\<lambda>rs i. if tag_less (rs ! i) t then rs[i := t] else rs) rs is ! j = (if j \<in> set is then t else rs ! j))"
proof (induction "is" arbitrary: rs)
  case (Cons i "is")
  let ?rs = "if tag_less (rs ! i) t then rs[i := t] else rs"
  have i: "i < length rs" "tag_less (rs ! i) t \<or> rs ! i = t" using Cons.prems by simp_all
  have each: "\<forall>r \<in> set ?rs. tag_less r t \<or> r = t" using Cons.prems(2) set_update_subset_insert [of rs i t] by auto
  have ih: "length (foldl (\<lambda>rs i. if tag_less (rs ! i) t then rs[i := t] else rs) ?rs is) = length ?rs \<and>
      (\<forall>j < length ?rs. foldl (\<lambda>rs i. if tag_less (rs ! i) t then rs[i := t] else rs) ?rs is ! j = (if j \<in> set is then t else ?rs ! j))"
    using Cons.prems(1) each by (intro Cons.IH) (simp_all split: if_split)
  have "?rs ! j = (if j = i then t else rs ! j)" if "j < length rs" for j using i that by auto
  then show ?case using ih by (auto split: if_splits)
qed simp

lemma write_settles:
  assumes "\<forall>r \<in> set rs. tag_less r t \<or> r = t" "distinct is" "length is = length rs div 2 + 1" "\<forall>i \<in> set is. i < length rs"
  shows "settled_on t (foldl (\<lambda>rs i. if tag_less (rs ! i) t then rs[i := t] else rs) rs is)"
proof -
  let ?new = "foldl (\<lambda>rs i. if tag_less (rs ! i) t then rs[i := t] else rs) rs is"
  have n: "length ?new = length rs" "\<And>j. j < length rs \<Longrightarrow> ?new ! j = (if j \<in> set is then t else rs ! j)"
    using foldl_write [OF assms(4,1)] by blast+
  have "set is \<subseteq> {i. i < length ?new \<and> ?new ! i = t}" using n assms(4) by auto
  then have "card (set is) \<le> card {i. i < length ?new \<and> ?new ! i = t}" by (intro card_mono) auto
  moreover have "tag_less r t \<or> r = t" if r: "r \<in> set ?new" for r
  proof -
    obtain j where j: "j < length rs" "r = ?new ! j" using r [unfolded in_set_conv_nth] n(1) by auto
    then show ?thesis using n(2) [OF j(1)] assms(1) nth_mem [OF j(1)] by (cases "j \<in> set is") auto
  qed
  ultimately show ?thesis using assms(2,3) n(1) by (simp add: settled_on_def distinct_card)
qed

lemma reachable_quorum:
  assumes "abd_reachable s = Some live"
  shows "distinct (take (abd_quorum s) live)" "length (take (abd_quorum s) live) = length (abd_replicas s) div 2 + 1"
    "\<forall>i \<in> set (take (abd_quorum s) live). i < length (abd_replicas s)"
proof -
  let ?live = "filter (\<lambda>i. abd_up s ! i) [0..<length (abd_replicas s)]"
  have live: "live = ?live" "length live \<ge> abd_quorum s" using assms by (simp_all add: abd_reachable_def Let_def split: if_splits)
  have "distinct live" "set live \<subseteq> {..<length (abd_replicas s)}" unfolding live(1) by auto
  then show "distinct (take (abd_quorum s) live)" "\<forall>i \<in> set (take (abd_quorum s) live). i < length (abd_replicas s)"
    using set_take_subset [of "abd_quorum s" live] by (auto simp del: set_take_subset)
  show "length (take (abd_quorum s) live) = length (abd_replicas s) div 2 + 1" using live(2) by (simp add: abd_quorum_def)
qed

lemma read_settled:
  assumes "settled_on t (abd_replicas s)" "tag_less tagged_default t \<or> t = tagged_default"
  shows "(abd_reachable s = None \<and> read_quorum s = (None, s)) \<or>
    (\<exists>live k. abd_reachable s = Some live \<and> read_quorum s = (Some t, s\<lparr>abd_messages := k\<rparr>))"
proof (cases "abd_reachable s")
  case None
  then show ?thesis by (simp add: read_quorum_def)
next
  case (Some live)
  obtain k where "abd_read_loop (take (abd_quorum s) live) tagged_default s =
      (best_of (abd_replicas s) (take (abd_quorum s) live) tagged_default, s\<lparr>abd_messages := k\<rparr>)"
    using abd_read_loop_best by blast
  moreover have "best_of (abd_replicas s) (take (abd_quorum s) live) tagged_default = t"
    using quorum_best [OF assms(1) reachable_quorum [OF Some]] assms(2) by auto
  ultimately have "read_quorum s = (Some t, s\<lparr>abd_messages := k\<rparr>)" using Some by (simp add: read_quorum_def)
  then show ?thesis using Some by blast
qed

lemma write_settled:
  assumes "\<forall>r \<in> set (abd_replicas s). tag_less r t \<or> r = t" "abd_reachable s = Some live"
  shows "fst (write_quorum t s) \<noteq> None \<and> settled_on t (abd_replicas (snd (write_quorum t s))) \<and>
    length (abd_replicas (snd (write_quorum t s))) = length (abd_replicas s) \<and> abd_up (snd (write_quorum t s)) = abd_up s"
proof -
  obtain k where k: "snd (abd_write_loop t (take (abd_quorum s) live) 0 s) = s\<lparr>abd_messages := k,
     abd_replicas := foldl (\<lambda>rs i. if tag_less (rs ! i) t then rs[i := t] else rs) (abd_replicas s) (take (abd_quorum s) live)\<rparr>"
    using write_loop_replicas by blast
  have "snd (write_quorum t s) = snd (abd_write_loop t (take (abd_quorum s) live) 0 s)" "fst (write_quorum t s) \<noteq> None"
    using assms(2) by (simp_all add: write_quorum_def split_beta Let_def)
  then show ?thesis
    using k write_settles [OF assms(1) reachable_quorum [OF assms(2)]] foldl_write [OF reachable_quorum(3) [OF assms(2)] assms(1)]
    by simp
qed

text \<open>What a session of the register has committed last, as its answers tell.\<close>

definition committed_write :: "string \<Rightarrow> string list \<Rightarrow> json \<Rightarrow> int option" where
  "committed_write command args answer =
     (case answer of
        JObj fs \<Rightarrow>
          if command = ''write'' \<and> map_of fs ''committed'' = Some (JBool True)
          then (case int_arg args 1 of Inr v \<Rightarrow> Some v | Inl _ \<Rightarrow> None) else None
      | _ \<Rightarrow> None)"

fun last_value :: "(string \<times> string list) list \<Rightarrow> json list \<Rightarrow> int \<Rightarrow> int" where
  "last_value ((command, args) # cs) (a # as) v =
     last_value cs as (case committed_write command args a of Some w \<Rightarrow> w | None \<Rightarrow> v)"
| "last_value _ _ v = v"

definition abd_ok :: "nat \<Rightarrow> int \<Rightarrow> abd \<Rightarrow> bool" where
  "abd_ok n v s \<longleftrightarrow> length (abd_replicas s) = n \<and> 0 < n \<and> length (abd_up s) = n \<and>
     (\<exists>t. settled_on t (abd_replicas s) \<and> tg_value t = v \<and> 0 \<le> tg_ts t \<and> (t = tagged_default \<or> 0 < tg_ts t))"

text \<open>Timestamps are counted one by one; a session is too short to use them up. A stage's \<open>poke\<close> is no client.\<close>

definition abd_allowed :: "abd \<Rightarrow> string \<Rightarrow> string list \<Rightarrow> bool" where
  "abd_allowed s command args \<longleftrightarrow> command \<notin> {''init'', ''poke''} \<and> (\<forall>r \<in> set (abd_replicas s). tg_ts r < i64_max)"

definition served_value :: "json \<Rightarrow> int option" where
  "served_value answer =
     (case answer of
        JObj fs \<Rightarrow>
          if map_of fs ''served'' = Some (JBool True) then (case map_of fs ''value'' of Some (JInt v) \<Rightarrow> Some v | _ \<Rightarrow> None) else None
      | _ \<Rightarrow> None)"

lemma int_arg_refusal: "int_arg args i = Inl e \<Longrightarrow> \<exists>m. e = JObj [(''ok'', JBool False), (''error'', JStr m)]"
  by (auto simp: int_arg_def ok_or_def arg_missing_def reply_err_def split: option.splits if_splits)

lemma abd_write_ok:
  assumes ok: "abd_ok n v s" and small: "\<forall>r \<in> set (abd_replicas s). tg_ts r < i64_max"
  shows "abd_ok n (case committed_write ''write'' args (fst (abd_write args s)) of Some w \<Rightarrow> w | None \<Rightarrow> v) (snd (abd_write args s))"
proof -
  obtain t where t: "settled_on t (abd_replicas s)" "tg_value t = v" "0 \<le> tg_ts t" "t = tagged_default \<or> 0 < tg_ts t"
    using ok by (auto simp: abd_ok_def)
  have n: "length (abd_replicas s) = n" "0 < n" "length (abd_up s) = n" using ok by (simp_all add: abd_ok_def)
  have base: "tag_less tagged_default t \<or> t = tagged_default" using t(4) by (auto simp: tag_less_def tagged_default_def)
  have err: "committed_write ''write'' args e = None" if "int_arg args 0 = Inl e \<or> int_arg args 1 = Inl e" for e
    using that by (auto simp: committed_write_def dest!: int_arg_refusal)
  show ?thesis
  proof (cases "\<exists>w x live. int_arg args 0 = Inr w \<and> int_arg args 1 = Inr x \<and> abd_reachable s = Some live")
    case False
    have none: "committed_write ''write'' args (no_quorum ''committed'') = None" by (simp add: committed_write_def no_quorum_def)
    have "snd (abd_write args s) = s \<and> committed_write ''write'' args (fst (abd_write args s)) = None"
    proof (cases "int_arg args 0")
      case (Inl e)
      then show ?thesis using err by (simp add: abd_write_def committed_write_def int_arg_def ok_or_def arg_missing_def reply_err_def split: option.splits)
    next
      case (Inr w)
      show ?thesis
      proof (cases "int_arg args 1")
        case (Inl e)
        then show ?thesis using err Inr by (simp add: abd_write_def)
      next
        case x: (Inr x)
        then have "read_quorum s = (None, s)" using False Inr read_settled [OF t(1) base] by auto
        then show ?thesis using none Inr x by (simp add: abd_write_def)
      qed
    qed
    then show ?thesis using ok by simp
  next
    case True
    then obtain w x live where a: "int_arg args 0 = Inr w" "int_arg args 1 = Inr x" and live: "abd_reachable s = Some live" by blast
    obtain k where k: "read_quorum s = (Some t, s\<lparr>abd_messages := k\<rparr>)" using read_settled [OF t(1) base] live by auto
    have "t \<in> set (abd_replicas s)"
    proof -
      have "0 < card {i. i < length (abd_replicas s) \<and> abd_replicas s ! i = t}" using t(1) by (simp add: settled_on_def)
      then obtain i where "i < length (abd_replicas s)" "abd_replicas s ! i = t" by (auto simp: card_gt_0_iff)
      then show ?thesis using nth_mem by blast
    qed
    then have "wrap_i64 (tg_ts t + 1) = tg_ts t + 1" using small t(3) by (intro wrap_i64_in) (auto simp: in_i64_def i64_min_def)
    let ?t = "\<lparr>tg_ts = tg_ts t + 1, tg_writer = w, tg_value = x\<rparr>" and ?s = "s\<lparr>abd_messages := k\<rparr>"
    have "\<forall>r \<in> set (abd_replicas ?s). tag_less r ?t \<or> r = ?t" using t(1) by (auto simp: settled_on_def tag_less_def)
    moreover have "abd_reachable ?s = Some live" using live by (simp add: abd_reachable_def abd_quorum_def)
    ultimately have wr: "fst (write_quorum ?t ?s) \<noteq> None" "settled_on ?t (abd_replicas (snd (write_quorum ?t ?s)))"
        "length (abd_replicas (snd (write_quorum ?t ?s))) = n" "abd_up (snd (write_quorum ?t ?s)) = abd_up s"
      using write_settled n(1) by force+
    obtain m u where m: "write_quorum ?t ?s = (Some m, u)" using wr(1) by (cases "write_quorum ?t ?s") auto
    have "fst (abd_write args s) = JObj [(''ok'', JBool True), (''committed'', JBool True), (''ts'', JInt (tg_ts t + 1)), (''writer'', JInt w),
        (''replicas_written'', count_json m)]" "snd (abd_write args s) = u"
      using a k m \<open>wrap_i64 (tg_ts t + 1) = tg_ts t + 1\<close> by (simp_all add: abd_write_def Let_def)
    moreover have "abd_ok n x u" using wr m n(2,3) t(3) by (auto simp: abd_ok_def intro!: exI [of _ ?t])
    ultimately show ?thesis using a(2) by (simp add: committed_write_def)
  qed
qed

lemma abd_read_ok:
  assumes "abd_ok n v s"
  shows "abd_ok n v (snd (abd_read s)) \<and> served_value (fst (abd_read s)) \<in> {None, Some v}"
proof -
  obtain t where t: "settled_on t (abd_replicas s)" "tg_value t = v" "0 \<le> tg_ts t" "t = tagged_default \<or> 0 < tg_ts t"
    using assms by (auto simp: abd_ok_def)
  have n: "length (abd_replicas s) = n" "0 < n" "length (abd_up s) = n" using assms by (simp_all add: abd_ok_def)
  have base: "tag_less tagged_default t \<or> t = tagged_default" using t(4) by (auto simp: tag_less_def tagged_default_def)
  show ?thesis
  proof (cases "abd_reachable s")
    case None
    then have "read_quorum s = (None, s)" using read_settled [OF t(1) base] by auto
    then show ?thesis using assms by (simp add: abd_read_def no_quorum_def served_value_def)
  next
    case (Some live)
    then obtain k where k: "read_quorum s = (Some t, s\<lparr>abd_messages := k\<rparr>)" using read_settled [OF t(1) base] by auto
    let ?s = "s\<lparr>abd_messages := k\<rparr>"
    have same: "abd_ok n v ?s" using assms by (simp add: abd_ok_def)
    have "\<forall>r \<in> set (abd_replicas ?s). tag_less r t \<or> r = t" using t(1) by (simp add: settled_on_def)
    moreover have "abd_reachable ?s = Some live" using Some by (simp add: abd_reachable_def abd_quorum_def)
    ultimately have "settled_on t (abd_replicas (snd (write_quorum t ?s)))" "length (abd_replicas (snd (write_quorum t ?s))) = n"
        "abd_up (snd (write_quorum t ?s)) = abd_up s"
      using write_settled n(1) by force+
    then have "abd_ok n v (snd (write_quorum t ?s))" using n t(2-4) by (auto simp: abd_ok_def)
    then show ?thesis using k same t(2) by (simp add: abd_read_def split_beta Let_def served_value_def)
  qed
qed

lemma other_command: "command \<noteq> ''write'' \<Longrightarrow> committed_write command args e = None"
  by (simp add: committed_write_def split: json.splits)

lemma abd_ok_same:
  "abd_ok n v s \<Longrightarrow> abd_replicas s' = abd_replicas s \<Longrightarrow> length (abd_up s') = length (abd_up s) \<Longrightarrow> abd_ok n v s'"
  by (simp add: abd_ok_def)

lemma switches_keep:
  "abd_replicas (snd (abd_set_writeback args s)) = abd_replicas s" "abd_up (snd (abd_set_writeback args s)) = abd_up s"
  "abd_replicas (snd (abd_switch b args s)) = abd_replicas s" "length (abd_up (snd (abd_switch b args s))) = length (abd_up s)"
  by (simp_all add: abd_set_writeback_def abd_switch_def with_arg_def split: sum.split)

lemma abd_rest_ok:
  assumes "abd_ok n v s" "command \<notin> {''init'', ''poke'', ''write'', ''read''}"
  shows "abd_ok n v (snd (abd_step s command args))"
  by (rule abd_ok_same [OF assms(1)])
     (use assms(2) in \<open>simp_all add: abd_step_def switches_keep\<close>)

lemma abd_step_ok:
  assumes "abd_ok n v s" "abd_allowed s command args"
  shows "abd_ok n (case committed_write command args (fst (abd_step s command args)) of Some w \<Rightarrow> w | None \<Rightarrow> v)
    (snd (abd_step s command args))"
proof (cases "command = ''write''")
  case True
  then show ?thesis using abd_write_ok [OF assms(1)] assms(2) by (simp add: abd_step_def abd_allowed_def)
next
  case no_write: False
  show ?thesis
  proof (cases "command = ''read''")
    case True
    then show ?thesis using abd_read_ok [OF assms(1)] by (simp add: abd_step_def other_command)
  next
    case False
    then show ?thesis using abd_rest_ok [OF assms(1)] assms(2) no_write by (simp add: abd_allowed_def other_command)
  qed
qed

lemma abd_session_ok:
  "abd_ok n v s \<Longrightarrow> session_ok abd_allowed abd_step cs s \<Longrightarrow>
   abd_ok n (last_value cs (fst (topic_run abd_step cs s)) v) (snd (topic_run abd_step cs s))"
proof (induction cs arbitrary: s v)
  case (Cons x cs)
  obtain c args where x: "x = (c, args)" by fastforce
  have "abd_ok n (case committed_write c args (fst (abd_step s c args)) of Some w \<Rightarrow> w | None \<Rightarrow> v) (snd (abd_step s c args))"
    using abd_step_ok Cons.prems x by simp
  then show ?case using Cons.IH Cons.prems(2) by (simp add: x split_beta Let_def)
qed simp

lemma replicate_settled: "0 < n \<Longrightarrow> settled_on tagged_default (replicate n tagged_default)"
proof -
  have "{i. i < n \<and> replicate n tagged_default ! i = tagged_default} = {..<n}" by auto
  moreover assume "0 < n"
  then have "n div 2 + 1 \<le> n" by linarith
  ultimately show ?thesis by (simp add: settled_on_def)
qed

lemma abd_init_ok: "uint_arg args 0 = Inr n \<Longrightarrow> 0 < n \<Longrightarrow> abd_ok n 0 (snd (abd_step z ''init'' args))"
  using replicate_settled [of n]
  by (simp add: abd_step_def abd_init_def abd_ok_def) (force simp: tagged_default_def)

text \<open>Writers 1 and 2 write while replica 0 is up, then down; the reader asks the two others.\<close>

definition replica_session :: "(string \<times> string list) list" where
  "replica_session =
     [(''write'', [''1'', ''1'']), (''down'', [''0'']), (''write'', [''2'', ''3'']), (''up'', [''0'']), (''down'', [''1''])]"

text \<open>C31: the register is atomic. In every session of writes, reads, crashes and recoveries of replicas, with
  write-back on or off, a read is refused or answers the value of the last write that was committed, or 0
  before any was.\<close>
theorem register_is_atomic:
  assumes "uint_arg args 0 = Inr n" "0 < n"
    and "session_ok abd_allowed abd_step cs (snd (abd_step z ''init'' args))"
    and "topic_run abd_step cs (snd (abd_step z ''init'' args)) = (answers, s)"
  shows "served_value (fst (abd_step s ''read'' [])) \<in> {None, Some (last_value cs answers 0)}"
  using abd_session_ok [OF abd_init_ok [OF assms(1,2)] assms(3)] abd_read_ok assms(4) by (simp add: abd_step_def)

definition abd_at :: "tagged list \<Rightarrow> bool list \<Rightarrow> int \<Rightarrow> abd" where
  "abd_at rs up m = \<lparr>abd_replicas = rs, abd_up = up, abd_writeback = True, abd_messages = m\<rparr>"

definition tag1 :: tagged where "tag1 = \<lparr>tg_ts = 1, tg_writer = 1, tg_value = 1\<rparr>"
definition tag2 :: tagged where "tag2 = \<lparr>tg_ts = 2, tg_writer = 2, tg_value = 3\<rparr>"

lemma small_ints: "parse_i64 ''0'' = Some 0" "parse_i64 ''1'' = Some 1" "parse_i64 ''2'' = Some 2" "parse_i64 ''3'' = Some 3"
  by (simp_all add: parse_i64_def parse_uint_def digit_of_def i64_max_def of_char_def)

lemmas arg_simps = uint_arg_def int_arg_def word_arg_def arg_def ok_or_def small_ints

lemma upto3: "[0..<3] = [0, 1, 2::nat]" "[0..<Suc 0] = [0]"
  by (simp_all add: numeral_3_eq_3 upt_rec)

lemma replica_steps:
  "abd_step abd_default ''init'' [''3''] = (JObj [(''ok'', JBool True), (''replicas'', JInt 3), (''quorum'', JInt 2)],
     abd_at [tagged_default, tagged_default, tagged_default] [True, True, True] 0)"
  "abd_step (abd_at [tagged_default, tagged_default, tagged_default] [True, True, True] 0) ''write'' [''1'', ''1''] =
     (JObj [(''ok'', JBool True), (''committed'', JBool True), (''ts'', JInt 1), (''writer'', JInt 1), (''replicas_written'', JInt 2)],
      abd_at [tag1, tag1, tagged_default] [True, True, True] 4)"
  "abd_step (abd_at [tag1, tag1, tagged_default] [True, True, True] 4) ''down'' [''0''] =
     (JObj [(''ok'', JBool True), (''replica'', JInt 0), (''up'', JBool False)], abd_at [tag1, tag1, tagged_default] [False, True, True] 4)"
  "abd_step (abd_at [tag1, tag1, tagged_default] [False, True, True] 4) ''write'' [''2'', ''3''] =
     (JObj [(''ok'', JBool True), (''committed'', JBool True), (''ts'', JInt 2), (''writer'', JInt 2), (''replicas_written'', JInt 2)],
      abd_at [tag1, tag2, tag2] [False, True, True] 8)"
  "abd_step (abd_at [tag1, tag2, tag2] [False, True, True] 8) ''up'' [''0''] =
     (JObj [(''ok'', JBool True), (''replica'', JInt 0), (''up'', JBool True)], abd_at [tag1, tag2, tag2] [True, True, True] 8)"
  "abd_step (abd_at [tag1, tag2, tag2] [True, True, True] 8) ''down'' [''1''] =
     (JObj [(''ok'', JBool True), (''replica'', JInt 1), (''up'', JBool False)], abd_at [tag1, tag2, tag2] [True, False, True] 8)"
  "served_value (fst (abd_step (abd_at [tag1, tag2, tag2] [True, False, True] 8) ''read'' [])) = Some 3"
  by (simp_all add: abd_step_def abd_init_def abd_switch_def abd_write_def abd_read_def read_quorum_def write_quorum_def
      abd_reachable_def abd_quorum_def abd_at_def tag1_def tag2_def tagged_default_def tag_less_def arg_simps upto3
      numeral_3_eq_3 served_value_def wrap_i64_in in_i64_def i64_min_def i64_max_def count_json_def Let_def)

theorem register_is_atomic_witness:
  "let (answers, s) = topic_run abd_step replica_session (snd (abd_step abd_default ''init'' [''3'']))
   in last_value replica_session answers 0 = 3 \<and> served_value (fst (abd_step s ''read'' [])) = Some 3"
proof -
  let ?z = "snd (abd_step abd_default ''init'' [''3''])"
  have n: "uint_arg [''3''] 0 = Inr 3" by (simp add: arg_simps)
  have ok: "session_ok abd_allowed abd_step replica_session ?z"
    by (simp add: replica_session_def replica_steps abd_allowed_def)
       (simp add: abd_at_def tag1_def tag2_def tagged_default_def i64_max_def)
  obtain answers s where run: "topic_run abd_step replica_session ?z = (answers, s)" by fastforce
  have last: "last_value replica_session answers 0 = 3" and s: "s = abd_at [tag1, tag2, tag2] [True, False, True] 8"
    using run by (auto simp: replica_session_def replica_steps Let_def committed_write_def arg_simps)
  have "served_value (fst (abd_step s ''read'' [])) \<in> {None, Some 3}"
    using register_is_atomic [OF n _ ok run] last by simp
  moreover have "served_value (fst (abd_step s ''read'' [])) \<noteq> None" by (simp only: s replica_steps) simp
  ultimately show ?thesis using last by (simp add: run)
qed

section \<open>A chain that closes up reorders\<close>

definition chain_at :: "int option list \<Rightarrow> (string \<times> int) list list \<Rightarrow> bool list \<Rightarrow> chain_nodes" where
  "chain_at vs ps alive =
     map (\<lambda>(v, p, a). \<lparr>lk_applied = (case v of None \<Rightarrow> [] | Some x \<Rightarrow> [(''k'', x)]), lk_pending = p, lk_alive = a\<rparr>) (zip vs (zip ps alive))"

text \<open>The node that fails owes an update that is older than the one its predecessor holds, and it is sent after it:
  the tail ends on the older value, and the head on the newer one.\<close>

definition reordering :: "(string \<times> string list) list" where
  "reordering =
     [(''write'', [''k'', ''1'']), (''propagate'', []), (''write'', [''k'', ''2'']), (''fail'', [''1'']), (''propagate'', [])]"

lemma reordering_steps:
  "snd (chain_step [] ''init'' [''3'']) = chain_at [None, None, None] [[], [], []] [True, True, True]"
  "snd (chain_step (chain_at [None, None, None] [[], [], []] [True, True, True]) ''write'' [''k'', ''1'']) =
     chain_at [Some 1, None, None] [[(''k'', 1)], [], []] [True, True, True]"
  "snd (chain_step (chain_at [Some 1, None, None] [[(''k'', 1)], [], []] [True, True, True]) ''propagate'' []) =
     chain_at [Some 1, Some 1, None] [[], [(''k'', 1)], []] [True, True, True]"
  "snd (chain_step (chain_at [Some 1, Some 1, None] [[], [(''k'', 1)], []] [True, True, True]) ''write'' [''k'', ''2'']) =
     chain_at [Some 2, Some 1, None] [[(''k'', 2)], [(''k'', 1)], []] [True, True, True]"
  "snd (chain_step (chain_at [Some 2, Some 1, None] [[(''k'', 2)], [(''k'', 1)], []] [True, True, True]) ''fail'' [''1'']) =
     chain_at [Some 2, Some 1, None] [[(''k'', 2), (''k'', 1)], [], []] [True, False, True]"
  "snd (chain_step (chain_at [Some 2, Some 1, None] [[(''k'', 2), (''k'', 1)], [], []] [True, False, True]) ''propagate'' []) =
     chain_at [Some 2, Some 1, Some 1] [[], [], []] [True, False, True]"
  by (simp_all add: chain_step_def ch_init_def ch_write_def ch_propagate_def ch_fail_def ch_close_up_def ch_head_def ch_tail_def
      ch_live_def chain_at_def take_update_def hop_def arg_simps upto3 numeral_3_eq_3 find_first_def Let_def)

theorem chain_failure_reorders:
  "let s = snd (topic_run chain_step reordering (snd (chain_step [] ''init'' [''3''])))
   in ch_head s = Some 0 \<and> ch_tail s = Some 2 \<and> ch_value ''k'' (s ! 0) = 2 \<and> ch_value ''k'' (s ! 2) = 1 \<and>
      list_all (\<lambda>n. lk_pending n = []) s"
proof -
  have "snd (topic_run chain_step reordering (snd (chain_step [] ''init'' [''3'']))) =
      chain_at [Some 2, Some 1, Some 1] [[], [], []] [True, False, True]"
    unfolding reordering_def reordering_steps(1) topic_run_Cons reordering_steps by simp
  then show ?thesis
    by (simp add: ch_head_def ch_tail_def ch_live_def chain_at_def ch_value_def upto3 numeral_3_eq_3)
qed

section \<open>Reads by a quorum's leave\<close>

text \<open>What a leader may promise: a read it serves has a majority it has heard from and sees every committed entry.\<close>

lemma read_index_served:
  "rr_read_index s = JObj ((''ok'', JBool True) # (''served'', JBool True) # rest) \<Longrightarrow>
     rr_leader s \<noteq> None \<and> rr_reachable s \<ge> rr_quorum s \<and> rr_applied s \<ge> rr_commit_index s"
  by (auto simp: rr_read_index_def not_served_def split: if_splits)

text \<open>The count is of the nodes that are not cut off, so a leader that is cut off itself is served all the same.\<close>

theorem isolated_leader_serves:
  "let s = snd (topic_run raft_reads_step [(''init'', [''3'']), (''partition'', [''0''])] rr_default)
   in rr_leader s = Some 0 \<and> rr_partitioned s ! 0 \<and>
      rr_read_index s = JObj [(''ok'', JBool True), (''served'', JBool True), (''read_index'', JInt 0), (''applied'', JInt 0)]"
  by (simp add: raft_reads_step_def rr_init_def rr_cut_def rr_read_index_def rr_reachable_def rr_quorum_def arg_simps upto3
      numeral_3_eq_3 Let_def split_beta)

end
