(* ===== verification/Clocks.thy ===== *)
theory Clocks
  imports Oracle_Laws "HOL-Library.Product_Lexorder"
begin

text \<open>
  Clocks, as \<^verbatim>\<open>disttest/examples/prim/clocks.rs\<close> plays them: Lamport clocks, vector clocks, version
  vectors and hybrid logical clocks. The order of vectors is the one of \<open>Oracles\<close>; it is shown
  to be the order of causes. Additions wrap around at 64 bits, as in a release build.
\<close>

section \<open>Shared helpers\<close>

definition clock_json :: "clock \<Rightarrow> json" where
  "clock_json c = JObj (map (\<lambda>(k, v). (k, JInt v)) c)"

fun clock_entries :: "(string \<times> json) list \<Rightarrow> clock \<Rightarrow> json + clock" where
  "clock_entries [] out = Inr out"
| "clock_entries ((name, n) # es) out =
     (case json_i64 n of
        Some k \<Rightarrow> clock_entries es (btree_insert name k out)
      | None \<Rightarrow> Inl (reply_err (name @ '' does not hold a whole number'')))"

definition clock_arg :: "json_parser \<Rightarrow> string list \<Rightarrow> nat \<Rightarrow> json + clock" where
  "clock_arg parse args i =
     sum_bind (json_arg parse args i) (\<lambda>v.
     case v of
       JObj m \<Rightarrow> clock_entries m []
     | _ \<Rightarrow> Inl (reply_err (''argument '' @ show_nat i @ '' is not a clock object'')))"

fun merge_into :: "clock \<Rightarrow> clock \<Rightarrow> clock" where
  "merge_into into [] = into"
| "merge_into into ((name, n) # other) = merge_into (btree_insert name (max (tick_of into name) n) into) other"

text \<open>\<open>*clock.entry(p).or_insert(0) += 1\<close>\<close>

definition count_up :: "string \<Rightarrow> clock \<Rightarrow> clock" where
  "count_up p c = btree_insert p (add_i64 (tick_of c p) 1) c"

definition clock_relation :: "clock \<Rightarrow> clock \<Rightarrow> string" where
  "clock_relation a b =
     (case compare_loop a b (True, True) (map fst a @ map fst b) of
        (True, True) \<Rightarrow> ''equal''
      | (True, False) \<Rightarrow> ''before''
      | (False, True) \<Rightarrow> ''after''
      | (False, False) \<Rightarrow> ''concurrent'')"

section \<open>Lamport clocks\<close>

type_synonym lamport = clock

definition ts_json :: "int \<Rightarrow> json" where
  "ts_json t = JObj [(''ts'', JInt t)]"

definition lm_tick :: "string list \<Rightarrow> lamport \<Rightarrow> json \<times> lamport" where
  "lm_tick args s =
     with_arg (word_arg args 0) (\<lambda>p.
       (let s' = count_up p s in (ts_json (tick_of s' p), s'))) s"

definition lm_recv :: "string list \<Rightarrow> lamport \<Rightarrow> json \<times> lamport" where
  "lm_recv args s =
     with_arg (word_arg args 0) (\<lambda>p. with_arg (int_arg args 1) (\<lambda>ts.
       (let s' = btree_insert p (add_i64 (max (tick_of s p) ts) 1) s in (ts_json (tick_of s' p), s'))) s) s"

definition lm_get :: "string list \<Rightarrow> lamport \<Rightarrow> json \<times> lamport" where
  "lm_get args s = with_arg (word_arg args 0) (\<lambda>p. (ts_json (tick_of s p), s)) s"

definition lamport_step :: "lamport \<Rightarrow> string \<Rightarrow> string list \<Rightarrow> json \<times> lamport" where
  "lamport_step s command args =
     (if command = ''local'' \<or> command = ''send'' then lm_tick args s
      else if command = ''recv'' then lm_recv args s
      else if command = ''get'' then lm_get args s
      else (unknown_command command, s))"

section \<open>Vector clocks\<close>

type_synonym vector_clocks = "(string \<times> clock) list"

definition own_clock :: "string \<Rightarrow> vector_clocks \<Rightarrow> clock" where
  "own_clock p s = (case map_of s p of Some c \<Rightarrow> c | None \<Rightarrow> [])"

definition vc_json :: "clock \<Rightarrow> json" where
  "vc_json c = JObj [(''vc'', clock_json c)]"

definition vc_tick :: "string \<Rightarrow> vector_clocks \<Rightarrow> json \<times> vector_clocks" where
  "vc_tick p s = (let vc = count_up p (own_clock p s) in (vc_json vc, btree_insert p vc s))"

definition vc_recv :: "json_parser \<Rightarrow> string list \<Rightarrow> vector_clocks \<Rightarrow> json \<times> vector_clocks" where
  "vc_recv parse args s =
     with_arg (word_arg args 0) (\<lambda>p. with_arg (clock_arg parse args 1) (\<lambda>msg.
       (let vc = count_up p (merge_into (own_clock p s) msg) in (vc_json vc, btree_insert p vc s))) s) s"

definition vc_get :: "string list \<Rightarrow> vector_clocks \<Rightarrow> json \<times> vector_clocks" where
  "vc_get args s =
     with_arg (word_arg args 0) (\<lambda>p. (vc_json (own_clock p s), btree_insert p (own_clock p s) s)) s"

definition vc_cmp :: "json_parser \<Rightarrow> string list \<Rightarrow> vector_clocks \<Rightarrow> json \<times> vector_clocks" where
  "vc_cmp parse args s =
     with_arg (clock_arg parse args 0) (\<lambda>a. with_arg (clock_arg parse args 1) (\<lambda>b.
       (JObj [(''rel'', JStr (clock_relation a b))], s)) s) s"

definition vector_clock_step :: "json_parser \<Rightarrow> vector_clocks \<Rightarrow> string \<Rightarrow> string list \<Rightarrow> json \<times> vector_clocks" where
  "vector_clock_step parse s command args =
     (if command = ''local'' \<or> command = ''send'' then with_arg (word_arg args 0) (\<lambda>p. vc_tick p s) s
      else if command = ''recv'' then vc_recv parse args s
      else if command = ''get'' then vc_get args s
      else if command = ''cmp'' then vc_cmp parse args s
      else (unknown_command command, s))"

section \<open>Version vectors\<close>

record sibling =
  sb_value :: string
  sb_vv :: clock

type_synonym siblings = "(string \<times> sibling list) list"
type_synonym version_vectors = "(string \<times> siblings) list"

definition normalize :: "sibling list \<Rightarrow> sibling list" where
  "normalize all =
     remdups_adj (sort_key (\<lambda>s. (sb_value s, sb_vv s))
       (filter (\<lambda>s. \<not> list_ex (\<lambda>t. clock_relation (sb_vv s) (sb_vv t) = ''before'') all) all))"

definition keys_at :: "string \<Rightarrow> version_vectors \<Rightarrow> siblings" where
  "keys_at replica s = (case map_of s replica of Some m \<Rightarrow> m | None \<Rightarrow> [])"

definition siblings_in :: "string \<Rightarrow> siblings \<Rightarrow> sibling list" where
  "siblings_in key m = (case map_of m key of Some xs \<Rightarrow> xs | None \<Rightarrow> [])"

text \<open>\<open>slot\<close> hands out a place in the map: what it holds, and the map with the place filled.\<close>

definition vv_slot :: "string \<Rightarrow> string \<Rightarrow> version_vectors \<Rightarrow> sibling list" where
  "vv_slot replica key s = siblings_in key (keys_at replica s)"

definition vv_fill :: "string \<Rightarrow> string \<Rightarrow> sibling list \<Rightarrow> version_vectors \<Rightarrow> version_vectors" where
  "vv_fill replica key xs s = btree_insert replica (btree_insert key xs (keys_at replica s)) s"

definition vv_write :: "string \<Rightarrow> string \<Rightarrow> string \<Rightarrow> clock \<Rightarrow> version_vectors \<Rightarrow> json \<times> version_vectors" where
  "vv_write replica key val vv s =
     (JObj [(''vv'', clock_json vv)],
      vv_fill replica key (normalize (vv_slot replica key s @ [\<lparr>sb_value = val, sb_vv = vv\<rparr>])) s)"

definition vv_put :: "string list \<Rightarrow> version_vectors \<Rightarrow> json \<times> version_vectors" where
  "vv_put args s =
     with_arg (word_arg args 0) (\<lambda>replica. with_arg (word_arg args 1) (\<lambda>key. with_arg (word_arg args 2) (\<lambda>val.
       (let vv = foldl (\<lambda>vv x. merge_into vv (sb_vv x)) [] (vv_slot replica key s)
        in vv_write replica key val (count_up replica vv) (vv_fill replica key (vv_slot replica key s) s))) s) s) s"

definition vv_put_ctx :: "json_parser \<Rightarrow> string list \<Rightarrow> version_vectors \<Rightarrow> json \<times> version_vectors" where
  "vv_put_ctx parse args s =
     with_arg (word_arg args 0) (\<lambda>replica. with_arg (word_arg args 1) (\<lambda>key. with_arg (word_arg args 2) (\<lambda>val.
       with_arg (clock_arg parse args 3) (\<lambda>vv. vv_write replica key val (count_up replica vv) s) s) s) s) s"

definition vv_read :: "string list \<Rightarrow> version_vectors \<Rightarrow> json \<times> version_vectors" where
  "vv_read args s =
     with_arg (word_arg args 0) (\<lambda>replica. with_arg (word_arg args 1) (\<lambda>key.
       (let xs = normalize (vv_slot replica key s)
        in (JObj [(''siblings'', JArr (map (\<lambda>x. JObj [(''value'', JStr (sb_value x)), (''vv'', clock_json (sb_vv x))]) xs))],
            vv_fill replica key xs s))) s) s"

definition merge_siblings :: "siblings \<Rightarrow> siblings \<Rightarrow> siblings" where
  "merge_siblings left right =
     foldl (\<lambda>merged key. btree_insert key (normalize (siblings_in key left @ siblings_in key right)) merged) []
       (remdups_adj (sort (map fst left @ map fst right)))"

definition vv_sync :: "string list \<Rightarrow> version_vectors \<Rightarrow> json \<times> version_vectors" where
  "vv_sync args s =
     with_arg (word_arg args 0) (\<lambda>a. with_arg (word_arg args 1) (\<lambda>b.
       (let merged = merge_siblings (keys_at a s) (keys_at b s)
        in (JObj [(''ok'', JBool True)], btree_insert b merged (btree_insert a merged s)))) s) s"

definition version_vector_step :: "json_parser \<Rightarrow> version_vectors \<Rightarrow> string \<Rightarrow> string list \<Rightarrow> json \<times> version_vectors" where
  "version_vector_step parse s command args =
     (if command = ''put'' then vv_put args s
      else if command = ''put-ctx'' then vv_put_ctx parse args s
      else if command = ''read'' then vv_read args s
      else if command = ''sync'' then vv_sync args s
      else (unknown_command command, s))"

section \<open>Hybrid logical clocks\<close>

type_synonym hlc = "(string \<times> (int \<times> int)) list"

definition hlc_of :: "string \<Rightarrow> hlc \<Rightarrow> int \<times> int" where
  "hlc_of p s = (case map_of s p of Some lc \<Rightarrow> lc | None \<Rightarrow> (0, 0))"

definition hlc_json :: "int \<times> int \<Rightarrow> json" where
  "hlc_json lc = JObj [(''l'', JInt (fst lc)), (''c'', JInt (snd lc))]"

definition hlc_tick :: "int \<Rightarrow> int \<times> int \<Rightarrow> int \<times> int" where
  "hlc_tick wall = (\<lambda>(lo, co). let l = max lo wall in (l, if l = lo then add_i64 co 1 else 0))"

definition hlc_merge :: "int \<Rightarrow> int \<Rightarrow> int \<Rightarrow> int \<times> int \<Rightarrow> int \<times> int" where
  "hlc_merge wall lm cm = (\<lambda>(lo, co).
     (let l = max (max lo lm) wall
      in (l, if l = lo \<and> l = lm then add_i64 (max co cm) 1
             else if l = lo then add_i64 co 1
             else if l = lm then add_i64 cm 1
             else 0)))"

definition hlc_now :: "string list \<Rightarrow> hlc \<Rightarrow> json \<times> hlc" where
  "hlc_now args s =
     with_arg (word_arg args 0) (\<lambda>p. with_arg (int_arg args 1) (\<lambda>wall.
       (let lc = hlc_tick wall (hlc_of p s) in (hlc_json lc, btree_insert p lc s))) s) s"

definition hlc_recv :: "string list \<Rightarrow> hlc \<Rightarrow> json \<times> hlc" where
  "hlc_recv args s =
     with_arg (word_arg args 0) (\<lambda>p.
       with_arg (int_arg args 1) (\<lambda>wall. with_arg (int_arg args 2) (\<lambda>lm. with_arg (int_arg args 3) (\<lambda>cm.
         (let lc = hlc_merge wall lm cm (hlc_of p s) in (hlc_json lc, btree_insert p lc s))) s) s) s) s"

definition hlc_get :: "string list \<Rightarrow> hlc \<Rightarrow> json \<times> hlc" where
  "hlc_get args s = with_arg (word_arg args 0) (\<lambda>p. (hlc_json (hlc_of p s), s)) s"

definition hlc_step :: "hlc \<Rightarrow> string \<Rightarrow> string list \<Rightarrow> json \<times> hlc" where
  "hlc_step s command args =
     (if command = ''now'' then hlc_now args s
      else if command = ''recv'' then hlc_recv args s
      else if command = ''get'' then hlc_get args s
      else (unknown_command command, s))"

section \<open>The order of clocks\<close>

lemma all_keys_le: "(\<forall>k \<in> set (map fst a @ map fst b). tick_of a k \<le> tick_of b k) \<longleftrightarrow> clock_le a b"
proof -
  have "set (clock_keys a b) = set (map fst a @ map fst b)" by (auto simp: clock_keys_def)
  then show ?thesis using clock_keys_le [of a b] by simp
qed

lemma all_keys_ge: "(\<forall>k \<in> set (map fst a @ map fst b). tick_of b k \<le> tick_of a k) \<longleftrightarrow> clock_le b a"
proof -
  have "set (clock_keys a b) = set (map fst a @ map fst b)" by (auto simp: clock_keys_def)
  then show ?thesis using clock_keys_ge [of b a] by simp
qed

lemma clock_relation_le:
  "clock_relation a b =
     (if clock_le a b then (if clock_le b a then ''equal'' else ''before'')
      else if clock_le b a then ''after'' else ''concurrent'')"
  unfolding clock_relation_def compare_loop_spec all_keys_le all_keys_ge by simp

text \<open>The reference program and the oracle of the tester compare clocks alike.\<close>

theorem relation_is_the_oracle: "clock_relation a b = relation_text (compare_clocks a b)"
proof -
  have "compare_clocks a b =
      (if clock_le a b then (if clock_le b a then Rel_Equal else Rel_Before)
       else if clock_le b a then Rel_After else Rel_Concurrent)"
    unfolding compare_clocks_def compare_loop_spec clock_keys_le [of a b, symmetric] clock_keys_ge [of b a, symmetric]
    by (simp split: bool.split)
  then show ?thesis by (simp add: clock_relation_le)
qed

lemma clock_le_trans: "clock_le a b \<Longrightarrow> clock_le b c \<Longrightarrow> clock_le a c"
  unfolding clock_le_def by (meson order_trans)

lemma tick_of_Nil [simp]: "tick_of [] k = 0"
  by (simp add: tick_of_def)

lemma tick_of_merge:
  "distinct (map fst other) \<Longrightarrow>
   tick_of (merge_into into other) k = (if k \<in> fst ` set other then max (tick_of into k) (tick_of other k) else tick_of into k)"
proof (induction other arbitrary: into)
  case (Cons x other)
  obtain name n where x: "x = (name, n)" by fastforce
  show ?case using Cons by (auto simp: x tick_of_def [of "(name, n) # other"] tick_of_def [of other])
qed simp

lemma tick_of_merge_max:
  "distinct (map fst other) \<Longrightarrow> \<forall>k. 0 \<le> tick_of into k \<Longrightarrow> tick_of (merge_into into other) k = max (tick_of into k) (tick_of other k)"
  by (simp add: tick_of_merge tick_of_def [of other] map_of_eq_None_iff [THEN iffD2])

lemma btree_ok_merge: "btree_ok into \<Longrightarrow> btree_ok (merge_into into other)"
  by (induction into other rule: merge_into.induct) simp_all

section \<open>The order of causes\<close>

text \<open>An event of a process, and the event whose clock its message carried.\<close>

record event =
  ev_proc :: string
  ev_cause :: "nat option"

inductive happens_before :: "'a event_scheme list \<Rightarrow> nat \<Rightarrow> nat \<Rightarrow> bool" for es where
  hb_process: "i < j \<Longrightarrow> j < length es \<Longrightarrow> ev_proc (es ! i) = ev_proc (es ! j) \<Longrightarrow> happens_before es i j"
| hb_message: "i < j \<Longrightarrow> j < length es \<Longrightarrow> ev_cause (es ! j) = Some i \<Longrightarrow> happens_before es i j"
| hb_trans: "happens_before es i j \<Longrightarrow> happens_before es j k \<Longrightarrow> happens_before es i k"

lemma hb_later: "happens_before es i j \<Longrightarrow> i < j \<and> j < length es"
  by (induction rule: happens_before.induct) auto

lemma hb_more: "happens_before es i j \<Longrightarrow> happens_before (es @ [e]) i j"
proof (induction rule: happens_before.induct)
  case (hb_process i j)
  then show ?case by (intro happens_before.hb_process) (simp_all add: nth_append)
next
  case (hb_message i j)
  then show ?case by (intro happens_before.hb_message) (simp_all add: nth_append)
next
  case (hb_trans i j k)
  then show ?case by (blast intro: happens_before.hb_trans)
qed

section \<open>Lamport clocks respect it\<close>

record lm_event = event +
  ev_ts :: int

inductive lm_run :: "lamport \<Rightarrow> lm_event list \<Rightarrow> bool" where
  lm_start: "lm_run [] []"
| lm_event: "lm_run s es \<Longrightarrow> command \<in> {''local'', ''send''} \<Longrightarrow> lamport_step s command (p # args) = (ts_json t, s') \<Longrightarrow>
    lm_run s' (es @ [\<lparr>ev_proc = p, ev_cause = None, ev_ts = t\<rparr>])"
| lm_message: "lm_run s es \<Longrightarrow> k < length es \<Longrightarrow> parse_i64 raw = Some (ev_ts (es ! k)) \<Longrightarrow>
    lamport_step s ''recv'' (p # raw # args) = (ts_json t, s') \<Longrightarrow>
    lm_run s' (es @ [\<lparr>ev_proc = p, ev_cause = Some k, ev_ts = t\<rparr>])"
| lm_look: "lm_run s es \<Longrightarrow> command \<notin> {''local'', ''send'', ''recv''} \<Longrightarrow> lm_run (snd (lamport_step s command args)) es"

definition lm_inv :: "lamport \<Rightarrow> lm_event list \<Rightarrow> bool" where
  "lm_inv s es \<longleftrightarrow> (\<forall>p. 0 \<le> tick_of s p \<and> tick_of s p \<le> int (length es)) \<and>
     (\<forall>i < length es. ev_ts (es ! i) \<le> tick_of s (ev_proc (es ! i)) \<and> 0 < ev_ts (es ! i)) \<and>
     (\<forall>i j. i < j \<and> j < length es \<and> (ev_proc (es ! i) = ev_proc (es ! j) \<or> ev_cause (es ! j) = Some i) \<longrightarrow>
        ev_ts (es ! i) < ev_ts (es ! j))"

lemma lm_new_event:
  assumes inv: "lm_inv s es" and t: "t = max (tick_of s p) m + 1"
    and m: "m = (case c of None \<Rightarrow> 0 | Some i \<Rightarrow> ev_ts (es ! i))" "\<And>i. c = Some i \<Longrightarrow> i < length es"
  shows "lm_inv (btree_insert p t s) (es @ [\<lparr>ev_proc = p, ev_cause = c, ev_ts = t\<rparr>])"
proof -
  have s: "\<And>q. 0 \<le> tick_of s q \<and> tick_of s q \<le> int (length es)"
      "\<And>i. i < length es \<Longrightarrow> ev_ts (es ! i) \<le> tick_of s (ev_proc (es ! i)) \<and> 0 < ev_ts (es ! i)"
      "\<And>i j. i < j \<Longrightarrow> j < length es \<Longrightarrow> ev_proc (es ! i) = ev_proc (es ! j) \<or> ev_cause (es ! j) = Some i \<Longrightarrow> ev_ts (es ! i) < ev_ts (es ! j)"
    using inv unfolding lm_inv_def by blast+
  have "m \<le> int (length es)"
  proof (cases c)
    case (Some i)
    then show ?thesis using m(1) s(2) [OF m(2) [OF Some]] s(1) [of "ev_proc (es ! i)"] by simp
  qed (simp add: m(1))
  then have pos: "0 < t" "t \<le> int (length es) + 1" "tick_of s p < t" using t s(1) [of p] by auto
  have each: "ev_ts (es ! i) < t" if "i < length es" "ev_proc (es ! i) = p \<or> c = Some i" for i
    using that s(2) [OF that(1)] pos(3) t m(1) by auto
  have low: "tick_of s q \<le> 1 + int (length es)" for q using s(1) [of q] by linarith
  have mine: "ev_ts (es ! i) \<le> t" if "i < length es" "ev_proc (es ! i) = p" for i
    using each that by (simp add: less_imp_le)
  show ?thesis
    unfolding lm_inv_def
    by (intro conjI allI impI)
       (use s pos each low mine in \<open>auto simp: nth_append less_Suc_eq\<close>)
qed

lemma lm_run_inv: "lm_run s es \<Longrightarrow> int (length es) < i64_max \<Longrightarrow> lm_inv s es"
proof (induction rule: lm_run.induct)
  case lm_start
  show ?case by (simp add: lm_inv_def)
next
  case (lm_event s es command p args t s')
  then have inv: "lm_inv s es" by simp
  then have "0 \<le> tick_of s p" "tick_of s p \<le> int (length es)" by (simp_all add: lm_inv_def)
  moreover have "lm_tick (p # args) s = (ts_json t, s')" using lm_event.hyps(2,3) by (auto simp: lamport_step_def)
  ultimately have "t = max (tick_of s p) 0 + 1 \<and> s' = btree_insert p t s"
    using lm_event.prems
    by (auto simp: lm_tick_def ts_json_def count_up_def add_i64_def wrap_i64_in in_i64_def i64_min_def word_arg_def arg_def ok_or_def Let_def)
  then show ?case using lm_new_event [OF inv, of t p 0 None] by simp
next
  case (lm_message s es k raw p args t s')
  then have inv: "lm_inv s es" by simp
  then have tick: "0 \<le> tick_of s p" "tick_of s p \<le> int (length es)" by (simp_all add: lm_inv_def)
  have "ev_ts (es ! k) \<le> tick_of s (ev_proc (es ! k))" "tick_of s (ev_proc (es ! k)) \<le> int (length es)"
    using inv lm_message.hyps(2) by (auto simp: lm_inv_def)
  then have "ev_ts (es ! k) \<le> int (length es)" by linarith
  then have "add_i64 (max (tick_of s p) (ev_ts (es ! k))) 1 = max (tick_of s p) (ev_ts (es ! k)) + 1"
    using tick lm_message.prems by (auto simp: add_i64_def wrap_i64_in in_i64_def i64_min_def)
  moreover have "lm_recv (p # raw # args) s = (ts_json t, s')" using lm_message.hyps(4) by (simp add: lamport_step_def)
  ultimately have "t = max (tick_of s p) (ev_ts (es ! k)) + 1 \<and> s' = btree_insert p t s"
    using lm_message.hyps(3) by (auto simp: lm_recv_def ts_json_def int_arg_def word_arg_def arg_def ok_or_def Let_def)
  then show ?case using lm_new_event [OF inv, of t p _ "Some k"] lm_message.hyps(2) by simp
next
  case (lm_look s es command args)
  have "snd (lamport_step s command args) = s"
    using lm_look.hyps(2) by (simp add: lamport_step_def lm_get_def with_arg_def split: sum.split)
  then show ?case using lm_look by simp
qed

text \<open>The clock condition: an effect has a later time than its cause.\<close>

theorem lamport_respects_causes:
  assumes "lm_run s es" "int (length es) < i64_max" "happens_before es i j"
  shows "ev_ts (es ! i) < ev_ts (es ! j)"
proof -
  have "lm_inv s es" using lm_run_inv assms(1,2) by blast
  with assms(3) show ?thesis
  proof (induction rule: happens_before.induct)
    case (hb_trans i j k)
    then show ?case by simp
  qed (simp_all add: lm_inv_def)
qed

section \<open>Vector clocks are the order of causes\<close>

record vc_event = event +
  ev_clock :: clock

text \<open>
  Runs of the topic: events happen one after another; a \<open>recv\<close> is handed, as JSON, the clock some earlier event was answered with.
\<close>

inductive vc_run :: "json_parser \<Rightarrow> vector_clocks \<Rightarrow> vc_event list \<Rightarrow> bool" for parse where
  vc_start: "vc_run parse [] []"
| vc_event: "vc_run parse s es \<Longrightarrow> command \<in> {''local'', ''send''} \<Longrightarrow>
    vector_clock_step parse s command (p # args) = (vc_json v, s') \<Longrightarrow>
    vc_run parse s' (es @ [\<lparr>ev_proc = p, ev_cause = None, ev_clock = v\<rparr>])"
| vc_message: "vc_run parse s es \<Longrightarrow> k < length es \<Longrightarrow> parse raw = Inr (clock_json (ev_clock (es ! k))) \<Longrightarrow>
    vector_clock_step parse s ''recv'' (p # raw # args) = (vc_json v, s') \<Longrightarrow>
    vc_run parse s' (es @ [\<lparr>ev_proc = p, ev_cause = Some k, ev_clock = v\<rparr>])"
| vc_look: "vc_run parse s es \<Longrightarrow> command \<notin> {''local'', ''send'', ''recv''} \<Longrightarrow>
    vc_run parse (snd (vector_clock_step parse s command args)) es"

abbreviation ev_tick :: "vc_event list \<Rightarrow> nat \<Rightarrow> string \<Rightarrow> int" where
  "ev_tick es i p \<equiv> tick_of (ev_clock (es ! i)) p"

definition events_of :: "string \<Rightarrow> vc_event list \<Rightarrow> nat" where
  "events_of p es = length (filter (\<lambda>e. ev_proc e = p) es)"

text \<open>
  The clock a process holds is the one of its last event; a component never exceeds the number of events of its
  process; clocks grow along a process and along messages; and each value of a component was taken by an event in the past.
\<close>

definition clock_current :: "string \<Rightarrow> clock \<Rightarrow> vc_event list \<Rightarrow> bool" where
  "clock_current p c es \<longleftrightarrow> btree_ok c \<and> tick_of c p = int (events_of p es) \<and>
     ((\<forall>k. tick_of c k = 0) \<and> events_of p es = 0 \<or>
      (\<exists>i < length es. ev_proc (es ! i) = p \<and> ev_clock (es ! i) = c \<and> (\<forall>j < length es. ev_proc (es ! j) = p \<longrightarrow> j \<le> i)))"

definition edges_grow :: "vc_event list \<Rightarrow> bool" where
  "edges_grow es \<longleftrightarrow> (\<forall>i j. i < j \<and> j < length es \<and> (ev_proc (es ! i) = ev_proc (es ! j) \<or> ev_cause (es ! j) = Some i) \<longrightarrow>
     clock_le (ev_clock (es ! i)) (ev_clock (es ! j)) \<and> ev_tick es i (ev_proc (es ! j)) < ev_tick es j (ev_proc (es ! j)))"

definition taken_in_past :: "vc_event list \<Rightarrow> bool" where
  "taken_in_past es \<longleftrightarrow> (\<forall>j < length es. \<forall>p n. 0 < n \<and> n \<le> ev_tick es j p \<longrightarrow>
     (\<exists>i. ev_proc (es ! i) = p \<and> ev_tick es i p = n \<and> (i = j \<or> happens_before es i j)))"

definition bounded_ticks :: "vc_event list \<Rightarrow> bool" where
  "bounded_ticks es \<longleftrightarrow> (\<forall>i < length es. btree_ok (ev_clock (es ! i)) \<and> 0 < ev_tick es i (ev_proc (es ! i)) \<and>
     (\<forall>p. 0 \<le> ev_tick es i p \<and> ev_tick es i p \<le> int (events_of p es)))"

definition vc_inv :: "vector_clocks \<Rightarrow> vc_event list \<Rightarrow> bool" where
  "vc_inv s es \<longleftrightarrow> (\<forall>p. clock_current p (own_clock p s) es) \<and> edges_grow es \<and> taken_in_past es \<and> bounded_ticks es"

lemma own_clock_insert [simp]: "own_clock q (btree_insert p c s) = (if q = p then c else own_clock q s)"
  by (simp add: own_clock_def)

lemma events_of_snoc [simp]: "events_of q (es @ [e]) = events_of q es + (if ev_proc e = q then 1 else 0)"
  by (simp add: events_of_def)

lemma current_cases:
  assumes "clock_current p c es"
  obtains "\<And>k. tick_of c k = 0" "events_of p es = 0"
  | l where "l < length es" "ev_proc (es ! l) = p" "ev_clock (es ! l) = c" "\<And>j. j < length es \<Longrightarrow> ev_proc (es ! j) = p \<Longrightarrow> j \<le> l"
proof -
  have "(\<forall>k. tick_of c k = 0) \<and> events_of p es = 0 \<or>
      (\<exists>i < length es. ev_proc (es ! i) = p \<and> ev_clock (es ! i) = c \<and> (\<forall>j < length es. ev_proc (es ! j) = p \<longrightarrow> j \<le> i))"
    using assms by (simp add: clock_current_def)
  then show ?thesis using that by (elim disjE exE conjE) simp_all
qed

lemma current_bounds:
  assumes "clock_current p c es" "bounded_ticks es"
  shows "0 \<le> tick_of c k \<and> tick_of c k \<le> int (events_of k es)"
  using assms by (auto simp: clock_current_def bounded_ticks_def)

text \<open>One more event: what it takes over from the clock \<open>c\<close> of its process and the clock \<open>m\<close> of its message, and one more of its own.\<close>

lemma new_event_current:
  assumes "clock_current q (own_clock q s) es" "btree_ok v" "tick_of v p = int (events_of p es) + 1"
  shows "clock_current q (own_clock q (btree_insert p v s)) (es @ [\<lparr>ev_proc = p, ev_cause = m, ev_clock = v\<rparr>])"
proof (cases "q = p")
  case True
  then show ?thesis using assms(2,3) unfolding clock_current_def by (auto intro!: exI [of _ "length es"])
next
  case False
  let ?e = "\<lparr>ev_proc = p, ev_cause = m, ev_clock = v\<rparr>"
  from assms(1) show ?thesis
  proof (cases rule: current_cases)
    case 1
    then show ?thesis using assms(1) False by (simp add: clock_current_def)
  next
    case (2 i)
    have "j \<le> i" if "j < length (es @ [?e])" "ev_proc ((es @ [?e]) ! j) = q" for j
      using that 2(4) False by (cases "j < length es") (auto simp: nth_append)
    moreover have "i < length (es @ [?e])" "ev_proc ((es @ [?e]) ! i) = q" "ev_clock ((es @ [?e]) ! i) = own_clock q s"
      using 2(1-3) by (simp_all add: nth_append)
    ultimately show ?thesis using assms(1) False unfolding clock_current_def by auto
  qed
qed

lemma events_of_pos: "i < length es \<Longrightarrow> ev_proc (es ! i) = p \<Longrightarrow> 0 < events_of p es"
  by (auto simp: events_of_def filter_empty_conv)

lemma event_below_current:
  assumes "clock_current p c es" "edges_grow es" "i < length es" "ev_proc (es ! i) = p"
  shows "clock_le (ev_clock (es ! i)) c"
  using assms(1)
proof (cases rule: current_cases)
  case 1
  then show ?thesis using events_of_pos [OF assms(3,4)] by simp
next
  case (2 l)
  then have "i \<le> l" using assms(3,4) by blast
  then show ?thesis
    using assms(2) 2(1-3) assms(4) unfolding edges_grow_def by (cases "i = l") (auto simp: clock_le_def)
qed

text \<open>What the new clock is: its own component counts the event, the others are the greater of the two clocks.\<close>

definition next_clock :: "string \<Rightarrow> clock \<Rightarrow> clock \<Rightarrow> vc_event list \<Rightarrow> clock \<Rightarrow> bool" where
  "next_clock p c m es v \<longleftrightarrow> btree_ok v \<and>
     (\<forall>k. tick_of v k = (if k = p then int (events_of p es) + 1 else max (tick_of c k) (tick_of m k)))"

definition message_of :: "nat option \<Rightarrow> vc_event list \<Rightarrow> clock" where
  "message_of m es = (case m of None \<Rightarrow> [] | Some i \<Rightarrow> ev_clock (es ! i))"

lemma new_event_edges:
  assumes c: "clock_current p c es" and grow: "edges_grow es" and bounded: "bounded_ticks es"
    and v: "next_clock p c (message_of m es) es v"
  shows "edges_grow (es @ [\<lparr>ev_proc = p, ev_cause = m, ev_clock = v\<rparr>])"
  unfolding edges_grow_def
proof (intro allI impI, elim conjE)
  fix i j
  let ?e = "\<lparr>ev_proc = p, ev_cause = m, ev_clock = v\<rparr>" and ?n = "length es"
  assume ij: "i < j" "j < length (es @ [?e])" and edge: "ev_proc ((es @ [?e]) ! i) = ev_proc ((es @ [?e]) ! j) \<or> ev_cause ((es @ [?e]) ! j) = Some i"
  show "clock_le (ev_clock ((es @ [?e]) ! i)) (ev_clock ((es @ [?e]) ! j)) \<and>
      ev_tick (es @ [?e]) i (ev_proc ((es @ [?e]) ! j)) < ev_tick (es @ [?e]) j (ev_proc ((es @ [?e]) ! j))"
  proof (cases "j < ?n")
    case True
    then have same: "(es @ [?e]) ! i = es ! i" "(es @ [?e]) ! j = es ! j" using ij(1) by (simp_all add: nth_append)
    then show ?thesis using grow ij(1) True edge unfolding edges_grow_def same by blast
  next
    case False
    then have j: "j = ?n" "i < ?n" using ij by simp_all
    have le: "ev_tick es i p \<le> int (events_of p es)" "tick_of c p = int (events_of p es)"
      using bounded j(2) c unfolding bounded_ticks_def clock_current_def by blast+
    have "ev_tick es i k \<le> tick_of v k" for k
    proof (cases "ev_proc (es ! i) = p")
      case True
      then have "ev_tick es i k \<le> tick_of c k" using event_below_current [OF c grow j(2)] unfolding clock_le_def by blast
      then show ?thesis using v le unfolding next_clock_def by auto
    next
      case False
      then have "m = Some i" using edge j by (simp add: nth_append)
      then show ?thesis using v le unfolding next_clock_def message_of_def by auto
    qed
    moreover have "ev_tick es i p < tick_of v p" using v le unfolding next_clock_def by auto
    ultimately show ?thesis using j by (simp add: nth_append clock_le_def)
  qed
qed

lemma new_event_bounded:
  assumes c: "clock_current p c es" and bounded: "bounded_ticks es" and m: "\<And>i. m = Some i \<Longrightarrow> i < length es"
    and v: "next_clock p c (message_of m es) es v"
  shows "bounded_ticks (es @ [\<lparr>ev_proc = p, ev_cause = m, ev_clock = v\<rparr>])"
proof -
  have msg: "0 \<le> tick_of (message_of m es) k \<and> tick_of (message_of m es) k \<le> int (events_of k es)" for k
    using bounded m unfolding bounded_ticks_def message_of_def by (cases m) auto
  have new: "0 \<le> tick_of v k \<and> tick_of v k \<le> int (events_of k es + (if p = k then 1 else 0))" for k
    using v msg [of k] current_bounds [OF c bounded, of k] unfolding next_clock_def by auto
  show ?thesis
    unfolding bounded_ticks_def
  proof (intro allI impI)
    fix i
    assume i: "i < length (es @ [\<lparr>ev_proc = p, ev_cause = m, ev_clock = v\<rparr>])"
    show "btree_ok (ev_clock ((es @ [\<lparr>ev_proc = p, ev_cause = m, ev_clock = v\<rparr>]) ! i)) \<and>
      0 < ev_tick (es @ [\<lparr>ev_proc = p, ev_cause = m, ev_clock = v\<rparr>]) i (ev_proc ((es @ [\<lparr>ev_proc = p, ev_cause = m, ev_clock = v\<rparr>]) ! i)) \<and>
      (\<forall>k. 0 \<le> ev_tick (es @ [\<lparr>ev_proc = p, ev_cause = m, ev_clock = v\<rparr>]) i k \<and>
         ev_tick (es @ [\<lparr>ev_proc = p, ev_cause = m, ev_clock = v\<rparr>]) i k \<le> int (events_of k (es @ [\<lparr>ev_proc = p, ev_cause = m, ev_clock = v\<rparr>])))"
    proof (cases "i < length es")
      case True
      then have "btree_ok (ev_clock (es ! i))" "0 < ev_tick es i (ev_proc (es ! i))" "\<And>k. 0 \<le> ev_tick es i k" "\<And>k. ev_tick es i k \<le> int (events_of k es)"
        using bounded unfolding bounded_ticks_def by blast+
      moreover have "ev_tick es i k \<le> int (events_of k es) + 1" for k by (rule order_trans [OF calculation(4)]) simp
      ultimately show ?thesis using True by (simp add: nth_append)
    next
      case False
      then have "i = length es" using i by simp
      moreover have "btree_ok v" "0 < tick_of v p" using v by (simp_all add: next_clock_def)
      ultimately show ?thesis using new by (simp only: nth_append_length event.simps vc_event.simps events_of_snoc) blast
    qed
  qed
qed

lemma new_event_taken:
  assumes c: "clock_current p c es" and taken: "taken_in_past es" and m: "\<And>i. m = Some i \<Longrightarrow> i < length es"
    and v: "next_clock p c (message_of m es) es v"
  shows "taken_in_past (es @ [\<lparr>ev_proc = p, ev_cause = m, ev_clock = v\<rparr>])"
  unfolding taken_in_past_def
proof (intro allI impI, elim conjE)
  fix j q n
  let ?e = "\<lparr>ev_proc = p, ev_cause = m, ev_clock = v\<rparr>"
  assume j: "j < length (es @ [?e])" and n: "0 < n" "n \<le> ev_tick (es @ [?e]) j q"
  have old: "\<exists>i < length es. ev_proc (es ! i) = q \<and> ev_tick es i q = n \<and> (i = l \<or> happens_before (es @ [?e]) i l)"
    if l: "l < length es" "n \<le> ev_tick es l q" for l
  proof -
    obtain i where i: "ev_proc (es ! i) = q" "ev_tick es i q = n" "i = l \<or> happens_before es i l"
      using taken l n(1) unfolding taken_in_past_def by blast
    then have "i < length es" using l(1) hb_later [of es i l] by auto
    then show ?thesis using i hb_more by blast
  qed
  have after: "\<exists>i. ev_proc ((es @ [?e]) ! i) = q \<and> ev_tick (es @ [?e]) i q = n \<and> (i = j \<or> happens_before (es @ [?e]) i j)" if l: "l < length es" "n \<le> ev_tick es l q" "happens_before (es @ [?e]) l (length es)" "j = length es" for l
  proof -
    obtain i where i: "i < length es" "ev_proc (es ! i) = q" "ev_tick es i q = n" "i = l \<or> happens_before (es @ [?e]) i l"
      using old [OF l(1,2)] by blast
    then have "happens_before (es @ [?e]) i j" using l(3,4) happens_before.hb_trans by blast
    then show ?thesis using i by (intro exI [of _ i]) (simp add: nth_append)
  qed
  show "\<exists>i. ev_proc ((es @ [?e]) ! i) = q \<and> ev_tick (es @ [?e]) i q = n \<and> (i = j \<or> happens_before (es @ [?e]) i j)"
  proof (cases "j < length es")
    case True
    then have "n \<le> ev_tick es j q" using n(2) by (simp add: nth_append)
    then obtain i where "i < length es" "ev_proc (es ! i) = q" "ev_tick es i q = n" "i = j \<or> happens_before (es @ [?e]) i j"
      using old [OF True] by blast
    then show ?thesis by (intro exI [of _ i]) (simp add: nth_append)
  next
    case False
    then have je: "j = length es" using j by simp
    then have nv: "n \<le> tick_of v q" using n(2) by simp
    consider "q = p" "n = int (events_of p es) + 1" | "n \<le> tick_of c q" | "n \<le> tick_of (message_of m es) q"
      using v nv c unfolding next_clock_def clock_current_def by (force split: if_splits)
    then show ?thesis
    proof cases
      case 1
      then show ?thesis using v je by (intro exI [of _ j]) (simp add: next_clock_def)
    next
      case 2
      obtain l where "l < length es" "ev_proc (es ! l) = p" "ev_clock (es ! l) = c"
        using c by (cases rule: current_cases) (use 2 n(1) in auto)
      then show ?thesis using 2 je by (intro after [of l]) (auto intro!: hb_process simp: nth_append)
    next
      case 3
      then obtain i where i: "m = Some i" using n(1) by (cases m) (auto simp: message_of_def)
      then show ?thesis using 3 m [OF i] je by (intro after [of i]) (auto intro!: hb_message simp: message_of_def nth_append)
    qed
  qed
qed

lemma new_event_inv:
  assumes "vc_inv s es" "\<And>i. m = Some i \<Longrightarrow> i < length es" "next_clock p (own_clock p s) (message_of m es) es v"
  shows "vc_inv (btree_insert p v s) (es @ [\<lparr>ev_proc = p, ev_cause = m, ev_clock = v\<rparr>])"
proof -
  have all: "\<And>q. clock_current q (own_clock q s) es" "edges_grow es" "taken_in_past es" "bounded_ticks es"
    using assms(1) by (simp_all add: vc_inv_def)
  have v: "btree_ok v" "tick_of v p = int (events_of p es) + 1" using assms(3) by (simp_all add: next_clock_def)
  show ?thesis
    unfolding vc_inv_def
    using new_event_current [OF all(1) v] new_event_edges [OF all(1,2,4) assms(3)] new_event_bounded [OF all(1,4) assms(2,3)]
      new_event_taken [OF all(1,3) assms(2,3)] by blast
qed

lemma clock_entries_json:
  "\<forall>(k, n) \<in> set c. in_i64 n \<Longrightarrow> clock_entries (map (\<lambda>(k, v). (k, JInt v)) c) out = Inr (foldl (\<lambda>out (k, n). btree_insert k n out) out c)"
  by (induction c arbitrary: out) (auto simp: json_i64_def)

lemma btree_insert_last: "\<forall>x \<in> fst ` set m. x < k \<Longrightarrow> btree_insert k v m = m @ [(k, v)]"
  by (induction m) auto

lemma rebuild_btree: "btree_ok (out @ c) \<Longrightarrow> foldl (\<lambda>out (k, n). btree_insert k n out) out c = out @ c"
proof (induction c arbitrary: out)
  case (Cons x c)
  obtain k n where x: "x = (k, n)" by fastforce
  have "\<forall>y \<in> fst ` set out. y < k" using Cons.prems by (auto simp: btree_ok_def sorted_wrt_append x)
  then show ?case using Cons by (simp add: x btree_insert_last)
qed simp

text \<open>A clock that is shipped is read back.\<close>

lemma clock_arg_json:
  assumes "args ! i = raw" "i < length args" "parse raw = Inr (clock_json c)" "btree_ok c" "\<forall>(k, n) \<in> set c. in_i64 n"
  shows "clock_arg parse args i = Inr c"
  using assms clock_entries_json [OF assms(5), of "[]"] rebuild_btree [of "[]" c]
  by (simp add: clock_arg_def json_arg_def word_arg_def arg_def ok_or_def clock_json_def)

lemma clock_in_i64:
  assumes "btree_ok c" "\<And>k. 0 \<le> tick_of c k" "\<And>k. tick_of c k \<le> int (events_of k es)" "int (length es) < i64_max"
  shows "\<forall>(k, n) \<in> set c. in_i64 n"
proof clarify
  fix k n
  assume "(k, n) \<in> set c"
  then have "tick_of c k = n" using btree_ok_distinct [OF assms(1)] by (simp add: tick_of_def)
  moreover have "events_of k es \<le> length es" by (simp add: events_of_def)
  ultimately show "in_i64 n" using assms(2,3) [of k] assms(4) by (simp add: in_i64_def i64_min_def)
qed

lemma clock_json_inj: "clock_json a = clock_json b \<longleftrightarrow> a = b"
  by (auto simp: clock_json_def inj_def intro: map_injective)

lemma count_up_next:
  assumes c: "clock_current p c es" and small: "int (length es) < i64_max" and ok: "btree_ok w"
    and w: "\<And>k. tick_of w k = max (tick_of c k) (tick_of m k)" and m: "tick_of m p \<le> int (events_of p es)"
  shows "next_clock p c m es (count_up p w)"
proof -
  have "tick_of w p = int (events_of p es)" using w [of p] c m by (simp add: clock_current_def)
  moreover have "events_of p es \<le> length es" by (simp add: events_of_def)
  ultimately have "add_i64 (tick_of w p) 1 = int (events_of p es) + 1"
    using small by (simp add: add_i64_def wrap_i64_in in_i64_def i64_min_def)
  then show ?thesis using ok w by (simp add: next_clock_def count_up_def)
qed

lemma own_clock_kept:
  "command \<notin> {''local'', ''send'', ''recv''} \<Longrightarrow> own_clock p (snd (vector_clock_step parse s command args)) = own_clock p s"
  by (auto simp: vector_clock_step_def vc_get_def vc_cmp_def with_arg_def split: sum.split)

lemma vc_run_inv: "vc_run parse s es \<Longrightarrow> int (length es) < i64_max \<Longrightarrow> vc_inv s es"
proof (induction rule: vc_run.induct)
  case vc_start
  show ?case
    by (simp add: vc_inv_def clock_current_def edges_grow_def taken_in_past_def bounded_ticks_def own_clock_def events_of_def)
next
  case (vc_event s es command p args v s')
  then have small: "int (length es) < i64_max" and inv: "vc_inv s es" by simp_all
  have c: "clock_current p (own_clock p s) es" and b: "bounded_ticks es" using inv by (simp_all add: vc_inv_def)
  have "vc_tick p s = (vc_json v, s')"
    using vc_event.hyps(2,3) by (auto simp: vector_clock_step_def word_arg_def arg_def ok_or_def)
  then have v: "v = count_up p (own_clock p s)" "s' = btree_insert p v s"
    by (auto simp: vc_tick_def vc_json_def clock_json_inj Let_def)
  have "next_clock p (own_clock p s) (message_of None es) es v"
    unfolding v by (rule count_up_next [OF c small]) (use c current_bounds [OF c b] in \<open>simp_all add: clock_current_def message_of_def\<close>)
  then show ?case unfolding v(2) by (intro new_event_inv [OF inv]) simp_all
next
  case (vc_message s es k raw p args v s')
  then have small: "int (length es) < i64_max" and inv: "vc_inv s es" by simp_all
  have c: "clock_current p (own_clock p s) es" and b: "bounded_ticks es" using inv by (simp_all add: vc_inv_def)
  let ?m = "ev_clock (es ! k)"
  have m: "btree_ok ?m" "\<And>q. 0 \<le> tick_of ?m q" "\<And>q. tick_of ?m q \<le> int (events_of q es)"
    using b vc_message.hyps(2) unfolding bounded_ticks_def by blast+
  have "clock_arg parse (p # raw # args) 1 = Inr ?m"
    by (rule clock_arg_json) (use vc_message.hyps(3) m(1) clock_in_i64 [OF m small] in simp_all)
  then have v: "v = count_up p (merge_into (own_clock p s) ?m)" "s' = btree_insert p v s"
    using vc_message.hyps(4)
    by (auto simp: vector_clock_step_def vc_recv_def vc_json_def clock_json_inj Let_def word_arg_def arg_def ok_or_def)
  have "next_clock p (own_clock p s) (message_of (Some k) es) es v"
    unfolding v(1)
  proof (rule count_up_next [OF c small])
    show "btree_ok (merge_into (own_clock p s) ?m)" using c by (simp add: clock_current_def btree_ok_merge)
    show "tick_of (merge_into (own_clock p s) ?m) q = max (tick_of (own_clock p s) q) (tick_of (message_of (Some k) es) q)" for q
      using tick_of_merge_max [OF btree_ok_distinct [OF m(1)]] current_bounds [OF c b] by (simp add: message_of_def)
    show "tick_of (message_of (Some k) es) p \<le> int (events_of p es)" using m(3) by (simp add: message_of_def)
  qed
  then show ?case unfolding v(2) using vc_message.hyps(2) by (intro new_event_inv [OF inv]) simp_all
next
  case (vc_look s es command args)
  then show ?case by (simp add: vc_inv_def own_clock_kept)
qed

lemma hb_grows: "happens_before es i j \<Longrightarrow> edges_grow es \<Longrightarrow> clock_le (ev_clock (es ! i)) (ev_clock (es ! j))"
proof (induction rule: happens_before.induct)
  case (hb_trans i j k)
  then show ?case using clock_le_trans by blast
qed (simp_all add: edges_grow_def)

lemma same_tick_same_event:
  assumes "edges_grow es" "i < length es" "j < length es" "ev_proc (es ! i) = p" "ev_proc (es ! j) = p" "ev_tick es i p = ev_tick es j p"
  shows "i = j"
  using assms unfolding edges_grow_def by (metis less_irrefl nat_neq_iff)

lemma clock_le_causes:
  assumes "vc_inv s es" "i < length es" "j < length es"
  shows "clock_le (ev_clock (es ! i)) (ev_clock (es ! j)) \<longleftrightarrow> i = j \<or> happens_before es i j"
proof
  have inv: "edges_grow es" "taken_in_past es" "bounded_ticks es" using assms(1) by (simp_all add: vc_inv_def)
  show "clock_le (ev_clock (es ! i)) (ev_clock (es ! j))" if "i = j \<or> happens_before es i j"
    using that hb_grows inv(1) by (auto simp: clock_le_def)
  assume le: "clock_le (ev_clock (es ! i)) (ev_clock (es ! j))"
  let ?p = "ev_proc (es ! i)"
  have "0 < ev_tick es i ?p" "ev_tick es i ?p \<le> ev_tick es j ?p"
    using inv(3) assms(2) le unfolding bounded_ticks_def clock_le_def by blast+
  then obtain k where k: "ev_proc (es ! k) = ?p" "ev_tick es k ?p = ev_tick es i ?p" "k = j \<or> happens_before es k j"
    using inv(2) assms(3) unfolding taken_in_past_def by blast
  then have "k < length es" using assms(3) hb_later [of es k j] by auto
  then have "k = i" using same_tick_same_event [OF inv(1) _ assms(2)] k(1,2) by simp
  then show "i = j \<or> happens_before es i j" using k(3) by simp
qed

text \<open>C32: vector clocks are the order of causes. In every run of the vector-clock topic, comparing what two events were
  answered with says \<open>before\<close> exactly when the first happened before the second (along a process or through
  messages), \<open>equal\<close> for one event only, and \<open>concurrent\<close> exactly when neither could have caused the other.\<close>
theorem vector_clocks_are_causality:
  assumes "vc_run parse s es" "int (length es) < i64_max" "i < length es" "j < length es"
  shows "clock_relation (ev_clock (es ! i)) (ev_clock (es ! j)) =
    (if i = j then ''equal'' else if happens_before es i j then ''before''
     else if happens_before es j i then ''after'' else ''concurrent'')"
proof -
  have inv: "vc_inv s es" using vc_run_inv assms(1,2) by blast
  have "\<not> (happens_before es i j \<and> happens_before es j i)" using hb_later [of es i j] hb_later [of es j i] by auto
  then show ?thesis
    unfolding clock_relation_le clock_le_causes [OF inv assms(3,4)] clock_le_causes [OF inv assms(4,3)] by auto
qed

text \<open>Process \<open>a\<close> sends to \<open>b\<close>, and \<open>c\<close> is on its own.\<close>

definition one_letter :: json_parser where
  "one_letter raw = (if raw = ''m'' then Inr (clock_json [(''a'', 1)]) else Inl ''no letter'')"

definition three_events :: "vc_event list" where
  "three_events =
     [\<lparr>ev_proc = ''a'', ev_cause = None, ev_clock = [(''a'', 1)]\<rparr>,
      \<lparr>ev_proc = ''b'', ev_cause = Some 0, ev_clock = [(''a'', 1), (''b'', 1)]\<rparr>,
      \<lparr>ev_proc = ''c'', ev_cause = None, ev_clock = [(''c'', 1)]\<rparr>]"

lemma three_events_run:
  "vc_run one_letter [(''a'', [(''a'', 1)]), (''b'', [(''a'', 1), (''b'', 1)]), (''c'', [(''c'', 1)])] three_events"
proof -
  have "vc_run one_letter [(''a'', [(''a'', 1)])] ([] @ [\<lparr>ev_proc = ''a'', ev_cause = None, ev_clock = [(''a'', 1)]\<rparr>])"
    by (rule vc_event [OF vc_start, where command = "''send''" and args = "[]"])
       (simp_all add: vector_clock_step_def vc_tick_def Let_def count_up_def own_clock_def word_arg_def arg_def ok_or_def add_i64_def
          wrap_i64_in in_i64_def i64_min_def i64_max_def)
  then have one: "vc_run one_letter [(''a'', [(''a'', 1)])] [\<lparr>ev_proc = ''a'', ev_cause = None, ev_clock = [(''a'', 1)]\<rparr>]" by simp
  have "vc_run one_letter [(''a'', [(''a'', 1)]), (''b'', [(''a'', 1), (''b'', 1)])]
      ([\<lparr>ev_proc = ''a'', ev_cause = None, ev_clock = [(''a'', 1)]\<rparr>] @ [\<lparr>ev_proc = ''b'', ev_cause = Some 0, ev_clock = [(''a'', 1), (''b'', 1)]\<rparr>])"
    by (rule vc_message [OF one, where raw = "''m''" and args = "[]"])
       (simp_all add: vector_clock_step_def vc_recv_def one_letter_def clock_arg_def json_arg_def clock_json_def json_i64_def
          Let_def count_up_def own_clock_def word_arg_def arg_def ok_or_def add_i64_def tick_of_def
          wrap_i64_in in_i64_def i64_min_def i64_max_def)
  then have two: "vc_run one_letter [(''a'', [(''a'', 1)]), (''b'', [(''a'', 1), (''b'', 1)])]
      [\<lparr>ev_proc = ''a'', ev_cause = None, ev_clock = [(''a'', 1)]\<rparr>, \<lparr>ev_proc = ''b'', ev_cause = Some 0, ev_clock = [(''a'', 1), (''b'', 1)]\<rparr>]" by simp
  have "vc_run one_letter [(''a'', [(''a'', 1)]), (''b'', [(''a'', 1), (''b'', 1)]), (''c'', [(''c'', 1)])]
      ([\<lparr>ev_proc = ''a'', ev_cause = None, ev_clock = [(''a'', 1)]\<rparr>, \<lparr>ev_proc = ''b'', ev_cause = Some 0, ev_clock = [(''a'', 1), (''b'', 1)]\<rparr>] @
       [\<lparr>ev_proc = ''c'', ev_cause = None, ev_clock = [(''c'', 1)]\<rparr>])"
    by (rule vc_event [OF two, where command = "''local''" and args = "[]"])
       (simp_all add: vector_clock_step_def vc_tick_def Let_def count_up_def own_clock_def word_arg_def arg_def ok_or_def add_i64_def
          wrap_i64_in in_i64_def i64_min_def i64_max_def)
  then show ?thesis by (simp add: three_events_def)
qed

theorem vector_clocks_are_causality_witness:
  "clock_relation (ev_clock (three_events ! 0)) (ev_clock (three_events ! 1)) = ''before'' \<and>
   clock_relation (ev_clock (three_events ! 1)) (ev_clock (three_events ! 2)) = ''concurrent''"
proof
  have n: "int (length three_events) < i64_max" by (simp add: three_events_def i64_max_def)
  have l: "length three_events = 3" by (simp add: three_events_def)
  have "happens_before three_events 0 1" by (rule hb_message) (simp_all add: three_events_def)
  then show "clock_relation (ev_clock (three_events ! 0)) (ev_clock (three_events ! 1)) = ''before''"
    using vector_clocks_are_causality [OF three_events_run n, of 0 1] l by simp
  show "clock_relation (ev_clock (three_events ! 1)) (ev_clock (three_events ! 2)) = ''concurrent''"
    using vector_clocks_are_causality [OF three_events_run n, of 1 2] l
    by (simp add: three_events_def clock_relation_def tick_of_def split: if_splits)
qed

section \<open>Hybrid clocks grow\<close>

text \<open>A reading is later than the last one of its process, than the message it received, and not behind the wall clock.\<close>

lemma hlc_tick_grows:
  assumes "in_i64 co" "co < i64_max"
  shows "(lo, co) < hlc_tick wall (lo, co) \<and> wall \<le> fst (hlc_tick wall (lo, co))"
  using assms by (auto simp: hlc_tick_def Let_def add_i64_def wrap_i64_in in_i64_def less_prod_def' max_def)

lemma hlc_merge_grows:
  assumes "in_i64 co" "co < i64_max" "in_i64 cm" "cm < i64_max"
  shows "(lo, co) < hlc_merge wall lm cm (lo, co) \<and> (lm, cm) < hlc_merge wall lm cm (lo, co) \<and> wall \<le> fst (hlc_merge wall lm cm (lo, co))"
  using assms by (auto simp: hlc_merge_def Let_def add_i64_def wrap_i64_in in_i64_def less_prod_def' max_def split: if_splits)

section \<open>Version vectors keep no value that was overwritten\<close>

definition siblings_ok :: "sibling list \<Rightarrow> bool" where
  "siblings_ok xs \<longleftrightarrow> distinct xs \<and> sorted (map (\<lambda>s. (sb_value s, sb_vv s)) xs) \<and> (\<forall>x \<in> set xs. btree_ok (sb_vv x)) \<and>
     (\<forall>x \<in> set xs. \<forall>y \<in> set xs. clock_relation (sb_vv x) (sb_vv y) \<noteq> ''before'')"

lemma set_normalize:
  "set (normalize xs) = {x \<in> set xs. \<forall>y \<in> set xs. clock_relation (sb_vv x) (sb_vv y) \<noteq> ''before''}"
  by (auto simp: normalize_def list_ex_iff)

lemma distinct_adj_sorted: "sorted (map f xs) \<Longrightarrow> inj_on f (set xs) \<Longrightarrow> distinct (remdups_adj xs)"
proof (induction xs rule: remdups_adj.induct)
  case (3 x y xs)
  show ?case
  proof (cases "x = y")
    case False
    have "x \<notin> set (y # xs)"
    proof
      assume "x \<in> set (y # xs)"
      then have "f y \<le> f x" "f x \<le> f y" using 3(3) by auto
      then have "f x = f y" by simp
      then show False using 3(4) False by (simp add: inj_on_def)
    qed
    then show ?thesis using 3 False by (simp add: inj_on_def)
  qed (use 3 in \<open>simp add: inj_on_def\<close>)
qed simp_all

lemma sorted_remdups: "sorted (map f xs) \<Longrightarrow> sorted (map f (remdups_adj xs))"
  by (induction xs rule: remdups_adj.induct) auto

lemma normalize_ok: "\<forall>x \<in> set xs. btree_ok (sb_vv x) \<Longrightarrow> siblings_ok (normalize xs)"
proof -
  let ?f = "\<lambda>s :: sibling. (sb_value s, sb_vv s)"
  have inj: "inj_on ?f A" for A by (rule inj_onI, rule sibling.equality) auto
  assume "\<forall>x \<in> set xs. btree_ok (sb_vv x)"
  then show ?thesis
    unfolding siblings_ok_def set_normalize
    using distinct_adj_sorted [OF _ inj] sorted_remdups [where f = ?f] by (auto simp: normalize_def)
qed

definition vv_ok :: "version_vectors \<Rightarrow> bool" where
  "vv_ok s \<longleftrightarrow> (\<forall>r k. siblings_ok (vv_slot r k s))"

lemma slot_fill [simp]: "vv_slot r k (vv_fill r' k' xs s) = (if r = r' \<and> k = k' then xs else vv_slot r k s)"
  by (simp add: vv_slot_def vv_fill_def keys_at_def siblings_in_def)

lemma normalize_Nil [simp]: "normalize [] = []"
  by (simp add: normalize_def)

lemma siblings_in_merge:
  "siblings_in k (foldl (\<lambda>merged key. btree_insert key (f key) merged) m ks) = (if k \<in> set ks then f k else siblings_in k m)"
  by (induction ks arbitrary: m) (auto simp: siblings_in_def)

lemma siblings_in_merged: "siblings_in k (merge_siblings left right) = normalize (siblings_in k left @ siblings_in k right)"
proof -
  have "siblings_in k left = [] \<and> siblings_in k right = []" if "k \<notin> set (map fst left @ map fst right)"
    using that by (simp add: siblings_in_def map_of_eq_None_iff [THEN iffD2])
  then show ?thesis by (auto simp: merge_siblings_def siblings_in_merge) (auto simp: siblings_in_def)
qed

lemma slot_sync:
  "vv_slot r k (snd (vv_sync (a # b # args) s)) =
     (if r = a \<or> r = b then normalize (vv_slot a k s @ vv_slot b k s) else vv_slot r k s)"
  by (simp add: vv_sync_def word_arg_def arg_def ok_or_def Let_def vv_slot_def keys_at_def siblings_in_merged
      flip: siblings_in_merged)

lemma normalize_joined: "siblings_ok xs \<Longrightarrow> siblings_ok ys \<Longrightarrow> siblings_ok (normalize (xs @ ys))"
  by (rule normalize_ok) (auto simp: siblings_ok_def)

lemma clock_arg_ok: "clock_arg parse args i = Inr c \<Longrightarrow> btree_ok c"
proof -
  have "clock_entries m out = Inr c \<Longrightarrow> btree_ok out \<Longrightarrow> btree_ok c" for m out
    by (induction m out rule: clock_entries.induct) (auto split: option.splits)
  moreover assume "clock_arg parse args i = Inr c"
  then obtain v where "(case v of JObj m \<Rightarrow> clock_entries m [] | _ \<Rightarrow> Inl (reply_err (''argument '' @ show_nat i @ '' is not a clock object''))) = Inr c"
    unfolding clock_arg_def by (elim sum_bindE)
  ultimately show ?thesis by (cases v) auto
qed

lemma vv_write_ok:
  assumes "vv_ok s" "btree_ok vv"
  shows "vv_ok (snd (vv_write replica key val vv s))"
proof -
  have "\<forall>x \<in> set (vv_slot replica key s @ [\<lparr>sb_value = val, sb_vv = vv\<rparr>]). btree_ok (sb_vv x)"
    using assms by (auto simp: vv_ok_def siblings_ok_def)
  then show ?thesis using assms(1) normalize_ok by (simp add: vv_ok_def vv_write_def)
qed

lemma btree_ok_count_up: "btree_ok c \<Longrightarrow> btree_ok (count_up p c)"
  by (simp add: count_up_def)

lemma vv_step_ok: "vv_ok s \<Longrightarrow> vv_ok (snd (version_vector_step parse s command args))"
proof -
  assume ok: "vv_ok s"
  have merged: "btree_ok (foldl (\<lambda>vv x. merge_into vv (sb_vv x)) vv xs)" if "btree_ok vv" for vv xs
    using that by (induction xs arbitrary: vv) (simp_all add: btree_ok_merge)
  have filled: "vv_ok (vv_fill r k (vv_slot r k s) s)" for r k
    using ok by (simp add: vv_ok_def)
  have "vv_ok (snd (vv_write r k v (count_up r (foldl (\<lambda>vv x. merge_into vv (sb_vv x)) [] (vv_slot r k s))) (vv_fill r k (vv_slot r k s) s)))"
    for r k v by (intro vv_write_ok filled btree_ok_count_up merged) simp
  then have put: "vv_ok (snd (vv_put args s))" using ok by (simp add: vv_put_def with_arg_def Let_def split: sum.split)
  have put_ctx: "vv_ok (snd (vv_put_ctx parse args s))"
    using vv_write_ok [OF ok] clock_arg_ok by (simp add: vv_put_ctx_def with_arg_def btree_ok_count_up ok split: sum.split)
  have "vv_ok (vv_fill r k (normalize (vv_slot r k s)) s)" for r k
    using ok normalize_joined [of "vv_slot r k s" "[]"] by (simp add: vv_ok_def siblings_ok_def)
  then have read: "vv_ok (snd (vv_read args s))" using ok by (simp add: vv_read_def with_arg_def Let_def split: sum.split)
  have sync: "vv_ok (snd (vv_sync args s))"
  proof (cases args)
    case (Cons a rest)
    show ?thesis
    proof (cases rest)
      case (Cons b more)
      then show ?thesis using ok normalize_joined \<open>args = a # rest\<close> by (simp add: vv_ok_def slot_sync)
    qed (use ok \<open>args = a # rest\<close> in \<open>simp add: vv_sync_def word_arg_def arg_def ok_or_def\<close>)
  qed (use ok in \<open>simp add: vv_sync_def word_arg_def arg_def ok_or_def\<close>)
  show ?thesis using ok put put_ctx read sync by (simp add: version_vector_step_def)
qed

interpretation vv: topic_invariant "version_vector_step parse" any_command vv_ok
  by unfold_locales (rule vv_step_ok)

text \<open>After any session no sibling a replica keeps was overwritten by another one, each is kept once, and they are in order;
  and a \<open>sync\<close> leaves both replicas with the same siblings for every key.\<close>

theorem siblings_never_overwritten:
  "siblings_ok (vv_slot r k (snd (topic_run (version_vector_step parse) cs [])))"
proof -
  have "vv_ok []" by (simp add: vv_ok_def vv_slot_def keys_at_def siblings_in_def siblings_ok_def)
  then have "vv_ok (snd (topic_run (version_vector_step parse) cs []))" using session_ok_any by (rule vv.session_keeps)
  then show ?thesis by (simp add: vv_ok_def)
qed

theorem sync_agrees:
  "vv_slot a k (snd (version_vector_step parse s ''sync'' [a, b])) = vv_slot b k (snd (version_vector_step parse s ''sync'' [a, b]))"
  by (simp add: version_vector_step_def slot_sync)

end
