(* ===== verification/Consistency.thy ===== *)
theory Consistency
  imports Topics
begin

text \<open>
  Consistency models and session guarantees, as \<^verbatim>\<open>disttest/examples/alg/consistency.rs\<close> plays them: the
  backtracking search for a legal order of a register's history, and sessions over lagging replicas.
  Additions wrap around at 64 bits, as in a release build.
\<close>

section \<open>Classifying a history\<close>

record reg_op =
  ro_client :: string
  ro_write :: bool
  ro_value :: int
  ro_start :: int
  ro_end :: int

type_synonym consistency = "reg_op list"

fun legal_loop :: "int \<Rightarrow> reg_op list \<Rightarrow> bool" where
  "legal_loop current [] = True"
| "legal_loop current (x # order) =
     (if ro_write x then legal_loop (ro_value x) order
      else if ro_value x \<noteq> current then False
      else legal_loop current order)"

definition register_legal :: "reg_op list \<Rightarrow> bool" where
  "register_legal order = legal_loop 0 order"

definition op_blocked :: "reg_op list \<Rightarrow> (reg_op \<Rightarrow> reg_op \<Rightarrow> bool) \<Rightarrow> bool list \<Rightarrow> nat \<Rightarrow> bool" where
  "op_blocked ops precedes placed i \<longleftrightarrow>
     list_ex (\<lambda>j. \<not> placed ! j \<and> j \<noteq> i \<and> precedes (ops ! j) (ops ! i)) [0..<length ops]"

text \<open>
  Each call places one operation more, so \<open>left\<close>, the number of those still to place, bounds the depth. What a
  failed attempt placed is taken back before the next.
\<close>

primrec order_search :: "nat \<Rightarrow> reg_op list \<Rightarrow> (reg_op \<Rightarrow> reg_op \<Rightarrow> bool) \<Rightarrow> bool list \<Rightarrow> reg_op list \<Rightarrow> bool" where
  "order_search 0 ops precedes placed order = (length order = length ops \<and> register_legal order)"
| "order_search (Suc left) ops precedes placed order =
     (if length order = length ops then register_legal order
      else list_ex (\<lambda>i.
        if placed ! i then False
        else if op_blocked ops precedes placed i then False
        else register_legal (order @ [ops ! i]) \<and> order_search left ops precedes (placed[i := True]) (order @ [ops ! i]))
      [0..<length ops])"

definition exists_legal_order :: "reg_op list \<Rightarrow> (reg_op \<Rightarrow> reg_op \<Rightarrow> bool) \<Rightarrow> bool" where
  "exists_legal_order ops precedes = order_search (length ops) ops precedes (replicate (length ops) False) []"

definition op_kind :: "string \<Rightarrow> json + bool" where
  "op_kind kind =
     (if kind = ''write'' \<or> kind = ''w'' then Inr True
      else if kind = ''read'' \<or> kind = ''r'' then Inr False
      else Inl (reply_err (''kind must be read or write, got '' @ debug_str kind)))"

definition cs_op :: "string list \<Rightarrow> consistency \<Rightarrow> json \<times> consistency" where
  "cs_op args s =
     with_arg (word_arg args 0) (\<lambda>client. with_arg (word_arg args 1) (\<lambda>kind. with_arg (op_kind kind) (\<lambda>write.
       with_arg (int_arg args 2) (\<lambda>val. with_arg (int_arg args 3) (\<lambda>start. with_arg (int_arg args 4) (\<lambda>stop.
         if stop < start then (reply_err ''an operation cannot end before it starts'', s)
         else
           (let s' = s @ [\<lparr>ro_client = client, ro_write = write, ro_value = val, ro_start = start, ro_end = stop\<rparr>]
            in (JObj [(''ok'', JBool True), (''ops'', count_json (length s'))], s'))) s) s) s) s) s) s"

definition real_time :: "reg_op \<Rightarrow> reg_op \<Rightarrow> bool" where
  "real_time a b \<longleftrightarrow> ro_end a < ro_start b"

definition program_order :: "reg_op \<Rightarrow> reg_op \<Rightarrow> bool" where
  "program_order a b \<longleftrightarrow> ro_client a = ro_client b \<and> ro_end a < ro_start b"

definition model_holds :: "string \<Rightarrow> reg_op list \<Rightarrow> json + bool" where
  "model_holds model ops =
     (if model = ''linearizable'' then Inr (exists_legal_order ops real_time)
      else if model = ''sequential'' then Inr (exists_legal_order ops program_order)
      else Inl (reply_err (''unknown model '' @ debug_str model)))"

definition cs_check :: "string list \<Rightarrow> consistency \<Rightarrow> json \<times> consistency" where
  "cs_check args s =
     with_arg (word_arg args 0) (\<lambda>model. with_arg (model_holds model s) (\<lambda>answer.
       (JObj [(''ok'', JBool True), (''model'', JStr model), (''holds'', JBool answer)], s)) s) s"

definition cs_state :: "consistency \<Rightarrow> json" where
  "cs_state s =
     JObj [(''ok'', JBool True), (''ops'', count_json (length s)), (''clients'', count_json (length (remdups (map ro_client s))))]"

definition consistency_step :: "consistency \<Rightarrow> string \<Rightarrow> string list \<Rightarrow> json \<times> consistency" where
  "consistency_step s command args =
     (if command = ''init'' then (JObj [(''ok'', JBool True), (''ops'', JInt 0)], [])
      else if command = ''op'' then cs_op args s
      else if command = ''check'' then cs_check args s
      else if command = ''state'' then (cs_state s, s)
      else (unknown_command command, s))"

section \<open>Session guarantees\<close>

record replica =
  rp_applied :: "(string \<times> int) list"
  rp_version :: int

definition replica_default :: replica where
  "replica_default = \<lparr>rp_applied = [], rp_version = 0\<rparr>"

record session_state =
  ss_writes :: int
  ss_reads :: int

definition session_state_default :: session_state where
  "session_state_default = \<lparr>ss_writes = 0, ss_reads = 0\<rparr>"

type_synonym log_entry = "string \<times> int \<times> int"

record session =
  se_replicas :: "replica list"
  se_sessions :: "(string \<times> session_state) list"
  se_log :: "log_entry list"
  se_guarantees :: bool

definition session_default :: session where
  "session_default = \<lparr>se_replicas = [], se_sessions = [], se_log = [], se_guarantees = True\<rparr>"

definition session_of :: "string \<Rightarrow> session \<Rightarrow> session_state" where
  "session_of client s = (case map_of (se_sessions s) client of Some x \<Rightarrow> x | None \<Rightarrow> session_state_default)"

definition se_floor :: "string \<Rightarrow> session \<Rightarrow> int" where
  "se_floor client s = (let x = session_of client s in max (ss_writes x) (ss_reads x))"

definition se_state :: "session \<Rightarrow> json" where
  "se_state s =
     JObj [(''ok'', JBool True), (''replicas'', JArr (map (\<lambda>r. JObj [(''version'', JInt (rp_version r))]) (se_replicas s))),
           (''log'', count_json (length (se_log s))), (''guarantees'', JBool (se_guarantees s))]"

definition se_init :: "string list \<Rightarrow> session \<Rightarrow> json \<times> session" where
  "se_init args s =
     with_arg (uint_arg args 0) (\<lambda>n.
       if n = 0 then (reply_err ''a store needs at least one replica'', s)
       else (JObj [(''ok'', JBool True), (''replicas'', count_json n)],
             \<lparr>se_replicas = replicate n replica_default, se_sessions = [], se_log = [], se_guarantees = True\<rparr>)) s"

definition set_to :: "string \<Rightarrow> json + bool" where
  "set_to w =
     (if w = ''on'' then Inr True else if w = ''off'' then Inr False
      else Inl (reply_err (''expected on or off, got '' @ debug_str w)))"

definition se_set_guarantees :: "string list \<Rightarrow> session \<Rightarrow> json \<times> session" where
  "se_set_guarantees args s =
     with_arg (word_arg args 0) (\<lambda>w. with_arg (set_to w) (\<lambda>b.
       (JObj [(''ok'', JBool True), (''guarantees'', JBool b)], s\<lparr>se_guarantees := b\<rparr>)) s) s"

definition missing_replica :: "nat \<Rightarrow> json" where
  "missing_replica i = reply_err (''no replica '' @ show_nat i)"

definition apply_entry :: "log_entry \<Rightarrow> replica \<Rightarrow> replica" where
  "apply_entry = (\<lambda>(key, val, version) r.
     r\<lparr>rp_applied := btree_insert key version (rp_applied r), rp_version := max (rp_version r) version\<rparr>)"

definition se_write :: "string list \<Rightarrow> session \<Rightarrow> json \<times> session" where
  "se_write args s =
     with_arg (word_arg args 0) (\<lambda>client. with_arg (uint_arg args 1) (\<lambda>i. with_arg (word_arg args 2) (\<lambda>key.
       with_arg (int_arg args 3) (\<lambda>val.
         if i \<ge> length (se_replicas s) then (missing_replica i, s)
         else
           (let version = wrap_i64 (int (length (se_log s)) + 1);
                s = s\<lparr>se_log := se_log s @ [(key, val, version)]\<rparr>;
                s = s\<lparr>se_replicas := (se_replicas s)[i := apply_entry (key, val, version) (se_replicas s ! i)]\<rparr>;
                x = session_of client s;
                s = s\<lparr>se_sessions := btree_insert client (x\<lparr>ss_writes := max (ss_writes x) version\<rparr>) (se_sessions s)\<rparr>
            in (JObj [(''ok'', JBool True), (''version'', JInt version), (''replica'', count_json i)], s))) s) s) s) s"

definition se_replicate :: "string list \<Rightarrow> session \<Rightarrow> json \<times> session" where
  "se_replicate args s =
     with_arg (uint_arg args 0) (\<lambda>i.
       if i \<ge> length (se_replicas s) then (missing_replica i, s)
       else
         (let r = foldl (\<lambda>r e. apply_entry e r) (se_replicas s ! i) (se_log s)
          in (JObj [(''ok'', JBool True), (''replica'', count_json i), (''version'', JInt (rp_version r))],
              s\<lparr>se_replicas := (se_replicas s)[i := r]\<rparr>))) s"

definition logged_value :: "string \<Rightarrow> int \<Rightarrow> log_entry list \<Rightarrow> int" where
  "logged_value key version log =
     (case find_first (\<lambda>(k, _, v). k = key \<and> v = version) log of Some (_, val, _) \<Rightarrow> val | None \<Rightarrow> 0)"

definition applied_version :: "string \<Rightarrow> replica \<Rightarrow> int" where
  "applied_version key r = (case map_of (rp_applied r) key of Some v \<Rightarrow> v | None \<Rightarrow> 0)"

definition se_read :: "string list \<Rightarrow> session \<Rightarrow> json \<times> session" where
  "se_read args s =
     with_arg (word_arg args 0) (\<lambda>client. with_arg (uint_arg args 1) (\<lambda>i. with_arg (word_arg args 2) (\<lambda>key.
       if i \<ge> length (se_replicas s) then (missing_replica i, s)
       else
         (let floor = (if se_guarantees s then se_floor client s else 0);
              replica_version = rp_version (se_replicas s ! i)
          in if replica_version < floor
             then (JObj [(''ok'', JBool True), (''served'', JBool False), (''reason'', JStr ''replica is behind this session''),
                         (''replica_version'', JInt replica_version), (''session_floor'', JInt floor)], s)
             else
               (let version = applied_version key (se_replicas s ! i);
                    x = session_of client s
                in (JObj [(''ok'', JBool True), (''served'', JBool True), (''value'', JInt (logged_value key version (se_log s))),
                          (''version'', JInt version), (''replica_version'', JInt replica_version)],
                    s\<lparr>se_sessions := btree_insert client (x\<lparr>ss_reads := max (ss_reads x) replica_version\<rparr>) (se_sessions s)\<rparr>)))) s) s) s"

definition session_step :: "session \<Rightarrow> string \<Rightarrow> string list \<Rightarrow> json \<times> session" where
  "session_step s command args =
     (if command = ''init'' then se_init args s
      else if command = ''guarantees'' then se_set_guarantees args s
      else if command = ''write'' then se_write args s
      else if command = ''replicate'' then se_replicate args s
      else if command = ''read'' then se_read args s
      else if command = ''state'' then (se_state s, s)
      else (unknown_command command, s))"

section \<open>The search is exact\<close>

text \<open>An order of the operations, by their positions, that reads like a register and contradicts no precedence.\<close>

definition legal_order :: "reg_op list \<Rightarrow> (reg_op \<Rightarrow> reg_op \<Rightarrow> bool) \<Rightarrow> nat list \<Rightarrow> bool" where
  "legal_order ops precedes is \<longleftrightarrow> distinct is \<and> set is = {..<length ops} \<and> register_legal (map ((!) ops) is) \<and>
     sorted_wrt (\<lambda>i j. \<not> precedes (ops ! j) (ops ! i)) is"

lemma legal_loop_prefix: "legal_loop c (xs @ ys) \<Longrightarrow> legal_loop c xs"
  by (induction xs arbitrary: c) (auto split: if_splits)

lemma register_legal_prefix: "register_legal (xs @ ys) \<Longrightarrow> register_legal xs"
  unfolding register_legal_def by (rule legal_loop_prefix)

text \<open>What has been placed so far, and that it can be completed.\<close>

definition placed_as :: "nat \<Rightarrow> nat list \<Rightarrow> bool list \<Rightarrow> bool" where
  "placed_as n is placed \<longleftrightarrow> length placed = n \<and> distinct is \<and> set is \<subseteq> {..<n} \<and> (\<forall>j < n. placed ! j \<longleftrightarrow> j \<in> set is)"

definition completion :: "reg_op list \<Rightarrow> (reg_op \<Rightarrow> reg_op \<Rightarrow> bool) \<Rightarrow> nat list \<Rightarrow> nat list \<Rightarrow> bool" where
  "completion ops precedes is rest \<longleftrightarrow> distinct (is @ rest) \<and> set (is @ rest) = {..<length ops} \<and>
     register_legal (map ((!) ops) (is @ rest)) \<and> sorted_wrt (\<lambda>i j. \<not> precedes (ops ! j) (ops ! i)) rest"

lemma completion_Cons:
  assumes "placed_as (length ops) is placed" "i < length ops"
  shows "completion ops precedes is (i # rest) \<longleftrightarrow>
    \<not> placed ! i \<and> \<not> op_blocked ops precedes placed i \<and> register_legal (map ((!) ops) is @ [ops ! i]) \<and>
    completion ops precedes (is @ [i]) rest"
proof
  have p: "placed ! j \<longleftrightarrow> j \<in> set is" if "j < length ops" for j using assms(1) that by (simp add: placed_as_def)
  show "\<not> placed ! i \<and> \<not> op_blocked ops precedes placed i \<and> register_legal (map ((!) ops) is @ [ops ! i]) \<and>
      completion ops precedes (is @ [i]) rest" if c: "completion ops precedes is (i # rest)"
  proof (intro conjI)
    show "\<not> placed ! i" using c p assms(2) by (auto simp: completion_def)
    show "completion ops precedes (is @ [i]) rest" using c by (auto simp: completion_def)
    show "register_legal (map ((!) ops) is @ [ops ! i])"
      using c register_legal_prefix [of "map ((!) ops) is @ [ops ! i]" "map ((!) ops) rest"] by (simp add: completion_def)
    show "\<not> op_blocked ops precedes placed i"
    proof
      assume "op_blocked ops precedes placed i"
      then obtain j where j: "j < length ops" "\<not> placed ! j" "j \<noteq> i" "precedes (ops ! j) (ops ! i)"
        by (auto simp: op_blocked_def list_ex_iff)
      then have "j \<in> set rest" using c p by (auto simp: completion_def)
      then show False using c j(4) by (simp add: completion_def)
    qed
  qed
  show "completion ops precedes is (i # rest)"
    if "\<not> placed ! i \<and> \<not> op_blocked ops precedes placed i \<and> register_legal (map ((!) ops) is @ [ops ! i]) \<and>
      completion ops precedes (is @ [i]) rest"
  proof -
    have c: "completion ops precedes (is @ [i]) rest" and b: "\<not> op_blocked ops precedes placed i" using that by simp_all
    have "\<not> precedes (ops ! j) (ops ! i)" if j: "j \<in> set rest" for j
    proof
      assume "precedes (ops ! j) (ops ! i)"
      moreover have "j < length ops" "j \<noteq> i" "j \<notin> set is" using c j by (auto simp: completion_def)
      ultimately show False using b p [of j] by (auto simp: op_blocked_def list_ex_iff)
    qed
    then show ?thesis using c by (simp add: completion_def)
  qed
qed

lemma all_placed:
  assumes "placed_as (length ops) is placed" "length is = length ops"
  shows "(\<exists>rest. completion ops precedes is rest) \<longleftrightarrow> register_legal (map ((!) ops) is)"
proof -
  have d: "distinct is" "set is \<subseteq> {..<length ops}" using assms(1) by (simp_all add: placed_as_def)
  then have all: "set is = {..<length ops}" using assms(2) by (intro card_subset_eq) (simp_all add: distinct_card)
  have "completion ops precedes is rest \<longleftrightarrow> rest = [] \<and> register_legal (map ((!) ops) is)" for rest
    using d(1) all by (cases rest) (auto simp: completion_def)
  then show ?thesis by simp
qed

lemma placed_more: "placed_as n is placed \<Longrightarrow> i < n \<Longrightarrow> \<not> placed ! i \<Longrightarrow> placed_as n (is @ [i]) (placed[i := True])"
  by (auto simp: placed_as_def nth_list_update)

lemma order_search_exact:
  "placed_as (length ops) is placed \<Longrightarrow> length ops - length is \<le> left \<Longrightarrow>
   order_search left ops precedes placed (map ((!) ops) is) \<longleftrightarrow> (\<exists>rest. completion ops precedes is rest)"
proof (induction left arbitrary: "is" placed)
  case 0
  have "length is \<le> length ops"
    using 0(1) card_mono [of "{..<length ops}" "set is"] by (simp add: placed_as_def distinct_card)
  then show ?case using all_placed [OF 0(1)] 0(2) by simp
next
  case (Suc left)
  show ?case
  proof (cases "length is = length ops")
    case True
    then show ?thesis using all_placed [OF Suc.prems(1)] by simp
  next
    case False
    have nonempty: "\<not> completion ops precedes is []"
    proof
      assume "completion ops precedes is []"
      then have "distinct is" "set is = {..<length ops}" by (simp_all add: completion_def)
      then show False using False distinct_card [of "is"] by simp
    qed
    have each: "(if placed ! i then False else if op_blocked ops precedes placed i then False
        else register_legal (map ((!) ops) is @ [ops ! i]) \<and>
          order_search left ops precedes (placed[i := True]) (map ((!) ops) is @ [ops ! i])) \<longleftrightarrow>
        (\<exists>rest. completion ops precedes is (i # rest))" if i: "i < length ops" for i
    proof (cases "placed ! i")
      case True
      then show ?thesis using completion_Cons [OF Suc.prems(1) i] by simp
    next
      case False
      have "order_search left ops precedes (placed[i := True]) (map ((!) ops) (is @ [i])) \<longleftrightarrow> (\<exists>rest. completion ops precedes (is @ [i]) rest)"
        using placed_more [OF Suc.prems(1) i False] Suc.prems(2) by (intro Suc.IH) simp_all
      then show ?thesis using completion_Cons [OF Suc.prems(1) i] False by simp
    qed
    have "(\<exists>rest. completion ops precedes is rest) \<longleftrightarrow> (\<exists>i rest. completion ops precedes is (i # rest))"
      using nonempty by (metis list.exhaust)
    also have "\<dots> \<longleftrightarrow> (\<exists>i < length ops. \<exists>rest. completion ops precedes is (i # rest))"
      by (auto simp: completion_def)
    finally show ?thesis using False each by (auto simp: list_ex_iff)
  qed
qed

theorem exists_legal_order_exact: "exists_legal_order ops precedes \<longleftrightarrow> (\<exists>is. legal_order ops precedes is)"
proof -
  have "placed_as (length ops) [] (replicate (length ops) False)" by (simp add: placed_as_def)
  from order_search_exact [OF this, of "length ops" precedes] show ?thesis
    by (simp add: exists_legal_order_def completion_def legal_order_def)
qed

text \<open>What holds in real time holds in program order.\<close>

lemma linearizable_sequential: "exists_legal_order ops real_time \<Longrightarrow> exists_legal_order ops program_order"
proof -
  assume "exists_legal_order ops real_time"
  then obtain "is" where l: "legal_order ops real_time is" using exists_legal_order_exact by blast
  have "sorted_wrt (\<lambda>i j. \<not> program_order (ops ! j) (ops ! i)) is"
    by (rule sorted_wrt_mono_rel [of _ "\<lambda>i j. \<not> real_time (ops ! j) (ops ! i)"])
       (use l in \<open>auto simp: legal_order_def real_time_def program_order_def\<close>)
  then show ?thesis using l exists_legal_order_exact unfolding legal_order_def by blast
qed

text \<open>C33: the checker of the consistency topic decides its models. For every recorded history, \<open>check\<close> answers that a
  model holds exactly when some order of all the operations reads like a register (each read returns the
  last value written before it, or zero) and contradicts no precedence of the model: real time for
  \<open>linearizable\<close>, each client's own order for \<open>sequential\<close>. The first implies the second.\<close>
theorem consistency_check_exact:
  "consistency_step ops ''check'' [''linearizable''] =
     (JObj [(''ok'', JBool True), (''model'', JStr ''linearizable''), (''holds'', JBool (\<exists>is. legal_order ops real_time is))], ops) \<and>
   consistency_step ops ''check'' [''sequential''] =
     (JObj [(''ok'', JBool True), (''model'', JStr ''sequential''), (''holds'', JBool (\<exists>is. legal_order ops program_order is))], ops) \<and>
   ((\<exists>is. legal_order ops real_time is) \<longrightarrow> (\<exists>is. legal_order ops program_order is))"
  using linearizable_sequential [of ops]
  by (auto simp: consistency_step_def cs_check_def model_holds_def word_arg_def arg_def ok_or_def exists_legal_order_exact)

definition write_then_read :: "reg_op list" where
  "write_then_read =
     [\<lparr>ro_client = ''a'', ro_write = True, ro_value = 1, ro_start = 0, ro_end = 1\<rparr>,
      \<lparr>ro_client = ''b'', ro_write = False, ro_value = 1, ro_start = 2, ro_end = 3\<rparr>]"

theorem consistency_check_exact_witness:
  "legal_order write_then_read real_time [0, 1] \<and> (\<exists>is. legal_order write_then_read program_order is) \<and>
   fst (consistency_step write_then_read ''check'' [''linearizable'']) =
     JObj [(''ok'', JBool True), (''model'', JStr ''linearizable''), (''holds'', JBool True)]"
proof -
  have l: "legal_order write_then_read real_time [0, 1]"
    by (auto simp: legal_order_def write_then_read_def register_legal_def real_time_def)
  then show ?thesis using consistency_check_exact [of write_then_read] by auto
qed

text \<open>A stale read of another client is sequential and not linearizable.\<close>

lemma stale_read_tells_apart:
  "exists_legal_order [\<lparr>ro_client = ''a'', ro_write = True, ro_value = 1, ro_start = 0, ro_end = 1\<rparr>,
      \<lparr>ro_client = ''b'', ro_write = False, ro_value = 0, ro_start = 2, ro_end = 3\<rparr>] program_order"
  "\<not> exists_legal_order [\<lparr>ro_client = ''a'', ro_write = True, ro_value = 1, ro_start = 0, ro_end = 1\<rparr>,
      \<lparr>ro_client = ''b'', ro_write = False, ro_value = 0, ro_start = 2, ro_end = 3\<rparr>] real_time"
  by (simp_all add: exists_legal_order_def op_blocked_def register_legal_def program_order_def real_time_def upt_rec)

section \<open>Sessions\<close>

text \<open>
  A replica that has applied the log up to its version: this is what the comment on the type promises, and it holds as
  long as writes go to replicas that have applied everything before them.
\<close>

definition last_version :: "string \<Rightarrow> log_entry list \<Rightarrow> int" where
  "last_version key log = foldl (\<lambda>v (k, _, w). if k = key then w else v) 0 log"

definition replica_ok :: "log_entry list \<Rightarrow> replica \<Rightarrow> bool" where
  "replica_ok log r \<longleftrightarrow> 0 \<le> rp_version r \<and> nat (rp_version r) \<le> length log \<and>
     (\<forall>key. applied_version key r = last_version key (take (nat (rp_version r)) log))"

definition log_ok :: "log_entry list \<Rightarrow> bool" where
  "log_ok log \<longleftrightarrow> (\<forall>j < length log. snd (snd (log ! j)) = int j + 1)"

definition se_ok :: "session \<Rightarrow> bool" where
  "se_ok s \<longleftrightarrow> log_ok (se_log s) \<and> (\<forall>r \<in> set (se_replicas s). replica_ok (se_log s) r)"

definition writes_up_to_date :: "session \<Rightarrow> string \<Rightarrow> string list \<Rightarrow> bool" where
  "writes_up_to_date s command args \<longleftrightarrow> int (length (se_log s)) < i64_max - 1 \<and>
     (command = ''write'' \<longrightarrow> (case uint_arg args 1 of
        Inr i \<Rightarrow> i < length (se_replicas s) \<longrightarrow> rp_version (se_replicas s ! i) = int (length (se_log s)) | Inl _ \<Rightarrow> True))"

lemma last_version_snoc [simp]: "last_version key (log @ [(k, v, w)]) = (if k = key then w else last_version key log)"
  by (simp add: last_version_def)

lemma applied_apply [simp]: "applied_version key (apply_entry (k, v, w) r) = (if key = k then w else applied_version key r)"
  by (simp add: applied_version_def apply_entry_def)

lemma version_apply [simp]: "rp_version (apply_entry (k, v, w) r) = max (rp_version r) w"
  by (simp add: apply_entry_def)

lemma log_ok_snoc: "log_ok (log @ [e]) \<longleftrightarrow> log_ok log \<and> snd (snd e) = int (length log) + 1"
  by (auto simp: log_ok_def nth_append less_Suc_eq)

lemma applied_all:
  "applied_version key (foldl (\<lambda>r e. apply_entry e r) r es) = (if key \<in> fst ` set es then last_version key es else applied_version key r)"
proof (induction es rule: rev_induct)
  case (snoc e es)
  obtain k v w where "e = (k, v, w)" using prod_cases3 by blast
  then show ?case using snoc by auto
qed simp

lemma version_all:
  "log_ok es \<Longrightarrow> 0 \<le> rp_version r \<Longrightarrow> rp_version (foldl (\<lambda>r e. apply_entry e r) r es) = max (rp_version r) (int (length es))"
proof (induction es rule: rev_induct)
  case (snoc e es)
  obtain k v w where "e = (k, v, w)" using prod_cases3 by blast
  then show ?case using snoc by (simp add: log_ok_snoc)
qed simp

lemma last_version_absent: "key \<notin> fst ` set log \<Longrightarrow> last_version key log = 0"
proof (induction log rule: rev_induct)
  case (snoc e es)
  obtain k v w where "e = (k, v, w)" using prod_cases3 by blast
  then show ?case using snoc by auto
qed (simp add: last_version_def)

lemma last_version_bound: "log_ok log \<Longrightarrow> 0 \<le> last_version key log \<and> last_version key log \<le> int (length log)"
proof (induction log rule: rev_induct)
  case (snoc e es)
  obtain k v w where "e = (k, v, w)" using prod_cases3 by blast
  then show ?case using snoc by (auto simp: log_ok_snoc)
qed (simp add: last_version_def)

lemma last_version_append: "log_ok (log @ es) \<Longrightarrow> last_version key log \<le> last_version key (log @ es)"
proof (induction es rule: rev_induct)
  case (snoc e es)
  obtain k v w where e: "e = (k, v, w)" using prod_cases3 by blast
  have "log_ok (log @ es)" "w = int (length (log @ es)) + 1" using snoc.prems by (simp_all add: log_ok_snoc e flip: append_assoc)
  moreover have "last_version key log \<le> last_version key (log @ es)" using snoc.IH calculation(1) by blast
  moreover have "last_version key (log @ es) \<le> int (length (log @ es))" using last_version_bound calculation(1) by blast
  ultimately show ?case by (simp add: e flip: append_assoc)
qed simp

lemma last_version_take:
  assumes "log_ok (log @ es)" "m \<le> n"
  shows "last_version key (take m log) \<le> last_version key (take n (log @ es))"
proof -
  have ok: "log_ok (take n (log @ es))" using assms(1) by (auto simp: log_ok_def simp del: take_append)
  have "take n (log @ es) = take m log @ drop (length (take m log)) (take n (log @ es))"
    using assms(2) by (cases "m \<le> length log") (auto simp: take_add [symmetric] min_def drop_take take_append intro: append_take_drop_id [symmetric])
  then show ?thesis using last_version_append ok by metis
qed

lemma replica_ok_append:
  assumes "replica_ok log r"
  shows "replica_ok (log @ es) r"
  using assms by (simp add: replica_ok_def)

lemma write_replica_ok:
  assumes "replica_ok log r" "rp_version r = int (length log)"
  shows "replica_ok (log @ [(key, val, int (length log) + 1)]) (apply_entry (key, val, int (length log) + 1) r)"
proof -
  have "nat (max (rp_version r) (int (length log) + 1)) = Suc (length log)" using assms(2) by simp
  then show ?thesis using assms by (simp add: replica_ok_def)
qed

lemma replicate_replica_ok:
  assumes "replica_ok log r" "log_ok log"
  shows "replica_ok log (foldl (\<lambda>r e. apply_entry e r) r log)"
proof -
  have v: "0 \<le> rp_version r" "nat (rp_version r) \<le> length log" using assms(1) by (simp_all add: replica_ok_def)
  have "applied_version key (foldl (\<lambda>r e. apply_entry e r) r log) = last_version key log" for key
  proof (cases "key \<in> fst ` set log")
    case False
    then have "key \<notin> fst ` set (take (nat (rp_version r)) log)" using set_take_subset by fastforce
    then show ?thesis using False assms(1) last_version_absent by (simp add: applied_all replica_ok_def)
  qed (simp add: applied_all)
  then show ?thesis using v version_all [OF assms(2) v(1)] by (simp add: replica_ok_def)
qed

lemma se_write_state:
  "snd (se_write args s) = s \<or> (\<exists>client i key val. uint_arg args 1 = Inr i \<and> i < length (se_replicas s) \<and>
     (let v = wrap_i64 (int (length (se_log s)) + 1); x = session_of client s in
      snd (se_write args s) = s\<lparr>se_replicas := (se_replicas s)[i := apply_entry (key, val, v) (se_replicas s ! i)],
        se_sessions := btree_insert client (x\<lparr>ss_writes := max (ss_writes x) v\<rparr>) (se_sessions s), se_log := se_log s @ [(key, val, v)]\<rparr>))"
proof (cases "snd (se_write args s) = s")
  case False
  obtain client where "word_arg args 0 = Inr client" using False by (cases "word_arg args 0") (simp_all add: se_write_def)
  moreover obtain i where "uint_arg args 1 = Inr i" using False calculation by (cases "uint_arg args 1") (simp_all add: se_write_def)
  moreover obtain key where "word_arg args 2 = Inr key" using False calculation by (cases "word_arg args 2") (simp_all add: se_write_def)
  moreover obtain val where "int_arg args 3 = Inr val" using False calculation by (cases "int_arg args 3") (simp_all add: se_write_def)
  moreover have "i < length (se_replicas s)" using False calculation by (simp add: se_write_def split: if_splits)
  ultimately show ?thesis
    by (intro disjI2 exI [of _ client] exI [of _ i] exI [of _ key] exI [of _ val]) (simp add: se_write_def session_of_def Let_def)
qed simp

lemma se_read_state:
  "snd (se_read args s) = s \<or> (\<exists>client i. i < length (se_replicas s) \<and>
     (let x = session_of client s in snd (se_read args s) =
        s\<lparr>se_sessions := btree_insert client (x\<lparr>ss_reads := max (ss_reads x) (rp_version (se_replicas s ! i))\<rparr>) (se_sessions s)\<rparr>))"
proof (cases "snd (se_read args s) = s")
  case False
  obtain client where "word_arg args 0 = Inr client" using False by (cases "word_arg args 0") (simp_all add: se_read_def)
  moreover obtain i where "uint_arg args 1 = Inr i" using False calculation by (cases "uint_arg args 1") (simp_all add: se_read_def)
  moreover obtain key where "word_arg args 2 = Inr key" using False calculation by (cases "word_arg args 2") (simp_all add: se_read_def)
  moreover have "i < length (se_replicas s)" using False calculation by (simp add: se_read_def split: if_splits)
  ultimately show ?thesis using False
    by (intro disjI2 exI [of _ client] exI [of _ i]) (simp add: se_read_def Let_def split: if_splits)
qed simp

lemma se_replicate_state:
  "snd (se_replicate args s) = s \<or> (\<exists>i < length (se_replicas s). snd (se_replicate args s) =
     s\<lparr>se_replicas := (se_replicas s)[i := foldl (\<lambda>r e. apply_entry e r) (se_replicas s ! i) (se_log s)]\<rparr>)"
proof (cases "snd (se_replicate args s) = s")
  case False
  obtain i where "uint_arg args 0 = Inr i" using False by (cases "uint_arg args 0") (simp_all add: se_replicate_def)
  moreover have "i < length (se_replicas s)" using False calculation by (simp add: se_replicate_def split: if_splits)
  ultimately show ?thesis by (intro disjI2 exI [of _ i]) (simp add: se_replicate_def Let_def)
qed simp

lemma update_all: "\<forall>x \<in> set xs. P x \<Longrightarrow> P y \<Longrightarrow> \<forall>x \<in> set (xs[i := y]). P x"
  using set_update_subset_insert [of xs i y] by blast

lemma session_step_ok:
  assumes ok: "se_ok s" and allowed: "writes_up_to_date s command args"
  shows "se_ok (snd (session_step s command args))"
proof -
  have reps: "\<forall>r \<in> set (se_replicas s). replica_ok (se_log s) r" and log: "log_ok (se_log s)" using ok by (simp_all add: se_ok_def)
  have small: "int (length (se_log s)) < i64_max - 1" using allowed by (simp add: writes_up_to_date_def)
  have init: "se_ok (snd (se_init args s))"
    using ok by (auto simp: se_init_def with_arg_def se_ok_def log_ok_def replica_ok_def replica_default_def last_version_def
        applied_version_def split: sum.split)
  have "se_ok (snd (se_set_guarantees args s))"
    using ok by (simp add: se_set_guarantees_def with_arg_def se_ok_def split: sum.split)
  moreover have "se_ok (snd (se_replicate args s))"
    using se_replicate_state [of args s]
  proof (elim disjE exE conjE)
    fix i
    assume i: "i < length (se_replicas s)" and st: "snd (se_replicate args s) =
        s\<lparr>se_replicas := (se_replicas s)[i := foldl (\<lambda>r e. apply_entry e r) (se_replicas s ! i) (se_log s)]\<rparr>"
    have "replica_ok (se_log s) (foldl (\<lambda>r e. apply_entry e r) (se_replicas s ! i) (se_log s))"
      using reps i by (intro replicate_replica_ok log) simp
    from update_all [OF reps this] show ?thesis using st log by (simp add: se_ok_def)
  qed (use ok in simp)
  moreover have "se_ok (snd (se_read args s))" using se_read_state [of args s] ok by (auto simp: se_ok_def Let_def)
  moreover have "se_ok (snd (se_write args s))" if w: "command = ''write''"
    using se_write_state [of args s]
  proof (elim disjE exE conjE)
    fix client i key val
    let ?v = "wrap_i64 (int (length (se_log s)) + 1)"
    assume i: "uint_arg args 1 = Inr i" "i < length (se_replicas s)"
      and st: "let v = ?v; x = session_of client s in
        snd (se_write args s) = s\<lparr>se_replicas := (se_replicas s)[i := apply_entry (key, val, v) (se_replicas s ! i)],
          se_sessions := btree_insert client (x\<lparr>ss_writes := max (ss_writes x) v\<rparr>) (se_sessions s), se_log := se_log s @ [(key, val, v)]\<rparr>"
    have v: "?v = int (length (se_log s)) + 1" using small by (intro wrap_i64_in) (simp add: in_i64_def i64_min_def)
    have "rp_version (se_replicas s ! i) = int (length (se_log s))" using allowed w i by (simp add: writes_up_to_date_def)
    then have new: "replica_ok (se_log s @ [(key, val, ?v)]) (apply_entry (key, val, ?v) (se_replicas s ! i))"
      unfolding v using reps i(2) by (intro write_replica_ok) simp_all
    have "\<forall>r \<in> set (se_replicas s). replica_ok (se_log s @ [(key, val, ?v)]) r" using reps replica_ok_append by blast
    from update_all [OF this new] show ?thesis using st log v by (simp add: se_ok_def Let_def log_ok_snoc)
  qed (use ok in simp)
  ultimately show ?thesis using ok init by (simp add: session_step_def)
qed

interpretation up_to_date: topic_invariant session_step writes_up_to_date se_ok
  by unfold_locales (rule session_step_ok)

text \<open>What a session has seen of a key, by the floor of its client.\<close>

definition has_seen :: "string \<Rightarrow> string \<Rightarrow> int \<Rightarrow> session \<Rightarrow> bool" where
  "has_seen client key v s \<longleftrightarrow> se_ok s \<and> v \<le> last_version key (take (nat (se_floor client s)) (se_log s))"

definition no_new_store :: "session \<Rightarrow> string \<Rightarrow> string list \<Rightarrow> bool" where
  "no_new_store s command args \<longleftrightarrow> writes_up_to_date s command args \<and> command \<noteq> ''init''"

lemma session_of_insert [simp]:
  "session_of c (s\<lparr>se_sessions := btree_insert d x (se_sessions s)\<rparr>) = (if c = d then x else session_of c s)"
  by (simp add: session_of_def)

lemma session_of_more:
  "session_of c (s\<lparr>se_replicas := rs, se_sessions := btree_insert d x (se_sessions s), se_log := es\<rparr>) = (if c = d then x else session_of c s)"
  "session_of c (s\<lparr>se_replicas := rs\<rparr>) = session_of c s"
  "session_of c (s\<lparr>se_guarantees := b\<rparr>) = session_of c s"
  by (simp_all add: session_of_def)

text \<open>Neither a floor nor the log ever shrinks.\<close>

lemma step_grows:
  assumes "no_new_store s command args"
  shows "se_floor c s \<le> se_floor c (snd (session_step s command args)) \<and> (\<exists>es. se_log (snd (session_step s command args)) = se_log s @ es)"
proof -
  have "se_floor c s \<le> se_floor c (snd (se_write args s)) \<and> (\<exists>es. se_log (snd (se_write args s)) = se_log s @ es)"
    using se_write_state [of args s] by (auto simp: se_floor_def session_of_more Let_def)
  moreover have "se_floor c s \<le> se_floor c (snd (se_read args s)) \<and> (\<exists>es. se_log (snd (se_read args s)) = se_log s @ es)"
    using se_read_state [of args s] by (auto simp: se_floor_def Let_def)
  moreover have "se_floor c s \<le> se_floor c (snd (se_replicate args s)) \<and> (\<exists>es. se_log (snd (se_replicate args s)) = se_log s @ es)"
    using se_replicate_state [of args s] by (auto simp: se_floor_def session_of_more)
  moreover have "se_floor c s \<le> se_floor c (snd (se_set_guarantees args s)) \<and> (\<exists>es. se_log (snd (se_set_guarantees args s)) = se_log s @ es)"
    by (simp add: se_set_guarantees_def with_arg_def se_floor_def session_of_more split: sum.split)
  ultimately show ?thesis using assms by (simp add: session_step_def no_new_store_def)
qed

lemma has_seen_step:
  assumes "has_seen client key v s" "no_new_store s command args"
  shows "has_seen client key v (snd (session_step s command args))"
proof -
  let ?s = "snd (session_step s command args)"
  have ok: "se_ok s" "se_ok ?s" using assms session_step_ok by (simp_all add: has_seen_def no_new_store_def)
  obtain es where "se_floor client s \<le> se_floor client ?s" "se_log ?s = se_log s @ es" using step_grows [OF assms(2)] by blast
  then have "last_version key (take (nat (se_floor client s)) (se_log s)) \<le> last_version key (take (nat (se_floor client ?s)) (se_log ?s))"
    using last_version_take ok(2) by (simp add: se_ok_def nat_mono)
  then show ?thesis using assms(1) ok(2) by (simp add: has_seen_def)
qed

interpretation seen: topic_invariant session_step no_new_store "has_seen client key v"
  by unfold_locales (rule has_seen_step)

text \<open>The version an answer names: that of a write, or of what a read served.\<close>

definition version_of :: "json \<Rightarrow> int option" where
  "version_of answer =
     (case answer of
        JObj fs \<Rightarrow> (case map_of fs ''version'' of Some (JInt v) \<Rightarrow> Some v | _ \<Rightarrow> None)
      | _ \<Rightarrow> None)"

lemma no_version [simp]:
  "version_of (reply_err m) = None" "version_of (missing_replica i) = None"
  by (simp_all add: version_of_def reply_err_def missing_replica_def)

lemma arg_error_no_version:
  "uint_arg args i = Inl e \<Longrightarrow> version_of e = None" "int_arg args i = Inl e \<Longrightarrow> version_of e = None" "word_arg args i = Inl e \<Longrightarrow> version_of e = None"
  by (auto simp: uint_arg_def int_arg_def word_arg_def arg_missing_def ok_or_def split: option.splits sum.splits if_splits)

lemma read_answer:
  assumes "version_of (fst (se_read (client # args) s)) = Some w"
  obtains i key where "uint_arg (client # args) 1 = Inr i" "word_arg (client # args) 2 = Inr key" "i < length (se_replicas s)"
    "w = applied_version key (se_replicas s ! i)"
    "se_guarantees s \<Longrightarrow> se_floor client s \<le> rp_version (se_replicas s ! i)"
    "rp_version (se_replicas s ! i) \<le> se_floor client (snd (se_read (client # args) s))"
    "se_log (snd (se_read (client # args) s)) = se_log s"
proof -
  have c: "word_arg (client # args) 0 = Inr client" by (simp add: word_arg_def arg_def ok_or_def)
  obtain i where i: "uint_arg (client # args) 1 = Inr i"
    using assms c arg_error_no_version(1) by (cases "uint_arg (client # args) 1") (auto simp: se_read_def)
  obtain key where k: "word_arg (client # args) 2 = Inr key"
    using assms c i arg_error_no_version(3) by (cases "word_arg (client # args) 2") (auto simp: se_read_def)
  have l: "i < length (se_replicas s)" using assms c i k by (auto simp: se_read_def split: if_splits)
  let ?f = "if se_guarantees s then se_floor client s else 0"
  have f: "?f \<le> rp_version (se_replicas s ! i)"
    using assms c i k l by (auto simp: se_read_def Let_def version_of_def split: if_splits)
  then have a: "w = applied_version key (se_replicas s ! i)"
    using assms c i k l by (auto simp: se_read_def Let_def version_of_def split: if_splits)
  show thesis
    by (rule that [OF i k l a]) (use c i k l f in \<open>auto simp: se_read_def Let_def se_floor_def split: if_splits\<close>)
qed

lemma word_third [simp]: "word_arg (a # b # c # args) 2 = Inr c"
  by (simp add: word_arg_def arg_def ok_or_def)

lemma replica_reads: "se_ok s \<Longrightarrow> i < length (se_replicas s) \<Longrightarrow>
    applied_version key (se_replicas s ! i) = last_version key (take (nat (rp_version (se_replicas s ! i))) (se_log s))"
  by (simp add: se_ok_def replica_ok_def)

lemma last_version_mono: "log_ok log \<Longrightarrow> m \<le> n \<Longrightarrow> last_version key (take (nat m) log) \<le> last_version key (take (nat n) log)"
  using last_version_take [of log "[]" "nat m" "nat n"] by (simp add: nat_mono)

lemma seen_after_read:
  assumes "se_ok s" "version_of (fst (se_read (client # i # key # args) s)) = Some v"
  shows "v \<le> last_version key (take (nat (se_floor client (snd (se_read (client # i # key # args) s)))) (se_log (snd (se_read (client # i # key # args) s))))"
  using assms(2)
proof (rule read_answer)
  fix j k
  assume "word_arg (client # i # key # args) 2 = Inr k" and j: "j < length (se_replicas s)" "v = applied_version k (se_replicas s ! j)"
    and f: "rp_version (se_replicas s ! j) \<le> se_floor client (snd (se_read (client # i # key # args) s))"
    and l: "se_log (snd (se_read (client # i # key # args) s)) = se_log s"
  then have "v = last_version key (take (nat (rp_version (se_replicas s ! j))) (se_log s))" using replica_reads [OF assms(1) j(1)] by simp
  moreover have "log_ok (se_log s)" using assms(1) by (simp add: se_ok_def)
  ultimately show ?thesis using last_version_mono [OF _ f] l by simp
qed

lemma seen_after_write:
  assumes "int (length (se_log s)) < i64_max - 1" "version_of (fst (se_write (client # i # key # args) s)) = Some v"
  shows "v \<le> last_version key (take (nat (se_floor client (snd (se_write (client # i # key # args) s)))) (se_log (snd (se_write (client # i # key # args) s))))"
proof -
  let ?args = "client # i # key # args" and ?n = "int (length (se_log s)) + 1"
  have n: "wrap_i64 ?n = ?n" using assms(1) by (intro wrap_i64_in) (simp add: in_i64_def i64_min_def)
  have c: "word_arg ?args 0 = Inr client" by (simp add: word_arg_def arg_def ok_or_def)
  obtain j where j: "uint_arg ?args 1 = Inr j"
    using assms(2) c arg_error_no_version(1) by (cases "uint_arg ?args 1") (auto simp: se_write_def)
  obtain val where x: "int_arg ?args 3 = Inr val"
    using assms(2) c j arg_error_no_version(2) by (cases "int_arg ?args 3") (auto simp: se_write_def)
  have l: "j < length (se_replicas s)" using assms(2) c j x by (auto simp: se_write_def split: if_splits)
  have "v = ?n" using assms(2) c j x l n by (simp add: se_write_def Let_def version_of_def)
  moreover have "se_log (snd (se_write ?args s)) = se_log s @ [(key, val, ?n)]" using c j x l n by (simp add: se_write_def Let_def)
  moreover have "?n \<le> se_floor client (snd (se_write ?args s))"
    using c j x l n by (simp add: se_write_def Let_def se_floor_def session_of_def)
  ultimately show ?thesis by (simp add: nat_le_iff)
qed

text \<open>C34: the session guarantees. As long as writes go to replicas that are up to date, a session that was answered
  with some version of a key, by writing it or by reading it, never reads an older version of that key later, from
  whatever replica: every read it is served with the guarantees on names that version or a later one.\<close>
theorem sessions_never_read_back:
  assumes "session_ok writes_up_to_date session_step before session_default"
    and "s = snd (topic_run session_step before session_default)" "command \<in> {''write'', ''read''}"
    and "writes_up_to_date s command (client # i # key # args)"
    and "session_step s command (client # i # key # args) = (answer, s')" "version_of answer = Some v"
    and "session_ok no_new_store session_step after s'" "s'' = snd (topic_run session_step after s')" "se_guarantees s''"
    and "version_of (fst (session_step s'' ''read'' (client # j # key # rest))) = Some w"
  shows "v \<le> w"
proof -
  have "se_ok session_default" by (simp add: se_ok_def session_default_def log_ok_def)
  then have ok: "se_ok s" unfolding assms(2) using assms(1) by (rule up_to_date.session_keeps)
  have "v \<le> last_version key (take (nat (se_floor client s')) (se_log s'))"
    using seen_after_read [OF ok, of client i key args v] seen_after_write [of s client i key args v] assms(3-6)
    by (auto simp: session_step_def writes_up_to_date_def)
  moreover have "se_ok s'" using session_step_ok [OF ok assms(4)] assms(5) by simp
  ultimately have "has_seen client key v s'" by (simp add: has_seen_def)
  then have seen: "has_seen client key v s''" unfolding assms(8) using assms(7) by (rule seen.session_keeps)
  then have ok'': "se_ok s''" by (simp add: has_seen_def)
  have "version_of (fst (se_read (client # j # key # rest) s'')) = Some w" using assms(10) by (simp add: session_step_def)
  then show ?thesis
  proof (rule read_answer)
    fix m k
    assume k: "word_arg (client # j # key # rest) 2 = Inr k" and m: "m < length (se_replicas s'')" "w = applied_version k (se_replicas s'' ! m)"
      and f: "se_guarantees s'' \<Longrightarrow> se_floor client s'' \<le> rp_version (se_replicas s'' ! m)"
    then have w: "w = last_version key (take (nat (rp_version (se_replicas s'' ! m))) (se_log s''))" using k m replica_reads [OF ok'' m(1)] by simp
    have log: "log_ok (se_log s'')" using ok'' by (simp add: se_ok_def)
    have "v \<le> last_version key (take (nat (se_floor client s'')) (se_log s''))" using seen by (simp add: has_seen_def)
    also have "\<dots> \<le> w" unfolding w by (rule last_version_mono [OF log f [OF assms(9)]])
    finally show ?thesis .
  qed
qed

lemma digits [simp]: "parse_i64 ''0'' = Some 0" "parse_i64 ''1'' = Some 1" "parse_i64 ''2'' = Some 2"
  by (simp_all add: parse_i64_def parse_uint_def digit_of_def i64_max_def of_char_def)

text \<open>A write at replica 0, replica 1 catches up, and the writer reads there.\<close>

definition two_replicas :: "replica \<Rightarrow> replica \<Rightarrow> int \<Rightarrow> int \<Rightarrow> log_entry list \<Rightarrow> session" where
  "two_replicas a b w r log =
     \<lparr>se_replicas = [a, b], se_sessions = (if w = 0 then [] else [(''c'', \<lparr>ss_writes = w, ss_reads = r\<rparr>)]), se_log = log, se_guarantees = True\<rparr>"

abbreviation x_at :: "int \<Rightarrow> replica" where
  "x_at v \<equiv> \<lparr>rp_applied = [(''x'', v)], rp_version = v\<rparr>"

lemmas session_simps = session_step_def se_init_def se_write_def se_replicate_def session_default_def replica_default_def apply_entry_def
  session_of_def session_state_default_def uint_arg_def int_arg_def word_arg_def arg_def ok_or_def Let_def two_replicas_def
  wrap_i64_in in_i64_def i64_min_def i64_max_def numeral_2_eq_2

lemma catch_up_steps:
  "snd (session_step session_default ''init'' [''2'']) = two_replicas replica_default replica_default 0 0 []"
  "session_step (two_replicas replica_default replica_default 0 0 []) ''write'' [''c'', ''0'', ''x'', ''1''] =
     (JObj [(''ok'', JBool True), (''version'', JInt 1), (''replica'', JInt 0)], two_replicas (x_at 1) replica_default 1 0 [(''x'', 1, 1)])"
  "snd (session_step (two_replicas (x_at 1) replica_default 1 0 [(''x'', 1, 1)]) ''replicate'' [''1'']) =
     two_replicas (x_at 1) (x_at 1) 1 0 [(''x'', 1, 1)]"
  "version_of (fst (session_step (two_replicas (x_at 1) (x_at 1) 1 0 [(''x'', 1, 1)]) ''read'' [''c'', ''1'', ''x''])) = Some 1"
  by (simp_all add: session_simps se_read_def se_floor_def applied_version_def version_of_def count_json_def)

theorem sessions_never_read_back_witness:
  "let s = snd (topic_run session_step [(''init'', [''2''])] session_default);
       (answer, s') = session_step s ''write'' [''c'', ''0'', ''x'', ''1''];
       s'' = snd (topic_run session_step [(''replicate'', [''1''])] s')
   in version_of answer = Some 1 \<and> version_of (fst (session_step s'' ''read'' [''c'', ''1'', ''x''])) = Some 1 \<and> (1::int) \<le> 1"
proof -
  let ?s = "two_replicas replica_default replica_default 0 0 []" and ?s' = "two_replicas (x_at 1) replica_default 1 0 [(''x'', 1, 1)]"
    and ?s'' = "two_replicas (x_at 1) (x_at 1) 1 0 [(''x'', 1, 1)]"
  have run: "?s = snd (topic_run session_step [(''init'', [''2''])] session_default)"
      "?s'' = snd (topic_run session_step [(''replicate'', [''1''])] ?s')"
    unfolding topic_run_Cons catch_up_steps by simp_all
  have "session_ok writes_up_to_date session_step [(''init'', [''2''])] session_default"
    by (simp add: writes_up_to_date_def session_default_def i64_max_def)
  moreover have "writes_up_to_date ?s ''write'' [''c'', ''0'', ''x'', ''1'']"
    by (simp add: writes_up_to_date_def two_replicas_def replica_default_def uint_arg_def int_arg_def arg_def ok_or_def i64_max_def)
  moreover have "session_ok no_new_store session_step [(''replicate'', [''1''])] ?s'"
    by (simp add: no_new_store_def writes_up_to_date_def two_replicas_def i64_max_def)
  ultimately have "(1::int) \<le> 1"
    by (intro sessions_never_read_back [OF _ run(1) _ _ catch_up_steps(2) _ _ run(2) _ catch_up_steps(4), where v = 1])
       (simp_all add: version_of_def, simp add: two_replicas_def)
  then show ?thesis using run catch_up_steps by (simp add: version_of_def)
qed

text \<open>Without it, the version of a replica says nothing about what it holds: a client writes \<open>x\<close> at replica 0 and \<open>y\<close> at
  replica 1, and reading \<open>x\<close> at replica 1 it is served the value from before its own write.\<close>

definition own_write_lost :: "(string \<times> string list) list" where
  "own_write_lost = [(''init'', [''2'']), (''write'', [''c'', ''0'', ''x'', ''1'']), (''write'', [''c'', ''1'', ''y'', ''2''])]"

lemma own_write_lost_steps:
  "snd (session_step session_default ''init'' [''2'']) =
     \<lparr>se_replicas = [replica_default, replica_default], se_sessions = [], se_log = [], se_guarantees = True\<rparr>"
  "snd (session_step \<lparr>se_replicas = [replica_default, replica_default], se_sessions = [], se_log = [], se_guarantees = True\<rparr>
      ''write'' [''c'', ''0'', ''x'', ''1'']) =
     \<lparr>se_replicas = [\<lparr>rp_applied = [(''x'', 1)], rp_version = 1\<rparr>, replica_default],
      se_sessions = [(''c'', \<lparr>ss_writes = 1, ss_reads = 0\<rparr>)], se_log = [(''x'', 1, 1)], se_guarantees = True\<rparr>"
  "snd (session_step \<lparr>se_replicas = [\<lparr>rp_applied = [(''x'', 1)], rp_version = 1\<rparr>, replica_default],
      se_sessions = [(''c'', \<lparr>ss_writes = 1, ss_reads = 0\<rparr>)], se_log = [(''x'', 1, 1)], se_guarantees = True\<rparr>
      ''write'' [''c'', ''1'', ''y'', ''2'']) =
     \<lparr>se_replicas = [\<lparr>rp_applied = [(''x'', 1)], rp_version = 1\<rparr>, \<lparr>rp_applied = [(''y'', 2)], rp_version = 2\<rparr>],
      se_sessions = [(''c'', \<lparr>ss_writes = 2, ss_reads = 0\<rparr>)], se_log = [(''x'', 1, 1), (''y'', 2, 2)], se_guarantees = True\<rparr>"
  by (simp_all add: session_step_def se_init_def se_write_def session_default_def replica_default_def apply_entry_def
      session_of_def session_state_default_def uint_arg_def int_arg_def word_arg_def arg_def ok_or_def Let_def
      wrap_i64_in in_i64_def i64_min_def i64_max_def numeral_2_eq_2)

theorem own_write_not_read:
  "let s = snd (topic_run session_step own_write_lost session_default)
   in se_guarantees s \<and> ss_writes (session_of ''c'' s) = 2 \<and>
      map_of (case fst (session_step s ''read'' [''c'', ''1'', ''x'']) of JObj fs \<Rightarrow> fs | _ \<Rightarrow> []) ''value'' = Some (JInt 0) \<and>
      (''x'', 1, 1) \<in> set (se_log s)"
proof -
  have "snd (topic_run session_step own_write_lost session_default) =
     \<lparr>se_replicas = [\<lparr>rp_applied = [(''x'', 1)], rp_version = 1\<rparr>, \<lparr>rp_applied = [(''y'', 2)], rp_version = 2\<rparr>],
      se_sessions = [(''c'', \<lparr>ss_writes = 2, ss_reads = 0\<rparr>)], se_log = [(''x'', 1, 1), (''y'', 2, 2)], se_guarantees = True\<rparr>"
    unfolding own_write_lost_def topic_run_Cons own_write_lost_steps by simp
  then show ?thesis
    by (simp add: session_step_def se_read_def se_floor_def session_of_def applied_version_def logged_value_def find_first_def
        uint_arg_def int_arg_def word_arg_def arg_def ok_or_def Let_def)
qed

end
