(* ===== verification/Spec2Isabelle.thy ===== *)
theory Spec2Isabelle
  imports Lin_Theorems Tls_Theorems Kafka_Theorems Wasm_Theorems Elf_Theorems Elf_Library Dist_Slots Crdt_Theorems Oracle_Theorems Raft_Election Raft_Log Broadcast_Order Replication Clocks Consistency
begin

text \<open>
  The repository is a family of test suites for programs a learner writes: each suite drives such a
  program from outside and judges what it answers. This development models the parts of the suites
  on which those judgements rest, and the reference programs the suites are validated against, and
  proves what makes them right. A false verdict of a checker, a frame built wrong or a byte read
  wrong would show as a failure of the learner's program; that is what the theorems exclude.

  \<^bold>\<open>The parts and how they interact.\<close> \<^verbatim>\<open>disttest\<close> drives distributed systems: its checker decides
  whether a recorded history of a key/value store is linearizable, and its two ladders of exercises
  are checked against reference programs that read a command per line and answer one JSON object.
  \<^verbatim>\<open>tlstest\<close> is a TLS 1.3 client: byte grammar, messages, key schedule, record layer, connection.
  \<^verbatim>\<open>kafkatest\<close> is a Kafka client: record batches, cluster metadata, framing over a socket.
  \<^verbatim>\<open>wasmtest\<close> and \<^verbatim>\<open>linktest\<close> write the binary files they hand to a WebAssembly runtime and to a
  linker (modules, object files, archives), and \<^verbatim>\<open>linktest\<close> reads back what the linker wrote.
\<close>

section \<open>Theories and sources\<close>

text \<open>
  \<^item> \<^bold>\<open>Shared.\<close> \<^verbatim>\<open>Prelude\<close> (integer types, lists, the state-and-failure operations, \<open>Result\<close>
    values and \<open>?\<close>), \<^verbatim>\<open>Bytes\<close> (integers as bytes, slices, printing of numbers), \<^verbatim>\<open>Text\<close>, \<^verbatim>\<open>Str\<close>
    and \<^verbatim>\<open>Utf8\<close> (the standard library's strings), \<^verbatim>\<open>Leb128\<close>, \<^verbatim>\<open>Socket\<close> (what the next reads return,
    each after a delay), \<^verbatim>\<open>Btree\<close> (\<open>BTreeMap\<close> and \<open>BTreeSet\<close> in the order they iterate).
  \<^item> \<^bold>\<open>Linearizability checker\<close>, \<^verbatim>\<open>disttest/src/lin/mod.rs\<close>. \<^verbatim>\<open>Lin_History\<close> (data, recorder, sequential
    register), \<^verbatim>\<open>Lin_Search\<close> (\<open>Search\<close> with bitmap, memo table and budget), \<^verbatim>\<open>Lin_Check\<close> (bisection
    and verdicts) are the code; \<^verbatim>\<open>Lin_Spec\<close> states Herlihy and Wing's definition and shows that the
    search decides it; \<^verbatim>\<open>Lin_Prefix\<close> and \<^verbatim>\<open>Lin_Local\<close> (locales \<open>lossy_object\<close> and
    \<open>independent_objects\<close>) justify the bisection and the split by key; \<^verbatim>\<open>Lin_Correct\<close> and
    \<^verbatim>\<open>Lin_Theorems\<close> put them together.
  \<^item> \<^bold>\<open>TLS client\<close>, \<^verbatim>\<open>tlstest/src/tls\<close>. \<^verbatim>\<open>Tls_Types\<close> (\<^verbatim>\<open>mod.rs\<close>), \<^verbatim>\<open>Tls_Buf\<close> (\<^verbatim>\<open>buf.rs\<close>; locales \<open>wire\<close>,
    \<open>wire_exact\<close>, \<open>wire_loop\<close>, one interpretation per field kind), \<^verbatim>\<open>Tls_Msg\<close> and \<^verbatim>\<open>Tls_Wire\<close> (\<^verbatim>\<open>msg.rs\<close> and
    its grammar), \<^verbatim>\<open>Tls_Crypto\<close> and \<^verbatim>\<open>Tls_Schedule\<close> (\<^verbatim>\<open>crypto.rs\<close>), \<^verbatim>\<open>Tls_Record\<close> and \<^verbatim>\<open>Tls_Channel\<close>
    (\<^verbatim>\<open>record.rs\<close>; locale \<open>sealed_channel\<close>), \<^verbatim>\<open>Tls_Conn\<close> and \<^verbatim>\<open>Tls_Reassembly\<close> (\<^verbatim>\<open>conn.rs\<close>),
    \<^verbatim>\<open>Tls_Theorems\<close>.
  \<^item> \<^bold>\<open>Kafka client\<close>, \<^verbatim>\<open>kafkatest/src/proto\<close>. \<^verbatim>\<open>Kafka_Cursor\<close> (locale \<open>cursor_codec\<close>) and \<^verbatim>\<open>Kafka_Records\<close>
    (\<^verbatim>\<open>records.rs\<close>), \<^verbatim>\<open>Kafka_Meta\<close> (\<^verbatim>\<open>meta.rs\<close>), \<^verbatim>\<open>Kafka_Conn\<close> (\<^verbatim>\<open>mod.rs\<close>), \<^verbatim>\<open>Kafka_Theorems\<close>.
  \<^item> \<^bold>\<open>WebAssembly writer\<close>, \<^verbatim>\<open>wasmtest/src/wasm\<close>. \<^verbatim>\<open>Wasm_Leb\<close>, \<^verbatim>\<open>Wasm_Types\<close>, \<^verbatim>\<open>Wasm_Build\<close>
    (\<^verbatim>\<open>encode.rs\<close>), \<^verbatim>\<open>Wasm_Opcodes\<close> and \<^verbatim>\<open>Wasm_Instr\<close> (\<^verbatim>\<open>instr.rs\<close>); \<^verbatim>\<open>Wasm_Layout\<close> is the abstract layout of a
    module and the refinement, \<^verbatim>\<open>Wasm_Theorems\<close> the properties.
  \<^item> \<^bold>\<open>Object files and archives\<close>, \<^verbatim>\<open>linktest/src/elf\<close>. \<^verbatim>\<open>Elf_Types\<close> (\<^verbatim>\<open>mod.rs\<close>), \<^verbatim>\<open>Elf_Write\<close> (\<^verbatim>\<open>write.rs\<close>),
    \<^verbatim>\<open>Elf_Read\<close> (\<^verbatim>\<open>read.rs\<close>), \<^verbatim>\<open>Elf_Archive\<close> (\<^verbatim>\<open>archive.rs\<close>); \<^verbatim>\<open>Elf_Safety\<close> shows that no file makes the
    reader panic; \<^verbatim>\<open>Elf_Fields\<close> (locale \<open>field_codec\<close>), \<^verbatim>\<open>Elf_Plan\<close>, \<^verbatim>\<open>Elf_Symbols\<close>, \<^verbatim>\<open>Elf_Relocs\<close>, \<^verbatim>\<open>Elf_Table\<close>,
    \<^verbatim>\<open>Elf_Roundtrip\<close> (locale \<open>pushed_list\<close>), \<^verbatim>\<open>Elf_Object\<close> and \<^verbatim>\<open>Elf_Parsed\<close> follow an object from the plan to the
    bytes and through the reader; \<^verbatim>\<open>Elf_Members\<close> and \<^verbatim>\<open>Elf_Library\<close> do it for archives; \<^verbatim>\<open>Elf_Theorems\<close>.
  \<^item> \<^bold>\<open>Reference programs\<close>, \<^verbatim>\<open>disttest/examples\<close>. \<^verbatim>\<open>Topics\<close> (arguments, answers, sessions; locale
    \<open>topic_invariant\<close>: a step that keeps an invariant keeps it through every session). \<^verbatim>\<open>Dist_Commit\<close>
    (\<^verbatim>\<open>alg/commit.rs\<close>), \<^verbatim>\<open>Dist_Atomic\<close> and \<^verbatim>\<open>Dist_Three\<close>; \<^verbatim>\<open>Dist_Paxos\<close> (\<^verbatim>\<open>alg/paxos.rs\<close>), \<^verbatim>\<open>Dist_Agreement\<close>
    (the network around the program), \<^verbatim>\<open>Dist_Quorum\<close> and \<^verbatim>\<open>Dist_Slots\<close>; \<^verbatim>\<open>Crdt\<close> (\<^verbatim>\<open>prim/crdt.rs\<close>), \<^verbatim>\<open>Crdt_Laws\<close>
    (locale \<open>replicas\<close>: merging is a join), \<^verbatim>\<open>Crdt_More\<close> and \<^verbatim>\<open>Crdt_Theorems\<close>.
    \<^verbatim>\<open>Raft\<close> and \<^verbatim>\<open>Raft_Config\<close> (\<^verbatim>\<open>alg/raft.rs\<close>; \<^verbatim>\<open>Raft_Config\<close> also shows that neighbouring configurations
    share a voter), \<^verbatim>\<open>Raft_Election\<close> (the cluster around the election topic), \<^verbatim>\<open>Raft_Log\<close> (log matching, the commit
    rule, compaction); \<^verbatim>\<open>Broadcast\<close> (\<^verbatim>\<open>alg/broadcast.rs\<close>) and \<^verbatim>\<open>Broadcast_Order\<close> (FIFO, causal and total order,
    classes of failure detectors, reliable broadcast); \<^verbatim>\<open>Replication\<close> (\<^verbatim>\<open>alg/replication.rs\<close>: the register from
    quorums, chain replication, the reads of a Raft leader); \<^verbatim>\<open>Clocks\<close> (\<^verbatim>\<open>prim/clocks.rs\<close>);
    \<^verbatim>\<open>Consistency\<close> (\<^verbatim>\<open>alg/consistency.rs\<close>: the search for a legal order, session guarantees).
  \<^item> \<^bold>\<open>Oracles\<close>, \<^verbatim>\<open>disttest/src/prim/oracles.rs\<close>: the answers the tester expects. \<^verbatim>\<open>Oracles\<close> is the code,
    \<^verbatim>\<open>Oracle_Laws\<close> clocks, causal delivery and quorums, \<^verbatim>\<open>Oracle_Theorems\<close> Merkle trees, differing ranges and
    the replay of every order.
\<close>

section \<open>How the code is modelled\<close>

text \<open>
  A struct is a record, an enum a datatype, a Rust \<open>String\<close> its UTF-8 bytes as characters. Integers
  whose width matters are words (\<open>u8\<close> to \<open>u64\<close>); \<open>usize\<close> counts are \<open>nat\<close>, and where the sum of two offsets
  may leave \<open>usize\<close> (the ELF reader) the overflow is the value \<open>None\<close>, a panic. Signed arithmetic that
  can overflow wraps, as in a release build. A \<open>Result\<close> is a sum, with the error text the code
  formats. Stateful code passes its state along; the operations of \<^verbatim>\<open>Prelude\<close> combine state, failure and
  error. A loop over the socket recurses on what is left to read or on the time left. The search of the
  linearizability checker takes a depth bound, and one more than the number of open operations is
  shown to be enough; the walk over a replicated array takes as many levels as there are elements and
  one more, which is shown to be enough for every state that is a tree; the contiguous prefix of
  chosen slots takes one turn per slot and one more, which is always enough.

  \<^bold>\<open>Parameters.\<close> Hash, HMAC, AEAD, signatures, CRC, compression, the JSON parser and the Kafka message
  structs are third-party crates: fields of records or arguments of the definitions. What the theorems
  assume of them is documented behaviour of those crates (a hash has its length, opening undoes
  sealing, decompression undoes compression, a parser reads back the text that was written for a
  value), and each witness runs the theorem with concrete functions in their place.
\<close>

section \<open>What the theorems show\<close>

text \<open>
  The checker answers \<open>Linearizable\<close> exactly for linearizable histories when its budget suffices and is
  never wrong otherwise, and it always returns. Handshake messages survive every way of cutting them
  into records and reads; sealed records open in order and no nonce repeats; the key schedule is the
  tree of the RFC. Record batches, metadata, messages, modules, object files and archives come back as
  they were written, and the parsers accept nothing else or never panic, as stated. Two-phase commit is atomic
  where peers are asked only once the coordinator is down, three-phase commit never commits without
  every vote and never blocks, and the log decides after a crash. Two values ever learnt from Paxos
  agree. Replicas that saw the same states answer the same.
  No term of Raft has two leaders, appends keep logs matching, the leader commits what a majority holds,
  compaction is invisible, and neighbouring configurations share a voter. Reliable broadcast reaches every correct process, and the orders of
  delivery hold. The register from quorums is atomic, and vector clocks
  are the order of causes. The consistency checker of the reference programs is exact, and sessions never read back. A Merkle root identifies its
  leaves, and causal delivery never runs ahead of a cause.

  The library keeps two kinds of facts apart: definitions in the order of the source file, named after
  its functions, and lemmas in the theories listed after them. Locales state what one component owes to
  another and are interpreted on the model's own definitions in the theory that provides them. Some
  theorems record behaviour that is probably not meant (for instance \<open>consult_splits_decision\<close>,
  \<open>one_acceptor_counts_twice\<close>, \<open>merged_root_never_read\<close>, \<open>custom_annotation_shifted\<close>,
  \<open>lone_candidate_waits\<close>, \<open>repeated_member_splits\<close>).
\<close>

section \<open>Not modelled\<close>

text \<open>
  The stages of the five suites (scripts of requests and expectations), their runners, reports,
  catalogues and command lines, which are input and output; the web service \<^verbatim>\<open>byo\<close> (SQL text and HTTP
  handlers over libraries that are not in the repository) and the site; process and network control
  (\<^verbatim>\<open>disttest/src/cluster\<close>, \<^verbatim>\<open>disttest/src/node\<close>, \<^verbatim>\<open>disttest/src/etcd\<close>, the brokers, servers and runtimes the
  other suites start); the annotated examples, which are generated text; the floating-point parts
  (imbalance of a placement, Bloom and HyperLogLog estimates, token and leaky buckets, jitter), since
  the arithmetic of \<open>f64\<close> is not available here. Of the modelled files: X25519, P-256 and the verification of
  certificates in \<^verbatim>\<open>msg.rs\<close> and \<^verbatim>\<open>crypto.rs\<close>; the driver of a whole handshake (\<^verbatim>\<open>client.rs\<close>); the formatting of
  floats in \<^verbatim>\<open>instr.rs\<close>; the line loop of the reference programs' \<open>main\<close>.
\<close>

end
